(* ===== verification/Prelude.thy ===== *)
theory Prelude
  imports Complex_Main "HOL-Library.AList" "HOL-Library.Sublist" "HOL-Library.Product_Lexorder"
begin

text \<open>
  Shared vocabulary of the development: results of fallible code, the insertion-ordered
  dictionaries and sets of JavaScript (\<open>Map\<close>, \<open>Set\<close>), the rows of SQL tables, and the
  generic lemmas about them that every component uses.

  \<^item> A thrown error is \<open>Inl e\<close>, a normal return \<open>Inr v\<close>.
  \<^item> A JavaScript \<open>Map\<close> is an association list in insertion order. \<open>set\<close> on a present
    key keeps its position, \<open>set\<close> on a new key appends; that is \<open>AList.update\<close>. The
    interface \<open>kv_store\<close> states what clients rely on and is interpreted on these lists.
  \<^item> A JavaScript \<open>Set\<close> is a duplicate-free list in insertion order.
  \<^item> An SQL table is the list of its rows. \<open>update_where\<close>, \<open>delete_where\<close>,
    \<open>count_where\<close> are the statements UPDATE, DELETE and SELECT COUNT with their WHERE
    clause as a predicate.
\<close>

named_theorems table_simps \<open>rewrite rules for statements on tables\<close>

type_synonym ('e, 'a) result = "'e + 'a"
type_synonym ('k, 'v) js_map = "('k \<times> 'v) list"
type_synonym 'a js_set = "'a list"

section \<open>Strings\<close>

text \<open>Decimal digits of a number in a template literal, and \<open>split\<close> at a character.\<close>

fun nat_str :: "nat \<Rightarrow> string" where
  "nat_str n = (if n < 10 then [char_of (48 + n)] else nat_str (n div 10) @ [char_of (48 + n mod 10)])"

declare nat_str.simps [simp del]

lemma nat_str_digit [simp]: "n < 10 \<Longrightarrow> nat_str n = [char_of (48 + n)]"
  by (simp add: nat_str.simps)

primrec split_on :: "char \<Rightarrow> string \<Rightarrow> string list" where
  "split_on c [] = [[]]"
| "split_on c (x # xs) =
     (if x = c then [] # split_on c xs
      else (case split_on c xs of [] \<Rightarrow> [[x]] | y # ys \<Rightarrow> (x # y) # ys))"

lemma split_on_not_Nil [simp]: "split_on c xs \<noteq> []"
  by (induction xs) (auto split: list.splits)

section \<open>Sets in insertion order\<close>

definition set_add :: "'a \<Rightarrow> 'a js_set \<Rightarrow> 'a js_set" where
  "set_add x xs = (if x \<in> set xs then xs else xs @ [x])"

definition set_delete :: "'a \<Rightarrow> 'a js_set \<Rightarrow> 'a js_set" where
  "set_delete x xs = filter (\<lambda>y. y \<noteq> x) xs"

lemma set_set_add [simp]: "set (set_add x xs) = insert x (set xs)"
  by (auto simp: set_add_def)

lemma set_set_delete [simp]: "set (set_delete x xs) = set xs - {x}"
  by (auto simp: set_delete_def)

lemma distinct_set_add [simp]: "distinct xs \<Longrightarrow> distinct (set_add x xs)"
  by (simp add: set_add_def)

lemma distinct_set_delete [simp]: "distinct xs \<Longrightarrow> distinct (set_delete x xs)"
  by (simp add: set_delete_def)

lemma set_delete_empty_iff: "set_delete x xs = [] \<longleftrightarrow> set xs \<subseteq> {x}"
  by (auto simp: set_delete_def filter_empty_conv)

section \<open>The dictionary interface\<close>

locale kv_store =
  fixes get :: "'m \<Rightarrow> 'k \<Rightarrow> 'v option"
    and put :: "'k \<Rightarrow> 'v \<Rightarrow> 'm \<Rightarrow> 'm"
    and del :: "'k \<Rightarrow> 'm \<Rightarrow> 'm"
  assumes get_put: "get (put k v m) = (get m)(k \<mapsto> v)"
    and get_del: "get (del k m) = (get m)(k := None)"
begin

lemma get_put_same [simp]: "get (put k v m) k = Some v"
  by (simp add: get_put)

lemma get_put_other [simp]: "k' \<noteq> k \<Longrightarrow> get (put k v m) k' = get m k'"
  by (simp add: get_put)

lemma get_del_same [simp]: "get (del k m) k = None"
  by (simp add: get_del)

lemma get_del_other [simp]: "k' \<noteq> k \<Longrightarrow> get (del k m) k' = get m k'"
  by (simp add: get_del)

lemma get_fold_put_notin:
  "k \<notin> set (map fst kvs) \<Longrightarrow> get (fold (\<lambda>(k, v). put k v) kvs m) k = get m k"
  by (induction kvs arbitrary: m) auto

lemma get_fold_put:
  "distinct (map fst kvs) \<Longrightarrow> (k, v) \<in> set kvs \<Longrightarrow>
   get (fold (\<lambda>(k, v). put k v) kvs m) k = Some v"
proof (induction kvs arbitrary: m)
  case Nil
  then show ?case by simp
next
  case (Cons p kvs)
  then show ?case by (cases p) (auto simp: get_fold_put_notin)
qed

end

interpretation js_map: kv_store map_of AList.update AList.delete
  by unfold_locales (simp_all add: update_conv' delete_conv')

lemma map_of_in_keys: "map_of m k = Some v \<Longrightarrow> k \<in> fst ` set m"
  by (auto dest: map_of_SomeD intro: rev_image_eqI)

lemma length_update_le: "length m \<le> length (AList.update k v m)"
  by (induction m) auto

section \<open>Tables\<close>

definition update_where :: "('r \<Rightarrow> bool) \<Rightarrow> ('r \<Rightarrow> 'r) \<Rightarrow> 'r list \<Rightarrow> 'r list" where
  "update_where p f t = map (\<lambda>r. if p r then f r else r) t"

definition delete_where :: "('r \<Rightarrow> bool) \<Rightarrow> 'r list \<Rightarrow> 'r list" where
  "delete_where p t = filter (\<lambda>r. \<not> p r) t"

definition count_where :: "('r \<Rightarrow> bool) \<Rightarrow> 'r list \<Rightarrow> nat" where
  "count_where p t = length (filter p t)"

lemma update_where_Nil [table_simps]: "update_where p f [] = []"
  by (simp add: update_where_def)

lemma update_where_Cons [table_simps]:
  "update_where p f (r # t) = (if p r then f r else r) # update_where p f t"
  by (simp add: update_where_def)

lemma length_update_where [simp]: "length (update_where p f t) = length t"
  by (simp add: update_where_def)

lemma set_update_where: "set (update_where p f t) = (\<lambda>r. if p r then f r else r) ` set t"
  by (simp add: update_where_def)

lemma update_where_none: "\<forall>r \<in> set t. \<not> p r \<Longrightarrow> update_where p f t = t"
  by (simp add: update_where_def map_idI)

lemma map_update_where:
  "(\<And>r. p r \<Longrightarrow> g (f r) = g r) \<Longrightarrow> map g (update_where p f t) = map g t"
  by (simp add: update_where_def)

lemma in_update_whereE:
  assumes "r' \<in> set (update_where p f t)"
  obtains r where "r \<in> set t" "p r" "r' = f r" | "r' \<in> set t" "\<not> p r'"
  using assms by (auto simp: set_update_where split: if_splits)

lemma in_update_where_hit: "r \<in> set t \<Longrightarrow> p r \<Longrightarrow> f r \<in> set (update_where p f t)"
  by (force simp: set_update_where)

lemma in_update_where_miss: "r \<in> set t \<Longrightarrow> \<not> p r \<Longrightarrow> r \<in> set (update_where p f t)"
  by (force simp: set_update_where)

lemma count_where_append [table_simps]:
  "count_where p (t @ u) = count_where p t + count_where p u"
  by (simp add: count_where_def)

lemma count_where_Nil [table_simps]: "count_where p [] = 0"
  by (simp add: count_where_def)

lemma count_where_Cons [table_simps]:
  "count_where p (r # t) = (if p r then Suc (count_where p t) else count_where p t)"
  by (simp add: count_where_def)

lemma count_where_0_iff: "count_where p t = 0 \<longleftrightarrow> (\<forall>r \<in> set t. \<not> p r)"
  by (auto simp: count_where_def filter_empty_conv)

lemma count_where_update_le:
  "(\<And>r. q r \<Longrightarrow> p (f r) \<Longrightarrow> p r) \<Longrightarrow> count_where p (update_where q f t) \<le> count_where p t"
  by (induction t) (auto simp: table_simps)

lemma count_where_delete_le: "count_where p (delete_where q t) \<le> count_where p t"
  by (induction t) (auto simp: delete_where_def count_where_def)

text \<open>Rows identified by a key: at most one row has a given key, and lookup finds it.\<close>

lemma distinct_key_unique:
  "distinct (map k t) \<Longrightarrow> r \<in> set t \<Longrightarrow> r' \<in> set t \<Longrightarrow> k r = k r' \<Longrightarrow> r = r'"
  by (metis distinct_map inj_onD)

lemma find_key_Some:
  "distinct (map k t) \<Longrightarrow> r \<in> set t \<Longrightarrow> find (\<lambda>r'. k r' = k r) t = Some r"
  by (induction t) (auto intro: rev_image_eqI)

lemma find_key_None_iff: "find (\<lambda>r. k r = x) t = None \<longleftrightarrow> x \<notin> k ` set t"
  by (auto simp: find_None_iff)

lemma find_SomeD: "find p t = Some r \<Longrightarrow> r \<in> set t \<and> p r"
  by (auto simp: find_Some_iff)

lemma update_where_other_key:
  assumes "distinct (map k t)" "distinct (map k' t)" "r \<in> set t"
  shows "update_where (\<lambda>x. k x = k r) f t = update_where (\<lambda>x. k' x = k' r) f t"
proof -
  have "k x = k r \<longleftrightarrow> k' x = k' r" if "x \<in> set t" for x
    using distinct_key_unique [OF assms(1) that assms(3)] distinct_key_unique [OF assms(2) that assms(3)] by auto
  then show ?thesis by (simp add: update_where_def)
qed

lemma find_update_where_invariant:
  assumes "\<And>r. p (f r) = p r"
  shows "find p (update_where q f t) = map_option (\<lambda>r. if q r then f r else r) (find p t)"
  using assms by (induction t) (auto simp: table_simps)

lemma find_append: "find p (xs @ ys) = (case find p xs of Some x \<Rightarrow> Some x | None \<Rightarrow> find p ys)"
  by (induction xs) simp_all

lemma find_delete_where: "find p (delete_where q t) = find (\<lambda>r. p r \<and> \<not> q r) t"
  by (induction t) (auto simp: delete_where_def)

text \<open>The update hits one row: counting rows that pass a test changes by at most one.\<close>

lemma count_where_update_one:
  assumes "distinct (map k t)" "r \<in> set t" "q r" "\<And>r'. q r' \<Longrightarrow> k r' = k r"
    and "\<not> p r" "p (f r)"
  shows "count_where p (update_where q f t) = Suc (count_where p t)"
  using assms(1,2)
proof (induction t)
  case Nil
  then show ?case by simp
next
  case (Cons x t)
  show ?case
  proof (cases "x = r")
    case True
    have "\<not> q y" if "y \<in> set t" for y
    proof
      assume "q y"
      then have "k y = k x" using assms(4) True by simp
      with Cons.prems that show False by (auto simp: image_iff dest: sym)
    qed
    then have "\<forall>y \<in> set t. \<not> q y" by blast
    with True assms(3,5,6) show ?thesis by (simp add: table_simps update_where_none)
  next
    case False
    have "\<not> q x"
    proof
      assume "q x"
      then have "k x = k r" using assms(4) by simp
      with Cons.prems False show False by (auto simp: image_iff)
    qed
    with False Cons show ?thesis by (auto simp: table_simps)
  qed
qed

section \<open>Choosing by a comparator\<close>

text \<open>
  Two ways the code chooses: a loop that keeps the best element so far (\<open>pick_best\<close>) and
  \<open>Array.prototype.sort\<close>, a stable sort, followed by a search (\<open>sort_by\<close>). Both take the
  strict part \<open>before\<close> of the comparator. What they promise needs the comparator to be a
  strict weak order, which is the interface \<open>weak_order\<close>.
\<close>

primrec pick_best :: "('a \<Rightarrow> 'a \<Rightarrow> bool) \<Rightarrow> 'a option \<Rightarrow> 'a list \<Rightarrow> 'a option" where
  "pick_best before best [] = best"
| "pick_best before best (x # xs) =
     (case best of
        None \<Rightarrow> pick_best before (Some x) xs
      | Some b \<Rightarrow> pick_best before (Some (if before x b then x else b)) xs)"

primrec insert_by :: "('a \<Rightarrow> 'a \<Rightarrow> bool) \<Rightarrow> 'a \<Rightarrow> 'a list \<Rightarrow> 'a list" where
  "insert_by before x [] = [x]"
| "insert_by before x (y # ys) =
     (if before y x then y # insert_by before x ys else x # y # ys)"

primrec sort_by :: "('a \<Rightarrow> 'a \<Rightarrow> bool) \<Rightarrow> 'a list \<Rightarrow> 'a list" where
  "sort_by before [] = []"
| "sort_by before (x # xs) = insert_by before x (sort_by before xs)"

lemma set_insert_by [simp]: "set (insert_by before x ys) = insert x (set ys)"
  by (induction ys) auto

lemma set_sort_by [simp]: "set (sort_by before xs) = set xs"
  by (induction xs) auto

lemma length_insert_by [simp]: "length (insert_by before x ys) = Suc (length ys)"
  by (induction ys) auto

lemma length_sort_by [simp]: "length (sort_by before xs) = length xs"
  by (induction xs) auto

lemma distinct_insert_by [simp]:
  "distinct (insert_by before x ys) \<longleftrightarrow> x \<notin> set ys \<and> distinct ys"
  by (induction ys) auto

lemma distinct_sort_by [simp]: "distinct (sort_by before xs) = distinct xs"
  by (induction xs) auto

lemma insert_by_map:
  "(\<And>a b. lt (f a) (f b) = lt' a b) \<Longrightarrow> insert_by lt (f x) (map f ys) = map f (insert_by lt' x ys)"
  by (induction ys) simp_all

lemma sort_by_map:
  "(\<And>a b. lt (f a) (f b) = lt' a b) \<Longrightarrow> sort_by lt (map f xs) = map f (sort_by lt' xs)"
  by (induction xs) (simp_all add: insert_by_map)

lemma pick_best_Some_iff: "pick_best before best xs = None \<longleftrightarrow> best = None \<and> xs = []"
  by (induction xs arbitrary: best) (auto split: option.splits)

locale weak_order =
  fixes before :: "'a \<Rightarrow> 'a \<Rightarrow> bool"
  assumes asym: "before a b \<Longrightarrow> \<not> before b a"
    and negative_trans: "before a c \<Longrightarrow> before a b \<or> before b c"
begin

lemma irrefl [simp]: "\<not> before a a"
  using asym by blast

lemma not_before_trans: "\<not> before b a \<Longrightarrow> \<not> before c b \<Longrightarrow> \<not> before c a"
  using negative_trans by blast

lemma pick_best_Some_least:
  "pick_best before (Some b) xs = Some m \<Longrightarrow>
   m \<in> insert b (set xs) \<and> (\<forall>x \<in> insert b (set xs). \<not> before x m)"
proof (induction xs arbitrary: b)
  case Nil
  then show ?case by simp
next
  case (Cons x xs)
  let ?b = "if before x b then x else b"
  from Cons.prems have "pick_best before (Some ?b) xs = Some m" by simp
  from Cons.IH [OF this]
  have m: "m \<in> insert ?b (set xs)" and least: "\<forall>y \<in> insert ?b (set xs). \<not> before y m"
    by auto
  have "\<not> before x ?b" and "\<not> before b ?b" using asym by auto
  with least have "\<not> before x m" and "\<not> before b m"
    using not_before_trans by (metis insertI1)+
  with m least show ?case by (auto split: if_splits)
qed

lemma pick_best_least:
  "pick_best before None xs = Some m \<Longrightarrow> m \<in> set xs \<and> (\<forall>x \<in> set xs. \<not> before x m)"
  by (cases xs) (auto dest: pick_best_Some_least)

lemma sorted_insert_by:
  "sorted_wrt (\<lambda>a b. \<not> before b a) ys \<Longrightarrow> sorted_wrt (\<lambda>a b. \<not> before b a) (insert_by before x ys)"
proof (induction ys)
  case Nil
  then show ?case by simp
next
  case (Cons y ys)
  then have rest: "\<forall>z \<in> set ys. \<not> before z y" by simp
  show ?case
  proof (cases "before y x")
    case True
    with Cons asym show ?thesis by auto
  next
    case False
    with rest have "\<forall>z \<in> set ys. \<not> before z x" by (metis not_before_trans)
    with False Cons.prems show ?thesis by simp
  qed
qed

lemma sorted_sort_by: "sorted_wrt (\<lambda>a b. \<not> before b a) (sort_by before xs)"
  by (induction xs) (auto intro: sorted_insert_by)

lemma insert_by_first: "\<forall>y \<in> set ys. \<not> before y x \<Longrightarrow> insert_by before x ys = x # ys"
  by (cases ys) simp_all

lemma sort_by_sorted: "sorted_wrt (\<lambda>a b. \<not> before b a) xs \<Longrightarrow> sort_by before xs = xs"
  by (induction xs) (simp_all add: insert_by_first)

lemma insert_by_filter:
  assumes "sorted_wrt (\<lambda>a b. \<not> before b a) ys"
  shows "filter P (insert_by before x ys) = (if P x then insert_by before x (filter P ys) else filter P ys)"
  using assms
proof (induction ys)
  case Nil
  then show ?case by simp
next
  case (Cons y ys)
  show ?case
  proof (cases "before y x")
    case True
    with Cons show ?thesis by simp
  next
    case False
    with Cons.prems have "\<forall>z \<in> set (filter P (y # ys)). \<not> before z x"
      using not_before_trans by (metis filter_is_subset set_ConsD sorted_wrt.simps(2) subsetD)
    from insert_by_first [OF this] False show ?thesis by simp
  qed
qed

lemma sort_by_filter: "sort_by before (filter P xs) = filter P (sort_by before xs)"
  by (induction xs) (simp_all add: insert_by_filter [OF sorted_sort_by])

lemma find_sorted_least:
  "sorted_wrt (\<lambda>a b. \<not> before b a) xs \<Longrightarrow> find P xs = Some m \<Longrightarrow>
   m \<in> set xs \<and> P m \<and> (\<forall>x \<in> set xs. P x \<longrightarrow> \<not> before x m)"
  by (induction xs) (auto split: if_splits)

lemma find_sort_by_least:
  "find P (sort_by before xs) = Some m \<Longrightarrow>
   m \<in> set xs \<and> P m \<and> (\<forall>x \<in> set xs. P x \<longrightarrow> \<not> before x m)"
  using find_sorted_least [OF sorted_sort_by] by fastforce

end

text \<open>Comparing a rank in a linear order is a strict weak order.\<close>

locale ranked =
  fixes before :: "'a \<Rightarrow> 'a \<Rightarrow> bool"
    and rank :: "'a \<Rightarrow> 'r::linorder"
  assumes before_iff: "before a b \<longleftrightarrow> rank a < rank b"

sublocale ranked \<subseteq> weak_order before
  by unfold_locales (auto simp: before_iff)

context ranked
begin

lemma not_before_iff: "\<not> before a b \<longleftrightarrow> rank b \<le> rank a"
  by (simp add: before_iff not_less)

end

end
