(* ===== verification/Js_Values.thy ===== *)
theory Js_Values
  imports Prelude
begin

text \<open>
  The dynamically typed values the code inspects with \<open>typeof\<close>: JSON values and what a
  JSONB column of the database gives back. A number is a finite rational or one of the
  three non-finite values of IEEE arithmetic; counters, timestamps and versions are
  integers wherever the code keeps them typed.
\<close>

datatype js_num = Fin rat | NaN | PosInf | NegInf

datatype json =
    JNull
  | JBool bool
  | JNum js_num
  | JStr string
  | JArr "json list"
  | JObj "(string, json) js_map"

text \<open>Property access: \<open>None\<close> is \<open>undefined\<close>.\<close>

definition get_prop :: "(string, json) js_map \<Rightarrow> string \<Rightarrow> json option" where
  "get_prop o' k = map_of o' k"

text \<open>\<open>Number.isFinite(v)\<close> on a value that is a number, and JavaScript truthiness.\<close>

fun finite_num :: "json \<Rightarrow> rat option" where
  "finite_num (JNum (Fin q)) = Some q"
| "finite_num _ = None"

fun truthy :: "json option \<Rightarrow> bool" where
  "truthy None = False"
| "truthy (Some JNull) = False"
| "truthy (Some (JBool b)) = b"
| "truthy (Some (JNum (Fin q))) = (q \<noteq> 0)"
| "truthy (Some (JNum NaN)) = False"
| "truthy (Some (JNum _)) = True"
| "truthy (Some (JStr s)) = (s \<noteq> [])"
| "truthy (Some (JArr _)) = True"
| "truthy (Some (JObj _)) = True"

text \<open>
  \<open>String(v)\<close>. The decimal form of a number is the argument \<open>num_str\<close>. An array prints
  its elements separated by commas, with \<open>null\<close> as the empty string.
\<close>

fun js_String :: "(js_num \<Rightarrow> string) \<Rightarrow> json \<Rightarrow> string"
  and js_join :: "(js_num \<Rightarrow> string) \<Rightarrow> json list \<Rightarrow> string" where
  "js_String ns JNull = ''null''"
| "js_String ns (JBool b) = (if b then ''true'' else ''false'')"
| "js_String ns (JNum n) = ns n"
| "js_String ns (JStr s) = s"
| "js_String ns (JArr xs) = js_join ns xs"
| "js_String ns (JObj _) = ''[object Object]''"
| "js_join ns [] = []"
| "js_join ns [x] = (if x = JNull then [] else js_String ns x)"
| "js_join ns (x # y # xs) =
     (if x = JNull then [] else js_String ns x) @ '','' @ js_join ns (y # xs)"

text \<open>\<open>JSON.parse(JSON.stringify(v))\<close>: a number that is not finite becomes \<open>null\<close>.\<close>

fun to_json :: "json \<Rightarrow> json" where
  "to_json (JNum (Fin q)) = JNum (Fin q)"
| "to_json (JNum _) = JNull"
| "to_json (JArr xs) = JArr (map to_json xs)"
| "to_json (JObj m) = JObj (map (\<lambda>(k, v). (k, to_json v)) m)"
| "to_json v = v"

text \<open>Strings: the decimal form of an integer, white space, \<open>trim\<close>, \<open>join\<close>, \<open>\\d+\<close>.\<close>

definition int_str :: "int \<Rightarrow> string" where
  "int_str i = (if i < 0 then ''-'' @ nat_str (nat (- i)) else nat_str (nat i))"

definition is_js_space :: "char \<Rightarrow> bool" where
  "is_js_space c = (of_char c \<in> {9, 10, 11, 12, 13, 32, 160 :: nat})"

definition js_trim :: "string \<Rightarrow> string" where
  "js_trim s = rev (dropWhile is_js_space (rev (dropWhile is_js_space s)))"

fun join_with :: "string \<Rightarrow> string list \<Rightarrow> string" where
  "join_with sep [] = []"
| "join_with sep [x] = x"
| "join_with sep (x # y # xs) = x @ sep @ join_with sep (y # xs)"

definition is_digit :: "char \<Rightarrow> bool" where
  "is_digit c = (let n = of_char c :: nat in 48 \<le> n \<and> n \<le> 57)"

text \<open>
  \<open>JSON.stringify(v)\<close> as text. Quotes, backslashes and control characters are escaped;
  the decimal form of a finite number is \<open>ns\<close>.
\<close>

definition hex_digit :: "nat \<Rightarrow> char" where
  "hex_digit n = char_of (if n < 10 then 48 + n else 87 + n)"

definition json_char :: "char \<Rightarrow> string" where
  "json_char c =
     (let n = of_char c :: nat
      in if n = 34 \<or> n = 92 then [CHR 0x5C, c]
         else if n = 8 then [CHR 0x5C, CHR ''b''] else if n = 9 then [CHR 0x5C, CHR ''t'']
         else if n = 10 then [CHR 0x5C, CHR ''n''] else if n = 12 then [CHR 0x5C, CHR ''f'']
         else if n = 13 then [CHR 0x5C, CHR ''r'']
         else if n < 32 then [CHR 0x5C, CHR ''u'', CHR ''0'', CHR ''0'', hex_digit (n div 16), hex_digit (n mod 16)]
         else [c])"

definition json_quote :: "string \<Rightarrow> string" where
  "json_quote s = [CHR 0x22] @ concat (map json_char s) @ [CHR 0x22]"

fun json_text :: "(js_num \<Rightarrow> string) \<Rightarrow> json \<Rightarrow> string" where
  "json_text ns JNull = ''null''"
| "json_text ns (JBool b) = (if b then ''true'' else ''false'')"
| "json_text ns (JNum (Fin q)) = ns (Fin q)"
| "json_text ns (JNum _) = ''null''"
| "json_text ns (JStr s) = json_quote s"
| "json_text ns (JArr xs) = ''['' @ join_with '','' (map (json_text ns) xs) @ '']''"
| "json_text ns (JObj m) =
     ''{'' @ join_with '','' (map (\<lambda>(k, v). json_quote k @ '':'' @ json_text ns v) m) @ ''}''"

text \<open>
  A value read from a JSONB column. Values are written as \<open>JSON.stringify(v)\<close>, which the
  driver may store as a JSON string or as the JSON value itself, and the code accepts
  both. A string is kept here by what \<open>JSON.parse\<close> makes of its text: \<open>JText (Some v)\<close>
  is a string whose text parses to \<open>v\<close>, \<open>JText None\<close> a string whose text is not JSON.
  \<open>JSON.stringify\<close> of \<open>v\<close> is \<open>JText (Some v)\<close>.
\<close>

datatype jsonb = JVal json | JText "jsonb option"

abbreviation stringify :: "jsonb \<Rightarrow> jsonb" where
  "stringify v \<equiv> JText (Some v)"

text \<open>\<open>normalizeJsonValue\<close>: a string that parses is replaced by its parse, once.\<close>

fun normalizeJsonValue :: "jsonb \<Rightarrow> jsonb" where
  "normalizeJsonValue (JVal v) = JVal v"
| "normalizeJsonValue (JText (Some v)) = v"
| "normalizeJsonValue (JText None) = JText None"

lemma normalizeJsonValue_stringify [simp]: "normalizeJsonValue (stringify v) = v"
  by simp

end
