(* ===== verification/Job_Types.thy ===== *)
theory Job_Types
  imports Js_Values
begin

text \<open>
  The job vocabulary of \<^verbatim>\<open>src/jobs/types.ts\<close> and \<^verbatim>\<open>src/jobs/dedup.ts\<close>: job kinds,
  execution classes with their priorities, the status automaton, attempt limits and the
  duplicate check. The fields of the code's \<open>Job\<close> carry the prefix \<open>j_\<close>.
\<close>

section \<open>Kinds, classes and statuses\<close>

datatype job_kind =
    Memory_migrate | Memory_organize | Task_run | Search_rebuild
  | Maintenance_replay_projection | Maintenance_rebuild_derived | Maintenance_full
  | Cognition_thinker

datatype execution_class =
    Interactive_user_turn | Interactive_delegated_task | Background_memory_migrate
  | Background_memory_organize | Background_search_rebuild | Background_maintenance_replay
  | Background_maintenance_rebuild_derived | Background_maintenance_full
  | Background_autonomy | Background_cognition_thinker

datatype job_status = Pending | Running | Completed | Failed | Cancelled

record job =
  j_jobId :: string
  j_jobKey :: string
  j_kind :: job_kind
  j_executionClass :: execution_class
  j_sessionId :: "string option"
  j_agentId :: "string option"
  j_idempotencyKey :: "string option"
  j_payload :: json
  j_status :: job_status
  j_attempts :: int
  j_maxAttempts :: int
  j_retriable :: bool
  j_createdAt :: rat
  j_startedAt :: "int option"
  j_completedAt :: "int option"
  j_error :: "string option"
  j_ownershipAccepted :: bool

fun JOB_MAX_ATTEMPTS :: "job_kind \<Rightarrow> int" where
  "JOB_MAX_ATTEMPTS Memory_migrate = 2"
| "JOB_MAX_ATTEMPTS Memory_organize = 4"
| "JOB_MAX_ATTEMPTS Task_run = 1"
| "JOB_MAX_ATTEMPTS Search_rebuild = 3"
| "JOB_MAX_ATTEMPTS Maintenance_replay_projection = 2"
| "JOB_MAX_ATTEMPTS Maintenance_rebuild_derived = 3"
| "JOB_MAX_ATTEMPTS Maintenance_full = 1"
| "JOB_MAX_ATTEMPTS Cognition_thinker = 3"

record concurrency_caps =
  memory_migrate_per_agent_session :: nat
  memory_organize_global :: nat
  task_run_per_parent :: nat
  search_rebuild_global :: nat
  maintenance_replay_global :: nat
  maintenance_rebuild_derived_global :: nat
  maintenance_full_global :: nat
  chat_completions_global :: nat
  embedding_batches_global :: nat
  cognition_thinker_global :: nat

definition CONCURRENCY_CAPS :: concurrency_caps where
  "CONCURRENCY_CAPS =
     \<lparr>memory_migrate_per_agent_session = 1,
      memory_organize_global = 2,
      task_run_per_parent = 1,
      search_rebuild_global = 1,
      maintenance_replay_global = 1,
      maintenance_rebuild_derived_global = 1,
      maintenance_full_global = 1,
      chat_completions_global = 4,
      embedding_batches_global = 2,
      cognition_thinker_global = 4\<rparr>"

fun EXECUTION_CLASS_PRIORITY :: "execution_class \<Rightarrow> int" where
  "EXECUTION_CLASS_PRIORITY Interactive_user_turn = 1"
| "EXECUTION_CLASS_PRIORITY Interactive_delegated_task = 2"
| "EXECUTION_CLASS_PRIORITY Background_memory_migrate = 3"
| "EXECUTION_CLASS_PRIORITY Background_memory_organize = 4"
| "EXECUTION_CLASS_PRIORITY Background_search_rebuild = 4"
| "EXECUTION_CLASS_PRIORITY Background_maintenance_replay = 4"
| "EXECUTION_CLASS_PRIORITY Background_maintenance_rebuild_derived = 4"
| "EXECUTION_CLASS_PRIORITY Background_maintenance_full = 5"
| "EXECUTION_CLASS_PRIORITY Background_autonomy = 5"
| "EXECUTION_CLASS_PRIORITY Background_cognition_thinker = 3"

fun JOB_STATE_TRANSITIONS :: "job_status \<Rightarrow> job_status list" where
  "JOB_STATE_TRANSITIONS Pending = [Running, Cancelled]"
| "JOB_STATE_TRANSITIONS Running = [Completed, Failed, Pending, Cancelled]"
| "JOB_STATE_TRANSITIONS Completed = []"
| "JOB_STATE_TRANSITIONS Failed = [Pending]"
| "JOB_STATE_TRANSITIONS Cancelled = []"

definition canTransitionJobStatus :: "job_status \<Rightarrow> job_status \<Rightarrow> bool" where
  "canTransitionJobStatus from to' = (to' \<in> set (JOB_STATE_TRANSITIONS from))"

section \<open>The string literals of kinds, classes and statuses\<close>

fun kind_str :: "job_kind \<Rightarrow> string" where
  "kind_str Memory_migrate = ''memory.migrate''"
| "kind_str Memory_organize = ''memory.organize''"
| "kind_str Task_run = ''task.run''"
| "kind_str Search_rebuild = ''search.rebuild''"
| "kind_str Maintenance_replay_projection = ''maintenance.replay_projection''"
| "kind_str Maintenance_rebuild_derived = ''maintenance.rebuild_derived''"
| "kind_str Maintenance_full = ''maintenance.full''"
| "kind_str Cognition_thinker = ''cognition.thinker''"

fun class_str :: "execution_class \<Rightarrow> string" where
  "class_str Interactive_user_turn = ''interactive.user_turn''"
| "class_str Interactive_delegated_task = ''interactive.delegated_task''"
| "class_str Background_memory_migrate = ''background.memory_migrate''"
| "class_str Background_memory_organize = ''background.memory_organize''"
| "class_str Background_search_rebuild = ''background.search_rebuild''"
| "class_str Background_maintenance_replay = ''background.maintenance_replay''"
| "class_str Background_maintenance_rebuild_derived = ''background.maintenance_rebuild_derived''"
| "class_str Background_maintenance_full = ''background.maintenance_full''"
| "class_str Background_autonomy = ''background.autonomy''"
| "class_str Background_cognition_thinker = ''background.cognition_thinker''"

fun status_str :: "job_status \<Rightarrow> string" where
  "status_str Pending = ''pending''"
| "status_str Running = ''running''"
| "status_str Completed = ''completed''"
| "status_str Failed = ''failed''"
| "status_str Cancelled = ''cancelled''"

definition all_kinds :: "job_kind list" where
  "all_kinds =
     [Memory_migrate, Memory_organize, Task_run, Search_rebuild,
      Maintenance_replay_projection, Maintenance_rebuild_derived, Maintenance_full,
      Cognition_thinker]"

definition all_classes :: "execution_class list" where
  "all_classes =
     [Interactive_user_turn, Interactive_delegated_task, Background_memory_migrate,
      Background_memory_organize, Background_search_rebuild, Background_maintenance_replay,
      Background_maintenance_rebuild_derived, Background_maintenance_full,
      Background_autonomy, Background_cognition_thinker]"

text \<open>
  \<open>isJobKind\<close> and \<open>isExecutionClass\<close>: the kind or class a string names, if any. The
  argument is what \<open>readString\<close> returned, so it may be \<open>undefined\<close>.
\<close>

definition isJobKind :: "string option \<Rightarrow> job_kind option" where
  "isJobKind v = (case v of None \<Rightarrow> None | Some s \<Rightarrow> find (\<lambda>k. kind_str k = s) all_kinds)"

definition isExecutionClass :: "string option \<Rightarrow> execution_class option" where
  "isExecutionClass v =
     (case v of None \<Rightarrow> None | Some s \<Rightarrow> find (\<lambda>c. class_str c = s) all_classes)"

lemma isJobKind_kind_str [simp]: "isJobKind (Some (kind_str k)) = Some k"
  by (cases k) (simp_all add: isJobKind_def all_kinds_def)

lemma isExecutionClass_class_str [simp]: "isExecutionClass (Some (class_str c)) = Some c"
  by (cases c) (simp_all add: isExecutionClass_def all_classes_def)

lemma isJobKind_None [simp]: "isJobKind None = None"
  by (simp add: isJobKind_def)

lemma kind_str_inj: "kind_str k = kind_str k' \<longleftrightarrow> k = k'"
  by (metis isJobKind_kind_str option.inject)

section \<open>Duplicate check\<close>

datatype dedup_action = Accept | Coalesce | Drop | Noop

definition checkDuplicate :: "(string, job) js_map \<Rightarrow> string \<Rightarrow> dedup_action" where
  "checkDuplicate jobs incomingJobKey =
     (case map_of jobs incomingJobKey of
        None \<Rightarrow> Accept
      | Some existing \<Rightarrow>
          if j_status existing = Pending then Coalesce
          else if j_status existing = Running then Drop
          else Noop)"

lemma checkDuplicate_Accept_iff:
  "checkDuplicate jobs k = Accept \<longleftrightarrow> map_of jobs k = None"
  by (auto simp: checkDuplicate_def split: option.splits)

text \<open>Completed and cancelled are final; a failed job can only go back to pending.\<close>

lemma no_transition_from_final:
  "s \<in> {Completed, Cancelled} \<Longrightarrow> \<not> canTransitionJobStatus s t"
  by (auto simp: canTransitionJobStatus_def)

lemma transition_to_Running_iff: "canTransitionJobStatus s Running \<longleftrightarrow> s = Pending"
  by (cases s) (simp_all add: canTransitionJobStatus_def)

end
