(* ===== verification/Job_Queue.thy ===== *)
theory Job_Queue
  imports Job_Types
begin

text \<open>
  The in-memory queue of \<^verbatim>\<open>src/jobs/queue.ts\<close>. Its three containers are kept as the code
  has them: jobs by id, the last job id of each job key, and the set of pending ids.
  Calls to the optional persistence backend (\<^verbatim>\<open>src/jobs/persistence.ts\<close>) are not awaited
  by the queue; they are recorded, in order, in the field \<open>persisted\<close>.
\<close>

section \<open>State\<close>

record stored_job = job +
  enqueueSeq :: int

datatype persistent_status = P_pending | P_processing | P_retryable | P_exhausted | P_reconciled

datatype persist_call =
    P_enqueue (pe_id: string) (pe_jobType: string) (pe_payload: json)
      (pe_status: persistent_status) (pe_maxAttempts: int) (pe_errorMessage: "string option")
      (pe_nextAttemptAt: "int option") (pe_claimedAt: "int option")
  | P_claim string string int
  | P_complete string
  | P_fail string string bool

record job_queue =
  jobsById :: "(string, stored_job) js_map"
  jobsByKey :: "(string, string) js_map"
  pendingJobIds :: "string js_set"
  enqueueCounter :: int
  has_persistence :: bool
  persisted :: "persist_call list"

definition empty_queue :: "bool \<Rightarrow> job_queue" where
  "empty_queue p =
     \<lparr>jobsById = [], jobsByKey = [], pendingJobIds = [], enqueueCounter = 0,
      has_persistence = p, persisted = []\<rparr>"

section \<open>Helpers of the class\<close>

definition toJob :: "stored_job \<Rightarrow> job" where
  "toJob s = job.truncate s"

lemma job_extend_sel [simp]:
  "j_jobId (job.extend j m) = j_jobId j"
  "j_jobKey (job.extend j m) = j_jobKey j"
  "j_executionClass (job.extend j m) = j_executionClass j"
  "j_status (job.extend j m) = j_status j"
  "j_createdAt (job.extend j m) = j_createdAt j"
  "enqueueSeq (job.extend j \<lparr>enqueueSeq = n\<rparr>) = n"
  by (simp_all add: job.defs)

lemma toJob_extend [simp]: "toJob (job.extend j m) = j"
  by (simp add: toJob_def job.defs)

definition persistenceId :: "job \<Rightarrow> string" where
  "persistenceId j = (case j_idempotencyKey j of Some k \<Rightarrow> k | None \<Rightarrow> j_jobKey j)"

definition opt_field :: "string \<Rightarrow> json option \<Rightarrow> (string \<times> json) list" where
  "opt_field k v = (case v of None \<Rightarrow> [] | Some x \<Rightarrow> [(k, x)])"

abbreviation js_int :: "int \<Rightarrow> json" where
  "js_int n \<equiv> JNum (Fin (of_int n))"

definition serializeJob :: "job \<Rightarrow> json" where
  "serializeJob j = JObj (
     [(''jobId'', JStr (j_jobId j)),
      (''jobKey'', JStr (j_jobKey j)),
      (''kind'', JStr (kind_str (j_kind j))),
      (''executionClass'', JStr (class_str (j_executionClass j)))] @
     opt_field ''sessionId'' (map_option JStr (j_sessionId j)) @
     opt_field ''agentId'' (map_option JStr (j_agentId j)) @
     opt_field ''idempotencyKey'' (map_option JStr (j_idempotencyKey j)) @
     [(''payload'', j_payload j),
      (''status'', JStr (status_str (j_status j))),
      (''attempts'', js_int (j_attempts j)),
      (''maxAttempts'', js_int (j_maxAttempts j)),
      (''retriable'', JBool (j_retriable j)),
      (''createdAt'', JNum (Fin (j_createdAt j)))] @
     opt_field ''startedAt'' (map_option js_int (j_startedAt j)) @
     opt_field ''completedAt'' (map_option js_int (j_completedAt j)) @
     opt_field ''error'' (map_option JStr (j_error j)) @
     [(''ownershipAccepted'', JBool (j_ownershipAccepted j))])"

fun toPersistenceStatus :: "job_status \<Rightarrow> persistent_status" where
  "toPersistenceStatus Pending = P_pending"
| "toPersistenceStatus Running = P_processing"
| "toPersistenceStatus Completed = P_reconciled"
| "toPersistenceStatus _ = P_exhausted"

definition persist :: "persist_call \<Rightarrow> job_queue \<Rightarrow> job_queue" where
  "persist c q = (if has_persistence q then q\<lparr>persisted := persisted q @ [c]\<rparr> else q)"

definition syncPersistence :: "job \<Rightarrow> job \<Rightarrow> job_queue \<Rightarrow> job_queue" where
  "syncPersistence prev nxt q =
     (let jobId = persistenceId nxt in
      if j_status nxt = Running then persist (P_claim jobId ''local-dispatcher'' 0) q
      else if j_status nxt = Completed then persist (P_complete jobId) q
      else if j_status nxt = Failed \<or> j_status nxt = Cancelled then
        persist (P_fail jobId
          (case j_error nxt of Some e \<Rightarrow> e | None \<Rightarrow> ''Job '' @ status_str (j_status nxt)) False) q
      else if j_status nxt = Pending \<and> j_status prev = Running then
        persist (P_fail jobId (case j_error nxt of Some e \<Rightarrow> e | None \<Rightarrow> ''Job failed'') True) q
      else q)"

definition syncPendingState :: "job_status \<Rightarrow> job_status \<Rightarrow> string \<Rightarrow> job_queue \<Rightarrow> job_queue" where
  "syncPendingState prev nxt jobId q =
     (if prev \<noteq> Pending \<and> nxt = Pending then
        q\<lparr>pendingJobIds := set_add jobId (pendingJobIds q)\<rparr>
      else if prev = Pending \<and> nxt \<noteq> Pending then
        q\<lparr>pendingJobIds := set_delete jobId (pendingJobIds q)\<rparr>
      else if nxt = Pending then
        q\<lparr>pendingJobIds := set_add jobId (pendingJobIds q)\<rparr>
      else q)"

section \<open>Operations\<close>

text \<open>The clock \<open>Date.now()\<close> is the argument \<open>now\<close>.\<close>

definition enqueue :: "int \<Rightarrow> job \<Rightarrow> job_queue \<Rightarrow> job_queue" where
  "enqueue now j q =
     (let stored = job.extend j \<lparr>enqueueSeq = enqueueCounter q\<rparr>;
          q1 = q\<lparr>enqueueCounter := enqueueCounter q + 1,
                 jobsById := AList.update (j_jobId j) stored (jobsById q),
                 jobsByKey := AList.update (j_jobKey j) (j_jobId j) (jobsByKey q)\<rparr>;
          q2 = (if j_status j = Pending
                then q1\<lparr>pendingJobIds := set_add (j_jobId j) (pendingJobIds q1)\<rparr> else q1)
      in persist (P_enqueue (persistenceId j) (kind_str (j_kind j)) (serializeJob j)
           (toPersistenceStatus (j_status j)) (j_maxAttempts j) (j_error j)
           (if j_status j = Pending then Some now else None) (j_startedAt j)) q2)"

text \<open>
  The loop of \<open>selectNextPending\<close> over the pending ids: an id without a job is dropped
  from the set, and the best candidate so far is replaced by a strictly better one.
\<close>

definition replaces_best :: "stored_job \<Rightarrow> stored_job \<Rightarrow> bool" where
  "replaces_best candidate best =
     (let candidatePriority = EXECUTION_CLASS_PRIORITY (j_executionClass candidate);
          bestPriority = EXECUTION_CLASS_PRIORITY (j_executionClass best)
      in if candidatePriority < bestPriority then True
         else if candidatePriority = bestPriority then
           (if j_createdAt candidate < j_createdAt best then True
            else j_createdAt candidate = j_createdAt best \<and> enqueueSeq candidate < enqueueSeq best)
         else False)"

primrec select_loop :: "(string, stored_job) js_map \<Rightarrow> string list \<Rightarrow> stored_job option \<Rightarrow>
    string js_set \<Rightarrow> stored_job option \<times> string js_set" where
  "select_loop byId [] best pend = (best, pend)"
| "select_loop byId (pendingId # ids) best pend =
     (case map_of byId pendingId of
        None \<Rightarrow> select_loop byId ids best (set_delete pendingId pend)
      | Some candidate \<Rightarrow>
          (case best of
             None \<Rightarrow> select_loop byId ids (Some candidate) pend
           | Some b \<Rightarrow>
               select_loop byId ids (Some (if replaces_best candidate b then candidate else b)) pend))"

definition selectNextPending :: "job_queue \<Rightarrow> stored_job option \<times> job_queue" where
  "selectNextPending q =
     (let (best, pend) = select_loop (jobsById q) (pendingJobIds q) None (pendingJobIds q)
      in (best, q\<lparr>pendingJobIds := pend\<rparr>))"

definition dequeue :: "job_queue \<Rightarrow> job option \<times> job_queue" where
  "dequeue q =
     (case selectNextPending q of
        (None, q1) \<Rightarrow> (None, q1)
      | (Some nxt, q1) \<Rightarrow>
          (Some (toJob nxt),
           q1\<lparr>pendingJobIds := set_delete (j_jobId nxt) (pendingJobIds q1)\<rparr>))"

definition peek :: "job_queue \<Rightarrow> job option \<times> job_queue" where
  "peek q = (let (nxt, q1) = selectNextPending q in (map_option toJob nxt, q1))"

definition queue_size :: "job_queue \<Rightarrow> nat" where
  "queue_size q = length (pendingJobIds q)"

text \<open>The empty string is falsy, so a job whose id is empty is not found by its key.\<close>

definition getByKey :: "string \<Rightarrow> job_queue \<Rightarrow> job option" where
  "getByKey jobKey q =
     (case map_of (jobsByKey q) jobKey of
        None \<Rightarrow> None
      | Some jobId \<Rightarrow>
          if jobId = [] then None
          else map_option toJob (map_of (jobsById q) jobId))"

definition getAll :: "job_queue \<Rightarrow> job list" where
  "getAll q = map (\<lambda>(i, s). toJob s) (jobsById q)"

text \<open>
  \<open>updateJob\<close> spreads a partial job over the stored one; the partial job is given as the
  function it is on jobs. The sequence number is kept.
\<close>

definition updateJob :: "string \<Rightarrow> (job \<Rightarrow> job) \<Rightarrow> job_queue \<Rightarrow> job_queue" where
  "updateJob jobId updates q =
     (case map_of (jobsById q) jobId of
        None \<Rightarrow> q
      | Some existing \<Rightarrow>
          (let merged = job.extend (updates (toJob existing)) \<lparr>enqueueSeq = enqueueSeq existing\<rparr>;
               q1 = q\<lparr>jobsById := AList.update jobId merged (jobsById q),
                      jobsByKey := AList.update (j_jobKey merged) (j_jobId merged) (jobsByKey q)\<rparr>;
               q2 = syncPendingState (j_status existing) (j_status merged) (j_jobId merged) q1
           in syncPersistence (toJob existing) (toJob merged) q2))"

section \<open>What the selection loop computes\<close>

definition queue_rank :: "stored_job \<Rightarrow> int \<times> rat \<times> int" where
  "queue_rank s = (EXECUTION_CLASS_PRIORITY (j_executionClass s), j_createdAt s, enqueueSeq s)"

lemma replaces_best_rank: "replaces_best a b \<longleftrightarrow> queue_rank a < queue_rank b"
  by (auto simp: replaces_best_def queue_rank_def Let_def less_prod_def)

interpretation queue_order: ranked replaces_best queue_rank
  by unfold_locales (rule replaces_best_rank)

text \<open>The jobs a list of ids stands for, stale ids skipped.\<close>

primrec jobs_of :: "(string, stored_job) js_map \<Rightarrow> string list \<Rightarrow> stored_job list" where
  "jobs_of byId [] = []"
| "jobs_of byId (i # ids) =
     (case map_of byId i of None \<Rightarrow> jobs_of byId ids | Some s \<Rightarrow> s # jobs_of byId ids)"

lemma set_jobs_of: "s \<in> set (jobs_of byId ids) \<longleftrightarrow> (\<exists>i \<in> set ids. map_of byId i = Some s)"
  by (induction ids) (auto split: option.splits)

lemma select_loop_eq:
  "select_loop byId ids best pend =
     (pick_best replaces_best best (jobs_of byId ids),
      filter (\<lambda>i. i \<notin> set ids \<or> map_of byId i \<noteq> None) pend)"
  by (induction ids arbitrary: best pend)
    (auto simp: set_delete_def split: option.splits intro!: filter_cong)

lemma selectNextPending_eq:
  "selectNextPending q =
     (pick_best replaces_best None (jobs_of (jobsById q) (pendingJobIds q)),
      q\<lparr>pendingJobIds := filter (\<lambda>i. map_of (jobsById q) i \<noteq> None) (pendingJobIds q)\<rparr>)"
proof -
  have "filter (\<lambda>i. i \<notin> set (pendingJobIds q) \<or> map_of (jobsById q) i \<noteq> None) (pendingJobIds q) =
        filter (\<lambda>i. map_of (jobsById q) i \<noteq> None) (pendingJobIds q)"
    by (rule filter_cong) auto
  then show ?thesis by (simp add: selectNextPending_def select_loop_eq)
qed

section \<open>The invariant of the queue\<close>

definition keys_wf :: "job_queue \<Rightarrow> bool" where
  "keys_wf q \<longleftrightarrow>
     distinct (map fst (jobsById q)) \<and> distinct (map fst (jobsByKey q)) \<and>
     distinct (pendingJobIds q)"

definition ids_wf :: "job_queue \<Rightarrow> bool" where
  "ids_wf q \<longleftrightarrow>
     (\<forall>i s. map_of (jobsById q) i = Some s \<longrightarrow>
        j_jobId s = i \<and> enqueueSeq s < enqueueCounter q) \<and>
     (\<forall>i i' s s'. map_of (jobsById q) i = Some s \<longrightarrow> map_of (jobsById q) i' = Some s' \<longrightarrow>
        enqueueSeq s = enqueueSeq s' \<longrightarrow> i = i')"

definition pending_wf :: "job_queue \<Rightarrow> bool" where
  "pending_wf q \<longleftrightarrow>
     (\<forall>i \<in> set (pendingJobIds q). \<exists>s. map_of (jobsById q) i = Some s \<and> j_status s = Pending)"

definition by_key_wf :: "job_queue \<Rightarrow> bool" where
  "by_key_wf q \<longleftrightarrow>
     (\<forall>k i. map_of (jobsByKey q) k = Some i \<longrightarrow>
        (\<exists>s. map_of (jobsById q) i = Some s \<and> j_jobKey s = k))"

definition queue_inv :: "job_queue \<Rightarrow> bool" where
  "queue_inv q \<longleftrightarrow> keys_wf q \<and> ids_wf q \<and> pending_wf q \<and> by_key_wf q"

lemmas queue_inv_defs = queue_inv_def keys_wf_def ids_wf_def pending_wf_def by_key_wf_def

lemma queue_inv_empty: "queue_inv (empty_queue p)"
  by (simp add: queue_inv_defs empty_queue_def)

lemma persist_sel [simp]:
  "jobsById (persist c q) = jobsById q"
  "jobsByKey (persist c q) = jobsByKey q"
  "pendingJobIds (persist c q) = pendingJobIds q"
  "enqueueCounter (persist c q) = enqueueCounter q"
  "has_persistence (persist c q) = has_persistence q"
  by (simp_all add: persist_def)

lemma queue_inv_cong:
  "jobsById q' = jobsById q \<Longrightarrow> jobsByKey q' = jobsByKey q \<Longrightarrow>
   pendingJobIds q' = pendingJobIds q \<Longrightarrow> enqueueCounter q' = enqueueCounter q \<Longrightarrow>
   queue_inv q' = queue_inv q"
  by (simp add: queue_inv_defs)

lemma syncPersistence_sel [simp]:
  "jobsById (syncPersistence a b q) = jobsById q"
  "jobsByKey (syncPersistence a b q) = jobsByKey q"
  "pendingJobIds (syncPersistence a b q) = pendingJobIds q"
  "enqueueCounter (syncPersistence a b q) = enqueueCounter q"
  by (simp_all add: syncPersistence_def Let_def)

lemma syncPendingState_sel [simp]:
  "jobsById (syncPendingState a b i q) = jobsById q"
  "jobsByKey (syncPendingState a b i q) = jobsByKey q"
  "enqueueCounter (syncPendingState a b i q) = enqueueCounter q"
  "has_persistence (syncPendingState a b i q) = has_persistence q"
  "persisted (syncPendingState a b i q) = persisted q"
  by (simp_all add: syncPendingState_def)

lemma pendingJobIds_syncPendingState:
  "pendingJobIds (syncPendingState a b i q) =
     (if b = Pending then set_add i (pendingJobIds q)
      else if a = Pending then set_delete i (pendingJobIds q) else pendingJobIds q)"
  by (auto simp: syncPendingState_def)

text \<open>The pending set may shrink, and the clock and the log do not matter.\<close>

lemma queue_inv_pending_subset:
  assumes "queue_inv q" and "set ids \<subseteq> set (pendingJobIds q)" and "distinct ids"
  shows "queue_inv (q\<lparr>pendingJobIds := ids\<rparr>)"
  using assms by (auto simp: queue_inv_defs)

lemma selectNextPending_inv_eq:
  assumes "queue_inv q"
  shows "selectNextPending q =
     (pick_best replaces_best None (jobs_of (jobsById q) (pendingJobIds q)), q)"
proof -
  have "\<forall>i \<in> set (pendingJobIds q). map_of (jobsById q) i \<noteq> None"
    using assms by (fastforce simp: queue_inv_defs)
  then have "filter (\<lambda>i. map_of (jobsById q) i \<noteq> None) (pendingJobIds q) = pendingJobIds q"
    by (rule filter_True)
  then show ?thesis by (simp add: selectNextPending_eq)
qed

lemma enqueue_queue_inv:
  assumes inv: "queue_inv q" and fresh: "map_of (jobsById q) (j_jobId j) = None"
  shows "queue_inv (enqueue now j q)"
proof -
  let ?s = "job.extend j \<lparr>enqueueSeq = enqueueCounter q\<rparr>"
  let ?q = "enqueue now j q"
  have byId: "map_of (jobsById ?q) = (map_of (jobsById q))(j_jobId j \<mapsto> ?s)"
    and byKey: "map_of (jobsByKey ?q) = (map_of (jobsByKey q))(j_jobKey j \<mapsto> j_jobId j)"
    and ctr: "enqueueCounter ?q = enqueueCounter q + 1"
    and pend: "pendingJobIds ?q =
      (if j_status j = Pending then set_add (j_jobId j) (pendingJobIds q) else pendingJobIds q)"
    by (simp_all add: enqueue_def Let_def update_conv')
  have s: "j_jobId ?s = j_jobId j" "j_jobKey ?s = j_jobKey j" "j_status ?s = j_status j"
    "enqueueSeq ?s = enqueueCounter q"
    by (simp_all add: job.defs)
  have "keys_wf ?q"
    using inv by (auto simp: queue_inv_defs enqueue_def Let_def distinct_update)
  moreover have "ids_wf ?q"
    using inv unfolding queue_inv_def ids_wf_def byId ctr
    by (auto simp: s) (fastforce+)?
  moreover have "pending_wf ?q"
    using inv fresh by (auto simp: queue_inv_defs byId pend s)
  moreover have "by_key_wf ?q"
    using inv fresh unfolding queue_inv_def by_key_wf_def byId byKey
    by (auto simp: s) (metis option.distinct(1))
  ultimately show ?thesis by (simp add: queue_inv_def)
qed

text \<open>An update that keeps the job's id and key keeps the invariant.\<close>

definition keeps_identity :: "(job \<Rightarrow> job) \<Rightarrow> bool" where
  "keeps_identity f \<longleftrightarrow> (\<forall>j. j_jobId (f j) = j_jobId j \<and> j_jobKey (f j) = j_jobKey j)"

definition merged_job :: "(job \<Rightarrow> job) \<Rightarrow> stored_job \<Rightarrow> stored_job" where
  "merged_job f s = job.extend (f (toJob s)) \<lparr>enqueueSeq = enqueueSeq s\<rparr>"

lemma merged_job_sel [simp]:
  "j_status (merged_job f s) = j_status (f (toJob s))"
  "j_jobId (merged_job f s) = j_jobId (f (toJob s))"
  "j_jobKey (merged_job f s) = j_jobKey (f (toJob s))"
  "enqueueSeq (merged_job f s) = enqueueSeq s"
  "toJob (merged_job f s) = f (toJob s)"
  by (simp_all add: merged_job_def toJob_def job.defs)

lemma toJob_sel [simp]:
  "j_status (toJob s) = j_status s"
  "j_jobId (toJob s) = j_jobId s"
  "j_jobKey (toJob s) = j_jobKey s"
  by (simp_all add: toJob_def job.defs)

lemma updateJob_None: "map_of (jobsById q) i = None \<Longrightarrow> updateJob i f q = q"
  by (simp add: updateJob_def)

lemma updateJob_sel:
  assumes "map_of (jobsById q) i = Some e"
  shows "jobsById (updateJob i f q) = AList.update i (merged_job f e) (jobsById q)"
    and "jobsByKey (updateJob i f q) =
      AList.update (j_jobKey (f (toJob e))) (j_jobId (f (toJob e))) (jobsByKey q)"
    and "enqueueCounter (updateJob i f q) = enqueueCounter q"
    and "pendingJobIds (updateJob i f q) =
      (if j_status (f (toJob e)) = Pending
       then set_add (j_jobId (f (toJob e))) (pendingJobIds q)
       else if j_status e = Pending then set_delete (j_jobId (f (toJob e))) (pendingJobIds q)
       else pendingJobIds q)"
  using assms
  by (simp_all add: updateJob_def Let_def pendingJobIds_syncPendingState
      flip: merged_job_def)

lemma updateJob_queue_inv:
  assumes inv: "queue_inv q" and f: "keeps_identity f"
  shows "queue_inv (updateJob i f q)"
proof (cases "map_of (jobsById q) i")
  case None
  with inv show ?thesis by (simp add: updateJob_None)
next
  case (Some e)
  let ?q = "updateJob i f q"
  have e: "j_jobId e = i" using inv Some by (simp add: queue_inv_defs)
  have fe: "j_jobId (f (toJob e)) = i" "j_jobKey (f (toJob e)) = j_jobKey e"
    using f e by (simp_all add: keeps_identity_def)
  note sel = updateJob_sel [OF Some, of f, unfolded fe]
  have byId: "map_of (jobsById ?q) = (map_of (jobsById q))(i \<mapsto> merged_job f e)"
    and byKey: "map_of (jobsByKey ?q) = (map_of (jobsByKey q))(j_jobKey e \<mapsto> i)"
    by (simp_all add: sel update_conv')
  have "keys_wf ?q"
    using inv by (auto simp: queue_inv_defs sel distinct_update)
  moreover have "ids_wf ?q"
    using inv Some unfolding queue_inv_def ids_wf_def byId sel(3)
    by (auto simp: fe) (metis+)?
  moreover have "pending_wf ?q"
    using inv Some unfolding queue_inv_def pending_wf_def byId sel(4)
    by (auto split: if_splits) (metis option.inject)?
  moreover have "by_key_wf ?q"
    using inv Some fe unfolding queue_inv_def by_key_wf_def byId byKey
    by auto (metis option.inject)?
  ultimately show ?thesis by (simp add: queue_inv_def)
qed

lemma dequeue_cases:
  assumes "queue_inv q"
  obtains "pick_best replaces_best None (jobs_of (jobsById q) (pendingJobIds q)) = None"
      "dequeue q = (None, q)"
  | s where "pick_best replaces_best None (jobs_of (jobsById q) (pendingJobIds q)) = Some s"
      "dequeue q = (Some (toJob s), q\<lparr>pendingJobIds := set_delete (j_jobId s) (pendingJobIds q)\<rparr>)"
  using selectNextPending_inv_eq [OF assms]
  by (cases "pick_best replaces_best None (jobs_of (jobsById q) (pendingJobIds q))")
    (auto simp: dequeue_def)

lemma queue_inv_distinct: "queue_inv q \<Longrightarrow> distinct (pendingJobIds q)"
  by (simp add: queue_inv_def keys_wf_def)

lemma dequeue_queue_inv: "queue_inv q \<Longrightarrow> queue_inv (snd (dequeue q))"
  by (rule dequeue_cases [of q])
    (auto intro!: queue_inv_pending_subset dest: queue_inv_distinct)

section \<open>Reachable queues\<close>

text \<open>
  What a client does: enqueue a job under a fresh id, take the next one, peek, update a
  job without changing its identity.
\<close>

inductive queue_reachable :: "job_queue \<Rightarrow> bool" where
  start: "queue_reachable (empty_queue p)"
| enqueue: "queue_reachable q \<Longrightarrow> map_of (jobsById q) (j_jobId j) = None \<Longrightarrow>
    queue_reachable (enqueue now j q)"
| dequeue: "queue_reachable q \<Longrightarrow> queue_reachable (snd (dequeue q))"
| peek: "queue_reachable q \<Longrightarrow> queue_reachable (snd (peek q))"
| update: "queue_reachable q \<Longrightarrow> keeps_identity f \<Longrightarrow> queue_reachable (updateJob i f q)"

lemma queue_reachable_inv: "queue_reachable q \<Longrightarrow> queue_inv q"
proof (induction rule: queue_reachable.induct)
  case (peek q)
  then show ?case by (simp add: peek_def selectNextPending_inv_eq)
qed (auto intro: queue_inv_empty enqueue_queue_inv dequeue_queue_inv updateJob_queue_inv)

text \<open>The stored job of a pending id.\<close>

lemma pending_job:
  "queue_inv q \<Longrightarrow> i \<in> set (pendingJobIds q) \<Longrightarrow>
   \<exists>s. map_of (jobsById q) i = Some s \<and> j_status s = Pending \<and> j_jobId s = i"
  by (simp add: queue_inv_def pending_wf_def ids_wf_def) metis

lemma jobs_of_pending_Nil_iff:
  "queue_inv q \<Longrightarrow> jobs_of (jobsById q) (pendingJobIds q) = [] \<longleftrightarrow> pendingJobIds q = []"
  using pending_job [of q]
  by (cases "pendingJobIds q") (auto split: option.splits, metis option.distinct(1))

lemma dequeue_None_iff: "queue_inv q \<Longrightarrow> fst (dequeue q) = None \<longleftrightarrow> pendingJobIds q = []"
  by (rule dequeue_cases [of q])
    (auto simp: pick_best_Some_iff jobs_of_pending_Nil_iff
      dest: pick_best_Some_iff [THEN iffD1, rotated])

section \<open>Properties\<close>

text \<open>
  In every queue the operations can reach, the three containers agree: ids
  and keys are unique, each pending id belongs to a stored job whose status is pending,
  each job key leads to a job with that key, and sequence numbers identify jobs.
\<close>

theorem reachable_queue_consistent:
  assumes "queue_reachable q"
  shows "distinct (map fst (jobsById q)) \<and> distinct (pendingJobIds q)
    \<and> (\<forall>i \<in> set (pendingJobIds q). \<exists>s. map_of (jobsById q) i = Some s
          \<and> j_jobId s = i \<and> j_status s = Pending)
    \<and> (\<forall>k i. map_of (jobsByKey q) k = Some i \<longrightarrow>
          (\<exists>s. map_of (jobsById q) i = Some s \<and> j_jobKey s = k))
    \<and> (\<forall>i i' s s'. map_of (jobsById q) i = Some s \<longrightarrow> map_of (jobsById q) i' = Some s' \<longrightarrow>
          enqueueSeq s = enqueueSeq s' \<longrightarrow> i = i')"
proof -
  have inv: "queue_inv q" using assms by (rule queue_reachable_inv)
  with pending_job [OF inv] show ?thesis
    unfolding queue_inv_def keys_wf_def by_key_wf_def ids_wf_def by blast
qed

definition sample_job :: "string \<Rightarrow> execution_class \<Rightarrow> rat \<Rightarrow> job" where
  "sample_job i c t =
     \<lparr>j_jobId = i, j_jobKey = ''key:'' @ i, j_kind = Memory_organize, j_executionClass = c,
      j_sessionId = None, j_agentId = None, j_idempotencyKey = None, j_payload = JNull,
      j_status = Pending, j_attempts = 0, j_maxAttempts = 4, j_retriable = True,
      j_createdAt = t, j_startedAt = None, j_completedAt = None, j_error = None,
      j_ownershipAccepted = False\<rparr>"

definition sample_queue1 :: job_queue where
  "sample_queue1 = enqueue 5 (sample_job ''a'' Background_memory_organize 5) (empty_queue False)"

definition sample_queue :: job_queue where
  "sample_queue = enqueue 7 (sample_job ''b'' Interactive_user_turn 6) sample_queue1"

lemma sample_job_sel [simp]:
  "j_jobId (sample_job i c t) = i"
  "j_jobKey (sample_job i c t) = ''key:'' @ i"
  "j_executionClass (sample_job i c t) = c"
  "j_status (sample_job i c t) = Pending"
  "j_createdAt (sample_job i c t) = t"
  by (simp_all add: sample_job_def)

lemma sample_queue1_sel [simp]:
  "jobsById sample_queue1 =
     [(''a'', job.extend (sample_job ''a'' Background_memory_organize 5) \<lparr>enqueueSeq = 0\<rparr>)]"
  "pendingJobIds sample_queue1 = [''a'']" "enqueueCounter sample_queue1 = 1"
  by (simp_all add: sample_queue1_def enqueue_def empty_queue_def Let_def set_add_def)

lemma sample_queue_sel [simp]:
  "jobsById sample_queue =
     [(''a'', job.extend (sample_job ''a'' Background_memory_organize 5) \<lparr>enqueueSeq = 0\<rparr>),
      (''b'', job.extend (sample_job ''b'' Interactive_user_turn 6) \<lparr>enqueueSeq = 1\<rparr>)]"
  "pendingJobIds sample_queue = [''a'', ''b'']"
  by (simp_all add: sample_queue_def enqueue_def Let_def set_add_def)

lemma sample_queue_reachable: "queue_reachable sample_queue"
  unfolding sample_queue_def sample_queue1_def
  by (intro queue_reachable.enqueue queue_reachable.start)
    (simp_all add: empty_queue_def enqueue_def Let_def)

theorem reachable_queue_consistent_witness:
  "\<exists>s. map_of (jobsById sample_queue) ''a'' = Some s \<and> j_jobId s = ''a'' \<and> j_status s = Pending"
proof -
  have "''a'' \<in> set (pendingJobIds sample_queue)" by simp
  with reachable_queue_consistent [OF sample_queue_reachable] show ?thesis by blast
qed

text \<open>
  \<open>dequeue\<close> returns a pending job and removes exactly its id from the
  pending set; every other pending job comes strictly later in the order by execution
  class priority, then creation time, then enqueue order, so equal priorities are served
  first in, first out.
\<close>

theorem dequeue_least:
  assumes "queue_reachable q" and "dequeue q = (Some j, q')"
  shows "\<exists>s. map_of (jobsById q) (j_jobId j) = Some s \<and> toJob s = j \<and> j_status j = Pending
    \<and> j_jobId j \<in> set (pendingJobIds q)
    \<and> set (pendingJobIds q') = set (pendingJobIds q) - {j_jobId j}
    \<and> (\<forall>i c. i \<in> set (pendingJobIds q) \<longrightarrow> i \<noteq> j_jobId j \<longrightarrow>
          map_of (jobsById q) i = Some c \<longrightarrow> queue_rank s < queue_rank c)"
proof -
  have inv: "queue_inv q" using assms(1) by (rule queue_reachable_inv)
  obtain s where best: "pick_best replaces_best None (jobs_of (jobsById q) (pendingJobIds q)) = Some s"
    and j: "j = toJob s" and q': "q' = q\<lparr>pendingJobIds := set_delete (j_jobId s) (pendingJobIds q)\<rparr>"
    using assms(2) by (rule_tac dequeue_cases [OF inv]) auto
  from queue_order.pick_best_least [OF best]
  obtain i where i: "i \<in> set (pendingJobIds q)" "map_of (jobsById q) i = Some s"
    and least: "\<And>k c. k \<in> set (pendingJobIds q) \<Longrightarrow> map_of (jobsById q) k = Some c \<Longrightarrow>
      queue_rank s \<le> queue_rank c"
    unfolding set_jobs_of queue_order.not_before_iff by (metis set_jobs_of)
  have s: "j_status s = Pending" "j_jobId s = i"
    using pending_job [OF inv i(1)] i(2) by auto
  have "queue_rank s < queue_rank c"
    if "k \<in> set (pendingJobIds q)" "k \<noteq> i" "map_of (jobsById q) k = Some c" for k c
  proof -
    have "enqueueSeq s \<noteq> enqueueSeq c"
      using inv i(2) that(2,3) by (auto simp: queue_inv_def ids_wf_def)
    with least [OF that(1,3)] show ?thesis
      by (auto simp: queue_rank_def less_le)
  qed
  with i s j q' show ?thesis by auto
qed

theorem dequeue_least_witness:
  "fst (dequeue sample_queue) = Some (sample_job ''b'' Interactive_user_turn 6)
   \<and> set (pendingJobIds (snd (dequeue sample_queue))) = set (pendingJobIds sample_queue) - {''b''}"
proof -
  have d: "fst (dequeue sample_queue) = Some (sample_job ''b'' Interactive_user_turn 6)"
    by (simp add: dequeue_def selectNextPending_def replaces_best_def)
  then have "dequeue sample_queue =
      (Some (sample_job ''b'' Interactive_user_turn 6), snd (dequeue sample_queue))"
    by (metis prod.collapse)
  from dequeue_least [OF sample_queue_reachable this] d show ?thesis
    by simp
qed

end
