(* ===== verification/Job_Dispatcher.thy ===== *)
theory Job_Dispatcher
  imports Job_Queue
begin

text \<open>
  The in-process dispatcher of \<^verbatim>\<open>src/jobs/dispatcher.ts\<close>: duplicate-checked submission,
  recovery of persisted jobs, selection of the next runnable job under the concurrency
  caps, and the run of one job. \<open>processNext\<close> awaits the worker, and other calls run in
  between, so it is two definitions: \<open>processNext_begin\<close>, up to the call of the worker, and
  \<open>processNext_end\<close>, from the worker's outcome on. Events emitted on the bus are recorded
  in the field \<open>events\<close>.

  Arguments standing for the environment: \<open>now\<close> is \<open>Date.now()\<close>, \<open>uuid\<close> the result of
  \<open>crypto.randomUUID()\<close>, \<open>lc\<close> says whether \<open>localeCompare\<close> of two strings is negative,
  \<open>ns\<close> prints a number.
\<close>

section \<open>State\<close>

datatype bus_event =
    Job_enqueued string job_kind string
  | Job_started string job_kind string
  | Job_completed string job_kind string bool "string option"

record dispatcher =
  d_queue :: job_queue
  d_jobsByKey :: "(string, job) js_map"
  inFlightByKey :: "string js_set"
  d_workers :: "job_kind js_set"
  d_started :: bool
  has_bus :: bool
  events :: "bus_event list"

record job_entry =
  e_id :: string
  e_jobType :: string
  e_payload :: json
  e_status :: persistent_status
  e_attemptCount :: int
  e_maxAttempts :: int
  e_errorMessage :: "string option"
  e_nextAttemptAt :: "int option"
  e_claimedAt :: "int option"
  e_createdAt :: int
  e_updatedAt :: int

definition new_dispatcher :: "bool \<Rightarrow> bool \<Rightarrow> dispatcher" where
  "new_dispatcher persistence bus =
     \<lparr>d_queue = empty_queue persistence, d_jobsByKey = [], inFlightByKey = [], d_workers = [],
      d_started = False, has_bus = bus, events = []\<rparr>"

section \<open>Helpers\<close>

fun asRecord :: "json \<Rightarrow> (string, json) js_map option" where
  "asRecord (JObj o') = Some o'"
| "asRecord (JArr _) = Some []"
| "asRecord _ = None"

definition readString :: "(string, json) js_map \<Rightarrow> string \<Rightarrow> string option" where
  "readString payload key = (case get_prop payload key of Some (JStr s) \<Rightarrow> Some s | _ \<Rightarrow> None)"

definition readNumber :: "(string, json) js_map \<Rightarrow> string \<Rightarrow> rat option" where
  "readNumber payload key = Option.bind (get_prop payload key) finite_num"

definition readBoolean :: "(string, json) js_map \<Rightarrow> string \<Rightarrow> bool \<Rightarrow> bool" where
  "readBoolean payload key fallback =
     (case get_prop payload key of Some (JBool b) \<Rightarrow> b | _ \<Rightarrow> fallback)"

fun defaultExecutionClass :: "job_kind \<Rightarrow> execution_class" where
  "defaultExecutionClass Memory_migrate = Background_memory_migrate"
| "defaultExecutionClass Memory_organize = Background_memory_organize"
| "defaultExecutionClass Search_rebuild = Background_search_rebuild"
| "defaultExecutionClass Maintenance_replay_projection = Background_maintenance_replay"
| "defaultExecutionClass Maintenance_rebuild_derived = Background_maintenance_rebuild_derived"
| "defaultExecutionClass Maintenance_full = Background_maintenance_full"
| "defaultExecutionClass Cognition_thinker = Background_cognition_thinker"
| "defaultExecutionClass _ = Background_autonomy"

definition or_else :: "'a option \<Rightarrow> 'a option \<Rightarrow> 'a option" where
  "or_else a b = (case a of Some x \<Rightarrow> Some x | None \<Rightarrow> b)"

lemma or_else_simps [simp]: "or_else (Some x) b = Some x" "or_else None b = b"
  by (simp_all add: or_else_def)

definition emit :: "bus_event \<Rightarrow> dispatcher \<Rightarrow> dispatcher" where
  "emit e d = (if has_bus d then d\<lparr>events := events d @ [e]\<rparr> else d)"

definition extractScope :: "string \<Rightarrow> string" where
  "extractScope jobKey =
     (let parts = split_on (CHR '':'') jobKey
      in if length parts \<ge> 2 then parts ! 1 else ''global'')"

definition emitEnqueued :: "job \<Rightarrow> dispatcher \<Rightarrow> dispatcher" where
  "emitEnqueued j = emit (Job_enqueued (j_jobKey j) (j_kind j) (extractScope (j_jobKey j)))"

definition emitStarted :: "job \<Rightarrow> dispatcher \<Rightarrow> dispatcher" where
  "emitStarted j = emit (Job_started (j_jobKey j) (j_kind j) (j_jobId j))"

definition emitCompleted :: "job \<Rightarrow> bool \<Rightarrow> string option \<Rightarrow> dispatcher \<Rightarrow> dispatcher" where
  "emitCompleted j success errorCode =
     emit (Job_completed (j_jobKey j) (j_kind j) (j_jobId j) success errorCode)"

text \<open>\<open>??\<close> on JSON values skips \<open>undefined\<close> and \<open>null\<close>.\<close>

definition non_null :: "json option \<Rightarrow> json option" where
  "non_null v = (if v = Some JNull then None else v)"

definition parent_field :: "job \<Rightarrow> string \<Rightarrow> json option" where
  "parent_field j k = non_null (Option.bind (asRecord (j_payload j)) (\<lambda>r. get_prop r k))"

definition concurrencyKey :: "(js_num \<Rightarrow> string) \<Rightarrow> job \<Rightarrow> string" where
  "concurrencyKey ns j =
     (if j_kind j = Memory_migrate then
        (let agentId = case_option ''unknown-agent'' id (j_agentId j);
             sessionId = case_option ''unknown-session'' id (j_sessionId j)
         in ''memory.migrate:'' @ agentId @ '':'' @ sessionId @ '':''
              @ nat_str (memory_migrate_per_agent_session CONCURRENCY_CAPS))
      else if j_kind j = Memory_organize then ''memory.organize:global''
      else if j_kind j = Search_rebuild then ''search.rebuild:global''
      else if j_kind j = Maintenance_replay_projection then ''maintenance.replay_projection:global''
      else if j_kind j = Maintenance_rebuild_derived then ''maintenance.rebuild_derived:global''
      else if j_kind j = Maintenance_full then ''maintenance.full:global''
      else
        (let parentRunId =
           or_else (map_option (js_String ns) (parent_field j ''parentRunId''))
             (or_else (map_option (js_String ns) (parent_field j ''parentJobId''))
                (or_else (j_idempotencyKey j) (j_sessionId j)))
         in ''task.run:'' @ case_option ''default-parent'' id parentRunId @ '':''
              @ nat_str (task_run_per_parent CONCURRENCY_CAPS)))"

definition running_with_prefix :: "string \<Rightarrow> dispatcher \<Rightarrow> nat" where
  "running_with_prefix p d = length (filter (prefix p) (inFlightByKey d))"

definition canRun :: "(js_num \<Rightarrow> string) \<Rightarrow> dispatcher \<Rightarrow> job \<Rightarrow> bool" where
  "canRun ns d j =
     (if j_kind j = Memory_migrate then concurrencyKey ns j \<notin> set (inFlightByKey d)
      else if j_kind j = Memory_organize then
        running_with_prefix ''memory.organize:global'' d < memory_organize_global CONCURRENCY_CAPS
      else if j_kind j = Task_run then concurrencyKey ns j \<notin> set (inFlightByKey d)
      else if j_kind j = Search_rebuild then
        running_with_prefix ''search.rebuild:global'' d < search_rebuild_global CONCURRENCY_CAPS
      else if j_kind j = Maintenance_replay_projection then
        running_with_prefix ''maintenance.replay_projection:global'' d
          < maintenance_replay_global CONCURRENCY_CAPS
      else if j_kind j = Maintenance_rebuild_derived then
        running_with_prefix ''maintenance.rebuild_derived:global'' d
          < maintenance_rebuild_derived_global CONCURRENCY_CAPS
      else if j_kind j = Maintenance_full then
        running_with_prefix ''maintenance.full:global'' d
          < maintenance_full_global CONCURRENCY_CAPS
      else True)"

text \<open>The comparator of \<open>selectNextRunnableJob\<close>: priority, creation time, then job id.\<close>

definition runs_before :: "(string \<Rightarrow> string \<Rightarrow> bool) \<Rightarrow> job \<Rightarrow> job \<Rightarrow> bool" where
  "runs_before lc a b =
     (let aPriority = EXECUTION_CLASS_PRIORITY (j_executionClass a);
          bPriority = EXECUTION_CLASS_PRIORITY (j_executionClass b)
      in if aPriority \<noteq> bPriority then aPriority < bPriority
         else if j_createdAt a \<noteq> j_createdAt b then j_createdAt a < j_createdAt b
         else lc (j_jobId a) (j_jobId b))"

definition selectNextRunnableJob ::
    "(string \<Rightarrow> string \<Rightarrow> bool) \<Rightarrow> (js_num \<Rightarrow> string) \<Rightarrow> dispatcher \<Rightarrow> job option" where
  "selectNextRunnableJob lc ns d =
     (let pending = sort_by (runs_before lc)
        (filter (\<lambda>j. j_status j = Pending) (getAll (d_queue d)))
      in find (canRun ns d) pending)"

section \<open>Recovery\<close>

definition toRecoveredJob :: "string \<Rightarrow> job_entry \<Rightarrow> job option" where
  "toRecoveredJob uuid entry =
     (case isJobKind (Some (e_jobType entry)) of
        None \<Rightarrow> None
      | Some entryKind \<Rightarrow>
          if e_id entry = [] then None
          else
            (let payloadRecord = asRecord (e_payload entry);
                 payload = case_option [] id payloadRecord;
                 kind = case_option entryKind id (isJobKind (readString payload ''kind''))
             in Some
               \<lparr>j_jobId = case_option uuid id (readString payload ''jobId''),
                j_jobKey = case_option (e_id entry) id (readString payload ''jobKey''),
                j_kind = kind,
                j_executionClass = case_option (defaultExecutionClass kind) id
                  (isExecutionClass (readString payload ''executionClass'')),
                j_sessionId = readString payload ''sessionId'',
                j_agentId = readString payload ''agentId'',
                j_idempotencyKey = Some (case_option (e_id entry) id
                  (readString payload ''idempotencyKey'')),
                j_payload =
                  (case Option.bind payloadRecord (\<lambda>r. get_prop r ''payload'') of
                     Some p \<Rightarrow> p | None \<Rightarrow> e_payload entry),
                j_status = Pending,
                j_attempts = max 0 (e_attemptCount entry),
                j_maxAttempts = max 1 (e_maxAttempts entry),
                j_retriable = readBoolean payload ''retriable'' True,
                j_createdAt = case_option (of_int (e_createdAt entry)) id
                  (readNumber payload ''createdAt''),
                j_startedAt = None,
                j_completedAt = None,
                j_error = e_errorMessage entry,
                j_ownershipAccepted = False\<rparr>))"

definition recover_entry :: "int \<Rightarrow> string \<times> job_entry \<Rightarrow> dispatcher \<Rightarrow> dispatcher" where
  "recover_entry now ue d =
     (case toRecoveredJob (fst ue) (snd ue) of
        None \<Rightarrow> d
      | Some job \<Rightarrow>
          if getByKey (j_jobKey job) (d_queue d) \<noteq> None then d
          else d\<lparr>d_queue := enqueue now job (d_queue d),
                 d_jobsByKey := AList.update (j_jobKey job) job (d_jobsByKey d)\<rparr>)"

text \<open>
  \<open>start\<close> runs once; with a persistence backend the rows it lists, pending then
  retryable, are recovered in order. Each row comes with the id it would be given.
\<close>

definition start :: "int \<Rightarrow> (string \<times> job_entry) list \<Rightarrow> (string \<times> job_entry) list \<Rightarrow>
    dispatcher \<Rightarrow> dispatcher" where
  "start now listPending listRetryable d =
     (if d_started d then d
      else
        (let d1 = d\<lparr>d_started := True\<rparr>
         in if has_persistence (d_queue d)
            then fold (recover_entry now) (listPending @ listRetryable) d1
            else d1))"

definition registerWorker :: "job_kind \<Rightarrow> dispatcher \<Rightarrow> dispatcher" where
  "registerWorker k d = d\<lparr>d_workers := set_add k (d_workers d)\<rparr>"

section \<open>Submission\<close>

text \<open>
  The fields of \<open>spec\<close> that a caller cannot give (id, status, attempts, creation time,
  ownership) are overwritten.
\<close>

definition submit :: "int \<Rightarrow> string \<Rightarrow> job \<Rightarrow> dispatcher \<Rightarrow> job option \<times> dispatcher" where
  "submit now uuid spec d =
     (let d1 = (case getByKey (j_jobKey spec) (d_queue d) of
                  None \<Rightarrow> d
                | Some existing \<Rightarrow>
                    d\<lparr>d_jobsByKey := AList.update (j_jobKey existing) existing (d_jobsByKey d)\<rparr>)
      in if checkDuplicate (d_jobsByKey d1) (j_jobKey spec) \<noteq> Accept then (None, d1)
         else
           (let normalizedMaxAttempts =
                  (if j_maxAttempts spec > 0 then j_maxAttempts spec
                   else JOB_MAX_ATTEMPTS (j_kind spec));
                job = spec\<lparr>j_jobId := uuid, j_status := Pending, j_attempts := 0,
                           j_createdAt := of_int now, j_ownershipAccepted := False,
                           j_maxAttempts := normalizedMaxAttempts\<rparr>;
                d2 = d1\<lparr>d_queue := enqueue now job (d_queue d1),
                        d_jobsByKey := AList.update (j_jobKey job) job (d_jobsByKey d1)\<rparr>
            in (Some job, emitEnqueued job d2)))"

section \<open>Running one job\<close>

definition remember :: "string \<Rightarrow> dispatcher \<Rightarrow> dispatcher" where
  "remember jobKey d =
     (case getByKey jobKey (d_queue d) of
        None \<Rightarrow> d
      | Some j \<Rightarrow> d\<lparr>d_jobsByKey := AList.update (j_jobKey j) j (d_jobsByKey d)\<rparr>)"

definition update_job :: "string \<Rightarrow> (job \<Rightarrow> job) \<Rightarrow> dispatcher \<Rightarrow> dispatcher" where
  "update_job jobId f d = d\<lparr>d_queue := updateJob jobId f (d_queue d)\<rparr>"

datatype begin_result =
    Nothing_runnable \<comment> \<open>\<open>processNext\<close> returns false\<close>
  | Settled \<comment> \<open>it returns true without having called a worker\<close>
  | Run job job \<comment> \<open>the worker of the second job is called; the first is the job selected\<close>

definition processNext_begin :: "(string \<Rightarrow> string \<Rightarrow> bool) \<Rightarrow> (js_num \<Rightarrow> string) \<Rightarrow> int \<Rightarrow>
    dispatcher \<Rightarrow> begin_result \<times> dispatcher" where
  "processNext_begin lc ns now d =
     (case selectNextRunnableJob lc ns d of
        None \<Rightarrow> (Nothing_runnable, d)
      | Some nxt \<Rightarrow>
          if j_kind nxt \<notin> set (d_workers d) then
            (Settled,
             remember (j_jobKey nxt)
               (update_job (j_jobId nxt)
                 (\<lambda>j. j\<lparr>j_status := Failed, j_completedAt := Some now,
                        j_error := Some (''No worker registered for job kind: '' @ kind_str (j_kind nxt))\<rparr>)
                 d))
          else
            (let d1 = d\<lparr>inFlightByKey := set_add (concurrencyKey ns nxt) (inFlightByKey d)\<rparr>;
                 d2 = update_job (j_jobId nxt)
                   (\<lambda>j. j\<lparr>j_ownershipAccepted := True, j_status := Running,
                          j_startedAt := Some now, j_attempts := j_attempts nxt + 1,
                          j_error := None\<rparr>) d1
             in case getByKey (j_jobKey nxt) (d_queue d2) of
                  None \<Rightarrow>
                    (Settled,
                     d2\<lparr>inFlightByKey := set_delete (concurrencyKey ns nxt) (inFlightByKey d2)\<rparr>)
                | Some running \<Rightarrow>
                    (Run nxt running,
                     emitStarted running
                       (d2\<lparr>d_jobsByKey :=
                             AList.update (j_jobKey running) running (d_jobsByKey d2)\<rparr>))))"

definition settle :: "string \<Rightarrow> bool \<Rightarrow> string option \<Rightarrow> dispatcher \<Rightarrow> dispatcher" where
  "settle jobKey success code d =
     (case getByKey jobKey (d_queue d) of
        None \<Rightarrow> d
      | Some j \<Rightarrow>
          emitCompleted j success code
            (d\<lparr>d_jobsByKey := AList.update (j_jobKey j) j (d_jobsByKey d)\<rparr>))"

text \<open>The worker's outcome: \<open>None\<close> when it resolved, \<open>Some message\<close> when it threw.\<close>

definition processNext_end :: "(js_num \<Rightarrow> string) \<Rightarrow> int \<Rightarrow> job \<Rightarrow> job \<Rightarrow> string option \<Rightarrow>
    dispatcher \<Rightarrow> dispatcher" where
  "processNext_end ns now nxt running outcome d =
     (let d' =
        (case outcome of
           None \<Rightarrow>
             settle (j_jobKey running) True None
               (update_job (j_jobId running)
                 (\<lambda>j. j\<lparr>j_status := Completed, j_completedAt := Some now\<rparr>) d)
         | Some message \<Rightarrow>
             (let current = case_option running id (getByKey (j_jobKey running) (d_queue d))
              in if j_retriable current \<and> j_attempts current < j_maxAttempts current then
                   settle (j_jobKey current) False (Some ''JOB_FAILED'')
                     (update_job (j_jobId current)
                       (\<lambda>j. j\<lparr>j_status := Pending, j_error := Some message\<rparr>) d)
                 else
                   settle (j_jobKey current) False (Some ''JOB_FAILED'')
                     (update_job (j_jobId current)
                       (\<lambda>j. j\<lparr>j_status := Failed, j_completedAt := Some now,
                              j_error := Some message\<rparr>) d)))
      in d'\<lparr>inFlightByKey := set_delete (concurrencyKey ns nxt) (inFlightByKey d')\<rparr>)"

section \<open>Basic facts\<close>

lemma emit_sel [simp]:
  "d_queue (emit e d) = d_queue d"
  "d_jobsByKey (emit e d) = d_jobsByKey d"
  "inFlightByKey (emit e d) = inFlightByKey d"
  "d_workers (emit e d) = d_workers d"
  "d_started (emit e d) = d_started d"
  by (simp_all add: emit_def)

lemmas emits_def = emitEnqueued_def emitStarted_def emitCompleted_def

lemma remember_sel [simp]:
  "d_queue (remember k d) = d_queue d"
  "inFlightByKey (remember k d) = inFlightByKey d"
  "d_workers (remember k d) = d_workers d"
  by (simp_all add: remember_def split: option.splits)

lemma settle_sel [simp]:
  "d_queue (settle k b c d) = d_queue d"
  "inFlightByKey (settle k b c d) = inFlightByKey d"
  "d_workers (settle k b c d) = d_workers d"
  by (simp_all add: settle_def emits_def split: option.splits)

lemma update_job_sel [simp]:
  "d_queue (update_job i f d) = updateJob i f (d_queue d)"
  "d_jobsByKey (update_job i f d) = d_jobsByKey d"
  "inFlightByKey (update_job i f d) = inFlightByKey d"
  "d_workers (update_job i f d) = d_workers d"
  by (simp_all add: update_job_def)

definition known_key :: "string \<Rightarrow> dispatcher \<Rightarrow> bool" where
  "known_key k d \<longleftrightarrow> map_of (d_jobsByKey d) k \<noteq> None"

lemma known_key_update [simp]:
  "known_key k d \<Longrightarrow> map_of (AList.update k' v (d_jobsByKey d)) k \<noteq> None"
  by (simp add: known_key_def update_conv')

lemma known_key_emit [simp]: "known_key k (emit e d) = known_key k d"
  by (simp add: known_key_def)

lemma known_key_remember: "known_key k d \<Longrightarrow> known_key k (remember k' d)"
  by (simp add: known_key_def remember_def update_conv' split: option.splits)

lemma known_key_settle: "known_key k d \<Longrightarrow> known_key k (settle k' b c d)"
  by (simp add: known_key_def settle_def emits_def update_conv' split: option.splits)

lemma getByKey_stored:
  assumes "queue_inv q" and "getByKey k q = Some j"
  shows "\<exists>i s. map_of (jobsByKey q) k = Some i \<and> i \<noteq> [] \<and> map_of (jobsById q) i = Some s
    \<and> j = toJob s \<and> j_jobKey j = k \<and> j_jobId j = i"
  using assms
  by (auto simp: getByKey_def queue_inv_def by_key_wf_def ids_wf_def split: option.splits if_splits)
    (metis option.inject)+

text \<open>Every job of the queue keeps its kind, identity and the other fields an update leaves.\<close>

lemma getAll_stored: "j \<in> set (getAll q) \<longleftrightarrow> (\<exists>i s. (i, s) \<in> set (jobsById q) \<and> j = toJob s)"
  by (auto simp: getAll_def)

section \<open>The steps of a dispatcher\<close>

text \<open>
  A state is a dispatcher with the runs whose worker has been called and has not answered
  yet: the job selected and the job handed to the worker. Workers answer in any order.
  Fresh ids are ids no stored job has.
\<close>

type_synonym disp_state = "dispatcher \<times> (job \<times> job) list"

definition fresh_id :: "string \<Rightarrow> dispatcher \<Rightarrow> bool" where
  "fresh_id u d \<longleftrightarrow> u \<noteq> [] \<and> map_of (jobsById (d_queue d)) u = None"

inductive disp_step :: "(string \<Rightarrow> string \<Rightarrow> bool) \<Rightarrow> (js_num \<Rightarrow> string) \<Rightarrow>
    disp_state \<Rightarrow> disp_state \<Rightarrow> bool" for lc ns where
  submit: "fresh_id u d \<Longrightarrow> disp_step lc ns (d, rs) (snd (submit now u spec d), rs)"
| register: "disp_step lc ns (d, rs) (registerWorker k d, rs)"
| begin_run: "processNext_begin lc ns now d = (Run n j, d') \<Longrightarrow>
    disp_step lc ns (d, rs) (d', rs @ [(n, j)])"
| begin_other: "processNext_begin lc ns now d = (r, d') \<Longrightarrow> r = Nothing_runnable \<or> r = Settled \<Longrightarrow>
    disp_step lc ns (d, rs) (d', rs)"
| end_run: "(n, j) \<in> set rs \<Longrightarrow>
    disp_step lc ns (d, rs) (processNext_end ns now n j outcome d, remove1 (n, j) rs)"

inductive disp_reach :: "(string \<Rightarrow> string \<Rightarrow> bool) \<Rightarrow> (js_num \<Rightarrow> string) \<Rightarrow>
    disp_state \<Rightarrow> disp_state \<Rightarrow> bool" for lc ns where
  disp_refl: "disp_reach lc ns s s"
| disp_next: "disp_reach lc ns s t \<Longrightarrow> disp_step lc ns t u \<Longrightarrow> disp_reach lc ns s u"

inductive_cases submit_stepE: "disp_step lc ns (d, rs) t"

text \<open>Once a key is known it stays known, whatever the dispatcher does.\<close>

lemma known_key_submit: "known_key k d \<Longrightarrow> known_key k (snd (submit now u spec d))"
  by (auto simp: submit_def known_key_def emits_def Let_def update_conv' split: option.splits)

lemma known_key_begin: "known_key k d \<Longrightarrow> known_key k (snd (processNext_begin lc ns now d))"
  by (auto simp: processNext_begin_def Let_def emits_def known_key_def remember_def update_conv'
      split: option.splits)

lemma known_key_flight [simp]: "known_key k (d\<lparr>inFlightByKey := f\<rparr>) = known_key k d"
  by (simp add: known_key_def)

lemma known_key_update_job [simp]: "known_key k (update_job i f d) = known_key k d"
  by (simp add: known_key_def)

lemma known_key_end: "known_key k d \<Longrightarrow> known_key k (processNext_end ns now n j out d)"
  by (auto simp: processNext_end_def Let_def intro!: known_key_settle split: option.splits)

lemma known_key_register [simp]: "known_key k (registerWorker w d) = known_key k d"
  by (simp add: known_key_def registerWorker_def)

lemma known_key_step: "disp_step lc ns s t \<Longrightarrow> known_key k (fst s) \<Longrightarrow> known_key k (fst t)"
proof (induction rule: disp_step.induct)
  case (begin_run now d n j d' rs)
  then show ?case by (metis fst_conv known_key_begin snd_conv)
next
  case (begin_other now d r d' rs)
  then show ?case by (metis fst_conv known_key_begin snd_conv)
qed (auto intro: known_key_submit known_key_end)

lemma known_key_reach: "disp_reach lc ns s t \<Longrightarrow> known_key k (fst s) \<Longrightarrow> known_key k (fst t)"
  by (induction rule: disp_reach.induct) (auto dest: known_key_step)

lemma submit_known_key: "known_key (j_jobKey spec) d \<Longrightarrow> fst (submit now u spec d) = None"
proof -
  assume k: "known_key (j_jobKey spec) d"
  let ?d1 = "case getByKey (j_jobKey spec) (d_queue d) of None \<Rightarrow> d
    | Some e \<Rightarrow> d\<lparr>d_jobsByKey := AList.update (j_jobKey e) e (d_jobsByKey d)\<rparr>"
  have "known_key (j_jobKey spec) ?d1"
    using k by (simp add: known_key_def update_conv' split: option.splits)
  then have "checkDuplicate (d_jobsByKey ?d1) (j_jobKey spec) \<noteq> Accept"
    by (simp add: checkDuplicate_Accept_iff known_key_def)
  then show ?thesis by (simp add: submit_def Let_def)
qed

lemma submit_Some:
  assumes "submit now u spec d = (Some j, d')"
  shows "known_key (j_jobKey spec) d'" and "j_jobKey j = j_jobKey spec"
    and "j_jobId j = u" "j_status j = Pending" "j_attempts j = 0" "j_kind j = j_kind spec"
    and "getByKey (j_jobKey spec) (d_queue d) = None \<Longrightarrow> d_queue d' = enqueue now j (d_queue d)"
  using assms
  by (auto simp: submit_def Let_def known_key_def emits_def update_conv'
      split: option.splits if_splits)

section \<open>What starting a run tells\<close>

lemma processNext_begin_Run:
  assumes "processNext_begin lc ns now d = (Run n j, d')"
  shows "selectNextRunnableJob lc ns d = Some n" "j_kind n \<in> set (d_workers d)"
    "inFlightByKey d' = set_add (concurrencyKey ns n) (inFlightByKey d)"
    "d_workers d' = d_workers d"
    "d_queue d' = updateJob (j_jobId n)
       (\<lambda>j. j\<lparr>j_ownershipAccepted := True, j_status := Running, j_startedAt := Some now,
              j_attempts := j_attempts n + 1, j_error := None\<rparr>) (d_queue d)"
    "getByKey (j_jobKey n) (d_queue d') = Some j"
  using assms
  by (auto simp: processNext_begin_def Let_def emits_def split: option.splits if_splits)

lemma processNext_begin_other:
  assumes "processNext_begin lc ns now d = (r, d')" and "r = Nothing_runnable \<or> r = Settled"
  shows "d_workers d' = d_workers d"
    and "inFlightByKey d' = inFlightByKey d \<or>
      (\<exists>n. selectNextRunnableJob lc ns d = Some n \<and> j_kind n \<in> set (d_workers d) \<and>
        inFlightByKey d' = set_delete (concurrencyKey ns n)
          (set_add (concurrencyKey ns n) (inFlightByKey d)))"
  using assms
  by (auto simp: processNext_begin_def Let_def emits_def split: option.splits if_splits)

lemma selectNextRunnableJob_Some:
  assumes "selectNextRunnableJob lc ns d = Some n"
  shows "n \<in> set (getAll (d_queue d))" "j_status n = Pending" "canRun ns d n"
  using find_SomeD [OF assms [unfolded selectNextRunnableJob_def Let_def]] by auto

section \<open>Concurrency keys\<close>

lemma organize_key_iff:
  "concurrencyKey ns n = ''memory.organize:global'' \<longleftrightarrow> j_kind n = Memory_organize"
  by (cases "j_kind n") (simp_all add: concurrencyKey_def Let_def)

lemma organize_prefix:
  "prefix ''memory.organize:global'' (concurrencyKey ns n) \<Longrightarrow>
   concurrencyKey ns n = ''memory.organize:global''"
  by (cases "j_kind n") (simp_all add: concurrencyKey_def Let_def)

definition exclusive_kind :: "job_kind \<Rightarrow> bool" where
  "exclusive_kind k \<longleftrightarrow> k \<noteq> Memory_organize \<and> k \<noteq> Cognition_thinker"

lemma running_with_prefix_mem:
  "running_with_prefix p d < 1 \<Longrightarrow> x \<in> set (inFlightByKey d) \<Longrightarrow> \<not> prefix p x"
  by (auto simp: running_with_prefix_def filter_empty_conv)

lemma canRun_key_free:
  assumes run: "canRun ns d n" and kind: "exclusive_kind (j_kind n)"
  shows "concurrencyKey ns n \<notin> set (inFlightByKey d)"
proof (cases "j_kind n = Memory_migrate \<or> j_kind n = Task_run")
  case True
  with run show ?thesis by (auto simp: canRun_def)
next
  case False
  with run kind have "running_with_prefix (concurrencyKey ns n) d < 1"
    by (cases "j_kind n")
      (simp_all add: canRun_def exclusive_kind_def concurrencyKey_def CONCURRENCY_CAPS_def)
  then show ?thesis using running_with_prefix_mem by blast
qed

text \<open>Two jobs with one of the globally capped kinds have the same key.\<close>

definition global_kinds :: "job_kind set" where
  "global_kinds = {Search_rebuild, Maintenance_replay_projection,
     Maintenance_rebuild_derived, Maintenance_full}"

lemma global_kind_key:
  "j_kind n = k \<Longrightarrow> j_kind n' = k \<Longrightarrow> k \<in> global_kinds \<Longrightarrow>
   concurrencyKey ns n = concurrencyKey ns n'"
  by (auto simp: global_kinds_def concurrencyKey_def)

section \<open>The invariant of the runs in flight\<close>

definition exclusive_runs :: "(job \<times> job) list \<Rightarrow> (job \<times> job) list" where
  "exclusive_runs rs = filter (\<lambda>r. exclusive_kind (j_kind (fst r))) rs"

definition flight_inv :: "(js_num \<Rightarrow> string) \<Rightarrow> disp_state \<Rightarrow> bool" where
  "flight_inv ns s \<longleftrightarrow>
     (let d = fst s; rs = snd s in
      distinct (inFlightByKey d) \<and>
      (\<forall>x \<in> set (inFlightByKey d). \<exists>n. x = concurrencyKey ns n) \<and>
      (\<forall>r \<in> set rs. j_kind (fst r) \<in> set (d_workers d)) \<and>
      (Cognition_thinker \<notin> set (d_workers d) \<longrightarrow>
        (\<forall>r \<in> set (exclusive_runs rs). concurrencyKey ns (fst r) \<in> set (inFlightByKey d)) \<and>
        distinct (map (concurrencyKey ns \<circ> fst) (exclusive_runs rs))))"

lemma flight_inv_start: "flight_inv ns (new_dispatcher p b, [])"
  by (simp add: flight_inv_def new_dispatcher_def exclusive_runs_def)

lemma flight_inv_same:
  assumes "flight_inv ns (d, rs)" and "inFlightByKey d' = inFlightByKey d"
    and "set (d_workers d) \<subseteq> set (d_workers d')"
  shows "flight_inv ns (d', rs)"
  using assms by (auto simp: flight_inv_def Let_def)

lemma submit_sel [simp]:
  "inFlightByKey (snd (submit now u spec d)) = inFlightByKey d"
  "d_workers (snd (submit now u spec d)) = d_workers d"
  by (simp_all add: submit_def Let_def emits_def split: option.splits)

lemma processNext_end_sel [simp]:
  "inFlightByKey (processNext_end ns now n j out d) =
     set_delete (concurrencyKey ns n) (inFlightByKey d)"
  "d_workers (processNext_end ns now n j out d) = d_workers d"
  by (simp_all add: processNext_end_def Let_def split: option.splits)

lemma flight_inv_begin:
  assumes "flight_inv ns (d, rs)" and "processNext_begin lc ns now d = (Run n j, d')"
  shows "flight_inv ns (d', rs @ [(n, j)])"
proof -
  note run = processNext_begin_Run [OF assms(2)]
  have free: "exclusive_kind (j_kind n) \<Longrightarrow> concurrencyKey ns n \<notin> set (inFlightByKey d)"
    using canRun_key_free selectNextRunnableJob_Some(3) [OF run(1)] by blast
  show ?thesis
    using assms(1) free
    by (auto simp: flight_inv_def Let_def run exclusive_runs_def)
qed

lemma key_in_flight_other:
  assumes inv: "flight_inv ns (d, rs)" and n: "(n, j) \<in> set rs"
    and no_thinker: "Cognition_thinker \<notin> set (d_workers d)"
    and r: "r \<in> set (exclusive_runs (remove1 (n, j) rs))"
  shows "concurrencyKey ns (fst r) \<noteq> concurrencyKey ns n"
proof (cases "exclusive_kind (j_kind n)")
  case True
  have "exclusive_runs (remove1 (n, j) rs) = remove1 (n, j) (exclusive_runs rs)"
    by (simp add: exclusive_runs_def filter_remove1)
  moreover have "distinct (map (concurrencyKey ns \<circ> fst) (exclusive_runs rs))"
    using inv no_thinker by (simp add: flight_inv_def Let_def)
  moreover have "(n, j) \<in> set (exclusive_runs rs)"
    using n True by (simp add: exclusive_runs_def)
  ultimately have "r \<in> set (exclusive_runs rs)" "r \<noteq> (n, j)"
    "inj_on (concurrencyKey ns \<circ> fst) (set (exclusive_runs rs))"
    using r by (auto simp: distinct_map)
  then show ?thesis using \<open>(n, j) \<in> set (exclusive_runs rs)\<close>
    by (metis comp_apply fst_conv inj_onD)
next
  case False
  have "j_kind n \<noteq> Cognition_thinker"
    using inv n no_thinker by (force simp: flight_inv_def Let_def)
  with False have "j_kind n = Memory_organize" by (simp add: exclusive_kind_def)
  moreover have "j_kind (fst r) \<noteq> Memory_organize"
    using r by (auto simp: exclusive_runs_def exclusive_kind_def)
  ultimately show ?thesis by (metis organize_key_iff)
qed

lemma flight_inv_end:
  assumes inv: "flight_inv ns (d, rs)" and n: "(n, j) \<in> set rs"
  shows "flight_inv ns (processNext_end ns now n j out d, remove1 (n, j) rs)"
proof -
  have sub: "set (exclusive_runs (remove1 (n, j) rs)) \<subseteq> set (exclusive_runs rs)"
    by (auto simp: exclusive_runs_def dest: set_remove1_subset [THEN subsetD])
  have "distinct (map (concurrencyKey ns \<circ> fst) (exclusive_runs rs)) \<Longrightarrow>
      distinct (map (concurrencyKey ns \<circ> fst) (exclusive_runs (remove1 (n, j) rs)))"
    by (auto simp: exclusive_runs_def filter_remove1 distinct_map dest: set_remove1_subset [THEN subsetD]
        intro: inj_on_subset)
  then show ?thesis
    using inv sub key_in_flight_other [OF inv n]
    by (auto simp: flight_inv_def Let_def dest: set_remove1_subset [THEN subsetD])
qed

lemma flight_inv_undo:
  assumes inv: "flight_inv ns (d, rs)" and n: "selectNextRunnableJob lc ns d = Some n"
    and w: "j_kind n \<in> set (d_workers d)" and w': "d_workers d' = d_workers d"
    and f: "inFlightByKey d' =
      set_delete (concurrencyKey ns n) (set_add (concurrencyKey ns n) (inFlightByKey d))"
  shows "flight_inv ns (d', rs)"
proof -
  have "concurrencyKey ns (fst r) \<noteq> concurrencyKey ns n"
    if "Cognition_thinker \<notin> set (d_workers d)" "r \<in> set (exclusive_runs rs)" for r
  proof (cases "exclusive_kind (j_kind n)")
    case True
    then have "concurrencyKey ns n \<notin> set (inFlightByKey d)"
      using canRun_key_free selectNextRunnableJob_Some(3) [OF n] by blast
    moreover have "concurrencyKey ns (fst r) \<in> set (inFlightByKey d)"
      using inv that by (simp add: flight_inv_def Let_def)
    ultimately show ?thesis by metis
  next
    case False
    with w that(1) have "j_kind n = Memory_organize" by (auto simp: exclusive_kind_def)
    moreover have "j_kind (fst r) \<noteq> Memory_organize"
      using that(2) by (auto simp: exclusive_runs_def exclusive_kind_def)
    ultimately show ?thesis by (metis organize_key_iff)
  qed
  then show ?thesis using inv by (auto simp: flight_inv_def Let_def f w')
qed

lemma flight_inv_step: "disp_step lc ns s t \<Longrightarrow> flight_inv ns s \<Longrightarrow> flight_inv ns t"
proof (induction rule: disp_step.induct)
  case (submit u d rs now spec)
  then show ?case by (elim flight_inv_same) simp_all
next
  case (register d rs k)
  then show ?case by (elim flight_inv_same) (auto simp: registerWorker_def)
next
  case (begin_run now d n j d' rs)
  then show ?case by (blast intro: flight_inv_begin)
next
  case (begin_other now d r d' rs)
  note workers = processNext_begin_other(1) [OF begin_other(1,2)]
  from processNext_begin_other(2) [OF begin_other(1,2)] show ?case
  proof (elim disjE exE conjE)
    assume "inFlightByKey d' = inFlightByKey d"
    with begin_other(3) workers show ?case by (elim flight_inv_same) simp_all
  next
    fix n
    assume "selectNextRunnableJob lc ns d = Some n" "j_kind n \<in> set (d_workers d)"
      and "inFlightByKey d' = set_delete (concurrencyKey ns n)
        (set_add (concurrencyKey ns n) (inFlightByKey d))"
    with begin_other(3) workers show ?case by (blast intro: flight_inv_undo)
  qed
next
  case (end_run n j rs d now outcome)
  then show ?case by (blast intro: flight_inv_end)
qed

section \<open>Attempts\<close>

text \<open>
  Every stored job has used at most its attempts, and a pending one has an attempt left.
  Recovery may bring in jobs without attempts left, so this is about dispatchers without
  recovered jobs. The runs in flight keep their job reachable by key.
\<close>

definition within_attempts :: "job_queue \<Rightarrow> bool" where
  "within_attempts q \<longleftrightarrow>
     (\<forall>i s. map_of (jobsById q) i = Some s \<longrightarrow> i \<noteq> [] \<and>
        j_attempts s \<le> j_maxAttempts s \<and> (j_status s = Pending \<longrightarrow> j_attempts s < j_maxAttempts s))"

definition attempts_inv :: "disp_state \<Rightarrow> bool" where
  "attempts_inv s \<longleftrightarrow>
     queue_inv (d_queue (fst s)) \<and> within_attempts (d_queue (fst s)) \<and>
     (\<forall>r \<in> set (snd s). map_of (jobsByKey (d_queue (fst s))) (j_jobKey (snd r)) \<noteq> None)"

lemma toJob_attempts [simp]:
  "j_attempts (toJob s) = j_attempts s" "j_maxAttempts (toJob s) = j_maxAttempts s"
  by (simp_all add: toJob_def job.defs)

lemma merged_job_attempts [simp]:
  "j_attempts (merged_job f s) = j_attempts (f (toJob s))"
  "j_maxAttempts (merged_job f s) = j_maxAttempts (f (toJob s))"
  by (simp_all add: merged_job_def job.defs)

lemma getByKey_known:
  "queue_inv q \<Longrightarrow> within_attempts q \<Longrightarrow> map_of (jobsByKey q) k \<noteq> None \<Longrightarrow>
   \<exists>j. getByKey k q = Some j"
proof -
  assume inv: "queue_inv q" "within_attempts q" and "map_of (jobsByKey q) k \<noteq> None"
  then obtain i where i: "map_of (jobsByKey q) k = Some i" by blast
  with inv(1) obtain s where "map_of (jobsById q) i = Some s"
    by (auto simp: queue_inv_def by_key_wf_def)
  with i inv(2) show ?thesis by (auto simp: getByKey_def within_attempts_def)
qed

lemma byKey_mono_updateJob:
  "map_of (jobsByKey q) k \<noteq> None \<Longrightarrow> map_of (jobsByKey (updateJob i f q)) k \<noteq> None"
  by (cases "map_of (jobsById q) i") (simp_all add: updateJob_None updateJob_sel update_conv')

lemma within_attempts_updateJob:
  assumes "within_attempts q" and "map_of (jobsById q) i = Some e"
    and "j_attempts (f (toJob e)) \<le> j_maxAttempts (f (toJob e))"
    and "j_status (f (toJob e)) = Pending \<Longrightarrow> j_attempts (f (toJob e)) < j_maxAttempts (f (toJob e))"
  shows "within_attempts (updateJob i f q)"
  using assms by (auto simp: within_attempts_def updateJob_sel update_conv')

lemma attempts_inv_updateJob:
  assumes "attempts_inv (d, rs)" and "map_of (jobsById (d_queue d)) i = Some e"
    and "keeps_identity f"
    and "j_attempts (f (toJob e)) \<le> j_maxAttempts (f (toJob e))"
    and "j_status (f (toJob e)) = Pending \<Longrightarrow> j_attempts (f (toJob e)) < j_maxAttempts (f (toJob e))"
    and "d_queue d' = updateJob i f (d_queue d)" and "set rs' \<subseteq> set rs"
  shows "attempts_inv (d', rs')"
proof -
  have "within_attempts (updateJob i f (d_queue d))"
    by (rule within_attempts_updateJob [OF _ assms(2)])
      (use assms in \<open>simp_all add: attempts_inv_def\<close>)
  with assms(1,3,6,7) show ?thesis
    using byKey_mono_updateJob by (simp add: attempts_inv_def updateJob_queue_inv) blast
qed

lemma JOB_MAX_ATTEMPTS_pos: "0 < JOB_MAX_ATTEMPTS k"
  by (cases k) simp_all

lemma attempts_inv_same:
  "attempts_inv (d, rs) \<Longrightarrow> d_queue d' = d_queue d \<Longrightarrow> set rs' \<subseteq> set rs \<Longrightarrow> attempts_inv (d', rs')"
  by (auto simp: attempts_inv_def)

lemma submit_accepted:
  assumes "submit now u spec d = (Some j, d')"
  shows "d_queue d' = enqueue now j (d_queue d)" "j_jobId j = u" "j_attempts j = 0"
    "0 < j_maxAttempts j"
  using assms
  by (auto simp: submit_def Let_def emits_def JOB_MAX_ATTEMPTS_pos split: option.splits if_splits)

lemma submit_rejected: "submit now u spec d = (None, d') \<Longrightarrow> d_queue d' = d_queue d"
  by (auto simp: submit_def Let_def emits_def split: option.splits if_splits)

lemma attempts_inv_submit:
  assumes inv: "attempts_inv (d, rs)" and fresh: "fresh_id u d"
  shows "attempts_inv (snd (submit now u spec d), rs)"
proof (cases "submit now u spec d")
  case (Pair r d')
  show ?thesis
  proof (cases r)
    case None
    with Pair have "d_queue d' = d_queue d" by (simp add: submit_rejected)
    with inv Pair show ?thesis by (auto elim: attempts_inv_same)
  next
    case (Some j)
    with Pair have "submit now u spec d = (Some j, d')" by simp
    note acc = submit_accepted [OF this]
    have "queue_inv (enqueue now j (d_queue d))"
      using inv fresh acc by (simp add: attempts_inv_def fresh_id_def enqueue_queue_inv)
    moreover have "within_attempts (enqueue now j (d_queue d))"
      using inv fresh acc
      by (auto simp: attempts_inv_def within_attempts_def enqueue_def Let_def update_conv'
          fresh_id_def job.defs)
    ultimately show ?thesis
      using inv Pair by (auto simp: attempts_inv_def acc enqueue_def Let_def update_conv')
  qed
qed

lemma getAll_by_id:
  assumes "queue_inv q" and "n \<in> set (getAll q)"
  shows "\<exists>s. map_of (jobsById q) (j_jobId n) = Some s \<and> toJob s = n"
proof -
  from assms(2) obtain i s where "(i, s) \<in> set (jobsById q)" "n = toJob s"
    by (auto simp: getAll_stored)
  moreover from this assms(1) have "map_of (jobsById q) i = Some s"
    by (simp add: queue_inv_def keys_wf_def)
  ultimately show ?thesis
    using assms(1) by (auto simp: queue_inv_def ids_wf_def)
qed

lemma attempts_inv_begin:
  assumes inv: "attempts_inv (d, rs)" and run: "processNext_begin lc ns now d = (Run n j, d')"
  shows "attempts_inv (d', rs @ [(n, j)])"
proof -
  note r = processNext_begin_Run [OF run]
  note sel = selectNextRunnableJob_Some [OF r(1)]
  have q: "queue_inv (d_queue d)" "within_attempts (d_queue d)"
    using inv by (simp_all add: attempts_inv_def)
  obtain s where s: "map_of (jobsById (d_queue d)) (j_jobId n) = Some s" "toJob s = n"
    using getAll_by_id [OF q(1) sel(1)] by blast
  then have st: "j_status s = Pending" "j_attempts s = j_attempts n"
    using sel(2) by (metis toJob_sel(1), metis toJob_attempts(1))
  have "j_attempts s < j_maxAttempts s" using q(2) s(1) st(1) by (auto simp: within_attempts_def)
  then have "attempts_inv (d', rs)"
    by (intro attempts_inv_updateJob [OF inv s(1) _ _ _ r(5)]) (simp_all add: keeps_identity_def st)
  moreover have "map_of (jobsByKey (d_queue d')) (j_jobKey j) \<noteq> None"
  proof -
    have "queue_inv (d_queue d')" using \<open>attempts_inv (d', rs)\<close> by (simp add: attempts_inv_def)
    from getByKey_stored [OF this r(6)] show ?thesis by auto
  qed
  ultimately show ?thesis by (auto simp: attempts_inv_def)
qed

lemma attempts_inv_begin_other:
  assumes inv: "attempts_inv (d, rs)"
    and run: "processNext_begin lc ns now d = (r, d')" "r = Nothing_runnable \<or> r = Settled"
  shows "attempts_inv (d', rs)"
proof (cases "selectNextRunnableJob lc ns d")
  case None
  with run(1) inv show ?thesis by (auto simp: processNext_begin_def)
next
  case (Some n)
  note sel = selectNextRunnableJob_Some [OF Some]
  have q: "queue_inv (d_queue d)" "within_attempts (d_queue d)"
    using inv by (simp_all add: attempts_inv_def)
  obtain s where s: "map_of (jobsById (d_queue d)) (j_jobId n) = Some s" "toJob s = n"
    using getAll_by_id [OF q(1) sel(1)] by blast
  then have st: "j_status s = Pending" "j_attempts s = j_attempts n"
    using sel(2) by (metis toJob_sel(1), metis toJob_attempts(1))
  obtain f where "d_queue d' = updateJob (j_jobId n) f (d_queue d)" "keeps_identity f"
    "\<And>j. j_maxAttempts (f j) = j_maxAttempts j" "\<And>j. j_status (f j) \<noteq> Pending"
    "\<And>j. j_attempts (f j) = j_attempts j \<or> j_attempts (f j) = j_attempts n + 1"
  proof (cases "j_kind n \<in> set (d_workers d)")
    case True
    with Some run show ?thesis
      by (intro that [of "\<lambda>j. j\<lparr>j_ownershipAccepted := True, j_status := Running,
            j_startedAt := Some now, j_attempts := j_attempts n + 1, j_error := None\<rparr>"])
        (auto simp: processNext_begin_def Let_def keeps_identity_def emits_def split: option.splits)
  next
    case False
    with Some run show ?thesis
      by (intro that [of "\<lambda>j. j\<lparr>j_status := Failed, j_completedAt := Some now, j_error :=
            Some (''No worker registered for job kind: '' @ kind_str (j_kind n))\<rparr>"])
        (auto simp: processNext_begin_def keeps_identity_def)
  qed
  note f = this
  have "j_attempts s < j_maxAttempts s" using q(2) s(1) st(1) by (auto simp: within_attempts_def)
  then show ?thesis
    using f(5) [of "toJob s"]
    by (intro attempts_inv_updateJob [OF inv s(1) f(2) _ _ f(1)]) (auto simp: f(3,4) st(2))
qed

lemma processNext_end_queue:
  assumes "getByKey (j_jobKey j) (d_queue d) = Some c"
  shows "d_queue (processNext_end ns now n j None d) =
      updateJob (j_jobId j) (\<lambda>j. j\<lparr>j_status := Completed, j_completedAt := Some now\<rparr>) (d_queue d)"
    and "d_queue (processNext_end ns now n j (Some m) d) =
      updateJob (j_jobId c)
        (if j_retriable c \<and> j_attempts c < j_maxAttempts c
         then (\<lambda>j. j\<lparr>j_status := Pending, j_error := Some m\<rparr>)
         else (\<lambda>j. j\<lparr>j_status := Failed, j_completedAt := Some now, j_error := Some m\<rparr>)) (d_queue d)"
  using assms by (simp_all add: processNext_end_def Let_def)

text \<open>The three updates that end a run.\<close>

lemma attempts_inv_settle:
  assumes inv: "attempts_inv (d, rs)" and s: "map_of (jobsById (d_queue d)) i = Some s"
    and f: "f = (\<lambda>j. j\<lparr>j_status := Completed, j_completedAt := Some now\<rparr>) \<or>
      f = (\<lambda>j. j\<lparr>j_status := Failed, j_completedAt := Some now, j_error := Some m\<rparr>) \<or>
      j_attempts s < j_maxAttempts s \<and> f = (\<lambda>j. j\<lparr>j_status := Pending, j_error := Some m\<rparr>)"
    and d': "d_queue d' = updateJob i f (d_queue d)" and rs: "set rs' \<subseteq> set rs"
  shows "attempts_inv (d', rs')"
proof -
  have "j_attempts s \<le> j_maxAttempts s"
    using inv s by (auto simp: attempts_inv_def within_attempts_def)
  then show ?thesis
    using f by (intro attempts_inv_updateJob [OF inv s _ _ _ d' rs]) (auto simp: keeps_identity_def)
qed

lemma attempts_inv_end:
  assumes inv: "attempts_inv (d, rs)" and n: "(n, j) \<in> set rs"
  shows "attempts_inv (processNext_end ns now n j out d, remove1 (n, j) rs)"
proof -
  have q: "queue_inv (d_queue d)" "within_attempts (d_queue d)"
    using inv by (simp_all add: attempts_inv_def)
  have rs: "set (remove1 (n, j) rs) \<subseteq> set rs" by (rule set_remove1_subset)
  have "map_of (jobsByKey (d_queue d)) (j_jobKey j) \<noteq> None"
    using inv n unfolding attempts_inv_def by (metis fst_conv snd_conv)
  then obtain c where c: "getByKey (j_jobKey j) (d_queue d) = Some c"
    using getByKey_known [OF q] by blast
  from getByKey_stored [OF q(1) this]
  obtain s where s: "map_of (jobsById (d_queue d)) (j_jobId c) = Some s" "c = toJob s" by blast
  show ?thesis
  proof (cases out)
    case None
    show ?thesis
    proof (cases "map_of (jobsById (d_queue d)) (j_jobId j)")
      case missing: None
      have "d_queue (processNext_end ns now n j out d) = d_queue d"
        by (simp add: \<open>out = None\<close> processNext_end_queue(1) [OF c] updateJob_None [OF missing])
      with inv show ?thesis using rs by (rule attempts_inv_same)
    next
      case (Some e)
      from attempts_inv_settle [OF inv Some disjI1 [OF refl] processNext_end_queue(1) [OF c] rs]
      show ?thesis by (simp add: \<open>out = None\<close>)
    qed
  next
    case (Some m)
    show ?thesis
      unfolding Some
      by (rule attempts_inv_settle [OF inv s(1) _ processNext_end_queue(2) [OF c] rs,
            where now = now and m = m]) (simp add: s(2))
  qed
qed

lemma attempts_inv_step: "disp_step lc ns s t \<Longrightarrow> attempts_inv s \<Longrightarrow> attempts_inv t"
proof (induction rule: disp_step.induct)
  case (submit u d rs now spec)
  show ?case by (rule attempts_inv_submit [OF submit(2,1)])
next
  case (register d rs k)
  then show ?case by (elim attempts_inv_same) (auto simp: registerWorker_def)
next
  case (begin_run now d n j d' rs)
  show ?case by (rule attempts_inv_begin [OF begin_run(2,1)])
next
  case (begin_other now d r d' rs)
  show ?case by (rule attempts_inv_begin_other [OF begin_other(3,1,2)])
next
  case (end_run n j rs d now outcome)
  show ?case by (rule attempts_inv_end [OF end_run(2,1)])
qed

lemma attempts_inv_start: "attempts_inv (new_dispatcher p b, [])"
  by (simp add: attempts_inv_def new_dispatcher_def queue_inv_empty within_attempts_def)
    (simp add: empty_queue_def)

lemma reach_invs:
  "disp_reach lc ns s t \<Longrightarrow> flight_inv ns s \<Longrightarrow> attempts_inv s \<Longrightarrow> flight_inv ns t \<and> attempts_inv t"
proof (induction rule: disp_reach.induct)
  case (disp_next s t u)
  then show ?case using flight_inv_step attempts_inv_step by blast
qed simp

lemma distinct_map_const_length:
  assumes "distinct (map f xs)" and "\<forall>x \<in> set xs. \<forall>y \<in> set xs. f x = f y"
  shows "length xs \<le> 1"
proof (rule ccontr)
  assume "\<not> length xs \<le> 1"
  then obtain x y zs where "xs = x # y # zs"
    by (cases xs; cases "tl xs") auto
  with assms show False by auto
qed

lemmas reach_start_invs = reach_invs [OF _ flight_inv_start attempts_inv_start]

section \<open>Properties\<close>

text \<open>
  A job key is accepted once in the life of a dispatcher. When \<open>submit\<close>
  returns a job, every later submission with the same key returns nothing, whatever runs,
  completions, failures and other submissions come in between.
\<close>

theorem key_accepted_once:
  assumes "submit now u spec d = (Some j, d1)"
    and "disp_reach lc ns (d1, rs) (d2, rs2)" and "j_jobKey spec2 = j_jobKey spec"
  shows "fst (submit now2 u2 spec2 d2) = None"
proof -
  have "known_key (j_jobKey spec) d2"
    using known_key_reach [OF assms(2)] submit_Some(1) [OF assms(1)] by simp
  with assms(3) show ?thesis by (simp add: submit_known_key)
qed

definition sample_dispatcher :: dispatcher where
  "sample_dispatcher =
     snd (submit 5 ''id1'' (sample_job ''x'' Background_memory_organize 0) (new_dispatcher False False))"

theorem key_accepted_once_witness:
  "fst (submit 9 ''id2'' (sample_job ''x'' Interactive_user_turn 0) sample_dispatcher) = None"
proof -
  let ?spec = "sample_job ''x'' Background_memory_organize 0"
  have "fst (submit 5 ''id1'' ?spec (new_dispatcher False False)) \<noteq> None"
    by (simp add: submit_def new_dispatcher_def empty_queue_def getByKey_def checkDuplicate_def Let_def)
  then obtain j where j: "submit 5 ''id1'' ?spec (new_dispatcher False False) = (Some j, sample_dispatcher)"
    unfolding sample_dispatcher_def by (metis not_None_eq prod.collapse)
  show ?thesis
    by (rule key_accepted_once [OF j disp_refl [of "\<lambda>_ _. False" "\<lambda>_. []"]]) simp
qed

text \<open>
  As long as no worker for \<open>cognition.thinker\<close> is registered, two jobs that
  run at the same time never have the same concurrency key, unless they are
  \<open>memory.organize\<close> jobs; in particular at most one job of each globally capped kind runs,
  and at most one task per parent and one migration per agent and session.
\<close>

theorem running_keys_exclusive:
  assumes "disp_reach lc ns (new_dispatcher p b, []) (d, rs)"
    and "Cognition_thinker \<notin> set (d_workers d)"
  shows "distinct (map (concurrencyKey ns) (filter (\<lambda>n. j_kind n \<noteq> Memory_organize) (map fst rs)))
    \<and> (\<forall>k \<in> global_kinds. length (filter (\<lambda>n. j_kind n = k) (map fst rs)) \<le> 1)"
proof -
  have inv: "flight_inv ns (d, rs)" using reach_start_invs [OF assms(1)] by blast
  have kinds: "\<forall>r \<in> set rs. j_kind (fst r) \<noteq> Cognition_thinker"
    using inv assms(2) by (force simp: flight_inv_def Let_def)
  have ex: "exclusive_runs rs = filter (\<lambda>r. j_kind (fst r) \<noteq> Memory_organize) rs"
    using kinds by (auto simp: exclusive_runs_def exclusive_kind_def intro!: filter_cong)
  have dist: "distinct (map (concurrencyKey ns)
      (filter (\<lambda>n. j_kind n \<noteq> Memory_organize) (map fst rs)))"
    using inv assms(2) by (simp add: flight_inv_def Let_def ex filter_map comp_def)
  have "length (filter (\<lambda>n. j_kind n = k) (map fst rs)) \<le> 1" if k: "k \<in> global_kinds" for k
  proof -
    have "k \<noteq> Memory_organize" using k by (auto simp: global_kinds_def)
    then have "filter (\<lambda>n. j_kind n = k) (map fst rs) =
        filter (\<lambda>n. j_kind n = k) (filter (\<lambda>n. j_kind n \<noteq> Memory_organize) (map fst rs))"
      by (auto intro: filter_cong)
    then have "distinct (map (concurrencyKey ns) (filter (\<lambda>n. j_kind n = k) (map fst rs)))"
      using distinct_map_filter [OF dist] by simp
    then show ?thesis
      by (rule distinct_map_const_length) (use k in \<open>force intro: global_kind_key\<close>)
  qed
  with dist show ?thesis by blast
qed

text \<open>
  The cap on \<open>memory.organize\<close> jobs never holds one back. In every reachable
  state such a job may run, however many of its kind are running: the keys in flight form
  a set in which all of them share one key, so the count compared with the cap of two is
  never more than one.
\<close>

theorem organize_never_held_back:
  assumes "disp_reach lc ns (new_dispatcher p b, []) (d, rs)" and "j_kind j = Memory_organize"
  shows "canRun ns d j"
proof -
  have inv: "flight_inv ns (d, rs)" using reach_start_invs [OF assms(1)] by blast
  let ?g = "''memory.organize:global''"
  let ?hits = "filter (prefix ?g) (inFlightByKey d)"
  have dist: "distinct ?hits" using inv by (simp only: flight_inv_def Let_def fst_conv distinct_filter)
  have "x = ?g" if "x \<in> set ?hits" for x
  proof -
    from that have "x \<in> set (inFlightByKey d)" and pre: "prefix ?g x" by (simp_all only: set_filter mem_Collect_eq)
    with inv obtain n where "x = concurrencyKey ns n"
      unfolding flight_inv_def Let_def by auto
    with pre show ?thesis using organize_prefix by blast
  qed
  then have "length ?hits \<le> 1"
    by (intro distinct_map_const_length [of "\<lambda>x. x"]) (use dist in \<open>simp_all only: list.map_ident, blast\<close>)
  then show ?thesis
    using assms(2) by (simp add: canRun_def running_with_prefix_def CONCURRENCY_CAPS_def)
qed

section \<open>A concrete run\<close>

text \<open>One \<open>search.rebuild\<close> job is submitted, a worker registered, and the job started.\<close>

definition rebuild_job :: job where
  "rebuild_job = (sample_job ''r'' Background_search_rebuild 0)\<lparr>j_kind := Search_rebuild\<rparr>"

definition submitted_job :: job where
  "submitted_job = rebuild_job\<lparr>j_jobId := ''id1'', j_createdAt := 5\<rparr>"

definition ready_dispatcher :: dispatcher where
  "ready_dispatcher =
     registerWorker Search_rebuild (snd (submit 5 ''id1'' rebuild_job (new_dispatcher False False)))"

lemma submitted_job_sel [simp]:
  "j_jobId submitted_job = ''id1''" "j_jobKey submitted_job = ''key:r''"
  "j_kind submitted_job = Search_rebuild" "j_status submitted_job = Pending"
  "j_attempts submitted_job = 0" "j_maxAttempts submitted_job = 4"
  by (simp_all add: submitted_job_def rebuild_job_def sample_job_def)

lemma submit_rebuild_job:
  "submit 5 ''id1'' rebuild_job (new_dispatcher False False) =
     (Some submitted_job,
      (new_dispatcher False False)\<lparr>
        d_queue := enqueue 5 submitted_job (empty_queue False),
        d_jobsByKey := [(''key:r'', submitted_job)]\<rparr>)"
  by (simp add: submit_def new_dispatcher_def getByKey_def checkDuplicate_def emits_def emit_def
      Let_def submitted_job_def rebuild_job_def sample_job_def)
    (simp add: empty_queue_def)

lemma ready_dispatcher_sel [simp]:
  "jobsById (d_queue ready_dispatcher) =
     [(''id1'', job.extend submitted_job \<lparr>enqueueSeq = 0\<rparr>)]"
  "jobsByKey (d_queue ready_dispatcher) = [(''key:r'', ''id1'')]"
  "d_workers ready_dispatcher = [Search_rebuild]" "inFlightByKey ready_dispatcher = []"
  by (simp_all add: ready_dispatcher_def registerWorker_def submit_rebuild_job)
    (simp_all add: new_dispatcher_def enqueue_def empty_queue_def Let_def set_add_def)

lemma ready_dispatcher_reach:
  "disp_reach lc ns (new_dispatcher False False, []) (ready_dispatcher, [])"
proof -
  have "fresh_id ''id1'' (new_dispatcher False False)"
    by (simp add: fresh_id_def new_dispatcher_def empty_queue_def)
  from disp_next [OF disp_next [OF disp_refl disp_step.submit [OF this]] disp_step.register]
  show ?thesis unfolding ready_dispatcher_def .
qed

lemma select_ready: "selectNextRunnableJob lc ns ready_dispatcher = Some submitted_job"
  by (simp add: selectNextRunnableJob_def getAll_def canRun_def running_with_prefix_def
      CONCURRENCY_CAPS_def)

lemma begin_ready:
  "\<exists>j d. processNext_begin lc ns 7 ready_dispatcher = (Run submitted_job j, d)"
proof -
  have "map_of (jobsById (d_queue ready_dispatcher)) ''id1'' =
      Some (job.extend submitted_job \<lparr>enqueueSeq = 0\<rparr>)" by simp
  note upd = updateJob_sel [OF this]
  show ?thesis
    by (simp add: processNext_begin_def select_ready Let_def getByKey_def upd update_conv')
qed

lemma running_reach:
  "\<exists>j d. disp_reach lc ns (new_dispatcher False False, []) (d, [(submitted_job, j)])
    \<and> d_workers d = [Search_rebuild] \<and> inFlightByKey d = [''search.rebuild:global'']"
proof -
  obtain j d where run: "processNext_begin lc ns 7 ready_dispatcher = (Run submitted_job j, d)"
    using begin_ready by blast
  from disp_next [OF ready_dispatcher_reach disp_step.begin_run [OF run]]
  have "disp_reach lc ns (new_dispatcher False False, []) (d, [(submitted_job, j)])" by simp
  moreover have "inFlightByKey d = [''search.rebuild:global'']" "d_workers d = [Search_rebuild]"
    using processNext_begin_Run(3,4) [OF run] by (simp_all add: concurrencyKey_def set_add_def)
  ultimately show ?thesis by blast
qed

theorem running_keys_exclusive_witness:
  "\<exists>d j. disp_reach (\<lambda>_ _. False) (\<lambda>_. []) (new_dispatcher False False, []) (d, [(submitted_job, j)])
    \<and> length (filter (\<lambda>n. j_kind n = Search_rebuild) (map fst [(submitted_job, j)])) \<le> 1"
proof -
  obtain j d where r: "disp_reach (\<lambda>_ _. False) (\<lambda>_. []) (new_dispatcher False False, [])
      (d, [(submitted_job, j)])"
    and w: "d_workers d = [Search_rebuild]"
    using running_reach by blast
  have "Cognition_thinker \<notin> set (d_workers d)" by (simp add: w)
  from running_keys_exclusive [OF r this] have
    "\<forall>k \<in> global_kinds. length (filter (\<lambda>n. j_kind n = k) (map fst [(submitted_job, j)])) \<le> 1"
    by blast
  moreover have "Search_rebuild \<in> global_kinds" by (simp add: global_kinds_def)
  ultimately show ?thesis using r by blast
qed

theorem organize_never_held_back_witness:
  "\<exists>d j. disp_reach (\<lambda>_ _. False) (\<lambda>_. []) (new_dispatcher False False, []) (d, [(submitted_job, j)])
    \<and> canRun (\<lambda>_. []) d (sample_job ''o'' Background_memory_organize 0)"
proof -
  obtain j d where r: "disp_reach (\<lambda>_ _. False) (\<lambda>_. []) (new_dispatcher False False, [])
      (d, [(submitted_job, j)])"
    using running_reach by blast
  have "j_kind (sample_job ''o'' Background_memory_organize 0) = Memory_organize"
    by (simp add: sample_job_def)
  from organize_never_held_back [OF r this] r show ?thesis by blast
qed

text \<open>
  No job uses more attempts than it has, and a job waiting to run has one
  left, whatever the order of submissions, runs, successes and failures.
\<close>

theorem attempts_never_exceeded:
  assumes "disp_reach lc ns (new_dispatcher p b, []) (d, rs)" and "j \<in> set (getAll (d_queue d))"
  shows "j_attempts j \<le> j_maxAttempts j \<and> (j_status j = Pending \<longrightarrow> j_attempts j < j_maxAttempts j)"
proof -
  have inv: "attempts_inv (d, rs)" using reach_start_invs [OF assms(1)] by blast
  then obtain s where "map_of (jobsById (d_queue d)) (j_jobId j) = Some s" "toJob s = j"
    using getAll_by_id assms(2) by (auto simp: attempts_inv_def)
  with inv show ?thesis by (auto simp: attempts_inv_def within_attempts_def)
qed

theorem attempts_never_exceeded_witness: "j_attempts submitted_job < j_maxAttempts submitted_job"
proof -
  have "submitted_job \<in> set (getAll (d_queue ready_dispatcher))" by (simp add: getAll_def)
  from attempts_never_exceeded [OF ready_dispatcher_reach
      [of "\<lambda>_ _. False" "\<lambda>_. []"] this] show ?thesis by simp
qed

lemma runs_before_weak_order: "weak_order lc \<Longrightarrow> weak_order (runs_before lc)"
  unfolding weak_order_def runs_before_def Let_def
  by (intro conjI allI impI; (auto split: if_splits)?; force?)

text \<open>
  The next job to run is a pending job the caps allow, and no other such job
  comes before it by priority, then creation time, then the locale order of the ids (which
  is a strict weak order). If nothing is selected, no pending job may run.
\<close>

theorem next_runnable_least:
  assumes "weak_order lc"
  shows "(\<forall>n. selectNextRunnableJob lc ns d = Some n \<longrightarrow>
      n \<in> set (getAll (d_queue d)) \<and> j_status n = Pending \<and> canRun ns d n \<and>
      (\<forall>j \<in> set (getAll (d_queue d)). j_status j = Pending \<longrightarrow> canRun ns d j \<longrightarrow>
         \<not> runs_before lc j n))
    \<and> (selectNextRunnableJob lc ns d = None \<longrightarrow>
      (\<forall>j \<in> set (getAll (d_queue d)). j_status j = Pending \<longrightarrow> \<not> canRun ns d j))"
  using weak_order.find_sort_by_least [OF runs_before_weak_order [OF assms]]
  by (fastforce simp: selectNextRunnableJob_def Let_def find_None_iff)

theorem next_runnable_least_witness:
  "weak_order (\<lambda>(a::string) (b::string). length a < length b) \<and>
   canRun (\<lambda>_. []) ready_dispatcher submitted_job"
proof -
  have wo: "weak_order (\<lambda>(a::string) (b::string). length a < length b)" by unfold_locales auto
  from conjunct1 [OF next_runnable_least [OF this, of "\<lambda>_. []" ready_dispatcher]]
    select_ready [of "\<lambda>a b. length a < length b" "\<lambda>_. []"]
  have "canRun (\<lambda>_. []) ready_dispatcher submitted_job" by (metis (no_types, lifting))
  with wo show ?thesis ..
qed

lemma getByKey_updateJob:
  assumes inv: "queue_inv q" and c: "getByKey k q = Some c" and f: "keeps_identity f"
  shows "getByKey k (updateJob (j_jobId c) f q) = Some (f c)"
proof -
  from getByKey_stored [OF inv c] obtain s where
    s: "map_of (jobsByKey q) k = Some (j_jobId c)" "j_jobId c \<noteq> []"
      "map_of (jobsById q) (j_jobId c) = Some s" "c = toJob s" "j_jobKey c = k" by blast
  have id: "j_jobKey (f c) = k" "j_jobId (f c) = j_jobId c"
    using f s(5) by (simp_all add: keeps_identity_def)
  note upd = updateJob_sel [OF s(3), of f, folded s(4)]
  have "toJob (merged_job f s) = f c" by (simp add: s(4))
  with s(2) show ?thesis
    by (simp add: getByKey_def upd id update_conv')
qed

text \<open>
  How a run ends. When the worker resolves, the job is completed; when it
  throws, a retriable job with an attempt left goes back to pending and any other job fails,
  with the message recorded in both cases.
\<close>

theorem run_outcome:
  assumes inv: "queue_inv (d_queue d)" and c: "getByKey (j_jobKey j) (d_queue d) = Some c"
    and same: "j_jobId j = j_jobId c"
  shows "getByKey (j_jobKey j) (d_queue (processNext_end ns now n j None d)) =
      Some (c\<lparr>j_status := Completed, j_completedAt := Some now\<rparr>)
    \<and> getByKey (j_jobKey j) (d_queue (processNext_end ns now n j (Some m) d)) =
      Some (if j_retriable c \<and> j_attempts c < j_maxAttempts c
            then c\<lparr>j_status := Pending, j_error := Some m\<rparr>
            else c\<lparr>j_status := Failed, j_completedAt := Some now, j_error := Some m\<rparr>)"
proof -
  let ?retry = "\<lambda>j::job. j\<lparr>j_status := Pending, j_error := Some m\<rparr>"
    and ?fail = "\<lambda>j::job. j\<lparr>j_status := Failed, j_completedAt := Some now, j_error := Some m\<rparr>"
    and ?done = "\<lambda>j::job. j\<lparr>j_status := Completed, j_completedAt := Some now\<rparr>"
  have ids: "keeps_identity ?done" "keeps_identity ?retry" "keeps_identity ?fail"
    by (simp_all add: keeps_identity_def)
  show ?thesis
    unfolding processNext_end_queue [OF c] same
    using getByKey_updateJob [OF inv c ids(1)] getByKey_updateJob [OF inv c ids(2)]
      getByKey_updateJob [OF inv c ids(3)]
    by simp
qed

theorem run_outcome_witness:
  "getByKey ''key:r'' (d_queue (processNext_end (\<lambda>_. []) 9 submitted_job submitted_job
      (Some ''boom'') ready_dispatcher)) =
     Some (submitted_job\<lparr>j_status := Pending, j_error := Some ''boom''\<rparr>)"
proof -
  have inv: "queue_inv (d_queue ready_dispatcher)"
    using reach_start_invs [OF ready_dispatcher_reach] by (simp add: attempts_inv_def)
  have c: "getByKey (j_jobKey submitted_job) (d_queue ready_dispatcher) = Some submitted_job"
    by (simp add: getByKey_def)
  have "j_retriable submitted_job" by (simp add: submitted_job_def rebuild_job_def sample_job_def)
  with run_outcome [OF inv c refl, of "\<lambda>_. []" 9 submitted_job "''boom''"] show ?thesis by simp
qed

definition entry_of :: "job \<Rightarrow> int \<Rightarrow> string option \<Rightarrow> int \<Rightarrow> job_entry" where
  "entry_of j n err t =
     \<lparr>e_id = persistenceId j, e_jobType = kind_str (j_kind j), e_payload = serializeJob j,
      e_status = P_retryable, e_attemptCount = n, e_maxAttempts = j_maxAttempts j,
      e_errorMessage = err, e_nextAttemptAt = None, e_claimedAt = None, e_createdAt = t,
      e_updatedAt = t\<rparr>"

lemma map_of_opt_field: "map_of (opt_field k v) k' = (if k' = k then v else None)"
  by (simp add: opt_field_def split: option.splits)

lemma serialized_fields:
  assumes "serializeJob j = JObj r"
  shows "readString r ''jobId'' = Some (j_jobId j)" "readString r ''jobKey'' = Some (j_jobKey j)"
    "readString r ''kind'' = Some (kind_str (j_kind j))"
    "readString r ''executionClass'' = Some (class_str (j_executionClass j))"
    "readString r ''sessionId'' = j_sessionId j" "readString r ''agentId'' = j_agentId j"
    "readString r ''idempotencyKey'' = j_idempotencyKey j"
    "get_prop r ''payload'' = Some (j_payload j)"
    "readBoolean r ''retriable'' b = j_retriable j"
    "readNumber r ''createdAt'' = Some (j_createdAt j)"
  using assms
  by (auto simp: serializeJob_def readString_def readBoolean_def readNumber_def get_prop_def
      map_of_opt_field map_add_def split: option.splits)

text \<open>
  A job survives a restart. The persisted entry of an enqueued job (its
  serialised form, under its persistence id and kind) is recovered as the same job, made
  pending again, with the attempts and error of the entry and at least one attempt allowed.
\<close>

theorem recovered_job:
  assumes "persistenceId j \<noteq> []"
  shows "toRecoveredJob u (entry_of j n err t) =
     Some (j\<lparr>j_idempotencyKey := Some (persistenceId j), j_status := Pending,
             j_attempts := max 0 n, j_maxAttempts := max 1 (j_maxAttempts j),
             j_startedAt := None, j_completedAt := None, j_error := err,
             j_ownershipAccepted := False\<rparr>)"
proof -
  obtain r where r: "serializeJob j = JObj r" by (simp add: serializeJob_def)
  show ?thesis
    using assms serialized_fields [OF r]
    by (simp add: toRecoveredJob_def entry_of_def r Let_def persistenceId_def
        split: option.splits)
qed

theorem recovered_job_witness:
  "toRecoveredJob ''u'' (entry_of submitted_job 2 None 8) =
     Some (submitted_job\<lparr>j_idempotencyKey := Some ''key:r'', j_attempts := 2\<rparr>)"
proof -
  have "persistenceId submitted_job \<noteq> []"
    by (simp add: persistenceId_def submitted_job_def rebuild_job_def sample_job_def)
  from recovered_job [OF this, of "''u''" 2 None 8] show ?thesis
    by (simp add: persistenceId_def submitted_job_def rebuild_job_def sample_job_def)
qed

text \<open>
  A finishing thinker run frees the slot of a running task. Both kinds build
  their key from the same fields with the prefix of tasks, so when a
  \<open>cognition.thinker\<close> job that shares them with a running \<open>task.run\<close> job ends, the key is
  gone from the set and another task of the same parent may start although the first one
  is still running.
\<close>

theorem thinker_end_frees_task_slot:
  assumes "j_kind th = Cognition_thinker" and "j_kind t = Task_run"
    and "j_payload t = j_payload th" "j_idempotencyKey t = j_idempotencyKey th"
      "j_sessionId t = j_sessionId th"
  shows "canRun ns (processNext_end ns now th running out d) t"
proof -
  have "concurrencyKey ns t = concurrencyKey ns th"
    using assms by (simp add: concurrencyKey_def parent_field_def)
  then show ?thesis using assms(2) by (simp add: canRun_def)
qed

theorem thinker_end_frees_task_slot_witness:
  "canRun (\<lambda>_. []) (processNext_end (\<lambda>_. []) 9
      (submitted_job\<lparr>j_kind := Cognition_thinker\<rparr>) submitted_job None
      (ready_dispatcher\<lparr>inFlightByKey := [''task.run:default-parent:1'']\<rparr>))
    (submitted_job\<lparr>j_kind := Task_run\<rparr>)"
  by (rule thinker_end_frees_task_slot) simp_all

end
