(* ===== verification/Pg_Types.thy ===== *)
theory Pg_Types
  imports Job_Types
begin

text \<open>
  The durable job store: row types, statuses and results of \<^verbatim>\<open>src/jobs/durable-store.ts\<close>,
  the two tables of \<^verbatim>\<open>src/jobs/pg-schema.ts\<close> and their unique constraints, the
  coalescing state of the \<open>search.rebuild\<close> family and the concurrency caps of
  \<^verbatim>\<open>src/jobs/pg-store.ts\<close>. Columns keep their names behind the prefix \<open>r_\<close> (table
  \<open>jobs_current\<close>) or \<open>a_\<close> (table \<open>job_attempts\<close>).
\<close>

section \<open>Rows and results\<close>

datatype pg_status = Pg_pending | Pg_running | Pg_succeeded | Pg_failed_terminal | Pg_cancelled

datatype attempt_outcome =
    At_running | At_succeeded | At_failed_retry_scheduled | At_failed_terminal | At_cancelled
  | At_lease_lost

record job_row =
  r_job_key :: string
  r_job_type :: job_kind
  r_job_family_key :: "string option"
  r_execution_class :: execution_class
  r_concurrency_key :: string
  r_status :: pg_status
  r_payload_schema_version :: int
  r_payload_json :: jsonb
  r_family_state_json :: jsonb
  r_claim_version :: int
  r_claimed_by :: "string option"
  r_claimed_at :: "int option"
  r_lease_expires_at :: "int option"
  r_last_heartbeat_at :: "int option"
  r_attempt_count :: int
  r_max_attempts :: int
  r_next_attempt_at :: int
  r_last_error_code :: "string option"
  r_last_error_message :: "string option"
  r_last_error_at :: "int option"
  r_created_at :: int
  r_updated_at :: int
  r_terminal_at :: "int option"

record attempt_row =
  a_attempt_id :: int
  a_job_key :: string
  a_job_type :: job_kind
  a_job_family_key :: "string option"
  a_execution_class :: execution_class
  a_concurrency_key :: string
  a_claim_version :: int
  a_attempt_no :: int
  a_worker_id :: string
  a_outcome :: attempt_outcome
  a_payload_schema_version :: int
  a_payload_snapshot_json :: jsonb
  a_family_state_snapshot_json :: jsonb
  a_started_at :: int
  a_last_heartbeat_at :: "int option"
  a_lease_expires_at :: int
  a_finished_at :: "int option"
  a_error_code :: "string option"
  a_error_message :: "string option"
  a_backoff_until :: "int option"

text \<open>
  The payload of a \<open>search.rebuild\<close> request as the typed code has it; other payloads are
  opaque to the store.
\<close>

record rebuild_payload =
  p_json :: json
  p_triggerSource :: string
  p_triggerReason :: string
  p_requestedAt :: "rat option"

record enqueue_input =
  q_job_key :: string
  q_job_type :: job_kind
  q_job_family_key :: "string option"
  q_execution_class :: execution_class
  q_concurrency_key :: string
  q_payload_schema_version :: int
  q_payload_json :: rebuild_payload
  q_max_attempts :: int
  q_now_ms :: int
  q_next_attempt_at :: "int option"

datatype enqueue_result =
    Created string "string option" int
  | Duplicate string "string option" pg_status int
  | Coalesced string string string

record claim_input =
  c_worker_id :: string
  c_now_ms :: int
  c_lease_duration_ms :: int

datatype claim_result = Claimed job_row | None_ready

datatype fence_miss = Not_found | Stale_claim | Not_running

datatype 'a fenced = Done 'a | Missed fence_miss

record fail_input =
  f_now_ms :: int
  f_error_code :: "string option"
  f_error_message :: string
  f_retry_delay_ms :: "int option"

datatype fail_done = Retry_scheduled int | Failed_terminal int

text \<open>What a transaction can raise: a unique violation, or the error \<open>enqueue\<close> throws itself.\<close>

datatype store_error = Unique_violation string | Enqueue_conflict_without_row

section \<open>The database\<close>

record pg_db =
  jobs_current :: "job_row list"
  job_attempts :: "attempt_row list"
  next_attempt_id :: int

definition pg_active :: "pg_status \<Rightarrow> bool" where
  "pg_active s = (s = Pg_pending \<or> s = Pg_running)"

definition isTerminalStatus :: "pg_status \<Rightarrow> bool" where
  "isTerminalStatus s = (s = Pg_succeeded \<or> s = Pg_failed_terminal \<or> s = Pg_cancelled)"

text \<open>
  The unique constraints: \<open>job_key\<close> is the primary key, the partial index allows one active
  row per family key, and an attempt is identified by its job key and claim version.
\<close>

definition job_key_taken :: "string \<Rightarrow> pg_db \<Rightarrow> bool" where
  "job_key_taken k db = (\<exists>r \<in> set (jobs_current db). r_job_key r = k)"

definition family_taken :: "string option \<Rightarrow> pg_db \<Rightarrow> bool" where
  "family_taken f db =
     (\<exists>r \<in> set (jobs_current db). f \<noteq> None \<and> r_job_family_key r = f \<and> pg_active (r_status r))"

definition attempt_taken :: "string \<Rightarrow> int \<Rightarrow> pg_db \<Rightarrow> bool" where
  "attempt_taken k v db =
     (\<exists>a \<in> set (job_attempts db). a_job_key a = k \<and> a_claim_version a = v)"

definition active_family_keys :: "pg_db \<Rightarrow> string list" where
  "active_family_keys db =
     List.map_filter (\<lambda>r. if pg_active (r_status r) then r_job_family_key r else None)
       (jobs_current db)"

definition constraints :: "pg_db \<Rightarrow> bool" where
  "constraints db \<longleftrightarrow>
     distinct (map r_job_key (jobs_current db)) \<and>
     distinct (active_family_keys db) \<and>
     distinct (map (\<lambda>a. (a_job_key a, a_claim_version a)) (job_attempts db))"

definition empty_db :: pg_db where
  "empty_db = \<lparr>jobs_current = [], job_attempts = [], next_attempt_id = 1\<rparr>"

section \<open>Family state of coalesced rebuild requests\<close>

record family_state =
  rerunRequested :: bool
  coalescedRequestCount :: int
  latestRequestedAt :: "rat option"
  triggerSourceCounts :: "(string, int) js_map"
  triggerReasonCounts :: "(string, int) js_map"

definition empty_family_state :: family_state where
  "empty_family_state =
     \<lparr>rerunRequested = False, coalescedRequestCount = 0, latestRequestedAt = None,
      triggerSourceCounts = [], triggerReasonCounts = []\<rparr>"

fun counter_entries :: "(string \<times> json) list \<Rightarrow> (string \<times> int) list" where
  "counter_entries [] = []"
| "counter_entries ((k, v) # kvs) =
     (case finite_num v of
        Some q \<Rightarrow> (if q \<ge> 0 then (k, \<lfloor>q\<rfloor>) # counter_entries kvs else counter_entries kvs)
      | None \<Rightarrow> counter_entries kvs)"

fun toCounterMap :: "json option \<Rightarrow> (string, int) js_map" where
  "toCounterMap (Some (JObj kvs)) = counter_entries kvs"
| "toCounterMap (Some (JArr vs)) =
     counter_entries (zip (map nat_str [0..<length vs]) vs)"
| "toCounterMap _ = []"

definition normalize_object :: "(string, json) js_map \<Rightarrow> family_state" where
  "normalize_object raw =
     \<lparr>rerunRequested = truthy (get_prop raw ''rerunRequested''),
      coalescedRequestCount =
        (case Option.bind (get_prop raw ''coalescedRequestCount'') finite_num of
           Some q \<Rightarrow> if q \<ge> 0 then \<lfloor>q\<rfloor> else 0
         | None \<Rightarrow> 0),
      latestRequestedAt = Option.bind (get_prop raw ''latestRequestedAt'') finite_num,
      triggerSourceCounts = toCounterMap (get_prop raw ''triggerSourceCounts''),
      triggerReasonCounts = toCounterMap (get_prop raw ''triggerReasonCounts'')\<rparr>"

fun normalizeSearchRebuildFamilyState :: "jsonb \<Rightarrow> family_state" where
  "normalizeSearchRebuildFamilyState (JText (Some v)) = normalizeSearchRebuildFamilyState v"
| "normalizeSearchRebuildFamilyState (JText None) = empty_family_state"
| "normalizeSearchRebuildFamilyState (JVal (JObj raw)) = normalize_object raw"
| "normalizeSearchRebuildFamilyState (JVal (JArr _)) = normalize_object []"
| "normalizeSearchRebuildFamilyState (JVal _) = empty_family_state"

text \<open>The JSON form of a family state; \<open>undefined\<close> fields are left out by \<open>JSON.stringify\<close>.\<close>

definition counts_json :: "(string, int) js_map \<Rightarrow> json" where
  "counts_json m = JObj (map (\<lambda>(k, n). (k, JNum (Fin (of_int n)))) m)"

definition family_json :: "family_state \<Rightarrow> json" where
  "family_json st = JObj (
     [(''rerunRequested'', JBool (rerunRequested st)),
      (''coalescedRequestCount'', JNum (Fin (of_int (coalescedRequestCount st))))] @
     (case latestRequestedAt st of None \<Rightarrow> [] | Some t \<Rightarrow> [(''latestRequestedAt'', JNum (Fin t))]) @
     [(''triggerSourceCounts'', counts_json (triggerSourceCounts st)),
      (''triggerReasonCounts'', counts_json (triggerReasonCounts st))])"

abbreviation family_jsonb :: "family_state \<Rightarrow> jsonb" where
  "family_jsonb st \<equiv> stringify (JVal (family_json st))"

definition count_of :: "(string, int) js_map \<Rightarrow> string \<Rightarrow> int" where
  "count_of m k = (case map_of m k of Some n \<Rightarrow> n | None \<Rightarrow> 0)"

definition bump :: "string \<Rightarrow> (string, int) js_map \<Rightarrow> (string, int) js_map" where
  "bump k m = AList.update k (count_of m k + 1) m"

definition buildCoalescedSearchRebuildFamilyState ::
    "jsonb \<Rightarrow> rebuild_payload \<Rightarrow> pg_status \<Rightarrow> int \<Rightarrow> family_state" where
  "buildCoalescedSearchRebuildFamilyState existing payload status nowMs =
     (let current = normalizeSearchRebuildFamilyState existing;
          incomingRequestedAt = (case p_requestedAt payload of Some t \<Rightarrow> t | None \<Rightarrow> of_int nowMs);
          alreadyCovered = count_of (triggerReasonCounts current) (p_triggerReason payload) > 0
      in \<lparr>rerunRequested =
            (if status = Pg_running \<and> \<not> rerunRequested current
             then (if \<not> alreadyCovered then True else rerunRequested current)
             else rerunRequested current),
          coalescedRequestCount = coalescedRequestCount current + 1,
          latestRequestedAt =
            Some (max (case latestRequestedAt current of Some t \<Rightarrow> t | None \<Rightarrow> incomingRequestedAt)
                   incomingRequestedAt),
          triggerSourceCounts = bump (p_triggerSource payload) (triggerSourceCounts current),
          triggerReasonCounts = bump (p_triggerReason payload) (triggerReasonCounts current)\<rparr>)"

definition initialSearchRebuildFamilyState :: "rebuild_payload \<Rightarrow> family_state" where
  "initialSearchRebuildFamilyState payload =
     \<lparr>rerunRequested = False, coalescedRequestCount = 0, latestRequestedAt = None,
      triggerSourceCounts = [(p_triggerSource payload, 1)],
      triggerReasonCounts = [(p_triggerReason payload, 1)]\<rparr>"

definition buildSearchRebuildSuccessorFamilyState :: "jsonb \<Rightarrow> family_state" where
  "buildSearchRebuildSuccessorFamilyState value =
     (let current = normalizeSearchRebuildFamilyState value
      in \<lparr>rerunRequested = False, coalescedRequestCount = 0,
          latestRequestedAt = latestRequestedAt current,
          triggerSourceCounts = triggerSourceCounts current,
          triggerReasonCounts = triggerReasonCounts current\<rparr>)"

definition buildSearchRebuildSuccessorJobKey :: "string \<Rightarrow> string \<Rightarrow> string" where
  "buildSearchRebuildSuccessorJobKey uuid jobFamilyKey =
     (let pre = ''search.rebuild:'';
          familyFragment = (if prefix pre jobFamilyKey then drop (length pre) jobFamilyKey
                            else jobFamilyKey)
      in ''search.rebuild:'' @ familyFragment @ '':req:'' @ uuid)"

section \<open>Concurrency caps\<close>

definition CONCURRENCY_KEY_CAPS :: "(string, nat) js_map" where
  "CONCURRENCY_KEY_CAPS =
     [(''search.rebuild:global'', search_rebuild_global CONCURRENCY_CAPS),
      (''memory.organize:global'', memory_organize_global CONCURRENCY_CAPS),
      (''maintenance.replay_projection:global'', maintenance_replay_global CONCURRENCY_CAPS),
      (''maintenance.rebuild_derived:global'', maintenance_rebuild_derived_global CONCURRENCY_CAPS),
      (''maintenance.full:global'', maintenance_full_global CONCURRENCY_CAPS),
      (''cognition.thinker:session:{sessionId}'', 2),
      (''cognition.thinker:global'', cognition_thinker_global CONCURRENCY_CAPS)]"

text \<open>
  The option \<open>thinkerGlobalConcurrencyCap\<close> of the store is \<open>override\<close>. The table is an object
  whose names are looked up with brackets; a key named like a member of \<open>Object.prototype\<close>, such as
  \<open>constructor\<close>, would find that member. No key the program builds is of that form (all have a
  colon), and it has the default cap here.
\<close>

definition getConcurrencyCap :: "nat option \<Rightarrow> string \<Rightarrow> nat" where
  "getConcurrencyCap override key =
     (let overrides = (case override of Some n \<Rightarrow> [(''cognition.thinker:global'', n)] | None \<Rightarrow> [])
      in case map_of overrides key of
           Some n \<Rightarrow> n
         | None \<Rightarrow> (case map_of CONCURRENCY_KEY_CAPS key of Some n \<Rightarrow> n | None \<Rightarrow> 1))"

text \<open>\<open>indexOf\<close>: the text before the first occurrence of a substring, if it occurs.\<close>

primrec before_substring :: "string \<Rightarrow> string \<Rightarrow> string option" where
  "before_substring p [] = (if p = [] then Some [] else None)"
| "before_substring p (x # xs) =
     (if prefix p (x # xs) then Some []
      else map_option (\<lambda>s. x # s) (before_substring p xs))"

definition deriveGlobalConcurrencyKey :: "string \<Rightarrow> string option" where
  "deriveGlobalConcurrencyKey concurrencyKey =
     (case before_substring '':session:'' concurrencyKey of
        None \<Rightarrow> None
      | Some p \<Rightarrow>
          let globalKey = p @ '':global''
          in if map_of CONCURRENCY_KEY_CAPS globalKey \<noteq> None then Some globalKey else None)"

end
