(* ===== verification/Pg_Store.thy ===== *)
theory Pg_Store
  imports Pg_Types
begin

text \<open>
  The operations of \<open>PgJobStore\<close> (\<^verbatim>\<open>src/jobs/pg-store.ts\<close>). Each is one transaction: a
  function of the database as it stands when the transaction starts, which returns the
  result and the database after it; an error rolls the transaction back. The statements
  are the updates of lists of rows of theory \<open>Prelude\<close>; a SELECT without ORDER BY returns
  rows in table order, and a theorem about any table order covers what the server may do.

  Arguments standing for the environment: \<open>now\<close> is \<open>Date.now()\<close> where the code reads the
  clock, \<open>uuid\<close> the result of \<open>randomUUID()\<close>; \<open>skip\<close> are the keys of the rows other
  transactions have locked (SKIP LOCKED), \<open>lock_free\<close> the concurrency keys whose advisory
  lock can be taken; \<open>env1\<close> and \<open>env2\<close> are what other transactions commit between two
  statements of \<open>enqueue\<close>, as READ COMMITTED isolation lets the later statement see.
\<close>

section \<open>Enqueue\<close>

definition pending_row :: "enqueue_input \<Rightarrow> jsonb \<Rightarrow> job_row" where
  "pending_row q family =
     \<lparr>r_job_key = q_job_key q,
      r_job_type = q_job_type q,
      r_job_family_key = q_job_family_key q,
      r_execution_class = q_execution_class q,
      r_concurrency_key = q_concurrency_key q,
      r_status = Pg_pending,
      r_payload_schema_version = q_payload_schema_version q,
      r_payload_json = stringify (JVal (p_json (q_payload_json q))),
      r_family_state_json = family,
      r_claim_version = 0,
      r_claimed_by = None, r_claimed_at = None, r_lease_expires_at = None,
      r_last_heartbeat_at = None,
      r_attempt_count = 0,
      r_max_attempts = q_max_attempts q,
      r_next_attempt_at =
        (case q_next_attempt_at q of Some t \<Rightarrow> t | None \<Rightarrow> q_now_ms q),
      r_last_error_code = None, r_last_error_message = None, r_last_error_at = None,
      r_created_at = q_now_ms q,
      r_updated_at = q_now_ms q,
      r_terminal_at = None\<rparr>"

definition row_by_key :: "string \<Rightarrow> pg_db \<Rightarrow> job_row option" where
  "row_by_key k db = find (\<lambda>r. r_job_key r = k) (jobs_current db)"

definition active_family_row :: "string \<Rightarrow> pg_db \<Rightarrow> job_row option" where
  "active_family_row f db =
     find (\<lambda>r. r_job_family_key r = Some f \<and> pg_active (r_status r)) (jobs_current db)"

definition update_rows :: "(job_row \<Rightarrow> bool) \<Rightarrow> (job_row \<Rightarrow> job_row) \<Rightarrow> pg_db \<Rightarrow> pg_db" where
  "update_rows p f db = db\<lparr>jobs_current := update_where p f (jobs_current db)\<rparr>"

definition insert_row :: "job_row \<Rightarrow> pg_db \<Rightarrow> pg_db" where
  "insert_row r db = db\<lparr>jobs_current := jobs_current db @ [r]\<rparr>"

definition duplicate_result :: "enqueue_input \<Rightarrow> job_row \<Rightarrow> enqueue_result" where
  "duplicate_result q r =
     Duplicate (q_job_key q)
       (case r_job_family_key r of Some f \<Rightarrow> Some f | None \<Rightarrow> q_job_family_key q)
       (r_status r) (r_claim_version r)"

definition coalesce_into :: "enqueue_input \<Rightarrow> string \<Rightarrow> job_row \<Rightarrow> pg_db \<Rightarrow> enqueue_result \<times> pg_db" where
  "coalesce_into q f active db =
     (let mergedFamilyState =
        buildCoalescedSearchRebuildFamilyState (r_family_state_json active) (q_payload_json q)
          (r_status active) (q_now_ms q)
      in (Coalesced (q_job_key q) f (r_job_key active),
          update_rows (\<lambda>r. r_job_key r = r_job_key active)
            (\<lambda>r. r\<lparr>r_family_state_json := family_jsonb mergedFamilyState,
                   r_updated_at := q_now_ms q\<rparr>) db))"

text \<open>The \<open>search.rebuild\<close> branch, from the second SELECT on.\<close>

definition enqueue_rebuild :: "(pg_db \<Rightarrow> pg_db) \<Rightarrow> (pg_db \<Rightarrow> pg_db) \<Rightarrow> enqueue_input \<Rightarrow> string \<Rightarrow>
    pg_db \<Rightarrow> (store_error, enqueue_result) result \<times> pg_db" where
  "enqueue_rebuild env1 env2 q f db =
     (case active_family_row f db of
        Some activeFamilyRow \<Rightarrow>
          (let (res, db') = coalesce_into q f activeFamilyRow db in (Inr res, db'))
      | None \<Rightarrow>
          (let db1 = env1 db
           in if \<not> job_key_taken (q_job_key q) db1 \<and> \<not> family_taken (Some f) db1 then
                (Inr (Created (q_job_key q) (Some f) 0),
                 insert_row
                   (pending_row q
                     (family_jsonb (initialSearchRebuildFamilyState (q_payload_json q)))) db1)
              else
                (let db2 = env2 db1
                 in case row_by_key (q_job_key q) db2 of
                      Some r \<Rightarrow> (Inr (duplicate_result q r), db2)
                    | None \<Rightarrow>
                        (case active_family_row f db2 of
                           Some activeFamilyRow \<Rightarrow>
                             (let (res, db') = coalesce_into q f activeFamilyRow db2
                              in (Inr res, db'))
                         | None \<Rightarrow> (Inl Enqueue_conflict_without_row, db2)))))"

definition enqueue_in :: "(pg_db \<Rightarrow> pg_db) \<Rightarrow> (pg_db \<Rightarrow> pg_db) \<Rightarrow> enqueue_input \<Rightarrow>
    pg_db \<Rightarrow> (store_error, enqueue_result) result \<times> pg_db" where
  "enqueue_in env1 env2 q db =
     (case row_by_key (q_job_key q) db of
        Some r \<Rightarrow> (Inr (duplicate_result q r), db)
      | None \<Rightarrow>
          (if q_job_type q = Search_rebuild \<and> q_job_family_key q \<noteq> None \<and> q_job_family_key q \<noteq> Some []
           then enqueue_rebuild env1 env2 q (the (q_job_family_key q)) db
           else
             (let db1 = env1 db
              in if job_key_taken (q_job_key q) db1 then
                   (let db2 = env2 db1
                    in (Inr (case row_by_key (q_job_key q) db2 of
                               Some r \<Rightarrow> duplicate_result q r
                             | None \<Rightarrow> Duplicate (q_job_key q) (q_job_family_key q) Pg_pending 0),
                        db2))
                 else if family_taken (q_job_family_key q) db1 then
                   (Inl (Unique_violation ''idx_jobs_current_family_active''), db1)
                 else
                   (Inr (Created (q_job_key q) (q_job_family_key q) 0),
                    insert_row (pending_row q (stringify (JVal (JObj [])))) db1))))"

text \<open>Without interference.\<close>

definition enqueue :: "enqueue_input \<Rightarrow> pg_db \<Rightarrow> (store_error, enqueue_result) result \<times> pg_db" where
  "enqueue q db = enqueue_in id id q db"

section \<open>Claim\<close>

definition CLAIM_SCAN_BATCH_SIZE :: nat where
  "CLAIM_SCAN_BATCH_SIZE = 20"

text \<open>The CASE expression of the scan order.\<close>

fun claim_priority :: "execution_class \<Rightarrow> int" where
  "claim_priority Interactive_user_turn = 1"
| "claim_priority Interactive_delegated_task = 2"
| "claim_priority Background_memory_migrate = 3"
| "claim_priority Background_memory_organize = 4"
| "claim_priority Background_search_rebuild = 4"
| "claim_priority Background_autonomy = 5"
| "claim_priority _ = 9"

definition claim_rank :: "job_row \<Rightarrow> int \<times> int" where
  "claim_rank r = (claim_priority (r_execution_class r), r_next_attempt_at r)"

definition claim_before :: "job_row \<Rightarrow> job_row \<Rightarrow> bool" where
  "claim_before a b = (claim_rank a < claim_rank b)"

definition claim_ready :: "int \<Rightarrow> job_row \<Rightarrow> bool" where
  "claim_ready now r = (r_status r = Pg_pending \<and> r_next_attempt_at r \<le> now)"

text \<open>The scan: ready rows in order, locked rows skipped, one batch from an offset.\<close>

definition scan_order :: "string list \<Rightarrow> int \<Rightarrow> pg_db \<Rightarrow> job_row list" where
  "scan_order skip now db =
     filter (\<lambda>r. r_job_key r \<notin> set skip)
       (sort_by claim_before (filter (claim_ready now) (jobs_current db)))"

definition claim_batch :: "string list \<Rightarrow> int \<Rightarrow> nat \<Rightarrow> pg_db \<Rightarrow> job_row list" where
  "claim_batch skip now offset db = take CLAIM_SCAN_BATCH_SIZE (drop offset (scan_order skip now db))"

definition running_with_key :: "string \<Rightarrow> pg_db \<Rightarrow> nat" where
  "running_with_key k db =
     count_where (\<lambda>r. r_concurrency_key r = k \<and> r_status r = Pg_running) (jobs_current db)"

definition running_of_type :: "job_kind \<Rightarrow> pg_db \<Rightarrow> nat" where
  "running_of_type t db =
     count_where (\<lambda>r. r_job_type r = t \<and> r_status r = Pg_running) (jobs_current db)"

text \<open>The three tests that make the scan \<open>continue\<close> with the next candidate.\<close>

definition claimable :: "nat option \<Rightarrow> string list \<Rightarrow> pg_db \<Rightarrow> job_row \<Rightarrow> bool" where
  "claimable override lock_free db candidate =
     (if r_concurrency_key candidate \<notin> set lock_free then False
      else if running_with_key (r_concurrency_key candidate) db
                \<ge> getConcurrencyCap override (r_concurrency_key candidate) then False
      else (case deriveGlobalConcurrencyKey (r_concurrency_key candidate) of
              None \<Rightarrow> True
            | Some globalKey \<Rightarrow>
                running_of_type (r_job_type candidate) db < getConcurrencyCap override globalKey))"

definition claim_row :: "claim_input \<Rightarrow> job_row \<Rightarrow> job_row" where
  "claim_row inp r =
     r\<lparr>r_status := Pg_running,
       r_claim_version := r_claim_version r + 1,
       r_claimed_by := Some (c_worker_id inp),
       r_claimed_at := Some (c_now_ms inp),
       r_lease_expires_at := Some (c_now_ms inp + c_lease_duration_ms inp),
       r_last_heartbeat_at := Some (c_now_ms inp),
       r_attempt_count := r_attempt_count r + 1,
       r_updated_at := c_now_ms inp\<rparr>"

definition running_attempt :: "claim_input \<Rightarrow> int \<Rightarrow> job_row \<Rightarrow> attempt_row" where
  "running_attempt inp aid claimed =
     \<lparr>a_attempt_id = aid,
      a_job_key = r_job_key claimed,
      a_job_type = r_job_type claimed,
      a_job_family_key = r_job_family_key claimed,
      a_execution_class = r_execution_class claimed,
      a_concurrency_key = r_concurrency_key claimed,
      a_claim_version = r_claim_version claimed,
      a_attempt_no = r_attempt_count claimed,
      a_worker_id = c_worker_id inp,
      a_outcome = At_running,
      a_payload_schema_version = r_payload_schema_version claimed,
      a_payload_snapshot_json = stringify (r_payload_json claimed),
      a_family_state_snapshot_json = stringify (r_family_state_json claimed),
      a_started_at = c_now_ms inp,
      a_last_heartbeat_at = Some (c_now_ms inp),
      a_lease_expires_at = c_now_ms inp + c_lease_duration_ms inp,
      a_finished_at = None, a_error_code = None, a_error_message = None,
      a_backoff_until = None\<rparr>"

text \<open>
  Claiming one candidate: the guarded UPDATE of its row and the INSERT of the attempt, which
  a unique index may reject.
\<close>

definition claim_one :: "claim_input \<Rightarrow> job_row \<Rightarrow> pg_db \<Rightarrow>
    (store_error, claim_result) result \<times> pg_db" where
  "claim_one inp candidate db =
     (let claimed = claim_row inp candidate
      in if attempt_taken (r_job_key claimed) (r_claim_version claimed) db
         then (Inl (Unique_violation ''ux_job_attempts_job_key_claim_version''), db)
         else
           (Inr (Claimed claimed),
            db\<lparr>jobs_current :=
                 update_where (\<lambda>r. r_job_key r = r_job_key candidate \<and> r_status r = Pg_pending)
                   (claim_row inp) (jobs_current db),
               job_attempts := job_attempts db @ [running_attempt inp (next_attempt_id db) claimed],
               next_attempt_id := next_attempt_id db + 1\<rparr>))"

text \<open>The \<open>while (true)\<close> over batches. Nothing is written before a claim, so all batches
  read the same database.\<close>

function claim_loop :: "nat option \<Rightarrow> string list \<Rightarrow> string list \<Rightarrow> claim_input \<Rightarrow> nat \<Rightarrow> pg_db \<Rightarrow>
    (store_error, claim_result) result \<times> pg_db" where
  "claim_loop override skip lock_free inp offset db =
     (let candidates = claim_batch skip (c_now_ms inp) offset db
      in if candidates = [] then (Inr None_ready, db)
         else (case find (claimable override lock_free db) candidates of
                 Some candidate \<Rightarrow> claim_one inp candidate db
               | None \<Rightarrow>
                   claim_loop override skip lock_free inp (offset + length candidates) db))"
  by pat_completeness auto
termination
proof (relation "measure (\<lambda>(ov, skip, lf, inp, offset, db).
    length (scan_order skip (c_now_ms inp) db) - offset)", goal_cases)
  case (2 ov skip lf inp offset db candidates)
  then show ?case by (auto simp: claim_batch_def)
qed simp

declare claim_loop.simps [simp del]

definition claimNext :: "nat option \<Rightarrow> string list \<Rightarrow> string list \<Rightarrow> claim_input \<Rightarrow> pg_db \<Rightarrow>
    (store_error, claim_result) result \<times> pg_db" where
  "claimNext override skip lock_free inp db = claim_loop override skip lock_free inp 0 db"

section \<open>Fenced operations on a claimed job\<close>

text \<open>
  Heartbeat, completion, failure and cancellation act on the row with the given key, claim
  version and status running, if there is one. Otherwise the miss is classified, and for a
  stale claim the old attempt is marked as having lost its lease.
\<close>

definition DEFAULT_HEARTBEAT_LEASE_EXTENSION_MS :: int where
  "DEFAULT_HEARTBEAT_LEASE_EXTENSION_MS = 30000"

definition fence :: "string \<Rightarrow> int \<Rightarrow> job_row \<Rightarrow> bool" where
  "fence k v r = (r_job_key r = k \<and> r_claim_version r = v \<and> r_status r = Pg_running)"

definition attempt_fence :: "string \<Rightarrow> int \<Rightarrow> attempt_row \<Rightarrow> bool" where
  "attempt_fence k v a = (a_job_key a = k \<and> a_claim_version a = v \<and> a_outcome a = At_running)"

definition update_attempts :: "string \<Rightarrow> int \<Rightarrow> (attempt_row \<Rightarrow> attempt_row) \<Rightarrow> pg_db \<Rightarrow> pg_db" where
  "update_attempts k v f db =
     db\<lparr>job_attempts := update_where (attempt_fence k v) f (job_attempts db)\<rparr>"

definition classifyFenceMiss :: "string \<Rightarrow> int \<Rightarrow> pg_db \<Rightarrow> fence_miss" where
  "classifyFenceMiss k v db =
     (case row_by_key k db of
        None \<Rightarrow> Not_found
      | Some row \<Rightarrow> if r_claim_version row \<noteq> v then Stale_claim else Not_running)"

definition markAttemptLeaseLost :: "string \<Rightarrow> int \<Rightarrow> int \<Rightarrow> pg_db \<Rightarrow> pg_db" where
  "markAttemptLeaseLost k v now db =
     update_attempts k v (\<lambda>a. a\<lparr>a_outcome := At_lease_lost, a_finished_at := Some now\<rparr>) db"

definition fence_missed :: "string \<Rightarrow> int \<Rightarrow> int \<Rightarrow> pg_db \<Rightarrow> 'a fenced \<times> pg_db" where
  "fence_missed k v now db =
     (let outcome = classifyFenceMiss k v db
      in (Missed outcome,
          if outcome = Stale_claim then markAttemptLeaseLost k v now db else db))"

definition fenced_row :: "string \<Rightarrow> int \<Rightarrow> pg_db \<Rightarrow> job_row option" where
  "fenced_row k v db = find (fence k v) (jobs_current db)"

definition release :: "job_row \<Rightarrow> job_row" where
  "release r =
     r\<lparr>r_claimed_by := None, r_claimed_at := None, r_lease_expires_at := None,
       r_last_heartbeat_at := None\<rparr>"

text \<open>\<open>heartbeat\<close> returns the new lease expiry.\<close>

definition heartbeat :: "string \<Rightarrow> int \<Rightarrow> int \<Rightarrow> pg_db \<Rightarrow> int fenced \<times> pg_db" where
  "heartbeat k v now db =
     (let leaseExpiresAt = now + DEFAULT_HEARTBEAT_LEASE_EXTENSION_MS
      in case fenced_row k v db of
           None \<Rightarrow> fence_missed k v now db
         | Some _ \<Rightarrow>
             (Done leaseExpiresAt,
              update_attempts k v
                (\<lambda>a. a\<lparr>a_last_heartbeat_at := Some now, a_lease_expires_at := leaseExpiresAt\<rparr>)
                (update_rows (fence k v)
                  (\<lambda>r. r\<lparr>r_last_heartbeat_at := Some now,
                         r_lease_expires_at := Some leaseExpiresAt, r_updated_at := now\<rparr>) db)))"

definition successor_row :: "string \<Rightarrow> string \<Rightarrow> int \<Rightarrow> job_row \<Rightarrow> job_row" where
  "successor_row uuid family now r =
     \<lparr>r_job_key = buildSearchRebuildSuccessorJobKey uuid family,
      r_job_type = r_job_type r,
      r_job_family_key = Some family,
      r_execution_class = r_execution_class r,
      r_concurrency_key = r_concurrency_key r,
      r_status = Pg_pending,
      r_payload_schema_version = r_payload_schema_version r,
      r_payload_json = stringify (normalizeJsonValue (r_payload_json r)),
      r_family_state_json =
        family_jsonb (buildSearchRebuildSuccessorFamilyState (r_family_state_json r)),
      r_claim_version = 0,
      r_claimed_by = None, r_claimed_at = None, r_lease_expires_at = None,
      r_last_heartbeat_at = None,
      r_attempt_count = 0,
      r_max_attempts = r_max_attempts r,
      r_next_attempt_at = now,
      r_last_error_code = None, r_last_error_message = None, r_last_error_at = None,
      r_created_at = now, r_updated_at = now, r_terminal_at = None\<rparr>"

text \<open>
  \<open>complete\<close> returns the terminal time. A rebuild job with a rerun request is succeeded by a
  new job of its family; the plain INSERT fails if its key or family is taken.
\<close>

definition complete :: "string \<Rightarrow> int \<Rightarrow> string \<Rightarrow> int \<Rightarrow> pg_db \<Rightarrow>
    (store_error, int fenced) result \<times> pg_db" where
  "complete uuid now k v db =
     (case fenced_row k v db of
        None \<Rightarrow> (let (res, db') = fence_missed k v now db in (Inr res, db'))
      | Some row \<Rightarrow>
          (let db1 = update_rows (fence k v)
                 (\<lambda>r. release (r\<lparr>r_status := Pg_succeeded, r_terminal_at := Some now,
                                 r_updated_at := now\<rparr>)) db;
               db2 = update_attempts k v
                 (\<lambda>a. a\<lparr>a_outcome := At_succeeded, a_finished_at := Some now\<rparr>) db1
           in case r_job_family_key row of
                Some family \<Rightarrow>
                  (if r_job_type row = Search_rebuild \<and> family \<noteq> [] \<and>
                      rerunRequested (normalizeSearchRebuildFamilyState (r_family_state_json row))
                   then
                     (let s = successor_row uuid family now row
                      in if job_key_taken (r_job_key s) db2
                         then (Inl (Unique_violation ''jobs_current_pkey''), db)
                         else if family_taken (r_job_family_key s) db2
                         then (Inl (Unique_violation ''idx_jobs_current_family_active''), db)
                         else (Inr (Done now), insert_row s db2))
                   else (Inr (Done now), db2))
              | None \<Rightarrow> (Inr (Done now), db2)))"

definition fail :: "string \<Rightarrow> int \<Rightarrow> fail_input \<Rightarrow> pg_db \<Rightarrow> fail_done fenced \<times> pg_db" where
  "fail k v err db =
     (let retryDelayMs = (case f_retry_delay_ms err of Some t \<Rightarrow> t | None \<Rightarrow> 5000);
          nextAttemptAt = f_now_ms err + retryDelayMs
      in case fenced_row k v db of
           None \<Rightarrow> fence_missed k v (f_now_ms err) db
         | Some running \<Rightarrow>
             (if r_attempt_count running < r_max_attempts running then
                (Done (Retry_scheduled nextAttemptAt),
                 update_attempts k v
                   (\<lambda>a. a\<lparr>a_outcome := At_failed_retry_scheduled, a_finished_at := Some (f_now_ms err),
                          a_error_code := f_error_code err,
                          a_error_message := Some (f_error_message err),
                          a_backoff_until := Some nextAttemptAt\<rparr>)
                   (update_rows (fence k v)
                     (\<lambda>r. release (r\<lparr>r_status := Pg_pending, r_next_attempt_at := nextAttemptAt,
                                     r_terminal_at := None,
                                     r_last_error_code := f_error_code err,
                                     r_last_error_message := Some (f_error_message err),
                                     r_last_error_at := Some (f_now_ms err),
                                     r_updated_at := f_now_ms err\<rparr>)) db))
              else
                (Done (Failed_terminal (f_now_ms err)),
                 update_attempts k v
                   (\<lambda>a. a\<lparr>a_outcome := At_failed_terminal, a_finished_at := Some (f_now_ms err),
                          a_error_code := f_error_code err,
                          a_error_message := Some (f_error_message err)\<rparr>)
                   (update_rows (fence k v)
                     (\<lambda>r. release (r\<lparr>r_status := Pg_failed_terminal,
                                     r_terminal_at := Some (f_now_ms err),
                                     r_last_error_code := f_error_code err,
                                     r_last_error_message := Some (f_error_message err),
                                     r_last_error_at := Some (f_now_ms err),
                                     r_updated_at := f_now_ms err\<rparr>)) db))))"

definition cancel :: "int \<Rightarrow> string \<Rightarrow> int \<Rightarrow> pg_db \<Rightarrow> int fenced \<times> pg_db" where
  "cancel now k v db =
     (case fenced_row k v db of
        None \<Rightarrow> fence_missed k v now db
      | Some _ \<Rightarrow>
          (Done now,
           update_attempts k v (\<lambda>a. a\<lparr>a_outcome := At_cancelled, a_finished_at := Some now\<rparr>)
             (update_rows (fence k v)
               (\<lambda>r. release (r\<lparr>r_status := Pg_cancelled, r_terminal_at := Some now,
                               r_updated_at := now\<rparr>)) db)))"

section \<open>Leases, inspection, retention\<close>

definition lease_expired :: "int \<Rightarrow> job_row \<Rightarrow> bool" where
  "lease_expired now r =
     (r_status r = Pg_running \<and> (case r_lease_expires_at r of Some t \<Rightarrow> t < now | None \<Rightarrow> False))"

definition reclaim_one :: "int \<Rightarrow> job_row \<Rightarrow> pg_db \<Rightarrow> pg_db" where
  "reclaim_one now row db =
     update_rows (fence (r_job_key row) (r_claim_version row))
       (\<lambda>r. release (r\<lparr>r_status := Pg_pending, r_next_attempt_at := now, r_updated_at := now\<rparr>))
       (markAttemptLeaseLost (r_job_key row) (r_claim_version row) now db)"

definition reclaimExpiredLeases :: "int \<Rightarrow> pg_db \<Rightarrow> nat \<times> pg_db" where
  "reclaimExpiredLeases now db =
     (let expired = filter (lease_expired now) (jobs_current db)
      in (length expired, fold (reclaim_one now) expired db))"

definition inspect :: "string \<Rightarrow> pg_db \<Rightarrow> job_row option" where
  "inspect k db = row_by_key k db"

definition listActive :: "pg_db \<Rightarrow> job_row list" where
  "listActive db =
     sort_by (\<lambda>a b. r_next_attempt_at a < r_next_attempt_at b)
       (filter (\<lambda>r. pg_active (r_status r)) (jobs_current db))"

definition listExpiredLeases :: "int \<Rightarrow> pg_db \<Rightarrow> job_row list" where
  "listExpiredLeases now db = filter (lease_expired now) (jobs_current db)"

definition countByStatus :: "pg_db \<Rightarrow> pg_status \<Rightarrow> nat" where
  "countByStatus db s = count_where (\<lambda>r. r_status r = s) (jobs_current db)"

definition getHistory :: "string \<Rightarrow> pg_db \<Rightarrow> attempt_row list" where
  "getHistory k db =
     sort_by (\<lambda>a b. a_started_at b < a_started_at a)
       (filter (\<lambda>a. a_job_key a = k) (job_attempts db))"

text \<open>
  \<open>cleanupTerminal\<close> deletes terminal rows older than the window of their family, and
  returns how many. \<open>terminal_at\<close> is NULL in no terminal row; a NULL would compare as
  unknown and keep the row.
\<close>

definition terminal_before :: "int \<Rightarrow> job_row \<Rightarrow> bool" where
  "terminal_before cutoff r =
     (isTerminalStatus (r_status r) \<and> (case r_terminal_at r of Some t \<Rightarrow> t < cutoff | None \<Rightarrow> False))"

definition delete_rows :: "(job_row \<Rightarrow> bool) \<Rightarrow> nat \<times> pg_db \<Rightarrow> nat \<times> pg_db" where
  "delete_rows p nd =
     (fst nd + count_where p (jobs_current (snd nd)),
      (snd nd)\<lparr>jobs_current := delete_where p (jobs_current (snd nd))\<rparr>)"

definition cleanupTerminal :: "int \<Rightarrow> int \<Rightarrow> (string, int) js_map \<Rightarrow> pg_db \<Rightarrow> nat \<times> pg_db" where
  "cleanupTerminal now defaultWindowMs familyOverrides db =
     (let defaultCutoff = now - defaultWindowMs
      in if familyOverrides \<noteq> [] then
           fold (\<lambda>(familyKey, windowMs).
                  delete_rows (\<lambda>r. terminal_before (now - windowMs) r
                                 \<and> r_job_family_key r = Some familyKey))
             familyOverrides
             (delete_rows (\<lambda>r. terminal_before defaultCutoff r \<and>
                  (case r_job_family_key r of
                     None \<Rightarrow> True | Some f \<Rightarrow> f \<notin> set (map fst familyOverrides))) (0, db))
         else delete_rows (terminal_before defaultCutoff) (0, db))"

end
