(* ===== verification/Pg_Lease.thy ===== *)
theory Pg_Lease
  imports Pg_Store
begin

text \<open>
  Why the leases of the durable store are safe. The locale \<open>fenced_op\<close> is the contract
  that heartbeat, completion, failure, cancellation and the reclaiming of one lease share:
  they touch the row and the attempt of one key and claim version, and nothing if that
  claim is no longer the running one. It is interpreted on all five. The relation
  \<open>store_step\<close> has the operations of any number of workers as steps, with a claim split
  into the choice of a row (which locks the row and its concurrency key) and the commit.
\<close>

section \<open>Lookups\<close>

lemma row_by_key_Some: "row_by_key k db = Some r \<Longrightarrow> r \<in> set (jobs_current db) \<and> r_job_key r = k"
  by (auto simp: row_by_key_def dest: find_SomeD)

lemma row_by_key_None: "row_by_key k db = None \<longleftrightarrow> \<not> job_key_taken k db"
  by (auto simp: row_by_key_def job_key_taken_def find_None_iff)

lemma fenced_row_Some:
  "fenced_row k v db = Some r \<Longrightarrow> r \<in> set (jobs_current db) \<and> fence k v r"
  by (auto simp: fenced_row_def dest: find_SomeD)

lemma fenced_row_None: "fenced_row k v db = None \<longleftrightarrow> (\<forall>r \<in> set (jobs_current db). \<not> fence k v r)"
  by (auto simp: fenced_row_def find_None_iff)

lemma active_family_row_Some:
  "active_family_row f db = Some r \<Longrightarrow>
   r \<in> set (jobs_current db) \<and> r_job_family_key r = Some f \<and> pg_active (r_status r)"
  by (auto simp: active_family_row_def dest: find_SomeD)

lemma active_family_row_None: "active_family_row f db = None \<longleftrightarrow> \<not> family_taken (Some f) db"
  by (auto simp: active_family_row_def family_taken_def find_None_iff)

lemma db_sel [simp]:
  "jobs_current (update_rows p f db) = update_where p f (jobs_current db)"
  "job_attempts (update_rows p f db) = job_attempts db"
  "jobs_current (update_attempts k v g db) = jobs_current db"
  "job_attempts (update_attempts k v g db) =
     update_where (attempt_fence k v) g (job_attempts db)"
  "jobs_current (insert_row r db) = jobs_current db @ [r]"
  "job_attempts (insert_row r db) = job_attempts db"
  by (simp_all add: update_rows_def update_attempts_def insert_row_def)

lemma active_simps [simp]:
  "pg_active Pg_pending" "pg_active Pg_running" "\<not> pg_active Pg_succeeded"
  "\<not> pg_active Pg_failed_terminal" "\<not> pg_active Pg_cancelled"
  by (simp_all add: pg_active_def)

section \<open>The lease invariant\<close>

text \<open>
  Every running attempt is the claim of a running row and every running row has its
  attempt; versions count claims.
\<close>

definition backed :: "pg_db \<Rightarrow> attempt_row \<Rightarrow> bool" where
  "backed db a = (\<exists>r \<in> set (jobs_current db). fence (a_job_key a) (a_claim_version a) r)"

definition lease_inv :: "pg_db \<Rightarrow> bool" where
  "lease_inv db \<longleftrightarrow>
     constraints db \<and>
     (\<forall>a \<in> set (job_attempts db). a_outcome a = At_running \<longrightarrow> backed db a) \<and>
     (\<forall>r \<in> set (jobs_current db). r_status r = Pg_running \<longrightarrow>
        (\<exists>a \<in> set (job_attempts db). attempt_fence (r_job_key r) (r_claim_version r) a)) \<and>
     (\<forall>r \<in> set (jobs_current db). r_claim_version r = r_attempt_count r)"

text \<open>Every attempt on record belongs to a row that has counted it.\<close>

definition history_kept :: "pg_db \<Rightarrow> bool" where
  "history_kept db \<longleftrightarrow>
     (\<forall>a \<in> set (job_attempts db). \<exists>r \<in> set (jobs_current db).
        r_job_key r = a_job_key a \<and> a_claim_version a \<le> r_claim_version r)"

lemma lease_invD:
  assumes "lease_inv db"
  shows "distinct (map r_job_key (jobs_current db))"
    and "distinct (active_family_keys db)"
    and "distinct (map (\<lambda>a. (a_job_key a, a_claim_version a)) (job_attempts db))"
    and "a \<in> set (job_attempts db) \<Longrightarrow> a_outcome a = At_running \<Longrightarrow> backed db a"
    and "r \<in> set (jobs_current db) \<Longrightarrow> r_status r = Pg_running \<Longrightarrow>
         \<exists>a \<in> set (job_attempts db). attempt_fence (r_job_key r) (r_claim_version r) a"
    and "r \<in> set (jobs_current db) \<Longrightarrow> r_claim_version r = r_attempt_count r"
  using assms unfolding lease_inv_def constraints_def by blast+

text \<open>Under the invariant a claim that is not the running one has no running attempt.\<close>

lemma no_attempt_if_not_fenced:
  assumes "lease_inv db" "fenced_row k v db = None" "a \<in> set (job_attempts db)"
  shows "\<not> attempt_fence k v a"
proof
  assume "attempt_fence k v a"
  then have "backed db a" "a_job_key a = k" "a_claim_version a = v"
    using lease_invD(4) [OF assms(1,3)] by (auto simp: attempt_fence_def)
  with assms(2) show False by (auto simp: backed_def fenced_row_None)
qed

lemma update_attempts_not_fenced:
  "lease_inv db \<Longrightarrow> fenced_row k v db = None \<Longrightarrow> update_attempts k v g db = db"
  by (simp add: update_attempts_def update_where_none no_attempt_if_not_fenced)

lemma mark_not_fenced:
  "lease_inv db \<Longrightarrow> fenced_row k v db = None \<Longrightarrow> markAttemptLeaseLost k v now db = db"
  by (simp add: markAttemptLeaseLost_def update_attempts_not_fenced)

lemma fence_missed_same:
  "lease_inv db \<Longrightarrow> fenced_row k v db = None \<Longrightarrow>
   fence_missed k v now db = (Missed (classifyFenceMiss k v db), db)"
  by (simp add: fence_missed_def mark_not_fenced Let_def)

section \<open>The contract of a fenced operation\<close>

text \<open>What an effect on a row must keep: its identity, its family, its key and its counters.\<close>

definition keeps_identity :: "(job_row \<Rightarrow> job_row) \<Rightarrow> bool" where
  "keeps_identity f \<longleftrightarrow>
     (\<forall>r. r_job_key (f r) = r_job_key r \<and> r_job_type (f r) = r_job_type r \<and>
          r_job_family_key (f r) = r_job_family_key r \<and>
          r_concurrency_key (f r) = r_concurrency_key r \<and>
          r_claim_version (f r) = r_claim_version r \<and>
          r_attempt_count (f r) = r_attempt_count r)"

lemma keeps_identityD:
  assumes "keeps_identity f"
  shows "r_job_key (f r) = r_job_key r" "r_job_type (f r) = r_job_type r"
    "r_job_family_key (f r) = r_job_family_key r"
    "r_concurrency_key (f r) = r_concurrency_key r"
    "r_claim_version (f r) = r_claim_version r"
    "r_attempt_count (f r) = r_attempt_count r"
  using assms by (simp_all add: keeps_identity_def)

definition fresh_row :: "job_row \<Rightarrow> pg_db \<Rightarrow> bool" where
  "fresh_row r db \<longleftrightarrow>
     r_status r = Pg_pending \<and> r_claim_version r = 0 \<and> r_attempt_count r = 0 \<and>
     \<not> job_key_taken (r_job_key r) db \<and> \<not> family_taken (r_job_family_key r) db"

lemma in_map_filter: "y \<in> set (List.map_filter g xs) \<longleftrightarrow> (\<exists>x \<in> set xs. g x = Some y)"
  by (force simp: List.map_filter_def)

lemma map_filter_shrink:
  assumes "\<And>x. x \<in> set xs \<Longrightarrow> g (h x) = None \<or> g (h x) = g x"
  shows "set (List.map_filter g (map h xs)) \<subseteq> set (List.map_filter g xs)"
    and "distinct (List.map_filter g xs) \<Longrightarrow> distinct (List.map_filter g (map h xs))"
proof -
  show sub: "set (List.map_filter g (map h xs)) \<subseteq> set (List.map_filter g xs)"
    using assms by (fastforce simp: in_map_filter)
  show "distinct (List.map_filter g (map h xs))" if "distinct (List.map_filter g xs)"
    using assms that
  proof (induction xs)
    case Nil
    then show ?case by (simp add: List.map_filter_simps)
  next
    case (Cons x xs)
    have "set (List.map_filter g (map h xs)) \<subseteq> set (List.map_filter g xs)"
      using Cons.prems(1) by (fastforce simp: in_map_filter)
    with Cons show ?case
      by (fastforce simp: List.map_filter_simps split: option.splits)
  qed
qed

lemma set_active_family_keys:
  "f \<in> set (active_family_keys db) \<longleftrightarrow> family_taken (Some f) db"
  by (auto simp: active_family_keys_def family_taken_def in_map_filter split: if_splits)

lemma map_filter_append: "List.map_filter g (xs @ ys) = List.map_filter g xs @ List.map_filter g ys"
  by (simp add: List.map_filter_def)

lemma active_family_keys_insert:
  "active_family_keys (insert_row r db) =
   active_family_keys db @
     (if pg_active (r_status r) then (case r_job_family_key r of None \<Rightarrow> [] | Some f \<Rightarrow> [f]) else [])"
  unfolding active_family_keys_def db_sel map_filter_append
  by (auto simp: List.map_filter_simps split: option.split)

lemma job_key_taken_iff: "job_key_taken k db \<longleftrightarrow> k \<in> r_job_key ` set (jobs_current db)"
  by (auto simp: job_key_taken_def)

lemma distinct_snoc_option:
  "distinct A \<Longrightarrow> (\<And>f. x = Some f \<Longrightarrow> f \<notin> set A) \<Longrightarrow>
   distinct (A @ (if P then (case x of None \<Rightarrow> [] | Some f \<Rightarrow> [f]) else []))"
  by (cases P; cases x) simp_all

lemma constraints_insert:
  assumes "constraints db" "\<not> job_key_taken (r_job_key r) db"
    and "\<not> family_taken (r_job_family_key r) db"
  shows "constraints (insert_row r db)"
proof -
  have "distinct (active_family_keys (insert_row r db))"
    unfolding active_family_keys_insert
    by (rule distinct_snoc_option) (use assms(1,3) in \<open>auto simp: constraints_def set_active_family_keys\<close>)
  moreover have "distinct (map r_job_key (jobs_current (insert_row r db)))"
    using assms(1,2) by (simp add: constraints_def job_key_taken_iff)
  ultimately show ?thesis
    using assms(1) by (simp add: constraints_def)
qed

lemma lease_inv_insert:
  assumes inv: "lease_inv db" and fresh: "fresh_row r db"
  shows "lease_inv (insert_row r db)"
proof -
  have "constraints (insert_row r db)"
    using inv fresh by (intro constraints_insert) (auto simp: lease_inv_def fresh_row_def)
  moreover have "backed (insert_row r db) a" if "backed db a" for a
    using that by (auto simp: backed_def)
  ultimately show ?thesis
    using inv fresh by (auto simp: lease_inv_def fresh_row_def)
qed

text \<open>An update of the fenced row together with its attempt.\<close>

definition lease_update ::
    "string \<Rightarrow> int \<Rightarrow> (job_row \<Rightarrow> job_row) \<Rightarrow> (attempt_row \<Rightarrow> attempt_row) \<Rightarrow> pg_db \<Rightarrow> pg_db" where
  "lease_update k v f g db = update_attempts k v g (update_rows (fence k v) f db)"

lemma lease_update_sel [simp]:
  "jobs_current (lease_update k v f g db) = update_where (fence k v) f (jobs_current db)"
  "job_attempts (lease_update k v f g db) =
     update_where (attempt_fence k v) g (job_attempts db)"
  by (simp_all add: lease_update_def)

lemma constraints_lease_update:
  assumes "constraints db" "keeps_identity f"
    and "\<And>a. a_job_key (g a) = a_job_key a \<and> a_claim_version (g a) = a_claim_version a"
  shows "constraints (lease_update k v f g db)"
proof -
  have "map r_job_key (update_where (fence k v) f (jobs_current db)) = map r_job_key (jobs_current db)"
    by (rule map_update_where) (simp add: keeps_identityD [OF assms(2)])
  moreover have "map (\<lambda>a. (a_job_key a, a_claim_version a))
        (update_where (attempt_fence k v) g (job_attempts db)) =
      map (\<lambda>a. (a_job_key a, a_claim_version a)) (job_attempts db)"
    by (rule map_update_where) (simp add: assms(3))
  moreover have "distinct (active_family_keys (lease_update k v f g db))"
    unfolding active_family_keys_def lease_update_sel update_where_def
    by (rule map_filter_shrink(2))
      (use assms(1) in \<open>auto simp: constraints_def active_family_keys_def fence_def
          keeps_identityD [OF assms(2)]\<close>)
  ultimately show ?thesis
    using assms(1) by (simp add: constraints_def)
qed

lemma backed_other:
  assumes "backed db a" "\<not> (a_job_key a = k \<and> a_claim_version a = v)"
  shows "backed (lease_update k v f g db) a"
proof -
  from assms(1) obtain r where r: "r \<in> set (jobs_current db)"
      and f: "fence (a_job_key a) (a_claim_version a) r"
    by (auto simp: backed_def)
  with assms(2) have "\<not> fence k v r" by (auto simp: fence_def)
  with r have "r \<in> set (jobs_current (lease_update k v f g db))"
    by (simp add: in_update_where_miss)
  with f show ?thesis by (auto simp: backed_def)
qed

lemma backed_same:
  assumes "backed db a" "a_job_key a = k" "a_claim_version a = v"
    and "keeps_identity f" "\<And>r. fence k v r \<Longrightarrow> r_status (f r) = Pg_running"
  shows "backed (lease_update k v f g db) a"
proof -
  from assms(1-3) obtain r where r: "r \<in> set (jobs_current db)" and f: "fence k v r"
    by (auto simp: backed_def)
  then have "f r \<in> set (jobs_current (lease_update k v f g db))"
    by (simp add: in_update_where_hit)
  moreover have "fence k v (f r)" using f assms(5) by (auto simp: fence_def keeps_identityD [OF assms(4)])
  ultimately show ?thesis using assms(2,3) by (auto simp: backed_def)
qed

text \<open>
  \<open>keeps_lease f g\<close>: the row effect \<open>f\<close> and the attempt effect \<open>g\<close> agree on whether the
  claim is still running.
\<close>

definition keeps_claim :: "(attempt_row \<Rightarrow> attempt_row) \<Rightarrow> bool" where
  "keeps_claim g \<longleftrightarrow> (\<forall>a. a_job_key (g a) = a_job_key a \<and> a_claim_version (g a) = a_claim_version a)"

definition keeps_lease :: "(job_row \<Rightarrow> job_row) \<Rightarrow> (attempt_row \<Rightarrow> attempt_row) \<Rightarrow> bool" where
  "keeps_lease f g \<longleftrightarrow>
     keeps_identity f \<and> keeps_claim g \<and>
     ((\<forall>r a. r_status r = Pg_running \<longrightarrow> a_outcome a = At_running \<longrightarrow>
         r_status (f r) = Pg_running \<and> a_outcome (g a) = At_running) \<or>
      (\<forall>r a. r_status r = Pg_running \<longrightarrow> a_outcome a = At_running \<longrightarrow>
         r_status (f r) \<noteq> Pg_running \<and> a_outcome (g a) \<noteq> At_running))"

lemma attempts_backed_lease_update:
  assumes inv: "lease_inv db" and fg: "keeps_lease f g"
    and a: "a \<in> set (job_attempts (lease_update k v f g db))" "a_outcome a = At_running"
  shows "backed (lease_update k v f g db) a"
proof -
  from a(1) have "a \<in> set (update_where (attempt_fence k v) g (job_attempts db))" by simp
  then show ?thesis
  proof (cases rule: in_update_whereE)
    case (1 b)
    then have b: "backed db b" "a_job_key b = k" "a_claim_version b = v" "a_outcome b = At_running"
      using lease_invD(4) [OF inv] by (auto simp: attempt_fence_def)
    have kept: "a_job_key a = k" "a_claim_version a = v"
      using fg 1(3) b by (auto simp: keeps_lease_def keeps_claim_def)
    have "r_status (f r) = Pg_running" if "fence k v r" for r
      using fg that b(4) a(2) 1(3) unfolding keeps_lease_def fence_def by blast
    moreover have "backed db a" using b kept by (simp add: backed_def)
    ultimately show ?thesis
      using fg kept by (intro backed_same) (auto simp: keeps_lease_def)
  next
    case 2
    then have "\<not> (a_job_key a = k \<and> a_claim_version a = v)"
      using a(2) by (auto simp: attempt_fence_def)
    with 2 a(2) lease_invD(4) [OF inv] show ?thesis by (blast intro: backed_other)
  qed
qed

lemma rows_attempted_lease_update:
  assumes inv: "lease_inv db" and fg: "keeps_lease f g"
    and r: "r \<in> set (jobs_current (lease_update k v f g db))" "r_status r = Pg_running"
  shows "\<exists>a \<in> set (job_attempts (lease_update k v f g db)).
           attempt_fence (r_job_key r) (r_claim_version r) a"
proof -
  note id = keeps_identityD [of f]
  from r(1) have "r \<in> set (update_where (fence k v) f (jobs_current db))" by simp
  then show ?thesis
  proof (cases rule: in_update_whereE)
    case (1 s)
    then have s: "r_job_key s = k" "r_claim_version s = v" "r_status s = Pg_running"
      by (auto simp: fence_def)
    from lease_invD(5) [OF inv 1(1) s(3)] s obtain a
      where a: "a \<in> set (job_attempts db)" "attempt_fence k v a" by auto
    have "a_outcome (g a) = At_running"
      using fg a(2) s(3) r(2) 1(3) unfolding keeps_lease_def attempt_fence_def by blast
    moreover have "a_job_key (g a) = k" "a_claim_version (g a) = v"
      using fg a(2) by (auto simp: keeps_lease_def keeps_claim_def attempt_fence_def)
    ultimately have "attempt_fence (r_job_key r) (r_claim_version r) (g a)"
      using fg s 1(3) by (simp add: attempt_fence_def keeps_lease_def id)
    with a show ?thesis by (auto intro: in_update_where_hit)
  next
    case 2
    from lease_invD(5) [OF inv 2(1) r(2)] obtain a
      where a: "a \<in> set (job_attempts db)" "attempt_fence (r_job_key r) (r_claim_version r) a"
      by auto
    with 2 r(2) have "\<not> attempt_fence k v a" by (auto simp: attempt_fence_def fence_def)
    with a show ?thesis by (auto intro: in_update_where_miss)
  qed
qed

lemma lease_inv_lease_update:
  assumes inv: "lease_inv db" and fg: "keeps_lease f g"
  shows "lease_inv (lease_update k v f g db)"
proof -
  have "constraints (lease_update k v f g db)"
    using inv fg
    by (intro constraints_lease_update) (auto simp: lease_inv_def keeps_lease_def keeps_claim_def)
  moreover have "r_claim_version r = r_attempt_count r"
    if "r \<in> set (jobs_current (lease_update k v f g db))" for r
    using that lease_invD(6) [OF inv] fg
    by (auto simp: set_update_where keeps_lease_def keeps_identity_def)
  ultimately show ?thesis
    using attempts_backed_lease_update [OF inv fg] rows_attempted_lease_update [OF inv fg]
    unfolding lease_inv_def by blast
qed

lemma history_lease_update:
  assumes "history_kept db" "keeps_lease f g"
  shows "history_kept (lease_update k v f g db)"
proof -
  have "\<exists>r' \<in> set (jobs_current (lease_update k v f g db)).
      r_job_key r' = r_job_key r \<and> r_claim_version r' = r_claim_version r"
    if "r \<in> set (jobs_current db)" for r
    using that assms(2)
    by (intro bexI [of _ "if fence k v r then f r else r"])
      (auto simp: keeps_lease_def keeps_identity_def set_update_where)
  moreover have "\<exists>b \<in> set (job_attempts db). a_job_key b = a_job_key a \<and> a_claim_version b = a_claim_version a"
    if "a \<in> set (job_attempts (lease_update k v f g db))" for a
    using that assms(2) by (auto simp: set_update_where keeps_lease_def keeps_claim_def)
  ultimately show ?thesis
    using assms(1) unfolding history_kept_def by metis
qed

text \<open>Running rows per test that only reads what is kept.\<close>

lemma running_lease_update_le:
  assumes "keeps_lease f g" "\<And>r. P (f r) = P r"
  shows "count_where (\<lambda>r. P r \<and> r_status r = Pg_running) (jobs_current (lease_update k v f g db))
         \<le> count_where (\<lambda>r. P r \<and> r_status r = Pg_running) (jobs_current db)"
  unfolding lease_update_sel
  by (rule count_where_update_le) (use assms(2) in \<open>auto simp: fence_def\<close>)

locale fenced_op =
  fixes op :: "string \<Rightarrow> int \<Rightarrow> pg_db \<Rightarrow> pg_db"
    and row_eff :: "job_row \<Rightarrow> job_row \<Rightarrow> job_row"
    and att_eff :: "job_row \<Rightarrow> attempt_row \<Rightarrow> attempt_row"
  assumes op_miss: "fenced_row k v db = None \<Longrightarrow>
      op k v db = db \<or> (\<exists>now. op k v db = markAttemptLeaseLost k v now db)"
    and op_hit: "fenced_row k v db = Some r \<Longrightarrow>
      op k v db = db \<or> op k v db = lease_update k v (row_eff r) (att_eff r) db \<or>
      (\<exists>s. fresh_row s (lease_update k v (row_eff r) (att_eff r) db) \<and>
           op k v db = insert_row s (lease_update k v (row_eff r) (att_eff r) db))"
    and op_eff: "keeps_lease (row_eff r) (att_eff r)"
begin

lemma miss_same:
  assumes "lease_inv db" "fenced_row k v db = None"
  shows "op k v db = db"
  using op_miss [OF assms(2)] mark_not_fenced [OF assms] by auto

lemma op_cases:
  assumes "lease_inv db"
  obtains (same) "op k v db = db"
    | (update) r where "fenced_row k v db = Some r"
        "op k v db = lease_update k v (row_eff r) (att_eff r) db"
    | (successor) r s where "fenced_row k v db = Some r"
        "fresh_row s (lease_update k v (row_eff r) (att_eff r) db)"
        "op k v db = insert_row s (lease_update k v (row_eff r) (att_eff r) db)"
proof (cases "fenced_row k v db")
  case None
  with assms same miss_same show ?thesis by blast
next
  case (Some r)
  with op_hit [OF Some] same update successor show ?thesis by blast
qed

lemma keeps_lease_inv:
  assumes "lease_inv db"
  shows "lease_inv (op k v db)"
  by (cases rule: op_cases [OF assms, of k v])
    (simp_all add: assms lease_inv_insert lease_inv_lease_update op_eff)

lemma keeps_history:
  assumes "lease_inv db" "history_kept db"
  shows "history_kept (op k v db)"
proof (cases rule: op_cases [OF assms(1), of k v])
  case (3 r s)
  have "history_kept (lease_update k v (row_eff r) (att_eff r) db)"
    using assms(2) op_eff by (rule history_lease_update)
  with 3 show ?thesis by (fastforce simp: history_kept_def)
qed (use assms in \<open>simp_all add: history_lease_update op_eff\<close>)

lemma running_le:
  assumes "lease_inv db" "\<And>r s. P (row_eff r s) = P s"
  shows "count_where (\<lambda>r. P r \<and> r_status r = Pg_running) (jobs_current (op k v db))
         \<le> count_where (\<lambda>r. P r \<and> r_status r = Pg_running) (jobs_current db)"
proof (cases rule: op_cases [OF assms(1), of k v])
  case 1
  then show ?thesis by simp
next
  case (2 r)
  then show ?thesis using running_lease_update_le [OF op_eff] assms(2) by simp
next
  case (3 r s)
  moreover from this have "r_status s \<noteq> Pg_running" by (simp add: fresh_row_def)
  ultimately show ?thesis
    using running_lease_update_le [OF op_eff, of P r k v db] assms(2)
    by (simp only: db_sel table_simps) simp
qed

lemma running_key_le:
  "lease_inv db \<Longrightarrow> running_with_key c (op k v db) \<le> running_with_key c db"
  using running_le [of db "\<lambda>r. r_concurrency_key r = c"] op_eff
  by (simp add: running_with_key_def keeps_lease_def keeps_identity_def)

lemma keeps_other_rows:
  assumes "lease_inv db" "r \<in> set (jobs_current db)" "\<not> fence k v r"
  shows "r \<in> set (jobs_current (op k v db))"
  using assms
  by (cases rule: op_cases [OF assms(1), of k v]) (auto simp: in_update_where_miss)

end

section \<open>The five operations satisfy the contract\<close>

lemmas effect_defs = keeps_lease_def keeps_identity_def keeps_claim_def release_def

lemma fence_missed_cases:
  "snd (fence_missed k v now db) = db \<or>
   (\<exists>now'. snd (fence_missed k v now db) = markAttemptLeaseLost k v now' db)"
  by (auto simp: fence_missed_def Let_def)

definition heartbeat_row :: "int \<Rightarrow> job_row \<Rightarrow> job_row" where
  "heartbeat_row now r =
     r\<lparr>r_last_heartbeat_at := Some now,
       r_lease_expires_at := Some (now + DEFAULT_HEARTBEAT_LEASE_EXTENSION_MS),
       r_updated_at := now\<rparr>"

definition heartbeat_attempt :: "int \<Rightarrow> attempt_row \<Rightarrow> attempt_row" where
  "heartbeat_attempt now a =
     a\<lparr>a_last_heartbeat_at := Some now,
       a_lease_expires_at := now + DEFAULT_HEARTBEAT_LEASE_EXTENSION_MS\<rparr>"

lemma heartbeat_hit:
  "fenced_row k v db = Some r \<Longrightarrow>
   heartbeat k v now db = (Done (now + DEFAULT_HEARTBEAT_LEASE_EXTENSION_MS),
     lease_update k v (heartbeat_row now) (heartbeat_attempt now) db)"
  by (simp add: heartbeat_def lease_update_def heartbeat_row_def [abs_def]
      heartbeat_attempt_def [abs_def] Let_def)

definition finish_row :: "pg_status \<Rightarrow> int \<Rightarrow> job_row \<Rightarrow> job_row" where
  "finish_row s now r = release (r\<lparr>r_status := s, r_terminal_at := Some now, r_updated_at := now\<rparr>)"

definition finish_attempt :: "attempt_outcome \<Rightarrow> int \<Rightarrow> attempt_row \<Rightarrow> attempt_row" where
  "finish_attempt out now a = a\<lparr>a_outcome := out, a_finished_at := Some now\<rparr>"

lemma cancel_hit:
  "fenced_row k v db = Some r \<Longrightarrow>
   cancel now k v db =
     (Done now, lease_update k v (finish_row Pg_cancelled now) (finish_attempt At_cancelled now) db)"
  by (simp add: cancel_def lease_update_def finish_row_def [abs_def] finish_attempt_def [abs_def])

text \<open>When a completed row is succeeded by a rerun.\<close>

definition rerun_family :: "job_row \<Rightarrow> string option" where
  "rerun_family r =
     (case r_job_family_key r of
        Some f \<Rightarrow> if r_job_type r = Search_rebuild \<and> f \<noteq> [] \<and>
                    rerunRequested (normalizeSearchRebuildFamilyState (r_family_state_json r))
                 then Some f else None
      | None \<Rightarrow> None)"

abbreviation completed :: "int \<Rightarrow> string \<Rightarrow> int \<Rightarrow> pg_db \<Rightarrow> pg_db" where
  "completed now k v db \<equiv>
     lease_update k v (finish_row Pg_succeeded now) (finish_attempt At_succeeded now) db"

lemma complete_hit:
  assumes "fenced_row k v db = Some r"
  shows "complete uuid now k v db =
    (case rerun_family r of
       None \<Rightarrow> (Inr (Done now), completed now k v db)
     | Some f \<Rightarrow>
         (let s = successor_row uuid f now r
          in if job_key_taken (r_job_key s) (completed now k v db)
             then (Inl (Unique_violation ''jobs_current_pkey''), db)
             else if family_taken (r_job_family_key s) (completed now k v db)
             then (Inl (Unique_violation ''idx_jobs_current_family_active''), db)
             else (Inr (Done now), insert_row s (completed now k v db))))"
  using assms
  by (auto simp: complete_def lease_update_def finish_row_def [abs_def] finish_attempt_def [abs_def]
      rerun_family_def Let_def split: option.split)

definition retry_time :: "fail_input \<Rightarrow> int" where
  "retry_time err = f_now_ms err + (case f_retry_delay_ms err of Some t \<Rightarrow> t | None \<Rightarrow> 5000)"

definition fail_row :: "fail_input \<Rightarrow> job_row \<Rightarrow> job_row \<Rightarrow> job_row" where
  "fail_row err running r =
     (if r_attempt_count running < r_max_attempts running
      then release (r\<lparr>r_status := Pg_pending, r_next_attempt_at := retry_time err,
             r_terminal_at := None, r_last_error_code := f_error_code err,
             r_last_error_message := Some (f_error_message err),
             r_last_error_at := Some (f_now_ms err), r_updated_at := f_now_ms err\<rparr>)
      else release (r\<lparr>r_status := Pg_failed_terminal, r_terminal_at := Some (f_now_ms err),
             r_last_error_code := f_error_code err,
             r_last_error_message := Some (f_error_message err),
             r_last_error_at := Some (f_now_ms err), r_updated_at := f_now_ms err\<rparr>))"

definition fail_attempt :: "fail_input \<Rightarrow> job_row \<Rightarrow> attempt_row \<Rightarrow> attempt_row" where
  "fail_attempt err running a =
     (if r_attempt_count running < r_max_attempts running
      then a\<lparr>a_outcome := At_failed_retry_scheduled, a_finished_at := Some (f_now_ms err),
             a_error_code := f_error_code err, a_error_message := Some (f_error_message err),
             a_backoff_until := Some (retry_time err)\<rparr>
      else a\<lparr>a_outcome := At_failed_terminal, a_finished_at := Some (f_now_ms err),
             a_error_code := f_error_code err, a_error_message := Some (f_error_message err)\<rparr>)"

lemma fail_hit:
  assumes "fenced_row k v db = Some running"
  shows "fail k v err db =
    (Done (if r_attempt_count running < r_max_attempts running
           then Retry_scheduled (retry_time err)
           else Failed_terminal (f_now_ms err)),
     lease_update k v (fail_row err running) (fail_attempt err running) db)"
  using assms
  by (cases "r_attempt_count running < r_max_attempts running")
    (simp_all add: fail_def lease_update_def fail_row_def [abs_def] fail_attempt_def [abs_def]
      retry_time_def Let_def)

definition reclaim_row :: "int \<Rightarrow> job_row \<Rightarrow> job_row" where
  "reclaim_row now r =
     release (r\<lparr>r_status := Pg_pending, r_next_attempt_at := now, r_updated_at := now\<rparr>)"

lemma reclaim_one_eq:
  "reclaim_one now row db =
     lease_update (r_job_key row) (r_claim_version row) (reclaim_row now)
       (finish_attempt At_lease_lost now) db"
  by (cases db) (simp add: reclaim_one_def lease_update_def markAttemptLeaseLost_def update_rows_def
      update_attempts_def reclaim_row_def [abs_def] finish_attempt_def [abs_def])

text \<open>A miss is reported, and marks at most the attempt.\<close>

lemma fenced_misses:
  assumes "fenced_row k v db = None"
  shows "heartbeat k v now db = fence_missed k v now db"
    and "cancel now k v db = fence_missed k v now db"
    and "fail k v err db = fence_missed k v (f_now_ms err) db"
    and "complete uuid now k v db = map_prod Inr id (fence_missed k v now db)"
  using assms by (simp_all add: heartbeat_def cancel_def fail_def complete_def Let_def
      split: prod.split)

lemma effects_keep_lease:
  "keeps_lease (heartbeat_row now) (heartbeat_attempt now)"
  "keeps_lease (fail_row err r) (fail_attempt err r)"
  "keeps_lease (reclaim_row now) (finish_attempt At_lease_lost now)"
  "s \<noteq> Pg_running \<Longrightarrow> out \<noteq> At_running \<Longrightarrow> keeps_lease (finish_row s now) (finish_attempt out now)"
  by (simp_all add: effect_defs heartbeat_row_def heartbeat_attempt_def fail_row_def fail_attempt_def
      reclaim_row_def finish_row_def finish_attempt_def)

interpretation hb: fenced_op "\<lambda>k v db. snd (heartbeat k v now db)"
    "\<lambda>_. heartbeat_row now" "\<lambda>_. heartbeat_attempt now"
  by unfold_locales
    (simp_all add: heartbeat_hit fenced_misses fence_missed_cases effects_keep_lease)

interpretation cn: fenced_op "\<lambda>k v db. snd (cancel now k v db)"
    "\<lambda>_. finish_row Pg_cancelled now" "\<lambda>_. finish_attempt At_cancelled now"
  by unfold_locales
    (simp_all add: cancel_hit fenced_misses fence_missed_cases effects_keep_lease)

interpretation fl: fenced_op "\<lambda>k v db. snd (fail k v err db)" "fail_row err" "fail_attempt err"
  by unfold_locales
    (simp_all add: fail_hit fenced_misses fence_missed_cases effects_keep_lease)

lemma successor_row_sel [simp]:
  "r_job_key (successor_row uuid f now r) = buildSearchRebuildSuccessorJobKey uuid f"
  "r_job_family_key (successor_row uuid f now r) = Some f"
  "r_status (successor_row uuid f now r) = Pg_pending"
  "r_claim_version (successor_row uuid f now r) = 0"
  "r_attempt_count (successor_row uuid f now r) = 0"
  "r_concurrency_key (successor_row uuid f now r) = r_concurrency_key r"
  by (simp_all add: successor_row_def)

interpretation cp: fenced_op "\<lambda>k v db. snd (complete uuid now k v db)"
    "\<lambda>_. finish_row Pg_succeeded now" "\<lambda>_. finish_attempt At_succeeded now"
proof (unfold_locales, goal_cases)
  case (1 k v db)
  then show ?case by (simp add: fenced_misses fence_missed_cases)
next
  case (2 k v db r)
  show ?case
  proof (cases "rerun_family r")
    case None
    with 2 show ?thesis by (simp add: complete_hit)
  next
    case (Some f)
    let ?s = "successor_row uuid f now r"
    show ?thesis
    proof (cases "fresh_row ?s (completed now k v db)")
      case True
      then have "snd (complete uuid now k v db) = insert_row ?s (completed now k v db)"
        using 2 Some by (simp add: complete_hit fresh_row_def Let_def)
      with True show ?thesis by blast
    next
      case False
      with 2 Some show ?thesis by (auto simp: complete_hit fresh_row_def Let_def)
    qed
  qed
qed (simp add: effects_keep_lease)

text \<open>Reclaiming one expired lease, as a function of its key and claim version.\<close>

interpretation rc: fenced_op
    "\<lambda>k v db. if fenced_row k v db = None then db
              else lease_update k v (reclaim_row now) (finish_attempt At_lease_lost now) db"
    "\<lambda>_. reclaim_row now" "\<lambda>_. finish_attempt At_lease_lost now"
  by unfold_locales (simp_all add: effects_keep_lease)

section \<open>Reclaiming, cleaning up, enqueueing\<close>

lemma reclaim_one_rc:
  assumes "r \<in> set (jobs_current db)" "r_status r = Pg_running" "r_job_key r = k" "r_claim_version r = v"
  shows "reclaim_one now r db =
    (if fenced_row k v db = None then db
     else lease_update k v (reclaim_row now) (finish_attempt At_lease_lost now) db)"
  using assms by (auto simp: reclaim_one_eq fenced_row_None fence_def)

text \<open>
  Reclaiming one lease leaves the other running rows alone, so the whole batch acts on rows
  that are still expired when their turn comes.
\<close>

lemma reclaim_fold_induct:
  assumes "distinct (map r_job_key rs)" "set rs \<subseteq> set (jobs_current db)"
    and "\<forall>r \<in> set rs. r_status r = Pg_running" "lease_inv db" "Q db"
    and step: "\<And>r db'. r \<in> set rs \<Longrightarrow> lease_inv db' \<Longrightarrow> Q db' \<Longrightarrow> r \<in> set (jobs_current db') \<Longrightarrow>
               Q (reclaim_one now r db')"
  shows "lease_inv (fold (reclaim_one now) rs db) \<and> Q (fold (reclaim_one now) rs db)"
  using assms
proof (induction rs arbitrary: db)
  case Nil
  then show ?case by simp
next
  case (Cons r rs)
  let ?db = "reclaim_one now r db"
  have r: "r \<in> set (jobs_current db)" "r_status r = Pg_running" using Cons.prems by auto
  note eq = reclaim_one_rc [OF r refl refl, of now]
  have inv: "lease_inv ?db" unfolding eq by (rule rc.keeps_lease_inv) (rule Cons.prems)
  have "s \<in> set (jobs_current ?db)" if "s \<in> set rs" for s
  proof -
    have "r_job_key s \<noteq> r_job_key r" using Cons.prems(1) that by (auto simp: image_iff)
    then show ?thesis
      unfolding eq using Cons.prems that
      by (intro rc.keeps_other_rows) (auto simp: fence_def)
  qed
  then have "lease_inv (fold (reclaim_one now) rs ?db) \<and> Q (fold (reclaim_one now) rs ?db)"
    using Cons.prems r inv by (intro Cons.IH) auto
  then show ?case by simp
qed

lemma distinct_expired:
  "lease_inv db \<Longrightarrow> distinct (map r_job_key (filter (lease_expired now) (jobs_current db)))"
  using lease_invD(1) by (rule distinct_map_filter)

lemma reclaim_induct:
  assumes "lease_inv db" "Q db"
    and "\<And>r db'. lease_expired now r \<Longrightarrow> r_status r = Pg_running \<Longrightarrow> lease_inv db' \<Longrightarrow> Q db' \<Longrightarrow>
               r \<in> set (jobs_current db') \<Longrightarrow> Q (reclaim_one now r db')"
  shows "lease_inv (snd (reclaimExpiredLeases now db)) \<and> Q (snd (reclaimExpiredLeases now db))"
  unfolding reclaimExpiredLeases_def Let_def snd_conv
  by (rule reclaim_fold_induct) (use assms in \<open>auto simp: lease_expired_def distinct_expired\<close>)

lemma reclaim_lease_inv: "lease_inv db \<Longrightarrow> lease_inv (snd (reclaimExpiredLeases now db))"
  using reclaim_induct [of db "\<lambda>_. True" now] by simp

lemma reclaim_history:
  assumes "lease_inv db" "history_kept db"
  shows "history_kept (snd (reclaimExpiredLeases now db))"
proof -
  have "history_kept (reclaim_one now r db')" if "history_kept db'" for r db'
    using that by (simp add: reclaim_one_eq history_lease_update effects_keep_lease)
  with reclaim_induct [OF assms(1), of history_kept now] assms(2) show ?thesis by blast
qed

lemma reclaim_running_key_le:
  assumes "lease_inv db"
  shows "running_with_key c (snd (reclaimExpiredLeases now db)) \<le> running_with_key c db"
proof -
  let ?Q = "\<lambda>db'. running_with_key c db' \<le> running_with_key c db"
  have "?Q (reclaim_one now r db')"
    if "r_status r = Pg_running" "lease_inv db'" "?Q db'" "r \<in> set (jobs_current db')" for r db'
    using le_trans [OF rc.running_key_le [OF that(2)] that(3)] reclaim_one_rc [OF that(4,1) refl refl]
    by simp
  with reclaim_induct [OF assms, of ?Q now] show ?thesis by blast
qed

lemma reclaim_pending_kept:
  assumes "lease_inv db" "r \<in> set (jobs_current db)" "r_status r \<noteq> Pg_running"
  shows "r \<in> set (jobs_current (snd (reclaimExpiredLeases now db)))"
proof -
  have "r \<in> set (jobs_current (reclaim_one now s db'))" if "r \<in> set (jobs_current db')" for s db'
    using that assms(3) by (simp add: reclaim_one_eq in_update_where_miss fence_def)
  with reclaim_induct [OF assms(1), of "\<lambda>db'. r \<in> set (jobs_current db')" now] assms(2)
  show ?thesis by blast
qed

text \<open>Deleting rows that are not running keeps the leases.\<close>

lemma distinct_map_filter_filter:
  assumes "distinct (List.map_filter g xs)"
  shows "distinct (List.map_filter g (filter P xs))"
  using assms
proof (induction xs)
  case (Cons x xs)
  have "set (List.map_filter g (filter P xs)) \<subseteq> set (List.map_filter g xs)"
    by (auto simp: in_map_filter)
  with Cons show ?case by (auto simp: List.map_filter_simps split: option.splits)
qed simp

lemma lease_inv_delete:
  assumes inv: "lease_inv db" and p: "\<And>r. p r \<Longrightarrow> r_status r \<noteq> Pg_running"
  shows "lease_inv (db\<lparr>jobs_current := delete_where p (jobs_current db)\<rparr>)"
proof -
  let ?db = "db\<lparr>jobs_current := delete_where p (jobs_current db)\<rparr>"
  have "distinct (active_family_keys ?db)"
    using lease_invD(2) [OF inv]
    by (simp add: active_family_keys_def delete_where_def distinct_map_filter_filter)
  then have "constraints ?db"
    using lease_invD(1,3) [OF inv] by (simp add: constraints_def delete_where_def distinct_map_filter)
  moreover have "backed ?db a" if "backed db a" for a
    using that p by (fastforce simp: backed_def delete_where_def fence_def)
  moreover have "job_attempts ?db = job_attempts db"
    "set (jobs_current ?db) \<subseteq> set (jobs_current db)"
    by (auto simp: delete_where_def)
  ultimately show ?thesis
    using inv unfolding lease_inv_def by (metis subsetD)
qed

lemma delete_rows_terminal:
  assumes "lease_inv (snd nd)" "\<And>r. p r \<Longrightarrow> isTerminalStatus (r_status r)"
  shows "lease_inv (snd (delete_rows p nd))"
proof -
  have "r_status r \<noteq> Pg_running" if "p r" for r
    using assms(2) [OF that] by (auto simp: isTerminalStatus_def)
  with assms(1) show ?thesis by (simp add: delete_rows_def lease_inv_delete)
qed

lemma delete_rows_current:
  "jobs_current (snd (delete_rows p nd)) = filter (\<lambda>r. \<not> p r) (jobs_current (snd nd))"
  "job_attempts (snd (delete_rows p nd)) = job_attempts (snd nd)"
  by (simp_all add: delete_rows_def delete_where_def)

text \<open>What holds of every deletion of terminal rows holds of \<open>cleanupTerminal\<close>.\<close>

lemma cleanup_induct:
  assumes "Q (0, db)"
    and step: "\<And>p nd. Q nd \<Longrightarrow> (\<And>r. p r \<Longrightarrow> isTerminalStatus (r_status r)) \<Longrightarrow> Q (delete_rows p nd)"
  shows "Q (cleanupTerminal now w overrides db)"
proof -
  have "Q (fold (\<lambda>(familyKey, windowMs). delete_rows (\<lambda>r. terminal_before (now - windowMs) r
           \<and> r_job_family_key r = Some familyKey)) os nd)" if "Q nd" for os nd
    using that
  proof (induction os arbitrary: nd)
    case (Cons x os)
    have "Q (delete_rows (\<lambda>r. terminal_before (now - snd x) r \<and> r_job_family_key r = Some (fst x)) nd)"
      using Cons.prems by (rule step) (simp add: terminal_before_def)
    from Cons.IH [OF this] show ?case by (simp add: case_prod_unfold)
  qed simp
  moreover have "Q (delete_rows (\<lambda>r. terminal_before c r \<and> P r) (0, db))" for c P
    using assms(1) by (rule step) (simp add: terminal_before_def)
  moreover have "Q (delete_rows (terminal_before c) (0, db))" for c
    using assms(1) by (rule step) (simp add: terminal_before_def)
  ultimately show ?thesis by (simp add: cleanupTerminal_def Let_def)
qed

lemma cleanup_lease_inv: "lease_inv db \<Longrightarrow> lease_inv (snd (cleanupTerminal now w ov db))"
  by (rule cleanup_induct) (simp_all add: delete_rows_terminal)

lemma cleanup_running_key_le:
  "running_with_key c (snd (cleanupTerminal now w ov db)) \<le> running_with_key c db"
proof (rule cleanup_induct)
  fix p and nd :: "nat \<times> pg_db"
  assume "running_with_key c (snd nd) \<le> running_with_key c db"
  moreover have "running_with_key c (snd (delete_rows p nd)) \<le> running_with_key c (snd nd)"
    by (simp add: running_with_key_def delete_rows_def count_where_delete_le)
  ultimately show "running_with_key c (snd (delete_rows p nd)) \<le> running_with_key c db" by linarith
qed simp

lemma cleanup_pending_kept:
  assumes "r \<in> set (jobs_current db)" "\<not> isTerminalStatus (r_status r)"
  shows "r \<in> set (jobs_current (snd (cleanupTerminal now w ov db)))"
  by (rule cleanup_induct) (use assms in \<open>auto simp: delete_rows_current\<close>)

text \<open>An enqueue does nothing, merges into the active row of its family, or inserts a fresh row.\<close>

definition coalesce_effect :: "enqueue_input \<Rightarrow> job_row \<Rightarrow> job_row \<Rightarrow> job_row" where
  "coalesce_effect q active r =
     r\<lparr>r_family_state_json :=
         family_jsonb (buildCoalescedSearchRebuildFamilyState (r_family_state_json active)
           (q_payload_json q) (r_status active) (q_now_ms q)),
       r_updated_at := q_now_ms q\<rparr>"

lemma coalesce_into_eq:
  "coalesce_into q f active db =
     (Coalesced (q_job_key q) f (r_job_key active),
      update_rows (\<lambda>r. r_job_key r = r_job_key active) (coalesce_effect q active) db)"
  by (simp add: coalesce_into_def coalesce_effect_def [abs_def] Let_def)

lemma pending_row_sel [simp]:
  "r_job_key (pending_row q j) = q_job_key q"
  "r_job_family_key (pending_row q j) = q_job_family_key q"
  "r_status (pending_row q j) = Pg_pending"
  "r_claim_version (pending_row q j) = 0"
  "r_attempt_count (pending_row q j) = 0"
  "r_concurrency_key (pending_row q j) = q_concurrency_key q"
  by (simp_all add: pending_row_def)

definition rebuild_family :: "enqueue_input \<Rightarrow> string option" where
  "rebuild_family q =
     (if q_job_type q = Search_rebuild \<and> q_job_family_key q \<noteq> Some [] then q_job_family_key q else None)"

text \<open>The one transaction without interference, branch by branch.\<close>

lemma enqueue_eq:
  "enqueue q db =
     (case row_by_key (q_job_key q) db of
        Some r \<Rightarrow> (Inr (duplicate_result q r), db)
      | None \<Rightarrow>
          (case rebuild_family q of
             Some f \<Rightarrow>
               (case active_family_row f db of
                  Some active \<Rightarrow>
                    (Inr (Coalesced (q_job_key q) f (r_job_key active)),
                     update_rows (\<lambda>r. r_job_key r = r_job_key active) (coalesce_effect q active) db)
                | None \<Rightarrow>
                    (Inr (Created (q_job_key q) (q_job_family_key q) 0),
                     insert_row (pending_row q
                       (family_jsonb (initialSearchRebuildFamilyState (q_payload_json q)))) db))
           | None \<Rightarrow>
               if family_taken (q_job_family_key q) db
               then (Inl (Unique_violation ''idx_jobs_current_family_active''), db)
               else (Inr (Created (q_job_key q) (q_job_family_key q) 0),
                     insert_row (pending_row q (stringify (JVal (JObj [])))) db)))"
proof (cases "row_by_key (q_job_key q) db")
  case (Some r)
  then show ?thesis by (simp add: enqueue_def enqueue_in_def)
next
  case None
  then have free: "\<not> job_key_taken (q_job_key q) db" by (simp add: row_by_key_None)
  show ?thesis
  proof (cases "rebuild_family q")
    case plain: None
    then show ?thesis
      using None free by (auto simp: enqueue_def enqueue_in_def rebuild_family_def split: if_splits)
  next
    case (Some f)
    then have f: "q_job_type q = Search_rebuild" "q_job_family_key q = Some f" "f \<noteq> []"
      by (auto simp: rebuild_family_def split: if_splits)
    have "\<not> family_taken (Some f) db" if "active_family_row f db = None"
      using that active_family_row_None by blast
    then show ?thesis
      using None free f Some
      by (cases "active_family_row f db")
        (simp_all add: enqueue_def enqueue_in_def enqueue_rebuild_def coalesce_into_eq)
  qed
qed

lemma enqueue_cases:
  obtains (same) "snd (enqueue q db) = db"
    | (merge) active f where "rebuild_family q = Some f" "row_by_key (q_job_key q) db = None"
        "active_family_row f db = Some active"
        "snd (enqueue q db) =
           update_rows (\<lambda>r. r_job_key r = r_job_key active) (coalesce_effect q active) db"
    | (insert) j where "fresh_row (pending_row q j) db" "snd (enqueue q db) = insert_row (pending_row q j) db"
proof (cases "row_by_key (q_job_key q) db")
  case (Some r)
  then show ?thesis using same by (simp add: enqueue_eq)
next
  case None
  then have free: "\<not> job_key_taken (q_job_key q) db" by (simp add: row_by_key_None)
  show ?thesis
  proof (cases "rebuild_family q")
    case plain: None
    then show ?thesis
      using None free same insert
      by (cases "family_taken (q_job_family_key q) db") (auto simp: enqueue_eq fresh_row_def)
  next
    case (Some f)
    then have f: "q_job_family_key q = Some f"
      by (auto simp: rebuild_family_def split: if_splits)
    show ?thesis
    proof (cases "active_family_row f db")
      case (Some active)
      with merge [OF \<open>rebuild_family q = Some f\<close> None Some] \<open>rebuild_family q = Some f\<close> None
      show ?thesis by (simp add: enqueue_eq)
    next
      case no: None
      then have "\<not> family_taken (Some f) db" by (simp add: active_family_row_None)
      with Some None no free f show ?thesis
        by (intro insert) (auto simp: enqueue_eq fresh_row_def)
    qed
  qed
qed

lemma coalesce_effect_keeps: "keeps_identity (coalesce_effect q active)"
  "r_status (coalesce_effect q active r) = r_status r"
  by (simp_all add: keeps_identity_def coalesce_effect_def)

lemma lease_inv_update_rows:
  assumes inv: "lease_inv db" and f: "keeps_identity f" "\<And>r. r_status (f r) = r_status r"
  shows "lease_inv (update_rows p f db)"
proof -
  note id = keeps_identityD [OF f(1)]
  have eq: "jobs_current (update_rows p f db) = map (\<lambda>r. if p r then f r else r) (jobs_current db)"
    by (simp add: update_where_def)
  have keys: "map r_job_key (jobs_current (update_rows p f db)) = map r_job_key (jobs_current db)"
    unfolding db_sel by (rule map_update_where) (simp add: id)
  have "distinct (active_family_keys (update_rows p f db))"
    unfolding active_family_keys_def eq
    by (rule map_filter_shrink(2))
      (use lease_invD(2) [OF inv] f(2) in \<open>auto simp: active_family_keys_def id\<close>)
  then have "constraints (update_rows p f db)"
    using lease_invD(1,3) [OF inv] by (simp add: constraints_def keys del: db_sel(1))
  moreover have "backed (update_rows p f db) a" if "backed db a" for a
  proof -
    from that obtain r where "r \<in> set (jobs_current db)" "fence (a_job_key a) (a_claim_version a) r"
      by (auto simp: backed_def)
    then have "(if p r then f r else r) \<in> set (jobs_current (update_rows p f db))"
      "fence (a_job_key a) (a_claim_version a) (if p r then f r else r)"
      using f(2) by (auto simp: eq fence_def id simp del: db_sel(1))
    then show ?thesis unfolding backed_def by blast
  qed
  ultimately show ?thesis
    using inv f(2) unfolding lease_inv_def by (auto simp: set_update_where id)
qed

lemma enqueue_lease_inv: "lease_inv db \<Longrightarrow> lease_inv (snd (enqueue q db))"
  by (cases rule: enqueue_cases [of q db])
    (simp_all add: lease_inv_insert lease_inv_update_rows coalesce_effect_keeps)

lemma enqueue_running_key:
  "running_with_key c (snd (enqueue q db)) = running_with_key c db"
proof (cases rule: enqueue_cases [of q db])
  case (merge active f)
  have "length (filter (\<lambda>r. r_concurrency_key r = c \<and> r_status r = Pg_running)
          (update_where (\<lambda>r. r_job_key r = r_job_key active) (coalesce_effect q active) t)) =
        length (filter (\<lambda>r. r_concurrency_key r = c \<and> r_status r = Pg_running) t)" for t
    by (induction t) (simp_all add: table_simps coalesce_effect_def)
  with merge show ?thesis by (simp add: running_with_key_def count_where_def)
qed (simp_all add: running_with_key_def table_simps)

text \<open>A claim moves its row and opens an attempt.\<close>

lemma claim_row_sel [simp]:
  "r_job_key (claim_row inp r) = r_job_key r" "r_job_type (claim_row inp r) = r_job_type r"
  "r_job_family_key (claim_row inp r) = r_job_family_key r"
  "r_concurrency_key (claim_row inp r) = r_concurrency_key r"
  "r_status (claim_row inp r) = Pg_running"
  "r_claim_version (claim_row inp r) = r_claim_version r + 1"
  "r_attempt_count (claim_row inp r) = r_attempt_count r + 1"
  "r_execution_class (claim_row inp r) = r_execution_class r"
  "r_max_attempts (claim_row inp r) = r_max_attempts r"
  by (simp_all add: claim_row_def)

lemma running_attempt_sel [simp]:
  "a_job_key (running_attempt inp i r) = r_job_key r"
  "a_claim_version (running_attempt inp i r) = r_claim_version r"
  "a_outcome (running_attempt inp i r) = At_running"
  by (simp_all add: running_attempt_def)

definition claim_db :: "claim_input \<Rightarrow> job_row \<Rightarrow> pg_db \<Rightarrow> pg_db" where
  "claim_db inp c db =
     db\<lparr>jobs_current := update_where (\<lambda>r. r_job_key r = r_job_key c \<and> r_status r = Pg_pending)
                          (claim_row inp) (jobs_current db),
        job_attempts := job_attempts db @ [running_attempt inp (next_attempt_id db) (claim_row inp c)],
        next_attempt_id := next_attempt_id db + 1\<rparr>"

lemma claim_one_eq:
  "claim_one inp c db =
     (if attempt_taken (r_job_key c) (r_claim_version c + 1) db
      then (Inl (Unique_violation ''ux_job_attempts_job_key_claim_version''), db)
      else (Inr (Claimed (claim_row inp c)), claim_db inp c db))"
  by (simp add: claim_one_def claim_db_def Let_def)

lemma claim_db_sel [simp]:
  "jobs_current (claim_db inp c db) =
     update_where (\<lambda>r. r_job_key r = r_job_key c \<and> r_status r = Pg_pending) (claim_row inp)
       (jobs_current db)"
  "job_attempts (claim_db inp c db) =
     job_attempts db @ [running_attempt inp (next_attempt_id db) (claim_row inp c)]"
  by (simp_all add: claim_db_def)

lemma claimed_row_in:
  "c \<in> set (jobs_current db) \<Longrightarrow> r_status c = Pg_pending \<Longrightarrow>
   claim_row inp c \<in> set (jobs_current (claim_db inp c db))"
  by (simp add: in_update_where_hit)

lemma lease_inv_claim:
  assumes inv: "lease_inv db" and c: "c \<in> set (jobs_current db)" "r_status c = Pg_pending"
    and free: "\<not> attempt_taken (r_job_key c) (r_claim_version c + 1) db"
  shows "lease_inv (claim_db inp c db)"
proof -
  let ?db = "claim_db inp c db"
  let ?p = "\<lambda>r. r_job_key r = r_job_key c \<and> r_status r = Pg_pending"
  have only_c: "r = c" if "r \<in> set (jobs_current db)" "?p r" for r
    using distinct_key_unique [OF lease_invD(1) [OF inv] that(1) c(1)] that(2) by simp
  have eq: "jobs_current ?db = map (\<lambda>r. if ?p r then claim_row inp r else r) (jobs_current db)"
    by (simp add: update_where_def)
  have "map r_job_key (jobs_current ?db) = map r_job_key (jobs_current db)"
    unfolding claim_db_sel by (rule map_update_where) simp
  moreover have "distinct (active_family_keys ?db)"
    unfolding active_family_keys_def eq
    by (rule map_filter_shrink(2))
      (use lease_invD(2) [OF inv] in \<open>auto simp: active_family_keys_def\<close>)
  moreover have "(r_job_key c, r_claim_version c + 1) \<notin>
      set (map (\<lambda>a. (a_job_key a, a_claim_version a)) (job_attempts db))"
    using free by (auto simp: attempt_taken_def)
  ultimately have con: "constraints ?db"
    using lease_invD(1,3) [OF inv] by (simp add: constraints_def)
  have old: "backed ?db a" if a: "backed db a" for a
  proof -
    from a obtain r where r: "r \<in> set (jobs_current db)" "fence (a_job_key a) (a_claim_version a) r"
      by (auto simp: backed_def)
    then have "\<not> ?p r" by (auto simp: fence_def)
    with r show ?thesis unfolding backed_def claim_db_sel by (blast intro: in_update_where_miss)
  qed
  have new: "backed ?db (running_attempt inp i (claim_row inp c))" for i
    unfolding backed_def by (rule bexI [OF _ claimed_row_in [OF c]]) (simp add: fence_def)
  have rows: "(\<exists>a \<in> set (job_attempts ?db). attempt_fence (r_job_key r) (r_claim_version r) a)"
    if r: "r \<in> set (jobs_current ?db)" "r_status r = Pg_running" for r
  proof -
    from r(1) have "r \<in> set (update_where ?p (claim_row inp) (jobs_current db))" by simp
    then show ?thesis
    proof (cases rule: in_update_whereE)
      case (1 s)
      then have "s = c" using only_c by blast
      with 1 show ?thesis by (auto simp: attempt_fence_def)
    next
      case 2
      with r(2) lease_invD(5) [OF inv 2(1)] show ?thesis by auto
    qed
  qed
  have cnt: "r_claim_version r = r_attempt_count r" if "r \<in> set (jobs_current ?db)" for r
    using that lease_invD(6) [OF inv] by (auto simp: set_update_where)
  show ?thesis
    unfolding lease_inv_def
    using con old new rows cnt lease_invD(4) [OF inv] by auto
qed

lemma running_claim:
  assumes "lease_inv db" "c \<in> set (jobs_current db)" "r_status c = Pg_pending"
  shows "running_with_key k (claim_db inp c db) =
         (if k = r_concurrency_key c then Suc (running_with_key k db) else running_with_key k db)"
proof -
  let ?p = "\<lambda>r. r_job_key r = r_job_key c \<and> r_status r = Pg_pending"
  let ?run = "\<lambda>r. r_concurrency_key r = k \<and> r_status r = Pg_running"
  have only_c: "r = c" if "r \<in> set (jobs_current db)" "?p r" for r
    using distinct_key_unique [OF lease_invD(1) [OF assms(1)] that(1) assms(2)] that(2) by simp
  show ?thesis
  proof (cases "k = r_concurrency_key c")
    case True
    have "count_where ?run (update_where ?p (claim_row inp) (jobs_current db)) =
          Suc (count_where ?run (jobs_current db))"
      by (rule count_where_update_one [OF lease_invD(1) [OF assms(1)] assms(2)])
        (use assms(3) True in auto)
    with True show ?thesis by (simp add: running_with_key_def)
  next
    case False
    have "?run (if ?p r then claim_row inp r else r) = ?run r" if "r \<in> set (jobs_current db)" for r
      using only_c [OF that] False assms(3) by auto
    then have "count_where ?run (update_where ?p (claim_row inp) (jobs_current db)) =
          count_where ?run (jobs_current db)"
      by (simp add: count_where_def update_where_def filter_map o_def cong: filter_cong)
    with False show ?thesis by (simp add: running_with_key_def)
  qed
qed

lemma history_insert: "history_kept db \<Longrightarrow> history_kept (insert_row r db)"
  by (fastforce simp: history_kept_def)

lemma history_update_rows:
  assumes "history_kept db" "keeps_identity f"
  shows "history_kept (update_rows p f db)"
  unfolding history_kept_def
proof
  fix a
  assume "a \<in> set (job_attempts (update_rows p f db))"
  with assms(1) obtain r where "r \<in> set (jobs_current db)" "r_job_key r = a_job_key a"
      "a_claim_version a \<le> r_claim_version r"
    by (auto simp: history_kept_def)
  then show "\<exists>r \<in> set (jobs_current (update_rows p f db)).
      r_job_key r = a_job_key a \<and> a_claim_version a \<le> r_claim_version r"
    by (intro bexI [of _ "if p r then f r else r"])
      (auto simp: keeps_identityD [OF assms(2)] set_update_where)
qed

lemma enqueue_history: "history_kept db \<Longrightarrow> history_kept (snd (enqueue q db))"
  by (cases rule: enqueue_cases [of q db])
    (simp_all add: history_insert history_update_rows coalesce_effect_keeps)

text \<open>While the history is kept, the version a claim takes is a new one.\<close>

lemma history_claim_free:
  assumes "lease_inv db" "history_kept db" "c \<in> set (jobs_current db)"
  shows "\<not> attempt_taken (r_job_key c) (r_claim_version c + 1) db"
proof
  assume "attempt_taken (r_job_key c) (r_claim_version c + 1) db"
  then obtain a where a: "a \<in> set (job_attempts db)" "a_job_key a = r_job_key c"
      "a_claim_version a = r_claim_version c + 1"
    by (auto simp: attempt_taken_def)
  with assms(2) obtain r where "r \<in> set (jobs_current db)" "r_job_key r = r_job_key c"
      "r_claim_version c + 1 \<le> r_claim_version r"
    by (fastforce simp: history_kept_def)
  with distinct_key_unique [OF lease_invD(1) [OF assms(1)] _ assms(3)] show False by fastforce
qed

lemma history_claim:
  assumes "history_kept db" "c \<in> set (jobs_current db)" "r_status c = Pg_pending"
  shows "history_kept (claim_db inp c db)"
  unfolding history_kept_def
proof
  let ?p = "\<lambda>r. r_job_key r = r_job_key c \<and> r_status r = Pg_pending"
  fix a
  assume "a \<in> set (job_attempts (claim_db inp c db))"
  then consider "a \<in> set (job_attempts db)"
    | "a = running_attempt inp (next_attempt_id db) (claim_row inp c)"
    by auto
  then show "\<exists>r \<in> set (jobs_current (claim_db inp c db)).
      r_job_key r = a_job_key a \<and> a_claim_version a \<le> r_claim_version r"
  proof cases
    case 1
    with assms(1) obtain r where "r \<in> set (jobs_current db)" "r_job_key r = a_job_key a"
        "a_claim_version a \<le> r_claim_version r"
      by (auto simp: history_kept_def)
    then show ?thesis
      by (intro bexI [of _ "if ?p r then claim_row inp r else r"]) (auto simp: set_update_where)
  next
    case 2
    show ?thesis
      by (rule bexI [OF _ claimed_row_in [OF assms(2,3)]]) (simp add: 2)
  qed
qed

end
