(* ===== verification/Pg_Workers.thy ===== *)
theory Pg_Workers
  imports Pg_Lease
begin

text \<open>
  Any number of workers against one store. A state is the committed database and the open
  claims: transactions that have chosen and locked a row and hold the advisory lock of its
  concurrency key, but have not committed. \<open>store_step\<close> lets them interleave with each
  other and with every other operation; its parameter \<open>cleaning\<close> says whether terminal
  rows may be deleted. The invariants are those of theory \<open>Pg_Lease\<close> and the caps.
\<close>

section \<open>The scan finds the first claimable row\<close>

lemma find_in_append:
  "find P (xs @ ys) = (case find P xs of Some x \<Rightarrow> Some x | None \<Rightarrow> find P ys)"
  by (induction xs) auto

lemma claim_loop_eq:
  "claim_loop override skip lock_free inp offset db =
     (case find (claimable override lock_free db) (drop offset (scan_order skip (c_now_ms inp) db)) of
        Some candidate \<Rightarrow> claim_one inp candidate db
      | None \<Rightarrow> (Inr None_ready, db))"
proof (induction override skip lock_free inp offset db rule: claim_loop.induct)
  case (1 override skip lock_free inp offset db)
  let ?scan = "drop offset (scan_order skip (c_now_ms inp) db)"
  let ?batch = "claim_batch skip (c_now_ms inp) offset db"
  have split: "?scan = ?batch @ drop CLAIM_SCAN_BATCH_SIZE ?scan"
    unfolding claim_batch_def by (rule append_take_drop_id [symmetric])
  have found: "find P ?scan = (case find P ?batch of Some c \<Rightarrow> Some c
      | None \<Rightarrow> find P (drop CLAIM_SCAN_BATCH_SIZE ?scan))" for P
    by (subst split, subst find_in_append) (simp split: option.split)
  have rest: "drop (offset + length ?batch) (scan_order skip (c_now_ms inp) db) =
      drop CLAIM_SCAN_BATCH_SIZE ?scan"
    by (cases "length ?scan \<le> CLAIM_SCAN_BATCH_SIZE") (simp_all add: claim_batch_def add.commute min_def)
  show ?case
  proof (cases "?batch = []")
    case True
    then have "?scan = []" by (auto simp: claim_batch_def CLAIM_SCAN_BATCH_SIZE_def)
    with True show ?thesis by (subst claim_loop.simps) (simp add: Let_def)
  next
    case False
    show ?thesis
    proof (cases "find (claimable override lock_free db) ?batch")
      case None
      with False 1 [OF refl False None] show ?thesis
        by (subst claim_loop.simps) (simp add: Let_def found rest)
    next
      case (Some c)
      with False show ?thesis by (subst claim_loop.simps) (simp add: Let_def found)
    qed
  qed
qed

definition claim_candidate :: "nat option \<Rightarrow> string list \<Rightarrow> string list \<Rightarrow> int \<Rightarrow> pg_db \<Rightarrow> job_row option" where
  "claim_candidate override skip lock_free now db =
     find (claimable override lock_free db) (scan_order skip now db)"

lemma claimNext_eq:
  "claimNext override skip lock_free inp db =
     (case claim_candidate override skip lock_free (c_now_ms inp) db of
        Some candidate \<Rightarrow> claim_one inp candidate db
      | None \<Rightarrow> (Inr None_ready, db))"
  by (simp add: claimNext_def claim_loop_eq claim_candidate_def)

interpretation claim_order: ranked claim_before claim_rank
  by unfold_locales (simp add: claim_before_def)

lemma find_filter: "find P (filter Q xs) = find (\<lambda>x. Q x \<and> P x) xs"
  by (induction xs) auto

lemma claim_candidate_Some:
  assumes "claim_candidate override skip lock_free now db = Some c"
  shows "c \<in> set (jobs_current db)" "claim_ready now c" "r_job_key c \<notin> set skip"
    "claimable override lock_free db c"
    and "\<And>r. r \<in> set (jobs_current db) \<Longrightarrow> claim_ready now r \<Longrightarrow> r_job_key r \<notin> set skip \<Longrightarrow>
         claimable override lock_free db r \<Longrightarrow> claim_rank c \<le> claim_rank r"
  using claim_order.find_sort_by_least [OF assms [unfolded claim_candidate_def scan_order_def find_filter]]
  by (auto simp: claim_order.not_before_iff)

section \<open>The step relation\<close>

type_synonym open_claim = "claim_input \<times> job_row"
type_synonym store_state = "pg_db \<times> open_claim list"

definition locked_rows :: "open_claim list \<Rightarrow> string list" where
  "locked_rows os = map (\<lambda>o'. r_job_key (snd o')) os"

definition held_keys :: "open_claim list \<Rightarrow> string list" where
  "held_keys os = map (\<lambda>o'. r_concurrency_key (snd o')) os"

text \<open>A merge waits for the lock of the row it merges into.\<close>

definition merge_target_free :: "enqueue_input \<Rightarrow> pg_db \<Rightarrow> open_claim list \<Rightarrow> bool" where
  "merge_target_free q db os =
     (case q_job_family_key q of
        None \<Rightarrow> True
      | Some f \<Rightarrow> (case active_family_row f db of
                     None \<Rightarrow> True | Some r \<Rightarrow> r_job_key r \<notin> set (locked_rows os)))"

inductive store_step :: "nat option \<Rightarrow> bool \<Rightarrow> store_state \<Rightarrow> store_state \<Rightarrow> bool"
  for override :: "nat option" and cleaning :: bool where
  s_open: "c \<in> set (jobs_current db) \<Longrightarrow> claim_ready (c_now_ms inp) c \<Longrightarrow>
    r_job_key c \<notin> set (locked_rows os) \<Longrightarrow> set lock_free \<inter> set (held_keys os) = {} \<Longrightarrow>
    claimable override lock_free db c \<Longrightarrow>
    store_step override cleaning (db, os) (db, os @ [(inp, c)])"
| s_commit: "(inp, c) \<in> set os \<Longrightarrow>
    store_step override cleaning (db, os) (snd (claim_one inp c db), remove1 (inp, c) os)"
| s_enqueue: "merge_target_free q db os \<Longrightarrow>
    store_step override cleaning (db, os) (snd (enqueue q db), os)"
| s_heartbeat: "store_step override cleaning (db, os) (snd (heartbeat k v now db), os)"
| s_complete: "store_step override cleaning (db, os) (snd (complete uuid now k v db), os)"
| s_fail: "store_step override cleaning (db, os) (snd (fail k v err db), os)"
| s_cancel: "store_step override cleaning (db, os) (snd (cancel now k v db), os)"
| s_reclaim: "store_step override cleaning (db, os) (snd (reclaimExpiredLeases now db), os)"
| s_cleanup: "cleaning \<Longrightarrow>
    store_step override cleaning (db, os) (snd (cleanupTerminal now w overrides db), os)"

inductive store_reach :: "nat option \<Rightarrow> bool \<Rightarrow> store_state \<Rightarrow> bool"
  for override :: "nat option" and cleaning :: bool where
  store_start: "store_reach override cleaning (empty_db, [])"
| store_next: "store_reach override cleaning s \<Longrightarrow> store_step override cleaning s t \<Longrightarrow>
    store_reach override cleaning t"

definition open_ok :: "nat option \<Rightarrow> pg_db \<Rightarrow> open_claim list \<Rightarrow> bool" where
  "open_ok override db os \<longleftrightarrow>
     distinct (locked_rows os) \<and> distinct (held_keys os) \<and>
     (\<forall>(inp, c) \<in> set os.
        c \<in> set (jobs_current db) \<and> r_status c = Pg_pending \<and>
        running_with_key (r_concurrency_key c) db < getConcurrencyCap override (r_concurrency_key c))"

definition caps_kept :: "nat option \<Rightarrow> pg_db \<Rightarrow> bool" where
  "caps_kept override db = (\<forall>k. running_with_key k db \<le> getConcurrencyCap override k)"

definition store_inv :: "nat option \<Rightarrow> store_state \<Rightarrow> bool" where
  "store_inv override s \<longleftrightarrow>
     lease_inv (fst s) \<and> open_ok override (fst s) (snd s) \<and> caps_kept override (fst s)"

lemma claimable_caps:
  assumes "claimable override lock_free db c"
  shows "r_concurrency_key c \<in> set lock_free"
    and "running_with_key (r_concurrency_key c) db < getConcurrencyCap override (r_concurrency_key c)"
  using assms by (auto simp: claimable_def split: if_splits)

text \<open>Steps that change neither pending locked rows nor add running rows keep the invariant.\<close>

lemma store_inv_quiet:
  assumes "store_inv override (db, os)" "lease_inv db'"
    and "\<And>k. running_with_key k db' \<le> running_with_key k db"
    and "\<And>inp c. (inp, c) \<in> set os \<Longrightarrow> c \<in> set (jobs_current db) \<Longrightarrow> r_status c = Pg_pending \<Longrightarrow>
         c \<in> set (jobs_current db')"
  shows "store_inv override (db', os)"
  using assms by (fastforce simp: store_inv_def open_ok_def caps_kept_def
      intro: le_less_trans le_trans)

context fenced_op
begin

lemma keeps_store_inv:
  assumes inv: "store_inv override (db, os)"
  shows "store_inv override (op k v db, os)"
proof -
  have lease: "lease_inv db" using inv by (simp add: store_inv_def)
  show ?thesis
  proof (rule store_inv_quiet [OF inv])
    fix inp c
    assume "c \<in> set (jobs_current db)" "r_status c = Pg_pending"
    with lease show "c \<in> set (jobs_current (op k v db))"
      by (intro keeps_other_rows) (auto simp: fence_def)
  qed (use lease in \<open>simp_all add: keeps_lease_inv running_key_le\<close>)
qed

end

lemma store_inv_commit:
  assumes inv: "store_inv override (db, os)" and o': "(inp, c) \<in> set os"
  shows "store_inv override (snd (claim_one inp c db), remove1 (inp, c) os)"
proof -
  note I = inv [unfolded store_inv_def fst_conv snd_conv]
  from I have lease: "lease_inv db" by simp
  from I o' have c: "c \<in> set (jobs_current db)" "r_status c = Pg_pending"
      "running_with_key (r_concurrency_key c) db < getConcurrencyCap override (r_concurrency_key c)"
    by (auto simp: open_ok_def)
  have d: "distinct (locked_rows os)" "distinct (held_keys os)" using I by (auto simp: open_ok_def)
  have rem: "distinct (map f (remove1 x xs))" if "distinct (map f xs)" for f x and xs :: "open_claim list"
    using that by (metis distinct_map distinct_remove1 inj_on_subset set_remove1_subset)
  have other: "r_job_key d \<noteq> r_job_key c \<and> r_concurrency_key d \<noteq> r_concurrency_key c"
    if "(jnp, d) \<in> set (remove1 (inp, c) os)" for jnp d
  proof -
    have "distinct os" using d(1) by (auto simp: locked_rows_def distinct_map)
    with that have "(jnp, d) \<in> set os" "(jnp, d) \<noteq> (inp, c)" by auto
    with d o' show ?thesis
      using distinct_key_unique [OF d(1) [unfolded locked_rows_def]]
        distinct_key_unique [OF d(2) [unfolded held_keys_def]] by fastforce
  qed
  have keys: "distinct (locked_rows (remove1 (inp, c) os))" "distinct (held_keys (remove1 (inp, c) os))"
    using d by (simp_all add: locked_rows_def held_keys_def rem)
  have old: "e \<in> set (jobs_current db)" "r_status e = Pg_pending"
      "running_with_key (r_concurrency_key e) db < getConcurrencyCap override (r_concurrency_key e)"
    if "(jnp, e) \<in> set (remove1 (inp, c) os)" for jnp e
    using I set_remove1_subset [THEN subsetD, OF that] by (auto simp: open_ok_def)
  show ?thesis
  proof (cases "attempt_taken (r_job_key c) (r_claim_version c + 1) db")
    case True
    have "open_ok override db (remove1 (inp, c) os)"
      using keys old by (auto simp: open_ok_def)
    with True I show ?thesis by (simp add: claim_one_eq store_inv_def)
  next
    case False
    note run = running_claim [OF lease c(1,2)]
    have 1: "lease_inv (claim_db inp c db)" using lease c False by (intro lease_inv_claim)
    have 2: "caps_kept override (claim_db inp c db)"
      using I c(3) by (auto simp: caps_kept_def run)
    have "e \<in> set (jobs_current (claim_db inp c db)) \<and> r_status e = Pg_pending \<and>
        running_with_key (r_concurrency_key e) (claim_db inp c db)
          < getConcurrencyCap override (r_concurrency_key e)"
      if "(jnp, e) \<in> set (remove1 (inp, c) os)" for jnp e
      using other [OF that] old [OF that] by (simp add: run in_update_where_miss)
    then have "open_ok override (claim_db inp c db) (remove1 (inp, c) os)"
      using keys unfolding open_ok_def by blast
    with 1 2 False show ?thesis by (simp add: claim_one_eq store_inv_def)
  qed
qed

lemma merge_keeps_locked:
  assumes "merge_target_free q db os" "(inp, c) \<in> set os" "c \<in> set (jobs_current db)"
  shows "c \<in> set (jobs_current (snd (enqueue q db)))"
proof (cases rule: enqueue_cases [of q db])
  case (merge active f)
  then have "q_job_family_key q = Some f" by (auto simp: rebuild_family_def split: if_splits)
  with assms merge have "r_job_key active \<notin> set (locked_rows os)"
    by (simp add: merge_target_free_def)
  with assms(2) have "r_job_key c \<noteq> r_job_key active" by (force simp: locked_rows_def)
  with merge assms(3) show ?thesis by (simp add: in_update_where_miss)
qed (use assms in simp_all)

lemma store_inv_step: "store_step override cleaning s t \<Longrightarrow> store_inv override s \<Longrightarrow> store_inv override t"
proof (induction rule: store_step.induct)
  case (s_open c db inp os lock_free)
  then show ?case
    using claimable_caps [of override lock_free db c]
    by (auto simp: store_inv_def open_ok_def locked_rows_def held_keys_def claim_ready_def)
next
  case (s_commit inp c os db)
  then show ?case by (simp add: store_inv_commit)
next
  case (s_enqueue q db os)
  have "lease_inv db" using s_enqueue(2) by (simp add: store_inv_def)
  then show ?case
    using s_enqueue(1)
    by (intro store_inv_quiet [OF s_enqueue(2)])
      (auto simp: enqueue_lease_inv enqueue_running_key intro: merge_keeps_locked)
next
  case (s_reclaim db os now)
  have "lease_inv db" using s_reclaim by (simp add: store_inv_def)
  then show ?case
    by (intro store_inv_quiet [OF s_reclaim])
      (auto simp: reclaim_lease_inv reclaim_running_key_le intro: reclaim_pending_kept)
next
  case (s_cleanup db os now w overrides)
  have "lease_inv db" using s_cleanup(2) by (simp add: store_inv_def)
  then show ?case
    by (intro store_inv_quiet [OF s_cleanup(2)])
      (auto simp: cleanup_lease_inv cleanup_running_key_le isTerminalStatus_def
        intro: cleanup_pending_kept)
qed (simp_all add: hb.keeps_store_inv cp.keeps_store_inv fl.keeps_store_inv cn.keeps_store_inv)

lemma store_inv_empty: "store_inv override (empty_db, [])"
  by (simp add: store_inv_def lease_inv_def constraints_def empty_db_def active_family_keys_def
      List.map_filter_simps open_ok_def locked_rows_def held_keys_def caps_kept_def
      running_with_key_def table_simps)

lemma store_reach_inv: "store_reach override cleaning s \<Longrightarrow> store_inv override s"
  by (induction rule: store_reach.induct) (auto intro: store_inv_empty store_inv_step)

section \<open>Leases and caps in reachable states\<close>

lemma reach_lease_inv: "store_reach override cleaning (db, os) \<Longrightarrow> lease_inv db"
  using store_reach_inv by (fastforce simp: store_inv_def)

text \<open>
  Property (C1): a job is never leased twice. Whatever the workers do, two attempts of one
  job that are both recorded as running are the same attempt, and it is the claim the
  job's row is running under.
\<close>

theorem lease_exclusive:
  assumes "store_reach override cleaning (db, os)"
    and "a \<in> set (job_attempts db)" "a_outcome a = At_running"
    and "b \<in> set (job_attempts db)" "a_outcome b = At_running" "a_job_key a = a_job_key b"
  shows "a = b \<and> (\<exists>r. row_by_key (a_job_key a) db = Some r \<and> r_status r = Pg_running \<and>
           r_claim_version r = a_claim_version a \<and> r_attempt_count r = a_claim_version a)"
proof -
  note inv = reach_lease_inv [OF assms(1)]
  from lease_invD(4) [OF inv assms(2,3)] obtain r
    where r: "r \<in> set (jobs_current db)" "fence (a_job_key a) (a_claim_version a) r"
    by (auto simp: backed_def)
  from lease_invD(4) [OF inv assms(4,5)] obtain s
    where s: "s \<in> set (jobs_current db)" "fence (a_job_key b) (a_claim_version b) s"
    by (auto simp: backed_def)
  have "r = s"
    using r s assms(6) by (intro distinct_key_unique [OF lease_invD(1) [OF inv]]) (auto simp: fence_def)
  with r s have "a_claim_version a = a_claim_version b" by (simp add: fence_def)
  with assms(6) have "a = b"
    by (intro distinct_key_unique [OF lease_invD(3) [OF inv] assms(2,4)]) simp
  moreover have "row_by_key (a_job_key a) db = Some r"
    using find_key_Some [OF lease_invD(1) [OF inv] r(1)] r(2)
    by (simp add: row_by_key_def fence_def)
  moreover have "r_claim_version r = r_attempt_count r" using inv r(1) by (rule lease_invD(6))
  ultimately show ?thesis using r(2) by (auto simp: fence_def)
qed

text \<open>
  Property (C11): the cap of a concurrency key holds at every moment, even while any number
  of claims overlap, since each holds the advisory lock of its key until it commits.
\<close>

theorem key_caps_hold:
  assumes "store_reach override cleaning (db, os)"
  shows "running_with_key k db \<le> getConcurrencyCap override k"
  using store_reach_inv [OF assms] by (simp add: store_inv_def caps_kept_def)

text \<open>
  Property (C34): a worker whose claim has been superseded is told so by every operation,
  and changes nothing.
\<close>

theorem stale_worker_harmless:
  assumes "store_reach override cleaning (db, os)"
    and "row_by_key k db = Some r" "r_claim_version r \<noteq> v"
  shows "heartbeat k v now db = (Missed Stale_claim, db) \<and>
    complete uuid now k v db = (Inr (Missed Stale_claim), db) \<and>
    fail k v err db = (Missed Stale_claim, db) \<and>
    cancel now k v db = (Missed Stale_claim, db)"
proof -
  note inv = reach_lease_inv [OF assms(1)]
  have "\<not> fence k v s" if "s \<in> set (jobs_current db)" for s
  proof
    assume s: "fence k v s"
    have "s = r"
      using row_by_key_Some [OF assms(2)] s that
      by (intro distinct_key_unique [OF lease_invD(1) [OF inv]]) (auto simp: fence_def)
    with s assms(3) show False by (simp add: fence_def)
  qed
  then have miss: "fenced_row k v db = None" by (simp add: fenced_row_None)
  have "classifyFenceMiss k v db = Stale_claim" using assms(2,3) by (simp add: classifyFenceMiss_def)
  then show ?thesis
    by (simp add: fenced_misses [OF miss] fence_missed_same [OF inv miss])
qed

text \<open>A whole \<open>claimNext\<close>, with no other claim open, is an opening and a commit.\<close>

lemma reach_claimNext:
  assumes "store_reach override cleaning (db, [])"
  shows "store_reach override cleaning (snd (claimNext override skip lock_free inp db), [])"
proof (cases "claim_candidate override skip lock_free (c_now_ms inp) db")
  case None
  with assms show ?thesis by (simp add: claimNext_eq)
next
  case (Some c)
  note c = claim_candidate_Some [OF Some]
  have "store_step override cleaning (db, []) (db, [] @ [(inp, c)])"
    by (rule s_open [OF c(1,2) _ _ c(4)]) (simp_all add: locked_rows_def held_keys_def)
  with assms have "store_reach override cleaning (db, [(inp, c)])" by (auto intro: store_next)
  moreover have "store_step override cleaning (db, [(inp, c)])
      (snd (claim_one inp c db), remove1 (inp, c) [(inp, c)])"
    by (rule s_commit) simp
  ultimately show ?thesis using Some by (auto simp: claimNext_eq intro: store_next)
qed

lemma reach_enqueue:
  "store_reach override cleaning (db, []) \<Longrightarrow> store_reach override cleaning (snd (enqueue q db), [])"
  by (rule store_next [OF _ s_enqueue])
    (auto simp: merge_target_free_def locked_rows_def split: option.split)

section \<open>A sample run\<close>

definition organize_input :: enqueue_input where
  "organize_input =
     \<lparr>q_job_key = ''memory.organize:s1'', q_job_type = Memory_organize, q_job_family_key = None,
      q_execution_class = Background_memory_organize,
      q_concurrency_key = ''memory.organize:global'', q_payload_schema_version = 1,
      q_payload_json = \<lparr>p_json = JObj [], p_triggerSource = [], p_triggerReason = [],
                        p_requestedAt = None\<rparr>,
      q_max_attempts = 2, q_now_ms = 10, q_next_attempt_at = None\<rparr>"

definition worker_claim :: "int \<Rightarrow> claim_input" where
  "worker_claim now = \<lparr>c_worker_id = ''worker-1'', c_now_ms = now, c_lease_duration_ms = 1000\<rparr>"

definition claimed_db :: pg_db where
  "claimed_db = snd (claimNext None [] [''memory.organize:global''] (worker_claim 20)
     (snd (enqueue organize_input empty_db)))"

definition claimed_attempt :: attempt_row where
  "claimed_attempt = hd (job_attempts claimed_db)"

text \<open>The lease runs out, another claim supersedes the first.\<close>

definition superseded_db :: pg_db where
  "superseded_db = snd (claimNext None [] [''memory.organize:global''] (worker_claim 3000)
     (snd (reclaimExpiredLeases 2000 claimed_db)))"

lemma claimed_reach: "store_reach None cleaning (claimed_db, [])"
  unfolding claimed_db_def by (intro reach_claimNext reach_enqueue store_start)

lemma superseded_reach: "store_reach None cleaning (superseded_db, [])"
  unfolding superseded_db_def by (intro reach_claimNext store_next [OF claimed_reach s_reclaim])

theorem lease_exclusive_witness:
  "claimed_attempt \<in> set (job_attempts claimed_db) \<and> a_outcome claimed_attempt = At_running \<and>
   (\<exists>r. row_by_key ''memory.organize:s1'' claimed_db = Some r \<and> r_status r = Pg_running \<and>
        r_claim_version r = 1)"
proof -
  have a: "claimed_attempt \<in> set (job_attempts claimed_db)" "a_outcome claimed_attempt = At_running"
    "a_job_key claimed_attempt = ''memory.organize:s1''" "a_claim_version claimed_attempt = 1"
    by code_simp+
  from lease_exclusive [OF claimed_reach a(1,2) a(1,2) refl] a show ?thesis by auto
qed

theorem key_caps_hold_witness:
  "running_with_key ''memory.organize:global'' superseded_db = 1 \<and>
   getConcurrencyCap None ''memory.organize:global'' = 2 \<and>
   running_with_key ''memory.organize:global'' superseded_db
     \<le> getConcurrencyCap None ''memory.organize:global''"
proof -
  have "running_with_key ''memory.organize:global'' superseded_db = 1"
    "getConcurrencyCap None ''memory.organize:global'' = 2" by code_simp+
  with key_caps_hold [OF superseded_reach, of "''memory.organize:global''"] show ?thesis by blast
qed

theorem stale_worker_harmless_witness:
  "map_option r_claim_version (row_by_key ''memory.organize:s1'' superseded_db) = Some 2 \<and>
   heartbeat ''memory.organize:s1'' 1 3500 superseded_db = (Missed Stale_claim, superseded_db)"
proof -
  have v: "map_option r_claim_version (row_by_key ''memory.organize:s1'' superseded_db) = Some 2"
    by code_simp
  then obtain r where "row_by_key ''memory.organize:s1'' superseded_db = Some r" "r_claim_version r \<noteq> 1"
    by auto
  from stale_worker_harmless [OF superseded_reach this] v show ?thesis by blast
qed

section \<open>Claims\<close>

text \<open>
  Property (C35): \<open>claimNext\<close> takes a ready row that may be claimed, and no claimable row
  that no other transaction has locked comes before it in the order of execution class and
  time; the row is returned and stored as running with its version and attempt count
  increased, and a running attempt is recorded. If it reports that nothing is ready, no
  unlocked ready row may be claimed.
\<close>

theorem claim_takes_first:
  assumes "fst (claimNext override skip lock_free inp db) = Inr res"
  shows "case res of
      None_ready \<Rightarrow> snd (claimNext override skip lock_free inp db) = db \<and>
        (\<forall>r \<in> set (jobs_current db). claim_ready (c_now_ms inp) r \<and> r_job_key r \<notin> set skip \<longrightarrow>
           \<not> claimable override lock_free db r)
    | Claimed job \<Rightarrow>
        (\<exists>c \<in> set (jobs_current db).
           claim_ready (c_now_ms inp) c \<and> r_job_key c \<notin> set skip \<and>
           claimable override lock_free db c \<and>
           (\<forall>r \<in> set (jobs_current db). claim_ready (c_now_ms inp) r \<and> r_job_key r \<notin> set skip \<and>
              claimable override lock_free db r \<longrightarrow> claim_rank c \<le> claim_rank r) \<and>
           job = claim_row inp c \<and>
           job \<in> set (jobs_current (snd (claimNext override skip lock_free inp db))) \<and>
           job_attempts (snd (claimNext override skip lock_free inp db)) =
             job_attempts db @ [running_attempt inp (next_attempt_id db) job])"
proof (cases "claim_candidate override skip lock_free (c_now_ms inp) db")
  case None
  then have "\<not> claimable override lock_free db r"
    if "r \<in> set (jobs_current db)" "claim_ready (c_now_ms inp) r" "r_job_key r \<notin> set skip" for r
    using that by (auto simp: claim_candidate_def scan_order_def find_None_iff)
  with assms None show ?thesis by (auto simp: claimNext_eq)
next
  case (Some c)
  note c = claim_candidate_Some [OF Some]
  from assms Some have res: "res = Claimed (claim_row inp c)"
    and db: "snd (claimNext override skip lock_free inp db) = claim_db inp c db"
    by (auto simp: claimNext_eq claim_one_eq split: if_splits)
  have "claim_row inp c \<in> set (jobs_current (claim_db inp c db))"
    using c(1,2) by (intro claimed_row_in) (simp_all add: claim_ready_def)
  with c res show ?thesis unfolding db by (auto simp: claim_db_sel(2))
qed

theorem claim_takes_first_witness:
  "\<exists>c \<in> set (jobs_current (snd (enqueue organize_input empty_db))).
     claim_ready 20 c \<and> r_job_key c = ''memory.organize:s1'' \<and>
     claim_row (worker_claim 20) c \<in> set (jobs_current claimed_db)"
proof -
  have first: "fst (claimNext None [] [''memory.organize:global''] (worker_claim 20)
      (snd (enqueue organize_input empty_db))) = Inr (Claimed (hd (jobs_current claimed_db)))"
    by code_simp
  have keys: "\<forall>c \<in> set (jobs_current (snd (enqueue organize_input empty_db))).
      r_job_key c = ''memory.organize:s1''"
    by code_simp
  have now: "c_now_ms (worker_claim 20) = 20" by (simp add: worker_claim_def)
  from claim_takes_first [OF first] keys show ?thesis
    unfolding claimed_db_def [symmetric] by (auto simp: now)
qed

text \<open>As long as no row is deleted the attempt history stays tied to its rows.\<close>

lemma claim_history:
  assumes "store_inv override (db, os)" "history_kept db" "(inp, c) \<in> set os"
  shows "history_kept (snd (claim_one inp c db))"
proof -
  have "c \<in> set (jobs_current db)" "r_status c = Pg_pending"
    using assms(1,3) by (auto simp: store_inv_def open_ok_def)
  with assms(2) show ?thesis by (simp add: claim_one_eq history_claim)
qed

lemma history_step:
  "store_step override False s t \<Longrightarrow> store_inv override s \<Longrightarrow> history_kept (fst s) \<Longrightarrow> history_kept (fst t)"
  by (induction rule: store_step.induct)
    (auto simp: claim_history enqueue_history reclaim_history store_inv_def
      hb.keeps_history cp.keeps_history fl.keeps_history cn.keeps_history intro: claim_history)

lemma history_reach: "store_reach override False s \<Longrightarrow> history_kept (fst s)"
proof (induction rule: store_reach.induct)
  case store_start
  then show ?case by (simp add: history_kept_def empty_db_def)
next
  case (store_next s t)
  then show ?case using store_reach_inv by (blast intro: history_step)
qed

text \<open>
  As long as terminal rows are not deleted, no claim is rejected by the
  unique index of attempts: \<open>claimNext\<close> returns, and every open claim commits.
\<close>

theorem claims_never_rejected:
  assumes "store_reach override False (db, os)"
  shows "(\<exists>res. fst (claimNext override skip lock_free inp db) = Inr res) \<and>
         (\<forall>(inp, c) \<in> set os. fst (claim_one inp c db) = Inr (Claimed (claim_row inp c)))"
proof -
  note inv = reach_lease_inv [OF assms] and hist = history_reach [OF assms, unfolded fst_conv]
  note free = history_claim_free [OF inv hist]
  have "\<exists>res. fst (claimNext override skip lock_free inp db) = Inr res"
  proof (cases "claim_candidate override skip lock_free (c_now_ms inp) db")
    case None
    then show ?thesis by (simp add: claimNext_eq)
  next
    case (Some c)
    then show ?thesis using free [OF claim_candidate_Some(1) [OF Some]]
      by (simp add: claimNext_eq claim_one_eq)
  qed
  moreover have "fst (claim_one jnp c db) = Inr (Claimed (claim_row jnp c))"
    if "(jnp, c) \<in> set os" for jnp c
  proof -
    have "c \<in> set (jobs_current db)"
      using that store_reach_inv [OF assms] by (auto simp: store_inv_def open_ok_def)
    with free show ?thesis by (simp add: claim_one_eq)
  qed
  ultimately show ?thesis by blast
qed

theorem claims_never_rejected_witness:
  "store_reach None False (claimed_db, []) \<and>
   (\<exists>res. fst (claimNext None [] [] (worker_claim 30) claimed_db) = Inr res)"
  using claimed_reach claims_never_rejected [OF claimed_reach] by blast

section \<open>Keys that are used again\<close>

text \<open>
  Where rows come from: a step keeps every attempt, and a row after it is a new one of version 0,
  or one that was there with its version, or one that a claim has just raised.
\<close>

definition carried :: "pg_db \<Rightarrow> pg_db \<Rightarrow> bool" where
  "carried db db' \<longleftrightarrow>
     (\<forall>i v. attempt_taken i v db \<longrightarrow> attempt_taken i v db') \<and>
     (\<forall>r' \<in> set (jobs_current db'). r_claim_version r' = 0 \<or>
        (\<exists>r \<in> set (jobs_current db). r_job_key r = r_job_key r' \<and> r_claim_version r = r_claim_version r'))"

lemma carried_refl [simp]: "carried db db"
  by (auto simp: carried_def)

lemma carried_trans:
  assumes "carried a b" "carried b c" shows "carried a c"
  unfolding carried_def
proof (intro conjI allI impI ballI)
  show "attempt_taken i v c" if "attempt_taken i v a" for i v
    using that assms by (auto simp: carried_def)
  fix r assume "r \<in> set (jobs_current c)"
  with assms(2) consider "r_claim_version r = 0"
    | s where "s \<in> set (jobs_current b)" "r_job_key s = r_job_key r" "r_claim_version s = r_claim_version r"
    unfolding carried_def by blast
  then show "r_claim_version r = 0 \<or>
      (\<exists>s \<in> set (jobs_current a). r_job_key s = r_job_key r \<and> r_claim_version s = r_claim_version r)"
    using assms(1) unfolding carried_def by cases fastforce+
qed

lemma attempts_after_update: "keeps_claim g \<Longrightarrow> attempt_taken i v db \<Longrightarrow>
    job_attempts db' = update_where p g (job_attempts db) \<Longrightarrow> attempt_taken i v db'"
proof -
  assume g: "keeps_claim g" and att: "attempt_taken i v db" and db': "job_attempts db' = update_where p g (job_attempts db)"
  from att obtain a where a: "a \<in> set (job_attempts db)" "a_job_key a = i" "a_claim_version a = v"
    by (auto simp: attempt_taken_def)
  have "(if p a then g a else a) \<in> set (job_attempts db')"
    using imageI [OF a(1), of "\<lambda>r. if p r then g r else r"] by (simp add: db' set_update_where)
  moreover have "a_job_key (if p a then g a else a) = i" "a_claim_version (if p a then g a else a) = v"
    using a(2,3) g by (simp_all add: keeps_claim_def)
  ultimately show "attempt_taken i v db'" unfolding attempt_taken_def by blast
qed

lemma carried_lease_update: "keeps_lease f g \<Longrightarrow> carried db (lease_update k v f g db)"
  by (auto simp: carried_def keeps_lease_def keeps_identity_def set_update_where
      intro: attempts_after_update)

lemma carried_update_rows: "keeps_identity f \<Longrightarrow> carried db (update_rows p f db)"
  by (auto simp: carried_def keeps_identity_def set_update_where attempt_taken_def)

lemma carried_insert: "r_claim_version r = 0 \<Longrightarrow> carried db (insert_row r db)"
  by (auto simp: carried_def attempt_taken_def)

context fenced_op begin

lemma carried_op:
  assumes "lease_inv db" shows "carried db (op k v db)"
proof (cases rule: op_cases [OF assms, of k v])
  case (3 r s)
  then show ?thesis
    using carried_trans [OF carried_lease_update [OF op_eff] carried_insert] by (simp add: fresh_row_def)
qed (simp_all add: carried_lease_update op_eff)

end

lemma carried_enqueue: "carried db (snd (enqueue q db))"
  by (cases rule: enqueue_cases [of q db])
    (simp_all add: carried_update_rows coalesce_effect_keeps carried_insert)

lemma carried_reclaim:
  assumes "lease_inv db" shows "carried db (snd (reclaimExpiredLeases now db))"
proof -
  have "carried db (reclaim_one now r db')" if "carried db db'" for r db'
    using carried_trans [OF that carried_lease_update] by (simp add: reclaim_one_eq effects_keep_lease)
  with reclaim_induct [OF assms, of "carried db" now] show ?thesis by simp
qed

lemma carried_cleanup: "carried db (snd (cleanupTerminal now w ov db))"
proof (rule cleanup_induct)
  fix p and nd :: "nat \<times> pg_db"
  assume "carried db (snd nd)"
  moreover have "carried (snd nd) (snd (delete_rows p nd))"
    by (auto simp: carried_def delete_rows_current attempt_taken_def)
  ultimately show "carried db (snd (delete_rows p nd))" by (rule carried_trans)
qed simp

text \<open>A job whose key has an attempt of version 1 and whose rows, if any, are at version 0 again.\<close>

definition stuck :: "string \<Rightarrow> pg_db \<Rightarrow> bool" where
  "stuck k db \<longleftrightarrow> attempt_taken k 1 db \<and> (\<forall>r \<in> set (jobs_current db). r_job_key r = k \<longrightarrow> r_claim_version r = 0)"

definition first_attempts_kept :: "pg_db \<Rightarrow> bool" where
  "first_attempts_kept db \<longleftrightarrow>
     (\<forall>r \<in> set (jobs_current db). 0 < r_claim_version r \<longrightarrow> attempt_taken (r_job_key r) 1 db)"

lemma carried_keeps:
  assumes "carried db db'"
  shows "stuck k db \<Longrightarrow> stuck k db'" and "first_attempts_kept db \<Longrightarrow> first_attempts_kept db'"
  using assms unfolding carried_def stuck_def first_attempts_kept_def by fastforce+

lemma claim_keeps:
  assumes inv: "lease_inv db" and c: "c \<in> set (jobs_current db)"
  shows "stuck k db \<Longrightarrow> stuck k (snd (claim_one inp c db))"
    and "first_attempts_kept db \<Longrightarrow> first_attempts_kept (snd (claim_one inp c db))"
proof -
  have only: "s = c" if "s \<in> set (jobs_current db)" "r_job_key s = r_job_key c" for s
    using distinct_key_unique [OF lease_invD(1) [OF inv] that(1) c that(2)] .
  have new: "r \<in> set (jobs_current db) \<or> r = claim_row inp c" if "r \<in> set (jobs_current (claim_db inp c db))" for r
    using that only by (auto simp: set_update_where split: if_splits)
  have kept: "attempt_taken i v (claim_db inp c db)" if "attempt_taken i v db" for i v
    using that by (auto simp: attempt_taken_def)
  have added: "attempt_taken (r_job_key c) (r_claim_version c + 1) (claim_db inp c db)"
    by (auto simp: attempt_taken_def)
  show "stuck k (snd (claim_one inp c db))" if stuck: "stuck k db"
  proof (cases "r_job_key c = k")
    case True
    with stuck c have "attempt_taken (r_job_key c) (r_claim_version c + 1) db" by (auto simp: stuck_def)
    with stuck show ?thesis by (simp add: claim_one_eq)
  next
    case False
    have "r_claim_version r = 0" if r: "r \<in> set (jobs_current (claim_db inp c db))" "r_job_key r = k" for r
    proof -
      have "r \<noteq> claim_row inp c" using r(2) False by auto
      with new [OF r(1)] r(2) stuck show ?thesis by (auto simp: stuck_def)
    qed
    with stuck kept show ?thesis by (simp add: claim_one_eq stuck_def)
  qed
  show "first_attempts_kept (snd (claim_one inp c db))" if first: "first_attempts_kept db"
  proof -
    have "attempt_taken (r_job_key r) 1 (claim_db inp c db)"
      if r: "r \<in> set (jobs_current (claim_db inp c db))" "0 < r_claim_version r" for r
    proof (cases "r = claim_row inp c")
      case False
      with new [OF r(1)] r(2) first kept show ?thesis by (auto simp: first_attempts_kept_def)
    next
      case True
      show ?thesis
      proof (cases "r_claim_version c = 0")
        case zero: True
        with added True show ?thesis by simp
      next
        case False
        with r(2) True have "0 < r_claim_version c" by simp
        with first c kept True show ?thesis by (simp add: first_attempts_kept_def)
      qed
    qed
    with first show ?thesis by (simp add: claim_one_eq first_attempts_kept_def)
  qed
qed

lemma step_keeps:
  assumes "store_step override cleaning s t" "store_inv override s"
  shows "(stuck k (fst s) \<longrightarrow> stuck k (fst t)) \<and> (first_attempts_kept (fst s) \<longrightarrow> first_attempts_kept (fst t))"
  using assms
proof (induction rule: store_step.induct)
  case (s_commit inp c os db)
  then have "lease_inv db" "c \<in> set (jobs_current db)" by (auto simp: store_inv_def open_ok_def)
  from claim_keeps [OF this] show ?case by simp
qed (simp_all add: store_inv_def carried_keeps [OF carried_enqueue] carried_keeps [OF carried_reclaim]
    carried_keeps [OF carried_cleanup] carried_keeps [OF hb.carried_op] carried_keeps [OF cp.carried_op]
    carried_keeps [OF fl.carried_op] carried_keeps [OF cn.carried_op])

lemma first_attempts_reach: "store_reach override cleaning s \<Longrightarrow> first_attempts_kept (fst s)"
proof (induction rule: store_reach.induct)
  case store_start
  show ?case by (simp add: first_attempts_kept_def empty_db_def)
next
  case (store_next s t)
  with store_reach_inv step_keeps show ?case by blast
qed

lemma stuck_stays:
  assumes "(store_step override cleaning)\<^sup>*\<^sup>* s t" "store_reach override cleaning s" "stuck k (fst s)"
  shows "store_reach override cleaning t \<and> stuck k (fst t)"
  using assms
proof (induction rule: rtranclp_induct)
  case (step t u)
  then have t: "store_reach override cleaning t" "stuck k (fst t)" by blast+
  from step_keeps [OF step(2) store_reach_inv [OF t(1)]] t step(2) show ?case by (blast intro: store_next)
qed simp

text \<open>
  Property (C40): a job that was claimed and whose row retention has deleted cannot run again.
  Enqueueing its key, for a job without a family, is accepted and starts at claim version 0, while
  the attempt of version 1 is still recorded. In every state that other workers reach from there,
  each \<open>claimNext\<close> whose turn it is to claim the job fails with a unique violation and leaves the
  database as it was, so nothing ordered after it is claimed either.
\<close>

theorem reused_key_blocks_claims:
  assumes "store_reach override True (db, os)" "row_by_key k db = Some r" "0 < r_claim_version r"
    and deleted: "cleanupTerminal t w overrides db = (m, db1)" "row_by_key k db1 = None"
    and q: "q_job_key q = k" "q_job_family_key q = None"
    and later: "(store_step override True)\<^sup>*\<^sup>* (snd (enqueue q db1), os) (db2, os2)"
    and turn: "claim_candidate override skip lock_free (c_now_ms inp) db2 = Some c" "r_job_key c = k"
  shows "fst (enqueue q db1) = Inr (Created k None 0) \<and>
    claimNext override skip lock_free inp db2 =
      (Inl (Unique_violation ''ux_job_attempts_job_key_claim_version''), db2)"
proof -
  have db1: "db1 = snd (cleanupTerminal t w overrides db)" by (simp add: deleted(1))
  have "store_reach override True (db1, os)"
    unfolding db1 by (rule store_next [OF assms(1) s_cleanup]) simp
  then have reach: "store_reach override True (snd (enqueue q db1), os)"
    by (rule store_next [OF _ s_enqueue]) (simp add: merge_target_free_def q(2))
  have "r \<in> set (jobs_current db)" "r_job_key r = k" using row_by_key_Some [OF assms(2)] by simp_all
  with first_attempts_reach [OF assms(1)] assms(3) have "attempt_taken k 1 db" by (auto simp: first_attempts_kept_def)
  then have att: "attempt_taken k 1 db1" using carried_cleanup [of db t w overrides] unfolding db1 carried_def by blast
  have "\<not> job_key_taken k db1" using deleted(2) by (simp add: row_by_key_None)
  with att have "stuck k db1" by (auto simp: stuck_def job_key_taken_def)
  then have "stuck k (fst (snd (enqueue q db1), os))" using carried_keeps(1) [OF carried_enqueue] by simp
  from stuck_stays [OF later reach this] have stuck: "stuck k db2" by simp
  have "fst (enqueue q db1) = Inr (Created k None 0)"
    using deleted(2) q by (simp add: enqueue_eq rebuild_family_def family_taken_def)
  moreover have "r_claim_version c = 0" using claim_candidate_Some(1) [OF turn(1)] turn(2) stuck by (simp add: stuck_def)
  then have "attempt_taken (r_job_key c) (r_claim_version c + 1) db2" using stuck turn(2) by (simp add: stuck_def)
  ultimately show ?thesis using turn(1) by (simp add: claimNext_eq claim_one_eq)
qed

definition cleaned_db :: pg_db where
  "cleaned_db = snd (cleanupTerminal 5000 1000 []
     (snd (complete [] 30 ''memory.organize:s1'' 1 claimed_db)))"

theorem reused_key_blocks_claims_witness:
  "fst (claimNext None [] [''memory.organize:global''] (worker_claim 6000) (snd (enqueue organize_input cleaned_db))) =
   Inl (Unique_violation ''ux_job_attempts_job_key_claim_version'')"
proof -
  let ?done = "snd (complete [] 30 ''memory.organize:s1'' 1 claimed_db)"
  let ?r = "the (row_by_key ''memory.organize:s1'' ?done)" and ?db2 = "snd (enqueue organize_input cleaned_db)"
  have reach: "store_reach None True (?done, [])" by (rule store_next [OF claimed_reach s_complete])
  have r: "row_by_key ''memory.organize:s1'' ?done = Some ?r" "0 < r_claim_version ?r"
    "row_by_key ''memory.organize:s1'' cleaned_db = None"
    "q_job_key organize_input = ''memory.organize:s1''" "q_job_family_key organize_input = None"
    "claim_candidate None [] [''memory.organize:global''] (c_now_ms (worker_claim 6000)) ?db2 = Some (hd (jobs_current ?db2))"
    "r_job_key (hd (jobs_current ?db2)) = ''memory.organize:s1''"
    by code_simp+
  have del: "cleanupTerminal 5000 1000 [] ?done = (fst (cleanupTerminal 5000 1000 [] ?done), cleaned_db)"
    by (simp add: cleaned_db_def)
  show ?thesis
    using reused_key_blocks_claims [OF reach r(1,2) del r(3-5) rtranclp.rtrancl_refl r(6,7)] by simp
qed

section \<open>Thinker caps\<close>

lemma before_session [simp]:
  "before_substring '':session:'' (''cognition.thinker:session:'' @ sid) = Some ''cognition.thinker''"
  by (simp add: prefix_def)

text \<open>
  The store has an entry giving two concurrent thinkers to a session, but the
  keys of real sessions never match it, so every session has the default cap 1 whatever
  the configured override; the global key is still derived from them.
\<close>

theorem session_cap_is_one:
  assumes "sid \<noteq> ''{sessionId}''"
  shows "getConcurrencyCap override (''cognition.thinker:session:'' @ sid) = 1 \<and>
    deriveGlobalConcurrencyKey (''cognition.thinker:session:'' @ sid) = Some ''cognition.thinker:global''"
  using assms
  by (cases override)
    (simp_all add: getConcurrencyCap_def CONCURRENCY_KEY_CAPS_def deriveGlobalConcurrencyKey_def Let_def)

theorem session_cap_is_one_witness:
  "getConcurrencyCap (Some 4) (''cognition.thinker:session:'' @ ''s1'') = 1"
  using session_cap_is_one [of "''s1''" "Some 4"] by simp

definition thinker_input :: "string \<Rightarrow> enqueue_input" where
  "thinker_input sid =
     \<lparr>q_job_key = ''thinker:'' @ sid, q_job_type = Cognition_thinker, q_job_family_key = None,
      q_execution_class = Background_cognition_thinker,
      q_concurrency_key = ''cognition.thinker:session:'' @ sid, q_payload_schema_version = 1,
      q_payload_json = \<lparr>p_json = JObj [], p_triggerSource = [], p_triggerReason = [],
                        p_requestedAt = None\<rparr>,
      q_max_attempts = 3, q_now_ms = 10, q_next_attempt_at = None\<rparr>"

definition two_thinkers :: pg_db where
  "two_thinkers = snd (enqueue (thinker_input ''b'') (snd (enqueue (thinker_input ''a'') empty_db)))"

definition thinker_row :: "nat \<Rightarrow> job_row" where
  "thinker_row i = jobs_current two_thinkers ! i"

definition thinkers_claimed :: pg_db where
  "thinkers_claimed = snd (claim_one (worker_claim 20) (thinker_row 1)
     (snd (claim_one (worker_claim 20) (thinker_row 0) two_thinkers)))"

text \<open>
  The global cap of thinkers is not enforced between overlapping claims. With
  the cap set to 1, two claims for different sessions that are open at the same time both
  pass the count, since neither lock is shared, and two thinkers run.
\<close>

theorem global_thinker_cap_exceeded:
  "\<exists>db. store_reach (Some 1) False (db, []) \<and>
     running_of_type Cognition_thinker db = 2 \<and>
     getConcurrencyCap (Some 1) ''cognition.thinker:global'' = 1 \<and>
     map (\<lambda>r. deriveGlobalConcurrencyKey (r_concurrency_key r)) (jobs_current db) =
       [Some ''cognition.thinker:global'', Some ''cognition.thinker:global'']"
proof (intro exI [of _ thinkers_claimed] conjI)
  let ?o0 = "(worker_claim 20, thinker_row 0)" and ?o1 = "(worker_claim 20, thinker_row 1)"
  let ?lf0 = "[''cognition.thinker:session:a'']" and ?lf1 = "[''cognition.thinker:session:b'']"
  have r0: "thinker_row 0 \<in> set (jobs_current two_thinkers)"
    "claim_ready (c_now_ms (worker_claim 20)) (thinker_row 0)"
    "r_job_key (thinker_row 0) \<notin> set (locked_rows [])" "set ?lf0 \<inter> set (held_keys []) = {}"
    "claimable (Some 1) ?lf0 two_thinkers (thinker_row 0)"
    by code_simp+
  have r1: "thinker_row 1 \<in> set (jobs_current two_thinkers)"
    "claim_ready (c_now_ms (worker_claim 20)) (thinker_row 1)"
    "r_job_key (thinker_row 1) \<notin> set (locked_rows ([] @ [?o0]))"
    "set ?lf1 \<inter> set (held_keys ([] @ [?o0])) = {}"
    "claimable (Some 1) ?lf1 two_thinkers (thinker_row 1)"
    by code_simp+
  have "store_reach (Some 1) False (two_thinkers, [])"
    unfolding two_thinkers_def by (intro reach_enqueue store_start)
  from store_next [OF store_next [OF this s_open [OF r0]] s_open [OF r1]]
  have open2: "store_reach (Some 1) False (two_thinkers, ([] @ [?o0]) @ [?o1])" .
  have in0: "?o0 \<in> set (([] @ [?o0]) @ [?o1])" by simp
  note c0 = store_next [OF open2 s_commit [OF in0]]
  have rem: "remove1 ?o0 (([] @ [?o0]) @ [?o1]) = [?o1]" by simp
  have in1: "?o1 \<in> set [?o1]" by simp
  from store_next [OF c0 [unfolded rem] s_commit [OF in1]]
  show "store_reach (Some 1) False (thinkers_claimed, [])"
    by (simp add: thinkers_claimed_def)
  show "running_of_type Cognition_thinker thinkers_claimed = 2"
    "getConcurrencyCap (Some 1) ''cognition.thinker:global'' = 1"
    "map (\<lambda>r. deriveGlobalConcurrencyKey (r_concurrency_key r)) (jobs_current thinkers_claimed) =
       [Some ''cognition.thinker:global'', Some ''cognition.thinker:global'']"
    by code_simp+
qed

end
