(* ===== verification/Pg_Rebuild.thy ===== *)
theory Pg_Rebuild
  imports Pg_Workers
begin

text \<open>
  Coalescing of \<open>search.rebuild\<close> requests, idempotence of enqueueing, and the two sweeps
  that touch many rows: reclaiming expired leases and deleting old terminal rows.
\<close>

section \<open>Family state survives storage\<close>

definition nonneg_counts :: "(string, int) js_map \<Rightarrow> bool" where
  "nonneg_counts m = (\<forall>e \<in> set m. 0 \<le> snd e)"

definition wf_family :: "family_state \<Rightarrow> bool" where
  "wf_family st \<longleftrightarrow> 0 \<le> coalescedRequestCount st \<and>
     nonneg_counts (triggerSourceCounts st) \<and> nonneg_counts (triggerReasonCounts st)"

lemma counter_entries_counts:
  "nonneg_counts m \<Longrightarrow> counter_entries (map (\<lambda>(k, n). (k, JNum (Fin (of_int n)))) m) = m"
  by (induction m) (auto simp: nonneg_counts_def)

lemma counter_entries_nonneg: "(k, n) \<in> set (counter_entries kvs) \<Longrightarrow> 0 \<le> n"
  by (induction kvs rule: counter_entries.induct) (auto split: option.splits if_splits)

lemma toCounterMap_nonneg: "(k, n) \<in> set (toCounterMap v) \<Longrightarrow> 0 \<le> n"
  by (cases v rule: toCounterMap.cases) (auto dest: counter_entries_nonneg)

lemma wf_normalize_object: "wf_family (normalize_object raw)"
  by (auto simp: wf_family_def normalize_object_def nonneg_counts_def toCounterMap_nonneg
      split: option.splits)

lemma wf_empty_family: "wf_family empty_family_state"
  by (simp add: wf_family_def empty_family_state_def nonneg_counts_def)

lemma wf_normalize: "wf_family (normalizeSearchRebuildFamilyState v)"
  by (induction v rule: normalizeSearchRebuildFamilyState.induct)
    (simp_all add: wf_normalize_object wf_empty_family)

lemma normalize_family_jsonb:
  "wf_family st \<Longrightarrow> normalizeSearchRebuildFamilyState (family_jsonb st) = st"
  by (cases st; cases "latestRequestedAt st")
    (auto simp: normalize_object_def family_json_def counts_json_def get_prop_def
      counter_entries_counts wf_family_def)

text \<open>
  A family state written to its column and read back is the same state, in
  spite of the checks and roundings of the reader, and whatever is read back is well formed.
\<close>

theorem family_state_roundtrip:
  "wf_family (normalizeSearchRebuildFamilyState v) \<and>
   (wf_family st \<longrightarrow> normalizeSearchRebuildFamilyState (family_jsonb st) = st)"
  using wf_normalize normalize_family_jsonb by blast

definition sample_family :: family_state where
  "sample_family =
     \<lparr>rerunRequested = True, coalescedRequestCount = 2, latestRequestedAt = Some 7,
      triggerSourceCounts = [(''manual_cli'', 3)], triggerReasonCounts = [(''repair'', 1)]\<rparr>"

theorem family_state_roundtrip_witness:
  "normalizeSearchRebuildFamilyState (family_jsonb sample_family) = sample_family"
proof -
  have "wf_family sample_family" by (simp add: wf_family_def sample_family_def nonneg_counts_def)
  with family_state_roundtrip [of "JText None" sample_family] show ?thesis by blast
qed

lemma count_of_nonneg: "nonneg_counts m \<Longrightarrow> 0 \<le> count_of m k"
  by (force simp: count_of_def nonneg_counts_def split: option.split dest: map_of_SomeD)

lemma update_nonneg: "nonneg_counts m \<Longrightarrow> 0 \<le> x \<Longrightarrow> nonneg_counts (AList.update s x m)"
  by (induction m) (auto simp: nonneg_counts_def)

lemma bump_nonneg: "nonneg_counts m \<Longrightarrow> nonneg_counts (bump s m)"
  using count_of_nonneg [of m s] by (simp add: bump_def update_nonneg)

lemma wf_coalesced: "wf_family (buildCoalescedSearchRebuildFamilyState e p s t)"
  using wf_normalize [of e]
  by (simp add: wf_family_def buildCoalescedSearchRebuildFamilyState_def Let_def bump_nonneg)

section \<open>Requests that arrive during a run\<close>

text \<open>What merging does to the flag: a running job is rerun for a reason it has not counted.\<close>

lemma coalesced_rerun:
  "rerunRequested (buildCoalescedSearchRebuildFamilyState e p Pg_running t) \<longleftrightarrow>
     rerunRequested (normalizeSearchRebuildFamilyState e) \<or>
     count_of (triggerReasonCounts (normalizeSearchRebuildFamilyState e)) (p_triggerReason p) \<le> 0"
  by (auto simp: buildCoalescedSearchRebuildFamilyState_def Let_def not_less)

lemma coalesce_effect_sel [simp]:
  "r_job_key (coalesce_effect q a r) = r_job_key r"
  "r_job_type (coalesce_effect q a r) = r_job_type r"
  "r_job_family_key (coalesce_effect q a r) = r_job_family_key r"
  "r_claim_version (coalesce_effect q a r) = r_claim_version r"
  "r_status (coalesce_effect q a r) = r_status r"
  "normalizeSearchRebuildFamilyState (r_family_state_json (coalesce_effect q a r)) =
     buildCoalescedSearchRebuildFamilyState (r_family_state_json a) (q_payload_json q)
       (r_status a) (q_now_ms q)"
  by (simp_all add: coalesce_effect_def normalize_family_jsonb wf_coalesced del:
      normalizeSearchRebuildFamilyState.simps)

lemma job_keys_update_where:
  "(\<And>r. r_job_key (g r) = r_job_key r) \<Longrightarrow>
   r_job_key ` set (update_where p g t) = r_job_key ` set t"
  using arg_cong [OF map_update_where [of p r_job_key g t], of set] by simp

lemma taken_after_update:
  "(\<And>r. r_job_key (g r) = r_job_key r) \<Longrightarrow> job_key_taken i (update_rows p g db) = job_key_taken i db"
  "(\<And>r. r_job_key (g r) = r_job_key r) \<Longrightarrow> job_key_taken i (lease_update k v g h db) = job_key_taken i db"
  by (simp_all add: job_key_taken_iff job_keys_update_where)

text \<open>After its only active row has completed, a family has no active row.\<close>

lemma family_free_after:
  assumes con: "distinct (active_family_keys db)" "distinct (map r_job_key (jobs_current db))"
    and r: "r \<in> set (jobs_current db)" "fence k v r" "r_job_family_key r = Some f"
  shows "\<not> family_taken (Some f) (completed now k v db)"
proof
  have fin: "\<not> pg_active (r_status (finish_row Pg_succeeded now s))" for s
    by (simp add: finish_row_def release_def)
  assume "family_taken (Some f) (completed now k v db)"
  then obtain s where s: "s \<in> set (jobs_current db)" "r_job_family_key s = Some f"
      "pg_active (r_status s)" "\<not> fence k v s"
    using fin by (auto simp: family_taken_def set_update_where split: if_splits)
  with r have "s \<noteq> r" by blast
  have "pg_active (r_status r)" using r(2) by (simp add: fence_def)
  with con(1) r(1,3) s(1-3) \<open>s \<noteq> r\<close> show False
    unfolding active_family_keys_def
  proof (induction "jobs_current db" arbitrary: db)
    case (Cons x xs)
    have eq: "jobs_current db = x # xs" using Cons(2) by simp
    have "f \<in> set (List.map_filter (\<lambda>r. if pg_active (r_status r) then r_job_family_key r else None) xs)"
      if "x = r \<or> x = s"
      using that Cons.prems unfolding eq in_map_filter by auto
    moreover have "f \<notin> set (List.map_filter (\<lambda>r. if pg_active (r_status r) then r_job_family_key r else None) xs)"
      if "x = r \<or> x = s"
      using that Cons.prems unfolding eq by (auto simp: List.map_filter_simps)
    ultimately have "x \<noteq> r" "x \<noteq> s" by blast+
    with Cons.prems show ?case
      unfolding eq
      by (intro Cons(1) [of "db\<lparr>jobs_current := xs\<rparr>"])
        (auto simp: List.map_filter_simps split: option.splits if_splits)
  qed simp
qed

text \<open>
  A request merged into a running row leaves that row fenced by its claim, and its
  completion has the key and the family free for a successor.
\<close>

lemma coalesced_run:
  fixes q :: enqueue_input
  assumes "lease_inv db" "active_family_row f db = Some active" "fence k v active"
    and "\<not> job_key_taken (buildSearchRebuildSuccessorJobKey uuid f) db"
  defines "db' \<equiv> update_rows (\<lambda>r. r_job_key r = k) (coalesce_effect q active) db"
  shows "fenced_row k v db' = Some (coalesce_effect q active active)"
    and "\<not> job_key_taken (buildSearchRebuildSuccessorJobKey uuid f) (completed now k v db')"
    and "\<not> family_taken (Some f) (completed now k v db')"
proof -
  let ?c = "coalesce_effect q active"
  note a = active_family_row_Some [OF assms(2)]
  have k: "r_job_key active = k" "r_claim_version active = v" "r_status active = Pg_running"
    using assms(3) by (auto simp: fence_def)
  have inv': "lease_inv db'" unfolding db'_def
    using assms(1) by (rule lease_inv_update_rows) (simp_all add: keeps_identity_def coalesce_effect_def)
  have r: "?c active \<in> set (jobs_current db')" "fence k v (?c active)"
    using a k by (auto simp: db'_def fence_def intro: in_update_where_hit)
  obtain r' where r': "fenced_row k v db' = Some r'"
    using r fenced_row_None by (metis option.exhaust)
  from fenced_row_Some [OF this] r have "r' = ?c active"
    by (intro distinct_key_unique [OF lease_invD(1) [OF inv']]) (auto simp: fence_def)
  with r' show "fenced_row k v db' = Some (?c active)" by simp
  show "\<not> job_key_taken (buildSearchRebuildSuccessorJobKey uuid f) (completed now k v db')"
    using assms(4) by (simp add: db'_def taken_after_update finish_row_def release_def)
  show "\<not> family_taken (Some f) (completed now k v db')"
    using a r by (intro family_free_after [OF lease_invD(2,1) [OF inv']]) auto
qed

lemma inserted_row_found: "\<not> job_key_taken (r_job_key s) db \<Longrightarrow> row_by_key (r_job_key s) (insert_row s db) = Some s"
proof -
  assume "\<not> job_key_taken (r_job_key s) db"
  then have "find (\<lambda>r. r_job_key r = r_job_key s) (jobs_current db) = None"
    by (simp add: find_None_iff job_key_taken_def)
  then show ?thesis by (simp add: row_by_key_def find_in_append)
qed

lemma successor_family_state:
  "normalizeSearchRebuildFamilyState (r_family_state_json (successor_row uuid f now r)) =
   (normalizeSearchRebuildFamilyState (r_family_state_json r))\<lparr>rerunRequested := False, coalescedRequestCount := 0\<rparr>"
proof -
  have "wf_family (buildSearchRebuildSuccessorFamilyState (r_family_state_json r))"
    using wf_normalize [of "r_family_state_json r"]
    by (simp add: wf_family_def buildSearchRebuildSuccessorFamilyState_def Let_def)
  then show ?thesis
    by (simp add: successor_row_def normalize_family_jsonb buildSearchRebuildSuccessorFamilyState_def Let_def
        del: normalizeSearchRebuildFamilyState.simps)
qed

text \<open>
  Property (C38): a rebuild request that arrives while a job of its family runs is merged
  into it, and when that claim completes the job is succeeded by a new pending job of the
  family exactly if a rerun was already wanted or the running job had not yet counted the
  request's reason. The successor starts with the merged counters and no rerun request.
\<close>

theorem rebuild_request_during_run:
  assumes "lease_inv db"
    and "rebuild_family q = Some f" "row_by_key (q_job_key q) db = None"
    and "active_family_row f db = Some active" "fence k v active"
    and "r_job_type active = Search_rebuild"
    and "\<not> job_key_taken (buildSearchRebuildSuccessorJobKey uuid f) db"
  shows "\<exists>db' db''. enqueue q db = (Inr (Coalesced (q_job_key q) f k), db') \<and>
     complete uuid now k v db' = (Inr (Done now), db'') \<and>
     (let old = normalizeSearchRebuildFamilyState (r_family_state_json active);
          merged = buildCoalescedSearchRebuildFamilyState (r_family_state_json active)
                     (q_payload_json q) Pg_running (q_now_ms q);
          succ = row_by_key (buildSearchRebuildSuccessorJobKey uuid f) db''
      in if rerunRequested old \<or>
            count_of (triggerReasonCounts old) (p_triggerReason (q_payload_json q)) \<le> 0
         then \<exists>s. succ = Some s \<and> r_status s = Pg_pending \<and> r_job_family_key s = Some f \<and>
                r_next_attempt_at s = now \<and>
                normalizeSearchRebuildFamilyState (r_family_state_json s) =
                  merged\<lparr>rerunRequested := False, coalescedRequestCount := 0\<rparr>
         else succ = None)"
proof -
  have k: "r_job_key active = k" "r_status active = Pg_running" using assms(5) by (auto simp: fence_def)
  have f: "f \<noteq> []" using assms(2) by (auto simp: rebuild_family_def split: if_splits)
  let ?c = "coalesce_effect q active" and ?succ = "buildSearchRebuildSuccessorJobKey uuid f"
  let ?db = "update_rows (\<lambda>r. r_job_key r = k) ?c db"
  let ?merged = "buildCoalescedSearchRebuildFamilyState (r_family_state_json active)
      (q_payload_json q) Pg_running (q_now_ms q)"
  have enq: "enqueue q db = (Inr (Coalesced (q_job_key q) f k), ?db)"
    using assms(2-4) k by (simp add: enqueue_eq)
  note run = coalesced_run [OF assms(1,4,5,7)]
  have fs: "normalizeSearchRebuildFamilyState (r_family_state_json (?c active)) = ?merged"
    using k by simp
  have rerun: "rerun_family (?c active) = (if rerunRequested ?merged then Some f else None)"
    using active_family_row_Some [OF assms(4)] f assms(6) fs by (simp add: rerun_family_def)
  show ?thesis
  proof (cases "rerunRequested ?merged")
    case True
    let ?s = "successor_row uuid f now (?c active)"
    have cp: "complete uuid now k v ?db = (Inr (Done now), insert_row ?s (completed now k v ?db))"
      using complete_hit [OF run(1), of uuid now] True rerun run(2,3) by (simp add: Let_def)
    have "row_by_key ?succ (insert_row ?s (completed now k v ?db)) = Some ?s"
      using inserted_row_found [of ?s] run(2) by simp
    moreover have "r_next_attempt_at ?s = now" by (simp add: successor_row_def)
    ultimately show ?thesis
      using enq cp True coalesced_rerun successor_family_state [of uuid f now "?c active"] fs
      by (intro exI [of _ ?db] exI [of _ "insert_row ?s (completed now k v ?db)"]) (simp add: Let_def)
  next
    case False
    have cp: "complete uuid now k v ?db = (Inr (Done now), completed now k v ?db)"
      using complete_hit [OF run(1), of uuid now] False rerun by simp
    have "row_by_key ?succ (completed now k v ?db) = None"
      using run(2) row_by_key_None by blast
    then show ?thesis
      using enq cp False coalesced_rerun
      by (intro exI [of _ ?db] exI [of _ "completed now k v ?db"]) (simp add: Let_def)
  qed
qed

definition rebuild_input :: "string \<Rightarrow> string \<Rightarrow> enqueue_input" where
  "rebuild_input key reason =
     \<lparr>q_job_key = key, q_job_type = Search_rebuild, q_job_family_key = Some ''search.rebuild:world'',
      q_execution_class = Background_search_rebuild,
      q_concurrency_key = ''search.rebuild:global'', q_payload_schema_version = 1,
      q_payload_json = \<lparr>p_json = JObj [], p_triggerSource = ''manual_cli'', p_triggerReason = reason,
                        p_requestedAt = None\<rparr>,
      q_max_attempts = 3, q_now_ms = 10, q_next_attempt_at = None\<rparr>"

definition rebuild_running :: pg_db where
  "rebuild_running = snd (claimNext None [] [''search.rebuild:global''] (worker_claim 20)
     (snd (enqueue (rebuild_input ''search.rebuild:world:req:1'' ''repair'') empty_db)))"

lemma rebuild_running_inv: "lease_inv rebuild_running"
proof -
  have "store_reach None False (rebuild_running, [])"
    unfolding rebuild_running_def by (intro reach_claimNext reach_enqueue store_start)
  then show ?thesis by (rule reach_lease_inv)
qed

theorem rebuild_request_during_run_witness:
  "\<exists>db'. enqueue (rebuild_input ''search.rebuild:world:req:2'' ''fact_update'') rebuild_running =
       (Inr (Coalesced ''search.rebuild:world:req:2'' ''search.rebuild:world'' ''search.rebuild:world:req:1''), db') \<and>
     (\<exists>s. row_by_key (buildSearchRebuildSuccessorJobKey ''u'' ''search.rebuild:world'')
          (snd (complete ''u'' 50 ''search.rebuild:world:req:1'' 1 db')) = Some s \<and> r_status s = Pg_pending)"
proof -
  let ?q = "rebuild_input ''search.rebuild:world:req:2'' ''fact_update''"
  let ?a = "hd (jobs_current rebuild_running)"
  have hyps: "rebuild_family ?q = Some ''search.rebuild:world''"
    "row_by_key (q_job_key ?q) rebuild_running = None"
    "active_family_row ''search.rebuild:world'' rebuild_running = Some ?a"
    "fence ''search.rebuild:world:req:1'' 1 ?a" "r_job_type ?a = Search_rebuild"
    "\<not> job_key_taken (buildSearchRebuildSuccessorJobKey ''u'' ''search.rebuild:world'') rebuild_running"
    by code_simp+
  have fresh: "count_of (triggerReasonCounts (normalizeSearchRebuildFamilyState (r_family_state_json ?a)))
      (p_triggerReason (q_payload_json ?q)) \<le> 0"
    by code_simp
  have key: "q_job_key ?q = ''search.rebuild:world:req:2''" by (simp add: rebuild_input_def)
  from rebuild_request_during_run [OF rebuild_running_inv hyps, of 50] fresh
  show ?thesis by (auto simp: Let_def key)
qed

section \<open>Enqueueing\<close>

text \<open>
  Enqueueing is idempotent and total. Without interference it fails only on
  the family index, for a job that is not a rebuild request; a key that is taken is
  reported as a duplicate and nothing changes; after a created or duplicate result exactly
  one row carries the key, and enqueueing the key again is a duplicate of that row.
\<close>

theorem enqueue_once:
  "(case fst (enqueue q db) of
        Inl e \<Rightarrow> e = Unique_violation ''idx_jobs_current_family_active'' \<and> rebuild_family q = None \<and>
          family_taken (q_job_family_key q) db \<and> snd (enqueue q db) = db
      | Inr (Coalesced k f k') \<Rightarrow> k = q_job_key q \<and> \<not> job_key_taken k (snd (enqueue q db)) \<and>
          job_key_taken k' db \<and> length (jobs_current (snd (enqueue q db))) = length (jobs_current db)
      | Inr (Created k f v) \<Rightarrow> \<not> job_key_taken k db \<and>
          count_where (\<lambda>r. r_job_key r = k) (jobs_current (snd (enqueue q db))) = 1 \<and>
          (\<exists>r. row_by_key k (snd (enqueue q db)) = Some r \<and> r_status r = Pg_pending)
      | Inr (Duplicate k f s v) \<Rightarrow> job_key_taken k db \<and> snd (enqueue q db) = db) \<and>
    (job_key_taken (q_job_key q) (snd (enqueue q db)) \<longrightarrow>
       (\<exists>r. row_by_key (q_job_key q) (snd (enqueue q db)) = Some r \<and>
          enqueue q (snd (enqueue q db)) = (Inr (duplicate_result q r), snd (enqueue q db))))"
proof (intro conjI impI)
  assume "job_key_taken (q_job_key q) (snd (enqueue q db))"
  then obtain r where "row_by_key (q_job_key q) (snd (enqueue q db)) = Some r"
    using row_by_key_None by blast
  then show "\<exists>r. row_by_key (q_job_key q) (snd (enqueue q db)) = Some r \<and>
      enqueue q (snd (enqueue q db)) = (Inr (duplicate_result q r), snd (enqueue q db))"
    by (simp add: enqueue_eq)
next
  have inserted: "count_where (\<lambda>r. r_job_key r = q_job_key q) (jobs_current (insert_row (pending_row q j) db)) = 1 \<and>
      (\<exists>r. row_by_key (q_job_key q) (insert_row (pending_row q j) db) = Some r \<and> r_status r = Pg_pending)"
    if "\<not> job_key_taken (q_job_key q) db" for j
  proof -
    have "\<forall>r \<in> set (jobs_current db). r_job_key r \<noteq> q_job_key q"
      using that by (auto simp: job_key_taken_def)
    then have "count_where (\<lambda>r. r_job_key r = q_job_key q) (jobs_current db) = 0"
      "find (\<lambda>r. r_job_key r = q_job_key q) (jobs_current db) = None"
      by (auto simp: count_where_0_iff find_None_iff)
    then show ?thesis by (simp add: table_simps row_by_key_def find_in_append)
  qed
  show "case fst (enqueue q db) of
        Inl e \<Rightarrow> e = Unique_violation ''idx_jobs_current_family_active'' \<and> rebuild_family q = None \<and>
          family_taken (q_job_family_key q) db \<and> snd (enqueue q db) = db
      | Inr (Coalesced k f k') \<Rightarrow> k = q_job_key q \<and> \<not> job_key_taken k (snd (enqueue q db)) \<and>
          job_key_taken k' db \<and> length (jobs_current (snd (enqueue q db))) = length (jobs_current db)
      | Inr (Created k f v) \<Rightarrow> \<not> job_key_taken k db \<and>
          count_where (\<lambda>r. r_job_key r = k) (jobs_current (snd (enqueue q db))) = 1 \<and>
          (\<exists>r. row_by_key k (snd (enqueue q db)) = Some r \<and> r_status r = Pg_pending)
      | Inr (Duplicate k f s v) \<Rightarrow> job_key_taken k db \<and> snd (enqueue q db) = db"
  proof (cases "row_by_key (q_job_key q) db")
    case (Some r)
    then have "job_key_taken (q_job_key q) db" using row_by_key_None [of "q_job_key q" db] by simp
    with Some show ?thesis by (simp add: enqueue_eq duplicate_result_def)
  next
    case None
    then have free: "\<not> job_key_taken (q_job_key q) db" by (simp add: row_by_key_None)
    show ?thesis
    proof (cases "rebuild_family q")
      case plain: None
      then show ?thesis
        using None free inserted [OF free]
        by (cases "family_taken (q_job_family_key q) db") (simp_all add: enqueue_eq)
    next
      case (Some f)
      show ?thesis
      proof (cases "active_family_row f db")
        case no: None
        then show ?thesis using None Some free inserted [OF free] by (simp add: enqueue_eq)
      next
        case active: (Some a)
        then have "job_key_taken (r_job_key a) db"
          by (auto simp: job_key_taken_def dest: active_family_row_Some)
        then show ?thesis using None Some active free by (simp add: enqueue_eq taken_after_update)
      qed
    qed
  qed
qed

theorem enqueue_once_witness:
  "\<exists>r. row_by_key ''memory.organize:s1'' claimed_db = Some r \<and>
     enqueue organize_input claimed_db = (Inr (duplicate_result organize_input r), claimed_db)"
proof -
  have taken: "job_key_taken (q_job_key organize_input) (snd (enqueue organize_input claimed_db))"
    and same: "snd (enqueue organize_input claimed_db) = claimed_db"
    and key: "q_job_key organize_input = ''memory.organize:s1''"
    by code_simp+
  from conjunct2 [OF enqueue_once [of organize_input claimed_db], rule_format, OF taken]
  show ?thesis unfolding same key .
qed

section \<open>Retention\<close>

definition retention_window :: "int \<Rightarrow> (string, int) js_map \<Rightarrow> job_row \<Rightarrow> int" where
  "retention_window defaultWindowMs overrides r =
     (case r_job_family_key r of
        None \<Rightarrow> defaultWindowMs
      | Some f \<Rightarrow> (case map_of overrides f of Some w \<Rightarrow> w | None \<Rightarrow> defaultWindowMs))"

lemma delete_rows_total:
  "fst (delete_rows p nd) + length (jobs_current (snd (delete_rows p nd))) =
   fst nd + length (jobs_current (snd nd))"
  using sum_length_filter_compl [of p "jobs_current (snd nd)"]
  by (simp add: delete_rows_def delete_where_def count_where_def)

lemma fold_delete_rows:
  "jobs_current (snd (fold (\<lambda>(k, w). delete_rows (\<lambda>r. p w r \<and> r_job_family_key r = Some k)) os nd)) =
   filter (\<lambda>r. \<forall>(k, w) \<in> set os. \<not> (p w r \<and> r_job_family_key r = Some k)) (jobs_current (snd nd))"
  by (induction os arbitrary: nd) (auto simp: delete_rows_current case_prod_unfold intro: filter_cong)

text \<open>
  Cleanup deletes exactly the terminal rows that ended before the window of
  their family (the override if there is one, else the default), keeps the order of the
  others and the whole attempt history, and returns how many rows it deleted.
\<close>

theorem cleanup_exact:
  assumes "distinct (map fst overrides)"
  shows "jobs_current (snd (cleanupTerminal now d overrides db)) =
      filter (\<lambda>r. \<not> terminal_before (now - retention_window d overrides r) r) (jobs_current db) \<and>
    job_attempts (snd (cleanupTerminal now d overrides db)) = job_attempts db \<and>
    fst (cleanupTerminal now d overrides db) +
      length (jobs_current (snd (cleanupTerminal now d overrides db))) = length (jobs_current db)"
proof (intro conjI)
  let ?res = "cleanupTerminal now d overrides db"
  have "job_attempts (snd ?res) = job_attempts db \<and> fst ?res + length (jobs_current (snd ?res)) = length (jobs_current db)"
    by (rule cleanup_induct) (auto simp: delete_rows_current(2) delete_rows_total)
  then show "job_attempts (snd ?res) = job_attempts db"
    "fst ?res + length (jobs_current (snd ?res)) = length (jobs_current db)" by auto
  have covered: "\<not> (terminal_before (now - d) r \<and>
          (case r_job_family_key r of None \<Rightarrow> True | Some f \<Rightarrow> f \<notin> set (map fst overrides))) \<and>
      (\<forall>(k, w) \<in> set overrides. \<not> (terminal_before (now - w) r \<and> r_job_family_key r = Some k))
    \<longleftrightarrow> \<not> terminal_before (now - retention_window d overrides r) r" for r
  proof (cases "r_job_family_key r")
    case None
    then show ?thesis by (auto simp: retention_window_def)
  next
    case (Some f)
    show ?thesis
    proof (cases "map_of overrides f")
      case None
      then have "f \<notin> set (map fst overrides)" by (simp add: map_of_eq_None_iff)
      moreover from this have "\<forall>(k, w) \<in> set overrides. k \<noteq> f" by force
      ultimately show ?thesis using Some None by (auto simp: retention_window_def)
    next
      case w: (Some w)
      note mem = map_of_SomeD [OF w]
      have uniq: "x = w" if "(f, x) \<in> set overrides" for x
        using map_of_is_SomeI [OF assms that] w by simp
      have "(\<forall>(k, x) \<in> set overrides. \<not> (terminal_before (now - x) r \<and> r_job_family_key r = Some k))
          \<longleftrightarrow> \<not> terminal_before (now - w) r"
      proof
        assume kept: "\<not> terminal_before (now - w) r"
        show "\<forall>(k, x) \<in> set overrides. \<not> (terminal_before (now - x) r \<and> r_job_family_key r = Some k)"
        proof
          fix p
          assume "p \<in> set overrides"
          with uniq [of "snd p"] have "fst p = f \<Longrightarrow> snd p = w" by (cases p) simp
          with kept Some show "case p of (k, x) \<Rightarrow> \<not> (terminal_before (now - x) r \<and> r_job_family_key r = Some k)"
            by (cases p) auto
        qed
      qed (use mem Some in blast)
      moreover have "f \<in> set (map fst overrides)"
        using map_of_SomeD [OF w] by (metis fst_conv image_eqI list.set_map)
      ultimately show ?thesis using Some w by (simp add: retention_window_def)
    qed
  qed
  show "jobs_current (snd ?res) =
      filter (\<lambda>r. \<not> terminal_before (now - retention_window d overrides r) r) (jobs_current db)"
  proof (cases "overrides = []")
    case True
    then have "retention_window d overrides r = d" for r
      by (simp add: retention_window_def split: option.split)
    with True show ?thesis by (simp add: cleanupTerminal_def delete_rows_current)
  next
    case False
    then show ?thesis
      using covered
      by (simp add: cleanupTerminal_def Let_def fold_delete_rows [where p = "\<lambda>w r. terminal_before (now - w) r"]
          delete_rows_current del: set_map)
  qed
qed

theorem cleanup_exact_witness:
  "fst (cleanupTerminal 5000 1000 [(''search.rebuild:world'', 9000)]
     (snd (complete [] 30 ''memory.organize:s1'' 1 claimed_db))) = 1 \<and>
   jobs_current (snd (cleanupTerminal 5000 1000 [(''search.rebuild:world'', 9000)]
     (snd (complete [] 30 ''memory.organize:s1'' 1 claimed_db)))) = []"
proof -
  let ?db = "snd (complete [] 30 ''memory.organize:s1'' 1 claimed_db)"
  have d: "distinct (map fst [(''search.rebuild:world'', 9000::int)])" by simp
  have "filter (\<lambda>r. \<not> terminal_before (5000 - retention_window 1000 [(''search.rebuild:world'', 9000)] r) r)
      (jobs_current ?db) = []" "length (jobs_current ?db) = 1"
    by code_simp+
  note none = this(1) and one = this(2)
  note exact = cleanup_exact [OF d, of 5000 1000 ?db]
  have gone: "jobs_current (snd (cleanupTerminal 5000 1000 [(''search.rebuild:world'', 9000)] ?db)) = []"
    by (rule trans [OF conjunct1 [OF exact] none])
  from exact [THEN conjunct2, THEN conjunct2, unfolded gone one]
  have "fst (cleanupTerminal 5000 1000 [(''search.rebuild:world'', 9000)] ?db) = 1"
    by (simp only: list.size add_0_right)
  with gone show ?thesis by blast
qed

section \<open>Expired leases\<close>

lemma reclaim_others:
  "r \<in> set (jobs_current db) \<Longrightarrow> \<forall>s \<in> set rs. r_job_key s \<noteq> r_job_key r \<Longrightarrow>
   r \<in> set (jobs_current (fold (reclaim_one now) rs db))"
proof (induction rs arbitrary: db)
  case (Cons x rs)
  have "\<not> fence (r_job_key x) (r_claim_version x) r"
    using Cons.prems(2) by (auto simp: fence_def)
  then have "r \<in> set (jobs_current (reclaim_one now x db))"
    using Cons.prems(1) by (simp add: reclaim_one_eq in_update_where_miss)
  with Cons show ?case by simp
qed simp

lemma reclaim_hit:
  assumes "distinct (map r_job_key rs)" "r \<in> set rs" "r \<in> set (jobs_current db)" "r_status r = Pg_running"
  shows "reclaim_row now r \<in> set (jobs_current (fold (reclaim_one now) rs db))"
  using assms
proof (induction rs arbitrary: db)
  case (Cons x rs)
  show ?case
  proof (cases "x = r")
    case True
    have "reclaim_row now r \<in> set (jobs_current (reclaim_one now r db))"
      using Cons.prems by (simp add: reclaim_one_eq fence_def in_update_where_hit)
    moreover have "\<forall>s \<in> set rs. r_job_key s \<noteq> r_job_key (reclaim_row now r)"
      using Cons.prems(1) True by (auto simp: reclaim_row_def release_def image_iff)
    ultimately show ?thesis using True by (simp add: reclaim_others)
  next
    case False
    then have "r_job_key x \<noteq> r_job_key r" using Cons.prems by (auto simp: image_iff)
    then have "r \<in> set (jobs_current (reclaim_one now x db))"
      using Cons.prems by (simp add: reclaim_one_eq fence_def in_update_where_miss)
    then show ?thesis using Cons False by simp
  qed
qed simp

text \<open>
  The sweep returns every expired job to the queue: its row becomes pending
  and due at once, whatever its attempt count, and its running attempt is closed as lease
  lost; all other rows stay as they are, and the result is the number of expired rows. A job
  that keeps losing its lease is therefore tried more often than \<open>max_attempts\<close>.
\<close>

theorem reclaim_requeues:
  assumes "lease_inv db"
  shows "fst (reclaimExpiredLeases now db) = length (listExpiredLeases now db) \<and>
    (\<forall>r \<in> set (jobs_current db).
       if lease_expired now r
       then reclaim_row now r \<in> set (jobs_current (snd (reclaimExpiredLeases now db))) \<and>
            r_status (reclaim_row now r) = Pg_pending \<and>
            claim_ready now (reclaim_row now r) \<and>
            r_attempt_count (reclaim_row now r) = r_attempt_count r \<and>
            r_max_attempts (reclaim_row now r) = r_max_attempts r
       else r \<in> set (jobs_current (snd (reclaimExpiredLeases now db)))) \<and>
    (\<forall>r \<in> set (jobs_current db). lease_expired now r \<longrightarrow>
       (\<forall>a \<in> set (job_attempts (snd (reclaimExpiredLeases now db))).
          a_job_key a = r_job_key r \<longrightarrow> a_outcome a \<noteq> At_running))"
proof (intro conjI ballI impI)
  show "fst (reclaimExpiredLeases now db) = length (listExpiredLeases now db)"
    by (simp add: reclaimExpiredLeases_def listExpiredLeases_def Let_def)
next
  fix r
  assume r: "r \<in> set (jobs_current db)"
  note dist = distinct_expired [OF assms, of now]
  have other: "\<forall>s \<in> set (filter (lease_expired now) (jobs_current db)). r_job_key s \<noteq> r_job_key r"
    if "\<not> lease_expired now r"
    using that r distinct_key_unique [OF lease_invD(1) [OF assms]] by force
  show "if lease_expired now r
       then reclaim_row now r \<in> set (jobs_current (snd (reclaimExpiredLeases now db))) \<and>
            r_status (reclaim_row now r) = Pg_pending \<and>
            claim_ready now (reclaim_row now r) \<and>
            r_attempt_count (reclaim_row now r) = r_attempt_count r \<and>
            r_max_attempts (reclaim_row now r) = r_max_attempts r
       else r \<in> set (jobs_current (snd (reclaimExpiredLeases now db)))"
    using reclaim_hit [OF dist _ r, of now] reclaim_others [OF r other, of now] r
    by (auto simp: reclaimExpiredLeases_def Let_def lease_expired_def reclaim_row_def release_def
        claim_ready_def)
next
  fix r a
  assume r: "r \<in> set (jobs_current db)" "lease_expired now r"
    and a: "a \<in> set (job_attempts (snd (reclaimExpiredLeases now db)))" "a_job_key a = r_job_key r"
  have inv: "lease_inv (snd (reclaimExpiredLeases now db))" using assms by (rule reclaim_lease_inv)
  have "reclaim_row now r \<in> set (jobs_current (snd (reclaimExpiredLeases now db)))"
    using reclaim_hit [OF distinct_expired [OF assms], of r now db] r
    by (auto simp: reclaimExpiredLeases_def Let_def lease_expired_def)
  moreover have "r_job_key (reclaim_row now r) = r_job_key r" "r_status (reclaim_row now r) = Pg_pending"
    by (simp_all add: reclaim_row_def release_def)
  ultimately show "a_outcome a \<noteq> At_running"
    using lease_invD(4) [OF inv a(1)] a(2) distinct_key_unique [OF lease_invD(1) [OF inv]]
    by (fastforce simp: backed_def fence_def)
qed

theorem reclaim_requeues_witness:
  "\<exists>r \<in> set (jobs_current claimed_db). lease_expired 2000 r \<and>
     reclaim_row 2000 r \<in> set (jobs_current (snd (reclaimExpiredLeases 2000 claimed_db)))"
proof -
  have "hd (jobs_current claimed_db) \<in> set (jobs_current claimed_db)"
    "lease_expired 2000 (hd (jobs_current claimed_db))" by code_simp+
  with reclaim_requeues [OF reach_lease_inv [OF claimed_reach], of 2000] show ?thesis by auto
qed

end
