(* ===== verification/Errors.thy ===== *)
theory Errors
  imports Prelude
begin

text \<open>
  The error type of the runtime (\<^verbatim>\<open>src/core/errors.ts\<close>) and the retry loop around fallible
  calls (\<^verbatim>\<open>src/core/retry.ts\<close>). Of an error the code and the \<open>retriable\<close> flag are kept,
  which is what the code branches on; messages and details are not.
\<close>

section \<open>Error codes\<close>

datatype (plugins only: code) error_code =
    BAD_REQUEST | UNAUTHORIZED | FORBIDDEN | CONFLICT | UNSUPPORTED_RUNTIME_MODE
  | AUDIT_WRITE_FAILED | PERSONA_IN_USE | JOB_NOT_FOUND | REQUEST_NOT_FOUND
  | MODEL_TIMEOUT | MODEL_RATE_LIMIT | MODEL_NOT_CONFIGURED | MODEL_API_ERROR
  | INPUT_TOO_LARGE | CONTEXT_BUDGET_INVALID
  | MCP_DISCONNECTED | MCP_TOOL_ERROR | MCP_SCHEMA_LOAD_FAILED
  | STORAGE_ERROR | MIGRATION_FAILED
  | AGENT_NOT_FOUND | AGENT_ALREADY_REGISTERED | DELEGATION_DEPTH_EXCEEDED
  | CIRCULAR_DELEGATION | TOOL_PERMISSION_DENIED | AGENT_OWNERSHIP_MISMATCH
  | TOOL_ARGUMENT_INVALID | TASK_OUTPUT_INVALID
  | CONFIG_MISSING_CREDENTIAL | PERSONA_CARD_INVALID | PERSONA_LOAD_FAILED
  | JOB_FAILED | JOB_TIMEOUT
  | BLACKBOARD_INVALID_NAMESPACE | BLACKBOARD_NAMESPACE_RESERVED
  | BLACKBOARD_OWNERSHIP_VIOLATION
  | INTERNAL_ERROR | SETTLEMENT_UOW_REQUIRED | PROMPT_TEMPLATE_ERROR
  | PROMPT_BUILDER_DATA_SOURCE_ERROR
  | INTERACTION_DUPLICATE_RECORD | INTERACTION_INVALID_FIELD | REQUEST_ID_AMBIGUOUS
  | RP_TURN_OUTCOME_INVALID | COGNITION_OP_UNSUPPORTED | COGNITION_UNRESOLVED_REFS
  | COGNITION_ILLEGAL_STANCE_TRANSITION | COGNITION_ILLEGAL_BASIS_DOWNGRADE
  | COGNITION_TERMINAL_KEY_REUSE | COGNITION_MISSING_PRE_CONTESTED_STANCE
  | COGNITION_DOUBLE_RETRACT | WRITE_TEMPLATE_DENIED | ARTIFACT_CONTRACT_DENIED
  | SESSION_NOT_FOUND | SESSION_CLOSED | SESSION_NOT_IN_RECOVERY | INVALID_ACTION
  | UNKNOWN_ERROR

record ms_error =
  e_code :: error_code
  e_retriable :: bool

definition error :: "error_code \<Rightarrow> bool \<Rightarrow> ms_error" where
  "error c r = \<lparr>e_code = c, e_retriable = r\<rparr>"

lemma error_sel [simp]: "e_code (error c r) = c" "e_retriable (error c r) = r"
  by (simp_all add: error_def)

text \<open>What code can throw: an error of the runtime, another \<open>Error\<close>, or any other value.\<close>

datatype thrown = Maids_error ms_error | Plain_error | Other_value

definition wrapError :: "thrown \<Rightarrow> error_code option \<Rightarrow> bool option \<Rightarrow> ms_error" where
  "wrapError t code retriable =
     (case t of
        Maids_error e \<Rightarrow> e
      | Plain_error \<Rightarrow>
          error (case code of Some c \<Rightarrow> c | None \<Rightarrow> INTERNAL_ERROR)
            (case retriable of Some r \<Rightarrow> r | None \<Rightarrow> False)
      | Other_value \<Rightarrow> error UNKNOWN_ERROR False)"

definition isMaidsClawError :: "thrown \<Rightarrow> bool" where
  "isMaidsClawError t = (case t of Maids_error _ \<Rightarrow> True | _ \<Rightarrow> False)"

definition RETRIABLE_CODES :: "error_code list" where
  "RETRIABLE_CODES =
     [MODEL_TIMEOUT, MODEL_RATE_LIMIT, MODEL_API_ERROR, MCP_DISCONNECTED, STORAGE_ERROR,
      JOB_TIMEOUT]"

section \<open>Retrying\<close>

record retry_policy =
  maxAttempts :: int
  backoffMs :: rat
  backoffMultiplier :: rat
  maxBackoffMs :: rat
  shouldRetry :: "(ms_error \<Rightarrow> int \<Rightarrow> bool) option"

definition MODEL_RETRY_POLICY :: retry_policy where
  "MODEL_RETRY_POLICY =
     \<lparr>maxAttempts = 2, backoffMs = 1000, backoffMultiplier = 2, maxBackoffMs = 5000,
      shouldRetry = Some (\<lambda>err _. e_retriable err \<and> e_code err \<in> set RETRIABLE_CODES)\<rparr>"

definition MCP_RETRY_POLICY :: retry_policy where
  "MCP_RETRY_POLICY =
     \<lparr>maxAttempts = 2, backoffMs = 500, backoffMultiplier = 2, maxBackoffMs = 3000,
      shouldRetry = Some (\<lambda>err _. e_retriable err \<and> e_code err = MCP_DISCONNECTED)\<rparr>"

definition MEMORY_ORGANIZE_RETRY_POLICY :: retry_policy where
  "MEMORY_ORGANIZE_RETRY_POLICY =
     \<lparr>maxAttempts = 4, backoffMs = 2000, backoffMultiplier = 2, maxBackoffMs = 30000,
      shouldRetry = None\<rparr>"

definition NO_RETRY_POLICY :: retry_policy where
  "NO_RETRY_POLICY =
     \<lparr>maxAttempts = 1, backoffMs = 0, backoffMultiplier = 1, maxBackoffMs = 0,
      shouldRetry = None\<rparr>"

text \<open>
  The function called is given by its outcomes: \<open>fn n\<close> is what attempt \<open>n\<close> throws or
  returns. The result is the outcome and the delays waited, in order. A policy with
  \<open>maxAttempts < 1\<close> never calls and throws \<open>undefined\<close>, the \<open>None\<close> of the error.
\<close>

definition retry_decision :: "retry_policy \<Rightarrow> ms_error \<Rightarrow> int \<Rightarrow> bool" where
  "retry_decision policy err attempt =
     (case shouldRetry policy of
        Some f \<Rightarrow> f err attempt
      | None \<Rightarrow> e_retriable err \<and> e_code err \<in> set RETRIABLE_CODES)"

definition backoff_delay :: "retry_policy \<Rightarrow> int \<Rightarrow> rat" where
  "backoff_delay policy attempt =
     min (backoffMs policy * backoffMultiplier policy ^ nat (attempt - 1)) (maxBackoffMs policy)"

function retry_from :: "(int \<Rightarrow> (thrown, 'a) result) \<Rightarrow> retry_policy \<Rightarrow> int \<Rightarrow> ms_error option \<Rightarrow>
    (ms_error option, 'a) result \<times> rat list" where
  "retry_from fn policy attempt lastError =
     (if attempt \<le> maxAttempts policy then
        (case fn attempt of
           Inr v \<Rightarrow> (Inr v, [])
         | Inl t \<Rightarrow>
             (let err = wrapError t None None
              in if \<not> retry_decision policy err attempt then (Inl (Some err), [])
                 else if attempt \<ge> maxAttempts policy then (Inl (Some err), [])
                 else
                   (let (res, delays) = retry_from fn policy (attempt + 1) (Some err)
                    in (res, backoff_delay policy attempt # delays))))
      else (Inl lastError, []))"
  by pat_completeness auto
termination
  by (relation "measure (\<lambda>(fn, policy, attempt, e). nat (maxAttempts policy + 1 - attempt))") auto

declare retry_from.simps [simp del]

definition withRetry :: "(int \<Rightarrow> (thrown, 'a) result) \<Rightarrow> retry_policy \<Rightarrow>
    (ms_error option, 'a) result \<times> rat list" where
  "withRetry fn policy = retry_from fn policy 1 None"

section \<open>What retrying promises\<close>

text \<open>The attempts before \<open>n\<close> that the policy retries.\<close>

definition retried :: "(int \<Rightarrow> (thrown, 'a) result) \<Rightarrow> retry_policy \<Rightarrow> int \<Rightarrow> int \<Rightarrow> bool" where
  "retried fn policy from to =
     (\<forall>i \<in> {from..<to}. \<exists>t. fn i = Inl t \<and> retry_decision policy (wrapError t None None) i)"

lemma retry_from_outcome:
  assumes "attempt \<le> maxAttempts policy"
  shows "\<exists>n. attempt \<le> n \<and> n \<le> maxAttempts policy \<and> retried fn policy attempt n \<and>
     snd (retry_from fn policy attempt e) = map (backoff_delay policy) [attempt..n - 1] \<and>
     (case fn n of
        Inr v \<Rightarrow> fst (retry_from fn policy attempt e) = Inr v
      | Inl t \<Rightarrow> fst (retry_from fn policy attempt e) = Inl (Some (wrapError t None None)) \<and>
          (n = maxAttempts policy \<or> \<not> retry_decision policy (wrapError t None None) n))"
  using assms
proof (induction fn policy attempt e rule: retry_from.induct)
  case (1 fn policy attempt e)
  show ?case
  proof (cases "fn attempt")
    case (Inr v)
    then show ?thesis
      using 1(2) by (intro exI [of _ attempt]) (simp add: retry_from.simps [of fn] retried_def)
  next
    case (Inl t)
    let ?err = "wrapError t None None"
    show ?thesis
    proof (cases "retry_decision policy ?err attempt \<and> attempt < maxAttempts policy")
      case False
      then show ?thesis
        using 1(2) Inl by (intro exI [of _ attempt]) (auto simp: retry_from.simps [of fn] retried_def Let_def)
    next
      case True
      then obtain n where n: "attempt + 1 \<le> n" "n \<le> maxAttempts policy" "retried fn policy (attempt + 1) n"
        "snd (retry_from fn policy (attempt + 1) (Some ?err)) = map (backoff_delay policy) [attempt + 1..n - 1]"
        "case fn n of
           Inr v \<Rightarrow> fst (retry_from fn policy (attempt + 1) (Some ?err)) = Inr v
         | Inl t \<Rightarrow> fst (retry_from fn policy (attempt + 1) (Some ?err)) = Inl (Some (wrapError t None None)) \<and>
             (n = maxAttempts policy \<or> \<not> retry_decision policy (wrapError t None None) n)"
        using 1(1) [OF 1(2) Inl refl] by auto
      have "retried fn policy attempt n"
        using n(1,3) True Inl unfolding retried_def by (metis atLeastLessThan_iff order_le_less zless_add1_eq not_less zle_add1_eq_le)
      moreover have "[attempt..n - 1] = attempt # [attempt + 1..n - 1]"
        using n(1) by (simp add: upto_rec1)
      moreover have "retry_from fn policy attempt e =
          (let (res, delays) = retry_from fn policy (attempt + 1) (Some ?err)
           in (res, backoff_delay policy attempt # delays))"
        using True Inl 1(2) by (subst retry_from.simps) (simp add: Let_def)
      ultimately show ?thesis
        using n by (intro exI [of _ n]) (simp add: case_prod_unfold split: sum.splits)
    qed
  qed
qed

text \<open>
  Property (C36): a call under a policy with at least one attempt is tried until it first
  returns, throws an error the policy does not retry, or has used all attempts; its result
  is that value or that error (wrapped), the function has been called at most
  \<open>maxAttempts\<close> times, and between two attempts it waits the backoff of the first, which
  never exceeds \<open>maxBackoffMs\<close>.
\<close>

theorem retry_until_settled:
  assumes "1 \<le> maxAttempts policy"
  shows "\<exists>n. 1 \<le> n \<and> n \<le> maxAttempts policy \<and> retried fn policy 1 n \<and>
     snd (withRetry fn policy) = map (backoff_delay policy) [1..n - 1] \<and>
     (\<forall>d \<in> set (snd (withRetry fn policy)). d \<le> maxBackoffMs policy) \<and>
     (case fn n of
        Inr v \<Rightarrow> fst (withRetry fn policy) = Inr v
      | Inl t \<Rightarrow> fst (withRetry fn policy) = Inl (Some (wrapError t None None)) \<and>
          (n = maxAttempts policy \<or> \<not> retry_decision policy (wrapError t None None) n))"
proof -
  obtain n where n: "1 \<le> n" "n \<le> maxAttempts policy" "retried fn policy 1 n"
    "snd (withRetry fn policy) = map (backoff_delay policy) [1..n - 1]"
    "case fn n of
        Inr v \<Rightarrow> fst (withRetry fn policy) = Inr v
      | Inl t \<Rightarrow> fst (withRetry fn policy) = Inl (Some (wrapError t None None)) \<and>
          (n = maxAttempts policy \<or> \<not> retry_decision policy (wrapError t None None) n)"
    using retry_from_outcome [OF assms, of fn None] unfolding withRetry_def by blast
  have "\<forall>d \<in> set (snd (withRetry fn policy)). d \<le> maxBackoffMs policy"
    unfolding n(4) by (simp add: backoff_delay_def)
  with n show ?thesis by blast
qed

definition flaky :: "int \<Rightarrow> (thrown, nat) result" where
  "flaky n = (if n < 3 then Inl (Maids_error (error STORAGE_ERROR True)) else Inr 7)"

theorem retry_until_settled_witness:
  "withRetry flaky MEMORY_ORGANIZE_RETRY_POLICY = (Inr 7, [2000, 4000]) \<and>
   list_all (\<lambda>d. d \<le> 30000) (snd (withRetry flaky MEMORY_ORGANIZE_RETRY_POLICY))"
proof -
  have "1 \<le> maxAttempts MEMORY_ORGANIZE_RETRY_POLICY" "maxBackoffMs MEMORY_ORGANIZE_RETRY_POLICY = 30000"
    by (simp_all add: MEMORY_ORGANIZE_RETRY_POLICY_def)
  with retry_until_settled [of MEMORY_ORGANIZE_RETRY_POLICY flaky]
  have "list_all (\<lambda>d. d \<le> 30000) (snd (withRetry flaky MEMORY_ORGANIZE_RETRY_POLICY))"
    by (auto simp: list_all_iff)
  moreover have "withRetry flaky MEMORY_ORGANIZE_RETRY_POLICY = (Inr 7, [2000, 4000])"
    by code_simp
  ultimately show ?thesis by blast
qed

end
