(* ===== verification/Blackboard.thy ===== *)
theory Blackboard
  imports Errors Js_Values
begin

text \<open>
  The blackboard, the shared operational state of a running system: the namespace contract
  of \<^verbatim>\<open>src/state/namespaces.ts\<close>, the store with its session index of
  \<^verbatim>\<open>src/state/blackboard.ts\<close>, and the location accessors of
  \<^verbatim>\<open>src/state/location-helpers.ts\<close>. A board is a record of its three maps, each operation
  a function of it; a throwing operation returns the error and leaves the board as it was.
\<close>

section \<open>Namespaces\<close>

datatype merge_rule = Last_write_wins | Replace_by_delegation_id | Per_key_owner

record namespace_definition =
  ns_prefix :: string
  ns_owner :: string
  ns_mergeRule :: merge_rule
  ns_reserved :: bool
  ns_singleWriter :: "string option"

definition V1_NAMESPACES :: "namespace_definition list" where
  "V1_NAMESPACES =
     [\<lparr>ns_prefix = ''session.'', ns_owner = ''T27a'', ns_mergeRule = Last_write_wins,
       ns_reserved = False, ns_singleWriter = Some ''system''\<rparr>,
      \<lparr>ns_prefix = ''delegation.'', ns_owner = ''T20a'', ns_mergeRule = Replace_by_delegation_id,
       ns_reserved = False, ns_singleWriter = Some ''maiden''\<rparr>,
      \<lparr>ns_prefix = ''task.'', ns_owner = ''T28a'', ns_mergeRule = Per_key_owner,
       ns_reserved = False, ns_singleWriter = None\<rparr>,
      \<lparr>ns_prefix = ''agent_runtime.'', ns_owner = ''T10'', ns_mergeRule = Last_write_wins,
       ns_reserved = False, ns_singleWriter = None\<rparr>,
      \<lparr>ns_prefix = ''transport.'', ns_owner = ''T26'', ns_mergeRule = Last_write_wins,
       ns_reserved = False, ns_singleWriter = Some ''gateway''\<rparr>,
      \<lparr>ns_prefix = ''autonomy.'', ns_owner = ''T28b'', ns_mergeRule = Last_write_wins,
       ns_reserved = True, ns_singleWriter = None\<rparr>]"

definition ACTIVE_PREFIXES :: "string list" where
  "ACTIVE_PREFIXES = map ns_prefix (filter (\<lambda>ns. \<not> ns_reserved ns) V1_NAMESPACES)"

definition RESERVED_PREFIXES :: "string list" where
  "RESERVED_PREFIXES = map ns_prefix (filter ns_reserved V1_NAMESPACES)"

definition resolveNamespace :: "string \<Rightarrow> namespace_definition option" where
  "resolveNamespace key = find (\<lambda>ns. prefix (ns_prefix ns) key) V1_NAMESPACES"

section \<open>The board\<close>

record blackboard =
  store :: "(string, json) js_map"
  sessionKeyIndex :: "(string, string js_set) js_map"
  keySessionIndex :: "(string, string) js_map"

definition empty_board :: blackboard where
  "empty_board = \<lparr>store = [], sessionKeyIndex = [], keySessionIndex = []\<rparr>"

definition validateKey :: "string \<Rightarrow> (ms_error, namespace_definition) result" where
  "validateKey key =
     (case resolveNamespace key of
        None \<Rightarrow> Inl (error BLACKBOARD_INVALID_NAMESPACE False)
      | Some ns \<Rightarrow>
          if ns_reserved ns then Inl (error BLACKBOARD_NAMESPACE_RESERVED False) else Inr ns)"

definition validateOwnership :: "namespace_definition \<Rightarrow> string option \<Rightarrow> (ms_error, unit) result" where
  "validateOwnership ns caller =
     (if ns_singleWriter ns \<noteq> None \<and> caller \<noteq> ns_singleWriter ns
      then Inl (error BLACKBOARD_OWNERSHIP_VIOLATION False) else Inr ())"

text \<open>Taking a key out of the set of a session; an empty set is dropped from the index.\<close>

definition drop_from_session :: "string \<Rightarrow> string \<Rightarrow> blackboard \<Rightarrow> blackboard" where
  "drop_from_session key sid b =
     (case map_of (sessionKeyIndex b) sid of
        None \<Rightarrow> b
      | Some keySet \<Rightarrow>
          b\<lparr>sessionKeyIndex :=
              (if set_delete key keySet = [] then AList.delete sid (sessionKeyIndex b)
               else AList.update sid (set_delete key keySet) (sessionKeyIndex b))\<rparr>)"

definition assignKeyToSession :: "string \<Rightarrow> string \<Rightarrow> blackboard \<Rightarrow> blackboard" where
  "assignKeyToSession key sid b =
     (let b1 = (case map_of (keySessionIndex b) key of
                  Some existingSessionId \<Rightarrow>
                    if existingSessionId \<noteq> sid then drop_from_session key existingSessionId b else b
                | None \<Rightarrow> b);
          keySet = (case map_of (sessionKeyIndex b1) sid of Some s \<Rightarrow> s | None \<Rightarrow> [])
      in b1\<lparr>sessionKeyIndex := AList.update sid (set_add key keySet) (sessionKeyIndex b1),
            keySessionIndex := AList.update key sid (keySessionIndex b1)\<rparr>)"

definition removeKeyFromSessionIndex :: "string \<Rightarrow> blackboard \<Rightarrow> blackboard" where
  "removeKeyFromSessionIndex key b =
     (case map_of (keySessionIndex b) key of
        None \<Rightarrow> b
      | Some sid \<Rightarrow>
          drop_from_session key sid (b\<lparr>keySessionIndex := AList.delete key (keySessionIndex b)\<rparr>))"

definition bb_set :: "string \<Rightarrow> json \<Rightarrow> string option \<Rightarrow> string option \<Rightarrow> blackboard \<Rightarrow>
    (ms_error, unit) result \<times> blackboard" where
  "bb_set key v caller sessionId b =
     (case validateKey key of
        Inl e \<Rightarrow> (Inl e, b)
      | Inr ns \<Rightarrow>
          (case validateOwnership ns caller of
             Inl e \<Rightarrow> (Inl e, b)
           | Inr _ \<Rightarrow>
               (let b1 = b\<lparr>store := AList.update key v (store b)\<rparr>
                in (Inr (), case sessionId of
                              Some sid \<Rightarrow> assignKeyToSession key sid b1
                            | None \<Rightarrow> b1))))"

definition bb_get :: "string \<Rightarrow> blackboard \<Rightarrow> json option" where
  "bb_get key b = map_of (store b) key"

definition bb_has :: "string \<Rightarrow> blackboard \<Rightarrow> bool" where
  "bb_has key b = (map_of (store b) key \<noteq> None)"

definition bb_delete :: "string \<Rightarrow> string option \<Rightarrow> blackboard \<Rightarrow>
    (ms_error, bool) result \<times> blackboard" where
  "bb_delete key caller b =
     (case validateKey key of
        Inl e \<Rightarrow> (Inl e, b)
      | Inr ns \<Rightarrow>
          (case validateOwnership ns caller of
             Inl e \<Rightarrow> (Inl e, b)
           | Inr _ \<Rightarrow>
               (let didDelete = bb_has key b;
                    b1 = b\<lparr>store := AList.delete key (store b)\<rparr>
                in (Inr didDelete, if didDelete then removeKeyFromSessionIndex key b1 else b1))))"

definition isReservedKey :: "string \<Rightarrow> bool" where
  "isReservedKey key = (case resolveNamespace key of Some ns \<Rightarrow> ns_reserved ns | None \<Rightarrow> False)"

text \<open>\<open>lc\<close> is \<open>localeCompare\<close>, as the relation of coming strictly before.\<close>

definition toSnapshot :: "(string \<Rightarrow> string \<Rightarrow> bool) \<Rightarrow> string option \<Rightarrow> blackboard \<Rightarrow>
    (string \<times> json) list" where
  "toSnapshot lc sessionId b =
     sort_by (\<lambda>x y. lc (fst x) (fst y))
       (case sessionId of
          Some sid \<Rightarrow>
            (case map_of (sessionKeyIndex b) sid of
               None \<Rightarrow> []
             | Some keys \<Rightarrow>
                 List.map_filter
                   (\<lambda>key. if isReservedKey key then None
                          else map_option (\<lambda>v. (key, v)) (map_of (store b) key)) keys)
        | None \<Rightarrow> filter (\<lambda>(key, v). \<not> isReservedKey key) (store b))"

definition getNamespace :: "string \<Rightarrow> blackboard \<Rightarrow> (string \<times> json) list" where
  "getNamespace pre b = filter (\<lambda>(k, v). prefix pre k) (store b)"

definition bb_size :: "blackboard \<Rightarrow> nat" where
  "bb_size b = length (store b)"

definition bb_clear :: "blackboard \<Rightarrow> blackboard" where
  "bb_clear b = \<lparr>store = [], sessionKeyIndex = [], keySessionIndex = []\<rparr>"

definition bb_keys :: "blackboard \<Rightarrow> string list" where
  "bb_keys b = map fst (store b)"

section \<open>Locations\<close>

definition agentLocationKey :: "string \<Rightarrow> string" where
  "agentLocationKey agentId = ''agent_runtime.location.'' @ agentId"

definition objectLocationKey :: "string \<Rightarrow> string" where
  "objectLocationKey objectId = ''agent_runtime.location.obj:'' @ objectId"

definition setAgentLocation :: "string \<Rightarrow> js_num \<Rightarrow> string option \<Rightarrow> blackboard \<Rightarrow>
    (ms_error, unit) result \<times> blackboard" where
  "setAgentLocation agentId place caller b = bb_set (agentLocationKey agentId) (JNum place) caller None b"

definition getAgentLocation :: "string \<Rightarrow> blackboard \<Rightarrow> js_num option" where
  "getAgentLocation agentId b =
     (case bb_get (agentLocationKey agentId) b of Some (JNum n) \<Rightarrow> Some n | _ \<Rightarrow> None)"

definition setObjectLocation :: "string \<Rightarrow> js_num \<Rightarrow> string option \<Rightarrow> blackboard \<Rightarrow>
    (ms_error, unit) result \<times> blackboard" where
  "setObjectLocation objectId place caller b =
     bb_set (objectLocationKey objectId) (JNum place) caller None b"

definition getObjectLocation :: "string \<Rightarrow> blackboard \<Rightarrow> js_num option" where
  "getObjectLocation objectId b =
     (case bb_get (objectLocationKey objectId) b of Some (JNum n) \<Rightarrow> Some n | _ \<Rightarrow> None)"

section \<open>The invariant of the index\<close>

text \<open>Which keys a session has.\<close>

definition keys_of :: "blackboard \<Rightarrow> string \<Rightarrow> string set" where
  "keys_of b s = (case map_of (sessionKeyIndex b) s of Some ks \<Rightarrow> set ks | None \<Rightarrow> {})"

definition sets_wf :: "blackboard \<Rightarrow> bool" where
  "sets_wf b = (\<forall>s ks. map_of (sessionKeyIndex b) s = Some ks \<longrightarrow> ks \<noteq> [] \<and> distinct ks)"

text \<open>
  The two directions of the index agree, no session has an empty set, only stored keys are
  indexed, and only keys of active namespaces are stored.
\<close>

definition index_inv :: "blackboard \<Rightarrow> bool" where
  "index_inv b \<longleftrightarrow> (\<forall>k s. map_of (keySessionIndex b) k = Some s \<longleftrightarrow> k \<in> keys_of b s) \<and> sets_wf b"

definition writable :: "string \<Rightarrow> bool" where
  "writable k = (\<exists>ns. validateKey k = Inr ns)"

definition board_inv :: "blackboard \<Rightarrow> bool" where
  "board_inv b \<longleftrightarrow>
     distinct (map fst (store b)) \<and> dom (map_of (store b)) \<subseteq> Collect writable \<and> index_inv b \<and>
     dom (map_of (keySessionIndex b)) \<subseteq> dom (map_of (store b))"

lemma drop_sel [simp]:
  "store (drop_from_session k s b) = store b"
  "keySessionIndex (drop_from_session k s b) = keySessionIndex b"
  by (simp_all add: drop_from_session_def split: option.split)

lemma set_map_filter:
  "(k, v) \<in> set (List.map_filter (\<lambda>x. if p x then None else map_option (\<lambda>v. (x, v)) (f x)) ks) \<longleftrightarrow>
   k \<in> set ks \<and> \<not> p k \<and> f k = Some v"
  by (induction ks) (auto simp: List.map_filter_simps split: option.splits)

lemma keys_of_drop [simp]:
  "keys_of (drop_from_session k s b) s' = (if s' = s then keys_of b s - {k} else keys_of b s')"
proof (cases "map_of (sessionKeyIndex b) s")
  case None
  then show ?thesis by (simp add: drop_from_session_def keys_of_def)
next
  case (Some ks)
  then show ?thesis by (auto simp: drop_from_session_def keys_of_def set_delete_empty_iff)
qed

lemma sets_wfD: "sets_wf b \<Longrightarrow> map_of (sessionKeyIndex b) s = Some ks \<Longrightarrow> ks \<noteq> [] \<and> distinct ks"
  unfolding sets_wf_def by blast

lemma sets_wf_drop:
  assumes wf: "sets_wf b"
  shows "sets_wf (drop_from_session k t b)"
  unfolding sets_wf_def
proof (intro allI impI)
  fix s ks
  assume ks: "map_of (sessionKeyIndex (drop_from_session k t b)) s = Some ks"
  show "ks \<noteq> [] \<and> distinct ks"
  proof (cases "s = t")
    case True
    with ks obtain old where old: "map_of (sessionKeyIndex b) t = Some old" "ks = set_delete k old"
        "set_delete k old \<noteq> []"
      by (auto simp: drop_from_session_def split: option.splits if_splits)
    with sets_wfD [OF wf old(1)] show ?thesis by simp
  next
    case False
    with ks have "map_of (sessionKeyIndex b) s = Some ks"
      by (auto simp: drop_from_session_def split: option.splits if_splits)
    with wf show ?thesis by (rule sets_wfD)
  qed
qed

text \<open>The board after a key has left the session it had, if that is another one.\<close>

definition released :: "string \<Rightarrow> string \<Rightarrow> blackboard \<Rightarrow> blackboard" where
  "released key sid b =
     (case map_of (keySessionIndex b) key of
        Some t \<Rightarrow> if t \<noteq> sid then drop_from_session key t b else b
      | None \<Rightarrow> b)"

lemma assign_eq:
  "assignKeyToSession key sid b =
     (let b1 = released key sid b;
          keySet = (case map_of (sessionKeyIndex b1) sid of Some s \<Rightarrow> s | None \<Rightarrow> [])
      in b1\<lparr>sessionKeyIndex := AList.update sid (set_add key keySet) (sessionKeyIndex b1),
            keySessionIndex := AList.update key sid (keySessionIndex b1)\<rparr>)"
  by (simp add: assignKeyToSession_def released_def)

lemma released_sel [simp]:
  "store (released k s b) = store b" "keySessionIndex (released k s b) = keySessionIndex b"
  by (simp_all add: released_def split: option.split)

lemma released_index:
  assumes "index_inv b"
  shows "sets_wf (released k s b)"
    and "keys_of (released k s b) s' = (if s' = s then keys_of b s else keys_of b s' - {k})"
proof -
  show "sets_wf (released k s b)"
    using assms sets_wf_drop by (simp add: released_def index_inv_def split: option.split)
  have only: "k \<in> keys_of b t \<longleftrightarrow> map_of (keySessionIndex b) k = Some t" for t
    using assms by (simp add: index_inv_def)
  show "keys_of (released k s b) s' = (if s' = s then keys_of b s else keys_of b s' - {k})"
    using only [of s'] by (cases "map_of (keySessionIndex b) k") (auto simp: released_def)
qed

lemma assign_sel [simp]:
  "store (assignKeyToSession k s b) = store b"
  "map_of (keySessionIndex (assignKeyToSession k s b)) = (map_of (keySessionIndex b))(k \<mapsto> s)"
  by (simp_all add: assign_eq Let_def update_conv')

lemma index_inv_assign:
  assumes "index_inv b"
  shows "index_inv (assignKeyToSession k s b)"
    and "keys_of (assignKeyToSession k s b) s' =
         (if s' = s then insert k (keys_of b s) else keys_of b s' - {k})"
proof -
  let ?b1 = "released k s b"
  have keys: "keys_of (assignKeyToSession k s b) t =
      (if t = s then insert k (keys_of ?b1 s) else keys_of ?b1 t)" for t
    by (simp add: assign_eq keys_of_def Let_def split: option.split)
  then show k': "keys_of (assignKeyToSession k s b) s' =
      (if s' = s then insert k (keys_of b s) else keys_of b s' - {k})" for s'
    by (simp add: released_index(2) [OF assms])
  have "sets_wf (assignKeyToSession k s b)"
    unfolding sets_wf_def
  proof (intro allI impI)
    fix t ks
    assume ks: "map_of (sessionKeyIndex (assignKeyToSession k s b)) t = Some ks"
    show "ks \<noteq> [] \<and> distinct ks"
    proof (cases "t = s")
      case True
      with ks have eq: "ks = set_add k (case map_of (sessionKeyIndex ?b1) s of Some s \<Rightarrow> s | None \<Rightarrow> [])"
        by (simp add: assign_eq Let_def)
      then have "k \<in> set ks" by simp
      moreover have "distinct ks"
        unfolding eq using sets_wfD [OF released_index(1) [OF assms, of k s], of s]
        by (cases "map_of (sessionKeyIndex ?b1) s") simp_all
      ultimately show ?thesis by auto
    next
      case False
      with ks have "map_of (sessionKeyIndex ?b1) t = Some ks"
        by (simp add: assign_eq Let_def)
      then show ?thesis by (rule sets_wfD [OF released_index(1) [OF assms]])
    qed
  qed
  with assms k' show "index_inv (assignKeyToSession k s b)"
    by (simp add: index_inv_def)
qed

lemma remove_sel [simp]:
  "store (removeKeyFromSessionIndex k b) = store b"
  "map_of (keySessionIndex (removeKeyFromSessionIndex k b)) = (map_of (keySessionIndex b))(k := None)"
  by (auto simp: removeKeyFromSessionIndex_def delete_conv' split: option.split)

lemma index_frame [simp]:
  "keys_of (b\<lparr>keySessionIndex := m\<rparr>) s = keys_of b s" "keys_of (b\<lparr>store := t\<rparr>) s = keys_of b s"
  "sets_wf (b\<lparr>keySessionIndex := m\<rparr>) = sets_wf b" "index_inv (b\<lparr>store := t\<rparr>) = index_inv b"
  by (simp_all add: keys_of_def sets_wf_def index_inv_def)

lemma index_inv_remove:
  assumes "index_inv b"
  shows "index_inv (removeKeyFromSessionIndex k b)"
    and "keys_of (removeKeyFromSessionIndex k b) s' = keys_of b s' - {k}"
proof -
  have only: "k \<in> keys_of b t \<longleftrightarrow> map_of (keySessionIndex b) k = Some t" for t
    using assms by (simp add: index_inv_def)
  show k': "keys_of (removeKeyFromSessionIndex k b) s' = keys_of b s' - {k}" for s'
    using only [of s'] by (cases "map_of (keySessionIndex b) k")
      (auto simp: removeKeyFromSessionIndex_def)
  have "sets_wf (removeKeyFromSessionIndex k b)"
    using assms by (simp add: removeKeyFromSessionIndex_def sets_wf_drop index_inv_def split: option.split)
  with assms k' show "index_inv (removeKeyFromSessionIndex k b)" by (simp add: index_inv_def)
qed

lemma board_inv_set:
  assumes "board_inv b"
  shows "board_inv (snd (bb_set k v caller sid b))"
proof (cases "validateKey k")
  case (Inl e)
  then show ?thesis using assms by (simp add: bb_set_def)
next
  case (Inr ns)
  then have "writable k" by (simp add: writable_def)
  with assms have "board_inv (b\<lparr>store := AList.update k v (store b)\<rparr>)"
    by (auto simp: board_inv_def update_conv' distinct_update)
  then show ?thesis
    using assms Inr \<open>writable k\<close>
    by (cases sid) (auto simp: bb_set_def Let_def board_inv_def index_inv_assign update_conv'
        distinct_update split: sum.split)
qed

lemma board_inv_delete:
  assumes "board_inv b"
  shows "board_inv (snd (bb_delete k caller b))"
proof (cases "bb_has k b")
  case True
  have "dom (map_of (keySessionIndex b)) - {k} \<subseteq> dom (map_of (store b)) - {k}"
    "dom (map_of (store b)) - {k} \<subseteq> Collect writable"
    using assms by (auto simp only: board_inv_def)
  with True assms show ?thesis
    by (auto simp add: board_inv_def bb_delete_def Let_def index_inv_remove delete_conv'
        distinct_delete split: sum.split simp del: not_None_eq)
next
  case False
  then have "AList.delete k (store b) = store b"
    by (simp add: bb_has_def delete_id map_of_eq_None_iff)
  with False assms show ?thesis by (simp add: bb_delete_def split: sum.split)
qed

inductive board_reachable :: "blackboard \<Rightarrow> bool" where
  board_empty: "board_reachable empty_board"
| board_set: "board_reachable b \<Longrightarrow> board_reachable (snd (bb_set k v caller sid b))"
| board_delete: "board_reachable b \<Longrightarrow> board_reachable (snd (bb_delete k caller b))"
| board_clear: "board_reachable b \<Longrightarrow> board_reachable (bb_clear b)"

lemma board_inv_empty: "board_inv \<lparr>store = [], sessionKeyIndex = [], keySessionIndex = []\<rparr>"
  by (simp add: board_inv_def index_inv_def keys_of_def sets_wf_def)

lemma board_reachable_inv: "board_reachable b \<Longrightarrow> board_inv b"
  by (induction rule: board_reachable.induct)
    (simp_all add: board_inv_set board_inv_delete board_inv_empty empty_board_def bb_clear_def)

section \<open>Writing and reading\<close>

text \<open>Who may write where, from the registry: the writer of a namespace, or anyone.\<close>

lemma resolve_prefixes:
  "resolveNamespace k = Some ns \<Longrightarrow> ns \<in> set V1_NAMESPACES \<and> prefix (ns_prefix ns) k"
  by (auto simp: resolveNamespace_def dest: find_SomeD)

lemma reserved_iff: "validateKey k = Inl (error BLACKBOARD_NAMESPACE_RESERVED False) \<longleftrightarrow> isReservedKey k"
  by (simp add: validateKey_def isReservedKey_def error_def split: option.split)

lemma writable_not_reserved: "writable k \<Longrightarrow> \<not> isReservedKey k"
  by (auto simp: writable_def validateKey_def isReservedKey_def split: option.splits if_splits)

text \<open>
  On every reachable board, a write succeeds exactly for a key of an active
  namespace and, where that namespace has a single writer, for that caller; it then reads
  back, all other keys keep their values, and the key belongs to the session it was written
  with (or to the one it had). A rejected write reports why and changes nothing. No key
  outside the active namespaces is ever stored.
\<close>

theorem blackboard_write:
  assumes "board_reachable b"
  shows "(case resolveNamespace k of
      None \<Rightarrow> bb_set k v caller sid b = (Inl (error BLACKBOARD_INVALID_NAMESPACE False), b)
    | Some ns \<Rightarrow>
        if ns_reserved ns then
          bb_set k v caller sid b = (Inl (error BLACKBOARD_NAMESPACE_RESERVED False), b)
        else if ns_singleWriter ns \<noteq> None \<and> caller \<noteq> ns_singleWriter ns then
          bb_set k v caller sid b = (Inl (error BLACKBOARD_OWNERSHIP_VIOLATION False), b)
        else
          (\<exists>b'. bb_set k v caller sid b = (Inr (), b') \<and>
             (\<forall>k'. bb_get k' b' = (if k' = k then Some v else bb_get k' b)) \<and>
             (\<forall>s. keys_of b' s =
                (case sid of None \<Rightarrow> keys_of b s
                 | Some t \<Rightarrow> if s = t then insert k (keys_of b s) else keys_of b s - {k})))) \<and>
    (bb_get k' b \<noteq> None \<longrightarrow> (\<exists>p \<in> set ACTIVE_PREFIXES. prefix p k'))"
proof
  have inv: "index_inv b" "dom (map_of (store b)) \<subseteq> Collect writable"
    using board_reachable_inv [OF assms] by (simp_all add: board_inv_def)
  show "bb_get k' b \<noteq> None \<longrightarrow> (\<exists>p \<in> set ACTIVE_PREFIXES. prefix p k')"
  proof
    assume "bb_get k' b \<noteq> None"
    then have "writable k'" using inv(2) by (auto simp: bb_get_def)
    then obtain ns where "resolveNamespace k' = Some ns" "\<not> ns_reserved ns"
      by (auto simp: writable_def validateKey_def split: option.splits if_splits)
    with resolve_prefixes show "\<exists>p \<in> set ACTIVE_PREFIXES. prefix p k'"
      by (fastforce simp: ACTIVE_PREFIXES_def)
  qed
  let ?b1 = "b\<lparr>store := AList.update k v (store b)\<rparr>"
  have "index_inv ?b1" using inv(1) by simp
  note assigned = index_inv_assign(2) [OF this, of k]
  show "case resolveNamespace k of
      None \<Rightarrow> bb_set k v caller sid b = (Inl (error BLACKBOARD_INVALID_NAMESPACE False), b)
    | Some ns \<Rightarrow>
        if ns_reserved ns then
          bb_set k v caller sid b = (Inl (error BLACKBOARD_NAMESPACE_RESERVED False), b)
        else if ns_singleWriter ns \<noteq> None \<and> caller \<noteq> ns_singleWriter ns then
          bb_set k v caller sid b = (Inl (error BLACKBOARD_OWNERSHIP_VIOLATION False), b)
        else
          (\<exists>b'. bb_set k v caller sid b = (Inr (), b') \<and>
             (\<forall>k'. bb_get k' b' = (if k' = k then Some v else bb_get k' b)) \<and>
             (\<forall>s. keys_of b' s =
                (case sid of None \<Rightarrow> keys_of b s
                 | Some t \<Rightarrow> if s = t then insert k (keys_of b s) else keys_of b s - {k})))"
    by (cases sid)
      (auto simp: bb_set_def validateKey_def validateOwnership_def Let_def bb_get_def
        assigned update_conv' split: option.split)
qed

definition sample_board :: blackboard where
  "sample_board = snd (bb_set ''task.x'' (JBool True) None (Some ''s1'') empty_board)"

lemma sample_board_sel:
  "bb_get ''task.x'' sample_board = Some (JBool True)" "keys_of sample_board ''s1'' = {''task.x''}"
proof -
  have "map_of (sessionKeyIndex sample_board) ''s1'' = Some [''task.x'']" by code_simp
  then show "keys_of sample_board ''s1'' = {''task.x''}" by (simp add: keys_of_def)
  show "bb_get ''task.x'' sample_board = Some (JBool True)" by code_simp
qed

lemma sample_board_reach: "board_reachable sample_board"
  unfolding sample_board_def by (intro board_set board_empty)

theorem blackboard_write_witness:
  "\<exists>b'. bb_set ''session.a'' JNull (Some ''system'') (Some ''s1'') sample_board = (Inr (), b') \<and>
     bb_get ''task.x'' b' = Some (JBool True) \<and> keys_of b' ''s1'' = {''session.a'', ''task.x''}"
proof -
  have ns: "resolveNamespace ''session.a'' = Some (hd V1_NAMESPACES)"
    "ns_reserved (hd V1_NAMESPACES) = False" "ns_singleWriter (hd V1_NAMESPACES) = Some ''system''"
    by code_simp+
  from conjunct1 [OF blackboard_write [OF sample_board_reach, of "''session.a''" JNull
      "Some ''system''" "Some ''s1''"]]
  obtain b' where "bb_set ''session.a'' JNull (Some ''system'') (Some ''s1'') sample_board = (Inr (), b')"
    "\<forall>k'. bb_get k' b' = (if k' = ''session.a'' then Some JNull else bb_get k' sample_board)"
    "\<forall>s. keys_of b' s = (if s = ''s1'' then insert ''session.a'' (keys_of sample_board s)
                        else keys_of sample_board s - {''session.a''})"
    by (simp add: ns) blast
  then show ?thesis by (simp add: sample_board_sel)
qed

section \<open>Snapshots\<close>

text \<open>
  The snapshot of a session lists, in locale order, exactly the stored keys
  that were last written with that session, each with its current value; the snapshot
  without a session lists the whole board.
\<close>

theorem blackboard_snapshot:
  assumes "board_reachable b" "weak_order lc"
  shows "set (toSnapshot lc (Some s) b) = {(k, v). k \<in> keys_of b s \<and> bb_get k b = Some v} \<and>
    {k. \<exists>v. (k, v) \<in> set (toSnapshot lc (Some s) b)} = keys_of b s \<and>
    set (toSnapshot lc None b) = {(k, v). bb_get k b = Some v} \<and>
    sorted_wrt (\<lambda>x y. \<not> lc (fst y) (fst x)) (toSnapshot lc sid b)"
proof (intro conjI)
  have inv: "board_inv b" using assms(1) by (rule board_reachable_inv)
  have free: "\<not> isReservedKey k" if "map_of (store b) k = Some v" for k v
  proof -
    have "k \<in> dom (map_of (store b))" using that by blast
    with inv have "writable k" unfolding board_inv_def by blast
    then show ?thesis by (rule writable_not_reserved)
  qed
  have stored: "\<exists>v. map_of (store b) k = Some v" if "k \<in> keys_of b s" for k
  proof -
    have "map_of (keySessionIndex b) k = Some s"
      using inv that unfolding board_inv_def index_inv_def by blast
    then have "k \<in> dom (map_of (keySessionIndex b))" by (rule domI)
    with inv have "k \<in> dom (map_of (store b))" unfolding board_inv_def by blast
    then show ?thesis by (simp add: dom_def)
  qed
  show entries: "set (toSnapshot lc (Some s) b) = {(k, v). k \<in> keys_of b s \<and> bb_get k b = Some v}"
  proof (rule set_eqI)
    fix p :: "string \<times> json"
    obtain k :: string and v :: json where p: "p = (k, v)" by (cases p) blast
    have "p \<in> set (toSnapshot lc (Some s) b) \<longleftrightarrow>
        k \<in> keys_of b s \<and> \<not> isReservedKey k \<and> map_of (store b) k = Some v"
      unfolding p by (simp add: toSnapshot_def keys_of_def set_map_filter split: option.split)
    with free show "p \<in> set (toSnapshot lc (Some s) b) \<longleftrightarrow>
        p \<in> {(k, v). k \<in> keys_of b s \<and> bb_get k b = Some v}"
      unfolding p bb_get_def by blast
  qed
  show "{k. \<exists>v. (k, v) \<in> set (toSnapshot lc (Some s) b)} = keys_of b s"
    unfolding entries using stored by (auto simp: bb_get_def)
  have mem: "(k, v) \<in> set (store b) \<longleftrightarrow> map_of (store b) k = Some v" for k v
    using inv unfolding board_inv_def by (metis map_of_eq_Some_iff)
  have "set (toSnapshot lc None b) = {(k, v). (k, v) \<in> set (store b) \<and> \<not> isReservedKey k}"
    by (auto simp: toSnapshot_def)
  with free mem show "set (toSnapshot lc None b) = {(k, v). bb_get k b = Some v}"
    unfolding bb_get_def by blast
  have "weak_order (\<lambda>x y. lc (fst x) (fst y))"
    using assms(2) unfolding weak_order_def by blast
  from weak_order.sorted_sort_by [OF this]
  show "sorted_wrt (\<lambda>x y. \<not> lc (fst y) (fst x)) (toSnapshot lc sid b)"
    unfolding toSnapshot_def .
qed

theorem blackboard_snapshot_witness:
  "set (toSnapshot (\<lambda>a b. length a < length b) (Some ''s1'') sample_board) = {(''task.x'', JBool True)}"
proof -
  have wo: "weak_order (\<lambda>(a::string) b. length a < length b)" by unfold_locales auto
  from conjunct1 [OF blackboard_snapshot [OF sample_board_reach wo, of "''s1''"]]
  have "set (toSnapshot (\<lambda>a b. length a < length b) (Some ''s1'') sample_board) =
      {(k, v). k \<in> {''task.x''} \<and> bb_get k sample_board = Some v}"
    unfolding sample_board_sel .
  also have "\<dots> = {(''task.x'', JBool True)}" using sample_board_sel(1) by auto
  finally show ?thesis .
qed

section \<open>Locations\<close>

text \<open>
  A location that has been set is read back for the same agent, other agents
  keep theirs, and objects and agents share one key space: an agent whose id starts with
  \<open>obj:\<close> and the object of the remaining name have the same location.
\<close>

lemma agent_location:
  "(\<exists>b'. setAgentLocation a n caller b = (Inr (), b') \<and>
     (\<forall>a'. getAgentLocation a' b' = (if a' = a then Some n else getAgentLocation a' b))) \<and>
   getAgentLocation (''obj:'' @ x) b = getObjectLocation x b"
proof -
  have "resolveNamespace (agentLocationKey a) = Some (V1_NAMESPACES ! 3)"
    by (simp add: resolveNamespace_def agentLocationKey_def V1_NAMESPACES_def)
  moreover have "\<not> ns_reserved (V1_NAMESPACES ! 3)" "ns_singleWriter (V1_NAMESPACES ! 3) = None"
    by (simp_all add: V1_NAMESPACES_def)
  moreover have "agentLocationKey a' = agentLocationKey a \<longleftrightarrow> a' = a" for a'
    by (simp add: agentLocationKey_def)
  ultimately show ?thesis
    by (auto simp: setAgentLocation_def bb_set_def validateKey_def validateOwnership_def Let_def
        getAgentLocation_def getObjectLocation_def bb_get_def update_conv' agentLocationKey_def
        objectLocationKey_def)
qed

end
