(* ===== verification/Interaction_Log.thy ===== *)
theory Interaction_Log
  imports Js_Values Errors
begin

text \<open>
  The interaction log (\<^verbatim>\<open>src/interaction/contracts.ts\<close>) and its two stores: the SQL store
  (class \<open>InteractionStore\<close> of \<^verbatim>\<open>src/interaction/store.ts\<close>, names \<open>sql_\<close>) and the in-memory
  store that stands in for it at run time (\<open>createPgInteractionStoreShim\<close> of
  \<^verbatim>\<open>src/bootstrap/runtime.ts\<close>, names \<open>shim_\<close>).

  \<^item> The SQL state is the table \<open>interaction_records\<close>, its rows in the order of \<open>id\<close>, the
    table \<open>recent_cognition_slots\<close> and the flag \<open>_inTransaction\<close>. The table carries the
    constraints of its schema: the CHECKs on the two type columns, UNIQUE on \<open>record_id\<close>
    and on \<open>(session_id, record_index)\<close>. Statements of a transaction are undone by
    restoring the tables.
  \<^item> The state of the in-memory store is the map from session to records, and the map of
    slots. Reading a session that has no records enters it with none, which is \<open>getRecords\<close>.
  \<^item> A payload is a JSON value. The SQL store writes \<open>JSON.stringify(payload)\<close> and parses it
    back, which is \<open>to_json\<close>. The slot column and the argument \<open>newEntriesJson\<close> are JSON
    texts, given by what \<open>JSON.parse\<close> makes of them (\<open>None\<close>: it throws).
\<close>

section \<open>Records\<close>

record interaction_record =
  ir_sessionId :: string
  ir_recordId :: string
  ir_recordIndex :: int
  ir_actorType :: string
  ir_recordType :: string
  ir_payload :: json
  ir_correlatedTurnId :: "string option"
  ir_committedAt :: int

record stored_record =
  s_record :: interaction_record
  s_processed :: bool

definition VALID_ACTOR_TYPES :: "string list" where
  "VALID_ACTOR_TYPES =
     [''user'', ''rp_agent'', ''maiden'', ''task_agent'', ''system'', ''autonomy'']"

definition VALID_RECORD_TYPES :: "string list" where
  "VALID_RECORD_TYPES =
     [''message'', ''tool_call'', ''tool_result'', ''delegation'', ''task_result'',
      ''schedule_trigger'', ''status'', ''turn_settlement'']"

abbreviation s_index :: "stored_record \<Rightarrow> int" where
  "s_index r \<equiv> ir_recordIndex (s_record r)"

abbreviation of_type :: "string \<Rightarrow> stored_record \<Rightarrow> bool" where
  "of_type t r \<equiv> ir_recordType (s_record r) = t"

definition by_index :: "stored_record list \<Rightarrow> stored_record list" where
  "by_index rs = sort_by (\<lambda>a b. s_index a < s_index b) rs"

definition unprocessed_settlement :: "stored_record \<Rightarrow> bool" where
  "unprocessed_settlement r = (\<not> s_processed r \<and> of_type ''turn_settlement'' r)"

definition unprocessed_rp_turn :: "stored_record \<Rightarrow> bool" where
  "unprocessed_rp_turn r =
     (\<not> s_processed r \<and> of_type ''message'' r \<and>
      ir_actorType (s_record r) \<in> {''user'', ''rp_agent''})"

text \<open>The least and the greatest index of some rows, and the greatest alone.\<close>

definition index_range :: "stored_record list \<Rightarrow> (int \<times> int) option" where
  "index_range rs =
     (if rs = [] then None
      else Some (Min (set (map s_index rs)), Max (set (map s_index rs))))"

definition index_max :: "stored_record list \<Rightarrow> int option" where
  "index_max rs = (if rs = [] then None else Some (Max (set (map s_index rs))))"

text \<open>The entries a slot text or an argument stands for: an array, or nothing.\<close>

fun entries_of :: "json option \<Rightarrow> json list" where
  "entries_of (Some (JArr xs)) = xs"
| "entries_of _ = []"

definition newest_64 :: "json list \<Rightarrow> json list" where
  "newest_64 es = (if length es > 64 then drop (length es - 64) es else es)"

text \<open>\<open>typeof payload.ownerAgentId === "string"\<close>; on a primitive the property is undefined,
  on \<open>null\<close> the access throws, which both stores treat below.\<close>

fun owner_of :: "json \<Rightarrow> string option" where
  "owner_of (JObj m) = (case get_prop m ''ownerAgentId'' of Some (JStr s) \<Rightarrow> Some s | _ \<Rightarrow> None)"
| "owner_of _ = None"

section \<open>The SQL store\<close>

record slot_row =
  sl_lastSettlementId :: string
  sl_payload :: "json option"
  sl_updatedAt :: int

record sql_store =
  rows :: "stored_record list"
  slots :: "(string \<times> string, slot_row) js_map"
  inTransaction :: bool

definition sql_rows :: "string \<Rightarrow> sql_store \<Rightarrow> stored_record list" where
  "sql_rows sid st = filter (\<lambda>r. ir_sessionId (s_record r) = sid) (rows st)"

definition violates_unique :: "interaction_record \<Rightarrow> stored_record list \<Rightarrow> bool" where
  "violates_unique r t =
     (\<exists>x \<in> set t. ir_recordId (s_record x) = ir_recordId r \<or>
        (ir_sessionId (s_record x) = ir_sessionId r \<and> s_index x = ir_recordIndex r))"

definition violates_check :: "interaction_record \<Rightarrow> bool" where
  "violates_check r =
     (ir_actorType r \<notin> set VALID_ACTOR_TYPES \<or> ir_recordType r \<notin> set VALID_RECORD_TYPES)"

definition sql_commit :: "interaction_record \<Rightarrow> sql_store \<Rightarrow> (thrown, unit) result \<times> sql_store" where
  "sql_commit r st =
     (if violates_check r then (Inl (Maids_error (error STORAGE_ERROR False)), st)
      else if violates_unique r (rows st)
      then (Inl (Maids_error (error INTERACTION_DUPLICATE_RECORD False)), st)
      else (Inr (), st\<lparr>rows := rows st @
              [\<lparr>s_record = r\<lparr>ir_payload := to_json (ir_payload r)\<rparr>, s_processed = False\<rparr>]\<rparr>))"

text \<open>\<open>runInTransaction\<close>: a nested call runs in the enclosing transaction.\<close>

definition sql_runInTransaction ::
    "(sql_store \<Rightarrow> (thrown, 'a) result \<times> sql_store) \<Rightarrow> sql_store \<Rightarrow> (thrown, 'a) result \<times> sql_store"
where
  "sql_runInTransaction fn st =
     (if inTransaction st then fn st
      else (case fn (st\<lparr>inTransaction := True\<rparr>) of
              (Inr v, st') \<Rightarrow> (Inr v, st'\<lparr>inTransaction := False\<rparr>)
            | (Inl e, _) \<Rightarrow> (Inl e, st)))"

definition sql_settlementExists :: "string \<Rightarrow> string \<Rightarrow> sql_store \<Rightarrow> bool" where
  "sql_settlementExists sid settlementId st =
     (\<exists>r \<in> set (sql_rows sid st). ir_recordId (s_record r) = settlementId \<and> of_type ''turn_settlement'' r)"

definition sql_findRecordByCorrelatedTurnId ::
    "string \<Rightarrow> string \<Rightarrow> string \<Rightarrow> sql_store \<Rightarrow> interaction_record option" where
  "sql_findRecordByCorrelatedTurnId sid turn actor st =
     map_option s_record
       (find (\<lambda>r. ir_correlatedTurnId (s_record r) = Some turn \<and> ir_actorType (s_record r) = actor)
          (sql_rows sid st))"

definition sql_findSessionIdByRequestId :: "string \<Rightarrow> sql_store \<Rightarrow> (thrown, string option) result" where
  "sql_findSessionIdByRequestId req st =
     (case remdups (map (\<lambda>r. ir_sessionId (s_record r))
             (filter (\<lambda>r. ir_correlatedTurnId (s_record r) = Some req) (rows st))) of
        [] \<Rightarrow> Inr None
      | [sid] \<Rightarrow> Inr (Some sid)
      | _ \<Rightarrow> Inl (Maids_error (error REQUEST_ID_AMBIGUOUS False)))"

definition is_object :: "json \<Rightarrow> bool" where
  "is_object v = (case v of JArr _ \<Rightarrow> True | JObj _ \<Rightarrow> True | _ \<Rightarrow> False)"

definition sql_getSettlementPayload :: "string \<Rightarrow> string \<Rightarrow> sql_store \<Rightarrow> json option" where
  "sql_getSettlementPayload sid req st =
     (case rev (filter (\<lambda>r. ir_correlatedTurnId (s_record r) = Some req \<and> of_type ''turn_settlement'' r)
                  (sql_rows sid st)) of
        [] \<Rightarrow> None
      | r # _ \<Rightarrow> if is_object (ir_payload (s_record r)) then Some (ir_payload (s_record r)) else None)"

definition sql_getMessageRecords :: "string \<Rightarrow> bool \<Rightarrow> sql_store \<Rightarrow> interaction_record list" where
  "sql_getMessageRecords sid truncated st =
     map s_record (by_index (filter (\<lambda>r. of_type ''message'' r \<and> (truncated \<longrightarrow> \<not> s_processed r))
       (sql_rows sid st)))"

definition sql_upsertRecentCognitionSlot ::
    "string \<Rightarrow> string \<Rightarrow> string \<Rightarrow> json option \<Rightarrow> int \<Rightarrow> sql_store \<Rightarrow> sql_store" where
  "sql_upsertRecentCognitionSlot sid agent settlementId newEntries now st =
     (let old = (case map_of (slots st) (sid, agent) of Some s \<Rightarrow> entries_of (sl_payload s) | None \<Rightarrow> []);
          entries = newest_64 (old @ entries_of newEntries)
      in st\<lparr>slots := AList.update (sid, agent)
             \<lparr>sl_lastSettlementId = settlementId, sl_payload = Some (JArr entries), sl_updatedAt = now\<rparr>
             (slots st)\<rparr>)"

text \<open>\<open>LIMIT\<close> with a negative number is no limit.\<close>

definition sql_getBySession ::
    "string \<Rightarrow> int option \<Rightarrow> int option \<Rightarrow> int option \<Rightarrow> sql_store \<Rightarrow> interaction_record list" where
  "sql_getBySession sid fromIndex toIndex limit st =
     (let found = map s_record (by_index (filter
            (\<lambda>r. (case fromIndex of Some i \<Rightarrow> i \<le> s_index r | None \<Rightarrow> True) \<and>
                 (case toIndex of Some i \<Rightarrow> s_index r \<le> i | None \<Rightarrow> True)) (sql_rows sid st)))
      in case limit of Some n \<Rightarrow> if n < 0 then found else take (nat n) found | None \<Rightarrow> found)"

definition sql_getByRange :: "string \<Rightarrow> int \<Rightarrow> int \<Rightarrow> sql_store \<Rightarrow> interaction_record list" where
  "sql_getByRange sid lo hi st =
     map s_record (by_index (filter (\<lambda>r. lo \<le> s_index r \<and> s_index r \<le> hi) (sql_rows sid st)))"

definition sql_markRangeProcessed :: "string \<Rightarrow> int \<Rightarrow> int \<Rightarrow> sql_store \<Rightarrow> sql_store" where
  "sql_markRangeProcessed sid lo hi st =
     st\<lparr>rows := update_where
          (\<lambda>r. ir_sessionId (s_record r) = sid \<and> lo \<le> s_index r \<and> s_index r \<le> hi)
          (\<lambda>r. r\<lparr>s_processed := True\<rparr>) (rows st)\<rparr>"

definition sql_markProcessed :: "string \<Rightarrow> int \<Rightarrow> sql_store \<Rightarrow> sql_store" where
  "sql_markProcessed sid upTo st =
     st\<lparr>rows := update_where (\<lambda>r. ir_sessionId (s_record r) = sid \<and> s_index r \<le> upTo)
          (\<lambda>r. r\<lparr>s_processed := True\<rparr>) (rows st)\<rparr>"

definition sql_countUnprocessedRpTurns :: "string \<Rightarrow> sql_store \<Rightarrow> nat" where
  "sql_countUnprocessedRpTurns sid st = count_where unprocessed_rp_turn (sql_rows sid st)"

definition sql_getMinMaxUnprocessedIndex :: "string \<Rightarrow> sql_store \<Rightarrow> (int \<times> int) option" where
  "sql_getMinMaxUnprocessedIndex sid st =
     index_range (filter (\<lambda>r. \<not> s_processed r) (sql_rows sid st))"

definition sql_getMaxIndex :: "string \<Rightarrow> sql_store \<Rightarrow> int option" where
  "sql_getMaxIndex sid st = index_max (sql_rows sid st)"

definition sql_countUnprocessedSettlements :: "string \<Rightarrow> sql_store \<Rightarrow> nat" where
  "sql_countUnprocessedSettlements sid st = count_where unprocessed_settlement (sql_rows sid st)"

definition sql_getUnprocessedSettlementRange :: "string \<Rightarrow> sql_store \<Rightarrow> (int \<times> int) option" where
  "sql_getUnprocessedSettlementRange sid st =
     index_range (filter unprocessed_settlement (sql_rows sid st))"

text \<open>
  The sessions whose newest unprocessed settlement was committed before the cutoff, with
  the owner named in the settlement of the greatest index, oldest first. Sessions of equal
  age come in the order of their first row.
\<close>

definition sql_listStalePendingSettlementSessions ::
    "int \<Rightarrow> int \<Rightarrow> sql_store \<Rightarrow> (string \<times> string \<times> int) list" where
  "sql_listStalePendingSettlementSessions staleCutoffMs now st =
     (let pending = filter unprocessed_settlement (rows st);
          sids = remdups (map (\<lambda>r. ir_sessionId (s_record r)) pending);
          group = (\<lambda>sid. filter (\<lambda>r. ir_sessionId (s_record r) = sid) pending);
          times = (\<lambda>sid. set (map (\<lambda>r. ir_committedAt (s_record r)) (group sid)));
          stale = filter (\<lambda>sid. Max (times sid) \<le> now - staleCutoffMs) sids;
          entry = (\<lambda>sid. case index_max (group sid) of
                     None \<Rightarrow> None
                   | Some i \<Rightarrow>
                       (case find (\<lambda>r. s_index r = i) (sql_rows sid st) of
                          None \<Rightarrow> None
                        | Some latest \<Rightarrow>
                            (case owner_of (ir_payload (s_record latest)) of
                               None \<Rightarrow> None
                             | Some a \<Rightarrow>
                                 if \<forall>c \<in> set a. is_js_space c then None
                                 else Some (sid, a, Min (times sid)))))
      in List.map_filter entry (sort_by (\<lambda>a b. Min (times a) < Min (times b)) stale))"

definition sql_getUnprocessedRangeForSession :: "string \<Rightarrow> sql_store \<Rightarrow> (int \<times> int) option" where
  "sql_getUnprocessedRangeForSession sid st = sql_getMinMaxUnprocessedIndex sid st"

section \<open>The in-memory store\<close>

record shim_store =
  recordsBySession :: "(string, stored_record list) js_map"
  slotPayloads :: "(string, json option) js_map"

definition getRecords :: "string \<Rightarrow> shim_store \<Rightarrow> stored_record list \<times> shim_store" where
  "getRecords sid st =
     (case map_of (recordsBySession st) sid of
        Some existing \<Rightarrow> (existing, st)
      | None \<Rightarrow> ([], st\<lparr>recordsBySession := AList.update sid [] (recordsBySession st)\<rparr>))"

text \<open>The records a read sees, and the records in the order of their index.\<close>

abbreviation shim_rows :: "string \<Rightarrow> shim_store \<Rightarrow> stored_record list" where
  "shim_rows sid st \<equiv> fst (getRecords sid st)"

definition set_records :: "string \<Rightarrow> stored_record list \<Rightarrow> shim_store \<Rightarrow> shim_store" where
  "set_records sid rs st = st\<lparr>recordsBySession := AList.update sid rs (recordsBySession st)\<rparr>"

definition getSortedRecords :: "string \<Rightarrow> shim_store \<Rightarrow> stored_record list" where
  "getSortedRecords sid st = by_index (shim_rows sid st)"

definition sessionAgentKey :: "string \<Rightarrow> string \<Rightarrow> string" where
  "sessionAgentKey sid agent = sid @ ''::'' @ agent"

definition shim_commit :: "interaction_record \<Rightarrow> shim_store \<Rightarrow> (thrown, unit) result \<times> shim_store" where
  "shim_commit r st =
     (let (records, st1) = getRecords (ir_sessionId r) st
      in if \<exists>x \<in> set records. ir_recordId (s_record x) = ir_recordId r then (Inl Plain_error, st1)
         else (Inr (), set_records (ir_sessionId r)
                 (records @ [\<lparr>s_record = r, s_processed = False\<rparr>]) st1))"

definition shim_runInTransaction ::
    "(shim_store \<Rightarrow> (thrown, 'a) result \<times> shim_store) \<Rightarrow> shim_store \<Rightarrow> (thrown, 'a) result \<times> shim_store"
where
  "shim_runInTransaction fn st = fn st"

definition shim_settlementExists :: "string \<Rightarrow> string \<Rightarrow> shim_store \<Rightarrow> bool" where
  "shim_settlementExists sid settlementId st =
     (\<exists>r \<in> set (shim_rows sid st). ir_recordId (s_record r) = settlementId \<and> of_type ''turn_settlement'' r)"

definition shim_findRecordByCorrelatedTurnId ::
    "string \<Rightarrow> string \<Rightarrow> string \<Rightarrow> shim_store \<Rightarrow> interaction_record option" where
  "shim_findRecordByCorrelatedTurnId sid turn actor st =
     map_option s_record
       (find (\<lambda>r. ir_correlatedTurnId (s_record r) = Some turn \<and> ir_actorType (s_record r) = actor)
          (shim_rows sid st))"

definition shim_findSessionIdByRequestId :: "string \<Rightarrow> shim_store \<Rightarrow> (thrown, string option) result" where
  "shim_findSessionIdByRequestId req st =
     (case map fst (filter (\<lambda>(sid, records).
             \<exists>r \<in> set records. ir_correlatedTurnId (s_record r) = Some req) (recordsBySession st)) of
        [] \<Rightarrow> Inr None
      | [sid] \<Rightarrow> Inr (Some sid)
      | _ \<Rightarrow> Inl Plain_error)"

definition shim_getSettlementPayload :: "string \<Rightarrow> string \<Rightarrow> shim_store \<Rightarrow> json option" where
  "shim_getSettlementPayload sid req st =
     (case rev (filter (\<lambda>r. of_type ''turn_settlement'' r \<and> ir_correlatedTurnId (s_record r) = Some req)
                  (getSortedRecords sid st)) of
        [] \<Rightarrow> None
      | r # _ \<Rightarrow> if is_object (ir_payload (s_record r)) then Some (ir_payload (s_record r)) else None)"

definition shim_getMessageRecords :: "string \<Rightarrow> bool \<Rightarrow> shim_store \<Rightarrow> interaction_record list" where
  "shim_getMessageRecords sid truncated st =
     (let sorted = filter (of_type ''message'') (getSortedRecords sid st)
      in map s_record (if truncated then filter (\<lambda>r. \<not> s_processed r) sorted else sorted))"

definition shim_upsertRecentCognitionSlot ::
    "string \<Rightarrow> string \<Rightarrow> string \<Rightarrow> json option \<Rightarrow> shim_store \<Rightarrow> shim_store" where
  "shim_upsertRecentCognitionSlot sid agent settlementId newEntries st =
     (let key = sessionAgentKey sid agent;
          old = (case map_of (slotPayloads st) key of Some p \<Rightarrow> entries_of p | None \<Rightarrow> []);
          merged = old @ entries_of newEntries
      in st\<lparr>slotPayloads := AList.update key (Some (JArr (drop (length merged - 64) merged)))
             (slotPayloads st)\<rparr>)"

text \<open>\<open>records.slice(0, n)\<close>: a negative \<open>n\<close> counts from the end.\<close>

definition slice_0 :: "int \<Rightarrow> 'a list \<Rightarrow> 'a list" where
  "slice_0 n xs = take (nat (if n < 0 then int (length xs) + n else n)) xs"

definition shim_getBySession ::
    "string \<Rightarrow> int option \<Rightarrow> int option \<Rightarrow> int option \<Rightarrow> shim_store \<Rightarrow> interaction_record list" where
  "shim_getBySession sid fromIndex toIndex limit st =
     (let r0 = getSortedRecords sid st;
          r1 = (case fromIndex of Some i \<Rightarrow> filter (\<lambda>r. i \<le> s_index r) r0 | None \<Rightarrow> r0);
          r2 = (case toIndex of Some i \<Rightarrow> filter (\<lambda>r. s_index r \<le> i) r1 | None \<Rightarrow> r1);
          r3 = (case limit of Some n \<Rightarrow> slice_0 n r2 | None \<Rightarrow> r2)
      in map s_record r3)"

definition shim_getByRange :: "string \<Rightarrow> int \<Rightarrow> int \<Rightarrow> shim_store \<Rightarrow> interaction_record list" where
  "shim_getByRange sid lo hi st =
     map s_record (filter (\<lambda>r. lo \<le> s_index r \<and> s_index r \<le> hi) (getSortedRecords sid st))"

definition shim_markRangeProcessed :: "string \<Rightarrow> int \<Rightarrow> int \<Rightarrow> shim_store \<Rightarrow> shim_store" where
  "shim_markRangeProcessed sid lo hi st =
     (let (records, st1) = getRecords sid st
      in set_records sid (map (\<lambda>r. if lo \<le> s_index r \<and> s_index r \<le> hi
           then r\<lparr>s_processed := True\<rparr> else r) records) st1)"

definition shim_markProcessed :: "string \<Rightarrow> int \<Rightarrow> shim_store \<Rightarrow> shim_store" where
  "shim_markProcessed sid upTo st =
     (let (records, st1) = getRecords sid st
      in set_records sid (map (\<lambda>r. if s_index r \<le> upTo then r\<lparr>s_processed := True\<rparr> else r) records) st1)"

definition shim_countUnprocessedRpTurns :: "string \<Rightarrow> shim_store \<Rightarrow> nat" where
  "shim_countUnprocessedRpTurns sid st = length (filter unprocessed_rp_turn (shim_rows sid st))"

definition shim_getMinMaxUnprocessedIndex :: "string \<Rightarrow> shim_store \<Rightarrow> (int \<times> int) option" where
  "shim_getMinMaxUnprocessedIndex sid st =
     index_range (filter (\<lambda>r. \<not> s_processed r) (shim_rows sid st))"

definition shim_getMaxIndex :: "string \<Rightarrow> shim_store \<Rightarrow> int option" where
  "shim_getMaxIndex sid st = index_max (shim_rows sid st)"

definition shim_countUnprocessedSettlements :: "string \<Rightarrow> shim_store \<Rightarrow> nat" where
  "shim_countUnprocessedSettlements sid st = length (filter unprocessed_settlement (shim_rows sid st))"

definition shim_getUnprocessedSettlementRange :: "string \<Rightarrow> shim_store \<Rightarrow> (int \<times> int) option" where
  "shim_getUnprocessedSettlementRange sid st =
     index_range (filter unprocessed_settlement (shim_rows sid st))"

text \<open>
  Here the newest settlement is the first of the greatest commit time, and a negative
  cutoff includes every session. The access to \<open>payload.ownerAgentId\<close> throws on \<open>null\<close>,
  which ends the listing (\<open>None\<close>).
\<close>

fun newest_of :: "stored_record \<Rightarrow> stored_record list \<Rightarrow> stored_record" where
  "newest_of cur [] = cur"
| "newest_of cur (c # cs) =
     newest_of (if ir_committedAt (s_record c) > ir_committedAt (s_record cur) then c else cur) cs"

fun stale_sessions :: "int \<Rightarrow> int \<Rightarrow> (string \<times> stored_record list) list \<Rightarrow>
    (string \<times> string \<times> int) list option" where
  "stale_sessions staleCutoffMs now [] = Some []"
| "stale_sessions staleCutoffMs now ((sid, records) # rest) =
     (case filter unprocessed_settlement records of
        [] \<Rightarrow> stale_sessions staleCutoffMs now rest
      | s # ss \<Rightarrow>
          (let newest = newest_of s ss
           in if \<not> staleCutoffMs < 0 \<and> ir_committedAt (s_record newest) > now - staleCutoffMs
              then stale_sessions staleCutoffMs now rest
              else if ir_payload (s_record newest) = JNull then None
              else (case owner_of (ir_payload (s_record newest)) of
                      None \<Rightarrow> stale_sessions staleCutoffMs now rest
                    | Some a \<Rightarrow>
                        map_option (\<lambda>l. (sid, a, Min (set (map (\<lambda>r. ir_committedAt (s_record r)) (s # ss)))) # l)
                          (stale_sessions staleCutoffMs now rest))))"

definition shim_listStalePendingSettlementSessions ::
    "int \<Rightarrow> int \<Rightarrow> shim_store \<Rightarrow> (string \<times> string \<times> int) list option" where
  "shim_listStalePendingSettlementSessions staleCutoffMs now st =
     map_option (sort_by (\<lambda>(_, _, a) (_, _, b). a < b))
       (stale_sessions staleCutoffMs now (recordsBySession st))"

definition shim_getUnprocessedRangeForSession :: "string \<Rightarrow> shim_store \<Rightarrow> (int \<times> int) option" where
  "shim_getUnprocessedRangeForSession sid st = shim_getMinMaxUnprocessedIndex sid st"

end
