(* ===== verification/Commit_Service.thy ===== *)
theory Commit_Service
  imports Interaction_Log
begin

text \<open>
  The write path of the interaction log (class \<open>CommitService\<close> of
  \<^verbatim>\<open>src/interaction/commit-service.ts\<close>) over the operations of a store. The store a service is
  constructed with is the record \<open>log_ops\<close>; \<open>sql_ops\<close> and \<open>shim_ops\<close> are the two stores of
  \<open>Interaction_Log\<close>. \<open>crypto.randomUUID()\<close> and \<open>Date.now()\<close> are arguments: of a batch,
  \<open>env i\<close> gives both for the record at position \<open>i\<close>.

  What the service relies on is the locale \<open>commit_log\<close>, interpreted on both stores; the
  indexes it assigns are proved once inside it.
\<close>

section \<open>The store a service is given\<close>

record 's log_ops =
  op_getMaxIndex :: "string \<Rightarrow> 's \<Rightarrow> int option \<times> 's"
  op_commit :: "interaction_record \<Rightarrow> 's \<Rightarrow> (thrown, unit) result \<times> 's"
  op_runInTransaction :: "('s \<Rightarrow> (thrown, interaction_record list) result \<times> 's) \<Rightarrow> 's \<Rightarrow>
      (thrown, interaction_record list) result \<times> 's"
  op_markProcessed :: "string \<Rightarrow> int \<Rightarrow> 's \<Rightarrow> 's"
  op_markRangeProcessed :: "string \<Rightarrow> int \<Rightarrow> int \<Rightarrow> 's \<Rightarrow> 's"

definition sql_ops :: "sql_store log_ops" where
  "sql_ops =
     \<lparr>op_getMaxIndex = (\<lambda>sid st. (sql_getMaxIndex sid st, st)),
      op_commit = sql_commit,
      op_runInTransaction = sql_runInTransaction,
      op_markProcessed = sql_markProcessed,
      op_markRangeProcessed = sql_markRangeProcessed\<rparr>"

definition shim_ops :: "shim_store log_ops" where
  "shim_ops =
     \<lparr>op_getMaxIndex = (\<lambda>sid st. (shim_getMaxIndex sid st, snd (getRecords sid st))),
      op_commit = shim_commit,
      op_runInTransaction = shim_runInTransaction,
      op_markProcessed = shim_markProcessed,
      op_markRangeProcessed = shim_markRangeProcessed\<rparr>"

section \<open>The service\<close>

record commit_input =
  ci_sessionId :: string
  ci_actorType :: string
  ci_recordType :: string
  ci_payload :: json
  ci_correlatedTurnId :: "string option"

definition validateInput :: "commit_input \<Rightarrow> (thrown, unit) result" where
  "validateInput input =
     (if ci_actorType input \<notin> set VALID_ACTOR_TYPES
      then Inl (Maids_error (error INTERACTION_INVALID_FIELD False))
      else if ci_recordType input \<notin> set VALID_RECORD_TYPES
      then Inl (Maids_error (error INTERACTION_INVALID_FIELD False))
      else Inr ())"

definition buildRecord :: "commit_input \<Rightarrow> string \<Rightarrow> int \<Rightarrow> int \<Rightarrow> interaction_record" where
  "buildRecord input recordId recordIndex now =
     \<lparr>ir_sessionId = ci_sessionId input, ir_recordId = recordId, ir_recordIndex = recordIndex,
      ir_actorType = ci_actorType input, ir_recordType = ci_recordType input,
      ir_payload = ci_payload input, ir_correlatedTurnId = ci_correlatedTurnId input,
      ir_committedAt = now\<rparr>"

definition getNextIndex :: "'s log_ops \<Rightarrow> string \<Rightarrow> 's \<Rightarrow> int \<times> 's" where
  "getNextIndex ops sid st =
     (let (maxIndex, st') = op_getMaxIndex ops sid st
      in (case maxIndex of None \<Rightarrow> 0 | Some m \<Rightarrow> m + 1, st'))"

definition commitInternal :: "'s log_ops \<Rightarrow> commit_input \<Rightarrow> string option \<Rightarrow> string \<Rightarrow> int \<Rightarrow> 's \<Rightarrow>
    (thrown, interaction_record) result \<times> 's" where
  "commitInternal ops input recordIdOverride uuid now st =
     (case validateInput input of
        Inl e \<Rightarrow> (Inl e, st)
      | Inr _ \<Rightarrow>
          if recordIdOverride \<noteq> None \<and> ci_recordType input \<noteq> ''turn_settlement''
          then (Inl (Maids_error (error INTERACTION_INVALID_FIELD False)), st)
          else
            (let recordId = (case recordIdOverride of Some i \<Rightarrow> i | None \<Rightarrow> uuid);
                 (recordIndex, st1) = getNextIndex ops (ci_sessionId input) st;
                 record' = buildRecord input recordId recordIndex now
             in (case op_commit ops record' st1 of
                   (Inl e, st2) \<Rightarrow> (Inl e, st2)
                 | (Inr _, st2) \<Rightarrow> (Inr record', st2))))"

definition commit :: "'s log_ops \<Rightarrow> commit_input \<Rightarrow> string \<Rightarrow> int \<Rightarrow> 's \<Rightarrow>
    (thrown, interaction_record) result \<times> 's" where
  "commit ops input uuid now st = commitInternal ops input None uuid now st"

definition commitWithId :: "'s log_ops \<Rightarrow> commit_input \<Rightarrow> string \<Rightarrow> string \<Rightarrow> int \<Rightarrow> 's \<Rightarrow>
    (thrown, interaction_record) result \<times> 's" where
  "commitWithId ops input recordId uuid now st = commitInternal ops input (Some recordId) uuid now st"

text \<open>The loop of \<open>commitBatch\<close> over the remaining inputs.\<close>

fun commit_each :: "'s log_ops \<Rightarrow> (nat \<Rightarrow> string \<times> int) \<Rightarrow> commit_input list \<Rightarrow>
    (string, int) js_map \<Rightarrow> interaction_record list \<Rightarrow> 's \<Rightarrow>
    (thrown, interaction_record list) result \<times> 's" where
  "commit_each ops env [] nextIndexBySession records st = (Inr records, st)"
| "commit_each ops env (input # inputs) nextIndexBySession records st =
     (case validateInput input of
        Inl e \<Rightarrow> (Inl e, st)
      | Inr _ \<Rightarrow>
          (let (recordIndex, st1) =
                 (case map_of nextIndexBySession (ci_sessionId input) of
                    Some i \<Rightarrow> (i, st)
                  | None \<Rightarrow> getNextIndex ops (ci_sessionId input) st);
               next' = AList.update (ci_sessionId input) (recordIndex + 1) nextIndexBySession;
               (uuid, now) = env (length records);
               record' = buildRecord input uuid recordIndex now
           in (case op_commit ops record' st1 of
                 (Inl e, st2) \<Rightarrow> (Inl e, st2)
               | (Inr _, st2) \<Rightarrow> commit_each ops env inputs next' (records @ [record']) st2)))"

definition commitBatch :: "'s log_ops \<Rightarrow> (nat \<Rightarrow> string \<times> int) \<Rightarrow> commit_input list \<Rightarrow> 's \<Rightarrow>
    (thrown, interaction_record list) result \<times> 's" where
  "commitBatch ops env inputs st =
     (if inputs = [] then (Inr [], st)
      else op_runInTransaction ops (commit_each ops env inputs [] []) st)"

section \<open>The contract of a store\<close>

definition input_of :: "interaction_record \<Rightarrow> commit_input" where
  "input_of r =
     \<lparr>ci_sessionId = ir_sessionId r, ci_actorType = ir_actorType r, ci_recordType = ir_recordType r,
      ci_payload = ir_payload r, ci_correlatedTurnId = ir_correlatedTurnId r\<rparr>"

lemma input_of_buildRecord [simp]: "input_of (buildRecord input i n now) = input"
  by (simp add: input_of_def buildRecord_def)

lemma buildRecord_sel [simp]:
  "ir_sessionId (buildRecord input i n now) = ci_sessionId input"
  "ir_recordIndex (buildRecord input i n now) = n"
  "ir_recordId (buildRecord input i n now) = i"
  "ir_recordType (buildRecord input i n now) = ci_recordType input"
  "ir_actorType (buildRecord input i n now) = ci_actorType input"
  by (simp_all add: buildRecord_def)

lemma validateInput_ok: "validateInput input = Inr u \<longleftrightarrow> \<not> violates_check (buildRecord input i n now)"
  by (simp add: validateInput_def violates_check_def)

text \<open>The indexes of the records of a session, in commit order: \<open>0, 1, 2, \<dots>\<close>.\<close>

definition dense :: "interaction_record list \<Rightarrow> bool" where
  "dense rs \<longleftrightarrow> map ir_recordIndex rs = map int [0..<length rs]"

lemma dense_Nil [simp]: "dense []"
  by (simp add: dense_def)

lemma dense_snoc: "dense rs \<Longrightarrow> ir_recordIndex r = int (length rs) \<Longrightarrow> dense (rs @ [r])"
  by (simp add: dense_def)

lemma dense_indexes: "dense rs \<Longrightarrow> ir_recordIndex ` set rs = int ` {0..<length rs}"
  unfolding dense_def by (metis list.set_map set_upt)

lemma dense_Max:
  assumes "dense rs" "rs \<noteq> []"
  shows "Max (ir_recordIndex ` set rs) = int (length rs) - 1"
  unfolding dense_indexes [OF assms(1)]
proof (rule Max_eqI)
  show "int (length rs) - 1 \<in> int ` {0..<length rs}"
    using assms(2) by (intro image_eqI [of _ _ "length rs - 1"]) (auto simp: Suc_leI of_nat_diff)
qed auto

definition next_ok :: "(string, int) js_map \<Rightarrow> (string \<Rightarrow> interaction_record list) \<Rightarrow> bool" where
  "next_ok nxt lg = (\<forall>s i. map_of nxt s = Some i \<longrightarrow> i = int (length (lg s)))"

lemma next_okD: "next_ok nxt lg \<Longrightarrow> map_of nxt s = Some i \<Longrightarrow> i = int (length (lg s))"
  unfolding next_ok_def by blast

lemma next_ok_Nil [simp]: "next_ok [] lg"
  by (simp add: next_ok_def)

lemma next_ok_update:
  "next_ok nxt lg \<Longrightarrow> i = int (length (lg sid)) \<Longrightarrow>
   next_ok (AList.update sid (i + 1) nxt) (lg(sid := lg sid @ [r]))"
  by (simp add: next_ok_def update_conv')

definition mark_where :: "(int \<Rightarrow> bool) \<Rightarrow> stored_record list \<Rightarrow> stored_record list" where
  "mark_where p rs = map (\<lambda>r. if p (s_index r) then r\<lparr>s_processed := True\<rparr> else r) rs"

lemma records_mark_where [simp]: "map s_record (mark_where p rs) = map s_record rs"
  by (simp add: mark_where_def)

locale commit_log =
  fixes ops :: "'s log_ops"
    and view :: "'s \<Rightarrow> string \<Rightarrow> stored_record list"
    and logs :: "'s \<Rightarrow> string \<Rightarrow> interaction_record list"
    and norm :: "interaction_record \<Rightarrow> interaction_record"
  assumes logs_view: "logs st sid = map s_record (view st sid)"
    and max_index: "fst (op_getMaxIndex ops sid st) = index_max (view st sid)"
    and max_index_view: "view (snd (op_getMaxIndex ops sid st)) = view st"
    and commit_view: "op_commit ops r st = (Inr (), st') \<Longrightarrow>
      view st' = (view st)(ir_sessionId r :=
        view st (ir_sessionId r) @ [\<lparr>s_record = norm r, s_processed = False\<rparr>])"
    and commit_err_view: "op_commit ops r st = (Inl e, st') \<Longrightarrow> view st' = view st"
    and norm_index: "ir_recordIndex (norm r) = ir_recordIndex r"
    and transact_view: "op_runInTransaction ops f st = (res, st') \<Longrightarrow>
      view st' = view st \<and> isl res \<or>
      (\<exists>st0 st1. view st0 = view st \<and> f st0 = (res, st1) \<and> view st' = view st1)"
    and mark_view: "view (op_markProcessed ops sid n st) =
      (view st)(sid := mark_where (\<lambda>i. i \<le> n) (view st sid))"
    and mark_range_view: "view (op_markRangeProcessed ops sid m n st) =
      (view st)(sid := mark_where (\<lambda>i. m \<le> i \<and> i \<le> n) (view st sid))"
begin

lemma logs_eq: "view st = view st' \<Longrightarrow> logs st = logs st'"
  by (simp add: logs_view fun_eq_iff)

lemma max_index_logs: "logs (snd (op_getMaxIndex ops sid st)) = logs st"
  by (rule logs_eq) (rule max_index_view)

lemma commit_ok: "op_commit ops r st = (Inr (), st') \<Longrightarrow>
    logs st' = (logs st)(ir_sessionId r := logs st (ir_sessionId r) @ [norm r])"
  using commit_view [of r st st'] by (simp add: logs_view fun_eq_iff)

lemma commit_err: "op_commit ops r st = (Inl e, st') \<Longrightarrow> logs st' = logs st"
  by (rule logs_eq) (rule commit_err_view)

lemma transact_run: "op_runInTransaction ops f st = (res, st') \<Longrightarrow>
    logs st' = logs st \<and> isl res \<or>
    (\<exists>st0 st1. logs st0 = logs st \<and> f st0 = (res, st1) \<and> logs st' = logs st1)"
  using transact_view [of f st res st'] logs_eq by blast

lemma mark_logs:
  "logs (op_markProcessed ops sid n st) = logs st"
  "logs (op_markRangeProcessed ops sid m n st) = logs st"
  by (simp_all add: logs_view fun_eq_iff mark_view mark_range_view)

lemma next_index: "dense (logs st sid) \<Longrightarrow> fst (getNextIndex ops sid st) = int (length (logs st sid))"
  using max_index [of sid st] dense_Max [of "logs st sid"]
  by (cases "op_getMaxIndex ops sid st")
    (auto simp: getNextIndex_def index_max_def logs_view image_image split: if_splits)

lemma next_index_logs [simp]: "logs (snd (getNextIndex ops sid st)) = logs st"
  using max_index_logs [of sid st] by (simp add: getNextIndex_def case_prod_unfold Let_def)

lemma next_index_logs': "getNextIndex ops sid st = (i, st') \<Longrightarrow> logs st' = logs st"
  using next_index_logs [of sid st] by simp

text \<open>One commit appends one record, whose index is the number of records so far.\<close>

lemma commitInternal_appends:
  assumes "commitInternal ops input ovr uuid now st = (Inr r, st')" "dense (logs st (ci_sessionId input))"
  shows "input_of r = input \<and> ir_recordIndex r = int (length (logs st (ci_sessionId input))) \<and>
    ir_recordId r = (case ovr of Some i \<Rightarrow> i | None \<Rightarrow> uuid) \<and> ir_committedAt r = now \<and>
    logs st' = (logs st)(ci_sessionId input := logs st (ci_sessionId input) @ [norm r])"
proof -
  obtain n st1 where n: "getNextIndex ops (ci_sessionId input) st = (n, st1)" by fastforce
  with next_index [OF assms(2)] next_index_logs [of "ci_sessionId input" st]
  have n': "n = int (length (logs st (ci_sessionId input)))" "logs st1 = logs st" by simp_all
  have r: "r = buildRecord input (case ovr of Some i \<Rightarrow> i | None \<Rightarrow> uuid) n now"
    and c: "op_commit ops r st1 = (Inr (), st')"
    using assms(1) n
    by (auto simp: commitInternal_def Let_def split: sum.splits if_splits prod.splits)
  from commit_ok [OF c] n' show ?thesis
    by (simp add: r) (simp add: buildRecord_def)
qed

lemma commitInternal_error:
  assumes "commitInternal ops input ovr uuid now st = (Inl e, st')"
  shows "logs st' = logs st"
  using assms
  by (auto simp: commitInternal_def Let_def dest!: commit_err next_index_logs' split: sum.splits if_splits prod.splits)

text \<open>The loop of a batch: the map of next indexes holds the number of records of a session.\<close>

lemma take_index:
  assumes "(case map_of nxt sid of Some i \<Rightarrow> (i, st) | None \<Rightarrow> getNextIndex ops sid st) = (i, st1)"
    and "dense (logs st sid)" "next_ok nxt (logs st)"
  shows "i = int (length (logs st sid)) \<and> logs st1 = logs st"
proof (cases "map_of nxt sid")
  case None
  with assms(1) have "getNextIndex ops sid st = (i, st1)" by simp
  with next_index [OF assms(2)] next_index_logs' show ?thesis by (metis fst_conv)
next
  case (Some j)
  with assms(1) next_okD [OF assms(3) Some] show ?thesis by auto
qed

lemma commit_each_appends:
  assumes "commit_each ops env inputs nxt acc st = (res, st')"
    and "\<And>s. dense (logs st s)"
    and "next_ok nxt (logs st)"
  shows "(\<forall>s. dense (logs st' s)) \<and>
    (\<forall>rs. res = Inr rs \<longrightarrow> (\<exists>new. rs = acc @ new \<and> map input_of new = inputs \<and>
       (\<forall>s. logs st' s = logs st s @ map norm (filter (\<lambda>r. ir_sessionId r = s) new))))"
  using assms
proof (induction inputs arbitrary: nxt acc st)
  case Nil
  then show ?case by auto
next
  case (Cons input inputs)
  let ?sid = "ci_sessionId input"
  show ?case
  proof (cases "validateInput input")
    case (Inl e)
    with Cons.prems show ?thesis by auto
  next
    case (Inr u)
    obtain i st1 where i: "(case map_of nxt ?sid of Some i \<Rightarrow> (i, st) | None \<Rightarrow> getNextIndex ops ?sid st) = (i, st1)"
      by fastforce
    have idx: "i = int (length (logs st ?sid))" and st1: "logs st1 = logs st"
      using take_index [OF i Cons.prems(2,3)] by blast+
    obtain uuid now where env: "env (length acc) = (uuid, now)" by fastforce
    let ?r = "buildRecord input uuid i now"
    have unfolded: "(case op_commit ops ?r st1 of (Inl e, st2) \<Rightarrow> (Inl e, st2)
        | (Inr _, st2) \<Rightarrow> commit_each ops env inputs (AList.update ?sid (i + 1) nxt) (acc @ [?r]) st2) = (res, st')"
      using Cons.prems(1) Inr i env by (simp add: Let_def)
    show ?thesis
    proof (cases "op_commit ops ?r st1")
      case (Pair cr st2)
      show ?thesis
      proof (cases cr)
        case (Inl e)
        with unfolded Pair have "res = Inl e" "st' = st2" by simp_all
        moreover have "logs st2 = logs st" using commit_err Pair Inl st1 by simp
        ultimately show ?thesis using Cons.prems(2) by simp
      next
        case (Inr u)
        then have "op_commit ops ?r st1 = (Inr (), st2)" using Pair by simp
        from commit_ok [OF this] st1
        have st2: "logs st2 = (logs st)(?sid := logs st ?sid @ [norm ?r])" by simp
        have rest: "commit_each ops env inputs (AList.update ?sid (i + 1) nxt) (acc @ [?r]) st2 = (res, st')"
          using unfolded Pair Inr by simp
        have "dense (logs st ?sid @ [norm ?r])"
          by (rule dense_snoc [OF Cons.prems(2)]) (simp add: norm_index idx)
        with Cons.prems(2) have d2: "dense (logs st2 s)" for s
          unfolding st2 by (cases "s = ?sid") simp_all
        have n2: "next_ok (AList.update ?sid (i + 1) nxt) (logs st2)"
          unfolding st2 by (rule next_ok_update [OF Cons.prems(3) idx])
        from Cons.IH [OF rest d2 n2] have dense': "\<forall>s. dense (logs st' s)"
          and new: "\<And>rs. res = Inr rs \<Longrightarrow> \<exists>new. rs = (acc @ [?r]) @ new \<and> map input_of new = inputs \<and>
             (\<forall>s. logs st' s = logs st2 s @ map norm (filter (\<lambda>r. ir_sessionId r = s) new))"
          by blast+
        show ?thesis
        proof (intro conjI allI impI dense' [THEN spec])
          fix rs assume "res = Inr rs"
          from new [OF this] obtain new where "rs = (acc @ [?r]) @ new" "map input_of new = inputs"
            "\<forall>s. logs st' s = logs st2 s @ map norm (filter (\<lambda>r. ir_sessionId r = s) new)" by blast
          then show "\<exists>new. rs = acc @ new \<and> map input_of new = input # inputs \<and>
              (\<forall>s. logs st' s = logs st s @ map norm (filter (\<lambda>r. ir_sessionId r = s) new))"
            by (intro exI [of _ "?r # new"]) (simp add: st2)
        qed
      qed
    qed
  qed
qed

lemma commitBatch_appends:
  assumes "commitBatch ops env inputs st = (res, st')" "\<And>s. dense (logs st s)"
  shows "(\<forall>s. dense (logs st' s)) \<and>
    (\<forall>rs. res = Inr rs \<longrightarrow> map input_of rs = inputs \<and>
       (\<forall>s. logs st' s = logs st s @ map norm (filter (\<lambda>r. ir_sessionId r = s) rs)))"
proof (cases "inputs = []")
  case True
  with assms show ?thesis by (auto simp: commitBatch_def)
next
  case False
  with assms(1) have "op_runInTransaction ops (commit_each ops env inputs [] []) st = (res, st')"
    by (simp add: commitBatch_def)
  from transact_run [OF this] show ?thesis
  proof
    assume "logs st' = logs st \<and> isl res"
    with assms(2) show ?thesis by auto
  next
    assume "\<exists>st0 st1. logs st0 = logs st \<and> commit_each ops env inputs [] [] st0 = (res, st1) \<and>
      logs st' = logs st1"
    then obtain st0 st1 where *: "logs st0 = logs st" "logs st' = logs st1"
      "commit_each ops env inputs [] [] st0 = (res, st1)" by blast
    from commit_each_appends [OF this(3)] assms(2) *(1)
    have "(\<forall>s. dense (logs st1 s)) \<and> (\<forall>rs. res = Inr rs \<longrightarrow> (\<exists>new. rs = [] @ new \<and> map input_of new = inputs \<and>
       (\<forall>s. logs st1 s = logs st0 s @ map norm (filter (\<lambda>r. ir_sessionId r = s) new))))"
      by simp
    with * show ?thesis by simp
  qed
qed

end

section \<open>The two stores keep the contract\<close>

definition persisted :: "interaction_record \<Rightarrow> interaction_record" where
  "persisted r = r\<lparr>ir_payload := to_json (ir_payload r)\<rparr>"

lemma persisted_sel [simp]:
  "ir_sessionId (persisted r) = ir_sessionId r" "ir_recordId (persisted r) = ir_recordId r"
  "ir_recordIndex (persisted r) = ir_recordIndex r" "ir_actorType (persisted r) = ir_actorType r"
  "ir_recordType (persisted r) = ir_recordType r"
  "ir_correlatedTurnId (persisted r) = ir_correlatedTurnId r"
  "ir_committedAt (persisted r) = ir_committedAt r"
  "ir_payload (persisted r) = to_json (ir_payload r)"
  by (simp_all add: persisted_def)

definition sql_log :: "sql_store \<Rightarrow> string \<Rightarrow> interaction_record list" where
  "sql_log st sid = map s_record (sql_rows sid st)"

definition shim_log :: "shim_store \<Rightarrow> string \<Rightarrow> interaction_record list" where
  "shim_log st sid = map s_record (shim_rows sid st)"

lemma sql_rows_inTransaction [simp]: "sql_rows sid (st\<lparr>inTransaction := b\<rparr>) = sql_rows sid st"
  by (simp add: sql_rows_def)

lemma map_filter_update_where:
  "(\<And>r. k (f r) = k r) \<Longrightarrow> (\<And>r. q (f r) = q r) \<Longrightarrow>
   map k (filter q (update_where p f t)) = map k (filter q t)"
  by (induction t) (simp_all add: table_simps)

lemma shim_rows_touch [simp]: "shim_rows sid (snd (getRecords sid' st)) = shim_rows sid st"
  by (auto simp: getRecords_def update_conv' split: option.split)

lemma shim_rows_set_records [simp]:
  "shim_rows sid (set_records sid' rs st) = (if sid = sid' then rs else shim_rows sid st)"
  by (simp add: getRecords_def set_records_def update_conv' split: option.split)

abbreviation sql_view :: "sql_store \<Rightarrow> string \<Rightarrow> stored_record list" where
  "sql_view st sid \<equiv> sql_rows sid st"

abbreviation shim_view :: "shim_store \<Rightarrow> string \<Rightarrow> stored_record list" where
  "shim_view st sid \<equiv> shim_rows sid st"

lemma filter_session_mark:
  "filter (\<lambda>r. ir_sessionId (s_record r) = s)
     (update_where (\<lambda>r. ir_sessionId (s_record r) = sid \<and> p (s_index r)) (\<lambda>r. r\<lparr>s_processed := True\<rparr>) t) =
   (if s = sid then mark_where p (filter (\<lambda>r. ir_sessionId (s_record r) = sid) t)
    else filter (\<lambda>r. ir_sessionId (s_record r) = s) t)"
  by (induction t) (auto simp: table_simps mark_where_def)

lemma sql_view_mark:
  "sql_view (sql_markProcessed sid n st) s =
     (if s = sid then mark_where (\<lambda>i. i \<le> n) (sql_view st sid) else sql_view st s)"
  "sql_view (sql_markRangeProcessed sid m n st) s =
     (if s = sid then mark_where (\<lambda>i. m \<le> i \<and> i \<le> n) (sql_view st sid) else sql_view st s)"
  unfolding sql_rows_def sql_markProcessed_def sql_markRangeProcessed_def
  using filter_session_mark [of s sid "\<lambda>i. i \<le> n" "rows st"]
    filter_session_mark [of s sid "\<lambda>i. m \<le> i \<and> i \<le> n" "rows st"]
  by simp_all

interpretation sql: commit_log sql_ops sql_view sql_log persisted
proof (standard, goal_cases)
  case (6 r)
  show ?case by simp
next
  case (7 f st res st')
  show ?case
  proof (cases "inTransaction st")
    case True
    with 7 have "f st = (res, st')" by (simp add: sql_ops_def sql_runInTransaction_def)
    then show ?thesis by blast
  next
    case False
    obtain r1 st1 where f: "f (st\<lparr>inTransaction := True\<rparr>) = (r1, st1)" by fastforce
    have view_eq: "sql_view (st\<lparr>inTransaction := True\<rparr>) = sql_view st" by (simp add: fun_eq_iff)
    show ?thesis
    proof (cases r1)
      case (Inl e)
      with 7 f False have "res = Inl e" "st' = st" by (simp_all add: sql_ops_def sql_runInTransaction_def)
      then show ?thesis by simp
    next
      case (Inr v)
      with 7 f False have "res = Inr v" "st' = st1\<lparr>inTransaction := False\<rparr>"
        by (simp_all add: sql_ops_def sql_runInTransaction_def)
      then have "sql_view st' = sql_view st1" "f (st\<lparr>inTransaction := True\<rparr>) = (res, st1)"
        using f Inr by (simp_all add: fun_eq_iff)
      with view_eq show ?thesis by blast
    qed
  qed
next
  case (4 r st st')
  then show ?case
    by (auto simp: sql_ops_def sql_commit_def persisted_def sql_rows_def fun_eq_iff split: if_splits)
next
  case (5 r st e st')
  then show ?case by (auto simp: sql_ops_def sql_commit_def split: if_splits)
qed (simp_all add: sql_ops_def sql_getMaxIndex_def sql_log_def sql_view_mark fun_eq_iff)

interpretation shim: commit_log shim_ops shim_view shim_log "\<lambda>r. r"
proof (standard, goal_cases)
  case (6 r)
  show ?case by simp
qed (auto simp: shim_ops_def shim_getMaxIndex_def shim_log_def shim_commit_def Let_def case_prod_unfold
      fun_eq_iff shim_runInTransaction_def shim_markProcessed_def shim_markRangeProcessed_def
      mark_where_def split: if_splits)

section \<open>Reachable logs\<close>

inductive log_reach :: "'s log_ops \<Rightarrow> 's \<Rightarrow> 's \<Rightarrow> bool" for ops :: "'s log_ops" and init :: 's where
  start: "log_reach ops init init"
| commit: "log_reach ops init st \<Longrightarrow> commitInternal ops input ovr uuid now st = (r1, st') \<Longrightarrow>
    log_reach ops init st'"
| batch: "log_reach ops init st \<Longrightarrow> commitBatch ops env inputs st = (r2, st') \<Longrightarrow>
    log_reach ops init st'"
| read: "log_reach ops init st \<Longrightarrow> log_reach ops init (snd (op_getMaxIndex ops sid st))"
| mark: "log_reach ops init st \<Longrightarrow> log_reach ops init (op_markProcessed ops sid n st)"
| mark_range: "log_reach ops init st \<Longrightarrow> log_reach ops init (op_markRangeProcessed ops sid m n st)"

context commit_log
begin

lemma commit_keeps_dense:
  assumes "commitInternal ops input ovr uuid now st = (res, st')" "\<And>s. dense (logs st s)"
  shows "dense (logs st' s)"
proof (cases res)
  case (Inl e)
  with assms(1) have "logs st' = logs st" using commitInternal_error by blast
  with assms(2) show ?thesis by (simp only:)
next
  case (Inr r)
  with assms(1) have "commitInternal ops input ovr uuid now st = (Inr r, st')" by (simp only:)
  from commitInternal_appends [OF this assms(2)]
  have *: "ir_recordIndex r = int (length (logs st (ci_sessionId input)))"
    "logs st' = (logs st)(ci_sessionId input := logs st (ci_sessionId input) @ [norm r])"
    by (rule conjunct1 [OF conjunct2], elim conjE)
  have "dense (logs st (ci_sessionId input) @ [norm r])"
    by (rule dense_snoc [OF assms(2)]) (simp only: norm_index *(1))
  with assms(2) show ?thesis unfolding *(2) by (cases "s = ci_sessionId input") simp_all
qed

lemma reach_dense:
  assumes "log_reach ops init st" "\<And>s. logs init s = []"
  shows "dense (logs st s)"
  using assms(1)
proof (induction arbitrary: s)
  case start
  have "logs init s = []" by (rule assms(2))
  then show ?case by (simp only: dense_Nil)
next
  case (commit st input ovr uuid now r1 st')
  show ?case by (rule commit_keeps_dense [OF commit.hyps(2) commit.IH])
next
  case (batch st env inputs r2 st')
  from commitBatch_appends [OF batch.hyps(2) batch.IH] show ?case by (rule conjunct1 [THEN spec])
next
  case (read st sid)
  then show ?case by (simp only: max_index_logs)
next
  case (mark st sid n)
  then show ?case by (simp only: mark_logs)
next
  case (mark_range st sid m n)
  then show ?case by (simp only: mark_logs)
qed

end

definition empty_sql :: sql_store where
  "empty_sql = \<lparr>rows = [], slots = [], inTransaction = False\<rparr>"

definition empty_shim :: shim_store where
  "empty_shim = \<lparr>recordsBySession = [], slotPayloads = []\<rparr>"

lemma empty_logs [simp]: "sql_log empty_sql s = []" "shim_log empty_shim s = []"
  by (simp_all add: sql_log_def shim_log_def empty_sql_def empty_shim_def sql_rows_def getRecords_def)

lemmas sql_dense = sql.reach_dense [OF _ empty_logs(1)]
lemmas shim_dense = shim.reach_dense [OF _ empty_logs(2)]

text \<open>
  Property (C28): in every state either store reaches by commits, batches (failed ones
  included), reads and marking, the records of a session carry the indexes 0, 1, 2, ... in
  the order they were committed, without a gap or a repetition.
\<close>

theorem log_indexes_dense:
  "(log_reach sql_ops empty_sql st \<longrightarrow> dense (sql_log st sid)) \<and>
   (log_reach shim_ops empty_shim st' \<longrightarrow> dense (shim_log st' sid))"
  using sql_dense shim_dense by blast

definition sample_input :: "string \<Rightarrow> string \<Rightarrow> commit_input" where
  "sample_input sid t =
     \<lparr>ci_sessionId = sid, ci_actorType = ''user'', ci_recordType = t, ci_payload = JStr ''hi'',
      ci_correlatedTurnId = None\<rparr>"

definition sample_env :: "nat \<Rightarrow> string \<times> int" where
  "sample_env i = (''r'' @ nat_str i, 1000 + int i)"

definition sample_batch :: "commit_input list" where
  "sample_batch = [sample_input ''a'' ''message'', sample_input ''b'' ''status'', sample_input ''a'' ''message'']"

definition sample_sql :: sql_store where
  "sample_sql = snd (commitBatch sql_ops sample_env sample_batch empty_sql)"

definition sample_shim :: shim_store where
  "sample_shim = snd (commitBatch shim_ops sample_env sample_batch empty_shim)"

lemma sample_sql_reach: "log_reach sql_ops empty_sql sample_sql"
  unfolding sample_sql_def by (rule log_reach.batch [OF log_reach.start prod.collapse [symmetric]])

lemma sample_shim_reach: "log_reach shim_ops empty_shim sample_shim"
  unfolding sample_shim_def by (rule log_reach.batch [OF log_reach.start prod.collapse [symmetric]])

theorem log_indexes_dense_witness:
  "dense (sql_log sample_sql ''a'') \<and> dense (shim_log sample_shim ''a'') \<and>
   map ir_recordIndex (sql_log sample_sql ''a'') = [0, 1]"
proof -
  have "map ir_recordIndex (sql_log sample_sql ''a'') = [0, 1]" by code_simp
  with log_indexes_dense [of sample_sql "''a''" sample_shim] sample_sql_reach sample_shim_reach
  show ?thesis by blast
qed

section \<open>Batches\<close>

definition record_ids :: "sql_store \<Rightarrow> string set" where
  "record_ids st = (\<lambda>r. ir_recordId (s_record r)) ` set (rows st)"

lemma sql_commit_fresh:
  assumes "\<not> violates_check r" "ir_recordId r \<notin> record_ids st"
    and "ir_recordIndex r \<notin> ir_recordIndex ` set (sql_log st (ir_sessionId r))"
  shows "\<exists>st'. sql_commit r st = (Inr (), st') \<and> record_ids st' = insert (ir_recordId r) (record_ids st)"
proof -
  have "\<not> violates_unique r (rows st)"
  proof
    assume "violates_unique r (rows st)"
    then obtain x where x: "x \<in> set (rows st)" and
      "ir_recordId (s_record x) = ir_recordId r \<or>
       ir_sessionId (s_record x) = ir_sessionId r \<and> s_index x = ir_recordIndex r"
      unfolding violates_unique_def by blast
    from this(2) show False
    proof (elim disjE conjE)
      assume "ir_recordId (s_record x) = ir_recordId r"
      with x assms(2) show False unfolding record_ids_def by (metis imageI)
    next
      assume "ir_sessionId (s_record x) = ir_sessionId r" "s_index x = ir_recordIndex r"
      then have "s_record x \<in> set (sql_log st (ir_sessionId r))" "s_index x = ir_recordIndex r"
        using x by (simp_all add: sql_log_def sql_rows_def)
      with assms(3) show False by (metis imageI)
    qed
  qed
  with assms(1)
  have "sql_commit r st = (Inr (), st\<lparr>rows := rows st @ [\<lparr>s_record = persisted r, s_processed = False\<rparr>]\<rparr>)"
    by (simp add: sql_commit_def persisted_def)
  then show ?thesis by (auto simp: record_ids_def)
qed

lemma next_not_taken: "dense rs \<Longrightarrow> int (length rs) \<notin> ir_recordIndex ` set rs"
  by (auto simp: dense_indexes)

lemma commit_each_succeeds:
  assumes "\<forall>input \<in> set inputs. validateInput input = Inr ()"
    and "\<And>s. dense (sql_log st s)"
    and "next_ok nxt (sql_log st)"
    and "inj_on (fst \<circ> env) {length acc..<length acc + length inputs}"
    and "(fst \<circ> env) ` {length acc..<length acc + length inputs} \<inter> record_ids st = {}"
  shows "\<exists>rs st'. commit_each sql_ops env inputs nxt acc st = (Inr rs, st')"
  using assms
proof (induction inputs arbitrary: nxt acc st)
  case Nil
  then show ?case by simp
next
  case (Cons input inputs)
  let ?sid = "ci_sessionId input"
  obtain i st1 where i: "(case map_of nxt ?sid of Some i \<Rightarrow> (i, st) | None \<Rightarrow> getNextIndex sql_ops ?sid st) = (i, st1)"
    by fastforce
  have idx: "i = int (length (sql_log st ?sid))"
    using sql.take_index [OF i Cons.prems(2,3)] by blast
  have st1: "st1 = st"
    using i by (auto simp: getNextIndex_def sql_ops_def split: option.splits)
  obtain uuid now where env: "env (length acc) = (uuid, now)" by fastforce
  let ?r = "buildRecord input uuid i now" and ?I = "{length acc..<length acc + length (input # inputs)}"
  have here: "length acc \<in> ?I" by simp
  have "uuid \<in> (fst \<circ> env) ` ?I" using here env by (auto intro!: image_eqI [of _ _ "length acc"])
  with Cons.prems(5) have fresh: "uuid \<notin> record_ids st" by blast
  have ok: "validateInput input = Inr ()" using Cons.prems(1) by simp
  have valid: "\<not> violates_check ?r" using ok unfolding validateInput_ok [of input "()" uuid i now] .
  have free: "ir_recordIndex ?r \<notin> ir_recordIndex ` set (sql_log st (ir_sessionId ?r))"
    using next_not_taken [OF Cons.prems(2), of ?sid] by (simp only: buildRecord_sel idx not_False_eq_True)
  have "ir_recordId ?r \<notin> record_ids st" using fresh by (simp only: buildRecord_sel not_False_eq_True)
  from sql_commit_fresh [OF valid this free] obtain st2 where
    st2: "sql_commit ?r st = (Inr (), st2)" "record_ids st2 = insert uuid (record_ids st)"
    unfolding buildRecord_sel by blast
  have log2: "sql_log st2 = (sql_log st)(?sid := sql_log st ?sid @ [persisted ?r])"
    using sql.commit_ok [of ?r st st2] st2(1) by (simp add: sql_ops_def)
  let ?J = "{length (acc @ [?r])..<length (acc @ [?r]) + length inputs}"
  have J: "?J \<subseteq> ?I" "length acc \<notin> ?J" by auto
  have "\<exists>rs st'. commit_each sql_ops env inputs (AList.update ?sid (i + 1) nxt) (acc @ [?r]) st2 = (Inr rs, st')"
  proof (rule Cons.IH)
    show "\<forall>input \<in> set inputs. validateInput input = Inr ()" using Cons.prems(1) by simp
    have "dense (sql_log st ?sid @ [persisted ?r])"
      by (rule dense_snoc [OF Cons.prems(2)]) (simp add: idx)
    with Cons.prems(2) show "dense (sql_log st2 s)" for s
      unfolding log2 by (cases "s = ?sid") simp_all
    show "next_ok (AList.update ?sid (i + 1) nxt) (sql_log st2)"
      unfolding log2 by (rule next_ok_update [OF Cons.prems(3) idx])
    show "inj_on (fst \<circ> env) ?J" using Cons.prems(4) J(1) by (rule inj_on_subset)
    have "uuid \<notin> (fst \<circ> env) ` ?J"
    proof
      assume "uuid \<in> (fst \<circ> env) ` ?J"
      then obtain j where "j \<in> ?J" "(fst \<circ> env) j = (fst \<circ> env) (length acc)" using env by auto
      with Cons.prems(4) here J show False by (metis inj_onD subsetD)
    qed
    with Cons.prems(5) J(1) show "(fst \<circ> env) ` ?J \<inter> record_ids st2 = {}" unfolding st2(2) by blast
  qed
  moreover have "op_commit sql_ops = sql_commit" by (simp add: sql_ops_def)
  ultimately show ?case
    using ok i env st1 st2(1) by (simp add: Let_def)
qed

text \<open>
  Property (C37): a batch on the SQL store is atomic: a failed one leaves the store exactly as
  it was, a successful one returns one record per input, in order, and appends to every
  session the records of that session, so their indexes continue where the session ended.
  With valid types and ids that are new and distinct, it succeeds.
\<close>

theorem commitBatch_atomic:
  assumes "log_reach sql_ops empty_sql st" "\<not> inTransaction st"
  shows "case commitBatch sql_ops env inputs st of
      (Inl e, st') \<Rightarrow> st' = st \<and>
        \<not> ((\<forall>input \<in> set inputs. validateInput input = Inr ()) \<and>
           inj_on (fst \<circ> env) {0..<length inputs} \<and>
           (fst \<circ> env) ` {0..<length inputs} \<inter> record_ids st = {})
    | (Inr rs, st') \<Rightarrow> map input_of rs = inputs \<and>
        (\<forall>s. sql_log st' s = sql_log st s @ map persisted (filter (\<lambda>r. ir_sessionId r = s) rs) \<and>
             dense (sql_log st' s))"
proof -
  have d: "dense (sql_log st s)" for s using sql_dense [OF assms(1)] .
  let ?st = "st\<lparr>inTransaction := True\<rparr>"
  have log: "sql_log ?st = sql_log st" and ids: "record_ids ?st = record_ids st"
    by (simp_all add: sql_log_def fun_eq_iff record_ids_def)
  obtain res st' where run: "commitBatch sql_ops env inputs st = (res, st')" by fastforce
  show ?thesis
  proof (cases res)
    case (Inr rs)
    from sql.commitBatch_appends [OF run d] have "\<forall>s. dense (sql_log st' s)"
      "map input_of rs = inputs"
      "\<forall>s. sql_log st' s = sql_log st s @ map persisted (filter (\<lambda>r. ir_sessionId r = s) rs)"
      using Inr by blast+
    then show ?thesis unfolding run Inr by (simp only: prod.case sum.case) blast
  next
    case (Inl e)
    with run have ne: "inputs \<noteq> []" by (auto simp: commitBatch_def)
    obtain r1 st1 where each: "commit_each sql_ops env inputs [] [] ?st = (r1, st1)" by fastforce
    have "sql_runInTransaction (commit_each sql_ops env inputs [] []) st = (Inl e, st')"
      using run Inl ne by (simp add: commitBatch_def sql_ops_def)
    with each assms(2) have "r1 = Inl e" "st' = st"
      by (simp_all add: sql_runInTransaction_def split: sum.splits)
    moreover have "\<exists>rs st'. commit_each sql_ops env inputs [] [] ?st = (Inr rs, st')"
      if "\<forall>input \<in> set inputs. validateInput input = Inr ()" "inj_on (fst \<circ> env) {0..<length inputs}"
        "(fst \<circ> env) ` {0..<length inputs} \<inter> record_ids st = {}"
      by (rule commit_each_succeeds) (use that d in \<open>simp_all add: log ids\<close>)
    ultimately show ?thesis using run Inl each by auto
  qed
qed

theorem commitBatch_atomic_witness:
  "(\<exists>rs st'. commitBatch sql_ops sample_env sample_batch empty_sql = (Inr rs, st') \<and>
      map input_of rs = sample_batch) \<and>
   snd (commitBatch sql_ops sample_env [sample_input ''a'' ''message'', sample_input ''a'' ''note''] empty_sql)
     = empty_sql"
proof -
  let ?bad = "[sample_input ''a'' ''message'', sample_input ''a'' ''note'']"
  have out: "\<not> inTransaction empty_sql" by (simp add: empty_sql_def)
  have "isl (fst (commitBatch sql_ops sample_env ?bad empty_sql))"
    "\<not> isl (fst (commitBatch sql_ops sample_env sample_batch empty_sql))" by code_simp+
  with commitBatch_atomic [OF log_reach.start out, where env = sample_env and inputs = ?bad]
    commitBatch_atomic [OF log_reach.start out, where env = sample_env and inputs = sample_batch]
  show ?thesis by (auto split: prod.splits sum.splits)
qed

text \<open>
  The in-memory store runs the same batch without a transaction: what was committed before
  the failure stays.
\<close>

lemma shim_batch_keeps_prefix:
  "isl (fst (commitBatch shim_ops sample_env [sample_input ''a'' ''message'', sample_input ''a'' ''note''] empty_shim)) \<and>
   map ir_recordId (shim_log (snd (commitBatch shim_ops sample_env
     [sample_input ''a'' ''message'', sample_input ''a'' ''note''] empty_shim)) ''a'') = [''r0'']"
  by code_simp

end
