(* ===== verification/Flush_Selector.thy ===== *)
theory Flush_Selector
  imports Commit_Service
begin

text \<open>
  Selecting the part of the log to migrate to memory (class \<open>FlushSelector\<close> of
  \<^verbatim>\<open>src/interaction/flush-selector.ts\<close>) over the counting operations of a store, and the
  agreement of the two stores: the in-memory store answers as the SQL store does.
\<close>

section \<open>The selector\<close>

record 's flush_ops =
  fo_countUnprocessedSettlements :: "string \<Rightarrow> 's \<Rightarrow> nat"
  fo_countUnprocessedRpTurns :: "string \<Rightarrow> 's \<Rightarrow> nat"
  fo_getMinMaxUnprocessedIndex :: "string \<Rightarrow> 's \<Rightarrow> (int \<times> int) option"

definition sql_flush_ops :: "sql_store flush_ops" where
  "sql_flush_ops =
     \<lparr>fo_countUnprocessedSettlements = sql_countUnprocessedSettlements,
      fo_countUnprocessedRpTurns = sql_countUnprocessedRpTurns,
      fo_getMinMaxUnprocessedIndex = sql_getMinMaxUnprocessedIndex\<rparr>"

definition shim_flush_ops :: "shim_store flush_ops" where
  "shim_flush_ops =
     \<lparr>fo_countUnprocessedSettlements = shim_countUnprocessedSettlements,
      fo_countUnprocessedRpTurns = shim_countUnprocessedRpTurns,
      fo_getMinMaxUnprocessedIndex = shim_getMinMaxUnprocessedIndex\<rparr>"

datatype flush_mode = dialogue_slice | session_close | manual | autonomous_run

record flush_request =
  fr_sessionId :: string
  fr_agentId :: string
  fr_rangeStart :: int
  fr_rangeEnd :: int
  fr_flushMode :: flush_mode
  fr_idempotencyKey :: string

definition FLUSH_THRESHOLD :: nat where
  "FLUSH_THRESHOLD = 10"

definition int_str :: "int \<Rightarrow> string" where
  "int_str i = (if i < 0 then ''-'' @ nat_str (nat (- i)) else nat_str (nat i))"

definition flush_key :: "string \<Rightarrow> int \<Rightarrow> int \<Rightarrow> string" where
  "flush_key sid lo hi = ''memory.migrate:'' @ sid @ '':'' @ int_str lo @ ''-'' @ int_str hi"

definition shouldFlush :: "'s flush_ops \<Rightarrow> string \<Rightarrow> string \<Rightarrow> 's \<Rightarrow> flush_request option" where
  "shouldFlush fops sid agentId st =
     (let settlementCount = fo_countUnprocessedSettlements fops sid st;
          count = (if settlementCount > 0 then settlementCount
                   else fo_countUnprocessedRpTurns fops sid st)
      in if count < FLUSH_THRESHOLD then None
         else (case fo_getMinMaxUnprocessedIndex fops sid st of
                 None \<Rightarrow> None
               | Some (lo, hi) \<Rightarrow>
                   Some \<lparr>fr_sessionId = sid, fr_agentId = agentId, fr_rangeStart = lo,
                         fr_rangeEnd = hi, fr_flushMode = dialogue_slice,
                         fr_idempotencyKey = flush_key sid lo hi\<rparr>))"

definition buildSessionCloseFlush :: "'s flush_ops \<Rightarrow> string \<Rightarrow> string \<Rightarrow> 's \<Rightarrow> flush_request option" where
  "buildSessionCloseFlush fops sid agentId st =
     (case fo_getMinMaxUnprocessedIndex fops sid st of
        None \<Rightarrow> None
      | Some (lo, hi) \<Rightarrow>
          Some \<lparr>fr_sessionId = sid, fr_agentId = agentId, fr_rangeStart = lo, fr_rangeEnd = hi,
                fr_flushMode = session_close, fr_idempotencyKey = flush_key sid lo hi\<rparr>)"

section \<open>Logs only grow\<close>

definition fresh_record :: "interaction_record \<Rightarrow> stored_record" where
  "fresh_record r = \<lparr>s_record = r, s_processed = False\<rparr>"

definition grown :: "(string \<Rightarrow> stored_record list) \<Rightarrow> (string \<Rightarrow> stored_record list) \<Rightarrow> bool" where
  "grown v v' = (\<forall>s. \<exists>new. v' s = v s @ map fresh_record new)"

lemma grown_refl [simp]: "grown v v"
  unfolding grown_def by (intro allI exI [of _ "[]"]) simp

lemma grown_trans: "grown v v' \<Longrightarrow> grown v' v'' \<Longrightarrow> grown v v''"
  unfolding grown_def by (metis append.assoc map_append)

lemma grown_append: "grown v (v(s := v s @ [fresh_record r]))"
  unfolding grown_def
proof
  fix s'
  show "\<exists>new. (v(s := v s @ [fresh_record r])) s' = v s' @ map fresh_record new"
    by (cases "s' = s") (auto intro: exI [of _ "[r]"] exI [of _ "[]"])
qed

text \<open>In a dense log a record behind the first \<open>n\<close> has an index of at least \<open>n\<close>.\<close>

lemma dense_behind:
  assumes "dense (map s_record (xs @ ys))" "r \<in> set ys"
  shows "int (length xs) \<le> s_index r"
proof -
  from assms(2) obtain j where j: "j < length ys" "r = ys ! j" by (metis in_set_conv_nth)
  from assms(1) have "map s_index (xs @ ys) = map int [0..<length (xs @ ys)]"
    by (simp only: dense_def map_map comp_def length_map)
  moreover have "length xs + j < length (xs @ ys)" using j by simp
  ultimately have "s_index ((xs @ ys) ! (length xs + j)) = int (length xs + j)"
    by (metis (no_types, lifting) length_map nth_map nth_upt add_0 length_upt diff_zero)
  with j show ?thesis by (simp add: nth_append)
qed

definition done_upto :: "int \<Rightarrow> stored_record list \<Rightarrow> bool" where
  "done_upto n rs = (\<forall>r \<in> set rs. s_index r \<le> n \<longrightarrow> s_processed r)"

lemma done_upto_mark: "done_upto n rs \<Longrightarrow> done_upto n (mark_where p rs)"
  by (auto simp: done_upto_def mark_where_def)

lemma length_mark_where: "length (mark_where p rs) = length rs"
  by (simp add: mark_where_def)

context commit_log
begin

lemma next_index_view: "getNextIndex ops s st = (i, st') \<Longrightarrow> view st' = view st"
  using max_index_view [of s st] by (auto simp: getNextIndex_def case_prod_unfold Let_def)

lemma commit_grown:
  assumes "op_commit ops r st = (res, st')"
  shows "grown (view st) (view st')"
proof (cases res)
  case (Inl e)
  with assms commit_err_view show ?thesis by simp
next
  case (Inr u)
  with assms have "op_commit ops r st = (Inr (), st')" by simp
  from commit_view [OF this] show ?thesis
    using grown_append [of "view st" "ir_sessionId r" "norm r"] by (simp add: fresh_record_def)
qed

lemma commitInternal_grown:
  assumes "commitInternal ops input ovr uuid now st = (res, st')"
  shows "grown (view st) (view st')"
proof -
  obtain i st1 where n: "getNextIndex ops (ci_sessionId input) st = (i, st1)" by fastforce
  show ?thesis
    using assms n next_index_view [OF n] commit_grown [of _ st1 _ st']
    by (auto simp: commitInternal_def Let_def split: sum.splits if_splits prod.splits)
qed

lemma commit_each_grown:
  "commit_each ops env inputs nxt acc st = (res, st') \<Longrightarrow> grown (view st) (view st')"
proof (induction inputs arbitrary: nxt acc st)
  case Nil
  then show ?case by simp
next
  case (Cons input inputs)
  let ?sid = "ci_sessionId input"
  show ?case
  proof (cases "validateInput input")
    case (Inl e)
    with Cons.prems show ?thesis by simp
  next
    case (Inr u)
    obtain i st1 where i: "(case map_of nxt ?sid of Some i \<Rightarrow> (i, st) | None \<Rightarrow> getNextIndex ops ?sid st) = (i, st1)"
      by fastforce
    then have st1: "view st1 = view st"
      by (auto dest: next_index_view split: option.splits)
    obtain uuid now where env: "env (length acc) = (uuid, now)" by fastforce
    let ?r = "buildRecord input uuid i now"
    obtain cr st2 where put: "op_commit ops ?r st1 = (cr, st2)" by fastforce
    from commit_grown [OF put] st1 have g: "grown (view st) (view st2)" by simp
    show ?thesis
    proof (cases cr)
      case (Inl e)
      with Cons.prems Inr i env put g show ?thesis by (simp add: Let_def)
    next
      case (Inr u')
      with Cons.prems \<open>validateInput input = Inr u\<close> i env put
      have "commit_each ops env inputs (AList.update ?sid (i + 1) nxt) (acc @ [?r]) st2 = (res, st')"
        by (simp add: Let_def)
      from Cons.IH [OF this] g show ?thesis by (rule grown_trans [rotated])
    qed
  qed
qed

lemma commitBatch_grown:
  assumes "commitBatch ops env inputs st = (res, st')"
  shows "grown (view st) (view st')"
proof (cases "inputs = []")
  case True
  with assms show ?thesis by (simp add: commitBatch_def)
next
  case False
  with assms have "op_runInTransaction ops (commit_each ops env inputs [] []) st = (res, st')"
    by (simp add: commitBatch_def)
  from transact_view [OF this] show ?thesis
    using commit_each_grown by (metis grown_refl)
qed

text \<open>What is processed up to an index below the length of the log stays processed.\<close>

lemma grown_done:
  assumes "grown (view st) (view st')" "done_upto n (view st sid)"
    and "n < int (length (view st sid))" "dense (logs st' sid)"
  shows "done_upto n (view st' sid) \<and> n < int (length (view st' sid))"
proof -
  obtain new where new: "view st' sid = view st sid @ map fresh_record new"
    using assms(1) unfolding grown_def by blast
  have "dense (map s_record (view st sid @ map fresh_record new))"
    using assms(4) unfolding logs_view new .
  from dense_behind [OF this] assms(3)
  have behind: "\<not> s_index r \<le> n" if "r \<in> set (map fresh_record new)" for r using that by fastforce
  have "done_upto n (view st' sid)"
    unfolding done_upto_def new set_append using assms(2) behind unfolding done_upto_def by blast
  with assms(3) new show ?thesis by simp
qed

lemma reach_done:
  assumes "log_reach ops st1 st2" "\<And>s. dense (logs st1 s)"
    and "n < int (length (view st1 sid))" "done_upto n (view st1 sid)"
  shows "(\<forall>s. dense (logs st2 s)) \<and> n < int (length (view st2 sid)) \<and> done_upto n (view st2 sid)"
  using assms(1)
proof induction
  case start
  show ?case using assms(2-4) by blast
next
  case (commit st input ovr uuid now r1 st')
  have "dense (logs st' s)" for s
    by (rule commit_keeps_dense [OF commit.hyps(2)]) (use commit.IH in blast)
  with grown_done [OF commitInternal_grown [OF commit.hyps(2)]] commit.IH show ?case by blast
next
  case (batch st env inputs r2 st')
  have "dense (logs st s)" for s using batch.IH by blast
  from commitBatch_appends [OF batch.hyps(2) this] have "\<forall>s. dense (logs st' s)" by blast
  with grown_done [OF commitBatch_grown [OF batch.hyps(2)]] batch.IH show ?case by blast
next
  case (read st s)
  then show ?case by (simp add: max_index_logs max_index_view)
next
  case (mark st s m)
  then show ?case
    by (cases "s = sid") (auto simp: mark_logs mark_view done_upto_mark length_mark_where)
next
  case (mark_range st s l m)
  then show ?case
    by (cases "s = sid") (auto simp: mark_logs mark_range_view done_upto_mark length_mark_where)
qed

end

section \<open>What a flush request covers\<close>

locale flush_log = commit_log ops view logs norm
  for ops :: "'s log_ops" and view logs norm +
  fixes fops :: "'s flush_ops"
  assumes settlements: "fo_countUnprocessedSettlements fops sid st =
      count_where unprocessed_settlement (view st sid)"
    and rp_turns: "fo_countUnprocessedRpTurns fops sid st = count_where unprocessed_rp_turn (view st sid)"
    and min_max: "fo_getMinMaxUnprocessedIndex fops sid st =
      index_range (filter (\<lambda>r. \<not> s_processed r) (view st sid))"
begin

lemma request_range:
  assumes "shouldFlush fops sid a st = Some fr \<or> buildSessionCloseFlush fops sid a st = Some fr"
  shows "index_range (filter (\<lambda>r. \<not> s_processed r) (view st sid)) = Some (fr_rangeStart fr, fr_rangeEnd fr)"
  using assms
  by (auto simp: shouldFlush_def buildSessionCloseFlush_def Let_def min_max split: if_splits option.splits)

lemma index_range_bounds:
  assumes "index_range rs = Some (lo, hi)"
  shows "lo \<in> s_index ` set rs \<and> hi \<in> s_index ` set rs \<and> (\<forall>r \<in> set rs. lo \<le> s_index r \<and> s_index r \<le> hi)"
proof -
  have ne: "s_index ` set rs \<noteq> {}" and lo: "lo = Min (s_index ` set rs)" and hi: "hi = Max (s_index ` set rs)"
    using assms by (auto simp: index_range_def split: if_splits)
  show ?thesis
    unfolding lo hi using ne by (simp add: Min_in Max_in)
qed

lemma request_covers:
  assumes "shouldFlush fops sid a st = Some fr \<or> buildSessionCloseFlush fops sid a st = Some fr"
  shows "\<forall>r \<in> set (view st sid). \<not> s_processed r \<longrightarrow> fr_rangeStart fr \<le> s_index r \<and> s_index r \<le> fr_rangeEnd fr"
    and "\<exists>r \<in> set (view st sid). \<not> s_processed r \<and> s_index r = fr_rangeStart fr"
    and "\<exists>r \<in> set (view st sid). \<not> s_processed r \<and> s_index r = fr_rangeEnd fr"
  using index_range_bounds [OF request_range [OF assms]] by auto

lemma marked_done:
  assumes "shouldFlush fops sid a st = Some fr \<or> buildSessionCloseFlush fops sid a st = Some fr"
  shows "\<forall>r \<in> set (view (op_markProcessed ops sid (fr_rangeEnd fr) st) sid). s_processed r"
  using request_covers(1) [OF assms] by (auto simp: mark_view mark_where_def)

lemma later_request:
  assumes req: "shouldFlush fops sid a st = Some fr \<or> buildSessionCloseFlush fops sid a st = Some fr"
    and dense: "\<And>s. dense (logs st s)"
    and reach: "log_reach ops (op_markProcessed ops sid (fr_rangeEnd fr) st) st2"
  shows "done_upto (fr_rangeEnd fr) (view st2 sid)"
    and "shouldFlush fops sid b st2 = Some fr2 \<or> buildSessionCloseFlush fops sid b st2 = Some fr2 \<Longrightarrow>
      fr_rangeEnd fr < fr_rangeStart fr2"
proof -
  let ?st1 = "op_markProcessed ops sid (fr_rangeEnd fr) st"
  obtain r where r: "r \<in> set (view st sid)" "s_index r = fr_rangeEnd fr"
    using request_covers(3) [OF req] by blast
  have "fr_rangeEnd fr \<in> ir_recordIndex ` set (logs st sid)"
    using r by (auto simp: logs_view intro!: image_eqI [of _ _ "s_record r"])
  then have "fr_rangeEnd fr < int (length (view st sid))"
    using dense_indexes [OF dense [of sid]] by (auto simp: logs_view)
  then have len: "fr_rangeEnd fr < int (length (view ?st1 sid))"
    by (simp add: mark_view length_mark_where)
  have d1: "dense (logs ?st1 s)" for s using dense by (simp add: mark_logs)
  have "done_upto (fr_rangeEnd fr) (view ?st1 sid)"
    using marked_done [OF req] by (simp add: done_upto_def)
  from reach_done [OF reach d1 len this]
  show done': "done_upto (fr_rangeEnd fr) (view st2 sid)" by blast
  assume "shouldFlush fops sid b st2 = Some fr2 \<or> buildSessionCloseFlush fops sid b st2 = Some fr2"
  from request_covers(2) [OF this] done' show "fr_rangeEnd fr < fr_rangeStart fr2"
    unfolding done_upto_def by (metis not_less)
qed

lemma enough:
  assumes "shouldFlush fops sid a st = Some fr"
  shows "FLUSH_THRESHOLD \<le> length (filter (\<lambda>r. \<not> s_processed r) (view st sid))"
proof -
  have "count_where unprocessed_settlement rs \<le> length (filter (\<lambda>r. \<not> s_processed r) rs)"
    "count_where unprocessed_rp_turn rs \<le> length (filter (\<lambda>r. \<not> s_processed r) rs)" for rs
    by (induction rs) (auto simp: count_where_def unprocessed_settlement_def unprocessed_rp_turn_def)
  with assms show ?thesis
    by (auto simp: shouldFlush_def Let_def settlements rp_turns not_less split: if_splits elim: order_trans)
qed

end

interpretation sql_flush: flush_log sql_ops sql_view sql_log persisted sql_flush_ops
  by unfold_locales
    (simp_all add: sql_flush_ops_def sql_countUnprocessedSettlements_def sql_countUnprocessedRpTurns_def
      sql_getMinMaxUnprocessedIndex_def)

interpretation shim_flush: flush_log shim_ops shim_view shim_log "\<lambda>r. r" shim_flush_ops
  by unfold_locales
    (simp_all add: shim_flush_ops_def shim_countUnprocessedSettlements_def shim_countUnprocessedRpTurns_def
      shim_getMinMaxUnprocessedIndex_def count_where_def)

text \<open>
  Property (C7): a flush request of the selector is made only with at least ten unprocessed
  records and covers every unprocessed record of the session. Once the request's range has
  been marked as processed, whatever is committed, marked or read afterwards leaves every
  record of that range processed, and every later request of the session starts behind it:
  no record is flushed twice and the idempotency ranges never overlap.
\<close>

theorem flush_exactly_once:
  assumes "log_reach shim_ops empty_shim st" "shouldFlush shim_flush_ops sid a st = Some fr"
    and "log_reach shim_ops (shim_markProcessed sid (fr_rangeEnd fr) st) st2"
  shows "10 \<le> length (filter (\<lambda>r. \<not> s_processed r) (shim_rows sid st)) \<and>
    (\<forall>r \<in> set (shim_rows sid st). \<not> s_processed r \<longrightarrow>
       fr_rangeStart fr \<le> s_index r \<and> s_index r \<le> fr_rangeEnd fr) \<and>
    (\<forall>r \<in> set (shim_rows sid st2). s_index r \<le> fr_rangeEnd fr \<longrightarrow> s_processed r) \<and>
    (\<forall>b fr2. shouldFlush shim_flush_ops sid b st2 = Some fr2 \<or>
       buildSessionCloseFlush shim_flush_ops sid b st2 = Some fr2 \<longrightarrow> fr_rangeEnd fr < fr_rangeStart fr2)"
proof -
  have d: "dense (shim_log st s)" for s using shim_dense [OF assms(1)] .
  have req: "shouldFlush shim_flush_ops sid a st = Some fr \<or>
      buildSessionCloseFlush shim_flush_ops sid a st = Some fr" using assms(2) ..
  have mark: "op_markProcessed shim_ops = shim_markProcessed" by (simp add: shim_ops_def)
  have reach: "log_reach shim_ops (op_markProcessed shim_ops sid (fr_rangeEnd fr) st) st2"
    using assms(3) unfolding mark .
  show ?thesis
    using shim_flush.enough [OF assms(2)] shim_flush.request_covers(1) [OF req]
      shim_flush.later_request [OF req d reach]
    unfolding FLUSH_THRESHOLD_def done_upto_def by blast
qed

definition ten_turns :: shim_store where
  "ten_turns = snd (commitBatch shim_ops sample_env (replicate 10 (sample_input ''a'' ''message'')) empty_shim)"

definition flushed_turns :: shim_store where
  "flushed_turns =
     snd (commitBatch shim_ops (\<lambda>i. (''s'' @ nat_str i, 2000)) [sample_input ''a'' ''message'']
       (shim_markProcessed ''a'' 9 ten_turns))"

theorem flush_exactly_once_witness:
  "\<exists>fr fr2. shouldFlush shim_flush_ops ''a'' ''m'' ten_turns = Some fr \<and>
     buildSessionCloseFlush shim_flush_ops ''a'' ''m'' flushed_turns = Some fr2 \<and>
     fr_rangeEnd fr = 9 \<and> fr_rangeStart fr2 = 10 \<and> fr_rangeEnd fr < fr_rangeStart fr2"
proof -
  obtain fr where fr: "shouldFlush shim_flush_ops ''a'' ''m'' ten_turns = Some fr" "fr_rangeEnd fr = 9"
    by (rule that [of "the (shouldFlush shim_flush_ops ''a'' ''m'' ten_turns)"]) code_simp+
  obtain fr2 where fr2: "buildSessionCloseFlush shim_flush_ops ''a'' ''m'' flushed_turns = Some fr2"
    "fr_rangeStart fr2 = 10"
    by (rule that [of "the (buildSessionCloseFlush shim_flush_ops ''a'' ''m'' flushed_turns)"]) code_simp+
  have r1: "log_reach shim_ops empty_shim ten_turns"
    unfolding ten_turns_def by (rule log_reach.batch [OF log_reach.start prod.collapse [symmetric]])
  have r2: "log_reach shim_ops (shim_markProcessed ''a'' (fr_rangeEnd fr) ten_turns) flushed_turns"
    unfolding flushed_turns_def fr(2)
    by (rule log_reach.batch [OF log_reach.start prod.collapse [symmetric]])
  from flush_exactly_once [OF r1 fr(1) r2] fr fr2 show ?thesis by blast
qed

end
