(* ===== verification/Log_Refinement.thy ===== *)
theory Log_Refinement
  imports Flush_Selector
begin

text \<open>
  The in-memory store of \<^verbatim>\<open>src/bootstrap/runtime.ts\<close> stands in for the SQL store of
  \<^verbatim>\<open>src/interaction/store.ts\<close>: every sequence of calls the SQL store accepts is accepted by the
  in-memory store with the same results, and then both answer every query alike. The
  relation \<open>agree\<close> maps each in-memory record to the row it has in the table.
\<close>

definition keep :: "stored_record \<Rightarrow> stored_record" where
  "keep r = r\<lparr>s_record := persisted (s_record r)\<rparr>"

lemma keep_sel [simp]:
  "s_record (keep r) = persisted (s_record r)" "s_processed (keep r) = s_processed r"
  by (simp_all add: keep_def)

lemma keep_mark [simp]: "keep (r\<lparr>s_processed := b\<rparr>) = (keep r)\<lparr>s_processed := b\<rparr>"
  by (simp add: keep_def)

definition agree :: "sql_store \<Rightarrow> shim_store \<Rightarrow> bool" where
  "agree sq sh = (\<forall>sid. sql_rows sid sq = map keep (shim_rows sid sh))"

lemma agreeD: "agree sq sh \<Longrightarrow> sql_rows sid sq = map keep (shim_rows sid sh)"
  by (simp add: agree_def)

section \<open>Queries\<close>

lemma filter_keep: "(\<And>r. P (keep r) = P r) \<Longrightarrow> filter P (map keep rs) = map keep (filter P rs)"
  by (induction rs) simp_all

lemma by_index_keep: "by_index (map keep rs) = map keep (by_index rs)"
  unfolding by_index_def by (rule sort_by_map) simp

lemma index_keep: "map s_index (map keep rs) = map s_index rs"
  by simp

lemma index_range_keep [simp]: "index_range (map keep rs) = index_range rs"
  unfolding index_range_def index_keep by simp

lemma index_max_keep [simp]: "index_max (map keep rs) = index_max rs"
  unfolding index_max_def index_keep by simp

lemma count_keep: "(\<And>r. P (keep r) = P r) \<Longrightarrow> count_where P (map keep rs) = length (filter P rs)"
  by (simp add: count_where_def filter_keep)

lemma class_keep [simp]:
  "unprocessed_settlement (keep r) = unprocessed_settlement r"
  "unprocessed_rp_turn (keep r) = unprocessed_rp_turn r"
  by (simp_all add: unprocessed_settlement_def unprocessed_rp_turn_def)

lemma set_by_index [simp]: "set (by_index rs) = set rs"
  by (simp add: by_index_def)

interpretation index_order: ranked "\<lambda>a b. s_index a < s_index b" s_index
  by unfold_locales simp

lemma by_index_filter: "by_index (filter P rs) = filter P (by_index rs)"
  unfolding by_index_def by (rule index_order.sort_by_filter)

lemma dense_sorted:
  assumes "dense (map s_record rs)"
  shows "by_index rs = rs"
proof -
  have "map s_index rs = map int [0..<length rs]"
    using assms by (simp add: dense_def comp_def)
  then have "sorted_wrt (<) (map s_index rs)" by (simp add: sorted_wrt_map)
  then have "sorted_wrt (\<lambda>a b. s_index a < s_index b) rs" by (simp add: sorted_wrt_map)
  then show ?thesis unfolding by_index_def
  proof (induction rs)
    case (Cons r rs)
    then show ?case by (cases rs) auto
  qed simp
qed

lemma is_object_to_json [simp]: "is_object (to_json v) = is_object v"
  by (cases v rule: to_json.cases) (simp_all add: is_object_def)

text \<open>What a store answers about one session.\<close>

record answers =
  an_messages :: "interaction_record list \<times> interaction_record list"
  an_bySession :: "int option \<Rightarrow> int option \<Rightarrow> nat option \<Rightarrow> interaction_record list"
  an_byRange :: "int \<Rightarrow> int \<Rightarrow> interaction_record list"
  an_exists :: "string \<Rightarrow> bool"
  an_correlated :: "string \<Rightarrow> string \<Rightarrow> interaction_record option"
  an_payload :: "string \<Rightarrow> json option"
  an_counts :: "nat \<times> nat"
  an_ranges :: "(int \<times> int) option \<times> (int \<times> int) option \<times> int option"

definition sql_answers :: "string \<Rightarrow> sql_store \<Rightarrow> answers" where
  "sql_answers sid st =
     \<lparr>an_messages = (sql_getMessageRecords sid False st, sql_getMessageRecords sid True st),
      an_bySession = (\<lambda>a b l. sql_getBySession sid a b (map_option int l) st),
      an_byRange = (\<lambda>a b. sql_getByRange sid a b st),
      an_exists = (\<lambda>i. sql_settlementExists sid i st),
      an_correlated = (\<lambda>t a. sql_findRecordByCorrelatedTurnId sid t a st),
      an_payload = (\<lambda>q. sql_getSettlementPayload sid q st),
      an_counts = (sql_countUnprocessedSettlements sid st, sql_countUnprocessedRpTurns sid st),
      an_ranges = (sql_getUnprocessedRangeForSession sid st, sql_getUnprocessedSettlementRange sid st,
        sql_getMaxIndex sid st)\<rparr>"

text \<open>The same of the in-memory store, with the payloads as they come out of the database.\<close>

definition shim_answers :: "string \<Rightarrow> shim_store \<Rightarrow> answers" where
  "shim_answers sid st =
     \<lparr>an_messages = (map persisted (shim_getMessageRecords sid False st),
        map persisted (shim_getMessageRecords sid True st)),
      an_bySession = (\<lambda>a b l. map persisted (shim_getBySession sid a b (map_option int l) st)),
      an_byRange = (\<lambda>a b. map persisted (shim_getByRange sid a b st)),
      an_exists = (\<lambda>i. shim_settlementExists sid i st),
      an_correlated = (\<lambda>t a. map_option persisted (shim_findRecordByCorrelatedTurnId sid t a st)),
      an_payload = (\<lambda>q. map_option to_json (shim_getSettlementPayload sid q st)),
      an_counts = (shim_countUnprocessedSettlements sid st, shim_countUnprocessedRpTurns sid st),
      an_ranges = (shim_getUnprocessedRangeForSession sid st, shim_getUnprocessedSettlementRange sid st,
        shim_getMaxIndex sid st)\<rparr>"

lemma find_keep: "(\<And>r. P (keep r) = P r) \<Longrightarrow> find P (map keep rs) = map_option keep (find P rs)"
  by (induction rs) simp_all

lemma filter_if_filter: "(if t then filter q (filter p xs) else filter p xs) = filter (\<lambda>r. p r \<and> (t \<longrightarrow> q r)) xs"
  by (simp add: conj_commute)

lemma answers_agree:
  assumes "agree sq sh" "dense (shim_log sh sid)"
  shows "sql_answers sid sq = shim_answers sid sh"
proof -
  note rows = agreeD [OF assms(1)]
  have sorted: "getSortedRecords sid sh = shim_rows sid sh"
    using assms(2) dense_sorted unfolding getSortedRecords_def shim_log_def by blast
  have msgs: "sql_getMessageRecords sid t sq = map persisted (shim_getMessageRecords sid t sh)" for t
    by (cases t) (simp_all add: sql_getMessageRecords_def shim_getMessageRecords_def rows filter_keep
        by_index_keep by_index_filter getSortedRecords_def conj_commute)
  have bySession: "sql_getBySession sid a b (map_option int l) sq =
      map persisted (shim_getBySession sid a b (map_option int l) sh)" for a b l
    by (cases a; cases b; cases l)
      (simp_all add: sql_getBySession_def shim_getBySession_def rows filter_keep by_index_keep
        by_index_filter getSortedRecords_def Let_def take_map slice_0_def conj_commute)
  have byRange: "sql_getByRange sid a b sq = map persisted (shim_getByRange sid a b sh)" for a b
    by (simp add: sql_getByRange_def shim_getByRange_def rows filter_keep by_index_keep by_index_filter
        getSortedRecords_def)
  have exists': "sql_settlementExists sid i sq = shim_settlementExists sid i sh" for i
    by (auto simp: sql_settlementExists_def shim_settlementExists_def rows)
  have corr: "sql_findRecordByCorrelatedTurnId sid t a sq =
      map_option persisted (shim_findRecordByCorrelatedTurnId sid t a sh)" for t a
    by (simp add: sql_findRecordByCorrelatedTurnId_def shim_findRecordByCorrelatedTurnId_def rows
        find_keep option.map_comp comp_def)
  have payload: "sql_getSettlementPayload sid q sq = map_option to_json (shim_getSettlementPayload sid q sh)" for q
  proof -
    let ?f = "filter (\<lambda>r. of_type ''turn_settlement'' r \<and> ir_correlatedTurnId (s_record r) = Some q)
      (shim_rows sid sh)"
    have "filter (\<lambda>r. ir_correlatedTurnId (s_record r) = Some q \<and> of_type ''turn_settlement'' r)
        (sql_rows sid sq) = map keep ?f"
      by (simp add: rows filter_keep conj_commute)
    then show ?thesis
      unfolding sql_getSettlementPayload_def shim_getSettlementPayload_def sorted
      by (cases "rev ?f") (simp_all add: rev_map [symmetric])
  qed
  have counts: "sql_countUnprocessedSettlements sid sq = shim_countUnprocessedSettlements sid sh"
    "sql_countUnprocessedRpTurns sid sq = shim_countUnprocessedRpTurns sid sh"
    by (simp_all add: sql_countUnprocessedSettlements_def shim_countUnprocessedSettlements_def
        sql_countUnprocessedRpTurns_def shim_countUnprocessedRpTurns_def rows count_keep)
  have ranges: "sql_getUnprocessedRangeForSession sid sq = shim_getUnprocessedRangeForSession sid sh"
    "sql_getUnprocessedSettlementRange sid sq = shim_getUnprocessedSettlementRange sid sh"
    "sql_getMaxIndex sid sq = shim_getMaxIndex sid sh"
    by (simp_all add: sql_getUnprocessedRangeForSession_def shim_getUnprocessedRangeForSession_def
        sql_getMinMaxUnprocessedIndex_def shim_getMinMaxUnprocessedIndex_def
        sql_getUnprocessedSettlementRange_def shim_getUnprocessedSettlementRange_def
        sql_getMaxIndex_def shim_getMaxIndex_def rows filter_keep)
  show ?thesis
    by (simp add: sql_answers_def shim_answers_def msgs bySession byRange exists' corr payload counts ranges)
qed

section \<open>Calls\<close>

datatype log_call =
    Call_commit commit_input "string option" string int
  | Call_batch "nat \<Rightarrow> string \<times> int" "commit_input list"
  | Call_mark string int
  | Call_mark_range string int int

text \<open>The records a call returns and the state it leaves, or \<open>None\<close> when it throws.\<close>

fun run_call :: "'s log_ops \<Rightarrow> log_call \<Rightarrow> 's \<Rightarrow> (interaction_record list \<times> 's) option" where
  "run_call ops (Call_commit input ovr uuid now) st =
     (case commitInternal ops input ovr uuid now st of (Inr r, st') \<Rightarrow> Some ([r], st') | _ \<Rightarrow> None)"
| "run_call ops (Call_batch env inputs) st =
     (case commitBatch ops env inputs st of (Inr rs, st') \<Rightarrow> Some (rs, st') | _ \<Rightarrow> None)"
| "run_call ops (Call_mark sid n) st = Some ([], op_markProcessed ops sid n st)"
| "run_call ops (Call_mark_range sid m n) st = Some ([], op_markRangeProcessed ops sid m n st)"

fun run_calls :: "'s log_ops \<Rightarrow> log_call list \<Rightarrow> 's \<Rightarrow> (interaction_record list \<times> 's) option" where
  "run_calls ops [] st = Some ([], st)"
| "run_calls ops (c # cs) st =
     (case run_call ops c st of
        None \<Rightarrow> None
      | Some (rs, st1) \<Rightarrow> map_option (\<lambda>(rs', st2). (rs @ rs', st2)) (run_calls ops cs st1))"

lemma agree_next:
  assumes "agree sq sh"
  shows "fst (getNextIndex shim_ops sid sh) = fst (getNextIndex sql_ops sid sq)"
    and "agree (snd (getNextIndex sql_ops sid sq)) (snd (getNextIndex shim_ops sid sh))"
  using agreeD [OF assms, of sid] assms
  by (simp_all add: getNextIndex_def sql_ops_def shim_ops_def sql_getMaxIndex_def shim_getMaxIndex_def
      agree_def)

lemma agree_commit:
  assumes "agree sq sh" "op_commit sql_ops r sq = (Inr (), sq')"
  shows "\<exists>sh'. op_commit shim_ops r sh = (Inr (), sh') \<and> agree sq' sh'"
proof -
  have "\<not> violates_unique r (rows sq)"
    and sq': "sq' = sq\<lparr>rows := rows sq @ [\<lparr>s_record = persisted r, s_processed = False\<rparr>]\<rparr>"
    using assms(2) by (auto simp: sql_ops_def sql_commit_def persisted_def split: if_splits)
  then have "\<forall>x \<in> set (sql_rows (ir_sessionId r) sq). ir_recordId (s_record x) \<noteq> ir_recordId r"
    by (auto simp: violates_unique_def sql_rows_def)
  then have "\<not> (\<exists>x \<in> set (shim_rows (ir_sessionId r) sh). ir_recordId (s_record x) = ir_recordId r)"
    unfolding agreeD [OF assms(1)] by simp
  then have "op_commit shim_ops r sh = (Inr (), set_records (ir_sessionId r)
      (shim_rows (ir_sessionId r) sh @ [\<lparr>s_record = r, s_processed = False\<rparr>])
      (snd (getRecords (ir_sessionId r) sh)))"
    by (simp add: shim_ops_def shim_commit_def case_prod_unfold Let_def)
  moreover have "sql_rows s sq' = (if s = ir_sessionId r
      then sql_rows s sq @ [\<lparr>s_record = persisted r, s_processed = False\<rparr>] else sql_rows s sq)" for s
    by (simp add: sq' sql_rows_def)
  ultimately show ?thesis using assms(1) by (simp add: agree_def keep_def)
qed

lemma agree_commitInternal:
  assumes "agree sq sh" "commitInternal sql_ops input ovr uuid now sq = (Inr r, sq')"
  shows "\<exists>sh'. commitInternal shim_ops input ovr uuid now sh = (Inr r, sh') \<and> agree sq' sh'"
proof -
  let ?sid = "ci_sessionId input"
  obtain n sq1 where n: "getNextIndex sql_ops ?sid sq = (n, sq1)" by fastforce
  obtain sh1 where n': "getNextIndex shim_ops ?sid sh = (n, sh1)" "agree sq1 sh1"
    using agree_next [OF assms(1), of ?sid] n by (metis fst_conv prod.collapse snd_conv)
  have ok: "op_commit sql_ops r sq1 = (Inr (), sq')"
    and r: "r = buildRecord input (case ovr of Some i \<Rightarrow> i | None \<Rightarrow> uuid) n now"
    and pre: "validateInput input = Inr ()" "\<not> (ovr \<noteq> None \<and> ci_recordType input \<noteq> ''turn_settlement'')"
    using assms(2) n by (auto simp: commitInternal_def Let_def split: sum.splits if_splits prod.splits)
  from agree_commit [OF n'(2) ok] obtain sh' where "op_commit shim_ops r sh1 = (Inr (), sh')" "agree sq' sh'"
    by blast
  with n'(1) r pre show ?thesis by (auto simp: commitInternal_def Let_def)
qed

lemma agree_commit_each:
  "agree sq sh \<Longrightarrow> commit_each sql_ops env inputs nxt acc sq = (Inr rs, sq') \<Longrightarrow>
   \<exists>sh'. commit_each shim_ops env inputs nxt acc sh = (Inr rs, sh') \<and> agree sq' sh'"
proof (induction inputs arbitrary: nxt acc sq sh)
  case Nil
  then show ?case by simp
next
  case (Cons input inputs)
  let ?sid = "ci_sessionId input"
  have v: "validateInput input = Inr ()"
    using Cons.prems(2) by (auto split: sum.splits)
  obtain n sq1 where n: "(case map_of nxt ?sid of Some i \<Rightarrow> (i, sq) | None \<Rightarrow> getNextIndex sql_ops ?sid sq) = (n, sq1)"
    by fastforce
  obtain sh1 where n': "(case map_of nxt ?sid of Some i \<Rightarrow> (i, sh) | None \<Rightarrow> getNextIndex shim_ops ?sid sh) = (n, sh1)"
    "agree sq1 sh1"
  proof (cases "map_of nxt ?sid")
    case None
    then show thesis
      using that n agree_next [OF Cons.prems(1), of ?sid] by (metis fst_conv option.simps(4) prod.collapse snd_conv)
  next
    case (Some i)
    with n Cons.prems(1) that show thesis by simp
  qed
  obtain uuid now where env: "env (length acc) = (uuid, now)" by fastforce
  let ?r = "buildRecord input uuid n now"
  obtain sq2 where put: "op_commit sql_ops ?r sq1 = (Inr (), sq2)"
    and rest: "commit_each sql_ops env inputs (AList.update ?sid (n + 1) nxt) (acc @ [?r]) sq2 = (Inr rs, sq')"
    using Cons.prems(2) v n env by (auto simp: Let_def split: sum.splits prod.splits)
  from agree_commit [OF n'(2) put] obtain sh2 where
    sh2: "op_commit shim_ops ?r sh1 = (Inr (), sh2)" "agree sq2 sh2" by blast
  from Cons.IH [OF sh2(2) rest] v n'(1) env sh2(1) show ?case by (simp add: Let_def)
qed

lemma agree_mark:
  assumes "agree sq sh"
  shows "agree (op_markProcessed sql_ops sid n sq) (op_markProcessed shim_ops sid n sh)"
    and "agree (op_markRangeProcessed sql_ops sid m n sq) (op_markRangeProcessed shim_ops sid m n sh)"
  using assms
  by (simp_all add: agree_def sql.mark_view [unfolded fun_eq_iff] shim.mark_view [unfolded fun_eq_iff]
      sql.mark_range_view [unfolded fun_eq_iff] shim.mark_range_view [unfolded fun_eq_iff] mark_where_def)

lemma shim_transact: "op_runInTransaction shim_ops f st = f st"
  by (simp add: shim_ops_def shim_runInTransaction_def)

lemma agree_batch:
  assumes "agree sq sh" "commitBatch sql_ops env inputs sq = (Inr rs, sq')"
  shows "\<exists>sh'. commitBatch shim_ops env inputs sh = (Inr rs, sh') \<and> agree sq' sh'"
proof (cases "inputs = []")
  case True
  with assms show ?thesis by (simp add: commitBatch_def)
next
  case False
  have flag: "agree (x\<lparr>inTransaction := b\<rparr>) y = agree x y" for x y b by (simp add: agree_def)
  from assms(2) False obtain x x' where "commit_each sql_ops env inputs [] [] x = (Inr rs, x')"
    "agree x sh" "\<And>y. agree sq' y = agree x' y"
    using assms(1) flag
    by (auto simp: commitBatch_def sql_ops_def sql_runInTransaction_def split: if_splits prod.splits sum.splits)
  with agree_commit_each False show ?thesis
    unfolding commitBatch_def shim_transact by simp
qed

lemma agree_call:
  assumes "agree sq sh" "run_call sql_ops c sq = Some (rs, sq')"
  shows "\<exists>sh'. run_call shim_ops c sh = Some (rs, sh') \<and> agree sq' sh'"
proof (cases c)
  case (Call_commit input ovr uuid now)
  with assms(2) obtain r where "commitInternal sql_ops input ovr uuid now sq = (Inr r, sq')" "rs = [r]"
    by (auto split: prod.splits sum.splits)
  with agree_commitInternal [OF assms(1)] Call_commit show ?thesis by fastforce
next
  case (Call_batch env inputs)
  with assms(2) have "commitBatch sql_ops env inputs sq = (Inr rs, sq')"
    by (auto split: prod.splits sum.splits)
  with agree_batch [OF assms(1)] Call_batch show ?thesis by fastforce
qed (use assms agree_mark in auto)

lemma agree_calls:
  "agree sq sh \<Longrightarrow> run_calls sql_ops cs sq = Some (rs, sq') \<Longrightarrow>
   \<exists>sh'. run_calls shim_ops cs sh = Some (rs, sh') \<and> agree sq' sh'"
proof (induction cs arbitrary: sq sh rs)
  case Nil
  then show ?case by simp
next
  case (Cons c cs)
  then obtain rs1 sq1 rs2 where c: "run_call sql_ops c sq = Some (rs1, sq1)"
    and cs: "run_calls sql_ops cs sq1 = Some (rs2, sq')" and rs: "rs = rs1 @ rs2"
    by (auto split: option.splits)
  from agree_call [OF Cons.prems(1) c] obtain sh1 where
    sh1: "run_call shim_ops c sh = Some (rs1, sh1)" "agree sq1 sh1" by blast
  from Cons.IH [OF sh1(2) cs] sh1(1) rs show ?case by auto
qed

lemma run_call_reach:
  "log_reach ops init st \<Longrightarrow> run_call ops c st = Some (rs, st') \<Longrightarrow> log_reach ops init st'"
  by (cases c) (auto split: prod.splits sum.splits intro: log_reach.intros)

lemma run_calls_reach:
  "log_reach ops init st \<Longrightarrow> run_calls ops cs st = Some (rs, st') \<Longrightarrow> log_reach ops init st'"
  by (induction cs arbitrary: st rs) (auto split: option.splits dest: run_call_reach)

text \<open>
  Property (C4): the in-memory store refines the SQL store: every sequence of commits, batches
  and markings that the SQL store carries out is carried out by the in-memory store with the
  same records returned, and then every query about every session has the same answer from
  both, up to the JSON form of the payloads.
\<close>

theorem stores_agree:
  assumes "run_calls sql_ops calls empty_sql = Some (rs, sq)"
  shows "\<exists>sh. run_calls shim_ops calls empty_shim = Some (rs, sh) \<and>
    (\<forall>sid. sql_answers sid sq = shim_answers sid sh)"
proof -
  have "agree empty_sql empty_shim"
    by (simp add: agree_def empty_sql_def empty_shim_def sql_rows_def getRecords_def)
  from agree_calls [OF this assms] obtain sh where
    sh: "run_calls shim_ops calls empty_shim = Some (rs, sh)" "agree sq sh" by blast
  have "dense (shim_log sh sid)" for sid
    using shim_dense [OF run_calls_reach [OF log_reach.start sh(1)]] .
  with sh answers_agree show ?thesis by blast
qed

definition sample_calls :: "log_call list" where
  "sample_calls =
     [Call_batch sample_env sample_batch,
      Call_commit (sample_input ''a'' ''turn_settlement'') (Some ''s1'') ''u'' 7,
      Call_mark ''a'' 1]"

theorem stores_agree_witness:
  "\<exists>rs sq sh. run_calls sql_ops sample_calls empty_sql = Some (rs, sq) \<and>
     run_calls shim_ops sample_calls empty_shim = Some (rs, sh) \<and>
     sql_answers ''a'' sq = shim_answers ''a'' sh \<and> shim_getMaxIndex ''a'' sh = Some 2"
proof -
  obtain rs sq where run: "run_calls sql_ops sample_calls empty_sql = Some (rs, sq)"
  proof -
    have "run_calls sql_ops sample_calls empty_sql \<noteq> None" by code_simp
    then show thesis using that by auto
  qed
  from stores_agree [OF run] obtain sh where
    sh: "run_calls shim_ops sample_calls empty_shim = Some (rs, sh)"
    "\<forall>sid. sql_answers sid sq = shim_answers sid sh" by blast
  have "map_option (\<lambda>(rs, sh). shim_getMaxIndex ''a'' sh) (run_calls shim_ops sample_calls empty_shim)
      = Some (Some 2)" by code_simp
  with sh run show ?thesis by auto
qed

end
