(* ===== verification/Recovery.thy ===== *)
theory Recovery
  imports Flush_Selector
begin

text \<open>
  Recovery of settlements whose memory flush is still pending: the table
  \<open>pending_settlement_recovery\<close> with the operations of \<open>PgPendingFlushRecoveryRepo\<close>
  (\<^verbatim>\<open>src/storage/domain-repos/pg/pending-flush-recovery-repo.ts\<close>) and the sweep of
  \<open>PendingSettlementSweeper\<close> (\<^verbatim>\<open>src/memory/pending-settlement-sweeper.ts\<close>) over it and the
  in-memory interaction store.

  The table carries the partial unique index of its schema: at most one row per session is
  pending or scheduled for retry; a statement that would break it throws. What
  \<open>memoryTaskAgent.runMigrate\<close> does is an argument, its outcome. Of the error texts the
  error code is kept. \<open>Math.random()\<close> is an argument, and the product with it is taken
  exactly. The sweep of missing thinker jobs is not modelled here.
\<close>

section \<open>The table\<close>

datatype recovery_status = rs_pending | rs_retry_scheduled | rs_resolved | rs_hard_failed

record recovery_row =
  rv_sessionId :: string
  rv_agentId :: string
  rv_rangeStart :: int
  rv_rangeEnd :: int
  rv_failureCount :: int
  rv_backoffMs :: int
  rv_nextAttemptAt :: "int option"
  rv_lastError :: "error_code option"
  rv_status :: recovery_status
  rv_createdAt :: int
  rv_updatedAt :: int

type_synonym recovery_table = "recovery_row list"

definition ACTIVE_STATUSES :: "recovery_status list" where
  "ACTIVE_STATUSES = [rs_pending, rs_retry_scheduled]"

abbreviation rv_active :: "recovery_row \<Rightarrow> bool" where
  "rv_active r \<equiv> rv_status r \<in> set ACTIVE_STATUSES"

definition active_unique :: "recovery_table \<Rightarrow> bool" where
  "active_unique t = distinct (map rv_sessionId (filter rv_active t))"

text \<open>A statement on the table: it throws when its result breaks the unique index.\<close>

definition checked :: "recovery_table \<Rightarrow> recovery_table \<Rightarrow> (thrown, unit) result \<times> recovery_table" where
  "checked t t' = (if active_unique t' then (Inr (), t') else (Inl Plain_error, t))"

definition recordPending :: "string \<Rightarrow> string \<Rightarrow> int \<Rightarrow> int \<Rightarrow> int option \<Rightarrow> int \<Rightarrow> recovery_table \<Rightarrow> recovery_table" where
  "recordPending sid agent lo hi nextAttemptAt now t =
     (if \<exists>r \<in> set t. rv_sessionId r = sid \<and> rv_active r then t
      else t @ [\<lparr>rv_sessionId = sid, rv_agentId = agent, rv_rangeStart = lo, rv_rangeEnd = hi,
                 rv_failureCount = 0, rv_backoffMs = 0, rv_nextAttemptAt = nextAttemptAt,
                 rv_lastError = None, rv_status = rs_pending, rv_createdAt = now, rv_updatedAt = now\<rparr>])"

definition markAttempted :: "string \<Rightarrow> int \<Rightarrow> int \<Rightarrow> int option \<Rightarrow> error_code option \<Rightarrow> int \<Rightarrow>
    recovery_table \<Rightarrow> (thrown, unit) result \<times> recovery_table" where
  "markAttempted sid failureCount backoff nextAttemptAt lastError now t =
     checked t (update_where (\<lambda>r. rv_sessionId r = sid \<and> rv_status r \<noteq> rs_resolved)
       (\<lambda>r. r\<lparr>rv_status := rs_retry_scheduled, rv_failureCount := failureCount,
              rv_backoffMs := backoff, rv_nextAttemptAt := nextAttemptAt,
              rv_lastError := lastError, rv_updatedAt := now\<rparr>) t)"

definition markResolved :: "string \<Rightarrow> int \<Rightarrow> recovery_table \<Rightarrow> recovery_table" where
  "markResolved sid now t =
     update_where (\<lambda>r. rv_sessionId r = sid \<and> rv_active r)
       (\<lambda>r. r\<lparr>rv_status := rs_resolved, rv_updatedAt := now\<rparr>) t"

definition queryActive :: "int \<Rightarrow> recovery_table \<Rightarrow> recovery_row list" where
  "queryActive now t =
     sort_by (\<lambda>a b. case (rv_nextAttemptAt a, rv_nextAttemptAt b) of
                (None, Some _) \<Rightarrow> True | (Some x, Some y) \<Rightarrow> x < y | _ \<Rightarrow> False)
       (filter (\<lambda>r. rv_active r \<and> (case rv_nextAttemptAt r of None \<Rightarrow> True | Some n \<Rightarrow> n \<le> now)) t)"

definition markHardFail :: "string \<Rightarrow> error_code option \<Rightarrow> int option \<Rightarrow> int \<Rightarrow> recovery_table \<Rightarrow> recovery_table" where
  "markHardFail sid lastError failureCount now t =
     update_where (\<lambda>r. rv_sessionId r = sid \<and> rv_active r)
       (\<lambda>r. (case failureCount of Some n \<Rightarrow> r\<lparr>rv_failureCount := n\<rparr> | None \<Rightarrow> r)
              \<lparr>rv_status := rs_hard_failed, rv_lastError := lastError, rv_updatedAt := now\<rparr>) t"

text \<open>The row updated last; of several with that time, the first.\<close>

definition getBySession :: "string \<Rightarrow> recovery_table \<Rightarrow> recovery_row option" where
  "getBySession sid t =
     (case sort_by (\<lambda>a b. rv_updatedAt b < rv_updatedAt a) (filter (\<lambda>r. rv_sessionId r = sid) t) of
        [] \<Rightarrow> None | r # _ \<Rightarrow> Some r)"

section \<open>The sweeper\<close>

definition PERIODIC_STALE_CUTOFF_MS :: int where
  "PERIODIC_STALE_CUTOFF_MS = 120000"

definition TRANSIENT_BASE_BACKOFF_MS :: int where
  "TRANSIENT_BASE_BACKOFF_MS = 30000"

definition TRANSIENT_MAX_BACKOFF_MS :: int where
  "TRANSIENT_MAX_BACKOFF_MS = 15 * 60000"

definition UNRESOLVED_BASE_BACKOFF_MS :: int where
  "UNRESOLVED_BASE_BACKOFF_MS = 5 * 60000"

definition UNRESOLVED_MAX_BACKOFF_MS :: int where
  "UNRESOLVED_MAX_BACKOFF_MS = 6 * 60 * 60000"

definition UNRESOLVED_BLOCK_AFTER_FAILURES :: int where
  "UNRESOLVED_BLOCK_AFTER_FAILURES = 5"

definition calculateBackoffMs :: "int \<Rightarrow> int \<Rightarrow> int \<Rightarrow> rat \<Rightarrow> int" where
  "calculateBackoffMs failureCount baseMs maxMs rnd =
     (let attempt = max 0 (failureCount - 1);
          exponential = min (baseMs * 2 ^ nat attempt) maxMs;
          jitter = \<lfloor>of_int exponential * (1 / 5) * rnd\<rfloor>
      in min maxMs (exponential + jitter))"

record sweep_state =
  sw_log :: shim_store
  sw_table :: recovery_table

text \<open>What is read during the handling of one session: the clock, the random number and the
  outcome of the migration.\<close>

record sweep_env =
  env_now :: int
  env_random :: rat
  env_migrate :: "(thrown, unit) result"

definition store_table :: "(thrown, unit) result \<times> recovery_table \<Rightarrow> sweep_state \<Rightarrow>
    (thrown, unit) result \<times> sweep_state" where
  "store_table rt st = (fst rt, st\<lparr>sw_table := snd rt\<rparr>)"

definition on_failure :: "sweep_env \<Rightarrow> string \<Rightarrow> int \<Rightarrow> ms_error \<Rightarrow> sweep_state \<Rightarrow>
    (thrown, unit) result \<times> sweep_state" where
  "on_failure env sid previousFailureCount err st =
     (let now = env_now env; failureCount = previousFailureCount + 1; t = sw_table st in
      if e_code err = COGNITION_UNRESOLVED_REFS then
        (if failureCount \<ge> UNRESOLVED_BLOCK_AFTER_FAILURES
         then (Inr (), st\<lparr>sw_table := markHardFail sid (Some (e_code err)) (Some failureCount) now t\<rparr>)
         else
           (let delayMs = calculateBackoffMs failureCount UNRESOLVED_BASE_BACKOFF_MS
                            UNRESOLVED_MAX_BACKOFF_MS (env_random env)
            in store_table (markAttempted sid failureCount delayMs (Some (now + delayMs))
                 (Some (e_code err)) now t) st))
      else if \<not> e_retriable err
      then (Inr (), st\<lparr>sw_table := markHardFail sid (Some (e_code err)) (Some failureCount) now t\<rparr>)
      else
        (let delayMs = calculateBackoffMs failureCount TRANSIENT_BASE_BACKOFF_MS
                         TRANSIENT_MAX_BACKOFF_MS (env_random env)
         in store_table (markAttempted sid failureCount delayMs (Some (now + delayMs))
              (Some (e_code err)) now t) st))"

definition processSession :: "sweep_env \<Rightarrow> string \<Rightarrow> string \<Rightarrow> sweep_state \<Rightarrow>
    (thrown, unit) result \<times> sweep_state" where
  "processSession env sid agentId st0 =
     (let range = shim_getUnprocessedRangeForSession sid (sw_log st0);
          st = st0\<lparr>sw_log := snd (getRecords sid (sw_log st0))\<rparr>
      in case range of None \<Rightarrow> (Inr (), st) | Some _ \<Rightarrow>
         (case buildSessionCloseFlush shim_flush_ops sid agentId (sw_log st) of
            None \<Rightarrow> (Inr (), st)
          | Some req \<Rightarrow>
              (let existingRecord = getBySession sid (sw_table st); now = env_now env
               in if (case existingRecord of Some r \<Rightarrow> rv_status r = rs_hard_failed | None \<Rightarrow> False)
                  then (Inr (), st)
                  else if (case existingRecord of
                             Some r \<Rightarrow> (case rv_nextAttemptAt r of Some n \<Rightarrow> n > now | None \<Rightarrow> False)
                           | None \<Rightarrow> False)
                  then (Inr (), st)
                  else
                    (let previousFailureCount =
                           (case existingRecord of Some r \<Rightarrow> rv_failureCount r | None \<Rightarrow> 0);
                         st1 = (if existingRecord = None
                                then st\<lparr>sw_table := recordPending (fr_sessionId req) agentId
                                       (fr_rangeStart req) (fr_rangeEnd req) None now (sw_table st)\<rparr>
                                else st)
                     in (case env_migrate env of
                           Inr _ \<Rightarrow>
                             (Inr (), st1\<lparr>sw_log := shim_markProcessed (fr_sessionId req)
                                            (fr_rangeEnd req) (sw_log st1),
                                          sw_table := markResolved sid now (sw_table st1)\<rparr>)
                         | Inl t \<Rightarrow>
                             on_failure env sid previousFailureCount (wrapError t None None) st1)))))"

text \<open>
  The loop over the stale sessions. \<open>stopped i\<close> is the flag \<open>stopped\<close> as the \<open>i\<close>-th iteration
  finds it; an error ends the sweep.
\<close>

fun sweep_sessions :: "(nat \<Rightarrow> bool) \<Rightarrow> (nat \<Rightarrow> sweep_env) \<Rightarrow> nat \<Rightarrow> (string \<times> string \<times> int) list \<Rightarrow>
    sweep_state \<Rightarrow> (thrown, unit) result \<times> sweep_state" where
  "sweep_sessions stopped env i [] st = (Inr (), st)"
| "sweep_sessions stopped env i ((sid, agentId, oldest) # rest) st =
     (if stopped i then (Inr (), st)
      else (case processSession (env i) sid agentId st of
              (Inl e, st1) \<Rightarrow> (Inl e, st1)
            | (Inr _, st1) \<Rightarrow> sweep_sessions stopped env (i + 1) rest st1))"

text \<open>
  \<open>runSweep\<close> without the sweep of thinker jobs: nothing when stopped, disabled or another
  sweep is in flight (\<open>trySweepLock\<close> of this repository always succeeds).
\<close>

definition runSweep :: "bool \<Rightarrow> bool \<Rightarrow> bool option \<Rightarrow> bool \<Rightarrow> int option \<Rightarrow> int \<Rightarrow> (nat \<Rightarrow> bool) \<Rightarrow>
    (nat \<Rightarrow> sweep_env) \<Rightarrow> sweep_state \<Rightarrow> (thrown, unit) result \<times> sweep_state" where
  "runSweep stopped0 sweepInFlight isEnabled includeAllPending periodicStaleCutoffMs now stopped env st =
     (if stopped0 then (Inr (), st)
      else if isEnabled = Some False then (Inr (), st)
      else if sweepInFlight then (Inr (), st)
      else
        (let staleCutoffMs = (if includeAllPending then -1
               else (case periodicStaleCutoffMs of Some c \<Rightarrow> c | None \<Rightarrow> PERIODIC_STALE_CUTOFF_MS))
         in (case shim_listStalePendingSettlementSessions staleCutoffMs now (sw_log st) of
               None \<Rightarrow> (Inl Plain_error, st)
             | Some sessions \<Rightarrow> sweep_sessions stopped env 0 sessions st)))"

section \<open>One row per session\<close>

definition one_row :: "recovery_table \<Rightarrow> bool" where
  "one_row t = distinct (map rv_sessionId t)"

lemma one_row_active: "one_row t \<Longrightarrow> active_unique t"
  unfolding one_row_def active_unique_def by (rule distinct_map_filter)

lemma sessions_update_where:
  "(\<And>r. rv_sessionId (f r) = rv_sessionId r) \<Longrightarrow> map rv_sessionId (update_where p f t) = map rv_sessionId t"
  by (rule map_update_where)

lemma one_row_update: "(\<And>r. rv_sessionId (f r) = rv_sessionId r) \<Longrightarrow> one_row (update_where p f t) = one_row t"
  by (simp add: one_row_def sessions_update_where)

lemma lookup_one_row:
  assumes "one_row t"
  shows "getBySession sid t = find (\<lambda>r. rv_sessionId r = sid) t"
proof -
  have "filter (\<lambda>r. rv_sessionId r = sid) t =
      (case find (\<lambda>r. rv_sessionId r = sid) t of None \<Rightarrow> [] | Some r \<Rightarrow> [r])"
    using assms unfolding one_row_def
  proof (induction t)
    case (Cons r t)
    show ?case
    proof (cases "rv_sessionId r = sid")
      case True
      with Cons.prems have "filter (\<lambda>r. rv_sessionId r = sid) t = []"
        by (auto simp: filter_empty_conv image_iff)
      with True show ?thesis by simp
    next
      case False
      with Cons show ?thesis by simp
    qed
  qed simp
  then show ?thesis by (simp add: getBySession_def split: option.split)
qed

lemma lookup_update:
  assumes "one_row t" "\<And>r. rv_sessionId (f r) = rv_sessionId r"
  shows "getBySession s (update_where (\<lambda>r. rv_sessionId r = sid \<and> p r) f t) =
    (if s = sid then map_option (\<lambda>r. if p r then f r else r) (getBySession sid t) else getBySession s t)"
proof -
  have "find (\<lambda>r. rv_sessionId r = s) (update_where (\<lambda>r. rv_sessionId r = sid \<and> p r) f t) =
    (if s = sid then map_option (\<lambda>r. if p r then f r else r) (find (\<lambda>r. rv_sessionId r = sid) t)
     else find (\<lambda>r. rv_sessionId r = s) t)"
    using assms(2) by (induction t) (auto simp: table_simps)
  then show ?thesis using assms by (simp add: lookup_one_row one_row_update)
qed

lemma getBySession_None: "one_row t \<Longrightarrow> getBySession sid t = None \<Longrightarrow> sid \<notin> set (map rv_sessionId t)"
  by (auto simp: lookup_one_row find_None_iff)

lemma recordPending_new:
  assumes "one_row t" "getBySession sid t = None"
  shows "one_row (recordPending sid a lo hi n now t)"
    and "getBySession s (recordPending sid a lo hi n now t) = (if s = sid
      then Some \<lparr>rv_sessionId = sid, rv_agentId = a, rv_rangeStart = lo, rv_rangeEnd = hi,
                 rv_failureCount = 0, rv_backoffMs = 0, rv_nextAttemptAt = n, rv_lastError = None,
                 rv_status = rs_pending, rv_createdAt = now, rv_updatedAt = now\<rparr>
      else getBySession s t)"
proof -
  have new: "sid \<notin> set (map rv_sessionId t)" using getBySession_None [OF assms] .
  then have rec: "recordPending sid a lo hi n now t = t @ [\<lparr>rv_sessionId = sid, rv_agentId = a,
      rv_rangeStart = lo, rv_rangeEnd = hi, rv_failureCount = 0, rv_backoffMs = 0, rv_nextAttemptAt = n,
      rv_lastError = None, rv_status = rs_pending, rv_createdAt = now, rv_updatedAt = now\<rparr>]"
    by (auto simp: recordPending_def)
  show one: "one_row (recordPending sid a lo hi n now t)"
    using assms(1) new unfolding rec one_row_def by simp
  have found: "find p (xs @ [x]) = (case find p xs of Some y \<Rightarrow> Some y | None \<Rightarrow> if p x then Some x else None)"
    for p :: "recovery_row \<Rightarrow> bool" and xs x by (induction xs) simp_all
  show "getBySession s (recordPending sid a lo hi n now t) = (if s = sid
      then Some \<lparr>rv_sessionId = sid, rv_agentId = a, rv_rangeStart = lo, rv_rangeEnd = hi,
                 rv_failureCount = 0, rv_backoffMs = 0, rv_nextAttemptAt = n, rv_lastError = None,
                 rv_status = rs_pending, rv_createdAt = now, rv_updatedAt = now\<rparr>
      else getBySession s t)"
    unfolding lookup_one_row [OF one] unfolding rec using assms(1,2)
    by (auto simp: found lookup_one_row split: option.split)
qed

lemma markAttempted_ok:
  assumes "one_row t"
  shows "markAttempted sid n d a e now t = (Inr (), update_where
    (\<lambda>r. rv_sessionId r = sid \<and> rv_status r \<noteq> rs_resolved)
    (\<lambda>r. r\<lparr>rv_status := rs_retry_scheduled, rv_failureCount := n, rv_backoffMs := d,
           rv_nextAttemptAt := a, rv_lastError := e, rv_updatedAt := now\<rparr>) t)"
  using assms by (simp add: markAttempted_def checked_def one_row_active one_row_update)

section \<open>Backoff\<close>

lemma backoff_bounds:
  assumes "0 \<le> base" "base \<le> m" "0 \<le> rnd"
  shows "base \<le> calculateBackoffMs n base m rnd \<and> calculateBackoffMs n base m rnd \<le> m"
proof -
  let ?e = "min (base * 2 ^ nat (max 0 (n - 1))) m"
  have "base * 1 \<le> base * 2 ^ nat (max 0 (n - 1))" using assms(1) by (intro mult_left_mono) simp_all
  with assms(2) have e: "base \<le> ?e" by simp
  have "0 \<le> (of_int ?e :: rat)" using assms(1) e by simp
  with assms(3) have "0 \<le> of_int ?e * (1 / 5) * rnd" by simp
  then have "0 \<le> \<lfloor>of_int ?e * (1 / 5) * rnd\<rfloor>" by simp
  with e have "base + 0 \<le> ?e + \<lfloor>of_int ?e * (1 / 5) * rnd\<rfloor>" by (rule add_mono)
  with assms(2) show ?thesis unfolding calculateBackoffMs_def Let_def by (simp only: min.bounded_iff) simp
qed

section \<open>Reachable states\<close>

text \<open>Sweeps of single sessions, and any change of the interaction log between them.\<close>

inductive sweep_reach :: "sweep_state \<Rightarrow> bool" where
  start: "sweep_reach \<lparr>sw_log = l, sw_table = []\<rparr>"
| log: "sweep_reach st \<Longrightarrow> sweep_reach (st\<lparr>sw_log := l\<rparr>)"
| process: "sweep_reach st \<Longrightarrow> processSession env sid a st = (res, st') \<Longrightarrow> sweep_reach st'"

definition blocks :: "ms_error \<Rightarrow> int \<Rightarrow> bool" where
  "blocks err n =
     (if e_code err = COGNITION_UNRESOLVED_REFS then n \<ge> UNRESOLVED_BLOCK_AFTER_FAILURES
      else \<not> e_retriable err)"

definition retry_delay :: "sweep_env \<Rightarrow> ms_error \<Rightarrow> int \<Rightarrow> int" where
  "retry_delay env err n =
     (if e_code err = COGNITION_UNRESOLVED_REFS
      then calculateBackoffMs n UNRESOLVED_BASE_BACKOFF_MS UNRESOLVED_MAX_BACKOFF_MS (env_random env)
      else calculateBackoffMs n TRANSIENT_BASE_BACKOFF_MS TRANSIENT_MAX_BACKOFF_MS (env_random env))"

lemma on_failure_eq:
  assumes "one_row (sw_table st)"
  shows "on_failure env sid k err st =
    (Inr (), st\<lparr>sw_table :=
       (if blocks err (k + 1)
        then update_where (\<lambda>r. rv_sessionId r = sid \<and> rv_active r)
          (\<lambda>r. r\<lparr>rv_failureCount := k + 1, rv_status := rs_hard_failed,
                 rv_lastError := Some (e_code err), rv_updatedAt := env_now env\<rparr>) (sw_table st)
        else update_where (\<lambda>r. rv_sessionId r = sid \<and> rv_status r \<noteq> rs_resolved)
          (\<lambda>r. r\<lparr>rv_status := rs_retry_scheduled, rv_failureCount := k + 1,
                 rv_backoffMs := retry_delay env err (k + 1),
                 rv_nextAttemptAt := Some (env_now env + retry_delay env err (k + 1)),
                 rv_lastError := Some (e_code err), rv_updatedAt := env_now env\<rparr>) (sw_table st))\<rparr>)"
  by (simp add: on_failure_def Let_def markAttempted_ok [OF assms] store_table_def markHardFail_def
      blocks_def retry_delay_def)

text \<open>A session the sweep does not touch, and the state it works on otherwise.\<close>

definition due :: "sweep_env \<Rightarrow> recovery_row \<Rightarrow> bool" where
  "due env r \<longleftrightarrow> rv_status r \<noteq> rs_hard_failed \<and>
     (case rv_nextAttemptAt r of Some n \<Rightarrow> n \<le> env_now env | None \<Rightarrow> True)"

definition row_of :: "sweep_env \<Rightarrow> string \<Rightarrow> string \<Rightarrow> sweep_state \<Rightarrow> recovery_row" where
  "row_of env sid a st =
     (case getBySession sid (sw_table st) of
        Some r \<Rightarrow> r
      | None \<Rightarrow>
          \<lparr>rv_sessionId = sid, rv_agentId = a,
           rv_rangeStart = fst (the (shim_getMinMaxUnprocessedIndex sid (sw_log st))),
           rv_rangeEnd = snd (the (shim_getMinMaxUnprocessedIndex sid (sw_log st))),
           rv_failureCount = 0, rv_backoffMs = 0, rv_nextAttemptAt = None, rv_lastError = None,
           rv_status = rs_pending, rv_createdAt = env_now env, rv_updatedAt = env_now env\<rparr>)"

definition touched :: "string \<Rightarrow> sweep_state \<Rightarrow> sweep_state" where
  "touched sid st = st\<lparr>sw_log := snd (getRecords sid (sw_log st))\<rparr>"

text \<open>The table with the row of the session in place.\<close>

definition opened :: "sweep_env \<Rightarrow> string \<Rightarrow> string \<Rightarrow> sweep_state \<Rightarrow> sweep_state" where
  "opened env sid a st =
     (if getBySession sid (sw_table st) = None
      then touched sid st \<lparr>sw_table := recordPending sid a (rv_rangeStart (row_of env sid a st))
             (rv_rangeEnd (row_of env sid a st)) None (env_now env) (sw_table st)\<rparr>
      else touched sid st)"

lemma opened_facts:
  assumes "one_row (sw_table st)"
  shows "one_row (sw_table (opened env sid a st))"
    and "getBySession s (sw_table (opened env sid a st)) =
      (if s = sid then Some (row_of env sid a st) else getBySession s (sw_table st))"
    and "shim_rows s (sw_log (opened env sid a st)) = shim_rows s (sw_log st)"
  using assms recordPending_new [OF assms]
  by (auto simp: opened_def touched_def row_of_def split: option.splits)

lemma touched_minmax [simp]:
  "shim_getMinMaxUnprocessedIndex sid (snd (getRecords s l)) = shim_getMinMaxUnprocessedIndex sid l"
  by (simp add: shim_getMinMaxUnprocessedIndex_def)

lemma processSession_idle:
  assumes "shim_getMinMaxUnprocessedIndex sid (sw_log st) = None \<or>
    (\<exists>r. getBySession sid (sw_table st) = Some r \<and> \<not> due env r)"
  shows "processSession env sid a st = (Inr (), touched sid st)"
  using assms
  by (auto simp: processSession_def touched_def Let_def due_def shim_getUnprocessedRangeForSession_def
      buildSessionCloseFlush_def shim_flush_ops_def not_le split: option.splits)

lemma processSession_due:
  assumes "shim_getMinMaxUnprocessedIndex sid (sw_log st) = Some (lo, hi)" "due env (row_of env sid a st)"
  shows "processSession env sid a st =
    (case env_migrate env of
       Inr _ \<Rightarrow> (Inr (), (opened env sid a st)
         \<lparr>sw_log := shim_markProcessed sid hi (sw_log (opened env sid a st)),
          sw_table := markResolved sid (env_now env) (sw_table (opened env sid a st))\<rparr>)
     | Inl t \<Rightarrow> on_failure env sid (rv_failureCount (row_of env sid a st)) (wrapError t None None)
         (opened env sid a st))"
  using assms
  by (cases "getBySession sid (sw_table st)")
    (auto simp: processSession_def opened_def touched_def row_of_def Let_def due_def
      shim_getUnprocessedRangeForSession_def buildSessionCloseFlush_def shim_flush_ops_def
      split: option.splits sum.splits)

lemma sweep_reach_one_row: "sweep_reach st \<Longrightarrow> one_row (sw_table st)"
proof (induction rule: sweep_reach.induct)
  case (start l)
  show ?case by (simp add: one_row_def)
next
  case (log st l)
  then show ?case by simp
next
  case (process st env sid a res st')
  note o = opened_facts(1) [OF process.IH, where env = env and sid = sid and a = a]
  show ?case
  proof (cases "shim_getMinMaxUnprocessedIndex sid (sw_log st) = None \<or>
      (\<exists>r. getBySession sid (sw_table st) = Some r \<and> \<not> due env r)")
    case True
    from processSession_idle [OF this] process show ?thesis by (auto simp: touched_def)
  next
    case False
    then obtain lo hi where range: "shim_getMinMaxUnprocessedIndex sid (sw_log st) = Some (lo, hi)" by auto
    have "due env (row_of env sid a st)"
      using False by (cases "getBySession sid (sw_table st)") (auto simp: row_of_def, simp add: due_def)
    from processSession_due [OF range this] process.hyps(2) o show ?thesis
      by (auto simp: on_failure_eq [OF o] markResolved_def one_row_update split: sum.splits if_splits)
  qed
qed

lemma retry_delay_range:
  "0 \<le> env_random env \<Longrightarrow>
     if e_code err = COGNITION_UNRESOLVED_REFS then retry_delay env err n \<in> {300000..21600000}
     else retry_delay env err n \<in> {30000..900000}"
  using backoff_bounds [of 300000 21600000 "env_random env" n] backoff_bounds [of 30000 900000 "env_random env" n]
  by (simp add: retry_delay_def UNRESOLVED_BASE_BACKOFF_MS_def UNRESOLVED_MAX_BACKOFF_MS_def
      TRANSIENT_BASE_BACKOFF_MS_def TRANSIENT_MAX_BACKOFF_MS_def)

text \<open>The row a failed attempt leaves, when the session was opened by the sweep.\<close>

definition failed_row :: "sweep_env \<Rightarrow> ms_error \<Rightarrow> recovery_row \<Rightarrow> recovery_row" where
  "failed_row env err r =
     (let n = rv_failureCount r + 1
      in if blocks err n then r\<lparr>rv_failureCount := n, rv_status := rs_hard_failed, rv_lastError := Some (e_code err),
                                rv_updatedAt := env_now env\<rparr>
         else r\<lparr>rv_status := rs_retry_scheduled, rv_failureCount := n, rv_backoffMs := retry_delay env err n,
                 rv_nextAttemptAt := Some (env_now env + retry_delay env err n),
                 rv_lastError := Some (e_code err), rv_updatedAt := env_now env\<rparr>)"

lemma failure_writes_row:
  assumes "one_row (sw_table st)" "rv_active (row_of env sid a st)"
  shows "getBySession s (sw_table (snd (on_failure env sid (rv_failureCount (row_of env sid a st)) err (opened env sid a st)))) =
    (if s = sid then Some (failed_row env err (row_of env sid a st)) else getBySession s (sw_table st))"
proof -
  note o = opened_facts [OF assms(1), where env = env and sid = sid and a = a]
  show ?thesis
    unfolding on_failure_eq [OF o(1)] using assms(2) o(2)
    by (auto simp: lookup_update [OF o(1)] ACTIVE_STATUSES_def failed_row_def Let_def)
qed

text \<open>
  Property (C22): when the sweep handles a session that has unprocessed records and whose row
  is missing, or active and due, it never throws, leaves the rows of other sessions alone,
  and: after a successful migration every record of the session is processed and its row is
  resolved; after a failed one no record is marked, the failure count of the row is one
  higher, and the row is hard-failed exactly when the error is not retriable, or is the
  fifth unresolved reference; otherwise it is scheduled after a delay that stays between
  the base and the cap of its kind of error.
\<close>

theorem sweep_outcome:
  assumes "sweep_reach st" "shim_getMinMaxUnprocessedIndex sid (sw_log st) \<noteq> None"
    and "due env (row_of env sid a st)" "rv_active (row_of env sid a st)" "0 \<le> env_random env"
  shows "\<exists>st'. processSession env sid a st = (Inr (), st') \<and>
    (\<forall>s. s \<noteq> sid \<longrightarrow> getBySession s (sw_table st') = getBySession s (sw_table st) \<and>
       shim_rows s (sw_log st') = shim_rows s (sw_log st)) \<and>
    (\<exists>r. getBySession sid (sw_table st') = Some r \<and>
      (case env_migrate env of
         Inr _ \<Rightarrow> rv_status r = rs_resolved \<and> (\<forall>x \<in> set (shim_rows sid (sw_log st')). s_processed x)
       | Inl t \<Rightarrow>
           (let err = wrapError t None None; n = rv_failureCount (row_of env sid a st) + 1 in
            shim_rows sid (sw_log st') = shim_rows sid (sw_log st) \<and> rv_failureCount r = n \<and>
            (if blocks err n then rv_status r = rs_hard_failed
             else rv_status r = rs_retry_scheduled \<and>
               rv_nextAttemptAt r = Some (env_now env + rv_backoffMs r) \<and>
               (if e_code err = COGNITION_UNRESOLVED_REFS
                then rv_backoffMs r \<in> {300000..21600000}
                else rv_backoffMs r \<in> {30000..900000})))))"
proof -
  have one: "one_row (sw_table st)" using sweep_reach_one_row [OF assms(1)] .
  from assms(2) obtain lo hi where range: "shim_getMinMaxUnprocessedIndex sid (sw_log st) = Some (lo, hi)"
    by auto
  note run = processSession_due [OF range assms(3)]
  let ?o = "opened env sid a st" and ?r = "row_of env sid a st"
  note o = opened_facts [OF one, where env = env and sid = sid and a = a]
  show ?thesis
  proof (cases "env_migrate env")
    case (Inr u)
    let ?st' = "?o\<lparr>sw_log := shim_markProcessed sid hi (sw_log ?o),
        sw_table := markResolved sid (env_now env) (sw_table ?o)\<rparr>"
    have "s_index x \<le> hi" if "x \<in> set (shim_rows sid (sw_log st))" "\<not> s_processed x" for x
      using shim_flush.index_range_bounds [OF range [unfolded shim_getMinMaxUnprocessedIndex_def]] that by simp
    then have "\<forall>x \<in> set (shim_rows sid (sw_log ?st')). s_processed x"
      using o(3) by (auto simp: shim_markProcessed_def Let_def case_prod_unfold)
    moreover have "getBySession s (sw_table ?st') = (if s = sid
        then Some (?r\<lparr>rv_status := rs_resolved, rv_updatedAt := env_now env\<rparr>) else getBySession s (sw_table st))" for s
      using assms(4) o(2) by (simp add: markResolved_def lookup_update [OF o(1)])
    moreover have "shim_rows s (sw_log ?st') = shim_rows s (sw_log st)" if "s \<noteq> sid" for s
      using that o(3) by (simp add: shim_markProcessed_def Let_def case_prod_unfold)
    ultimately show ?thesis using run Inr by (intro exI [of _ ?st']) simp
  next
    case (Inl t)
    let ?e = "wrapError t None None" and ?n = "rv_failureCount ?r + 1"
    from run Inl have run': "processSession env sid a st = on_failure env sid (rv_failureCount ?r) ?e ?o" by simp
    let ?st' = "snd (on_failure env sid (rv_failureCount ?r) ?e ?o)"
    have fin: "on_failure env sid (rv_failureCount ?r) ?e ?o = (Inr (), ?st')"
      unfolding on_failure_eq [OF o(1)] by simp
    have logs: "shim_rows s (sw_log ?st') = shim_rows s (sw_log st)" for s
      unfolding on_failure_eq [OF o(1)] using o(3) by simp
    note row = failure_writes_row [OF one assms(4), where err = ?e]
    show ?thesis
      using run' fin logs row [of sid] row retry_delay_range [OF assms(5), of ?e ?n] Inl
      by (intro exI [of _ ?st']) (simp add: failed_row_def Let_def split: if_splits)
  qed
qed

definition sample_sweep :: sweep_state where
  "sample_sweep = \<lparr>sw_log = ten_turns, sw_table = []\<rparr>"

definition sample_sweep_env :: "int \<Rightarrow> (thrown, unit) result \<Rightarrow> sweep_env" where
  "sample_sweep_env now r = \<lparr>env_now = now, env_random = 1 / 2, env_migrate = r\<rparr>"

definition unresolved :: "(thrown, unit) result" where
  "unresolved = Inl (Maids_error (error COGNITION_UNRESOLVED_REFS False))"

theorem sweep_outcome_witness:
  "\<exists>st' r. processSession (sample_sweep_env 5000 unresolved) ''a'' ''m'' sample_sweep = (Inr (), st') \<and>
     getBySession ''a'' (sw_table st') = Some r \<and> rv_failureCount r = 1 \<and>
     rv_backoffMs r \<in> {300000..21600000} \<and> rv_status r = rs_retry_scheduled"
proof -
  let ?env = "sample_sweep_env 5000 unresolved"
  have reach: "sweep_reach sample_sweep" unfolding sample_sweep_def by (rule sweep_reach.start)
  have some: "shim_getMinMaxUnprocessedIndex ''a'' (sw_log sample_sweep) \<noteq> None" by code_simp
  have due: "due ?env (row_of ?env ''a'' ''m'' sample_sweep)" by code_simp
  have act: "rv_active (row_of ?env ''a'' ''m'' sample_sweep)" by code_simp
  have rnd: "0 \<le> env_random ?env" by (simp add: sample_sweep_env_def)
  have mig: "env_migrate ?env = Inl (Maids_error (error COGNITION_UNRESOLVED_REFS False))"
    by (simp add: sample_sweep_env_def unresolved_def)
  have cnt: "rv_failureCount (row_of ?env ''a'' ''m'' sample_sweep) = 0" by code_simp
  from sweep_outcome [OF reach some due act rnd] show ?thesis
    unfolding mig cnt
    by (auto simp: Let_def wrapError_def blocks_def UNRESOLVED_BLOCK_AFTER_FAILURES_def)
qed

text \<open>
  A session whose row is hard-failed is left alone by every later sweep,
  whatever the migration would do: the table and all records stay as they are.
\<close>

theorem hard_failed_final:
  assumes "getBySession sid (sw_table st) = Some r" "rv_status r = rs_hard_failed"
  shows "\<exists>st'. (\<forall>env a. processSession env sid a st = (Inr (), st')) \<and>
    sw_table st' = sw_table st \<and> (\<forall>s. shim_rows s (sw_log st') = shim_rows s (sw_log st))"
proof -
  have "\<not> due env r" for env using assms(2) by (simp add: due_def)
  with assms(1) processSession_idle have "\<forall>env a. processSession env sid a st = (Inr (), touched sid st)"
    by blast
  then show ?thesis by (intro exI [of _ "touched sid st"]) (simp add: touched_def)
qed

definition five_failures :: sweep_state where
  "five_failures =
     fold (\<lambda>now st. snd (processSession (sample_sweep_env now unresolved) ''a'' ''m'' st))
       [0, 10000000, 20000000, 40000000, 80000000] sample_sweep"

theorem hard_failed_final_witness:
  "\<exists>st'. processSession (sample_sweep_env 900000000 (Inr ())) ''a'' ''m'' five_failures = (Inr (), st') \<and>
     sw_table st' = sw_table five_failures \<and>
     map_option rv_failureCount (getBySession ''a'' (sw_table five_failures)) = Some 5"
proof -
  have "map_option (\<lambda>r. (rv_failureCount r, rv_status r)) (getBySession ''a'' (sw_table five_failures))
      = Some (5, rs_hard_failed)" by code_simp
  then obtain r where "getBySession ''a'' (sw_table five_failures) = Some r"
    "rv_failureCount r = 5" "rv_status r = rs_hard_failed" by auto
  with hard_failed_final [OF this(1,3)] show ?thesis by auto
qed

text \<open>
  Once a session has been resolved, a failing migration leaves no trace: the
  row stays resolved with its old count and times and no record is marked, so the state is
  as before, the failure is neither counted nor backed off nor ever hard-failed.
\<close>

theorem failure_after_success_lost:
  assumes "sweep_reach st" "getBySession sid (sw_table st) = Some r" "rv_status r = rs_resolved"
    and "env_migrate env = Inl t"
  shows "\<exists>st'. processSession env sid a st = (Inr (), st') \<and>
    sw_table st' = sw_table st \<and> (\<forall>s. shim_rows s (sw_log st') = shim_rows s (sw_log st))"
proof (cases "shim_getMinMaxUnprocessedIndex sid (sw_log st) = None \<or> \<not> due env r")
  case True
  with assms(2) processSession_idle have "processSession env sid a st = (Inr (), touched sid st)" by blast
  then show ?thesis by (simp add: touched_def)
next
  case False
  have one: "one_row (sw_table st)" using sweep_reach_one_row [OF assms(1)] .
  from False obtain lo hi where range: "shim_getMinMaxUnprocessedIndex sid (sw_log st) = Some (lo, hi)" by auto
  have row: "row_of env sid a st = r" and op: "opened env sid a st = touched sid st"
    using assms(2) by (simp_all add: row_of_def opened_def)
  have only: "r' = r" if "r' \<in> set (sw_table st)" "rv_sessionId r' = sid" for r'
  proof -
    have "find (\<lambda>x. rv_sessionId x = rv_sessionId r') (sw_table st) = Some r'"
      using find_key_Some [OF one [unfolded one_row_def] that(1)] .
    with assms(2) that(2) show ?thesis by (simp add: lookup_one_row [OF one])
  qed
  have keep: "update_where (\<lambda>x. rv_sessionId x = sid \<and> rv_status x \<noteq> rs_resolved) f (sw_table st) = sw_table st"
    "update_where (\<lambda>x. rv_sessionId x = sid \<and> rv_active x) f (sw_table st) = sw_table st" for f
    using only assms(3) by (auto intro!: update_where_none simp: ACTIVE_STATUSES_def)
  have "one_row (sw_table (touched sid st))" using one by (simp add: touched_def)
  note fail = on_failure_eq [OF this]
  from processSession_due [OF range, of env a] False row assms(4)
  have "processSession env sid a st =
      on_failure env sid (rv_failureCount r) (wrapError t None None) (touched sid st)"
    by (simp add: op)
  then show ?thesis unfolding fail using keep by (simp add: touched_def)
qed

definition resolved_sweep :: sweep_state where
  "resolved_sweep =
     (snd (processSession (sample_sweep_env 0 (Inr ())) ''a'' ''m'' sample_sweep))\<lparr>sw_log := ten_turns\<rparr>"

theorem failure_after_success_lost_witness:
  "\<exists>st'. processSession (sample_sweep_env 1 unresolved) ''a'' ''m'' resolved_sweep = (Inr (), st') \<and>
     sw_table st' = sw_table resolved_sweep \<and>
     shim_getMinMaxUnprocessedIndex ''a'' (sw_log resolved_sweep) = Some (0, 9)"
proof -
  have reach: "sweep_reach resolved_sweep"
    unfolding resolved_sweep_def sample_sweep_def
    by (rule sweep_reach.log, rule sweep_reach.process [OF sweep_reach.start prod.collapse [symmetric]])
  have "map_option rv_status (getBySession ''a'' (sw_table resolved_sweep)) = Some rs_resolved" by code_simp
  then obtain r where r: "getBySession ''a'' (sw_table resolved_sweep) = Some r" "rv_status r = rs_resolved"
    by auto
  have "env_migrate (sample_sweep_env 1 unresolved) = Inl (Maids_error (error COGNITION_UNRESOLVED_REFS False))"
    by (simp add: sample_sweep_env_def unresolved_def)
  from failure_after_success_lost [OF reach r this]
  have "\<exists>st'. processSession (sample_sweep_env 1 unresolved) ''a'' ''m'' resolved_sweep = (Inr (), st') \<and>
     sw_table st' = sw_table resolved_sweep" by blast
  moreover have "shim_getMinMaxUnprocessedIndex ''a'' (sw_log resolved_sweep) = Some (0, 9)" by code_simp
  ultimately show ?thesis by blast
qed

end
