(* ===== verification/Sessions.thy ===== *)
theory Sessions
  imports Js_Values Errors "HOL-Library.Char_ord" "HOL-Library.List_Lexorder"
begin

text \<open>
  Sessions (\<^verbatim>\<open>src/session/service.ts\<close>): the in-memory state of \<open>SessionService\<close> (names
  \<open>mem_\<close>), its branch over the table \<open>sessions\<close> (names \<open>db_\<close>), and the listing of the
  Postgres repository (\<^verbatim>\<open>src/storage/domain-repos/pg/session-repo.ts\<close>, \<open>pg_listSessions\<close>).

  \<^item> A cursor is what \<^verbatim>\<open>src/contracts/cockpit/cursor.ts\<close> makes of a payload: base64url of its
    JSON text, given here by the payload it decodes to (\<open>Opaque\<close>), or a text that does not
    decode (\<open>Malformed\<close>). The sort key of a payload is an ISO date, given by its time,
    another string, or another value.
  \<^item> \<open>localeCompare\<close> is the argument \<open>lc\<close> (coming strictly before), \<open><\<close> on strings compares
    character codes, and the collation of the database is the argument \<open>coll\<close>.
  \<^item> \<open>crypto.randomUUID()\<close> and \<open>Date.now()\<close> are arguments.
\<close>

section \<open>Cursors\<close>

datatype sort_key = Iso_date int | Other_string | Not_a_string

record cursor_payload =
  cu_sort_key :: sort_key
  cu_tie_breaker :: string

datatype cursor_token = Opaque cursor_payload | Malformed

definition encodeCursor :: "cursor_payload \<Rightarrow> (thrown, cursor_token) result" where
  "encodeCursor p = (if cu_tie_breaker p = [] then Inl Plain_error else Inr (Opaque p))"

definition decodeCursor :: "cursor_token \<Rightarrow> (thrown, cursor_payload) result" where
  "decodeCursor c =
     (case c of
        Opaque p \<Rightarrow>
          if cu_tie_breaker p = [] then Inl (Maids_error (error BAD_REQUEST False)) else Inr p
      | Malformed \<Rightarrow> Inl (Maids_error (error BAD_REQUEST False)))"

section \<open>Listing\<close>

datatype session_status = st_open | st_closed | st_recovery_required

record session_record =
  se_sessionId :: string
  se_createdAt :: int
  se_closedAt :: "int option"
  se_agentId :: string

record list_params =
  lp_agentId :: "string option"
  lp_status :: "session_status option"
  lp_limit :: "js_num option"
  lp_cursor :: "cursor_token option"

record list_item =
  li_session_id :: string
  li_agent_id :: string
  li_created_at :: int
  li_closed_at :: "int option"
  li_status :: session_status

record list_result =
  lr_items :: "list_item list"
  lr_nextCursor :: "cursor_token option"

definition DEFAULT_LIST_LIMIT :: int where
  "DEFAULT_LIST_LIMIT = 50"

definition MAX_LIST_LIMIT :: int where
  "MAX_LIST_LIMIT = 200"

definition clampListLimit :: "js_num option \<Rightarrow> int" where
  "clampListLimit limit =
     (let value = (case limit of Some (Fin q) \<Rightarrow> \<lfloor>q\<rfloor> | _ \<Rightarrow> DEFAULT_LIST_LIMIT)
      in max 1 (min MAX_LIST_LIMIT (if value = 0 then DEFAULT_LIST_LIMIT else value)))"

definition deriveStatus :: "int option \<Rightarrow> bool \<Rightarrow> session_status" where
  "deriveStatus closedAt recoveryRequired =
     (if recoveryRequired then st_recovery_required
      else if closedAt \<noteq> None then st_closed else st_open)"

text \<open>The strict part of \<open>compareByCreatedAtDescThenSessionIdDesc\<close>.\<close>

definition created_desc :: "(string \<Rightarrow> string \<Rightarrow> bool) \<Rightarrow> list_item \<Rightarrow> list_item \<Rightarrow> bool" where
  "created_desc lc a b =
     (if li_created_at a \<noteq> li_created_at b then li_created_at b < li_created_at a
      else lc (li_session_id b) (li_session_id a))"

definition decodeCursorBoundary :: "cursor_token option \<Rightarrow> (thrown, (int \<times> string) option) result" where
  "decodeCursorBoundary cursor =
     (case cursor of
        None \<Rightarrow> Inr None
      | Some c \<Rightarrow>
          (case decodeCursor c of
             Inl e \<Rightarrow> Inl e
           | Inr p \<Rightarrow>
               (case cu_sort_key p of
                  Iso_date t \<Rightarrow> Inr (Some (t, cu_tie_breaker p))
                | _ \<Rightarrow> Inl (Maids_error (error BAD_REQUEST False)))))"

definition isBeforeCursor :: "(int \<times> string) option \<Rightarrow> list_item \<Rightarrow> bool" where
  "isBeforeCursor boundary item =
     (case boundary of
        None \<Rightarrow> True
      | Some (createdAt, sid) \<Rightarrow>
          if li_created_at item < createdAt then True
          else if li_created_at item > createdAt then False
          else li_session_id item < sid)"

definition next_cursor :: "bool \<Rightarrow> list_item list \<Rightarrow> (thrown, cursor_token option) result" where
  "next_cursor hasNext pageItems =
     (if hasNext \<and> pageItems \<noteq> [] then
        (case encodeCursor \<lparr>cu_sort_key = Iso_date (li_created_at (last pageItems)),
                            cu_tie_breaker = li_session_id (last pageItems)\<rparr> of
           Inl e \<Rightarrow> Inl e | Inr c \<Rightarrow> Inr (Some c))
      else Inr None)"

definition buildPagedResult :: "list_item list \<Rightarrow> int \<Rightarrow> (thrown, list_result) result" where
  "buildPagedResult items limit =
     (let hasNext = int (length items) > limit;
          pageItems = (if hasNext then take (nat limit) items else items)
      in case next_cursor hasNext pageItems of
           Inl e \<Rightarrow> Inl e
         | Inr c \<Rightarrow> Inr \<lparr>lr_items = pageItems, lr_nextCursor = c\<rparr>)"

text \<open>The part of \<open>listSessions\<close> that both branches of the service share.\<close>

definition wanted :: "list_params \<Rightarrow> list_item \<Rightarrow> bool" where
  "wanted params item \<longleftrightarrow>
     (case lp_agentId params of
        Some a \<Rightarrow> if a = [] then True else li_agent_id item = a
      | None \<Rightarrow> True) \<and>
     (case lp_status params of Some s \<Rightarrow> li_status item = s | None \<Rightarrow> True)"

definition list_page :: "(string \<Rightarrow> string \<Rightarrow> bool) \<Rightarrow> list_params \<Rightarrow> list_item list \<Rightarrow>
    (thrown, list_result) result" where
  "list_page lc params items =
     (case decodeCursorBoundary (lp_cursor params) of
        Inl e \<Rightarrow> Inl e
      | Inr boundary \<Rightarrow>
          buildPagedResult
            (filter (isBeforeCursor boundary) (sort_by (created_desc lc) (filter (wanted params) items)))
            (clampListLimit (lp_limit params)))"

section \<open>The in-memory service\<close>

record mem_sessions =
  ms_sessions :: "(string, session_record) js_map"
  ms_recoveryRequired :: "string js_set"

definition mem_createSession :: "string \<Rightarrow> string \<Rightarrow> int \<Rightarrow> mem_sessions \<Rightarrow>
    (thrown, session_record) result \<times> mem_sessions" where
  "mem_createSession agentId uuid now st =
     (let r = \<lparr>se_sessionId = uuid, se_createdAt = now, se_closedAt = None, se_agentId = agentId\<rparr>
      in (Inr r, st\<lparr>ms_sessions := AList.update uuid r (ms_sessions st)\<rparr>))"

definition mem_item :: "string js_set \<Rightarrow> session_record \<Rightarrow> list_item" where
  "mem_item recovery r =
     \<lparr>li_session_id = se_sessionId r, li_agent_id = se_agentId r, li_created_at = se_createdAt r,
      li_closed_at = se_closedAt r,
      li_status = deriveStatus (se_closedAt r) (se_sessionId r \<in> set recovery)\<rparr>"

definition mem_listSessions :: "(string \<Rightarrow> string \<Rightarrow> bool) \<Rightarrow> list_params \<Rightarrow> mem_sessions \<Rightarrow>
    (thrown, list_result) result" where
  "mem_listSessions lc params st =
     list_page lc params (map (mem_item (ms_recoveryRequired st) \<circ> snd) (ms_sessions st))"

definition mem_getSession :: "string \<Rightarrow> mem_sessions \<Rightarrow> session_record option" where
  "mem_getSession sid st = map_of (ms_sessions st) sid"

definition mem_closeSession :: "string \<Rightarrow> int \<Rightarrow> mem_sessions \<Rightarrow>
    (thrown, session_record) result \<times> mem_sessions" where
  "mem_closeSession sid now st =
     (case mem_getSession sid st of
        None \<Rightarrow> (Inl (Maids_error (error SESSION_NOT_FOUND False)), st)
      | Some r \<Rightarrow>
          (let r' = r\<lparr>se_closedAt := Some now\<rparr>
           in (Inr r', \<lparr>ms_sessions = AList.update sid r' (ms_sessions st),
                        ms_recoveryRequired = set_delete sid (ms_recoveryRequired st)\<rparr>)))"

definition mem_isOpen :: "string \<Rightarrow> mem_sessions \<Rightarrow> bool" where
  "mem_isOpen sid st =
     (case mem_getSession sid st of None \<Rightarrow> False | Some r \<Rightarrow> se_closedAt r = None)"

definition mem_markRecoveryRequired :: "string \<Rightarrow> mem_sessions \<Rightarrow> (thrown, unit) result \<times> mem_sessions" where
  "mem_markRecoveryRequired sid st =
     (if mem_getSession sid st = None then (Inl (Maids_error (error SESSION_NOT_FOUND False)), st)
      else (Inr (), st\<lparr>ms_recoveryRequired := set_add sid (ms_recoveryRequired st)\<rparr>))"

definition mem_clearRecoveryRequired :: "string \<Rightarrow> mem_sessions \<Rightarrow> (thrown, unit) result \<times> mem_sessions" where
  "mem_clearRecoveryRequired sid st =
     (Inr (), st\<lparr>ms_recoveryRequired := set_delete sid (ms_recoveryRequired st)\<rparr>)"

definition mem_requiresRecovery :: "string \<Rightarrow> mem_sessions \<Rightarrow> bool" where
  "mem_requiresRecovery sid st = (sid \<in> set (ms_recoveryRequired st))"

section \<open>The service over the table\<close>

text \<open>A row; \<open>session_id\<close> is the primary key, so a second insert of one throws.\<close>

record session_row =
  sr_session_id :: string
  sr_agent_id :: string
  sr_created_at :: int
  sr_closed_at :: "int option"
  sr_recovery_required :: int

type_synonym session_table = "session_row list"

definition db_createSession :: "string \<Rightarrow> string \<Rightarrow> int \<Rightarrow> session_table \<Rightarrow>
    (thrown, session_record) result \<times> session_table" where
  "db_createSession agentId uuid now t =
     (if \<exists>r \<in> set t. sr_session_id r = uuid then (Inl Plain_error, t)
      else (Inr \<lparr>se_sessionId = uuid, se_createdAt = now, se_closedAt = None, se_agentId = agentId\<rparr>,
            t @ [\<lparr>sr_session_id = uuid, sr_agent_id = agentId, sr_created_at = now,
                   sr_closed_at = None, sr_recovery_required = 0\<rparr>]))"

definition db_item :: "session_row \<Rightarrow> list_item" where
  "db_item r =
     \<lparr>li_session_id = sr_session_id r, li_agent_id = sr_agent_id r, li_created_at = sr_created_at r,
      li_closed_at = sr_closed_at r,
      li_status = deriveStatus (sr_closed_at r) (sr_recovery_required r = 1)\<rparr>"

definition db_listSessions :: "(string \<Rightarrow> string \<Rightarrow> bool) \<Rightarrow> list_params \<Rightarrow> session_table \<Rightarrow>
    (thrown, list_result) result" where
  "db_listSessions lc params t = list_page lc params (map db_item t)"

definition db_getSession :: "string \<Rightarrow> session_table \<Rightarrow> session_record option" where
  "db_getSession sid t =
     map_option (\<lambda>r. \<lparr>se_sessionId = sr_session_id r, se_createdAt = sr_created_at r,
                      se_closedAt = sr_closed_at r, se_agentId = sr_agent_id r\<rparr>)
       (find (\<lambda>r. sr_session_id r = sid) t)"

definition db_closeSession :: "string \<Rightarrow> int \<Rightarrow> session_table \<Rightarrow>
    (thrown, session_record) result \<times> session_table" where
  "db_closeSession sid now t =
     (case db_getSession sid t of
        None \<Rightarrow> (Inl (Maids_error (error SESSION_NOT_FOUND False)), t)
      | Some r \<Rightarrow>
          (Inr (r\<lparr>se_closedAt := Some now\<rparr>),
           update_where (\<lambda>x. sr_session_id x = sid)
             (\<lambda>x. x\<lparr>sr_closed_at := Some now, sr_recovery_required := 0\<rparr>) t))"

definition db_isOpen :: "string \<Rightarrow> session_table \<Rightarrow> bool" where
  "db_isOpen sid t = (case db_getSession sid t of None \<Rightarrow> False | Some r \<Rightarrow> se_closedAt r = None)"

definition db_markRecoveryRequired :: "string \<Rightarrow> session_table \<Rightarrow> (thrown, unit) result \<times> session_table" where
  "db_markRecoveryRequired sid t =
     (if db_getSession sid t = None then (Inl (Maids_error (error SESSION_NOT_FOUND False)), t)
      else (Inr (), update_where (\<lambda>x. sr_session_id x = sid) (\<lambda>x. x\<lparr>sr_recovery_required := 1\<rparr>) t))"

definition db_clearRecoveryRequired :: "string \<Rightarrow> session_table \<Rightarrow> (thrown, unit) result \<times> session_table" where
  "db_clearRecoveryRequired sid t =
     (Inr (), update_where (\<lambda>x. sr_session_id x = sid) (\<lambda>x. x\<lparr>sr_recovery_required := 0\<rparr>) t)"

definition db_requiresRecovery :: "string \<Rightarrow> session_table \<Rightarrow> bool" where
  "db_requiresRecovery sid t =
     (case find (\<lambda>r. sr_session_id r = sid) t of None \<Rightarrow> False | Some r \<Rightarrow> sr_recovery_required r = 1)"

text \<open>
  The listing of the Postgres repository: the WHERE clause, the order and the limit are the
  statement's, the filter on the agent also applies to an empty id.
\<close>

definition pg_status_ok :: "session_status option \<Rightarrow> session_row \<Rightarrow> bool" where
  "pg_status_ok s r =
     (case s of
        None \<Rightarrow> True
      | Some st_recovery_required \<Rightarrow> sr_recovery_required r = 1
      | Some st_closed \<Rightarrow> sr_recovery_required r = 0 \<and> sr_closed_at r \<noteq> None
      | Some st_open \<Rightarrow> sr_recovery_required r = 0 \<and> sr_closed_at r = None)"

text \<open>
  The listing of the PostgreSQL repository; \<open>coll\<close> is the order of the server's collation on
  session ids, which its ORDER BY and its comparison with the cursor both use.
\<close>

definition pg_listSessions :: "(string \<Rightarrow> string \<Rightarrow> bool) \<Rightarrow> list_params \<Rightarrow> session_table \<Rightarrow>
    (thrown, list_result) result" where
  "pg_listSessions coll params t =
     (let limit = clampListLimit (lp_limit params) in
      case decodeCursorBoundary (lp_cursor params) of
        Inl e \<Rightarrow> Inl e
      | Inr boundary \<Rightarrow>
          (let found = filter (\<lambda>r.
                 (case lp_agentId params of Some a \<Rightarrow> sr_agent_id r = a | None \<Rightarrow> True) \<and>
                 pg_status_ok (lp_status params) r \<and>
                 (case boundary of
                    None \<Rightarrow> True
                  | Some (c, sid) \<Rightarrow> sr_created_at r < c \<or> (sr_created_at r = c \<and> coll (sr_session_id r) sid))) t;
               sorted = sort_by (\<lambda>a b. if sr_created_at a \<noteq> sr_created_at b
                   then sr_created_at b < sr_created_at a
                   else coll (sr_session_id b) (sr_session_id a)) found;
               rows = take (nat (limit + 1)) sorted;
               hasNext = int (length rows) > limit;
               items = map db_item (if hasNext then take (nat limit) rows else rows)
           in case next_cursor hasNext items of
                Inl e \<Rightarrow> Inl e
              | Inr c \<Rightarrow> Inr \<lparr>lr_items = items, lr_nextCursor = c\<rparr>))"

section \<open>The branches of the service agree\<close>

definition row_of :: "string js_set \<Rightarrow> session_record \<Rightarrow> session_row" where
  "row_of recovery r =
     \<lparr>sr_session_id = se_sessionId r, sr_agent_id = se_agentId r, sr_created_at = se_createdAt r,
      sr_closed_at = se_closedAt r,
      sr_recovery_required = (if se_sessionId r \<in> set recovery then 1 else 0)\<rparr>"

definition table_of :: "mem_sessions \<Rightarrow> session_table" where
  "table_of st = map (row_of (ms_recoveryRequired st) \<circ> snd) (ms_sessions st)"

text \<open>Records are stored under their id, and only sessions that exist need recovery.\<close>

definition mem_inv :: "mem_sessions \<Rightarrow> bool" where
  "mem_inv st \<longleftrightarrow>
     map (se_sessionId \<circ> snd) (ms_sessions st) = map fst (ms_sessions st) \<and>
     distinct (map fst (ms_sessions st)) \<and>
     set (ms_recoveryRequired st) \<subseteq> set (map fst (ms_sessions st))"

lemma mem_inv_ids: "mem_inv st \<Longrightarrow> map sr_session_id (table_of st) = map fst (ms_sessions st)"
  by (simp add: mem_inv_def table_of_def row_of_def comp_def)

lemma find_row:
  assumes "map (se_sessionId \<circ> snd) m = map fst m"
  shows "find (\<lambda>r. sr_session_id r = sid) (map (row_of rec \<circ> snd) m) = map_option (row_of rec) (map_of m sid)"
  using assms by (induction m) (auto simp: row_of_def)

lemma stored_id:
  "map (se_sessionId \<circ> snd) m = map fst m \<Longrightarrow> map_of m sid = Some r \<Longrightarrow> se_sessionId r = sid"
  by (induction m) (auto split: if_splits)

lemma stored_ids:
  "map (se_sessionId \<circ> snd) m = map fst m \<Longrightarrow> (k, r) \<in> set m \<Longrightarrow> se_sessionId r = k"
  by (induction m) auto

lemma db_getSession_table:
  assumes "mem_inv st"
  shows "db_getSession sid (table_of st) = mem_getSession sid st"
proof -
  have "find (\<lambda>r. sr_session_id r = sid) (table_of st) =
      map_option (row_of (ms_recoveryRequired st)) (map_of (ms_sessions st) sid)"
    unfolding table_of_def using assms by (intro find_row) (simp add: mem_inv_def)
  moreover have "\<lparr>se_sessionId = se_sessionId r, se_createdAt = se_createdAt r,
      se_closedAt = se_closedAt r, se_agentId = se_agentId r\<rparr> = r" for r :: session_record
    by (cases r) simp
  ultimately show ?thesis
    by (cases "map_of (ms_sessions st) sid") (simp_all add: db_getSession_def mem_getSession_def row_of_def)
qed

lemma requires_table:
  assumes "mem_inv st" "mem_getSession sid st \<noteq> None"
  shows "db_requiresRecovery sid (table_of st) = mem_requiresRecovery sid st"
proof -
  obtain r where r: "map_of (ms_sessions st) sid = Some r" using assms(2) by (auto simp: mem_getSession_def)
  have "map (se_sessionId \<circ> snd) (ms_sessions st) = map fst (ms_sessions st)"
    using assms(1) by (simp add: mem_inv_def)
  then have "se_sessionId r = sid" using r by (rule stored_id)
  with assms(1) r show ?thesis
    by (simp add: db_requiresRecovery_def mem_requiresRecovery_def table_of_def mem_inv_def find_row row_of_def)
qed

text \<open>Changing one record or the recovery set changes the rows of that session.\<close>

lemma map_update_row:
  assumes "map (se_sessionId \<circ> snd) m = map fst m" "distinct (map fst m)" "map_of m sid = Some r"
    and "se_sessionId r' = sid" "row_of rec' r' = f (row_of rec r)"
    and "\<And>x. se_sessionId x \<noteq> sid \<Longrightarrow> row_of rec' x = row_of rec x"
  shows "map (row_of rec' \<circ> snd) (AList.update sid r' m) =
    update_where (\<lambda>x. sr_session_id x = sid) f (map (row_of rec \<circ> snd) m)"
  using assms(1-3)
proof (induction m)
  case Nil
  then show ?case by simp
next
  case (Cons p m)
  obtain k x where p: "p = (k, x)" by fastforce
  with Cons.prems(1) have kx: "se_sessionId x = k" by simp
  show ?case
  proof (cases "k = sid")
    case True
    with p Cons.prems have x: "x = r" "sid \<notin> set (map fst m)" by auto
    have "se_sessionId y \<noteq> sid" if "(k', y) \<in> set m" for k' y
    proof -
      have "se_sessionId y = k'" by (rule stored_ids [OF _ that]) (use Cons.prems(1) in simp)
      moreover have "k' \<in> set (map fst m)" using that by (force simp: image_iff)
      ultimately show ?thesis using x(2) by blast
    qed
    note other = this
    have "\<forall>x \<in> set (map (row_of rec \<circ> snd) m). sr_session_id x \<noteq> sid"
    proof
      fix x assume "x \<in> set (map (row_of rec \<circ> snd) m)"
      then obtain k' y where "(k', y) \<in> set m" "x = row_of rec y" by auto
      with other show "sr_session_id x \<noteq> sid" by (simp add: row_of_def)
    qed
    then have rest1: "update_where (\<lambda>x. sr_session_id x = sid) f (map (row_of rec \<circ> snd) m) =
        map (row_of rec \<circ> snd) m" by (rule update_where_none)
    have rest2: "map (row_of rec' \<circ> snd) m = map (row_of rec \<circ> snd) m"
    proof (rule map_cong [OF refl])
      fix z assume "z \<in> set m"
      then have "(fst z, snd z) \<in> set m" by simp
      from assms(6) [OF other [OF this]] show "(row_of rec' \<circ> snd) z = (row_of rec \<circ> snd) z" by simp
    qed
    have hit: "sr_session_id (row_of rec r) = sid" using x kx True by (simp add: row_of_def)
    show ?thesis using p True x rest1 rest2 hit assms(5) by (simp add: table_simps comp_def)
  next
    case False
    with Cons p kx assms(6) show ?thesis by (simp add: table_simps row_of_def [of rec x])
  qed
qed

datatype session_call =
    Create string string int
  | Close string int
  | Mark string
  | Clear string

datatype session_reply = Got "(thrown, session_record) result" | Done "(thrown, unit) result"

fun mem_call :: "session_call \<Rightarrow> mem_sessions \<Rightarrow> session_reply \<times> mem_sessions" where
  "mem_call (Create a uuid now) st = (let (r, st') = mem_createSession a uuid now st in (Got r, st'))"
| "mem_call (Close sid now) st = (let (r, st') = mem_closeSession sid now st in (Got r, st'))"
| "mem_call (Mark sid) st = (let (r, st') = mem_markRecoveryRequired sid st in (Done r, st'))"
| "mem_call (Clear sid) st = (let (r, st') = mem_clearRecoveryRequired sid st in (Done r, st'))"

fun db_call :: "session_call \<Rightarrow> session_table \<Rightarrow> session_reply \<times> session_table" where
  "db_call (Create a uuid now) t = (let (r, t') = db_createSession a uuid now t in (Got r, t'))"
| "db_call (Close sid now) t = (let (r, t') = db_closeSession sid now t in (Got r, t'))"
| "db_call (Mark sid) t = (let (r, t') = db_markRecoveryRequired sid t in (Done r, t'))"
| "db_call (Clear sid) t = (let (r, t') = db_clearRecoveryRequired sid t in (Done r, t'))"

definition fresh_call :: "session_call \<Rightarrow> mem_sessions \<Rightarrow> bool" where
  "fresh_call c st = (case c of Create _ uuid _ \<Rightarrow> map_of (ms_sessions st) uuid = None | _ \<Rightarrow> True)"

lemma mem_inv_update:
  assumes "mem_inv st" "map_of (ms_sessions st) sid = Some r" "se_sessionId r' = sid"
  shows "map (se_sessionId \<circ> snd) (AList.update sid r' (ms_sessions st)) =
     map fst (AList.update sid r' (ms_sessions st)) \<and>
     distinct (map fst (AList.update sid r' (ms_sessions st)))"
proof
  have "map (se_sessionId \<circ> snd) m = map fst m \<Longrightarrow>
      map (se_sessionId \<circ> snd) (AList.update sid r' m) = map fst (AList.update sid r' m)" for m
    using assms(3) by (induction m) auto
  then show "map (se_sessionId \<circ> snd) (AList.update sid r' (ms_sessions st)) =
      map fst (AList.update sid r' (ms_sessions st))"
    using assms(1) unfolding mem_inv_def by blast
  show "distinct (map fst (AList.update sid r' (ms_sessions st)))"
    using assms(1) by (simp add: mem_inv_def distinct_update)
qed

lemma recovery_rows:
  assumes "\<And>x. se_sessionId x \<noteq> sid \<Longrightarrow> row_of rec' x = row_of rec x"
    and "\<And>x. se_sessionId x = sid \<Longrightarrow> row_of rec' x = f (row_of rec x)"
  shows "map (row_of rec' \<circ> snd) m = update_where (\<lambda>x. sr_session_id x = sid) f (map (row_of rec \<circ> snd) m)"
  using assms by (induction m) (auto simp: table_simps row_of_def [of rec])

lemma row_of_other:
  "se_sessionId x \<noteq> sid \<Longrightarrow> row_of (set_add sid rec) x = row_of rec x"
  "se_sessionId x \<noteq> sid \<Longrightarrow> row_of (set_delete sid rec) x = row_of rec x"
  "se_sessionId x = sid \<Longrightarrow> row_of (set_add sid rec) x = (row_of rec x)\<lparr>sr_recovery_required := 1\<rparr>"
  "se_sessionId x = sid \<Longrightarrow> row_of (set_delete sid rec) x = (row_of rec x)\<lparr>sr_recovery_required := 0\<rparr>"
  by (simp_all add: row_of_def)

lemma call_agrees:
  assumes "mem_inv st" "fresh_call c st" "mem_call c st = (reply, st')"
  shows "db_call c (table_of st) = (reply, table_of st') \<and> mem_inv st'"
proof (cases c)
  case (Create a uuid now)
  with assms(2) have "map_of (ms_sessions st) uuid = None" by (simp add: fresh_call_def)
  then have no: "uuid \<notin> set (map fst (ms_sessions st))" by (simp add: map_of_eq_None_iff)
  have app: "AList.update uuid r m = m @ [(uuid, r)]" if "uuid \<notin> set (map fst m)"
    for r and m :: "(string, session_record) js_map" using that by (induction m) auto
  have "uuid \<notin> set (map sr_session_id (table_of st))" unfolding mem_inv_ids [OF assms(1)] by (rule no)
  then have free: "\<not> (\<exists>r \<in> set (table_of st). sr_session_id r = uuid)" by auto
  have "uuid \<notin> set (ms_recoveryRequired st)" using no assms(1) by (auto simp: mem_inv_def)
  with free assms Create app [OF no] no show ?thesis
    by (auto simp: mem_createSession_def db_createSession_def Let_def table_of_def row_of_def mem_inv_def)
next
  case (Close sid now)
  show ?thesis
  proof (cases "mem_getSession sid st")
    case None
    with assms Close show ?thesis
      by (simp add: mem_closeSession_def db_closeSession_def db_getSession_table)
  next
    case (Some r)
    then have r: "map_of (ms_sessions st) sid = Some r" by (simp add: mem_getSession_def)
    have ids: "map (se_sessionId \<circ> snd) (ms_sessions st) = map fst (ms_sessions st)"
      and keys: "distinct (map fst (ms_sessions st))" using assms(1) by (simp_all add: mem_inv_def)
    have sid: "se_sessionId r = sid" using stored_id [OF ids r] .
    let ?r = "r\<lparr>se_closedAt := Some now\<rparr>" and ?rec = "ms_recoveryRequired st"
    have st': "st' = \<lparr>ms_sessions = AList.update sid ?r (ms_sessions st), ms_recoveryRequired = set_delete sid ?rec\<rparr>"
      and reply: "reply = Got (Inr ?r)"
      using assms(3) Close Some by (auto simp: mem_closeSession_def Let_def)
    have "map (row_of (set_delete sid ?rec) \<circ> snd) (AList.update sid ?r (ms_sessions st)) =
        update_where (\<lambda>x. sr_session_id x = sid)
          (\<lambda>x. x\<lparr>sr_closed_at := Some now, sr_recovery_required := 0\<rparr>) (table_of st)"
      unfolding table_of_def
      by (rule map_update_row [OF ids keys r]) (use sid in \<open>simp_all add: row_of_def\<close>)
    then have "table_of st' = update_where (\<lambda>x. sr_session_id x = sid)
          (\<lambda>x. x\<lparr>sr_closed_at := Some now, sr_recovery_required := 0\<rparr>) (table_of st)"
      by (simp add: st' table_of_def [of "\<lparr>ms_sessions = _, ms_recoveryRequired = _\<rparr>"])
    moreover have "mem_inv st'"
      using mem_inv_update [OF assms(1) r, of ?r] sid assms(1)
      by (auto simp: mem_inv_def st' dom_update)
    ultimately show ?thesis
      using Some Close assms(1) reply
      by (simp add: db_closeSession_def db_getSession_table)
  qed
next
  case (Mark sid)
  show ?thesis
  proof (cases "mem_getSession sid st")
    case None
    with assms Mark show ?thesis
      by (simp add: mem_markRecoveryRequired_def db_markRecoveryRequired_def db_getSession_table)
  next
    case (Some r)
    then have "sid \<in> set (map fst (ms_sessions st))"
      by (auto simp: mem_getSession_def dest: map_of_in_keys)
    moreover have st': "st' = st\<lparr>ms_recoveryRequired := set_add sid (ms_recoveryRequired st)\<rparr>"
      and "reply = Done (Inr ())"
      using assms(3) Mark Some by (auto simp: mem_markRecoveryRequired_def)
    moreover have "table_of st' = update_where (\<lambda>x. sr_session_id x = sid)
        (\<lambda>x. x\<lparr>sr_recovery_required := 1\<rparr>) (table_of st)"
      using recovery_rows [of sid "set_add sid (ms_recoveryRequired st)", OF row_of_other(1,3)]
      by (simp add: table_of_def st')
    ultimately show ?thesis
      using assms(1) Mark Some
      by (simp add: db_markRecoveryRequired_def db_getSession_table mem_inv_def)
  qed
next
  case (Clear sid)
  have st': "st' = st\<lparr>ms_recoveryRequired := set_delete sid (ms_recoveryRequired st)\<rparr>"
    and "reply = Done (Inr ())"
    using assms(3) Clear by (auto simp: mem_clearRecoveryRequired_def)
  moreover have "table_of st' = update_where (\<lambda>x. sr_session_id x = sid)
      (\<lambda>x. x\<lparr>sr_recovery_required := 0\<rparr>) (table_of st)"
    using recovery_rows [of sid "set_delete sid (ms_recoveryRequired st)", OF row_of_other(2,4)]
    by (simp add: table_of_def st')
  ultimately show ?thesis
    using assms(1) Clear by (auto simp: db_clearRecoveryRequired_def mem_inv_def)
qed

fun mem_calls :: "session_call list \<Rightarrow> mem_sessions \<Rightarrow> session_reply list \<times> mem_sessions" where
  "mem_calls [] st = ([], st)"
| "mem_calls (c # cs) st =
     (let (r, st1) = mem_call c st; (rs, st2) = mem_calls cs st1 in (r # rs, st2))"

fun db_calls :: "session_call list \<Rightarrow> session_table \<Rightarrow> session_reply list \<times> session_table" where
  "db_calls [] t = ([], t)"
| "db_calls (c # cs) t =
     (let (r, t1) = db_call c t; (rs, t2) = db_calls cs t1 in (r # rs, t2))"

text \<open>The ids of created sessions are new: those of later calls are not used before.\<close>

definition created :: "session_call list \<Rightarrow> string list" where
  "created cs = List.map_filter (\<lambda>c. case c of Create _ uuid _ \<Rightarrow> Some uuid | _ \<Rightarrow> None) cs"

definition no_sessions :: mem_sessions where
  "no_sessions = \<lparr>ms_sessions = [], ms_recoveryRequired = []\<rparr>"

lemma keys_update: "set (map fst (AList.update k v m)) = insert k (set (map fst m))"
  using dom_update [of k v m] by simp

lemma key_present: "map_of m k = Some v \<Longrightarrow> insert k (set (map fst m)) = set (map fst m)"
  using map_of_in_keys [of m k v] by (simp add: insert_absorb)

lemma keys_call:
  assumes "mem_call c st = (reply, st')"
  shows "set (map fst (ms_sessions st')) = set (map fst (ms_sessions st)) \<union> set (created [c])"
proof (cases c)
  case (Create a uuid now)
  with assms have "ms_sessions st' = AList.update uuid
      \<lparr>se_sessionId = uuid, se_createdAt = now, se_closedAt = None, se_agentId = a\<rparr> (ms_sessions st)"
    by (auto simp: mem_createSession_def Let_def)
  with Create show ?thesis unfolding keys_update [symmetric]
    by (simp add: keys_update created_def List.map_filter_def del: set_map)
next
  case (Close sid now)
  show ?thesis
  proof (cases "map_of (ms_sessions st) sid")
    case None
    with assms Close show ?thesis
      by (auto simp: mem_closeSession_def mem_getSession_def created_def List.map_filter_def)
  next
    case (Some r)
    with assms Close have "ms_sessions st' = AList.update sid (r\<lparr>se_closedAt := Some now\<rparr>) (ms_sessions st)"
      by (auto simp: mem_closeSession_def mem_getSession_def Let_def)
    with Close key_present [OF Some] show ?thesis
      by (simp add: keys_update created_def List.map_filter_def del: set_map)
  qed
next
  case (Mark sid)
  with assms show ?thesis
    by (auto simp: mem_markRecoveryRequired_def Let_def created_def List.map_filter_def split: if_splits)
next
  case (Clear sid)
  with assms show ?thesis
    by (auto simp: mem_clearRecoveryRequired_def Let_def created_def List.map_filter_def)
qed

lemma created_Cons: "created (c # cs) = created [c] @ created cs"
  by (simp add: created_def List.map_filter_def)

lemma fresh_created:
  "set (created [c]) \<inter> set (map fst (ms_sessions st)) = {} \<Longrightarrow> fresh_call c st"
  by (cases c) (auto simp: fresh_call_def created_def List.map_filter_def map_of_eq_None_iff)

lemma calls_agree:
  assumes "mem_inv st" "distinct (created cs)" "set (created cs) \<inter> set (map fst (ms_sessions st)) = {}"
    and "mem_calls cs st = (replies, st')"
  shows "db_calls cs (table_of st) = (replies, table_of st') \<and> mem_inv st'"
  using assms
proof (induction cs arbitrary: st replies)
  case Nil
  then show ?case by simp
next
  case (Cons c cs)
  obtain r st1 where c: "mem_call c st = (r, st1)" by fastforce
  obtain rs where cs: "mem_calls cs st1 = (rs, st')" and replies: "replies = r # rs"
    using Cons.prems(4) c by (auto split: prod.splits)
  have apart: "set (created [c]) \<inter> set (created cs) = {}"
    and here: "set (created [c]) \<inter> set (map fst (ms_sessions st)) = {}"
    and rest: "distinct (created cs)" "set (created cs) \<inter> set (map fst (ms_sessions st)) = {}"
    using Cons.prems(2,3) unfolding created_Cons [of c cs] by auto
  from call_agrees [OF Cons.prems(1) fresh_created [OF here] c]
  have step: "db_call c (table_of st) = (r, table_of st1)" "mem_inv st1" by blast+
  have "set (created cs) \<inter> set (map fst (ms_sessions st1)) = {}"
    unfolding keys_call [OF c] using rest(2) apart by blast
  from Cons.IH [OF step(2) rest(1) this cs] step(1) replies show ?case by simp
qed

text \<open>
  Property (C33): the in-memory service and the service over the table cannot be told apart:
  after the same creations (with new ids), closings and recovery marks, every call has
  returned the same value or error, and every query returns the same: lookup, openness, the
  recovery flag of existing sessions, and every page of the listing.
\<close>

theorem session_branches_agree:
  assumes "distinct (created cs)"
    and "mem_calls cs no_sessions = (replies, st)" "db_calls cs [] = (replies', t)"
  shows "replies' = replies \<and>
    db_getSession sid t = mem_getSession sid st \<and> db_isOpen sid t = mem_isOpen sid st \<and>
    (mem_getSession sid st = None \<or> db_requiresRecovery sid t = mem_requiresRecovery sid st) \<and>
    db_listSessions lc params t = mem_listSessions lc params st"
proof -
  have "mem_inv no_sessions" "table_of no_sessions = []"
    by (simp_all add: mem_inv_def no_sessions_def table_of_def)
  with calls_agree [of no_sessions cs replies st] assms
  have t: "replies' = replies" "t = table_of st" and inv: "mem_inv st"
    by (auto simp: no_sessions_def)
  have items: "map db_item t = map (mem_item (ms_recoveryRequired st) \<circ> snd) (ms_sessions st)"
    by (simp add: t table_of_def db_item_def mem_item_def row_of_def)
  have "mem_getSession sid st = None \<or> db_requiresRecovery sid t = mem_requiresRecovery sid st"
    using requires_table [OF inv, of sid] unfolding t(2) by blast
  then show ?thesis
    using t inv
    by (simp add: db_listSessions_def mem_listSessions_def items [unfolded t(2)] db_getSession_table
        db_isOpen_def mem_isOpen_def)
qed

definition sample_session_calls :: "session_call list" where
  "sample_session_calls =
     [Create ''maid'' ''s1'' 10, Create ''cook'' ''s2'' 20, Mark ''s1'', Close ''s2'' 30, Close ''s9'' 40]"

definition list_all_params :: list_params where
  "list_all_params = \<lparr>lp_agentId = None, lp_status = None, lp_limit = Some (Fin 1), lp_cursor = None\<rparr>"

theorem session_branches_agree_witness:
  "fst (db_calls sample_session_calls []) = fst (mem_calls sample_session_calls no_sessions) \<and>
   db_listSessions (<) list_all_params (snd (db_calls sample_session_calls [])) =
   mem_listSessions (<) list_all_params (snd (mem_calls sample_session_calls no_sessions)) \<and>
   db_requiresRecovery ''s1'' (snd (db_calls sample_session_calls []))"
proof -
  have "distinct (created sample_session_calls)" by code_simp
  from session_branches_agree [OF this prod.collapse [symmetric] prod.collapse [symmetric],
      of _ "(<)" list_all_params]
  have "fst (db_calls sample_session_calls []) = fst (mem_calls sample_session_calls no_sessions)"
    "db_listSessions (<) list_all_params (snd (db_calls sample_session_calls [])) =
     mem_listSessions (<) list_all_params (snd (mem_calls sample_session_calls no_sessions))" by blast+
  moreover have "db_requiresRecovery ''s1'' (snd (db_calls sample_session_calls []))" by code_simp
  ultimately show ?thesis by blast
qed

section \<open>Paging\<close>

text \<open>Following the cursors of a listing from the first page, for at most \<open>n\<close> pages.\<close>

fun walk :: "nat \<Rightarrow> (list_params \<Rightarrow> (thrown, list_result) result) \<Rightarrow> list_params \<Rightarrow> list_item list list option" where
  "walk 0 list params = None"
| "walk (Suc n) list params =
     (case list params of
        Inl e \<Rightarrow> None
      | Inr r \<Rightarrow>
          (case lr_nextCursor r of
             None \<Rightarrow> Some [lr_items r]
           | Some c \<Rightarrow>
               map_option (\<lambda>pages. lr_items r # pages) (walk n list (params\<lparr>lp_cursor := Some c\<rparr>))))"

lemma created_desc_order: "weak_order (created_desc (<))"
  by unfold_locales (auto simp: created_desc_def split: if_splits)

lemma before_cursor_iff:
  "isBeforeCursor (Some (li_created_at x, li_session_id x)) y \<longleftrightarrow> created_desc (<) x y"
  by (auto simp: isBeforeCursor_def created_desc_def)

lemma limit_positive: "1 \<le> clampListLimit l"
  by (simp add: clampListLimit_def Let_def)

definition strictly_desc :: "list_item list \<Rightarrow> bool" where
  "strictly_desc xs = sorted_wrt (created_desc (<)) xs"

lemma strict_if_distinct:
  "sorted_wrt (\<lambda>a b. \<not> created_desc (<) b a) xs \<Longrightarrow> distinct (map li_session_id xs) \<Longrightarrow> strictly_desc xs"
proof (induction xs)
  case (Cons x xs)
  have "created_desc (<) x y" if "y \<in> set xs" for y
  proof -
    have "\<not> created_desc (<) y x" using Cons.prems(1) that by simp
    moreover have "li_session_id y \<noteq> li_session_id x" using Cons.prems(2) that by (force simp: image_iff)
    ultimately show ?thesis by (auto simp: created_desc_def split: if_splits)
  qed
  with Cons show ?case by (simp add: strictly_desc_def)
qed (simp add: strictly_desc_def)

lemma sort_strict:
  assumes "distinct (map li_session_id items)"
  shows "strictly_desc (sort_by (created_desc (<)) (filter P items))"
proof (rule strict_if_distinct)
  show "sorted_wrt (\<lambda>a b. \<not> created_desc (<) b a) (sort_by (created_desc (<)) (filter P items))"
    by (rule weak_order.sorted_sort_by [OF created_desc_order])
  have "distinct (map li_session_id (filter P items))" using assms by (rule distinct_map_filter)
  then show "distinct (map li_session_id (sort_by (created_desc (<)) (filter P items)))"
    by (simp add: distinct_map)
qed

lemma filter_behind:
  assumes "strictly_desc (pre @ suf)" "pre \<noteq> []"
  shows "filter (created_desc (<) (last pre)) (pre @ suf) = suf"
proof -
  obtain pre' x where pre: "pre = pre' @ [x]" using assms(2) by (metis rev_exhaust)
  have after: "\<forall>y \<in> set suf. created_desc (<) x y" and before: "\<forall>y \<in> set pre'. created_desc (<) y x"
    using assms(1) unfolding strictly_desc_def pre by (simp_all add: sorted_wrt_append)
  have "\<not> created_desc (<) x y" if "y \<in> set pre" for y
    using that before weak_order.asym [OF created_desc_order] weak_order.irrefl [OF created_desc_order]
    unfolding pre by auto
  with after show ?thesis unfolding pre last_snoc by (simp add: filter_empty_conv filter_id_conv)
qed

lemma decode_next:
  assumes "li_session_id x \<noteq> []"
  shows "encodeCursor \<lparr>cu_sort_key = Iso_date (li_created_at x), cu_tie_breaker = li_session_id x\<rparr> =
      Inr (Opaque \<lparr>cu_sort_key = Iso_date (li_created_at x), cu_tie_breaker = li_session_id x\<rparr>)"
    and "decodeCursorBoundary (Some (Opaque \<lparr>cu_sort_key = Iso_date (li_created_at x),
      cu_tie_breaker = li_session_id x\<rparr>)) = Inr (Some (li_created_at x, li_session_id x))"
  using assms by (simp_all add: encodeCursor_def decodeCursorBoundary_def decodeCursor_def)

text \<open>From any page on, the walk returns the rest of the list.\<close>

lemma walk_rest:
  assumes list: "\<And>p. list p = list_page (<) p items"
    and L: "L = sort_by (created_desc (<)) (filter (wanted params) items)" "strictly_desc L"
    and ids: "\<forall>x \<in> set items. li_session_id x \<noteq> []"
  shows "L = pre @ suf \<Longrightarrow>
    decodeCursorBoundary c = Inr (if pre = [] then None else Some (li_created_at (last pre), li_session_id (last pre))) \<Longrightarrow>
    length suf < n \<Longrightarrow>
    \<exists>pages. walk n list (params\<lparr>lp_cursor := c\<rparr>) = Some pages \<and> concat pages = suf \<and>
      (\<forall>page \<in> set pages. int (length page) \<le> clampListLimit (lp_limit params))"
proof (induction n arbitrary: pre suf c)
  case 0
  then show ?case by simp
next
  case (Suc n)
  let ?lim = "clampListLimit (lp_limit params)"
  have wanted_same: "wanted (params\<lparr>lp_cursor := c\<rparr>) = wanted params" by (simp add: wanted_def fun_eq_iff)
  have rest: "filter (isBeforeCursor (if pre = [] then None
      else Some (li_created_at (last pre), li_session_id (last pre)))) L = suf"
  proof (cases "pre = []")
    case True
    with Suc.prems(1) show ?thesis by (simp add: isBeforeCursor_def)
  next
    case False
    have "isBeforeCursor (Some (li_created_at (last pre), li_session_id (last pre))) = created_desc (<) (last pre)"
      by (rule ext) (rule before_cursor_iff)
    with False filter_behind [OF L(2) [unfolded Suc.prems(1)] False] Suc.prems(1) show ?thesis by simp
  qed
  have page: "list (params\<lparr>lp_cursor := c\<rparr>) = buildPagedResult suf ?lim"
    using Suc.prems(2) rest unfolding list list_page_def wanted_same by (simp add: L(1) [symmetric])
  show ?case
  proof (cases "int (length suf) > ?lim")
    case False
    then show ?thesis
      by (simp add: page buildPagedResult_def next_cursor_def)
  next
    case True
    let ?page = "take (nat ?lim) suf" and ?suf = "drop (nat ?lim) suf"
    have pos: "0 < nat ?lim" "nat ?lim < length suf" using True limit_positive [of "lp_limit params"] by simp_all
    then have ne: "?page \<noteq> []" by auto
    let ?x = "last ?page"
    have "?x \<in> set L" using ne Suc.prems(1) by (metis UnI2 in_set_takeD last_in_set set_append)
    then have "?x \<in> set items" unfolding L(1) by simp
    with ids have x: "li_session_id ?x \<noteq> []" by blast
    let ?c = "Opaque \<lparr>cu_sort_key = Iso_date (li_created_at ?x), cu_tie_breaker = li_session_id ?x\<rparr>"
    have "list (params\<lparr>lp_cursor := c\<rparr>) = Inr \<lparr>lr_items = ?page, lr_nextCursor = Some ?c\<rparr>"
      unfolding page using True ne decode_next(1) [OF x] by (simp add: buildPagedResult_def next_cursor_def Let_def)
    moreover have "\<exists>pages. walk n list (params\<lparr>lp_cursor := Some ?c\<rparr>) = Some pages \<and> concat pages = ?suf \<and>
        (\<forall>page \<in> set pages. int (length page) \<le> ?lim)"
    proof (rule Suc.IH)
      show "L = (pre @ ?page) @ ?suf" using Suc.prems(1) by simp
      show "decodeCursorBoundary (Some ?c) = Inr (if pre @ ?page = [] then None
          else Some (li_created_at (last (pre @ ?page)), li_session_id (last (pre @ ?page))))"
        using decode_next(2) [OF x] ne by simp
      show "length ?suf < n" using Suc.prems(3) pos by simp
    qed
    then obtain pages where "walk n list (params\<lparr>lp_cursor := Some ?c\<rparr>) = Some pages" "concat pages = ?suf"
      "\<forall>page \<in> set pages. int (length page) \<le> ?lim" by blast
    ultimately show ?thesis using limit_positive [of "lp_limit params"] by auto
  qed
qed

lemma insert_by_cong: "(\<And>y. y \<in> set ys \<Longrightarrow> f y x = g y x) \<Longrightarrow> insert_by f x ys = insert_by g x ys"
  by (induction ys) simp_all

lemma sort_by_cong:
  assumes "\<And>x y. x \<in> set xs \<Longrightarrow> y \<in> set xs \<Longrightarrow> f x y = g x y"
  shows "sort_by f xs = sort_by g xs"
  using assms
proof (induction xs)
  case (Cons x xs)
  have tail: "sort_by f xs = sort_by g xs" by (rule Cons.IH) (simp add: Cons.prems)
  have "insert_by f x (sort_by g xs) = insert_by g x (sort_by g xs)"
    by (rule insert_by_cong) (simp add: Cons.prems)
  then show ?case by (simp add: tail)
qed simp

text \<open>Ids of one millisecond that the locale orders as their character codes do.\<close>

definition ordered_alike :: "(string \<Rightarrow> string \<Rightarrow> bool) \<Rightarrow> session_table \<Rightarrow> bool" where
  "ordered_alike lc t \<longleftrightarrow>
     (\<forall>r \<in> set t. \<forall>s \<in> set t. sr_created_at r = sr_created_at s \<longrightarrow>
        lc (sr_session_id r) (sr_session_id s) = (sr_session_id r < sr_session_id s))"

lemma sort_alike:
  assumes "ordered_alike lc t"
  shows "sort_by (created_desc lc) (filter P (map db_item t)) = sort_by (created_desc (<)) (filter P (map db_item t))"
  using assms by (intro sort_by_cong) (auto simp: created_desc_def ordered_alike_def db_item_def)

lemma list_alike:
  assumes "ordered_alike lc t"
  shows "db_listSessions lc p t = db_listSessions (<) p t"
  unfolding db_listSessions_def list_page_def Let_def sort_alike [OF assms] ..

text \<open>
  Property (C10): following the cursors of the listing from the first page ends, and its pages,
  none longer than the clamped limit, are together exactly the sessions the filters select,
  each once, newest first. Sessions of one millisecond are sorted with \<open>localeCompare\<close>, which
  is an argument, but the cursor compares their character codes; so for them the locale has to
  order the ids as their codes do. It need not where no two sessions have the same time.
\<close>

theorem paging_lists_each_once:
  assumes "distinct (map sr_session_id t)" "\<forall>r \<in> set t. sr_session_id r \<noteq> []" "ordered_alike lc t"
  shows "\<exists>pages. walk (Suc (length t)) (\<lambda>p. db_listSessions lc p t) (params\<lparr>lp_cursor := None\<rparr>) = Some pages \<and>
    concat pages = sort_by (created_desc lc) (filter (wanted params) (map db_item t)) \<and>
    set (concat pages) = {x \<in> db_item ` set t. wanted params x} \<and> distinct (concat pages) \<and>
    strictly_desc (concat pages) \<and>
    (\<forall>page \<in> set pages. int (length page) \<le> clampListLimit (lp_limit params))"
proof -
  let ?items = "map db_item t" and ?L = "sort_by (created_desc (<)) (filter (wanted params) (map db_item t))"
  have ids: "map li_session_id ?items = map sr_session_id t" by (simp add: db_item_def)
  have dist: "distinct (map li_session_id ?items)" unfolding ids by (rule assms(1))
  have strict: "strictly_desc ?L" by (rule sort_strict [OF dist])
  have "distinct ?items" using dist by (simp only: distinct_map)
  then have "distinct (filter (wanted params) ?items)" by (rule distinct_filter)
  then have distL: "distinct ?L" by simp
  have "length ?L < Suc (length t)" by (simp add: le_imp_less_Suc order_trans [OF length_filter_le])
  moreover have "\<forall>x \<in> set ?items. li_session_id x \<noteq> []" using assms(2) by (auto simp: db_item_def)
  ultimately obtain pages where
    "walk (Suc (length t)) (\<lambda>p. db_listSessions (<) p t) (params\<lparr>lp_cursor := None\<rparr>) = Some pages"
    "concat pages = ?L" "\<forall>page \<in> set pages. int (length page) \<le> clampListLimit (lp_limit params)"
    using walk_rest [of "\<lambda>p. db_listSessions (<) p t" ?items ?L params "[]" ?L None "Suc (length t)"] strict
    by (auto simp: db_listSessions_def decodeCursorBoundary_def)
  with strict distL show ?thesis
    unfolding list_alike [OF assms(3)] sort_alike [OF assms(3)] by (intro exI [of _ pages]) auto
qed

section \<open>The repository lists the same pages\<close>

definition flags_ok :: "session_table \<Rightarrow> bool" where
  "flags_ok t = (\<forall>r \<in> set t. sr_recovery_required r \<in> {0, 1})"

lemma pg_wanted:
  assumes "sr_recovery_required r \<in> {0, 1}" "lp_agentId params \<noteq> Some []"
  shows "((case lp_agentId params of Some a \<Rightarrow> sr_agent_id r = a | None \<Rightarrow> True) \<and>
      pg_status_ok (lp_status params) r) = wanted params (db_item r)"
  using assms
  by (auto simp: wanted_def pg_status_ok_def db_item_def deriveStatus_def
      split: option.splits session_status.splits)

lemma pg_before:
  "(case b of None \<Rightarrow> True | Some (c, sid) \<Rightarrow>
      sr_created_at r < c \<or> (sr_created_at r = c \<and> sr_session_id r < sid)) = isBeforeCursor b (db_item r)"
  by (auto simp: isBeforeCursor_def db_item_def split: option.splits)

lemma take_page:
  assumes "1 \<le> k"
  shows "int (length (take (nat (k + 1)) xs)) > k \<longleftrightarrow> int (length xs) > k"
    and "(if int (length xs) > k then take (nat k) (take (nat (k + 1)) xs) else take (nat (k + 1)) xs) =
      (if int (length xs) > k then take (nat k) xs else xs)"
  using assms by (auto simp: min_def)

lemma filter_map_item: "map db_item (filter (\<lambda>r. P (db_item r)) t) = filter P (map db_item t)"
  by (induction t) simp_all

text \<open>
  The statement of the repository returns the page the service computes: for
  the same table and parameters, with a collation and a \<open>localeCompare\<close> that order ids by
  their character codes, both give the same items, the same next cursor or the same error.
\<close>

theorem pg_listing_agrees:
  assumes "flags_ok t" "lp_agentId params \<noteq> Some []"
  shows "pg_listSessions (<) params t = db_listSessions (<) params t"
proof (cases "decodeCursorBoundary (lp_cursor params)")
  case (Inl e)
  then show ?thesis by (simp add: pg_listSessions_def db_listSessions_def list_page_def Let_def)
next
  case (Inr b)
  let ?lim = "clampListLimit (lp_limit params)"
  let ?found = "filter (\<lambda>r. (case lp_agentId params of Some a \<Rightarrow> sr_agent_id r = a | None \<Rightarrow> True) \<and>
      pg_status_ok (lp_status params) r \<and>
      (case b of None \<Rightarrow> True | Some (c, sid) \<Rightarrow>
        sr_created_at r < c \<or> (sr_created_at r = c \<and> sr_session_id r < sid))) t"
  let ?before = "\<lambda>a b. if sr_created_at a \<noteq> sr_created_at b then sr_created_at b < sr_created_at a
      else sr_session_id b < sr_session_id a"
  let ?sorted = "sort_by ?before ?found"
  let ?items = "filter (isBeforeCursor b) (sort_by (created_desc (<)) (filter (wanted params) (map db_item t)))"
  have "?found = filter (\<lambda>r. wanted params (db_item r) \<and> isBeforeCursor b (db_item r)) t"
    using assms pg_wanted pg_before unfolding flags_ok_def by (intro filter_cong) blast+
  then have "map db_item ?found = filter (isBeforeCursor b) (filter (wanted params) (map db_item t))"
    using filter_map_item [of "\<lambda>i. wanted params i \<and> isBeforeCursor b i" t] by simp
  moreover have "map db_item ?sorted = sort_by (created_desc (<)) (map db_item ?found)"
    by (rule sort_by_map [symmetric]) (simp add: created_desc_def db_item_def)
  ultimately have items: "map db_item ?sorted = ?items"
    by (simp only: weak_order.sort_by_filter [OF created_desc_order])
  have len: "length ?sorted = length ?items" unfolding items [symmetric] length_map ..
  have page: "map db_item (if int (length ?sorted) > ?lim then take (nat ?lim) ?sorted else ?sorted) =
      (if int (length ?items) > ?lim then take (nat ?lim) ?items else ?items)"
    unfolding len if_distrib [of "map db_item"] take_map [symmetric] items ..
  show ?thesis
    unfolding pg_listSessions_def db_listSessions_def list_page_def Inr Let_def buildPagedResult_def
      sum.case take_page [OF limit_positive] page unfolding len ..
qed

theorem pg_listing_agrees_witness:
  "pg_listSessions (<) list_all_params (snd (db_calls sample_session_calls [])) =
   db_listSessions (<) list_all_params (snd (db_calls sample_session_calls []))"
proof -
  have "list_all (\<lambda>r. sr_recovery_required r = 0 \<or> sr_recovery_required r = 1)
      (snd (db_calls sample_session_calls []))" by code_simp
  then have "flags_ok (snd (db_calls sample_session_calls []))"
    by (auto simp: flags_ok_def list_all_iff)
  moreover have "lp_agentId list_all_params \<noteq> Some []" by (simp add: list_all_params_def)
  ultimately show ?thesis by (rule pg_listing_agrees)
qed

definition sample_table :: session_table where
  "sample_table = snd (db_calls sample_session_calls [])"

text \<open>A locale that looks at the length of ids first; the two sessions differ in their times.\<close>

definition short_first :: "string \<Rightarrow> string \<Rightarrow> bool" where
  "short_first a b \<longleftrightarrow> length a < length b \<or> length a = length b \<and> a < b"

theorem paging_lists_each_once_witness:
  "\<exists>pages. walk 3 (\<lambda>p. db_listSessions short_first p sample_table) list_all_params = Some pages \<and>
     map li_session_id (concat pages) = [''s2'', ''s1''] \<and> length pages = 2"
proof -
  have d: "distinct (map sr_session_id sample_table)" by code_simp
  have "list_all (\<lambda>r. sr_session_id r \<noteq> []) sample_table" by code_simp
  then have i: "\<forall>r \<in> set sample_table. sr_session_id r \<noteq> []" by (simp add: list_all_iff)
  have "list_all (\<lambda>r. list_all (\<lambda>s. sr_created_at r = sr_created_at s \<longrightarrow>
      short_first (sr_session_id r) (sr_session_id s) = (sr_session_id r < sr_session_id s)) sample_table) sample_table"
    by code_simp
  then have alike: "ordered_alike short_first sample_table" by (simp add: ordered_alike_def list_all_iff)
  have len: "Suc (length sample_table) = 3" by code_simp
  have p: "list_all_params\<lparr>lp_cursor := None\<rparr> = list_all_params" by (simp add: list_all_params_def)
  obtain pages where w: "walk 3 (\<lambda>p. db_listSessions short_first p sample_table) list_all_params = Some pages"
    using paging_lists_each_once [OF d i alike, of list_all_params] unfolding len p by blast
  have "map_option (\<lambda>ps. (map li_session_id (concat ps), length ps))
      (walk 3 (\<lambda>p. db_listSessions short_first p sample_table) list_all_params) = Some ([''s2'', ''s1''], 2)"
    by code_simp
  with w show ?thesis by simp
qed

end
