(* ===== verification/Settlement_Ledger.thy ===== *)
theory Settlement_Ledger
  imports Errors
begin

text \<open>
  The ledger of settlement processing: the table \<open>settlement_processing_ledger\<close> with the
  operations of \<open>PgSettlementLedgerRepo\<close>
  (\<^verbatim>\<open>src/storage/domain-repos/pg/settlement-ledger-repo.ts\<close>) and the adapter \<open>markFailed\<close> of
  \<^verbatim>\<open>src/bootstrap/runtime.ts\<close>. The status column is checked by its schema, so it is a
  \<open>ledger_status\<close>; \<open>settlement_id\<close> is the primary key. \<open>Date.now()\<close> is an argument.
\<close>

section \<open>Rows and operations\<close>

datatype ledger_status =
    ls_pending | ls_claimed | ls_applying | ls_applied | ls_replayed_noop | ls_conflict
  | ls_failed_retryable | ls_failed_terminal | ls_talker_committed | ls_thinker_projecting

datatype check_result = ck_pending | ck_applied | ck_not_found | ck_failed

record ledger_row =
  lg_settlementId :: string
  lg_agentId :: string
  lg_payloadHash :: "string option"
  lg_status :: ledger_status
  lg_attemptCount :: int
  lg_maxAttempts :: int
  lg_claimedBy :: "string option"
  lg_claimedAt :: "int option"
  lg_appliedAt :: "int option"
  lg_errorMessage :: "string option"
  lg_createdAt :: int
  lg_updatedAt :: int

type_synonym ledger = "ledger_row list"

abbreviation for_settlement :: "string \<Rightarrow> ledger_row \<Rightarrow> bool" where
  "for_settlement sid r \<equiv> lg_settlementId r = sid"

definition getBySettlementId :: "string \<Rightarrow> ledger \<Rightarrow> ledger_row option" where
  "getBySettlementId sid t = find (for_settlement sid) t"

definition rawStatus :: "string \<Rightarrow> ledger \<Rightarrow> ledger_status option" where
  "rawStatus sid t = map_option lg_status (find (for_settlement sid) t)"

definition check :: "string \<Rightarrow> ledger \<Rightarrow> check_result" where
  "check sid t =
     (case rawStatus sid t of
        None \<Rightarrow> ck_not_found
      | Some s \<Rightarrow>
          if s = ls_applied \<or> s = ls_replayed_noop then ck_applied
          else if s = ls_failed_terminal \<or> s = ls_conflict then ck_failed
          else ck_pending)"

text \<open>The newest row with a payload hash; of several with that time, the first.\<close>

definition getByHash :: "string \<Rightarrow> ledger \<Rightarrow> ledger_row option" where
  "getByHash h t =
     (case sort_by (\<lambda>a b. lg_createdAt b < lg_createdAt a) (filter (\<lambda>r. lg_payloadHash r = Some h) t) of
        [] \<Rightarrow> None | r # _ \<Rightarrow> Some r)"

text \<open>An insert with \<open>ON CONFLICT (settlement_id) DO NOTHING\<close>.\<close>

definition insert_new :: "ledger_row \<Rightarrow> ledger \<Rightarrow> ledger" where
  "insert_new r t = (if \<exists>x \<in> set t. lg_settlementId x = lg_settlementId r then t else t @ [r])"

definition new_row :: "string \<Rightarrow> string \<Rightarrow> ledger_status \<Rightarrow> int \<Rightarrow> ledger_row" where
  "new_row sid agentId s now =
     \<lparr>lg_settlementId = sid, lg_agentId = agentId, lg_payloadHash = None, lg_status = s,
      lg_attemptCount = 0, lg_maxAttempts = 4, lg_claimedBy = None, lg_claimedAt = None,
      lg_appliedAt = None, lg_errorMessage = None, lg_createdAt = now, lg_updatedAt = now\<rparr>"

definition markPending :: "string \<Rightarrow> string \<Rightarrow> int \<Rightarrow> ledger \<Rightarrow> ledger" where
  "markPending sid agentId now t = insert_new (new_row sid agentId ls_pending now) t"

definition markClaimed :: "string \<Rightarrow> string \<Rightarrow> int \<Rightarrow> ledger \<Rightarrow> ledger" where
  "markClaimed sid claimedBy now t =
     update_where (for_settlement sid)
       (\<lambda>r. r\<lparr>lg_status := ls_claimed, lg_claimedBy := Some claimedBy, lg_claimedAt := Some now,
              lg_errorMessage := None, lg_updatedAt := now\<rparr>) t"

definition markApplying :: "string \<Rightarrow> string \<Rightarrow> string option \<Rightarrow> int \<Rightarrow> ledger \<Rightarrow> ledger" where
  "markApplying sid agentId payloadHash now t =
     (let p = (\<lambda>r. for_settlement sid r \<and> lg_status r \<in> {ls_pending, ls_claimed, ls_failed_retryable})
      in if count_where p t > 0 then
           update_where p
             (\<lambda>r. r\<lparr>lg_status := ls_applying, lg_agentId := agentId,
                    lg_payloadHash := (case lg_payloadHash r of Some h \<Rightarrow> Some h | None \<Rightarrow> payloadHash),
                    lg_attemptCount := lg_attemptCount r + 1, lg_claimedBy := Some agentId,
                    lg_claimedAt := Some now, lg_errorMessage := None, lg_updatedAt := now\<rparr>) t
         else
           insert_new ((new_row sid agentId ls_applying now)
             \<lparr>lg_payloadHash := payloadHash, lg_attemptCount := 1, lg_claimedBy := Some agentId,
              lg_claimedAt := Some now\<rparr>) t)"

definition markApplied :: "string \<Rightarrow> int \<Rightarrow> ledger \<Rightarrow> ledger" where
  "markApplied sid now t =
     update_where (\<lambda>r. for_settlement sid r \<and> lg_status r \<in> {ls_applying, ls_thinker_projecting})
       (\<lambda>r. r\<lparr>lg_status := ls_applied, lg_appliedAt := Some now, lg_errorMessage := None,
              lg_updatedAt := now\<rparr>) t"

definition markReplayedNoop :: "string \<Rightarrow> int \<Rightarrow> ledger \<Rightarrow> ledger" where
  "markReplayedNoop sid now t =
     update_where (for_settlement sid)
       (\<lambda>r. r\<lparr>lg_status := ls_replayed_noop, lg_errorMessage := None, lg_updatedAt := now\<rparr>) t"

definition markConflict :: "string \<Rightarrow> string \<Rightarrow> int \<Rightarrow> ledger \<Rightarrow> ledger" where
  "markConflict sid msg now t =
     update_where (for_settlement sid)
       (\<lambda>r. r\<lparr>lg_status := ls_conflict, lg_errorMessage := Some msg, lg_updatedAt := now\<rparr>) t"

definition markFailedRetryScheduled :: "string \<Rightarrow> string \<Rightarrow> int \<Rightarrow> ledger \<Rightarrow> ledger" where
  "markFailedRetryScheduled sid msg now t =
     update_where (\<lambda>r. for_settlement sid r \<and> lg_status r \<in> {ls_applying, ls_thinker_projecting})
       (\<lambda>r. r\<lparr>lg_status := ls_failed_retryable, lg_errorMessage := Some msg, lg_updatedAt := now\<rparr>) t"

definition markFailedTerminal :: "string \<Rightarrow> string \<Rightarrow> int \<Rightarrow> ledger \<Rightarrow> ledger" where
  "markFailedTerminal sid msg now t =
     update_where (\<lambda>r. for_settlement sid r \<and> lg_status r \<in> {ls_applying, ls_thinker_projecting})
       (\<lambda>r. r\<lparr>lg_status := ls_failed_terminal, lg_errorMessage := Some msg, lg_updatedAt := now\<rparr>) t"

definition markFailed :: "string \<Rightarrow> string \<Rightarrow> bool \<Rightarrow> int \<Rightarrow> ledger \<Rightarrow> ledger" where
  "markFailed sid msg retryable now t =
     (if retryable then markFailedRetryScheduled sid msg now t else markFailedTerminal sid msg now t)"

definition markTalkerCommitted :: "string \<Rightarrow> string \<Rightarrow> int \<Rightarrow> ledger \<Rightarrow> ledger" where
  "markTalkerCommitted sid agentId now t = insert_new (new_row sid agentId ls_talker_committed now) t"

definition markThinkerProjecting :: "string \<Rightarrow> string \<Rightarrow> int \<Rightarrow> ledger \<Rightarrow> (thrown, unit) result \<times> ledger" where
  "markThinkerProjecting sid agentId now t =
     (let p = (\<lambda>r. for_settlement sid r \<and> lg_status r \<in> {ls_talker_committed, ls_failed_retryable})
      in if count_where p t = 0 then (Inl Plain_error, t)
         else (Inr (), update_where p
           (\<lambda>r. r\<lparr>lg_status := ls_thinker_projecting, lg_agentId := agentId,
                  lg_attemptCount := lg_attemptCount r + 1, lg_claimedBy := Some agentId,
                  lg_claimedAt := Some now, lg_errorMessage := None, lg_updatedAt := now\<rparr>) t))"

section \<open>The state machine\<close>

datatype ledger_call =
    LC_pending string | LC_claimed string | LC_applying string "string option" | LC_applied
  | LC_noop | LC_conflict string | LC_failed string bool | LC_talker string | LC_thinker string

fun run_ledger :: "string \<Rightarrow> int \<Rightarrow> ledger_call \<Rightarrow> ledger \<Rightarrow> ledger" where
  "run_ledger sid now (LC_pending a) t = markPending sid a now t"
| "run_ledger sid now (LC_claimed a) t = markClaimed sid a now t"
| "run_ledger sid now (LC_applying a h) t = markApplying sid a h now t"
| "run_ledger sid now LC_applied t = markApplied sid now t"
| "run_ledger sid now LC_noop t = markReplayedNoop sid now t"
| "run_ledger sid now (LC_conflict m) t = markConflict sid m now t"
| "run_ledger sid now (LC_failed m b) t = markFailed sid m b now t"
| "run_ledger sid now (LC_talker a) t = markTalkerCommitted sid a now t"
| "run_ledger sid now (LC_thinker a) t = snd (markThinkerProjecting sid a now t)"

text \<open>The status a call leaves, given the status of the settlement before (\<open>None\<close>: no row).\<close>

fun next_status :: "ledger_call \<Rightarrow> ledger_status option \<Rightarrow> ledger_status option" where
  "next_status (LC_pending _) s = (if s = None then Some ls_pending else s)"
| "next_status (LC_talker _) s = (if s = None then Some ls_talker_committed else s)"
| "next_status (LC_applying _ _) s =
     (if s \<in> {None, Some ls_pending, Some ls_claimed, Some ls_failed_retryable}
      then Some ls_applying else s)"
| "next_status (LC_thinker _) s =
     (if s \<in> {Some ls_talker_committed, Some ls_failed_retryable} then Some ls_thinker_projecting else s)"
| "next_status LC_applied s =
     (if s \<in> {Some ls_applying, Some ls_thinker_projecting} then Some ls_applied else s)"
| "next_status (LC_failed _ b) s =
     (if s \<in> {Some ls_applying, Some ls_thinker_projecting}
      then Some (if b then ls_failed_retryable else ls_failed_terminal) else s)"
| "next_status (LC_claimed _) s = map_option (\<lambda>_. ls_claimed) s"
| "next_status LC_noop s = map_option (\<lambda>_. ls_replayed_noop) s"
| "next_status (LC_conflict _) s = map_option (\<lambda>_. ls_conflict) s"

text \<open>Which calls start an attempt.\<close>

fun starts_attempt :: "ledger_call \<Rightarrow> ledger_status option \<Rightarrow> bool" where
  "starts_attempt (LC_applying _ _) s = (s \<in> {None, Some ls_pending, Some ls_claimed, Some ls_failed_retryable})"
| "starts_attempt (LC_thinker _) s = (s \<in> {Some ls_talker_committed, Some ls_failed_retryable})"
| "starts_attempt _ s = False"

definition attempts :: "string \<Rightarrow> ledger \<Rightarrow> int" where
  "attempts sid t = (case getBySettlementId sid t of None \<Rightarrow> 0 | Some r \<Rightarrow> lg_attemptCount r)"

lemma find_update:
  assumes "\<And>r. lg_settlementId (f r) = lg_settlementId r"
  shows "find (for_settlement s) (update_where (\<lambda>r. for_settlement sid r \<and> q r) f t) =
      (if s = sid then map_option (\<lambda>r. if q r then f r else r) (find (for_settlement s) t)
       else find (for_settlement s) t)"
    and "find (for_settlement s) (update_where (for_settlement sid) f t) =
      (if s = sid then map_option f (find (for_settlement s) t) else find (for_settlement s) t)"
  using assms by (induction t) (auto simp: table_simps)

lemma find_insert:
  "find (for_settlement s) (insert_new r t) =
    (if s = lg_settlementId r \<and> find (for_settlement s) t = None then Some r else find (for_settlement s) t)"
proof (cases "find (for_settlement (lg_settlementId r)) t")
  case None
  then have "\<not> (\<exists>x \<in> set t. lg_settlementId x = lg_settlementId r)" by (auto simp: find_None_iff)
  with None show ?thesis by (auto simp: insert_new_def find_append split: option.split)
next
  case (Some x)
  then have "\<exists>x \<in> set t. lg_settlementId x = lg_settlementId r" by (auto simp: find_Some_iff)
  with Some show ?thesis by (auto simp: insert_new_def)
qed

lemma count_0_iff:
  assumes "distinct (map lg_settlementId t)"
  shows "count_where (\<lambda>r. for_settlement sid r \<and> q (lg_status r)) t = 0 \<longleftrightarrow>
    (case find (for_settlement sid) t of None \<Rightarrow> True | Some r \<Rightarrow> \<not> q (lg_status r))"
  using assms
proof (induction t)
  case (Cons r t)
  show ?case
  proof (cases "for_settlement sid r")
    case True
    have "\<forall>x \<in> set t. \<not> for_settlement sid x"
    proof
      fix x assume "x \<in> set t"
      then have "lg_settlementId x \<in> set (map lg_settlementId t)" by simp
      with Cons.prems True show "\<not> for_settlement sid x" by auto
    qed
    then have "count_where (\<lambda>r. for_settlement sid r \<and> q (lg_status r)) t = 0"
      by (simp add: count_where_0_iff)
    with True show ?thesis by (simp add: table_simps)
  next
    case False
    with Cons show ?thesis by (simp add: table_simps)
  qed
qed (simp add: table_simps)

lemma ids_update:
  "(\<And>r. lg_settlementId (f r) = lg_settlementId r) \<Longrightarrow>
   map lg_settlementId (update_where p f t) = map lg_settlementId t"
  by (rule map_update_where)

lemma ids_insert: "distinct (map lg_settlementId t) \<Longrightarrow> distinct (map lg_settlementId (insert_new r t))"
  by (auto simp: insert_new_def)

lemmas ledger_defs = markPending_def markClaimed_def markApplying_def markApplied_def
  markReplayedNoop_def markConflict_def markFailed_def markFailedRetryScheduled_def
  markFailedTerminal_def markTalkerCommitted_def markThinkerProjecting_def new_row_def

lemma ledger_ids:
  "distinct (map lg_settlementId t) \<Longrightarrow> distinct (map lg_settlementId (run_ledger sid now c t))"
  by (cases c) (auto simp: ledger_defs ids_update ids_insert Let_def)

lemma ledger_others:
  "s \<noteq> sid \<Longrightarrow> getBySettlementId s (run_ledger sid now c t) = getBySettlementId s t"
  by (cases c) (auto simp: ledger_defs getBySettlementId_def find_update find_insert Let_def)

lemma ledger_own:
  assumes "distinct (map lg_settlementId t)"
  shows "rawStatus sid (run_ledger sid now c t) = next_status c (rawStatus sid t) \<and>
    attempts sid (run_ledger sid now c t) = attempts sid t + (if starts_attempt c (rawStatus sid t) then 1 else 0)"
proof (cases "find (for_settlement sid) t")
  case None
  then show ?thesis
    using count_0_iff [OF assms, of sid "\<lambda>x. x \<in> {ls_pending, ls_claimed, ls_failed_retryable}"]
      count_0_iff [OF assms, of sid "\<lambda>x. x \<in> {ls_talker_committed, ls_failed_retryable}"]
    by (cases c) (auto simp: ledger_defs rawStatus_def attempts_def getBySettlementId_def
        find_update find_insert Let_def)
next
  case (Some r)
  then show ?thesis
    using count_0_iff [OF assms, of sid "\<lambda>x. x \<in> {ls_pending, ls_claimed, ls_failed_retryable}"]
      count_0_iff [OF assms, of sid "\<lambda>x. x \<in> {ls_talker_committed, ls_failed_retryable}"]
    by (cases c) (auto simp: ledger_defs rawStatus_def attempts_def getBySettlementId_def
        find_update find_insert Let_def)
qed

text \<open>
  Every operation of the ledger moves the status of its settlement along the
  edge the operation stands for, or leaves it, counts an attempt exactly when it enters
  \<open>applying\<close> or \<open>thinker_projecting\<close>, and leaves all other settlements alone. Hence a settlement
  that has been applied stays applied, with its number of attempts, under every sequence of
  operations on any settlements in which none claims or declares a conflict on it.
\<close>

theorem ledger_applied_final:
  assumes "distinct (map lg_settlementId t)"
  shows "rawStatus sid (run_ledger sid now c t) = next_status c (rawStatus sid t) \<and>
    attempts sid (run_ledger sid now c t) = attempts sid t + (if starts_attempt c (rawStatus sid t) then 1 else 0) \<and>
    (\<forall>s. s \<noteq> sid \<longrightarrow> getBySettlementId s (run_ledger sid now c t) = getBySettlementId s t) \<and>
    (check sid t = ck_applied \<longrightarrow>
     (\<forall>(s, n, c) \<in> set calls. s = sid \<longrightarrow> (\<forall>a. c \<noteq> LC_claimed a \<and> c \<noteq> LC_conflict a)) \<longrightarrow>
     check sid (fold (\<lambda>(s, n, c). run_ledger s n c) calls t) = ck_applied \<and>
     attempts sid (fold (\<lambda>(s, n, c). run_ledger s n c) calls t) = attempts sid t)"
proof -
  have applied: "check sid t = ck_applied \<longleftrightarrow> rawStatus sid t \<in> {Some ls_applied, Some ls_replayed_noop}" for t
    by (auto simp: check_def split: option.split)
  have "check sid (fold (\<lambda>(s, n, c). run_ledger s n c) calls t) = ck_applied \<and>
      attempts sid (fold (\<lambda>(s, n, c). run_ledger s n c) calls t) = attempts sid t"
    if "check sid t = ck_applied"
      "\<forall>(s, n, c) \<in> set calls. s = sid \<longrightarrow> (\<forall>a. c \<noteq> LC_claimed a \<and> c \<noteq> LC_conflict a)"
    using that assms
  proof (induction calls arbitrary: t)
    case Nil
    then show ?case by simp
  next
    case (Cons call calls)
    obtain s n c where call: "call = (s, n, c)" by (cases call)
    have "check sid (run_ledger s n c t) = ck_applied \<and> attempts sid (run_ledger s n c t) = attempts sid t"
    proof (cases "s = sid")
      case True
      with Cons.prems(2) call have "\<forall>a. c \<noteq> LC_claimed a \<and> c \<noteq> LC_conflict a" by auto
      with Cons.prems(1) have "next_status c (rawStatus sid t) \<in> {Some ls_applied, Some ls_replayed_noop}"
        "\<not> starts_attempt c (rawStatus sid t)" unfolding applied by (cases c; auto)+
      with ledger_own [OF Cons.prems(3), of sid n c] True show ?thesis unfolding applied by simp
    next
      case False
      with ledger_others [of sid s n c t] Cons.prems(1) show ?thesis
        by (simp add: check_def rawStatus_def attempts_def getBySettlementId_def)
    qed
    with Cons.IH [of "run_ledger s n c t"] Cons.prems(2,3) call ledger_ids show ?case by simp
  qed
  with ledger_own [OF assms] ledger_others show ?thesis by blast
qed

definition sample_ledger :: ledger where
  "sample_ledger =
     fold (\<lambda>(s, n, c). run_ledger s n c)
       [(''s1'', 1, LC_talker ''m''), (''s1'', 2, LC_thinker ''m''), (''s1'', 3, LC_applied)] []"

theorem ledger_applied_final_witness:
  "check ''s1'' sample_ledger = ck_applied \<and> attempts ''s1'' sample_ledger = 1 \<and>
   check ''s1'' (fold (\<lambda>(s, n, c). run_ledger s n c)
     [(''s1'', 4, LC_thinker ''m''), (''s2'', 5, LC_applying ''m'' None), (''s1'', 6, LC_failed ''e'' False)]
     sample_ledger) = ck_applied"
proof -
  let ?calls = "[(''s1'', 4, LC_thinker ''m''), (''s2'', 5, LC_applying ''m'' None),
      (''s1'', 6, LC_failed ''e'' False)]"
  have d: "distinct (map lg_settlementId sample_ledger)" by code_simp
  have a: "check ''s1'' sample_ledger = ck_applied" "attempts ''s1'' sample_ledger = 1" by code_simp+
  with ledger_applied_final [OF d, where sid = "''s1''" and calls = ?calls]
  have "check ''s1'' (fold (\<lambda>(s, n, c). run_ledger s n c) ?calls sample_ledger) = ck_applied" by simp
  with a show ?thesis by blast
qed

text \<open>A terminal failure of a settlement no worker has taken up changes nothing.\<close>

lemma terminal_failure_ignored:
  assumes "distinct (map lg_settlementId t)" "rawStatus sid t = Some ls_talker_committed"
  shows "markFailed sid msg False now t = t"
proof -
  have "count_where (\<lambda>r. for_settlement sid r \<and> lg_status r \<in> {ls_applying, ls_thinker_projecting}) t = 0"
    using assms(2) count_0_iff [OF assms(1), of sid "\<lambda>x. x \<in> {ls_applying, ls_thinker_projecting}"]
    by (auto simp: rawStatus_def)
  then show ?thesis
    by (auto simp: markFailed_def markFailedTerminal_def count_where_0_iff intro: update_where_none)
qed

end
