(* ===== verification/Cognition_Slots.thy ===== *)
theory Cognition_Slots
  imports Interaction_Log
begin

text \<open>
  The cache of recent cognition: the table \<open>recent_cognition_slots\<close> with the operations of
  \<open>PgRecentCognitionSlotRepo\<close> (\<^verbatim>\<open>src/storage/domain-repos/pg/recent-cognition-slot-repo.ts\<close>).
  The talker counts turns, the thinker commits versions and entries.

  A slot is keyed by session and agent. The argument \<open>drv\<close> is what the JSONB column holds
  after the driver has written the JSON text of a list of entries; \<open>newEntriesJson\<close> is a
  JSON text, given by what \<open>JSON.parse\<close> makes of it. \<open>FOR UPDATE\<close> runs the read and the
  write of one upsert as one step.
\<close>

record cognition_slot =
  cs_lastSettlementId :: "string option"
  cs_payload :: json
  cs_updatedAt :: int
  cs_talkerTurnCounter :: int
  cs_thinkerCommittedVersion :: int

type_synonym slot_table = "(string \<times> string, cognition_slot) js_map"

datatype version_increment = Talker | Thinker

record upsert_result =
  ur_talkerTurnCounter :: "int option"
  ur_thinkerCommittedVersion :: "int option"

definition array_entries :: "json \<Rightarrow> json list" where
  "array_entries v = (case v of JArr xs \<Rightarrow> xs | _ \<Rightarrow> [])"

definition merged_entries :: "cognition_slot option \<Rightarrow> json option \<Rightarrow> json list" where
  "merged_entries existing newEntries =
     newest_64 ((case existing of Some s \<Rightarrow> array_entries (cs_payload s) | None \<Rightarrow> []) @ entries_of newEntries)"

definition upsert_talker :: "string \<Rightarrow> int \<Rightarrow> cognition_slot option \<Rightarrow> cognition_slot" where
  "upsert_talker settlementId now existing =
     (case existing of
        None \<Rightarrow> \<lparr>cs_lastSettlementId = Some settlementId, cs_payload = JArr [], cs_updatedAt = now,
                 cs_talkerTurnCounter = 1, cs_thinkerCommittedVersion = 0\<rparr>
      | Some s \<Rightarrow> s\<lparr>cs_lastSettlementId := Some settlementId, cs_updatedAt := now,
                    cs_talkerTurnCounter := cs_talkerTurnCounter s + 1\<rparr>)"

definition upsert_thinker :: "json \<Rightarrow> string \<Rightarrow> int \<Rightarrow> cognition_slot option \<Rightarrow> cognition_slot" where
  "upsert_thinker payload settlementId now existing =
     (case existing of
        None \<Rightarrow> \<lparr>cs_lastSettlementId = Some settlementId, cs_payload = payload, cs_updatedAt = now,
                 cs_talkerTurnCounter = 0, cs_thinkerCommittedVersion = 1\<rparr>
      | Some s \<Rightarrow> s\<lparr>cs_lastSettlementId := Some settlementId, cs_payload := payload, cs_updatedAt := now,
                    cs_thinkerCommittedVersion := cs_thinkerCommittedVersion s + 1\<rparr>)"

text \<open>
  With an explicit version the settlement id only advances when the version is not behind
  the committed one; on insert it is the given id in any case.
\<close>

definition upsert_version :: "json \<Rightarrow> string \<Rightarrow> int \<Rightarrow> int \<Rightarrow> cognition_slot option \<Rightarrow> cognition_slot" where
  "upsert_version payload settlementId version now existing =
     (case existing of
        None \<Rightarrow> \<lparr>cs_lastSettlementId = Some settlementId, cs_payload = payload, cs_updatedAt = now,
                 cs_talkerTurnCounter = 0, cs_thinkerCommittedVersion = version\<rparr>
      | Some s \<Rightarrow>
          (let currentVersion = cs_thinkerCommittedVersion s;
               effective = (if version \<ge> currentVersion then Some settlementId else None)
           in s\<lparr>cs_lastSettlementId := (case effective of Some i \<Rightarrow> Some i | None \<Rightarrow> cs_lastSettlementId s),
                cs_payload := payload, cs_updatedAt := now,
                cs_thinkerCommittedVersion := max currentVersion version\<rparr>))"

definition upsert_plain :: "json \<Rightarrow> string \<Rightarrow> int \<Rightarrow> cognition_slot option \<Rightarrow> cognition_slot" where
  "upsert_plain payload settlementId now existing =
     (case existing of
        None \<Rightarrow> \<lparr>cs_lastSettlementId = Some settlementId, cs_payload = payload, cs_updatedAt = now,
                 cs_talkerTurnCounter = 0, cs_thinkerCommittedVersion = 0\<rparr>
      | Some s \<Rightarrow> s\<lparr>cs_lastSettlementId := Some settlementId, cs_payload := payload, cs_updatedAt := now\<rparr>)"

definition upsertRecentCognitionSlot :: "(json list \<Rightarrow> json) \<Rightarrow> string \<Rightarrow> string \<Rightarrow> string \<Rightarrow> json option \<Rightarrow>
    version_increment option \<Rightarrow> int option \<Rightarrow> int \<Rightarrow> slot_table \<Rightarrow>
    (thrown, upsert_result) result \<times> slot_table" where
  "upsertRecentCognitionSlot drv sid agent settlementId newEntries increment setVersion now t =
     (let existing = map_of t (sid, agent);
          payload = drv (merged_entries existing newEntries);
          put = (\<lambda>s. AList.update (sid, agent) s t)
      in if increment \<noteq> None \<and> setVersion \<noteq> None then (Inl Plain_error, t)
         else case increment of
           Some Talker \<Rightarrow>
             (let s = upsert_talker settlementId now existing
              in (Inr \<lparr>ur_talkerTurnCounter = Some (cs_talkerTurnCounter s),
                       ur_thinkerCommittedVersion = None\<rparr>, put s))
         | Some Thinker \<Rightarrow>
             (let s = upsert_thinker payload settlementId now existing
              in (Inr \<lparr>ur_talkerTurnCounter = None,
                       ur_thinkerCommittedVersion = Some (cs_thinkerCommittedVersion s)\<rparr>, put s))
         | None \<Rightarrow>
             (case setVersion of
                Some v \<Rightarrow>
                  (let s = upsert_version payload settlementId v now existing
                   in (Inr \<lparr>ur_talkerTurnCounter = None,
                            ur_thinkerCommittedVersion = Some (cs_thinkerCommittedVersion s)\<rparr>, put s))
              | None \<Rightarrow>
                  (Inr \<lparr>ur_talkerTurnCounter = None, ur_thinkerCommittedVersion = None\<rparr>,
                   put (upsert_plain payload settlementId now existing))))"

definition slot_getBySession :: "string \<Rightarrow> string \<Rightarrow> slot_table \<Rightarrow>
    (string option \<times> json list \<times> int \<times> int \<times> int) option" where
  "slot_getBySession sid agent t =
     map_option (\<lambda>s. (cs_lastSettlementId s, array_entries (cs_payload s), cs_updatedAt s,
       cs_talkerTurnCounter s, cs_thinkerCommittedVersion s)) (map_of t (sid, agent))"

definition getVersionGap :: "string \<Rightarrow> string \<Rightarrow> slot_table \<Rightarrow> (int \<times> int \<times> int) option" where
  "getVersionGap sid agent t =
     map_option (\<lambda>s. (cs_talkerTurnCounter s, cs_thinkerCommittedVersion s,
       cs_talkerTurnCounter s - cs_thinkerCommittedVersion s)) (map_of t (sid, agent))"

definition slot_deleteBySession :: "string \<Rightarrow> slot_table \<Rightarrow> slot_table" where
  "slot_deleteBySession sid t = filter (\<lambda>((s, a), _). s \<noteq> sid) t"

section \<open>Progress\<close>

definition entries_at :: "string \<Rightarrow> string \<Rightarrow> slot_table \<Rightarrow> json list" where
  "entries_at sid agent t =
     (case map_of t (sid, agent) of Some s \<Rightarrow> array_entries (cs_payload s) | None \<Rightarrow> [])"

definition talker_count :: "string \<Rightarrow> string \<Rightarrow> slot_table \<Rightarrow> int" where
  "talker_count sid agent t =
     (case map_of t (sid, agent) of Some s \<Rightarrow> cs_talkerTurnCounter s | None \<Rightarrow> 0)"

definition thinker_version :: "string \<Rightarrow> string \<Rightarrow> slot_table \<Rightarrow> int" where
  "thinker_version sid agent t =
     (case map_of t (sid, agent) of Some s \<Rightarrow> cs_thinkerCommittedVersion s | None \<Rightarrow> 0)"

lemma length_newest_64: "length (newest_64 es) \<le> 64"
  by (simp add: newest_64_def)

lemma suffix_newest_64: "suffix (newest_64 es) es"
  by (simp add: newest_64_def suffix_drop)

text \<open>
  An upsert fails exactly when both a version step and a version are given.
  Otherwise only the slot of its session and agent changes: a talker turn adds one to the
  turn counter and nothing else of the slot's content; every other upsert leaves the counter
  and makes the entries the newest 64 of the old ones followed by the new ones, so none of
  a worker's entries is lost to an older version; the committed version never goes back and
  ends at the greatest version seen.
\<close>

theorem slot_progress:
  assumes "\<forall>es. array_entries (drv es) = es"
    and "upsertRecentCognitionSlot drv sid agent settlementId newEntries inc setv now t = (res, t')"
    and "setv = None \<or> the setv \<ge> 0"
  shows "(isl res \<longleftrightarrow> inc \<noteq> None \<and> setv \<noteq> None) \<and> (isl res \<longrightarrow> t' = t) \<and>
    (\<forall>k. k \<noteq> (sid, agent) \<longrightarrow> map_of t' k = map_of t k) \<and>
    talker_count sid agent t' = talker_count sid agent t + (if inc = Some Talker \<and> setv = None then 1 else 0) \<and>
    thinker_version sid agent t' =
      (if isl res then thinker_version sid agent t
       else if inc = Some Thinker then thinker_version sid agent t + 1
       else case setv of Some v \<Rightarrow>
           if map_of t (sid, agent) = None then v else max (thinker_version sid agent t) v
         | None \<Rightarrow> thinker_version sid agent t) \<and>
    entries_at sid agent t' =
      (if isl res \<or> inc = Some Talker then entries_at sid agent t
       else newest_64 (entries_at sid agent t @ entries_of newEntries))"
proof -
  have arr: "array_entries (drv es) = es" for es using assms(1) by blast
  note defs = upsertRecentCognitionSlot_def Let_def update_conv' talker_count_def thinker_version_def
    entries_at_def upsert_talker_def upsert_thinker_def upsert_version_def upsert_plain_def
    merged_entries_def arr array_entries_def [of "JArr _"]
  show ?thesis
  proof (cases inc)
    case None
    with assms(2,3) show ?thesis by (cases setv; cases "map_of t (sid, agent)") (auto simp: defs)
  next
    case (Some i)
    with assms(2) show ?thesis by (cases i; cases setv; cases "map_of t (sid, agent)") (auto simp: defs)
  qed
qed

definition sample_slots :: slot_table where
  "sample_slots =
     snd (upsertRecentCognitionSlot JArr ''s'' ''m'' ''t1'' (Some (JArr [JStr ''a''])) None (Some 5) 10 [])"

theorem slot_progress_witness:
  "thinker_version ''s'' ''m'' (snd (upsertRecentCognitionSlot JArr ''s'' ''m'' ''t0''
     (Some (JArr [JStr ''b''])) None (Some 3) 20 sample_slots)) = 5 \<and>
   entries_at ''s'' ''m'' (snd (upsertRecentCognitionSlot JArr ''s'' ''m'' ''t0''
     (Some (JArr [JStr ''b''])) None (Some 3) 20 sample_slots)) = [JStr ''a'', JStr ''b'']"
proof -
  have drv: "\<forall>es. array_entries (JArr es) = es" by (simp add: array_entries_def)
  have old: "map_of sample_slots (''s'', ''m'') \<noteq> None" "thinker_version ''s'' ''m'' sample_slots = 5"
    "entries_at ''s'' ''m'' sample_slots = [JStr ''a'']" by code_simp+
  have ok: "\<not> isl (fst (upsertRecentCognitionSlot JArr ''s'' ''m'' ''t0'' (Some (JArr [JStr ''b'']))
      None (Some 3) 20 sample_slots))" by code_simp
  from slot_progress [OF drv prod.collapse [symmetric], of "Some 3" "''s''" "''m''" "''t0''"
      "Some (JArr [JStr ''b''])" None 20 sample_slots]
  show ?thesis using old ok by (auto simp: newest_64_def)
qed

end
