(* ===== verification/Cognition_Ledger.thy ===== *)
theory Cognition_Ledger
  imports Js_Values Errors
begin

text \<open>
  Private cognition: the append-only ledger \<open>private_cognition_events\<close>
  (\<^verbatim>\<open>src/storage/domain-repos/pg/cognition-event-repo.ts\<close>), its projection
  \<open>private_cognition_current\<close> (\<^verbatim>\<open>src/storage/domain-repos/pg/cognition-projection-repo.ts\<close>)
  and the rebuild of the projection from the ledger.

  \<^item> A JSON text is given by the value it parses to, and so is a JSONB column: whether the
    driver stores a text as a JSON string or as the value, the repositories read back a
    text with the same value.
  \<^item> Identifiers come from sequences; a statement \<open>INSERT ... ON CONFLICT\<close> uses one up even
    when it inserts nothing.
  \<^item> \<open>ns\<close> is the decimal form of a number, \<open>Date.now()\<close> an argument.
\<close>

section \<open>Events\<close>

datatype cognition_kind = Assertion | Evaluation | Commitment

datatype cognition_op = Op_upsert | Op_retract

record cog_event =
  ev_id :: int
  ev_agent :: string
  ev_key :: string
  ev_kind :: cognition_kind
  ev_op :: cognition_op
  ev_record :: "json option"
  ev_settlement :: string
  ev_committed :: int
  ev_created :: int

record append_params =
  ap_agentId :: string
  ap_cognitionKey :: string
  ap_kind :: cognition_kind
  ap_op :: cognition_op
  ap_recordJson :: "json option"
  ap_settlementId :: string
  ap_committedTime :: int

record ledger_table =
  lt_events :: "cog_event list"
  lt_next :: int

abbreviation same_event :: "append_params \<Rightarrow> cog_event \<Rightarrow> bool" where
  "same_event p e \<equiv> ev_settlement e = ap_settlementId p \<and> ev_agent e = ap_agentId p \<and>
     ev_key e = ap_cognitionKey p \<and> ev_op e = ap_op p"

definition append_event :: "append_params \<Rightarrow> int \<Rightarrow> ledger_table \<Rightarrow> int option \<times> ledger_table" where
  "append_event p now t =
     (if \<exists>e \<in> set (lt_events t). same_event p e then (None, t\<lparr>lt_next := lt_next t + 1\<rparr>)
      else (Some (lt_next t),
        \<lparr>lt_events = lt_events t @
           [\<lparr>ev_id = lt_next t, ev_agent = ap_agentId p, ev_key = ap_cognitionKey p,
             ev_kind = ap_kind p, ev_op = ap_op p, ev_record = ap_recordJson p,
             ev_settlement = ap_settlementId p, ev_committed = ap_committedTime p,
             ev_created = now\<rparr>],
         lt_next = lt_next t + 1\<rparr>))"

definition event_before :: "cog_event \<Rightarrow> cog_event \<Rightarrow> bool" where
  "event_before a b \<longleftrightarrow> (ev_committed a, ev_id a) < (ev_committed b, ev_id b)"

definition readByAgent :: "string \<Rightarrow> nat option \<Rightarrow> ledger_table \<Rightarrow> cog_event list" where
  "readByAgent agentId limit t =
     take (case limit of Some n \<Rightarrow> n | None \<Rightarrow> 500)
       (sort_by event_before (filter (\<lambda>e. ev_agent e = agentId) (lt_events t)))"

definition readByCognitionKey :: "string \<Rightarrow> string \<Rightarrow> ledger_table \<Rightarrow> cog_event list" where
  "readByCognitionKey agentId key t =
     sort_by event_before (filter (\<lambda>e. ev_agent e = agentId \<and> ev_key e = key) (lt_events t))"

definition replay :: "string \<Rightarrow> int option \<Rightarrow> ledger_table \<Rightarrow> cog_event list" where
  "replay agentId afterTime t =
     sort_by event_before
       (filter (\<lambda>e. ev_agent e = agentId \<and> (case afterTime of Some a \<Rightarrow> ev_committed e > a | None \<Rightarrow> True))
         (lt_events t))"

section \<open>What an event record says\<close>

definition jprop :: "json \<Rightarrow> string \<Rightarrow> json option" where
  "jprop v k = (case v of JObj m \<Rightarrow> get_prop m k | _ \<Rightarrow> None)"

definition str_prop :: "json \<Rightarrow> string \<Rightarrow> string option" where
  "str_prop v k = (case jprop v k of Some (JStr s) \<Rightarrow> Some s | _ \<Rightarrow> None)"

definition safeParseJson :: "json option \<Rightarrow> json" where
  "safeParseJson v = (case v of Some (JObj m) \<Rightarrow> JObj m | Some (JArr xs) \<Rightarrow> JArr xs | _ \<Rightarrow> JObj [])"

record assertion_record =
  ar_holderPointerKey :: "string option"
  ar_claim :: "string option"
  ar_entityPointerKeys :: "json list option"
  ar_stance :: "string option"
  ar_basis :: "string option"
  ar_preContestedStance :: "string option"
  ar_conflictSummary :: "string option"
  ar_conflictFactorRefs :: "json option"

definition holder_key :: "json \<Rightarrow> string option" where
  "holder_key record =
     (let flat = (case str_prop record ''holderPointerKey'' of
                    Some s \<Rightarrow> Some s | None \<Rightarrow> str_prop record ''sourcePointerKey'')
      in case jprop record ''holderId'' of
           Some (JStr s) \<Rightarrow> Some s
         | Some v \<Rightarrow> (case str_prop v ''value'' of Some s \<Rightarrow> Some s | None \<Rightarrow> flat)
         | None \<Rightarrow> flat)"

definition ref_key :: "json \<Rightarrow> json option" where
  "ref_key ref = (case ref of JStr s \<Rightarrow> Some (JStr s) | v \<Rightarrow> map_option JStr (str_prop v ''value''))"

definition entity_keys :: "json \<Rightarrow> json list option" where
  "entity_keys record =
     (case jprop record ''entityRefs'' of
        Some (JArr refs) \<Rightarrow> Some (List.map_filter ref_key refs)
      | _ \<Rightarrow>
          (case jprop record ''entityPointerKeys'' of
             Some (JArr ks) \<Rightarrow> Some ks
           | _ \<Rightarrow> map_option (\<lambda>s. [JStr s]) (str_prop record ''targetPointerKey'')))"

definition extractAssertionRecord :: "json \<Rightarrow> assertion_record" where
  "extractAssertionRecord record =
     \<lparr>ar_holderPointerKey = holder_key record,
      ar_claim = (case str_prop record ''claim'' of Some s \<Rightarrow> Some s | None \<Rightarrow> str_prop record ''predicate''),
      ar_entityPointerKeys = entity_keys record,
      ar_stance = str_prop record ''stance'',
      ar_basis = str_prop record ''basis'',
      ar_preContestedStance = str_prop record ''preContestedStance'',
      ar_conflictSummary = str_prop record ''conflictSummary'',
      ar_conflictFactorRefs = jprop record ''conflictFactorRefs''\<rparr>"

text \<open>\<open>/^(assertion|evaluation|commitment|episode|private_episode|event):\d+$/\<close>\<close>

definition is_factor_ref :: "string \<Rightarrow> bool" where
  "is_factor_ref s =
     list_ex (\<lambda>p. prefix p s \<and> drop (length p) s \<noteq> [] \<and> list_all is_digit (drop (length p) s))
       [''assertion:'', ''evaluation:'', ''commitment:'', ''episode:'', ''private_episode:'', ''event:'']"

definition factor_ref :: "json \<Rightarrow> string option" where
  "factor_ref item =
     (case item of JStr s \<Rightarrow> if is_factor_ref (js_trim s) then Some (js_trim s) else None | _ \<Rightarrow> None)"

definition normalizeConflictFactorRefs :: "json option \<Rightarrow> string list \<times> nat" where
  "normalizeConflictFactorRefs v =
     (case v of
        Some (JArr items) \<Rightarrow>
          (List.map_filter factor_ref items, length (filter (\<lambda>i. factor_ref i = None) items))
      | _ \<Rightarrow> ([], 0))"

section \<open>The projection\<close>

record current_row =
  cc_id :: int
  cc_agent :: string
  cc_key :: string
  cc_kind :: cognition_kind
  cc_stance :: "string option"
  cc_basis :: "string option"
  cc_status :: string
  cc_preContested :: "string option"
  cc_conflictSummary :: "string option"
  cc_conflictFactorRefs :: "json option"
  cc_summary :: "string option"
  cc_record :: json
  cc_sourceEvent :: int
  cc_updated :: int

record current_table =
  ct_rows :: "current_row list"
  ct_next :: int

abbreviation at_key :: "string \<Rightarrow> string \<Rightarrow> current_row \<Rightarrow> bool" where
  "at_key a k r \<equiv> cc_agent r = a \<and> cc_key r = k"

text \<open>
  \<open>INSERT ... ON CONFLICT (agent_id, cognition_key) DO UPDATE SET f WHERE excluded.updated_at >=
  updated_at\<close>.
\<close>

definition upsert_current :: "current_row \<Rightarrow> (current_row \<Rightarrow> current_row) \<Rightarrow> current_table \<Rightarrow> current_table" where
  "upsert_current new f t =
     (if list_ex (at_key (cc_agent new) (cc_key new)) (ct_rows t) then
        \<lparr>ct_rows = update_where (\<lambda>r. at_key (cc_agent new) (cc_key new) r \<and> cc_updated new \<ge> cc_updated r) f (ct_rows t),
         ct_next = ct_next t + 1\<rparr>
      else \<lparr>ct_rows = ct_rows t @ [new\<lparr>cc_id := ct_next t\<rparr>], ct_next = ct_next t + 1\<rparr>)"

abbreviation coalesce :: "'a option \<Rightarrow> 'a option \<Rightarrow> 'a option" where
  "coalesce x y \<equiv> (case x of Some v \<Rightarrow> Some v | None \<Rightarrow> y)"

definition conflict_summary :: "assertion_record \<Rightarrow> string" where
  "conflict_summary record =
     (let (refs, dropped) = normalizeConflictFactorRefs (ar_conflictFactorRefs record);
          fallback =
            (if dropped > 0 then ''contested ('' @ nat_str (length refs) @ '' factors resolved, '' @
               nat_str dropped @ '' dropped)''
             else ''contested ('' @ nat_str (length refs) @ '' factors)'')
      in case ar_conflictSummary record of
           Some s \<Rightarrow> if js_trim s \<noteq> [] then js_trim s else fallback
         | None \<Rightarrow> fallback)"

definition assertion_summary :: "(js_num \<Rightarrow> string) \<Rightarrow> string \<Rightarrow> assertion_record \<Rightarrow> string option" where
  "assertion_summary ns key record =
     (let suffix = (case ar_entityPointerKeys record of
                      Some (k # ks) \<Rightarrow> '' | entities: '' @
                        join_with '', '' (map (\<lambda>v. if v = JNull then [] else js_String ns v) (k # ks))
                    | _ \<Rightarrow> [])
      in case ar_claim record of
           Some c \<Rightarrow>
             if c = [] then None
             else Some (''['' @ key @ ''] ['' @
                    (case ar_holderPointerKey record of Some h \<Rightarrow> h | None \<Rightarrow> ''?'') @ ''] '' @ c @ suffix)
         | None \<Rightarrow> None)"

definition assertion_row :: "(js_num \<Rightarrow> string) \<Rightarrow> cog_event \<Rightarrow> assertion_record \<Rightarrow> current_row" where
  "assertion_row ns e record =
     (let contested = (ar_stance record = Some ''contested'')
      in \<lparr>cc_id = 0, cc_agent = ev_agent e, cc_key = ev_key e, cc_kind = Assertion,
          cc_stance = ar_stance record, cc_basis = ar_basis record, cc_status = ''active'',
          cc_preContested = ar_preContestedStance record,
          cc_conflictSummary = (if contested then Some (conflict_summary record) else None),
          cc_conflictFactorRefs =
            (if contested then Some (JArr (map JStr (fst (normalizeConflictFactorRefs (ar_conflictFactorRefs record)))))
             else None),
          cc_summary = assertion_summary ns (ev_key e) record,
          cc_record = safeParseJson (ev_record e),
          cc_sourceEvent = ev_id e, cc_updated = ev_committed e\<rparr>)"

definition assertion_merge :: "current_row \<Rightarrow> current_row \<Rightarrow> current_row" where
  "assertion_merge new r =
     r\<lparr>cc_stance := cc_stance new,
       cc_basis := coalesce (cc_basis new) (cc_basis r),
       cc_status := ''active'',
       cc_preContested := coalesce (cc_preContested new) (cc_preContested r),
       cc_conflictSummary := coalesce (cc_conflictSummary new) (cc_conflictSummary r),
       cc_conflictFactorRefs := coalesce (cc_conflictFactorRefs new) (cc_conflictFactorRefs r),
       cc_summary := cc_summary new, cc_record := cc_record new,
       cc_sourceEvent := cc_sourceEvent new, cc_updated := cc_updated new\<rparr>"

definition applyAssertionUpsert :: "(js_num \<Rightarrow> string) \<Rightarrow> cog_event \<Rightarrow> assertion_record \<Rightarrow> current_table \<Rightarrow> current_table" where
  "applyAssertionUpsert ns e record =
     upsert_current (assertion_row ns e record) (assertion_merge (assertion_row ns e record))"

definition plain_row :: "cog_event \<Rightarrow> string \<Rightarrow> string \<Rightarrow> current_row" where
  "plain_row e status summary =
     \<lparr>cc_id = 0, cc_agent = ev_agent e, cc_key = ev_key e, cc_kind = ev_kind e,
      cc_stance = None, cc_basis = None, cc_status = status, cc_preContested = None,
      cc_conflictSummary = None, cc_conflictFactorRefs = None, cc_summary = Some summary,
      cc_record = safeParseJson (ev_record e), cc_sourceEvent = ev_id e, cc_updated = ev_committed e\<rparr>"

definition plain_merge :: "current_row \<Rightarrow> current_row \<Rightarrow> current_row" where
  "plain_merge new r =
     r\<lparr>cc_status := cc_status new, cc_summary := cc_summary new, cc_record := cc_record new,
       cc_sourceEvent := cc_sourceEvent new, cc_updated := cc_updated new\<rparr>"

definition evaluation_row :: "cog_event \<Rightarrow> json \<Rightarrow> current_row" where
  "evaluation_row e record =
     plain_row e ''active''
       (''evaluation: '' @ (case str_prop record ''notes'' of Some s \<Rightarrow> s | None \<Rightarrow> []))"

definition applyEvaluationUpsert :: "cog_event \<Rightarrow> json \<Rightarrow> current_table \<Rightarrow> current_table" where
  "applyEvaluationUpsert e record =
     upsert_current (evaluation_row e record) (plain_merge (evaluation_row e record))"

text \<open>\<open>record[k] ?? fallback\<close> as a text.\<close>

definition text_or :: "(js_num \<Rightarrow> string) \<Rightarrow> json \<Rightarrow> string \<Rightarrow> string \<Rightarrow> string" where
  "text_or ns record k fallback =
     (case jprop record k of None \<Rightarrow> fallback | Some JNull \<Rightarrow> fallback | Some v \<Rightarrow> js_String ns v)"

definition commitment_row :: "(js_num \<Rightarrow> string) \<Rightarrow> cog_event \<Rightarrow> json \<Rightarrow> current_row" where
  "commitment_row ns e record =
     (let target = (case jprop record ''target'' of
                      Some v \<Rightarrow> if truthy (Some v) then json_text ns v else []
                    | None \<Rightarrow> [])
      in plain_row e (text_or ns record ''status'' ''active'')
           (text_or ns record ''mode'' ''goal'' @ '': '' @ target))"

definition applyCommitmentUpsert :: "(js_num \<Rightarrow> string) \<Rightarrow> cog_event \<Rightarrow> json \<Rightarrow> current_table \<Rightarrow> current_table" where
  "applyCommitmentUpsert ns e record =
     upsert_current (commitment_row ns e record) (plain_merge (commitment_row ns e record))"

definition retract_row :: "cog_event \<Rightarrow> current_row \<Rightarrow> current_row" where
  "retract_row e r =
     (if cc_kind r = Assertion then
        r\<lparr>cc_status := ''retracted'', cc_stance := Some ''rejected'',
          cc_sourceEvent := ev_id e, cc_updated := ev_committed e\<rparr>
      else r\<lparr>cc_status := ''retracted'', cc_sourceEvent := ev_id e, cc_updated := ev_committed e\<rparr>)"

definition applyRetract :: "cog_event \<Rightarrow> current_table \<Rightarrow> current_table" where
  "applyRetract e t =
     (case find (at_key (ev_agent e) (ev_key e)) (ct_rows t) of
        None \<Rightarrow> t
      | Some row \<Rightarrow> t\<lparr>ct_rows := update_where (\<lambda>r. cc_id r = cc_id row) (retract_row e) (ct_rows t)\<rparr>)"

definition upsertFromEvent :: "(js_num \<Rightarrow> string) \<Rightarrow> cog_event \<Rightarrow> current_table \<Rightarrow> current_table" where
  "upsertFromEvent ns e t =
     (if ev_op e = Op_retract then applyRetract e t
      else
        (let parsed = safeParseJson (ev_record e)
         in case ev_kind e of
              Assertion \<Rightarrow> applyAssertionUpsert ns e (extractAssertionRecord parsed) t
            | Evaluation \<Rightarrow> applyEvaluationUpsert e parsed t
            | Commitment \<Rightarrow> applyCommitmentUpsert ns e parsed t))"

definition rebuild :: "(js_num \<Rightarrow> string) \<Rightarrow> string \<Rightarrow> ledger_table \<Rightarrow> current_table \<Rightarrow> current_table" where
  "rebuild ns agentId events t =
     fold (upsertFromEvent ns)
       (sort_by event_before (filter (\<lambda>e. ev_agent e = agentId) (lt_events events)))
       (t\<lparr>ct_rows := delete_where (\<lambda>r. cc_agent r = agentId) (ct_rows t)\<rparr>)"

definition getCurrent :: "string \<Rightarrow> string \<Rightarrow> current_table \<Rightarrow> current_row option" where
  "getCurrent agentId key t = find (at_key agentId key) (ct_rows t)"

definition getAllCurrent :: "string \<Rightarrow> current_table \<Rightarrow> current_row list" where
  "getAllCurrent agentId t =
     sort_by (\<lambda>a b. cc_updated b < cc_updated a) (filter (\<lambda>r. cc_agent r = agentId) (ct_rows t))"

definition updateConflictFactors :: "string \<Rightarrow> string \<Rightarrow> string \<Rightarrow> json \<Rightarrow> int \<Rightarrow> current_table \<Rightarrow> current_table" where
  "updateConflictFactors agentId key summary refs updatedAt t =
     t\<lparr>ct_rows := update_where (at_key agentId key)
        (\<lambda>r. r\<lparr>cc_conflictSummary := Some summary, cc_conflictFactorRefs := Some refs,
               cc_updated := updatedAt\<rparr>) (ct_rows t)\<rparr>"

text \<open>\<open>record_json || jsonb_build_object('sourceEventRef', ref)\<close>, which appends to an array.\<close>

definition patchRecordJsonSourceEventRef :: "int \<Rightarrow> string \<Rightarrow> int \<Rightarrow> current_table \<Rightarrow> current_table" where
  "patchRecordJsonSourceEventRef i ref updatedAt t =
     t\<lparr>ct_rows := update_where (\<lambda>r. cc_id r = i)
        (\<lambda>r. r\<lparr>cc_record :=
                 (case cc_record r of
                    JObj m \<Rightarrow> JObj (AList.update ''sourceEventRef'' (JStr ref) m)
                  | JArr xs \<Rightarrow> JArr (xs @ [JObj [(''sourceEventRef'', JStr ref)]])
                  | v \<Rightarrow> v),
               cc_updated := updatedAt\<rparr>) (ct_rows t)\<rparr>"

text \<open>
  The entity with a pointer key that an agent sees: its own before a shared one, and among
  several of a scope the first.
\<close>

datatype memory_scope = Private_overlay | Shared_public

record entity_node =
  en_id :: int
  en_pointer_key :: string
  en_scope :: memory_scope
  en_owner :: "string option"

definition resolveEntityByPointerKey :: "(string \<Rightarrow> string) \<Rightarrow> entity_node list \<Rightarrow> string \<Rightarrow> string \<Rightarrow> int option" where
  "resolveEntityByPointerKey nfc t pointerKey agentId =
     (let visible = filter (\<lambda>n. en_pointer_key n = nfc pointerKey \<and>
            (en_scope n = Private_overlay \<and> en_owner n = Some agentId \<or> en_scope n = Shared_public)) t
      in case filter (\<lambda>n. en_scope n = Private_overlay) visible @ filter (\<lambda>n. en_scope n = Shared_public) visible of
           [] \<Rightarrow> None | n # _ \<Rightarrow> Some (en_id n))"

section \<open>The projection of one key\<close>

text \<open>
  What the statements do to the row of one key, its identifier aside. \<open>step\<close> is the effect
  of an event on the row of its key.
\<close>

definition kview :: "string \<Rightarrow> string \<Rightarrow> current_table \<Rightarrow> current_row option" where
  "kview a k t = map_option (\<lambda>r. r\<lparr>cc_id := 0\<rparr>) (getCurrent a k t)"

definition event_row :: "(js_num \<Rightarrow> string) \<Rightarrow> cog_event \<Rightarrow> current_row" where
  "event_row ns e =
     (case ev_kind e of
        Assertion \<Rightarrow> assertion_row ns e (extractAssertionRecord (safeParseJson (ev_record e)))
      | Evaluation \<Rightarrow> evaluation_row e (safeParseJson (ev_record e))
      | Commitment \<Rightarrow> commitment_row ns e (safeParseJson (ev_record e)))"

definition event_merge :: "(js_num \<Rightarrow> string) \<Rightarrow> cog_event \<Rightarrow> current_row \<Rightarrow> current_row" where
  "event_merge ns e =
     (if ev_kind e = Assertion then assertion_merge (event_row ns e) else plain_merge (event_row ns e))"

definition step :: "(js_num \<Rightarrow> string) \<Rightarrow> cog_event \<Rightarrow> current_row option \<Rightarrow> current_row option" where
  "step ns e ro =
     (if ev_op e = Op_retract then map_option (retract_row e) ro
      else case ro of
             None \<Rightarrow> Some (event_row ns e)
           | Some r \<Rightarrow> Some (if ev_committed e \<ge> cc_updated r then event_merge ns e r else r))"

lemma upsertFromEvent_eq:
  "upsertFromEvent ns e =
     (if ev_op e = Op_retract then applyRetract e else upsert_current (event_row ns e) (event_merge ns e))"
  by (cases "ev_kind e")
     (auto simp: upsertFromEvent_def event_row_def event_merge_def applyAssertionUpsert_def
       applyEvaluationUpsert_def applyCommitmentUpsert_def Let_def)

lemma event_row_sel [simp]:
  "cc_id (event_row ns e) = 0" "cc_agent (event_row ns e) = ev_agent e"
  "cc_key (event_row ns e) = ev_key e" "cc_kind (event_row ns e) = ev_kind e"
  "cc_updated (event_row ns e) = ev_committed e"
  by (cases "ev_kind e";
      simp add: event_row_def assertion_row_def evaluation_row_def commitment_row_def plain_row_def Let_def)+

lemma event_merge_sel [simp]:
  "cc_id (event_merge ns e r) = cc_id r" "cc_agent (event_merge ns e r) = cc_agent r"
  "cc_key (event_merge ns e r) = cc_key r" "cc_kind (event_merge ns e r) = cc_kind r"
  "cc_updated (event_merge ns e r) = ev_committed e"
  by (simp_all add: event_merge_def assertion_merge_def plain_merge_def)

lemma event_merge_id: "event_merge ns e (r\<lparr>cc_id := i\<rparr>) = (event_merge ns e r)\<lparr>cc_id := i\<rparr>"
  by (cases r) (simp add: event_merge_def assertion_merge_def plain_merge_def split: option.split)

lemma retract_row_sel [simp]:
  "cc_id (retract_row e r) = cc_id r" "cc_agent (retract_row e r) = cc_agent r"
  "cc_key (retract_row e r) = cc_key r" "cc_kind (retract_row e r) = cc_kind r"
  "cc_updated (retract_row e r) = ev_committed e"
  by (simp_all add: retract_row_def)

lemma retract_row_id: "retract_row e (r\<lparr>cc_id := i\<rparr>) = (retract_row e r)\<lparr>cc_id := i\<rparr>"
  by (simp add: retract_row_def)

abbreviation row_key :: "current_row \<Rightarrow> string \<times> string" where
  "row_key r \<equiv> (cc_agent r, cc_key r)"

definition rows_ok :: "current_table \<Rightarrow> bool" where
  "rows_ok t \<longleftrightarrow> distinct (map row_key (ct_rows t)) \<and> distinct (map cc_id (ct_rows t)) \<and>
     (\<forall>r \<in> set (ct_rows t). cc_id r < ct_next t)"

lemma rows_ok_upsert_current:
  assumes "rows_ok t" "\<And>r. row_key (f r) = row_key r \<and> cc_id (f r) = cc_id r"
  shows "rows_ok (upsert_current new f t)"
proof -
  have "map row_key (update_where p f rs) = map row_key rs" "map cc_id (update_where p f rs) = map cc_id rs" for p rs
    using assms(2) by (intro map_update_where; simp)+
  with assms show ?thesis
    by (auto simp: rows_ok_def upsert_current_def list_ex_iff set_update_where image_iff
        intro: less_trans zless_add1_eq [THEN iffD2])
qed

lemma rows_ok_upsertFromEvent:
  assumes "rows_ok t"
  shows "rows_ok (upsertFromEvent ns e t)"
proof (cases "ev_op e = Op_retract")
  case True
  have "map row_key (update_where p (retract_row e) rs) = map row_key rs"
    "map cc_id (update_where p (retract_row e) rs) = map cc_id rs" for p rs
    by (intro map_update_where; simp)+
  with assms True show ?thesis
    by (auto simp: upsertFromEvent_eq applyRetract_def rows_ok_def set_update_where split: option.split)
next
  case False
  with assms show ?thesis by (simp add: upsertFromEvent_eq rows_ok_upsert_current)
qed

lemma rows_ok_fold: "rows_ok t \<Longrightarrow> rows_ok (fold (upsertFromEvent ns) es t)"
  by (induction es arbitrary: t) (simp_all add: rows_ok_upsertFromEvent)

lemma applyRetract_eq:
  assumes "rows_ok t"
  shows "applyRetract e t =
    t\<lparr>ct_rows := update_where (at_key (ev_agent e) (ev_key e)) (retract_row e) (ct_rows t)\<rparr>"
proof (cases "find (at_key (ev_agent e) (ev_key e)) (ct_rows t)")
  case None
  then have "update_where (at_key (ev_agent e) (ev_key e)) (retract_row e) (ct_rows t) = ct_rows t"
    by (intro update_where_none) (auto simp: find_None_iff)
  with None show ?thesis by (simp add: applyRetract_def)
next
  case (Some row)
  have row: "row \<in> set (ct_rows t)" "at_key (ev_agent e) (ev_key e) row"
    using find_SomeD [OF Some] by auto
  then have "update_where (\<lambda>r. cc_id r = cc_id row) (retract_row e) (ct_rows t) =
      update_where (\<lambda>r. row_key r = row_key row) (retract_row e) (ct_rows t)"
    using assms by (intro update_where_other_key) (simp_all add: rows_ok_def)
  with row(2) have "update_where (\<lambda>r. cc_id r = cc_id row) (retract_row e) (ct_rows t) =
      update_where (at_key (ev_agent e) (ev_key e)) (retract_row e) (ct_rows t)" by simp
  with Some show ?thesis by (simp add: applyRetract_def)
qed

lemma kview_update_where:
  assumes "\<And>r. row_key (f r) = row_key r" "\<And>r i. f (r\<lparr>cc_id := i\<rparr>) = (f r)\<lparr>cc_id := i\<rparr>"
    and "ct_rows u = update_where (\<lambda>r. at_key a' k' r \<and> q (cc_updated r)) f (ct_rows t)"
  shows "kview a k u =
    (if a' = a \<and> k' = k then map_option (\<lambda>r. if q (cc_updated r) then f r else r) (kview a k t) else kview a k t)"
proof -
  have fk: "at_key a k (f r) = at_key a k r" for r using assms(1) [of r] by simp
  note find = find_update_where_invariant [where p = "at_key a k", OF fk]
  show ?thesis
  proof (cases "find (at_key a k) (ct_rows t)")
    case None
    then show ?thesis by (simp add: kview_def getCurrent_def assms(3) find)
  next
    case (Some r)
    then have "cc_agent r = a" "cc_key r = k" by (auto dest: find_SomeD)
    with Some show ?thesis by (simp add: kview_def getCurrent_def assms(3) find assms(2))
  qed
qed

lemma kview_upsertFromEvent:
  assumes "rows_ok t"
  shows "kview a k (upsertFromEvent ns e t) =
    (if ev_agent e = a \<and> ev_key e = k then step ns e (kview a k t) else kview a k t)"
proof (cases "ev_op e = Op_retract")
  case True
  then show ?thesis
    using kview_update_where [of "retract_row e" "applyRetract e t" "ev_agent e" "ev_key e" "\<lambda>_. True" t a k]
    by (simp add: upsertFromEvent_eq applyRetract_eq [OF assms] retract_row_id step_def)
next
  case False
  let ?u = "upsert_current (event_row ns e) (event_merge ns e) t"
  show ?thesis
  proof (cases "list_ex (at_key (ev_agent e) (ev_key e)) (ct_rows t)")
    case True
    then have "getCurrent (ev_agent e) (ev_key e) t \<noteq> None"
      by (auto simp: getCurrent_def find_None_iff list_ex_iff)
    then obtain r where "kview (ev_agent e) (ev_key e) t = Some r" by (auto simp: kview_def)
    with False True show ?thesis
      using kview_update_where [of "event_merge ns e" ?u "ev_agent e" "ev_key e" "\<lambda>u. ev_committed e \<ge> u" t a k]
      by (auto simp: upsertFromEvent_eq event_merge_id step_def upsert_current_def)
  next
    case no: False
    then have "find (at_key (ev_agent e) (ev_key e)) (ct_rows t) = None"
      by (simp add: find_None_iff list_ex_iff)
    with no False show ?thesis
      by (cases "find (at_key a k) (ct_rows t)")
         (auto simp: upsertFromEvent_eq upsert_current_def kview_def getCurrent_def step_def find_append)
  qed
qed

lemma kview_fold:
  "rows_ok t \<Longrightarrow> kview a k (fold (upsertFromEvent ns) es t) =
     fold (step ns) (filter (\<lambda>e. ev_agent e = a \<and> ev_key e = k) es) (kview a k t)"
  by (induction es arbitrary: t) (simp_all add: rows_ok_upsertFromEvent kview_upsertFromEvent)

interpretation events: ranked event_before "\<lambda>e. (ev_committed e, ev_id e)"
  by unfold_locales (simp add: event_before_def)

lemma rows_ok_rebuild:
  assumes "rows_ok t" shows "rows_ok (rebuild ns ag led t)"
proof -
  have "rows_ok (t\<lparr>ct_rows := delete_where (\<lambda>r. cc_agent r = ag) (ct_rows t)\<rparr>)"
    using assms by (auto simp: rows_ok_def delete_where_def distinct_map_filter)
  then show ?thesis by (simp add: rebuild_def rows_ok_fold)
qed

lemma kview_rebuild:
  assumes "rows_ok t"
  shows "kview a k (rebuild ns ag led t) =
    (if a = ag then fold (step ns) (readByCognitionKey a k led) None else kview a k t)"
proof -
  let ?t = "t\<lparr>ct_rows := delete_where (\<lambda>r. cc_agent r = ag) (ct_rows t)\<rparr>"
  have ok: "rows_ok ?t"
    using assms by (auto simp: rows_ok_def delete_where_def distinct_map_filter)
  have "find (at_key a k) (delete_where (\<lambda>r. cc_agent r = ag) rs) =
      (if a = ag then None else find (at_key a k) rs)" for rs
    by (induction rs) (auto simp: delete_where_def)
  then have empty: "kview a k ?t = (if a = ag then None else kview a k t)"
    by (simp add: kview_def getCurrent_def)
  have "filter (\<lambda>e. ev_agent e = a \<and> ev_key e = k) (filter (\<lambda>e. ev_agent e = ag) es) =
      (if a = ag then filter (\<lambda>e. ev_agent e = a \<and> ev_key e = k) es else [])" for es
    by (auto simp: filter_empty_conv intro: filter_cong)
  then show ?thesis
    by (auto simp: rebuild_def kview_fold [OF ok] empty readByCognitionKey_def events.sort_by_filter
        intro: filter_cong)
qed

end
