(* ===== verification/Belief_Revision.thy ===== *)
theory Belief_Revision
  imports Errors
begin

text \<open>
  The rules of belief revision (\<^verbatim>\<open>src/memory/cognition/belief-revision.ts\<close>): which stance an
  assertion may move to and which evidence may replace which. Stances and bases are the
  string literals of the source, as the columns they are read from are unchecked text.
\<close>

type_synonym stance = string
type_synonym basis = string

definition TERMINAL_STANCES :: "stance list" where
  "TERMINAL_STANCES = [''rejected'', ''abandoned'']"

definition ALLOWED_STANCE_TRANSITIONS :: "(stance, stance list) js_map" where
  "ALLOWED_STANCE_TRANSITIONS =
     [(''hypothetical'', [''tentative'', ''accepted'', ''contested'', ''rejected'', ''abandoned'']),
      (''tentative'', [''accepted'', ''contested'', ''rejected'', ''abandoned'']),
      (''accepted'', [''confirmed'', ''contested'', ''rejected'', ''abandoned'', ''tentative'']),
      (''confirmed'', [''accepted'', ''contested'']),
      (''contested'', [''rejected'']),
      (''rejected'', []),
      (''abandoned'', [])]"

definition ALLOWED_BASIS_UPGRADES :: "(basis \<times> basis) list" where
  "ALLOWED_BASIS_UPGRADES =
     [(''belief'', ''inference''), (''belief'', ''first_hand''), (''inference'', ''first_hand''),
      (''hearsay'', ''first_hand'')]"

record existing_assertion =
  ea_id :: int
  ea_stance :: "stance option"
  ea_basis :: "basis option"
  ea_preContestedStance :: "stance option"

text \<open>A text column that is \<open>null\<close> or empty is falsy.\<close>

abbreviation present :: "string option \<Rightarrow> bool" where
  "present s \<equiv> s \<noteq> None \<and> s \<noteq> Some []"

definition legal_targets :: "stance \<Rightarrow> stance list" where
  "legal_targets s = (case map_of ALLOWED_STANCE_TRANSITIONS s of Some ts \<Rightarrow> ts | None \<Rightarrow> [])"

definition assertLegalStanceTransition :: "existing_assertion \<Rightarrow> stance \<Rightarrow> (thrown, unit) result" where
  "assertLegalStanceTransition existing nextStance =
     (case ea_stance existing of
        None \<Rightarrow> Inr ()
      | Some currentStance \<Rightarrow>
          if currentStance = [] then Inr ()
          else if currentStance = ''contested'' \<and> nextStance \<noteq> ''rejected'' then
            (case ea_preContestedStance existing of
               None \<Rightarrow> Inl (Maids_error (error COGNITION_MISSING_PRE_CONTESTED_STANCE False))
             | Some pre \<Rightarrow>
                 if pre = [] then Inl (Maids_error (error COGNITION_MISSING_PRE_CONTESTED_STANCE False))
                 else if nextStance = pre then Inr ()
                 else if nextStance \<in> set (legal_targets pre) then Inr ()
                 else Inl (Maids_error (error COGNITION_ILLEGAL_STANCE_TRANSITION False)))
          else if nextStance \<in> set (legal_targets currentStance) then Inr ()
          else Inl (Maids_error (error COGNITION_ILLEGAL_STANCE_TRANSITION False)))"

definition assertBasisUpgradeOnly :: "basis option \<Rightarrow> basis option \<Rightarrow> (thrown, unit) result" where
  "assertBasisUpgradeOnly currentBasis nextBasis =
     (case (currentBasis, nextBasis) of
        (Some c, Some n) \<Rightarrow>
          if c = [] \<or> n = [] \<or> c = n then Inr ()
          else if (c, n) \<in> set ALLOWED_BASIS_UPGRADES then Inr ()
          else Inl (Maids_error (error COGNITION_ILLEGAL_BASIS_DOWNGRADE False))
      | _ \<Rightarrow> Inr ())"

section \<open>The relation they accept\<close>

lemma legal_targets_simps [simp]:
  "legal_targets ''rejected'' = []" "legal_targets ''abandoned'' = []"
  "legal_targets ''contested'' = [''rejected'']"
  by (simp_all add: legal_targets_def ALLOWED_STANCE_TRANSITIONS_def)

lemma stance_ok_iff:
  "assertLegalStanceTransition ex s = Inr () \<longleftrightarrow>
    (case ea_stance ex of
       None \<Rightarrow> True
     | Some c \<Rightarrow>
         c = [] \<or> s \<in> set (legal_targets c) \<or>
         c = ''contested'' \<and>
           (\<exists>pre. ea_preContestedStance ex = Some pre \<and> pre \<noteq> [] \<and> (s = pre \<or> s \<in> set (legal_targets pre))))"
  by (auto simp: assertLegalStanceTransition_def split: option.splits)

lemma basis_ok_iff:
  "assertBasisUpgradeOnly cb nb = Inr () \<longleftrightarrow>
    \<not> present cb \<or> \<not> present nb \<or> cb = nb \<or> (the cb, the nb) \<in> set ALLOWED_BASIS_UPGRADES"
  by (cases cb; cases nb) (auto simp: assertBasisUpgradeOnly_def)

text \<open>
  The evidence ordering: nothing upgrades to itself through a chain, so a basis changes at
  most twice.
\<close>

definition basis_rank :: "basis \<Rightarrow> nat" where
  "basis_rank b = (if b = ''first_hand'' then 2 else if b = ''inference'' then 1 else 0)"

lemma upgrade_rank: "(c, n) \<in> set ALLOWED_BASIS_UPGRADES \<Longrightarrow> basis_rank c < basis_rank n"
  by (auto simp: ALLOWED_BASIS_UPGRADES_def basis_rank_def)

end
