(* ===== verification/Cognition_Repo.thy ===== *)
theory Cognition_Repo
  imports Cognition_Ledger Belief_Revision
begin

text \<open>
  The cognition repository (\<^verbatim>\<open>src/memory/cognition/cognition-repo.ts\<close>): assertions,
  evaluations and commitments of an agent are checked, appended to the ledger, projected
  (theory \<open>Cognition_Ledger\<close>) and entered in the search table \<open>search_docs_cognition\<close>
  (\<^verbatim>\<open>upsertCognitionDoc\<close> and \<^verbatim>\<open>updateCognitionSearchDocStanceBySourceRef\<close> of
  \<^verbatim>\<open>src/storage/domain-repos/pg/search-projection-repo.ts\<close>).

  An operation runs inside the transaction of its caller and reads the clock once. The
  argument \<open>nfc\<close> is Unicode normalisation, \<open>resolve\<close> the lookup of an entity by its pointer
  key (a query of \<open>entity_nodes\<close>), \<open>ns\<close> the decimal form of a number.
\<close>

section \<open>The search table\<close>

record search_doc =
  sd_id :: int
  sd_docType :: string
  sd_sourceRef :: string
  sd_agent :: string
  sd_kind :: cognition_kind
  sd_basis :: "basis option"
  sd_stance :: "stance option"
  sd_content :: string
  sd_updated :: int
  sd_created :: int

record search_table =
  st_docs :: "search_doc list"
  st_next :: int

definition kind_str :: "cognition_kind \<Rightarrow> string" where
  "kind_str k = (case k of Assertion \<Rightarrow> ''assertion'' | Evaluation \<Rightarrow> ''evaluation'' | Commitment \<Rightarrow> ''commitment'')"

definition source_ref :: "cognition_kind \<Rightarrow> int \<Rightarrow> string" where
  "source_ref k i = kind_str k @ '':'' @ int_str i"

definition getDocTypeFromRef :: "string \<Rightarrow> string" where
  "getDocTypeFromRef ref =
     (let kind = hd (split_on (CHR '':'') ref) in if kind = [] then ''node'' else kind)"

definition upsertCognitionDoc :: "string \<Rightarrow> string \<Rightarrow> cognition_kind \<Rightarrow> basis option \<Rightarrow> stance option \<Rightarrow>
    string \<Rightarrow> int \<Rightarrow> int \<Rightarrow> search_table \<Rightarrow> search_table" where
  "upsertCognitionDoc ref agentId kind basis stance content updatedAt createdAt t =
     (let docType = getDocTypeFromRef ref
      in case find (\<lambda>d. sd_sourceRef d = ref \<and> sd_agent d = agentId) (st_docs t) of
           None \<Rightarrow>
             \<lparr>st_docs = st_docs t @
                [\<lparr>sd_id = st_next t, sd_docType = docType, sd_sourceRef = ref, sd_agent = agentId,
                  sd_kind = kind, sd_basis = basis, sd_stance = stance, sd_content = content,
                  sd_updated = updatedAt, sd_created = createdAt\<rparr>],
              st_next = st_next t + 1\<rparr>
         | Some row \<Rightarrow>
             if sd_docType row \<noteq> docType \<or> sd_kind row \<noteq> kind \<or> sd_basis row \<noteq> basis \<or>
                sd_stance row \<noteq> stance \<or> sd_content row \<noteq> content then
               t\<lparr>st_docs := update_where (\<lambda>d. sd_id d = sd_id row)
                  (\<lambda>d. d\<lparr>sd_docType := docType, sd_kind := kind, sd_basis := basis, sd_stance := stance,
                         sd_content := content, sd_updated := updatedAt\<rparr>) (st_docs t)\<rparr>
             else t)"

definition updateCognitionSearchDocStanceBySourceRef :: "string \<Rightarrow> string \<Rightarrow> stance \<Rightarrow> int \<Rightarrow>
    search_table \<Rightarrow> search_table" where
  "updateCognitionSearchDocStanceBySourceRef ref agentId stance updatedAt t =
     t\<lparr>st_docs := update_where (\<lambda>d. sd_sourceRef d = ref \<and> sd_agent d = agentId)
        (\<lambda>d. d\<lparr>sd_stance := Some stance, sd_updated := updatedAt\<rparr>) (st_docs t)\<rparr>"

section \<open>Parameters\<close>

record assertion_params =
  pa_agentId :: string
  pa_cognitionKey :: "string option"
  pa_settlementId :: string
  pa_opIndex :: int
  pa_holderPointerKey :: string
  pa_claim :: string
  pa_entityPointerKeys :: "string list"
  pa_stance :: stance
  pa_basis :: "basis option"
  pa_preContestedStance :: "stance option"
  pa_provenance :: "string option"

record evaluation_params =
  pe_agentId :: string
  pe_cognitionKey :: "string option"
  pe_settlementId :: string
  pe_opIndex :: int
  pe_targetEntityId :: "int option"
  pe_salience :: "js_num option"
  pe_dimensions :: "(string \<times> js_num) list"
  pe_emotionTags :: "string list option"
  pe_notes :: "string option"

record commitment_params =
  pc_agentId :: string
  pc_cognitionKey :: "string option"
  pc_settlementId :: string
  pc_opIndex :: int
  pc_targetEntityId :: "int option"
  pc_salience :: "js_num option"
  pc_mode :: string
  pc_target :: json
  pc_status :: string
  pc_priority :: "js_num option"
  pc_horizon :: "string option"

record cog_env =
  ns :: "js_num \<Rightarrow> string"
  nfc :: "string \<Rightarrow> string"
  resolve :: "string \<Rightarrow> string \<Rightarrow> int option"

record cog_state =
  cg_ledger :: ledger_table
  cg_current :: current_table
  cg_search :: search_table

abbreviation orNull :: "('a \<Rightarrow> json) \<Rightarrow> 'a option \<Rightarrow> json" where
  "orNull f v \<equiv> (case v of Some x \<Rightarrow> f x | None \<Rightarrow> JNull)"

abbreviation JInt :: "int \<Rightarrow> json" where
  "JInt i \<equiv> JNum (Fin (of_int i))"

definition assertion_json :: "assertion_params \<Rightarrow> json" where
  "assertion_json p =
     JObj [(''holderPointerKey'', JStr (pa_holderPointerKey p)),
           (''claim'', JStr (pa_claim p)),
           (''entityPointerKeys'', JArr (map JStr (pa_entityPointerKeys p))),
           (''stance'', JStr (pa_stance p)),
           (''basis'', orNull JStr (pa_basis p)),
           (''preContestedStance'', orNull JStr (pa_preContestedStance p)),
           (''provenance'', orNull JStr (pa_provenance p))]"

definition evaluation_json :: "evaluation_params \<Rightarrow> json \<Rightarrow> json" where
  "evaluation_json p createdAt =
     to_json (JObj [(''dimensions'', JArr (map (\<lambda>(n, v). JObj [(''name'', JStr n), (''value'', JNum v)]) (pe_dimensions p))),
           (''emotionTags'', JArr (map JStr (case pe_emotionTags p of Some ts \<Rightarrow> ts | None \<Rightarrow> []))),
           (''notes'', orNull JStr (pe_notes p)),
           (''salience'', orNull JNum (pe_salience p)),
           (''targetEntityId'', orNull JInt (pe_targetEntityId p)),
           (''settlementId'', JStr (pe_settlementId p)),
           (''opIndex'', JInt (pe_opIndex p)),
           (''createdAt'', createdAt)])"

definition commitment_json :: "commitment_params \<Rightarrow> json \<Rightarrow> json" where
  "commitment_json p createdAt =
     to_json (JObj [(''mode'', JStr (pc_mode p)),
           (''target'', pc_target p),
           (''status'', JStr (pc_status p)),
           (''priority'', orNull JNum (pc_priority p)),
           (''horizon'', orNull JStr (pc_horizon p)),
           (''salience'', orNull JNum (pc_salience p)),
           (''targetEntityId'', orNull JInt (pc_targetEntityId p)),
           (''settlementId'', JStr (pc_settlementId p)),
           (''opIndex'', JInt (pc_opIndex p)),
           (''createdAt'', createdAt)])"

section \<open>The repository\<close>

definition sync_error :: thrown where
  "sync_error = Plain_error"

definition appendAndProject :: "cog_env \<Rightarrow> append_params \<Rightarrow> int \<Rightarrow> cog_state \<Rightarrow>
    (thrown, int) result \<times> cog_state" where
  "appendAndProject env p now st =
     (let (eventId, ledger) = append_event p now (cg_ledger st);
          current =
            (case eventId of
               None \<Rightarrow> cg_current st
             | Some i \<Rightarrow>
                 upsertFromEvent (ns env)
                   \<lparr>ev_id = i, ev_agent = ap_agentId p, ev_key = ap_cognitionKey p, ev_kind = ap_kind p,
                    ev_op = ap_op p, ev_record = ap_recordJson p, ev_settlement = ap_settlementId p,
                    ev_committed = ap_committedTime p, ev_created = ap_committedTime p\<rparr> (cg_current st));
          st' = st\<lparr>cg_ledger := ledger, cg_current := current\<rparr>
      in case getCurrent (ap_agentId p) (ap_cognitionKey p) current of
           None \<Rightarrow> (Inl sync_error, st')
         | Some row \<Rightarrow> (Inr (cc_id row), st'))"

definition syncCognitionSearchDoc :: "int \<Rightarrow> string \<Rightarrow> cognition_kind \<Rightarrow> string \<Rightarrow> stance option \<Rightarrow>
    basis option \<Rightarrow> int \<Rightarrow> cog_state \<Rightarrow> cog_state" where
  "syncCognitionSearchDoc overlayId agentId kind content stance basis now st =
     st\<lparr>cg_search := upsertCognitionDoc (source_ref kind overlayId) agentId kind basis stance content now now
          (cg_search st)\<rparr>"

text \<open>\<open>appendAndProject\<close> followed by \<open>syncCognitionSearchDoc\<close>, as all three writers do.\<close>

definition write_cognition :: "cog_env \<Rightarrow> string \<Rightarrow> string \<Rightarrow> cognition_kind \<Rightarrow> json \<Rightarrow> string \<Rightarrow> int \<Rightarrow>
    string \<Rightarrow> stance option \<Rightarrow> basis option \<Rightarrow> cog_state \<Rightarrow> (thrown, int) result \<times> cog_state" where
  "write_cognition env agentId key kind record settlementId now content stance basis st =
     (case appendAndProject env
             \<lparr>ap_agentId = agentId, ap_cognitionKey = key, ap_kind = kind, ap_op = Op_upsert,
              ap_recordJson = Some record, ap_settlementId = settlementId, ap_committedTime = now\<rparr> now st of
        (Inl e, st') \<Rightarrow> (Inl e, st')
      | (Inr i, st') \<Rightarrow> (Inr i, syncCognitionSearchDoc i agentId kind content stance basis now st'))"

definition getExistingAssertionState :: "string \<Rightarrow> string \<Rightarrow> current_table \<Rightarrow> existing_assertion option" where
  "getExistingAssertionState agentId key t =
     (case getCurrent agentId key t of
        None \<Rightarrow> None
      | Some row \<Rightarrow>
          if cc_kind row \<noteq> Assertion then None
          else Some \<lparr>ea_id = cc_id row, ea_stance = cc_stance row, ea_basis = cc_basis row,
                     ea_preContestedStance = cc_preContested row\<rparr>)"

definition unresolved :: "cog_env \<Rightarrow> string \<Rightarrow> string list \<Rightarrow> string list" where
  "unresolved env agentId keys = filter (\<lambda>k. resolve env (nfc env k) agentId = None) keys"

text \<open>The checks of \<open>upsertAssertion\<close> against the row of its key.\<close>

definition check_revision :: "existing_assertion option \<Rightarrow> stance \<Rightarrow> basis option \<Rightarrow> (thrown, unit) result" where
  "check_revision existing stance basis =
     (case existing of
        None \<Rightarrow> Inr ()
      | Some ex \<Rightarrow>
          if present (ea_stance ex) \<and> the (ea_stance ex) \<in> set TERMINAL_STANCES then
            Inl (Maids_error (error COGNITION_TERMINAL_KEY_REUSE False))
          else
            (case (if present (ea_stance ex) \<and> stance \<noteq> the (ea_stance ex)
                   then assertLegalStanceTransition ex stance else Inr ()) of
               Inl e \<Rightarrow> Inl e
             | Inr _ \<Rightarrow> assertBasisUpgradeOnly (ea_basis ex) basis))"

definition anon_key :: "string \<Rightarrow> string \<Rightarrow> int \<Rightarrow> int \<Rightarrow> string" where
  "anon_key kind settlementId opIndex now =
     ''__anon_'' @ kind @ ''__'' @ settlementId @ '':'' @ int_str opIndex @ '':'' @ int_str now"

definition upsertAssertion :: "cog_env \<Rightarrow> assertion_params \<Rightarrow> int \<Rightarrow> cog_state \<Rightarrow>
    (thrown, int) result \<times> cog_state" where
  "upsertAssertion env p now st =
     (if resolve env (nfc env (pa_holderPointerKey p)) (pa_agentId p) = None then
        (Inl (Maids_error (error COGNITION_UNRESOLVED_REFS True)), st)
      else if unresolved env (pa_agentId p) (pa_entityPointerKeys p) \<noteq> [] then
        (Inl (Maids_error (error COGNITION_UNRESOLVED_REFS True)), st)
      else if pa_stance p = ''contested'' \<and> \<not> present (pa_preContestedStance p) then
        (Inl (Maids_error (error COGNITION_MISSING_PRE_CONTESTED_STANCE False)), st)
      else
        (let key = map_option (nfc env) (pa_cognitionKey p);
             write = (\<lambda>k. write_cognition env (pa_agentId p) k Assertion (assertion_json p)
               (pa_settlementId p) now (''['' @ pa_holderPointerKey p @ ''] '' @ pa_claim p)
               (Some (pa_stance p)) (pa_basis p) st)
         in if present key then
              (case check_revision (getExistingAssertionState (pa_agentId p) (the key) (cg_current st))
                      (pa_stance p) (pa_basis p) of
                 Inl e \<Rightarrow> (Inl e, st)
               | Inr _ \<Rightarrow> write (the key))
            else write (anon_key ''assertion'' (pa_settlementId p) (pa_opIndex p) now)))"

text \<open>The creation time carried over from the row of the key, when it is of the same kind.\<close>

definition carried_createdAt :: "cognition_kind \<Rightarrow> string \<Rightarrow> string option \<Rightarrow> int \<Rightarrow> current_table \<Rightarrow> json" where
  "carried_createdAt kind agentId key now t =
     (case key of
        None \<Rightarrow> JInt now
      | Some k \<Rightarrow>
          if k = [] then JInt now
          else (case getCurrent agentId k t of
                  None \<Rightarrow> JInt now
                | Some row \<Rightarrow>
                    if cc_kind row = kind then
                      (case jprop (safeParseJson (Some (cc_record row))) ''createdAt'' of
                         Some (JNum n) \<Rightarrow> JNum n | _ \<Rightarrow> JInt now)
                    else JInt now))"

definition upsertEvaluation :: "cog_env \<Rightarrow> evaluation_params \<Rightarrow> int \<Rightarrow> cog_state \<Rightarrow>
    (thrown, int) result \<times> cog_state" where
  "upsertEvaluation env p now st =
     (let key = map_option (nfc env) (pe_cognitionKey p);
          effectiveKey =
            (case key of Some k \<Rightarrow> k
             | None \<Rightarrow> anon_key ''evaluation'' (pe_settlementId p) (pe_opIndex p) now)
      in write_cognition env (pe_agentId p) effectiveKey Evaluation
           (evaluation_json p (carried_createdAt Evaluation (pe_agentId p) key now (cg_current st)))
           (pe_settlementId p) now
           (''evaluation: '' @ (case pe_notes p of Some s \<Rightarrow> s | None \<Rightarrow> [])) None None st)"

definition upsertCommitment :: "cog_env \<Rightarrow> commitment_params \<Rightarrow> int \<Rightarrow> cog_state \<Rightarrow>
    (thrown, int) result \<times> cog_state" where
  "upsertCommitment env p now st =
     (let key = map_option (nfc env) (pc_cognitionKey p);
          effectiveKey =
            (case key of Some k \<Rightarrow> k
             | None \<Rightarrow> anon_key ''commitment'' (pc_settlementId p) (pc_opIndex p) now)
      in write_cognition env (pc_agentId p) effectiveKey Commitment
           (commitment_json p (carried_createdAt Commitment (pc_agentId p) key now (cg_current st)))
           (pc_settlementId p) now
           (pc_mode p @ '': '' @ json_text (ns env) (pc_target p)) None None st)"

definition updateCognitionSearchDocStance :: "string \<Rightarrow> cognition_kind \<Rightarrow> string \<Rightarrow> stance \<Rightarrow> int \<Rightarrow>
    cog_state \<Rightarrow> cog_state" where
  "updateCognitionSearchDocStance agentId refKind key newStance now st =
     st\<lparr>cg_search :=
        fold (\<lambda>row. updateCognitionSearchDocStanceBySourceRef (source_ref refKind (cc_id row)) agentId newStance now)
          (filter (\<lambda>row. cc_key row = key \<and> cc_kind row = refKind) (getAllCurrent agentId (cg_current st)))
          (cg_search st)\<rparr>"

definition retractCognition :: "cog_env \<Rightarrow> string \<Rightarrow> string \<Rightarrow> cognition_kind option \<Rightarrow> string option \<Rightarrow> int \<Rightarrow>
    cog_state \<Rightarrow> (thrown, unit) result \<times> cog_state" where
  "retractCognition env agentId cognitionKey kind settlementId now st =
     (let key = nfc env cognitionKey;
          sid = (case settlementId of Some s \<Rightarrow> s | None \<Rightarrow> ''__retract__'')
      in case appendAndProject env
                \<lparr>ap_agentId = agentId, ap_cognitionKey = key,
                 ap_kind = (case kind of Some k \<Rightarrow> k | None \<Rightarrow> Assertion), ap_op = Op_retract,
                 ap_recordJson = None, ap_settlementId = sid, ap_committedTime = now\<rparr> now st of
           (Inl e, st') \<Rightarrow> (Inl e, st')
         | (Inr _, st') \<Rightarrow>
             (Inr (),
              (case kind of
                 Some Assertion \<Rightarrow> updateCognitionSearchDocStance agentId Assertion key ''rejected'' now st'
               | Some k \<Rightarrow> updateCognitionSearchDocStance agentId k key ''abandoned'' now st'
               | None \<Rightarrow>
                   updateCognitionSearchDocStance agentId Commitment key ''abandoned'' now
                     (updateCognitionSearchDocStance agentId Evaluation key ''abandoned'' now
                       (updateCognitionSearchDocStance agentId Assertion key ''rejected'' now st')))))"

section \<open>Runs of the repository\<close>

datatype cognition_call =
    C_assert assertion_params | C_evaluate evaluation_params | C_commit commitment_params
  | C_retract string string "cognition_kind option" "string option" | C_rebuild string

fun run_call :: "cog_env \<Rightarrow> int \<Rightarrow> cognition_call \<Rightarrow> cog_state \<Rightarrow> cog_state" where
  "run_call env now (C_assert p) st = snd (upsertAssertion env p now st)"
| "run_call env now (C_evaluate p) st = snd (upsertEvaluation env p now st)"
| "run_call env now (C_commit p) st = snd (upsertCommitment env p now st)"
| "run_call env now (C_retract a k kind sid) st = snd (retractCognition env a k kind sid now st)"
| "run_call env now (C_rebuild a) st =
     st\<lparr>cg_current := rebuild (ns env) a (cg_ledger st) (cg_current st)\<rparr>"

definition no_cognition :: cog_state where
  "no_cognition =
     \<lparr>cg_ledger = \<lparr>lt_events = [], lt_next = 1\<rparr>, cg_current = \<lparr>ct_rows = [], ct_next = 1\<rparr>,
      cg_search = \<lparr>st_docs = [], st_next = 1\<rparr>\<rparr>"

text \<open>States after calls at times that do not go back; a call that throws is kept or rolled back.\<close>

inductive cog_reach :: "cog_env \<Rightarrow> int \<Rightarrow> cog_state \<Rightarrow> bool" for env where
  start: "cog_reach env t no_cognition"
| call: "cog_reach env t st \<Longrightarrow> t \<le> now \<Longrightarrow> cog_reach env now (run_call env now c st)"

definition of_key :: "string \<Rightarrow> string \<Rightarrow> cog_event \<Rightarrow> bool" where
  "of_key a k e \<longleftrightarrow> ev_agent e = a \<and> ev_key e = k"

definition ledger_ok :: "int \<Rightarrow> ledger_table \<Rightarrow> bool" where
  "ledger_ok t l \<longleftrightarrow>
     sorted_wrt (\<lambda>a b. (ev_committed a, ev_id a) < (ev_committed b, ev_id b)) (lt_events l) \<and>
     (\<forall>e \<in> set (lt_events l). ev_committed e \<le> t \<and> ev_id e < lt_next l)"

definition projected :: "(js_num \<Rightarrow> string) \<Rightarrow> ledger_table \<Rightarrow> current_table \<Rightarrow> bool" where
  "projected f l c \<longleftrightarrow>
     (\<forall>a k. kview a k c = fold (step f) (filter (of_key a k) (lt_events l)) None)"

definition cog_inv :: "cog_env \<Rightarrow> int \<Rightarrow> cog_state \<Rightarrow> bool" where
  "cog_inv env t st \<longleftrightarrow>
     rows_ok (cg_current st) \<and> ledger_ok t (cg_ledger st) \<and> projected (ns env) (cg_ledger st) (cg_current st)"

lemma inv_later: "cog_inv env t st \<Longrightarrow> t \<le> t' \<Longrightarrow> cog_inv env t' st"
  by (fastforce simp: cog_inv_def ledger_ok_def)

lemma inv_search [simp]: "cog_inv env t (st\<lparr>cg_search := s\<rparr>) = cog_inv env t st"
  by (simp add: cog_inv_def)

lemma ledger_ok_append:
  assumes "ledger_ok t l" "append_event p t l = (i, l')" "ap_committedTime p = t"
  shows "ledger_ok t l'"
  using assms by (fastforce simp: ledger_ok_def append_event_def sorted_wrt_append split: if_splits)

lemma appendAndProject_state:
  assumes "append_event p now (cg_ledger st) = (i, l')"
  shows "snd (appendAndProject env p now st) = st\<lparr>cg_ledger := l',
    cg_current := (case i of None \<Rightarrow> cg_current st
      | Some n \<Rightarrow> upsertFromEvent (ns env)
          \<lparr>ev_id = n, ev_agent = ap_agentId p, ev_key = ap_cognitionKey p, ev_kind = ap_kind p,
           ev_op = ap_op p, ev_record = ap_recordJson p, ev_settlement = ap_settlementId p,
           ev_committed = ap_committedTime p, ev_created = ap_committedTime p\<rparr> (cg_current st))\<rparr>"
  by (simp add: appendAndProject_def assms Let_def split: option.split)

lemma inv_appendAndProject:
  assumes "cog_inv env t st" "ap_committedTime p = t"
  shows "cog_inv env t (snd (appendAndProject env p t st))"
proof -
  obtain i l' where a: "append_event p t (cg_ledger st) = (i, l')" by fastforce
  have ok: "ledger_ok t l'" "rows_ok (cg_current st)"
    using ledger_ok_append [OF _ a] assms by (auto simp: cog_inv_def)
  show ?thesis
  proof (cases i)
    case None
    with a have "lt_events l' = lt_events (cg_ledger st)" by (auto simp: append_event_def split: if_splits)
    with ok None assms show ?thesis
      by (simp add: appendAndProject_state [OF a] cog_inv_def projected_def)
  next
    case (Some n)
    let ?e = "\<lparr>ev_id = n, ev_agent = ap_agentId p, ev_key = ap_cognitionKey p, ev_kind = ap_kind p,
        ev_op = ap_op p, ev_record = ap_recordJson p, ev_settlement = ap_settlementId p,
        ev_committed = t, ev_created = t\<rparr>"
    have new: "lt_events l' = lt_events (cg_ledger st) @ [?e]"
      using a Some assms(2) by (auto simp: append_event_def split: if_splits)
    have "projected (ns env) l' (upsertFromEvent (ns env) ?e (cg_current st))"
      using assms(1) by (auto simp: projected_def new kview_upsertFromEvent [OF ok(2)] cog_inv_def of_key_def)
    with ok Some assms show ?thesis
      by (simp add: appendAndProject_state [OF a] cog_inv_def rows_ok_upsertFromEvent)
  qed
qed

lemma inv_rebuild:
  assumes "cog_inv env t st"
  shows "cog_inv env t (st\<lparr>cg_current := rebuild (ns env) a (cg_ledger st) (cg_current st)\<rparr>)"
    and "rows_ok c \<Longrightarrow> kview a k (rebuild (ns env) a (cg_ledger st) c) = kview a k (cg_current st)"
proof -
  have "readByCognitionKey b k (cg_ledger st) = filter (of_key b k) (lt_events (cg_ledger st))" for b k
  proof -
    have "sorted_wrt (\<lambda>a b. \<not> event_before b a) (filter (of_key b k) (lt_events (cg_ledger st)))"
      using assms unfolding cog_inv_def ledger_ok_def
      by (intro sorted_wrt_filter) (auto simp: event_before_def elim!: sorted_wrt_mono_rel [rotated])
    from events.sort_by_sorted [OF this] show ?thesis
      by (simp add: readByCognitionKey_def of_key_def [abs_def])
  qed
  note kv = kview_rebuild [where led = "cg_ledger st", unfolded this]
  show "cog_inv env t (st\<lparr>cg_current := rebuild (ns env) a (cg_ledger st) (cg_current st)\<rparr>)"
    using assms by (simp add: cog_inv_def projected_def kv rows_ok_rebuild)
  show "rows_ok c \<Longrightarrow> kview a k (rebuild (ns env) a (cg_ledger st) c) = kview a k (cg_current st)"
    using assms by (simp add: cog_inv_def projected_def kv)
qed

lemma inv_write:
  "cog_inv env t st \<Longrightarrow> cog_inv env t (snd (write_cognition env a k kind rec sid t content s b st))"
  using inv_appendAndProject [of env t st "\<lparr>ap_agentId = a, ap_cognitionKey = k, ap_kind = kind,
      ap_op = Op_upsert, ap_recordJson = Some rec, ap_settlementId = sid, ap_committedTime = t\<rparr>"]
  by (auto simp: write_cognition_def syncCognitionSearchDoc_def split: prod.split sum.split)

lemma inv_retract:
  assumes "cog_inv env t st"
  shows "cog_inv env t (snd (retractCognition env a k kind sid t st))"
proof -
  let ?p = "\<lparr>ap_agentId = a, ap_cognitionKey = nfc env k,
      ap_kind = (case kind of Some k \<Rightarrow> k | None \<Rightarrow> Assertion), ap_op = Op_retract, ap_recordJson = None,
      ap_settlementId = (case sid of Some s \<Rightarrow> s | None \<Rightarrow> ''__retract__''), ap_committedTime = t\<rparr>"
  obtain r s where rs: "appendAndProject env ?p t st = (r, s)" by fastforce
  with inv_appendAndProject [OF assms, of ?p] have "cog_inv env t s" by simp
  then show ?thesis
    by (cases r) (auto simp: retractCognition_def Let_def rs updateCognitionSearchDocStance_def
        split: option.split cognition_kind.split)
qed

lemma inv_run_call:
  assumes "cog_inv env t st" shows "cog_inv env t (run_call env t c st)"
proof (cases c)
  case (C_assert p)
  with assms show ?thesis by (auto simp: upsertAssertion_def Let_def inv_write split: sum.split)
next
  case (C_evaluate p)
  with assms show ?thesis by (auto simp: upsertEvaluation_def Let_def inv_write)
next
  case (C_commit p)
  with assms show ?thesis by (auto simp: upsertCommitment_def Let_def inv_write)
next
  case (C_retract a k kind sid)
  with assms show ?thesis by (simp add: inv_retract)
next
  case (C_rebuild a)
  with assms inv_rebuild(1) show ?thesis by simp
qed

lemma inv_reach: "cog_reach env t st \<Longrightarrow> cog_inv env t st"
proof (induction rule: cog_reach.induct)
  case (start t)
  show ?case
    by (simp add: cog_inv_def no_cognition_def rows_ok_def ledger_ok_def projected_def kview_def getCurrent_def)
next
  case (call t st now c)
  with inv_later inv_run_call show ?case by blast
qed

text \<open>
  Property (C2): in every state the repository reaches while its clock does not go back,
  rebuilding the projection of an agent from the ledger, from whatever table one starts,
  gives every key the row it already has (apart from the row's number). So the projection
  is a function of the ledger.
\<close>

theorem rebuild_gives_projection:
  assumes "cog_reach env t st" "rows_ok c"
  shows "kview a k (rebuild (ns env) a (cg_ledger st) c) = kview a k (cg_current st)"
  using inv_rebuild(2) [OF inv_reach] assms by blast

section \<open>What the writers do to a key\<close>

abbreviation event_of :: "append_params \<Rightarrow> int \<Rightarrow> cog_event" where
  "event_of p n \<equiv> \<lparr>ev_id = n, ev_agent = ap_agentId p, ev_key = ap_cognitionKey p, ev_kind = ap_kind p,
     ev_op = ap_op p, ev_record = ap_recordJson p, ev_settlement = ap_settlementId p,
     ev_committed = ap_committedTime p, ev_created = ap_committedTime p\<rparr>"

definition recorded :: "append_params \<Rightarrow> ledger_table \<Rightarrow> bool" where
  "recorded p l \<longleftrightarrow> (\<exists>e \<in> set (lt_events l). same_event p e)"

lemma kview_appendAndProject:
  assumes "rows_ok (cg_current st)"
  shows "kview a k (cg_current (snd (appendAndProject env p now st))) =
    (if a = ap_agentId p \<and> k = ap_cognitionKey p \<and> \<not> recorded p (cg_ledger st)
     then step (ns env) (event_of p (lt_next (cg_ledger st))) (kview a k (cg_current st))
     else kview a k (cg_current st))"
proof -
  obtain i l' where a: "append_event p now (cg_ledger st) = (i, l')" by fastforce
  then have "i = (if recorded p (cg_ledger st) then None else Some (lt_next (cg_ledger st)))"
    by (auto simp: append_event_def recorded_def split: if_splits)
  then show ?thesis
    by (auto simp: appendAndProject_state [OF a] kview_upsertFromEvent [OF assms])
qed

abbreviation upsert_params :: "string \<Rightarrow> string \<Rightarrow> cognition_kind \<Rightarrow> json \<Rightarrow> string \<Rightarrow> int \<Rightarrow> append_params" where
  "upsert_params a k kind record sid now \<equiv>
     \<lparr>ap_agentId = a, ap_cognitionKey = k, ap_kind = kind, ap_op = Op_upsert, ap_recordJson = Some record,
      ap_settlementId = sid, ap_committedTime = now\<rparr>"

lemma write_cognition_current:
  "cg_current (snd (write_cognition env a k kind record sid now content s b st)) =
   cg_current (snd (appendAndProject env (upsert_params a k kind record sid now) now st))"
  "cg_ledger (snd (write_cognition env a k kind record sid now content s b st)) =
   cg_ledger (snd (appendAndProject env (upsert_params a k kind record sid now) now st))"
  by (auto simp: write_cognition_def syncCognitionSearchDoc_def split: prod.split sum.split)

lemma retract_current:
  "cg_current (snd (retractCognition env a k kind sid now st)) =
   cg_current (snd (appendAndProject env
     \<lparr>ap_agentId = a, ap_cognitionKey = nfc env k,
      ap_kind = (case kind of Some k \<Rightarrow> k | None \<Rightarrow> Assertion), ap_op = Op_retract, ap_recordJson = None,
      ap_settlementId = (case sid of Some s \<Rightarrow> s | None \<Rightarrow> ''__retract__''), ap_committedTime = now\<rparr> now st))"
  by (auto simp: retractCognition_def Let_def updateCognitionSearchDocStance_def
      split: prod.split sum.split option.split cognition_kind.split)

lemma getCurrent_kview: "getCurrent a k t = Some r \<Longrightarrow> kview a k t = Some (r\<lparr>cc_id := 0\<rparr>)"
  by (simp add: kview_def)

section \<open>Terminal assertions\<close>

definition terminated :: "current_row option \<Rightarrow> bool" where
  "terminated ro \<longleftrightarrow>
     (case ro of Some r \<Rightarrow> cc_kind r = Assertion \<and> cc_stance r \<in> {Some ''rejected'', Some ''abandoned''} | None \<Rightarrow> False)"

definition anonymous :: "string \<Rightarrow> bool" where
  "anonymous k \<longleftrightarrow> prefix ''__anon_'' k"

lemma anonymous_anon_key [simp]: "anonymous (anon_key kind sid i now)"
  by (simp add: anonymous_def anon_key_def)

lemma terminated_step:
  "terminated ro \<Longrightarrow> ev_op e = Op_retract \<or> ev_kind e \<noteq> Assertion \<Longrightarrow> terminated (step f e ro)"
  by (auto simp: terminated_def step_def retract_row_def event_merge_def plain_merge_def split: option.splits)

lemma terminated_reuse:
  assumes "terminated (kview (pa_agentId p) k (cg_current st))" "pa_cognitionKey p = Some k0"
    "nfc env k0 = k" "k \<noteq> []"
  shows "\<exists>e. upsertAssertion env p now st = (Inl e, st)"
proof -
  from assms(1) obtain r where r: "getCurrent (pa_agentId p) k (cg_current st) = Some r"
    "cc_kind r = Assertion" "cc_stance r \<in> {Some ''rejected'', Some ''abandoned''}"
    by (auto simp: terminated_def kview_def split: option.splits)
  then have "check_revision (getExistingAssertionState (pa_agentId p) k (cg_current st)) (pa_stance p) (pa_basis p)
      = Inl (Maids_error (error COGNITION_TERMINAL_KEY_REUSE False))"
    by (auto simp: check_revision_def getExistingAssertionState_def TERMINAL_STANCES_def)
  with assms(2-) show ?thesis by (simp add: upsertAssertion_def Let_def)
qed

lemma terminated_assert:
  assumes "rows_ok (cg_current st)" "terminated (kview a k (cg_current st))" "k \<noteq> []" "\<not> anonymous k"
  shows "terminated (kview a k (cg_current (snd (upsertAssertion env p now st))))"
proof (cases "\<exists>k0. pa_agentId p = a \<and> pa_cognitionKey p = Some k0 \<and> nfc env k0 = k")
  case True
  with terminated_reuse [of p k st _ env now] assms(2,3) show ?thesis by auto
next
  case False
  have "anon_key ''assertion'' (pa_settlementId p) (pa_opIndex p) now \<noteq> k" using assms(4) by auto
  with False assms show ?thesis
    by (auto simp: upsertAssertion_def Let_def write_cognition_current kview_appendAndProject [OF assms(1)] split: sum.split)
qed

lemma terminated_run_call:
  assumes "cog_inv env t st" "terminated (kview a k (cg_current st))" "k \<noteq> []" "\<not> anonymous k"
  shows "terminated (kview a k (cg_current (run_call env t c st)))"
proof -
  have ok: "rows_ok (cg_current st)" using assms(1) by (simp add: cog_inv_def)
  show ?thesis
  proof (cases c)
    case (C_assert p)
    with terminated_assert [OF ok assms(2-)] show ?thesis by simp
  next
    case (C_evaluate p)
    with assms(2) show ?thesis
      by (auto simp: upsertEvaluation_def Let_def write_cognition_current kview_appendAndProject [OF ok]
          intro: terminated_step)
  next
    case (C_commit p)
    with assms(2) show ?thesis
      by (auto simp: upsertCommitment_def Let_def write_cognition_current kview_appendAndProject [OF ok]
          intro: terminated_step)
  next
    case (C_retract b k0 kind sid)
    with assms(2) show ?thesis
      by (auto simp: retract_current kview_appendAndProject [OF ok] intro: terminated_step)
  next
    case (C_rebuild b)
    have "kview a k (rebuild (ns env) b (cg_ledger st) (cg_current st)) = kview a k (cg_current st)"
      using inv_rebuild(2) [OF assms(1) ok, of b k] kview_rebuild [OF ok, of a k "ns env" b]
      by (cases "a = b") simp_all
    with C_rebuild assms(2) show ?thesis by simp
  qed
qed

definition run_calls :: "cog_env \<Rightarrow> (int \<times> cognition_call) list \<Rightarrow> cog_state \<Rightarrow> cog_state" where
  "run_calls env = fold (\<lambda>(now, c). run_call env now c)"

text \<open>
  Property (C8): once the assertion of a key is rejected or abandoned, no sequence of
  assertions, evaluations, commitments, retractions and rebuilds at later times, on this key
  or any other, gives it another stance than these two, and every assertion of the key
  fails and changes nothing. Keys that look generated (they start with \<open>__anon_\<close>) are
  excepted, because writes without a key are not checked.
\<close>

theorem terminal_stance_final:
  assumes "cog_reach env t st" "terminated (kview a k (cg_current st))" "k \<noteq> []" "\<not> anonymous k"
    and "sorted (t # map fst calls)"
  shows "terminated (kview a k (cg_current (run_calls env calls st))) \<and>
    (pa_agentId p = a \<and> pa_cognitionKey p = Some k0 \<and> nfc env k0 = k \<longrightarrow>
      (\<exists>e. upsertAssertion env p now (run_calls env calls st) = (Inl e, run_calls env calls st)))"
proof -
  have *: "cog_inv env t st \<Longrightarrow> terminated (kview a k (cg_current st)) \<Longrightarrow> sorted (t # map fst calls) \<Longrightarrow>
      terminated (kview a k (cg_current (run_calls env calls st)))" for t
  proof (induction calls arbitrary: t st)
    case (Cons call calls)
    obtain now c where call: "call = (now, c)" by (cases call)
    have inv: "cog_inv env now st" using Cons.prems(1,3) inv_later call by auto
    with Cons.IH [OF inv_run_call [OF inv] terminated_run_call [OF inv Cons.prems(2) assms(3,4)]] Cons.prems(3)
    show ?case by (simp add: call run_calls_def)
  qed (simp add: run_calls_def)
  then have "terminated (kview a k (cg_current (run_calls env calls st)))"
    using inv_reach assms(1,2,5) by blast
  with terminated_reuse assms(3) show ?thesis by blast
qed

section \<open>What an assertion does\<close>

definition STANCES :: "stance list" where
  "STANCES = [''hypothetical'', ''tentative'', ''accepted'', ''confirmed'', ''contested'', ''rejected'', ''abandoned'']"

definition BASES :: "basis list" where
  "BASES = [''first_hand'', ''hearsay'', ''inference'', ''introspection'', ''belief'']"

definition typed_assertion :: "assertion_params \<Rightarrow> bool" where
  "typed_assertion p \<longleftrightarrow> pa_stance p \<in> set STANCES \<and> pa_basis p \<in> insert None (Some ` set BASES) \<and>
     pa_preContestedStance p \<in> insert None (Some ` set STANCES)"

lemma stances_nonempty: "[] \<notin> set STANCES" "[] \<notin> set BASES"
  by (simp_all add: STANCES_def BASES_def)

lemma safeParse_assertion_json [simp]: "safeParseJson (Some (assertion_json p)) = assertion_json p"
  by (simp add: safeParseJson_def assertion_json_def)

lemma extract_assertion_json [simp]:
  "extractAssertionRecord (assertion_json p) =
     \<lparr>ar_holderPointerKey = Some (pa_holderPointerKey p), ar_claim = Some (pa_claim p),
      ar_entityPointerKeys = Some (map JStr (pa_entityPointerKeys p)), ar_stance = Some (pa_stance p),
      ar_basis = pa_basis p, ar_preContestedStance = pa_preContestedStance p,
      ar_conflictSummary = None, ar_conflictFactorRefs = None\<rparr>"
  by (simp add: extractAssertionRecord_def assertion_json_def holder_key_def
      entity_keys_def str_prop_def jprop_def get_prop_def Let_def split: option.split)

text \<open>Whether a new stance and basis may follow the row of the key, spelled out.\<close>

definition may_follow :: "assertion_params \<Rightarrow> current_row option \<Rightarrow> bool" where
  "may_follow p ro \<longleftrightarrow>
     (pa_stance p = ''contested'' \<longrightarrow> present (pa_preContestedStance p)) \<and>
     (\<forall>r. ro = Some r \<and> cc_kind r = Assertion \<longrightarrow>
        (\<forall>c. cc_stance r = Some c \<and> c \<noteq> [] \<longrightarrow>
           c \<notin> set TERMINAL_STANCES \<and>
           (pa_stance p = c \<or> pa_stance p \<in> set (legal_targets c) \<or>
            c = ''contested'' \<and> (\<exists>pre. cc_preContested r = Some pre \<and> pre \<noteq> [] \<and>
               (pa_stance p = pre \<or> pa_stance p \<in> set (legal_targets pre))))) \<and>
        (\<forall>b n. cc_basis r = Some b \<and> pa_basis p = Some n \<and> b \<noteq> [] \<and> n \<noteq> [] \<and> b \<noteq> n \<longrightarrow>
           (b, n) \<in> set ALLOWED_BASIS_UPGRADES))"

lemma ok_or_error: "(r :: (thrown, unit) result) = Inr () \<or> (\<exists>e. r = Inl e)"
  by (cases r) auto

lemma stance_allowed_iff:
  "\<not> (present s \<and> the s \<in> set TERMINAL_STANCES) \<and>
   (present s \<and> st \<noteq> the s \<longrightarrow>
    assertLegalStanceTransition \<lparr>ea_id = i, ea_stance = s, ea_basis = b, ea_preContestedStance = pre\<rparr> st = Inr ()) \<longleftrightarrow>
   (\<forall>c. s = Some c \<and> c \<noteq> [] \<longrightarrow> c \<notin> set TERMINAL_STANCES \<and>
      (st = c \<or> st \<in> set (legal_targets c) \<or>
       c = ''contested'' \<and> (\<exists>q. pre = Some q \<and> q \<noteq> [] \<and> (st = q \<or> st \<in> set (legal_targets q)))))"
proof (cases s)
  case None
  then show ?thesis by simp
next
  case (Some c)
  then show ?thesis by (cases "st = c"; cases "c = []") (simp_all add: stance_ok_iff)
qed

lemma check_revision_iff:
  assumes "pa_stance p = ''contested'' \<longrightarrow> present (pa_preContestedStance p)"
  shows "check_revision (getExistingAssertionState a k t) (pa_stance p) (pa_basis p) = Inr () \<longleftrightarrow>
    may_follow p (getCurrent a k t)"
proof (cases "getCurrent a k t")
  case None
  with assms show ?thesis by (simp add: check_revision_def getExistingAssertionState_def may_follow_def)
next
  case (Some r)
  let ?ex = "\<lparr>ea_id = cc_id r, ea_stance = cc_stance r, ea_basis = cc_basis r,
      ea_preContestedStance = cc_preContested r\<rparr>"
  have basis: "assertBasisUpgradeOnly (cc_basis r) (pa_basis p) = Inr () \<longleftrightarrow>
      (\<forall>b n. cc_basis r = Some b \<and> pa_basis p = Some n \<and> b \<noteq> [] \<and> n \<noteq> [] \<and> b \<noteq> n \<longrightarrow>
         (b, n) \<in> set ALLOWED_BASIS_UPGRADES)"
    by (auto simp: basis_ok_iff)
  have stance: "(case (if c then assertLegalStanceTransition ?ex (pa_stance p) else Inr ()) of
        Inl e \<Rightarrow> Inl e | Inr _ \<Rightarrow> q) = Inr () \<longleftrightarrow>
      (c \<longrightarrow> assertLegalStanceTransition ?ex (pa_stance p) = Inr ()) \<and> q = Inr ()" for c q
    using ok_or_error [of "assertLegalStanceTransition ?ex (pa_stance p)"] by auto
  show ?thesis
  proof (cases "cc_kind r = Assertion")
    case True
    have "check_revision (Some ?ex) (pa_stance p) (pa_basis p) = Inr () \<longleftrightarrow>
        (\<not> (present (cc_stance r) \<and> the (cc_stance r) \<in> set TERMINAL_STANCES) \<and>
         (present (cc_stance r) \<and> pa_stance p \<noteq> the (cc_stance r) \<longrightarrow>
          assertLegalStanceTransition ?ex (pa_stance p) = Inr ())) \<and>
        assertBasisUpgradeOnly (cc_basis r) (pa_basis p) = Inr ()"
      by (simp add: check_revision_def stance)
    also have "\<dots> \<longleftrightarrow> may_follow p (Some r)"
      unfolding stance_allowed_iff basis using True assms by (simp add: may_follow_def)
    finally show ?thesis using Some True by (simp add: getExistingAssertionState_def)
  next
    case False
    with Some assms show ?thesis by (simp add: check_revision_def getExistingAssertionState_def may_follow_def)
  qed
qed

text \<open>The row after an accepted assertion.\<close>

definition asserted :: "assertion_params \<Rightarrow> int \<Rightarrow> current_row option \<Rightarrow> current_row \<Rightarrow> bool" where
  "asserted p now old r \<longleftrightarrow>
     cc_stance r = Some (pa_stance p) \<and> cc_status r = ''active'' \<and> cc_updated r = now \<and>
     cc_record r = assertion_json p \<and>
     cc_basis r = coalesce (pa_basis p) (Option.bind old cc_basis) \<and>
     cc_preContested r = coalesce (pa_preContestedStance p) (Option.bind old cc_preContested) \<and>
     cc_kind r = (case old of None \<Rightarrow> Assertion | Some o' \<Rightarrow> cc_kind o')"

lemma step_assertion:
  assumes "case ro of Some r \<Rightarrow> cc_updated r \<le> now | None \<Rightarrow> True"
  shows "\<exists>r. step f (event_of (upsert_params a k Assertion (assertion_json p) sid now) i) ro = Some r \<and>
    asserted p now ro r"
  using assms
  by (cases ro) (auto simp: step_def event_row_def event_merge_def assertion_row_def assertion_merge_def
      asserted_def Let_def split: option.split)

lemma step_updated:
  "ev_committed e \<le> t \<Longrightarrow> \<forall>r \<in> set_option ro. cc_updated r \<le> t \<Longrightarrow> \<forall>r \<in> set_option (step f e ro). cc_updated r \<le> t"
  by (auto simp: step_def split: option.splits)

lemma fold_step_updated:
  "\<forall>e \<in> set es. ev_committed e \<le> t \<Longrightarrow> \<forall>r \<in> set_option ro. cc_updated r \<le> t \<Longrightarrow>
   \<forall>r \<in> set_option (fold (step f) es ro). cc_updated r \<le> t"
proof (induction es arbitrary: ro)
  case (Cons e es)
  from Cons.prems(1) have e: "ev_committed e \<le> t" and es: "\<forall>e \<in> set es. ev_committed e \<le> t" by simp_all
  show ?case using Cons.IH [OF es step_updated [OF e Cons.prems(2)]] by simp
qed simp

lemma step_present: "ro \<noteq> None \<or> ev_op e = Op_upsert \<Longrightarrow> step f e ro \<noteq> None"
  by (auto simp: step_def split: option.splits)

lemma fold_step_present:
  "ro \<noteq> None \<or> (\<exists>e \<in> set es. ev_op e = Op_upsert) \<Longrightarrow> fold (step f) es ro \<noteq> None"
proof (induction es arbitrary: ro)
  case (Cons e es)
  then have "step f e ro \<noteq> None \<or> (\<exists>e \<in> set es. ev_op e = Op_upsert)"
    using step_present [of ro e f] by auto
  from Cons.IH [OF this] show ?case by simp
qed simp

lemma updated_le:
  assumes "cog_inv env t st" "kview a k (cg_current st) = Some r" shows "cc_updated r \<le> t"
  using assms fold_step_updated [of "filter (of_key a k) (lt_events (cg_ledger st))" t None "ns env"]
  by (auto simp: cog_inv_def projected_def ledger_ok_def)

lemma recorded_present:
  assumes "cog_inv env t st" "recorded p (cg_ledger st)" "ap_op p = Op_upsert"
  shows "getCurrent (ap_agentId p) (ap_cognitionKey p) (cg_current st) \<noteq> None"
proof -
  from assms(2,3) have "\<exists>e \<in> set (filter (of_key (ap_agentId p) (ap_cognitionKey p)) (lt_events (cg_ledger st))).
      ev_op e = Op_upsert"
    by (auto simp: recorded_def of_key_def)
  with fold_step_present have "kview (ap_agentId p) (ap_cognitionKey p) (cg_current st) \<noteq> None"
    using assms(1) by (metis cog_inv_def projected_def)
  then show ?thesis by (simp add: kview_def)
qed

lemma write_cognition_result:
  "fst (write_cognition env a k kind rec sid now content s b st) =
    (case getCurrent a k (cg_current (snd (write_cognition env a k kind rec sid now content s b st))) of
       None \<Rightarrow> Inl sync_error | Some r \<Rightarrow> Inr (cc_id r))"
  by (auto simp: write_cognition_def appendAndProject_def syncCognitionSearchDoc_def Let_def
      split: prod.split sum.split option.split)

definition resolved :: "cog_env \<Rightarrow> assertion_params \<Rightarrow> bool" where
  "resolved env p \<longleftrightarrow> resolve env (nfc env (pa_holderPointerKey p)) (pa_agentId p) \<noteq> None \<and>
     list_all (\<lambda>k. resolve env (nfc env k) (pa_agentId p) \<noteq> None) (pa_entityPointerKeys p)"

abbreviation assertion_event :: "cog_env \<Rightarrow> assertion_params \<Rightarrow> string \<Rightarrow> int \<Rightarrow> append_params" where
  "assertion_event env p k now \<equiv>
     upsert_params (pa_agentId p) k Assertion (assertion_json p) (pa_settlementId p) now"

lemma upsertAssertion_keyed:
  assumes "pa_cognitionKey p = Some k0" "nfc env k0 = k" "k \<noteq> []" "resolved env p"
  shows "if may_follow p (getCurrent (pa_agentId p) k (cg_current st))
    then upsertAssertion env p now st =
      write_cognition env (pa_agentId p) k Assertion (assertion_json p) (pa_settlementId p) now
        (''['' @ pa_holderPointerKey p @ ''] '' @ pa_claim p) (Some (pa_stance p)) (pa_basis p) st
    else \<exists>e. upsertAssertion env p now st = (Inl e, st)"
proof -
  have refs: "unresolved env (pa_agentId p) (pa_entityPointerKeys p) = []"
    using assms(4) by (auto simp: unresolved_def resolved_def filter_empty_conv list_all_iff)
  show ?thesis
  proof (cases "pa_stance p = ''contested'' \<longrightarrow> present (pa_preContestedStance p)")
    case True
    note iff = check_revision_iff [OF True, of "pa_agentId p" k "cg_current st"]
    with assms refs True show ?thesis
      using ok_or_error [of "check_revision (getExistingAssertionState (pa_agentId p) k (cg_current st))
          (pa_stance p) (pa_basis p)"]
      by (auto simp: upsertAssertion_def Let_def resolved_def)
  next
    case False
    with assms refs show ?thesis by (auto simp: upsertAssertion_def resolved_def may_follow_def)
  qed
qed

text \<open>
  Property (C30): an assertion with a key, whose references resolve, made at a clock that has not
  gone back by a settlement that has not written the key before, succeeds exactly if its
  stance and basis may follow the row of the key: a row that is not terminal, a stance that
  is the same, a legal target of the current one or, for a contested row, of the stance
  before the contest, and a basis that is the same or an upgrade. If it fails nothing is
  changed. If it succeeds, the row has the new stance, keeps the old basis and pre-contested
  stance where none is given, is active, and no other key changes.
\<close>

theorem assertion_outcome:
  assumes "cog_reach env t st" "t \<le> now" "pa_cognitionKey p = Some k0" "nfc env k0 = k" "k \<noteq> []"
    and "resolved env p" "\<not> recorded (assertion_event env p k now) (cg_ledger st)"
  shows "case upsertAssertion env p now st of
      (Inl e, st') \<Rightarrow> st' = st \<and> \<not> may_follow p (getCurrent (pa_agentId p) k (cg_current st))
    | (Inr i, st') \<Rightarrow>
        may_follow p (getCurrent (pa_agentId p) k (cg_current st)) \<and>
        (\<exists>r. getCurrent (pa_agentId p) k (cg_current st') = Some r \<and> cc_id r = i \<and>
             asserted p now (getCurrent (pa_agentId p) k (cg_current st)) r) \<and>
        (\<forall>a k'. (a, k') \<noteq> (pa_agentId p, k) \<longrightarrow> kview a k' (cg_current st') = kview a k' (cg_current st))"
proof (cases "may_follow p (getCurrent (pa_agentId p) k (cg_current st))")
  case False
  with upsertAssertion_keyed [OF assms(3-6), of st now] show ?thesis by auto
next
  case True
  have inv: "cog_inv env now st" using inv_later [OF inv_reach [OF assms(1)] assms(2)] .
  then have ok: "rows_ok (cg_current st)" by (simp add: cog_inv_def)
  let ?W = "write_cognition env (pa_agentId p) k Assertion (assertion_json p) (pa_settlementId p) now
        (''['' @ pa_holderPointerKey p @ ''] '' @ pa_claim p) (Some (pa_stance p)) (pa_basis p) st"
  let ?old = "kview (pa_agentId p) k (cg_current st)"
  have kv: "kview a k' (cg_current (snd ?W)) =
      (if a = pa_agentId p \<and> k' = k
       then step (ns env) (event_of (assertion_event env p k now) (lt_next (cg_ledger st))) ?old
       else kview a k' (cg_current st))" for a k'
    using assms(7) by (simp add: write_cognition_current kview_appendAndProject [OF ok])
  have "case ?old of Some r \<Rightarrow> cc_updated r \<le> now | None \<Rightarrow> True"
    using updated_le [OF inv] by (auto split: option.split)
  from step_assertion [OF this, where f = "ns env" and a = "pa_agentId p" and k = k and p = p
      and sid = "pa_settlementId p" and i = "lt_next (cg_ledger st)"]
  obtain r' where r': "kview (pa_agentId p) k (cg_current (snd ?W)) = Some r'"
    "asserted p now ?old r'" unfolding kv by auto
  then obtain r where r: "getCurrent (pa_agentId p) k (cg_current (snd ?W)) = Some r" "r' = r\<lparr>cc_id := 0\<rparr>"
    by (auto simp: kview_def)
  have "asserted p now (getCurrent (pa_agentId p) k (cg_current st)) r"
    using r'(2) unfolding r(2)
    by (cases "getCurrent (pa_agentId p) k (cg_current st)")
       (simp_all add: asserted_def kview_def split: option.split)
  moreover have "fst ?W = Inr (cc_id r)" using r(1) by (simp add: write_cognition_result)
  moreover have "upsertAssertion env p now st = (fst ?W, snd ?W)"
    using upsertAssertion_keyed [OF assms(3-6), of st now] True by simp
  ultimately show ?thesis using True r(1) kv by auto
qed

section \<open>Two writes of a settlement\<close>

lemma find_doc_update:
  assumes "find (\<lambda>d. sd_sourceRef d = ref \<and> sd_agent d = a) ds = Some d" "q d"
    and "\<And>d. sd_sourceRef (f d) = sd_sourceRef d \<and> sd_agent (f d) = sd_agent d"
  shows "find (\<lambda>d. sd_sourceRef d = ref \<and> sd_agent d = a) (update_where q f ds) = Some (f d)"
  using assms by (induction ds) (auto simp: table_simps split: if_splits)

lemma upsertCognitionDoc_shows:
  "\<exists>d. find (\<lambda>d. sd_sourceRef d = ref \<and> sd_agent d = a)
      (st_docs (upsertCognitionDoc ref a kind basis stance content u c t)) = Some d \<and>
    sd_kind d = kind \<and> sd_basis d = basis \<and> sd_stance d = stance \<and> sd_content d = content"
proof (cases "find (\<lambda>d. sd_sourceRef d = ref \<and> sd_agent d = a) (st_docs t)")
  case None
  have "find P (xs @ [x]) = Some x" if "find P xs = None" "P x" for P :: "search_doc \<Rightarrow> bool" and xs x
    using that by (induction xs) (auto split: if_splits)
  with None show ?thesis by (simp add: upsertCognitionDoc_def Let_def)
next
  case (Some row)
  then show ?thesis
    by (auto simp: upsertCognitionDoc_def Let_def find_doc_update [OF Some])
qed

text \<open>
  The ledger takes one write of a key per settlement. A second assertion of
  the key in the settlement, one the rules allow, reports success with the number of the
  row, but neither the ledger nor the projection changes, while the search table shows the
  claim, stance and basis of the second one.
\<close>

theorem second_write_only_in_search:
  assumes "cog_reach env t st" "t \<le> now" "pa_cognitionKey p = Some k0" "nfc env k0 = k" "k \<noteq> []"
    and "resolved env p" "may_follow p (getCurrent (pa_agentId p) k (cg_current st))"
    and "recorded (assertion_event env p k now) (cg_ledger st)"
  shows "\<exists>i st' d r. upsertAssertion env p now st = (Inr i, st') \<and>
    getCurrent (pa_agentId p) k (cg_current st) = Some r \<and> cc_id r = i \<and>
    cg_current st' = cg_current st \<and> lt_events (cg_ledger st') = lt_events (cg_ledger st) \<and>
    find (\<lambda>d. sd_sourceRef d = source_ref Assertion i \<and> sd_agent d = pa_agentId p) (st_docs (cg_search st')) = Some d \<and>
    sd_stance d = Some (pa_stance p) \<and> sd_basis d = pa_basis p \<and>
    sd_content d = ''['' @ pa_holderPointerKey p @ ''] '' @ pa_claim p"
proof -
  have "cog_inv env t st" using inv_reach [OF assms(1)] .
  from recorded_present [OF this assms(8)] obtain r
    where r: "getCurrent (pa_agentId p) k (cg_current st) = Some r" by auto
  have a: "append_event (assertion_event env p k now) now (cg_ledger st) =
      (None, (cg_ledger st)\<lparr>lt_next := lt_next (cg_ledger st) + 1\<rparr>)"
    using assms(8) by (simp add: append_event_def recorded_def)
  have "appendAndProject env (assertion_event env p k now) now st =
      (Inr (cc_id r), st\<lparr>cg_ledger := (cg_ledger st)\<lparr>lt_next := lt_next (cg_ledger st) + 1\<rparr>\<rparr>)"
    by (simp add: appendAndProject_def a r Let_def)
  then have "upsertAssertion env p now st = (Inr (cc_id r),
      syncCognitionSearchDoc (cc_id r) (pa_agentId p) Assertion (''['' @ pa_holderPointerKey p @ ''] '' @ pa_claim p)
        (Some (pa_stance p)) (pa_basis p) now
        (st\<lparr>cg_ledger := (cg_ledger st)\<lparr>lt_next := lt_next (cg_ledger st) + 1\<rparr>\<rparr>))"
    using upsertAssertion_keyed [OF assms(3-6), of st now] assms(7) by (simp add: write_cognition_def)
  with r upsertCognitionDoc_shows show ?thesis by (fastforce simp: syncCognitionSearchDoc_def)
qed

section \<open>The types of the projection\<close>

fun typed_call :: "cognition_call \<Rightarrow> bool" where
  "typed_call (C_assert p) = typed_assertion p"
| "typed_call _ = True"

definition row_typed :: "current_row \<Rightarrow> bool" where
  "row_typed r \<longleftrightarrow>
     cc_stance r \<in> insert None (Some ` set STANCES) \<and> cc_basis r \<in> insert None (Some ` set BASES) \<and>
     cc_preContested r \<in> insert None (Some ` set STANCES) \<and>
     (\<exists>m. cc_record r = JObj m) \<and>
     (cc_stance r = Some ''contested'' \<longrightarrow>
        cc_preContested r \<noteq> None \<and> cc_conflictSummary r \<noteq> None \<and> cc_conflictFactorRefs r \<noteq> None)"

definition event_typed :: "cog_event \<Rightarrow> bool" where
  "event_typed e \<longleftrightarrow> ev_op e = Op_upsert \<longrightarrow>
     (if ev_kind e = Assertion then
        (\<exists>p. ev_record e = Some (assertion_json p) \<and> typed_assertion p \<and>
             (pa_stance p = ''contested'' \<longrightarrow> pa_preContestedStance p \<noteq> None))
      else (\<exists>m. ev_record e = Some (JObj m)))"

lemma rejected_stance [simp]: "''rejected'' \<in> set STANCES"
  by (simp add: STANCES_def)

lemma typed_retract: "row_typed r \<Longrightarrow> row_typed (retract_row e r)"
  by (auto simp: row_typed_def retract_row_def)

lemma typed_assertion_merge: "row_typed new \<Longrightarrow> row_typed r \<Longrightarrow> row_typed (assertion_merge new r)"
  by (cases "cc_basis new"; cases "cc_preContested new"; cases "cc_conflictSummary new";
      cases "cc_conflictFactorRefs new"; simp add: row_typed_def assertion_merge_def)

lemma typed_event_row:
  assumes "event_typed e" "ev_op e = Op_upsert"
  shows "row_typed (event_row f e) \<and> (\<forall>r. row_typed r \<longrightarrow> row_typed (event_merge f e r))"
proof (cases "ev_kind e = Assertion")
  case True
  with assms obtain p where p: "ev_record e = Some (assertion_json p)" "typed_assertion p"
    "pa_stance p = ''contested'' \<longrightarrow> pa_preContestedStance p \<noteq> None" by (auto simp: event_typed_def)
  let ?row = "event_row f e"
  have obj: "\<exists>m. assertion_json p = JObj m" by (simp add: assertion_json_def)
  have row: "cc_stance ?row = Some (pa_stance p)" "cc_basis ?row = pa_basis p"
    "cc_preContested ?row = pa_preContestedStance p" "cc_record ?row = assertion_json p"
    "pa_stance p = ''contested'' \<longrightarrow> cc_conflictSummary ?row \<noteq> None \<and> cc_conflictFactorRefs ?row \<noteq> None"
    using True p by (simp_all add: event_row_def assertion_row_def Let_def)
  have "row_typed ?row" using row obj p(2,3) by (simp add: row_typed_def typed_assertion_def)
  moreover have "row_typed (event_merge f e r)" if "row_typed r" for r
    using that True typed_assertion_merge [of ?row] calculation by (simp add: event_merge_def)
  ultimately show ?thesis by blast
next
  case False
  with assms obtain m where "ev_record e = Some (JObj m)" by (auto simp: event_typed_def)
  then have "cc_record (event_row f e) = JObj m" "cc_stance (event_row f e) = None"
    "cc_basis (event_row f e) = None" "cc_preContested (event_row f e) = None"
    using False by (cases "ev_kind e"; simp add: event_row_def evaluation_row_def commitment_row_def
      plain_row_def safeParseJson_def Let_def)+
  with False show ?thesis by (auto simp: row_typed_def event_merge_def plain_merge_def)
qed

lemma typed_step:
  "event_typed e \<Longrightarrow> \<forall>r \<in> set_option ro. row_typed r \<Longrightarrow> \<forall>r \<in> set_option (step f e ro). row_typed r"
  using typed_event_row [of e f] typed_retract
  by (cases "ev_op e") (auto simp: step_def split: option.splits)

lemma typed_fold_step:
  "\<forall>e \<in> set es. event_typed e \<Longrightarrow> \<forall>r \<in> set_option ro. row_typed r \<Longrightarrow>
   \<forall>r \<in> set_option (fold (step f) es ro). row_typed r"
proof (induction es arbitrary: ro)
  case (Cons e es)
  then have e: "event_typed e" and es: "\<forall>e \<in> set es. event_typed e" by simp_all
  show ?case using Cons.IH [OF es typed_step [OF e Cons.prems(2)]] by simp
qed simp

definition ledger_typed :: "cog_state \<Rightarrow> bool" where
  "ledger_typed st \<longleftrightarrow> (\<forall>e \<in> set (lt_events (cg_ledger st)). event_typed e)"

lemma ledger_typed_search [simp]:
  "ledger_typed (st\<lparr>cg_search := s\<rparr>) = ledger_typed st" "ledger_typed (st\<lparr>cg_current := c\<rparr>) = ledger_typed st"
  by (simp_all add: ledger_typed_def)

lemma ledger_typed_append:
  assumes "ledger_typed st" "event_typed (event_of p 0)"
  shows "ledger_typed (snd (appendAndProject env p now st))"
proof -
  obtain i l' where a: "append_event p now (cg_ledger st) = (i, l')" by fastforce
  have "\<forall>e \<in> set (lt_events l'). e \<in> set (lt_events (cg_ledger st)) \<or>
      ev_op e = ap_op p \<and> ev_kind e = ap_kind p \<and> ev_record e = ap_recordJson p"
    using a by (auto simp: append_event_def split: if_splits)
  moreover have "event_typed e" if "ev_op e = ap_op p \<and> ev_kind e = ap_kind p \<and> ev_record e = ap_recordJson p" for e
    using assms(2) that by (simp add: event_typed_def split: if_splits)
  ultimately have "\<forall>e \<in> set (lt_events l'). event_typed e"
    using assms(1) unfolding ledger_typed_def by blast
  then show ?thesis by (simp add: appendAndProject_state [OF a] ledger_typed_def)
qed

lemma ledger_typed_write:
  "ledger_typed st \<Longrightarrow> event_typed (event_of (upsert_params a k kind rec sid now) 0) \<Longrightarrow>
   ledger_typed (snd (write_cognition env a k kind rec sid now content s b st))"
  using ledger_typed_append [of st "upsert_params a k kind rec sid now" env now]
  by (simp add: ledger_typed_def write_cognition_current)

lemma ledger_typed_run_call:
  assumes "ledger_typed st" "typed_call c"
  shows "ledger_typed (run_call env now c st)"
proof (cases c)
  case (C_assert p)
  have "event_typed (event_of (upsert_params (pa_agentId p) k Assertion (assertion_json p) sid now) 0)"
    if "pa_stance p = ''contested'' \<longrightarrow> present (pa_preContestedStance p)" for k sid
    using C_assert assms(2) that by (auto simp: event_typed_def)
  with C_assert assms(1) show ?thesis
    by (auto simp: upsertAssertion_def Let_def ledger_typed_write split: sum.split)
next
  case (C_evaluate p)
  with assms show ?thesis
    by (auto simp: upsertEvaluation_def Let_def evaluation_json_def event_typed_def intro!: ledger_typed_write)
next
  case (C_commit p)
  with assms show ?thesis
    by (auto simp: upsertCommitment_def Let_def commitment_json_def event_typed_def intro!: ledger_typed_write)
next
  case (C_retract a k kind sid)
  let ?p = "\<lparr>ap_agentId = a, ap_cognitionKey = nfc env k,
      ap_kind = (case kind of Some k \<Rightarrow> k | None \<Rightarrow> Assertion), ap_op = Op_retract, ap_recordJson = None,
      ap_settlementId = (case sid of Some s \<Rightarrow> s | None \<Rightarrow> ''__retract__''), ap_committedTime = now\<rparr>"
  have eq: "cg_ledger (snd (retractCognition env a k kind sid now st)) =
      cg_ledger (snd (appendAndProject env ?p now st))"
    by (auto simp: retractCognition_def Let_def updateCognitionSearchDocStance_def
        split: prod.split sum.split option.split cognition_kind.split)
  have "event_typed (event_of ?p 0)" by (simp add: event_typed_def)
  from ledger_typed_append [OF assms(1) this, of env now] C_retract show ?thesis
    unfolding ledger_typed_def by (simp add: eq)
next
  case (C_rebuild a)
  with assms show ?thesis by simp
qed

lemma cog_calls_reach:
  "cog_reach env t st \<Longrightarrow> sorted (t # map fst calls) \<Longrightarrow> \<exists>t'. cog_reach env t' (run_calls env calls st)"
proof (induction calls arbitrary: t st)
  case (Cons call calls)
  obtain now c where "call = (now, c)" by (cases call)
  with Cons.IH [of now "run_call env now c st"] Cons.prems cog_reach.call [of env t st now c]
  show ?case by (simp add: run_calls_def)
qed (auto simp: run_calls_def)

lemma ledger_typed_run_calls:
  "ledger_typed st \<Longrightarrow> list_all (\<lambda>(now, c). typed_call c) calls \<Longrightarrow> ledger_typed (run_calls env calls st)"
  by (induction calls arbitrary: st) (auto simp: run_calls_def ledger_typed_run_call)

text \<open>
  Whatever sequence of calls is made, at times that do not go back and with
  parameters of their declared types, the projection is well typed: the rows have distinct
  keys and numbers, stances, bases and pre-contested stances are among the literals of
  their types (or null), the record is an object, and a contested row has a pre-contested
  stance, a conflict summary and conflict factors.
\<close>

theorem projection_well_typed:
  assumes "sorted (map fst calls)" "list_all (\<lambda>(now, c). typed_call c) calls"
  shows "rows_ok (cg_current (run_calls env calls no_cognition)) \<and>
    (\<forall>r \<in> set (ct_rows (cg_current (run_calls env calls no_cognition))). row_typed r)"
proof -
  let ?st = "run_calls env calls no_cognition"
  have "sorted ((case calls of [] \<Rightarrow> 0 | c # _ \<Rightarrow> fst c) # map fst calls)"
    using assms(1) by (cases calls) auto
  from cog_calls_reach [OF cog_reach.start this] inv_reach obtain t where inv: "cog_inv env t ?st" by blast
  have typed: "ledger_typed ?st"
    by (rule ledger_typed_run_calls [OF _ assms(2)]) (simp add: ledger_typed_def no_cognition_def)
  have "row_typed r" if "r \<in> set (ct_rows (cg_current ?st))" for r
  proof -
    have "find (\<lambda>r'. row_key r' = row_key r) (ct_rows (cg_current ?st)) = Some r"
      using inv that by (intro find_key_Some) (simp_all add: cog_inv_def rows_ok_def)
    then have "kview (cc_agent r) (cc_key r) (cg_current ?st) = Some (r\<lparr>cc_id := 0\<rparr>)"
      by (simp add: kview_def getCurrent_def)
    then have "fold (step (ns env)) (filter (of_key (cc_agent r) (cc_key r)) (lt_events (cg_ledger ?st))) None
        = Some (r\<lparr>cc_id := 0\<rparr>)"
      using inv by (simp add: cog_inv_def projected_def)
    with typed_fold_step [of "filter (of_key (cc_agent r) (cc_key r)) (lt_events (cg_ledger ?st))" None "ns env"] typed
    have "row_typed (r\<lparr>cc_id := 0\<rparr>)" by (simp add: ledger_typed_def)
    then show ?thesis by (simp add: row_typed_def)
  qed
  with inv show ?thesis by (simp add: cog_inv_def)
qed

section \<open>Examples\<close>

definition sample_env :: cog_env where
  "sample_env = \<lparr>ns = (\<lambda>_. ''0''), nfc = (\<lambda>s. s), resolve = (\<lambda>_ _. Some 1)\<rparr>"

definition sample_claim :: "stance \<Rightarrow> string \<Rightarrow> assertion_params" where
  "sample_claim s sid =
     \<lparr>pa_agentId = ''m'', pa_cognitionKey = Some ''k'', pa_settlementId = sid, pa_opIndex = 0,
      pa_holderPointerKey = ''h'', pa_claim = s, pa_entityPointerKeys = [''e''], pa_stance = s,
      pa_basis = Some ''belief'', pa_preContestedStance = Some ''accepted'', pa_provenance = None\<rparr>"

definition sample_cog :: cog_state where
  "sample_cog = run_calls sample_env
     [(1, C_assert (sample_claim ''accepted'' ''s1'')), (2, C_assert (sample_claim ''contested'' ''s2''))] no_cognition"

definition sample_retracted :: cog_state where
  "sample_retracted = run_calls sample_env [(3, C_retract ''m'' ''k'' (Some Assertion) None)] sample_cog"

lemma sample_reach_2: "cog_reach sample_env 2 sample_cog" "cog_reach sample_env 3 sample_retracted"
proof -
  show *: "cog_reach sample_env 2 sample_cog"
    using cog_reach.call [OF cog_reach.call [OF cog_reach.start [of sample_env 0], of 1
        "C_assert (sample_claim ''accepted'' ''s1'')"], of 2 "C_assert (sample_claim ''contested'' ''s2'')"]
    by (simp add: sample_cog_def run_calls_def)
  show "cog_reach sample_env 3 sample_retracted"
    unfolding sample_retracted_def run_calls_def
    using cog_reach.call [OF *, of 3 "C_retract ''m'' ''k'' (Some Assertion) None"] by simp
qed

theorem rebuild_gives_projection_witness:
  "kview ''m'' ''k'' (rebuild (ns sample_env) ''m'' (cg_ledger sample_retracted) \<lparr>ct_rows = [], ct_next = 9\<rparr>) =
     kview ''m'' ''k'' (cg_current sample_retracted) \<and>
   terminated (kview ''m'' ''k'' (cg_current sample_retracted))"
proof -
  have "rows_ok \<lparr>ct_rows = [], ct_next = 9\<rparr>" by (simp add: rows_ok_def)
  moreover have "terminated (kview ''m'' ''k'' (cg_current sample_retracted))" by code_simp
  ultimately show ?thesis using rebuild_gives_projection [OF sample_reach_2(2)] by blast
qed

theorem terminal_stance_final_witness:
  "terminated (kview ''m'' ''k'' (cg_current (run_calls sample_env
     [(4, C_assert (sample_claim ''accepted'' ''s4'')), (5, C_rebuild ''m'')] sample_retracted)))"
proof -
  have "terminated (kview ''m'' ''k'' (cg_current sample_retracted))" by code_simp
  from terminal_stance_final [OF sample_reach_2(2) this] show ?thesis by (simp add: anonymous_def)
qed

theorem assertion_outcome_witness:
  "(case upsertAssertion sample_env (sample_claim ''confirmed'' ''s3'') 3 sample_cog of
      (Inl _, _) \<Rightarrow> False
    | (Inr i, st') \<Rightarrow> map_option cc_stance (getCurrent ''m'' ''k'' (cg_current st')) = Some (Some ''confirmed'')) \<and>
   fst (upsertAssertion sample_env (sample_claim ''hypothetical'' ''s3'') 3 sample_cog) =
     Inl (Maids_error (error COGNITION_ILLEGAL_STANCE_TRANSITION False))"
proof -
  let ?p = "sample_claim ''confirmed'' ''s3''"
  have r: "resolved sample_env ?p" by code_simp
  have n: "\<not> recorded (assertion_event sample_env ?p ''k'' 3) (cg_ledger sample_cog)" by code_simp
  have ok: "\<not> isl (fst (upsertAssertion sample_env ?p 3 sample_cog))" by code_simp
  have "fst (upsertAssertion sample_env (sample_claim ''hypothetical'' ''s3'') 3 sample_cog) =
     Inl (Maids_error (error COGNITION_ILLEGAL_STANCE_TRANSITION False))" by code_simp
  with ok assertion_outcome [OF sample_reach_2(1) _ _ _ _ r n] show ?thesis
    by (cases "upsertAssertion sample_env ?p 3 sample_cog"; cases "fst (upsertAssertion sample_env ?p 3 sample_cog)")
       (auto simp: sample_claim_def sample_env_def asserted_def)
qed

theorem second_write_only_in_search_witness:
  "\<exists>i st' d. upsertAssertion sample_env (sample_claim ''accepted'' ''s2'') 3 sample_cog = (Inr i, st') \<and>
    cg_current st' = cg_current sample_cog \<and> d \<in> set (st_docs (cg_search st')) \<and>
    sd_stance d = Some ''accepted'' \<and>
    map_option cc_stance (getCurrent ''m'' ''k'' (cg_current st')) = Some (Some ''contested'')"
proof -
  let ?p = "sample_claim ''accepted'' ''s2''"
  have r: "resolved sample_env ?p" by code_simp
  have n: "recorded (assertion_event sample_env ?p ''k'' 3) (cg_ledger sample_cog)" by code_simp
  have m: "may_follow ?p (getCurrent (pa_agentId ?p) ''k'' (cg_current sample_cog))"
  proof -
    have "check_revision (getExistingAssertionState (pa_agentId ?p) ''k'' (cg_current sample_cog))
        (pa_stance ?p) (pa_basis ?p) = Inr ()" by code_simp
    then show ?thesis by (subst (asm) check_revision_iff) (simp_all add: sample_claim_def)
  qed
  have c: "map_option cc_stance (getCurrent ''m'' ''k'' (cg_current sample_cog)) = Some (Some ''contested'')"
    by code_simp
  have "pa_cognitionKey ?p = Some ''k''" "nfc sample_env ''k'' = ''k''" "''k'' \<noteq> []" "pa_stance ?p = ''accepted''"
    by (simp_all add: sample_claim_def sample_env_def)
  with second_write_only_in_search [OF sample_reach_2(1) _ _ _ _ r m n] c show ?thesis
    by (fastforce dest: find_SomeD)
qed

theorem projection_well_typed_witness:
  "rows_ok (cg_current sample_retracted) \<and> list_all row_typed (ct_rows (cg_current sample_retracted)) \<and>
   ct_rows (cg_current sample_retracted) \<noteq> []"
proof -
  let ?calls = "[(1, C_assert (sample_claim ''accepted'' ''s1'')), (2, C_assert (sample_claim ''contested'' ''s2'')),
      (3, C_retract ''m'' ''k'' (Some Assertion) None)]"
  have "list_all (\<lambda>(now, c). typed_call c) ?calls" by code_simp
  moreover have "run_calls sample_env ?calls no_cognition = sample_retracted"
    by (simp add: sample_retracted_def sample_cog_def run_calls_def)
  moreover have "ct_rows (cg_current sample_retracted) \<noteq> []" by code_simp
  ultimately show ?thesis using projection_well_typed [of ?calls sample_env] by (simp add: list_all_iff)
qed

end
