(* ===== verification/Shared_Blocks.thy ===== *)
theory Shared_Blocks
  imports Js_Values Errors "HOL-Library.Char_ord" "HOL-Library.List_Lexorder"
begin

text \<open>
  Memory blocks shared by several agents: the tables and queries of
  \<^verbatim>\<open>src/memory/shared-blocks/shared-block-repo.ts\<close>, the permissions of
  \<^verbatim>\<open>shared-block-permissions.ts\<close>, the patches of \<^verbatim>\<open>shared-block-patch-service.ts\<close>, the
  attachments of \<^verbatim>\<open>shared-block-attach-service.ts\<close> (over
  \<^verbatim>\<open>src/storage/domain-repos/pg/shared-block-repo.ts\<close>) and the audit views of
  \<^verbatim>\<open>shared-block-audit.ts\<close>.

  Numbers of rows come from sequences; \<open>shared_block_admins\<close> is filled outside the program.
  A snapshot is the object built from the sections, given by its entries; as in the
  code, assigning the property \<open>__proto__\<close> a string leaves no entry. \<open>Date.now()\<close> is an
  argument, read once per call.
\<close>

section \<open>Tables\<close>

record block_row =
  bl_id :: int
  bl_title :: string
  bl_createdBy :: string
  bl_retrievalOnly :: bool
  bl_createdAt :: int
  bl_updatedAt :: int

record section_row =
  sc_id :: int
  sc_blockId :: int
  sc_path :: string
  sc_title :: string
  sc_content :: string
  sc_createdAt :: int
  sc_updatedAt :: int

datatype patch_op = Set_section | Delete_section | Move_section | Set_title

record patch_row =
  pt_blockId :: int
  pt_seq :: int
  pt_op :: patch_op
  pt_sectionPath :: "string option"
  pt_targetPath :: "string option"
  pt_content :: "string option"
  pt_beforeValue :: "string option"
  pt_afterValue :: "string option"
  pt_sourceRef :: string
  pt_appliedBy :: string
  pt_appliedAt :: int

record snapshot_row =
  sn_blockId :: int
  sn_seq :: int
  sn_content :: "(string \<times> string) list"
  sn_createdAt :: int

record attachment_row =
  at_id :: int
  at_blockId :: int
  at_targetId :: string
  at_attachedBy :: string
  at_attachedAt :: int

record block_db =
  blocks :: "block_row list"
  sections :: "section_row list"
  patches :: "patch_row list"
  snapshots :: "snapshot_row list"
  attachments :: "attachment_row list"
  admins :: "(int \<times> string) list"
  next_block :: int
  next_section :: int
  next_attachment :: int

section \<open>The repository\<close>

definition createBlock :: "string \<Rightarrow> string \<Rightarrow> bool \<Rightarrow> int \<Rightarrow> block_db \<Rightarrow> block_row \<times> block_db" where
  "createBlock title agentId retrievalOnly now db =
     (let b = \<lparr>bl_id = next_block db, bl_title = title, bl_createdBy = agentId,
               bl_retrievalOnly = retrievalOnly, bl_createdAt = now, bl_updatedAt = now\<rparr>
      in (b, db\<lparr>blocks := blocks db @ [b], next_block := next_block db + 1,
                snapshots := snapshots db @
                  [\<lparr>sn_blockId = bl_id b, sn_seq = 0, sn_content = [], sn_createdAt = now\<rparr>]\<rparr>))"

definition getBlock :: "int \<Rightarrow> block_db \<Rightarrow> block_row option" where
  "getBlock i db = find (\<lambda>b. bl_id b = i) (blocks db)"

abbreviation section_at :: "int \<Rightarrow> string \<Rightarrow> section_row \<Rightarrow> bool" where
  "section_at i p s \<equiv> sc_blockId s = i \<and> sc_path s = p"

definition getSections :: "int \<Rightarrow> block_db \<Rightarrow> section_row list" where
  "getSections i db = sort_by (\<lambda>a b. sc_path a < sc_path b) (filter (\<lambda>s. sc_blockId s = i) (sections db))"

definition getSection :: "int \<Rightarrow> string \<Rightarrow> block_db \<Rightarrow> section_row option" where
  "getSection i p db = find (section_at i p) (sections db)"

definition touchBlock :: "int \<Rightarrow> int \<Rightarrow> block_db \<Rightarrow> block_db" where
  "touchBlock i now db = db\<lparr>blocks := update_where (\<lambda>b. bl_id b = i) (\<lambda>b. b\<lparr>bl_updatedAt := now\<rparr>) (blocks db)\<rparr>"

definition upsertSection :: "int \<Rightarrow> string \<Rightarrow> string \<Rightarrow> string \<Rightarrow> int \<Rightarrow> block_db \<Rightarrow> block_db" where
  "upsertSection i p content title now db =
     touchBlock i now
       (case getSection i p db of
          Some existing \<Rightarrow>
            db\<lparr>sections := update_where (\<lambda>s. sc_id s = sc_id existing)
               (\<lambda>s. s\<lparr>sc_content := content, sc_title := title, sc_updatedAt := now\<rparr>) (sections db)\<rparr>
        | None \<Rightarrow>
            db\<lparr>sections := sections db @
                 [\<lparr>sc_id = next_section db, sc_blockId = i, sc_path = p, sc_title = title, sc_content = content,
                   sc_createdAt = now, sc_updatedAt = now\<rparr>],
               next_section := next_section db + 1\<rparr>)"

definition deleteSection :: "int \<Rightarrow> string \<Rightarrow> int \<Rightarrow> block_db \<Rightarrow> bool \<times> block_db" where
  "deleteSection i p now db =
     (let db' = db\<lparr>sections := delete_where (section_at i p) (sections db)\<rparr>
      in if count_where (section_at i p) (sections db) > 0 then (True, touchBlock i now db') else (False, db'))"

definition renameSection :: "int \<Rightarrow> string \<Rightarrow> string \<Rightarrow> int \<Rightarrow> block_db \<Rightarrow> bool \<times> block_db" where
  "renameSection i fromPath toPath now db =
     (let db' = db\<lparr>sections := update_where (section_at i fromPath)
                    (\<lambda>s. s\<lparr>sc_path := toPath, sc_updatedAt := now\<rparr>) (sections db)\<rparr>
      in if count_where (section_at i fromPath) (sections db) > 0 then (True, touchBlock i now db')
         else (False, db'))"

definition setTitle :: "int \<Rightarrow> string \<Rightarrow> int \<Rightarrow> block_db \<Rightarrow> block_db" where
  "setTitle i title now db =
     db\<lparr>blocks := update_where (\<lambda>b. bl_id b = i) (\<lambda>b. b\<lparr>bl_title := title, bl_updatedAt := now\<rparr>) (blocks db)\<rparr>"

definition sectionExists :: "int \<Rightarrow> string \<Rightarrow> block_db \<Rightarrow> bool" where
  "sectionExists i p db = list_ex (section_at i p) (sections db)"

definition buildSnapshotJson :: "int \<Rightarrow> block_db \<Rightarrow> (string \<times> string) list" where
  "buildSnapshotJson i db =
     fold (\<lambda>s. if sc_path s = ''__proto__'' then (\<lambda>m. m) else AList.update (sc_path s) (sc_content s))
       (getSections i db) []"

definition writeSnapshot :: "int \<Rightarrow> int \<Rightarrow> int \<Rightarrow> block_db \<Rightarrow> block_db" where
  "writeSnapshot i s now db =
     db\<lparr>snapshots := snapshots db @
        [\<lparr>sn_blockId = i, sn_seq = s, sn_content = buildSnapshotJson i db, sn_createdAt = now\<rparr>]\<rparr>"

section \<open>Permissions\<close>

datatype shared_block_role = Owner | Admin | Member | No_role

definition isOwner :: "int \<Rightarrow> string \<Rightarrow> block_db \<Rightarrow> bool" where
  "isOwner i a db = list_ex (\<lambda>b. bl_id b = i \<and> bl_createdBy b = a) (blocks db)"

definition isAdmin :: "int \<Rightarrow> string \<Rightarrow> block_db \<Rightarrow> bool" where
  "isAdmin i a db = (if isOwner i a db then True else (i, a) \<in> set (admins db))"

definition isMember :: "int \<Rightarrow> string \<Rightarrow> block_db \<Rightarrow> bool" where
  "isMember i a db = list_ex (\<lambda>r. at_blockId r = i \<and> at_targetId r = a) (attachments db)"

definition canEdit :: "int \<Rightarrow> string \<Rightarrow> block_db \<Rightarrow> bool" where
  "canEdit i a db = isAdmin i a db"

definition canRead :: "int \<Rightarrow> string \<Rightarrow> block_db \<Rightarrow> bool" where
  "canRead i a db = (if isAdmin i a db then True else isMember i a db)"

definition canGrantAdmin :: "int \<Rightarrow> string \<Rightarrow> block_db \<Rightarrow> bool" where
  "canGrantAdmin i a db = isOwner i a db"

definition getRole :: "int \<Rightarrow> string \<Rightarrow> block_db \<Rightarrow> shared_block_role" where
  "getRole i a db =
     (if isOwner i a db then Owner
      else if (i, a) \<in> set (admins db) then Admin
      else if isMember i a db then Member else No_role)"

definition isRetrievalOnly :: "int \<Rightarrow> block_db \<Rightarrow> bool" where
  "isRetrievalOnly i db = (case getBlock i db of None \<Rightarrow> False | Some b \<Rightarrow> bl_retrievalOnly b)"

section \<open>Attachments\<close>

definition attachBlock :: "int \<Rightarrow> string \<Rightarrow> string \<Rightarrow> int \<Rightarrow> block_db \<Rightarrow>
    (thrown, attachment_row) result \<times> block_db" where
  "attachBlock i targetId by now db =
     (case getBlock i db of
        None \<Rightarrow> (Inl Plain_error, db)
      | Some _ \<Rightarrow>
          if \<not> isAdmin i by db then (Inl Plain_error, db)
          else
            (case find (\<lambda>r. at_blockId r = i \<and> at_targetId r = targetId) (attachments db) of
               Some r \<Rightarrow> (Inr r, db\<lparr>next_attachment := next_attachment db + 1\<rparr>)
             | None \<Rightarrow>
                 (let r = \<lparr>at_id = next_attachment db, at_blockId = i, at_targetId = targetId,
                           at_attachedBy = by, at_attachedAt = now\<rparr>
                  in (Inr r, db\<lparr>attachments := attachments db @ [r], next_attachment := next_attachment db + 1\<rparr>))))"

definition detachBlock :: "int \<Rightarrow> string \<Rightarrow> string \<Rightarrow> block_db \<Rightarrow> (thrown, bool) result \<times> block_db" where
  "detachBlock i targetId by db =
     (let p = (\<lambda>r. at_blockId r = i \<and> at_targetId r = targetId)
      in if \<not> isAdmin i by db then (Inl Plain_error, db)
         else (Inr (count_where p (attachments db) > 0), db\<lparr>attachments := delete_where p (attachments db)\<rparr>))"

definition getAttachments :: "string \<Rightarrow> block_db \<Rightarrow> attachment_row list" where
  "getAttachments targetId db = filter (\<lambda>r. at_targetId r = targetId) (attachments db)"

section \<open>Patches\<close>

definition AUTO_SNAPSHOT_INTERVAL :: int where
  "AUTO_SNAPSHOT_INTERVAL = 25"

record patch_params =
  pp_sectionPath :: "string option"
  pp_targetPath :: "string option"
  pp_content :: "string option"
  pp_title :: "string option"

record patch_result =
  pr_patchSeq :: int
  pr_snapshotTaken :: bool

text \<open>\<open>/^[a-z0-9_-]+(?:\/[a-z0-9_-]+)*$/\<close>\<close>

definition path_char :: "char \<Rightarrow> bool" where
  "path_char c = (let n = of_char c :: nat in 97 \<le> n \<and> n \<le> 122 \<or> 48 \<le> n \<and> n \<le> 57 \<or> n = 95 \<or> n = 45)"

definition validateSectionPath :: "string \<Rightarrow> bool" where
  "validateSectionPath p = list_all (\<lambda>s. s \<noteq> [] \<and> list_all path_char s) (split_on (CHR ''/'') p)"

abbreviation truthy_text :: "string option \<Rightarrow> bool" where
  "truthy_text s \<equiv> s \<noteq> None \<and> s \<noteq> Some []"

definition applyOp :: "int \<Rightarrow> patch_op \<Rightarrow> patch_params \<Rightarrow> int \<Rightarrow> block_db \<Rightarrow> (thrown, block_db) result" where
  "applyOp i op p now db =
     (case op of
        Set_section \<Rightarrow>
          if \<not> truthy_text (pp_sectionPath p) then Inl Plain_error
          else if \<not> validateSectionPath (the (pp_sectionPath p)) then Inl Plain_error
          else Inr (upsertSection i (the (pp_sectionPath p))
                 (case pp_content p of Some c \<Rightarrow> c | None \<Rightarrow> []) [] now db)
      | Delete_section \<Rightarrow>
          if \<not> truthy_text (pp_sectionPath p) then Inl Plain_error
          else Inr (snd (deleteSection i (the (pp_sectionPath p)) now db))
      | Move_section \<Rightarrow>
          if \<not> truthy_text (pp_sectionPath p) then Inl Plain_error
          else if \<not> truthy_text (pp_targetPath p) then Inl Plain_error
          else if \<not> validateSectionPath (the (pp_sectionPath p)) then Inl Plain_error
          else if \<not> validateSectionPath (the (pp_targetPath p)) then Inl Plain_error
          else if sectionExists i (the (pp_targetPath p)) db then Inl Plain_error
          else Inr (snd (renameSection i (the (pp_sectionPath p)) (the (pp_targetPath p)) now db))
      | Set_title \<Rightarrow>
          (case pp_title p of None \<Rightarrow> Inl Plain_error | Some t \<Rightarrow> Inr (setTitle i t now db)))"

definition getNextPatchSeq :: "int \<Rightarrow> block_db \<Rightarrow> int" where
  "getNextPatchSeq i db = foldr max (map pt_seq (filter (\<lambda>r. pt_blockId r = i) (patches db))) 0 + 1"

definition before_value :: "int \<Rightarrow> patch_op \<Rightarrow> patch_params \<Rightarrow> block_db \<Rightarrow> string option" where
  "before_value i op p db =
     (case op of
        Move_section \<Rightarrow> if truthy_text (pp_sectionPath p) then pp_sectionPath p else None
      | Set_title \<Rightarrow> map_option bl_title (getBlock i db)
      | _ \<Rightarrow> if truthy_text (pp_sectionPath p)
             then map_option sc_content (getSection i (the (pp_sectionPath p)) db) else None)"

definition after_value :: "patch_op \<Rightarrow> patch_params \<Rightarrow> string option" where
  "after_value op p =
     (case op of
        Set_section \<Rightarrow> Some (case pp_content p of Some c \<Rightarrow> c | None \<Rightarrow> [])
      | Delete_section \<Rightarrow> None
      | Move_section \<Rightarrow> pp_targetPath p
      | Set_title \<Rightarrow> pp_title p)"

definition applyPatch :: "int \<Rightarrow> patch_op \<Rightarrow> patch_params \<Rightarrow> string \<Rightarrow> string \<Rightarrow> int \<Rightarrow> block_db \<Rightarrow>
    (thrown, patch_result) result \<times> block_db" where
  "applyPatch i op p agent sourceRef now db =
     (if \<not> canEdit i agent db then (Inl Plain_error, db)
      else
        (case applyOp i op p now db of
           Inl e \<Rightarrow> (Inl e, db)
         | Inr db1 \<Rightarrow>
             (let s = getNextPatchSeq i db1;
                  row = \<lparr>pt_blockId = i, pt_seq = s, pt_op = op, pt_sectionPath = pp_sectionPath p,
                         pt_targetPath = pp_targetPath p,
                         pt_content = (if op = Set_title then pp_title p else pp_content p),
                         pt_beforeValue = before_value i op p db, pt_afterValue = after_value op p,
                         pt_sourceRef = sourceRef, pt_appliedBy = agent, pt_appliedAt = now\<rparr>
              in if list_ex (\<lambda>r. pt_blockId r = i \<and> pt_seq r = s) (patches db1) then (Inl Plain_error, db)
                 else
                   (let db2 = db1\<lparr>patches := patches db1 @ [row]\<rparr>;
                        taken = (s mod AUTO_SNAPSHOT_INTERVAL = 0)
                    in (Inr \<lparr>pr_patchSeq = s, pr_snapshotTaken = taken\<rparr>,
                        if taken then writeSnapshot i s now db2 else db2)))))"

section \<open>Audit\<close>

definition listBlockPatches :: "int \<Rightarrow> nat option \<Rightarrow> int option \<Rightarrow> block_db \<Rightarrow> patch_row list" where
  "listBlockPatches i limit sinceSeq db =
     take (case limit of Some n \<Rightarrow> n | None \<Rightarrow> 1000)
       (sort_by (\<lambda>a b. pt_seq a < pt_seq b)
         (filter (\<lambda>r. pt_blockId r = i \<and> pt_seq r > (case sinceSeq of Some s \<Rightarrow> s | None \<Rightarrow> 0)) (patches db)))"

definition listBlockSnapshots :: "int \<Rightarrow> nat option \<Rightarrow> block_db \<Rightarrow> (int \<times> int) list" where
  "listBlockSnapshots i limit db =
     map (\<lambda>r. (sn_seq r, sn_createdAt r))
       (take (case limit of Some n \<Rightarrow> n | None \<Rightarrow> 1000)
         (sort_by (\<lambda>a b. sn_seq a < sn_seq b) (filter (\<lambda>r. sn_blockId r = i) (snapshots db))))"

definition getBlockSnapshot :: "int \<Rightarrow> int \<Rightarrow> block_db \<Rightarrow> snapshot_row option" where
  "getBlockSnapshot i s db = find (\<lambda>r. sn_blockId r = i \<and> sn_seq r = s) (snapshots db)"

record audit_view =
  av_block :: block_row
  av_totalPatches :: nat
  av_latestPatchSeq :: "int option"
  av_totalSnapshots :: nat
  av_latestSnapshotSeq :: "int option"
  av_recentPatches :: "patch_row list"

definition max_seq :: "int list \<Rightarrow> int option" where
  "max_seq xs = (if xs = [] then None else Some (foldr max xs (hd xs)))"

definition getBlockAuditView :: "int \<Rightarrow> block_db \<Rightarrow> (thrown, audit_view) result" where
  "getBlockAuditView i db =
     (let ps = filter (\<lambda>r. pt_blockId r = i) (patches db);
          ss = filter (\<lambda>r. sn_blockId r = i) (snapshots db)
      in case getBlock i db of
           None \<Rightarrow> Inl Plain_error
         | Some b \<Rightarrow>
             Inr \<lparr>av_block = b, av_totalPatches = length ps, av_latestPatchSeq = max_seq (map pt_seq ps),
                  av_totalSnapshots = length ss, av_latestSnapshotSeq = max_seq (map sn_seq ss),
                  av_recentPatches = rev (take 5 (sort_by (\<lambda>a b. pt_seq b < pt_seq a) ps))\<rparr>)"

section \<open>Replaying the log\<close>

text \<open>The sections of a block as a map, and what a log entry says about them.\<close>

definition section_map :: "int \<Rightarrow> block_db \<Rightarrow> (string \<rightharpoonup> string)" where
  "section_map i db = (\<lambda>p. map_option sc_content (getSection i p db))"

definition replay_entry :: "patch_row \<Rightarrow> (string \<rightharpoonup> string) \<Rightarrow> (string \<rightharpoonup> string)" where
  "replay_entry r m =
     (case pt_op r of
        Set_section \<Rightarrow> m(the (pt_sectionPath r) := pt_afterValue r)
      | Delete_section \<Rightarrow> m(the (pt_sectionPath r) := None)
      | Move_section \<Rightarrow>
          (case m (the (pt_sectionPath r)) of
             None \<Rightarrow> m
           | Some v \<Rightarrow> (m(the (pt_sectionPath r) := None))(the (pt_afterValue r) \<mapsto> v))
      | Set_title \<Rightarrow> m)"

definition replay_title :: "patch_row \<Rightarrow> string option \<Rightarrow> string option" where
  "replay_title r t = (if pt_op r = Set_title then pt_afterValue r else t)"

definition block_log :: "int \<Rightarrow> block_db \<Rightarrow> patch_row list" where
  "block_log i db = filter (\<lambda>r. pt_blockId r = i) (patches db)"

abbreviation section_key :: "section_row \<Rightarrow> int \<times> string" where
  "section_key s \<equiv> (sc_blockId s, sc_path s)"

definition sections_ok :: "block_db \<Rightarrow> bool" where
  "sections_ok db \<longleftrightarrow>
     distinct (map section_key (sections db)) \<and> distinct (map sc_id (sections db)) \<and>
     (\<forall>s \<in> set (sections db). sc_id s < next_section db)"

lemma section_map_touch [simp]: "section_map j (touchBlock i now db) = section_map j db"
  by (simp add: section_map_def getSection_def touchBlock_def)

lemma touch_sel [simp]:
  "sections (touchBlock i now db) = sections db" "patches (touchBlock i now db) = patches db"
  "snapshots (touchBlock i now db) = snapshots db" "next_section (touchBlock i now db) = next_section db"
  "next_block (touchBlock i now db) = next_block db" "admins (touchBlock i now db) = admins db"
  "map bl_id (blocks (touchBlock i now db)) = map bl_id (blocks db)"
  "getBlock j (touchBlock i now db) =
     map_option (\<lambda>b. if bl_id b = i then b\<lparr>bl_updatedAt := now\<rparr> else b) (getBlock j db)"
  by (simp_all add: touchBlock_def getBlock_def find_update_where_invariant map_update_where)

lemma upsertSection_update:
  assumes "sections_ok db" "getSection i p db = Some s"
  shows "sections (upsertSection i p c t now db) =
    update_where (section_at i p) (\<lambda>s. s\<lparr>sc_content := c, sc_title := t, sc_updatedAt := now\<rparr>) (sections db)"
proof -
  have s: "s \<in> set (sections db)" "section_at i p s" using assms(2) by (auto simp: getSection_def dest: find_SomeD)
  have "update_where (\<lambda>x. sc_id x = sc_id s) f (sections db) =
      update_where (\<lambda>x. section_key x = section_key s) f (sections db)" for f
    using assms(1) s(1) by (intro update_where_other_key) (simp_all add: sections_ok_def)
  with s(2) assms(2) show ?thesis by (simp add: upsertSection_def)
qed

lemma sections_ok_upsert:
  assumes "sections_ok db" shows "sections_ok (upsertSection i p c t now db)"
proof (cases "getSection i p db")
  case None
  then have "(i, p) \<notin> section_key ` set (sections db)" by (auto simp: getSection_def find_None_iff)
  with None assms show ?thesis
    by (fastforce simp: sections_ok_def upsertSection_def)
next
  case (Some s)
  let ?f = "\<lambda>s. s\<lparr>sc_content := c, sc_title := t, sc_updatedAt := now\<rparr>"
  have "map section_key (update_where q ?f ss) = map section_key ss" "map sc_id (update_where q ?f ss) = map sc_id ss" for q ss
    by (intro map_update_where; simp)+
  moreover have "next_section (upsertSection i p c t now db) = next_section db"
    using Some by (simp add: upsertSection_def)
  ultimately show ?thesis
    using assms by (auto simp: sections_ok_def upsertSection_update [OF assms Some] set_update_where)
qed

lemma section_map_upsert:
  assumes "sections_ok db"
  shows "section_map j (upsertSection i p c t now db) = (if j = i then (section_map i db)(p \<mapsto> c) else section_map j db)"
proof (cases "getSection i p db")
  case None
  then show ?thesis
    by (auto simp: section_map_def getSection_def upsertSection_def find_append fun_eq_iff split: option.split)
next
  case (Some s)
  show ?thesis
  proof
    fix q
    have "getSection j q (upsertSection i p c t now db) =
        map_option (\<lambda>s. if section_at i p s then s\<lparr>sc_content := c, sc_title := t, sc_updatedAt := now\<rparr> else s)
          (getSection j q db)"
      unfolding getSection_def upsertSection_update [OF assms Some] by (rule find_update_where_invariant) simp
    moreover have "section_at j q x" if "getSection j q db = Some x" for x
      using that by (simp add: getSection_def find_Some_iff) blast
    ultimately show "section_map j (upsertSection i p c t now db) q =
        (if j = i then (section_map i db)(p \<mapsto> c) else section_map j db) q"
      using Some by (cases "getSection j q db") (auto simp: section_map_def)
  qed
qed

lemma delete_sections: "sections (snd (deleteSection i p now db)) = delete_where (section_at i p) (sections db)"
  by (simp add: deleteSection_def Let_def)

lemma sections_ok_delete: "sections_ok db \<Longrightarrow> sections_ok (snd (deleteSection i p now db))"
  by (auto simp: sections_ok_def deleteSection_def Let_def delete_where_def distinct_map_filter)

lemma section_map_delete:
  "section_map j (snd (deleteSection i p now db)) = (if j = i then (section_map i db)(p := None) else section_map j db)"
proof
  fix q
  have "find (section_at j q) (delete_where (section_at i p) ss) =
      (if j = i \<and> q = p then None else find (section_at j q) ss)" for ss
    by (induction ss) (auto simp: delete_where_def)
  then show "section_map j (snd (deleteSection i p now db)) q =
      (if j = i then (section_map i db)(p := None) else section_map j db) q"
    by (simp add: section_map_def getSection_def delete_sections)
qed

lemma rename_sections:
  "sections (snd (renameSection i p q now db)) =
     update_where (section_at i p) (\<lambda>s. s\<lparr>sc_path := q, sc_updatedAt := now\<rparr>) (sections db)"
  by (simp add: renameSection_def Let_def)

lemma find_renamed:
  assumes "\<not> list_ex (section_at i q) ss"
  shows "find (section_at j r) (update_where (section_at i p) (\<lambda>s. s\<lparr>sc_path := q, sc_updatedAt := now\<rparr>) ss) =
    (if j = i \<and> r = q then map_option (\<lambda>s. s\<lparr>sc_path := q, sc_updatedAt := now\<rparr>) (find (section_at i p) ss)
     else if j = i \<and> r = p then None else find (section_at j r) ss)"
  using assms by (induction ss) (auto simp: table_simps)

lemma section_map_rename:
  assumes "\<not> sectionExists i q db"
  shows "section_map j (snd (renameSection i p q now db)) =
    (if j = i then
       (case section_map i db p of None \<Rightarrow> section_map i db | Some v \<Rightarrow> ((section_map i db)(p := None))(q \<mapsto> v))
     else section_map j db)"
proof
  fix r
  have "find (section_at i q) (sections db) = None"
    using assms by (auto simp: sectionExists_def find_None_iff list_ex_iff)
  then show "section_map j (snd (renameSection i p q now db)) r =
    (if j = i then
       (case section_map i db p of None \<Rightarrow> section_map i db | Some v \<Rightarrow> ((section_map i db)(p := None))(q \<mapsto> v))
     else section_map j db) r"
    using assms
    by (auto simp: section_map_def getSection_def rename_sections sectionExists_def find_renamed
        split: option.split)
qed

lemma sections_ok_rename:
  assumes "sections_ok db" "\<not> sectionExists i q db"
  shows "sections_ok (snd (renameSection i p q now db))"
proof -
  let ?f = "\<lambda>s. s\<lparr>sc_path := q, sc_updatedAt := now\<rparr>"
  have "distinct (map section_key (update_where (section_at i p) ?f ss))"
    if "distinct (map section_key ss)" "\<not> list_ex (section_at i q) ss" for ss
    using that
  proof (induction ss)
    case (Cons s ss)
    have "section_key x \<noteq> section_key (if section_at i p s then ?f s else s)"
      if x: "x \<in> set (update_where (section_at i p) ?f ss)" for x
      using x
    proof (cases rule: in_update_whereE)
      case (1 y)
      with Cons.prems show ?thesis by (auto simp: image_iff)
    next
      case 2
      with Cons.prems show ?thesis by (auto simp: image_iff list_ex_iff)
    qed
    with Cons show ?case by (fastforce simp: table_simps)
  qed (simp add: table_simps)
  moreover have "map sc_id (update_where (section_at i p) ?f ss) = map sc_id ss" for ss
    by (intro map_update_where) simp
  ultimately show ?thesis
    using assms by (auto simp: sections_ok_def renameSection_def Let_def sectionExists_def set_update_where)
qed

section \<open>Snapshots and numbering\<close>

lemma map_of_snapshot_fold:
  "distinct (map sc_path ss) \<Longrightarrow>
   map_of (fold (\<lambda>s. if sc_path s = ''__proto__'' then (\<lambda>m. m) else AList.update (sc_path s) (sc_content s)) ss m) k =
     (case find (\<lambda>s. sc_path s = k) ss of
        None \<Rightarrow> map_of m k | Some s \<Rightarrow> if k = ''__proto__'' then map_of m k else Some (sc_content s))"
proof (induction ss arbitrary: m)
  case (Cons s ss)
  have none: "find (\<lambda>x. sc_path x = sc_path s) ss = None" using Cons.prems by (simp add: find_key_None_iff)
  show ?case
    using Cons by (cases "sc_path s = k") (auto simp: none update_conv' split: option.split)
qed simp

lemma snapshot_content:
  assumes "sections_ok db"
  shows "map_of (buildSnapshotJson i db) = (section_map i db)(''__proto__'' := None)"
proof
  fix k
  let ?ss = "filter (\<lambda>s. sc_blockId s = i) (sections db)"
  have "distinct (map section_key ?ss)" using assms by (simp add: sections_ok_def distinct_map_filter)
  then have d: "distinct (map sc_path ?ss)" by (auto simp: distinct_map inj_on_def)
  then have d': "distinct (map sc_path (getSections i db))"
    by (auto simp: getSections_def distinct_map)
  have set: "set (getSections i db) = set ?ss" by (simp add: getSections_def)
  have find: "find (\<lambda>s. sc_path s = k) (getSections i db) = find (\<lambda>s. sc_path s = k) ?ss"
  proof (cases "find (\<lambda>s. sc_path s = k) ?ss")
    case None
    then have "find (\<lambda>s. sc_path s = k) (getSections i db) = None"
      unfolding find_key_None_iff set .
    with None show ?thesis by simp
  next
    case (Some s)
    from find_SomeD [OF this] have "s \<in> set ?ss" and k: "sc_path s = k" by blast+
    then have "s \<in> set (getSections i db)" unfolding set by blast
    from find_key_Some [OF d' this] show ?thesis unfolding k Some .
  qed
  have "find (\<lambda>s. sc_path s = k) (filter (\<lambda>s. sc_blockId s = i) ss) = find (section_at i k) ss" for ss
    by (induction ss) auto
  then show "map_of (buildSnapshotJson i db) k = ((section_map i db)(''__proto__'' := None)) k"
    unfolding buildSnapshotJson_def map_of_snapshot_fold [OF d'] find
    by (auto simp: section_map_def getSection_def split: option.split)
qed

lemma foldr_max: "foldr max xs 0 = Max (insert 0 (set xs))" for xs :: "int list"
proof (induction xs)
  case (Cons x xs)
  have "Max (insert x (insert 0 (set xs))) = max x (Max (insert 0 (set xs)))" by (rule Max_insert) simp_all
  with Cons show ?case by (simp add: insert_commute)
qed simp

lemma next_seq:
  assumes "map pt_seq (block_log i db) = map int [1..<Suc n]"
  shows "getNextPatchSeq i db = int n + 1"
proof -
  have "Max (insert 0 (int ` {1..<Suc n})) = int n"
    by (rule Max_eqI) (auto simp: image_iff)
  then show ?thesis
    using assms by (simp add: getNextPatchSeq_def foldr_max block_log_def del: upt_Suc)
qed

definition block_ids :: "block_db \<Rightarrow> int set" where
  "block_ids db = set (map bl_id (blocks db))"

definition block_snapshots :: "int \<Rightarrow> block_db \<Rightarrow> snapshot_row list" where
  "block_snapshots i db = filter (\<lambda>r. sn_blockId r = i) (snapshots db)"

definition replayed :: "patch_row list \<Rightarrow> (string \<rightharpoonup> string)" where
  "replayed es = fold replay_entry es Map.empty"

text \<open>The invariant: per block, the log is numbered, replays to the sections, the title and the snapshots.\<close>

definition ids_ok :: "block_db \<Rightarrow> bool" where
  "ids_ok db \<longleftrightarrow> (\<forall>i \<in> block_ids db. i < next_block db) \<and> fst ` set (admins db) \<subseteq> block_ids db \<and>
     (\<forall>r \<in> set (patches db). pt_blockId r \<in> block_ids db) \<and>
     (\<forall>r \<in> set (snapshots db). sn_blockId r \<in> block_ids db)"

definition log_ok :: "int \<Rightarrow> block_db \<Rightarrow> bool" where
  "log_ok i db \<longleftrightarrow>
     map pt_seq (block_log i db) = map int [1..<Suc (length (block_log i db))] \<and>
     section_map i db = replayed (block_log i db) \<and>
     (\<forall>b t. getBlock i db = Some b \<longrightarrow> fold replay_title (block_log i db) None = Some t \<longrightarrow> bl_title b = t)"

definition snapshots_ok :: "int \<Rightarrow> block_db \<Rightarrow> bool" where
  "snapshots_ok i db \<longleftrightarrow>
     (\<forall>k. i \<in> block_ids db \<and> k \<le> length (block_log i db) div 25 \<longrightarrow>
        (\<exists>r \<in> set (block_snapshots i db). sn_seq r = 25 * int k)) \<and>
     (\<forall>r \<in> set (block_snapshots i db). 0 \<le> sn_seq r \<and> sn_seq r \<le> int (length (block_log i db)) \<and>
        map_of (sn_content r) = (replayed (take (nat (sn_seq r)) (block_log i db)))(''__proto__'' := None))"

definition block_inv :: "block_db \<Rightarrow> bool" where
  "block_inv db \<longleftrightarrow> sections_ok db \<and> ids_ok db \<and> (\<forall>i. log_ok i db \<and> snapshots_ok i db)"

text \<open>What an operation does, against the entry it logs.\<close>

definition entry :: "int \<Rightarrow> int \<Rightarrow> patch_op \<Rightarrow> patch_params \<Rightarrow> string option \<Rightarrow> string \<Rightarrow> string \<Rightarrow> int \<Rightarrow> patch_row" where
  "entry i s op p before sourceRef agent now =
     \<lparr>pt_blockId = i, pt_seq = s, pt_op = op, pt_sectionPath = pp_sectionPath p,
      pt_targetPath = pp_targetPath p,
      pt_content = (if op = Set_title then pp_title p else pp_content p),
      pt_beforeValue = before, pt_afterValue = after_value op p,
      pt_sourceRef = sourceRef, pt_appliedBy = agent, pt_appliedAt = now\<rparr>"

lemma setTitle_sections [simp]:
  "sections (setTitle i t now db) = sections db" "sections_ok (setTitle i t now db) = sections_ok db"
  "section_map j (setTitle i t now db) = section_map j db"
  by (simp_all add: setTitle_def sections_ok_def section_map_def getSection_def)

lemma getBlock_ops [simp]:
  "map_option bl_title (getBlock j (upsertSection i p c t now db)) = map_option bl_title (getBlock j db)"
  "map_option bl_title (getBlock j (snd (deleteSection i p now db))) = map_option bl_title (getBlock j db)"
  "map_option bl_title (getBlock j (snd (renameSection i p q now db))) = map_option bl_title (getBlock j db)"
proof -
  have *: "map_option bl_title (getBlock j (touchBlock i now db)) = map_option bl_title (getBlock j db)" for db
    by (cases "getBlock j db") simp_all
  show "map_option bl_title (getBlock j (upsertSection i p c t now db)) = map_option bl_title (getBlock j db)"
    unfolding upsertSection_def * by (simp add: getBlock_def split: option.split)
  show "map_option bl_title (getBlock j (snd (deleteSection i p now db))) = map_option bl_title (getBlock j db)"
    using * [of "db\<lparr>sections := s\<rparr>" for s] by (simp add: deleteSection_def Let_def getBlock_def del: touch_sel)
  show "map_option bl_title (getBlock j (snd (renameSection i p q now db))) = map_option bl_title (getBlock j db)"
    using * [of "db\<lparr>sections := s\<rparr>" for s] by (simp add: renameSection_def Let_def getBlock_def del: touch_sel)
qed

lemma getBlock_setTitle:
  "map_option bl_title (getBlock j (setTitle i t now db)) =
    (if j = i then map_option (\<lambda>_. t) (getBlock j db) else map_option bl_title (getBlock j db))"
proof -
  have "map_option bl_title (find (\<lambda>b. bl_id b = j) (update_where (\<lambda>b. bl_id b = i)
      (\<lambda>b. b\<lparr>bl_title := t, bl_updatedAt := now\<rparr>) bs)) =
    (if j = i then map_option (\<lambda>_. t) (find (\<lambda>b. bl_id b = j) bs)
     else map_option bl_title (find (\<lambda>b. bl_id b = j) bs))" for bs
    by (induction bs) (auto simp: table_simps)
  from this [of "blocks db"] show ?thesis by (simp add: setTitle_def getBlock_def)
qed

lemmas sections_ok_ops = sections_ok_upsert sections_ok_delete sections_ok_rename

lemma applyOp_effect:
  assumes "sections_ok db" "applyOp i op p now db = Inr db1"
  shows "sections_ok db1"
    and "section_map j db1 =
      (if j = i then replay_entry (entry i s op p bv sr ag now) (section_map i db) else section_map j db)"
    and "patches db1 = patches db" "snapshots db1 = snapshots db" "block_ids db1 = block_ids db"
    and "next_block db1 = next_block db" "admins db1 = admins db"
    and "map_option bl_title (getBlock j db1) =
      (if j = i \<and> op = Set_title then map_option (\<lambda>_. the (pp_title p)) (getBlock j db)
       else map_option bl_title (getBlock j db))"
proof -
  have ids: "map bl_id (update_where q f bs) = map bl_id bs" if "\<And>b. bl_id (f b) = bl_id b" for q f bs
    using that by (rule map_update_where)
  show "sections_ok db1"
    using assms by (auto simp: applyOp_def sections_ok_ops split: patch_op.splits if_splits option.splits)
  show "section_map j db1 =
      (if j = i then replay_entry (entry i s op p bv sr ag now) (section_map i db) else section_map j db)"
    using assms
    by (cases op)
       (auto simp: applyOp_def replay_entry_def entry_def after_value_def section_map_upsert section_map_delete
         section_map_rename split: if_splits option.splits)
  show "patches db1 = patches db" "snapshots db1 = snapshots db" "block_ids db1 = block_ids db"
    "next_block db1 = next_block db" "admins db1 = admins db"
    using assms
    by (auto simp: applyOp_def upsertSection_def deleteSection_def renameSection_def setTitle_def Let_def
        block_ids_def ids simp del: set_map split: patch_op.splits if_splits option.splits)
  show "map_option bl_title (getBlock j db1) =
      (if j = i \<and> op = Set_title then map_option (\<lambda>_. the (pp_title p)) (getBlock j db)
       else map_option bl_title (getBlock j db))"
    using assms(2) by (auto simp: applyOp_def getBlock_setTitle split: patch_op.splits if_splits option.splits)
qed

section \<open>Reachable states\<close>

definition no_blocks :: block_db where
  "no_blocks = \<lparr>blocks = [], sections = [], patches = [], snapshots = [], attachments = [], admins = [],
     next_block = 1, next_section = 1, next_attachment = 1\<rparr>"

inductive block_reach :: "block_db \<Rightarrow> bool" where
  start: "block_reach no_blocks"
| create: "block_reach db \<Longrightarrow> block_reach (snd (createBlock title agent retrievalOnly now db))"
| patch: "block_reach db \<Longrightarrow> block_reach (snd (applyPatch i op p agent sourceRef now db))"
| attach: "block_reach db \<Longrightarrow> block_reach (snd (attachBlock i targetId agent now db))"
| detach: "block_reach db \<Longrightarrow> block_reach (snd (detachBlock i targetId agent db))"
| grant: "block_reach db \<Longrightarrow> fst ` set xs \<subseteq> block_ids db \<Longrightarrow> block_reach (db\<lparr>admins := xs\<rparr>)"

lemma editor_has_block: "ids_ok db \<Longrightarrow> canEdit i agent db \<Longrightarrow> i \<in> block_ids db"
  by (auto simp: canEdit_def isAdmin_def isOwner_def list_ex_iff ids_ok_def block_ids_def split: if_splits)

lemma inv_create:
  assumes "block_inv db" shows "block_inv (snd (createBlock title agent ro now db))"
proof -
  let ?db = "snd (createBlock title agent ro now db)"
  let ?n = "next_block db"
  have new: "?n \<notin> block_ids db" using assms by (auto simp: block_inv_def ids_ok_def)
  have sel: "sections ?db = sections db" "patches ?db = patches db" "next_section ?db = next_section db"
    "admins ?db = admins db" "next_block ?db = ?n + 1" "block_ids ?db = insert ?n (block_ids db)"
    "snapshots ?db = snapshots db @ [\<lparr>sn_blockId = ?n, sn_seq = 0, sn_content = [], sn_createdAt = now\<rparr>]"
    by (simp_all add: createBlock_def Let_def block_ids_def)
  have log: "block_log j ?db = block_log j db" "section_map j ?db = section_map j db" for j
    by (simp_all add: block_log_def section_map_def getSection_def sel)
  have empty: "block_log ?n db = []" "block_snapshots ?n db = []"
    using assms new by (auto simp: block_inv_def ids_ok_def block_log_def block_snapshots_def filter_empty_conv)
  have get: "getBlock j ?db = Some b \<Longrightarrow> j \<noteq> ?n \<Longrightarrow> getBlock j db = Some b" for j b
    by (auto simp: createBlock_def Let_def getBlock_def find_append split: option.splits if_splits)
  have "log_ok j ?db" for j
    using assms get [of j] by (cases "j = ?n") (auto simp: block_inv_def log_ok_def log empty)
  moreover have "snapshots_ok j ?db" for j
  proof (cases "j = ?n")
    case True
    with empty show ?thesis
      by (simp add: snapshots_ok_def log block_snapshots_def sel replayed_def)
  next
    case False
    then have "block_snapshots j ?db = block_snapshots j db" by (simp add: block_snapshots_def sel)
    with assms False show ?thesis by (simp add: block_inv_def snapshots_ok_def log sel)
  qed
  moreover have "ids_ok ?db" using assms by (auto simp: block_inv_def ids_ok_def sel)
  ultimately show ?thesis using assms by (simp add: block_inv_def sections_ok_def sel)
qed

lemma patch_cases:
  "(\<exists>e. applyPatch i op p agent sr now db = (Inl e, db)) \<or>
   (\<exists>db1 bv. canEdit i agent db \<and> applyOp i op p now db = Inr db1 \<and>
      applyPatch i op p agent sr now db =
        (Inr \<lparr>pr_patchSeq = getNextPatchSeq i db1, pr_snapshotTaken = (getNextPatchSeq i db1 mod 25 = 0)\<rparr>,
         (if getNextPatchSeq i db1 mod 25 = 0 then writeSnapshot i (getNextPatchSeq i db1) now else (\<lambda>d. d))
           (db1\<lparr>patches := patches db1 @ [entry i (getNextPatchSeq i db1) op p bv sr agent now]\<rparr>)))"
  by (cases "canEdit i agent db"; cases "applyOp i op p now db")
     (auto simp: applyPatch_def Let_def entry_def AUTO_SNAPSHOT_INTERVAL_def)

lemma log_ok_patch:
  assumes inv: "block_inv db" and op: "applyOp i op p now db = Inr db1"
    and db2: "db2 = db1\<lparr>patches := patches db1 @ [entry i (getNextPatchSeq i db1) op p bv sr ag now]\<rparr>"
  shows "getNextPatchSeq i db1 = int (length (block_log i db)) + 1"
    and "block_log j db2 = block_log j db @
      (if j = i then [entry i (getNextPatchSeq i db1) op p bv sr ag now] else [])"
    and "log_ok j db2"
proof -
  have ok: "sections_ok db" and log: "log_ok j db" for j using inv by (simp_all add: block_inv_def)
  note eff = applyOp_effect [OF ok op]
  have same: "block_log j db1 = block_log j db" for j by (simp add: block_log_def eff(3))
  show s: "getNextPatchSeq i db1 = int (length (block_log i db)) + 1"
    using log [of i] by (intro next_seq) (simp add: log_ok_def same del: upt_Suc)
  show bl: "block_log j db2 = block_log j db @
      (if j = i then [entry i (getNextPatchSeq i db1) op p bv sr ag now] else [])" for j
    using same [of j] by (simp add: db2 block_log_def entry_def)
  have sm: "section_map j db2 =
      (if j = i then replay_entry (entry i (getNextPatchSeq i db1) op p bv sr ag now) (section_map i db)
       else section_map j db)"
    using eff(2) [of j] by (simp add: db2 section_map_def getSection_def)
  have title: "map_option bl_title (getBlock j db2) =
      (if j = i \<and> op = Set_title then map_option (\<lambda>_. the (pp_title p)) (getBlock j db)
       else map_option bl_title (getBlock j db))"
    using eff(8) [of j] by (simp add: db2 getBlock_def)
  have "bl_title b = t"
    if "getBlock j db2 = Some b" "fold replay_title (block_log j db2) None = Some t" for b t
    using that title log [of j] op
    by (cases "getBlock j db")
       (auto simp: bl log_ok_def replay_title_def entry_def after_value_def applyOp_def split: if_splits option.splits)
  moreover have "map pt_seq (block_log j db2) = map int [1..<Suc (length (block_log j db2))]"
    using log [of j] s by (simp add: bl log_ok_def entry_def)
  moreover have "section_map j db2 = replayed (block_log j db2)"
    using log [of i] log [of j] sm by (cases "j = i") (simp_all add: bl log_ok_def replayed_def)
  ultimately show "log_ok j db2" unfolding log_ok_def by blast
qed

lemma snapshot_step:
  assumes "k \<le> Suc n div 25" "\<not> k \<le> n div 25"
  shows "Suc n mod 25 = 0 \<and> 25 * k = Suc n"
proof -
  have m: "Suc n mod 25 = 0" using assms div_Suc [of n 25] by (auto split: if_splits)
  then have "Suc n div 25 = Suc (n div 25)" using div_Suc [of n 25] by simp
  with assms have "k = Suc n div 25" by linarith
  with m show ?thesis by auto
qed

lemma inv_patch:
  assumes inv: "block_inv db" shows "block_inv (snd (applyPatch i op p agent sr now db))"
proof -
  consider e where "applyPatch i op p agent sr now db = (Inl e, db)"
    | db1 bv where "canEdit i agent db" "applyOp i op p now db = Inr db1"
      "snd (applyPatch i op p agent sr now db) =
         (if getNextPatchSeq i db1 mod 25 = 0 then writeSnapshot i (getNextPatchSeq i db1) now else (\<lambda>d. d))
           (db1\<lparr>patches := patches db1 @ [entry i (getNextPatchSeq i db1) op p bv sr agent now]\<rparr>)"
    using patch_cases [of i op p agent sr now db] by fastforce
  then show ?thesis
  proof cases
    case 1
    with inv show ?thesis by simp
  next
    case (2 db1 bv)
    let ?s = "getNextPatchSeq i db1"
    let ?e = "entry i ?s op p bv sr agent now"
    obtain db2 where db2: "db2 = db1\<lparr>patches := patches db1 @ [?e]\<rparr>" by blast
    let ?db = "(if ?s mod 25 = 0 then writeSnapshot i ?s now else (\<lambda>d. d)) db2"
    have eq: "snd (applyPatch i op p agent sr now db) = ?db" using 2(3) db2 by simp
    have ok: "sections_ok db" "ids_ok db" using inv by (simp_all add: block_inv_def)
    note eff = applyOp_effect [OF ok(1) 2(2)]
    note log = log_ok_patch [OF inv 2(2) db2]
    have i: "i \<in> block_ids db" using editor_has_block [OF ok(2) 2(1)] .
    have ok2: "sections_ok db2" using eff(1) by (simp add: db2 sections_ok_def)
    have keep: "sections ?db = sections db2" "next_section ?db = next_section db2" "block_log j ?db = block_log j db2"
      "section_map j ?db = section_map j db2" "getBlock j ?db = getBlock j db2" "block_ids ?db = block_ids db"
      "next_block ?db = next_block db" "admins ?db = admins db" "patches ?db = patches db @ [?e]"
      "block_snapshots j ?db = block_snapshots j db @
        (if ?s mod 25 = 0 \<and> j = i
         then [\<lparr>sn_blockId = i, sn_seq = ?s, sn_content = buildSnapshotJson i db2, sn_createdAt = now\<rparr>] else [])"
      "snapshots ?db = snapshots db @
        (if ?s mod 25 = 0
         then [\<lparr>sn_blockId = i, sn_seq = ?s, sn_content = buildSnapshotJson i db2, sn_createdAt = now\<rparr>] else [])" for j
      using eff(3-7) by (simp_all add: writeSnapshot_def db2 block_log_def section_map_def getSection_def
          getBlock_def block_ids_def block_snapshots_def)
    have "log_ok j ?db" for j using log(3) [of j] by (simp add: log_ok_def keep)
    moreover have "ids_ok ?db"
      using ok(2) i by (auto simp: ids_ok_def keep entry_def split: if_splits)
    moreover have "snapshots_ok j ?db" for j
    proof (cases "j = i")
      case False
      with inv log(2) [of j] show ?thesis by (simp add: snapshots_ok_def block_inv_def keep)
    next
      case True
      let ?n = "length (block_log i db)"
      have s: "?s = int (Suc ?n)" using log(1) by simp
      have len: "length (block_log i db2) = Suc ?n" using log(2) [of i] by simp
      have div: "?s mod 25 = 0 \<longleftrightarrow> Suc ?n mod 25 = 0" unfolding s by presburger
      have old: "snapshots_ok i db" using inv by (simp add: block_inv_def)
      have "map_of (buildSnapshotJson i db2) = (replayed (block_log i db2))(''__proto__'' := None)"
        using snapshot_content [OF ok2] log(3) [of i] by (simp add: log_ok_def)
      then have new: "map_of (buildSnapshotJson i db2) =
          (replayed (take (nat ?s) (block_log i db2)))(''__proto__'' := None)" using len s by simp
      have have_all: "\<exists>r \<in> set (block_snapshots i ?db). sn_seq r = 25 * int k"
        if "k \<le> Suc ?n div 25" for k
      proof (cases "k \<le> ?n div 25")
        case True
        with old i obtain r where "r \<in> set (block_snapshots i db)" "sn_seq r = 25 * int k"
          unfolding snapshots_ok_def by blast
        then show ?thesis unfolding keep(10) by auto
      next
        case False
        from snapshot_step [OF that this] have "?s mod 25 = 0" "?s = 25 * int k" using s div arg_cong [of "25 * k" "Suc ?n" int] by (simp_all del: of_nat_Suc)
        then show ?thesis unfolding keep(10) by simp
      qed
      have content: "0 \<le> sn_seq r \<and> sn_seq r \<le> int (Suc ?n) \<and>
          map_of (sn_content r) = (replayed (take (nat (sn_seq r)) (block_log i db2)))(''__proto__'' := None)"
        if "r \<in> set (block_snapshots i ?db)" for r
      proof (cases "r \<in> set (block_snapshots i db)")
        case True
        with old have *: "0 \<le> sn_seq r" "sn_seq r \<le> int ?n"
          "map_of (sn_content r) = (replayed (take (nat (sn_seq r)) (block_log i db)))(''__proto__'' := None)"
          by (auto simp: snapshots_ok_def)
        then have "take (nat (sn_seq r)) (block_log i db2) = take (nat (sn_seq r)) (block_log i db)"
          by (simp add: log(2))
        with * show ?thesis by simp
      next
        case False
        with that have "sn_seq r = ?s" "sn_content r = buildSnapshotJson i db2"
          unfolding keep(10) by (simp_all split: if_splits)
        with new s show ?thesis by simp
      qed
      show ?thesis unfolding snapshots_ok_def True keep(3) len using have_all content by blast
    qed
    ultimately show ?thesis using ok2 unfolding eq by (simp add: block_inv_def sections_ok_def keep)
  qed
qed

lemma inv_attachments:
  assumes "block_inv db"
    and "sections db' = sections db \<and> patches db' = patches db \<and> snapshots db' = snapshots db \<and>
      blocks db' = blocks db \<and> admins db' = admins db \<and> next_block db' = next_block db \<and>
      next_section db' = next_section db"
  shows "block_inv db'"
  using assms by (simp add: block_inv_def sections_ok_def ids_ok_def log_ok_def snapshots_ok_def block_ids_def
      block_log_def section_map_def getSection_def getBlock_def block_snapshots_def)

lemma inv_block_reach: "block_reach db \<Longrightarrow> block_inv db"
proof (induction rule: block_reach.induct)
  case start
  show ?case
    by (simp add: no_blocks_def block_inv_def sections_ok_def ids_ok_def log_ok_def snapshots_ok_def block_ids_def
        block_log_def section_map_def getSection_def replayed_def getBlock_def block_snapshots_def)
next
  case (create db title agent ro now)
  then show ?case by (simp add: inv_create)
next
  case (patch db i op p agent sr now)
  then show ?case by (simp add: inv_patch)
next
  case (attach db i t agent now)
  show ?case by (rule inv_attachments [OF attach.IH])
      (auto simp: attachBlock_def Let_def split: option.split)
next
  case (detach db i t agent)
  show ?case by (rule inv_attachments [OF detach.IH]) (auto simp: detachBlock_def Let_def)
next
  case (grant db xs)
  then show ?case
    by (auto simp: block_inv_def sections_ok_def ids_ok_def log_ok_def snapshots_ok_def
        block_ids_def block_log_def section_map_def getSection_def getBlock_def block_snapshots_def)
qed

interpretation patch_order: ranked "\<lambda>a b. pt_seq a < pt_seq b" pt_seq
  by unfold_locales simp

lemma log_seqs: "log_ok i db \<Longrightarrow> pt_seq ` set (block_log i db) = int ` {1..<Suc (length (block_log i db))}"
  unfolding log_ok_def by (metis set_map set_upt)

lemma log_seq_range:
  "log_ok i db \<Longrightarrow> r \<in> set (block_log i db) \<Longrightarrow> 0 < pt_seq r \<and> pt_seq r \<le> int (length (block_log i db))"
  using log_seqs [of i db] by (metis atLeastLessThan_iff imageE image_eqI less_Suc_eq_le of_nat_le_iff
      of_nat_0_less_iff Suc_le_eq One_nat_def)

lemma listBlockPatches_log:
  assumes "log_ok i db"
  shows "listBlockPatches i (Some (length (patches db))) None db = block_log i db"
proof -
  have seqs: "map pt_seq (block_log i db) = map int [1..<Suc (length (block_log i db))]"
    using assms by (simp add: log_ok_def del: upt_Suc)
  have "filter (\<lambda>r. pt_blockId r = i \<and> pt_seq r > 0) (patches db) = block_log i db"
    using log_seq_range [OF assms] by (auto simp: block_log_def intro!: filter_cong)
  moreover have "sorted (map pt_seq (block_log i db))" unfolding seqs by (simp add: sorted_wrt_map del: upt_Suc)
  then have "sort_by (\<lambda>a b. pt_seq a < pt_seq b) (block_log i db) = block_log i db"
    by (intro patch_order.sort_by_sorted) (simp add: sorted_map not_less)
  moreover have "length (block_log i db) \<le> length (patches db)" by (simp add: block_log_def)
  ultimately show ?thesis by (simp add: listBlockPatches_def)
qed

text \<open>The states reached with the titles the blocks were created under.\<close>

inductive block_history :: "(int \<rightharpoonup> string) \<Rightarrow> block_db \<Rightarrow> bool" where
  h_start: "block_history Map.empty no_blocks"
| h_create: "block_history made db \<Longrightarrow>
    block_history (made(bl_id (fst (createBlock title agent retrievalOnly now db)) \<mapsto> title))
      (snd (createBlock title agent retrievalOnly now db))"
| h_patch: "block_history made db \<Longrightarrow> block_history made (snd (applyPatch i op p agent sourceRef now db))"
| h_attach: "block_history made db \<Longrightarrow> block_history made (snd (attachBlock i targetId agent now db))"
| h_detach: "block_history made db \<Longrightarrow> block_history made (snd (detachBlock i targetId agent db))"
| h_grant: "block_history made db \<Longrightarrow> fst ` set xs \<subseteq> block_ids db \<Longrightarrow> block_history made (db\<lparr>admins := xs\<rparr>)"

lemma history_block_reach: "block_history made db \<Longrightarrow> block_reach db"
  by (induction rule: block_history.induct) (auto intro: block_reach.intros)

definition titles_replay :: "(int \<rightharpoonup> string) \<Rightarrow> block_db \<Rightarrow> bool" where
  "titles_replay made db \<longleftrightarrow>
     (\<forall>j b. getBlock j db = Some b \<longrightarrow> fold replay_title (block_log j db) (made j) = Some (bl_title b))"

lemma titles_attachments:
  "titles_replay made db \<Longrightarrow> blocks db' = blocks db \<and> patches db' = patches db \<Longrightarrow> titles_replay made db'"
  by (simp add: titles_replay_def getBlock_def block_log_def)

lemma titles_patch:
  assumes inv: "block_inv db" and old: "titles_replay made db"
  shows "titles_replay made (snd (applyPatch i op p agent sr now db))"
proof -
  consider e where "applyPatch i op p agent sr now db = (Inl e, db)"
    | db1 bv where "applyOp i op p now db = Inr db1"
      "snd (applyPatch i op p agent sr now db) =
         (if getNextPatchSeq i db1 mod 25 = 0 then writeSnapshot i (getNextPatchSeq i db1) now else (\<lambda>d. d))
           (db1\<lparr>patches := patches db1 @ [entry i (getNextPatchSeq i db1) op p bv sr agent now]\<rparr>)"
    using patch_cases [of i op p agent sr now db] by fastforce
  then show ?thesis
  proof cases
    case 1
    with old show ?thesis by simp
  next
    case (2 db1 bv)
    let ?e = "entry i (getNextPatchSeq i db1) op p bv sr agent now"
    let ?db = "snd (applyPatch i op p agent sr now db)"
    have "sections_ok db" using inv by (simp add: block_inv_def)
    note eff = applyOp_effect [OF this 2(1)]
    have log: "block_log j ?db = block_log j db @ (if j = i then [?e] else [])" for j
      using eff(3) by (simp add: 2(2) block_log_def writeSnapshot_def entry_def)
    have title: "map_option bl_title (getBlock j ?db) =
        (if j = i \<and> op = Set_title then map_option (\<lambda>_. the (pp_title p)) (getBlock j db)
         else map_option bl_title (getBlock j db))" for j
    proof -
      have "getBlock j ?db = getBlock j db1" by (simp add: 2(2) getBlock_def writeSnapshot_def)
      with eff(8) [of j] show ?thesis by (simp only:)
    qed
    have given: "op = Set_title \<Longrightarrow> pp_title p = Some (the (pp_title p))"
      using 2(1) by (auto simp: applyOp_def split: option.splits)
    show ?thesis
      unfolding titles_replay_def
    proof (intro allI impI)
      fix j b' assume b': "getBlock j ?db = Some b'"
      with title [of j] obtain b where b: "getBlock j db = Some b" by (cases "getBlock j db") (auto split: if_splits)
      with old have "fold replay_title (block_log j db) (made j) = Some (bl_title b)" by (simp add: titles_replay_def)
      with b b' title [of j] given show "fold replay_title (block_log j ?db) (made j) = Some (bl_title b')"
        by (auto simp: log replay_title_def entry_def after_value_def split: if_splits)
    qed
  qed
qed

lemma titles_create:
  assumes inv: "block_inv db" and old: "titles_replay made db"
  shows "titles_replay (made(bl_id (fst (createBlock title agent ro now db)) \<mapsto> title)) (snd (createBlock title agent ro now db))"
proof -
  let ?db = "snd (createBlock title agent ro now db)" and ?n = "next_block db"
  have new: "?n \<notin> block_ids db" using inv by (auto simp: block_inv_def ids_ok_def)
  have id: "bl_id (fst (createBlock title agent ro now db)) = ?n" by (simp add: createBlock_def Let_def)
  have log: "block_log j ?db = block_log j db" for j by (simp add: createBlock_def Let_def block_log_def)
  have empty: "block_log ?n db = []"
    using inv new by (auto simp: block_inv_def ids_ok_def block_log_def filter_empty_conv)
  have none: "find (\<lambda>b. bl_id b = ?n) (blocks db) = None"
    using new by (fastforce simp: block_ids_def find_None_iff image_iff)
  have "fold replay_title (block_log j ?db) ((made(?n \<mapsto> title)) j) = Some (bl_title b)" if b: "getBlock j ?db = Some b" for j b
  proof (cases "j = ?n")
    case True
    with b none have "bl_title b = title" by (auto simp: getBlock_def createBlock_def Let_def find_append)
    with True show ?thesis by (simp add: log empty)
  next
    case False
    with b have "getBlock j db = Some b"
      by (auto simp: createBlock_def Let_def getBlock_def find_append split: option.splits if_splits)
    with old False show ?thesis by (simp add: log titles_replay_def)
  qed
  then show ?thesis unfolding id titles_replay_def by blast
qed

lemma history_titles: "block_history made db \<Longrightarrow> titles_replay made db"
proof (induction rule: block_history.induct)
  case h_start
  show ?case by (simp add: titles_replay_def no_blocks_def getBlock_def)
next
  case (h_create made db title agent ro now)
  with inv_block_reach [OF history_block_reach] show ?case by (intro titles_create)
next
  case (h_patch made db i op p agent sr now)
  with inv_block_reach [OF history_block_reach] show ?case by (intro titles_patch)
next
  case (h_attach made db i t agent now)
  show ?case by (rule titles_attachments [OF h_attach.IH]) (auto simp: attachBlock_def Let_def split: option.split)
next
  case (h_detach made db i t agent)
  show ?case by (rule titles_attachments [OF h_detach.IH]) (auto simp: detachBlock_def Let_def)
next
  case (h_grant made db xs)
  show ?case by (rule titles_attachments [OF h_grant.IH]) simp
qed

text \<open>
  Property (C5): in every state reached by creating blocks, patching them, attaching them and
  granting rights, the patch log of a block is numbered 1, 2, 3, ... without gaps, and
  replaying it from nothing gives the sections of the block, and from the title the block was
  created under its title. A snapshot exists for number 0 and every 25 patches, and the one with
  number \<open>s\<close> holds what the first \<open>s\<close> patches built, except a section called \<open>__proto__\<close>.
\<close>

theorem patch_log_rebuilds_block:
  assumes "block_history made db" "getBlock i db = Some b"
    and "es = listBlockPatches i (Some (length (patches db))) None db"
  shows "map pt_seq es = map int [1..<Suc (length es)] \<and>
    section_map i db = replayed es \<and>
    fold replay_title es (made i) = Some (bl_title b) \<and>
    (\<forall>k. k \<le> length es div 25 \<longrightarrow> getBlockSnapshot i (25 * int k) db \<noteq> None) \<and>
    (\<forall>s r. getBlockSnapshot i s db = Some r \<longrightarrow>
       map_of (sn_content r) = (replayed (take (nat s) es))(''__proto__'' := None))"
proof -
  have "block_reach db" by (rule history_block_reach [OF assms(1)])
  then have inv: "log_ok i db" "snapshots_ok i db" using inv_block_reach by (simp_all add: block_inv_def)
  have es: "es = block_log i db" using assms(3) listBlockPatches_log [OF inv(1)] by simp
  have i: "i \<in> block_ids db"
    using assms(2) by (auto simp: getBlock_def block_ids_def dest: find_SomeD)
  have "getBlockSnapshot i (25 * int k) db \<noteq> None" if "k \<le> length es div 25" for k
  proof -
    from inv(2) i that obtain r where "r \<in> set (block_snapshots i db)" "sn_seq r = 25 * int k"
      unfolding snapshots_ok_def es by blast
    then show ?thesis by (auto simp: getBlockSnapshot_def block_snapshots_def find_None_iff)
  qed
  moreover have "map_of (sn_content r) = (replayed (take (nat s) es))(''__proto__'' := None)"
    if "getBlockSnapshot i s db = Some r" for s r
    using inv(2) find_SomeD [OF that [unfolded getBlockSnapshot_def]] unfolding snapshots_ok_def es
    by (auto simp: block_snapshots_def)
  moreover have "fold replay_title es (made i) = Some (bl_title b)"
    using history_titles [OF assms(1)] assms(2) by (simp add: titles_replay_def es)
  ultimately show ?thesis
    using inv(1) unfolding log_ok_def es by blast
qed

text \<open>
  A patch, an attachment or a detachment by an agent who is neither the owner
  of the block nor one of its admins is an error and changes nothing; so is a patch with
  missing arguments, with a section path that is not valid or with a target that exists.
  Every other patch succeeds, and what it logs carries its agent and the value before it.
\<close>

theorem patch_permission_and_errors:
  assumes "block_reach db"
  shows "(\<not> isAdmin i agent db \<longrightarrow>
      (\<exists>e. applyPatch i op p agent sr now db = (Inl e, db)) \<and>
      (\<exists>e. attachBlock i target agent now db = (Inl e, db)) \<and>
      (\<exists>e. detachBlock i target agent db = (Inl e, db))) \<and>
    (isAdmin i agent db \<longrightarrow>
      (case applyOp i op p now db of
         Inl e \<Rightarrow> applyPatch i op p agent sr now db = (Inl e, db)
       | Inr db1 \<Rightarrow>
           (\<exists>res db2 r. applyPatch i op p agent sr now db = (Inr res, db2) \<and>
              patches db2 = patches db @ [r] \<and> pt_seq r = pr_patchSeq res \<and> pt_appliedBy r = agent \<and>
              (op = Set_section \<longrightarrow> pt_beforeValue r = section_map i db (the (pp_sectionPath p))))))"
proof -
  have denied: "\<exists>e. attachBlock i target agent now db = (Inl e, db)" if "\<not> isAdmin i agent db"
    using that by (auto simp: attachBlock_def split: option.split)
  have ok: "\<exists>res db2 r. applyPatch i op p agent sr now db = (Inr res, db2) \<and>
      patches db2 = patches db @ [r] \<and> pt_seq r = pr_patchSeq res \<and> pt_appliedBy r = agent \<and>
      (op = Set_section \<longrightarrow> pt_beforeValue r = section_map i db (the (pp_sectionPath p)))"
    if "isAdmin i agent db" "applyOp i op p now db = Inr db1" for db1
  proof -
    have inv: "sections_ok db" "log_ok i db"
      using inv_block_reach [OF assms] by (simp_all add: block_inv_def)
    note eff = applyOp_effect [OF inv(1) that(2)]
    have "getNextPatchSeq i db1 = int (length (block_log i db)) + 1"
      using inv(2) by (intro next_seq) (simp add: log_ok_def block_log_def eff(3) del: upt_Suc)
    then have "pt_seq r \<noteq> getNextPatchSeq i db1" if "r \<in> set (block_log i db)" for r
      using log_seq_range [OF inv(2) that] by simp
    then have free: "\<not> list_ex (\<lambda>r. pt_blockId r = i \<and> pt_seq r = getNextPatchSeq i db1) (patches db1)"
      by (auto simp: list_ex_iff eff(3) block_log_def)
    have "op = Set_section \<longrightarrow> truthy_text (pp_sectionPath p)"
      using that(2) by (auto simp: applyOp_def split: if_splits)
    then have before: "op = Set_section \<longrightarrow> before_value i op p db = section_map i db (the (pp_sectionPath p))"
      by (auto simp: before_value_def section_map_def)
    let ?r = "entry i (getNextPatchSeq i db1) op p (before_value i op p db) sr agent now"
    have "fst (applyPatch i op p agent sr now db) =
        Inr \<lparr>pr_patchSeq = getNextPatchSeq i db1, pr_snapshotTaken = (getNextPatchSeq i db1 mod 25 = 0)\<rparr>"
      using that free by (simp add: applyPatch_def canEdit_def Let_def AUTO_SNAPSHOT_INTERVAL_def)
    moreover have "patches (snd (applyPatch i op p agent sr now db)) = patches db @ [?r]"
      using that free by (simp add: applyPatch_def canEdit_def Let_def writeSnapshot_def entry_def eff(3))
    ultimately show ?thesis using before
      by (intro exI [of _ "\<lparr>pr_patchSeq = getNextPatchSeq i db1, pr_snapshotTaken = (getNextPatchSeq i db1 mod 25 = 0)\<rparr>"]
          exI [of _ "snd (applyPatch i op p agent sr now db)"] exI [of _ ?r])
         (simp add: prod_eq_iff entry_def)
  qed
  show ?thesis
  proof (cases "isAdmin i agent db")
    case False
    with denied show ?thesis by (simp add: applyPatch_def canEdit_def detachBlock_def)
  next
    case True
    then show ?thesis
      using ok by (cases "applyOp i op p now db") (simp_all add: applyPatch_def [of i op p agent sr now db] canEdit_def)
  qed
qed

section \<open>Examples\<close>

definition sample_patch :: "string \<Rightarrow> string \<Rightarrow> patch_params" where
  "sample_patch path content =
     \<lparr>pp_sectionPath = Some path, pp_targetPath = Some ''b/c'', pp_content = Some content, pp_title = None\<rparr>"

definition sample_block :: block_db where
  "sample_block =
     snd (applyPatch 1 Move_section (sample_patch ''a'' []) ''m'' ''system'' 3
       (snd (applyPatch 1 Set_section (sample_patch ''a'' ''x'') ''m'' ''system'' 2
         (snd (createBlock ''T'' ''m'' False 1 no_blocks)))))"

lemma sample_block_reach: "block_reach sample_block"
  unfolding sample_block_def by (intro block_reach.intros)

definition named_block :: block_db where
  "named_block = snd (applyPatch 1 Set_title \<lparr>pp_sectionPath = None, pp_targetPath = None, pp_content = None, pp_title = Some ''U''\<rparr>
     ''m'' ''system'' 3 (snd (applyPatch 1 Set_section (sample_patch ''a'' ''x'') ''m'' ''system'' 2
        (snd (createBlock ''T'' ''m'' False 1 no_blocks)))))"

lemma named_block_history: "block_history [1 \<mapsto> ''T''] named_block"
proof -
  have "bl_id (fst (createBlock ''T'' ''m'' False 1 no_blocks)) = 1" by code_simp
  with h_create [OF h_start, of "''T''" "''m''" False 1]
  have "block_history [1 \<mapsto> ''T''] (snd (createBlock ''T'' ''m'' False 1 no_blocks))" by simp
  then show ?thesis unfolding named_block_def by (intro h_patch)
qed

theorem patch_log_rebuilds_block_witness:
  "map pt_seq (listBlockPatches 1 (Some (length (patches named_block))) None named_block) = [1, 2] \<and>
   map_option bl_title (getBlock 1 named_block) = Some ''U'' \<and> section_map 1 named_block ''a'' = Some ''x'' \<and>
   fold replay_title (listBlockPatches 1 (Some (length (patches named_block))) None named_block) (Some ''T'') = Some ''U''"
proof -
  have "\<not> Option.is_none (getBlock 1 named_block)" by code_simp
  then obtain b where b: "getBlock 1 named_block = Some b" by (auto simp: Option.is_none_def)
  have facts: "map pt_seq (listBlockPatches 1 (Some (length (patches named_block))) None named_block) = [1, 2]"
    "map_option bl_title (getBlock 1 named_block) = Some ''U''" "section_map 1 named_block ''a'' = Some ''x''" by code_simp+
  from patch_log_rebuilds_block [OF named_block_history b refl] facts(2) b facts show ?thesis by simp
qed

theorem patch_permission_and_errors_witness:
  "\<exists>e. applyPatch 1 Set_section (sample_patch ''a'' ''y'') ''intruder'' ''system'' 4 sample_block = (Inl e, sample_block)"
proof -
  have "\<not> isAdmin 1 ''intruder'' sample_block" by code_simp
  with patch_permission_and_errors [OF sample_block_reach] show ?thesis by blast
qed

end
