(* ===== verification/Core_Memory.thy ===== *)
theory Core_Memory
  imports Js_Values Errors "HOL-Library.Char_ord" "HOL-Library.List_Lexorder"
begin

text \<open>
  Core memory blocks (\<^verbatim>\<open>src/storage/domain-repos/pg/core-memory-block-repo.ts\<close>, behind
  \<^verbatim>\<open>src/memory/core-memory.ts\<close>), the update of the index block
  (\<^verbatim>\<open>src/memory/core-memory-index-updater.ts\<close>) and the proposals for the pinned summary
  (\<^verbatim>\<open>src/memory/pinned-summary-proposal.ts\<close>).

  The read and the write of one operation are one step. \<open>Date.now()\<close> is an argument, and so
  are the tool calls the model answers with.
\<close>

section \<open>Replacing text\<close>

text \<open>
  \<open>s.replace(old, new)\<close> with two strings: the first occurrence of \<open>old\<close> is replaced by the
  expansion of \<open>new\<close>, in which \<open>$$\<close>, \<open>$&\<close>, \<open>$`\<close> and \<open>$'\<close> stand for a dollar, the text
  matched and the texts before and after it.
\<close>

fun split_first :: "string \<Rightarrow> string \<Rightarrow> (string \<times> string) option" where
  "split_first old [] = (if old = [] then Some ([], []) else None)"
| "split_first old (c # s) =
     (if prefix old (c # s) then Some ([], drop (length old) (c # s))
      else map_option (\<lambda>(b, a). (c # b, a)) (split_first old s))"

definition text_includes :: "string \<Rightarrow> string \<Rightarrow> bool" where
  "text_includes s old = (split_first old s \<noteq> None)"

fun expand :: "string \<Rightarrow> string \<Rightarrow> string \<Rightarrow> string \<Rightarrow> string" where
  "expand before m after [] = []"
| "expand before m after [c] = [c]"
| "expand before m after (c # d # r) =
     (if c = CHR ''$'' \<and> d = CHR ''$'' then CHR ''$'' # expand before m after r
      else if c = CHR ''$'' \<and> d = CHR ''&'' then m @ expand before m after r
      else if c = CHR ''$'' \<and> d = CHR 0x60 then before @ expand before m after r
      else if c = CHR ''$'' \<and> d = CHR 0x27 then after @ expand before m after r
      else c # expand before m after (d # r))"

definition replace_text :: "string \<Rightarrow> string \<Rightarrow> string \<Rightarrow> string" where
  "replace_text s old new =
     (case split_first old s of
        None \<Rightarrow> s
      | Some (b, a) \<Rightarrow> b @ expand b old a new @ a)"

lemma split_first_correct: "split_first old s = Some (b, a) \<Longrightarrow> s = b @ old @ a"
proof (induction old s arbitrary: b a rule: split_first.induct)
  case (2 old c s)
  show ?case
  proof (cases "prefix old (c # s)")
    case True
    with 2(2) show ?thesis by (auto simp: prefix_def)
  next
    case False
    with 2 show ?thesis by auto
  qed
qed (auto split: if_splits)

lemma split_first_iff: "split_first old s \<noteq> None \<longleftrightarrow> (\<exists>b a. s = b @ old @ a)"
proof
  assume "\<exists>b a. s = b @ old @ a"
  then obtain b a where "s = b @ old @ a" by blast
  then show "split_first old s \<noteq> None"
  proof (induction b arbitrary: s)
    case Nil
    then have "prefix old s" by simp
    then show ?case by (cases s) simp_all
  next
    case (Cons c b)
    then show ?case by auto
  qed
qed (use split_first_correct in fastforce)

lemma split_first_first:
  "split_first old s = Some (b, a) \<Longrightarrow> s = b' @ old @ a' \<Longrightarrow> length b \<le> length b'"
proof (induction old s arbitrary: b a b' rule: split_first.induct)
  case (2 old c s)
  show ?case
  proof (cases "prefix old (c # s)")
    case True
    with 2(2) show ?thesis by auto
  next
    case False
    with 2(3) obtain x b'' where b': "b' = x # b''" "s = b'' @ old @ a'" by (cases b') (auto simp: prefix_def)
    from False 2(2) obtain b0 where "split_first old s = Some (b0, a)" "b = c # b0" by auto
    with 2(1) [OF False, of b0 a b''] b' show ?thesis by simp
  qed
qed (auto split: if_splits)

lemma expand_plain: "CHR ''$'' \<notin> set new \<Longrightarrow> expand b m a new = new"
  by (induction b m a new rule: expand.induct) auto

section \<open>Blocks\<close>

datatype block_label = L_user | L_index | L_pinned_summary | L_pinned_index | L_persona

definition RP_READ_ONLY :: "block_label list" where
  "RP_READ_ONLY = [L_index, L_pinned_index, L_user]"

definition BLOCK_DEFAULTS :: "(block_label \<times> string \<times> nat \<times> int) list" where
  "BLOCK_DEFAULTS =
     [(L_user, ''Information about the user (legacy, read-only)'', 3000, 1),
      (L_index, ''Memory index with pointer addresses'', 1500, 1),
      (L_pinned_summary, ''Pinned character summary (canonical)'', 4000, 0),
      (L_pinned_index, ''Pinned memory index (canonical, no RP direct-write)'', 1500, 1),
      (L_persona, ''Agent persona, identity, and behavioral traits'', 4000, 0)]"

record core_block =
  cb_id :: int
  cb_agent :: string
  cb_label :: block_label
  cb_description :: "string option"
  cb_value :: string
  cb_charLimit :: nat
  cb_readOnly :: int
  cb_updatedAt :: int

record core_table =
  co_rows :: "core_block list"
  co_next :: int

abbreviation block_at :: "string \<Rightarrow> block_label \<Rightarrow> core_block \<Rightarrow> bool" where
  "block_at a l b \<equiv> cb_agent b = a \<and> cb_label b = l"

definition isReadOnlyForRp :: "block_label \<Rightarrow> bool" where
  "isReadOnlyForRp l = (l \<in> set RP_READ_ONLY)"

definition initializeBlocks :: "string \<Rightarrow> int \<Rightarrow> core_table \<Rightarrow> core_table" where
  "initializeBlocks agentId now t =
     fold (\<lambda>(l, desc, limit, ro) t.
         if list_ex (block_at agentId l) (co_rows t) then t\<lparr>co_next := co_next t + 1\<rparr>
         else \<lparr>co_rows = co_rows t @
                 [\<lparr>cb_id = co_next t, cb_agent = agentId, cb_label = l, cb_description = Some desc,
                   cb_value = [], cb_charLimit = limit, cb_readOnly = ro, cb_updatedAt = now\<rparr>],
               co_next = co_next t + 1\<rparr>)
       BLOCK_DEFAULTS t"

definition getBlock :: "string \<Rightarrow> block_label \<Rightarrow> core_table \<Rightarrow> (thrown, core_block) result" where
  "getBlock agentId l t =
     (case find (block_at agentId l) (co_rows t) of None \<Rightarrow> Inl Plain_error | Some b \<Rightarrow> Inr b)"

definition label_str :: "block_label \<Rightarrow> string" where
  "label_str l = (case l of L_user \<Rightarrow> ''user'' | L_index \<Rightarrow> ''index'' | L_pinned_summary \<Rightarrow> ''pinned_summary''
     | L_pinned_index \<Rightarrow> ''pinned_index'' | L_persona \<Rightarrow> ''persona'')"

definition getAllBlocks :: "string \<Rightarrow> core_table \<Rightarrow> core_block list" where
  "getAllBlocks agentId t =
     sort_by (\<lambda>a b. label_str (cb_label a) < label_str (cb_label b)) (filter (\<lambda>b. cb_agent b = agentId) (co_rows t))"

datatype append_result =
    Appended nat nat | Append_refused int nat nat

datatype replace_result = Replaced nat | Read_only | Not_found | Over_limit

definition setValue :: "string \<Rightarrow> block_label \<Rightarrow> string \<Rightarrow> int \<Rightarrow> core_table \<Rightarrow> core_table" where
  "setValue agentId l v now t =
     t\<lparr>co_rows := update_where (block_at agentId l) (\<lambda>b. b\<lparr>cb_value := v, cb_updatedAt := now\<rparr>) (co_rows t)\<rparr>"

definition appendBlock :: "string \<Rightarrow> block_label \<Rightarrow> string \<Rightarrow> string option \<Rightarrow> int \<Rightarrow> core_table \<Rightarrow>
    (thrown, append_result) result \<times> core_table" where
  "appendBlock agentId l content callerRole now t =
     (case getBlock agentId l t of
        Inl e \<Rightarrow> (Inl e, t)
      | Inr b \<Rightarrow>
          if isReadOnlyForRp l \<and> callerRole \<noteq> Some ''task-agent'' then
            (Inr (Append_refused 0 (cb_charLimit b) (length (cb_value b))), t)
          else
            (let newValue = cb_value b @ content
             in if length newValue > cb_charLimit b then
                  (Inr (Append_refused (int (cb_charLimit b) - int (length (cb_value b))) (cb_charLimit b)
                          (length (cb_value b))), t)
                else (Inr (Appended (length newValue) (cb_charLimit b)), setValue agentId l newValue now t)))"

definition replaceBlock :: "string \<Rightarrow> block_label \<Rightarrow> string \<Rightarrow> string \<Rightarrow> string option \<Rightarrow> int \<Rightarrow> core_table \<Rightarrow>
    (thrown, replace_result) result \<times> core_table" where
  "replaceBlock agentId l oldText newText callerRole now t =
     (case getBlock agentId l t of
        Inl e \<Rightarrow> (Inl e, t)
      | Inr b \<Rightarrow>
          if isReadOnlyForRp l \<and> callerRole \<noteq> Some ''task-agent'' then (Inr Read_only, t)
          else if \<not> text_includes (cb_value b) oldText then (Inr Not_found, t)
          else
            (let newValue = replace_text (cb_value b) oldText newText
             in if length newValue > cb_charLimit b then (Inr Over_limit, t)
                else (Inr (Replaced (length newValue)), setValue agentId l newValue now t)))"

section \<open>The index updater\<close>

text \<open>The tool calls of the model: a name and the value of the argument \<open>new_text\<close>.\<close>

definition extractUpdatedIndex :: "(string \<times> json option) list \<Rightarrow> string \<Rightarrow> string" where
  "extractUpdatedIndex calls fallback =
     (case List.map_filter (\<lambda>(n, v). if n = ''update_index_block''
              then (case v of Some (JStr s) \<Rightarrow> Some s | _ \<Rightarrow> None) else None) calls of
        [] \<Rightarrow> fallback | s # _ \<Rightarrow> s)"

definition updateIndex :: "string \<Rightarrow> (core_block \<Rightarrow> (string \<times> json option) list) \<Rightarrow> int \<Rightarrow> core_table \<Rightarrow>
    (thrown, unit) result \<times> core_table" where
  "updateIndex agentId chat now t =
     (case getBlock agentId L_index t of
        Inl e \<Rightarrow> (Inl e, t)
      | Inr b \<Rightarrow>
          (let newText = extractUpdatedIndex (chat b) (cb_value b)
           in if newText \<noteq> cb_value b then
                (case replaceBlock agentId L_index (cb_value b) newText (Some ''task-agent'') now t of
                   (Inl e, t') \<Rightarrow> (Inl e, t')
                 | (Inr (Replaced _), t') \<Rightarrow> (Inr (), t')
                 | (Inr _, t') \<Rightarrow> (Inl Plain_error, t'))
              else (Inr (), t)))"

section \<open>Proposals\<close>

datatype proposal_status = P_pending | P_applied | P_rejected

record proposal_row =
  po_id :: int
  po_agent :: string
  po_settlement :: string
  po_text :: string
  po_rationale :: "string option"
  po_status :: proposal_status
  po_createdAt :: int
  po_updatedAt :: int

record proposal_table =
  pl_rows :: "proposal_row list"
  pl_next :: int

definition storeProposal :: "string \<Rightarrow> string \<Rightarrow> string \<Rightarrow> string option \<Rightarrow> int \<Rightarrow> proposal_table \<Rightarrow> proposal_table" where
  "storeProposal settlementId agentId txt rationale now t =
     \<lparr>pl_rows = pl_rows t @
        [\<lparr>po_id = pl_next t, po_agent = agentId, po_settlement = settlementId, po_text = txt,
          po_rationale = rationale, po_status = P_pending, po_createdAt = now, po_updatedAt = now\<rparr>],
      pl_next = pl_next t + 1\<rparr>"

definition getPendingProposals :: "string \<Rightarrow> proposal_table \<Rightarrow> proposal_row list" where
  "getPendingProposals agentId t =
     sort_by (\<lambda>a b. po_createdAt a < po_createdAt b)
       (filter (\<lambda>r. po_agent r = agentId \<and> po_status r = P_pending) (pl_rows t))"

definition getLatestPending :: "string \<Rightarrow> proposal_table \<Rightarrow> proposal_row option" where
  "getLatestPending agentId t =
     (let pending = getPendingProposals agentId t in if pending \<noteq> [] then Some (last pending) else None)"

definition settle_proposals :: "proposal_status \<Rightarrow> string \<Rightarrow> string \<Rightarrow> int \<Rightarrow> proposal_table \<Rightarrow> bool \<times> proposal_table" where
  "settle_proposals s agentId settlementId now t =
     (let p = (\<lambda>r. po_agent r = agentId \<and> po_settlement r = settlementId \<and> po_status r = P_pending)
      in (count_where p (pl_rows t) > 0,
          t\<lparr>pl_rows := update_where p (\<lambda>r. r\<lparr>po_status := s, po_updatedAt := now\<rparr>) (pl_rows t)\<rparr>))"

definition markApplied :: "string \<Rightarrow> string \<Rightarrow> int \<Rightarrow> proposal_table \<Rightarrow> bool \<times> proposal_table" where
  "markApplied = settle_proposals P_applied"

definition markRejected :: "string \<Rightarrow> string \<Rightarrow> int \<Rightarrow> proposal_table \<Rightarrow> bool \<times> proposal_table" where
  "markRejected = settle_proposals P_rejected"

definition clearAll :: "string \<Rightarrow> proposal_table \<Rightarrow> proposal_table" where
  "clearAll agentId t = t\<lparr>pl_rows := delete_where (\<lambda>r. po_agent r = agentId) (pl_rows t)\<rparr>"

section \<open>Outcomes\<close>

lemma getBlock_setValue:
  "getBlock a l (setValue a' l' v now t) =
    (case getBlock a l t of
       Inl e \<Rightarrow> Inl e
     | Inr b \<Rightarrow> Inr (if a = a' \<and> l = l' then b\<lparr>cb_value := v, cb_updatedAt := now\<rparr> else b))"
proof -
  have "find (block_at a l) (update_where (block_at a' l') (\<lambda>b. b\<lparr>cb_value := v, cb_updatedAt := now\<rparr>) bs) =
      map_option (\<lambda>b. if block_at a' l' b then b\<lparr>cb_value := v, cb_updatedAt := now\<rparr> else b) (find (block_at a l) bs)" for bs
    by (rule find_update_where_invariant) simp
  then show ?thesis
    by (auto simp: getBlock_def setValue_def split: option.split dest: find_SomeD)
qed

lemma getBlock_set_own:
  "getBlock a l t = Inr b \<Longrightarrow> getBlock a' l' (setValue a l v now t) =
    (if a' = a \<and> l' = l then Inr (b\<lparr>cb_value := v, cb_updatedAt := now\<rparr>) else getBlock a' l' t)"
  by (auto simp: getBlock_setValue split: sum.split)

text \<open>
  Replacing text in a block succeeds exactly if the caller may write the
  block, the old text occurs and the result fits. It then replaces the first occurrence by
  the new text with its dollar patterns expanded, which is the new text itself when it
  contains no dollar, and touches no other block. Otherwise nothing changes.
\<close>

theorem replace_outcome:
  assumes "getBlock a l t = Inr b"
  shows "case replaceBlock a l old new role now t of
      (Inr (Replaced n), t') \<Rightarrow>
        (\<exists>pre post. cb_value b = pre @ old @ post \<and>
           (\<forall>pre' post'. cb_value b = pre' @ old @ post' \<longrightarrow> length pre \<le> length pre') \<and>
           n = length (pre @ expand pre old post new @ post) \<and> n \<le> cb_charLimit b \<and>
           (CHR ''$'' \<notin> set new \<longrightarrow> expand pre old post new = new) \<and>
           (isReadOnlyForRp l \<longrightarrow> role = Some ''task-agent'') \<and>
           (\<forall>a' l'. getBlock a' l' t' =
              (if a' = a \<and> l' = l
               then Inr (b\<lparr>cb_value := pre @ expand pre old post new @ post, cb_updatedAt := now\<rparr>)
               else getBlock a' l' t)))
    | (Inr Read_only, t') \<Rightarrow> t' = t \<and> isReadOnlyForRp l \<and> role \<noteq> Some ''task-agent''
    | (Inr Not_found, t') \<Rightarrow> t' = t \<and> (\<nexists>pre post. cb_value b = pre @ old @ post)
    | (Inr Over_limit, t') \<Rightarrow> t' = t \<and> length (replace_text (cb_value b) old new) > cb_charLimit b
    | (Inl _, _) \<Rightarrow> False"
proof (cases "split_first old (cb_value b)")
  case None
  then have "\<nexists>pre post. cb_value b = pre @ old @ post" using split_first_iff [of old "cb_value b"] by blast
  with None assms show ?thesis by (simp add: replaceBlock_def text_includes_def)
next
  case (Some p)
  obtain pre post where p: "p = (pre, post)" by (cases p)
  note correct = split_first_correct [OF Some [unfolded p]]
  have first: "\<forall>pre' post'. cb_value b = pre' @ old @ post' \<longrightarrow> length pre \<le> length pre'"
    using split_first_first [OF Some [unfolded p]] by blast
  let ?new = "pre @ expand pre old post new @ post"
  have inc: "text_includes (cb_value b) old" "replace_text (cb_value b) old new = ?new"
    using Some p by (simp_all add: text_includes_def replace_text_def)
  show ?thesis
  proof (cases "isReadOnlyForRp l \<and> role \<noteq> Some ''task-agent''")
    case True
    with assms show ?thesis by (simp add: replaceBlock_def)
  next
    case False
    show ?thesis
    proof (cases "length ?new > cb_charLimit b")
      case True
      then have "replaceBlock a l old new role now t = (Inr Over_limit, t)"
        using assms False inc by (auto simp: replaceBlock_def Let_def)
      with True inc show ?thesis by simp
    next
      case fits: False
      then have "replaceBlock a l old new role now t = (Inr (Replaced (length ?new)), setValue a l ?new now t)"
        using assms False inc by (auto simp: replaceBlock_def Let_def)
      moreover have "isReadOnlyForRp l \<longrightarrow> role = Some ''task-agent''" using False by blast
      moreover have "CHR ''$'' \<notin> set new \<longrightarrow> expand pre old post new = new" using expand_plain by blast
      ultimately show ?thesis
        using fits correct first getBlock_set_own [OF assms] by (auto simp del: append_assoc length_append)
    qed
  qed
qed

text \<open>The index block becomes the text the model gave, if that contains no dollar and fits.\<close>

lemma index_update:
  assumes "getBlock a L_index t = Inr b" "extractUpdatedIndex (chat b) (cb_value b) = new"
    and "CHR ''$'' \<notin> set new" "length new \<le> cb_charLimit b"
  shows "fst (updateIndex a chat now t) = Inr () \<and>
    (\<exists>b'. getBlock a L_index (snd (updateIndex a chat now t)) = Inr b' \<and> cb_value b' = new)"
proof -
  have "split_first s s = Some ([], [])" for s by (cases s) simp_all
  then have "replaceBlock a L_index (cb_value b) new (Some ''task-agent'') now t =
      (Inr (Replaced (length new)), setValue a L_index new now t)"
    using assms by (simp add: replaceBlock_def text_includes_def replace_text_def expand_plain)
  then show ?thesis using assms getBlock_set_own [OF assms(1)] by (auto simp: updateIndex_def)
qed

text \<open>The dollar patterns: an index whose new text mentions \<open>$&\<close> gets the old index in its place.\<close>

lemma index_update_expands:
  assumes "getBlock a L_index t = Inr b" "extractUpdatedIndex (chat b) (cb_value b) = ''cost: $&''"
    and "length (cb_value b) + 6 \<le> cb_charLimit b" "cb_value b \<noteq> ''cost: $&''"
  shows "\<exists>b'. getBlock a L_index (snd (updateIndex a chat now t)) = Inr b' \<and> cb_value b' = ''cost: '' @ cb_value b"
proof -
  have "split_first s s = Some ([], [])" for s by (cases s) simp_all
  then have "replaceBlock a L_index (cb_value b) ''cost: $&'' (Some ''task-agent'') now t =
      (Inr (Replaced (length (cb_value b) + 6)), setValue a L_index (''cost: '' @ cb_value b) now t)"
    using assms by (simp add: replaceBlock_def text_includes_def replace_text_def)
  then show ?thesis using assms getBlock_set_own [OF assms(1)] by (auto simp: updateIndex_def)
qed

section \<open>The limits hold\<close>

datatype core_call =
    K_init string int
  | K_append string block_label string "string option" int
  | K_replace string block_label string string "string option" int
  | K_index string "core_block \<Rightarrow> (string \<times> json option) list" int

fun core_run :: "core_call \<Rightarrow> core_table \<Rightarrow> core_table" where
  "core_run (K_init a now) t = initializeBlocks a now t"
| "core_run (K_append a l c role now) t = snd (appendBlock a l c role now t)"
| "core_run (K_replace a l old new role now) t = snd (replaceBlock a l old new role now t)"
| "core_run (K_index a chat now) t = snd (updateIndex a chat now t)"

fun by_task_agent :: "core_call \<Rightarrow> bool" where
  "by_task_agent (K_append a l c role now) = (role = Some ''task-agent'')"
| "by_task_agent (K_replace a l old new role now) = (role = Some ''task-agent'')"
| "by_task_agent (K_index a chat now) = True"
| "by_task_agent (K_init a now) = False"

definition core_ok :: "core_table \<Rightarrow> bool" where
  "core_ok t \<longleftrightarrow> distinct (map (\<lambda>b. (cb_agent b, cb_label b)) (co_rows t)) \<and>
     (\<forall>b \<in> set (co_rows t). length (cb_value b) \<le> cb_charLimit b \<and>
        (cb_label b, cb_charLimit b) \<in> set (map (\<lambda>(l, d, n, r). (l, n)) BLOCK_DEFAULTS))"

lemma core_ok_setValue:
  assumes "core_ok t" "getBlock a l t = Inr b" "length v \<le> cb_charLimit b"
  shows "core_ok (setValue a l v now t)"
proof -
  have b: "b \<in> set (co_rows t)" "block_at a l b" using assms(2) by (auto simp: getBlock_def split: option.splits dest: find_SomeD)
  have only: "x = b" if "x \<in> set (co_rows t)" "block_at a l x" for x
    using distinct_key_unique [of "\<lambda>b. (cb_agent b, cb_label b)" "co_rows t" x b] assms(1) b that by (simp add: core_ok_def)
  have "map (\<lambda>b. (cb_agent b, cb_label b)) (update_where (block_at a l) (\<lambda>b. b\<lparr>cb_value := v, cb_updatedAt := now\<rparr>) bs) =
      map (\<lambda>b. (cb_agent b, cb_label b)) bs" for bs
    by (intro map_update_where) simp
  moreover have "length (cb_value x) \<le> cb_charLimit x \<and>
      (cb_label x, cb_charLimit x) \<in> set (map (\<lambda>(l, d, n, r). (l, n)) BLOCK_DEFAULTS)"
    if "x \<in> set (update_where (block_at a l) (\<lambda>b. b\<lparr>cb_value := v, cb_updatedAt := now\<rparr>) (co_rows t))" for x
    using that
  proof (cases rule: in_update_whereE)
    case (1 y)
    with only [of y] assms(1,3) b show ?thesis by (auto simp: core_ok_def simp del: set_map)
  next
    case 2
    with assms(1) show ?thesis by (simp add: core_ok_def)
  qed
  ultimately show ?thesis using assms(1) by (simp add: core_ok_def setValue_def)
qed

lemma core_ok_append: "core_ok t \<Longrightarrow> core_ok (snd (appendBlock a l c role now t))"
  by (auto simp: appendBlock_def Let_def core_ok_setValue split: sum.split)

lemma core_ok_replace: "core_ok t \<Longrightarrow> core_ok (snd (replaceBlock a l old new role now t))"
  by (auto simp: replaceBlock_def Let_def core_ok_setValue split: sum.split)

lemma core_ok_index: "core_ok t \<Longrightarrow> core_ok (snd (updateIndex a chat now t))"
  using core_ok_replace
  by (auto simp: updateIndex_def Let_def split: sum.split prod.split replace_result.split) (metis snd_conv)+

lemma core_ok_init:
  assumes "core_ok t" shows "core_ok (initializeBlocks a now t)"
proof -
  let ?f = "\<lambda>(l, desc, limit, ro) t.
         if list_ex (block_at a l) (co_rows t) then t\<lparr>co_next := co_next t + 1\<rparr>
         else \<lparr>co_rows = co_rows t @
                 [\<lparr>cb_id = co_next t, cb_agent = a, cb_label = l, cb_description = Some desc,
                   cb_value = [], cb_charLimit = limit, cb_readOnly = ro, cb_updatedAt = now\<rparr>],
               co_next = co_next t + 1\<rparr>"
  have "set ds \<subseteq> set BLOCK_DEFAULTS \<Longrightarrow> core_ok t \<Longrightarrow> core_ok (fold ?f ds t)" for ds t
  proof (induction ds arbitrary: t)
    case (Cons d ds)
    obtain l desc limit ro where d: "d = (l, desc, limit, ro)" by (cases d)
    from Cons.prems d have "(l, limit) \<in> set (map (\<lambda>(l, d, n, r). (l, n)) BLOCK_DEFAULTS)" by force
    with Cons.prems(2) have "core_ok (?f d t)" by (auto simp: core_ok_def d list_ex_iff image_iff)
    with Cons show ?case by simp
  qed simp
  from this [of BLOCK_DEFAULTS t] assms show ?thesis unfolding initializeBlocks_def by simp
qed

lemma core_ok_run: "core_ok t \<Longrightarrow> core_ok (core_run c t)"
  by (cases c) (simp_all add: core_ok_init core_ok_append core_ok_replace core_ok_index)

lemma find_init:
  "find (block_at a l) (co_rows t) = Some b \<Longrightarrow> find (block_at a l) (co_rows (initializeBlocks a' now t)) = Some b"
  unfolding initializeBlocks_def
  by (rule fold_invariant [where Q = "\<lambda>_. True" and P = "\<lambda>t. find (block_at a l) (co_rows t) = Some b"])
     (auto simp: find_append split: if_splits)

lemma read_only_kept:
  assumes "getBlock a l t = Inr b" "isReadOnlyForRp l" "\<not> by_task_agent c"
  shows "getBlock a l (core_run c t) = Inr b"
  using assms
  by (cases c) (auto simp: appendBlock_def replaceBlock_def Let_def getBlock_setValue find_init
      split: sum.split option.split, auto simp: getBlock_def find_init split: option.splits)

text \<open>
  From an empty table, under every sequence of initialisations, appends,
  replacements and index updates by any callers, a block is never longer than its limit,
  which is the default of its label, and an agent has at most one block of a label. The
  blocks \<open>index\<close>, \<open>pinned_index\<close> and \<open>user\<close> are not changed by a sequence of calls none of which
  comes from the task agent.
\<close>

theorem core_blocks_bounded:
  assumes "t = fold core_run calls \<lparr>co_rows = [], co_next = 1\<rparr>"
  shows "distinct (map (\<lambda>b. (cb_agent b, cb_label b)) (co_rows t)) \<and>
    (\<forall>b \<in> set (co_rows t). length (cb_value b) \<le> cb_charLimit b \<and>
       (cb_label b, cb_charLimit b) \<in> set (map (\<lambda>(l, d, n, r). (l, n)) BLOCK_DEFAULTS)) \<and>
    (\<forall>later a l b. list_all (\<lambda>c. \<not> by_task_agent c) later \<and> l \<in> {L_index, L_pinned_index, L_user} \<and>
       getBlock a l t = Inr b \<longrightarrow> getBlock a l (fold core_run later t) = Inr b)"
proof -
  have "core_ok (fold core_run calls t)" if "core_ok t" for t
    using that by (induction calls arbitrary: t) (simp_all add: core_ok_run)
  moreover have "core_ok \<lparr>co_rows = [], co_next = 1\<rparr>" by (simp add: core_ok_def)
  ultimately have "core_ok t" using assms by simp
  moreover have "getBlock a l (fold core_run later t) = Inr b"
    if "list_all (\<lambda>c. \<not> by_task_agent c) later" "l \<in> {L_index, L_pinned_index, L_user}" "getBlock a l t = Inr b"
    for later a l b and t :: core_table
  proof -
    have "isReadOnlyForRp l" using that(2) by (auto simp: isReadOnlyForRp_def RP_READ_ONLY_def)
    with that(1,3) show ?thesis by (induction later arbitrary: t) (simp_all add: read_only_kept)
  qed
  ultimately show ?thesis unfolding core_ok_def by blast
qed

section \<open>Examples\<close>

definition sample_core :: core_table where
  "sample_core = fold core_run [K_init ''m'' 1, K_append ''m'' L_persona ''a quiet cat'' None 2] \<lparr>co_rows = [], co_next = 1\<rparr>"

theorem replace_outcome_witness:
  "fst (replaceBlock ''m'' L_persona ''cat'' ''dog'' None 3 sample_core) = Inr (Replaced 11) \<and>
   (\<exists>b'. getBlock ''m'' L_persona (snd (replaceBlock ''m'' L_persona ''cat'' ''dog'' None 3 sample_core)) = Inr b' \<and>
      length (cb_value b') = 11)"
proof -
  have "isl (getBlock ''m'' L_persona sample_core) = False" by code_simp
  then obtain b where b: "getBlock ''m'' L_persona sample_core = Inr b" by (auto simp: isl_def) (metis sum.exhaust)
  have r: "fst (replaceBlock ''m'' L_persona ''cat'' ''dog'' None 3 sample_core) = Inr (Replaced 11)" by code_simp
  with replace_outcome [OF b, of "''cat''" "''dog''" None 3] show ?thesis
    by (cases "replaceBlock ''m'' L_persona ''cat'' ''dog'' None 3 sample_core") fastforce
qed

theorem core_blocks_bounded_witness:
  "list_all (\<lambda>b. length (cb_value b) \<le> cb_charLimit b) (co_rows sample_core) \<and> length (co_rows sample_core) = 5"
proof -
  have "length (co_rows sample_core) = 5" by code_simp
  with core_blocks_bounded [OF sample_core_def] show ?thesis unfolding list_all_iff by blast
qed

end
