(* ===== verification/World_State.thy ===== *)
theory World_State
  imports Js_Values Errors
begin

text \<open>
  The state of areas and of the world: the append-only event tables, the projections of their
  latest values and the narratives, as in
  \<^verbatim>\<open>src/storage/domain-repos/pg/area-world-projection-repo.ts\<close> (the types and literals are those
  of \<^verbatim>\<open>src/memory/projection/area-world-projection-repo.ts\<close>).

  A value is given as it reaches the repository: a string by what \<open>JSON.parse\<close> makes of its
  text. The tables of areas have keys of agent, area and key, those of the world keys of
  one part; the locale \<open>state_projection\<close> holds what is common to both. \<open>Date.now()\<close> is an
  argument, read once per call, and so is the text of a number in a JSON text.
\<close>

section \<open>Tables\<close>

definition SURFACING_CLASSIFICATIONS :: "string list" where
  "SURFACING_CLASSIFICATIONS = [''public_manifestation'', ''latent_state_update'', ''private_only'']"

definition AREA_STATE_SOURCE_TYPES :: "string list" where
  "AREA_STATE_SOURCE_TYPES = [''system'', ''gm'', ''simulation'', ''inferred_world'']"

datatype trigger = T_publication | T_materialization | T_promotion

datatype target_scope = Current_area | World_public

record 'k state_event =
  se_id :: int
  se_key :: 'k
  se_value :: jsonb
  se_class :: string
  se_source :: string
  se_validTime :: int
  se_committedTime :: int
  se_settlementId :: string
  se_createdAt :: int

type_synonym area_key = "string \<times> int \<times> string"

record area_row =
  ar_key :: area_key
  ar_value :: jsonb
  ar_class :: string
  ar_source :: string
  ar_updatedAt :: int
  ar_validTime :: int
  ar_committedTime :: int

record world_row =
  wr_key :: string
  wr_value :: jsonb
  wr_class :: string
  wr_updatedAt :: int
  wr_validTime :: int
  wr_committedTime :: int

record 'k state_as_of =
  ao_key :: 'k
  ao_value :: jsonb
  ao_class :: string
  ao_source :: string
  ao_validTime :: int
  ao_committedTime :: int

record upsert_input =
  up_value :: "jsonb option"
  up_class :: string
  up_source :: "string option"
  up_updatedAt :: "int option"
  up_validTime :: "int option"
  up_committedTime :: "int option"
  up_settlementId :: "string option"

record world_db =
  area_events :: "area_key state_event list"
  area_next :: int
  area_current :: "area_row list"
  area_narrative :: "((string \<times> int) \<times> string \<times> int) list"
  world_events :: "string state_event list"
  world_next :: int
  world_current :: "world_row list"
  world_narrative :: "(string \<times> int) option"

abbreviation in_area :: "string \<Rightarrow> int \<Rightarrow> area_key \<Rightarrow> bool" where
  "in_area agentId areaId k \<equiv> fst k = agentId \<and> fst (snd k) = areaId"

section \<open>Statements\<close>

text \<open>\<open>ON CONFLICT (key) DO UPDATE\<close> of every other column.\<close>

definition upsert_row :: "('r \<Rightarrow> 'k) \<Rightarrow> 'r \<Rightarrow> 'r list \<Rightarrow> 'r list" where
  "upsert_row key r t =
     (if list_ex (\<lambda>x. key x = key r) t then update_where (\<lambda>x. key x = key r) (\<lambda>_. r) t else t @ [r])"

text \<open>\<open>ORDER BY committed_time DESC, id DESC LIMIT 1\<close>.\<close>

definition newest_first :: "'k state_event \<Rightarrow> 'k state_event \<Rightarrow> bool" where
  "newest_first e e' \<longleftrightarrow>
     (if se_committedTime e \<noteq> se_committedTime e' then se_committedTime e' < se_committedTime e
      else se_id e' < se_id e)"

definition newest_event :: "'k state_event list \<Rightarrow> 'k state_event option" where
  "newest_event es = (case sort_by newest_first es of [] \<Rightarrow> None | e # _ \<Rightarrow> Some e)"

definition newest_of_key :: "'k state_event list \<Rightarrow> 'k state_event \<Rightarrow> bool" where
  "newest_of_key es e =
     (map_option se_id (newest_event (filter (\<lambda>e'. se_key e' = se_key e) es)) = Some (se_id e))"

section \<open>Values and checks\<close>

definition jsonb_of :: "jsonb option \<Rightarrow> jsonb" where
  "jsonb_of v =
     (case v of
        None \<Rightarrow> JVal (JObj [])
      | Some (JText t) \<Rightarrow> normalizeJsonValue (JText t)
      | Some (JVal x) \<Rightarrow> JVal (if x = JNull then JObj [] else to_json x))"

definition stringifyJsonb :: "jsonb \<Rightarrow> jsonb" where
  "stringifyJsonb v =
     (case v of JText t \<Rightarrow> JText t | JVal x \<Rightarrow> stringify (JVal (if x = JNull then JObj [] else x)))"

definition resolveSettlementId :: "string option \<Rightarrow> int \<Rightarrow> string" where
  "resolveSettlementId settlementId committedTime =
     (case settlementId of
        Some s \<Rightarrow> if s \<noteq> [] \<and> length (js_trim s) > 0 then s else ''legacy:auto:'' @ int_str committedTime
      | None \<Rightarrow> ''legacy:auto:'' @ int_str committedTime)"

definition assertSurfacingClassification :: "string \<Rightarrow> bool" where
  "assertSurfacingClassification c = (c \<in> set SURFACING_CLASSIFICATIONS)"

definition assertAreaStateSourceType :: "string \<Rightarrow> bool" where
  "assertAreaStateSourceType s = (s \<in> set AREA_STATE_SOURCE_TYPES)"

definition assertWorldClassification :: "string \<Rightarrow> bool" where
  "assertWorldClassification c = (c = ''public_manifestation'')"

definition assertTrigger :: "trigger \<Rightarrow> trigger list \<Rightarrow> bool" where
  "assertTrigger t allowed = (t \<in> set allowed)"

abbreviation given :: "'a option \<Rightarrow> 'a \<Rightarrow> 'a" where
  "given x d \<equiv> (case x of Some v \<Rightarrow> v | None \<Rightarrow> d)"

definition state_event :: "'k \<Rightarrow> upsert_input \<Rightarrow> int \<Rightarrow> int \<Rightarrow> 'k state_event" where
  "state_event k inp now i =
     (let updatedAt = given (up_updatedAt inp) now;
          committedTime = given (up_committedTime inp) updatedAt
      in \<lparr>se_id = i, se_key = k, se_value = jsonb_of (up_value inp), se_class = up_class inp,
          se_source = given (up_source inp) ''system'', se_validTime = given (up_validTime inp) updatedAt,
          se_committedTime = committedTime,
          se_settlementId = resolveSettlementId (up_settlementId inp) committedTime,
          se_createdAt = committedTime\<rparr>)"

definition area_row_of :: "int \<Rightarrow> area_key state_event \<Rightarrow> area_row" where
  "area_row_of updatedAt e =
     \<lparr>ar_key = se_key e, ar_value = se_value e, ar_class = se_class e, ar_source = se_source e,
      ar_updatedAt = updatedAt, ar_validTime = se_validTime e, ar_committedTime = se_committedTime e\<rparr>"

definition world_row_of :: "int \<Rightarrow> string state_event \<Rightarrow> world_row" where
  "world_row_of updatedAt e =
     \<lparr>wr_key = se_key e, wr_value = se_value e, wr_class = se_class e,
      wr_updatedAt = updatedAt, wr_validTime = se_validTime e, wr_committedTime = se_committedTime e\<rparr>"

definition as_of_row :: "'k state_event \<Rightarrow> 'k state_as_of" where
  "as_of_row e =
     \<lparr>ao_key = se_key e, ao_value = stringifyJsonb (se_value e), ao_class = se_class e, ao_source = se_source e,
      ao_validTime = se_validTime e, ao_committedTime = se_committedTime e\<rparr>"

section \<open>Areas\<close>

definition upsertAreaStateCurrent :: "area_key \<Rightarrow> upsert_input \<Rightarrow> int \<Rightarrow> world_db \<Rightarrow> (thrown, unit) result \<times> world_db" where
  "upsertAreaStateCurrent k inp now db =
     (let e = state_event k inp now (area_next db)
      in if \<not> assertSurfacingClassification (se_class e) then (Inl Plain_error, db)
         else if \<not> assertAreaStateSourceType (se_source e) then (Inl Plain_error, db)
         else (Inr (), db\<lparr>area_events := area_events db @ [e], area_next := area_next db + 1,
                area_current := upsert_row ar_key (area_row_of (given (up_updatedAt inp) now) e) (area_current db)\<rparr>))"

definition rebuildAreaCurrentFromEvents :: "string \<Rightarrow> int \<Rightarrow> world_db \<Rightarrow> world_db" where
  "rebuildAreaCurrentFromEvents agentId areaId db =
     db\<lparr>area_current := delete_where (\<lambda>r. in_area agentId areaId (ar_key r)) (area_current db) @
          map (\<lambda>e. area_row_of (se_committedTime e) e)
            (filter (\<lambda>e. in_area agentId areaId (se_key e) \<and> newest_of_key (area_events db) e) (area_events db))\<rparr>"

definition getAreaStateCurrent :: "area_key \<Rightarrow> world_db \<Rightarrow> area_row option" where
  "getAreaStateCurrent k db =
     map_option (\<lambda>r. r\<lparr>ar_value := stringifyJsonb (ar_value r)\<rparr>) (find (\<lambda>r. ar_key r = k) (area_current db))"

definition getAreaStateAsOf :: "area_key \<Rightarrow> int \<Rightarrow> world_db \<Rightarrow> area_key state_as_of option" where
  "getAreaStateAsOf k asOfCommittedTime db =
     map_option as_of_row
       (newest_event (filter (\<lambda>e. se_key e = k \<and> se_committedTime e \<le> asOfCommittedTime) (area_events db)))"

definition upsertAreaNarrativeCurrent :: "string \<Rightarrow> int \<Rightarrow> string \<Rightarrow> int option \<Rightarrow> int \<Rightarrow> world_db \<Rightarrow> world_db" where
  "upsertAreaNarrativeCurrent agentId areaId summaryText updatedAt now db =
     db\<lparr>area_narrative := AList.update (agentId, areaId) (summaryText, given updatedAt now) (area_narrative db)\<rparr>"

definition getAreaNarrativeCurrent :: "string \<Rightarrow> int \<Rightarrow> world_db \<Rightarrow> (string \<times> int) option" where
  "getAreaNarrativeCurrent agentId areaId db = map_of (area_narrative db) (agentId, areaId)"

section \<open>The world\<close>

definition upsertWorldStateCurrent :: "string \<Rightarrow> upsert_input \<Rightarrow> int \<Rightarrow> world_db \<Rightarrow> (thrown, unit) result \<times> world_db" where
  "upsertWorldStateCurrent k inp now db =
     (let e = state_event k inp now (world_next db)
      in if \<not> assertSurfacingClassification (se_class e) then (Inl Plain_error, db)
         else if \<not> assertAreaStateSourceType (se_source e) then (Inl Plain_error, db)
         else (Inr (), db\<lparr>world_events := world_events db @ [e], world_next := world_next db + 1,
                world_current := upsert_row wr_key (world_row_of (given (up_updatedAt inp) now) e) (world_current db)\<rparr>))"

definition rebuildWorldCurrentFromEvents :: "world_db \<Rightarrow> world_db" where
  "rebuildWorldCurrentFromEvents db =
     db\<lparr>world_current := map (\<lambda>e. world_row_of (se_committedTime e) e)
          (filter (newest_of_key (world_events db)) (world_events db))\<rparr>"

definition getWorldStateCurrent :: "string \<Rightarrow> world_db \<Rightarrow> world_row option" where
  "getWorldStateCurrent k db =
     map_option (\<lambda>r. r\<lparr>wr_value := stringifyJsonb (wr_value r)\<rparr>) (find (\<lambda>r. wr_key r = k) (world_current db))"

definition getWorldStateAsOf :: "string \<Rightarrow> int \<Rightarrow> world_db \<Rightarrow> string state_as_of option" where
  "getWorldStateAsOf k asOfCommittedTime db =
     map_option as_of_row
       (newest_event (filter (\<lambda>e. se_key e = k \<and> se_committedTime e \<le> asOfCommittedTime) (world_events db)))"

definition upsertWorldNarrativeCurrent :: "string \<Rightarrow> int option \<Rightarrow> int \<Rightarrow> world_db \<Rightarrow> world_db" where
  "upsertWorldNarrativeCurrent summaryText updatedAt now db =
     db\<lparr>world_narrative := Some (summaryText, given updatedAt now)\<rparr>"

definition getWorldNarrativeCurrent :: "world_db \<Rightarrow> (string \<times> int) option" where
  "getWorldNarrativeCurrent db = world_narrative db"

section \<open>Projections of a turn\<close>

record projection_input =
  pi_trigger :: trigger
  pi_targetScope :: target_scope
  pi_agentId :: string
  pi_areaId :: int
  pi_settlementId :: "string option"
  pi_projectionKey :: string
  pi_summaryText :: string
  pi_payload :: "jsonb option"
  pi_class :: "string option"
  pi_updatedAt :: "int option"

definition classification :: "projection_input \<Rightarrow> string" where
  "classification inp = given (pi_class inp) ''public_manifestation''"

definition upsert_of :: "projection_input \<Rightarrow> upsert_input" where
  "upsert_of inp =
     \<lparr>up_value = (if pi_payload inp = None \<or> pi_payload inp = Some (JVal JNull)
                  then Some (JVal (JObj [(''summary'', JStr (pi_summaryText inp))])) else pi_payload inp),
      up_class = classification inp, up_source = None, up_updatedAt = pi_updatedAt inp, up_validTime = None,
      up_committedTime = None, up_settlementId = pi_settlementId inp\<rparr>"

definition project_world :: "projection_input \<Rightarrow> int \<Rightarrow> world_db \<Rightarrow> (thrown, unit) result \<times> world_db" where
  "project_world inp now db =
     (if \<not> assertWorldClassification (classification inp) then (Inl Plain_error, db)
      else (case upsertWorldStateCurrent (pi_projectionKey inp) (upsert_of inp) now db of
              (Inl e, db') \<Rightarrow> (Inl e, db')
            | (Inr _, db') \<Rightarrow> (Inr (), upsertWorldNarrativeCurrent (pi_summaryText inp) (pi_updatedAt inp) now db')))"

definition project_area :: "projection_input \<Rightarrow> int \<Rightarrow> world_db \<Rightarrow> (thrown, unit) result \<times> world_db" where
  "project_area inp now db =
     (case upsertAreaStateCurrent (pi_agentId inp, pi_areaId inp, pi_projectionKey inp) (upsert_of inp) now db of
        (Inl e, db') \<Rightarrow> (Inl e, db')
      | (Inr _, db') \<Rightarrow>
          (Inr (), if classification inp = ''public_manifestation''
                   then upsertAreaNarrativeCurrent (pi_agentId inp) (pi_areaId inp) (pi_summaryText inp)
                          (pi_updatedAt inp) now db'
                   else db'))"

definition applyPublicationProjection :: "projection_input \<Rightarrow> int \<Rightarrow> world_db \<Rightarrow> (thrown, unit) result \<times> world_db" where
  "applyPublicationProjection inp now db =
     (if \<not> assertTrigger (pi_trigger inp) [T_publication] then (Inl Plain_error, db)
      else case pi_targetScope inp of
        World_public \<Rightarrow> project_world inp now db
      | Current_area \<Rightarrow> project_area inp now db)"

definition applyMaterializationProjection :: "projection_input \<Rightarrow> int \<Rightarrow> world_db \<Rightarrow> (thrown, unit) result \<times> world_db" where
  "applyMaterializationProjection inp now db =
     (if \<not> assertTrigger (pi_trigger inp) [T_materialization] then (Inl Plain_error, db)
      else project_area inp now db)"

definition applyPromotionProjection :: "projection_input \<Rightarrow> int \<Rightarrow> world_db \<Rightarrow> (thrown, unit) result \<times> world_db" where
  "applyPromotionProjection inp now db =
     (if \<not> assertTrigger (pi_trigger inp) [T_promotion] then (Inl Plain_error, db)
      else project_world inp now db)"

section \<open>Projections of an event table\<close>

interpretation newest: ranked newest_first "\<lambda>e. (- se_committedTime e, - se_id e)"
  by unfold_locales (auto simp: newest_first_def)

lemma newest_event_None: "newest_event es = None \<longleftrightarrow> es = []"
proof -
  have "sort_by newest_first es = [] \<longleftrightarrow> es = []"
    using length_sort_by [of newest_first es] by (metis length_0_conv)
  then show ?thesis by (auto simp: newest_event_def split: list.split)
qed

lemma newest_event_greatest:
  assumes "newest_event es = Some e"
  shows "e \<in> set es" and "x \<in> set es \<Longrightarrow> (se_committedTime x, se_id x) \<le> (se_committedTime e, se_id e)"
proof -
  obtain es' where s: "sort_by newest_first es = e # es'"
    using assms by (auto simp: newest_event_def split: list.splits)
  then have es: "set es = insert e (set es')" using set_sort_by [of newest_first es] by simp
  then show "e \<in> set es" by simp
  assume "x \<in> set es"
  with es s newest.sorted_sort_by [of es] have "x = e \<or> \<not> newest_first x e" by auto
  then show "(se_committedTime x, se_id x) \<le> (se_committedTime e, se_id e)"
    by (auto simp: newest_first_def split: if_splits)
qed

lemma newest_event_unique:
  assumes "distinct (map se_id es)" "e \<in> set es"
    and "\<And>x. x \<in> set es \<Longrightarrow> (se_committedTime x, se_id x) \<le> (se_committedTime e, se_id e)"
  shows "newest_event es = Some e"
proof (cases "newest_event es")
  case None
  with assms(2) show ?thesis by (simp add: newest_event_None)
next
  case (Some m)
  note m = newest_event_greatest [OF Some]
  have "(se_committedTime m, se_id m) = (se_committedTime e, se_id e)"
    using assms(2,3) m by (intro antisym) blast+
  with m(1) have "m \<in> set es" "se_id m = se_id e" by simp_all
  with distinct_key_unique [OF assms(1)] assms(2) Some show ?thesis by auto
qed

lemma find_upsert_row:
  "find (\<lambda>x. key x = k) (upsert_row key r t) = (if k = key r then Some r else find (\<lambda>x. key x = k) t)"
proof (cases "list_ex (\<lambda>x. key x = key r) t")
  case True
  have "find (\<lambda>x. key x = k) (update_where (\<lambda>x. key x = key r) (\<lambda>_. r) t) = find (\<lambda>x. key x = k) t"
    if "k \<noteq> key r" using that by (induction t) (auto simp: table_simps)
  moreover have "find (\<lambda>x. key x = key r) (update_where (\<lambda>x. key x = key r) (\<lambda>_. r) t) = Some r"
    using True by (induction t) (auto simp: table_simps)
  ultimately show ?thesis using True by (simp add: upsert_row_def)
next
  case False
  then have "find (\<lambda>x. key x = key r) t = None" by (simp add: find_None_iff list_ex_iff)
  with False show ?thesis by (auto simp: upsert_row_def find_append split: option.split)
qed

locale state_projection =
  fixes row_key :: "'r \<Rightarrow> 'k" and row_of :: "int \<Rightarrow> 'k state_event \<Rightarrow> 'r"
    and seen :: "'r \<Rightarrow> 'c" and seen_event :: "'k state_event \<Rightarrow> 'c"
  assumes row_key_of [simp]: "row_key (row_of u e) = se_key e"
    and seen_row_of [simp]: "seen (row_of u e) = seen_event e"
begin

definition of_key :: "'k \<Rightarrow> 'k state_event list \<Rightarrow> 'k state_event list" where
  "of_key k es = filter (\<lambda>e. se_key e = k) es"

text \<open>Events written in the order of their commit times, the last before \<open>t\<close>, and their projection.\<close>

definition projected :: "int \<Rightarrow> int \<Rightarrow> 'k state_event list \<Rightarrow> 'r list \<Rightarrow> bool" where
  "projected t n es cur \<longleftrightarrow>
     distinct (map se_id es) \<and> (\<forall>e \<in> set es. se_id e < n \<and> se_committedTime e \<le> t) \<and>
     (\<forall>k. map_option seen (find (\<lambda>r. row_key r = k) cur) = map_option seen_event (newest_event (of_key k es)))"

lemma projected_empty: "projected t n [] []"
  by (simp add: projected_def of_key_def newest_event_def)

lemma projected_later: "projected t n es cur \<Longrightarrow> t \<le> t' \<Longrightarrow> projected t' n es cur"
  by (fastforce simp: projected_def)

lemma projected_write:
  assumes "projected t n es cur" "t \<le> se_committedTime e" "se_id e = n"
  shows "projected (se_committedTime e) (n + 1) (es @ [e]) (upsert_row row_key (row_of u e) cur)"
proof -
  from assms have less: "se_id x < se_id e" "se_committedTime x \<le> se_committedTime e" if "x \<in> set es" for x
    using that by (auto simp: projected_def intro: order_trans)
  have dist: "distinct (map se_id (es @ [e]))" using assms(1) less(1) by (fastforce simp: projected_def)
  have "newest_event (of_key (se_key e) (es @ [e])) = Some e"
    using dist less by (intro newest_event_unique) (auto simp: of_key_def distinct_map_filter order_le_less)
  moreover have "of_key k (es @ [e]) = of_key k es" if "k \<noteq> se_key e" for k
    using that by (simp add: of_key_def)
  ultimately show ?thesis
    using assms(1,3) dist less by (auto simp: projected_def find_upsert_row intro: order_trans less_imp_le)
qed

lemma find_rebuilt:
  assumes "distinct (map se_id es)"
  shows "find (\<lambda>r. row_key r = k)
      (map (\<lambda>e. row_of (se_committedTime e) e) (filter (\<lambda>e. p (se_key e) \<and> newest_of_key es e) es)) =
    (if p k then map_option (\<lambda>e. row_of (se_committedTime e) e) (newest_event (of_key k es)) else None)"
proof -
  let ?new = "newest_event (of_key k es)"
  let ?sel = "\<lambda>e. p (se_key e) \<and> newest_of_key es e \<and> se_key e = k"
  have new: "m \<in> set es" "se_key m = k" if "?new = Some m" for m
    using newest_event_greatest(1) [OF that] by (simp_all add: of_key_def)
  have sel: "?sel e \<longleftrightarrow> p k \<and> ?new = Some e" if e: "e \<in> set es" for e
  proof (cases "se_key e = k")
    case True
    have "map_option se_id ?new = Some (se_id e) \<longleftrightarrow> ?new = Some e"
    proof (cases ?new)
      case (Some m)
      with distinct_key_unique [OF assms new(1) [OF Some] e] show ?thesis by auto
    next
      case None
      show ?thesis unfolding None by simp
    qed
    with True show ?thesis by (simp add: newest_of_key_def of_key_def)
  next
    case False
    with new(2) show ?thesis by blast
  qed
  have rows: "find (\<lambda>r. row_key r = k) (map (\<lambda>e. row_of (se_committedTime e) e) (filter q xs)) =
      map_option (\<lambda>e. row_of (se_committedTime e) e) (find (\<lambda>e. q e \<and> se_key e = k) xs)" for q xs
    by (induction xs) auto
  have found: "find ?sel es = (if p k then ?new else None)"
  proof (cases "p k \<and> ?new \<noteq> None")
    case True
    then obtain m where m: "?new = Some m" by blast
    have "?sel m" using sel [OF new(1) [OF m]] m True by simp
    then have "find ?sel es \<noteq> None" using new(1) [OF m] unfolding find_None_iff by blast
    then obtain x where x: "find ?sel es = Some x" by blast
    from find_SomeD [OF x] sel m have "x = m" by (metis option.inject)
    with x m True show ?thesis by simp
  next
    case False
    have "\<not> ?sel x" if "x \<in> set es" for x using sel [OF that] False by blast
    then have "find ?sel es = None" unfolding find_None_iff by blast
    with False show ?thesis by (simp split: if_split)
  qed
  have "(\<lambda>e. (p (se_key e) \<and> newest_of_key es e) \<and> se_key e = k) = ?sel" by auto
  with rows [of "\<lambda>e. p (se_key e) \<and> newest_of_key es e" es] found show ?thesis by simp
qed

lemma projected_rebuild:
  assumes "projected t n es cur"
  shows "projected t n es (delete_where (\<lambda>r. p (row_key r)) cur @
    map (\<lambda>e. row_of (se_committedTime e) e) (filter (\<lambda>e. p (se_key e) \<and> newest_of_key es e) es))"
proof -
  have "find (\<lambda>r. row_key r = k) (delete_where (\<lambda>r. p (row_key r)) cur) =
      (if p k then None else find (\<lambda>r. row_key r = k) cur)" for k
    by (auto simp: find_delete_where find_None_iff intro: arg_cong [where f = "\<lambda>q. find q cur"])
  moreover have cur: "map_option seen (find (\<lambda>r. row_key r = k) cur) = map_option seen_event (newest_event (of_key k es))"
    for k using assms by (simp add: projected_def)
  ultimately have "map_option seen (find (\<lambda>r. row_key r = k) (delete_where (\<lambda>r. p (row_key r)) cur @
      map (\<lambda>e. row_of (se_committedTime e) e) (filter (\<lambda>e. p (se_key e) \<and> newest_of_key es e) es))) =
      map_option seen_event (newest_event (of_key k es))" for k
    using assms find_rebuilt [of es k p] cur [of k]
    by (cases "p k"; cases "find (\<lambda>r. row_key r = k) cur")
       (simp_all add: projected_def find_append option.map_comp comp_def)
  with assms show ?thesis by (simp add: projected_def)
qed

lemma rebuild_same:
  assumes "projected t n es cur"
  shows "map_option seen (find (\<lambda>r. row_key r = k) (delete_where (\<lambda>r. p (row_key r)) cur @
      map (\<lambda>e. row_of (se_committedTime e) e) (filter (\<lambda>e. p (se_key e) \<and> newest_of_key es e) es))) =
    map_option seen (find (\<lambda>r. row_key r = k) cur)"
  using projected_rebuild [OF assms, of p] assms by (simp only: projected_def)

text \<open>Later events, all committed after \<open>T\<close>, do not change the view as of \<open>T\<close>.\<close>

lemma as_of_past:
  assumes "projected t n es cur" "t \<le> T" "\<forall>e \<in> set later. T < se_committedTime e"
  shows "map_option seen_event (newest_event
      (filter (\<lambda>e. se_key e = k \<and> se_committedTime e \<le> T) (es @ later))) =
    map_option seen (find (\<lambda>r. row_key r = k) cur)"
proof -
  have "filter (\<lambda>e. se_key e = k \<and> se_committedTime e \<le> T) later = []"
    using assms(3) by (auto simp: filter_empty_conv)
  moreover have "filter (\<lambda>e. se_key e = k \<and> se_committedTime e \<le> T) es = of_key k es"
    unfolding of_key_def by (rule filter_cong) (use assms(1,2) in \<open>auto simp: projected_def\<close>)
  ultimately have "filter (\<lambda>e. se_key e = k \<and> se_committedTime e \<le> T) (es @ later) = of_key k es" by simp
  with assms(1) show ?thesis by (simp add: projected_def)
qed

end

section \<open>Both tables are projections of their events\<close>

definition area_view :: "area_row \<Rightarrow> area_key state_as_of" where
  "area_view r =
     \<lparr>ao_key = ar_key r, ao_value = ar_value r, ao_class = ar_class r, ao_source = ar_source r,
      ao_validTime = ar_validTime r, ao_committedTime = ar_committedTime r\<rparr>"

definition area_event_view :: "area_key state_event \<Rightarrow> area_key state_as_of" where
  "area_event_view e =
     \<lparr>ao_key = se_key e, ao_value = se_value e, ao_class = se_class e, ao_source = se_source e,
      ao_validTime = se_validTime e, ao_committedTime = se_committedTime e\<rparr>"

definition world_view :: "world_row \<Rightarrow> string \<times> jsonb \<times> string \<times> int \<times> int" where
  "world_view r = (wr_key r, wr_value r, wr_class r, wr_validTime r, wr_committedTime r)"

definition world_event_view :: "string state_event \<Rightarrow> string \<times> jsonb \<times> string \<times> int \<times> int" where
  "world_event_view e = (se_key e, se_value e, se_class e, se_validTime e, se_committedTime e)"

interpretation areas: state_projection ar_key area_row_of area_view area_event_view
  by unfold_locales (simp_all add: area_row_of_def area_view_def area_event_view_def)

interpretation worlds: state_projection wr_key world_row_of world_view world_event_view
  by unfold_locales (simp_all add: world_row_of_def world_view_def world_event_view_def)

section \<open>Histories\<close>

datatype state_call =
    SC_area area_key upsert_input
  | SC_world string upsert_input
  | SC_area_text string int string "int option"
  | SC_world_text string "int option"
  | SC_publication projection_input
  | SC_materialization projection_input
  | SC_promotion projection_input
  | SC_rebuild_area string int
  | SC_rebuild_world

fun run_state :: "state_call \<Rightarrow> int \<Rightarrow> world_db \<Rightarrow> (thrown, unit) result \<times> world_db" where
  "run_state (SC_area k inp) now db = upsertAreaStateCurrent k inp now db"
| "run_state (SC_world k inp) now db = upsertWorldStateCurrent k inp now db"
| "run_state (SC_area_text a i s u) now db = (Inr (), upsertAreaNarrativeCurrent a i s u now db)"
| "run_state (SC_world_text s u) now db = (Inr (), upsertWorldNarrativeCurrent s u now db)"
| "run_state (SC_publication p) now db = applyPublicationProjection p now db"
| "run_state (SC_materialization p) now db = applyMaterializationProjection p now db"
| "run_state (SC_promotion p) now db = applyPromotionProjection p now db"
| "run_state (SC_rebuild_area a i) now db = (Inr (), rebuildAreaCurrentFromEvents a i db)"
| "run_state SC_rebuild_world now db = (Inr (), rebuildWorldCurrentFromEvents db)"

definition run_states :: "(int \<times> state_call) list \<Rightarrow> world_db \<Rightarrow> world_db" where
  "run_states calls db = fold (\<lambda>(now, c) db. snd (run_state c now db)) calls db"

definition no_state :: world_db where
  "no_state = \<lparr>area_events = [], area_next = 1, area_current = [], area_narrative = [],
     world_events = [], world_next = 1, world_current = [], world_narrative = None\<rparr>"

text \<open>The commit time of the event a call writes, if it writes one.\<close>

abbreviation commit_of :: "upsert_input \<Rightarrow> int \<Rightarrow> int" where
  "commit_of inp now \<equiv> given (up_committedTime inp) (given (up_updatedAt inp) now)"

fun commit_time :: "int \<times> state_call \<Rightarrow> int option" where
  "commit_time (now, SC_area k inp) = Some (commit_of inp now)"
| "commit_time (now, SC_world k inp) = Some (commit_of inp now)"
| "commit_time (now, SC_publication p) = Some (given (pi_updatedAt p) now)"
| "commit_time (now, SC_materialization p) = Some (given (pi_updatedAt p) now)"
| "commit_time (now, SC_promotion p) = Some (given (pi_updatedAt p) now)"
| "commit_time (now, _) = None"

primrec commit_times :: "(int \<times> state_call) list \<Rightarrow> int list" where
  "commit_times [] = []"
| "commit_times (c # calls) =
     (case commit_time c of None \<Rightarrow> commit_times calls | Some u \<Rightarrow> u # commit_times calls)"

lemma commit_times_append [simp]: "commit_times (calls @ later) = commit_times calls @ commit_times later"
  by (induction calls) (auto split: option.split)

definition projected_at :: "int \<Rightarrow> world_db \<Rightarrow> bool" where
  "projected_at t db \<longleftrightarrow> areas.projected t (area_next db) (area_events db) (area_current db) \<and>
     worlds.projected t (world_next db) (world_events db) (world_current db)"

text \<open>A call writes at most one event in all, with its commit time.\<close>

definition grows_by :: "int option \<Rightarrow> world_db \<Rightarrow> world_db \<Rightarrow> bool" where
  "grows_by t db db' \<longleftrightarrow>
     (\<exists>es ws. area_events db' = area_events db @ es \<and> world_events db' = world_events db @ ws \<and>
        se_committedTime ` set es \<subseteq> set_option t \<and> se_committedTime ` set ws \<subseteq> set_option t)"

lemma commit_of_upsert [simp]: "commit_of (upsert_of p) now = given (pi_updatedAt p) now"
  by (simp add: upsert_of_def)

lemma state_event_sel [simp]:
  "se_id (state_event k inp now i) = i" "se_key (state_event k inp now i) = k"
  "se_committedTime (state_event k inp now i) = commit_of inp now"
  "se_class (state_event k inp now i) = up_class inp"
  "se_source (state_event k inp now i) = given (up_source inp) ''system''"
  by (simp_all add: state_event_def Let_def)

lemma narratives_keep [simp]:
  "projected_at t (upsertAreaNarrativeCurrent a i s u now db) = projected_at t db"
  "projected_at t (upsertWorldNarrativeCurrent s u now db) = projected_at t db"
  "grows_by c db0 (upsertAreaNarrativeCurrent a i s u now db) = grows_by c db0 db"
  "grows_by c db0 (upsertWorldNarrativeCurrent s u now db) = grows_by c db0 db"
  by (simp_all add: projected_at_def grows_by_def upsertAreaNarrativeCurrent_def upsertWorldNarrativeCurrent_def)

lemma projected_at_later:
  assumes "projected_at t db" "t \<le> t'"
  shows "projected_at t' db"
  unfolding projected_at_def
  using assms areas.projected_later [OF _ assms(2)] worlds.projected_later [OF _ assms(2)]
  by (simp add: projected_at_def)

lemma area_upsert_step:
  assumes "projected_at t db" "t \<le> commit_of inp now"
  shows "projected_at (commit_of inp now) (snd (upsertAreaStateCurrent k inp now db))"
    and "grows_by (Some (commit_of inp now)) db (snd (upsertAreaStateCurrent k inp now db))"
proof -
  let ?e = "state_event k inp now (area_next db)"
  have "areas.projected t (area_next db) (area_events db) (area_current db)"
    using assms(1) by (simp add: projected_at_def)
  from areas.projected_write [OF this, of ?e] assms(2)
  have w: "areas.projected (commit_of inp now) (area_next db + 1) (area_events db @ [?e])
      (upsert_row ar_key (area_row_of (given (up_updatedAt inp) now) ?e) (area_current db))" by simp
  show "projected_at (commit_of inp now) (snd (upsertAreaStateCurrent k inp now db))"
    using w projected_at_later [OF assms]
    by (simp add: projected_at_def upsertAreaStateCurrent_def Let_def)
  show "grows_by (Some (commit_of inp now)) db (snd (upsertAreaStateCurrent k inp now db))"
    by (simp add: grows_by_def upsertAreaStateCurrent_def Let_def)
qed

lemma world_upsert_step:
  assumes "projected_at t db" "t \<le> commit_of inp now"
  shows "projected_at (commit_of inp now) (snd (upsertWorldStateCurrent k inp now db))"
    and "grows_by (Some (commit_of inp now)) db (snd (upsertWorldStateCurrent k inp now db))"
proof -
  let ?e = "state_event k inp now (world_next db)"
  have "worlds.projected t (world_next db) (world_events db) (world_current db)"
    using assms(1) by (simp add: projected_at_def)
  from worlds.projected_write [OF this, of ?e] assms(2)
  have w: "worlds.projected (commit_of inp now) (world_next db + 1) (world_events db @ [?e])
      (upsert_row wr_key (world_row_of (given (up_updatedAt inp) now) ?e) (world_current db))" by simp
  show "projected_at (commit_of inp now) (snd (upsertWorldStateCurrent k inp now db))"
    using w projected_at_later [OF assms]
    by (simp add: projected_at_def upsertWorldStateCurrent_def Let_def)
  show "grows_by (Some (commit_of inp now)) db (snd (upsertWorldStateCurrent k inp now db))"
    by (simp add: grows_by_def upsertWorldStateCurrent_def Let_def)
qed

lemma grows_by_refl [simp]: "grows_by c db db"
  by (auto simp: grows_by_def)

lemma project_step:
  assumes "projected_at t db" "t \<le> given (pi_updatedAt p) now"
  shows "projected_at (given (pi_updatedAt p) now) (snd (project_world p now db))"
    and "grows_by (Some (given (pi_updatedAt p) now)) db (snd (project_world p now db))"
    and "projected_at (given (pi_updatedAt p) now) (snd (project_area p now db))"
    and "grows_by (Some (given (pi_updatedAt p) now)) db (snd (project_area p now db))"
  using world_upsert_step [where t = t and db = db and inp = "upsert_of p" and now = now and k = "pi_projectionKey p"]
    area_upsert_step [where t = t and db = db and inp = "upsert_of p" and now = now
      and k = "(pi_agentId p, pi_areaId p, pi_projectionKey p)"]
    projected_at_later [OF assms] assms
  by (auto simp: project_world_def project_area_def split: prod.splits sum.splits)

lemma run_state_step:
  assumes "projected_at t db" "\<forall>u \<in> set_option (commit_time (now, c)). t \<le> u"
  shows "projected_at (given (commit_time (now, c)) t) (snd (run_state c now db))"
    and "grows_by (commit_time (now, c)) db (snd (run_state c now db))"
proof -
  have rebuilt: "projected_at t (rebuildAreaCurrentFromEvents a i db)" "projected_at t (rebuildWorldCurrentFromEvents db)"
    "grows_by None db (rebuildAreaCurrentFromEvents a i db)" "grows_by None db (rebuildWorldCurrentFromEvents db)" for a i
    using assms(1) areas.projected_rebuild [where p = "in_area a i"] worlds.projected_rebuild [where p = "\<lambda>_. True"]
    by (auto simp: projected_at_def grows_by_def rebuildAreaCurrentFromEvents_def rebuildWorldCurrentFromEvents_def
        delete_where_def)
  note later = projected_at_later [OF assms(1)]
  have refused: "projected_at u db" if "t \<le> u" for u using later that by blast
  note steps = area_upsert_step [where t = t and db = db and now = now, OF assms(1)]
    world_upsert_step [where t = t and db = db and now = now, OF assms(1)]
    project_step [where t = t and db = db and now = now, OF assms(1)]
  show "projected_at (given (commit_time (now, c)) t) (snd (run_state c now db))"
    using assms rebuilt(1,2) steps(1,3,5,7) refused
    by (cases c) (simp_all add: applyPublicationProjection_def applyMaterializationProjection_def
        applyPromotionProjection_def split: target_scope.split)
  show "grows_by (commit_time (now, c)) db (snd (run_state c now db))"
    using assms rebuilt(3,4) steps(2,4,6,8)
    by (cases c) (simp_all add: applyPublicationProjection_def applyMaterializationProjection_def
        applyPromotionProjection_def split: target_scope.split)
qed

lemma run_states_projected:
  "projected_at t db \<Longrightarrow> sorted (t # commit_times calls) \<Longrightarrow>
   projected_at (last (t # commit_times calls)) (run_states calls db)"
proof (induction calls arbitrary: t db)
  case Nil
  then show ?case by (simp add: run_states_def)
next
  case (Cons call calls)
  obtain now c where call: "call = (now, c)" by (cases call)
  have "projected_at (given (commit_time call) t) (snd (run_state c now db))"
    using Cons.prems call by (auto intro!: run_state_step(1))
  from Cons.IH [OF this] Cons.prems(2) show ?case
    by (cases "commit_time call") (auto simp: run_states_def call)
qed

lemma run_states_grow:
  assumes "projected_at t db" "sorted (t # commit_times calls)"
  shows "\<exists>es ws. area_events (run_states calls db) = area_events db @ es \<and>
    world_events (run_states calls db) = world_events db @ ws \<and>
    se_committedTime ` set es \<subseteq> set (commit_times calls) \<and> se_committedTime ` set ws \<subseteq> set (commit_times calls)"
  using assms
proof (induction calls arbitrary: t db)
  case Nil
  then show ?case by (simp add: run_states_def)
next
  case (Cons call calls)
  obtain now c where call: "call = (now, c)" by (cases call)
  have ok: "\<forall>u \<in> set_option (commit_time (now, c)). t \<le> u" using Cons.prems(2) call by auto
  let ?db = "snd (run_state c now db)"
  from run_state_step(2) [OF Cons.prems(1) ok] obtain es ws where 1:
    "area_events ?db = area_events db @ es" "world_events ?db = world_events db @ ws"
    "se_committedTime ` set es \<subseteq> set_option (commit_time call)" "se_committedTime ` set ws \<subseteq> set_option (commit_time call)"
    unfolding grows_by_def call by blast
  have "sorted (given (commit_time call) t # commit_times calls)"
    using Cons.prems(2) by (cases "commit_time call") auto
  with Cons.IH [OF run_state_step(1) [OF Cons.prems(1) ok]] obtain es' ws' where 2:
    "area_events (run_states calls ?db) = area_events ?db @ es'"
    "world_events (run_states calls ?db) = world_events ?db @ ws'"
    "se_committedTime ` set es' \<subseteq> set (commit_times calls)" "se_committedTime ` set ws' \<subseteq> set (commit_times calls)"
    unfolding call by blast
  have "set (commit_times (call # calls)) = set_option (commit_time call) \<union> set (commit_times calls)"
    by (cases "commit_time call") simp_all
  with 1 2 show ?case
    by (intro exI [of _ "es @ es'"] exI [of _ "ws @ ws'"]) (auto simp: run_states_def call)
qed

lemma no_state_projected: "projected_at t no_state"
  by (simp add: projected_at_def no_state_def areas.projected_empty worlds.projected_empty)

lemma area_read: "map_option area_view (getAreaStateCurrent k db) =
    map_option (\<lambda>a. a\<lparr>ao_value := stringifyJsonb (ao_value a)\<rparr>)
      (map_option area_view (find (\<lambda>r. ar_key r = k) (area_current db)))"
  by (simp add: getAreaStateCurrent_def option.map_comp comp_def area_view_def)

lemma area_as_of_read: "getAreaStateAsOf k T db =
    map_option (\<lambda>a. a\<lparr>ao_value := stringifyJsonb (ao_value a)\<rparr>) (map_option area_event_view
      (newest_event (filter (\<lambda>e. se_key e = k \<and> se_committedTime e \<le> T) (area_events db))))"
  by (simp add: getAreaStateAsOf_def option.map_comp comp_def area_event_view_def as_of_row_def [abs_def])

lemma world_read: "map_option world_view (getWorldStateCurrent k db) =
    map_option (\<lambda>(k, v, r). (k, stringifyJsonb v, r))
      (map_option world_view (find (\<lambda>r. wr_key r = k) (world_current db)))"
  by (simp add: getWorldStateCurrent_def option.map_comp comp_def world_view_def)

definition without_source :: "string state_as_of \<Rightarrow> string \<times> jsonb \<times> string \<times> int \<times> int" where
  "without_source a = (ao_key a, ao_value a, ao_class a, ao_validTime a, ao_committedTime a)"

lemma world_as_of_read: "map_option without_source (getWorldStateAsOf k T db) =
    map_option (\<lambda>(k, v, r). (k, stringifyJsonb v, r)) (map_option world_event_view
      (newest_event (filter (\<lambda>e. se_key e = k \<and> se_committedTime e \<le> T) (world_events db))))"
  by (simp add: getWorldStateAsOf_def option.map_comp comp_def world_event_view_def as_of_row_def without_source_def)

text \<open>
  Property (C6): the event tables remember every past state. In a history whose events are
  committed in the order of their commit times, the state of a key as of a time \<open>T\<close>, asked
  after any later calls, is the current state the key had when the last event up to \<open>T\<close> had
  been written, for areas and for the world. Rebuilding the current tables from the events
  changes nothing but \<open>updated_at\<close>.
\<close>

theorem state_as_of_past:
  assumes "sorted (commit_times (calls @ later))"
    and "list_all (\<lambda>u. u \<le> T) (commit_times calls)" "list_all (\<lambda>u. T < u) (commit_times later)"
    and "db = run_states calls no_state" "db' = run_states later db"
  shows "getAreaStateAsOf k T db' = map_option area_view (getAreaStateCurrent k db) \<and>
    map_option without_source (getWorldStateAsOf w T db') = map_option world_view (getWorldStateCurrent w db) \<and>
    map_option area_view (getAreaStateCurrent k (rebuildAreaCurrentFromEvents a i db)) =
      map_option area_view (getAreaStateCurrent k db) \<and>
    map_option world_view (getWorldStateCurrent w (rebuildWorldCurrentFromEvents db)) =
      map_option world_view (getWorldStateCurrent w db)"
proof -
  let ?t = "Min (insert T (set (commit_times calls)))" let ?u = "last (?t # commit_times calls)"
  have start: "sorted (?t # commit_times calls)" using assms(1) by (simp add: sorted_append)
  have db: "projected_at ?u db"
    unfolding assms(4) by (rule run_states_projected [OF no_state_projected start])
  have u: "?u \<le> T" using assms(2) by (auto simp: list_all_iff)
  have "sorted (?u # commit_times later)"
    using assms(1,3) u by (fastforce simp: sorted_append list_all_iff)
  from run_states_grow [OF db this] obtain es ws where later:
    "area_events db' = area_events db @ es" "world_events db' = world_events db @ ws"
    "se_committedTime ` set es \<subseteq> set (commit_times later)" "se_committedTime ` set ws \<subseteq> set (commit_times later)"
    unfolding assms(5) by blast
  then have "\<forall>e \<in> set es. T < se_committedTime e" "\<forall>e \<in> set ws. T < se_committedTime e"
    using assms(3) unfolding list_all_iff by blast+
  moreover have p: "areas.projected ?u (area_next db) (area_events db) (area_current db)"
    "worlds.projected ?u (world_next db) (world_events db) (world_current db)"
    using db by (simp_all add: projected_at_def)
  moreover have "map_option area_view (find (\<lambda>r. ar_key r = k) (area_current (rebuildAreaCurrentFromEvents a i db))) =
      map_option area_view (find (\<lambda>r. ar_key r = k) (area_current db))"
    using areas.rebuild_same [OF p(1), of k "in_area a i"]
    by (simp add: rebuildAreaCurrentFromEvents_def conj_assoc)
  moreover have "map_option world_view (find (\<lambda>r. wr_key r = w) (world_current (rebuildWorldCurrentFromEvents db))) =
      map_option world_view (find (\<lambda>r. wr_key r = w) (world_current db))"
    using worlds.rebuild_same [OF p(2), of w "\<lambda>_. True"]
    by (simp add: rebuildWorldCurrentFromEvents_def delete_where_def)
  ultimately show ?thesis
    using areas.as_of_past [OF p(1) u, of es k] worlds.as_of_past [OF p(2) u, of ws w]
    by (simp only: area_read area_as_of_read world_read world_as_of_read later)
qed

section \<open>What becomes public\<close>

text \<open>Calls that may set the narrative of the world, or of an area, to a text.\<close>

definition public_input :: "trigger \<Rightarrow> projection_input \<Rightarrow> bool" where
  "public_input t p \<longleftrightarrow> pi_trigger p = t \<and> classification p = ''public_manifestation''"

fun tells_world :: "string \<Rightarrow> state_call \<Rightarrow> bool" where
  "tells_world s (SC_world_text s' u) \<longleftrightarrow> s' = s"
| "tells_world s (SC_publication p) \<longleftrightarrow>
     public_input T_publication p \<and> pi_targetScope p = World_public \<and> pi_summaryText p = s"
| "tells_world s (SC_promotion p) \<longleftrightarrow> public_input T_promotion p \<and> pi_summaryText p = s"
| "tells_world s _ \<longleftrightarrow> False"

fun tells_area :: "string \<Rightarrow> int \<Rightarrow> string \<Rightarrow> state_call \<Rightarrow> bool" where
  "tells_area a i s (SC_area_text a' i' s' u) \<longleftrightarrow> a' = a \<and> i' = i \<and> s' = s"
| "tells_area a i s (SC_publication p) \<longleftrightarrow> public_input T_publication p \<and> pi_targetScope p = Current_area \<and>
     pi_agentId p = a \<and> pi_areaId p = i \<and> pi_summaryText p = s"
| "tells_area a i s (SC_materialization p) \<longleftrightarrow> public_input T_materialization p \<and>
     pi_agentId p = a \<and> pi_areaId p = i \<and> pi_summaryText p = s"
| "tells_area a i s _ \<longleftrightarrow> False"

definition valid_event :: "'k state_event \<Rightarrow> bool" where
  "valid_event e \<longleftrightarrow> se_class e \<in> set SURFACING_CLASSIFICATIONS \<and> se_source e \<in> set AREA_STATE_SOURCE_TYPES"

definition valid_state :: "(string \<Rightarrow> bool) \<Rightarrow> world_db \<Rightarrow> bool" where
  "valid_state ok db \<longleftrightarrow>
     (\<forall>e \<in> set (area_events db). valid_event e) \<and>
     (\<forall>r \<in> set (area_current db). ar_class r \<in> set SURFACING_CLASSIFICATIONS) \<and>
     (\<forall>e \<in> set (world_events db). valid_event e \<and> ok (se_class e)) \<and>
     (\<forall>r \<in> set (world_current db). wr_class r \<in> set SURFACING_CLASSIFICATIONS \<and> ok (wr_class r))"

lemma set_upsert_row: "set (upsert_row key r t) \<subseteq> insert r (set t)"
  by (auto simp: upsert_row_def set_update_where)

lemma valid_narratives [simp]:
  "valid_state ok (upsertAreaNarrativeCurrent a i s u now db) = valid_state ok db"
  "valid_state ok (upsertWorldNarrativeCurrent s u now db) = valid_state ok db"
  by (simp_all add: valid_state_def upsertAreaNarrativeCurrent_def upsertWorldNarrativeCurrent_def)

lemma valid_area_upsert: "valid_state ok db \<Longrightarrow> valid_state ok (snd (upsertAreaStateCurrent k inp now db))"
  using set_upsert_row [of ar_key]
  by (fastforce simp: valid_state_def upsertAreaStateCurrent_def Let_def valid_event_def
      assertSurfacingClassification_def assertAreaStateSourceType_def area_row_of_def)

lemma valid_world_upsert:
  "valid_state ok db \<Longrightarrow> ok (up_class inp) \<Longrightarrow> valid_state ok (snd (upsertWorldStateCurrent k inp now db))"
  using set_upsert_row [of wr_key]
  by (fastforce simp: valid_state_def upsertWorldStateCurrent_def Let_def valid_event_def
      assertSurfacingClassification_def assertAreaStateSourceType_def world_row_of_def)

lemma upsert_of_class [simp]: "up_class (upsert_of p) = classification p"
  by (simp add: upsert_of_def)

fun direct_class :: "state_call \<Rightarrow> string" where
  "direct_class (SC_world k inp) = up_class inp"
| "direct_class _ = ''public_manifestation''"

lemma valid_project:
  assumes "valid_state ok db" "ok ''public_manifestation''"
  shows "valid_state ok (snd (project_world p now db))" "valid_state ok (snd (project_area p now db))"
  using valid_world_upsert [OF assms(1), of "upsert_of p" "pi_projectionKey p" now] assms
    valid_area_upsert [OF assms(1), of "(pi_agentId p, pi_areaId p, pi_projectionKey p)" "upsert_of p" now]
  by (auto simp: project_world_def project_area_def assertWorldClassification_def split: prod.splits sum.splits)

lemma valid_rebuilds:
  assumes "valid_state ok db"
  shows "valid_state ok (rebuildAreaCurrentFromEvents a i db)" "valid_state ok (rebuildWorldCurrentFromEvents db)"
  using assms by (auto simp: valid_state_def rebuildAreaCurrentFromEvents_def rebuildWorldCurrentFromEvents_def
      delete_where_def area_row_of_def world_row_of_def valid_event_def)

lemma valid_run:
  assumes "valid_state ok db" "ok ''public_manifestation''" "ok (direct_class c)"
  shows "valid_state ok (snd (run_state c now db))"
  using assms valid_area_upsert [OF assms(1)] valid_world_upsert [OF assms(1)] valid_project [OF assms(1,2)]
    valid_rebuilds [OF assms(1)]
  by (cases c) (simp_all add: applyPublicationProjection_def applyMaterializationProjection_def
      applyPromotionProjection_def split: target_scope.split)

lemma upsert_narratives [simp]:
  "world_narrative (snd (upsertAreaStateCurrent k inp now db)) = world_narrative db"
  "area_narrative (snd (upsertAreaStateCurrent k inp now db)) = area_narrative db"
  "world_narrative (snd (upsertWorldStateCurrent w inp now db)) = world_narrative db"
  "area_narrative (snd (upsertWorldStateCurrent w inp now db)) = area_narrative db"
  by (simp_all add: upsertAreaStateCurrent_def upsertWorldStateCurrent_def Let_def)

lemma project_world_narratives:
  "area_narrative (snd (project_world p now db)) = area_narrative db"
  "world_narrative (snd (project_world p now db)) = world_narrative db \<or>
     classification p = ''public_manifestation'' \<and>
     world_narrative (snd (project_world p now db)) = Some (pi_summaryText p, given (pi_updatedAt p) now)"
proof -
  obtain r d where up: "upsertWorldStateCurrent (pi_projectionKey p) (upsert_of p) now db = (r, d)"
    by (cases "upsertWorldStateCurrent (pi_projectionKey p) (upsert_of p) now db")
  have "area_narrative d = area_narrative db" "world_narrative d = world_narrative db"
    using upsert_narratives(3,4) [of "pi_projectionKey p" "upsert_of p" now db] by (simp_all add: up)
  then show "area_narrative (snd (project_world p now db)) = area_narrative db"
    "world_narrative (snd (project_world p now db)) = world_narrative db \<or>
     classification p = ''public_manifestation'' \<and>
     world_narrative (snd (project_world p now db)) = Some (pi_summaryText p, given (pi_updatedAt p) now)"
    by (cases r; simp add: project_world_def up assertWorldClassification_def upsertWorldNarrativeCurrent_def)+
qed

lemma project_area_narratives:
  "world_narrative (snd (project_area p now db)) = world_narrative db"
  "area_narrative (snd (project_area p now db)) = area_narrative db \<or>
     classification p = ''public_manifestation'' \<and> area_narrative (snd (project_area p now db)) =
       AList.update (pi_agentId p, pi_areaId p) (pi_summaryText p, given (pi_updatedAt p) now) (area_narrative db)"
proof -
  let ?k = "(pi_agentId p, pi_areaId p, pi_projectionKey p)"
  obtain r d where up: "upsertAreaStateCurrent ?k (upsert_of p) now db = (r, d)"
    by (cases "upsertAreaStateCurrent ?k (upsert_of p) now db")
  have "area_narrative d = area_narrative db" "world_narrative d = world_narrative db"
    using upsert_narratives(1,2) [of ?k "upsert_of p" now db] by (simp_all add: up)
  then show "world_narrative (snd (project_area p now db)) = world_narrative db"
    "area_narrative (snd (project_area p now db)) = area_narrative db \<or>
     classification p = ''public_manifestation'' \<and> area_narrative (snd (project_area p now db)) =
       AList.update (pi_agentId p, pi_areaId p) (pi_summaryText p, given (pi_updatedAt p) now) (area_narrative db)"
    by (cases r; simp add: project_area_def up upsertAreaNarrativeCurrent_def)+
qed

lemma run_narratives:
  "world_narrative (snd (run_state c now db)) = world_narrative db \<or>
     (\<exists>s u. tells_world s c \<and> world_narrative (snd (run_state c now db)) = Some (s, u))"
  "area_narrative (snd (run_state c now db)) = area_narrative db \<or>
     (\<exists>a i s u. tells_area a i s c \<and>
        area_narrative (snd (run_state c now db)) = AList.update (a, i) (s, u) (area_narrative db))"
proof -
  note w = project_world_narratives [where now = now and db = db] and a = project_area_narratives [where now = now and db = db]
  have "(world_narrative (snd (run_state c now db)) = world_narrative db \<or>
      (\<exists>s u. tells_world s c \<and> world_narrative (snd (run_state c now db)) = Some (s, u))) \<and>
    (area_narrative (snd (run_state c now db)) = area_narrative db \<or>
      (\<exists>a i s u. tells_area a i s c \<and>
        area_narrative (snd (run_state c now db)) = AList.update (a, i) (s, u) (area_narrative db)))"
  proof (cases c)
    case (SC_area_text a i s u)
    then show ?thesis by (auto simp: upsertAreaNarrativeCurrent_def)
  next
    case (SC_world_text s u)
    then show ?thesis by (auto simp: upsertWorldNarrativeCurrent_def)
  next
    case (SC_publication p)
    then show ?thesis
      using w(1) [of p] w(2) [of p] a(1) [of p] a(2) [of p]
      by (cases "pi_targetScope p")
        (auto simp: applyPublicationProjection_def assertTrigger_def public_input_def)
  next
    case (SC_materialization p)
    then show ?thesis
      using a(1) [of p] a(2) [of p] by (auto simp: applyMaterializationProjection_def assertTrigger_def public_input_def)
  next
    case (SC_promotion p)
    then show ?thesis
      using w(1) [of p] w(2) [of p] by (auto simp: applyPromotionProjection_def assertTrigger_def public_input_def)
  qed (simp_all add: rebuildAreaCurrentFromEvents_def rebuildWorldCurrentFromEvents_def)
  then show "world_narrative (snd (run_state c now db)) = world_narrative db \<or>
      (\<exists>s u. tells_world s c \<and> world_narrative (snd (run_state c now db)) = Some (s, u))"
    "area_narrative (snd (run_state c now db)) = area_narrative db \<or>
      (\<exists>a i s u. tells_area a i s c \<and>
        area_narrative (snd (run_state c now db)) = AList.update (a, i) (s, u) (area_narrative db))"
    by blast+
qed

lemma run_states_valid:
  "valid_state ok db \<Longrightarrow> ok ''public_manifestation'' \<Longrightarrow> list_all (\<lambda>(now, c). ok (direct_class c)) calls \<Longrightarrow>
   valid_state ok (run_states calls db)"
proof (induction calls arbitrary: db)
  case Nil
  then show ?case by (simp add: run_states_def)
next
  case (Cons call calls)
  obtain now c where call: "call = (now, c)" by (cases call)
  have "valid_state ok (snd (run_state c now db))" using Cons.prems call by (intro valid_run) simp_all
  from Cons.IH [OF this] Cons.prems show ?case by (simp add: run_states_def call)
qed

lemma empty_state_valid: "valid_state ok no_state"
  by (simp add: valid_state_def no_state_def)

lemma run_states_snoc: "run_states (calls @ [(now, c)]) db = snd (run_state c now (run_states calls db))"
  by (simp add: run_states_def)

lemma world_narrative_told:
  "world_narrative (run_states calls no_state) = Some (s, u) \<Longrightarrow> \<exists>(now, c) \<in> set calls. tells_world s c"
proof (induction calls rule: rev_induct)
  case Nil
  then show ?case by (simp add: run_states_def no_state_def)
next
  case (snoc call calls)
  obtain now c where call: "call = (now, c)" by (cases call)
  from run_narratives(1) [of c now "run_states calls no_state"] show ?case
  proof
    assume "world_narrative (snd (run_state c now (run_states calls no_state))) =
      world_narrative (run_states calls no_state)"
    with snoc.prems have "world_narrative (run_states calls no_state) = Some (s, u)" by (simp add: call run_states_snoc)
    from snoc.IH [OF this] show ?thesis by auto
  next
    assume "\<exists>s u. tells_world s c \<and> world_narrative (snd (run_state c now (run_states calls no_state))) = Some (s, u)"
    with snoc.prems have "tells_world s c" by (auto simp: call run_states_snoc)
    then show ?thesis by (simp add: call)
  qed
qed

lemma area_narrative_told:
  "map_of (area_narrative (run_states calls no_state)) (a, i) = Some (s, u) \<Longrightarrow>
   \<exists>(now, c) \<in> set calls. tells_area a i s c"
proof (induction calls rule: rev_induct)
  case Nil
  then show ?case by (simp add: run_states_def no_state_def)
next
  case (snoc call calls)
  obtain now c where call: "call = (now, c)" by (cases call)
  let ?db = "run_states calls no_state" and ?db' = "snd (run_state c now (run_states calls no_state))"
  have now: "map_of (area_narrative ?db') (a, i) = Some (s, u)" using snoc.prems by (simp add: call run_states_snoc)
  show ?case
  proof (cases "map_of (area_narrative ?db') (a, i) = map_of (area_narrative ?db) (a, i)")
    case True
    with snoc.IH now show ?thesis by auto
  next
    case False
    then have "area_narrative ?db' \<noteq> area_narrative ?db" by auto
    with run_narratives(2) [of c now ?db] obtain a' i' s' u' where t: "tells_area a' i' s' c"
      and upd: "area_narrative ?db' = AList.update (a', i') (s', u') (area_narrative ?db)" by blast
    with False now have "(a', i') = (a, i)" "s' = s" by (auto simp: update_conv' split: if_splits)
    with t show ?thesis by (simp add: call)
  qed
qed

text \<open>
  Hidden state does not become public. In every history, each event and row
  has one of the three classifications; the world tables hold only public manifestations if
  no caller writes another class to them directly; and every narrative of the world or of an
  area is the summary of a call that set it, which for projections was a public
  manifestation with the right trigger for that world or area.
\<close>

theorem narratives_are_public:
  assumes "db = run_states calls no_state"
  shows "(\<forall>e \<in> set (area_events db). valid_event e) \<and> (\<forall>e \<in> set (world_events db). valid_event e) \<and>
    (list_all (\<lambda>(now, c). direct_class c = ''public_manifestation'') calls \<longrightarrow>
      (\<forall>e \<in> set (world_events db). se_class e = ''public_manifestation'') \<and>
      (\<forall>r \<in> set (world_current db). wr_class r = ''public_manifestation'')) \<and>
    (\<forall>s u. getWorldNarrativeCurrent db = Some (s, u) \<longrightarrow> (\<exists>(now, c) \<in> set calls. tells_world s c)) \<and>
    (\<forall>a i s u. getAreaNarrativeCurrent a i db = Some (s, u) \<longrightarrow> (\<exists>(now, c) \<in> set calls. tells_area a i s c))"
proof -
  have "valid_state (\<lambda>_. True) db"
    unfolding assms by (rule run_states_valid [OF empty_state_valid]) (simp_all add: list_all_iff case_prod_unfold)
  then have all: "\<forall>e \<in> set (area_events db). valid_event e" "\<forall>e \<in> set (world_events db). valid_event e"
    by (simp_all add: valid_state_def)
  have public: "valid_state (\<lambda>c. c = ''public_manifestation'') db"
    if "list_all (\<lambda>(now, c). direct_class c = ''public_manifestation'') calls"
    unfolding assms by (rule run_states_valid [OF empty_state_valid _ that]) simp
  show ?thesis
    using all public world_narrative_told [of calls] area_narrative_told [of calls]
    unfolding assms getWorldNarrativeCurrent_def getAreaNarrativeCurrent_def valid_state_def by blast
qed

section \<open>Witnesses\<close>

definition sample_projection :: "trigger \<Rightarrow> target_scope \<Rightarrow> string \<Rightarrow> projection_input" where
  "sample_projection t scope s =
     \<lparr>pi_trigger = t, pi_targetScope = scope, pi_agentId = ''mei'', pi_areaId = 7, pi_settlementId = None,
      pi_projectionKey = ''door'', pi_summaryText = s, pi_payload = None, pi_class = None, pi_updatedAt = None\<rparr>"

definition sample_past :: "(int \<times> state_call) list" where
  "sample_past = [(1, SC_publication (sample_projection T_publication World_public ''a bell'')),
     (2, SC_materialization (sample_projection T_materialization Current_area ''it is shut''))]"

definition sample_future :: "(int \<times> state_call) list" where
  "sample_future = [(5, SC_publication (sample_projection T_publication Current_area ''it is open'')),
     (6, SC_rebuild_area ''mei'' 7)]"

lemma state_as_of_past_witness:
  "getAreaStateAsOf (''mei'', 7, ''door'') 3 (run_states sample_future (run_states sample_past no_state)) =
     map_option area_view (getAreaStateCurrent (''mei'', 7, ''door'') (run_states sample_past no_state)) \<and>
   map_option ao_value (getAreaStateAsOf (''mei'', 7, ''door'') 3
       (run_states sample_future (run_states sample_past no_state))) =
     Some (stringify (JVal (JObj [(''summary'', JStr ''it is shut'')])))"
proof
  have "sorted (commit_times (sample_past @ sample_future))"
    "list_all (\<lambda>u. u \<le> 3) (commit_times sample_past)" "list_all (\<lambda>u. 3 < u) (commit_times sample_future)"
    by code_simp+
  from state_as_of_past [OF this refl refl]
  show "getAreaStateAsOf (''mei'', 7, ''door'') 3 (run_states sample_future (run_states sample_past no_state)) =
     map_option area_view (getAreaStateCurrent (''mei'', 7, ''door'') (run_states sample_past no_state))"
    by blast
  show "map_option ao_value (getAreaStateAsOf (''mei'', 7, ''door'') 3
       (run_states sample_future (run_states sample_past no_state))) =
     Some (stringify (JVal (JObj [(''summary'', JStr ''it is shut'')])))"
    by code_simp
qed

lemma narratives_are_public_witness:
  "getAreaNarrativeCurrent ''mei'' 7 (run_states (sample_past @ sample_future) no_state) = Some (''it is open'', 5) \<and>
   (\<exists>(now, c) \<in> set (sample_past @ sample_future). tells_area ''mei'' 7 ''it is open'' c)"
proof
  show *: "getAreaNarrativeCurrent ''mei'' 7 (run_states (sample_past @ sample_future) no_state) = Some (''it is open'', 5)"
    by code_simp
  with narratives_are_public [OF refl, of "sample_past @ sample_future"]
  show "\<exists>(now, c) \<in> set (sample_past @ sample_future). tells_area ''mei'' 7 ''it is open'' c" by blast
qed

end
