(* ===== verification/Agents.thy ===== *)
theory Agents
  imports Js_Values Errors
begin

text \<open>
  Agents: their profiles and presets (\<^verbatim>\<open>src/agents/profile.ts\<close>, \<^verbatim>\<open>presets.ts\<close>, \<^verbatim>\<open>rp/\<close>,
  \<^verbatim>\<open>task/profile.ts\<close>), the registry and the run states of \<^verbatim>\<open>src/agents/registry.ts\<close> and
  \<^verbatim>\<open>lifecycle.ts\<close>, what one agent may do to another (\<^verbatim>\<open>permissions.ts\<close>), the rights of a role
  (\<^verbatim>\<open>src/memory/contracts/agent-permissions.ts\<close>), the write and retrieval templates of a role
  (\<^verbatim>\<open>write-template.ts\<close>, \<^verbatim>\<open>retrieval-template.ts\<close> beside it) and the token budget of a run
  (\<^verbatim>\<open>src/core/token-budget.ts\<close>).

  An object with optional fields that overrides another is a record of options, \<open>None\<close> for
  a field that is not given.
\<close>

section \<open>Profiles\<close>

datatype agent_role = Maiden | Rp_agent | Task_agent
datatype agent_lifecycle = Persistent | Ephemeral
datatype output_mode = Freeform | Structured
datatype history_mode = Full | Truncated

record tool_permission =
  tp_toolName :: string
  tp_allowed :: bool

record 'b write_template =
  allowPublications :: 'b
  allowCognitionWrites :: 'b

record ('b, 'n) retrieval_template =
  narrativeEnabled :: 'b
  cognitionEnabled :: 'b
  conflictNotesEnabled :: 'b
  episodeEnabled :: 'b
  narrativeBudget :: 'n
  cognitionBudget :: 'n
  conflictNotesBudget :: 'n
  episodicBudget :: 'n
  episodeBudget :: 'n
  narrativeTokenBudget :: 'n
  cognitionTokenBudget :: 'n
  conflictNotesTokenBudget :: 'n
  episodicTokenBudget :: 'n
  conflictBoostFactor :: 'n
  maxNarrativeHits :: 'n
  maxCognitionHits :: 'n

record agent_profile =
  ap_id :: string
  ap_role :: agent_role
  ap_lifecycle :: agent_lifecycle
  ap_userFacing :: bool
  ap_outputMode :: output_mode
  ap_modelId :: string
  ap_maxOutputTokens :: "int option"
  ap_personaId :: "string option"
  ap_toolPermissions :: "tool_permission list"
  ap_canReadAgentIds :: "string list option"
  ap_maxDelegationDepth :: int
  ap_detachable :: "bool option"
  ap_contextBudget :: "(int \<times> int option) option"
  ap_lorebookEnabled :: bool
  ap_narrativeContextEnabled :: bool
  ap_historyMode :: "history_mode option"
  ap_retrievalTemplate :: "(bool option, rat option) retrieval_template option"
  ap_writeTemplate :: "bool option write_template option"

definition READ_ONLY_MEMORY_TOOL_NAMES :: "string list" where
  "READ_ONLY_MEMORY_TOOL_NAMES =
     [''memory_read'', ''narrative_search'', ''cognition_search'', ''memory_explore'']"

definition RP_AUTHORIZED_TOOLS :: "string list" where
  "RP_AUTHORIZED_TOOLS = READ_ONLY_MEMORY_TOOL_NAMES @ [''persona_check_drift'', ''submit_rp_turn'']"

definition isAllowed :: "string \<Rightarrow> bool" where
  "isAllowed toolName = (toolName \<in> set RP_AUTHORIZED_TOOLS)"

definition toToolPermissions :: "tool_permission list" where
  "toToolPermissions = map (\<lambda>n. \<lparr>tp_toolName = n, tp_allowed = True\<rparr>) RP_AUTHORIZED_TOOLS"

definition MAIDEN_PROFILE :: agent_profile where
  "MAIDEN_PROFILE =
     \<lparr>ap_id = ''maid:main'', ap_role = Maiden, ap_lifecycle = Persistent, ap_userFacing = True,
      ap_outputMode = Freeform, ap_modelId = ''anthropic/claude-3-5-sonnet-20241022'',
      ap_maxOutputTokens = Some 8192, ap_personaId = None, ap_toolPermissions = [],
      ap_canReadAgentIds = Some [], ap_maxDelegationDepth = 3, ap_detachable = None,
      ap_contextBudget = Some (200000, Some 40000), ap_lorebookEnabled = True,
      ap_narrativeContextEnabled = True, ap_historyMode = None, ap_retrievalTemplate = None,
      ap_writeTemplate = None\<rparr>"

definition RP_AGENT_PROFILE :: agent_profile where
  "RP_AGENT_PROFILE =
     \<lparr>ap_id = ''rp:default'', ap_role = Rp_agent, ap_lifecycle = Persistent, ap_userFacing = True,
      ap_outputMode = Freeform, ap_modelId = ''anthropic/claude-3-5-sonnet-20241022'',
      ap_maxOutputTokens = Some 4096, ap_personaId = None, ap_toolPermissions = toToolPermissions,
      ap_canReadAgentIds = None, ap_maxDelegationDepth = 1, ap_detachable = None,
      ap_contextBudget = Some (200000, None), ap_lorebookEnabled = True,
      ap_narrativeContextEnabled = True, ap_historyMode = None, ap_retrievalTemplate = None,
      ap_writeTemplate = None\<rparr>"

definition TASK_AGENT_PROFILE :: agent_profile where
  "TASK_AGENT_PROFILE =
     \<lparr>ap_id = ''task:default'', ap_role = Task_agent, ap_lifecycle = Ephemeral, ap_userFacing = False,
      ap_outputMode = Structured, ap_modelId = ''anthropic/claude-3-5-haiku-20241022'',
      ap_maxOutputTokens = Some 2048, ap_personaId = None, ap_toolPermissions = [],
      ap_canReadAgentIds = None, ap_maxDelegationDepth = 0, ap_detachable = None,
      ap_contextBudget = Some (100000, None), ap_lorebookEnabled = False,
      ap_narrativeContextEnabled = False, ap_historyMode = None, ap_retrievalTemplate = None,
      ap_writeTemplate = None\<rparr>"

section \<open>The registry\<close>

type_synonym registry = "(string, agent_profile) js_map"

definition register :: "agent_profile \<Rightarrow> registry \<Rightarrow> (thrown, unit) result \<times> registry" where
  "register profile agents =
     (if map_of agents (ap_id profile) \<noteq> None
      then (Inl (Maids_error (error AGENT_ALREADY_REGISTERED False)), agents)
      else (Inr (), AList.update (ap_id profile) profile agents))"

definition unregister :: "string \<Rightarrow> registry \<Rightarrow> (thrown, unit) result \<times> registry" where
  "unregister agentId agents =
     (if map_of agents agentId = None
      then (Inl (Maids_error (error AGENT_NOT_FOUND False)), agents)
      else (Inr (), AList.delete agentId agents))"

text \<open>\<open>getAll\<close>, in the order of registration.\<close>

definition getAll :: "registry \<Rightarrow> agent_profile list" where
  "getAll agents = map snd agents"

record spawn_overrides =
  so_modelId :: "string option"
  so_outputMode :: "output_mode option"
  so_toolPermissions :: "tool_permission list option"
  so_detachable :: "bool option"
  so_narrativeContextEnabled :: "bool option"

abbreviation or_else :: "'a option \<Rightarrow> 'a \<Rightarrow> 'a" where
  "or_else v d \<equiv> (case v of Some x \<Rightarrow> x | None \<Rightarrow> d)"

definition spawnFromConfig :: "string \<Rightarrow> string \<Rightarrow> spawn_overrides option \<Rightarrow> registry \<Rightarrow> agent_profile" where
  "spawnFromConfig taskId baseProfileId overrides baseRegistry =
     (let base = (if baseProfileId \<noteq> [] then or_else (map_of baseRegistry baseProfileId) TASK_AGENT_PROFILE
                  else TASK_AGENT_PROFILE);
          p = base\<lparr>ap_id := ''task:'' @ taskId, ap_lifecycle := Ephemeral, ap_userFacing := False\<rparr>
      in (case overrides of
            None \<Rightarrow> p
          | Some ov \<Rightarrow>
              p\<lparr>ap_modelId := or_else (so_modelId ov) (ap_modelId p),
                ap_outputMode := or_else (so_outputMode ov) (ap_outputMode p),
                ap_toolPermissions := or_else (so_toolPermissions ov) (ap_toolPermissions p),
                ap_detachable := (case so_detachable ov of Some b \<Rightarrow> Some b | None \<Rightarrow> ap_detachable p),
                ap_narrativeContextEnabled :=
                  or_else (so_narrativeContextEnabled ov) (ap_narrativeContextEnabled p)\<rparr>))"

section \<open>What an agent may do\<close>

definition canDelegate :: "string \<Rightarrow> string \<Rightarrow> registry \<Rightarrow> bool" where
  "canDelegate fromAgentId toAgentId agents =
     (case (map_of agents fromAgentId, map_of agents toAgentId) of
        (Some from', Some to') \<Rightarrow>
          (case ap_role from' of
             Maiden \<Rightarrow> True
           | Rp_agent \<Rightarrow> ap_role to' = Task_agent
           | Task_agent \<Rightarrow> False)
      | _ \<Rightarrow> False)"

definition canUseTool :: "string \<Rightarrow> string \<Rightarrow> registry \<Rightarrow> bool" where
  "canUseTool agentId toolName agents =
     (case map_of agents agentId of
        None \<Rightarrow> False
      | Some profile \<Rightarrow>
          if ap_toolPermissions profile = [] then True
          else (case find (\<lambda>tp. tp_toolName tp = toolName) (ap_toolPermissions profile) of
                  Some entry \<Rightarrow> tp_allowed entry
                | None \<Rightarrow> False))"

definition canAccessPrivateData :: "string \<Rightarrow> string \<Rightarrow> registry \<Rightarrow> bool" where
  "canAccessPrivateData requestingAgentId ownerAgentId agents =
     (if requestingAgentId = ownerAgentId then True
      else (case map_of agents requestingAgentId of
              None \<Rightarrow> False
            | Some requester \<Rightarrow> ap_role requester = Maiden))"

record agent_permissions =
  pm_agentId :: string
  canAccessCognition :: bool
  canWriteCognition :: bool
  canReadAdminOnly :: bool
  canReadPrivateMemory :: bool
  canReadRedactedMemory :: bool
  canWriteAuthoritatively :: bool
  canProposePinnedSummary :: bool
  canCommitPinnedSummary :: bool
  canReadSharedBlocks :: bool
  canMutateSharedBlocks :: bool
  canMutateAdminRules :: bool
  canSettleRpTurn :: bool

fun getDefaultPermissions :: "string \<Rightarrow> agent_role \<Rightarrow> agent_permissions" where
  "getDefaultPermissions agentId Rp_agent =
     \<lparr>pm_agentId = agentId, canAccessCognition = True, canWriteCognition = True,
      canReadAdminOnly = False, canReadPrivateMemory = True, canReadRedactedMemory = False,
      canWriteAuthoritatively = False, canProposePinnedSummary = True,
      canCommitPinnedSummary = False, canReadSharedBlocks = True, canMutateSharedBlocks = False,
      canMutateAdminRules = False, canSettleRpTurn = True\<rparr>"
| "getDefaultPermissions agentId Maiden =
     \<lparr>pm_agentId = agentId, canAccessCognition = False, canWriteCognition = False,
      canReadAdminOnly = True, canReadPrivateMemory = True, canReadRedactedMemory = True,
      canWriteAuthoritatively = True, canProposePinnedSummary = False,
      canCommitPinnedSummary = True, canReadSharedBlocks = True, canMutateSharedBlocks = True,
      canMutateAdminRules = True, canSettleRpTurn = False\<rparr>"
| "getDefaultPermissions agentId Task_agent =
     \<lparr>pm_agentId = agentId, canAccessCognition = False, canWriteCognition = False,
      canReadAdminOnly = False, canReadPrivateMemory = False, canReadRedactedMemory = False,
      canWriteAuthoritatively = False, canProposePinnedSummary = False,
      canCommitPinnedSummary = False, canReadSharedBlocks = False, canMutateSharedBlocks = False,
      canMutateAdminRules = False, canSettleRpTurn = False\<rparr>"

definition hasAdminReadAccess :: "agent_permissions \<Rightarrow> bool" where
  "hasAdminReadAccess perms = canReadAdminOnly perms"

section \<open>Write and retrieval templates\<close>

fun getDefaultWriteTemplate :: "agent_role \<Rightarrow> bool write_template" where
  "getDefaultWriteTemplate Rp_agent = \<lparr>allowPublications = True, allowCognitionWrites = True\<rparr>"
| "getDefaultWriteTemplate Maiden = \<lparr>allowPublications = False, allowCognitionWrites = False\<rparr>"
| "getDefaultWriteTemplate Task_agent = \<lparr>allowPublications = False, allowCognitionWrites = False\<rparr>"

definition resolveWriteTemplate :: "agent_role \<Rightarrow> bool option write_template option \<Rightarrow> bool write_template" where
  "resolveWriteTemplate role override =
     (let base = getDefaultWriteTemplate role
      in (case override of
            None \<Rightarrow> base
          | Some ov \<Rightarrow>
              \<lparr>allowPublications = or_else (allowPublications ov) (allowPublications base),
               allowCognitionWrites = or_else (allowCognitionWrites ov) (allowCognitionWrites base)\<rparr>))"

datatype write_operation = Cognition_write | Publication_write

definition enforceResolvedTemplate :: "bool write_template \<Rightarrow> write_operation \<Rightarrow> (thrown, unit) result" where
  "enforceResolvedTemplate resolvedTemplate operation =
     (if (case operation of
            Cognition_write \<Rightarrow> allowCognitionWrites resolvedTemplate
          | Publication_write \<Rightarrow> allowPublications resolvedTemplate)
      then Inr () else Inl (Maids_error (error WRITE_TEMPLATE_DENIED False)))"

definition enforceWriteTemplate :: "agent_role \<Rightarrow> write_operation \<Rightarrow> bool option write_template option \<Rightarrow>
    (thrown, unit) result" where
  "enforceWriteTemplate role operation override =
     enforceResolvedTemplate (resolveWriteTemplate role override) operation"

fun getDefaultTemplate :: "agent_role \<Rightarrow> (bool, rat) retrieval_template" where
  "getDefaultTemplate Rp_agent =
     \<lparr>narrativeEnabled = True, cognitionEnabled = True, conflictNotesEnabled = True, episodeEnabled = True,
      narrativeBudget = 3, cognitionBudget = 5, conflictNotesBudget = 2, episodicBudget = 3, episodeBudget = 3,
      narrativeTokenBudget = 0, cognitionTokenBudget = 0, conflictNotesTokenBudget = 0,
      episodicTokenBudget = 0, conflictBoostFactor = 1, maxNarrativeHits = 3, maxCognitionHits = 5\<rparr>"
| "getDefaultTemplate Maiden =
     \<lparr>narrativeEnabled = True, cognitionEnabled = False, conflictNotesEnabled = False, episodeEnabled = True,
      narrativeBudget = 3, cognitionBudget = 0, conflictNotesBudget = 0, episodicBudget = 3, episodeBudget = 3,
      narrativeTokenBudget = 0, cognitionTokenBudget = 0, conflictNotesTokenBudget = 0,
      episodicTokenBudget = 0, conflictBoostFactor = 0, maxNarrativeHits = 3, maxCognitionHits = 0\<rparr>"
| "getDefaultTemplate Task_agent =
     \<lparr>narrativeEnabled = False, cognitionEnabled = False, conflictNotesEnabled = False, episodeEnabled = False,
      narrativeBudget = 0, cognitionBudget = 0, conflictNotesBudget = 0, episodicBudget = 0, episodeBudget = 0,
      narrativeTokenBudget = 0, cognitionTokenBudget = 0, conflictNotesTokenBudget = 0,
      episodicTokenBudget = 0, conflictBoostFactor = 0, maxNarrativeHits = 0, maxCognitionHits = 0\<rparr>"

definition resolveTemplate :: "agent_role \<Rightarrow> (bool option, rat option) retrieval_template option \<Rightarrow>
    (bool, rat) retrieval_template" where
  "resolveTemplate role override =
     (let base = getDefaultTemplate role
      in (case override of
            None \<Rightarrow> base
          | Some ov \<Rightarrow>
              (let narrative = or_else (narrativeBudget ov) (or_else (maxNarrativeHits ov) (narrativeBudget base));
                   cognition = or_else (cognitionBudget ov) (or_else (maxCognitionHits ov) (cognitionBudget base));
                   episodic = or_else (episodicBudget ov) (or_else (episodeBudget ov) (episodicBudget base))
               in \<lparr>narrativeEnabled = or_else (narrativeEnabled ov) (narrativeEnabled base),
                   cognitionEnabled = or_else (cognitionEnabled ov) (cognitionEnabled base),
                   conflictNotesEnabled = or_else (conflictNotesEnabled ov) (conflictNotesEnabled base),
                   episodeEnabled = or_else (episodeEnabled ov) (episodeEnabled base),
                   narrativeBudget = narrative,
                   cognitionBudget = cognition,
                   conflictNotesBudget = or_else (conflictNotesBudget ov) (conflictNotesBudget base),
                   episodicBudget = episodic,
                   episodeBudget = episodic,
                   narrativeTokenBudget = or_else (narrativeTokenBudget ov) (narrativeTokenBudget base),
                   cognitionTokenBudget = or_else (cognitionTokenBudget ov) (cognitionTokenBudget base),
                   conflictNotesTokenBudget =
                     or_else (conflictNotesTokenBudget ov) (conflictNotesTokenBudget base),
                   episodicTokenBudget = or_else (episodicTokenBudget ov) (episodicTokenBudget base),
                   conflictBoostFactor = or_else (conflictBoostFactor ov) (conflictBoostFactor base),
                   maxNarrativeHits = narrative,
                   maxCognitionHits = cognition\<rparr>)))"

section \<open>Run states\<close>

datatype run_state = Run_idle | Run_running | Run_completed | Run_failed

record run_record =
  rr_runId :: string
  rr_agentId :: string
  rr_sessionId :: string
  rr_state :: run_state
  rr_error :: "thrown option"

text \<open>The runs, the registry, and the counter of the module.\<close>

record run_table =
  runs :: "(string, run_record) js_map"
  agents :: registry
  runCounter :: nat

definition run_id :: "int \<Rightarrow> nat \<Rightarrow> string" where
  "run_id now n = ''run_'' @ int_str now @ ''_'' @ nat_str n"

definition generateRunId :: "int \<Rightarrow> run_table \<Rightarrow> string \<times> run_table" where
  "generateRunId now t =
     (let n = runCounter t + 1
      in (run_id now n, t\<lparr>runCounter := n\<rparr>))"

definition startRun :: "int \<Rightarrow> string \<Rightarrow> string \<Rightarrow> run_table \<Rightarrow> (thrown, string) result \<times> run_table" where
  "startRun now agentId sessionId t =
     (case map_of (agents t) agentId of
        None \<Rightarrow> (Inl (Maids_error (error AGENT_NOT_FOUND False)), t)
      | Some profile \<Rightarrow>
          (let (runId, t1) = generateRunId now t
           in (Inr runId,
               t1\<lparr>runs := AList.update runId
                   \<lparr>rr_runId = runId, rr_agentId = agentId, rr_sessionId = sessionId,
                    rr_state = Run_running, rr_error = None\<rparr> (runs t1)\<rparr>)))"

definition isEphemeral :: "string \<Rightarrow> run_table \<Rightarrow> bool" where
  "isEphemeral agentId t =
     (case map_of (agents t) agentId of
        Some profile \<Rightarrow> ap_lifecycle profile = Ephemeral | None \<Rightarrow> False)"

definition cleanupIfEphemeral :: "string \<Rightarrow> run_table \<Rightarrow> run_table" where
  "cleanupIfEphemeral agentId t =
     (if isEphemeral agentId t then t\<lparr>agents := snd (unregister agentId (agents t))\<rparr> else t)"

text \<open>\<open>completeRun\<close> and \<open>failRun\<close> set the state of the record they find.\<close>

definition end_run :: "(run_record \<Rightarrow> run_record) \<Rightarrow> string \<Rightarrow> run_table \<Rightarrow> (thrown, unit) result \<times> run_table" where
  "end_run set_state runId t =
     (case map_of (runs t) runId of
        None \<Rightarrow> (Inl (Maids_error (error AGENT_NOT_FOUND False)), t)
      | Some run \<Rightarrow>
          (Inr (), cleanupIfEphemeral (rr_agentId run)
             (t\<lparr>runs := AList.update runId (set_state run) (runs t)\<rparr>)))"

definition completeRun :: "string \<Rightarrow> run_table \<Rightarrow> (thrown, unit) result \<times> run_table" where
  "completeRun = end_run (\<lambda>run. run\<lparr>rr_state := Run_completed\<rparr>)"

definition failRun :: "string \<Rightarrow> thrown \<Rightarrow> run_table \<Rightarrow> (thrown, unit) result \<times> run_table" where
  "failRun runId e = end_run (\<lambda>run. run\<lparr>rr_state := Run_failed, rr_error := Some e\<rparr>) runId"

definition getRunState :: "string \<Rightarrow> run_table \<Rightarrow> run_state option" where
  "getRunState runId t = map_option rr_state (map_of (runs t) runId)"

section \<open>The token budget\<close>

text \<open>
  For whole numbers of tokens the double product with \<open>0.20\<close> rounds up to the same whole
  number as the fifth.
\<close>

record token_budget =
  tb_maxContextTokens :: int
  tb_maxOutputTokens :: int
  tb_inputBudget :: int
  tb_coordinationReserve :: int
  tb_role :: agent_role

definition calculateTokenBudget :: "agent_profile \<Rightarrow> int \<Rightarrow> (thrown, token_budget) result" where
  "calculateTokenBudget profile maxContextTokens =
     (let maxOutput = or_else (ap_maxOutputTokens profile) 4096;
          reserve = (if ap_role profile = Maiden then - ((- maxContextTokens) div 5) else 0);
          input = maxContextTokens - maxOutput - reserve
      in if input \<le> 0 then Inl (Maids_error (error CONTEXT_BUDGET_INVALID False))
         else Inr \<lparr>tb_maxContextTokens = maxContextTokens, tb_maxOutputTokens = maxOutput,
                   tb_inputBudget = input, tb_coordinationReserve = reserve, tb_role = ap_role profile\<rparr>)"

section \<open>What holds of runs\<close>

text \<open>Run identifiers differ as long as the counter does.\<close>

lemma nat_str_no_sep: "CHR ''_'' \<notin> set (nat_str n)"
proof (induction n rule: nat_str.induct)
  case (1 n)
  have "CHR ''_'' \<noteq> char_of (48 + n mod 10)"
  proof
    assume "CHR ''_'' = char_of (48 + n mod 10)"
    then have "of_char (CHR ''_'') = (of_char (char_of (48 + n mod 10)) :: nat)" by simp
    moreover have "(48 + n mod 10) mod 256 = 48 + n mod 10" by (rule mod_less) simp
    ultimately show False by (simp add: of_char_of)
  qed
  moreover have "n < 10 \<Longrightarrow> n mod 10 = n" by simp
  ultimately show ?case using 1 by (subst nat_str.simps) auto
qed

lemma nat_str_last: "nat_str n \<noteq> [] \<and> last (nat_str n) = char_of (48 + n mod 10)"
  by (cases "n < 10") (simp_all add: nat_str.simps [of n])

lemma digit_char_inj: 
  fixes a b :: nat
  assumes eq: "char_of (48 + a) = (char_of (48 + b) :: char)" and "a < 10" "b < 10"
  shows "a = b"
proof -
  have "(48 + a) mod 256 = 48 + a" "(48 + b) mod 256 = 48 + b" using assms(2,3) by simp_all
  moreover have "of_char (char_of (48 + a) :: char) = (of_char (char_of (48 + b) :: char) :: nat)" using eq by simp
  ultimately show ?thesis by (simp only: of_char_of)
qed

lemma nat_str_inj: "nat_str m = nat_str n \<Longrightarrow> m = n"
proof (induction m arbitrary: n rule: nat_str.induct)
  case (1 m)
  have "last (nat_str m) = last (nat_str n)" using 1(2) by simp
  then have "char_of (48 + m mod 10) = (char_of (48 + n mod 10) :: char)" using nat_str_last by simp
  from digit_char_inj [OF this] have digit: "m mod 10 = n mod 10" by simp
  have long: "butlast (nat_str k) = (if k < 10 then [] else nat_str (k div 10))" for k
    by (subst nat_str.simps) simp
  have "butlast (nat_str m) = butlast (nat_str n)" using 1(2) by simp
  then have parts: "(if m < 10 then [] else nat_str (m div 10)) = (if n < 10 then [] else nat_str (n div 10))"
    by (simp only: long)
  show ?case
  proof (cases "m < 10")
    case True
    then have "n < 10" using parts nat_str_last [of "n div 10"] by (auto split: if_splits)
    with True digit show ?thesis by simp
  next
    case False
    then have "\<not> n < 10" using parts nat_str_last [of "m div 10"] by (auto split: if_splits)
    with parts False have "m div 10 = n div 10" using 1(1) by simp
    with digit show ?thesis by (metis mult_div_mod_eq)
  qed
qed

text \<open>The text after the last separator of an identifier is the counter.\<close>

lemma takeWhile_until: "c \<notin> set x \<Longrightarrow> takeWhile (\<lambda>d. d \<noteq> c) (x @ c # y) = x"
  by (induction x) auto

lemma suffix_unique:
  assumes "a @ c # x = b @ c # y" "c \<notin> set x" "c \<notin> set y"
  shows "x = y"
proof -
  have "takeWhile (\<lambda>d. d \<noteq> c) (rev (a @ c # x)) = rev x" using assms(2) by (simp add: takeWhile_until)
  moreover have "takeWhile (\<lambda>d. d \<noteq> c) (rev (b @ c # y)) = rev y" using assms(3) by (simp add: takeWhile_until)
  ultimately show ?thesis using assms(1) by simp
qed

lemma run_id_inj:
  assumes "run_id i m = run_id j n"
  shows "m = n"
proof (rule nat_str_inj)
  have "int_str i @ CHR ''_'' # nat_str m = int_str j @ CHR ''_'' # nat_str n"
    using assms by (simp add: run_id_def)
  then show "nat_str m = nat_str n" using nat_str_no_sep nat_str_no_sep by (rule suffix_unique)
qed

inductive run_step :: "run_table \<Rightarrow> run_table \<Rightarrow> bool" where
  rs_register: "run_step t (t\<lparr>agents := snd (register p (agents t))\<rparr>)"
| rs_unregister: "run_step t (t\<lparr>agents := snd (unregister i (agents t))\<rparr>)"
| rs_start: "run_step t (snd (startRun now i sid t))"
| rs_complete: "run_step t (snd (completeRun rid t))"
| rs_fail: "run_step t (snd (failRun rid e t))"

definition no_runs :: run_table where
  "no_runs = \<lparr>runs = [], agents = [], runCounter = 0\<rparr>"

definition reachable_runs :: "run_table \<Rightarrow> bool" where
  "reachable_runs t \<longleftrightarrow> run_step\<^sup>*\<^sup>* no_runs t"

text \<open>Every run was numbered, under its own identifier, and agents are under theirs.\<close>

definition runs_inv :: "run_table \<Rightarrow> bool" where
  "runs_inv t \<longleftrightarrow>
     (\<forall>rid run. map_of (runs t) rid = Some run \<longrightarrow> rr_runId run = rid \<and> rr_state run \<noteq> Run_idle \<and>
        (\<exists>now n. n \<le> runCounter t \<and> rid = run_id now n)) \<and>
     (\<forall>i p. map_of (agents t) i = Some p \<longrightarrow> ap_id p = i)"

lemma runs_inv_register: "runs_inv t \<Longrightarrow> runs_inv (t\<lparr>agents := snd (register p (agents t))\<rparr>)"
  by (simp add: runs_inv_def register_def update_conv')

lemma runs_inv_unregister: "runs_inv t \<Longrightarrow> runs_inv (t\<lparr>agents := snd (unregister i (agents t))\<rparr>)"
  by (simp add: runs_inv_def unregister_def delete_conv')

lemma runs_inv_start:
  assumes "runs_inv t"
  shows "runs_inv (snd (startRun now i sid t))"
proof (cases "map_of (agents t) i")
  case None
  then show ?thesis using assms by (simp add: startRun_def)
next
  case (Some p)
  then have "snd (startRun now i sid t) = t\<lparr>runCounter := runCounter t + 1,
      runs := AList.update (run_id now (runCounter t + 1))
        \<lparr>rr_runId = run_id now (runCounter t + 1), rr_agentId = i, rr_sessionId = sid,
         rr_state = Run_running, rr_error = None\<rparr> (runs t)\<rparr>"
    by (simp add: startRun_def generateRunId_def Let_def)
  then show ?thesis using assms unfolding runs_inv_def by (auto simp: update_conv') (metis le_SucI)
qed

lemma runs_inv_cleanup: "runs_inv t \<Longrightarrow> runs_inv (cleanupIfEphemeral i t)"
  by (simp add: cleanupIfEphemeral_def runs_inv_unregister)

lemma runs_inv_set_state:
  assumes "runs_inv t" "map_of (runs t) rid = Some run" "rr_runId (f run) = rr_runId run" "rr_state (f run) \<noteq> Run_idle"
  shows "runs_inv (t\<lparr>runs := AList.update rid (f run) (runs t)\<rparr>)"
  using assms unfolding runs_inv_def by (auto simp: update_conv')

lemma runs_inv_end:
  assumes "runs_inv t" "\<And>run. rr_runId (f run) = rr_runId run" "\<And>run. rr_state (f run) \<noteq> Run_idle"
  shows "runs_inv (snd (end_run f rid t))"
  using assms by (simp add: end_run_def runs_inv_cleanup runs_inv_set_state split: option.split)

lemma runs_inv_step: "run_step t t' \<Longrightarrow> runs_inv t \<Longrightarrow> runs_inv t'"
  by (induction rule: run_step.induct)
    (simp_all add: runs_inv_register runs_inv_unregister runs_inv_start runs_inv_end completeRun_def failRun_def)

lemma reachable_runs_inv: "reachable_runs t \<Longrightarrow> runs_inv t"
  unfolding reachable_runs_def
  by (induction rule: rtranclp_induct) (simp_all add: runs_inv_step, simp add: runs_inv_def no_runs_def)

lemma started_run_fresh:
  assumes "runs_inv t" "fst (startRun now i sid t) = Inr rid"
  shows "map_of (runs t) rid = None"
proof (rule ccontr)
  assume "map_of (runs t) rid \<noteq> None"
  then obtain run where "map_of (runs t) rid = Some run" by auto
  with assms(1) obtain since n where n: "n \<le> runCounter t" "rid = run_id since n"
    unfolding runs_inv_def by blast
  have "rid = run_id now (runCounter t + 1)"
    using assms(2) by (simp add: startRun_def generateRunId_def Let_def split: option.splits)
  with n(2) have "run_id now (runCounter t + 1) = run_id since n" by simp
  then have "runCounter t + 1 = n" by (rule run_id_inj)
  with n(1) show False by simp
qed

text \<open>Only the run that ends and the agent it cleans up change.\<close>

lemma end_run_found:
  assumes "map_of (runs t) rid = Some run"
  shows "fst (end_run f rid t) = Inr ()"
    and "map_of (runs (snd (end_run f rid t))) = (map_of (runs t))(rid \<mapsto> f run)"
    and "map_of (agents (snd (end_run f rid t))) =
      (if isEphemeral (rr_agentId run) t then (map_of (agents t))(rr_agentId run := None) else map_of (agents t))"
  using assms
  by (auto simp: end_run_def cleanupIfEphemeral_def isEphemeral_def unregister_def update_conv' delete_conv'
      split: option.split)

text \<open>
  In every reachable state a started run gets an identifier that no other run
  ever had, and the states of the other runs stay; ending a run sets its state, leaves the
  other runs alone, and takes its agent out of the registry exactly if the agent is
  ephemeral. A run of an unknown agent, or the end of an unknown run, is refused.
\<close>

theorem run_lifecycle:
  assumes "reachable_runs t"
  shows "(case startRun now i sid t of
      (Inl e, t') \<Rightarrow> map_of (agents t) i = None \<and> e = Maids_error (error AGENT_NOT_FOUND False) \<and> t' = t
    | (Inr rid, t') \<Rightarrow> map_of (agents t) i \<noteq> None \<and> getRunState rid t = None \<and> getRunState rid t' = Some Run_running \<and>
        (\<forall>other. other \<noteq> rid \<longrightarrow> getRunState other t' = getRunState other t) \<and> agents t' = agents t)"
    and "(case completeRun rid t of
      (Inl e, t') \<Rightarrow> getRunState rid t = None \<and> e = Maids_error (error AGENT_NOT_FOUND False) \<and> t' = t
    | (Inr _, t') \<Rightarrow> getRunState rid t' = Some Run_completed \<and>
        (\<forall>other. other \<noteq> rid \<longrightarrow> getRunState other t' = getRunState other t) \<and>
        (\<exists>run. map_of (runs t) rid = Some run \<and>
           map_of (agents t') = (if isEphemeral (rr_agentId run) t
             then (map_of (agents t))(rr_agentId run := None) else map_of (agents t))))"
proof -
  show "case startRun now i sid t of
      (Inl e, t') \<Rightarrow> map_of (agents t) i = None \<and> e = Maids_error (error AGENT_NOT_FOUND False) \<and> t' = t
    | (Inr rid, t') \<Rightarrow> map_of (agents t) i \<noteq> None \<and> getRunState rid t = None \<and> getRunState rid t' = Some Run_running \<and>
        (\<forall>other. other \<noteq> rid \<longrightarrow> getRunState other t' = getRunState other t) \<and> agents t' = agents t"
    using started_run_fresh [OF reachable_runs_inv [OF assms], of now i sid]
    by (auto simp: startRun_def generateRunId_def getRunState_def update_conv' Let_def split: option.split sum.split)
  show "case completeRun rid t of
      (Inl e, t') \<Rightarrow> getRunState rid t = None \<and> e = Maids_error (error AGENT_NOT_FOUND False) \<and> t' = t
    | (Inr _, t') \<Rightarrow> getRunState rid t' = Some Run_completed \<and>
        (\<forall>other. other \<noteq> rid \<longrightarrow> getRunState other t' = getRunState other t) \<and>
        (\<exists>run. map_of (runs t) rid = Some run \<and>
           map_of (agents t') = (if isEphemeral (rr_agentId run) t
             then (map_of (agents t))(rr_agentId run := None) else map_of (agents t)))"
  proof (cases "map_of (runs t) rid")
    case None
    then show ?thesis by (simp add: completeRun_def end_run_def getRunState_def)
  next
    case (Some run)
    let ?f = "\<lambda>run. run\<lparr>rr_state := Run_completed\<rparr>"
    obtain r t' where "end_run ?f rid t = (r, t')" by (cases "end_run ?f rid t")
    with end_run_found [OF Some, of ?f] show ?thesis
      by (simp add: completeRun_def getRunState_def Some)
  qed
qed
end
