(* ===== verification/Tool_Access.thy ===== *)
theory Tool_Access
  imports Agents
begin

text \<open>
  Tools: their definitions and contracts (\<^verbatim>\<open>src/core/tools/tool-definition.ts\<close>), the executor
  that finds and runs them (\<^verbatim>\<open>tool-executor.ts\<close>, with the adapter of \<^verbatim>\<open>mcp-adapter.ts\<close>), the
  gate before a call (\<^verbatim>\<open>tool-access-policy.ts\<close>) and the contracts of artifacts
  (\<^verbatim>\<open>artifact-contract-policy.ts\<close>).

  What a tool reads and changes is the world, of type \<open>'w\<close>. The code of a tool is a function
  of its parameters, the dispatch context and the world, which returns its result and the
  world after it. A remote server is what its client answers.
\<close>

section \<open>Definitions of tools\<close>

datatype effect_class = Read_only | Deferred_write | Immediate_write
datatype trace_visibility = Public_trace | Debug_trace | Private_runtime
datatype tool_effect_type = Effect_read_only | Write_private | Write_shared | Write_world | Settlement
datatype turn_phase = Pre_turn | In_turn | Post_turn | Any_phase
datatype cardinality_rule = Once | Multiple | At_most_once

record tool_contract =
  tc_effect_type :: tool_effect_type
  tc_turn_phase :: turn_phase
  tc_cardinality :: cardinality_rule
  tc_capabilities :: "string list option"
  tc_trace_visibility :: trace_visibility

datatype authority_level = Authority_agent | Authority_system | Authority_admin
datatype artifact_scope = Scope_private | Scope_session | Scope_area | Scope_world
datatype ledger_policy = Append_only | Current_state | Ephemeral_ledger

record artifact_contract =
  ac_authority :: authority_level
  ac_scope :: artifact_scope
  ac_ledger :: ledger_policy

record tool_schema =
  ts_name :: string
  ts_description :: string
  ts_parameters :: json
  ts_effectClass :: "effect_class option"
  ts_traceVisibility :: "trace_visibility option"
  ts_contract :: "tool_contract option"
  ts_artifacts :: "(string, artifact_contract) js_map option"

fun deriveEffectClass :: "tool_effect_type \<Rightarrow> effect_class" where
  "deriveEffectClass Effect_read_only = Read_only"
| "deriveEffectClass Write_private = Immediate_write"
| "deriveEffectClass Write_shared = Immediate_write"
| "deriveEffectClass Write_world = Immediate_write"
| "deriveEffectClass Settlement = Read_only"

record viewer_context =
  vc_agent_id :: string
  vc_role :: agent_role
  vc_admin_only :: "bool option"
  vc_area_id :: "int option"
  vc_session_id :: string

record dispatch_context =
  dc_viewerContext :: "viewer_context option"
  dc_sessionId :: "string option"
  dc_agentId :: "string option"

text \<open>A result is JSON, or \<open>undefined\<close>.\<close>

type_synonym tool_result = "json option"

record 'w tool_def = tool_schema +
  td_execute :: "json \<Rightarrow> dispatch_context \<Rightarrow> 'w \<Rightarrow> (thrown, tool_result) result \<times> 'w"

section \<open>The executor\<close>

record 'w mcp_client =
  mc_listTools :: "'w \<Rightarrow> (thrown, (string \<times> string \<times> json) list) result \<times> 'w"
  mc_callTool :: "string \<Rightarrow> json \<Rightarrow> 'w \<Rightarrow> (thrown, tool_result) result \<times> 'w"

record 'w registration =
  rg_client :: "'w mcp_client"
  rg_loaded :: bool
  rg_loading :: bool
  rg_tools :: "(string, 'w tool_def) js_map"

record 'w executor =
  localTools :: "(string, 'w tool_def) js_map"
  mcpServers :: "(string, 'w registration) js_map"

definition new_executor :: "'w executor" where
  "new_executor = \<lparr>localTools = [], mcpServers = []\<rparr>"

definition registerLocal :: "'w tool_def \<Rightarrow> 'w executor \<Rightarrow> 'w executor" where
  "registerLocal tool ex = ex\<lparr>localTools := AList.update (ts_name tool) tool (localTools ex)\<rparr>"

definition registerMCP :: "string \<Rightarrow> 'w mcp_client \<Rightarrow> 'w executor \<Rightarrow> 'w executor" where
  "registerMCP serverName client ex =
     ex\<lparr>mcpServers := AList.update serverName
          \<lparr>rg_client = client, rg_loaded = False, rg_loading = False, rg_tools = []\<rparr> (mcpServers ex)\<rparr>"

definition unregisterMCP :: "string \<Rightarrow> 'w executor \<Rightarrow> 'w executor" where
  "unregisterMCP serverName ex = ex\<lparr>mcpServers := AList.delete serverName (mcpServers ex)\<rparr>"

definition McpToolAdapter :: "'w mcp_client \<Rightarrow> string \<times> string \<times> json \<Rightarrow> 'w tool_def" where
  "McpToolAdapter client tool =
     (case tool of (n, d, p) \<Rightarrow>
        \<lparr>ts_name = n, ts_description = d, ts_parameters = p, ts_effectClass = None,
         ts_traceVisibility = None, ts_contract = None, ts_artifacts = None,
         td_execute = (\<lambda>params ctx. mc_callTool client n params)\<rparr>)"

definition loadServerSchemas :: "'w registration \<Rightarrow> 'w \<Rightarrow> (thrown, 'w registration) result \<times> 'w" where
  "loadServerSchemas rg w =
     (if rg_loaded rg then (Inr rg, w)
      else (case mc_listTools (rg_client rg) w of
              (Inl e, w') \<Rightarrow> (Inl (Maids_error (wrapError e (Some MCP_SCHEMA_LOAD_FAILED) (Some True))), w')
            | (Inr listed, w') \<Rightarrow>
                (Inr (rg\<lparr>rg_tools := foldl (\<lambda>m t. AList.update (fst t) (McpToolAdapter (rg_client rg) t) m) [] listed,
                         rg_loaded := True\<rparr>), w')))"

text \<open>
  Awaiting a load that is under way and starting one end in the same state, with the flag
  \<open>loading\<close> down.
\<close>

definition ensureLoaded :: "string \<Rightarrow> 'w registration \<Rightarrow> 'w executor \<times> 'w \<Rightarrow>
    (thrown, 'w registration) result \<times> 'w executor \<times> 'w" where
  "ensureLoaded serverName rg s =
     (case s of (ex, w) \<Rightarrow>
        if rg_loaded rg then (Inr rg, ex, w)
        else (case loadServerSchemas rg w of
                (Inl e, w') \<Rightarrow>
                  (Inl e, ex\<lparr>mcpServers := AList.update serverName (rg\<lparr>rg_loading := False\<rparr>) (mcpServers ex)\<rparr>, w')
              | (Inr rg', w') \<Rightarrow>
                  (Inr rg', ex\<lparr>mcpServers := AList.update serverName (rg'\<lparr>rg_loading := False\<rparr>) (mcpServers ex)\<rparr>, w')))"

definition findLoadedRemoteTool :: "string \<Rightarrow> 'w executor \<Rightarrow> 'w tool_def option" where
  "findLoadedRemoteTool n ex =
     (case find (\<lambda>rg. rg_loaded rg \<and> map_of (rg_tools rg) n \<noteq> None) (map snd (mcpServers ex)) of
        Some rg \<Rightarrow> map_of (rg_tools rg) n
      | None \<Rightarrow> None)"

text \<open>A tool runs on the world; the executor stays as it is.\<close>

definition run_tool :: "'w tool_def \<Rightarrow> json \<Rightarrow> dispatch_context \<Rightarrow> 'w executor \<times> 'w \<Rightarrow>
    (thrown, tool_result) result \<times> 'w executor \<times> 'w" where
  "run_tool tool params ctx s =
     (case s of (ex, w) \<Rightarrow> (case td_execute tool params ctx w of (r, w') \<Rightarrow> (r, ex, w')))"

fun try_servers :: "string \<Rightarrow> json \<Rightarrow> dispatch_context \<Rightarrow> (string \<times> 'w registration) list \<Rightarrow>
    'w executor \<times> 'w \<Rightarrow> (thrown, tool_result) result \<times> 'w executor \<times> 'w" where
  "try_servers n params ctx [] s = (Inl (Maids_error (error TOOL_ARGUMENT_INVALID False)), s)"
| "try_servers n params ctx ((serverName, rg) # rest) s =
     (case ensureLoaded serverName rg s of
        (Inl e, s') \<Rightarrow> (Inl e, s')
      | (Inr rg', s') \<Rightarrow>
          (case map_of (rg_tools rg') n of
             Some remote \<Rightarrow> run_tool remote params ctx s'
           | None \<Rightarrow> try_servers n params ctx rest s'))"

definition execute :: "string \<Rightarrow> json \<Rightarrow> dispatch_context \<Rightarrow> 'w executor \<times> 'w \<Rightarrow>
    (thrown, tool_result) result \<times> 'w executor \<times> 'w" where
  "execute n params ctx s =
     (case map_of (localTools (fst s)) n of
        Some local \<Rightarrow> run_tool local params ctx s
      | None \<Rightarrow>
          (case findLoadedRemoteTool n (fst s) of
             Some remote \<Rightarrow> run_tool remote params ctx s
           | None \<Rightarrow> try_servers n params ctx (mcpServers (fst s)) s))"

definition startBackgroundLoad :: "'w registration \<Rightarrow> 'w registration" where
  "startBackgroundLoad rg = (if rg_loaded rg \<or> rg_loading rg then rg else rg\<lparr>rg_loading := True\<rparr>)"

definition getSchemas :: "'w executor \<Rightarrow> tool_schema list \<times> 'w executor" where
  "getSchemas ex =
     (let localSchemas = map (tool_schema.truncate \<circ> snd) (localTools ex);
          servers = map (\<lambda>(n, rg). (n, startBackgroundLoad rg)) (mcpServers ex);
          remoteSchemas = concat (map (\<lambda>(n, rg). map (tool_schema.truncate \<circ> snd) (rg_tools rg)) servers)
      in (localSchemas @ remoteSchemas, ex\<lparr>mcpServers := servers\<rparr>))"

section \<open>The gate\<close>

definition CAPABILITY_MAP :: "(string \<times> (agent_permissions \<Rightarrow> bool)) list" where
  "CAPABILITY_MAP =
     [(''cognition_read'', canAccessCognition),
      (''cognition_write'', canWriteCognition),
      (''admin_read'', canReadAdminOnly),
      (''memory.read.private'', canReadPrivateMemory),
      (''memory.read.redacted'', canReadRedactedMemory),
      (''memory.write.authoritative'', canWriteAuthoritatively),
      (''summary.pin.propose'', canProposePinnedSummary),
      (''summary.pin.commit'', canCommitPinnedSummary),
      (''shared.block.read'', canReadSharedBlocks),
      (''shared.block.mutate'', canMutateSharedBlocks),
      (''admin.rules.mutate'', canMutateAdminRules),
      (''rp_settlement'', canSettleRpTurn)]"

definition getFilteredSchemas :: "agent_profile \<Rightarrow> tool_schema list \<Rightarrow> tool_schema list" where
  "getFilteredSchemas profile allSchemas =
     (if ap_toolPermissions profile = [] then allSchemas
      else (let allowed = map tp_toolName (filter tp_allowed (ap_toolPermissions profile))
            in filter (\<lambda>schema. ts_name schema \<in> set allowed) allSchemas))"

record tool_context =
  xc_schema :: "tool_schema option"
  xc_permissions :: "agent_permissions option"
  xc_turnToolsUsed :: "string js_set option"

text \<open>The three layers of the gate.\<close>

definition allowlisted :: "agent_profile \<Rightarrow> string \<Rightarrow> bool" where
  "allowlisted profile toolName =
     (ap_toolPermissions profile = [] \<or>
      list_ex (\<lambda>perm. tp_toolName perm = toolName \<and> tp_allowed perm) (ap_toolPermissions profile))"

definition capability_granted :: "agent_permissions \<Rightarrow> string \<Rightarrow> bool" where
  "capability_granted permissions req =
     (case map_of CAPABILITY_MAP req of None \<Rightarrow> False | Some field \<Rightarrow> field permissions)"

definition capable :: "tool_contract option \<Rightarrow> agent_permissions option \<Rightarrow> bool" where
  "capable contract permissions =
     (case (contract, permissions) of
        (Some c, Some p) \<Rightarrow> list_all (capability_granted p) (or_else (tc_capabilities c) [])
      | _ \<Rightarrow> True)"

definition within_cardinality :: "tool_contract option \<Rightarrow> string js_set option \<Rightarrow> string \<Rightarrow> bool" where
  "within_cardinality contract used toolName =
     (case (contract, used) of
        (Some c, Some u) \<Rightarrow> tc_cardinality c = Multiple \<or> toolName \<notin> set u
      | _ \<Rightarrow> True)"

definition canExecuteTool :: "agent_profile \<Rightarrow> string \<Rightarrow> tool_context option \<Rightarrow> bool" where
  "canExecuteTool profile toolName executionContext =
     (if \<not> allowlisted profile toolName then False
      else (case executionContext of
              None \<Rightarrow> True
            | Some ctx \<Rightarrow>
                (let contract = Option.bind (xc_schema ctx) ts_contract
                 in if \<not> capable contract (xc_permissions ctx) then False
                    else within_cardinality contract (xc_turnToolsUsed ctx) toolName)))"

section \<open>Contracts of artifacts\<close>

datatype write_mode = Append_write | Overwrite

record artifact_context =
  xa_writingAgentId :: "string option"
  xa_ownerAgentId :: "string option"
  xa_writeOperation :: "write_mode option"

definition enforce_contract :: "artifact_context \<Rightarrow> artifact_contract \<Rightarrow> (thrown, unit) result" where
  "enforce_contract context contract =
     (let writer = or_else (xa_writingAgentId context) [];
          owner = or_else (xa_ownerAgentId context) [];
          denied = Inl (Maids_error (error ARTIFACT_CONTRACT_DENIED False))
      in if ac_authority contract = Authority_agent \<and> (writer = [] \<or> owner = []) then denied
         else if ac_authority contract = Authority_agent \<and> writer \<noteq> owner then denied
         else if ac_ledger contract = Append_only \<and> xa_writeOperation context = Some Overwrite then denied
         else Inr ())"

fun enforceArtifactContracts :: "(string, artifact_contract) js_map \<Rightarrow> artifact_context \<Rightarrow>
    (thrown, unit) result" where
  "enforceArtifactContracts [] context = Inr ()"
| "enforceArtifactContracts ((artifactName, contract) # rest) context =
     (case enforce_contract context contract of
        Inl e \<Rightarrow> Inl e
      | Inr _ \<Rightarrow> enforceArtifactContracts rest context)"

definition filterArtifactsByScope :: "(string, artifact_contract) js_map \<Rightarrow> artifact_scope list \<Rightarrow> string list" where
  "filterArtifactsByScope contracts allowedScopes =
     map fst (filter (\<lambda>(artifactName, contract). ac_scope contract \<in> set allowedScopes) contracts)"
end
