(* ===== verification/Turn_Contract.thy ===== *)
theory Turn_Contract
  imports Js_Values Errors
begin

text \<open>
  The contract of a turn's outcome (\<^verbatim>\<open>src/runtime/rp-turn-contract.ts\<close>): the value a model
  submits is checked and brought into its canonical form. It is JSON, so it is taken as such
  a value, with \<open>None\<close> for \<open>undefined\<close>.

  The code changes the record of an assertion in place; here the changed record is returned.
  A property set to \<open>undefined\<close> is one that is absent.
\<close>

section \<open>Values\<close>

definition prop_of :: "json \<Rightarrow> string \<Rightarrow> json option" where
  "prop_of v k = (case v of JObj m \<Rightarrow> get_prop m k | _ \<Rightarrow> None)"

text \<open>\<open>v && typeof v === "object"\<close>, and \<open>typeof v === "string"\<close>.\<close>

fun is_object :: "json \<Rightarrow> bool" where
  "is_object (JObj m) = True"
| "is_object (JArr xs) = True"
| "is_object _ = False"

fun string_of :: "json option \<Rightarrow> string option" where
  "string_of (Some (JStr s)) = Some s"
| "string_of _ = None"

definition blank :: "string \<Rightarrow> bool" where
  "blank s = (js_trim s = [])"

definition one_of :: "string list \<Rightarrow> json option \<Rightarrow> bool" where
  "one_of names v = (case string_of v of Some s \<Rightarrow> s \<in> set names | None \<Rightarrow> False)"

text \<open>\<open>...(typeof v === "string" ? { k: v } : {})\<close>\<close>

definition string_entry :: "string \<Rightarrow> json \<Rightarrow> (string \<times> json) list" where
  "string_entry k v = (case prop_of v k of Some (JStr s) \<Rightarrow> [(k, JStr s)] | _ \<Rightarrow> [])"

definition number_entry :: "string \<Rightarrow> json \<Rightarrow> (string \<times> json) list" where
  "number_entry k v = (case prop_of v k of Some (JNum n) \<Rightarrow> [(k, JNum n)] | _ \<Rightarrow> [])"

definition bind_ok :: "('e, 'a) result \<Rightarrow> ('a \<Rightarrow> ('e, 'b) result) \<Rightarrow> ('e, 'b) result" where
  "bind_ok r f = (case r of Inl e \<Rightarrow> Inl e | Inr x \<Rightarrow> f x)"

text \<open>A loop that pushes what the body returns and ends with its first exception.\<close>

fun each :: "('a \<Rightarrow> ('e, 'b) result) \<Rightarrow> 'a list \<Rightarrow> ('e, 'b list) result" where
  "each f [] = Inr []"
| "each f (x # xs) = bind_ok (f x) (\<lambda>y. bind_ok (each f xs) (\<lambda>ys. Inr (y # ys)))"

definition array_or_empty :: "(json \<Rightarrow> (thrown, json) result) \<Rightarrow> json option \<Rightarrow> (thrown, json list) result" where
  "array_or_empty f raw =
     (case raw of None \<Rightarrow> Inr [] | Some (JArr xs) \<Rightarrow> each f xs | Some _ \<Rightarrow> Inl Plain_error)"

section \<open>The public parts\<close>

definition V5_PUBLICATION_KINDS :: "string list" where
  "V5_PUBLICATION_KINDS = [''spoken'', ''written'', ''visual'']"

definition VALID_TARGET_SCOPES :: "string list" where
  "VALID_TARGET_SCOPES = [''current_area'', ''world_public'']"

definition VALID_CATEGORIES :: "string list" where
  "VALID_CATEGORIES = [''speech'', ''action'', ''observation'', ''state_change'']"

definition ALLOWED_INTENTS :: "string list" where
  "ALLOWED_INTENTS = [''supports'', ''triggered'']"

abbreviation the_prop :: "json \<Rightarrow> string \<Rightarrow> json" where
  "the_prop v k \<equiv> the (prop_of v k)"

definition normalize_publication :: "json \<Rightarrow> (thrown, json) result" where
  "normalize_publication e =
     (if \<not> is_object e then Inl Plain_error
      else if \<not> one_of V5_PUBLICATION_KINDS (prop_of e ''kind'') then Inl Plain_error
      else if \<not> one_of VALID_TARGET_SCOPES (prop_of e ''targetScope'') then Inl Plain_error
      else if string_of (prop_of e ''summary'') = None then Inl Plain_error
      else Inr (JObj (string_entry ''localRef'' e @
        [(''kind'', the_prop e ''kind''), (''targetScope'', the_prop e ''targetScope''),
         (''summary'', the_prop e ''summary'')])))"

definition normalizePublicationsV5 :: "json option \<Rightarrow> (thrown, json list) result" where
  "normalizePublicationsV5 raw = array_or_empty normalize_publication raw"

definition normalize_episode :: "json \<Rightarrow> (thrown, json) result" where
  "normalize_episode e =
     (if \<not> is_object e then Inl Plain_error
      else if \<not> one_of VALID_CATEGORIES (prop_of e ''category'') then Inl Plain_error
      else if string_of (prop_of e ''summary'') = None then Inl Plain_error
      else Inr (JObj (string_entry ''localRef'' e @
        [(''category'', the_prop e ''category''), (''summary'', the_prop e ''summary'')] @
        string_entry ''privateNotes'' e @ string_entry ''locationText'' e @ number_entry ''validTime'' e)))"

definition normalizePrivateEpisodes :: "json option \<Rightarrow> (thrown, json list) result" where
  "normalizePrivateEpisodes raw = array_or_empty normalize_episode raw"

definition normalizePinnedSummaryProposal :: "json option \<Rightarrow> (thrown, json option) result" where
  "normalizePinnedSummaryProposal raw =
     (case raw of
        None \<Rightarrow> Inr None
      | Some v \<Rightarrow>
          (case v of
             JObj m \<Rightarrow>
               if string_of (prop_of v ''proposedText'') = None then Inl Plain_error
               else Inr (Some (JObj ((''proposedText'', the_prop v ''proposedText'') # string_entry ''rationale'' v)))
           | _ \<Rightarrow> Inl Plain_error))"

definition normalize_intent :: "json \<Rightarrow> (thrown, json) result" where
  "normalize_intent e =
     (if \<not> is_object e then Inl Plain_error
      else if \<not> one_of ALLOWED_INTENTS (prop_of e ''intent'') then Inl Plain_error
      else if string_of (prop_of e ''sourceRef'') = None then Inl Plain_error
      else if string_of (prop_of e ''targetRef'') = None then Inl Plain_error
      else Inr (JObj [(''sourceRef'', the_prop e ''sourceRef''), (''targetRef'', the_prop e ''targetRef''),
                      (''intent'', the_prop e ''intent'')]))"

definition normalizeRelationIntents :: "json option \<Rightarrow> (thrown, json list) result" where
  "normalizeRelationIntents raw = array_or_empty normalize_intent raw"

definition note_too_long :: "json \<Rightarrow> bool" where
  "note_too_long e = (case string_of (prop_of e ''note'') of Some s \<Rightarrow> length s > 120 | None \<Rightarrow> False)"

definition normalize_factor :: "json \<Rightarrow> (thrown, json) result" where
  "normalize_factor e =
     (if \<not> is_object e then Inl Plain_error
      else if string_of (prop_of e ''kind'') = None then Inl Plain_error
      else if string_of (prop_of e ''ref'') = None then Inl Plain_error
      else if note_too_long e then Inl Plain_error
      else Inr (JObj ([(''kind'', the_prop e ''kind''), (''ref'', the_prop e ''ref'')] @ string_entry ''note'' e)))"

definition normalizeConflictFactors :: "json option \<Rightarrow> (thrown, json list) result" where
  "normalizeConflictFactors raw = array_or_empty normalize_factor raw"

section \<open>Assertions\<close>

definition V4_ASSERTION_STANCES :: "string list" where
  "V4_ASSERTION_STANCES = [''hypothetical'', ''tentative'', ''accepted'', ''confirmed'', ''contested'',
     ''rejected'', ''abandoned'']"

definition V4_PRE_CONTESTABLE_STANCES :: "string list" where
  "V4_PRE_CONTESTABLE_STANCES = [''hypothetical'', ''tentative'', ''accepted'', ''confirmed'']"

definition V4_ASSERTION_BASES :: "string list" where
  "V4_ASSERTION_BASES = [''first_hand'', ''hearsay'', ''inference'', ''introspection'', ''belief'']"

definition pointer :: "string \<Rightarrow> json" where
  "pointer s = JObj [(''kind'', JStr ''pointer_key''), (''value'', JStr s)]"

definition isCognitionEntityRef :: "json option \<Rightarrow> bool" where
  "isCognitionEntityRef value =
     (case value of
        None \<Rightarrow> False
      | Some v \<Rightarrow>
          is_object v \<and>
          (if prop_of v ''kind'' = Some (JStr ''pointer_key'')
           then (case string_of (prop_of v ''value'') of Some s \<Rightarrow> \<not> blank s | None \<Rightarrow> False)
           else prop_of v ''kind'' = Some (JStr ''special'') \<and>
             one_of [''self'', ''user'', ''current_location''] (prop_of v ''value'')))"

definition isEntityPropositionObject :: "json option \<Rightarrow> bool" where
  "isEntityPropositionObject value =
     (case value of
        None \<Rightarrow> False
      | Some v \<Rightarrow> is_object v \<and> prop_of v ''kind'' = Some (JStr ''entity'') \<and> isCognitionEntityRef (prop_of v ''ref''))"

text \<open>\<open>proposition && f(proposition.k)\<close>: the property of a proposition that is truthy.\<close>

definition proposition_prop :: "(string \<times> json) list \<Rightarrow> string \<Rightarrow> json option" where
  "proposition_prop m k =
     (let p = get_prop m ''proposition'' in if truthy p then prop_of (the p) k else None)"

definition normalize_holder :: "(string \<times> json) list \<Rightarrow> (string \<times> json) list" where
  "normalize_holder m =
     (case string_of (get_prop m ''holderId'') of
        Some s \<Rightarrow> AList.update ''holderId'' (pointer s) m
      | None \<Rightarrow>
          if isCognitionEntityRef (get_prop m ''holderId'') then m
          else if isCognitionEntityRef (proposition_prop m ''subject'')
          then AList.update ''holderId'' (the (proposition_prop m ''subject'')) m
          else AList.update ''holderId'' (pointer ''unknown'') m)"

definition normalize_claim :: "(string \<times> json) list \<Rightarrow> (string \<times> json) list" where
  "normalize_claim m =
     (if string_of (get_prop m ''claim'') \<in> {None, Some []}
      then (case string_of (proposition_prop m ''predicate'') of
              Some s \<Rightarrow> AList.update ''claim'' (JStr s) m
            | None \<Rightarrow> AList.update ''claim'' (JStr ''(unknown claim)'') m)
      else m)"

definition normalize_ref :: "json \<Rightarrow> json" where
  "normalize_ref r =
     (case r of JStr s \<Rightarrow> pointer s | _ \<Rightarrow> if isCognitionEntityRef (Some r) then r else pointer ''unknown'')"

definition proposition_refs :: "(string \<times> json) list \<Rightarrow> json list" where
  "proposition_refs m =
     (let obj = proposition_prop m ''object''
      in if isEntityPropositionObject obj then [the (prop_of (the obj) ''ref'')]
         else if isCognitionEntityRef obj then [the obj]
         else (case obj of Some (JStr s) \<Rightarrow> [pointer s] | _ \<Rightarrow> []))"

definition normalize_entity_refs :: "(string \<times> json) list \<Rightarrow> (string \<times> json) list" where
  "normalize_entity_refs m =
     (case get_prop m ''entityRefs'' of
        Some (JArr rs) \<Rightarrow> AList.update ''entityRefs'' (JArr (map normalize_ref rs)) m
      | _ \<Rightarrow> AList.update ''entityRefs'' (JArr (proposition_refs m)) m)"

definition normalize_basis :: "(string \<times> json) list \<Rightarrow> (string \<times> json) list" where
  "normalize_basis m =
     (if get_prop m ''basis'' \<noteq> None \<and> \<not> one_of V4_ASSERTION_BASES (get_prop m ''basis'')
      then AList.delete ''basis'' m else m)"

definition normalize_pre_contested :: "(string \<times> json) list \<Rightarrow> (string \<times> json) list" where
  "normalize_pre_contested m =
     (if get_prop m ''stance'' = Some (JStr ''contested'') \<and>
         \<not> one_of V4_PRE_CONTESTABLE_STANCES (get_prop m ''preContestedStance'')
      then AList.update ''preContestedStance'' (JStr ''tentative'') m else m)"

definition normalizeAssertionRecord :: "(string \<times> json) list \<Rightarrow> (thrown, (string \<times> json) list) result" where
  "normalizeAssertionRecord m =
     (let m' = AList.delete ''proposition'' (normalize_entity_refs (normalize_claim (normalize_holder m)))
      in if \<not> one_of V4_ASSERTION_STANCES (get_prop m' ''stance'') then Inl Plain_error
         else Inr (normalize_pre_contested (normalize_basis m')))"

section \<open>Private cognition\<close>

text \<open>
  A malformed operation is skipped, with a warning that prints the key of its record. That
  handler itself fails on an operation that is \<open>null\<close>, and on a key that has no text: an
  object with an own \<open>toString\<close>, or an array with such an element.
\<close>

fun no_text :: "json \<Rightarrow> bool" where
  "no_text (JObj m) = (''toString'' \<in> fst ` set m)"
| "no_text (JArr xs) = list_ex no_text xs"
| "no_text _ = False"

definition skip_op :: "json \<Rightarrow> (thrown, json option) result" where
  "skip_op op =
     (if op = JNull then Inl Plain_error
      else case prop_of op ''record'' of
        Some r \<Rightarrow>
          if is_object r then
            (case prop_of r ''key'' of Some k \<Rightarrow> if no_text k then Inl Plain_error else Inr None | None \<Rightarrow> Inr None)
          else Inr None
      | None \<Rightarrow> Inr None)"

definition has_key :: "json option \<Rightarrow> bool" where
  "has_key v = (case v of
      Some r \<Rightarrow> (case string_of (prop_of r ''key'') of Some s \<Rightarrow> \<not> blank s | None \<Rightarrow> False)
    | None \<Rightarrow> False)"

definition normalize_op :: "json \<Rightarrow> (thrown, json option) result" where
  "normalize_op op =
     (if op = JNull then skip_op op
      else if prop_of op ''op'' = Some (JStr ''upsert'') then
        (if \<not> has_key (prop_of op ''record'') then skip_op op
         else (case the_prop op ''record'' of
             JObj m \<Rightarrow>
               if get_prop m ''kind'' = Some (JStr ''assertion'') then
                 (case normalizeAssertionRecord m of
                    Inl _ \<Rightarrow> skip_op op
                  | Inr m' \<Rightarrow> Inr (Some (JObj [(''op'', JStr ''upsert''), (''record'', JObj m')])))
               else Inr (Some (JObj [(''op'', JStr ''upsert''), (''record'', JObj m)]))
           | _ \<Rightarrow> skip_op op))
      else if prop_of op ''op'' = Some (JStr ''retract'') then
        (if \<not> has_key (prop_of op ''target'') then skip_op op
         else Inr (Some (JObj [(''op'', JStr ''retract''), (''target'', the_prop op ''target'')])))
      else Inr None)"

definition op_key :: "json \<Rightarrow> string" where
  "op_key op =
     (if prop_of op ''op'' = Some (JStr ''upsert'')
      then ''upsert:'' @ the (string_of (prop_of (the_prop op ''record'') ''key''))
      else ''retract:'' @ the (string_of (prop_of (the_prop op ''target'') ''key'')))"

definition dedup_ops :: "json list \<Rightarrow> json list" where
  "dedup_ops ops = map snd (fold (\<lambda>op. AList.update (op_key op) op) ops [])"

definition canonical_commit :: "json \<Rightarrow> json list \<Rightarrow> json" where
  "canonical_commit commit ops =
     JObj ([(''schemaVersion'', JStr ''rp_private_cognition_v4'')] @ string_entry ''summary'' commit @ [(''ops'', JArr ops)])"

definition normalizePrivateCommit :: "json option \<Rightarrow> (thrown, json option) result" where
  "normalizePrivateCommit raw =
     (case raw of
        None \<Rightarrow> Inr None
      | Some v \<Rightarrow>
          if \<not> is_object v then Inl Plain_error
          else (case prop_of v ''ops'' of
              Some (JArr ops) \<Rightarrow>
                bind_ok (each normalize_op ops) (\<lambda>kept.
                  Inr (Some (canonical_commit v (dedup_ops (List.map_filter id kept)))))
            | _ \<Rightarrow> Inl Plain_error))"

section \<open>The outcome\<close>

definition commit_ops :: "json option \<Rightarrow> json list" where
  "commit_ops c = (case c of None \<Rightarrow> [] | Some v \<Rightarrow> (case prop_of v ''ops'' of Some (JArr ops) \<Rightarrow> ops | _ \<Rightarrow> []))"

abbreviation entry_if :: "string \<Rightarrow> json option \<Rightarrow> (string \<times> json) list" where
  "entry_if k v \<equiv> (case v of Some x \<Rightarrow> [(k, x)] | None \<Rightarrow> [])"

definition canonical_outcome :: "json \<Rightarrow> string \<Rightarrow> json option \<Rightarrow> json list \<Rightarrow> json list \<Rightarrow> json option \<Rightarrow>
    json list \<Rightarrow> json list \<Rightarrow> json" where
  "canonical_outcome obj publicReply privateCognition privateEpisodes publications pinnedSummaryProposal
     relationIntents conflictFactors =
     JObj ([(''schemaVersion'', JStr ''rp_turn_outcome_v5''), (''publicReply'', JStr publicReply)] @
       string_entry ''latentScratchpad'' obj @ entry_if ''privateCognition'' privateCognition @
       [(''privateEpisodes'', JArr privateEpisodes), (''publications'', JArr publications)] @
       entry_if ''pinnedSummaryProposal'' pinnedSummaryProposal @
       [(''relationIntents'', JArr relationIntents), (''conflictFactors'', JArr conflictFactors)])"

definition normalizeV5Submission :: "json \<Rightarrow> (thrown, json) result" where
  "normalizeV5Submission obj =
     (let publicReply = the (string_of (prop_of obj ''publicReply''))
      in bind_ok (normalizePrivateCommit (prop_of obj ''privateCognition'')) (\<lambda>privateCognition.
         bind_ok (normalizePublicationsV5 (prop_of obj ''publications'')) (\<lambda>publications.
         bind_ok (normalizePrivateEpisodes (prop_of obj ''privateEpisodes'')) (\<lambda>privateEpisodes.
         bind_ok (normalizePinnedSummaryProposal (prop_of obj ''pinnedSummaryProposal'')) (\<lambda>pinnedSummaryProposal.
         bind_ok (normalizeRelationIntents (prop_of obj ''relationIntents'')) (\<lambda>relationIntents.
         bind_ok (normalizeConflictFactors (prop_of obj ''conflictFactors'')) (\<lambda>conflictFactors.
           if publicReply = [] \<and> commit_ops privateCognition = [] \<and> publications = [] \<and> privateEpisodes = []
           then Inl Plain_error
           else Inr (canonical_outcome obj publicReply privateCognition privateEpisodes publications
             pinnedSummaryProposal relationIntents conflictFactors))))))))"

definition normalizeRpTurnOutcome :: "json option \<Rightarrow> (thrown, json) result" where
  "normalizeRpTurnOutcome raw =
     (case raw of
        None \<Rightarrow> Inl Plain_error
      | Some obj \<Rightarrow>
          if \<not> is_object obj then Inl Plain_error
          else (case string_of (prop_of obj ''schemaVersion'') of
              None \<Rightarrow> Inl Plain_error
            | Some s \<Rightarrow>
                if blank s then Inl Plain_error
                else if s \<noteq> ''rp_turn_outcome_v5'' then Inl Plain_error
                else if string_of (prop_of obj ''publicReply'') = None then Inl Plain_error
                else normalizeV5Submission obj))"

datatype outcome_version = V5 | Unknown_version

definition detectOutcomeVersion :: "json option \<Rightarrow> (thrown, outcome_version) result" where
  "detectOutcomeVersion raw =
     (case raw of
        None \<Rightarrow> Inr Unknown_version
      | Some obj \<Rightarrow>
          if \<not> is_object obj then Inr Unknown_version
          else if prop_of obj ''schemaVersion'' = Some (JStr ''rp_turn_outcome_v5'') then Inr V5
          else if one_of [''rp_turn_outcome_v3'', ''rp_turn_outcome_v4''] (prop_of obj ''schemaVersion'')
          then Inl Plain_error else Inr Unknown_version)"

definition entries_ok :: "(json \<Rightarrow> bool) \<Rightarrow> json option \<Rightarrow> bool" where
  "entries_ok ok v = (case v of None \<Rightarrow> True | Some (JArr xs) \<Rightarrow> list_all (\<lambda>x. is_object x \<and> ok x) xs | _ \<Rightarrow> False)"

definition validateRpTurnOutcomeV5 :: "json option \<Rightarrow> (thrown, json) result" where
  "validateRpTurnOutcomeV5 payload =
     (case payload of
        None \<Rightarrow> Inl Plain_error
      | Some obj \<Rightarrow>
          if \<not> is_object obj then Inl Plain_error
          else if prop_of obj ''schemaVersion'' \<noteq> Some (JStr ''rp_turn_outcome_v5'') then Inl Plain_error
          else if string_of (prop_of obj ''publicReply'') = None then Inl Plain_error
          else if \<not> entries_ok (\<lambda>p. one_of V5_PUBLICATION_KINDS (prop_of p ''kind'')) (prop_of obj ''publications'')
          then Inl Plain_error
          else if \<not> entries_ok (\<lambda>r. one_of ALLOWED_INTENTS (prop_of r ''intent'')) (prop_of obj ''relationIntents'')
          then Inl Plain_error
          else if \<not> entries_ok (\<lambda>c. \<not> note_too_long c) (prop_of obj ''conflictFactors'') then Inl Plain_error
          else if (case prop_of obj ''pinnedSummaryProposal'' of
                None \<Rightarrow> False | Some (JObj _) \<Rightarrow> False | Some JNull \<Rightarrow> False | _ \<Rightarrow> True) then Inl Plain_error
          else if \<not> entries_ok (\<lambda>_. True) (prop_of obj ''privateEpisodes'') then Inl Plain_error
          else Inr obj)"

section \<open>Normal forms\<close>

lemma bind_ok_Inr: "bind_ok r f = Inr y \<longleftrightarrow> (\<exists>x. r = Inr x \<and> f x = Inr y)"
  by (cases r) (simp_all add: bind_ok_def)

lemma bind_ok_simps [simp]: "bind_ok (Inr x) f = f x" "bind_ok (Inl e) f = Inl e"
  by (simp_all add: bind_ok_def)

lemma each_Inr: "each f xs = Inr ys \<longleftrightarrow> list_all2 (\<lambda>x y. f x = Inr y) xs ys"
  by (induction xs arbitrary: ys) (auto simp: bind_ok_Inr list_all2_Cons1)

locale normalizer =
  fixes f :: "json \<Rightarrow> (thrown, json) result" and ok :: "json \<Rightarrow> bool"
  assumes result_ok: "f x = Inr y \<Longrightarrow> ok y"
    and ok_fixed: "ok y \<Longrightarrow> f y = Inr y"
begin

lemma each_fixed: "list_all ok ys \<Longrightarrow> each f ys = Inr ys"
  by (auto simp: each_Inr list_all2_same list_all_iff intro: ok_fixed)

lemma array_result: "array_or_empty f raw = Inr ys \<Longrightarrow> list_all ok ys"
  by (auto simp: array_or_empty_def each_Inr list_all_length list_all2_conv_all_nth
      split: option.splits json.splits intro: result_ok)

lemma array_fixed: "list_all ok ys \<Longrightarrow> array_or_empty f (Some (JArr ys)) = Inr ys"
  by (simp add: array_or_empty_def each_fixed)

end

text \<open>The parts of a canonical outcome.\<close>

fun is_text :: "json \<Rightarrow> bool" where
  "is_text (JStr s) = True"
| "is_text _ = False"

fun is_number :: "json \<Rightarrow> bool" where
  "is_number (JNum n) = True"
| "is_number _ = False"

fun text_in :: "string list \<Rightarrow> json \<Rightarrow> bool" where
  "text_in names (JStr s) = (s \<in> set names)"
| "text_in names _ = False"

fun text_upto :: "nat \<Rightarrow> json \<Rightarrow> bool" where
  "text_upto n (JStr s) = (length s \<le> n)"
| "text_upto n _ = False"

text \<open>The properties of an object in order, some of them optional, with what each has to be.\<close>

fun shaped :: "(string \<times> bool \<times> (json \<Rightarrow> bool)) list \<Rightarrow> (string \<times> json) list \<Rightarrow> bool" where
  "shaped [] m = (m = [])"
| "shaped ((k, required, test) # spec) [] = (\<not> required \<and> shaped spec [])"
| "shaped ((k, required, test) # spec) ((k', v) # m) =
     (if k' = k then test v \<and> shaped spec m else \<not> required \<and> shaped spec ((k', v) # m))"

definition object_of :: "(string \<times> bool \<times> (json \<Rightarrow> bool)) list \<Rightarrow> json \<Rightarrow> bool" where
  "object_of spec v = (case v of JObj m \<Rightarrow> shaped spec m | _ \<Rightarrow> False)"

abbreviation publication_spec :: "(string \<times> bool \<times> (json \<Rightarrow> bool)) list" where
  "publication_spec \<equiv> [(''localRef'', False, is_text), (''kind'', True, text_in V5_PUBLICATION_KINDS),
     (''targetScope'', True, text_in VALID_TARGET_SCOPES), (''summary'', True, is_text)]"

definition wf_publication :: "json \<Rightarrow> bool" where
  "wf_publication = object_of publication_spec"

abbreviation episode_spec :: "(string \<times> bool \<times> (json \<Rightarrow> bool)) list" where
  "episode_spec \<equiv> [(''localRef'', False, is_text), (''category'', True, text_in VALID_CATEGORIES),
     (''summary'', True, is_text), (''privateNotes'', False, is_text), (''locationText'', False, is_text),
     (''validTime'', False, is_number)]"

definition wf_episode :: "json \<Rightarrow> bool" where
  "wf_episode = object_of episode_spec"

abbreviation proposal_spec :: "(string \<times> bool \<times> (json \<Rightarrow> bool)) list" where
  "proposal_spec \<equiv> [(''proposedText'', True, is_text), (''rationale'', False, is_text)]"

definition wf_proposal :: "json \<Rightarrow> bool" where
  "wf_proposal = object_of proposal_spec"

abbreviation intent_spec :: "(string \<times> bool \<times> (json \<Rightarrow> bool)) list" where
  "intent_spec \<equiv> [(''sourceRef'', True, is_text), (''targetRef'', True, is_text),
     (''intent'', True, text_in ALLOWED_INTENTS)]"

definition wf_intent :: "json \<Rightarrow> bool" where
  "wf_intent = object_of intent_spec"

abbreviation factor_spec :: "(string \<times> bool \<times> (json \<Rightarrow> bool)) list" where
  "factor_spec \<equiv> [(''kind'', True, is_text), (''ref'', True, is_text), (''note'', False, text_upto 120)]"

definition wf_factor :: "json \<Rightarrow> bool" where
  "wf_factor = object_of factor_spec"

lemma text_inE: "text_in names v \<Longrightarrow> (\<And>s. v = JStr s \<Longrightarrow> s \<in> set names \<Longrightarrow> P) \<Longrightarrow> P"
  by (cases v) auto

lemma one_of_iff: "one_of names v \<longleftrightarrow> (\<exists>s. v = Some (JStr s) \<and> s \<in> set names)"
  by (cases v rule: string_of.cases) (auto simp: one_of_def)

lemma string_of_None_iff: "string_of v = None \<longleftrightarrow> (\<nexists>s. v = Some (JStr s))"
  by (cases v rule: string_of.cases) auto

lemma string_of_Some_iff: "string_of v = Some s \<longleftrightarrow> v = Some (JStr s)"
  by (cases v rule: string_of.cases) auto

lemmas form_defs = prop_of_def get_prop_def string_entry_def number_entry_def object_of_def one_of_iff string_of_None_iff

lemma string_entry_cases: "string_entry k v = [] \<or> (\<exists>s. string_entry k v = [(k, JStr s)])"
  by (auto simp: string_entry_def split: option.split json.split)

lemma number_entry_cases: "number_entry k v = [] \<or> (\<exists>n. number_entry k v = [(k, JNum n)])"
  by (auto simp: number_entry_def split: option.split json.split)

text \<open>An object of a shape is put together from its properties.\<close>

lemma shaped_keys: "shaped spec m \<Longrightarrow> fst ` set m \<subseteq> fst ` set spec"
  by (induction spec m rule: shaped.induct) (auto split: if_splits)

definition rebuilt :: "(string \<times> bool \<times> (json \<Rightarrow> bool)) list \<Rightarrow> (string \<times> json) list \<Rightarrow> (string \<times> json) list" where
  "rebuilt spec m = concat (map (\<lambda>(k, _). entry_if k (get_prop m k)) spec)"

definition field_ok :: "(string \<times> json) list \<Rightarrow> string \<times> bool \<times> (json \<Rightarrow> bool) \<Rightarrow> bool" where
  "field_ok m = (\<lambda>(k, required, test). (required \<longrightarrow> get_prop m k \<noteq> None) \<and> (\<forall>v. get_prop m k = Some v \<longrightarrow> test v))"

lemma other_entry:
  assumes "k' \<notin> fst ` set spec"
  shows "rebuilt spec ((k', v) # m) = rebuilt spec m"
    and "(\<forall>f \<in> set spec. field_ok ((k', v) # m) f) = (\<forall>f \<in> set spec. field_ok m f)"
proof -
  have "get_prop ((k', v) # m) (fst f) = get_prop m (fst f)" if "f \<in> set spec" for f
    using assms that by (force simp: get_prop_def)
  then show "rebuilt spec ((k', v) # m) = rebuilt spec m"
    "(\<forall>f \<in> set spec. field_ok ((k', v) # m) f) = (\<forall>f \<in> set spec. field_ok m f)"
    unfolding rebuilt_def field_ok_def case_prod_unfold
    by (simp_all cong: map_cong)
qed

lemma shaped_fields:
  "shaped spec m \<Longrightarrow> distinct (map fst spec) \<Longrightarrow> m = rebuilt spec m \<and> (\<forall>f \<in> set spec. field_ok m f)"
proof (induction spec m rule: shaped.induct)
  case (1 m)
  then show ?case by (simp add: rebuilt_def)
next
  case (2 k required test spec)
  have "shaped spec [] \<Longrightarrow> rebuilt spec [] = []"
    by (induction spec) (auto simp: rebuilt_def get_prop_def)
  with 2 show ?case by (auto simp: rebuilt_def field_ok_def get_prop_def)
next
  case (3 k required test spec k' v m)
  show ?case
  proof (cases "k' = k")
    case True
    with 3 have other: "k' \<notin> fst ` set spec" and IH: "m = rebuilt spec m" "\<forall>f \<in> set spec. field_ok m f" by simp_all
    have "field_ok ((k', v) # m) (k, required, test)" using 3(3) True by (simp add: field_ok_def get_prop_def)
    moreover have "rebuilt ((k, required, test) # spec) ((k', v) # m) = (k', v) # rebuilt spec ((k', v) # m)"
      using True by (simp add: rebuilt_def get_prop_def)
    ultimately show ?thesis using IH other_entry [OF other, of v m] by simp
  next
    case False
    with 3 have s: "shaped spec ((k', v) # m)" "\<not> required" by simp_all
    with shaped_keys [OF s(1)] 3(4) have "k \<notin> fst ` set ((k', v) # m)" by auto
    then have none: "get_prop ((k', v) # m) k = None" unfolding get_prop_def by (simp only: map_of_eq_None_iff not_False_eq_True)
    with 3(2) [OF False s(1)] 3(4) s(2) show ?thesis by (simp add: rebuilt_def field_ok_def)
  qed
qed

lemma object_of_E:
  assumes "object_of spec y" "distinct (map fst spec)"
  obtains m where "y = JObj m" "JObj (rebuilt spec m) = y" "\<forall>f \<in> set spec. field_ok m f"
proof -
  from assms(1) obtain m where "y = JObj m" "shaped spec m" by (cases y) (auto simp: object_of_def)
  with shaped_fields [OF this(2) assms(2)] that show ?thesis by simp
qed

lemma prop_of_JObj [simp]: "prop_of (JObj m) k = get_prop m k"
  by (simp add: prop_of_def)

lemma shaped_Cons_iff:
  "shaped ((k, required, test) # spec) m \<longleftrightarrow>
     (\<exists>v m'. m = (k, v) # m' \<and> test v \<and> shaped spec m') \<or>
     (\<not> required \<and> (m = [] \<or> fst (hd m) \<noteq> k) \<and> shaped spec m)"
  by (cases m) (auto split: if_splits)

lemma is_text_iff: "is_text v \<longleftrightarrow> (\<exists>s. v = JStr s)" and is_number_iff: "is_number v \<longleftrightarrow> (\<exists>n. v = JNum n)"
  and text_in_iff: "text_in names v \<longleftrightarrow> (\<exists>s \<in> set names. v = JStr s)"
  and text_upto_iff: "text_upto n v \<longleftrightarrow> (\<exists>s. v = JStr s \<and> length s \<le> n)"
  by (cases v; auto)+

lemmas test_iffs = is_text_iff is_number_iff text_in_iff text_upto_iff

lemma text_entry: "\<forall>v. get_prop m k = Some v \<longrightarrow> (\<exists>s. v = JStr s \<and> P s) \<Longrightarrow> string_entry k (JObj m) = entry_if k (get_prop m k)"
  "\<forall>v. get_prop m k = Some v \<longrightarrow> (\<exists>s. v = JStr s) \<Longrightarrow> string_entry k (JObj m) = entry_if k (get_prop m k)"
  by (auto simp: string_entry_def split: option.split json.split)

lemma number_entry: "\<forall>v. get_prop m k = Some v \<longrightarrow> (\<exists>n. v = JNum n) \<Longrightarrow> number_entry k (JObj m) = entry_if k (get_prop m k)"
  by (auto simp: number_entry_def split: option.split json.split)

lemma not_too_long: "\<forall>v. get_prop m ''note'' = Some v \<longrightarrow> (\<exists>s. v = JStr s \<and> length s \<le> 120) \<Longrightarrow> \<not> note_too_long (JObj m)"
  by (auto simp: note_too_long_def string_of_Some_iff split: option.split)

interpretation publications: normalizer normalize_publication wf_publication
proof
  fix x y
  show "normalize_publication x = Inr y \<Longrightarrow> wf_publication y"
    by (auto simp: normalize_publication_def wf_publication_def form_defs split: if_splits option.splits json.splits)
  show "normalize_publication y = Inr y" if "wf_publication y"
  proof -
    from that obtain m where m: "y = JObj m" "JObj (rebuilt publication_spec m) = y"
      and typed: "\<forall>f \<in> set publication_spec. field_ok m f"
      unfolding wf_publication_def by (rule object_of_E) simp
    from typed m(2) show ?thesis
      by (auto simp: m(1) normalize_publication_def rebuilt_def field_ok_def one_of_iff string_of_None_iff test_iffs
          not_too_long text_entry number_entry)
  qed
qed

interpretation intents: normalizer normalize_intent wf_intent
proof
  fix x y
  show "normalize_intent x = Inr y \<Longrightarrow> wf_intent y"
    by (auto simp: normalize_intent_def wf_intent_def form_defs split: if_splits option.splits json.splits)
  show "normalize_intent y = Inr y" if "wf_intent y"
  proof -
    from that obtain m where m: "y = JObj m" "JObj (rebuilt intent_spec m) = y"
      and typed: "\<forall>f \<in> set intent_spec. field_ok m f"
      unfolding wf_intent_def by (rule object_of_E) simp
    from typed m(2) show ?thesis
      by (auto simp: m(1) normalize_intent_def rebuilt_def field_ok_def one_of_iff string_of_None_iff test_iffs
          not_too_long text_entry number_entry)
  qed
qed

interpretation factors: normalizer normalize_factor wf_factor
proof
  fix x y
  show "normalize_factor x = Inr y \<Longrightarrow> wf_factor y"
    by (auto simp: normalize_factor_def wf_factor_def note_too_long_def form_defs not_less
        split: if_splits option.splits json.splits)
  show "normalize_factor y = Inr y" if "wf_factor y"
  proof -
    from that obtain m where m: "y = JObj m" "JObj (rebuilt factor_spec m) = y"
      and typed: "\<forall>f \<in> set factor_spec. field_ok m f"
      unfolding wf_factor_def by (rule object_of_E) simp
    from typed m(2) show ?thesis
      by (auto simp: m(1) normalize_factor_def rebuilt_def field_ok_def one_of_iff string_of_None_iff test_iffs
          not_too_long text_entry number_entry)
  qed
qed

interpretation episodes: normalizer normalize_episode wf_episode
proof
  fix x y
  show "wf_episode y" if "normalize_episode x = Inr y"
  proof -
    from that obtain c s where "c \<in> set VALID_CATEGORIES" and
      y: "y = JObj (string_entry ''localRef'' x @ [(''category'', JStr c), (''summary'', JStr s)] @
        string_entry ''privateNotes'' x @ string_entry ''locationText'' x @ number_entry ''validTime'' x)"
      by (auto simp: normalize_episode_def one_of_iff string_of_None_iff split: if_splits)
    then show ?thesis
      using string_entry_cases [of "''localRef''" x] string_entry_cases [of "''privateNotes''" x]
        string_entry_cases [of "''locationText''" x] number_entry_cases [of "''validTime''" x]
      by (elim disjE exE) (simp_all add: wf_episode_def object_of_def)
  qed
  show "normalize_episode y = Inr y" if "wf_episode y"
  proof -
    from that obtain m where m: "y = JObj m" "JObj (rebuilt episode_spec m) = y"
      and typed: "\<forall>f \<in> set episode_spec. field_ok m f"
      unfolding wf_episode_def by (rule object_of_E) simp
    from typed m(2) show ?thesis
      by (auto simp: m(1) normalize_episode_def rebuilt_def field_ok_def one_of_iff string_of_None_iff test_iffs
          not_too_long text_entry number_entry)
  qed
qed

lemma proposal_result: "normalizePinnedSummaryProposal raw = Inr (Some p) \<Longrightarrow> wf_proposal p"
  by (auto simp: normalizePinnedSummaryProposal_def wf_proposal_def object_of_def string_of_None_iff string_entry_def
      split: option.splits json.splits if_splits)

lemma proposal_fixed: "wf_proposal p \<Longrightarrow> normalizePinnedSummaryProposal (Some p) = Inr (Some p)"
proof -
  assume "wf_proposal p"
  then obtain m where m: "p = JObj m" "JObj (rebuilt proposal_spec m) = p" and typed: "\<forall>f \<in> set proposal_spec. field_ok m f"
    unfolding wf_proposal_def by (rule object_of_E) simp
  from typed m(2) show ?thesis
    by (auto simp: m(1) normalizePinnedSummaryProposal_def rebuilt_def field_ok_def string_of_None_iff test_iffs text_entry)
qed

section \<open>Assertions in normal form\<close>

definition ref_shaped :: "json \<Rightarrow> bool" where
  "ref_shaped v \<longleftrightarrow> isCognitionEntityRef (Some v) \<or>
     (case string_of (prop_of v ''value'') of Some s \<Rightarrow> v = pointer s | None \<Rightarrow> False)"

definition array_of :: "(json \<Rightarrow> bool) \<Rightarrow> json option \<Rightarrow> bool" where
  "array_of ok v \<longleftrightarrow> (case v of Some (JArr xs) \<Rightarrow> list_all ok xs | _ \<Rightarrow> False)"

definition wf_assertion :: "(string \<times> json) list \<Rightarrow> bool" where
  "wf_assertion m \<longleftrightarrow>
     (case get_prop m ''holderId'' of Some v \<Rightarrow> ref_shaped v | None \<Rightarrow> False) \<and>
     string_of (get_prop m ''claim'') \<noteq> None \<and> array_of ref_shaped (get_prop m ''entityRefs'') \<and>
     get_prop m ''proposition'' = None \<and> one_of V4_ASSERTION_STANCES (get_prop m ''stance'') \<and>
     (get_prop m ''basis'' = None \<or> one_of V4_ASSERTION_BASES (get_prop m ''basis'')) \<and>
     (get_prop m ''stance'' = Some (JStr ''contested'') \<longrightarrow>
        one_of V4_PRE_CONTESTABLE_STANCES (get_prop m ''preContestedStance''))"

text \<open>Nothing left to replace: references are not blank, the claim is not empty.\<close>

definition settled_assertion :: "(string \<times> json) list \<Rightarrow> bool" where
  "settled_assertion m \<longleftrightarrow> isCognitionEntityRef (get_prop m ''holderId'') \<and>
     string_of (get_prop m ''claim'') \<noteq> Some [] \<and>
     array_of (\<lambda>r. isCognitionEntityRef (Some r)) (get_prop m ''entityRefs'')"

lemma get_prop_update: "get_prop (AList.update k v m) k' = (if k' = k then Some v else get_prop m k')"
  by (simp add: get_prop_def update_conv')

lemma get_prop_delete: "get_prop (AList.delete k m) k' = (if k' = k then None else get_prop m k')"
  by (simp add: get_prop_def delete_conv')

lemma update_same: "get_prop m k = Some v \<Longrightarrow> AList.update k v m = m"
  by (induction m) (auto simp: get_prop_def)

lemma delete_absent: "get_prop m k = None \<Longrightarrow> AList.delete k m = m"
  by (induction m) (auto simp: get_prop_def AList.delete_eq split: if_splits)

lemma no_ref: "\<not> isCognitionEntityRef None"
  by (simp add: isCognitionEntityRef_def)

lemma pointer_ref: "isCognitionEntityRef (Some (pointer s)) \<longleftrightarrow> \<not> blank s" "ref_shaped (pointer s)"
  by (simp_all add: isCognitionEntityRef_def pointer_def get_prop_def ref_shaped_def)

lemma unknown_ref: "isCognitionEntityRef (Some (pointer ''unknown''))"
  unfolding pointer_ref(1) by code_simp

lemma ref_is_shaped: "isCognitionEntityRef (Some v) \<Longrightarrow> ref_shaped v"
  by (simp add: ref_shaped_def)

lemma shaped_not_text: "ref_shaped v \<Longrightarrow> string_of (Some v) = None"
  by (cases v) (auto simp: ref_shaped_def isCognitionEntityRef_def pointer_def split: option.splits)

lemma holder_props:
  "k \<noteq> ''holderId'' \<Longrightarrow> get_prop (normalize_holder m) k = get_prop m k"
  "\<exists>v. get_prop (normalize_holder m) ''holderId'' = Some v \<and> ref_shaped v"
  by (auto simp: normalize_holder_def get_prop_update pointer_ref ref_is_shaped isCognitionEntityRef_def
      split: option.split dest: ref_is_shaped)

lemma claim_props:
  "k \<noteq> ''claim'' \<Longrightarrow> get_prop (normalize_claim m) k = get_prop m k"
  "string_of (get_prop (normalize_claim m) ''claim'') \<noteq> None"
  by (auto simp: normalize_claim_def get_prop_update split: option.split)

lemma refs_props:
  "k \<noteq> ''entityRefs'' \<Longrightarrow> get_prop (normalize_entity_refs m) k = get_prop m k"
  "array_of ref_shaped (get_prop (normalize_entity_refs m) ''entityRefs'')"
proof -
  show "k \<noteq> ''entityRefs'' \<Longrightarrow> get_prop (normalize_entity_refs m) k = get_prop m k"
    by (auto simp: normalize_entity_refs_def get_prop_update split: option.split json.split)
  have "ref_shaped (normalize_ref r)" for r
    by (auto simp: normalize_ref_def pointer_ref ref_is_shaped split: json.split)
  moreover have "list_all ref_shaped (proposition_refs m)"
  proof -
    have shaped: "isCognitionEntityRef v \<Longrightarrow> ref_shaped (the v)" for v
      by (cases v) (simp_all add: ref_shaped_def, simp add: isCognitionEntityRef_def)
    have "isEntityPropositionObject v \<Longrightarrow> isCognitionEntityRef (prop_of (the v) ''ref'')" for v
      by (auto simp: isEntityPropositionObject_def split: option.splits)
    with shaped show ?thesis
      by (auto simp: proposition_refs_def Let_def pointer_ref split: option.split json.split)
  qed
  ultimately show "array_of ref_shaped (get_prop (normalize_entity_refs m) ''entityRefs'')"
    by (auto simp: normalize_entity_refs_def get_prop_update array_of_def list_all_iff split: option.split json.split)
qed

lemma basis_props:
  "k \<noteq> ''basis'' \<Longrightarrow> get_prop (normalize_basis m) k = get_prop m k"
  "get_prop (normalize_basis m) ''basis'' = None \<or> one_of V4_ASSERTION_BASES (get_prop (normalize_basis m) ''basis'')"
  by (auto simp: normalize_basis_def get_prop_delete)

lemma pre_contested_props:
  "k \<noteq> ''preContestedStance'' \<Longrightarrow> get_prop (normalize_pre_contested m) k = get_prop m k"
  "get_prop m ''stance'' = Some (JStr ''contested'') \<Longrightarrow>
     one_of V4_PRE_CONTESTABLE_STANCES (get_prop (normalize_pre_contested m) ''preContestedStance'')"
  by (auto simp: normalize_pre_contested_def get_prop_update one_of_iff V4_PRE_CONTESTABLE_STANCES_def)

lemmas step_props = holder_props claim_props refs_props basis_props pre_contested_props

lemma assertion_result:
  assumes "normalizeAssertionRecord m = Inr m'"
  shows "wf_assertion m'"
    and "k \<notin> {''holderId'', ''claim'', ''entityRefs'', ''proposition'', ''basis'', ''preContestedStance''} \<Longrightarrow>
      get_prop m' k = get_prop m k"
proof -
  let ?d = "AList.delete ''proposition'' (normalize_entity_refs (normalize_claim (normalize_holder m)))"
  from assms have st: "one_of V4_ASSERTION_STANCES (get_prop ?d ''stance'')"
    and m': "m' = normalize_pre_contested (normalize_basis ?d)"
    by (auto simp: normalizeAssertionRecord_def Let_def split: if_splits)
  show "get_prop m' k = get_prop m k"
    if "k \<notin> {''holderId'', ''claim'', ''entityRefs'', ''proposition'', ''basis'', ''preContestedStance''}"
    using that by (simp add: m' step_props get_prop_delete)
  obtain h where "get_prop (normalize_holder m) ''holderId'' = Some h" "ref_shaped h"
    using holder_props(2) by blast
  then show "wf_assertion m'"
    using st claim_props(2) [of "normalize_holder m"] refs_props(2) [of "normalize_claim (normalize_holder m)"]
      basis_props(2) [of ?d] pre_contested_props(2) [of "normalize_basis ?d"]
    by (simp add: wf_assertion_def m' step_props get_prop_delete)
qed

lemma wf_assertion_holder:
  assumes "wf_assertion m"
  shows "normalize_holder m = (if isCognitionEntityRef (get_prop m ''holderId'') then m
    else AList.update ''holderId'' (pointer ''unknown'') m)"
proof -
  from assms obtain h where h: "get_prop m ''holderId'' = Some h" "ref_shaped h"
    by (auto simp: wf_assertion_def split: option.splits)
  moreover have "proposition_prop m k = None" for k
    using assms by (simp add: wf_assertion_def proposition_prop_def)
  ultimately show ?thesis
    using shaped_not_text [OF h(2)] by (simp add: normalize_holder_def no_ref)
qed

lemma assertion_settles:
  assumes "wf_assertion m"
  shows "\<exists>m'. normalizeAssertionRecord m = Inr m' \<and> settled_assertion m' \<and> (settled_assertion m \<longrightarrow> m' = m)"
proof -
  let ?h = "normalize_holder m"
  let ?c = "normalize_claim ?h"
  let ?r = "normalize_entity_refs ?c"
  let ?d = "AList.delete ''proposition'' ?r"
  have no: "get_prop m ''proposition'' = None" and nop: "proposition_prop ?h k = None" for k
    using assms holder_props(1) [of "''proposition''" m] by (simp_all add: wf_assertion_def proposition_prop_def)
  obtain rs where rs: "get_prop m ''entityRefs'' = Some (JArr rs)" "list_all ref_shaped rs"
    using assms by (auto simp: wf_assertion_def array_of_def split: option.splits json.splits)
  have st: "one_of V4_ASSERTION_STANCES (get_prop ?d ''stance'')"
    using assms by (simp add: wf_assertion_def step_props get_prop_delete)
  have d: "?d = ?r" using no by (intro delete_absent) (simp add: step_props)
  have b: "normalize_basis ?d = ?d"
    using assms by (auto simp: normalize_basis_def wf_assertion_def step_props get_prop_delete)
  have p: "normalize_pre_contested ?d = ?d"
    using assms by (auto simp: normalize_pre_contested_def wf_assertion_def step_props get_prop_delete)
  have result: "normalizeAssertionRecord m = Inr ?r"
    using st b p by (simp add: normalizeAssertionRecord_def Let_def d)
  have again: "isCognitionEntityRef (Some (normalize_ref r))" "isCognitionEntityRef (Some r) \<longrightarrow> normalize_ref r = r"
    if "ref_shaped r" for r
    using shaped_not_text [OF that] unknown_ref by (cases r; simp add: normalize_ref_def)+
  have refs: "?r = AList.update ''entityRefs'' (JArr (map normalize_ref rs)) ?c"
    using rs(1) by (simp add: normalize_entity_refs_def step_props)
  have "settled_assertion ?r"
  proof -
    have "isCognitionEntityRef (get_prop ?h ''holderId'')"
      using unknown_ref by (simp add: wf_assertion_holder [OF assms] get_prop_update)
    moreover have "string_of (get_prop ?c ''claim'') \<noteq> Some []"
      using nop by (auto simp: normalize_claim_def get_prop_update split: option.split)
    moreover have "list_all (\<lambda>r. isCognitionEntityRef (Some r)) (map normalize_ref rs)"
      using rs(2) again(1) by (simp add: list_all_iff)
    ultimately show ?thesis
      by (simp add: settled_assertion_def refs get_prop_update array_of_def claim_props(1))
  qed
  moreover have "?r = m" if s: "settled_assertion m"
  proof -
    have h: "?h = m" using s by (simp add: wf_assertion_holder [OF assms] settled_assertion_def)
    have c: "?c = m" using s assms by (auto simp: h normalize_claim_def settled_assertion_def wf_assertion_def)
    have "map normalize_ref rs = rs"
      using s rs again(2) by (intro map_idI) (auto simp: settled_assertion_def array_of_def list_all_iff)
    then show ?thesis using rs(1) refs c by (simp add: update_same)
  qed
  ultimately show ?thesis using result by blast
qed

section \<open>Operations in normal form\<close>

definition wf_record :: "json \<Rightarrow> bool" where
  "wf_record r \<longleftrightarrow> has_key (Some r) \<and>
     (prop_of r ''kind'' = Some (JStr ''assertion'') \<longrightarrow> (case r of JObj m \<Rightarrow> wf_assertion m | _ \<Rightarrow> False))"

definition wf_op :: "json \<Rightarrow> bool" where
  "wf_op op \<longleftrightarrow>
     object_of [(''op'', True, text_in [''upsert'']), (''record'', True, wf_record)] op \<or>
     object_of [(''op'', True, text_in [''retract'']), (''target'', True, \<lambda>t. has_key (Some t))] op"

definition settled_op :: "json \<Rightarrow> bool" where
  "settled_op op \<longleftrightarrow>
     (case prop_of op ''record'' of
        Some (JObj m) \<Rightarrow> get_prop m ''kind'' = Some (JStr ''assertion'') \<longrightarrow> settled_assertion m
      | _ \<Rightarrow> True)"

lemma wf_op_cases:
  "wf_op op \<longleftrightarrow> (\<exists>r. op = JObj [(''op'', JStr ''upsert''), (''record'', r)] \<and> wf_record r) \<or>
     (\<exists>t. op = JObj [(''op'', JStr ''retract''), (''target'', t)] \<and> has_key (Some t))"
  by (cases op) (auto simp: wf_op_def object_of_def shaped_Cons_iff test_iffs simp del: shaped.simps(2,3))

lemma has_key_obj: "has_key (Some r) \<Longrightarrow> \<exists>m. r = JObj m"
  by (cases r) (auto simp: has_key_def prop_of_def)

lemma has_key_iff: "has_key (Some r) \<longleftrightarrow> (\<exists>s. prop_of r ''key'' = Some (JStr s) \<and> \<not> blank s)"
  by (auto simp: has_key_def string_of_Some_iff string_of_None_iff split: option.split)

lemma skip_op_None: "skip_op op \<noteq> Inr (Some x)"
  by (auto simp: skip_op_def split: option.split)

lemma normalize_upsert:
  "normalize_op (JObj [(''op'', JStr ''upsert''), (''record'', JObj m)]) =
     (if \<not> has_key (Some (JObj m)) then skip_op (JObj [(''op'', JStr ''upsert''), (''record'', JObj m)])
      else if get_prop m ''kind'' = Some (JStr ''assertion'') then
        (case normalizeAssertionRecord m of
           Inl _ \<Rightarrow> skip_op (JObj [(''op'', JStr ''upsert''), (''record'', JObj m)])
         | Inr m' \<Rightarrow> Inr (Some (JObj [(''op'', JStr ''upsert''), (''record'', JObj m')])))
      else Inr (Some (JObj [(''op'', JStr ''upsert''), (''record'', JObj m)])))"
  by (simp add: normalize_op_def get_prop_def)

lemma op_result:
  assumes "normalize_op op = Inr (Some op')"
  shows "wf_op op'"
proof -
  consider (upsert) "op \<noteq> JNull" "prop_of op ''op'' = Some (JStr ''upsert'')"
    | (retract) "op \<noteq> JNull" "prop_of op ''op'' = Some (JStr ''retract'')"
    using assms by (auto simp: normalize_op_def skip_op_None split: if_splits)
  then show ?thesis
  proof cases
    case upsert
    with assms have "has_key (prop_of op ''record'')" by (simp add: normalize_op_def skip_op_None split: if_splits)
    then obtain r where r: "prop_of op ''record'' = Some r" "has_key (Some r)"
      by (cases "prop_of op ''record''") (simp_all add: has_key_def)
    then obtain m where m: "r = JObj m" using has_key_obj by blast
    show ?thesis
    proof (cases "get_prop m ''kind'' = Some (JStr ''assertion'')")
      case True
      with assms upsert r m obtain m' where m': "normalizeAssertionRecord m = Inr m'"
        "op' = JObj [(''op'', JStr ''upsert''), (''record'', JObj m')]"
        by (auto simp: normalize_op_def skip_op_None split: sum.splits)
      with assertion_result [OF m'(1)] r(2) show ?thesis
        by (simp add: wf_op_cases wf_record_def has_key_def m)
    next
      case False
      with assms upsert r m show ?thesis by (auto simp: normalize_op_def wf_op_cases wf_record_def)
    qed
  next
    case retract
    with assms have "has_key (prop_of op ''target'')" "op' = JObj [(''op'', JStr ''retract''), (''target'', the_prop op ''target'')]"
      by (simp_all add: normalize_op_def skip_op_None split: if_splits)
    then show ?thesis by (cases "prop_of op ''target''") (auto simp: wf_op_cases has_key_def)
  qed
qed

lemma op_settles:
  assumes "wf_op op"
  shows "\<exists>op'. normalize_op op = Inr (Some op') \<and> wf_op op' \<and> settled_op op' \<and> op_key op' = op_key op \<and>
    (settled_op op \<longrightarrow> op' = op)"
proof -
  from assms consider r where "op = JObj [(''op'', JStr ''upsert''), (''record'', r)]" "wf_record r"
    | t where "op = JObj [(''op'', JStr ''retract''), (''target'', t)]" "has_key (Some t)"
    by (auto simp: wf_op_cases)
  then show ?thesis
  proof cases
    case (1 r)
    then obtain m where m: "r = JObj m" using has_key_obj by (auto simp: wf_record_def)
    show ?thesis
    proof (cases "get_prop m ''kind'' = Some (JStr ''assertion'')")
      case True
      with 1(2) m have "wf_assertion m" "has_key (Some (JObj m))" by (simp_all add: wf_record_def)
      with assertion_settles obtain m' where m': "normalizeAssertionRecord m = Inr m'" "settled_assertion m'"
        "settled_assertion m \<longrightarrow> m' = m" by blast
      let ?op = "JObj [(''op'', JStr ''upsert''), (''record'', JObj m')]"
      have same: "get_prop m' ''key'' = get_prop m ''key''" "get_prop m' ''kind'' = get_prop m ''kind''"
        using assertion_result(2) [OF m'(1)] by simp_all
      have "normalize_op op = Inr (Some ?op)"
        using True m' \<open>has_key _\<close> by (simp add: 1(1) m normalize_upsert)
      moreover have "wf_op ?op" using op_result calculation by blast
      moreover have "op_key ?op = op_key op" using same by (simp add: op_key_def 1(1) m get_prop_def)
      ultimately show ?thesis
        using m'(2,3) True same by (auto simp: settled_op_def 1(1) m get_prop_def)
    next
      case False
      with 1 m show ?thesis using assms
        by (auto simp: normalize_upsert wf_record_def settled_op_def get_prop_def)
    qed
  next
    case (2 t)
    with assms show ?thesis by (auto simp: normalize_op_def settled_op_def get_prop_def)
  qed
qed

section \<open>The last operation of a key wins\<close>

abbreviation op_table :: "json list \<Rightarrow> (string, json) js_map" where
  "op_table ops \<equiv> fold (\<lambda>op. AList.update (op_key op) op) ops []"

lemma update_absent: "k \<notin> fst ` set m \<Longrightarrow> AList.update k v m = m @ [(k, v)]"
  by (induction m) auto

lemma op_table_snoc: "op_table (ops @ [op]) = AList.update (op_key op) op (op_table ops)"
  by simp

lemma set_update_subset: "set (AList.update k v m) \<subseteq> insert (k, v) (set m)"
  by (induction m) auto

lemma op_table_facts:
  "\<forall>(k, op) \<in> set (op_table ops). k = op_key op \<and> op \<in> set ops" "distinct (map fst (op_table ops))"
proof -
  show "\<forall>(k, op) \<in> set (op_table ops). k = op_key op \<and> op \<in> set ops"
  proof (induction ops rule: rev_induct)
    case (snoc op ops)
    then show ?case using set_update_subset [of "op_key op" op "op_table ops"] unfolding op_table_snoc by fastforce
  qed simp
  show "distinct (map fst (op_table ops))"
  proof (induction ops rule: rev_induct)
    case (snoc op ops)
    then show ?case unfolding op_table_snoc by (rule distinct_update)
  qed simp
qed

lemma keys_of_dedup: "map op_key (dedup_ops ops) = map fst (op_table ops)"
  using op_table_facts(1) [of ops] unfolding dedup_ops_def by (induction "op_table ops") auto

lemma distinct_dedup: "distinct (map op_key (dedup_ops ops))"
  unfolding keys_of_dedup by (rule op_table_facts(2))

lemma dedup_all: "list_all P ops \<Longrightarrow> list_all P (dedup_ops ops)"
  using op_table_facts(1) [of ops] by (auto simp: dedup_ops_def list_all_iff)

lemma dedup_distinct: "distinct (map op_key ops) \<Longrightarrow> dedup_ops ops = ops"
proof -
  assume "distinct (map op_key ops)"
  then have "op_table ops = map (\<lambda>op. (op_key op, op)) ops"
  proof (induction ops rule: rev_induct)
    case (snoc op ops)
    then have "op_table ops = map (\<lambda>op. (op_key op, op)) ops" "op_key op \<notin> op_key ` set ops" by auto
    then show ?case by (simp add: update_absent image_image)
  qed simp
  then show ?thesis by (simp add: dedup_ops_def comp_def)
qed

lemma dedup_last: "find (\<lambda>op. op_key op = k) (dedup_ops ops) = find (\<lambda>op. op_key op = k) (rev ops)"
proof -
  have "map_of (op_table ops) k = find (\<lambda>op. op_key op = k) (rev ops)"
    by (induction ops rule: rev_induct) (auto simp: update_conv')
  moreover have "map_of m k = find (\<lambda>op. op_key op = k) (map snd m)" if "\<forall>(k, op) \<in> set m. k = op_key op"
    for m :: "(string, json) js_map" using that by (induction m) auto
  ultimately show ?thesis
    using op_table_facts(1) [of ops] by (fastforce simp: dedup_ops_def)
qed

section \<open>Commits and outcomes in normal form\<close>

fun wf_ops :: "json \<Rightarrow> bool" where
  "wf_ops (JArr ops) \<longleftrightarrow> list_all wf_op ops \<and> distinct (map op_key ops)"
| "wf_ops _ \<longleftrightarrow> False"

abbreviation commit_spec :: "(string \<times> bool \<times> (json \<Rightarrow> bool)) list" where
  "commit_spec \<equiv> [(''schemaVersion'', True, text_in [''rp_private_cognition_v4'']), (''summary'', False, is_text),
     (''ops'', True, wf_ops)]"

definition wf_commit :: "json \<Rightarrow> bool" where
  "wf_commit = object_of commit_spec"

definition settled_commit :: "json option \<Rightarrow> bool" where
  "settled_commit c = list_all settled_op (commit_ops c)"

lemma wf_canonical_commit:
  "list_all wf_op ops \<Longrightarrow> distinct (map op_key ops) \<Longrightarrow> wf_commit (canonical_commit v ops)"
  using string_entry_cases [of "''summary''" v]
  by (auto simp: wf_commit_def object_of_def canonical_commit_def)

lemma commit_canonical [simp]:
  "commit_ops (Some (canonical_commit v ops)) = ops"
  "string_entry ''summary'' (canonical_commit v ops) = string_entry ''summary'' v"
  using string_entry_cases [of "''summary''" v]
  by (auto simp: commit_ops_def canonical_commit_def get_prop_def string_entry_def split: option.split json.split)

lemma in_map_filter_id: "x \<in> set (List.map_filter id xs) \<longleftrightarrow> Some x \<in> set xs"
  by (auto simp: map_filter_def image_iff)

lemma commit_result:
  assumes "normalizePrivateCommit raw = Inr (Some c)"
  shows "wf_commit c"
proof -
  from assms obtain v kept ops where c: "c = canonical_commit v (dedup_ops (List.map_filter id kept))"
    and "each normalize_op ops = Inr kept"
    by (auto simp: normalizePrivateCommit_def bind_ok_Inr split: option.splits json.splits if_splits)
  then have "list_all2 (\<lambda>x y. normalize_op x = Inr y) ops kept" by (simp add: each_Inr)
  then have "wf_op op" if "Some op \<in> set kept" for op
    using that op_result by (auto simp: list_all2_conv_all_nth in_set_conv_nth)
  then have "list_all wf_op (List.map_filter id kept)" by (simp add: list_all_iff in_map_filter_id)
  then show ?thesis unfolding c by (intro wf_canonical_commit dedup_all distinct_dedup)
qed

lemma commit_settles:
  assumes "wf_commit c"
  shows "\<exists>c'. normalizePrivateCommit (Some c) = Inr (Some c') \<and> wf_commit c' \<and> settled_commit (Some c') \<and>
    (settled_commit (Some c) \<longrightarrow> c' = c) \<and> (commit_ops (Some c') = [] \<longleftrightarrow> commit_ops (Some c) = [])"
proof -
  from assms obtain m where m: "c = JObj m" "JObj (rebuilt commit_spec m) = c" and typed: "\<forall>f \<in> set commit_spec. field_ok m f"
    unfolding wf_commit_def by (rule object_of_E) simp
  from typed obtain ops where ops: "get_prop m ''ops'' = Some (JArr ops)" and wf: "list_all wf_op ops" "distinct (map op_key ops)"
    by (auto simp: field_ok_def elim!: wf_ops.elims(2))
  have c: "c = canonical_commit c ops"
    using typed m(2) ops by (auto simp: m(1) rebuilt_def canonical_commit_def field_ok_def test_iffs text_entry)
  from wf(1) op_settles have "\<forall>op \<in> set ops. \<exists>op'. normalize_op op = Inr (Some op') \<and> wf_op op' \<and> settled_op op' \<and>
      op_key op' = op_key op \<and> (settled_op op \<longrightarrow> op' = op)"
    by (simp add: list_all_iff)
  then obtain again where a: "\<And>op. op \<in> set ops \<Longrightarrow> normalize_op op = Inr (Some (again op)) \<and> wf_op (again op) \<and>
      settled_op (again op) \<and> op_key (again op) = op_key op \<and> (settled_op op \<longrightarrow> again op = op)"
    by metis
  let ?ops = "map again ops"
  have each: "each normalize_op ops = Inr (map Some ?ops)"
    using a by (auto simp: each_Inr list_all2_conv_all_nth)
  have keys: "distinct (map op_key ?ops)"
    using wf(2) a by (simp add: comp_def cong: map_cong)
  have "List.map_filter id (map Some ?ops) = ?ops" by (induction ops) simp_all
  with each have result: "normalizePrivateCommit (Some c) = Inr (Some (canonical_commit c ?ops))"
    using ops dedup_distinct [OF keys] by (simp add: normalizePrivateCommit_def m(1))
  moreover have "wf_commit (canonical_commit c ?ops)"
    using a keys by (intro wf_canonical_commit) (simp_all add: list_all_iff)
  moreover have "canonical_commit c ?ops = c" if "settled_commit (Some c)"
  proof -
    have "commit_ops (Some c) = ops" using ops by (simp add: commit_ops_def m(1))
    with that a have "?ops = ops" by (intro map_idI) (simp add: settled_commit_def list_all_iff)
    with c show ?thesis by simp
  qed
  moreover have "commit_ops (Some c) = ops" using ops by (simp add: commit_ops_def m(1))
  ultimately show ?thesis
    using a by (intro exI [of _ "canonical_commit c ?ops"]) (simp add: settled_commit_def list_all_iff)
qed

fun array_with :: "(json \<Rightarrow> bool) \<Rightarrow> json \<Rightarrow> bool" where
  "array_with ok (JArr xs) = list_all ok xs"
| "array_with ok _ = False"

lemma array_with_iff: "array_with ok v \<longleftrightarrow> (\<exists>xs. v = JArr xs \<and> list_all ok xs)"
  by (cases v) auto

abbreviation outcome_spec :: "(string \<times> bool \<times> (json \<Rightarrow> bool)) list" where
  "outcome_spec \<equiv> [(''schemaVersion'', True, text_in [''rp_turn_outcome_v5'']), (''publicReply'', True, is_text),
     (''latentScratchpad'', False, is_text), (''privateCognition'', False, wf_commit),
     (''privateEpisodes'', True, array_with wf_episode), (''publications'', True, array_with wf_publication),
     (''pinnedSummaryProposal'', False, wf_proposal), (''relationIntents'', True, array_with wf_intent),
     (''conflictFactors'', True, array_with wf_factor)]"

definition has_content :: "json \<Rightarrow> bool" where
  "has_content v \<longleftrightarrow> prop_of v ''publicReply'' \<noteq> Some (JStr []) \<or> commit_ops (prop_of v ''privateCognition'') \<noteq> [] \<or>
     prop_of v ''publications'' \<noteq> Some (JArr []) \<or> prop_of v ''privateEpisodes'' \<noteq> Some (JArr [])"

definition wf_outcome :: "json \<Rightarrow> bool" where
  "wf_outcome v \<longleftrightarrow> object_of outcome_spec v \<and> has_content v"

definition settled_outcome :: "json \<Rightarrow> bool" where
  "settled_outcome v = settled_commit (prop_of v ''privateCognition'')"

lemma canonical_props [simp]:
  "prop_of (canonical_outcome obj r c eps pubs pin ints cfs) ''schemaVersion'' = Some (JStr ''rp_turn_outcome_v5'')"
  "prop_of (canonical_outcome obj r c eps pubs pin ints cfs) ''publicReply'' = Some (JStr r)"
  "prop_of (canonical_outcome obj r c eps pubs pin ints cfs) ''privateCognition'' = c"
  "prop_of (canonical_outcome obj r c eps pubs pin ints cfs) ''privateEpisodes'' = Some (JArr eps)"
  "prop_of (canonical_outcome obj r c eps pubs pin ints cfs) ''publications'' = Some (JArr pubs)"
  "prop_of (canonical_outcome obj r c eps pubs pin ints cfs) ''pinnedSummaryProposal'' = pin"
  "prop_of (canonical_outcome obj r c eps pubs pin ints cfs) ''relationIntents'' = Some (JArr ints)"
  "prop_of (canonical_outcome obj r c eps pubs pin ints cfs) ''conflictFactors'' = Some (JArr cfs)"
  using string_entry_cases [of "''latentScratchpad''" obj]
  by (cases c; cases pin; auto simp: canonical_outcome_def get_prop_def)+

lemma canonical_latent:
  "string_entry ''latentScratchpad'' (canonical_outcome obj r c eps pubs pin ints cfs) = string_entry ''latentScratchpad'' obj"
  using string_entry_cases [of "''latentScratchpad''" obj]
  by (cases c; cases pin; auto simp: canonical_outcome_def get_prop_def string_entry_def split: option.split json.split)

lemma canonical_again:
  "canonical_outcome (canonical_outcome obj r c eps pubs pin ints cfs) r' c' eps' pubs' pin' ints' cfs' =
   canonical_outcome obj r' c' eps' pubs' pin' ints' cfs'"
  unfolding canonical_outcome_def [of "canonical_outcome obj r c eps pubs pin ints cfs"] canonical_latent
  by (simp add: canonical_outcome_def)

definition wf_parts :: "json option \<Rightarrow> json list \<Rightarrow> json list \<Rightarrow> json option \<Rightarrow> json list \<Rightarrow> json list \<Rightarrow> bool" where
  "wf_parts c eps pubs pin ints cfs \<longleftrightarrow> pred_option wf_commit c \<and> list_all wf_episode eps \<and>
     list_all wf_publication pubs \<and> pred_option wf_proposal pin \<and> list_all wf_intent ints \<and> list_all wf_factor cfs"

lemma wf_canonical_outcome:
  assumes "wf_parts c eps pubs pin ints cfs"
    and "\<not> (r = [] \<and> commit_ops c = [] \<and> pubs = [] \<and> eps = [])"
  shows "wf_outcome (canonical_outcome obj r c eps pubs pin ints cfs)"
proof -
  have "object_of outcome_spec (canonical_outcome obj r c eps pubs pin ints cfs)"
    using assms(1) string_entry_cases [of "''latentScratchpad''" obj]
    by (cases c; cases pin) (auto simp: wf_parts_def object_of_def canonical_outcome_def)
  with assms(2) show ?thesis by (simp add: wf_outcome_def has_content_def)
qed

lemma outcome_parts:
  assumes "normalizeRpTurnOutcome raw = Inr v"
  obtains obj r c eps pubs pin ints cfs where "raw = Some obj" "v = canonical_outcome obj r c eps pubs pin ints cfs"
    "wf_parts c eps pubs pin ints cfs" "\<not> (r = [] \<and> commit_ops c = [] \<and> pubs = [] \<and> eps = [])"
    "prop_of obj ''publicReply'' = Some (JStr r)" "normalizePrivateCommit (prop_of obj ''privateCognition'') = Inr c"
proof -
  from assms obtain obj r where obj: "raw = Some obj" "prop_of obj ''publicReply'' = Some (JStr r)"
    and n: "normalizeV5Submission obj = Inr v"
    by (auto simp: normalizeRpTurnOutcome_def string_of_None_iff split: option.splits if_splits)
  from n obj(2) obtain c eps pubs pin ints cfs where parts:
    "normalizePrivateCommit (prop_of obj ''privateCognition'') = Inr c"
    "normalizePublicationsV5 (prop_of obj ''publications'') = Inr pubs"
    "normalizePrivateEpisodes (prop_of obj ''privateEpisodes'') = Inr eps"
    "normalizePinnedSummaryProposal (prop_of obj ''pinnedSummaryProposal'') = Inr pin"
    "normalizeRelationIntents (prop_of obj ''relationIntents'') = Inr ints"
    "normalizeConflictFactors (prop_of obj ''conflictFactors'') = Inr cfs"
    and v: "v = canonical_outcome obj r c eps pubs pin ints cfs" "\<not> (r = [] \<and> commit_ops c = [] \<and> pubs = [] \<and> eps = [])"
    by (auto simp: normalizeV5Submission_def bind_ok_Inr split: if_splits)
  have "wf_parts c eps pubs pin ints cfs"
    using parts commit_result proposal_result publications.array_result episodes.array_result intents.array_result
      factors.array_result
    by (cases c; cases pin) (auto simp: wf_parts_def normalizePublicationsV5_def normalizePrivateEpisodes_def
        normalizeRelationIntents_def normalizeConflictFactors_def)
  with obj v parts(1) that show ?thesis by blast
qed

lemma outcome_settles:
  assumes "wf_parts c eps pubs pin ints cfs" "\<not> (r = [] \<and> commit_ops c = [] \<and> pubs = [] \<and> eps = [])"
  shows "\<exists>c'. normalizeRpTurnOutcome (Some (canonical_outcome obj r c eps pubs pin ints cfs)) =
      Inr (canonical_outcome obj r c' eps pubs pin ints cfs) \<and> wf_parts c' eps pubs pin ints cfs \<and>
    settled_commit c' \<and> (settled_commit c \<longrightarrow> c' = c) \<and> (commit_ops c' = [] \<longleftrightarrow> commit_ops c = [])"
proof -
  let ?v = "canonical_outcome obj r c eps pubs pin ints cfs"
  have "\<exists>c'. normalizePrivateCommit c = Inr c' \<and> pred_option wf_commit c' \<and> settled_commit c' \<and>
      (settled_commit c \<longrightarrow> c' = c) \<and> (commit_ops c' = [] \<longleftrightarrow> commit_ops c = [])"
  proof (cases c)
    case None
    then show ?thesis by (simp add: normalizePrivateCommit_def settled_commit_def commit_ops_def)
  next
    case (Some x)
    with assms(1) commit_settles [of x] show ?thesis by (auto simp: wf_parts_def)
  qed
  then obtain c' where c': "normalizePrivateCommit c = Inr c'" "pred_option wf_commit c'" "settled_commit c'"
    "settled_commit c \<longrightarrow> c' = c" "commit_ops c' = [] \<longleftrightarrow> commit_ops c = []" by blast
  have fixed: "normalizePublicationsV5 (Some (JArr pubs)) = Inr pubs" "normalizePrivateEpisodes (Some (JArr eps)) = Inr eps"
    "normalizeRelationIntents (Some (JArr ints)) = Inr ints" "normalizeConflictFactors (Some (JArr cfs)) = Inr cfs"
    "normalizePinnedSummaryProposal pin = Inr pin"
    using assms(1) publications.array_fixed episodes.array_fixed intents.array_fixed factors.array_fixed proposal_fixed
    by (cases pin; simp add: wf_parts_def normalizePublicationsV5_def normalizePrivateEpisodes_def
        normalizeRelationIntents_def normalizeConflictFactors_def normalizePinnedSummaryProposal_def)+
  have "is_object ?v" "\<not> blank ''rp_turn_outcome_v5''" by (simp add: canonical_outcome_def, code_simp)
  with c'(1,5) fixed assms(2) have "normalizeRpTurnOutcome (Some ?v) = Inr (canonical_outcome obj r c' eps pubs pin ints cfs)"
    by (simp add: normalizeRpTurnOutcome_def normalizeV5Submission_def canonical_again)
  with c' assms(1) show ?thesis by (auto simp: wf_parts_def)
qed

text \<open>What the looser validator checks is checked by the normalisation.\<close>

lemma array_entries:
  assumes "array_or_empty f raw = Inr ys" "\<And>x y. f x = Inr y \<Longrightarrow> is_object x \<and> ok x"
  shows "entries_ok ok raw"
  using assms by (auto simp: array_or_empty_def entries_ok_def each_Inr list_all2_conv_all_nth list_all_length
      split: option.splits json.splits)

lemma normalized_validates:
  assumes "normalizeRpTurnOutcome (Some obj) = Inr v"
  shows "validateRpTurnOutcomeV5 (Some obj) = Inr obj" and "detectOutcomeVersion (Some obj) = Inr V5"
proof -
  from assms have o: "is_object obj" "prop_of obj ''schemaVersion'' = Some (JStr ''rp_turn_outcome_v5'')"
    "string_of (prop_of obj ''publicReply'') \<noteq> None" and n: "normalizeV5Submission obj = Inr v"
    by (auto simp: normalizeRpTurnOutcome_def string_of_Some_iff split: option.splits if_splits)
  from n obtain pubs eps pin ints cfs where parts:
    "normalizePublicationsV5 (prop_of obj ''publications'') = Inr pubs"
    "normalizePrivateEpisodes (prop_of obj ''privateEpisodes'') = Inr eps"
    "normalizePinnedSummaryProposal (prop_of obj ''pinnedSummaryProposal'') = Inr pin"
    "normalizeRelationIntents (prop_of obj ''relationIntents'') = Inr ints"
    "normalizeConflictFactors (prop_of obj ''conflictFactors'') = Inr cfs"
    by (auto simp: normalizeV5Submission_def Let_def bind_ok_Inr)
  have "entries_ok (\<lambda>p. one_of V5_PUBLICATION_KINDS (prop_of p ''kind'')) (prop_of obj ''publications'')"
    using parts(1) unfolding normalizePublicationsV5_def
    by (rule array_entries) (auto simp: normalize_publication_def split: if_splits)
  moreover have "entries_ok (\<lambda>r. one_of ALLOWED_INTENTS (prop_of r ''intent'')) (prop_of obj ''relationIntents'')"
    using parts(4) unfolding normalizeRelationIntents_def
    by (rule array_entries) (auto simp: normalize_intent_def split: if_splits)
  moreover have "entries_ok (\<lambda>c. \<not> note_too_long c) (prop_of obj ''conflictFactors'')"
    using parts(5) unfolding normalizeConflictFactors_def
    by (rule array_entries) (auto simp: normalize_factor_def split: if_splits)
  moreover have "entries_ok (\<lambda>_. True) (prop_of obj ''privateEpisodes'')"
    using parts(2) unfolding normalizePrivateEpisodes_def
    by (rule array_entries) (auto simp: normalize_episode_def split: if_splits)
  moreover have "\<not> (case prop_of obj ''pinnedSummaryProposal'' of
      None \<Rightarrow> False | Some (JObj _) \<Rightarrow> False | Some JNull \<Rightarrow> False | _ \<Rightarrow> True)"
    using parts(3) by (auto simp: normalizePinnedSummaryProposal_def split: option.splits json.splits)
  ultimately show "validateRpTurnOutcomeV5 (Some obj) = Inr obj" using o by (simp add: validateRpTurnOutcomeV5_def)
  show "detectOutcomeVersion (Some obj) = Inr V5" using o by (simp add: detectOutcomeVersion_def)
qed

section \<open>What the contract guarantees\<close>

text \<open>
  Property (C26): whatever value is submitted, an accepted outcome has exactly the properties that
  its type declares at the top level, in their order and with values of their types; the names of
  operations, the scopes and the stances of assertions are among their literals, notes have at most 120
  characters, assertions have a holder, a claim, references and a stance that fits, operations have
  keys and no two the same, and it has content. The contract does not check the kind of a record or
  of a retracted target, nor the fields of an evaluation or a commitment, and nothing is said of
  them. The submitted value also
  passes the looser validator and is detected as version 5.
\<close>

theorem outcome_well_formed:
  assumes "normalizeRpTurnOutcome (Some obj) = Inr v"
  shows "wf_outcome v \<and> validateRpTurnOutcomeV5 (Some obj) = Inr obj \<and> detectOutcomeVersion (Some obj) = Inr V5"
proof -
  from assms obtain obj' r c eps pubs pin ints cfs where "v = canonical_outcome obj' r c eps pubs pin ints cfs"
    "wf_parts c eps pubs pin ints cfs" "\<not> (r = [] \<and> commit_ops c = [] \<and> pubs = [] \<and> eps = [])"
    by (rule outcome_parts)
  then show ?thesis using wf_canonical_outcome normalized_validates [OF assms] by simp
qed

text \<open>
  Property (C3): a canonical outcome is accepted again. Normalising it changes nothing when
  the references and claims of its assertions are not blank; if some are, the second
  normalisation replaces them, and nothing changes from then on.
\<close>

theorem normalization_settles:
  assumes "normalizeRpTurnOutcome raw = Inr v"
  shows "\<exists>v'. normalizeRpTurnOutcome (Some v) = Inr v' \<and> normalizeRpTurnOutcome (Some v') = Inr v' \<and>
    (settled_outcome v \<longrightarrow> v' = v)"
proof -
  from assms obtain obj r c eps pubs pin ints cfs where v: "v = canonical_outcome obj r c eps pubs pin ints cfs"
    and wf: "wf_parts c eps pubs pin ints cfs" and content: "\<not> (r = [] \<and> commit_ops c = [] \<and> pubs = [] \<and> eps = [])"
    by (rule outcome_parts)
  from outcome_settles [OF wf content, of obj] obtain c' where
    1: "normalizeRpTurnOutcome (Some v) = Inr (canonical_outcome obj r c' eps pubs pin ints cfs)"
    "wf_parts c' eps pubs pin ints cfs" "settled_commit c'" "settled_commit c \<longrightarrow> c' = c"
    "commit_ops c' = [] \<longleftrightarrow> commit_ops c = []" unfolding v by blast
  from outcome_settles [OF 1(2), of r obj] content 1(3,5)
  have "normalizeRpTurnOutcome (Some (canonical_outcome obj r c' eps pubs pin ints cfs)) =
      Inr (canonical_outcome obj r c' eps pubs pin ints cfs)" by auto
  with 1(1,4) show ?thesis by (intro exI) (auto simp: v settled_outcome_def)
qed

text \<open>Operations on which the handler of malformed operations fails itself.\<close>

definition kills :: "json \<Rightarrow> bool" where
  "kills op \<longleftrightarrow> op = JNull \<or>
     (one_of [''upsert'', ''retract''] (prop_of op ''op'') \<and>
      (case prop_of op ''record'' of
         Some r \<Rightarrow> (case prop_of r ''key'' of Some k \<Rightarrow> no_text k | None \<Rightarrow> False) | None \<Rightarrow> False) \<and>
      \<not> (prop_of op ''op'' = Some (JStr ''retract'') \<and> has_key (prop_of op ''target'')))"

lemma skip_op_fails:
  "isl (skip_op op) \<longleftrightarrow> op = JNull \<or> (case prop_of op ''record'' of
     Some r \<Rightarrow> (case prop_of r ''key'' of Some k \<Rightarrow> no_text k | None \<Rightarrow> False) | None \<Rightarrow> False)"
  by (auto simp: skip_op_def prop_of_def split: option.split json.split)

lemma normalize_op_fails: "isl (normalize_op op) \<longleftrightarrow> kills op"
proof (cases "prop_of op ''op'' = Some (JStr ''upsert'')")
  case True
  show ?thesis
  proof (cases "has_key (prop_of op ''record'')")
    case has: True
    then obtain r s where r: "prop_of op ''record'' = Some r" "prop_of r ''key'' = Some (JStr s)"
      by (cases "prop_of op ''record''") (auto simp: has_key_iff, simp add: has_key_def)
    with has has_key_obj obtain m where "r = JObj m" by metis
    with r True has skip_op_fails [of op] show ?thesis
      by (auto simp: normalize_op_def kills_def one_of_iff split: sum.split)
  next
    case False
    with True skip_op_fails [of op] show ?thesis by (auto simp: normalize_op_def kills_def one_of_iff)
  qed
next
  case False
  then show ?thesis
    using skip_op_fails [of op] by (auto simp: normalize_op_def kills_def one_of_iff)
qed

lemma each_fails: "isl (each f xs) \<longleftrightarrow> (\<exists>x \<in> set xs. isl (f x))"
  by (induction xs) (auto simp: bind_ok_def split: sum.split)

text \<open>
  Property (C39): of the operations of a commit that have the same kind and key, only the last
  well-formed one remains, in its normal form; malformed ones are skipped. The whole turn is
  refused exactly if an operation is \<open>null\<close> or a malformed one has a key that cannot be
  printed, which the handler meant to skip it does not survive.
\<close>

theorem last_operation_wins:
  assumes "prop_of v ''ops'' = Some (JArr ops)"
  shows "(isl (normalizePrivateCommit (Some v)) \<longleftrightarrow> list_ex kills ops) \<and>
    (case normalizePrivateCommit (Some v) of
       Inr (Some c) \<Rightarrow>
         distinct (map op_key (commit_ops (Some c))) \<and>
         (\<forall>k. find (\<lambda>op. op_key op = k) (commit_ops (Some c)) =
              find (\<lambda>op. op_key op = k) (rev (List.map_filter (\<lambda>op. projr (normalize_op op)) ops)))
     | Inr None \<Rightarrow> False
     | Inl _ \<Rightarrow> True)"
proof -
  have v: "is_object v" using assms by (cases v) (simp_all add: prop_of_def)
  show ?thesis
  proof (cases "each normalize_op ops")
    case (Inl e)
    then have "list_ex kills ops" using each_fails [of normalize_op ops] by (simp add: normalize_op_fails list_ex_iff)
    with Inl v assms show ?thesis by (simp add: normalizePrivateCommit_def)
  next
    case (Inr kept)
    then have "\<not> list_ex kills ops" using each_fails [of normalize_op ops] by (simp add: normalize_op_fails list_ex_iff)
    moreover from Inr have "kept = map (\<lambda>op. projr (normalize_op op)) ops"
      by (auto simp: each_Inr list_all2_conv_all_nth intro!: nth_equalityI)
    then have "List.map_filter id kept = List.map_filter (\<lambda>op. projr (normalize_op op)) ops"
      by (simp add: map_filter_def filter_map comp_def)
    ultimately show ?thesis
      using Inr v assms by (simp add: normalizePrivateCommit_def distinct_dedup dedup_last)
  qed
qed

section \<open>Witnesses\<close>

definition sample_assertion :: json where
  "sample_assertion = JObj [(''kind'', JStr ''assertion''), (''key'', JStr ''fire''), (''holderId'', JStr ''mei''),
     (''claim'', JStr ''the barn burns''), (''entityRefs'', JArr [JStr ''barn'']), (''stance'', JStr ''contested'')]"

definition sample_commit :: json where
  "sample_commit = JObj [(''ops'', JArr
     [JObj [(''op'', JStr ''upsert''), (''record'', sample_assertion)],
      JObj [(''op'', JStr ''upsert''), (''record'', JObj [(''kind'', JStr ''assertion'')])],
      JObj [(''op'', JStr ''retract''), (''target'', JObj [(''kind'', JStr ''evaluation''), (''key'', JStr ''mood'')])],
      JObj [(''op'', JStr ''upsert''), (''record'', JObj [(''kind'', JStr ''commitment''), (''key'', JStr ''fire'')])]])]"

definition sample_submission :: json where
  "sample_submission = JObj [(''schemaVersion'', JStr ''rp_turn_outcome_v5''), (''publicReply'', JStr []),
     (''privateCognition'', JObj [(''ops'', JArr [JObj [(''op'', JStr ''upsert''), (''record'', sample_assertion)]])]),
     (''conflictFactors'', JArr [JObj [(''kind'', JStr ''lie''), (''ref'', JStr ''fire'')]])]"

definition sample_outcome :: json where
  "sample_outcome = (case normalizeRpTurnOutcome (Some sample_submission) of Inr v \<Rightarrow> v | Inl _ \<Rightarrow> JNull)"

lemma sample_accepted: "normalizeRpTurnOutcome (Some sample_submission) = Inr sample_outcome"
  by code_simp

theorem outcome_well_formed_witness:
  "wf_outcome sample_outcome \<and> validateRpTurnOutcomeV5 (Some sample_submission) = Inr sample_submission"
  using outcome_well_formed [OF sample_accepted] by blast

theorem normalization_settles_witness:
  "normalizeRpTurnOutcome (Some sample_outcome) = Inr sample_outcome"
proof -
  have "settled_outcome sample_outcome" by code_simp
  with normalization_settles [OF sample_accepted] show ?thesis by auto
qed

theorem last_operation_wins_witness:
  "\<not> isl (normalizePrivateCommit (Some sample_commit)) \<and>
   isl (normalizePrivateCommit (Some (JObj [(''ops'', JArr [JNull])])))"
proof -
  obtain ops where ops: "prop_of sample_commit ''ops'' = Some (JArr ops)" "\<not> list_ex kills ops"
  proof -
    have "(case prop_of sample_commit ''ops'' of Some (JArr ops) \<Rightarrow> \<not> list_ex kills ops | _ \<Rightarrow> False)" by code_simp
    then show ?thesis using that by (auto split: option.splits json.splits)
  qed
  have null: "prop_of (JObj [(''ops'', JArr [JNull])]) ''ops'' = Some (JArr [JNull])" "list_ex kills [JNull]"
    by code_simp+
  show ?thesis
    using last_operation_wins [OF ops(1)] ops(2) last_operation_wins [OF null(1)] null(2) by blast
qed

end
