(* ===== verification/Agent_Loop.thy ===== *)
theory Agent_Loop
  imports Tool_Access Turn_Contract
begin

text \<open>
  The agent loop (\<^verbatim>\<open>src/core/agent-loop.ts\<close>, with the chunk and message types of \<^verbatim>\<open>chunk.ts\<close> and
  \<^verbatim>\<open>models/chat-provider.ts\<close> and the tool of \<^verbatim>\<open>src/runtime/submit-rp-turn-tool.ts\<close>): rounds of a
  model call and the tool calls the model asked for, streaming (\<open>run\<close>) or buffered
  (\<open>runBuffered\<close>, whose result is the outcome of a turn).

  \<^item> The model is the function \<open>chat\<close>: for a request and the present state it gives the
    chunks of the answer, the exception that ends the stream if there is one, and the state
    after the call. The state is the tool executor and the world.
  \<^item> What the loop yields, and what it gives to the projection sink, is recorded in order.
    Log and trace entries are not.
  \<^item> A round is a function, and the loop runs a given number of rounds: \<open>None\<close> is a loop that
    has not returned by then.
  \<^item> Messages of errors are not kept, so the result of a failed call is \<open>undefined\<close> here.
  \<^item> \<open>parse\<close> is \<open>JSON.parse\<close>, \<open>ns\<close> prints a number. Building the prompt is the argument
    \<open>build_prompt\<close>, for a loop constructed with a prompt builder.
\<close>

section \<open>Chunks and messages\<close>

datatype stop_reason = End_turn | Tool_use_stop | Max_tokens | Stop_sequence

datatype chunk =
    Text_delta string
  | Tool_use_start string string
  | Tool_use_delta string string
  | Tool_use_end string
  | Tool_execution_result string string tool_result bool
  | Message_end stop_reason "int option" "int option"
  | Error_chunk error_code bool

datatype content_block =
    Text_block string
  | Tool_use_block string string "(string \<times> json) list"
  | Tool_result_block string string

datatype chat_role = System_role | User_role | Assistant_role | Tool_role

text \<open>Content is a string, a list of blocks, or \<open>undefined\<close>.\<close>

datatype message_content = Text_content string | Block_content "content_block list" | No_content

record chat_message =
  cm_role :: chat_role
  cm_content :: message_content
  cm_toolCallId :: "string option"

datatype tool_choice = Choice_any | Choice_tool string

record chat_request =
  cr_modelId :: string
  cr_systemPrompt :: string
  cr_messages :: "chat_message list"
  cr_maxTokens :: "int option"
  cr_toolChoice :: "tool_choice option"
  cr_tools :: "(string \<times> string \<times> json) list"

record tool_call =
  pc_id :: string
  pc_name :: string
  pc_argumentsJson :: string

section \<open>Reading the stream of the model\<close>

record stream_state =
  pendingToolCalls :: "(string, tool_call) js_map"
  completedToolCalls :: "tool_call list"
  assistantBlocks :: "content_block list"
  assistantToolBlockIndices :: "(string, nat) js_map"
  assistantText :: string
  sawMessageEnd :: bool

definition stream_start :: stream_state where
  "stream_start =
     \<lparr>pendingToolCalls = [], completedToolCalls = [], assistantBlocks = [],
      assistantToolBlockIndices = [], assistantText = [], sawMessageEnd = False\<rparr>"

definition appendTextBlock :: "content_block list \<Rightarrow> string \<Rightarrow> content_block list" where
  "appendTextBlock blocks txt =
     (if blocks = [] then [Text_block txt]
      else (case last blocks of
              Text_block t \<Rightarrow> butlast blocks @ [Text_block (t @ txt)]
            | _ \<Rightarrow> blocks @ [Text_block txt]))"

definition add_arguments :: "string \<Rightarrow> tool_call \<Rightarrow> tool_call" where
  "add_arguments partialJson p = p\<lparr>pc_argumentsJson := pc_argumentsJson p @ partialJson\<rparr>"

fun read_chunk :: "chunk \<Rightarrow> stream_state \<Rightarrow> stream_state" where
  "read_chunk (Text_delta txt) s =
     s\<lparr>assistantText := assistantText s @ txt, assistantBlocks := appendTextBlock (assistantBlocks s) txt\<rparr>"
| "read_chunk (Tool_use_start i n) s =
     s\<lparr>pendingToolCalls := AList.update i \<lparr>pc_id = i, pc_name = n, pc_argumentsJson = []\<rparr> (pendingToolCalls s),
       assistantToolBlockIndices := AList.update i (length (assistantBlocks s)) (assistantToolBlockIndices s),
       assistantBlocks := assistantBlocks s @ [Tool_use_block i n []]\<rparr>"
| "read_chunk (Tool_use_delta i part) s =
     (case map_of (pendingToolCalls s) i of
        Some pending \<Rightarrow> s\<lparr>pendingToolCalls := AList.update i (add_arguments part pending) (pendingToolCalls s)\<rparr>
      | None \<Rightarrow> s)"
| "read_chunk (Tool_use_end i) s =
     (case map_of (pendingToolCalls s) i of
        Some pending \<Rightarrow>
          s\<lparr>completedToolCalls := completedToolCalls s @ [pending],
            pendingToolCalls := AList.delete i (pendingToolCalls s)\<rparr>
      | None \<Rightarrow> s)"
| "read_chunk (Message_end _ _ _) s = s\<lparr>sawMessageEnd := True\<rparr>"
| "read_chunk _ s = s"

definition parseToolArgs :: "(string \<Rightarrow> json option) \<Rightarrow> tool_call \<Rightarrow> (thrown, (string \<times> json) list) result" where
  "parseToolArgs parse toolCall =
     (let argsText = js_trim (pc_argumentsJson toolCall)
      in if argsText = [] then Inr []
         else (case parse argsText of
                 Some (JObj m) \<Rightarrow> Inr m
               | _ \<Rightarrow> Inl (Maids_error (error TOOL_ARGUMENT_INVALID False))))"

record normal_call =
  nc_id :: string
  nc_name :: string
  nc_params :: "(string \<times> json) list"

text \<open>The calls with their parameters, and the blocks with the inputs filled in.\<close>

fun normalize_calls :: "(string \<Rightarrow> json option) \<Rightarrow> (string, nat) js_map \<Rightarrow> tool_call list \<Rightarrow>
    content_block list \<Rightarrow> (thrown, normal_call list \<times> content_block list) result" where
  "normalize_calls parse indices [] blocks = Inr ([], blocks)"
| "normalize_calls parse indices (c # cs) blocks =
     (case parseToolArgs parse c of
        Inl e \<Rightarrow> Inl e
      | Inr parsed \<Rightarrow>
          (let blocks' = (case map_of indices (pc_id c) of
                            Some i \<Rightarrow> blocks[i := Tool_use_block (pc_id c) (pc_name c) parsed]
                          | None \<Rightarrow> blocks)
           in (case normalize_calls parse indices cs blocks' of
                 Inl e \<Rightarrow> Inl e
               | Inr (calls, blocks'') \<Rightarrow>
                   Inr (\<lparr>nc_id = pc_id c, nc_name = pc_name c, nc_params = parsed\<rparr> # calls, blocks''))))"

fun block_text :: "content_block \<Rightarrow> string option" where
  "block_text (Text_block t) = Some t"
| "block_text _ = None"

definition finalizeAssistantMessage :: "content_block list \<Rightarrow> string \<Rightarrow> chat_message option" where
  "finalizeAssistantMessage blocks fallbackText =
     (let message = (\<lambda>c. Some \<lparr>cm_role = Assistant_role, cm_content = c, cm_toolCallId = None\<rparr>)
      in if blocks \<noteq> [] then
           (if list_all (\<lambda>b. block_text b \<noteq> None) blocks
            then message (Text_content (concat (map (the \<circ> block_text) blocks)))
            else message (Block_content blocks))
         else if fallbackText \<noteq> [] then message (Text_content fallbackText)
         else None)"

definition stringifyToolResult :: "(js_num \<Rightarrow> string) \<Rightarrow> tool_result \<Rightarrow> message_content" where
  "stringifyToolResult ns r =
     (case r of
        None \<Rightarrow> No_content
      | Some (JStr s) \<Rightarrow> Text_content s
      | Some v \<Rightarrow> Text_content (json_text ns v))"

definition tool_message :: "(js_num \<Rightarrow> string) \<Rightarrow> string \<Rightarrow> tool_result \<Rightarrow> chat_message" where
  "tool_message ns callId r =
     \<lparr>cm_role = Tool_role, cm_content = stringifyToolResult ns r, cm_toolCallId = Some callId\<rparr>"

section \<open>The loop and its request\<close>

record 'w agent_loop =
  al_profile :: agent_profile
  al_chat :: "chat_request \<Rightarrow> 'w executor \<times> 'w \<Rightarrow> (chunk list \<times> thrown option) \<times> 'w executor \<times> 'w"
  al_build_prompt :: "(chat_message list \<Rightarrow> bool \<Rightarrow> 'w executor \<times> 'w \<Rightarrow>
      (thrown, string \<times> chat_message list) result \<times> 'w executor \<times> 'w) option"
  al_parse :: "string \<Rightarrow> json option"
  al_num_text :: "js_num \<Rightarrow> string"
  al_maxDelegationDepth :: "int option"

record agent_request =
  rq_sessionId :: string
  rq_requestId :: string
  rq_messages :: "chat_message list"
  rq_delegationDepth :: "int option"
  rq_isTalkerMode :: bool

fun role_name :: "agent_role \<Rightarrow> string" where
  "role_name Maiden = ''maiden''"
| "role_name Rp_agent = ''rp_agent''"
| "role_name Task_agent = ''task_agent''"

definition buildSystemPrompt :: "agent_profile \<Rightarrow> string" where
  "buildSystemPrompt profile =
     ''You are agent '' @ ap_id profile @ '' with role '' @ role_name (ap_role profile) @ ''.''"

definition buildInitialPromptState :: "'w agent_loop \<Rightarrow> agent_request \<Rightarrow> 'w executor \<times> 'w \<Rightarrow>
    (thrown, string \<times> chat_message list) result \<times> 'w executor \<times> 'w" where
  "buildInitialPromptState al rq s =
     (case al_build_prompt al of
        None \<Rightarrow> (Inr (buildSystemPrompt (al_profile al), rq_messages rq), s)
      | Some build \<Rightarrow> build (rq_messages rq) (rq_isTalkerMode rq) s)"

definition buildCompletionRequest :: "'w agent_loop \<Rightarrow> chat_message list \<Rightarrow> string \<Rightarrow> tool_schema list \<Rightarrow>
    bool \<Rightarrow> chat_request" where
  "buildCompletionRequest al messages systemPrompt schemas forceToolUse =
     \<lparr>cr_modelId = ap_modelId (al_profile al), cr_systemPrompt = systemPrompt, cr_messages = messages,
      cr_maxTokens = ap_maxOutputTokens (al_profile al),
      cr_toolChoice = (if forceToolUse then Some Choice_any else None),
      cr_tools = map (\<lambda>t. (ts_name t, ts_description t, ts_parameters t))
        (getFilteredSchemas (al_profile al) schemas)\<rparr>"

definition depth_exceeded :: "'w agent_loop \<Rightarrow> agent_request \<Rightarrow> bool" where
  "depth_exceeded al rq \<longleftrightarrow> or_else (rq_delegationDepth rq) 0 \<ge> or_else (al_maxDelegationDepth al) 3"

definition find_schema :: "string \<Rightarrow> tool_schema list \<Rightarrow> tool_schema option" where
  "find_schema n schemas = find (\<lambda>schema. ts_name schema = n) schemas"

definition may_call :: "'w agent_loop \<Rightarrow> tool_schema option \<Rightarrow> string js_set \<Rightarrow> string \<Rightarrow> bool" where
  "may_call al schema used n =
     canExecuteTool (al_profile al) n
       (Some \<lparr>xc_schema = schema,
              xc_permissions = Some (getDefaultPermissions (ap_id (al_profile al)) (ap_role (al_profile al))),
              xc_turnToolsUsed = Some used\<rparr>)"

definition call_context :: "'w agent_loop \<Rightarrow> agent_request \<Rightarrow> dispatch_context" where
  "call_context al rq =
     \<lparr>dc_viewerContext = None, dc_sessionId = Some (rq_sessionId rq), dc_agentId = Some (ap_id (al_profile al))\<rparr>"

section \<open>Streaming\<close>

record projection_appendix =
  pa_publicSummarySeed :: string
  pa_primaryActorEntityId :: string
  pa_locationEntityId :: string
  pa_eventCategory :: string
  pa_projectionClass :: string
  pa_sourceRecordId :: string

definition createProjectionAppendix :: "string \<Rightarrow> string \<Rightarrow> string \<Rightarrow> nat \<Rightarrow> projection_appendix" where
  "createProjectionAppendix txt agentId requestId turnIndex =
     \<lparr>pa_publicSummarySeed = txt, pa_primaryActorEntityId = agentId,
      pa_locationEntityId = ''unknown'', pa_eventCategory = ''speech'',
      pa_projectionClass = (if js_trim txt \<noteq> [] then ''area_candidate'' else ''non_projectable''),
      pa_sourceRecordId = requestId @ '':assistant:'' @ nat_str turnIndex\<rparr>"

record 'w run_state =
  st_state :: "'w executor \<times> 'w"
  st_messages :: "chat_message list"
  st_turn :: nat
  st_used :: "string js_set"
  st_yielded :: "chunk list"
  st_projections :: "projection_appendix list"

definition yield_all :: "chunk list \<Rightarrow> 'w run_state \<Rightarrow> 'w run_state" where
  "yield_all cs st = st\<lparr>st_yielded := st_yielded st @ cs\<rparr>"

definition error_yield :: "ms_error \<Rightarrow> chunk" where
  "error_yield e = Error_chunk (e_code e) (e_retriable e)"

text \<open>The tool calls of a round: whether the loop goes on, and the state.\<close>

fun run_calls :: "'w agent_loop \<Rightarrow> agent_request \<Rightarrow> tool_schema list \<Rightarrow> normal_call list \<Rightarrow>
    'w run_state \<Rightarrow> bool \<times> 'w run_state" where
  "run_calls al rq schemas [] st = (True, st)"
| "run_calls al rq schemas (c # cs) st =
     (if \<not> may_call al (find_schema (nc_name c) schemas) (st_used st) (nc_name c)
      then (False, yield_all [Error_chunk TOOL_PERMISSION_DENIED False] st)
      else (case execute (nc_name c) (JObj (nc_params c)) (call_context al rq) (st_state st) of
              (Inl e, s') \<Rightarrow>
                (False, yield_all
                   [Tool_execution_result (nc_id c) (nc_name c) None True,
                    error_yield (wrapError e (Some MCP_TOOL_ERROR) (Some False))]
                   (st\<lparr>st_state := s'\<rparr>))
            | (Inr r, s') \<Rightarrow>
                run_calls al rq schemas cs
                  (yield_all [Tool_execution_result (nc_id c) (nc_name c) r False]
                     (st\<lparr>st_state := s', st_used := set_add (nc_name c) (st_used st),
                         st_messages := st_messages st @ [tool_message (al_num_text al) (nc_id c) r]\<rparr>))))"

text \<open>One round of \<open>run\<close>.\<close>

definition run_round :: "'w agent_loop \<Rightarrow> agent_request \<Rightarrow> string \<Rightarrow> tool_schema list \<Rightarrow>
    'w run_state \<Rightarrow> bool \<times> 'w run_state" where
  "run_round al rq systemPrompt schemas st =
     (let (ex, w) = st_state st;
          (present, ex1) = getSchemas ex;
          request = buildCompletionRequest al (st_messages st) systemPrompt present False;
          ((chunks, failure), s1) = al_chat al request (ex1, w);
          st1 = yield_all chunks (st\<lparr>st_state := s1, st_turn := st_turn st + 1\<rparr>);
          ss = fold read_chunk chunks stream_start
      in (case failure of
            Some e \<Rightarrow> (False, yield_all [error_yield (wrapError e (Some MODEL_API_ERROR) (Some True))] st1)
          | None \<Rightarrow>
              (case normalize_calls (al_parse al) (assistantToolBlockIndices ss) (completedToolCalls ss)
                      (assistantBlocks ss) of
                 Inl e \<Rightarrow> (False, yield_all [error_yield (wrapError e (Some TOOL_ARGUMENT_INVALID) (Some False))] st1)
               | Inr (calls, blocks) \<Rightarrow>
                   (let st2 = (case finalizeAssistantMessage blocks (assistantText ss) of
                                 None \<Rightarrow> st1
                               | Some m \<Rightarrow>
                                   st1\<lparr>st_messages := st_messages st1 @ [m],
                                       st_projections := st_projections st1 @
                                         (if sawMessageEnd ss
                                          then [createProjectionAppendix (assistantText ss) (ap_id (al_profile al))
                                                  (rq_requestId rq) (st_turn st1)] else [])\<rparr>)
                    in if calls = [] then (False, st2) else run_calls al rq schemas calls st2))))"

fun run_rounds :: "nat \<Rightarrow> 'w agent_loop \<Rightarrow> agent_request \<Rightarrow> string \<Rightarrow> tool_schema list \<Rightarrow>
    'w run_state \<Rightarrow> 'w run_state option" where
  "run_rounds 0 al rq systemPrompt schemas st = None"
| "run_rounds (Suc n) al rq systemPrompt schemas st =
     (case run_round al rq systemPrompt schemas st of
        (True, st') \<Rightarrow> run_rounds n al rq systemPrompt schemas st'
      | (False, st') \<Rightarrow> Some st')"

definition run_start :: "'w executor \<times> 'w \<Rightarrow> chat_message list \<Rightarrow> 'w run_state" where
  "run_start s messages =
     \<lparr>st_state = s, st_messages = messages, st_turn = 0, st_used = [], st_yielded = [], st_projections = []\<rparr>"

text \<open>\<open>run\<close> with at most \<open>n\<close> rounds.\<close>

definition run :: "nat \<Rightarrow> 'w agent_loop \<Rightarrow> agent_request \<Rightarrow> 'w executor \<times> 'w \<Rightarrow>
    (thrown, 'w run_state option) result" where
  "run n al rq s =
     (if depth_exceeded al rq then Inl (Maids_error (error DELEGATION_DEPTH_EXCEEDED False))
      else (case buildInitialPromptState al rq s of
              (Inl e, s') \<Rightarrow> Inl e
            | (Inr (systemPrompt, messages), ex, w) \<Rightarrow>
                (case getSchemas ex of
                   (schemas, ex1) \<Rightarrow>
                     Inr (run_rounds n al rq systemPrompt schemas (run_start (ex1, w) messages)))))"

section \<open>Buffering\<close>

definition SUBMIT_RP_TURN_ARTIFACT_CONTRACTS :: "(string, artifact_contract) js_map" where
  "SUBMIT_RP_TURN_ARTIFACT_CONTRACTS =
     [(''publicReply'', \<lparr>ac_authority = Authority_agent, ac_scope = Scope_world, ac_ledger = Current_state\<rparr>),
      (''privateCognition'', \<lparr>ac_authority = Authority_agent, ac_scope = Scope_private, ac_ledger = Append_only\<rparr>),
      (''privateEpisodes'', \<lparr>ac_authority = Authority_agent, ac_scope = Scope_private, ac_ledger = Append_only\<rparr>),
      (''publications'', \<lparr>ac_authority = Authority_agent, ac_scope = Scope_area, ac_ledger = Append_only\<rparr>),
      (''pinnedSummaryProposal'', \<lparr>ac_authority = Authority_agent, ac_scope = Scope_session, ac_ledger = Current_state\<rparr>),
      (''relationIntents'', \<lparr>ac_authority = Authority_agent, ac_scope = Scope_private, ac_ledger = Append_only\<rparr>),
      (''conflictFactors'', \<lparr>ac_authority = Authority_agent, ac_scope = Scope_private, ac_ledger = Current_state\<rparr>),
      (''areaStateArtifacts'', \<lparr>ac_authority = Authority_agent, ac_scope = Scope_area, ac_ledger = Current_state\<rparr>)]"

text \<open>The description and the JSON schema of the tool are the arguments \<open>d\<close> and \<open>p\<close>.\<close>

definition submit_execute :: "json \<Rightarrow> (thrown, tool_result) result" where
  "submit_execute params =
     (case normalizeRpTurnOutcome (Some params) of
        Inr v \<Rightarrow> Inr (Some v)
      | Inl e \<Rightarrow> Inl (Maids_error (error RP_TURN_OUTCOME_INVALID False)))"

definition makeSubmitRpTurnTool :: "string \<Rightarrow> json \<Rightarrow> 'w tool_def" where
  "makeSubmitRpTurnTool d p =
     \<lparr>ts_name = ''submit_rp_turn'', ts_description = d, ts_parameters = p,
      ts_effectClass = Some Read_only, ts_traceVisibility = Some Private_runtime,
      ts_contract = Some \<lparr>tc_effect_type = Settlement, tc_turn_phase = Post_turn, tc_cardinality = Once,
        tc_capabilities = Some [''rp_settlement''], tc_trace_visibility = Private_runtime\<rparr>,
      ts_artifacts = Some SUBMIT_RP_TURN_ARTIFACT_CONTRACTS,
      td_execute = (\<lambda>params ctx w. (submit_execute params, w))\<rparr>"

text \<open>
  The executor of a buffered run: every tool of the loop's executor, which runs there, and
  the tool that submits the turn. Its world is the executor of the loop with its world.
\<close>

definition forwarding_tool :: "tool_schema \<Rightarrow> ('w executor \<times> 'w) tool_def" where
  "forwarding_tool schema =
     \<lparr>ts_name = ts_name schema, ts_description = ts_description schema, ts_parameters = ts_parameters schema,
      ts_effectClass = ts_effectClass schema, ts_traceVisibility = ts_traceVisibility schema,
      ts_contract = None, ts_artifacts = None,
      td_execute = (\<lambda>params ctx s. execute (ts_name schema) params ctx s)\<rparr>"

definition createBufferedToolExecutor :: "string \<Rightarrow> json \<Rightarrow> tool_schema list \<Rightarrow> ('w executor \<times> 'w) executor" where
  "createBufferedToolExecutor d p schemas =
     registerLocal (makeSubmitRpTurnTool d p)
       (foldl (\<lambda>bx schema. registerLocal (forwarding_tool schema) bx) new_executor schemas)"

text \<open>The last is an exception that leaves \<open>runBuffered\<close>.\<close>

datatype buffered_result = Buffered_outcome json | Buffered_error | Buffered_throws thrown

text \<open>The tool calls of a buffered round: the result of the run, or the state to go on with.\<close>

record 'w buffered_state =
  bs_executor :: "('w executor \<times> 'w) executor"
  bs_state :: "'w executor \<times> 'w"
  bs_messages :: "chat_message list"
  bs_used :: "string js_set"

definition buffered_allowed :: "tool_schema option \<Rightarrow> bool" where
  "buffered_allowed schema =
     (case schema of
        None \<Rightarrow> False
      | Some t \<Rightarrow>
          (let effect = (case ts_contract t of Some c \<Rightarrow> Some (deriveEffectClass (tc_effect_type c)) | None \<Rightarrow> ts_effectClass t);
               trace = (case ts_contract t of Some c \<Rightarrow> Some (tc_trace_visibility c) | None \<Rightarrow> ts_traceVisibility t)
           in \<not> (effect \<noteq> Some Read_only \<and> trace \<noteq> Some Private_runtime)))"

text \<open>\<open>baseToolSchema ?? bufferedToolSchema\<close>\<close>

definition gate_schema :: "tool_schema list \<Rightarrow> tool_schema list \<Rightarrow> string \<Rightarrow> tool_schema option" where
  "gate_schema base buffered n =
     (case find_schema n base of Some t \<Rightarrow> Some t | None \<Rightarrow> find_schema n buffered)"

fun buffered_calls :: "'w agent_loop \<Rightarrow> agent_request \<Rightarrow> tool_schema list \<Rightarrow> tool_schema list \<Rightarrow> normal_call list \<Rightarrow>
    'w buffered_state \<Rightarrow> (buffered_result, unit) result \<times> 'w buffered_state" where
  "buffered_calls al rq base buffered [] st = (Inr (), st)"
| "buffered_calls al rq base buffered (c # cs) st =
     (if \<not> may_call al (gate_schema base buffered (nc_name c)) (bs_used st) (nc_name c)
         then buffered_calls al rq base buffered cs st
         else if \<not> buffered_allowed (find_schema (nc_name c) buffered)
         then buffered_calls al rq base buffered cs st
         else (case execute (nc_name c) (JObj (nc_params c)) (call_context al rq) (bs_executor st, bs_state st) of
                 (Inl e, bx', s') \<Rightarrow> (Inl Buffered_error, st\<lparr>bs_executor := bx', bs_state := s'\<rparr>)
               | (Inr r, bx', s') \<Rightarrow>
                   (let st' = st\<lparr>bs_executor := bx', bs_state := s', bs_used := set_add (nc_name c) (bs_used st)\<rparr>
                    in if nc_name c = ''submit_rp_turn''
                       then (Inl (Buffered_outcome (case r of Some v \<Rightarrow> v | None \<Rightarrow> JNull)), st')
                       else buffered_calls al rq base buffered cs
                              (st'\<lparr>bs_messages := bs_messages st @ [tool_message (al_num_text al) (nc_id c) r]\<rparr>))))"

text \<open>Reading a stream up to its first error chunk.\<close>

fun error_seen :: "chunk list \<Rightarrow> bool" where
  "error_seen [] = False"
| "error_seen (Error_chunk c r # cs) = True"
| "error_seen (c # cs) = error_seen cs"

definition text_outcome :: "string \<Rightarrow> (thrown, json) result" where
  "text_outcome txt =
     normalizeRpTurnOutcome (Some (JObj [(''schemaVersion'', JStr ''rp_turn_outcome_v5''), (''publicReply'', JStr txt)]))"

text \<open>
  The second attempt at a structured outcome. The stream is read as before, but a call that
  has ended stays in the table of pending calls: a later delta for its identifier still
  extends it, and a second end lists it again. The calls are kept in a list, the tables hold
  positions in it.
\<close>

record retry_stream =
  ry_calls :: "tool_call list"
  ry_pending :: "(string, nat) js_map"
  ry_completed :: "nat list"

fun retry_chunk :: "chunk \<Rightarrow> retry_stream \<Rightarrow> retry_stream" where
  "retry_chunk (Tool_use_start i n) s =
     s\<lparr>ry_calls := ry_calls s @ [\<lparr>pc_id = i, pc_name = n, pc_argumentsJson = []\<rparr>],
       ry_pending := AList.update i (length (ry_calls s)) (ry_pending s)\<rparr>"
| "retry_chunk (Tool_use_delta i part) s =
     (case map_of (ry_pending s) i of
        Some k \<Rightarrow> s\<lparr>ry_calls := (ry_calls s)[k := add_arguments part (ry_calls s ! k)]\<rparr>
      | None \<Rightarrow> s)"
| "retry_chunk (Tool_use_end i) s =
     (case map_of (ry_pending s) i of
        Some k \<Rightarrow> s\<lparr>ry_completed := ry_completed s @ [k]\<rparr>
      | None \<Rightarrow> s)"
| "retry_chunk _ s = s"

definition with_reply :: "string \<Rightarrow> (string \<times> json) list \<Rightarrow> (string \<times> json) list" where
  "with_reply publicReplyText args =
     (case map_of args ''publicReply'' of
        Some (JStr s) \<Rightarrow>
          if js_trim s = [] then AList.update ''publicReply'' (JStr publicReplyText) args else args
      | _ \<Rightarrow> AList.update ''publicReply'' (JStr publicReplyText) args)"

definition extraction_message :: "string \<Rightarrow> chat_message" where
  "extraction_message publicReplyText =
     \<lparr>cm_role = User_role,
      cm_content = Text_content (''Your publicReply: \"'' @ take 500 publicReplyText @ ''\"'' @ [CHR 0x0A, CHR 0x0A] @
        ''Call submit_rp_turn now. Set publicReply to the exact text above. '' @
        ''Fill latentScratchpad, privateCognition, privateEpisodes based on the conversation.''),
      cm_toolCallId = None\<rparr>"

definition retryStructuredExtraction :: "'w agent_loop \<Rightarrow> string \<Rightarrow> string \<Rightarrow> 'w buffered_state \<Rightarrow>
    json option \<times> 'w buffered_state" where
  "retryStructuredExtraction al publicReplyText systemPrompt st =
     (let (present, bx1) = getSchemas (bs_executor st);
          request = buildCompletionRequest al (bs_messages st @ [extraction_message publicReplyText])
                      systemPrompt present False;
          ((chunks, failure), s1) = al_chat al request (bs_state st);
          st1 = st\<lparr>bs_executor := bx1, bs_state := s1\<rparr>;
          ry = fold retry_chunk chunks \<lparr>ry_calls = [], ry_pending = [], ry_completed = []\<rparr>
      in if error_seen chunks \<or> failure \<noteq> None then (None, st1)
         else (case find (\<lambda>c. pc_name c = ''submit_rp_turn'') (map (\<lambda>k. ry_calls ry ! k) (ry_completed ry)) of
                 None \<Rightarrow> (None, st1)
               | Some call \<Rightarrow>
                   (case parseToolArgs (al_parse al) call of
                      Inl e \<Rightarrow> (None, st1)
                    | Inr args \<Rightarrow>
                        (case execute ''submit_rp_turn'' (JObj (with_reply publicReplyText args))
                                \<lparr>dc_viewerContext = None, dc_sessionId = Some [], dc_agentId = Some (ap_id (al_profile al))\<rparr>
                                (bs_executor st1, bs_state st1) of
                           (Inl e, bx', s') \<Rightarrow> (None, st1\<lparr>bs_executor := bx', bs_state := s'\<rparr>)
                         | (Inr r, bx', s') \<Rightarrow>
                             (Some (case r of Some v \<Rightarrow> v | None \<Rightarrow> JNull), st1\<lparr>bs_executor := bx', bs_state := s'\<rparr>)))))"

definition text_fallback :: "string \<Rightarrow> buffered_result" where
  "text_fallback txt = (case text_outcome txt of Inr v \<Rightarrow> Buffered_outcome v | Inl e \<Rightarrow> Buffered_throws e)"

text \<open>A buffered round, from the message of the assistant on, and the whole round.\<close>

definition buffered_finish :: "'w agent_loop \<Rightarrow> agent_request \<Rightarrow> string \<Rightarrow> tool_schema list \<Rightarrow> tool_schema list \<Rightarrow>
    string \<Rightarrow> normal_call list \<Rightarrow> 'w buffered_state \<Rightarrow> (buffered_result, unit) result \<times> 'w buffered_state" where
  "buffered_finish al rq systemPrompt base buffered reply calls st =
     (if calls = [] then
        (if reply = [] then (Inl Buffered_error, st)
         else (case (if rq_isTalkerMode rq then (None, st)
                     else retryStructuredExtraction al reply systemPrompt st) of
                 (Some v, st') \<Rightarrow> (Inl (Buffered_outcome v), st')
               | (None, st') \<Rightarrow> (Inl (text_fallback reply), st')))
      else (case buffered_calls al rq base buffered calls st of
              (Inl r, st') \<Rightarrow> (Inl r, st')
            | (Inr _, st') \<Rightarrow>
                if reply \<noteq> [] then (Inl (text_fallback reply), st') else (Inr (), st')))"

definition add_message :: "chat_message option \<Rightarrow> 'w buffered_state \<Rightarrow> 'w buffered_state" where
  "add_message m st =
     (case m of None \<Rightarrow> st | Some m \<Rightarrow> st\<lparr>bs_messages := bs_messages st @ [m]\<rparr>)"

definition buffered_round :: "'w agent_loop \<Rightarrow> agent_request \<Rightarrow> string \<Rightarrow> tool_schema list \<Rightarrow> tool_schema list \<Rightarrow>
    'w buffered_state \<Rightarrow> (buffered_result, unit) result \<times> 'w buffered_state" where
  "buffered_round al rq systemPrompt base buffered st =
     (let (present, bx1) = getSchemas (bs_executor st);
          request = buildCompletionRequest al (bs_messages st) systemPrompt present True;
          ((chunks, failure), s1) = al_chat al request (bs_state st);
          st1 = st\<lparr>bs_executor := bx1, bs_state := s1\<rparr>;
          ss = fold read_chunk chunks stream_start
      in if error_seen chunks \<or> failure \<noteq> None then (Inl Buffered_error, st1)
         else (case normalize_calls (al_parse al) (assistantToolBlockIndices ss) (completedToolCalls ss)
                      (assistantBlocks ss) of
                 Inl e \<Rightarrow> (Inl Buffered_error, st1)
               | Inr (calls, blocks) \<Rightarrow>
                   buffered_finish al rq systemPrompt base buffered (assistantText ss) calls
                     (add_message (finalizeAssistantMessage blocks (assistantText ss)) st1)))"

fun buffered_rounds :: "nat \<Rightarrow> 'w agent_loop \<Rightarrow> agent_request \<Rightarrow> string \<Rightarrow> tool_schema list \<Rightarrow> tool_schema list \<Rightarrow>
    'w buffered_state \<Rightarrow> (buffered_result \<times> 'w buffered_state) option" where
  "buffered_rounds 0 al rq systemPrompt base buffered st = None"
| "buffered_rounds (Suc n) al rq systemPrompt base buffered st =
     (case buffered_round al rq systemPrompt base buffered st of
        (Inl r, st') \<Rightarrow> Some (r, st')
      | (Inr _, st') \<Rightarrow> buffered_rounds n al rq systemPrompt base buffered st')"

text \<open>\<open>runBuffered\<close> with at most \<open>n\<close> rounds; \<open>d\<close> and \<open>p\<close> describe the tool that submits.\<close>

definition runBuffered :: "nat \<Rightarrow> string \<Rightarrow> json \<Rightarrow> 'w agent_loop \<Rightarrow> agent_request \<Rightarrow> 'w executor \<times> 'w \<Rightarrow>
    (buffered_result \<times> 'w executor \<times> 'w) option" where
  "runBuffered n d p al rq s =
     (if depth_exceeded al rq
      then Some (Buffered_throws (Maids_error (error DELEGATION_DEPTH_EXCEEDED False)), s)
      else
        (let (listed, ex1) = getSchemas (fst s);
             bx = createBufferedToolExecutor d p listed
         in (case buildInitialPromptState al rq (ex1, snd s) of
               (Inl e, s') \<Rightarrow> Some (Buffered_throws e, s')
             | (Inr (systemPrompt, messages), ex2, w) \<Rightarrow>
                 (let (base, ex3) = getSchemas ex2;
                      (buffered, bx1) = getSchemas bx
                  in map_option (\<lambda>(r, st). (r, bs_state st))
                       (buffered_rounds n al rq systemPrompt base buffered
                          \<lparr>bs_executor = bx1, bs_state = (ex3, w), bs_messages = messages, bs_used = []\<rparr>)))))"

text \<open>The tools of memory as the composition root registers them.\<close>

definition memory_tool :: "tool_schema \<Rightarrow> (json \<Rightarrow> viewer_context \<Rightarrow> 'w \<Rightarrow> (thrown, tool_result) result \<times> 'w) \<Rightarrow>
    'w tool_def" where
  "memory_tool schema handler =
     \<lparr>ts_name = ts_name schema, ts_description = ts_description schema, ts_parameters = ts_parameters schema,
      ts_effectClass = ts_effectClass schema, ts_traceVisibility = ts_traceVisibility schema,
      ts_contract = ts_contract schema, ts_artifacts = None,
      td_execute = (\<lambda>params ctx w.
        (case dc_viewerContext ctx of
           None \<Rightarrow> (Inl Plain_error, w)
         | Some vc \<Rightarrow> handler params vc w))\<rparr>"

end
