(* ===== verification/Agent_Runs.thy ===== *)
theory Agent_Runs
  imports Agent_Loop
begin

text \<open>
  What the agent loop of \<^verbatim>\<open>Agent_Loop\<close> guarantees: which tools a run executes, what its
  results are, and when it does not return.
\<close>

section \<open>What a run may call\<close>

text \<open>
  The executor and the world change only through the model, the prompt builder, the listing
  of schemas, and the tools that pass the gate. \<open>J\<close> is a property of the state and of the
  tools used so far that holds while the loop goes on, \<open>K\<close> one that holds when it has ended.
\<close>

definition permitted :: "'w agent_loop \<Rightarrow> tool_schema option \<Rightarrow> string \<Rightarrow> bool" where
  "permitted al schema n \<longleftrightarrow>
     allowlisted (al_profile al) n \<and>
     capable (Option.bind schema ts_contract)
       (Some (getDefaultPermissions (ap_id (al_profile al)) (ap_role (al_profile al))))"

lemma may_call_permitted: "may_call al schema used n \<Longrightarrow> permitted al schema n"
  by (simp add: may_call_def canExecuteTool_def permitted_def Let_def split: if_splits)

definition once_tool :: "tool_schema option \<Rightarrow> bool" where
  "once_tool schema = (case Option.bind schema ts_contract of Some c \<Rightarrow> tc_cardinality c \<noteq> Multiple | None \<Rightarrow> False)"

lemma may_call_once: "may_call al schema used n \<Longrightarrow> once_tool schema \<Longrightarrow> n \<notin> set used"
  by (simp add: may_call_def canExecuteTool_def within_cardinality_def once_tool_def Let_def
      split: if_splits option.splits)

definition keeps :: "('s \<Rightarrow> string js_set \<Rightarrow> bool) \<Rightarrow> ('s \<Rightarrow> bool) \<Rightarrow> (string js_set \<Rightarrow> string \<Rightarrow> bool) \<Rightarrow>
    (string \<Rightarrow> json \<Rightarrow> dispatch_context \<Rightarrow> 's \<Rightarrow> (thrown, tool_result) result \<times> 's) \<Rightarrow> bool" where
  "keeps J K gate exec \<longleftrightarrow>
     (\<forall>s used. J s used \<longrightarrow> K s) \<and>
     (\<forall>n params ctx s used. J s used \<longrightarrow> gate used n \<longrightarrow>
        (case exec n params ctx s of (Inl e, s') \<Rightarrow> K s' | (Inr r, s') \<Rightarrow> J s' (set_add n used)))"

lemma keeps_end: "keeps J K gate exec \<Longrightarrow> J s used \<Longrightarrow> K s"
  unfolding keeps_def by blast

lemma keeps_mono: "keeps J K g exec \<Longrightarrow> (\<And>used n. g' used n \<Longrightarrow> g used n) \<Longrightarrow> keeps J K g' exec"
  by (simp add: keeps_def)

lemma keeps_exec:
  assumes "keeps J K gate exec" "J s used" "gate used n" "exec n params ctx s = (r, s')"
  shows "(case r of Inl e \<Rightarrow> K s' | Inr v \<Rightarrow> J s' (set_add n used))"
proof -
  have "(case exec n params ctx s of (Inl e, s') \<Rightarrow> K s' | (Inr r, s') \<Rightarrow> J s' (set_add n used))"
    using assms(1-3) by (simp add: keeps_def)
  then show ?thesis using assms(4) by (cases r) simp_all
qed

definition run_ok :: "('w executor \<times> 'w \<Rightarrow> string js_set \<Rightarrow> bool) \<Rightarrow> ('w executor \<times> 'w \<Rightarrow> bool) \<Rightarrow>
    bool \<times> 'w run_state \<Rightarrow> bool" where
  "run_ok J K r = (if fst r then J (st_state (snd r)) (st_used (snd r)) else K (st_state (snd r)))"

lemma run_calls_keeps:
  assumes keeps: "keeps J K (\<lambda>used n. may_call al (find_schema n schemas) used n) execute"
    and "J (st_state st) (st_used st)"
  shows "run_ok J K (run_calls al rq schemas calls st)"
  using assms(2)
proof (induction calls arbitrary: st)
  case Nil
  then show ?case by (simp add: run_ok_def)
next
  case (Cons c cs)
  obtain r s' where x: "execute (nc_name c) (JObj (nc_params c)) (call_context al rq) (st_state st) = (r, s')"
    by (cases "execute (nc_name c) (JObj (nc_params c)) (call_context al rq) (st_state st)")
  show ?case
  proof (cases "may_call al (find_schema (nc_name c) schemas) (st_used st) (nc_name c)")
    case False
    then show ?thesis using keeps_end [OF keeps Cons.prems] by (simp add: yield_all_def run_ok_def)
  next
    case True
    from keeps_exec [OF keeps Cons.prems _ x] True x Cons.IH show ?thesis
      by (cases r) (simp_all add: yield_all_def run_ok_def)
  qed
qed

lemma run_round_keeps:
  assumes keeps: "keeps J K (\<lambda>used n. may_call al (find_schema n schemas) used n) execute"
    and chat: "\<And>rq s used. J s used \<Longrightarrow> J (snd (al_chat al rq s)) used"
    and list: "\<And>ex w used. J (ex, w) used \<Longrightarrow> J (snd (getSchemas ex), w) used"
    and J: "J (st_state st) (st_used st)"
  shows "run_ok J K (run_round al rq sys schemas st)"
proof -
  obtain ex w where s: "st_state st = (ex, w)" by (cases "st_state st")
  let ?r = "buildCompletionRequest al (st_messages st) sys (fst (getSchemas ex)) False"
  obtain chunks failure s1 where c: "al_chat al ?r (snd (getSchemas ex), w) = ((chunks, failure), s1)"
    by (metis surj_pair)
  have "J (snd (getSchemas ex), w) (st_used st)" using list J s by simp
  from chat [OF this, of ?r] c have J1: "J s1 (st_used st)" by simp
  have calls: "run_ok J K (run_calls al rq schemas cs st')"
    if "st_state st' = s1" "st_used st' = st_used st" for cs st'
    using J1 that by (intro run_calls_keeps [OF keeps]) simp
  show ?thesis
    using s c keeps_end [OF keeps J1]
    by (auto simp: run_round_def split_beta Let_def yield_all_def run_ok_def [of _ _ "(_, _)"]
        intro!: calls split: option.split sum.split)
qed

lemma run_rounds_keeps:
  assumes "run_rounds n al rq sys schemas st = Some st'" "J (st_state st) (st_used st)"
    and keeps: "keeps J K (\<lambda>used n. may_call al (find_schema n schemas) used n) execute"
    and chat: "\<And>rq s used. J s used \<Longrightarrow> J (snd (al_chat al rq s)) used"
    and list: "\<And>ex w used. J (ex, w) used \<Longrightarrow> J (snd (getSchemas ex), w) used"
  shows "K (st_state st')"
  using assms(1,2)
proof (induction n arbitrary: st)
  case 0
  then show ?case by simp
next
  case (Suc n)
  have "run_ok J K (run_round al rq sys schemas st)"
    using run_round_keeps [where J = J, OF keeps chat list Suc.prems(2)] .
  then show ?case
    using Suc.IH [of "snd (run_round al rq sys schemas st)"] Suc.prems(1)
    by (cases "run_round al rq sys schemas st") (auto simp: run_ok_def split: bool.splits)
qed

section \<open>The executor of a buffered run\<close>

text \<open>
  It has no servers, its tool \<open>submit_rp_turn\<close> is the one that normalises an outcome, and its
  other tools are those of the loop.
\<close>

definition forwards :: "string \<Rightarrow> json \<Rightarrow> ('w executor \<times> 'w) executor \<Rightarrow> bool" where
  "forwards d p bx \<longleftrightarrow> mcpServers bx = [] \<and>
     (\<forall>n t. map_of (localTools bx) n = Some t \<longrightarrow> n \<noteq> ''submit_rp_turn'' \<longrightarrow>
        ts_name t = n \<and> td_execute t = (\<lambda>params ctx s. execute n params ctx s))"

definition submits :: "string \<Rightarrow> json \<Rightarrow> ('w executor \<times> 'w) executor \<Rightarrow> bool" where
  "submits d p bx \<longleftrightarrow> map_of (localTools bx) ''submit_rp_turn'' = Some (makeSubmitRpTurnTool d p)"

lemma forwards_add:
  "forwards d p bx \<Longrightarrow> forwards d p (registerLocal (forwarding_tool schema) bx)"
  by (auto simp: forwards_def registerLocal_def forwarding_tool_def update_conv')

lemma forwards_foldl:
  "forwards d p bx \<Longrightarrow> forwards d p (foldl (\<lambda>bx schema. registerLocal (forwarding_tool schema) bx) bx schemas)"
  by (induction schemas arbitrary: bx) (simp_all add: forwards_add)

lemma forwards_created: "forwards d p (createBufferedToolExecutor d p schemas)"
proof -
  have "forwards d p (foldl (\<lambda>bx schema. registerLocal (forwarding_tool schema) bx) new_executor schemas)"
    by (rule forwards_foldl) (simp add: forwards_def new_executor_def)
  then show ?thesis
    by (auto simp: createBufferedToolExecutor_def forwards_def registerLocal_def update_conv'
        makeSubmitRpTurnTool_def)
qed

lemma submits_created: "submits d p (createBufferedToolExecutor d p schemas)"
  by (simp add: submits_def createBufferedToolExecutor_def registerLocal_def makeSubmitRpTurnTool_def update_conv')

lemma getSchemas_local: "mcpServers ex = [] \<Longrightarrow> getSchemas ex = (map (tool_schema.truncate \<circ> snd) (localTools ex), ex)"
  by (simp add: getSchemas_def Let_def)

lemma getSchemas_created:
  "snd (getSchemas (createBufferedToolExecutor d p schemas)) = createBufferedToolExecutor d p schemas"
  using forwards_created [of d p schemas] getSchemas_local unfolding forwards_def by (metis snd_conv)

lemma execute_submit:
  "submits d p bx \<Longrightarrow> execute ''submit_rp_turn'' params ctx (bx, s) = (submit_execute params, bx, s)"
  by (simp add: execute_def submits_def run_tool_def makeSubmitRpTurnTool_def)

lemma execute_forward:
  assumes "forwards d p bx" "n \<noteq> ''submit_rp_turn''"
  shows "execute n params ctx (bx, s) =
    (if map_of (localTools bx) n = None then (Inl (Maids_error (error TOOL_ARGUMENT_INVALID False)), bx, s)
     else (case execute n params ctx s of (r, s') \<Rightarrow> (r, bx, s')))"
  using assms
  by (auto simp: execute_def [of n params ctx "(bx, s)"] forwards_def run_tool_def findLoadedRemoteTool_def
      split: option.split prod.split)

section \<open>Buffered runs\<close>

text \<open>The gate of a buffered run: the contract is that of the loop's own tool.\<close>

definition buffered_gate :: "'w agent_loop \<Rightarrow> tool_schema list \<Rightarrow> tool_schema list \<Rightarrow> string js_set \<Rightarrow> string \<Rightarrow> bool" where
  "buffered_gate al base buffered used n \<longleftrightarrow>
     n \<noteq> ''submit_rp_turn'' \<and> buffered_allowed (find_schema n buffered) \<and>
     may_call al (gate_schema base buffered n) used n"

text \<open>A result a run may have: an error, or a normalised outcome.\<close>

definition canonical_result :: "buffered_result \<Rightarrow> bool" where
  "canonical_result r = (case r of
     Buffered_error \<Rightarrow> True
   | Buffered_outcome v \<Rightarrow> (\<exists>raw. normalizeRpTurnOutcome (Some raw) = Inr v)
   | Buffered_throws e \<Rightarrow> False)"

definition buffered_ok :: "('w executor \<times> 'w \<Rightarrow> string js_set \<Rightarrow> bool) \<Rightarrow> ('w executor \<times> 'w \<Rightarrow> bool) \<Rightarrow>
    ('w executor \<times> 'w) executor \<Rightarrow> (buffered_result, unit) result \<times> 'w buffered_state \<Rightarrow> bool" where
  "buffered_ok J K bx r \<longleftrightarrow> bs_executor (snd r) = bx \<and>
     (case fst r of
        Inl v \<Rightarrow> canonical_result v \<and> K (bs_state (snd r))
      | Inr _ \<Rightarrow> J (bs_state (snd r)) (bs_used (snd r)))"

lemma submit_execute_canonical:
  "submit_execute params = Inr (Some v) \<Longrightarrow> canonical_result (Buffered_outcome v)"
  "submit_execute params \<noteq> Inr None"
  by (auto simp: submit_execute_def canonical_result_def split: sum.splits)

lemma buffered_calls_keeps:
  assumes bx: "forwards d p bx" "submits d p bx"
    and keeps: "keeps J K (buffered_gate al base buffered) execute"
    and found: "\<And>n. buffered_allowed (find_schema n buffered) \<Longrightarrow> map_of (localTools bx) n \<noteq> None"
    and "bs_executor st = bx" "J (bs_state st) (bs_used st)"
  shows "buffered_ok J K bx (buffered_calls al rq base buffered calls st)"
  using assms(5,6)
proof (induction calls arbitrary: st)
  case Nil
  then show ?case by (simp add: buffered_ok_def)
next
  case (Cons c cs)
  let ?n = "nc_name c"
  let ?schema = "gate_schema base buffered ?n"
  let ?x = "execute ?n (JObj (nc_params c)) (call_context al rq)"
  show ?case
  proof (cases "may_call al ?schema (bs_used st) ?n \<and> buffered_allowed (find_schema ?n buffered)")
    case False
    then show ?thesis using Cons by (auto simp: Let_def)
  next
    case gate: True
    show ?thesis
    proof (cases "?n = ''submit_rp_turn''")
      case True
      have "?x (bx, bs_state st) = (submit_execute (JObj (nc_params c)), bx, bs_state st)"
        using execute_submit [OF bx(2)] True by simp
      then show ?thesis
        using gate Cons.prems True keeps_end [OF keeps Cons.prems(2)]
        by (cases "submit_execute (JObj (nc_params c))")
          (auto simp: Let_def buffered_ok_def canonical_result_def [of Buffered_error] submit_execute_canonical
            split: option.split)
    next
      case False
      obtain r s' where x: "?x (bs_state st) = (r, s')" by (cases "?x (bs_state st)")
      have "?x (bx, bs_state st) = (r, bx, s')"
        using execute_forward [OF bx(1) False] found gate x by simp
      moreover from keeps_exec [OF keeps Cons.prems(2) _ x] gate False
      have "case r of Inl e \<Rightarrow> K s' | Inr v \<Rightarrow> J s' (set_add ?n (bs_used st))"
        by (simp add: buffered_gate_def)
      ultimately show ?thesis
        using gate False Cons by (cases r) (simp_all add: Let_def buffered_ok_def canonical_result_def)
    qed
  qed
qed

lemma text_outcome_accepted:
  assumes "reply \<noteq> []"
  shows "\<exists>v. text_outcome reply = Inr v"
proof -
  let ?o = "[(''schemaVersion'', JStr ''rp_turn_outcome_v5''), (''publicReply'', JStr reply)]"
  have "blank ''rp_turn_outcome_v5'' = False" by code_simp
  moreover have props: "prop_of (JObj ?o) k = (if k = ''schemaVersion'' then Some (JStr ''rp_turn_outcome_v5'')
      else if k = ''publicReply'' then Some (JStr reply) else None)" for k
    by (simp add: prop_of_def get_prop_def)
  moreover have "normalizeV5Submission (JObj ?o) =
      Inr (canonical_outcome (JObj ?o) reply None [] [] None [] [])"
    unfolding normalizeV5Submission_def props
    using assms by (simp add: normalizePrivateCommit_def normalizePublicationsV5_def
        normalizePrivateEpisodes_def normalizePinnedSummaryProposal_def normalizeRelationIntents_def
        normalizeConflictFactors_def array_or_empty_def bind_ok_def)
  ultimately show ?thesis
    unfolding text_outcome_def normalizeRpTurnOutcome_def by simp
qed

lemma text_fallback_canonical: "reply \<noteq> [] \<Longrightarrow> canonical_result (text_fallback reply)"
  using text_outcome_accepted [of reply]
  by (auto simp: text_fallback_def canonical_result_def text_outcome_def split: sum.splits)

lemma retry_keeps:
  assumes bx: "forwards d p bx" "submits d p bx" "bs_executor st = bx"
    and chat: "\<And>rq s used. J s used \<Longrightarrow> J (snd (al_chat al rq s)) used"
    and "J (bs_state st) (bs_used st)" "retryStructuredExtraction al reply sys st = (v, st')"
  shows "bs_executor st' = bx \<and> J (bs_state st') (bs_used st') \<and>
    (\<forall>x. v = Some x \<longrightarrow> canonical_result (Buffered_outcome x))"
proof -
  let ?r = "buildCompletionRequest al (bs_messages st @ [extraction_message reply]) sys (fst (getSchemas bx)) False"
  obtain chunks failure s1 where c: "al_chat al ?r (bs_state st) = ((chunks, failure), s1)"
    by (metis surj_pair)
  from chat [OF assms(5), of ?r] c have "J s1 (bs_used st)" by simp
  moreover have "snd (getSchemas bx) = bx"
    using bx(1) by (simp add: forwards_def getSchemas_local)
  ultimately show ?thesis
    using assms(6) c
    by (auto simp: submit_execute_canonical bx(3) execute_submit [OF bx(2)] retryStructuredExtraction_def split_beta Let_def split: if_splits option.splits sum.splits prod.splits)
qed

lemma add_message_sel [simp]:
  "bs_executor (add_message m st) = bs_executor st"
  "bs_state (add_message m st) = bs_state st"
  "bs_used (add_message m st) = bs_used st"
  by (simp_all add: add_message_def split: option.split)

lemma buffered_finish_keeps:
  assumes bx: "forwards d p bx" "submits d p bx" "bs_executor st = bx"
    and keeps: "keeps J K (buffered_gate al base buffered) execute"
    and found: "\<And>n. buffered_allowed (find_schema n buffered) \<Longrightarrow> map_of (localTools bx) n \<noteq> None"
    and chat: "\<And>rq s used. J s used \<Longrightarrow> J (snd (al_chat al rq s)) used"
    and J: "J (bs_state st) (bs_used st)"
  shows "buffered_ok J K bx (buffered_finish al rq sys base buffered reply calls st)"
proof (cases "calls = []")
  case True
  obtain v st' where r: "(if rq_isTalkerMode rq then (None, st) else retryStructuredExtraction al reply sys st) = (v, st')"
    by (metis surj_pair)
  have "bs_executor st' = bx \<and> J (bs_state st') (bs_used st') \<and>
      (\<forall>x. v = Some x \<longrightarrow> canonical_result (Buffered_outcome x))"
    using r J bx retry_keeps [where J = J, OF bx chat J] by (auto split: if_splits)
  moreover from this have "K (bs_state st')" using keeps_end [OF keeps] by blast
  ultimately show ?thesis
    using True r J bx(3) keeps_end [OF keeps J] text_fallback_canonical [of reply]
    by (cases v) (auto simp: buffered_finish_def buffered_ok_def canonical_result_def [of Buffered_error])
next
  case False
  have ok: "buffered_ok J K bx (buffered_calls al rq base buffered calls st)"
    using buffered_calls_keeps [OF bx(1,2) keeps found bx(3) J] .
  obtain r st' where "buffered_calls al rq base buffered calls st = (r, st')"
    by (metis surj_pair)
  moreover from this ok have "r = Inr () \<Longrightarrow> K (bs_state st')"
    using keeps_end [OF keeps, of "bs_state st'" "bs_used st'"] by (simp add: buffered_ok_def)
  ultimately show ?thesis
    using ok False text_fallback_canonical [of reply] by (cases r) (auto simp: buffered_finish_def buffered_ok_def)
qed

lemma buffered_round_keeps:
  assumes bx: "forwards d p bx" "submits d p bx" "bs_executor st = bx"
    and keeps: "keeps J K (buffered_gate al base buffered) execute"
    and found: "\<And>n. buffered_allowed (find_schema n buffered) \<Longrightarrow> map_of (localTools bx) n \<noteq> None"
    and chat: "\<And>rq s used. J s used \<Longrightarrow> J (snd (al_chat al rq s)) used"
    and J: "J (bs_state st) (bs_used st)"
  shows "buffered_ok J K bx (buffered_round al rq sys base buffered st)"
proof -
  let ?r = "buildCompletionRequest al (bs_messages st) sys (fst (getSchemas bx)) True"
  obtain chunks failure s1 where c: "al_chat al ?r (bs_state st) = ((chunks, failure), s1)"
    by (metis surj_pair)
  from chat [OF J, of ?r] c have J1: "J s1 (bs_used st)" by simp
  have same: "snd (getSchemas bx) = bx" using bx(1) by (simp add: forwards_def getSchemas_local)
  have finish: "buffered_ok J K bx (buffered_finish al rq sys base buffered reply calls st')"
    if "bs_executor st' = bx" "bs_state st' = s1" "bs_used st' = bs_used st" for reply calls st'
    using that J1 by (intro buffered_finish_keeps [where J = J, OF bx(1,2) _ keeps found chat]) simp_all
  show ?thesis
    using c same keeps_end [OF keeps J1]
    by (auto simp: bx(3) buffered_round_def Let_def split_beta buffered_ok_def [of _ _ _ "(Inl Buffered_error, _)"]
        canonical_result_def intro!: finish split: sum.split)
qed

lemma buffered_rounds_keeps:
  assumes "buffered_rounds n al rq sys base buffered st = Some (r, st')"
    and bx: "forwards d p bx" "submits d p bx" "bs_executor st = bx"
    and keeps: "keeps J K (buffered_gate al base buffered) execute"
    and found: "\<And>n. buffered_allowed (find_schema n buffered) \<Longrightarrow> map_of (localTools bx) n \<noteq> None"
    and chat: "\<And>rq s used. J s used \<Longrightarrow> J (snd (al_chat al rq s)) used"
    and J: "J (bs_state st) (bs_used st)"
  shows "canonical_result r \<and> K (bs_state st')"
  using assms(1) bx(3) J
proof (induction n arbitrary: st)
  case 0
  then show ?case by simp
next
  case (Suc n)
  have "buffered_ok J K bx (buffered_round al rq sys base buffered st)"
    using buffered_round_keeps [where J = J, OF bx(1,2) Suc.prems(2) keeps found chat Suc.prems(3)] .
  then show ?case
    using Suc.IH [of "snd (buffered_round al rq sys base buffered st)"] Suc.prems(1)
    by (cases "buffered_round al rq sys base buffered st") (auto simp: buffered_ok_def split: sum.splits)
qed

section \<open>The guarantees\<close>

lemma find_schema_set: "find_schema n schemas = Some t \<Longrightarrow> t \<in> set schemas \<and> ts_name t = n"
  by (auto simp: find_schema_def find_Some_iff)

lemma find_schema_local:
  assumes "find_schema n (map (tool_schema.truncate \<circ> snd) m) = Some t" "\<And>k u. (k, u) \<in> set m \<Longrightarrow> ts_name u = k"
  shows "\<exists>u. map_of m n = Some u \<and> t = tool_schema.truncate u"
  using assms
proof (induction m)
  case Nil
  then show ?case by (simp add: find_schema_def)
next
  case (Cons a m)
  obtain k u where a: "a = (k, u)" by (cases a)
  have "ts_name u = k" using Cons.prems(2) [of k u] a by simp
  moreover have "ts_name (tool_schema.truncate u) = ts_name u" by (simp add: tool_schema.defs)
  ultimately have step: "find_schema n (map (tool_schema.truncate \<circ> snd) (a # m)) =
      (if k = n then Some (tool_schema.truncate u) else find_schema n (map (tool_schema.truncate \<circ> snd) m))"
    using a by (simp add: find_schema_def)
  show ?case
  proof (cases "k = n")
    case True
    then have "t = tool_schema.truncate u" using step Cons.prems(1) by (metis option.inject)
    then show ?thesis using True a by simp
  next
    case False
    then have "find_schema n (map (tool_schema.truncate \<circ> snd) m) = Some t"
      using step Cons.prems(1) by metis
    from Cons.IH [OF this] Cons.prems(2) have "\<exists>u. map_of m n = Some u \<and> t = tool_schema.truncate u" by simp
    then show ?thesis using False a by simp
  qed
qed

text \<open>A tool is forwarded with the effect class and visibility of a schema that was listed.\<close>

definition listed_tool :: "tool_schema list \<Rightarrow> string \<times> ('w executor \<times> 'w) tool_def \<Rightarrow> bool" where
  "listed_tool listed entry \<longleftrightarrow> ts_name (snd entry) = fst entry \<and> (fst entry = ''submit_rp_turn'' \<or>
     (\<exists>schema \<in> set listed. ts_name schema = fst entry \<and> snd entry = forwarding_tool schema))"

lemma all_update: "P (k, v) \<Longrightarrow> \<forall>x \<in> set m. P x \<Longrightarrow> \<forall>x \<in> set (AList.update k v m). P x"
  by (induction m) auto

lemma listed_foldl:
  assumes "\<forall>x \<in> set (localTools bx). listed_tool listed x" "set schemas \<subseteq> set listed"
  shows "\<forall>x \<in> set (localTools (foldl (\<lambda>bx schema. registerLocal (forwarding_tool schema) bx) bx schemas)).
    listed_tool listed x"
  using assms
proof (induction schemas arbitrary: bx)
  case Nil
  then show ?case by simp
next
  case (Cons t ts)
  have "listed_tool listed (ts_name (forwarding_tool t), forwarding_tool t)"
    using Cons.prems(2) by (auto simp: listed_tool_def forwarding_tool_def)
  then have "\<forall>x \<in> set (localTools (registerLocal (forwarding_tool t) bx)). listed_tool listed x"
    using all_update [of "listed_tool listed"] Cons.prems(1) by (simp add: registerLocal_def)
  then show ?case using Cons.IH Cons.prems(2) by simp
qed

lemma listed_created:
  "\<forall>x \<in> set (localTools (createBufferedToolExecutor d p listed)). listed_tool listed x"
proof -
  let ?t = "makeSubmitRpTurnTool d p"
  have "\<forall>x \<in> set (localTools (foldl (\<lambda>bx schema. registerLocal (forwarding_tool schema) bx) new_executor listed)).
      listed_tool listed x"
    by (rule listed_foldl) (simp_all add: new_executor_def)
  moreover have "listed_tool listed (ts_name ?t, ?t)" by (simp add: listed_tool_def makeSubmitRpTurnTool_def)
  ultimately show ?thesis
    using all_update [of "listed_tool listed"] by (simp add: createBufferedToolExecutor_def registerLocal_def)
qed

definition legacy_read_only :: "tool_schema \<Rightarrow> bool" where
  "legacy_read_only t \<longleftrightarrow> ts_effectClass t = Some Read_only \<or> ts_traceVisibility t = Some Private_runtime"

lemma allowed_listed:
  assumes listed: "\<forall>x \<in> set (localTools bx). listed_tool listed x" and "mcpServers bx = []"
    and "buffered_allowed (find_schema n (fst (getSchemas bx)))"
  shows "map_of (localTools bx) n \<noteq> None"
    and "n \<noteq> ''submit_rp_turn'' \<Longrightarrow> \<exists>t \<in> set listed. ts_name t = n \<and> legacy_read_only t"
proof -
  from assms(3) obtain t where t: "find_schema n (map (tool_schema.truncate \<circ> snd) (localTools bx)) = Some t"
    "buffered_allowed (Some t)"
    using getSchemas_local [OF assms(2)] by (cases "find_schema n (fst (getSchemas bx))") (simp_all add: buffered_allowed_def)
  have "\<And>k u. (k, u) \<in> set (localTools bx) \<Longrightarrow> ts_name u = k" using listed by (auto simp: listed_tool_def)
  from find_schema_local [OF t(1) this] obtain u where u: "map_of (localTools bx) n = Some u" "t = tool_schema.truncate u"
    by blast
  show "map_of (localTools bx) n \<noteq> None" using u(1) by simp
  assume "n \<noteq> ''submit_rp_turn''"
  moreover have "listed_tool listed (n, u)" using u(1) listed by (metis map_of_SomeD)
  ultimately obtain schema where "schema \<in> set listed" "ts_name schema = n" "u = forwarding_tool schema"
    unfolding listed_tool_def by auto
  with t(2) u(2) show "\<exists>t \<in> set listed. ts_name t = n \<and> legacy_read_only t"
    by (auto simp: buffered_allowed_def forwarding_tool_def tool_schema.defs legacy_read_only_def Let_def)
qed

text \<open>What a buffered run that gets past the prompt does.\<close>

definition listed_after_prompt :: "'w agent_loop \<Rightarrow> agent_request \<Rightarrow> 'w executor \<times> 'w \<Rightarrow> tool_schema list" where
  "listed_after_prompt al rq s = fst (getSchemas (fst (snd (buildInitialPromptState al rq s))))"

lemma prompt_keeps:
  assumes "al_build_prompt al = None \<or> (\<forall>ms b s. P s \<longrightarrow> P (snd (the (al_build_prompt al) ms b s)))" "P s"
  shows "P (snd (buildInitialPromptState al rq s))"
  using assms by (cases s) (auto simp: buildInitialPromptState_def split: option.split)

text \<open>
  A buffered run is its rounds, once the prompt is built.
\<close>

definition prompt_fails :: "'w agent_loop \<Rightarrow> agent_request \<Rightarrow> 'w executor \<times> 'w \<Rightarrow> bool" where
  "prompt_fails al rq s \<longleftrightarrow> depth_exceeded al rq \<or> isl (fst (buildInitialPromptState al rq s))"

lemma runBuffered_failed:
  assumes "runBuffered n d p al rq s = Some (r, s')" "prompt_fails al rq (snd (getSchemas (fst s)), snd s)"
  shows "(\<exists>e. r = Buffered_throws e) \<and>
    (s' = s \<or> s' = snd (buildInitialPromptState al rq (snd (getSchemas (fst s)), snd s)))"
  using assms
  by (auto simp: runBuffered_def prompt_fails_def Let_def split_beta isl_def split: if_splits sum.splits prod.splits)

lemma runBuffered_rounds:
  fixes s :: "'w executor \<times> 'w"
  assumes "runBuffered n d p al rq s = Some (r, s')" "\<not> prompt_fails al rq (snd (getSchemas (fst s)), snd s)"
  obtains sys messages st st' base bx where
    "buffered_rounds n al rq sys base (fst (getSchemas bx)) st = Some (r, st')" "s' = bs_state st'"
    "bx = createBufferedToolExecutor d p (fst (getSchemas (fst s)))"
    "base = listed_after_prompt al rq (snd (getSchemas (fst s)), snd s)"
    "st = \<lparr>bs_executor = bx, bs_state = (snd (getSchemas (fst (snd (buildInitialPromptState al rq
        (snd (getSchemas (fst s)), snd s))))), snd (snd (buildInitialPromptState al rq (snd (getSchemas (fst s)), snd s)))),
      bs_messages = messages, bs_used = []\<rparr>"
proof -
  let ?s1 = "(snd (getSchemas (fst s)), snd s)"
  let ?bx = "createBufferedToolExecutor d p (fst (getSchemas (fst s))) :: ('w executor \<times> 'w) executor"
  obtain x s2 where b: "buildInitialPromptState al rq ?s1 = (x, s2)" by (metis surj_pair)
  with assms(2) obtain sys messages where x: "x = Inr (sys, messages)"
    unfolding prompt_fails_def by (cases x) auto
  obtain ex2 w2 where s2: "s2 = (ex2, w2)" by (cases s2)
  have "\<not> depth_exceeded al rq" using assms(2) by (simp add: prompt_fails_def)
  with assms(1) b x s2 obtain st' where
    "buffered_rounds n al rq sys (fst (getSchemas ex2)) (fst (getSchemas ?bx))
      \<lparr>bs_executor = ?bx, bs_state = (snd (getSchemas ex2), w2), bs_messages = messages, bs_used = []\<rparr> = Some (r, st')"
    "s' = bs_state st'"
    by (auto simp: runBuffered_def Let_def split_beta getSchemas_created)
  then show thesis
    using that b s2 by (simp add: listed_after_prompt_def)
qed

lemma runBuffered_keeps:
  assumes run: "runBuffered n d p al rq s = Some (r, s')"
      "\<not> prompt_fails al rq (snd (getSchemas (fst s)), snd s)"
    and keeps: "\<And>buffered. keeps J K
      (\<lambda>used n. n \<noteq> ''submit_rp_turn'' \<and>
        (\<exists>t \<in> set (fst (getSchemas (fst s))). ts_name t = n \<and> legacy_read_only t) \<and>
        may_call al (gate_schema (listed_after_prompt al rq (snd (getSchemas (fst s)), snd s)) buffered n) used n)
      execute"
    and chat: "\<And>rq s used. J s used \<Longrightarrow> J (snd (al_chat al rq s)) used"
    and list: "\<And>ex w used. J (ex, w) used \<Longrightarrow> J (snd (getSchemas ex), w) used"
    and prompt: "al_build_prompt al = None \<or>
      (\<forall>ms b s. J s [] \<longrightarrow> J (snd (the (al_build_prompt al) ms b s)) [])"
    and J: "J s []"
  shows "canonical_result r \<and> K s'"
proof -
  from run obtain sys messages st st' base bx where rounds:
    "buffered_rounds n al rq sys base (fst (getSchemas bx)) st = Some (r, st')" "s' = bs_state st'"
    and bx: "bx = createBufferedToolExecutor d p (fst (getSchemas (fst s)))"
    and base: "base = listed_after_prompt al rq (snd (getSchemas (fst s)), snd s)"
    and st: "st = \<lparr>bs_executor = bx, bs_state = (snd (getSchemas (fst (snd (buildInitialPromptState al rq
        (snd (getSchemas (fst s)), snd s))))), snd (snd (buildInitialPromptState al rq (snd (getSchemas (fst s)), snd s)))),
      bs_messages = messages, bs_used = []\<rparr>"
    by (rule runBuffered_rounds)
  have fwd: "forwards d p bx" and sub: "submits d p bx"
    using forwards_created submits_created bx by blast+
  have no_servers: "mcpServers bx = []" using fwd by (simp add: forwards_def)
  have listed: "\<forall>x \<in> set (localTools bx). listed_tool (fst (getSchemas (fst s))) x"
    unfolding bx by (rule listed_created)
  have "J (snd (getSchemas (fst s)), snd s) []" using list [of "fst s" "snd s"] J by simp
  with prompt_keeps [where P = "\<lambda>s. J s []", OF prompt]
  have "J (snd (buildInitialPromptState al rq (snd (getSchemas (fst s)), snd s))) []" by blast
  then have J0: "J (bs_state st) (bs_used st)"
    using list by (simp add: st)
  have gate: "keeps J K (buffered_gate al base (fst (getSchemas bx))) execute"
  proof (rule keeps_mono [OF keeps [of "fst (getSchemas bx)"]])
    fix used n
    assume "buffered_gate al base (fst (getSchemas bx)) used n"
    then show "n \<noteq> ''submit_rp_turn'' \<and>
        (\<exists>t \<in> set (fst (getSchemas (fst s))). ts_name t = n \<and> legacy_read_only t) \<and>
        may_call al (gate_schema (listed_after_prompt al rq (snd (getSchemas (fst s)), snd s))
          (fst (getSchemas bx)) n) used n"
      using allowed_listed(2) [OF listed no_servers] base by (simp add: buffered_gate_def)
  qed
  have found: "\<And>n. buffered_allowed (find_schema n (fst (getSchemas bx))) \<Longrightarrow> map_of (localTools bx) n \<noteq> None"
    using allowed_listed(1) [OF listed no_servers] by blast
  have "bs_executor st = bx" by (simp add: st)
  with buffered_rounds_keeps [OF rounds(1) fwd sub _ gate found chat J0] show ?thesis
    unfolding rounds(2) by blast
qed

lemma run_keeps:
  assumes run: "run n al rq s = Inr (Some st')"
    and keeps: "keeps J K (\<lambda>used n. may_call al (find_schema n (listed_after_prompt al rq s)) used n) execute"
    and chat: "\<And>rq s used. J s used \<Longrightarrow> J (snd (al_chat al rq s)) used"
    and list: "\<And>ex w used. J (ex, w) used \<Longrightarrow> J (snd (getSchemas ex), w) used"
    and prompt: "al_build_prompt al = None \<or>
      (\<forall>ms b s. J s [] \<longrightarrow> J (snd (the (al_build_prompt al) ms b s)) [])"
    and J: "J s []"
  shows "K (st_state st')"
proof -
  obtain x ex w where b: "buildInitialPromptState al rq s = (x, ex, w)" by (metis surj_pair)
  with run obtain sys messages where x: "x = Inr (sys, messages)"
    by (cases x) (auto simp: run_def split: if_splits)
  have "J (ex, w) []" using prompt_keeps [where P = "\<lambda>s. J s []", OF prompt J, of rq] b by simp
  then have "J (snd (getSchemas ex), w) []" by (rule list)
  moreover from run b x have
    "run_rounds n al rq sys (listed_after_prompt al rq s) (run_start (snd (getSchemas ex), w) messages) = Some st'"
    by (simp add: run_def listed_after_prompt_def split_beta split: if_splits)
  ultimately show ?thesis
    using run_rounds_keeps [where J = J, OF _ _ keeps chat list] by (simp add: run_start_def)
qed

text \<open>
  Property (C25): a buffered run that returns changes the world only through the model, the prompt
  builder and tools that the profile allows and whose listing says that they read or that their
  trace is private to the runtime: whatever these keep holds after the run. A tool listed otherwise
  is never executed, whatever the model asks for.
\<close>

theorem buffered_run_reads_only:
  assumes "runBuffered n d p al rq s = Some (r, s')" "P s"
    and chat: "\<And>rq s. P s \<Longrightarrow> P (snd (al_chat al rq s))"
    and prompt: "al_build_prompt al = None \<or> (\<forall>ms b s. P s \<longrightarrow> P (snd (the (al_build_prompt al) ms b s)))"
    and list: "\<And>ex w. P (ex, w) \<Longrightarrow> P (snd (getSchemas ex), w)"
    and reads: "\<And>t params ctx s'. P s' \<Longrightarrow> t \<in> set (fst (getSchemas (fst s))) \<Longrightarrow> legacy_read_only t \<Longrightarrow>
      allowlisted (al_profile al) (ts_name t) \<Longrightarrow> ts_name t \<noteq> ''submit_rp_turn'' \<Longrightarrow>
      P (snd (execute (ts_name t) params ctx s'))"
  shows "P s'"
proof (cases "prompt_fails al rq (snd (getSchemas (fst s)), snd s)")
  case True
  have "P (snd (getSchemas (fst s)), snd s)" using list [of "fst s" "snd s"] assms(2) by simp
  then have "P (snd (buildInitialPromptState al rq (snd (getSchemas (fst s)), snd s)))"
    by (rule prompt_keeps [OF prompt])
  then show ?thesis using runBuffered_failed [OF assms(1) True] assms(2) by metis
next
  case False
  let ?gate = "\<lambda>buffered used n. n \<noteq> ''submit_rp_turn'' \<and>
      (\<exists>t \<in> set (fst (getSchemas (fst s))). ts_name t = n \<and> legacy_read_only t) \<and>
      may_call al (gate_schema (listed_after_prompt al rq (snd (getSchemas (fst s)), snd s)) buffered n) used n"
  have "keeps (\<lambda>s used. P s) P (?gate buffered) execute" for buffered
    unfolding keeps_def
  proof (intro conjI allI impI)
    fix n params ctx and s' :: "'a executor \<times> 'a" and used
    assume P: "P s'" and g: "?gate buffered used n"
    then have "allowlisted (al_profile al) n" using may_call_permitted unfolding permitted_def by blast
    with g P reads have "P (snd (execute n params ctx s'))" by metis
    then show "case execute n params ctx s' of (Inl e, s') \<Rightarrow> P s' | (Inr r, s') \<Rightarrow> P s'"
      by (auto split: prod.split sum.split)
  qed simp
  from runBuffered_keeps [where J = "\<lambda>s used. P s" and K = P, OF assms(1) False this chat list prompt assms(2)]
  show ?thesis ..
qed

text \<open>
  Property (C27): a buffered run that returns gives an error or an outcome in canonical form. It
  throws only if the delegation is too deep or the prompt cannot be built. Whether it returns
  depends on the model: the loop has no limit of rounds.
\<close>

theorem buffered_outcome_canonical:
  assumes "runBuffered n d p al rq s = Some (r, s')"
  shows "(case r of
      Buffered_error \<Rightarrow> True
    | Buffered_outcome v \<Rightarrow> wf_outcome v
    | Buffered_throws e \<Rightarrow> depth_exceeded al rq \<or>
        isl (fst (buildInitialPromptState al rq (snd (getSchemas (fst s)), snd s))))"
proof (cases "prompt_fails al rq (snd (getSchemas (fst s)), snd s)")
  case True
  then show ?thesis using runBuffered_failed [OF assms True] by (auto simp: prompt_fails_def)
next
  case False
  have "keeps (\<lambda>s used. True) (\<lambda>s. True) gate execute" for gate
    by (auto simp: keeps_def split: sum.split prod.split)
  from runBuffered_keeps [where J = "\<lambda>s used. True" and K = "\<lambda>s. True", OF assms False this]
  have "canonical_result r" by simp
  then show ?thesis
    using outcome_well_formed by (auto simp: canonical_result_def split: buffered_result.splits)
qed

text \<open>
  A measure of the runs of one tool, on states with the invariant \<open>I\<close>: a step keeps it.
\<close>

definition counts :: "('s \<Rightarrow> bool) \<Rightarrow> ('s \<Rightarrow> nat) \<Rightarrow> string \<Rightarrow> (string \<Rightarrow> json \<Rightarrow> dispatch_context \<Rightarrow> 's \<Rightarrow>
    (thrown, tool_result) result \<times> 's) \<Rightarrow> bool" where
  "counts I count tn exec \<longleftrightarrow>
     (\<forall>n params ctx s. I s \<longrightarrow> I (snd (exec n params ctx s)) \<and>
        count (snd (exec n params ctx s)) \<le> count s + (if n = tn then 1 else 0))"

definition steady :: "('s \<Rightarrow> bool) \<Rightarrow> ('s \<Rightarrow> nat) \<Rightarrow> 's \<Rightarrow> 's \<Rightarrow> bool" where
  "steady I count s s' \<longleftrightarrow> (I s \<longrightarrow> I s' \<and> count s' = count s)"

definition counted :: "('s \<Rightarrow> bool) \<Rightarrow> ('s \<Rightarrow> nat) \<Rightarrow> string \<Rightarrow> nat \<Rightarrow> 's \<Rightarrow> string js_set \<Rightarrow> bool" where
  "counted I count tn c s used \<longleftrightarrow> I s \<and> count s \<le> c + (if tn \<in> set used then 1 else 0)"

lemma counted_steady: "steady I count s s' \<Longrightarrow> counted I count tn c s used \<Longrightarrow> counted I count tn c s' used"
  by (simp add: steady_def counted_def)

lemma once_keeps:
  assumes "counts I count tn exec" "\<And>used. gate used tn \<Longrightarrow> tn \<notin> set used"
  shows "keeps (counted I count tn c) (\<lambda>s. count s \<le> c + 1) gate exec"
  unfolding keeps_def
proof (intro conjI allI impI)
  fix s used
  assume "counted I count tn c s used"
  then show "count s \<le> c + 1" by (auto simp: counted_def split: if_splits)
next
  fix n params ctx s used
  assume J: "counted I count tn c s used" and gate: "gate used n"
  obtain r s' where x: "exec n params ctx s = (r, s')" by (metis surj_pair)
  have "I s' \<and> count s' \<le> count s + (if n = tn then 1 else 0)"
    using assms(1) J x unfolding counts_def counted_def by (metis snd_conv)
  then show "case exec n params ctx s of (Inl e, s') \<Rightarrow> count s' \<le> c + 1
      | (Inr r, s') \<Rightarrow> counted I count tn c s' (set_add n used)"
    using J gate assms(2) x by (cases r) (auto simp: counted_def split: if_splits)
qed

lemma once_tool_parts:
  assumes tools: "counts I count tn execute" and "I s"
    and chat: "\<And>rq s. steady I count s (snd (al_chat al rq s))"
    and prompt: "al_build_prompt al = None \<or> (\<forall>ms b s. steady I count s (snd (the (al_build_prompt al) ms b s)))"
    and list: "\<And>ex w. steady I count (ex, w) (snd (getSchemas ex), w)"
  shows "run n al rq s = Inr (Some st') \<Longrightarrow> once_tool (find_schema tn (listed_after_prompt al rq s)) \<Longrightarrow>
      count (st_state st') \<le> count s + 1"
    and "runBuffered n d p al rq s = Some (r, s') \<Longrightarrow>
      once_tool (find_schema tn (listed_after_prompt al rq (snd (getSchemas (fst s)), snd s))) \<Longrightarrow>
      count s' \<le> count s + 1"
proof -
  let ?J = "counted I count tn (count s)"
  let ?K = "\<lambda>s'. count s' \<le> count s + 1"
  have J0: "?J s []" using assms(2) by (simp add: counted_def)
  have chat': "\<And>rq s used. ?J s used \<Longrightarrow> ?J (snd (al_chat al rq s)) used"
    using counted_steady [OF chat] .
  have list': "\<And>ex w used. ?J (ex, w) used \<Longrightarrow> ?J (snd (getSchemas ex), w) used"
    using counted_steady [OF list] .
  have prompt': "al_build_prompt al = None \<or>
      (\<forall>ms b s'. ?J s' [] \<longrightarrow> ?J (snd (the (al_build_prompt al) ms b s')) [])"
    using prompt counted_steady by metis
  show "count (st_state st') \<le> count s + 1"
    if "run n al rq s = Inr (Some st')" "once_tool (find_schema tn (listed_after_prompt al rq s))"
    by (rule run_keeps [where J = ?J and K = ?K, OF that(1) once_keeps [OF tools may_call_once [OF _ that(2)]]
        chat' list' prompt' J0])
  show "count s' \<le> count s + 1"
    if run: "runBuffered n d p al rq s = Some (r, s')"
      and once: "once_tool (find_schema tn (listed_after_prompt al rq (snd (getSchemas (fst s)), snd s)))"
  proof (cases "prompt_fails al rq (snd (getSchemas (fst s)), snd s)")
    case True
    have "?J (snd (getSchemas (fst s)), snd s) []" using list' [of "fst s" "snd s"] J0 by simp
    then have "?J (snd (buildInitialPromptState al rq (snd (getSchemas (fst s)), snd s))) []"
      by (rule prompt_keeps [OF prompt'])
    then show ?thesis using runBuffered_failed [OF run True] by (auto simp: counted_def)
  next
    case False
    have same: "gate_schema (listed_after_prompt al rq (snd (getSchemas (fst s)), snd s)) buffered tn =
        find_schema tn (listed_after_prompt al rq (snd (getSchemas (fst s)), snd s))" for buffered
      using once by (auto simp: gate_schema_def once_tool_def split: option.split)
    have "keeps ?J ?K (\<lambda>used n. n \<noteq> ''submit_rp_turn'' \<and>
        (\<exists>t \<in> set (fst (getSchemas (fst s))). ts_name t = n \<and> legacy_read_only t) \<and>
        may_call al (gate_schema (listed_after_prompt al rq (snd (getSchemas (fst s)), snd s)) buffered n) used n)
      execute" for buffered
    proof (rule once_keeps [OF tools])
      fix used
      assume "tn \<noteq> ''submit_rp_turn'' \<and>
        (\<exists>t \<in> set (fst (getSchemas (fst s))). ts_name t = tn \<and> legacy_read_only t) \<and>
        may_call al (gate_schema (listed_after_prompt al rq (snd (getSchemas (fst s)), snd s)) buffered tn) used tn"
      then show "tn \<notin> set used" using may_call_once [OF _ once] unfolding same by blast
    qed
    from runBuffered_keeps [where J = ?J and K = ?K, OF run False this chat' list' prompt' J0] show ?thesis ..
  qed
qed

text \<open>
  The tool that submits is no tool of the executor: a buffered run adds it. Its first execution
  ends the round, and with it the run, whether it succeeds or fails.
\<close>

definition buffered_admits :: "'w agent_loop \<Rightarrow> tool_schema list \<Rightarrow> tool_schema list \<Rightarrow> string js_set \<Rightarrow> string \<Rightarrow> bool" where
  "buffered_admits al base buffered used n \<longleftrightarrow>
     may_call al (gate_schema base buffered n) used n \<and> buffered_allowed (find_schema n buffered)"

lemma may_call_used: "(n \<in> set used \<longleftrightarrow> n \<in> set used') \<Longrightarrow> may_call al schema used n = may_call al schema used' n"
  by (simp add: may_call_def canExecuteTool_def within_cardinality_def Let_def split: option.split)

lemma submit_ends_calls:
  assumes "c \<in> set calls" "nc_name c = ''submit_rp_turn''"
    and "buffered_admits al base buffered (bs_used bst) (nc_name c)"
  shows "isl (fst (buffered_calls al rq base buffered calls bst))"
  using assms(1,3)
proof (induction calls arbitrary: bst)
  case (Cons c' cs)
  show ?case
  proof (cases "c' = c")
    case True
    with Cons.prems(2) show ?thesis
      by (auto simp: buffered_admits_def assms(2) Let_def split: prod.split sum.split)
  next
    case False
    with Cons.prems(1) have c: "c \<in> set cs" by simp
    show ?thesis
    proof (cases "buffered_admits al base buffered (bs_used bst) (nc_name c')")
      case skipped: False
      with Cons.IH [OF c Cons.prems(2)] show ?thesis by (simp add: buffered_admits_def)
    next
      case True
      obtain r bx' s' where run: "execute (nc_name c') (JObj (nc_params c')) (call_context al rq) (bs_executor bst, bs_state bst) = (r, bx', s')"
        by (cases "execute (nc_name c') (JObj (nc_params c')) (call_context al rq) (bs_executor bst, bs_state bst)") auto
      show ?thesis
      proof (cases "isl r \<or> nc_name c' = ''submit_rp_turn''")
        case ends: True
        then show ?thesis using True run by (cases r) (auto simp: buffered_admits_def Let_def)
      next
        case goes: False
        then obtain v where v: "r = Inr v" "nc_name c' \<noteq> ''submit_rp_turn''" by (cases r) auto
        have "buffered_admits al base buffered (set_add (nc_name c') (bs_used bst)) (nc_name c)"
          using Cons.prems(2) v(2) may_call_used [of "nc_name c" "bs_used bst" "set_add (nc_name c') (bs_used bst)"]
          by (auto simp: buffered_admits_def assms(2))
        with Cons.IH [OF c, of "bst\<lparr>bs_executor := bx', bs_state := s', bs_used := set_add (nc_name c') (bs_used bst),
            bs_messages := bs_messages bst @ [tool_message (al_num_text al) (nc_id c') v]\<rparr>"]
        show ?thesis using True run v by (simp add: buffered_admits_def Let_def)
      qed
    qed
  qed
qed simp

lemma submit_ends_round:
  assumes "c \<in> set calls" "nc_name c = ''submit_rp_turn''" "buffered_admits al base buffered (bs_used bst) (nc_name c)"
  shows "isl (fst (buffered_finish al rq systemPrompt base buffered reply calls bst))"
  using submit_ends_calls [OF assms, of rq] assms(1)
  by (cases "buffered_calls al rq base buffered calls bst") (auto simp: buffered_finish_def split: sum.split)

text \<open>
  Property (C24): a tool of the executor with cardinality \<open>once\<close> or \<open>at_most_once\<close> runs at
  most once in a run that returns, streaming or buffered. \<open>count\<close> stands for the runs of the
  tool \<open>tn\<close>: it grows by at most one in a call of \<open>tn\<close> and does not change otherwise. The tool
  that submits is added by the buffered run itself: once the model asks for it and the gate
  admits it, the round ends the run, so it runs at most once too.
\<close>

theorem once_tool_runs_once:
  assumes "counts I count tn execute" and "I s"
    and "\<And>rq s. steady I count s (snd (al_chat al rq s))"
    and "al_build_prompt al = None \<or> (\<forall>ms b s. steady I count s (snd (the (al_build_prompt al) ms b s)))"
    and "\<And>ex w. steady I count (ex, w) (snd (getSchemas ex), w)"
  shows "(run n al rq s = Inr (Some st') \<and> once_tool (find_schema tn (listed_after_prompt al rq s)) \<longrightarrow>
      count (st_state st') \<le> count s + 1) \<and>
    (runBuffered n d p al rq s = Some (r, s') \<and>
      once_tool (find_schema tn (listed_after_prompt al rq (snd (getSchemas (fst s)), snd s))) \<longrightarrow>
      count s' \<le> count s + 1) \<and>
    (''submit_rp_turn'' \<in> set (map nc_name calls) \<and>
      buffered_admits al base buffered (bs_used bst) ''submit_rp_turn'' \<longrightarrow>
      isl (fst (buffered_finish al rq systemPrompt base buffered reply calls bst)))"
proof -
  have "isl (fst (buffered_finish al rq systemPrompt base buffered reply calls bst))"
    if "''submit_rp_turn'' \<in> set (map nc_name calls) \<and> buffered_admits al base buffered (bs_used bst) ''submit_rp_turn''"
  proof -
    from that obtain c where c: "c \<in> set calls" "nc_name c = ''submit_rp_turn''" by auto
    with that show ?thesis by (intro submit_ends_round [OF c]) simp
  qed
  with once_tool_parts [OF assms] show ?thesis by blast
qed

section \<open>Tools of memory, and models that ask for refused tools\<close>

lemma memory_tool_fails:
  assumes "map_of (localTools (fst s)) n = Some (memory_tool schema handler)" "dc_viewerContext ctx = None"
  shows "execute n params ctx s = (Inl Plain_error, s)"
  using assms by (cases s) (simp add: execute_def run_tool_def memory_tool_def)

lemma memory_tools_parts:
  assumes "map_of (localTools (fst s)) (nc_name c) = Some (memory_tool schema handler)"
  shows "st_state st = s \<Longrightarrow> may_call al (find_schema (nc_name c) schemas) (st_used st) (nc_name c) \<Longrightarrow>
      run_calls al rq schemas (c # cs) st =
        (False, yield_all [Tool_execution_result (nc_id c) (nc_name c) None True, Error_chunk MCP_TOOL_ERROR False] st)"
    and "bs_state bst = s \<Longrightarrow> forwards d p (bs_executor bst) \<Longrightarrow>
      buffered_gate al base buffered (bs_used bst) (nc_name c) \<Longrightarrow>
      buffered_calls al rq base buffered (c # cs) bst = (Inl Buffered_error, bst)"
proof -
  have fails: "execute (nc_name c) params (call_context al rq) s = (Inl Plain_error, s)" for params
    using assms by (rule memory_tool_fails) (simp add: call_context_def)
  show "run_calls al rq schemas (c # cs) st =
      (False, yield_all [Tool_execution_result (nc_id c) (nc_name c) None True, Error_chunk MCP_TOOL_ERROR False] st)"
    if "st_state st = s" "may_call al (find_schema (nc_name c) schemas) (st_used st) (nc_name c)"
  proof -
    have same: "st\<lparr>st_state := s\<rparr> = st" using that(1) by auto
    show ?thesis using that fails by (simp add: same wrapError_def error_yield_def)
  qed
  show "buffered_calls al rq base buffered (c # cs) bst = (Inl Buffered_error, bst)"
    if "bs_state bst = s" "forwards d p (bs_executor bst)"
      and gate: "buffered_gate al base buffered (bs_used bst) (nc_name c)"
  proof -
    have "execute (nc_name c) params (call_context al rq) (bs_executor bst, bs_state bst) =
        (Inl (if map_of (localTools (bs_executor bst)) (nc_name c) = None
              then Maids_error (error TOOL_ARGUMENT_INVALID False) else Plain_error), bs_executor bst, bs_state bst)" for params
      using execute_forward [OF that(2)] gate fails that(1) by (simp add: buffered_gate_def)
    moreover have "bst\<lparr>bs_executor := bs_executor bst, bs_state := bs_state bst\<rparr> = bst" by simp
    ultimately show ?thesis using gate by (simp add: buffered_gate_def)
  qed
qed

text \<open>
  Property (C29): the loop gives no viewer context to a tool, and the tools of memory, as they
  are registered, need one. The first call of such a tool that passes the gate ends the run
  with \<open>MCP_TOOL_ERROR\<close>, and a buffered run with an error; nothing is read.
\<close>

theorem memory_tools_always_fail:
  assumes "map_of (localTools (fst s)) (nc_name c) = Some (memory_tool schema handler)"
  shows "(st_state st = s \<and> may_call al (find_schema (nc_name c) schemas) (st_used st) (nc_name c) \<longrightarrow>
      run_calls al rq schemas (c # cs) st =
        (False, yield_all [Tool_execution_result (nc_id c) (nc_name c) None True, Error_chunk MCP_TOOL_ERROR False] st)) \<and>
    (bs_state bst = s \<and> forwards d p (bs_executor bst) \<and> buffered_gate al base buffered (bs_used bst) (nc_name c) \<longrightarrow>
      buffered_calls al rq base buffered (c # cs) bst = (Inl Buffered_error, bst))"
  using memory_tools_parts [OF assms] by blast

text \<open>A model that answers every request with one call of a tool that is not allowed, and no text.\<close>

definition asks_for :: "string \<Rightarrow> 'w agent_loop \<Rightarrow> bool" where
  "asks_for n al \<longleftrightarrow> (\<forall>rq s. fst (al_chat al rq s) = ([Tool_use_start ''call'' n, Tool_use_end ''call''], None))"

lemma refused_round:
  assumes "asks_for n al" "\<not> allowlisted (al_profile al) n"
  shows "\<exists>st'. buffered_round al rq sys base buffered st = (Inr (), st')"
proof -
  let ?r = "buildCompletionRequest al (bs_messages st) sys (fst (getSchemas (bs_executor st))) True"
  obtain s1 where "al_chat al ?r (bs_state st) = (([Tool_use_start ''call'' n, Tool_use_end ''call''], None), s1)"
    using assms(1) unfolding asks_for_def by (metis prod.collapse)
  moreover have "js_trim [] = []" by (simp add: js_trim_def)
  moreover have "\<not> may_call al schema used n" for schema used
    using assms(2) by (simp add: may_call_def canExecuteTool_def)
  ultimately show ?thesis
    by (simp add: buffered_round_def split_beta stream_start_def parseToolArgs_def buffered_finish_def)
qed

lemma refused_rounds:
  assumes "asks_for n al" "\<not> allowlisted (al_profile al) n"
  shows "buffered_rounds k al rq sys base buffered st = None"
proof (induction k arbitrary: st)
  case (Suc k)
  obtain st' where "buffered_round al rq sys base buffered st = (Inr (), st')"
    using refused_round [OF assms] by blast
  with Suc show ?case by simp
qed simp

lemma buffered_run_parts:
  assumes "\<not> prompt_fails al rq (snd (getSchemas (fst s)), snd s)"
  shows "asks_for n al \<Longrightarrow> \<not> allowlisted (al_profile al) n \<Longrightarrow> runBuffered k d p al rq s = None"
    and "(\<And>rq s. case fst (al_chat al rq s) of (chunks, failure) \<Rightarrow> error_seen chunks \<or> failure \<noteq> None \<or>
        assistantText (fold read_chunk chunks stream_start) \<noteq> []) \<Longrightarrow>
      runBuffered (Suc k) d p al rq s \<noteq> None"
proof -
  obtain x ex w where b: "buildInitialPromptState al rq (snd (getSchemas (fst s)), snd s) = (x, ex, w)"
    by (metis surj_pair)
  with assms obtain sys messages where x: "x = Inr (sys, messages)"
    unfolding prompt_fails_def by (cases x) auto
  have depth: "\<not> depth_exceeded al rq" using assms by (simp add: prompt_fails_def)
  show "runBuffered k d p al rq s = None" if "asks_for n al" "\<not> allowlisted (al_profile al) n"
    using b x depth refused_rounds [OF that] by (simp add: runBuffered_def Let_def split_beta)
  show "runBuffered (Suc k) d p al rq s \<noteq> None"
    if answers: "\<And>rq s. case fst (al_chat al rq s) of (chunks, failure) \<Rightarrow> error_seen chunks \<or> failure \<noteq> None \<or>
        assistantText (fold read_chunk chunks stream_start) \<noteq> []"
  proof -
    have "isl (fst (buffered_round al rq sys base buffered st))" for base buffered st
    proof -
      let ?r = "buildCompletionRequest al (bs_messages st) sys (fst (getSchemas (bs_executor st))) True"
      obtain chunks failure s1 where c: "al_chat al ?r (bs_state st) = ((chunks, failure), s1)" by (metis surj_pair)
      with answers [of ?r "bs_state st"] show ?thesis
        by (auto simp: buffered_round_def split_beta Let_def buffered_finish_def split: sum.split option.split)
    qed
    then have "buffered_rounds (Suc k) al rq sys base buffered st \<noteq> None" for base buffered st
      by (auto simp: split_beta isl_def split: sum.split)
        (metis sum.distinct(1))
    then show ?thesis using b x depth by (simp add: runBuffered_def Let_def split_beta del: buffered_rounds.simps)
  qed
qed

text \<open>
  The buffered loop has no bound of its own. If the model keeps asking for a
  tool that is refused and writes no text, the run never returns; if it answers every request
  with an error or with text, the run returns after one round.
\<close>

theorem buffered_run_unbounded:
  assumes "\<not> prompt_fails al rq (snd (getSchemas (fst s)), snd s)"
  shows "(asks_for n al \<and> \<not> allowlisted (al_profile al) n \<longrightarrow> runBuffered k d p al rq s = None) \<and>
    ((\<forall>rq s. case fst (al_chat al rq s) of (chunks, failure) \<Rightarrow> error_seen chunks \<or> failure \<noteq> None \<or>
        assistantText (fold read_chunk chunks stream_start) \<noteq> []) \<longrightarrow>
      runBuffered (Suc k) d p al rq s \<noteq> None)"
  using buffered_run_parts [OF assms] by blast

section \<open>Examples\<close>

text \<open>
  An agent for role play whose executor holds a tool that writes and one that reads; the
  world counts the writes, and the model asks for both and then for a tool it may not use.
\<close>

definition sample_tool :: "string \<Rightarrow> effect_class \<Rightarrow> cardinality_rule \<Rightarrow> nat tool_def" where
  "sample_tool n effect rule =
     \<lparr>ts_name = n, ts_description = n, ts_parameters = JNull, ts_effectClass = Some effect,
      ts_traceVisibility = Some Public_trace,
      ts_contract = Some \<lparr>tc_effect_type = (if effect = Read_only then Effect_read_only else Write_private),
        tc_turn_phase = In_turn, tc_cardinality = rule, tc_capabilities = None, tc_trace_visibility = Public_trace\<rparr>,
      ts_artifacts = None,
      td_execute = (\<lambda>params ctx w. (Inr (Some JNull), if effect = Read_only then w else w + 1))\<rparr>"

definition sample_executor :: "nat executor" where
  "sample_executor =
     \<lparr>localTools = [(''core_memory_append'', sample_tool ''core_memory_append'' Immediate_write Once),
        (''memory_read'', sample_tool ''memory_read'' Read_only Multiple)], mcpServers = []\<rparr>"

definition sample_loop :: "agent_profile \<Rightarrow> string list \<Rightarrow> string \<Rightarrow> nat agent_loop" where
  "sample_loop profile wanted reply =
     \<lparr>al_profile = profile,
      al_chat = (\<lambda>rq s. (((if reply = [] then [] else [Text_delta reply]) @
        concat (map (\<lambda>n. [Tool_use_start ''call'' n, Tool_use_end ''call'']) wanted), None), s)),
      al_build_prompt = None, al_parse = (\<lambda>_. None), al_num_text = (\<lambda>_. ''0''), al_maxDelegationDepth = None\<rparr>"

definition sample_request :: agent_request where
  "sample_request = \<lparr>rq_sessionId = ''s'', rq_requestId = ''r'', rq_messages = [], rq_delegationDepth = None,
     rq_isTalkerMode = True\<rparr>"

definition sample_world :: "nat executor \<times> nat" where
  "sample_world = (sample_executor, 0)"

definition open_profile :: agent_profile where
  "open_profile = RP_AGENT_PROFILE\<lparr>ap_toolPermissions := []\<rparr>"

abbreviation sample_buffered :: "(buffered_result \<times> nat executor \<times> nat) option" where
  "sample_buffered \<equiv> runBuffered 2 [] JNull
     (sample_loop open_profile [''core_memory_append'', ''memory_read''] ''hi'') sample_request sample_world"

lemma sample_runs:
  "map_option fst sample_buffered =
   Some (case text_outcome ''hi'' of Inr v \<Rightarrow> Buffered_outcome v | Inl e \<Rightarrow> Buffered_throws e)"
  by code_simp

lemma sample_schemas:
  "getSchemas sample_executor =
     ([tool_schema.truncate (sample_tool ''core_memory_append'' Immediate_write Once),
       tool_schema.truncate (sample_tool ''memory_read'' Read_only Multiple)], sample_executor)"
  by (simp add: sample_executor_def getSchemas_def Let_def)

lemma sample_execute:
  "execute n params ctx (sample_executor, w) =
     (if n = ''core_memory_append'' then (Inr (Some JNull), sample_executor, w + 1)
      else if n = ''memory_read'' then (Inr (Some JNull), sample_executor, w)
      else (Inl (Maids_error (error TOOL_ARGUMENT_INVALID False)), sample_executor, w))"
  by (simp add: execute_def sample_executor_def findLoadedRemoteTool_def run_tool_def sample_tool_def)

theorem buffered_run_reads_only_witness:
  "map_option snd sample_buffered = Some sample_world"
proof -
  obtain r s' where run: "sample_buffered = Some (r, s')"
    using sample_runs by (cases sample_buffered) auto
  have "s' = sample_world"
    by (rule buffered_run_reads_only [OF run, where P = "\<lambda>s. s = sample_world"])
      (auto simp: sample_loop_def sample_world_def sample_schemas sample_execute legacy_read_only_def
        sample_tool_def tool_schema.defs)
  with run show ?thesis by simp
qed

theorem buffered_outcome_canonical_witness:
  "(case sample_buffered of Some (Buffered_outcome v, _) \<Rightarrow> wf_outcome v | _ \<Rightarrow> False)"
proof -
  obtain v where v: "text_outcome ''hi'' = Inr v" using text_outcome_accepted [of "''hi''"] by auto
  obtain r s' where run: "sample_buffered = Some (r, s')"
    using sample_runs by (cases sample_buffered) auto
  with sample_runs v have "r = Buffered_outcome v" by simp
  with buffered_outcome_canonical [OF run] run show ?thesis by simp
qed

theorem once_tool_runs_once_witness:
  "(case run 3 (sample_loop open_profile [''core_memory_append'', ''core_memory_append''] []) sample_request sample_world of
      Inr (Some st) \<Rightarrow> snd (st_state st) \<le> 1 | _ \<Rightarrow> False)"
proof -
  let ?al = "sample_loop open_profile [''core_memory_append'', ''core_memory_append''] []"
  let ?run = "run 3 ?al sample_request sample_world"
  have "(case ?run of Inr (Some st) \<Rightarrow> True | _ \<Rightarrow> False)" by code_simp
  then obtain st where run: "?run = Inr (Some st)" by (auto split: sum.splits option.splits)
  have once: "once_tool (find_schema ''core_memory_append'' (listed_after_prompt ?al sample_request sample_world))"
    by code_simp
  have "snd (st_state st) \<le> snd sample_world + 1"
    by (rule once_tool_runs_once [where I = "\<lambda>s. fst s = sample_executor" and tn = "''core_memory_append''",
          THEN conjunct1, THEN mp, OF _ _ _ _ _ conjI [OF run once]])
      (auto simp: counts_def steady_def sample_world_def sample_loop_def sample_execute sample_schemas)
  with run show ?thesis by (simp add: sample_world_def)
qed

text \<open>The first call of a run in which a tool of memory is registered.\<close>

definition memory_schema :: tool_schema where
  "memory_schema = tool_schema.truncate (sample_tool ''memory_read'' Read_only Multiple)"

definition memory_executor :: "nat executor" where
  "memory_executor = registerLocal (memory_tool memory_schema (\<lambda>params vc w. (Inr (Some JNull), w + 1))) new_executor"

definition memory_call :: normal_call where
  "memory_call = \<lparr>nc_id = ''call'', nc_name = ''memory_read'', nc_params = []\<rparr>"

definition memory_buffered :: "(nat executor \<times> nat) executor" where
  "memory_buffered = createBufferedToolExecutor [] JNull [memory_schema]"

theorem memory_tools_always_fail_witness:
  "run_calls (sample_loop RP_AGENT_PROFILE [] []) sample_request [memory_schema] [memory_call]
      (run_start (memory_executor, 0) []) =
     (False, yield_all [Tool_execution_result ''call'' ''memory_read'' None True, Error_chunk MCP_TOOL_ERROR False]
        (run_start (memory_executor, 0) [])) \<and>
   fst (buffered_calls (sample_loop RP_AGENT_PROFILE [] []) sample_request [memory_schema]
      (fst (getSchemas memory_buffered)) [memory_call]
      \<lparr>bs_executor = memory_buffered, bs_state = (memory_executor, 0),
       bs_messages = [], bs_used = []\<rparr>) = Inl Buffered_error"
proof -
  let ?al = "sample_loop RP_AGENT_PROFILE [] []"
  let ?bx = memory_buffered
  let ?b = "fst (getSchemas memory_buffered)"
  have fwd: "forwards [] JNull ?bx" unfolding memory_buffered_def by (rule forwards_created)
  have reg: "map_of (localTools (fst (memory_executor, 0::nat))) (nc_name memory_call) =
      Some (memory_tool memory_schema (\<lambda>params vc w. (Inr (Some JNull), w + 1)))"
    by (simp add: memory_executor_def registerLocal_def new_executor_def memory_call_def memory_tool_def
        memory_schema_def sample_tool_def tool_schema.defs)
  have gates: "may_call ?al (find_schema (nc_name memory_call) [memory_schema]) [] (nc_name memory_call)"
    "buffered_gate ?al [memory_schema] ?b [] (nc_name memory_call)"
    by code_simp+
  show ?thesis
    using memory_tools_always_fail [OF reg, THEN conjunct1, of "run_start (memory_executor, 0) []" ?al "[memory_schema]" sample_request "[]"]
      memory_tools_always_fail [OF reg, THEN conjunct2, of "\<lparr>bs_executor = ?bx, bs_state = (memory_executor, 0),
        bs_messages = [], bs_used = []\<rparr>" "[]" JNull ?al "[memory_schema]" ?b sample_request "[]"]
      gates fwd
    by (simp add: run_start_def memory_call_def)
qed

theorem buffered_run_unbounded_witness:
  "runBuffered 100 [] JNull (sample_loop RP_AGENT_PROFILE [''core_memory_append''] []) sample_request sample_world = None \<and>
   runBuffered 1 [] JNull (sample_loop RP_AGENT_PROFILE [] ''hi'') sample_request sample_world \<noteq> None"
proof
  have starts: "\<not> prompt_fails (sample_loop RP_AGENT_PROFILE wanted reply) sample_request
      (snd (getSchemas (fst sample_world)), snd sample_world)" for wanted reply
    by (simp add: prompt_fails_def depth_exceeded_def sample_loop_def sample_request_def buildInitialPromptState_def)
  have "\<not> allowlisted RP_AGENT_PROFILE ''core_memory_append''" by code_simp
  then show "runBuffered 100 [] JNull (sample_loop RP_AGENT_PROFILE [''core_memory_append''] []) sample_request sample_world = None"
    by (intro buffered_run_unbounded [OF starts, where n = "''core_memory_append''", THEN conjunct1, THEN mp])
      (simp add: asks_for_def sample_loop_def)
  have "runBuffered (Suc 0) [] JNull (sample_loop RP_AGENT_PROFILE [] ''hi'') sample_request sample_world \<noteq> None"
    by (rule buffered_run_unbounded [OF starts, THEN conjunct2, THEN mp]) (simp add: sample_loop_def stream_start_def)
  then show "runBuffered 1 [] JNull (sample_loop RP_AGENT_PROFILE [] ''hi'') sample_request sample_world \<noteq> None"
    by simp
qed

end
