(* ===== verification/Delegation.thy ===== *)
theory Delegation
  imports Agents Blackboard Commit_Service
begin

text \<open>
  Delegation from one agent to another (\<^verbatim>\<open>src/agents/maiden/delegation.ts\<close>) and the decision to
  delegate (\<^verbatim>\<open>decision-policy.ts\<close>): the check against the registry, the entry on the blackboard
  and the record in the interaction log. The identifier of the delegation and the times are
  arguments, and so are the operations of the log, if the coordinator has a commit service.
\<close>

section \<open>The decision\<close>

record run_context =
  rc_runId :: string
  rc_sessionId :: string
  rc_agentId :: string
  rc_profile :: agent_profile
  rc_requestId :: string
  rc_delegationDepth :: int

datatype decision = Direct_reply | Delegate string

definition isRpAgentId :: "string \<Rightarrow> bool" where
  "isRpAgentId agentId = prefix ''rp:'' agentId"

definition decide :: "string \<Rightarrow> run_context \<Rightarrow> string list \<Rightarrow> decision" where
  "decide userMessage rc availableAgentIds =
     (if rc_delegationDepth rc \<ge> ap_maxDelegationDepth (rc_profile rc) then Direct_reply
      else if length userMessage > 10 then
        (case find isRpAgentId availableAgentIds of
           Some rpTarget \<Rightarrow> Delegate rpTarget
         | None \<Rightarrow> Direct_reply)
      else Direct_reply)"

section \<open>The coordinator\<close>

definition delegation_context :: "string \<Rightarrow> int \<Rightarrow> run_context \<Rightarrow> string \<Rightarrow> string \<Rightarrow> json option \<Rightarrow> json" where
  "delegation_context delegationId now rc targetAgentId toProfileId taskInput =
     JObj ([(''delegationId'', JStr delegationId), (''fromAgentId'', JStr (rc_agentId rc)),
            (''toAgentId'', JStr targetAgentId), (''toProfileId'', JStr toProfileId),
            (''requestId'', JStr (rc_requestId rc)), (''sessionId'', JStr (rc_sessionId rc)),
            (''createdAt'', JNum (Fin (of_int now)))] @
           (case taskInput of Some v \<Rightarrow> [(''taskInput'', v)] | None \<Rightarrow> []))"

definition delegation_input :: "string \<Rightarrow> run_context \<Rightarrow> string \<Rightarrow> json option \<Rightarrow> commit_input" where
  "delegation_input delegationId rc targetAgentId taskInput =
     \<lparr>ci_sessionId = rc_sessionId rc, ci_actorType = ''maiden'', ci_recordType = ''delegation'',
      ci_payload = JObj [(''delegationId'', JStr delegationId), (''fromAgentId'', JStr (rc_agentId rc)),
        (''toAgentId'', JStr targetAgentId), (''input'', or_else taskInput JNull), (''status'', JStr ''started'')],
      ci_correlatedTurnId = Some (rc_requestId rc)\<rparr>"

definition coordinate :: "'s log_ops option \<Rightarrow> string \<Rightarrow> int \<Rightarrow> string \<times> int \<Rightarrow> run_context \<Rightarrow> string \<Rightarrow> json option \<Rightarrow>
    registry \<Rightarrow> blackboard \<times> 's \<Rightarrow> (thrown, string \<times> json) result \<times> blackboard \<times> 's" where
  "coordinate commitService delegationId now env rc targetAgentId taskInput reg st =
     (case map_of reg targetAgentId of
        None \<Rightarrow> (Inl (Maids_error (error AGENT_NOT_FOUND False)), st)
      | Some target \<Rightarrow>
          if \<not> canDelegate (rc_agentId rc) targetAgentId reg
          then (Inl (Maids_error (error DELEGATION_DEPTH_EXCEEDED False)), st)
          else
            (let entry = delegation_context delegationId now rc targetAgentId (ap_id target) taskInput
             in (case bb_set (''delegation.'' @ delegationId) entry (Some ''maiden'') (Some (rc_sessionId rc)) (fst st) of
                   (Inl e, b) \<Rightarrow> (Inl (Maids_error e), b, snd st)
                 | (Inr _, b) \<Rightarrow>
                     (case commitService of
                        None \<Rightarrow> (Inr (delegationId, entry), b, snd st)
                      | Some ops \<Rightarrow>
                          (case commit ops (delegation_input delegationId rc targetAgentId taskInput)
                                  (fst env) (snd env) (snd st) of
                             (Inl e, s') \<Rightarrow> (Inl e, b, s')
                           | (Inr _, s') \<Rightarrow> (Inr (delegationId, entry), b, s'))))))"

section \<open>What delegation does\<close>

lemma delegation_write:
  "\<exists>b'. bb_set (''delegation.'' @ i) v (Some ''maiden'') (Some sid) b = (Inr (), b') \<and>
     (\<forall>k. bb_get k b' = (if k = ''delegation.'' @ i then Some v else bb_get k b))"
proof -
  have "validateKey (''delegation.'' @ i) = Inr (V1_NAMESPACES ! 1)"
    by (simp add: validateKey_def resolveNamespace_def V1_NAMESPACES_def)
  moreover have "validateOwnership (V1_NAMESPACES ! 1) (Some ''maiden'') = Inr ()"
    by (simp add: validateOwnership_def V1_NAMESPACES_def)
  ultimately show ?thesis
    by (auto simp: bb_set_def bb_get_def update_conv' assignKeyToSession_def drop_from_session_def Let_def
        split: option.split)
qed

lemma canDelegate_iff:
  "canDelegate a b reg \<longleftrightarrow> (\<exists>p q. map_of reg a = Some p \<and> map_of reg b = Some q \<and>
     (ap_role p = Maiden \<or> ap_role p = Rp_agent \<and> ap_role q = Task_agent))"
  by (auto simp: canDelegate_def split: option.splits agent_role.splits)

lemma delegation_parts:
  shows "(case coordinate commitService i now env rc target taskInput reg (b, st) of (res, b', st') \<Rightarrow>
      if map_of reg target = None then res = Inl (Maids_error (error AGENT_NOT_FOUND False)) \<and> b' = b \<and> st' = st
      else if \<not> canDelegate (rc_agentId rc) target reg
      then res = Inl (Maids_error (error DELEGATION_DEPTH_EXCEEDED False)) \<and> b' = b \<and> st' = st
      else
        (\<exists>entry. (\<forall>k. bb_get k b' = (if k = ''delegation.'' @ i then Some entry else bb_get k b)) \<and>
           (case commitService of
              None \<Rightarrow> res = Inr (i, entry) \<and> st' = st
            | Some ops \<Rightarrow>
                (case commit ops (delegation_input i rc target taskInput) (fst env) (snd env) st of
                   (Inl e, s') \<Rightarrow> res = Inl e \<and> st' = s'
                 | (Inr r, s') \<Rightarrow> res = Inr (i, entry) \<and> st' = s'))))"
    and "coordinate commitService i now env (rc\<lparr>rc_delegationDepth := depth\<rparr>) target taskInput reg (b, st) =
      coordinate commitService i now env rc target taskInput reg (b, st)"
    and "map_of reg a = Some p \<and> ap_role p = Maiden \<and> map_of reg target \<noteq> None \<longrightarrow> canDelegate a target reg"
    and "canDelegate a target reg \<and> canDelegate target c reg \<longrightarrow> (\<exists>p. map_of reg a = Some p \<and> ap_role p = Maiden)"
proof -
  show "(case coordinate commitService i now env rc target taskInput reg (b, st) of (res, b', st') \<Rightarrow>
      if map_of reg target = None then res = Inl (Maids_error (error AGENT_NOT_FOUND False)) \<and> b' = b \<and> st' = st
      else if \<not> canDelegate (rc_agentId rc) target reg
      then res = Inl (Maids_error (error DELEGATION_DEPTH_EXCEEDED False)) \<and> b' = b \<and> st' = st
      else
        (\<exists>entry. (\<forall>k. bb_get k b' = (if k = ''delegation.'' @ i then Some entry else bb_get k b)) \<and>
           (case commitService of
              None \<Rightarrow> res = Inr (i, entry) \<and> st' = st
            | Some ops \<Rightarrow>
                (case commit ops (delegation_input i rc target taskInput) (fst env) (snd env) st of
                   (Inl e, s') \<Rightarrow> res = Inl e \<and> st' = s'
                 | (Inr r, s') \<Rightarrow> res = Inr (i, entry) \<and> st' = s'))))"
  proof (cases "map_of reg target")
    case None
    then show ?thesis by (simp add: coordinate_def)
  next
    case (Some p)
    let ?entry = "delegation_context i now rc target (ap_id p) taskInput"
    obtain b' where "bb_set (''delegation.'' @ i) ?entry (Some ''maiden'') (Some (rc_sessionId rc)) b = (Inr (), b')"
      "\<forall>k. bb_get k b' = (if k = ''delegation.'' @ i then Some ?entry else bb_get k b)"
      using delegation_write by blast
    with Some show ?thesis
      by (auto simp: coordinate_def Let_def split: option.split prod.split sum.split)
  qed
  show "coordinate commitService i now env (rc\<lparr>rc_delegationDepth := depth\<rparr>) target taskInput reg (b, st) =
      coordinate commitService i now env rc target taskInput reg (b, st)"
    by (simp add: coordinate_def delegation_context_def delegation_input_def Let_def
        cong: option.case_cong if_cong prod.case_cong sum.case_cong)
qed (auto simp: canDelegate_iff)

text \<open>
  A delegation is refused, with no effect, if the target is unknown or the roles
  forbid it; otherwise its context is on the blackboard under the delegation's key, every
  other key is as before, and the outcome is that of the record in the log: if that record
  cannot be committed the delegation fails although its context stays on the blackboard.
  The depth of the run plays no part in it, and a maiden may delegate to every registered
  agent, herself included; any other agent starts chains of one delegation only.
\<close>

theorem delegation_outcome:
  "(case coordinate commitService i now env rc target taskInput reg (b, st) of (res, b', st') \<Rightarrow>
      if map_of reg target = None then res = Inl (Maids_error (error AGENT_NOT_FOUND False)) \<and> b' = b \<and> st' = st
      else if \<not> canDelegate (rc_agentId rc) target reg
      then res = Inl (Maids_error (error DELEGATION_DEPTH_EXCEEDED False)) \<and> b' = b \<and> st' = st
      else
        (\<exists>entry. (\<forall>k. bb_get k b' = (if k = ''delegation.'' @ i then Some entry else bb_get k b)) \<and>
           (case commitService of
              None \<Rightarrow> res = Inr (i, entry) \<and> st' = st
            | Some ops \<Rightarrow>
                (case commit ops (delegation_input i rc target taskInput) (fst env) (snd env) st of
                   (Inl e, s') \<Rightarrow> res = Inl e \<and> st' = s'
                 | (Inr r, s') \<Rightarrow> res = Inr (i, entry) \<and> st' = s')))) \<and>
   coordinate commitService i now env (rc\<lparr>rc_delegationDepth := depth\<rparr>) target taskInput reg (b, st) =
     coordinate commitService i now env rc target taskInput reg (b, st) \<and>
   (map_of reg a = Some p \<and> ap_role p = Maiden \<and> map_of reg target \<noteq> None \<longrightarrow> canDelegate a target reg) \<and>
   (canDelegate a target reg \<and> canDelegate target c reg \<longrightarrow> (\<exists>p. map_of reg a = Some p \<and> ap_role p = Maiden))"
  by (intro conjI delegation_parts)

section \<open>Examples\<close>

definition sample_registry :: registry where
  "sample_registry = [(''maid:main'', MAIDEN_PROFILE), (''rp:default'', RP_AGENT_PROFILE),
     (''task:default'', TASK_AGENT_PROFILE)]"

definition sample_context :: run_context where
  "sample_context = \<lparr>rc_runId = ''run'', rc_sessionId = ''s'', rc_agentId = ''maid:main'',
     rc_profile = MAIDEN_PROFILE, rc_requestId = ''r'', rc_delegationDepth = 0\<rparr>"

theorem delegation_outcome_witness:
  "canDelegate ''maid:main'' ''maid:main'' sample_registry \<and>
   (\<exists>p. map_of sample_registry ''maid:main'' = Some p \<and> ap_role p = Maiden) \<and>
   (\<exists>entry b'. coordinate None ''d1'' 7 (''rec'', 7) sample_context ''rp:default'' None sample_registry
      (empty_board, empty_sql) = (Inr (''d1'', entry), b', empty_sql) \<and> bb_get ''delegation.d1'' b' = Some entry)"
proof -
  have self: "canDelegate ''maid:main'' ''maid:main'' sample_registry"
    using delegation_outcome [where reg = sample_registry and a = "''maid:main''" and p = MAIDEN_PROFILE and target = "''maid:main''",
        THEN conjunct2, THEN conjunct2, THEN conjunct1]
    by (simp add: sample_registry_def MAIDEN_PROFILE_def)
  then have role: "\<exists>p. map_of sample_registry ''maid:main'' = Some p \<and> ap_role p = Maiden"
    using delegation_outcome [THEN conjunct2, THEN conjunct2, THEN conjunct2] by blast
  have ok: "map_of sample_registry ''rp:default'' \<noteq> None"
    "canDelegate (rc_agentId sample_context) ''rp:default'' sample_registry"
    by code_simp+
  obtain res b' st' where c: "coordinate None ''d1'' 7 (''rec'', 7) sample_context ''rp:default'' None sample_registry
      (empty_board, empty_sql) = (res, b', st')"
    by (metis surj_pair)
  obtain entry where ctx: "\<forall>k. bb_get k b' = (if k = ''delegation.'' @ ''d1'' then Some entry else bb_get k empty_board)"
    "res = Inr (''d1'', entry) \<and> st' = empty_sql"
    using delegation_outcome [where commitService = None and i = "''d1''" and now = 7 and env = "(''rec'', 7)"
        and rc = sample_context and target = "''rp:default''" and taskInput = None and reg = sample_registry
        and b = empty_board and st = empty_sql, THEN conjunct1] c ok by auto
  from ctx(1) have "bb_get ''delegation.d1'' b' = Some entry" by simp
  with self role c ctx(2) show ?thesis by blast
qed

end
