(* ===== verification/Graph_Refs.thy ===== *)
theory Graph_Refs
  imports Tool_Access
begin

text \<open>
  References to nodes of the memory graph (\<^verbatim>\<open>memory/contracts/graph-node-ref.ts\<close>), the contracts of
  its relations (\<^verbatim>\<open>relation-contract.ts\<close>), who may see a node (\<^verbatim>\<open>visibility-policy.ts\<close>,
  \<^verbatim>\<open>redaction-policy.ts\<close>) and the cut of a graph at a time (\<^verbatim>\<open>time-slice-query.ts\<close>). References
  are strings, as in the code. A number that a string denotes is taken exactly; a double is
  the nearest one.
\<close>

section \<open>Numbers in strings\<close>

definition digit_value :: "char \<Rightarrow> int" where
  "digit_value c =
     (let v = (of_char c :: int)
      in if is_digit c then v - 48
         else if 97 \<le> v \<and> v \<le> 102 then v - 87
         else if 65 \<le> v \<and> v \<le> 70 then v - 55 else 99)"

definition digits_value :: "int \<Rightarrow> string \<Rightarrow> int" where
  "digits_value base ds = foldl (\<lambda>v c. v * base + digit_value c) 0 ds"

definition exponent_value :: "string \<Rightarrow> int option" where
  "exponent_value s =
     (case s of [] \<Rightarrow> Some 0
      | c # r \<Rightarrow>
          if c \<noteq> CHR ''e'' \<and> c \<noteq> CHR ''E'' then None
          else
            (let neg = (r \<noteq> [] \<and> hd r = CHR ''-'');
                 ds = (if r \<noteq> [] \<and> hd r \<in> {CHR ''-'', CHR ''+''} then tl r else r)
             in if ds = [] \<or> \<not> list_all is_digit ds then None
                else Some (if neg then - digits_value 10 ds else digits_value 10 ds)))"

definition decimal_value :: "string \<Rightarrow> rat option" where
  "decimal_value s =
     (let whole = takeWhile is_digit s; r = dropWhile is_digit s;
          (frac, r') = (if r \<noteq> [] \<and> hd r = CHR ''.'' then (takeWhile is_digit (tl r), dropWhile is_digit (tl r)) else ([], r))
      in if whole = [] \<and> frac = [] then None
         else (case exponent_value r' of
             None \<Rightarrow> None
           | Some e \<Rightarrow>
               (let e' = e - int (length frac); m = of_int (digits_value 10 (whole @ frac))
                in Some (if e' \<ge> 0 then m * 10 ^ nat e' else m / 10 ^ nat (- e')))))"

text \<open>\<open>Number(s)\<close> of a string; from \<open>2\<^sup>1\<^sup>0\<^sup>2\<^sup>4 - 2\<^sup>9\<^sup>7\<^sup>0\<close> on, the nearest double is infinite.\<close>

definition js_Number :: "string \<Rightarrow> js_num" where
  "js_Number s =
     (let t = js_trim s;
          radix = (\<lambda>base ds. if ds \<noteq> [] \<and> list_all (\<lambda>c. digit_value c < base) ds
                    then Fin (of_int (digits_value base ds)) else NaN);
          neg = (t \<noteq> [] \<and> hd t = CHR ''-'');
          u = (if t \<noteq> [] \<and> hd t \<in> {CHR ''-'', CHR ''+''} then tl t else t)
      in if t = [] then Fin 0
         else if take 2 t \<in> {''0x'', ''0X''} then radix 16 (drop 2 t)
         else if take 2 t \<in> {''0o'', ''0O''} then radix 8 (drop 2 t)
         else if take 2 t \<in> {''0b'', ''0B''} then radix 2 (drop 2 t)
         else if u = ''Infinity'' then (if neg then NegInf else PosInf)
         else (case decimal_value u of
             None \<Rightarrow> NaN
           | Some v \<Rightarrow> if v \<ge> 2 ^ 1024 - 2 ^ 970 then (if neg then NegInf else PosInf)
               else Fin (if neg then - v else v)))"

section \<open>References\<close>

datatype node_kind = Event_kind | Entity_kind | Fact_kind | Assertion_kind | Evaluation_kind
  | Commitment_kind | Episode_kind

fun kind_name :: "node_kind \<Rightarrow> string" where
  "kind_name Event_kind = ''event''"
| "kind_name Entity_kind = ''entity''"
| "kind_name Fact_kind = ''fact''"
| "kind_name Assertion_kind = ''assertion''"
| "kind_name Evaluation_kind = ''evaluation''"
| "kind_name Commitment_kind = ''commitment''"
| "kind_name Episode_kind = ''episode''"

definition NODE_REF_KINDS :: "node_kind list" where
  "NODE_REF_KINDS = [Event_kind, Entity_kind, Fact_kind, Assertion_kind, Evaluation_kind, Commitment_kind, Episode_kind]"

definition kind_of_name :: "string \<Rightarrow> node_kind option" where
  "kind_of_name s = find (\<lambda>k. kind_name k = s) NODE_REF_KINDS"

type_synonym node_ref = string

definition parseGraphNodeRef :: "string \<Rightarrow> (thrown, node_kind \<times> string) result" where
  "parseGraphNodeRef raw =
     (if CHR '':'' \<notin> set raw then Inl Plain_error
      else
        (let kind = takeWhile (\<lambda>c. c \<noteq> CHR '':'') raw; i = tl (dropWhile (\<lambda>c. c \<noteq> CHR '':'') raw)
         in (case kind_of_name kind of None \<Rightarrow> Inl Plain_error | Some k \<Rightarrow> Inr (k, i))))"

definition serializeGraphNodeRef :: "node_kind \<times> string \<Rightarrow> string" where
  "serializeGraphNodeRef r = kind_name (fst r) @ '':'' @ snd r"

text \<open>The kinds that graph queries and the navigator know; episodes are not among them.\<close>

definition KNOWN_NODE_KINDS :: "node_kind list" where
  "KNOWN_NODE_KINDS = [Event_kind, Entity_kind, Fact_kind, Assertion_kind, Evaluation_kind, Commitment_kind]"

definition parseNodeRef :: "node_ref \<Rightarrow> (node_kind \<times> int) option" where
  "parseNodeRef r =
     (case parseGraphNodeRef r of
        Inl _ \<Rightarrow> None
      | Inr (k, i) \<Rightarrow>
          if k \<notin> set KNOWN_NODE_KINDS then None
          else (case js_Number i of
              Fin q \<Rightarrow> if q = of_int \<lfloor>q\<rfloor> \<and> q > 0 then Some (k, \<lfloor>q\<rfloor>) else None
            | _ \<Rightarrow> None))"

text \<open>A reference as the queries write it, with a template string.\<close>

definition node :: "node_kind \<Rightarrow> int \<Rightarrow> node_ref" where
  "node k i = kind_name k @ '':'' @ int_str i"

definition js_unique :: "'a list \<Rightarrow> 'a js_set" where
  "js_unique xs = fold set_add xs []"

definition extractIdsFromRefs :: "node_ref js_set \<Rightarrow> node_kind \<Rightarrow> int list" where
  "extractIdsFromRefs refs kind =
     List.map_filter (\<lambda>r. case parseNodeRef r of Some (k, i) \<Rightarrow> if k = kind then Some i else None | None \<Rightarrow> None) refs"

definition groupIdsByKind :: "node_ref list \<Rightarrow> (node_kind, int list) js_map" where
  "groupIdsByKind refs =
     fold (\<lambda>r byKind. case parseNodeRef r of
         None \<Rightarrow> byKind
       | Some (k, i) \<Rightarrow> AList.update k (or_else (map_of byKind k) [] @ [i]) byKind) refs []"

section \<open>Contracts of relations\<close>

record relation_contract =
  lc_source :: "node_kind option"
  lc_target :: "node_kind option"
  lc_truth_bearing :: bool
  lc_heuristic_only :: bool

definition contract :: "node_kind option \<Rightarrow> node_kind option \<Rightarrow> bool \<Rightarrow> bool \<Rightarrow> relation_contract" where
  "contract s t truth heuristic =
     \<lparr>lc_source = s, lc_target = t, lc_truth_bearing = truth, lc_heuristic_only = heuristic\<rparr>"

text \<open>The endpoint family \<open>unknown\<close> is \<open>None\<close>.\<close>

definition LOGIC_EDGE_CONTRACTS :: "(string, relation_contract) js_map" where
  "LOGIC_EDGE_CONTRACTS =
     (let event = contract (Some Event_kind) (Some Event_kind) True False; any = contract None None False True
      in [(''causal'', event), (''contradict'', event), (''reinforce'', event), (''temporal_prev'', event),
          (''temporal_next'', event), (''same_episode'', event), (''semantic_similar'', any),
          (''conflict_or_update'', any), (''entity_bridge'', any)])"

definition MEMORY_RELATION_CONTRACTS :: "(string, relation_contract) js_map" where
  "MEMORY_RELATION_CONTRACTS =
     [(''supports'', contract (Some Event_kind) (Some Assertion_kind) True False),
      (''triggered'', contract (Some Event_kind) (Some Evaluation_kind) True False),
      (''conflicts_with'', contract (Some Assertion_kind) (Some Assertion_kind) True False),
      (''derived_from'', contract (Some Fact_kind) (Some Assertion_kind) True False),
      (''supersedes'', contract (Some Assertion_kind) (Some Assertion_kind) True False),
      (''surfaced_as'', contract (Some Assertion_kind) (Some Event_kind) True False),
      (''published_as'', contract (Some Event_kind) (Some Entity_kind) True False),
      (''resolved_by'', contract (Some Assertion_kind) (Some Fact_kind) False True),
      (''downgraded_by'', contract (Some Assertion_kind) (Some Evaluation_kind) False True)]"

definition RELATION_CONTRACTS :: "(string, relation_contract) js_map" where
  "RELATION_CONTRACTS = LOGIC_EDGE_CONTRACTS @ MEMORY_RELATION_CONTRACTS"

definition MEMORY_RELATION_TYPES :: "string list" where
  "MEMORY_RELATION_TYPES = [''supports'', ''triggered'', ''conflicts_with'', ''derived_from'', ''supersedes'',
     ''surfaced_as'', ''published_as'', ''resolved_by'', ''downgraded_by'']"

definition RESOLUTION_CHAIN_TYPES :: "string list" where
  "RESOLUTION_CHAIN_TYPES = [''conflicts_with'', ''resolved_by'', ''downgraded_by'']"

definition isTruthBearing :: "string \<Rightarrow> bool" where
  "isTruthBearing t = (case map_of RELATION_CONTRACTS t of Some c \<Rightarrow> lc_truth_bearing c | None \<Rightarrow> False)"

definition isHeuristicOnly :: "string \<Rightarrow> bool" where
  "isHeuristicOnly t = (case map_of RELATION_CONTRACTS t of Some c \<Rightarrow> lc_heuristic_only c | None \<Rightarrow> False)"

definition isResolutionChainType :: "string \<Rightarrow> bool" where
  "isResolutionChainType t = (t \<in> set RESOLUTION_CHAIN_TYPES)"

section \<open>Visibility\<close>

datatype disposition = Visible | Hidden | Private | Admin_only

text \<open>
  The data that decides about a node; which fields are there depends on its kind, and a field
  that is absent or null is \<open>None\<close>.
\<close>

record node_data =
  nd_visibility_scope :: "string option"
  nd_location :: "int option"
  nd_memory_scope :: "string option"
  nd_owner :: "string option"
  nd_agent :: "string option"

definition no_data :: node_data where
  "no_data = \<lparr>nd_visibility_scope = None, nd_location = None, nd_memory_scope = None, nd_owner = None, nd_agent = None\<rparr>"

definition canViewPrivateOwner :: "viewer_context \<Rightarrow> string option \<Rightarrow> bool" where
  "canViewPrivateOwner vc owner = (owner \<noteq> None \<and> owner = Some (vc_agent_id vc))"

definition canViewAdminOnly :: "viewer_context \<Rightarrow> bool" where
  "canViewAdminOnly vc = (vc_admin_only vc = Some True)"

definition isEventVisible :: "viewer_context \<Rightarrow> node_data \<Rightarrow> bool" where
  "isEventVisible vc d =
     (if nd_visibility_scope d = Some ''world_public'' then True
      else if nd_visibility_scope d = Some ''area_visible'' then
        (if vc_area_id vc = None then False else nd_location d = vc_area_id vc)
      else False)"

definition isEntityVisible :: "viewer_context \<Rightarrow> node_data \<Rightarrow> bool" where
  "isEntityVisible vc d =
     (if nd_memory_scope d = Some ''shared_public'' then True
      else if nd_memory_scope d = Some ''private_overlay'' then nd_owner d = Some (vc_agent_id vc)
      else False)"

definition isFactVisible :: "viewer_context \<Rightarrow> bool" where
  "isFactVisible vc = True"

definition isPrivateNodeVisible :: "viewer_context \<Rightarrow> node_data \<Rightarrow> bool" where
  "isPrivateNodeVisible vc d = (nd_agent d = Some (vc_agent_id vc))"

definition policyDisposition :: "viewer_context \<Rightarrow> node_ref \<Rightarrow> node_data \<Rightarrow> disposition" where
  "policyDisposition vc r d =
     (let kind = takeWhile (\<lambda>c. c \<noteq> CHR '':'') r in
      if kind = ''event'' then
        (let scope = or_else (nd_visibility_scope d) [] in
         if scope = ''system_only'' then (if canViewAdminOnly vc then Visible else Admin_only)
         else if scope = ''owner_private'' then (if canViewPrivateOwner vc (nd_owner d) then Visible else Private)
         else if isEventVisible vc d then Visible else Hidden)
      else if kind = ''entity'' then
        (if nd_memory_scope d = Some ''private_overlay''
         then (if canViewPrivateOwner vc (nd_owner d) then Visible else Private)
         else if isEntityVisible vc d then Visible else Hidden)
      else if kind = ''fact'' then (if isFactVisible vc then Visible else Hidden)
      else if kind = ''episode'' then (if isPrivateNodeVisible vc d then Visible else Private)
      else if kind \<in> {''assertion'', ''evaluation'', ''commitment''}
      then (if isPrivateNodeVisible vc d then Visible else Private)
      else Hidden)"

definition isNodeVisible :: "viewer_context \<Rightarrow> node_ref \<Rightarrow> node_data \<Rightarrow> bool" where
  "isNodeVisible vc r d = (policyDisposition vc r d = Visible)"

definition isEdgeVisible :: "viewer_context \<Rightarrow> node_ref \<Rightarrow> node_data \<Rightarrow> node_ref \<Rightarrow> node_data \<Rightarrow> bool" where
  "isEdgeVisible vc source sd target td = (isNodeVisible vc source sd \<and> isNodeVisible vc target td)"

record placeholder =
  rd_reason :: string
  rd_node_ref :: node_ref

definition toPlaceholder :: "node_ref \<Rightarrow> disposition \<Rightarrow> placeholder" where
  "toPlaceholder r d =
     \<lparr>rd_reason = (if d = Private then ''private'' else if d = Admin_only then ''admin_only'' else ''hidden''),
      rd_node_ref = r\<rparr>"

text \<open>The SQL predicates, as the conditions they print.\<close>

datatype sql_condition = Column_is string string | Column_is_number string int
  | Sql_and sql_condition sql_condition | Sql_or sql_condition sql_condition | Sql_group sql_condition

fun sql_text :: "sql_condition \<Rightarrow> string" where
  "sql_text (Column_is c v) = c @ '' = '' @ [CHR 39] @ v @ [CHR 39]"
| "sql_text (Column_is_number c n) = c @ '' = '' @ int_str n"
| "sql_text (Sql_and p q) = sql_text p @ '' AND '' @ sql_text q"
| "sql_text (Sql_or p q) = sql_text p @ '' OR '' @ sql_text q"
| "sql_text (Sql_group p) = ''('' @ sql_text p @ '')''"

fun sql_holds :: "(string \<Rightarrow> string option) \<Rightarrow> (string \<Rightarrow> int option) \<Rightarrow> sql_condition \<Rightarrow> bool" where
  "sql_holds s n (Column_is c v) = (s c = Some v)"
| "sql_holds s n (Column_is_number c v) = (n c = Some v)"
| "sql_holds s n (Sql_and p q) = (sql_holds s n p \<and> sql_holds s n q)"
| "sql_holds s n (Sql_or p q) = (sql_holds s n p \<or> sql_holds s n q)"
| "sql_holds s n (Sql_group p) = sql_holds s n p"

definition eventVisibilityPredicate :: "viewer_context \<Rightarrow> sql_condition" where
  "eventVisibilityPredicate vc =
     (case vc_area_id vc of
        None \<Rightarrow> Sql_group (Column_is ''visibility_scope'' ''world_public'')
      | Some area \<Rightarrow> Sql_group (Sql_or (Column_is ''visibility_scope'' ''world_public'')
          (Sql_group (Sql_and (Column_is ''visibility_scope'' ''area_visible'')
            (Column_is_number ''location_entity_id'' area)))))"

definition entityVisibilityPredicate :: "viewer_context \<Rightarrow> sql_condition" where
  "entityVisibilityPredicate vc =
     Sql_group (Sql_or (Column_is ''memory_scope'' ''shared_public'')
       (Sql_group (Sql_and (Column_is ''memory_scope'' ''private_overlay'')
         (Column_is ''owner_agent_id'' (vc_agent_id vc)))))"

definition privateNodePredicate :: "viewer_context \<Rightarrow> sql_condition" where
  "privateNodePredicate vc = Column_is ''agent_id'' (vc_agent_id vc)"

section \<open>Cutting at a time\<close>

record time_slice =
  sl_valid :: "int option"
  sl_committed :: "int option"

definition buildTimeSliceQuery :: "bool \<Rightarrow> int \<Rightarrow> time_slice" where
  "buildTimeSliceQuery valid_dimension asOf =
     (if valid_dimension then \<lparr>sl_valid = Some asOf, sl_committed = None\<rparr>
      else \<lparr>sl_valid = None, sl_committed = Some asOf\<rparr>)"

definition hasTimeSlice :: "time_slice option \<Rightarrow> bool" where
  "hasTimeSlice q = (case q of None \<Rightarrow> False | Some q \<Rightarrow> sl_valid q \<noteq> None \<or> sl_committed q \<noteq> None)"

text \<open>A time of \<open>0\<close> counts as unknown and passes every cut.\<close>

definition too_late :: "int option \<Rightarrow> int option \<Rightarrow> bool" where
  "too_late asOf t = (case asOf of None \<Rightarrow> False | Some a \<Rightarrow> (case t of None \<Rightarrow> False | Some t \<Rightarrow> t \<noteq> 0 \<and> t > a))"

definition first_of :: "'a option \<Rightarrow> 'a option \<Rightarrow> 'a option" where
  "first_of a b = (case a of None \<Rightarrow> b | Some _ \<Rightarrow> a)"

definition isEdgeInTimeSlice :: "int option \<Rightarrow> int option \<Rightarrow> int option \<Rightarrow> time_slice option \<Rightarrow> bool" where
  "isEdgeInTimeSlice timestamp valid committed query =
     (if \<not> hasTimeSlice query then True
      else \<not> too_late (Option.bind query sl_valid) (first_of valid timestamp) \<and>
        \<not> too_late (Option.bind query sl_committed) (first_of committed timestamp))"

text \<open>Rows of projections use the same rule with \<open>updated_at\<close> for the timestamp.\<close>

definition filterProjectionRowsByTimeSlice :: "('r \<Rightarrow> int option) \<Rightarrow> ('r \<Rightarrow> int option) \<Rightarrow> ('r \<Rightarrow> int option) \<Rightarrow>
    'r list \<Rightarrow> time_slice option \<Rightarrow> 'r list" where
  "filterProjectionRowsByTimeSlice updated valid committed rows query =
     (if \<not> hasTimeSlice query then rows
      else filter (\<lambda>r. isEdgeInTimeSlice (updated r) (valid r) (committed r) query) rows)"

end
