(* ===== verification/Graph_Repo.thy ===== *)
theory Graph_Repo
  imports Graph_Refs
begin

text \<open>
  The read queries on the memory graph (\<^verbatim>\<open>storage/domain-repos/pg/graph-read-query-repo.ts\<close>) over
  its tables. A table is the list of its rows, in the order the database returns them. The
  arguments \<open>parse\<close> and \<open>nfc\<close> are \<open>JSON.parse\<close> (\<open>None\<close> if it throws) and the Unicode
  normalisation of strings.
\<close>

section \<open>Tables\<close>

record entity_node =
  ge_id :: int
  ge_pointer_key :: string
  ge_display_name :: string
  ge_entity_type :: string
  ge_memory_scope :: string
  ge_owner :: "string option"
  ge_summary :: "string option"
  ge_updated_at :: int

record event_node =
  gv_id :: int
  gv_session_id :: string
  gv_topic_id :: "int option"
  gv_timestamp :: int
  gv_scope :: string
  gv_location :: int
  gv_participants :: "string option"
  gv_primary_actor :: "int option"
  gv_summary :: "string option"

record episode_node =
  gp_id :: int
  gp_agent :: string
  gp_location :: "int option"
  gp_summary :: "string option"
  gp_valid_time :: "int option"

record cognition_node =
  gc_id :: int
  gc_agent :: string
  gc_kind :: string
  gc_summary :: "string option"
  gc_record :: json
  gc_updated_at :: int

text \<open>\<open>None\<close> as the end of a fact's validity is the largest bigint, which marks it as active.\<close>

record fact_edge =
  gf_id :: int
  gf_source_entity :: int
  gf_target_entity :: int
  gf_predicate :: string
  gf_valid :: int
  gf_invalid :: "int option"
  gf_created :: int
  gf_source_event :: "int option"

record logic_edge =
  gl_source :: int
  gl_target :: int
  gl_type :: string
  gl_weight :: "rat option"
  gl_created_at :: int

record relation_row =
  gm_source :: node_ref
  gm_target :: node_ref
  gm_type :: string
  gm_strength :: rat
  gm_source_kind :: string
  gm_source_ref :: string
  gm_created_at :: int
  gm_updated_at :: int

record semantic_edge =
  gs_source :: node_ref
  gs_target :: node_ref
  gs_type :: string
  gs_weight :: rat
  gs_created_at :: int

record graph_db =
  entity_nodes :: "entity_node list"
  event_nodes :: "event_node list"
  episode_nodes :: "episode_node list"
  cognition_nodes :: "cognition_node list"
  fact_edges :: "fact_edge list"
  logic_edges :: "logic_edge list"
  memory_relations :: "relation_row list"
  semantic_edges :: "semantic_edge list"
  node_scores :: "(node_ref \<times> js_num) list"

definition active :: "fact_edge \<Rightarrow> bool" where
  "active f = (gf_invalid f = None)"

section \<open>What decides who may see a node\<close>

datatype visibility_record =
  Entity_record node_ref string "string option"
| Event_record node_ref string int "string option"
| Private_record node_ref node_kind string
| Fact_record node_ref bool
| Episode_record node_ref int string

fun record_ref :: "visibility_record \<Rightarrow> node_ref" where
  "record_ref (Entity_record r scope owner) = r"
| "record_ref (Event_record r scope location owner) = r"
| "record_ref (Private_record r kind agent) = r"
| "record_ref (Fact_record r act) = r"
| "record_ref (Episode_record r location owner) = r"

definition entity_record :: "entity_node \<Rightarrow> visibility_record" where
  "entity_record e = Entity_record (node Entity_kind (ge_id e)) (ge_memory_scope e) (ge_owner e)"

definition event_record :: "event_node \<Rightarrow> visibility_record" where
  "event_record e = Event_record (node Event_kind (gv_id e)) (gv_scope e) (gv_location e) None"

definition episode_record :: "episode_node \<Rightarrow> visibility_record" where
  "episode_record e = Episode_record (node Episode_kind (gp_id e)) (or_else (gp_location e) 0) (gp_agent e)"

definition cognition_record :: "node_kind \<Rightarrow> cognition_node \<Rightarrow> visibility_record" where
  "cognition_record k c = Private_record (node k (gc_id c)) k (gc_agent c)"

definition fact_record :: "fact_edge \<Rightarrow> visibility_record" where
  "fact_record f = Fact_record (node Fact_kind (gf_id f)) True"

definition episode_records :: "int list \<Rightarrow> graph_db \<Rightarrow> visibility_record list" where
  "episode_records ids db = map episode_record (filter (\<lambda>e. gp_id e \<in> set ids) (episode_nodes db))"

definition event_records :: "int list \<Rightarrow> graph_db \<Rightarrow> visibility_record list" where
  "event_records ids db =
     (let rows = filter (\<lambda>e. gv_id e \<in> set ids) (event_nodes db);
          missing = filter (\<lambda>i. i \<notin> gv_id ` set rows) ids
      in map event_record rows @ episode_records missing db)"

definition cognition_records :: "node_kind \<Rightarrow> int list \<Rightarrow> graph_db \<Rightarrow> visibility_record list" where
  "cognition_records k ids db =
     map (cognition_record k) (filter (\<lambda>c. gc_kind c = kind_name k \<and> gc_id c \<in> set ids) (cognition_nodes db))"

definition getNodeVisibility :: "node_ref list \<Rightarrow> graph_db \<Rightarrow> visibility_record list" where
  "getNodeVisibility refs db =
     (let byKind = groupIdsByKind (js_unique refs); ids = (\<lambda>k. or_else (map_of byKind k) [])
      in map entity_record (filter (\<lambda>e. ge_id e \<in> set (ids Entity_kind)) (entity_nodes db)) @
         event_records (ids Event_kind) db @
         episode_records (ids Episode_kind) db @
         cognition_records Assertion_kind (ids Assertion_kind) db @
         cognition_records Evaluation_kind (ids Evaluation_kind) db @
         cognition_records Commitment_kind (ids Commitment_kind) db @
         map fact_record (filter (\<lambda>f. gf_id f \<in> set (ids Fact_kind) \<and> active f) (fact_edges db)))"

text \<open>The repository's own \<open>toVisibilityNodeData\<close> does not know episodes, the navigator's does.\<close>

fun repo_node_data :: "visibility_record \<Rightarrow> node_data option" where
  "repo_node_data (Entity_record r scope owner) =
     Some (no_data\<lparr>nd_memory_scope := Some scope, nd_owner := owner\<rparr>)"
| "repo_node_data (Event_record r scope location owner) =
     Some (no_data\<lparr>nd_visibility_scope := Some scope, nd_location := Some location, nd_owner := owner\<rparr>)"
| "repo_node_data (Private_record r kind agent) = Some (no_data\<lparr>nd_agent := Some agent\<rparr>)"
| "repo_node_data (Fact_record r act) = (if act then Some no_data else None)"
| "repo_node_data (Episode_record r location owner) = None"

definition record_map :: "visibility_record list \<Rightarrow> (node_ref, visibility_record) js_map" where
  "record_map rows = fold (\<lambda>v. AList.update (record_ref v) v) rows []"

definition getPrivateNodeOwners :: "node_ref list \<Rightarrow> graph_db \<Rightarrow> (node_ref \<times> string) list" where
  "getPrivateNodeOwners refs db =
     (let entries = (\<lambda>kinds. List.map_filter (\<lambda>r. case parseNodeRef r of
            Some (k, i) \<Rightarrow> if k \<in> kinds then Some (r, i) else None | None \<Rightarrow> None) refs);
          owner = (\<lambda>rows r i. case map_of (rev rows) i of Some a \<Rightarrow> if a = [] then None else Some (r, a) | None \<Rightarrow> None);
          cognition = map (\<lambda>c. (gc_id c, gc_agent c)) (cognition_nodes db);
          episodes = map (\<lambda>e. (gp_id e, gp_agent e)) (episode_nodes db)
      in List.map_filter (\<lambda>(r, i). owner cognition r i) (entries {Assertion_kind, Evaluation_kind, Commitment_kind}) @
         List.map_filter (\<lambda>(r, i). owner episodes r i) (entries {Episode_kind}))"

section \<open>Edges\<close>

datatype edge_layer = State_layer | Symbolic_layer | Heuristic_layer

datatype edge_family = Logic_family | Relation_family | Semantic_family

record edge_record =
  er_family :: edge_family
  er_layer :: edge_layer
  er_type :: string
  er_source :: node_ref
  er_target :: node_ref
  er_weight :: rat
  er_strength :: "rat option"
  er_source_kind :: "string option"
  er_provenance :: "string option"
  er_timestamp :: "int option"
  er_valid :: "int option"
  er_committed :: "int option"
  er_truth_bearing :: bool
  er_heuristic_only :: bool
  er_source_family :: "node_kind option"
  er_target_family :: "node_kind option"
  er_declared :: bool

text \<open>The kind of an endpoint is that of the contract, or the parsed one if the contract leaves it open.\<close>

definition endpoint_family :: "(relation_contract \<Rightarrow> node_kind option) \<Rightarrow> relation_contract option \<Rightarrow> node_ref \<Rightarrow> node_kind option" where
  "endpoint_family side c r = first_of (Option.bind c side) (map_option fst (parseNodeRef r))"

definition toGraphEdge :: "edge_family \<Rightarrow> edge_layer \<Rightarrow> string \<Rightarrow> node_ref \<Rightarrow> node_ref \<Rightarrow> rat \<Rightarrow>
    (rat \<times> string \<times> string) option \<Rightarrow> int \<Rightarrow> int \<Rightarrow> int \<Rightarrow> edge_record" where
  "toGraphEdge family layer relationType source target weight relation timestamp valid committed =
     (let c = map_of RELATION_CONTRACTS relationType in
      \<lparr>er_family = family, er_layer = layer, er_type = relationType, er_source = source, er_target = target,
       er_weight = weight, er_strength = map_option fst relation,
       er_source_kind = map_option (fst \<circ> snd) relation, er_provenance = map_option (snd \<circ> snd) relation,
       er_timestamp = Some timestamp, er_valid = Some valid, er_committed = Some committed,
       er_truth_bearing = (case c of Some c \<Rightarrow> lc_truth_bearing c | None \<Rightarrow> layer \<noteq> Heuristic_layer),
       er_heuristic_only = (case c of Some c \<Rightarrow> lc_heuristic_only c | None \<Rightarrow> layer = Heuristic_layer),
       er_source_family = endpoint_family lc_source c source,
       er_target_family = endpoint_family lc_target c target,
       er_declared = (c \<noteq> None)\<rparr>)"

definition reverseTemporalRelation :: "string \<Rightarrow> string" where
  "reverseTemporalRelation t =
     (if t = ''temporal_prev'' then ''temporal_next''
      else if t = ''temporal_next'' then ''temporal_prev'' else t)"

definition edge_admitted :: "viewer_context \<Rightarrow> time_slice option \<Rightarrow> (node_ref, visibility_record) js_map \<Rightarrow> edge_record \<Rightarrow> bool" where
  "edge_admitted vc slice byRef e =
     (if \<not> isEdgeInTimeSlice (er_timestamp e) (er_valid e) (er_committed e) slice then False
      else (case (map_of byRef (er_source e), map_of byRef (er_target e)) of
          (Some s, Some t) \<Rightarrow>
            (case (repo_node_data s, repo_node_data t) of
               (Some sd, Some td) \<Rightarrow> isEdgeVisible vc (er_source e) sd (er_target e) td
             | _ \<Rightarrow> False)
        | _ \<Rightarrow> False))"

definition filterVisibleAndTimeSlicedEdges :: "edge_record list \<Rightarrow> viewer_context \<Rightarrow> time_slice option \<Rightarrow> graph_db \<Rightarrow>
    edge_record list" where
  "filterVisibleAndTimeSlicedEdges edges vc slice db =
     (if edges = [] then []
      else
        (let refs = fold (\<lambda>e s. set_add (er_target e) (set_add (er_source e) s)) edges [];
             byRef = record_map (getNodeVisibility refs db)
         in filter (edge_admitted vc slice byRef) edges))"

text \<open>A row gives an edge from each of its ends that is in the frontier.\<close>

definition both_ways :: "node_ref js_set \<Rightarrow> ('r \<Rightarrow> edge_record) \<Rightarrow> ('r \<Rightarrow> edge_record) \<Rightarrow> 'r list \<Rightarrow> edge_record list" where
  "both_ways frontier out back rows =
     concat (map (\<lambda>r. (if er_source (out r) \<in> set frontier then [out r] else []) @
                      (if er_source (back r) \<in> set frontier then [back r] else [])) rows)"

definition readLogicEdges :: "node_ref list \<Rightarrow> viewer_context \<Rightarrow> time_slice option \<Rightarrow> graph_db \<Rightarrow> edge_record list" where
  "readLogicEdges refs vc slice db =
     (let frontier = js_unique refs; ids = extractIdsFromRefs frontier Event_kind in
      if ids = [] then []
      else
        (let rows = filter (\<lambda>r. gl_source r \<in> set ids \<or> gl_target r \<in> set ids) (logic_edges db);
             edge = (\<lambda>t s d r. toGraphEdge Logic_family Symbolic_layer t (node Event_kind s) (node Event_kind d)
                (or_else (gl_weight r) 1) None (gl_created_at r) (gl_created_at r) (gl_created_at r))
         in filterVisibleAndTimeSlicedEdges
              (both_ways frontier (\<lambda>r. edge (gl_type r) (gl_source r) (gl_target r) r)
                (\<lambda>r. edge (reverseTemporalRelation (gl_type r)) (gl_target r) (gl_source r) r) rows)
              vc slice db))"

definition readMemoryRelationEdges :: "node_ref list \<Rightarrow> viewer_context \<Rightarrow> time_slice option \<Rightarrow> graph_db \<Rightarrow> edge_record list" where
  "readMemoryRelationEdges frontierRefs vc slice db =
     (let refs = js_unique frontierRefs in
      if refs = [] then []
      else
        (let rows = filter (\<lambda>r. gm_source r \<in> set refs \<or> gm_target r \<in> set refs) (memory_relations db);
             edge = (\<lambda>s d r. toGraphEdge Relation_family Symbolic_layer (gm_type r) s d (gm_strength r)
                (Some (gm_strength r, gm_source_kind r, gm_source_ref r)) (gm_created_at r) (gm_created_at r)
                (if gm_updated_at r > 0 then gm_updated_at r else gm_created_at r))
         in filterVisibleAndTimeSlicedEdges
              (both_ways refs (\<lambda>r. edge (gm_source r) (gm_target r) r) (\<lambda>r. edge (gm_target r) (gm_source r) r) rows)
              vc slice db))"

definition readSemanticEdges :: "node_ref list \<Rightarrow> viewer_context \<Rightarrow> time_slice option \<Rightarrow> graph_db \<Rightarrow> edge_record list" where
  "readSemanticEdges frontierRefs vc slice db =
     (let refs = js_unique frontierRefs in
      if refs = [] then []
      else
        (let rows = filter (\<lambda>r. gs_source r \<in> set refs \<or> gs_target r \<in> set refs) (semantic_edges db);
             edge = (\<lambda>s d r. toGraphEdge Semantic_family Heuristic_layer (gs_type r) s d (gs_weight r)
                None (gs_created_at r) (gs_created_at r) (gs_created_at r))
         in filterVisibleAndTimeSlicedEdges
              (both_ways refs (\<lambda>r. edge (gs_source r) (gs_target r) r) (\<lambda>r. edge (gs_target r) (gs_source r) r) rows)
              vc slice db))"

definition readStateFactEdges :: "node_ref list \<Rightarrow> viewer_context \<Rightarrow> time_slice option \<Rightarrow> graph_db \<Rightarrow> edge_record list" where
  "readStateFactEdges refs vc slice db =
     (let ids = extractIdsFromRefs (js_unique refs) Event_kind in
      if ids = [] then []
      else
        (let edge = (\<lambda>f e. (toGraphEdge Relation_family State_layer ''fact_support'' (node Event_kind e)
                (node Fact_kind (gf_id f)) (95 / 100) None (gf_valid f) (gf_valid f) (gf_created f))
                \<lparr>er_source_family := Some Event_kind, er_target_family := Some Fact_kind\<rparr>)
         in filterVisibleAndTimeSlicedEdges
              (List.map_filter (\<lambda>f. case gf_source_event f of
                   Some e \<Rightarrow> if active f \<and> e \<in> set ids then Some (edge f e) else None
                 | None \<Rightarrow> None) (fact_edges db))
              vc slice db))"

section \<open>Participants, facts and assertions\<close>

definition positive_int :: "json option \<Rightarrow> int option" where
  "positive_int v =
     (case v of Some (JNum (Fin q)) \<Rightarrow> if q = of_int \<lfloor>q\<rfloor> \<and> q > 0 then Some \<lfloor>q\<rfloor> else None | _ \<Rightarrow> None)"

definition participant_ref :: "json \<Rightarrow> node_ref option" where
  "participant_ref v =
     (case positive_int (Some v) of
        Some i \<Rightarrow> Some (node Entity_kind i)
      | None \<Rightarrow>
          (case v of
             JStr s \<Rightarrow>
               (let normalized = js_trim s in
                if normalized = [] then None
                else if (case parseGraphNodeRef normalized of Inr (k, i) \<Rightarrow> k = Entity_kind | Inl _ \<Rightarrow> False)
                then Some normalized
                else map_option (node Entity_kind) (positive_int (Some (JNum (js_Number normalized)))))
           | _ \<Rightarrow> None))"

definition parseParticipantEntityRefs :: "(string \<Rightarrow> json option) \<Rightarrow> string option \<Rightarrow> node_ref list" where
  "parseParticipantEntityRefs parse participants =
     (case participants of
        None \<Rightarrow> []
      | Some s \<Rightarrow>
          if s = [] then []
          else (case parse s of Some (JArr vs) \<Rightarrow> List.map_filter participant_ref vs | _ \<Rightarrow> []))"

record participant_context =
  px_event :: node_ref
  px_summary :: "string option"
  px_timestamp :: int
  px_participants :: "node_ref list"
  px_primary_actor :: "node_ref option"

definition participant_context :: "(string \<Rightarrow> json option) \<Rightarrow> event_node \<Rightarrow> participant_context" where
  "participant_context parse e =
     (let actor = map_option (node Entity_kind) (gv_primary_actor e);
          refs = js_unique (parseParticipantEntityRefs parse (gv_participants e))
      in \<lparr>px_event = node Event_kind (gv_id e), px_summary = gv_summary e, px_timestamp = gv_timestamp e,
          px_participants = (case actor of Some a \<Rightarrow> set_add a refs | None \<Rightarrow> refs),
          px_primary_actor = actor\<rparr>)"

definition public_or_here :: "viewer_context \<Rightarrow> event_node \<Rightarrow> bool" where
  "public_or_here vc e =
     (gv_scope e = ''world_public'' \<or>
      gv_scope e = ''area_visible'' \<and> vc_area_id vc \<noteq> None \<and> gv_location e = or_else (vc_area_id vc) (- 1))"

definition readEventParticipantContexts :: "(string \<Rightarrow> json option) \<Rightarrow> node_ref list \<Rightarrow> viewer_context \<Rightarrow> graph_db \<Rightarrow>
    participant_context list" where
  "readEventParticipantContexts parse refs vc db =
     (let ids = extractIdsFromRefs (js_unique refs) Event_kind in
      if ids = [] then []
      else map (participant_context parse)
        (filter (\<lambda>e. gv_id e \<in> set ids \<and> public_or_here vc e) (event_nodes db)))"

text \<open>The regular expression of the query looks for the quoted reference in the text of the column.\<close>

definition text_mentions :: "int list \<Rightarrow> string \<Rightarrow> bool" where
  "text_mentions ids s =
     list_ex (\<lambda>i. let p = [CHR 34] @ node Entity_kind i @ [CHR 34]
        in list_ex (\<lambda>n. take (length p) (drop n s) = p) [0..<length s]) ids"

definition readVisibleEventsForEntityFrontier :: "(string \<Rightarrow> json option) \<Rightarrow> node_ref list \<Rightarrow> viewer_context \<Rightarrow> graph_db \<Rightarrow>
    participant_context list" where
  "readVisibleEventsForEntityFrontier parse refs vc db =
     (let ids = extractIdsFromRefs (js_unique refs) Entity_kind in
      if ids = [] then []
      else map (participant_context parse)
        (filter (\<lambda>e. ((case gv_primary_actor e of Some a \<Rightarrow> a \<in> set ids | None \<Rightarrow> False) \<or>
             (case gv_participants e of Some s \<Rightarrow> text_mentions ids s | None \<Rightarrow> False)) \<and>
           public_or_here vc e) (event_nodes db)))"

record fact_traversal =
  ft_fact :: node_ref
  ft_source :: node_ref
  ft_target :: node_ref
  ft_predicate :: string
  ft_valid :: int
  ft_source_event :: "node_ref option"

definition fact_traversal :: "fact_edge \<Rightarrow> fact_traversal" where
  "fact_traversal f =
     \<lparr>ft_fact = node Fact_kind (gf_id f), ft_source = node Entity_kind (gf_source_entity f),
      ft_target = node Entity_kind (gf_target_entity f), ft_predicate = gf_predicate f, ft_valid = gf_valid f,
      ft_source_event = map_option (node Event_kind) (gf_source_event f)\<rparr>"

definition readActiveFactsForEntityFrontier :: "node_ref list \<Rightarrow> graph_db \<Rightarrow> fact_traversal list" where
  "readActiveFactsForEntityFrontier refs db =
     (let refs' = js_unique refs; entityIds = extractIdsFromRefs refs' Entity_kind; factIds = extractIdsFromRefs refs' Fact_kind;
          by_entity = filter (\<lambda>f. active f \<and> (gf_source_entity f \<in> set entityIds \<or> gf_target_entity f \<in> set entityIds)) (fact_edges db);
          by_id = filter (\<lambda>f. active f \<and> gf_id f \<in> set factIds) (fact_edges db);
          rowsById = fold (\<lambda>f. AList.update (gf_id f) f) by_id (fold (\<lambda>f. AList.update (gf_id f) f) by_entity [])
      in map (fact_traversal \<circ> snd) rowsById)"

record assertion_content =
  as_predicate :: "string option"
  as_source_event :: "node_ref option"
  as_source_entity :: "int option"
  as_target_entity :: "int option"

definition text_field :: "(string, json) js_map \<Rightarrow> string \<Rightarrow> string option" where
  "text_field m k = (case get_prop m k of Some (JStr s) \<Rightarrow> Some s | _ \<Rightarrow> None)"

text \<open>\<open>a ?? b\<close> on the properties of an object.\<close>

definition prop_or :: "(string, json) js_map \<Rightarrow> string \<Rightarrow> string \<Rightarrow> json option" where
  "prop_or m a b = (case get_prop m a of Some JNull \<Rightarrow> get_prop m b | None \<Rightarrow> get_prop m b | v \<Rightarrow> v)"

definition parseAssertionRecord :: "(string \<Rightarrow> json option) \<Rightarrow> json \<Rightarrow> assertion_content" where
  "parseAssertionRecord parse v =
     (let parsed = (case v of JStr s \<Rightarrow> parse s | v \<Rightarrow> Some v);
          m = (case parsed of Some (JObj m) \<Rightarrow> m | _ \<Rightarrow> []);
          predicate = Option.bind (text_field m ''predicate'') (\<lambda>s. if js_trim s = [] then None else Some (js_trim s));
          source = map_option js_trim (first_of (text_field m ''sourceEventRef'') (text_field m ''source_event_ref''))
      in \<lparr>as_predicate = predicate,
          as_source_event = Option.bind source (\<lambda>s. if s \<noteq> [] \<and> parseNodeRef s \<noteq> None then Some s else None),
          as_source_entity = positive_int (prop_or m ''sourceEntityId'' ''source_entity_id''),
          as_target_entity = positive_int (prop_or m ''targetEntityId'' ''target_entity_id'')\<rparr>)"

record assertion_traversal =
  av_assertion :: node_ref
  av_summary :: "string option"
  av_predicate :: "string option"
  av_source :: "node_ref option"
  av_target :: "node_ref option"
  av_source_event :: "node_ref option"
  av_updated_at :: int

definition assertion_traversal :: "(string \<Rightarrow> json option) \<Rightarrow> cognition_node \<Rightarrow> assertion_traversal" where
  "assertion_traversal parse c =
     (let p = parseAssertionRecord parse (gc_record c)
      in \<lparr>av_assertion = node Assertion_kind (gc_id c), av_summary = gc_summary c, av_predicate = as_predicate p,
          av_source = map_option (node Entity_kind) (as_source_entity p),
          av_target = map_option (node Entity_kind) (as_target_entity p),
          av_source_event = as_source_event p, av_updated_at = gc_updated_at c\<rparr>)"

definition assertions_of :: "string \<Rightarrow> graph_db \<Rightarrow> cognition_node list" where
  "assertions_of agentId db = filter (\<lambda>c. gc_agent c = agentId \<and> gc_kind c = ''assertion'') (cognition_nodes db)"

definition readAgentAssertionsLinkedToEntities :: "(string \<Rightarrow> json option) \<Rightarrow> string \<Rightarrow> node_ref list \<Rightarrow> graph_db \<Rightarrow>
    assertion_traversal list" where
  "readAgentAssertionsLinkedToEntities parse agentId refs db =
     (let ids = extractIdsFromRefs (js_unique refs) Entity_kind;
          linked = (\<lambda>i. case i of Some i \<Rightarrow> i \<in> set ids | None \<Rightarrow> False)
      in if ids = [] then []
         else map (assertion_traversal parse)
           (filter (\<lambda>c. let p = parseAssertionRecord parse (gc_record c)
              in linked (as_source_entity p) \<or> linked (as_target_entity p)) (assertions_of agentId db)))"

definition readAgentAssertionDetails :: "(string \<Rightarrow> json option) \<Rightarrow> string \<Rightarrow> node_ref list \<Rightarrow> int option \<Rightarrow> graph_db \<Rightarrow>
    assertion_traversal list" where
  "readAgentAssertionDetails parse agentId refs asOfCommittedTime db =
     (let ids = extractIdsFromRefs (js_unique refs) Assertion_kind
      in if ids = [] then []
         else map (assertion_traversal parse)
           (filter (\<lambda>c. gc_id c \<in> set ids \<and>
              (case asOfCommittedTime of Some t \<Rightarrow> gc_updated_at c \<le> t | None \<Rightarrow> True)) (assertions_of agentId db)))"

section \<open>Lookups\<close>

definition resolveEntityRefByPointerKey :: "(string \<Rightarrow> string) \<Rightarrow> string \<Rightarrow> string \<Rightarrow> graph_db \<Rightarrow> node_ref option" where
  "resolveEntityRefByPointerKey nfc pointerKey viewerAgentId db =
     (let normalized = nfc (js_trim pointerKey);
          rows = filter (\<lambda>e. ge_pointer_key e = normalized \<and>
            (ge_memory_scope e = ''private_overlay'' \<and> ge_owner e = Some viewerAgentId \<or>
             ge_memory_scope e = ''shared_public'')) (entity_nodes db);
          overlays = filter (\<lambda>e. ge_memory_scope e = ''private_overlay'') rows
      in if normalized = [] then None
         else (case overlays @ rows of [] \<Rightarrow> None | e # _ \<Rightarrow> Some (node Entity_kind (ge_id e))))"

definition getEntitiesForContext :: "string \<Rightarrow> nat \<Rightarrow> graph_db \<Rightarrow> entity_node list" where
  "getEntitiesForContext agentId limit db =
     take limit (sort_by (\<lambda>a b. ge_updated_at b < ge_updated_at a)
       (filter (\<lambda>e. ge_memory_scope e = ''shared_public'' \<or> ge_owner e = Some agentId) (entity_nodes db)))"

definition getEventsByIds :: "int list \<Rightarrow> graph_db \<Rightarrow> event_node list" where
  "getEventsByIds ids db = filter (\<lambda>e. gv_id e \<in> set ids) (event_nodes db)"

fun repo_clamp01 :: "js_num \<Rightarrow> rat" where
  "repo_clamp01 (Fin q) = (if q < 0 then 0 else if q > 1 then 1 else q)"
| "repo_clamp01 _ = 0"

definition getNodeSalience :: "node_ref list \<Rightarrow> graph_db \<Rightarrow> (node_ref \<times> rat) list" where
  "getNodeSalience refs db =
     map (\<lambda>(r, s). (r, repo_clamp01 s)) (filter (\<lambda>(r, s). r \<in> set refs) (node_scores db))"

type_synonym snapshots = "(node_ref, string option \<times> int option) js_map"

definition populate :: "node_kind \<Rightarrow> int list \<Rightarrow> (int \<times> string option \<times> int option) list \<Rightarrow> snapshots \<Rightarrow> snapshots" where
  "populate kind ids rows sink =
     fold (\<lambda>(i, snapshot). AList.update (node kind i) snapshot) (filter (\<lambda>(i, _). i \<in> set ids) rows) sink"

definition populatePrivateSnapshots :: "node_kind \<Rightarrow> int list \<Rightarrow> graph_db \<Rightarrow> snapshots \<Rightarrow> snapshots" where
  "populatePrivateSnapshots kind ids db =
     populate kind ids (map (\<lambda>c. (gc_id c, gc_summary c, Some (gc_updated_at c)))
       (filter (\<lambda>c. gc_kind c = kind_name kind) (cognition_nodes db)))"

definition getNodeSnapshots :: "node_ref list \<Rightarrow> graph_db \<Rightarrow> snapshots" where
  "getNodeSnapshots refs db =
     (let byKind = groupIdsByKind (js_unique refs); ids = (\<lambda>k. or_else (map_of byKind k) []);
          events = populate Event_kind (ids Event_kind)
            (map (\<lambda>e. (gv_id e, gv_summary e, Some (gv_timestamp e))) (event_nodes db)) [];
          missing = filter (\<lambda>i. map_of events (node Event_kind i) = None) (ids Event_kind);
          with_episodes = populate Event_kind missing
            (map (\<lambda>e. (gp_id e, gp_summary e, gp_valid_time e)) (episode_nodes db)) events;
          entities = populate Entity_kind (ids Entity_kind)
            (map (\<lambda>e. (ge_id e, ge_summary e, Some (ge_updated_at e))) (entity_nodes db)) with_episodes;
          facts = populate Fact_kind (ids Fact_kind)
            (map (\<lambda>f. (gf_id f, Some (gf_predicate f), Some (gf_valid f))) (fact_edges db)) entities
      in populatePrivateSnapshots Commitment_kind (ids Commitment_kind) db
           (populatePrivateSnapshots Evaluation_kind (ids Evaluation_kind) db
             (populatePrivateSnapshots Assertion_kind (ids Assertion_kind) db facts)))"

definition listRelationTypesForFrontier :: "node_ref list \<Rightarrow> graph_db \<Rightarrow> string list" where
  "listRelationTypesForFrontier refs db =
     filter (\<lambda>t. t \<in> set MEMORY_RELATION_TYPES)
       (remdups (map gm_type (filter (\<lambda>r. gm_source r \<in> set refs \<or> gm_target r \<in> set refs) (memory_relations db))))"

end
