(* ===== verification/Query_Plan.thy ===== *)
theory Query_Plan
  imports Graph_Refs
begin

text \<open>
  What a query asks for: the rule-based router (\<^verbatim>\<open>memory/query-router.ts\<close>) and the plan for
  retrieval and graph search made from its answer (\<^verbatim>\<open>query-plan-builder.ts\<close>). The word lists
  (\<^verbatim>\<open>query-routing-keywords.ts\<close>), the time patterns, the tokenizer and the segmenter of Chinese
  text, the aliases, the clock and the two environment switches are arguments; what is proved
  holds for all of them. Scores are exact rationals.
\<close>

section \<open>Queries and routes\<close>

datatype query_type = Q_entity | Q_event | Q_why | Q_relationship | Q_timeline | Q_state | Q_conflict

fun query_type_name :: "query_type \<Rightarrow> string" where
  "query_type_name Q_entity = ''entity''"
| "query_type_name Q_event = ''event''"
| "query_type_name Q_why = ''why''"
| "query_type_name Q_relationship = ''relationship''"
| "query_type_name Q_timeline = ''timeline''"
| "query_type_name Q_state = ''state''"
| "query_type_name Q_conflict = ''conflict''"

record vocabulary =
  vo_why :: "string list"
  vo_conflict :: "string list"
  vo_timeline :: "string list"
  vo_relationship :: "string list"
  vo_state :: "string list"
  vo_time_constraint :: "string list"
  vo_change :: "string list"
  vo_comparison :: "string list"
  vo_episode_memory :: "string list"
  vo_episode_detective :: "string list"
  vo_episode_scene :: "string list"
  vo_time_windows :: "((string \<Rightarrow> bool) \<times> int) list"

text \<open>The language tools and the aliases of an agent.\<close>

record lexicon =
  lx_lower :: "string \<Rightarrow> string"
  lx_tokenize :: "string \<Rightarrow> string list"
  lx_spans :: "string \<Rightarrow> (nat \<times> nat) list option"
  lx_alias :: "string \<Rightarrow> string \<Rightarrow> int option"
  lx_private_aliases :: "string \<Rightarrow> string list option"

record intent =
  it_type :: query_type
  it_confidence :: rat
  it_evidence :: "string list"

record signals =
  sg_episode :: rat
  sg_conflict :: rat
  sg_timeline :: rat
  sg_relationship :: rat
  sg_cognition :: rat
  sg_entity_focus :: rat

record route =
  rt_original :: string
  rt_normalized :: string
  rt_intents :: "intent list"
  rt_primary :: query_type
  rt_confidence :: rat
  rt_entity_ids :: "int list"
  rt_entity_hints :: "string list"
  rt_relation_pairs :: "(int \<times> int) list"
  rt_time_constraint :: "time_slice option"
  rt_time_signals :: "string list"
  rt_asks_why :: bool
  rt_asks_change :: bool
  rt_asks_comparison :: bool
  rt_signals :: signals
  rt_rationale :: string
  rt_rules :: "string list"
  rt_version :: string

section \<open>The router\<close>

definition contains :: "string \<Rightarrow> string \<Rightarrow> bool" where
  "contains haystack needle =
     list_ex (\<lambda>n. take (length needle) (drop n haystack) = needle) [0..<Suc (length haystack)]"

definition findHits :: "string \<Rightarrow> string list \<Rightarrow> string list" where
  "findHits haystack needles = filter (contains haystack) needles"

definition clamp01 :: "rat \<Rightarrow> rat" where
  "clamp01 v = (if v < 0 then 0 else if v > 1 then 1 else v)"

definition confidenceFromEvidence :: "nat \<Rightarrow> rat" where
  "confidenceFromEvidence n =
     (if n = 0 then 0 else if n = 1 then 1 / 2 else if n = 2 then 7 / 10 else if n = 3 then 85 / 100 else 95 / 100)"

definition alignsToJiebaBoundaries :: "nat \<Rightarrow> nat \<Rightarrow> (nat \<times> nat) list \<Rightarrow> bool" where
  "alignsToJiebaBoundaries s e spans =
     (list_ex (\<lambda>sp. fst sp = s) spans \<and> list_ex (\<lambda>sp. snd sp = e) spans)"

definition strip_at :: "string \<Rightarrow> string" where
  "strip_at token = (if token \<noteq> [] \<and> hd token = CHR ''@'' then tl token else token)"

text \<open>Entities found so far: their identifiers, without duplicates, and the alias of each.\<close>

type_synonym found = "int list \<times> string list"

definition add_entity :: "int option \<Rightarrow> string \<Rightarrow> found \<Rightarrow> found" where
  "add_entity i hint f =
     (case i of
        Some i \<Rightarrow> if i \<in> set (fst f) then f else (fst f @ [i], snd f @ [hint])
      | None \<Rightarrow> f)"

definition resolve_tokens :: "lexicon \<Rightarrow> string \<Rightarrow> string \<Rightarrow> found" where
  "resolve_tokens lx agent query =
     fold (\<lambda>token f.
         let alias = strip_at token
         in if length alias < 2 then f else add_entity (lx_alias lx alias agent) alias f)
       (lx_tokenize lx query) ([], [])"

definition occurrences :: "string \<Rightarrow> string \<Rightarrow> nat list" where
  "occurrences s needle = filter (\<lambda>n. take (length needle) (drop n s) = needle) [0..<Suc (length s)]"

text \<open>The second pass; a failure to list the aliases is swallowed.\<close>

definition scan_private_aliases :: "lexicon \<Rightarrow> string \<Rightarrow> string \<Rightarrow> found \<Rightarrow> found" where
  "scan_private_aliases lx agent query f =
     (case lx_private_aliases lx agent of
        None \<Rightarrow> f
      | Some aliases \<Rightarrow>
          if aliases = [] then f
          else (case lx_spans lx query of
              None \<Rightarrow> f
            | Some spans \<Rightarrow>
                fold (\<lambda>alias f.
                    if length alias < 2 then f
                    else fold (\<lambda>pos f. if alignsToJiebaBoundaries pos (pos + length alias) spans
                         then add_entity (lx_alias lx alias agent) alias f else f)
                      (occurrences query alias) f) aliases f))"

definition bucket :: "query_type \<Rightarrow> string list \<Rightarrow> intent list" where
  "bucket t hits =
     (if hits = [] then []
      else [\<lparr>it_type = t, it_confidence = confidenceFromEvidence (length hits), it_evidence = hits\<rparr>])"

definition LEGACY_PRIORITY :: "query_type list" where
  "LEGACY_PRIORITY = [Q_why, Q_conflict, Q_timeline, Q_relationship, Q_state]"

definition primary_intent :: "query_type option \<Rightarrow> intent list \<Rightarrow> int list \<Rightarrow> query_type" where
  "primary_intent mode intents ids =
     (case mode of
        Some m \<Rightarrow> m
      | None \<Rightarrow>
          (case find (\<lambda>t. \<exists>i \<in> set intents. it_type i = t) LEGACY_PRIORITY of
             Some t \<Rightarrow> t
           | None \<Rightarrow> if ids \<noteq> [] then Q_entity else Q_event))"

definition derive_time_constraint :: "vocabulary \<Rightarrow> int \<Rightarrow> string \<Rightarrow> time_slice option" where
  "derive_time_constraint vo now query =
     (case find (\<lambda>w. fst w query) (vo_time_windows vo) of
        Some w \<Rightarrow> Some \<lparr>sl_valid = None, sl_committed = Some (now - snd w)\<rparr>
      | None \<Rightarrow> None)"

fun pairs :: "'a list \<Rightarrow> ('a \<times> 'a) list" where
  "pairs [] = []"
| "pairs (x # xs) = map (Pair x) xs @ pairs xs"

definition route :: "vocabulary \<Rightarrow> lexicon \<Rightarrow> bool \<Rightarrow> bool \<Rightarrow> int \<Rightarrow> string \<Rightarrow> string \<Rightarrow> query_type option \<Rightarrow> int option \<Rightarrow> route" where
  "route vo lx scanEnabled episodeExpanded now query agent mode area =
     (let normalized = lx_lower lx (js_trim query);
          first = resolve_tokens lx agent query;
          (ids, hints) = (if scanEnabled then scan_private_aliases lx agent query first else first);
          hits = (\<lambda>words. findHits normalized words);
          why = hits (vo_why vo); conflict = hits (vo_conflict vo); timeline = hits (vo_timeline vo);
          relationship = hits (vo_relationship vo); state = hits (vo_state vo);
          time_words = hits (vo_time_constraint vo);
          change = hits (vo_change vo) \<noteq> []; comparison = hits (vo_comparison vo) \<noteq> [];
          memory = episodeExpanded \<and> hits (vo_episode_memory vo) \<noteq> [];
          detective = episodeExpanded \<and> hits (vo_episode_detective vo) \<noteq> [];
          scene = episodeExpanded \<and> hits (vo_episode_scene vo) \<noteq> [] \<and> area \<noteq> None;
          count = of_nat (length ids);
          intents = bucket Q_why why @ bucket Q_conflict conflict @ bucket Q_timeline timeline @
            bucket Q_relationship relationship @ bucket Q_state state @
            (if ids = [] then []
             else [\<lparr>it_type = Q_entity, it_confidence = clamp01 (4 / 10 + 2 / 10 * count), it_evidence = hints\<rparr>]);
          primary = primary_intent mode intents ids;
          weight = (\<lambda>b v. if b then v else 0);
          constraint = derive_time_constraint vo now query;
          relations = pairs ids;
          label = (\<lambda>b s. if b then [s] else [])
      in \<lparr>rt_original = query, rt_normalized = normalized, rt_intents = intents, rt_primary = primary,
          rt_confidence = (if intents = [] then 0 else Max (it_confidence ` set intents)),
          rt_entity_ids = ids, rt_entity_hints = hints, rt_relation_pairs = relations,
          rt_time_constraint = constraint, rt_time_signals = time_words,
          rt_asks_why = (why \<noteq> []), rt_asks_change = change, rt_asks_comparison = comparison,
          rt_signals =
            \<lparr>sg_episode = clamp01 (weight (timeline \<noteq> []) (4 / 10) + weight (time_words \<noteq> []) (3 / 10) +
               weight change (2 / 10) + weight memory (3 / 10) + weight detective (3 / 10) + weight scene (3 / 10)),
             sg_conflict = clamp01 (weight (conflict \<noteq> []) (7 / 10) + weight change (1 / 10)),
             sg_timeline = clamp01 (weight (timeline \<noteq> []) (7 / 10) + weight (time_words \<noteq> []) (3 / 10)),
             sg_relationship = clamp01 (weight (relationship \<noteq> []) (6 / 10) + weight (length ids \<ge> 2) (3 / 10)),
             sg_cognition = clamp01 (weight (why \<noteq> []) (6 / 10) + weight change (2 / 10) + weight (state \<noteq> []) (2 / 10)),
             sg_entity_focus = clamp01 (weight (ids \<noteq> []) (4 / 10) + min (4 / 10) (count * (2 / 10)))\<rparr>,
          rt_rationale = join_with '' | ''
            (label True (''primary='' @ query_type_name primary) @
             label (length intents > 1) (''multi-intent['' @ nat_str (length intents) @ '']'') @
             label (ids \<noteq> []) (''entities='' @ nat_str (length ids)) @
             label (time_words \<noteq> []) (''time='' @ join_with '','' time_words)),
          rt_rules =
            label (scanEnabled \<and> length ids > length (fst first)) ''private_alias_scan_hit'' @
            label (ids \<noteq> []) (''entities_resolved:'' @ nat_str (length ids)) @
            label memory ''episode_memory_keywords'' @ label detective ''episode_detective_keywords'' @
            label scene ''episode_scene_keywords'' @
            label (why \<noteq> []) ''why_keywords'' @ label (conflict \<noteq> []) ''conflict_keywords'' @
            label (timeline \<noteq> []) ''timeline_keywords'' @ label (relationship \<noteq> []) ''relationship_keywords'' @
            label (state \<noteq> []) ''state_keywords'' @
            (case mode of Some m \<Rightarrow> [''explicit_mode:'' @ query_type_name m] | None \<Rightarrow> []) @
            label change ''change_keywords'' @ label comparison ''comparison_keywords'' @
            label (time_words \<noteq> []) ''time_constraint_keywords'' @
            label (constraint \<noteq> None) ''time_window_derived'' @
            label (relations \<noteq> []) (''relation_pairs:'' @ nat_str (length relations)),
          rt_version = ''rule-v1''\<rparr>)"

section \<open>The plan\<close>

record facets =
  fa_base_query :: string
  fa_entity_filters :: "int list"
  fa_time_window :: "time_slice option"
  fa_weight :: rat
  fa_enabled :: bool
  fa_kind :: "string option"
  fa_stance :: "string option"

record graph_plan =
  pl_primary :: query_type
  pl_secondary :: "query_type list"
  pl_time_slice :: "time_slice option"
  pl_seed_bias :: "(string, rat) js_map"
  pl_edge_bias :: "(string, rat) js_map"

record query_plan =
  qp_narrative :: facets
  qp_cognition :: facets
  qp_episode :: facets
  qp_conflict_notes :: facets
  qp_graph :: graph_plan
  qp_version :: string
  qp_rationale :: string
  qp_rules :: "string list"

definition deriveEdgeBias :: "bool \<Rightarrow> bool \<Rightarrow> bool \<Rightarrow> (string, rat) js_map" where
  "deriveEdgeBias conflict why timeline =
     (if conflict then [(''conflicts_with'', 3 / 2), (''downgraded_by'', 13 / 10)] else []) @
     (if why then [(''causal'', 13 / 10), (''supports'', 12 / 10)] else []) @
     (if timeline then [(''temporal_prev'', 13 / 10), (''temporal_next'', 13 / 10), (''surfaced_as'', 12 / 10)] else [])"

fun agent_role_name :: "agent_role \<Rightarrow> string" where
  "agent_role_name Maiden = ''maiden''"
| "agent_role_name Rp_agent = ''rp_agent''"
| "agent_role_name Task_agent = ''task_agent''"

definition buildRationale :: "route \<Rightarrow> agent_role \<Rightarrow> graph_plan \<Rightarrow> string" where
  "buildRationale rt role pl =
     join_with '' | ''
       ([''role='' @ agent_role_name role, ''primary='' @ query_type_name (pl_primary pl)] @
        (if pl_secondary pl \<noteq> []
         then [''secondary=['' @ join_with '','' (map query_type_name (pl_secondary pl)) @ '']''] else []) @
        (if pl_time_slice pl \<noteq> None then [''time_slice''] else []) @
        (if length (rt_entity_ids rt) \<ge> 2 then [''multi_entity''] else []))"

definition build_plan :: "route \<Rightarrow> agent_role \<Rightarrow> query_plan" where
  "build_plan rt role =
     (let template = getDefaultTemplate role; sg = rt_signals rt;
          has = (\<lambda>t. \<exists>i \<in> set (rt_intents rt). it_type i = t);
          conflict = has Q_conflict; why = rt_asks_why rt \<or> has Q_why; timeline = has Q_timeline; state = has Q_state;
          surface = (\<lambda>enabled weight kind stance.
            \<lparr>fa_base_query = rt_normalized rt, fa_entity_filters = rt_entity_ids rt,
             fa_time_window = rt_time_constraint rt, fa_weight = (if enabled then clamp01 weight else 0),
             fa_enabled = enabled, fa_kind = kind, fa_stance = stance\<rparr>);
          pl = \<lparr>pl_primary = rt_primary rt,
            pl_secondary = map it_type (sort_by (\<lambda>a b. it_confidence b < it_confidence a)
              (filter (\<lambda>i. it_type i \<noteq> rt_primary rt) (rt_intents rt))),
            pl_time_slice = rt_time_constraint rt,
            pl_seed_bias =
              [(''entity'', clamp01 (1 / 2 + sg_entity_focus sg * (1 / 2))),
               (''event'', clamp01 (1 / 2 + sg_timeline sg * (3 / 10))),
               (''episode'', clamp01 (3 / 10 + sg_episode sg * (7 / 10))),
               (''assertion'', clamp01 (4 / 10 + sg_cognition sg * (4 / 10))),
               (''evaluation'', clamp01 (sg_cognition sg * (6 / 10) + (if why then 2 / 10 else 0))),
               (''commitment'', clamp01 (3 / 10 + (if state then 3 / 10 else 0)))],
            pl_edge_bias = deriveEdgeBias conflict why timeline\<rparr>
      in \<lparr>qp_narrative = surface (narrativeEnabled template) (1 / 2 + sg_entity_focus sg * (1 / 2)) None None,
          qp_cognition = surface (cognitionEnabled template) (4 / 10 + sg_cognition sg * (6 / 10))
            (if why then Some ''evaluation'' else None) (if conflict then Some ''contested'' else None),
          qp_episode = surface (episodeEnabled template) (3 / 10 + sg_episode sg * (7 / 10)) None None,
          qp_conflict_notes = surface (conflictNotesEnabled template) (sg_conflict sg) None None,
          qp_graph = pl, qp_version = ''deterministic-v1'',
          qp_rationale = buildRationale rt role pl,
          qp_rules = [''builder=deterministic-v1'', ''role='' @ agent_role_name role] @
            (if length (rt_intents rt) > 1 then [''multi_intent''] else []) @
            (if rt_time_constraint rt \<noteq> None then [''time_constrained''] else []) @
            (if length (rt_entity_ids rt) \<ge> 2 then [''multi_entity''] else [])\<rparr>)"

end
