(* ===== verification/Navigator.thy ===== *)
theory Navigator
  imports Graph_Repo Query_Plan
begin

text \<open>
  The search of the memory graph (\<^verbatim>\<open>memory/navigator.ts\<close>, \<^verbatim>\<open>memory/graph-edge-view.ts\<close>): seeds,
  the typed beam over the neighbours of each layer, the ranking of the paths, the final filter
  on visibility, the cut at a time and the levels of detail. The repository is a record of its
  read functions, so one search sees one state of the tables; the two caches of the navigator
  are passed along. Retrieval, the two optional searches, the embedding model, the router and
  the planner are arguments (an inner \<open>None\<close>: it threw), and so are the clock and the switch
  that makes the search use the plan. Scores are exact rationals.
\<close>

section \<open>What the navigator uses\<close>

record graph_repo =
  rp_visibility :: "node_ref list \<Rightarrow> visibility_record list"
  rp_owners :: "node_ref list \<Rightarrow> (node_ref \<times> string) list"
  rp_salience :: "node_ref list \<Rightarrow> (node_ref \<times> rat) list"
  rp_snapshots :: "node_ref list \<Rightarrow> snapshots"
  rp_logic :: "node_ref list \<Rightarrow> viewer_context \<Rightarrow> time_slice option \<Rightarrow> edge_record list"
  rp_relations :: "node_ref list \<Rightarrow> viewer_context \<Rightarrow> time_slice option \<Rightarrow> edge_record list"
  rp_semantic :: "node_ref list \<Rightarrow> viewer_context \<Rightarrow> time_slice option \<Rightarrow> edge_record list"
  rp_state_facts :: "node_ref list \<Rightarrow> viewer_context \<Rightarrow> time_slice option \<Rightarrow> edge_record list"
  rp_contexts :: "node_ref list \<Rightarrow> viewer_context \<Rightarrow> participant_context list"
  rp_events :: "node_ref list \<Rightarrow> viewer_context \<Rightarrow> participant_context list"
  rp_facts :: "node_ref list \<Rightarrow> fact_traversal list"
  rp_linked :: "string \<Rightarrow> node_ref list \<Rightarrow> assertion_traversal list"
  rp_details :: "string \<Rightarrow> node_ref list \<Rightarrow> int option \<Rightarrow> assertion_traversal list"

definition pg_repo :: "(string \<Rightarrow> json option) \<Rightarrow> graph_db \<Rightarrow> graph_repo" where
  "pg_repo parse db =
     \<lparr>rp_visibility = (\<lambda>refs. getNodeVisibility refs db), rp_owners = (\<lambda>refs. getPrivateNodeOwners refs db),
      rp_salience = (\<lambda>refs. getNodeSalience refs db), rp_snapshots = (\<lambda>refs. getNodeSnapshots refs db),
      rp_logic = (\<lambda>refs vc sl. readLogicEdges refs vc sl db),
      rp_relations = (\<lambda>refs vc sl. readMemoryRelationEdges refs vc sl db),
      rp_semantic = (\<lambda>refs vc sl. readSemanticEdges refs vc sl db),
      rp_state_facts = (\<lambda>refs vc sl. readStateFactEdges refs vc sl db),
      rp_contexts = (\<lambda>refs vc. readEventParticipantContexts parse refs vc db),
      rp_events = (\<lambda>refs vc. readVisibleEventsForEntityFrontier parse refs vc db),
      rp_facts = (\<lambda>refs. readActiveFactsForEntityFrontier refs db),
      rp_linked = (\<lambda>agent refs. readAgentAssertionsLinkedToEntities parse agent refs db),
      rp_details = (\<lambda>agent refs t. readAgentAssertionDetails parse agent refs t db)\<rparr>"

record seed =
  sn_ref :: node_ref
  sn_kind :: node_kind
  sn_lexical :: rat
  sn_semantic :: rat
  sn_fused :: rat
  sn_scope :: string

record beam_edge =
  be_from :: node_ref
  be_to :: node_ref
  be_kind :: string
  be_layer :: edge_layer
  be_weight :: rat
  be_timestamp :: "int option"
  be_summary :: "string option"
  be_fact_id :: "int option"
  be_evidence :: bool

record beam_path =
  bp_seed :: node_ref
  bp_nodes :: "node_ref list"
  bp_edges :: "beam_edge list"
  bp_depth :: nat

record path_score =
  ps_seed :: rat
  ps_edge_type :: rat
  ps_temporal :: rat
  ps_intent :: rat
  ps_support :: rat
  ps_recency :: rat
  ps_hop_penalty :: rat
  ps_redundancy :: rat
  ps_path :: rat

record provenance =
  pv_source_surface :: string
  pv_committed_time :: "int option"
  pv_confidence :: rat
  pv_conflict_refs :: "node_ref list"
  pv_edge_layers :: "edge_layer list"

record evidence =
  ev_path :: beam_path
  ev_score :: path_score
  ev_supporting_nodes :: "node_ref list"
  ev_supporting_facts :: "int list"
  ev_redacted :: "placeholder list"
  ev_summary :: "string option"
  ev_provenance :: "provenance option"

record strategy =
  st_name :: string
  st_edge_weights :: "(string, rat) js_map"
  st_width_multiplier :: rat

definition default_retrieval :: strategy where
  "default_retrieval = \<lparr>st_name = ''default_retrieval'', st_edge_weights = [], st_width_multiplier = 1\<rparr>"

definition GRAPH_RETRIEVAL_STRATEGIES :: "strategy list" where
  "GRAPH_RETRIEVAL_STRATEGIES =
     [default_retrieval,
      \<lparr>st_name = ''deep_explain'', st_edge_weights = [(''supports'', 12 / 10), (''derived_from'', 12 / 10)],
       st_width_multiplier = 3 / 2\<rparr>,
      \<lparr>st_name = ''time_slice_reconstruction'', st_edge_weights = [(''surfaced_as'', 13 / 10)], st_width_multiplier = 1\<rparr>,
      \<lparr>st_name = ''conflict_exploration'',
       st_edge_weights = [(''conflicts_with'', 2), (''downgraded_by'', 3 / 2), (''resolved_by'', 13 / 10)],
       st_width_multiplier = 12 / 10\<rparr>]"

record options =
  op_seed_count :: int
  op_beam_width :: int
  op_max_depth :: int
  op_max_candidates :: int

datatype detail_level = Concise | Standard | Audit

text \<open>The third argument of \<open>explore\<close> may carry the fields of options and of an input.\<close>

record explore_args =
  xa_seed_count :: "int option"
  xa_beam_width :: "int option"
  xa_max_depth :: "int option"
  xa_max_candidates :: "int option"
  xa_mode :: "query_type option"
  xa_focus_ref :: "node_ref option"
  xa_focus_key :: "string option"
  xa_valid :: "int option"
  xa_committed :: "int option"
  xa_detail :: "detail_level option"

record 'e navigator =
  ng_repo :: graph_repo
  ng_retrieve :: "string \<Rightarrow> viewer_context \<Rightarrow> int \<Rightarrow> 'e option \<Rightarrow> (thrown, seed list) result"
  ng_embed :: "(string \<Rightarrow> (thrown, 'e) result) option"
  ng_narrative :: "(string \<Rightarrow> viewer_context \<Rightarrow> string list option) option"
  ng_cognition :: "(string \<Rightarrow> string \<Rightarrow> string list option) option"
  ng_router :: "(string \<Rightarrow> string \<Rightarrow> query_type option \<Rightarrow> int option \<Rightarrow> route option) option"
  ng_planner :: "(route \<Rightarrow> agent_role \<Rightarrow> query_plan option) option"
  ng_vocabulary :: vocabulary
  ng_lexicon :: lexicon
  ng_use_plan :: bool

definition normalizeOptions :: "explore_args \<Rightarrow> options" where
  "normalizeOptions a =
     \<lparr>op_seed_count = min 32 (max 1 (or_else (xa_seed_count a) 10)),
      op_beam_width = min 32 (max 1 (or_else (xa_beam_width a) 8)),
      op_max_depth = min 2 (max 1 (or_else (xa_max_depth a) 2)),
      op_max_candidates = min 64 (max 1 (or_else (xa_max_candidates a) 12))\<rparr>"

definition input_slice :: "explore_args \<Rightarrow> time_slice" where
  "input_slice a = \<lparr>sl_valid = xa_valid a, sl_committed = xa_committed a\<rparr>"

section \<open>Reading the query\<close>

record analysis =
  an_normalized :: string
  an_type :: query_type
  an_entity_ids :: "int js_set"
  an_entity_hints :: "string js_set"
  an_time_constraint :: bool

definition includesAny :: "string \<Rightarrow> string list \<Rightarrow> bool" where
  "includesAny haystack needles = list_ex (contains haystack) needles"

definition analyzeQuery :: "'e navigator \<Rightarrow> string \<Rightarrow> viewer_context \<Rightarrow> query_type option \<Rightarrow> analysis" where
  "analyzeQuery ng query vc mode =
     (let lx = ng_lexicon ng; vo = ng_vocabulary ng;
          normalized = lx_lower lx (js_trim query);
          (ids, hints) = fold (\<lambda>token (ids, hints).
              let alias = strip_at token
              in if length alias < 2 then (ids, hints)
                 else (case lx_alias lx alias (vc_agent_id vc) of
                     Some i \<Rightarrow> (set_add i ids, set_add alias hints)
                   | None \<Rightarrow> (ids, hints))) (lx_tokenize lx query) ([], []);
          query_type =
            (case mode of Some m \<Rightarrow> m
             | None \<Rightarrow>
                if includesAny normalized (vo_why vo) then Q_why
                else if includesAny normalized (vo_conflict vo) then Q_conflict
                else if includesAny normalized (vo_timeline vo) then Q_timeline
                else if includesAny normalized (vo_relationship vo) then Q_relationship
                else if includesAny normalized (vo_state vo) then Q_state
                else if ids \<noteq> [] then Q_entity else Q_event)
      in \<lparr>an_normalized = normalized, an_type = query_type, an_entity_ids = ids, an_entity_hints = hints,
          an_time_constraint = includesAny normalized (vo_time_constraint vo)\<rparr>)"

definition emitQueryRouteAndPlanShadow :: "'e navigator \<Rightarrow> string \<Rightarrow> viewer_context \<Rightarrow> query_type option \<Rightarrow>
    route option \<times> query_plan option" where
  "emitQueryRouteAndPlanShadow ng query vc mode =
     (case ng_router ng of
        None \<Rightarrow> (None, None)
      | Some router \<Rightarrow>
          (case router query (vc_agent_id vc) mode (vc_area_id vc) of
             None \<Rightarrow> (None, None)
           | Some rt \<Rightarrow>
               (Some rt, Option.bind (ng_planner ng) (\<lambda>build. build rt (vc_role vc)))))"

section \<open>Visibility, with the caches\<close>

record nav_cache =
  nc_records :: "(node_ref, visibility_record option) js_map"
  nc_owners :: "(node_ref, string option) js_map"

definition empty_cache :: nav_cache where
  "empty_cache = \<lparr>nc_records = [], nc_owners = []\<rparr>"

fun toVisibilityNodeData :: "visibility_record \<Rightarrow> node_data option" where
  "toVisibilityNodeData (Episode_record r location owner) = Some (no_data\<lparr>nd_agent := Some owner\<rparr>)"
| "toVisibilityNodeData v = repo_node_data v"

definition primeVisibilityRecords :: "graph_repo \<Rightarrow> node_ref list \<Rightarrow> nav_cache \<Rightarrow> nav_cache" where
  "primeVisibilityRecords rp refs c =
     (let missing = filter (\<lambda>r. map_of (nc_records c) r = None) refs
      in if missing = [] then c
         else
           (let byRef = record_map (rp_visibility rp missing)
            in c\<lparr>nc_records := fold (\<lambda>r. AList.update r (map_of byRef r)) missing (nc_records c)\<rparr>))"

definition record_disposition :: "viewer_context \<Rightarrow> node_ref \<Rightarrow> visibility_record option \<Rightarrow> disposition" where
  "record_disposition vc r v =
     (case Option.bind v toVisibilityNodeData of None \<Rightarrow> Hidden | Some d \<Rightarrow> policyDisposition vc r d)"

definition getNodeDisposition :: "graph_repo \<Rightarrow> viewer_context \<Rightarrow> node_ref \<Rightarrow> nav_cache \<Rightarrow> disposition \<times> nav_cache" where
  "getNodeDisposition rp vc r c =
     (let c' = primeVisibilityRecords rp [r] c
      in (record_disposition vc r (or_else (map_of (nc_records c') r) None), c'))"

text \<open>A loop that threads a state and collects what each round returns.\<close>

fun traverse :: "('a \<Rightarrow> 's \<Rightarrow> 'b \<times> 's) \<Rightarrow> 'a list \<Rightarrow> 's \<Rightarrow> 'b list \<times> 's" where
  "traverse f [] s = ([], s)"
| "traverse f (x # xs) s = (let (y, s') = f x s; (ys, s'') = traverse f xs s' in (y # ys, s''))"

definition dispositions :: "graph_repo \<Rightarrow> viewer_context \<Rightarrow> node_ref list \<Rightarrow> nav_cache \<Rightarrow>
    (node_ref \<times> disposition) list \<times> nav_cache" where
  "dispositions rp vc refs c =
     traverse (\<lambda>r c. let (d, c') = getNodeDisposition rp vc r c in ((r, d), c')) refs (primeVisibilityRecords rp refs c)"

definition filterVisibleNodeRefs :: "graph_repo \<Rightarrow> viewer_context \<Rightarrow> node_ref list \<Rightarrow> nav_cache \<Rightarrow> node_ref list \<times> nav_cache" where
  "filterVisibleNodeRefs rp vc refs c =
     (let (ds, c') = dispositions rp vc (js_unique refs) c
      in (map fst (filter (\<lambda>(r, d). d = Visible) ds), c'))"

definition private_kind :: "node_ref \<Rightarrow> bool" where
  "private_kind r = (case parseNodeRef r of
     Some (k, i) \<Rightarrow> k \<in> {Assertion_kind, Evaluation_kind, Commitment_kind, Episode_kind} | None \<Rightarrow> False)"

definition getPrivateNodeAgentId :: "graph_repo \<Rightarrow> node_ref \<Rightarrow> nav_cache \<Rightarrow> string option \<times> nav_cache" where
  "getPrivateNodeAgentId rp r c =
     (case map_of (nc_owners c) r of
        Some owner \<Rightarrow> (owner, c)
      | None \<Rightarrow>
          (let owner = (if private_kind r
                 then (case rp_owners rp [r] of [] \<Rightarrow> None | (_, a) # _ \<Rightarrow> Some a) else None)
           in (owner, c\<lparr>nc_owners := AList.update r owner (nc_owners c)\<rparr>)))"

definition isSameAgentPrivateCompatibility :: "graph_repo \<Rightarrow> node_ref \<Rightarrow> node_ref \<Rightarrow> string \<Rightarrow> nav_cache \<Rightarrow> bool \<times> nav_cache" where
  "isSameAgentPrivateCompatibility rp from_ref to_ref agent c =
     (if \<not> private_kind from_ref \<and> \<not> private_kind to_ref then (True, c)
      else
        (let (from_owner, c1) = (if private_kind from_ref then getPrivateNodeAgentId rp from_ref c else (Some agent, c))
         in if from_owner \<noteq> Some agent then (False, c1)
            else
              (let (to_owner, c2) = (if private_kind to_ref then getPrivateNodeAgentId rp to_ref c1 else (Some agent, c1))
               in if to_owner \<noteq> Some agent then (False, c2) else (True, c2))))"

section \<open>Edges\<close>

definition inferEdgeLayer :: "string \<Rightarrow> edge_layer" where
  "inferEdgeLayer kind =
     (if kind \<in> {''semantic_similar'', ''entity_bridge'', ''conflict_or_update''} then Heuristic_layer
      else if kind \<in> {''causal'', ''temporal_prev'', ''temporal_next'', ''same_episode''} then Symbolic_layer
      else State_layer)"

type_synonym neighbors = "(node_ref, beam_edge list) js_map"

definition pushEdge :: "beam_edge \<Rightarrow> neighbors \<Rightarrow> neighbors" where
  "pushEdge e m = AList.update (be_from e) (or_else (map_of m (be_from e)) [] @ [e]) m"

definition pushEdges :: "beam_edge list \<Rightarrow> neighbors \<Rightarrow> neighbors" where
  "pushEdges es m = fold pushEdge es m"

text \<open>
  The edge view (\<^verbatim>\<open>fromRepoRecord\<close>) works out the contract of a record again, and an edge of the
  beam is made from it.
\<close>

definition fromRepoRecord :: "edge_record \<Rightarrow> edge_record" where
  "fromRepoRecord e =
     (let c = map_of RELATION_CONTRACTS (er_type e) in
      e\<lparr>er_truth_bearing := (case c of Some c \<Rightarrow> lc_truth_bearing c | None \<Rightarrow> er_layer e \<noteq> Heuristic_layer),
        er_heuristic_only := (case c of Some c \<Rightarrow> lc_heuristic_only c | None \<Rightarrow> er_layer e = Heuristic_layer),
        er_source_family := endpoint_family lc_source c (er_source e),
        er_target_family := endpoint_family lc_target c (er_target e),
        er_declared := (c \<noteq> None)\<rparr>)"

definition view_edge :: "edge_record \<Rightarrow> string \<Rightarrow> rat \<Rightarrow> int option \<Rightarrow> bool \<Rightarrow> beam_edge" where
  "view_edge e kind weight factId evidence =
     \<lparr>be_from = er_source e, be_to = er_target e, be_kind = kind, be_layer = er_layer e, be_weight = weight,
      be_timestamp = er_timestamp e, be_summary = Some (er_type e), be_fact_id = factId, be_evidence = evidence\<rparr>"

text \<open>An edge the navigator makes itself, whose layer is inferred from its kind.\<close>

definition own_edge :: "node_ref \<Rightarrow> node_ref \<Rightarrow> string \<Rightarrow> rat \<Rightarrow> int option \<Rightarrow> string option \<Rightarrow> int option \<Rightarrow> bool \<Rightarrow> beam_edge" where
  "own_edge from_ref to_ref kind weight timestamp summary factId evidence =
     \<lparr>be_from = from_ref, be_to = to_ref, be_kind = kind, be_layer = inferEdgeLayer kind, be_weight = weight,
      be_timestamp = timestamp, be_summary = summary, be_fact_id = factId, be_evidence = evidence\<rparr>"

definition fact_id_of :: "node_ref \<Rightarrow> int option" where
  "fact_id_of r = (case parseNodeRef r of Some (k, i) \<Rightarrow> if k = Fact_kind then Some i else None | None \<Rightarrow> None)"

type_synonym expansion = "neighbors \<times> nav_cache"

definition expandSemanticEdges :: "graph_repo \<Rightarrow> viewer_context \<Rightarrow> time_slice option \<Rightarrow> bool \<Rightarrow> node_ref js_set \<Rightarrow> expansion \<Rightarrow> expansion" where
  "expandSemanticEdges rp vc slice privateFrontier frontier ex =
     fold (\<lambda>e (m, c).
         let (ok, c') = (if privateFrontier
               then isSameAgentPrivateCompatibility rp (er_source e) (er_target e) (vc_agent_id vc) c else (True, c))
         in if ok then (pushEdge (view_edge e (er_type e) (clamp01 (er_weight e)) None False) m, c') else (m, c'))
       (map fromRepoRecord (rp_semantic rp frontier vc slice)) ex"

definition participant_edges :: "node_ref list \<Rightarrow> participant_context list \<Rightarrow> beam_edge list" where
  "participant_edges visible contexts =
     concat (map (\<lambda>x. map (\<lambda>target. own_edge (px_event x) target ''participant'' (85 / 100)
                 (Some (px_timestamp x)) (px_summary x) None False)
               (filter (\<lambda>target. target \<in> set visible) (px_participants x))) contexts)"

definition expandEventFrontier :: "graph_repo \<Rightarrow> viewer_context \<Rightarrow> time_slice option \<Rightarrow> node_ref js_set \<Rightarrow> expansion \<Rightarrow> expansion" where
  "expandEventFrontier rp vc slice frontier ex =
     (if frontier = [] then ex
      else
        (let (m, c) = ex;
             logic = map (\<lambda>e. view_edge e (er_type e) (er_weight e) None (er_truth_bearing e))
               (map fromRepoRecord (rp_logic rp frontier vc slice));
             facts = map (\<lambda>e. view_edge e ''fact_support'' (er_weight e) (fact_id_of (er_target e)) True)
               (map fromRepoRecord (rp_state_facts rp frontier vc slice));
             contexts = rp_contexts rp frontier vc;
             (visible, c') = filterVisibleNodeRefs rp vc (js_unique (concat (map px_participants contexts))) c
         in expandSemanticEdges rp vc slice False frontier
              (pushEdges (logic @ facts @ participant_edges visible contexts) m, c')))"

definition entity_fact_edges :: "node_ref js_set \<Rightarrow> node_ref list \<Rightarrow> fact_traversal list \<Rightarrow> beam_edge list" where
  "entity_fact_edges frontier visible rows =
     concat (map (\<lambda>r.
         (if ft_source r \<in> set frontier \<and> ft_target r \<in> set visible
          then [own_edge (ft_source r) (ft_target r) ''fact_relation'' 1 (Some (ft_valid r)) (Some (ft_predicate r))
                  (fact_id_of (ft_fact r)) True] else []) @
         (if ft_target r \<in> set frontier \<and> ft_source r \<in> set visible
          then [own_edge (ft_target r) (ft_source r) ''fact_relation'' 1 (Some (ft_valid r)) (Some (ft_predicate r))
                  (fact_id_of (ft_fact r)) True] else [])) rows)"

definition event_of_edges :: "node_ref js_set \<Rightarrow> participant_context list \<Rightarrow> beam_edge list" where
  "event_of_edges frontier rows =
     concat (map (\<lambda>x. map (\<lambda>entity. own_edge entity (px_event x) ''participant'' (85 / 100)
                 (Some (px_timestamp x)) (px_summary x) None False)
               (filter (\<lambda>entity. entity \<in> set frontier) (px_participants x))) rows)"

definition belief_edges :: "node_ref js_set \<Rightarrow> node_ref list \<Rightarrow> assertion_traversal list \<Rightarrow> beam_edge list" where
  "belief_edges frontier visible rows =
     concat (map (\<lambda>r.
         let summary = first_of (av_predicate r) (av_summary r);
             edge = (\<lambda>from_ref. case from_ref of
                 Some f \<Rightarrow> if f \<in> set frontier
                   then [own_edge f (av_assertion r) ''fact_relation'' (7 / 10) (Some (av_updated_at r)) summary None False] else []
               | None \<Rightarrow> [])
         in if av_assertion r \<in> set visible then edge (av_source r) @ edge (av_target r) else []) rows)"

definition expandEntityFrontier :: "graph_repo \<Rightarrow> viewer_context \<Rightarrow> time_slice option \<Rightarrow> node_ref js_set \<Rightarrow> expansion \<Rightarrow> expansion" where
  "expandEntityFrontier rp vc slice frontier ex =
     (if extractIdsFromRefs frontier Entity_kind = [] then ex
      else
        (let (m, c) = ex;
             factRows = rp_facts rp frontier;
             (visible, c1) = filterVisibleNodeRefs rp vc (concat (map (\<lambda>r. [ft_source r, ft_target r]) factRows)) c;
             events = rp_events rp frontier vc;
             beliefs = rp_linked rp (vc_agent_id vc) frontier;
             (visible_beliefs, c2) = filterVisibleNodeRefs rp vc (map av_assertion beliefs) c1
         in expandSemanticEdges rp vc slice False frontier
              (pushEdges (entity_fact_edges frontier visible factRows @ event_of_edges frontier events @
                 belief_edges frontier visible_beliefs beliefs) m, c2)))"

definition option_list :: "'a option \<Rightarrow> 'a list" where
  "option_list x = (case x of Some v \<Rightarrow> [v] | None \<Rightarrow> [])"

definition fact_edges_out :: "node_ref list \<Rightarrow> fact_traversal list \<Rightarrow> beam_edge list" where
  "fact_edges_out visible rows =
     concat (map (\<lambda>r.
         let edge = (\<lambda>to_ref kind weight. if to_ref \<in> set visible
               then [own_edge (ft_fact r) to_ref kind weight (Some (ft_valid r)) (Some (ft_predicate r))
                       (fact_id_of (ft_fact r)) True] else [])
         in edge (ft_source r) ''fact_relation'' (95 / 100) @ edge (ft_target r) ''fact_relation'' (95 / 100) @
            concat (map (\<lambda>e. edge e ''fact_support'' (9 / 10)) (option_list (ft_source_event r)))) rows)"

definition expandFactFrontier :: "graph_repo \<Rightarrow> viewer_context \<Rightarrow> time_slice option \<Rightarrow> node_ref js_set \<Rightarrow> expansion \<Rightarrow> expansion" where
  "expandFactFrontier rp vc slice frontier ex =
     (if frontier = [] then ex
      else
        (let (m, c) = ex;
             rows = rp_facts rp frontier;
             (visible, c') = filterVisibleNodeRefs rp vc
               (concat (map (\<lambda>r. [ft_source r, ft_target r] @ option_list (ft_source_event r)) rows)) c
         in expandSemanticEdges rp vc slice False frontier (pushEdges (fact_edges_out visible rows) m, c')))"

definition expandPrivateEventFrontier :: "graph_repo \<Rightarrow> viewer_context \<Rightarrow> time_slice option \<Rightarrow> node_ref js_set \<Rightarrow> expansion \<Rightarrow> expansion" where
  "expandPrivateEventFrontier rp vc slice frontier ex =
     (if frontier = [] then ex else expandSemanticEdges rp vc slice True frontier ex)"

definition belief_edges_out :: "(int, node_ref) js_map \<Rightarrow> node_ref list \<Rightarrow> assertion_traversal list \<Rightarrow> beam_edge list" where
  "belief_edges_out idToRef visible rows =
     concat (map (\<lambda>r.
         let beliefId = (case parseNodeRef (av_assertion r) of
               Some (k, i) \<Rightarrow> if k = Assertion_kind then Some i else None | None \<Rightarrow> None);
             from_ref = (case beliefId of Some i \<Rightarrow> or_else (map_of idToRef i) (av_assertion r) | None \<Rightarrow> av_assertion r);
             summary = first_of (av_predicate r) (av_summary r);
             edge = (\<lambda>to_ref kind weight. if to_ref \<in> set visible
               then [own_edge from_ref to_ref kind weight (Some (av_updated_at r)) summary None False] else []);
             edges = (\<lambda>to_ref kind weight. concat (map (\<lambda>t. edge t kind weight) (option_list to_ref)))
         in if av_assertion r \<in> set visible
            then edges (av_source r) ''fact_relation'' (75 / 100) @ edges (av_target r) ''fact_relation'' (75 / 100) @
              edges (av_source_event r) ''fact_support'' (7 / 10)
            else []) rows)"

definition expandPrivateBeliefFrontier :: "graph_repo \<Rightarrow> viewer_context \<Rightarrow> time_slice option \<Rightarrow> node_ref js_set \<Rightarrow> expansion \<Rightarrow> expansion" where
  "expandPrivateBeliefFrontier rp vc slice frontier ex =
     (let idToRef = fold (\<lambda>r m. case parseNodeRef r of Some (k, i) \<Rightarrow> AList.update i r m | None \<Rightarrow> m) frontier []
      in if frontier = [] \<or> idToRef = [] then ex
         else
           (let (m, c) = ex;
                details = rp_details rp (vc_agent_id vc) frontier (Option.bind slice sl_committed);
                (visible, c') = filterVisibleNodeRefs rp vc
                  (concat (map (\<lambda>d. [av_assertion d] @ option_list (av_source d) @ option_list (av_target d) @
                     option_list (av_source_event d)) details)) c
            in expandSemanticEdges rp vc slice True frontier (pushEdges (belief_edges_out idToRef visible details) m, c')))"

definition expandRelationEdges :: "graph_repo \<Rightarrow> viewer_context \<Rightarrow> time_slice option \<Rightarrow> node_ref list \<Rightarrow> expansion \<Rightarrow> expansion" where
  "expandRelationEdges rp vc slice refs ex =
     (if refs = [] then ex
      else
        (let (m, c) = ex
         in (pushEdges (map (\<lambda>e. view_edge e (er_type e) (er_weight e) None (er_truth_bearing e))
               (map fromRepoRecord (rp_relations rp (js_unique refs) vc slice))) m, c)))"

type_synonym frontier = "(node_kind, node_ref js_set) js_map"

definition fetchNeighborsByFrontier :: "graph_repo \<Rightarrow> viewer_context \<Rightarrow> time_slice option \<Rightarrow> frontier \<Rightarrow> nav_cache \<Rightarrow> expansion" where
  "fetchNeighborsByFrontier rp vc slice frontier c =
     (let of_kind = (\<lambda>k. or_else (map_of frontier k) [])
      in expandRelationEdges rp vc slice (concat (map snd frontier))
           (expandPrivateBeliefFrontier rp vc slice (of_kind Assertion_kind)
             (expandPrivateEventFrontier rp vc slice (js_unique (of_kind Evaluation_kind @ of_kind Commitment_kind))
               (expandFactFrontier rp vc slice (of_kind Fact_kind)
                 (expandEntityFrontier rp vc slice (of_kind Entity_kind)
                   (expandEventFrontier rp vc slice (of_kind Event_kind) ([], c)))))))"

section \<open>Scores of seeds and edges\<close>

fun QUERY_TYPE_PRIORITY :: "query_type \<Rightarrow> string list" where
  "QUERY_TYPE_PRIORITY Q_entity = [''fact_relation'', ''participant'', ''fact_support'', ''semantic_similar'']"
| "QUERY_TYPE_PRIORITY Q_event = [''same_episode'', ''temporal_prev'', ''temporal_next'', ''causal'', ''fact_support'']"
| "QUERY_TYPE_PRIORITY Q_why = [''causal'', ''fact_support'', ''fact_relation'', ''temporal_prev'']"
| "QUERY_TYPE_PRIORITY Q_relationship = [''fact_relation'', ''fact_support'', ''participant'', ''semantic_similar'']"
| "QUERY_TYPE_PRIORITY Q_timeline = [''temporal_prev'', ''temporal_next'', ''same_episode'', ''causal'', ''fact_support'']"
| "QUERY_TYPE_PRIORITY Q_state = [''fact_relation'', ''conflict_or_update'', ''fact_support'', ''temporal_next'']"
| "QUERY_TYPE_PRIORITY Q_conflict = [''conflict_or_update'', ''fact_relation'', ''fact_support'', ''causal'', ''temporal_prev'']"

definition mergedEdgePriority :: "query_type \<Rightarrow> query_type list \<Rightarrow> string list" where
  "mergedEdgePriority primary secondaries =
     fold (\<lambda>t out. fold set_add (QUERY_TYPE_PRIORITY t) out) (primary # secondaries) []"

definition ordered_kinds :: "query_type \<Rightarrow> query_type list \<Rightarrow> string list" where
  "ordered_kinds primary secondaries =
     (if secondaries = [] then QUERY_TYPE_PRIORITY primary else mergedEdgePriority primary secondaries)"

text \<open>What scoring reads of the plan: the primary and secondary intents and the plan itself.\<close>

record guidance =
  gu_type :: query_type
  gu_secondaries :: "query_type list"
  gu_strategy :: strategy
  gu_plan :: "query_plan option"

definition effectiveEdgeMultiplier :: "string \<Rightarrow> strategy \<Rightarrow> query_plan option \<Rightarrow> rat" where
  "effectiveEdgeMultiplier kind st plan =
     or_else (map_of (st_edge_weights st) kind) 1 *
     (case plan of None \<Rightarrow> 1 | Some p \<Rightarrow> or_else (map_of (pl_edge_bias (qp_graph p)) kind) 1)"

definition resolveEffectivePrimaryIntent :: "query_type \<Rightarrow> query_plan option \<Rightarrow> query_type" where
  "resolveEffectivePrimaryIntent t plan = (case plan of None \<Rightarrow> t | Some p \<Rightarrow> pl_primary (qp_graph p))"

definition resolveEffectiveSecondaryIntents :: "query_plan option \<Rightarrow> query_type list" where
  "resolveEffectiveSecondaryIntents plan = (case plan of None \<Rightarrow> [] | Some p \<Rightarrow> pl_secondary (qp_graph p))"

fun index_of :: "'a \<Rightarrow> 'a list \<Rightarrow> nat option" where
  "index_of x [] = None"
| "index_of x (y # ys) = (if x = y then Some 0 else map_option Suc (index_of x ys))"

definition edgePriorityScore :: "guidance \<Rightarrow> string \<Rightarrow> rat" where
  "edgePriorityScore gu kind =
     (let ordered = ordered_kinds (gu_type gu) (gu_secondaries gu)
      in (case index_of kind ordered of
            Some i \<Rightarrow> 1 - of_nat i / of_nat (max (length ordered) 1)
          | None \<Rightarrow> if kind \<in> set MEMORY_RELATION_TYPES then 3 / 10 else 1 / 10))"

definition edge_multiplier :: "guidance \<Rightarrow> beam_edge \<Rightarrow> rat" where
  "edge_multiplier gu e = effectiveEdgeMultiplier (be_kind e) (gu_strategy gu) (gu_plan gu)"

text \<open>\<open>compareNeighborEdges\<close>, as the relation of coming first.\<close>

definition edge_before :: "guidance \<Rightarrow> beam_edge \<Rightarrow> beam_edge \<Rightarrow> bool" where
  "edge_before gu a b =
     (let pa = edgePriorityScore gu (be_kind a); pb = edgePriorityScore gu (be_kind b);
          wa = be_weight a * edge_multiplier gu a; wb = be_weight b * edge_multiplier gu b
      in if pa \<noteq> pb then pa > pb
         else if wa \<noteq> wb then wa > wb
         else or_else (be_timestamp a) 0 > or_else (be_timestamp b) 0)"

fun nodeTypePrior :: "query_type \<Rightarrow> node_kind \<Rightarrow> rat" where
  "nodeTypePrior Q_entity k = (case k of Entity_kind \<Rightarrow> 1 | Fact_kind \<Rightarrow> 75 / 100 | Event_kind \<Rightarrow> 4 / 10
     | Assertion_kind \<Rightarrow> 7 / 10 | Evaluation_kind \<Rightarrow> 4 / 10 | Commitment_kind \<Rightarrow> 4 / 10 | Episode_kind \<Rightarrow> 35 / 100)"
| "nodeTypePrior Q_event k = (case k of Event_kind \<Rightarrow> 1 | Fact_kind \<Rightarrow> 7 / 10 | Entity_kind \<Rightarrow> 55 / 100
     | Assertion_kind \<Rightarrow> 45 / 100 | Evaluation_kind \<Rightarrow> 8 / 10 | Commitment_kind \<Rightarrow> 6 / 10 | Episode_kind \<Rightarrow> 85 / 100)"
| "nodeTypePrior Q_why k = (case k of Event_kind \<Rightarrow> 1 | Fact_kind \<Rightarrow> 85 / 100 | Entity_kind \<Rightarrow> 1 / 2
     | Assertion_kind \<Rightarrow> 65 / 100 | Evaluation_kind \<Rightarrow> 85 / 100 | Commitment_kind \<Rightarrow> 75 / 100 | Episode_kind \<Rightarrow> 8 / 10)"
| "nodeTypePrior Q_relationship k = (case k of Entity_kind \<Rightarrow> 1 | Fact_kind \<Rightarrow> 9 / 10 | Event_kind \<Rightarrow> 45 / 100
     | Assertion_kind \<Rightarrow> 7 / 10 | Evaluation_kind \<Rightarrow> 45 / 100 | Commitment_kind \<Rightarrow> 1 / 2 | Episode_kind \<Rightarrow> 3 / 10)"
| "nodeTypePrior Q_timeline k = (case k of Event_kind \<Rightarrow> 1 | Fact_kind \<Rightarrow> 1 / 2 | Entity_kind \<Rightarrow> 3 / 10
     | Assertion_kind \<Rightarrow> 45 / 100 | Evaluation_kind \<Rightarrow> 85 / 100 | Commitment_kind \<Rightarrow> 7 / 10 | Episode_kind \<Rightarrow> 9 / 10)"
| "nodeTypePrior Q_state k = (case k of Fact_kind \<Rightarrow> 1 | Entity_kind \<Rightarrow> 85 / 100 | Event_kind \<Rightarrow> 1 / 2
     | Assertion_kind \<Rightarrow> 8 / 10 | Evaluation_kind \<Rightarrow> 1 / 2 | Commitment_kind \<Rightarrow> 75 / 100 | Episode_kind \<Rightarrow> 4 / 10)"
| "nodeTypePrior Q_conflict k = (case k of Assertion_kind \<Rightarrow> 1 | Fact_kind \<Rightarrow> 9 / 10 | Event_kind \<Rightarrow> 7 / 10
     | Evaluation_kind \<Rightarrow> 75 / 100 | Commitment_kind \<Rightarrow> 6 / 10 | Entity_kind \<Rightarrow> 6 / 10 | Episode_kind \<Rightarrow> 65 / 100)"

definition loadSalienceForRefs :: "graph_repo \<Rightarrow> node_ref list \<Rightarrow> (node_ref, rat) js_map" where
  "loadSalienceForRefs rp refs =
     fold (\<lambda>(r, s). AList.update r (clamp01 s)) (if refs = [] then [] else rp_salience rp (js_unique refs)) []"

definition isAliasMatchedSeed :: "seed \<Rightarrow> analysis \<Rightarrow> bool" where
  "isAliasMatchedSeed s an =
     (sn_kind s = Entity_kind \<and>
      (case parseNodeRef (sn_ref s) of Some (k, i) \<Rightarrow> i \<in> set (an_entity_ids an) | None \<Rightarrow> False))"

definition computeSeedScores :: "graph_repo \<Rightarrow> seed list \<Rightarrow> analysis \<Rightarrow> guidance \<Rightarrow> (node_ref, rat) js_map" where
  "computeSeedScores rp seeds an gu =
     (let salience = loadSalienceForRefs rp (map sn_ref seeds)
      in fold (\<lambda>s.
           let parsed = parseNodeRef (sn_ref s);
               base = (case parsed of Some (k, i) \<Rightarrow> nodeTypePrior (gu_type gu) k | None \<Rightarrow> 2 / 10);
               bias = (case (parsed, gu_plan gu) of
                   (Some (k, i), Some p) \<Rightarrow> or_else (map_of (pl_seed_bias (qp_graph p)) (kind_name k)) 0
                 | _ \<Rightarrow> 0)
           in AList.update (sn_ref s)
                (clamp01 (35 / 100 * sn_lexical s + 3 / 10 * sn_semantic s +
                   1 / 10 * (if isAliasMatchedSeed s an then 1 else 0) + 1 / 10 * (base * (1 + bias)) +
                   15 / 100 * or_else (map_of salience (sn_ref s)) 0))) seeds [])"

section \<open>Seeds\<close>

definition seed_at :: "node_ref \<Rightarrow> node_kind \<Rightarrow> rat \<Rightarrow> string \<Rightarrow> seed" where
  "seed_at r k score scope =
     \<lparr>sn_ref = r, sn_kind = k, sn_lexical = score, sn_semantic = 0, sn_fused = score, sn_scope = scope\<rparr>"

text \<open>Hits of one search; the references found so far are kept apart.\<close>

definition supplement :: "rat \<Rightarrow> string \<Rightarrow> string list \<Rightarrow> string list \<times> seed list \<Rightarrow> string list \<times> seed list" where
  "supplement score scope hits acc =
     fold (\<lambda>r (refs, seeds).
         if r \<in> set refs then (refs, seeds)
         else (case parseNodeRef r of
             None \<Rightarrow> (refs, seeds)
           | Some (k, i) \<Rightarrow> (set_add r refs, seeds @ [seed_at r k score scope]))) hits acc"

definition collectSupplementalSeeds :: "'e navigator \<Rightarrow> string \<Rightarrow> viewer_context \<Rightarrow> seed list \<Rightarrow> seed list" where
  "collectSupplementalSeeds ng query vc existing =
     (let narrative = Option.bind (ng_narrative ng) (\<lambda>search. search query vc);
          cognition = Option.bind (ng_cognition ng) (\<lambda>search. search (vc_agent_id vc) query)
      in snd (supplement (6 / 10) ''private'' (or_else cognition [])
           (supplement (7 / 10) ''world'' (or_else narrative []) (js_unique (map sn_ref existing), []))))"

definition mergeSeeds :: "seed list \<Rightarrow> seed list \<Rightarrow> seed list" where
  "mergeSeeds primary supplemental =
     fold (\<lambda>s merged. if sn_ref s \<in> sn_ref ` set merged then merged else merged @ [s]) supplemental primary"

definition fallbackSeedsFromAnalysis :: "seed list \<Rightarrow> analysis \<Rightarrow> seed list" where
  "fallbackSeedsFromAnalysis seeds an =
     (if seeds \<noteq> [] then seeds
      else map (\<lambda>i. seed_at (node Entity_kind i) Entity_kind (1 / 100) ''world'') (an_entity_ids an))"

definition injectFocusSeed :: "seed list \<Rightarrow> node_ref option \<Rightarrow> seed list" where
  "injectFocusSeed seeds focus =
     (case focus of
        None \<Rightarrow> seeds
      | Some r \<Rightarrow>
          if r = [] \<or> r \<in> sn_ref ` set seeds then seeds
          else (case parseNodeRef r of
              None \<Rightarrow> seeds
            | Some (k, i) \<Rightarrow> seed_at r k (98 / 100) ''world'' # seeds))"

section \<open>The beam\<close>

record internal_path =
  ip_path :: beam_path
  ip_seed :: seed

definition start_path :: "seed \<Rightarrow> internal_path" where
  "start_path s = \<lparr>ip_path = \<lparr>bp_seed = sn_ref s, bp_nodes = [sn_ref s], bp_edges = [], bp_depth = 0\<rparr>, ip_seed = s\<rparr>"

definition extend_path :: "nat \<Rightarrow> internal_path \<Rightarrow> beam_edge \<Rightarrow> internal_path" where
  "extend_path depth p e =
     p\<lparr>ip_path := \<lparr>bp_seed = bp_seed (ip_path p), bp_nodes = bp_nodes (ip_path p) @ [be_to e],
        bp_edges = bp_edges (ip_path p) @ [e], bp_depth = depth\<rparr>\<rparr>"

definition groupFrontierByKind :: "internal_path list \<Rightarrow> frontier" where
  "groupFrontierByKind paths =
     fold (\<lambda>p grouped. let tail = last (bp_nodes (ip_path p))
         in (case parseNodeRef tail of
               None \<Rightarrow> grouped
             | Some (k, i) \<Rightarrow> AList.update k (set_add tail (or_else (map_of grouped k) [])) grouped)) paths []"

definition path_signature :: "internal_path \<Rightarrow> string" where
  "path_signature p = bp_seed (ip_path p) @ ''|'' @ join_with ''>'' (bp_nodes (ip_path p))"

definition deduplicatePaths :: "internal_path list \<Rightarrow> internal_path list" where
  "deduplicatePaths paths =
     fold (\<lambda>p out. if path_signature p \<in> path_signature ` set out then out else out @ [p]) paths []"

definition edge_score :: "guidance \<Rightarrow> beam_edge \<Rightarrow> rat" where
  "edge_score gu e = edgePriorityScore gu (be_kind e) * edge_multiplier gu e"

definition average :: "rat list \<Rightarrow> rat" where
  "average vs = (if vs = [] then 0 else sum_list vs / of_nat (length vs))"

definition preliminaryPathScore :: "guidance \<Rightarrow> (node_ref, rat) js_map \<Rightarrow> internal_path \<Rightarrow> rat" where
  "preliminaryPathScore gu seedScores p =
     55 / 100 * or_else (map_of seedScores (bp_seed (ip_path p))) 0 +
     45 / 100 * average (map (edge_score gu) (bp_edges (ip_path p))) -
     1 / 10 * (of_nat (bp_depth (ip_path p)) / 2)"

text \<open>Stable sorting with the greatest value first.\<close>

definition sort_desc :: "('a \<Rightarrow> rat) \<Rightarrow> 'a list \<Rightarrow> 'a list" where
  "sort_desc f = sort_by (\<lambda>a b. f b < f a)"

definition next_candidates :: "guidance \<Rightarrow> nat \<Rightarrow> neighbors \<Rightarrow> internal_path list \<Rightarrow> internal_path list" where
  "next_candidates gu depth m layer =
     concat (map (\<lambda>p. map (extend_path depth p)
         (filter (\<lambda>e. be_to e \<notin> set (bp_nodes (ip_path p)))
           (sort_by (edge_before gu) (or_else (map_of m (last (bp_nodes (ip_path p)))) [])))) layer)"

fun beam_levels :: "graph_repo \<Rightarrow> viewer_context \<Rightarrow> time_slice option \<Rightarrow> guidance \<Rightarrow> (node_ref, rat) js_map \<Rightarrow> nat \<Rightarrow>
    nat \<Rightarrow> nat \<Rightarrow> internal_path list \<Rightarrow> internal_path list \<Rightarrow> nav_cache \<Rightarrow> internal_path list \<times> nav_cache" where
  "beam_levels rp vc slice gu seedScores width 0 depth layer allPaths c = (allPaths, c)"
| "beam_levels rp vc slice gu seedScores width (Suc n) depth layer allPaths c =
     (let (m, c') = fetchNeighborsByFrontier rp vc slice (groupFrontierByKind layer) c;
          candidates = next_candidates gu depth m layer
      in if candidates = [] then (allPaths, c')
         else
           (let layer' = take width (sort_desc (preliminaryPathScore gu seedScores) (deduplicatePaths candidates))
            in beam_levels rp vc slice gu seedScores width n (Suc depth) layer' (allPaths @ layer') c'))"

definition expandTypedBeam :: "graph_repo \<Rightarrow> viewer_context \<Rightarrow> time_slice option \<Rightarrow> guidance \<Rightarrow> seed list \<Rightarrow>
    (node_ref, rat) js_map \<Rightarrow> options \<Rightarrow> nav_cache \<Rightarrow> internal_path list \<times> nav_cache" where
  "expandTypedBeam rp vc slice gu seeds seedScores opts c =
     (let width = nat (min 32 (max 1 \<lceil>of_int (op_beam_width opts) * st_width_multiplier (gu_strategy gu)\<rceil>));
          sorted_seeds = sort_desc (\<lambda>s. or_else (map_of seedScores (sn_ref s)) 0) seeds;
          layer = map start_path (take width sorted_seeds)
      in beam_levels rp vc slice gu seedScores width (nat (op_max_depth opts)) 1 layer layer c)"

section \<open>Ranking\<close>

definition calculateTemporalConsistency :: "beam_edge list \<Rightarrow> rat" where
  "calculateTemporalConsistency edges =
     (let times = List.map_filter be_timestamp edges
      in if length times \<le> 1 then 1
         else of_nat (length (filter (\<lambda>(a, b). b \<ge> a) (zip times (tl times)))) / of_nat (length times - 1))"

definition calculateQueryIntentMatch :: "guidance \<Rightarrow> beam_edge list \<Rightarrow> rat" where
  "calculateQueryIntentMatch gu edges =
     (if edges = [] then 4 / 10
      else
        (let top = take (min (2 + length (gu_secondaries gu)) 4) (ordered_kinds (gu_type gu) (gu_secondaries gu))
         in of_nat (length (filter (\<lambda>e. be_kind e \<in> set top) edges)) / of_nat (length edges)))"

definition corroboration :: "beam_edge \<Rightarrow> string list" where
  "corroboration e =
     (if be_kind e \<in> {''semantic_similar'', ''entity_bridge'', ''conflict_or_update''} then []
      else (if be_kind e = ''fact_support'' \<and> be_evidence e then [''fact_support:'' @ be_from e @ ''->'' @ be_to e] else []) @
        (case be_fact_id e of Some i \<Rightarrow> [''fact:'' @ int_str i] | None \<Rightarrow> []) @
        (if be_kind e \<in> {''causal'', ''temporal_prev'', ''temporal_next'', ''same_episode''}
         then [''logic:'' @ be_from e @ ''->'' @ be_to e @ '':'' @ be_kind e] else []))"

definition calculateSupportScore :: "beam_edge list \<Rightarrow> rat" where
  "calculateSupportScore edges = min 1 (of_nat (length (remdups (concat (map corroboration edges)))) / 3)"

definition calculateRecencyScore :: "int \<Rightarrow> snapshots \<Rightarrow> node_ref list \<Rightarrow> rat" where
  "calculateRecencyScore now snaps nodes =
     (let times = List.map_filter (\<lambda>r. Option.bind (map_of snaps r) snd) nodes
      in if times = [] \<or> Max (set times) = 0 then 1 / 2
         else
           (let ageDays = of_int (max 0 (now - Max (set times))) / 86400000
            in clamp01 (1 / (1 + ageDays / 7))))"

definition calculateRedundancyPenalty :: "node_ref list \<Rightarrow> rat" where
  "calculateRedundancyPenalty nodes =
     (if length nodes \<le> 1 then 0 else 1 - of_nat (length (remdups nodes)) / of_nat (length nodes))"

definition score_path :: "guidance \<Rightarrow> (node_ref, rat) js_map \<Rightarrow> int \<Rightarrow> int \<Rightarrow> snapshots \<Rightarrow> beam_path \<Rightarrow> path_score" where
  "score_path gu seedScores maxDepth now snaps p =
     (let seedScore = or_else (map_of seedScores (bp_seed p)) 0;
          edgeType = average (map (edge_score gu) (bp_edges p));
          temporal = calculateTemporalConsistency (bp_edges p);
          intent = calculateQueryIntentMatch gu (bp_edges p);
          support = calculateSupportScore (bp_edges p);
          recency = calculateRecencyScore now snaps (bp_nodes p);
          hop = of_nat (bp_depth p) / of_int (max 1 maxDepth);
          redundancy = calculateRedundancyPenalty (bp_nodes p)
      in \<lparr>ps_seed = clamp01 seedScore, ps_edge_type = clamp01 edgeType, ps_temporal = clamp01 temporal,
          ps_intent = clamp01 intent, ps_support = clamp01 support, ps_recency = clamp01 recency,
          ps_hop_penalty = clamp01 hop, ps_redundancy = clamp01 redundancy,
          ps_path = 3 / 10 * seedScore + 25 / 100 * edgeType + 15 / 100 * temporal + 1 / 10 * intent +
            1 / 10 * support + 1 / 10 * recency - 1 / 10 * hop - 1 / 10 * redundancy\<rparr>)"

definition loadNodeSnapshots :: "graph_repo \<Rightarrow> node_ref list \<Rightarrow> snapshots" where
  "loadNodeSnapshots rp refs = fold (\<lambda>(r, s). AList.update r s) (rp_snapshots rp (js_unique refs)) []"

definition rerankPaths :: "graph_repo \<Rightarrow> guidance \<Rightarrow> (node_ref, rat) js_map \<Rightarrow> int \<Rightarrow> int \<Rightarrow> internal_path list \<Rightarrow>
    (internal_path \<times> path_score) list" where
  "rerankPaths rp gu seedScores maxDepth now paths =
     (let snaps = loadNodeSnapshots rp (concat (map (\<lambda>p. bp_nodes (ip_path p)) paths))
      in sort_desc (\<lambda>(p, s). ps_path s)
           (map (\<lambda>p. (p, score_path gu seedScores maxDepth now snaps (ip_path p))) paths))"

section \<open>Evidence\<close>

text \<open>\<open>x.toFixed(d)\<close>, and the number it denotes.\<close>

definition fixed_digits :: "nat \<Rightarrow> rat \<Rightarrow> int" where
  "fixed_digits d x = \<lfloor>\<bar>x\<bar> * 10 ^ d + 1 / 2\<rfloor>"

definition to_fixed :: "nat \<Rightarrow> rat \<Rightarrow> string" where
  "to_fixed d x =
     (let n = fixed_digits d x; frac = int_str (n mod 10 ^ d)
      in (if x < 0 then ''-'' else []) @ int_str (n div 10 ^ d) @ ''.'' @
         replicate (d - length frac) (CHR ''0'') @ frac)"

definition rounded :: "nat \<Rightarrow> rat \<Rightarrow> rat" where
  "rounded d x = (if x < 0 then - 1 else 1) * of_int (fixed_digits d x) / 10 ^ d"

definition plural :: "nat \<Rightarrow> string \<Rightarrow> string" where
  "plural n noun = nat_str n @ '' '' @ noun @ (if n = 1 then [] else ''s'')"

definition summarizeEvidencePath :: "evidence \<Rightarrow> string" where
  "summarizeEvidencePath ev =
     plural (length (bp_nodes (ev_path ev))) ''visible step'' @ '', '' @
     plural (length (ev_supporting_facts ev)) ''supporting fact'' @ '', score '' @
     to_fixed 2 (ps_path (ev_score ev)) @
     (if ev_redacted ev \<noteq> [] then '', '' @ nat_str (length (ev_redacted ev)) @ '' redacted'' else [])"

definition summarizeResult :: "string \<Rightarrow> query_type \<Rightarrow> evidence list \<Rightarrow> string" where
  "summarizeResult query t paths =
     (if paths = [] then ''No explain evidence found for '' @ [CHR 39] @ query @ [CHR 39]
      else
        (let redacted = sum_list (map (\<lambda>p. length (ev_redacted p)) paths)
         in ''Explain '' @ query_type_name t @ '': '' @ plural (length paths) ''evidence path'' @
            (if redacted > 0 then '' ('' @ plural redacted ''redacted placeholder'' @ '')'' else [])))"

definition collectSupportingNodes :: "beam_path \<Rightarrow> node_ref list" where
  "collectSupportingNodes p = js_unique (filter (\<lambda>r. r \<noteq> bp_seed p) (bp_nodes p))"

definition collectSupportingFacts :: "beam_edge list \<Rightarrow> int list" where
  "collectSupportingFacts edges = sort (remdups (List.map_filter be_fact_id edges))"

definition make_evidence :: "internal_path \<times> path_score \<Rightarrow> evidence" where
  "make_evidence candidate =
     \<lparr>ev_path = ip_path (fst candidate), ev_score = snd candidate,
      ev_supporting_nodes = collectSupportingNodes (ip_path (fst candidate)),
      ev_supporting_facts = collectSupportingFacts (bp_edges (ip_path (fst candidate))),
      ev_redacted = [], ev_summary = None, ev_provenance = None\<rparr>"

definition applyPostFilterSafetyNet :: "graph_repo \<Rightarrow> viewer_context \<Rightarrow> evidence \<Rightarrow> nav_cache \<Rightarrow> evidence option \<times> nav_cache" where
  "applyPostFilterSafetyNet rp vc ev c =
     (let p = ev_path ev;
          (ds, c') = dispositions rp vc (bp_nodes p) c;
          visible = map fst (filter (\<lambda>(r, d). d = Visible) ds);
          redacted = map (\<lambda>(r, d). toPlaceholder r d) (filter (\<lambda>(r, d). d \<noteq> Visible) ds);
          edges = filter (\<lambda>e. be_from e \<in> set visible \<and> be_to e \<in> set visible) (bp_edges p)
      in if visible = [] then (None, c')
         else
           (let filtered = ev\<lparr>
                  ev_path := \<lparr>bp_seed = (if bp_seed p \<in> set visible then bp_seed p else hd visible),
                    bp_nodes = visible, bp_edges = edges, bp_depth = min (bp_depth p) (length edges)\<rparr>,
                  ev_supporting_nodes := filter (\<lambda>r. r \<in> set visible) (ev_supporting_nodes ev),
                  ev_redacted := redacted\<rparr>
            in (Some (filtered\<lparr>ev_summary := Some (summarizeEvidencePath filtered)\<rparr>), c')))"

fun assembleEvidence :: "graph_repo \<Rightarrow> viewer_context \<Rightarrow> nat \<Rightarrow> (internal_path \<times> path_score) list \<Rightarrow> evidence list \<Rightarrow>
    nav_cache \<Rightarrow> evidence list \<times> nav_cache" where
  "assembleEvidence rp vc maxCandidates [] acc c = (acc, c)"
| "assembleEvidence rp vc maxCandidates (candidate # rest) acc c =
     (if length acc \<ge> maxCandidates then (acc, c)
      else
        (let (safe, c') = applyPostFilterSafetyNet rp vc (make_evidence candidate) c
         in assembleEvidence rp vc maxCandidates rest (acc @ option_list safe) c'))"

section \<open>The cut at a time, and levels of detail\<close>

definition edge_in_slice :: "time_slice option \<Rightarrow> beam_edge \<Rightarrow> bool" where
  "edge_in_slice query e = isEdgeInTimeSlice (be_timestamp e) None None query"

definition slice_path :: "time_slice option \<Rightarrow> evidence \<Rightarrow> evidence option" where
  "slice_path query ev =
     (let p = ev_path ev; kept = filter (edge_in_slice query) (bp_edges p);
          visited = fold (\<lambda>e s. set_add (be_to e) (set_add (be_from e) s)) kept [bp_seed p];
          ordered = filter (\<lambda>r. r \<in> set visited) (bp_nodes p)
      in if kept = [] \<and> bp_edges p \<noteq> [] then None
         else if ordered = [] then None
         else Some (ev\<lparr>
           ev_path := \<lparr>bp_seed = hd ordered, bp_nodes = ordered, bp_edges = kept, bp_depth = min (bp_depth p) (length kept)\<rparr>,
           ev_supporting_nodes := filter (\<lambda>r. r \<in> set visited) (ev_supporting_nodes ev)\<rparr>))"

definition filterEvidencePathsByTimeSlice :: "evidence list \<Rightarrow> time_slice option \<Rightarrow> evidence list" where
  "filterEvidencePathsByTimeSlice paths query =
     (if \<not> hasTimeSlice query then paths else List.map_filter (slice_path query) paths)"

record slice_summary =
  ss_seed :: node_ref
  ss_depth :: nat
  ss_edge_count :: nat
  ss_omitted :: nat
  ss_valid_cut :: bool
  ss_committed_cut :: bool

definition summarizeTimeSlicedPaths :: "evidence list \<Rightarrow> time_slice option \<Rightarrow> slice_summary list" where
  "summarizeTimeSlicedPaths paths query =
     map (\<lambda>ev. let p = ev_path ev in
       \<lparr>ss_seed = bp_seed p, ss_depth = bp_depth p, ss_edge_count = length (bp_edges p),
        ss_omitted = length (bp_edges p) - length (filter (edge_in_slice query) (bp_edges p)),
        ss_valid_cut = (Option.bind query sl_valid \<noteq> None), ss_committed_cut = (Option.bind query sl_committed \<noteq> None)\<rparr>) paths"

definition enrichWithProvenance :: "(node_ref, seed) js_map \<Rightarrow> evidence \<Rightarrow> evidence" where
  "enrichWithProvenance seedsByRef ev =
     (let p = ev_path ev; times = List.map_filter be_timestamp (bp_edges p)
      in ev\<lparr>ev_provenance := Some
        \<lparr>pv_source_surface = (case map_of seedsByRef (bp_seed p) of Some s \<Rightarrow> sn_scope s | None \<Rightarrow> ''unknown''),
         pv_committed_time = (if times = [] then None else Some (Max (set times))),
         pv_confidence = clamp01 (ps_path (ev_score ev)),
         pv_conflict_refs = js_unique (concat (map (\<lambda>e. [be_from e, be_to e])
           (filter (\<lambda>e. be_kind e = ''conflict_or_update'') (bp_edges p)))),
         pv_edge_layers = js_unique (map be_layer (bp_edges p))\<rparr>\<rparr>)"

definition applyDetailLevel :: "evidence list \<Rightarrow> detail_level option \<Rightarrow> (node_ref, seed) js_map \<Rightarrow> evidence list" where
  "applyDetailLevel paths detail seedsByRef =
     (case detail of
        Some Concise \<Rightarrow> take 3 paths
      | Some Audit \<Rightarrow> map (enrichWithProvenance seedsByRef) paths
      | _ \<Rightarrow> paths)"

record audit_summary =
  au_total :: nat
  au_surfaces :: "string list"
  au_earliest :: "int option"
  au_latest :: "int option"
  au_conflicts :: nat

definition buildAuditSummary :: "evidence list \<Rightarrow> audit_summary" where
  "buildAuditSummary paths =
     (let pvs = List.map_filter ev_provenance paths; times = List.map_filter pv_committed_time pvs
      in \<lparr>au_total = length paths, au_surfaces = js_unique (map pv_source_surface pvs),
          au_earliest = (if times = [] then None else Some (Min (set times))),
          au_latest = (if times = [] then None else Some (Max (set times))),
          au_conflicts = length (filter (\<lambda>pv. pv_conflict_refs pv \<noteq> []) pvs)\<rparr>)"

section \<open>The search\<close>

record route_shadow =
  rs_version :: string
  rs_primary :: query_type
  rs_legacy :: query_type
  rs_agreed :: bool
  rs_intent_count :: nat
  rs_rules :: "string list"
  rs_entity_count :: nat
  rs_rationale :: string

record plan_shadow =
  pw_version :: string
  pw_primary :: query_type
  pw_secondary :: "query_type list"
  pw_surface_weights :: "(string, rat) js_map"
  pw_seed_bias :: "(string, rat) js_map"
  pw_edge_bias :: "(string, rat) js_map"
  pw_rationale :: string

record drilldown =
  dd_mode :: "query_type option"
  dd_focus_ref :: "node_ref option"
  dd_focus_key :: "string option"
  dd_valid :: "int option"
  dd_committed :: "int option"
  dd_sliced :: "slice_summary list option"
  dd_route :: "route_shadow option"
  dd_plan :: "plan_shadow option"

definition route_shadow_of :: "query_type \<Rightarrow> route \<Rightarrow> route_shadow" where
  "route_shadow_of legacy rt =
     \<lparr>rs_version = rt_version rt, rs_primary = rt_primary rt, rs_legacy = legacy,
      rs_agreed = (rt_primary rt = legacy), rs_intent_count = length (rt_intents rt), rs_rules = rt_rules rt,
      rs_entity_count = length (rt_entity_ids rt), rs_rationale = rt_rationale rt\<rparr>"

definition plan_shadow_of :: "query_plan \<Rightarrow> plan_shadow" where
  "plan_shadow_of p =
     \<lparr>pw_version = qp_version p, pw_primary = pl_primary (qp_graph p), pw_secondary = pl_secondary (qp_graph p),
      pw_surface_weights =
        [(''narrative'', rounded 3 (fa_weight (qp_narrative p))), (''cognition'', rounded 3 (fa_weight (qp_cognition p))),
         (''episode'', rounded 3 (fa_weight (qp_episode p))), (''conflict_notes'', rounded 3 (fa_weight (qp_conflict_notes p)))],
      pw_seed_bias = pl_seed_bias (qp_graph p), pw_edge_bias = pl_edge_bias (qp_graph p), pw_rationale = qp_rationale p\<rparr>"

definition buildDrilldown :: "explore_args \<Rightarrow> slice_summary list option \<Rightarrow> route option \<times> query_plan option \<Rightarrow>
    query_type \<Rightarrow> drilldown" where
  "buildDrilldown a sliced rp legacy =
     \<lparr>dd_mode = xa_mode a, dd_focus_ref = xa_focus_ref a, dd_focus_key = xa_focus_key a, dd_valid = xa_valid a,
      dd_committed = xa_committed a, dd_sliced = sliced, dd_route = map_option (route_shadow_of legacy) (fst rp),
      dd_plan = map_option plan_shadow_of (snd rp)\<rparr>"

record explore_result =
  xr_query :: string
  xr_type :: query_type
  xr_summary :: string
  xr_paths :: "evidence list"
  xr_drilldown :: drilldown
  xr_audit :: "audit_summary option"

text \<open>The visible seeds, in order, and the cache after looking them up.\<close>

definition visible_seeds :: "'e navigator \<Rightarrow> string \<Rightarrow> viewer_context \<Rightarrow> explore_args \<Rightarrow> analysis \<Rightarrow> seed list \<Rightarrow>
    seed list \<times> nav_cache" where
  "visible_seeds ng query vc a an rawSeeds =
     (let merged = mergeSeeds rawSeeds (collectSupplementalSeeds ng query vc rawSeeds);
          focused = injectFocusSeed (fallbackSeedsFromAnalysis merged an) (xa_focus_ref a);
          (visible, c) = filterVisibleNodeRefs (ng_repo ng) vc (map sn_ref focused) empty_cache
      in (filter (\<lambda>s. sn_ref s \<in> set visible) focused, c))"

text \<open>The evidence for the visible seeds, before it is cut and trimmed.\<close>

definition assembled_evidence :: "'e navigator \<Rightarrow> viewer_context \<Rightarrow> int \<Rightarrow> explore_args \<Rightarrow> strategy \<Rightarrow> analysis \<Rightarrow>
    query_plan option \<Rightarrow> seed list \<Rightarrow> nav_cache \<Rightarrow> evidence list" where
  "assembled_evidence ng vc now a st an plan seeds c =
     (let rp = ng_repo ng; opts = normalizeOptions a;
          gu = \<lparr>gu_type = resolveEffectivePrimaryIntent (an_type an) plan,
                gu_secondaries = resolveEffectiveSecondaryIntents plan,
                gu_strategy = st, gu_plan = plan\<rparr>;
          scores = computeSeedScores rp seeds an gu;
          (paths, c') = expandTypedBeam rp vc (Some (input_slice a)) gu seeds scores opts c;
          ranked = rerankPaths rp gu scores (op_max_depth opts) now paths;
          limit = (if xa_detail a = Some Audit then length ranked else nat (op_max_candidates opts))
      in fst (assembleEvidence rp vc limit ranked [] c'))"

definition explore :: "'e navigator \<Rightarrow> string \<Rightarrow> viewer_context \<Rightarrow> explore_args \<Rightarrow> strategy option \<Rightarrow> int \<Rightarrow> (thrown, explore_result) result" where
  "explore ng query vc a st now =
     (if vc_agent_id vc = [] then Inl Plain_error
      else
        (let an = analyzeQuery ng query vc (xa_mode a);
             planContext = emitQueryRouteAndPlanShadow ng query vc (xa_mode a);
             plan = (if ng_use_plan ng then snd planContext else None)
         in (case (case ng_embed ng of None \<Rightarrow> Inr None
                   | Some provider \<Rightarrow> (case provider query of Inl e \<Rightarrow> Inl e | Inr v \<Rightarrow> Inr (Some v))) of
               Inl e \<Rightarrow> Inl e
             | Inr embedding \<Rightarrow>
                 (case ng_retrieve ng query vc (op_seed_count (normalizeOptions a)) embedding of
                    Inl e \<Rightarrow> Inl e
                  | Inr rawSeeds \<Rightarrow>
                      (let (seeds, c) = visible_seeds ng query vc a an rawSeeds
                       in if seeds = [] then
                            Inr \<lparr>xr_query = query, xr_type = an_type an,
                              xr_summary = ''No explain evidence found for '' @ [CHR 39] @ query @ [CHR 39],
                              xr_paths = [], xr_drilldown = buildDrilldown a None planContext (an_type an), xr_audit = None\<rparr>
                          else
                            (let assembled = assembled_evidence ng vc now a (or_else st default_retrieval) an plan seeds c;
                                 planSlice = Option.bind plan (\<lambda>p. pl_time_slice (qp_graph p));
                                 slice = (case planSlice of Some s \<Rightarrow> Some s | None \<Rightarrow> Some (input_slice a));
                                 sliced = filterEvidencePathsByTimeSlice assembled slice;
                                 seedsByRef = fold (\<lambda>s. AList.update (sn_ref s) s) seeds [];
                                 paths = applyDetailLevel sliced (xa_detail a) seedsByRef;
                                 summaries = (if hasTimeSlice (Some (input_slice a))
                                   then Some (summarizeTimeSlicedPaths assembled (Some (input_slice a))) else None)
                             in Inr \<lparr>xr_query = query, xr_type = an_type an,
                                  xr_summary = summarizeResult query (an_type an) paths, xr_paths = paths,
                                  xr_drilldown = buildDrilldown a summaries planContext (an_type an),
                                  xr_audit = (if xa_detail a = Some Audit then Some (buildAuditSummary paths) else None)\<rparr>))))))"

end
