(* ===== verification/Graph_Visibility.thy ===== *)
theory Graph_Visibility
  imports Graph_Repo
begin

text \<open>
  Who sees which node: references denote the nodes they are written from, a lookup of
  visibility gives exactly the records of the rows asked for, a node is visible exactly if
  the tables allow it, and the edge queries of the repository return visible edges only.
\<close>

section \<open>References denote nodes\<close>

lemma nat_str_digits: "list_all is_digit (nat_str n)"
proof (induction n rule: nat_str.induct)
  case (1 n)
  have "is_digit (char_of (48 + d))" if "d < 10" for d :: nat
    using that by (simp add: is_digit_def)
  with 1 show ?case by (subst nat_str.simps) (simp add: list_all_append)
qed

lemma digits_value_append [simp]: "digits_value b (xs @ [c]) = digits_value b xs * b + digit_value c"
  by (simp add: digits_value_def)

lemma digit_value_digit:
  assumes "d < 10"
  shows "digit_value (char_of (48 + d)) = int d"
proof -
  have "(of_char (char_of (48 + d)) :: int) = int (of_char (char_of (48 + d)))"
    by (rule of_nat_of_char [symmetric])
  also have "\<dots> = 48 + int d" using assms by simp
  finally have "(of_char (char_of (48 + d)) :: int) = 48 + int d" .
  moreover have "is_digit (char_of (48 + d))" using assms by (simp add: is_digit_def)
  ultimately show ?thesis by (simp add: digit_value_def)
qed

lemma digits_value_nat_str: "digits_value 10 (nat_str n) = int n"
proof (induction n rule: nat_str.induct)
  case (1 n)
  show ?case
  proof (cases "n < 10")
    case True
    then show ?thesis by (simp add: digits_value_def digit_value_digit)
  next
    case False
    with 1 have "digits_value 10 (nat_str (n div 10)) = int (n div 10)" by blast
    moreover have "int (n div 10) * 10 + int (n mod 10) = int n" by (simp add: zdiv_int zmod_int)
    ultimately show ?thesis using False by (subst nat_str.simps) (simp add: digit_value_digit)
  qed
qed

text \<open>What a string of digits does not begin or end with.\<close>

lemma digit_not_space: "is_digit c \<Longrightarrow> \<not> is_js_space c"
  by (auto simp: is_digit_def is_js_space_def)

lemma js_trim_digits: "list_all is_digit ds \<Longrightarrow> js_trim ds = ds"
proof -
  assume "list_all is_digit ds"
  then have no_space: "\<forall>c \<in> set ds. \<not> is_js_space c" by (auto simp: list_all_iff digit_not_space)
  then have "dropWhile is_js_space ds = ds" by (cases ds) auto
  moreover have "dropWhile is_js_space (rev ds) = rev ds" using no_space by (cases "rev ds") auto
  ultimately show ?thesis by (simp add: js_trim_def)
qed

lemma decimal_value_digits:
  assumes "list_all is_digit ds" "ds \<noteq> []"
  shows "decimal_value ds = Some (of_int (digits_value 10 ds))"
proof -
  have "takeWhile is_digit ds = ds" "dropWhile is_digit ds = []" using assms(1) by (auto simp: list_all_iff)
  then show ?thesis using assms(2)
    by (simp add: decimal_value_def exponent_value_def Let_def del: takeWhile_eq_all_conv dropWhile_eq_Nil_conv)
qed

lemma js_Number_digits:
  assumes "list_all is_digit ds" "ds \<noteq> []" "digits_value 10 ds < 2 ^ 1000"
  shows "js_Number ds = Fin (of_int (digits_value 10 ds))"
proof -
  have d: "\<forall>c \<in> set ds. is_digit c" using assms(1) by (simp add: list_all_iff)
  have letter: "\<not> is_digit CHR ''x''" "\<not> is_digit CHR ''X''" "\<not> is_digit CHR ''o''" "\<not> is_digit CHR ''O''"
    "\<not> is_digit CHR ''b''" "\<not> is_digit CHR ''B''" "\<not> is_digit CHR ''I''" "\<not> is_digit CHR ''-''" "\<not> is_digit CHR ''+''"
    by code_simp+
  have no_prefix: "take 2 ds \<noteq> [a, b]" if "\<not> is_digit b" for a b
  proof
    assume "take 2 ds = [a, b]"
    then have "b \<in> set ds" by (metis in_set_takeD list.set_intros(1,2))
    with that d show False by blast
  qed
  have hd: "hd ds \<noteq> CHR ''-''" "hd ds \<noteq> CHR ''+''" using d letter assms(2) by (metis hd_in_set)+
  have "ds \<noteq> ''Infinity''" using d letter by auto
  moreover have "(of_int (digits_value 10 ds) :: rat) < 2 ^ 1024 - 2 ^ 970"
  proof -
    have "(of_int (digits_value 10 ds) :: rat) < of_int (2 ^ 1000)" using assms(3) by (simp only: of_int_less_iff)
    also have "\<dots> \<le> 2 ^ 1024 - 2 ^ 970" by simp
    finally show ?thesis .
  qed
  ultimately show ?thesis
    using assms(2) hd no_prefix letter
    by (simp add: js_Number_def js_trim_digits [OF assms(1)] decimal_value_digits [OF assms(1,2)] Let_def del: power_numeral)
qed

lemma parse_kind_name: "parseGraphNodeRef (kind_name k @ '':'' @ i) = Inr (k, i)"
  by (cases k) (simp_all add: parseGraphNodeRef_def kind_of_name_def NODE_REF_KINDS_def)

lemma take_kind_name [simp]: "takeWhile (\<lambda>c. c \<noteq> CHR '':'') (kind_name k @ CHR '':'' # i) = kind_name k"
  by (cases k) simp_all

text \<open>Identifiers are positive and fit in 64 bits.\<close>

definition valid_id :: "int \<Rightarrow> bool" where
  "valid_id i = (0 < i \<and> i < 2 ^ 63)"

theorem node_ref_round_trip:
  "valid_id i \<Longrightarrow> parseGraphNodeRef (serializeGraphNodeRef (k, int_str i)) = Inr (k, int_str i) \<and>
     parseNodeRef (node k i) = (if k = Episode_kind then None else Some (k, i))"
proof
  assume i: "valid_id i"
  show "parseGraphNodeRef (serializeGraphNodeRef (k, int_str i)) = Inr (k, int_str i)"
    using parse_kind_name by (simp add: serializeGraphNodeRef_def)
  let ?ds = "nat_str (nat i)"
  have "int_str i = ?ds" using i by (simp add: int_str_def valid_id_def)
  moreover have "js_Number ?ds = Fin (of_int i)"
  proof -
    have "digits_value 10 ?ds = i" using i by (simp add: digits_value_nat_str valid_id_def)
    moreover have "i < 2 ^ 1000"
      using i by (simp add: valid_id_def)
    ultimately show ?thesis using js_Number_digits [OF nat_str_digits] nat_str_last by metis
  qed
  ultimately show "parseNodeRef (node k i) = (if k = Episode_kind then None else Some (k, i))"
    using i parse_kind_name [of k] by (cases k) (simp_all add: parseNodeRef_def node_def KNOWN_NODE_KINDS_def valid_id_def)
qed

lemmas parse_node = node_ref_round_trip [THEN conjunct2]

lemma node_inj: "valid_id i \<Longrightarrow> valid_id j \<Longrightarrow> node k i = node l j \<Longrightarrow> k = l \<and> i = j"
proof -
  assume ids: "valid_id i" "valid_id j" and eq: "node k i = node l j"
  have kind: "takeWhile (\<lambda>c. c \<noteq> CHR '':'') (node k i) = kind_name k" for k i by (simp add: node_def)
  have "kind_name k = kind_name l" using kind [of k i] kind [of l j] by (simp add: eq)
  then have "k = l" by (cases k; cases l) simp_all
  moreover from this eq have "nat_str (nat i) = nat_str (nat j)"
    using ids by (simp add: node_def int_str_def valid_id_def)
  then have "i = j" using ids nat_str_inj [of "nat i" "nat j"] by (auto simp: valid_id_def eq_nat_nat_iff)
  ultimately show ?thesis by simp
qed

lemma parse_known: "parseNodeRef r = Some (k, i) \<Longrightarrow> k \<in> set KNOWN_NODE_KINDS \<and> 0 < i"
  by (auto simp: parseNodeRef_def split: sum.splits js_num.splits if_splits)

lemma set_js_unique [simp]: "set (js_unique xs) = set xs"
proof -
  have "set (fold set_add xs ys) = set ys \<union> set xs" for ys by (induction xs arbitrary: ys) auto
  then show ?thesis by (simp add: js_unique_def)
qed

lemma distinct_js_unique [simp]: "distinct (js_unique xs)"
proof -
  have "distinct ys \<Longrightarrow> distinct (fold set_add xs ys)" for ys by (induction xs arbitrary: ys) auto
  then show ?thesis by (simp add: js_unique_def)
qed

lemma map_filter_image: "set (List.map_filter f xs) = {y. \<exists>x \<in> set xs. f x = Some y}"
  by (induction xs) (auto simp: map_filter_simps split: option.splits)

lemma set_extractIds: "set (extractIdsFromRefs refs k) = {i. \<exists>r \<in> set refs. parseNodeRef r = Some (k, i)}"
  by (force simp: extractIdsFromRefs_def map_filter_image split: option.splits if_splits)

lemma groupIdsByKind_ids: "or_else (map_of (groupIdsByKind refs) k) [] = extractIdsFromRefs refs k"
proof -
  let ?step = "\<lambda>r byKind. case parseNodeRef r of None \<Rightarrow> byKind
       | Some (k, i) \<Rightarrow> AList.update k (or_else (map_of byKind k) [] @ [i]) byKind"
  have "or_else (map_of (fold ?step refs m) k) [] = or_else (map_of m k) [] @ extractIdsFromRefs refs k" for m
    by (induction refs arbitrary: m)
      (auto simp: extractIdsFromRefs_def map_filter_simps update_conv' split: option.splits)
  from this [of "[]"] show ?thesis by (simp add: groupIdsByKind_def)
qed

lemma map_of_fold_update:
  "map_of (fold (\<lambda>v. AList.update (f v) (g v)) vs m) k =
     (case find (\<lambda>v. f v = k) (rev vs) of Some v \<Rightarrow> Some (g v) | None \<Rightarrow> map_of m k)"
  by (induction vs arbitrary: m) (auto simp: find_append update_conv' split: option.splits)

lemma record_map_SomeD: "map_of (record_map rows) r = Some v \<Longrightarrow> v \<in> set rows \<and> record_ref v = r"
  by (auto simp: record_map_def map_of_fold_update [where g = "\<lambda>v. v"] split: option.splits dest: find_SomeD)

section \<open>What a viewer may see\<close>

text \<open>The rules over the tables: the specification of every lookup that follows.\<close>

definition entity_open :: "viewer_context \<Rightarrow> entity_node \<Rightarrow> bool" where
  "entity_open vc e \<longleftrightarrow> ge_memory_scope e = ''shared_public'' \<or>
     ge_memory_scope e = ''private_overlay'' \<and> ge_owner e = Some (vc_agent_id vc)"

definition event_open :: "viewer_context \<Rightarrow> event_node \<Rightarrow> bool" where
  "event_open vc e \<longleftrightarrow> gv_scope e = ''world_public'' \<or>
     gv_scope e = ''area_visible'' \<and> vc_area_id vc = Some (gv_location e) \<or>
     gv_scope e = ''system_only'' \<and> vc_admin_only vc = Some True"

definition may_see :: "graph_db \<Rightarrow> viewer_context \<Rightarrow> node_ref \<Rightarrow> bool" where
  "may_see db vc r \<longleftrightarrow>
     (\<exists>e \<in> set (entity_nodes db). r = node Entity_kind (ge_id e) \<and> entity_open vc e) \<or>
     (\<exists>e \<in> set (event_nodes db). r = node Event_kind (gv_id e) \<and> event_open vc e) \<or>
     (\<exists>f \<in> set (fact_edges db). r = node Fact_kind (gf_id f) \<and> active f) \<or>
     (\<exists>c \<in> set (cognition_nodes db). \<exists>k \<in> {Assertion_kind, Evaluation_kind, Commitment_kind}.
        r = node k (gc_id c) \<and> gc_kind c = kind_name k \<and> gc_agent c = vc_agent_id vc) \<or>
     (\<exists>e \<in> set (episode_nodes db). r = node Episode_kind (gp_id e) \<and> gp_agent e = vc_agent_id vc)"

fun record_kind :: "visibility_record \<Rightarrow> node_kind" where
  "record_kind (Entity_record r scope owner) = Entity_kind"
| "record_kind (Event_record r scope location owner) = Event_kind"
| "record_kind (Private_record r k agent) = k"
| "record_kind (Fact_record r act) = Fact_kind"
| "record_kind (Episode_record r location owner) = Episode_kind"

fun record_allows :: "viewer_context \<Rightarrow> visibility_record \<Rightarrow> bool" where
  "record_allows vc (Entity_record r scope owner) =
     (scope = ''shared_public'' \<or> scope = ''private_overlay'' \<and> owner = Some (vc_agent_id vc))"
| "record_allows vc (Event_record r scope location owner) =
     (scope = ''world_public'' \<or> scope = ''area_visible'' \<and> vc_area_id vc = Some location \<or>
      scope = ''system_only'' \<and> vc_admin_only vc = Some True \<or> scope = ''owner_private'' \<and> owner = Some (vc_agent_id vc))"
| "record_allows vc (Private_record r k agent) = (agent = vc_agent_id vc)"
| "record_allows vc (Fact_record r act) = act"
| "record_allows vc (Episode_record r location owner) = (owner = vc_agent_id vc)"

text \<open>The records of the database: one per row that can be looked up.\<close>

abbreviation private_kinds :: "node_kind set" where
  "private_kinds \<equiv> {Assertion_kind, Evaluation_kind, Commitment_kind}"

definition private_records :: "node_kind \<Rightarrow> graph_db \<Rightarrow> visibility_record set" where
  "private_records k db = cognition_record k ` {c \<in> set (cognition_nodes db). gc_kind c = kind_name k}"

definition all_records :: "graph_db \<Rightarrow> visibility_record set" where
  "all_records db = entity_record ` set (entity_nodes db) \<union> event_record ` set (event_nodes db) \<union>
     fact_record ` {f \<in> set (fact_edges db). active f} \<union> (\<Union>k \<in> private_kinds. private_records k db) \<union>
     episode_record ` set (episode_nodes db)"

lemmas record_defs = entity_record_def event_record_def fact_record_def cognition_record_def episode_record_def

lemma record_allows_rows [simp]:
  "record_ref (entity_record e) = node Entity_kind (ge_id e)" "record_allows vc (entity_record e) = entity_open vc e"
  "record_ref (event_record v) = node Event_kind (gv_id v)" "record_allows vc (event_record v) = event_open vc v"
  "record_ref (fact_record f) = node Fact_kind (gf_id f)" "record_allows vc (fact_record f)"
  "record_ref (cognition_record k c) = node k (gc_id c)" "record_allows vc (cognition_record k c) = (gc_agent c = vc_agent_id vc)"
  "record_ref (episode_record p) = node Episode_kind (gp_id p)" "record_allows vc (episode_record p) = (gp_agent p = vc_agent_id vc)"
  by (auto simp: record_defs entity_open_def event_open_def)

lemma may_see_iff: "may_see db vc r \<longleftrightarrow> (\<exists>v \<in> all_records db. record_ref v = r \<and> record_allows vc v)"
  unfolding may_see_def all_records_def private_records_def by (simp add: bex_Un conj_ac) blast

lemma getNodeVisibility_sub: "set (getNodeVisibility refs db) \<subseteq> all_records db"
  unfolding getNodeVisibility_def event_records_def cognition_records_def episode_records_def Let_def
    all_records_def private_records_def
  by auto

text \<open>
  A viewer is shown a record exactly if the record allows it. The repository never shows an
  episode, as it has no data for it.
\<close>

lemmas policy_defs = policyDisposition_def no_data_def isEventVisible_def isEntityVisible_def isFactVisible_def
  isPrivateNodeVisible_def canViewPrivateOwner_def canViewAdminOnly_def

lemma policy_entity: "repo_node_data (entity_record e) = Some d \<Longrightarrow>
    policyDisposition vc (node Entity_kind i) d = Visible \<longleftrightarrow> entity_open vc e"
  by (auto simp: entity_record_def node_def policy_defs entity_open_def split: if_splits)

lemma policy_event: "repo_node_data (event_record e) = Some d \<Longrightarrow>
    policyDisposition vc (node Event_kind i) d = Visible \<longleftrightarrow> event_open vc e"
  by (auto simp: event_record_def node_def policy_defs event_open_def Let_def split: if_splits)

lemma policy_fact: "repo_node_data (fact_record f) = Some d \<Longrightarrow> policyDisposition vc (node Fact_kind i) d = Visible"
  by (auto simp: fact_record_def node_def policy_defs)

lemma policy_private: "k \<in> private_kinds \<Longrightarrow> repo_node_data (cognition_record k c) = Some d \<Longrightarrow>
    policyDisposition vc (node k i) d = Visible \<longleftrightarrow> gc_agent c = vc_agent_id vc"
  by (elim insertE emptyE) (simp_all add: cognition_record_def node_def policy_defs Let_def split: if_split, auto)

lemma policy_episode:
  "policyDisposition vc (node Episode_kind i) (no_data\<lparr>nd_agent := Some a\<rparr>) = Visible \<longleftrightarrow> a = vc_agent_id vc"
  by (auto simp: node_def policy_defs)

lemma policy_node:
  assumes "v \<in> all_records db" "repo_node_data v = Some d"
  shows "policyDisposition vc (record_ref v) d = Visible \<longleftrightarrow> record_allows vc v"
proof -
  consider e where "v = entity_record e" | e where "v = event_record e" | f where "v = fact_record f"
    | k c where "k \<in> private_kinds" "v = cognition_record k c" | e where "v = episode_record e"
    using assms(1) unfolding all_records_def private_records_def by blast
  then show ?thesis
  proof cases
    case 5
    with assms(2) show ?thesis by (simp add: episode_record_def)
  qed (use assms(2) in \<open>simp_all add: policy_entity policy_event policy_fact policy_private\<close>)
qed

section \<open>Lookups are exact\<close>

text \<open>Identifiers are the primary keys of their tables.\<close>

definition graph_ok :: "graph_db \<Rightarrow> bool" where
  "graph_ok db \<longleftrightarrow>
     distinct (map ge_id (entity_nodes db)) \<and> list_all (valid_id \<circ> ge_id) (entity_nodes db) \<and>
     distinct (map gv_id (event_nodes db)) \<and> list_all (valid_id \<circ> gv_id) (event_nodes db) \<and>
     distinct (map gf_id (fact_edges db)) \<and> list_all (valid_id \<circ> gf_id) (fact_edges db) \<and>
     distinct (map gc_id (cognition_nodes db)) \<and> list_all (valid_id \<circ> gc_id) (cognition_nodes db) \<and>
     distinct (map gp_id (episode_nodes db)) \<and> list_all (valid_id \<circ> gp_id) (episode_nodes db)"

lemma row_unique: "distinct (map k xs) \<Longrightarrow> x \<in> set xs \<Longrightarrow> y \<in> set xs \<Longrightarrow> k x = k y \<Longrightarrow> x = y"
  by (auto simp: distinct_map inj_on_def)

text \<open>The kind and the identifier of a record, and the row it comes from.\<close>

lemma record_cases:
  assumes "v \<in> all_records db"
  obtains e where "e \<in> set (entity_nodes db)" "v = entity_record e"
  | e where "e \<in> set (event_nodes db)" "v = event_record e"
  | f where "f \<in> set (fact_edges db)" "active f" "v = fact_record f"
  | k c where "k \<in> private_kinds" "c \<in> set (cognition_nodes db)" "gc_kind c = kind_name k" "v = cognition_record k c"
  | e where "e \<in> set (episode_nodes db)" "v = episode_record e"
  using assms unfolding all_records_def private_records_def by blast

lemma kind_rows [simp]:
  "record_kind (entity_record e) = Entity_kind" "record_kind (event_record v) = Event_kind"
  "record_kind (fact_record f) = Fact_kind" "record_kind (cognition_record k c) = k"
  "record_kind (episode_record p) = Episode_kind"
  by (simp_all add: record_defs)

lemma record_node:
  assumes "graph_ok db" "v \<in> all_records db"
  obtains i where "valid_id i" "record_ref v = node (record_kind v) i"
  using assms(2)
proof (cases rule: record_cases)
qed (use assms(1) that in \<open>auto simp: graph_ok_def list_all_iff\<close>)

lemma record_unique:
  assumes ok: "graph_ok db" and v: "v \<in> all_records db" and w: "w \<in> all_records db" and eq: "record_ref v = record_ref w"
  shows "v = w"
proof -
  have kinds: "record_kind v = record_kind w"
    by (metis record_node [OF ok v] record_node [OF ok w] eq node_inj)
  have key: "valid_id i \<Longrightarrow> valid_id j \<Longrightarrow> node k i = node k j \<Longrightarrow> i = j" for k i j using node_inj by blast
  note tables = ok [unfolded graph_ok_def list_all_iff o_apply]
  from v show ?thesis
  proof (cases rule: record_cases)
    case (1 e)
    with w kinds obtain e' where "e' \<in> set (entity_nodes db)" "w = entity_record e'"
      by (cases rule: record_cases) auto
    with 1 eq tables key [of "ge_id e" "ge_id e'" Entity_kind] row_unique [of ge_id "entity_nodes db" e e'] show ?thesis by auto
  next
    case (2 e)
    with w kinds obtain e' where "e' \<in> set (event_nodes db)" "w = event_record e'"
      by (cases rule: record_cases) auto
    with 2 eq tables key [of "gv_id e" "gv_id e'" Event_kind] row_unique [of gv_id "event_nodes db" e e'] show ?thesis by auto
  next
    case (3 e)
    with w kinds obtain e' where "e' \<in> set (fact_edges db)" "w = fact_record e'"
      by (cases rule: record_cases) auto
    with 3 eq tables key [of "gf_id e" "gf_id e'" Fact_kind] row_unique [of gf_id "fact_edges db" e e'] show ?thesis by auto
  next
    case (4 k e)
    with w kinds obtain e' where "e' \<in> set (cognition_nodes db)" "w = cognition_record k e'"
      by (cases rule: record_cases) auto
    with 4 eq tables key [of "gc_id e" "gc_id e'" k] row_unique [of gc_id "cognition_nodes db" e e'] show ?thesis by auto
  next
    case (5 e)
    with w kinds obtain e' where "e' \<in> set (episode_nodes db)" "w = episode_record e'"
      by (cases rule: record_cases) auto
    with 5 eq tables key [of "gp_id e" "gp_id e'" Episode_kind] row_unique [of gp_id "episode_nodes db" e e'] show ?thesis by auto
  qed
qed

lemmas getNodeVisibility_eq = getNodeVisibility_def [unfolded Let_def groupIdsByKind_ids]

text \<open>A lookup finds every record asked for, except those of episodes.\<close>

lemma lookup_in_batch:
  assumes ok: "graph_ok db" and v: "v \<in> all_records db" and kind: "record_kind v \<noteq> Episode_kind"
    and asked: "record_ref v \<in> set refs"
  shows "v \<in> set (getNodeVisibility refs db)"
proof -
  obtain i where i: "valid_id i" "record_ref v = node (record_kind v) i" using record_node [OF ok v] .
  then have ids: "i \<in> set (extractIdsFromRefs (js_unique refs) (record_kind v))"
    using asked kind parse_node [OF i(1), of "record_kind v"] by (auto simp: set_extractIds)
  have same: "valid_id j \<Longrightarrow> node (record_kind v) j = record_ref v \<Longrightarrow> j = i" for j
    using i node_inj by metis
  note tables = ok [unfolded graph_ok_def list_all_iff o_apply]
  note lookup = getNodeVisibility_eq Let_def
  from v show ?thesis
  proof (cases rule: record_cases)
    case (1 e)
    with tables same [of "ge_id e"] ids show ?thesis by (auto simp: lookup)
  next
    case (2 e)
    with tables same [of "gv_id e"] ids show ?thesis by (auto simp: lookup event_records_def)
  next
    case (3 f)
    with tables same [of "gf_id f"] ids show ?thesis by (auto simp: lookup)
  next
    case (4 k c)
    with tables same [of "gc_id c"] ids show ?thesis by (auto simp: lookup cognition_records_def)
  next
    case 5
    with kind show ?thesis by simp
  qed
qed

lemma lookup_exact:
  assumes "graph_ok db" "v \<in> all_records db" "record_kind v \<noteq> Episode_kind" "record_ref v \<in> set refs"
  shows "map_of (record_map (getNodeVisibility refs db)) (record_ref v) = Some v"
proof -
  have "find (\<lambda>w. record_ref w = record_ref v) (rev (getNodeVisibility refs db)) \<noteq> None"
    using lookup_in_batch [OF assms] by (auto simp: find_None_iff)
  then obtain w where "map_of (record_map (getNodeVisibility refs db)) (record_ref v) = Some w"
    by (auto simp: record_map_def map_of_fold_update [where g = "\<lambda>v. v"])
  moreover from record_map_SomeD [OF this] have "w = v"
    using getNodeVisibility_sub record_unique [OF assms(1) _ assms(2)] by blast
  ultimately show ?thesis by simp
qed

section \<open>Edges between visible nodes\<close>

definition shown :: "graph_db \<Rightarrow> viewer_context \<Rightarrow> node_ref \<Rightarrow> bool" where
  "shown db vc r \<longleftrightarrow> (\<exists>v \<in> all_records db. record_ref v = r \<and> record_kind v \<noteq> Episode_kind \<and> record_allows vc v)"

lemma shown_may_see: "shown db vc r \<Longrightarrow> may_see db vc r"
  by (auto simp: shown_def may_see_iff)

lemma shown_iff:
  assumes "graph_ok db"
  shows "shown db vc r \<longleftrightarrow> may_see db vc r \<and> (\<forall>e \<in> set (episode_nodes db). r \<noteq> node Episode_kind (gp_id e))"
proof
  assume "shown db vc r"
  then obtain v where v: "v \<in> all_records db" "record_ref v = r" "record_kind v \<noteq> Episode_kind"
    by (auto simp: shown_def)
  have "r \<noteq> node Episode_kind (gp_id e)" if "e \<in> set (episode_nodes db)" for e
  proof
    assume "r = node Episode_kind (gp_id e)"
    moreover have "episode_record e \<in> all_records db" using that by (simp add: all_records_def)
    ultimately have "v = episode_record e" using record_unique [OF assms v(1)] v(2) by simp
    with v(3) show False by simp
  qed
  with \<open>shown db vc r\<close> shown_may_see show "may_see db vc r \<and> (\<forall>e \<in> set (episode_nodes db). r \<noteq> node Episode_kind (gp_id e))"
    by blast
next
  assume r: "may_see db vc r \<and> (\<forall>e \<in> set (episode_nodes db). r \<noteq> node Episode_kind (gp_id e))"
  then obtain v where v: "v \<in> all_records db" "record_ref v = r" "record_allows vc v" by (auto simp: may_see_iff)
  from v(1) have "record_kind v \<noteq> Episode_kind" using r v(2) by (cases rule: record_cases) auto
  with v show "shown db vc r" by (auto simp: shown_def)
qed

lemma repo_data_kind: "v \<in> all_records db \<Longrightarrow> repo_node_data v \<noteq> None \<longleftrightarrow> record_kind v \<noteq> Episode_kind"
  by (auto simp: record_defs elim!: record_cases)

definition end_shown :: "viewer_context \<Rightarrow> (node_ref, visibility_record) js_map \<Rightarrow> node_ref \<Rightarrow> bool" where
  "end_shown vc byRef r \<longleftrightarrow> (\<exists>v d. map_of byRef r = Some v \<and> repo_node_data v = Some d \<and> isNodeVisible vc r d)"

lemma edge_admitted_iff:
  "edge_admitted vc slice byRef e \<longleftrightarrow>
     isEdgeInTimeSlice (er_timestamp e) (er_valid e) (er_committed e) slice \<and>
     end_shown vc byRef (er_source e) \<and> end_shown vc byRef (er_target e)"
  by (auto simp: edge_admitted_def end_shown_def isEdgeVisible_def split: option.split)

lemma end_shown_sound: "end_shown vc (record_map (getNodeVisibility refs db)) r \<Longrightarrow> shown db vc r"
proof -
  assume "end_shown vc (record_map (getNodeVisibility refs db)) r"
  then obtain v d where "map_of (record_map (getNodeVisibility refs db)) r = Some v" and d: "repo_node_data v = Some d"
    and vis: "isNodeVisible vc r d"
    by (auto simp: end_shown_def)
  then have v: "v \<in> all_records db" "record_ref v = r" using record_map_SomeD getNodeVisibility_sub by blast+
  with vis d have "record_allows vc v" by (auto simp: isNodeVisible_def policy_node)
  moreover have "record_kind v \<noteq> Episode_kind" using repo_data_kind [OF v(1)] d by simp
  ultimately show ?thesis using v by (auto simp: shown_def)
qed

lemma end_shown_complete:
  assumes "graph_ok db" "r \<in> set refs" "shown db vc r"
  shows "end_shown vc (record_map (getNodeVisibility refs db)) r"
proof -
  from assms(3) obtain v where v: "v \<in> all_records db" "record_ref v = r" "record_kind v \<noteq> Episode_kind" "record_allows vc v"
    by (auto simp: shown_def)
  obtain d where d: "repo_node_data v = Some d" using repo_data_kind [OF v(1)] v(3) by auto
  with policy_node [OF v(1) d, of vc] v have "isNodeVisible vc r d" by (simp add: isNodeVisible_def)
  with d lookup_exact [OF assms(1) v(1,3)] v(2) assms(2) show ?thesis by (auto simp: end_shown_def)
qed

lemma edge_refs: "set (fold (\<lambda>e s. set_add (er_target e) (set_add (er_source e) s)) es s) =
    set s \<union> er_source ` set es \<union> er_target ` set es"
  by (induction es arbitrary: s) auto

lemma filter_edges_sound:
  "e \<in> set (filterVisibleAndTimeSlicedEdges es vc slice db) \<Longrightarrow>
     e \<in> set es \<and> isEdgeInTimeSlice (er_timestamp e) (er_valid e) (er_committed e) slice \<and>
     shown db vc (er_source e) \<and> shown db vc (er_target e)"
  using end_shown_sound
  by (auto simp: filterVisibleAndTimeSlicedEdges_def edge_admitted_iff Let_def split: if_splits)

lemma filter_edges_complete:
  assumes "graph_ok db" "e \<in> set es" "isEdgeInTimeSlice (er_timestamp e) (er_valid e) (er_committed e) slice"
    "shown db vc (er_source e)" "shown db vc (er_target e)"
  shows "e \<in> set (filterVisibleAndTimeSlicedEdges es vc slice db)"
proof -
  let ?refs = "fold (\<lambda>e s. set_add (er_target e) (set_add (er_source e) s)) es []"
  have "er_source e \<in> set ?refs" "er_target e \<in> set ?refs" using assms(2) by (auto simp: edge_refs)
  then have "edge_admitted vc slice (record_map (getNodeVisibility ?refs db)) e"
    using assms end_shown_complete by (simp add: edge_admitted_iff)
  with assms(2) show ?thesis by (auto simp: filterVisibleAndTimeSlicedEdges_def Let_def)
qed

lemma set_both_ways:
  "set (both_ways frontier out back rows) =
     {e. \<exists>r \<in> set rows. (e = out r \<or> e = back r) \<and> er_source e \<in> set frontier}"
  by (auto simp: both_ways_def split: if_splits)

lemma toGraphEdge_ends [simp]:
  "er_source (toGraphEdge fa l t s d w rel ts vt ct) = s" "er_target (toGraphEdge fa l t s d w rel ts vt ct) = d"
  "er_timestamp (toGraphEdge fa l t s d w rel ts vt ct) = Some ts" "er_valid (toGraphEdge fa l t s d w rel ts vt ct) = Some vt"
  "er_committed (toGraphEdge fa l t s d w rel ts vt ct) = Some ct"
  by (simp_all add: toGraphEdge_def Let_def)

text \<open>All four queries.\<close>

definition repo_edges :: "node_ref list \<Rightarrow> viewer_context \<Rightarrow> time_slice option \<Rightarrow> graph_db \<Rightarrow> edge_record set" where
  "repo_edges refs vc slice db =
     set (readLogicEdges refs vc slice db) \<union> set (readMemoryRelationEdges refs vc slice db) \<union>
     set (readSemanticEdges refs vc slice db) \<union> set (readStateFactEdges refs vc slice db)"

lemma repo_edges_shown:
  "e \<in> repo_edges refs vc slice db \<Longrightarrow>
     isEdgeInTimeSlice (er_timestamp e) (er_valid e) (er_committed e) slice \<and>
     shown db vc (er_source e) \<and> shown db vc (er_target e)"
  unfolding repo_edges_def readLogicEdges_def readMemoryRelationEdges_def readSemanticEdges_def readStateFactEdges_def Let_def
  by (auto dest!: filter_edges_sound split: if_splits)

definition relation_edge :: "node_ref \<Rightarrow> node_ref \<Rightarrow> relation_row \<Rightarrow> edge_record" where
  "relation_edge s d r = toGraphEdge Relation_family Symbolic_layer (gm_type r) s d (gm_strength r)
     (Some (gm_strength r, gm_source_kind r, gm_source_ref r)) (gm_created_at r) (gm_created_at r)
     (if gm_updated_at r > 0 then gm_updated_at r else gm_created_at r)"

lemma relation_edge_source: "er_source (relation_edge s d r) = s"
  by (simp add: relation_edge_def)

lemma relation_edges_exact:
  assumes "graph_ok db"
  shows "set (readMemoryRelationEdges refs vc slice db) =
      {e. \<exists>r \<in> set (memory_relations db). (e = relation_edge (gm_source r) (gm_target r) r \<or> e = relation_edge (gm_target r) (gm_source r) r) \<and>
         er_source e \<in> set refs \<and> isEdgeInTimeSlice (er_timestamp e) (er_valid e) (er_committed e) slice \<and>
         (\<forall>n \<in> {er_source e, er_target e}. may_see db vc n \<and> (\<forall>p \<in> set (episode_nodes db). n \<noteq> node Episode_kind (gp_id p)))}"
proof -
  define candidates where "candidates = both_ways (js_unique refs) (\<lambda>r. relation_edge (gm_source r) (gm_target r) r)
      (\<lambda>r. relation_edge (gm_target r) (gm_source r) r)
      (filter (\<lambda>r. gm_source r \<in> set (js_unique refs) \<or> gm_target r \<in> set (js_unique refs)) (memory_relations db))"
  have read: "readMemoryRelationEdges refs vc slice db =
      (if js_unique refs = [] then [] else filterVisibleAndTimeSlicedEdges candidates vc slice db)"
    unfolding readMemoryRelationEdges_def Let_def relation_edge_def candidates_def by simp
  have candidates: "e \<in> set candidates \<longleftrightarrow> (\<exists>r \<in> set (memory_relations db).
      (e = relation_edge (gm_source r) (gm_target r) r \<or> e = relation_edge (gm_target r) (gm_source r) r) \<and> er_source e \<in> set refs)" for e
  proof -
    have "e \<in> set candidates \<longleftrightarrow> (\<exists>r \<in> {r \<in> set (memory_relations db). gm_source r \<in> set refs \<or> gm_target r \<in> set refs}.
        (e = relation_edge (gm_source r) (gm_target r) r \<or> e = relation_edge (gm_target r) (gm_source r) r) \<and> er_source e \<in> set refs)"
      by (simp only: candidates_def set_both_ways mem_Collect_eq set_filter set_js_unique)
    also have "\<dots> \<longleftrightarrow> (\<exists>r \<in> set (memory_relations db).
        (e = relation_edge (gm_source r) (gm_target r) r \<or> e = relation_edge (gm_target r) (gm_source r) r) \<and> er_source e \<in> set refs)"
      by (rule iffI; elim bexE; intro bexI; (assumption | simp only: mem_Collect_eq)) (auto simp: relation_edge_source)
    finally show ?thesis .
  qed
  have "e \<in> set (readMemoryRelationEdges refs vc slice db) \<longleftrightarrow> e \<in> set candidates \<and>
      isEdgeInTimeSlice (er_timestamp e) (er_valid e) (er_committed e) slice \<and> shown db vc (er_source e) \<and> shown db vc (er_target e)" for e
  proof
    assume "e \<in> set (readMemoryRelationEdges refs vc slice db)"
    then have "e \<in> set (filterVisibleAndTimeSlicedEdges candidates vc slice db)" by (simp add: read split: if_splits)
    then show "e \<in> set candidates \<and> isEdgeInTimeSlice (er_timestamp e) (er_valid e) (er_committed e) slice \<and>
        shown db vc (er_source e) \<and> shown db vc (er_target e)"
      by (rule filter_edges_sound)
  next
    assume e: "e \<in> set candidates \<and> isEdgeInTimeSlice (er_timestamp e) (er_valid e) (er_committed e) slice \<and>
        shown db vc (er_source e) \<and> shown db vc (er_target e)"
    then have "refs \<noteq> []" using candidates [of e] by auto
    then have "js_unique refs \<noteq> []" using set_js_unique [of refs] by (metis set_empty2)
    moreover have "e \<in> set (filterVisibleAndTimeSlicedEdges candidates vc slice db)"
      using e by (intro filter_edges_complete [OF assms]) simp_all
    ultimately show "e \<in> set (readMemoryRelationEdges refs vc slice db)" by (simp add: read)
  qed
  moreover have "shown db vc a \<and> shown db vc b \<longleftrightarrow>
      (\<forall>n \<in> {a, b}. may_see db vc n \<and> (\<forall>p \<in> set (episode_nodes db). n \<noteq> node Episode_kind (gp_id p)))" for a b
    by (simp add: shown_iff [OF assms])
  ultimately show ?thesis by (intro set_eqI) (simp only: candidates mem_Collect_eq bex_simps conj_assoc)
qed

text \<open>
  Property (C31): the edges that the repository reads for a viewer join two nodes that the
  tables let the viewer see, and lie within the time slice; and of the memory relations it
  reads all of these: every row that touches the frontier, from each of its ends that is in
  the frontier, except to nodes the viewer may not see and to episodes.
\<close>

theorem repository_edges_visible:
  assumes "graph_ok db"
  shows "(\<forall>e \<in> repo_edges refs vc slice db. may_see db vc (er_source e) \<and> may_see db vc (er_target e) \<and>
      isEdgeInTimeSlice (er_timestamp e) (er_valid e) (er_committed e) slice) \<and>
    set (readMemoryRelationEdges refs vc slice db) =
      {e. \<exists>r \<in> set (memory_relations db). (e = relation_edge (gm_source r) (gm_target r) r \<or> e = relation_edge (gm_target r) (gm_source r) r) \<and>
         er_source e \<in> set refs \<and> isEdgeInTimeSlice (er_timestamp e) (er_valid e) (er_committed e) slice \<and>
         (\<forall>n \<in> {er_source e, er_target e}. may_see db vc n \<and> (\<forall>p \<in> set (episode_nodes db). n \<noteq> node Episode_kind (gp_id p)))}"
proof
  show "\<forall>e \<in> repo_edges refs vc slice db. may_see db vc (er_source e) \<and> may_see db vc (er_target e) \<and>
      isEdgeInTimeSlice (er_timestamp e) (er_valid e) (er_committed e) slice"
    using repo_edges_shown shown_may_see by blast
qed (rule relation_edges_exact [OF assms])

section \<open>A small graph\<close>

text \<open>
  Alice believes that the gate is open (1) and that the baker left (3), which are in conflict
  with each other, and so is a belief of Bob's (2) with hers. Entity 2 is Bob's own.
\<close>

definition town :: graph_db where
  "town = \<lparr>entity_nodes =
       [\<lparr>ge_id = 1, ge_pointer_key = ''gate'', ge_display_name = ''Gate'', ge_entity_type = ''object'',
         ge_memory_scope = ''shared_public'', ge_owner = None, ge_summary = None, ge_updated_at = 10\<rparr>,
        \<lparr>ge_id = 2, ge_pointer_key = ''key'', ge_display_name = ''Key'', ge_entity_type = ''object'',
         ge_memory_scope = ''private_overlay'', ge_owner = Some ''bob'', ge_summary = None, ge_updated_at = 10\<rparr>],
     event_nodes = [],
     episode_nodes = [],
     cognition_nodes =
       [\<lparr>gc_id = 1, gc_agent = ''alice'', gc_kind = ''assertion'', gc_summary = None, gc_record = JObj [], gc_updated_at = 20\<rparr>,
        \<lparr>gc_id = 2, gc_agent = ''bob'', gc_kind = ''assertion'', gc_summary = None, gc_record = JObj [], gc_updated_at = 20\<rparr>,
        \<lparr>gc_id = 3, gc_agent = ''alice'', gc_kind = ''assertion'', gc_summary = None, gc_record = JObj [], gc_updated_at = 30\<rparr>],
     fact_edges = [], logic_edges = [],
     memory_relations =
       [\<lparr>gm_source = node Assertion_kind 1, gm_target = node Assertion_kind 3, gm_type = ''conflicts_with'', gm_strength = 1,
         gm_source_kind = ''turn'', gm_source_ref = [], gm_created_at = 30, gm_updated_at = 0\<rparr>,
        \<lparr>gm_source = node Assertion_kind 1, gm_target = node Assertion_kind 2, gm_type = ''conflicts_with'', gm_strength = 1,
         gm_source_kind = ''turn'', gm_source_ref = [], gm_created_at = 30, gm_updated_at = 0\<rparr>],
     semantic_edges = [], node_scores = []\<rparr>"

definition alice :: viewer_context where
  "alice = \<lparr>vc_agent_id = ''alice'', vc_role = Rp_agent, vc_admin_only = None, vc_area_id = None, vc_session_id = ''s''\<rparr>"

lemma town_ok: "graph_ok town"
  by code_simp

definition conflict_row :: "int \<Rightarrow> relation_row" where
  "conflict_row i = \<lparr>gm_source = node Assertion_kind 1, gm_target = node Assertion_kind i, gm_type = ''conflicts_with'',
     gm_strength = 1, gm_source_kind = ''turn'', gm_source_ref = [], gm_created_at = 30, gm_updated_at = 0\<rparr>"

lemma town_relations: "memory_relations town = [conflict_row 3, conflict_row 2]"
  by (simp add: town_def conflict_row_def)

lemma alice_sees: "may_see town alice (node Assertion_kind 1)" "may_see town alice (node Assertion_kind 3)"
  "\<not> may_see town alice (node Assertion_kind 2)"
  by code_simp+

theorem repository_edges_visible_witness:
  "relation_edge (node Assertion_kind 1) (node Assertion_kind 3) (conflict_row 3) \<in>
     set (readMemoryRelationEdges [node Assertion_kind 1] alice None town) \<and>
   relation_edge (node Assertion_kind 1) (node Assertion_kind 2) (conflict_row 2) \<notin>
     set (readMemoryRelationEdges [node Assertion_kind 1] alice None town)"
proof
  note exact = repository_edges_visible [OF town_ok, THEN conjunct2, of "[node Assertion_kind 1]" alice None]
  have row: "gm_source (conflict_row i) = node Assertion_kind 1" "gm_target (conflict_row i) = node Assertion_kind i" for i
    by (simp_all add: conflict_row_def)
  have ends: "er_source (relation_edge s d r) = s" "er_target (relation_edge s d r) = d" for s d r
    by (simp_all add: relation_edge_def)
  have "episode_nodes town = []" by (simp add: town_def)
  then show "relation_edge (node Assertion_kind 1) (node Assertion_kind 3) (conflict_row 3) \<in>
     set (readMemoryRelationEdges [node Assertion_kind 1] alice None town)"
    unfolding exact mem_Collect_eq town_relations
    by (intro bexI [of _ "conflict_row 3"]) (simp_all add: row ends alice_sees isEdgeInTimeSlice_def hasTimeSlice_def)
  show "relation_edge (node Assertion_kind 1) (node Assertion_kind 2) (conflict_row 2) \<notin>
     set (readMemoryRelationEdges [node Assertion_kind 1] alice None town)"
    unfolding exact mem_Collect_eq ends using alice_sees(3) by simp
qed

text \<open>Events that are public or happen where the viewer is are shown.\<close>

lemma public_or_here_shown:
  assumes "e \<in> set (event_nodes db)" "public_or_here vc e"
  shows "shown db vc (node Event_kind (gv_id e))"
proof -
  have "event_record e \<in> all_records db" using assms(1) by (simp add: all_records_def)
  moreover have "event_open vc e" using assms(2) by (auto simp: public_or_here_def event_open_def)
  ultimately show ?thesis unfolding shown_def by (intro bexI [of _ "event_record e"]) simp_all
qed

text \<open>
  The SQL conditions say what the visibility policy says about a row: the one
  for entities and the one for private nodes exactly, the one for events except that it leaves
  out events of the scopes \<open>system_only\<close> and \<open>owner_private\<close>, which the policy shows to
  administrators and owners.
\<close>

theorem predicates_match_policy:
  "(let row = \<lparr>nd_visibility_scope = chars ''visibility_scope'', nd_location = number ''location_entity_id'',
       nd_memory_scope = chars ''memory_scope'', nd_owner = chars ''owner_agent_id'', nd_agent = chars ''agent_id''\<rparr>;
       scope = chars ''visibility_scope''
    in sql_holds chars number (entityVisibilityPredicate vc) = isNodeVisible vc (node Entity_kind i) row \<and>
       sql_holds chars number (privateNodePredicate vc) = isNodeVisible vc (node Assertion_kind i) row \<and>
       sql_holds chars number (eventVisibilityPredicate vc) =
         (isNodeVisible vc (node Event_kind i) row \<and> scope \<noteq> Some ''system_only'' \<and> scope \<noteq> Some ''owner_private''))"
  by (auto simp: Let_def isNodeVisible_def entityVisibilityPredicate_def privateNodePredicate_def
      eventVisibilityPredicate_def node_def policy_defs split: option.splits if_splits)

end
