(* ===== verification/Navigator_Paths.thy ===== *)
theory Navigator_Paths
  imports Navigator Graph_Visibility
begin

text \<open>
  What a search of the memory graph returns: walks through nodes the viewer may see, in the
  order of their scores and within the limits, cut at the time the plan or the caller names.
  The proofs about visibility are done against an interface, \<open>shown_graph\<close>, which the
  repository of \<^verbatim>\<open>Graph_Repo\<close> implements.
\<close>

section \<open>The caches\<close>

definition cached :: "nav_cache \<Rightarrow> node_ref \<Rightarrow> visibility_record option \<Rightarrow> bool" where
  "cached c r v \<longleftrightarrow> map_of (nc_records c) r = Some v"

definition extends :: "nav_cache \<Rightarrow> nav_cache \<Rightarrow> bool" where
  "extends c c' \<longleftrightarrow> (\<forall>r v. cached c r v \<longrightarrow> cached c' r v)"

lemma extends_refl [simp]: "extends c c"
  by (simp add: extends_def)

lemma extends_trans: "extends c c' \<Longrightarrow> extends c' c'' \<Longrightarrow> extends c c''"
  by (simp add: extends_def)

definition seen :: "viewer_context \<Rightarrow> nav_cache \<Rightarrow> node_ref \<Rightarrow> bool" where
  "seen vc c r \<longleftrightarrow> (\<exists>v. cached c r v \<and> record_disposition vc r v = Visible)"

lemma seen_mono: "extends c c' \<Longrightarrow> seen vc c r \<Longrightarrow> seen vc c' r"
  by (auto simp: extends_def seen_def)

lemma cached_prime:
  "cached (primeVisibilityRecords rp refs c) r v \<longleftrightarrow>
     (if \<exists>v. cached c r v then cached c r v
      else r \<in> set refs \<and>
        v = map_of (record_map (rp_visibility rp (filter (\<lambda>r. map_of (nc_records c) r = None) refs))) r)"
proof -
  have fold: "map_of (fold (\<lambda>r. AList.update r (g r)) rs m) r = (if r \<in> set rs then Some (g r) else map_of m r)"
    for g :: "node_ref \<Rightarrow> visibility_record option" and rs m
    by (induction rs arbitrary: m) (auto simp: update_conv')
  have missing: "r \<in> set refs \<and> map_of (nc_records c) r = None \<Longrightarrow> filter (\<lambda>r. map_of (nc_records c) r = None) refs \<noteq> []"
    by (auto simp: filter_empty_conv)
  show ?thesis
    using missing by (auto simp: primeVisibilityRecords_def cached_def fold Let_def)
qed

lemma prime_extends: "extends c (primeVisibilityRecords rp refs c)"
  by (auto simp: extends_def cached_prime)

lemma prime_covers: "r \<in> set refs \<Longrightarrow> \<exists>v. cached (primeVisibilityRecords rp refs c) r v"
  by (auto simp: cached_prime)

section \<open>Walks\<close>

text \<open>
  A walk starts at its seed, each edge leads from the node before it to the node after it, and
  no node comes twice.
\<close>

definition is_walk :: "beam_path \<Rightarrow> bool" where
  "is_walk p \<longleftrightarrow> bp_nodes p = bp_seed p # map be_to (bp_edges p) \<and>
     map be_from (bp_edges p) = butlast (bp_nodes p) \<and> distinct (bp_nodes p) \<and> bp_depth p = length (bp_edges p)"

lemma is_walk_start: "is_walk (ip_path (start_path s))"
  by (simp add: is_walk_def start_path_def)

lemma is_walk_extend:
  assumes "is_walk (ip_path p)" "be_from e = last (bp_nodes (ip_path p))" "be_to e \<notin> set (bp_nodes (ip_path p))"
    "depth = Suc (bp_depth (ip_path p))"
  shows "is_walk (ip_path (extend_path depth p e))"
proof -
  have "bp_nodes (ip_path p) \<noteq> []" using assms(1) by (simp add: is_walk_def)
  then have "butlast (bp_nodes (ip_path p)) @ [last (bp_nodes (ip_path p))] = bp_nodes (ip_path p)" by simp
  with assms show ?thesis by (auto simp: is_walk_def extend_path_def)
qed

lemma set_deduplicatePaths: "set (deduplicatePaths ps) \<subseteq> set ps"
proof -
  have "set (fold (\<lambda>p out. if path_signature p \<in> path_signature ` set out then out else out @ [p]) ps out) \<subseteq> set out \<union> set ps"
    for out
  proof (induction ps arbitrary: out)
    case (Cons p ps)
    from Cons.IH [of out] Cons.IH [of "out @ [p]"] show ?case by auto
  qed simp
  from this [of "[]"] show ?thesis by (simp add: deduplicatePaths_def)
qed

lemma set_sort_desc [simp]: "set (sort_desc f xs) = set xs"
  by (simp add: sort_desc_def)

lemma set_take_sub: "x \<in> set (take n xs) \<Longrightarrow> x \<in> set xs"
  by (rule in_set_takeD)

text \<open>
  Evidence that mentions only nodes of its own path, all of which \<open>sees\<close> admits, each once,
  and that hides nothing.
\<close>

definition evidence_safe :: "(node_ref \<Rightarrow> bool) \<Rightarrow> nat \<Rightarrow> evidence \<Rightarrow> bool" where
  "evidence_safe sees depth ev \<longleftrightarrow>
     (let p = ev_path ev; nodes = set (bp_nodes p) in
      (\<forall>r \<in> nodes. sees r) \<and> bp_seed p \<in> nodes \<and> (\<forall>e \<in> set (bp_edges p). be_from e \<in> nodes \<and> be_to e \<in> nodes) \<and>
      set (ev_supporting_nodes ev) \<subseteq> nodes \<and> ev_redacted ev = [] \<and>
      distinct (bp_nodes p) \<and> length (bp_nodes p) \<le> Suc depth \<and> length (bp_edges p) \<le> depth \<and>
      (\<forall>pv. ev_provenance ev = Some pv \<longrightarrow> set (pv_conflict_refs pv) \<subseteq> nodes))"

lemma walk_ends:
  assumes "is_walk p" "e \<in> set (bp_edges p)"
  shows "be_from e \<in> set (bp_nodes p) \<and> be_to e \<in> set (bp_nodes p)"
proof -
  have "be_from e \<in> set (map be_from (bp_edges p))" using assms(2) by simp
  then have "be_from e \<in> set (bp_nodes p)" using assms(1) unfolding is_walk_def by (metis in_set_butlastD)
  with assms show ?thesis by (simp add: is_walk_def)
qed

lemma fold_visited: "set (fold (\<lambda>e s. set_add (be_to e) (set_add (be_from e) s)) es s) =
    set s \<union> be_from ` set es \<union> be_to ` set es"
  by (induction es arbitrary: s) auto

lemma slice_safe:
  assumes "evidence_safe sees depth ev" "ev_provenance ev = None" "slice_path query ev = Some ev'"
  shows "evidence_safe sees depth ev' \<and> ev_provenance ev' = None \<and>
    (\<forall>e \<in> set (bp_edges (ev_path ev')). edge_in_slice query e) \<and> ev_score ev' = ev_score ev"
proof -
  let ?p = "ev_path ev"
  define kept where "kept = filter (edge_in_slice query) (bp_edges ?p)"
  define visited where "visited = fold (\<lambda>e s. set_add (be_to e) (set_add (be_from e) s)) kept [bp_seed ?p]"
  define ordered where "ordered = filter (\<lambda>r. r \<in> set visited) (bp_nodes ?p)"
  have ordered: "ordered \<noteq> []" and ev': "ev' = ev\<lparr>
      ev_path := \<lparr>bp_seed = hd ordered, bp_nodes = ordered, bp_edges = kept, bp_depth = min (bp_depth ?p) (length kept)\<rparr>,
      ev_supporting_nodes := filter (\<lambda>r. r \<in> set visited) (ev_supporting_nodes ev)\<rparr>"
    using assms(3) unfolding slice_path_def Let_def kept_def visited_def ordered_def by (auto split: if_splits)
  have visited: "set visited = insert (bp_seed ?p) (be_from ` set kept \<union> be_to ` set kept)"
    by (simp add: visited_def fold_visited)
  have kept: "set kept \<subseteq> set (bp_edges ?p)" "\<forall>e \<in> set kept. edge_in_slice query e" "length kept \<le> length (bp_edges ?p)"
    by (auto simp: kept_def)
  have len: "length ordered \<le> length (bp_nodes ?p)" by (simp add: ordered_def)
  have safe: "\<forall>r \<in> set (bp_nodes ?p). sees r" "\<forall>e \<in> set (bp_edges ?p). be_from e \<in> set (bp_nodes ?p) \<and> be_to e \<in> set (bp_nodes ?p)"
    "set (ev_supporting_nodes ev) \<subseteq> set (bp_nodes ?p)" "ev_redacted ev = []" "distinct (bp_nodes ?p)"
    "length (bp_nodes ?p) \<le> Suc depth" "length (bp_edges ?p) \<le> depth"
    using assms(1) by (simp_all add: evidence_safe_def Let_def)
  have mem: "r \<in> set ordered \<longleftrightarrow> r \<in> set (bp_nodes ?p) \<and> r \<in> set visited" for r by (auto simp: ordered_def)
  have "\<forall>e \<in> set kept. be_from e \<in> set ordered \<and> be_to e \<in> set ordered"
    using safe(2) kept(1) visited mem by auto
  moreover have "\<forall>r \<in> set ordered. sees r" using safe(1) mem by blast
  moreover have "set (filter (\<lambda>r. r \<in> set visited) (ev_supporting_nodes ev)) \<subseteq> set ordered" using safe(3) mem by auto
  moreover have "distinct ordered" using safe(5) by (simp add: ordered_def)
  ultimately show ?thesis
    using ordered kept(2,3) len safe(4,6,7) assms(2)
    by (simp add: ev' evidence_safe_def Let_def del: set_filter)
qed

lemma provenance_safe:
  assumes "evidence_safe sees depth ev"
  shows "evidence_safe sees depth (enrichWithProvenance seedsByRef ev)"
  using assms by (auto simp: evidence_safe_def enrichWithProvenance_def Let_def)

lemma enrich_path [simp]: "ev_path (enrichWithProvenance m ev) = ev_path ev" "ev_score (enrichWithProvenance m ev) = ev_score ev"
  by (simp_all add: enrichWithProvenance_def Let_def)

section \<open>The interface of a graph with visibility\<close>

text \<open>
  \<open>sees r\<close>: the viewer may see the node; \<open>certain r\<close>: every lookup of the node shows it. The
  edge queries return edges to certain nodes.
\<close>

locale shown_graph =
  fixes rp :: graph_repo
    and vc :: viewer_context
    and sees :: "node_ref \<Rightarrow> bool"
    and certain :: "node_ref \<Rightarrow> bool"
  assumes lookup_sound: "map_of (record_map (rp_visibility rp refs)) r = Some v \<Longrightarrow>
      record_disposition vc r (Some v) = Visible \<Longrightarrow> sees r"
    and lookup_certain: "certain r \<Longrightarrow> r \<in> set refs \<Longrightarrow>
      record_disposition vc r (map_of (record_map (rp_visibility rp refs)) r) = Visible"
    and logic_certain: "e \<in> set (rp_logic rp refs vc slice) \<Longrightarrow> certain (er_target e)"
    and relations_certain: "e \<in> set (rp_relations rp refs vc slice) \<Longrightarrow> certain (er_target e)"
    and semantic_certain: "e \<in> set (rp_semantic rp refs vc slice) \<Longrightarrow> certain (er_target e)"
    and facts_certain: "e \<in> set (rp_state_facts rp refs vc slice) \<Longrightarrow> certain (er_target e)"
    and events_certain: "x \<in> set (rp_events rp refs vc) \<Longrightarrow> certain (px_event x)"
begin

definition good :: "nav_cache \<Rightarrow> bool" where
  "good c \<longleftrightarrow> (\<forall>r v. cached c r v \<longrightarrow> (record_disposition vc r v = Visible \<longrightarrow> sees r) \<and>
     (certain r \<longrightarrow> record_disposition vc r v = Visible))"

definition firm :: "nav_cache \<Rightarrow> node_ref \<Rightarrow> bool" where
  "firm c r \<longleftrightarrow> certain r \<or> seen vc c r"

lemma firm_mono: "extends c c' \<Longrightarrow> firm c r \<Longrightarrow> firm c' r"
  using seen_mono by (auto simp: firm_def)

lemma good_empty: "good empty_cache"
  by (simp add: good_def cached_def empty_cache_def)

lemma hidden_None [simp]: "record_disposition vc r None = Hidden"
  by (simp add: record_disposition_def)

lemma good_prime: "good c \<Longrightarrow> good (primeVisibilityRecords rp refs c)"
  unfolding good_def
proof (intro allI impI)
  fix r v
  assume c: "\<forall>r v. cached c r v \<longrightarrow> (record_disposition vc r v = Visible \<longrightarrow> sees r) \<and>
      (certain r \<longrightarrow> record_disposition vc r v = Visible)"
    and v: "cached (primeVisibilityRecords rp refs c) r v"
  let ?missing = "filter (\<lambda>r. map_of (nc_records c) r = None) refs"
  show "(record_disposition vc r v = Visible \<longrightarrow> sees r) \<and> (certain r \<longrightarrow> record_disposition vc r v = Visible)"
  proof (cases "\<exists>v. cached c r v")
    case True
    with v c show ?thesis by (simp add: cached_prime)
  next
    case False
    then have r: "r \<in> set ?missing" "v = map_of (record_map (rp_visibility rp ?missing)) r"
      using v unfolding cached_prime by (auto simp: cached_def)
    moreover have "sees r" if "record_disposition vc r v = Visible"
    proof (cases v)
      case (Some w)
      with that r(2) show ?thesis by (intro lookup_sound [of ?missing r w]) simp_all
    qed (use that in simp)
    ultimately show ?thesis using lookup_certain by blast
  qed
qed

lemma disposition_step:
  assumes "good c" "getNodeDisposition rp vc r c = (d, c')"
  shows "good c' \<and> extends c c' \<and> (d = Visible \<longrightarrow> sees r \<and> seen vc c' r) \<and> (firm c r \<longrightarrow> d = Visible)"
proof -
  have c': "c' = primeVisibilityRecords rp [r] c"
    and d: "d = record_disposition vc r (or_else (map_of (nc_records c') r) None)"
    using assms(2) by (auto simp: getNodeDisposition_def Let_def)
  obtain v where v: "cached c' r v" using prime_covers [of r "[r]"] c' by auto
  then have d': "d = record_disposition vc r v" by (simp add: d cached_def)
  have good': "good c'" using good_prime assms(1) c' by simp
  moreover have "extends c c'" using prime_extends c' by simp
  moreover have "d = Visible" if "firm c r"
  proof -
    from that consider "certain r" | "seen vc c r" by (auto simp: firm_def)
    then show ?thesis
    proof cases
      case 1
      with v good' d' show ?thesis by (auto simp: good_def)
    next
      case 2
      with seen_mono \<open>extends c c'\<close> obtain w where "cached c' r w" "record_disposition vc r w = Visible"
        by (metis seen_def)
      with v d' show ?thesis by (simp add: cached_def)
    qed
  qed
  ultimately show ?thesis using v d' by (auto simp: good_def seen_def)
qed

lemma dispositions_step:
  assumes "good c" "dispositions rp vc refs c = (ds, c')"
  shows "good c' \<and> extends c c' \<and> map fst ds = refs \<and>
    (\<forall>(r, d) \<in> set ds. (d = Visible \<longrightarrow> sees r \<and> seen vc c' r) \<and> (firm c r \<longrightarrow> d = Visible))"
proof -
  let ?look = "\<lambda>r c. let (d, c') = getNodeDisposition rp vc r c in ((r, d), c')"
  have loop: "good c' \<and> extends c c' \<and> map fst ds = refs \<and>
      (\<forall>(r, d) \<in> set ds. (d = Visible \<longrightarrow> sees r \<and> seen vc c' r) \<and> (firm c r \<longrightarrow> d = Visible))"
    if "good c" "traverse ?look refs c = (ds, c')" for refs c ds c'
    using that
  proof (induction refs arbitrary: c ds)
    case (Cons r refs)
    obtain d c1 where d: "getNodeDisposition rp vc r c = (d, c1)" by fastforce
    obtain ds1 where ds: "traverse ?look refs c1 = (ds1, c')" "ds = (r, d) # ds1"
      using Cons.prems(2) d by (auto simp: Let_def split: prod.splits)
    from disposition_step [OF Cons.prems(1) d] have one: "good c1" "extends c c1"
      "d = Visible \<longrightarrow> sees r \<and> seen vc c1 r" "firm c r \<longrightarrow> d = Visible" by auto
    from Cons.IH [OF one(1) ds(1)] have rest: "good c'" "extends c1 c'" "map fst ds1 = refs"
      "\<forall>(r, d) \<in> set ds1. (d = Visible \<longrightarrow> sees r \<and> seen vc c' r) \<and> (firm c1 r \<longrightarrow> d = Visible)" by auto
    show ?case
      using one rest extends_trans [OF one(2) rest(2)] seen_mono [OF rest(2)] firm_mono [OF one(2)] ds(2) by fastforce
  qed simp
  let ?c = "primeVisibilityRecords rp refs c"
  have "traverse ?look refs ?c = (ds, c')" using assms(2) by (simp add: dispositions_def)
  from loop [OF good_prime [OF assms(1)] this] have "good c'" "extends ?c c'" "map fst ds = refs"
    "\<forall>(r, d) \<in> set ds. (d = Visible \<longrightarrow> sees r \<and> seen vc c' r) \<and> (firm ?c r \<longrightarrow> d = Visible)" by auto
  moreover have "extends c ?c" by (rule prime_extends)
  ultimately show ?thesis using extends_trans firm_mono [OF \<open>extends c ?c\<close>] by fastforce
qed

lemma filter_visible_step:
  assumes "good c" "filterVisibleNodeRefs rp vc refs c = (visible, c')"
  shows "good c' \<and> extends c c' \<and> set visible \<subseteq> set refs \<and> (\<forall>r \<in> set visible. seen vc c' r)"
proof -
  obtain ds where ds: "dispositions rp vc (js_unique refs) c = (ds, c')" "visible = map fst (filter (\<lambda>(r, d). d = Visible) ds)"
    using assms(2) by (auto simp: filterVisibleNodeRefs_def Let_def split: prod.splits)
  from dispositions_step [OF assms(1) ds(1)] have "good c'" "extends c c'" "map fst ds = js_unique refs"
    "\<forall>(r, d) \<in> set ds. d = Visible \<longrightarrow> seen vc c' r" by auto
  moreover from this(3) have "set refs = fst ` set ds" using set_js_unique [of refs] by (metis set_map)
  ultimately show ?thesis using ds(2) by auto
qed

section \<open>Neighbours\<close>

definition firm_edges :: "nav_cache \<Rightarrow> beam_edge list \<Rightarrow> bool" where
  "firm_edges c es \<longleftrightarrow> (\<forall>e \<in> set es. firm c (be_to e))"

definition neighbors_ok :: "nav_cache \<Rightarrow> neighbors \<Rightarrow> bool" where
  "neighbors_ok c m \<longleftrightarrow> (\<forall>r es. map_of m r = Some es \<longrightarrow> (\<forall>e \<in> set es. be_from e = r \<and> firm c (be_to e)))"

lemma neighbors_mono: "extends c c' \<Longrightarrow> neighbors_ok c m \<Longrightarrow> neighbors_ok c' m"
  using firm_mono by (fastforce simp: neighbors_ok_def)

lemma pushEdge_ok: "neighbors_ok c m \<Longrightarrow> firm c (be_to e) \<Longrightarrow> neighbors_ok c (pushEdge e m)"
  by (cases "map_of m (be_from e)") (auto simp: neighbors_ok_def pushEdge_def update_conv')

lemma pushEdges_ok: "neighbors_ok c m \<Longrightarrow> firm_edges c es \<Longrightarrow> neighbors_ok c (pushEdges es m)"
  unfolding pushEdges_def by (induction es arbitrary: m) (simp_all add: firm_edges_def pushEdge_ok)

definition expansion_ok :: "nav_cache \<Rightarrow> expansion \<Rightarrow> bool" where
  "expansion_ok c ex \<longleftrightarrow> good (snd ex) \<and> extends c (snd ex) \<and> neighbors_ok (snd ex) (fst ex)"

text \<open>The cache of owners plays no part in visibility.\<close>

definition same_records :: "nav_cache \<Rightarrow> nav_cache \<Rightarrow> bool" where
  "same_records c c' \<longleftrightarrow> nc_records c' = nc_records c"

lemma same_records_cached: "same_records c c' \<Longrightarrow> cached c' = cached c"
  by (simp add: same_records_def cached_def fun_eq_iff)

lemma same_records_ok: "same_records c c' \<Longrightarrow> expansion_ok c0 (m, c) \<Longrightarrow> expansion_ok c0 (m, c')"
  by (simp add: expansion_ok_def good_def extends_def neighbors_ok_def firm_def seen_def same_records_cached)

lemma owner_same_records: "getPrivateNodeAgentId rp r c = (owner, c') \<Longrightarrow> same_records c c'"
  by (auto simp: getPrivateNodeAgentId_def same_records_def Let_def split: option.splits)

lemma compatibility_same_records: "isSameAgentPrivateCompatibility rp a b agent c = (ok, c') \<Longrightarrow> same_records c c'"
  unfolding isSameAgentPrivateCompatibility_def Let_def
  by (auto simp: same_records_def split: if_splits prod.splits dest!: owner_same_records [unfolded same_records_def])

lemma push_step:
  "expansion_ok c0 (m, c) \<Longrightarrow> good c' \<Longrightarrow> extends c c' \<Longrightarrow> firm_edges c' es \<Longrightarrow> expansion_ok c0 (pushEdges es m, c')"
  using extends_trans neighbors_mono pushEdges_ok unfolding expansion_ok_def by auto

lemma view_edge_ends [simp]:
  "be_from (view_edge e k w f ev) = er_source e" "be_to (view_edge e k w f ev) = er_target e"
  by (simp_all add: view_edge_def)

lemma own_edge_ends [simp]: "be_from (own_edge a b k w t s f ev) = a" "be_to (own_edge a b k w t s f ev) = b"
  by (simp_all add: own_edge_def)

lemma fromRepoRecord_ends [simp]: "er_source (fromRepoRecord e) = er_source e" "er_target (fromRepoRecord e) = er_target e"
  by (simp_all add: fromRepoRecord_def Let_def)

lemma semantic_step: "expansion_ok c0 ex \<Longrightarrow> expansion_ok c0 (expandSemanticEdges rp vc slice private frontier ex)"
proof -
  let ?step = "\<lambda>e (m, c). let (ok, c') = (if private
         then isSameAgentPrivateCompatibility rp (er_source e) (er_target e) (vc_agent_id vc) c else (True, c))
       in if ok then (pushEdge (view_edge e (er_type e) (clamp01 (er_weight e)) None False) m, c') else (m, c')"
  have "expansion_ok c0 (fold ?step es ex)" if "expansion_ok c0 ex" "\<forall>e \<in> set es. certain (er_target e)" for es
    using that
  proof (induction es arbitrary: ex)
    case (Cons e es)
    obtain m c where ex: "ex = (m, c)" by fastforce
    obtain ok c' where ok: "(if private then isSameAgentPrivateCompatibility rp (er_source e) (er_target e) (vc_agent_id vc) c
        else (True, c)) = (ok, c')" by fastforce
    then have "same_records c c'" by (auto simp: same_records_def split: if_splits dest!: compatibility_same_records)
    then have ok': "expansion_ok c0 (m, c')" using Cons.prems(1) ex same_records_ok by simp
    then have "expansion_ok c0 (pushEdge (view_edge e (er_type e) (clamp01 (er_weight e)) None False) m, c')"
      using Cons.prems(2) by (simp add: expansion_ok_def pushEdge_ok firm_def)
    with ok' have "expansion_ok c0 (?step e ex)" using ok by (simp add: ex)
    with Cons.IH [of "?step e ex"] Cons.prems(2) show ?case by simp
  qed simp
  moreover assume "expansion_ok c0 ex"
  ultimately show ?thesis
    unfolding expandSemanticEdges_def using semantic_certain by simp
qed

text \<open>What the pushed lists of edges lead to.\<close>

lemma view_edges_firm: "\<forall>e \<in> set es. certain (er_target e) \<Longrightarrow>
    firm_edges c (map (\<lambda>e. view_edge e (k e) (w e) (f e) (v e)) (map fromRepoRecord es))"
  by (simp add: firm_edges_def firm_def)

lemma firm_edges_append [simp]: "firm_edges c (xs @ ys) \<longleftrightarrow> firm_edges c xs \<and> firm_edges c ys"
  by (auto simp: firm_edges_def)

lemma seen_firm: "seen vc c r \<Longrightarrow> firm c r"
  by (simp add: firm_def)

lemma participant_edges_firm: "\<forall>r \<in> set visible. seen vc c r \<Longrightarrow> firm_edges c (participant_edges visible contexts)"
  by (auto simp: firm_edges_def participant_edges_def seen_firm)

lemma entity_fact_edges_firm: "\<forall>r \<in> set visible. seen vc c r \<Longrightarrow> firm_edges c (entity_fact_edges frontier visible rows)"
  by (auto simp: firm_edges_def entity_fact_edges_def seen_firm split: if_splits)

lemma event_of_edges_firm: "\<forall>x \<in> set rows. certain (px_event x) \<Longrightarrow> firm_edges c (event_of_edges frontier rows)"
  by (auto simp: firm_edges_def event_of_edges_def firm_def)

lemma belief_edges_firm: "\<forall>r \<in> set visible. seen vc c r \<Longrightarrow> firm_edges c (belief_edges frontier visible rows)"
  by (auto simp: firm_edges_def belief_edges_def Let_def seen_firm split: if_splits option.splits)

lemma fact_edges_out_firm: "\<forall>r \<in> set visible. seen vc c r \<Longrightarrow> firm_edges c (fact_edges_out visible rows)"
  by (auto simp: firm_edges_def fact_edges_out_def Let_def seen_firm split: if_splits)

lemma belief_edges_out_firm: "\<forall>r \<in> set visible. seen vc c r \<Longrightarrow> firm_edges c (belief_edges_out ids visible rows)"
  by (auto simp: firm_edges_def belief_edges_out_def Let_def seen_firm split: if_splits)

lemma event_step:
  assumes "expansion_ok c0 ex" shows "expansion_ok c0 (expandEventFrontier rp vc slice frontier ex)"
proof (cases "frontier = []")
  case False
  obtain m c where ex: "ex = (m, c)" by fastforce
  let ?contexts = "rp_contexts rp frontier vc"
  obtain visible c' where f: "filterVisibleNodeRefs rp vc (js_unique (concat (map px_participants ?contexts))) c = (visible, c')"
    by fastforce
  have "good c" using assms ex by (simp add: expansion_ok_def)
  from filter_visible_step [OF this f] have c': "good c'" "extends c c'" "\<forall>r \<in> set visible. seen vc c' r" by auto
  show ?thesis
    using assms False c' logic_certain facts_certain
    by (simp add: expandEventFrontier_def ex f del: map_map)
      (intro semantic_step push_step [where c = c]; simp add: view_edges_firm participant_edges_firm del: map_map)
qed (use assms in \<open>simp add: expandEventFrontier_def\<close>)

lemma entity_step:
  assumes "expansion_ok c0 ex" shows "expansion_ok c0 (expandEntityFrontier rp vc slice frontier ex)"
proof (cases "extractIdsFromRefs frontier Entity_kind = []")
  case False
  obtain m c where ex: "ex = (m, c)" by fastforce
  obtain visible c1 where f1: "filterVisibleNodeRefs rp vc
      (concat (map (\<lambda>r. [ft_source r, ft_target r]) (rp_facts rp frontier))) c = (visible, c1)" by fastforce
  obtain visible_beliefs c2 where f2: "filterVisibleNodeRefs rp vc
      (map av_assertion (rp_linked rp (vc_agent_id vc) frontier)) c1 = (visible_beliefs, c2)" by fastforce
  have "good c" using assms ex by (simp add: expansion_ok_def)
  from filter_visible_step [OF this f1] have c1: "good c1" "extends c c1" "\<forall>r \<in> set visible. seen vc c1 r" by auto
  from filter_visible_step [OF c1(1) f2] have c2: "good c2" "extends c1 c2" "\<forall>r \<in> set visible_beliefs. seen vc c2 r" by auto
  have "\<forall>r \<in> set visible. seen vc c2 r" using c1(3) seen_mono [OF c2(2)] by blast
  moreover have "extends c c2" using c1(2) c2(2) extends_trans by blast
  ultimately show ?thesis
    using assms False c2 events_certain
    by (simp add: expandEntityFrontier_def ex f1 f2)
      (intro semantic_step push_step [where c = c]; simp add: entity_fact_edges_firm event_of_edges_firm belief_edges_firm)
qed (use assms in \<open>simp add: expandEntityFrontier_def\<close>)

lemma fact_step:
  assumes "expansion_ok c0 ex" shows "expansion_ok c0 (expandFactFrontier rp vc slice frontier ex)"
proof (cases "frontier = []")
  case False
  obtain m c where ex: "ex = (m, c)" by fastforce
  obtain visible c' where f: "filterVisibleNodeRefs rp vc
      (concat (map (\<lambda>r. [ft_source r, ft_target r] @ option_list (ft_source_event r)) (rp_facts rp frontier))) c = (visible, c')"
    by fastforce
  have "good c" using assms ex by (simp add: expansion_ok_def)
  from filter_visible_step [OF this f] have "good c'" "extends c c'" "\<forall>r \<in> set visible. seen vc c' r" by auto
  with assms False f show ?thesis
    by (simp add: expandFactFrontier_def ex)
      (intro semantic_step push_step [where c = c]; simp add: fact_edges_out_firm)
qed (use assms in \<open>simp add: expandFactFrontier_def\<close>)

lemma private_event_step:
  "expansion_ok c0 ex \<Longrightarrow> expansion_ok c0 (expandPrivateEventFrontier rp vc slice frontier ex)"
  by (simp add: expandPrivateEventFrontier_def semantic_step)

lemma private_belief_step:
  assumes "expansion_ok c0 ex" shows "expansion_ok c0 (expandPrivateBeliefFrontier rp vc slice frontier ex)"
proof -
  let ?ids = "fold (\<lambda>r m. case parseNodeRef r of Some (k, i) \<Rightarrow> AList.update i r m | None \<Rightarrow> m) frontier []"
  obtain m c where ex: "ex = (m, c)" by fastforce
  let ?details = "rp_details rp (vc_agent_id vc) frontier (Option.bind slice sl_committed)"
  obtain visible c' where f: "filterVisibleNodeRefs rp vc
      (concat (map (\<lambda>d. [av_assertion d] @ option_list (av_source d) @ option_list (av_target d) @
         option_list (av_source_event d)) ?details)) c = (visible, c')" by fastforce
  have "good c" using assms ex by (simp add: expansion_ok_def)
  from filter_visible_step [OF this f] have c': "good c'" "extends c c'" "\<forall>r \<in> set visible. seen vc c' r" by auto
  have "expansion_ok c0 (expandSemanticEdges rp vc slice True frontier (pushEdges (belief_edges_out ?ids visible ?details) m, c'))"
    using assms c' ex by (intro semantic_step push_step [where c = c]) (simp_all add: belief_edges_out_firm)
  with assms show ?thesis using f by (simp add: expandPrivateBeliefFrontier_def Let_def ex)
qed

lemma relation_step:
  assumes "expansion_ok c0 ex" shows "expansion_ok c0 (expandRelationEdges rp vc slice refs ex)"
proof -
  obtain m c where ex: "ex = (m, c)" by fastforce
  have "expansion_ok c0 (pushEdges (map (\<lambda>e. view_edge e (er_type e) (er_weight e) None (er_truth_bearing e))
      (map fromRepoRecord (rp_relations rp (js_unique refs) vc slice))) m, c)"
    using assms relations_certain ex
    by (intro push_step [where c = c] view_edges_firm) (auto simp: expansion_ok_def)
  with assms show ?thesis by (simp add: expandRelationEdges_def ex)
qed

lemma fetch_step:
  assumes "good c" "fetchNeighborsByFrontier rp vc slice frontier c = (m, c')"
  shows "good c' \<and> extends c c' \<and> neighbors_ok c' m"
proof -
  have "expansion_ok c ([], c)" using assms(1) by (simp add: expansion_ok_def neighbors_ok_def)
  then have "expansion_ok c (fetchNeighborsByFrontier rp vc slice frontier c)"
    unfolding fetchNeighborsByFrontier_def Let_def
    by (intro relation_step private_belief_step private_event_step fact_step entity_step event_step)
  with assms(2) show ?thesis by (simp add: expansion_ok_def)
qed

section \<open>The beam\<close>

definition path_ok :: "nav_cache \<Rightarrow> nat \<Rightarrow> internal_path \<Rightarrow> bool" where
  "path_ok c depth p \<longleftrightarrow> is_walk (ip_path p) \<and> bp_depth (ip_path p) \<le> depth \<and> (\<forall>r \<in> set (bp_nodes (ip_path p)). firm c r)"

lemma path_ok_mono: "extends c c' \<Longrightarrow> d \<le> d' \<Longrightarrow> path_ok c d p \<Longrightarrow> path_ok c' d' p"
  using firm_mono by (auto simp: path_ok_def)

lemma path_ok_extend:
  assumes "path_ok c d p" "bp_depth (ip_path p) = d" "neighbors_ok c m"
    "e \<in> set (or_else (map_of m (last (bp_nodes (ip_path p)))) [])" "be_to e \<notin> set (bp_nodes (ip_path p))"
  shows "path_ok c (Suc d) (extend_path (Suc d) p e) \<and> bp_depth (ip_path (extend_path (Suc d) p e)) = Suc d"
proof -
  have "be_from e = last (bp_nodes (ip_path p))" "firm c (be_to e)"
    using assms(3,4) by (cases "map_of m (last (bp_nodes (ip_path p)))"; auto simp: neighbors_ok_def)+
  with assms show ?thesis
    using is_walk_extend [of p e "Suc d"] by (auto simp: path_ok_def) (auto simp: extend_path_def)
qed

lemma candidates_ok:
  assumes "\<forall>p \<in> set layer. path_ok c d p \<and> bp_depth (ip_path p) = d" "neighbors_ok c m"
    "p \<in> set (next_candidates gu (Suc d) m layer)"
  shows "path_ok c (Suc d) p \<and> bp_depth (ip_path p) = Suc d"
proof -
  from assms(3) obtain q e where q: "q \<in> set layer" "p = extend_path (Suc d) q e"
    "e \<in> set (or_else (map_of m (last (bp_nodes (ip_path q)))) [])" "be_to e \<notin> set (bp_nodes (ip_path q))"
    by (auto simp: next_candidates_def)
  with assms path_ok_extend [of c d q m e] show ?thesis by auto
qed

lemma beam_step:
  assumes "good c" "\<forall>p \<in> set layer. path_ok c d p \<and> bp_depth (ip_path p) = d" "\<forall>p \<in> set ps. path_ok c d p"
    "beam_levels rp vc slice gu scores width n (Suc d) layer ps c = (ps', c')"
  shows "good c' \<and> extends c c' \<and> (\<forall>p \<in> set ps'. path_ok c' (d + n) p)"
  using assms
proof (induction n arbitrary: d layer ps c)
  case (Suc n)
  obtain m c1 where fetch: "fetchNeighborsByFrontier rp vc slice (groupFrontierByKind layer) c = (m, c1)" by fastforce
  from fetch_step [OF Suc.prems(1) fetch] have c1: "good c1" "extends c c1" "neighbors_ok c1 m" by auto
  let ?candidates = "next_candidates gu (Suc d) m layer"
  let ?layer = "take width (sort_desc (preliminaryPathScore gu scores) (deduplicatePaths ?candidates))"
  have layer: "\<forall>p \<in> set layer. path_ok c1 d p \<and> bp_depth (ip_path p) = d"
    using Suc.prems(2) path_ok_mono [OF c1(2)] by blast
  have ps: "\<forall>p \<in> set ps. path_ok c1 (Suc d) p" using Suc.prems(3) path_ok_mono [OF c1(2), of d "Suc d"] by auto
  show ?case
  proof (cases "?candidates = []")
    case True
    then have "ps' = ps" "c' = c1" using Suc.prems(4) fetch by auto
    with ps c1 path_ok_mono [OF extends_refl, of "Suc d" "d + Suc n" c1] show ?thesis by auto
  next
    case False
    have new: "\<forall>p \<in> set ?layer. path_ok c1 (Suc d) p \<and> bp_depth (ip_path p) = Suc d"
    proof
      fix p assume "p \<in> set ?layer"
      then have "p \<in> set (deduplicatePaths ?candidates)" using set_take_sub by (metis set_sort_desc)
      then show "path_ok c1 (Suc d) p \<and> bp_depth (ip_path p) = Suc d"
        using candidates_ok [OF layer c1(3)] set_deduplicatePaths by blast
    qed
    have rest: "beam_levels rp vc slice gu scores width n (Suc (Suc d)) ?layer (ps @ ?layer) c1 = (ps', c')"
      using Suc.prems(4) fetch False by (simp add: Let_def)
    have "\<forall>p \<in> set (ps @ ?layer). path_ok c1 (Suc d) p" using ps new by auto
    from Suc.IH [OF c1(1) new this rest] c1(2) show ?thesis using extends_trans by auto
  qed
qed auto

lemma expand_step:
  assumes "good c" "\<forall>s \<in> set seeds. seen vc c (sn_ref s)"
    "expandTypedBeam rp vc slice gu seeds scores opts c = (ps, c')"
  shows "good c' \<and> extends c c' \<and> (\<forall>p \<in> set ps. path_ok c' (nat (op_max_depth opts)) p)"
proof -
  define width where "width = nat (min 32 (max 1 \<lceil>of_int (op_beam_width opts) * st_width_multiplier (gu_strategy gu)\<rceil>))"
  define layer where "layer = map start_path (take width (sort_desc (\<lambda>s. or_else (map_of scores (sn_ref s)) 0) seeds))"
  have "\<forall>p \<in> set layer. path_ok c 0 p \<and> bp_depth (ip_path p) = 0"
    using assms(2) is_walk_start unfolding layer_def
    by (auto simp: path_ok_def dest!: set_take_sub) (auto simp: start_path_def seen_firm)
  moreover from this have "\<forall>p \<in> set layer. path_ok c 0 p" by blast
  moreover have "beam_levels rp vc slice gu scores width (nat (op_max_depth opts)) (Suc 0) layer layer c = (ps, c')"
    using assms(3) by (simp add: expandTypedBeam_def Let_def width_def layer_def)
  ultimately show ?thesis using beam_step [OF assms(1)] by fastforce
qed

section \<open>Evidence\<close>

definition evidence_ok :: "nat \<Rightarrow> evidence \<Rightarrow> bool" where
  "evidence_ok depth ev \<longleftrightarrow> is_walk (ev_path ev) \<and> bp_depth (ev_path ev) \<le> depth \<and>
     (\<forall>r \<in> set (bp_nodes (ev_path ev)). sees r) \<and> ev_redacted ev = [] \<and>
     ev_supporting_nodes ev = tl (bp_nodes (ev_path ev)) \<and> ev_provenance ev = None"

lemma filter_True_list: "\<forall>x \<in> set xs. P x \<Longrightarrow> filter P xs = xs"
  by (rule filter_True) simp

lemma walk_supporting: "is_walk p \<Longrightarrow> collectSupportingNodes p = tl (bp_nodes p)"
proof -
  assume w: "is_walk p"
  have "js_unique xs = xs" if "distinct xs" for xs :: "node_ref list"
  proof -
    have "distinct (ys @ xs) \<Longrightarrow> fold set_add xs ys = ys @ xs" for ys
      by (induction xs arbitrary: ys) (auto simp: set_add_def)
    with that show ?thesis by (simp add: js_unique_def)
  qed
  moreover have "filter (\<lambda>r. r \<noteq> bp_seed p) (bp_nodes p) = tl (bp_nodes p)"
    using w by (simp add: is_walk_def) (rule filter_True, force)
  moreover have "distinct (tl (bp_nodes p))" using w unfolding is_walk_def by (metis distinct_tl)
  ultimately show ?thesis by (simp add: collectSupportingNodes_def)
qed

lemma safety_net_step:
  assumes "good c" "path_ok c depth (fst candidate)"
    "applyPostFilterSafetyNet rp vc (make_evidence candidate) c = (safe, c')"
  shows "good c' \<and> extends c c' \<and> (\<exists>ev. safe = Some ev \<and> evidence_ok depth ev \<and> ev_path ev = ip_path (fst candidate) \<and>
    ev_score ev = snd candidate)"
proof -
  let ?p = "ip_path (fst candidate)"
  obtain ds c1 where ds: "dispositions rp vc (bp_nodes ?p) c = (ds, c1)" by fastforce
  from dispositions_step [OF assms(1) ds] have step: "good c1" "extends c c1" "map fst ds = bp_nodes ?p"
    "\<forall>(r, d) \<in> set ds. (d = Visible \<longrightarrow> sees r) \<and> (firm c r \<longrightarrow> d = Visible)" by auto
  have walk: "is_walk ?p" using assms(2) by (simp add: path_ok_def)
  have vis: "\<forall>(r, d) \<in> set ds. d = Visible"
  proof clarify
    fix r d assume rd: "(r, d) \<in> set ds"
    then have "r \<in> set (map fst ds)" by force
    then have "firm c r" using assms(2) unfolding step(3) path_ok_def by blast
    with step(4) rd show "d = Visible" by blast
  qed
  then have visible: "map fst (filter (\<lambda>(r, d). d = Visible) ds) = bp_nodes ?p"
    using step(3) by (simp add: filter_True_list case_prod_beta)
  have redacted: "filter (\<lambda>(r, d). d \<noteq> Visible) ds = []" using vis by (auto simp: filter_empty_conv)
  have "\<forall>x \<in> set ds. sees (fst x)" using step(4) vis by auto
  then have sees: "\<forall>r \<in> set (bp_nodes ?p). sees r" unfolding step(3) [symmetric] by simp
  have nonempty: "bp_nodes ?p \<noteq> []" "bp_seed ?p \<in> set (bp_nodes ?p)" using walk by (simp_all add: is_walk_def)
  have ends: "\<forall>e \<in> set (bp_edges ?p). be_from e \<in> set (bp_nodes ?p) \<and> be_to e \<in> set (bp_nodes ?p)"
    using walk_ends [OF walk] by blast
  have support: "collectSupportingNodes ?p = tl (bp_nodes ?p)" using walk_supporting [OF walk] .
  have tails: "filter (\<lambda>r. r \<in> set (bp_nodes ?p)) (tl (bp_nodes ?p)) = tl (bp_nodes ?p)"
    using nonempty by (intro filter_True) (auto dest: list.set_sel(2))
  have edges: "filter (\<lambda>e. be_from e \<in> set (bp_nodes ?p) \<and> be_to e \<in> set (bp_nodes ?p)) (bp_edges ?p) = bp_edges ?p"
    using ends by (intro filter_True) auto
  have depth: "min (bp_depth ?p) (length (bp_edges ?p)) = bp_depth ?p" using walk by (simp add: is_walk_def)
  have "\<exists>summary. c' = c1 \<and> safe = Some ((make_evidence candidate)\<lparr>ev_supporting_nodes := tl (bp_nodes ?p), ev_summary := summary\<rparr>)"
    using assms(3) nonempty
    unfolding applyPostFilterSafetyNet_def make_evidence_def Let_def evidence.select_convs ds prod.case visible redacted
      support edges tails depth
    by auto
  then obtain summary where "c' = c1 \<and> safe = Some ((make_evidence candidate)\<lparr>ev_supporting_nodes := tl (bp_nodes ?p), ev_summary := summary\<rparr>)" ..
  with step(1,2) sees assms(2) show ?thesis by (simp add: evidence_ok_def path_ok_def make_evidence_def)
qed

lemma assemble_step:
  assumes "good c" "\<forall>p \<in> set candidates. path_ok c depth (fst p)" "\<forall>ev \<in> set acc. evidence_ok depth ev"
  shows "\<forall>ev \<in> set (fst (assembleEvidence rp vc limit candidates acc c)). evidence_ok depth ev"
  using assms
proof (induction candidates arbitrary: acc c)
  case (Cons p candidates)
  obtain safe c' where safe: "applyPostFilterSafetyNet rp vc (make_evidence p) c = (safe, c')" by fastforce
  from safety_net_step [OF Cons.prems(1) _ safe] Cons.prems(2)
  obtain ev where step: "good c'" "extends c c'" "safe = Some ev" "evidence_ok depth ev" by auto
  have "\<forall>p \<in> set candidates. path_ok c' depth (fst p)" using Cons.prems(2) path_ok_mono [OF step(2)] by auto
  from Cons.IH [OF step(1) this, of "acc @ [ev]"] step Cons.prems(3) show ?case
    using safe by (auto simp: option_list_def)
qed simp

lemma seeds_step:
  assumes "visible_seeds ng query vc a an raw = (seeds, c)" "ng_repo ng = rp"
  shows "good c \<and> (\<forall>s \<in> set seeds. seen vc c (sn_ref s))"
proof -
  define focused where "focused = injectFocusSeed (fallbackSeedsFromAnalysis
    (mergeSeeds raw (collectSupplementalSeeds ng query vc raw)) an) (xa_focus_ref a)"
  obtain visible where f: "filterVisibleNodeRefs rp vc (map sn_ref focused) empty_cache = (visible, c)"
    "seeds = filter (\<lambda>s. sn_ref s \<in> set visible) focused"
    using assms by (auto simp: visible_seeds_def focused_def Let_def split: prod.splits)
  from filter_visible_step [OF good_empty f(1)] f(2) show ?thesis by auto
qed

lemma assembled_ok:
  assumes "good c" "\<forall>s \<in> set seeds. seen vc c (sn_ref s)" "ng_repo ng = rp"
  shows "\<forall>ev \<in> set (assembled_evidence ng vc now a st an plan seeds c). evidence_ok 2 ev"
proof -
  let ?opts = "normalizeOptions a"
  define gu where "gu = \<lparr>gu_type = resolveEffectivePrimaryIntent (an_type an) plan,
    gu_secondaries = resolveEffectiveSecondaryIntents plan, gu_strategy = st, gu_plan = plan\<rparr>"
  define scores where "scores = computeSeedScores rp seeds an gu"
  obtain ps c' where ps: "expandTypedBeam rp vc (Some (input_slice a)) gu seeds scores ?opts c = (ps, c')" by fastforce
  from expand_step [OF assms(1,2) ps] have c': "good c'" "\<forall>p \<in> set ps. path_ok c' (nat (op_max_depth ?opts)) p" by auto
  have "nat (op_max_depth ?opts) \<le> 2" by (simp add: normalizeOptions_def)
  then have depth: "\<forall>p \<in> set ps. path_ok c' 2 p" using c'(2) path_ok_mono [OF extends_refl] by blast
  let ?ranked = "rerankPaths rp gu scores (op_max_depth ?opts) now ps"
  have "fst ` set ?ranked \<subseteq> set ps" by (auto simp: rerankPaths_def Let_def)
  with depth have "\<forall>p \<in> set ?ranked. path_ok c' 2 (fst p)" by blast
  from assemble_step [OF c'(1) this, of "[]"] show ?thesis
    using ps assms(3) by (simp add: assembled_evidence_def gu_def scores_def Let_def)
qed

lemma evidence_ok_safe: "evidence_ok depth ev \<Longrightarrow> evidence_safe sees depth ev"
proof -
  assume ok: "evidence_ok depth ev"
  then have none: "ev_provenance ev = None" and walk: "is_walk (ev_path ev)" by (simp_all add: evidence_ok_def)
  then have "bp_nodes (ev_path ev) \<noteq> []" by (simp add: is_walk_def)
  then have "set (tl (bp_nodes (ev_path ev))) \<subseteq> set (bp_nodes (ev_path ev))" by (meson list.set_sel(2) subsetI)
  with ok none walk walk_ends [OF walk] show ?thesis
    unfolding evidence_ok_def evidence_safe_def Let_def by (simp add: is_walk_def)
qed

section \<open>Progress\<close>

lemma filter_visible_firm:
  assumes "good c" "filterVisibleNodeRefs rp vc refs c = (visible, c')" "r \<in> set refs" "firm c r"
  shows "r \<in> set visible"
proof -
  obtain ds where ds: "dispositions rp vc (js_unique refs) c = (ds, c')" "visible = map fst (filter (\<lambda>(r, d). d = Visible) ds)"
    using assms(2) by (auto simp: filterVisibleNodeRefs_def Let_def split: prod.splits)
  from dispositions_step [OF assms(1) ds(1)] have "map fst ds = js_unique refs"
    "\<forall>(r, d) \<in> set ds. firm c r \<longrightarrow> d = Visible" by auto
  moreover from this(1) assms(3) have "r \<in> fst ` set ds" using set_js_unique [of refs] by (metis set_map)
  ultimately show ?thesis using ds(2) assms(4) by force
qed

lemma mergeSeeds_keeps: "set primary \<subseteq> set (mergeSeeds primary supplemental)"
proof -
  have "set merged \<subseteq> set (fold (\<lambda>s merged. if sn_ref s \<in> sn_ref ` set merged then merged else merged @ [s]) ss merged)"
    for ss and merged :: "seed list"
  proof (induction ss arbitrary: merged)
    case (Cons s ss)
    from Cons.IH [of merged] Cons.IH [of "merged @ [s]"] show ?case by auto
  qed simp
  then show ?thesis by (simp add: mergeSeeds_def)
qed

lemma visible_seeds_nonempty:
  assumes "visible_seeds ng query vc a an raw = (seeds, c)" "ng_repo ng = rp" "s \<in> set raw" "certain (sn_ref s)"
  shows "seeds \<noteq> []"
proof -
  define merged where "merged = mergeSeeds raw (collectSupplementalSeeds ng query vc raw)"
  define focused where "focused = injectFocusSeed (fallbackSeedsFromAnalysis merged an) (xa_focus_ref a)"
  have "s \<in> set merged" using mergeSeeds_keeps assms(3) unfolding merged_def by blast
  then have "fallbackSeedsFromAnalysis merged an = merged" by (auto simp: fallbackSeedsFromAnalysis_def)
  then have s: "s \<in> set focused"
    using \<open>s \<in> set merged\<close> by (simp add: focused_def injectFocusSeed_def split: option.split)
  obtain visible where f: "filterVisibleNodeRefs rp vc (map sn_ref focused) empty_cache = (visible, c)"
    "seeds = filter (\<lambda>s. sn_ref s \<in> set visible) focused"
    using assms(1,2) by (auto simp: visible_seeds_def focused_def merged_def Let_def split: prod.splits)
  have "sn_ref s \<in> set visible"
    using filter_visible_firm [OF good_empty f(1)] s assms(4) by (simp add: firm_def)
  with s f(2) show ?thesis by (auto simp: filter_empty_conv)
qed

lemma assemble_keeps: "length acc \<le> length (fst (assembleEvidence rp vc n cs acc c))"
proof (induction cs arbitrary: acc c)
  case (Cons p cs)
  obtain safe c1 where safe: "applyPostFilterSafetyNet rp vc (make_evidence p) c = (safe, c1)" by fastforce
  from Cons.IH [of "acc @ option_list safe" c1] show ?case by (simp add: safe)
qed simp

lemma assemble_nonempty:
  assumes "good c" "\<forall>p \<in> set cs. path_ok c depth (fst p)" "cs \<noteq> []" "0 < n"
  shows "fst (assembleEvidence rp vc n cs [] c) \<noteq> []"
proof -
  obtain p cs' where cs: "cs = p # cs'" using assms(3) by (cases cs) auto
  obtain safe c1 where safe: "applyPostFilterSafetyNet rp vc (make_evidence p) c = (safe, c1)" by fastforce
  from safety_net_step [OF assms(1) _ safe] assms(2) cs obtain ev where "safe = Some ev" by auto
  with assemble_keeps [of "[ev]" n cs' c1] show ?thesis using cs safe assms(4) by (auto simp: option_list_def)
qed

lemma beam_keeps: "length ps \<le> length (fst (beam_levels rp vc slice gu scores width n depth layer ps c))"
proof (induction n arbitrary: depth layer ps c)
  case (Suc n)
  obtain m c1 where fetch: "fetchNeighborsByFrontier rp vc slice (groupFrontierByKind layer) c = (m, c1)" by fastforce
  let ?layer = "take width (sort_desc (preliminaryPathScore gu scores) (deduplicatePaths (next_candidates gu depth m layer)))"
  have "length ps \<le> length (ps @ ?layer)" by simp
  also have "\<dots> \<le> length (fst (beam_levels rp vc slice gu scores width n (Suc depth) ?layer (ps @ ?layer) c1))" by (rule Suc.IH)
  finally show ?case by (simp add: fetch Let_def)
qed simp

lemma expand_nonempty:
  assumes "seeds \<noteq> []"
  shows "fst (expandTypedBeam rp vc slice gu seeds scores opts c) \<noteq> []"
proof -
  define width where "width = nat (min 32 (max 1 \<lceil>of_int (op_beam_width opts) * st_width_multiplier (gu_strategy gu)\<rceil>))"
  define layer where "layer = map start_path (take width (sort_desc (\<lambda>s. or_else (map_of scores (sn_ref s)) 0) seeds))"
  have "sort_desc (\<lambda>s. or_else (map_of scores (sn_ref s)) 0) seeds \<noteq> []"
    using assms set_sort_desc by (metis set_empty)
  moreover have "0 < width" by (simp add: width_def)
  ultimately have "0 < length layer" by (simp add: layer_def)
  also have "\<dots> \<le> length (fst (beam_levels rp vc slice gu scores width (nat (op_max_depth opts)) 1 layer layer c))"
    by (rule beam_keeps)
  finally have "fst (beam_levels rp vc slice gu scores width (nat (op_max_depth opts)) 1 layer layer c) \<noteq> []" by simp
  then show ?thesis unfolding expandTypedBeam_def Let_def width_def layer_def .
qed

lemma assembled_nonempty:
  assumes "good c" "\<forall>s \<in> set seeds. seen vc c (sn_ref s)" "ng_repo ng = rp" "seeds \<noteq> []"
  shows "assembled_evidence ng vc now a st an plan seeds c \<noteq> []"
proof -
  let ?opts = "normalizeOptions a"
  define gu where "gu = \<lparr>gu_type = resolveEffectivePrimaryIntent (an_type an) plan,
    gu_secondaries = resolveEffectiveSecondaryIntents plan, gu_strategy = st, gu_plan = plan\<rparr>"
  define scores where "scores = computeSeedScores rp seeds an gu"
  obtain ps c' where ps: "expandTypedBeam rp vc (Some (input_slice a)) gu seeds scores ?opts c = (ps, c')" by fastforce
  define cs where "cs = rerankPaths rp gu scores (op_max_depth ?opts) now ps"
  define n where "n = (if xa_detail a = Some Audit then length cs else nat (op_max_candidates ?opts))"
  from expand_step [OF assms(1,2) ps] have c': "good c'" "\<forall>p \<in> set ps. path_ok c' (nat (op_max_depth ?opts)) p" by auto
  have "fst ` set cs \<subseteq> set ps" by (auto simp: cs_def rerankPaths_def Let_def)
  with c'(2) have ok: "\<forall>p \<in> set cs. path_ok c' (nat (op_max_depth ?opts)) (fst p)" by blast
  have "ps \<noteq> []" using expand_nonempty [OF assms(4)] ps by (metis fst_conv)
  then have "cs \<noteq> []" using length_0_conv [of cs] by (simp add: cs_def rerankPaths_def sort_desc_def Let_def flip: length_greater_0_conv)
  moreover from this have "0 < n" by (simp add: n_def normalizeOptions_def less_max_iff_disj)
  ultimately have "fst (assembleEvidence rp vc n cs [] c') \<noteq> []" using assemble_nonempty [OF c'(1) ok] by blast
  then show ?thesis
    unfolding assembled_evidence_def Let_def assms(3) gu_def [symmetric] scores_def [symmetric] ps prod.case
      cs_def [symmetric] n_def [symmetric] .
qed

end

section \<open>The repository implements the interface\<close>

lemma record_disposition_iff:
  assumes "v \<in> all_records db"
  shows "record_disposition vc (record_ref v) (Some v) = Visible \<longleftrightarrow> record_allows vc v"
  using assms
proof (cases rule: record_cases)
  case (5 e)
  then show ?thesis by (simp add: record_disposition_def episode_record_def policy_episode)
next
  case 1
  with policy_node [OF assms] show ?thesis by (simp add: record_disposition_def entity_record_def)
next
  case 2
  with policy_node [OF assms] show ?thesis by (simp add: record_disposition_def event_record_def)
next
  case 3
  with policy_node [OF assms] show ?thesis by (simp add: record_disposition_def fact_record_def)
next
  case 4
  with policy_node [OF assms] show ?thesis by (simp add: record_disposition_def cognition_record_def)
qed

lemma repository_shown_graph:
  assumes "graph_ok db"
  shows "shown_graph (pg_repo parse db) vc (may_see db vc) (shown db vc)"
proof
  fix refs r v
  assume "map_of (record_map (rp_visibility (pg_repo parse db) refs)) r = Some v"
    and vis: "record_disposition vc r (Some v) = Visible"
  then have "map_of (record_map (getNodeVisibility refs db)) r = Some v" by (simp add: pg_repo_def)
  from record_map_SomeD [OF this] have v: "v \<in> all_records db" "record_ref v = r" using getNodeVisibility_sub by blast+
  with vis record_disposition_iff have "record_allows vc v" by blast
  with v show "may_see db vc r" by (auto simp: may_see_iff)
next
  fix r refs
  assume "shown db vc r" and r: "r \<in> set refs"
  then obtain v where v: "v \<in> all_records db" "record_ref v = r" "record_kind v \<noteq> Episode_kind" "record_allows vc v"
    by (auto simp: shown_def)
  have "map_of (record_map (getNodeVisibility refs db)) r = Some v" using lookup_exact [OF assms v(1,3)] v(2) r by simp
  moreover have "record_disposition vc r (Some v) = Visible" using record_disposition_iff [OF v(1)] v(2,4) by simp
  ultimately show "record_disposition vc r (map_of (record_map (rp_visibility (pg_repo parse db) refs)) r) = Visible"
    by (simp add: pg_repo_def)
next
  fix e refs slice
  {
    assume "e \<in> set (rp_logic (pg_repo parse db) refs vc slice)"
    then show "shown db vc (er_target e)" using repo_edges_shown [of e refs vc slice db] by (simp add: pg_repo_def repo_edges_def)
  next
    assume "e \<in> set (rp_relations (pg_repo parse db) refs vc slice)"
    then show "shown db vc (er_target e)" using repo_edges_shown [of e refs vc slice db] by (simp add: pg_repo_def repo_edges_def)
  next
    assume "e \<in> set (rp_semantic (pg_repo parse db) refs vc slice)"
    then show "shown db vc (er_target e)" using repo_edges_shown [of e refs vc slice db] by (simp add: pg_repo_def repo_edges_def)
  next
    assume "e \<in> set (rp_state_facts (pg_repo parse db) refs vc slice)"
    then show "shown db vc (er_target e)" using repo_edges_shown [of e refs vc slice db] by (simp add: pg_repo_def repo_edges_def)
  }
next
  fix x refs
  assume "x \<in> set (rp_events (pg_repo parse db) refs vc)"
  then obtain e where "e \<in> set (event_nodes db)" "public_or_here vc e" "px_event x = node Event_kind (gv_id e)"
    by (auto simp: pg_repo_def readVisibleEventsForEntityFrontier_def participant_context_def Let_def split: if_splits)
  then show "shown db vc (px_event x)" using public_or_here_shown by simp
qed

text \<open>Tables whose keys are unique, as the primary keys make them.\<close>

definition keyed :: "graph_db \<Rightarrow> graph_db" where
  "keyed db = (if graph_ok db then db
     else \<lparr>entity_nodes = [], event_nodes = [], episode_nodes = [], cognition_nodes = [], fact_edges = [],
       logic_edges = [], memory_relations = [], semantic_edges = [], node_scores = []\<rparr>)"

lemma keyed_ok: "graph_ok (keyed db)"
  by (simp add: keyed_def graph_ok_def)

interpretation pg: shown_graph "pg_repo parse (keyed db)" vc "may_see (keyed db) vc" "shown (keyed db) vc" for parse db vc
  by (rule repository_shown_graph [OF keyed_ok])

section \<open>What a search returns\<close>

text \<open>The time the results are cut at: the one of the plan, if there is one and it counts.\<close>

definition used_plan :: "'e navigator \<Rightarrow> string \<Rightarrow> viewer_context \<Rightarrow> explore_args \<Rightarrow> query_plan option" where
  "used_plan ng query vc a =
     (if ng_use_plan ng then snd (emitQueryRouteAndPlanShadow ng query vc (xa_mode a)) else None)"

definition effective_slice :: "'e navigator \<Rightarrow> string \<Rightarrow> viewer_context \<Rightarrow> explore_args \<Rightarrow> time_slice" where
  "effective_slice ng query vc a =
     (case Option.bind (used_plan ng query vc a) (\<lambda>p. pl_time_slice (qp_graph p)) of
        Some s \<Rightarrow> s | None \<Rightarrow> input_slice a)"

lemma explore_result:
  assumes "explore ng query vc a st now = Inr res"
  obtains raw seeds c where
    "visible_seeds ng query vc a (analyzeQuery ng query vc (xa_mode a)) raw = (seeds, c)"
    "xr_paths res = (if seeds = [] then [] else
       applyDetailLevel (filterEvidencePathsByTimeSlice
         (assembled_evidence ng vc now a (or_else st default_retrieval) (analyzeQuery ng query vc (xa_mode a))
           (used_plan ng query vc a) seeds c) (Some (effective_slice ng query vc a)))
         (xa_detail a) (fold (\<lambda>s. AList.update (sn_ref s) s) seeds []))"
    "xr_audit res = (if seeds = [] \<or> xa_detail a \<noteq> Some Audit then None else Some (buildAuditSummary (xr_paths res)))"
    "vc_agent_id vc \<noteq> []"
proof -
  let ?embedding = "case ng_embed ng of None \<Rightarrow> Inr None
    | Some provider \<Rightarrow> (case provider query of Inl e \<Rightarrow> Inl e | Inr v \<Rightarrow> Inr (Some v))"
  note run = assms [unfolded explore_def Let_def]
  have agent: "vc_agent_id vc \<noteq> []" using run by (cases "vc_agent_id vc = []") simp_all
  obtain embedding where embedding: "?embedding = Inr embedding"
    using run agent by (cases ?embedding) simp_all
  obtain raw where raw: "ng_retrieve ng query vc (op_seed_count (normalizeOptions a)) embedding = Inr raw"
    using run agent embedding
    by (cases "ng_retrieve ng query vc (op_seed_count (normalizeOptions a)) embedding") simp_all
  have slice: "(case Option.bind (used_plan ng query vc a) (\<lambda>p. pl_time_slice (qp_graph p)) of
      Some s \<Rightarrow> Some s | None \<Rightarrow> Some (input_slice a)) = Some (effective_slice ng query vc a)"
    by (simp add: effective_slice_def split: option.split)
  obtain seeds c where s: "visible_seeds ng query vc a (analyzeQuery ng query vc (xa_mode a)) raw = (seeds, c)" by fastforce
  show ?thesis
  proof (rule that [OF s _ _ agent])
    note run' = run [unfolded used_plan_def [symmetric] slice embedding]
    show "xr_paths res = (if seeds = [] then [] else
       applyDetailLevel (filterEvidencePathsByTimeSlice
         (assembled_evidence ng vc now a (or_else st default_retrieval) (analyzeQuery ng query vc (xa_mode a))
           (used_plan ng query vc a) seeds c) (Some (effective_slice ng query vc a)))
         (xa_detail a) (fold (\<lambda>s. AList.update (sn_ref s) s) seeds []))"
      using run' agent raw s by (cases "seeds = []") auto
    show "xr_audit res = (if seeds = [] \<or> xa_detail a \<noteq> Some Audit then None else Some (buildAuditSummary (xr_paths res)))"
      using run' agent raw s by (cases "seeds = []") auto
  qed
qed

text \<open>Evidence after the cut, and after the level of detail is applied.\<close>

lemma filterEvidence_cases:
  assumes "ev \<in> set (filterEvidencePathsByTimeSlice paths query)"
  obtains "\<not> hasTimeSlice query" "ev \<in> set paths"
  | ev0 where "hasTimeSlice query" "ev0 \<in> set paths" "slice_path query ev0 = Some ev"
  using assms by (auto simp: filterEvidencePathsByTimeSlice_def map_filter_image split: if_splits)

lemma in_slice_everything: "\<not> hasTimeSlice query \<Longrightarrow> edge_in_slice query e"
  by (simp add: edge_in_slice_def isEdgeInTimeSlice_def)

lemma applyDetailLevel_cases:
  assumes "ev \<in> set (applyDetailLevel paths detail m)"
  obtains ev0 where "ev0 \<in> set paths" "ev = ev0 \<or> ev = enrichWithProvenance m ev0"
  using assms by (auto simp: applyDetailLevel_def split: option.splits detail_level.splits dest: in_set_takeD)

text \<open>What the interface says of a result, read on the tables.\<close>

lemma explore_evidence:
  assumes ok: "graph_ok db" and repo: "ng_repo ng = pg_repo parse db"
    and run: "explore ng query vc a st now = Inr res" and ev: "ev \<in> set (xr_paths res)"
  shows "evidence_safe (may_see db vc) 2 ev \<and> (\<forall>e \<in> set (bp_edges (ev_path ev)). edge_in_slice (Some (effective_slice ng query vc a)) e) \<and>
    (hasTimeSlice (Some (effective_slice ng query vc a)) \<or> is_walk (ev_path ev))"
proof -
  have db: "keyed db = db" using ok by (simp add: keyed_def)
  note seeds_step = pg.seeds_step [where db = db and parse = parse, unfolded db]
  note assembled_ok = pg.assembled_ok [where db = db and parse = parse, unfolded db]
  note ok_safe = pg.evidence_ok_safe [where db = db and vc = vc, unfolded db]
  note ok_def = pg.evidence_ok_def [where db = db and vc = vc, unfolded db]
  let ?slice = "Some (effective_slice ng query vc a)"
  obtain raw seeds c where r: "visible_seeds ng query vc a (analyzeQuery ng query vc (xa_mode a)) raw = (seeds, c)"
    "xr_paths res = (if seeds = [] then [] else
       applyDetailLevel (filterEvidencePathsByTimeSlice
         (assembled_evidence ng vc now a (or_else st default_retrieval) (analyzeQuery ng query vc (xa_mode a))
           (used_plan ng query vc a) seeds c) ?slice)
         (xa_detail a) (fold (\<lambda>s. AList.update (sn_ref s) s) seeds []))"
    using explore_result [OF run] .
  from seeds_step [OF r(1) repo] assembled_ok [OF _ _ repo, of vc c seeds now a "or_else st default_retrieval"]
  have all: "\<forall>ev \<in> set (assembled_evidence ng vc now a (or_else st default_retrieval) (analyzeQuery ng query vc (xa_mode a))
      (used_plan ng query vc a) seeds c). shown_graph.evidence_ok (may_see db vc) 2 ev" by simp
  from r(2) ev obtain ev1 where ev1: "ev = ev1 \<or> ev = enrichWithProvenance (fold (\<lambda>s. AList.update (sn_ref s) s) seeds []) ev1"
    "ev1 \<in> set (filterEvidencePathsByTimeSlice
         (assembled_evidence ng vc now a (or_else st default_retrieval) (analyzeQuery ng query vc (xa_mode a))
           (used_plan ng query vc a) seeds c) ?slice)"
    by (auto split: if_split_asm elim: applyDetailLevel_cases)
  have "evidence_safe (may_see db vc) 2 ev1 \<and> (\<forall>e \<in> set (bp_edges (ev_path ev1)). edge_in_slice ?slice e) \<and>
    (hasTimeSlice ?slice \<or> is_walk (ev_path ev1))"
    using ev1(2)
  proof (cases rule: filterEvidence_cases)
    case 1
    with all have "shown_graph.evidence_ok (may_see db vc) 2 ev1" by blast
    with 1(1) ok_safe show ?thesis by (simp add: in_slice_everything ok_def)
  next
    case (2 ev0)
    with all have ev0: "shown_graph.evidence_ok (may_see db vc) 2 ev0" by blast
    then have "ev_provenance ev0 = None" by (simp add: ok_def)
    with slice_safe [OF ok_safe [OF ev0] _ 2(3)] ev0 2(1) show ?thesis by auto
  qed
  with ev1(1) provenance_safe show ?thesis by auto
qed

text \<open>
  Property (C9): a search shows only what the viewer may see: every node of every path, both
  ends of every edge, the supporting nodes and the nodes in conflict are visible to the viewer,
  a path has at most three nodes, each once, and nothing is left to be redacted. When the
  search is not cut at a time, each path is a walk from a seed along its edges.
\<close>

theorem explore_shows_visible_walks:
  assumes "graph_ok db" "ng_repo ng = pg_repo parse db" "explore ng query vc a st now = Inr res"
  shows "\<forall>ev \<in> set (xr_paths res). evidence_safe (may_see db vc) 2 ev \<and>
    (\<not> hasTimeSlice (Some (effective_slice ng query vc a)) \<longrightarrow> is_walk (ev_path ev))"
  using explore_evidence [OF assms] by blast

section \<open>The cut at a time\<close>

lemma slice_path_edges: "slice_path query ev = Some ev' \<Longrightarrow> \<forall>e \<in> set (bp_edges (ev_path ev')). edge_in_slice query e"
  by (auto simp: slice_path_def Let_def split: if_split_asm)

lemma explore_in_slice:
  assumes "explore ng query vc a st now = Inr res" "ev \<in> set (xr_paths res)" "e \<in> set (bp_edges (ev_path ev))"
  shows "edge_in_slice (Some (effective_slice ng query vc a)) e"
proof -
  let ?slice = "Some (effective_slice ng query vc a)"
  obtain paths m where "xr_paths res = applyDetailLevel (filterEvidencePathsByTimeSlice paths ?slice) (xa_detail a) m \<or> xr_paths res = []"
    using explore_result [OF assms(1)] by metis
  with assms(2) have "ev \<in> set (applyDetailLevel (filterEvidencePathsByTimeSlice paths ?slice) (xa_detail a) m)" by auto
  then obtain ev1 where ev1: "ev1 \<in> set (filterEvidencePathsByTimeSlice paths ?slice)" "ev = ev1 \<or> ev = enrichWithProvenance m ev1"
    by (rule applyDetailLevel_cases)
  then have "e \<in> set (bp_edges (ev_path ev1))" using assms(3) by auto
  with ev1(1) show ?thesis
    using in_slice_everything slice_path_edges by (elim filterEvidence_cases) blast+
qed

lemma route_time: "rt_time_constraint (route vo lx scanEnabled expanded now query agent mode area) = derive_time_constraint vo now query"
proof -
  obtain ids hints where found: "(if scanEnabled then scan_private_aliases lx agent query (resolve_tokens lx agent query)
      else resolve_tokens lx agent query) = (ids, hints)" by fastforce
  show ?thesis unfolding route_def Let_def found prod.case route.select_convs ..
qed

lemma plan_time: "pl_time_slice (qp_graph (build_plan rt role)) = rt_time_constraint rt"
  unfolding build_plan_def Let_def query_plan.select_convs graph_plan.select_convs ..

text \<open>
  Property (C23): a query in the words of a time window is cut at the beginning of the window, not
  at its end. With the consumption of plans switched on (it is off by default) and the router
  and the planner in use, a query that matches a window of length \<open>window\<close> ("recently": seven
  days, "yesterday": one day, "today": none) is cut at \<open>clock - window\<close>, whatever times the caller
  asked for: each edge of the result with a known time other than 0 is at least \<open>window\<close> old. So
  a query for what happened recently shows no edge of the last seven days.
\<close>

theorem recent_query_hides_recent_edges:
  assumes "ng_use_plan ng" "ng_planner ng = Some (\<lambda>rt role. Some (build_plan rt role))"
    "ng_router ng = Some (\<lambda>query agent mode area. Some (route vo lx scanEnabled expanded clock query agent mode area))"
    "find (\<lambda>w. fst w query) (vo_time_windows vo) = Some (words, window)"
    "explore ng query vc a st now = Inr res"
  shows "\<forall>ev \<in> set (xr_paths res). \<forall>e \<in> set (bp_edges (ev_path ev)). \<forall>t.
    be_timestamp e = Some t \<longrightarrow> t = 0 \<or> t \<le> clock - window"
proof (intro ballI allI impI)
  fix ev e t
  assume ev: "ev \<in> set (xr_paths res)" "e \<in> set (bp_edges (ev_path ev))" and t: "be_timestamp e = Some t"
  have "effective_slice ng query vc a = \<lparr>sl_valid = None, sl_committed = Some (clock - window)\<rparr>"
    using assms(1-4)
    by (simp add: effective_slice_def used_plan_def emitQueryRouteAndPlanShadow_def plan_time route_time
        derive_time_constraint_def)
  with explore_in_slice [OF assms(5) ev] t show "t = 0 \<or> t \<le> clock - window"
    by (auto simp: edge_in_slice_def isEdgeInTimeSlice_def hasTimeSlice_def too_late_def first_of_def)
qed

section \<open>Limits and order\<close>

definition unit_interval :: "rat \<Rightarrow> bool" where
  "unit_interval x = (0 \<le> x \<and> x \<le> 1)"

definition bounded_score :: "path_score \<Rightarrow> bool" where
  "bounded_score s \<longleftrightarrow> unit_interval (ps_seed s) \<and> unit_interval (ps_edge_type s) \<and> unit_interval (ps_temporal s) \<and>
     unit_interval (ps_intent s) \<and> unit_interval (ps_support s) \<and> unit_interval (ps_recency s) \<and>
     unit_interval (ps_hop_penalty s) \<and> unit_interval (ps_redundancy s)"

lemma clamp01_unit [simp]: "unit_interval (clamp01 x)"
  by (simp add: clamp01_def unit_interval_def)

lemma score_path_bounded: "bounded_score (score_path gu scores d now snaps p)"
  unfolding bounded_score_def score_path_def Let_def by simp

text \<open>Scores in the order they come, the greatest first.\<close>

abbreviation ranked :: "path_score list \<Rightarrow> bool" where
  "ranked ss \<equiv> sorted_wrt (\<lambda>a b. ps_path b \<le> ps_path a) ss"

lemma sort_desc_sorted: "sorted_wrt (\<lambda>a b. f b \<le> f a) (sort_desc f xs)"
proof -
  have "weak_order (\<lambda>a b. f b < f a)" by unfold_locales auto
  from weak_order.sorted_sort_by [OF this] show ?thesis by (simp add: sort_desc_def not_less)
qed

lemma rerank_ranked: "ranked (map snd (rerankPaths rp gu scores d now ps))"
  using sort_desc_sorted [of "\<lambda>(p, s). ps_path s"] by (simp add: rerankPaths_def Let_def sorted_wrt_map case_prod_beta)

lemma rerank_bounded: "s \<in> set (map snd (rerankPaths rp gu scores d now ps)) \<Longrightarrow> bounded_score s"
  using score_path_bounded by (auto simp: rerankPaths_def Let_def)

lemma rerank_length [simp]: "length (rerankPaths rp gu scores d now ps) = length ps"
  by (simp add: rerankPaths_def sort_desc_def Let_def)

lemma safety_net_score:
  assumes "applyPostFilterSafetyNet rp vc ev c = (Some ev', c')"
  shows "ev_score ev' = ev_score ev"
proof -
  obtain ds c1 where ds: "dispositions rp vc (bp_nodes (ev_path ev)) c = (ds, c1)" by fastforce
  show ?thesis
  proof (cases "map fst (filter (\<lambda>(r, d). d = Visible) ds) = []")
    case True
    then have "applyPostFilterSafetyNet rp vc ev c = (None, c1)"
      unfolding applyPostFilterSafetyNet_def Let_def ds prod.case by (rule if_P)
    with assms show ?thesis by simp
  next
    case False
    with assms show ?thesis
      unfolding applyPostFilterSafetyNet_def Let_def ds prod.case if_not_P [OF False] by auto
  qed
qed

lemma assemble_ranked:
  assumes "ranked (map ev_score acc @ map snd cs)" "\<forall>s \<in> set (map ev_score acc @ map snd cs). bounded_score s" "length acc \<le> n"
    "assembleEvidence rp vc n cs acc c = (evs, c')"
  shows "ranked (map ev_score evs) \<and> (\<forall>ev \<in> set evs. bounded_score (ev_score ev)) \<and> length evs \<le> n \<and>
    length evs \<le> length acc + length cs"
  using assms
proof (induction cs arbitrary: acc c)
  case (Cons p cs)
  show ?case
  proof (cases "length acc \<ge> n")
    case True
    with Cons.prems show ?thesis by (auto simp: sorted_wrt_append)
  next
    case False
    obtain safe c1 where safe: "applyPostFilterSafetyNet rp vc (make_evidence p) c = (safe, c1)" by fastforce
    have rest: "assembleEvidence rp vc n cs (acc @ option_list safe) c1 = (evs, c')"
      using Cons.prems(4) safe False by simp
    have new: "map ev_score (option_list safe) = (if safe = None then [] else [snd p])"
      using safety_net_score safe by (cases safe) (auto simp: option_list_def make_evidence_def)
    have "ranked (map ev_score (acc @ option_list safe) @ map snd cs)"
      using Cons.prems(1) new by (auto simp: sorted_wrt_append)
    moreover have "\<forall>s \<in> set (map ev_score (acc @ option_list safe) @ map snd cs). bounded_score s"
      using Cons.prems(2) new by auto
    moreover have "length (acc @ option_list safe) \<le> Suc (length acc)" by (cases safe) (simp_all add: option_list_def)
    moreover from this False have "length (acc @ option_list safe) \<le> n" by linarith
    ultimately show ?thesis using Cons.IH [OF _ _ _ rest] by fastforce
  qed
qed auto

lemma beam_levels_length: "length (fst (beam_levels rp vc slice gu scores width n depth layer ps c)) \<le> length ps + n * width"
proof (induction n arbitrary: depth layer ps c)
  case (Suc n)
  obtain m c1 where fetch: "fetchNeighborsByFrontier rp vc slice (groupFrontierByKind layer) c = (m, c1)" by fastforce
  let ?layer = "take width (sort_desc (preliminaryPathScore gu scores) (deduplicatePaths (next_candidates gu depth m layer)))"
  have "length (ps @ ?layer) + n * width \<le> length ps + Suc n * width" by simp
  with Suc.IH [of "Suc depth" ?layer "ps @ ?layer" c1]
  have "length (fst (beam_levels rp vc slice gu scores width n (Suc depth) ?layer (ps @ ?layer) c1)) \<le> length ps + Suc n * width"
    by (rule order_trans)
  then show ?case by (simp add: fetch Let_def del: length_append)
qed simp

lemma expand_length:
  assumes "op_max_depth opts \<le> 2"
  shows "length (fst (expandTypedBeam rp vc slice gu seeds scores opts c)) \<le> 96"
proof -
  define width where "width = nat (min 32 (max 1 \<lceil>of_int (op_beam_width opts) * st_width_multiplier (gu_strategy gu)\<rceil>))"
  define layer where "layer = map start_path (take width (sort_desc (\<lambda>s. or_else (map_of scores (sn_ref s)) 0) seeds))"
  have w: "width \<le> 32" "length layer \<le> width" by (simp_all add: width_def layer_def)
  have "nat (op_max_depth opts) * width \<le> 2 * width" using assms by (intro mult_right_mono) auto
  moreover have "length (fst (beam_levels rp vc slice gu scores width (nat (op_max_depth opts)) 1 layer layer c))
      \<le> length layer + nat (op_max_depth opts) * width"
    by (rule beam_levels_length)
  ultimately have "length (fst (beam_levels rp vc slice gu scores width (nat (op_max_depth opts)) 1 layer layer c)) \<le> 96"
    using w by linarith
  then show ?thesis unfolding expandTypedBeam_def Let_def width_def layer_def .
qed

lemma normalizeOptions_depth: "op_max_depth (normalizeOptions a) \<le> 2"
  by (simp add: normalizeOptions_def)

lemma assembled_ranked:
  "ranked (map ev_score (assembled_evidence ng vc now a st an plan seeds c)) \<and>
   (\<forall>ev \<in> set (assembled_evidence ng vc now a st an plan seeds c). bounded_score (ev_score ev)) \<and>
   length (assembled_evidence ng vc now a st an plan seeds c) \<le>
     (if xa_detail a = Some Audit then 96 else nat (op_max_candidates (normalizeOptions a)))"
proof -
  define gu where "gu = \<lparr>gu_type = resolveEffectivePrimaryIntent (an_type an) plan,
    gu_secondaries = resolveEffectiveSecondaryIntents plan, gu_strategy = st, gu_plan = plan\<rparr>"
  define scores where "scores = computeSeedScores (ng_repo ng) seeds an gu"
  obtain ps c' where ps: "expandTypedBeam (ng_repo ng) vc (Some (input_slice a)) gu seeds scores (normalizeOptions a) c = (ps, c')"
    by fastforce
  define cs where "cs = rerankPaths (ng_repo ng) gu scores (op_max_depth (normalizeOptions a)) now ps"
  define n where "n = (if xa_detail a = Some Audit then length cs else nat (op_max_candidates (normalizeOptions a)))"
  obtain evs c'' where evs: "assembleEvidence (ng_repo ng) vc n cs [] c' = (evs, c'')" by fastforce
  have result: "assembled_evidence ng vc now a st an plan seeds c = evs"
    unfolding assembled_evidence_def Let_def gu_def [symmetric] scores_def [symmetric] ps prod.case cs_def [symmetric]
      n_def [symmetric] evs by simp
  have "length ps \<le> 96" using expand_length [of "normalizeOptions a"] ps by (metis fst_conv normalizeOptions_depth)
  then have n: "n \<le> (if xa_detail a = Some Audit then 96 else nat (op_max_candidates (normalizeOptions a)))"
    by (simp add: n_def cs_def)
  have "ranked (map ev_score [] @ map snd cs)" using rerank_ranked by (simp add: cs_def)
  moreover have "\<forall>s \<in> set (map ev_score [] @ map snd cs). bounded_score s"
    using rerank_bounded unfolding cs_def by fastforce
  ultimately show ?thesis
    using assemble_ranked [OF _ _ _ evs] n unfolding result by fastforce
qed

lemma sorted_wrt_sub:
  assumes "sorted_wrt R (map f xs)" "\<And>x y. g x = Some y \<Longrightarrow> f y = f x"
  shows "sorted_wrt R (map f (List.map_filter g xs))"
  using assms(1)
proof (induction xs)
  case (Cons x xs)
  have "f y \<in> f ` set xs" if "y \<in> set (List.map_filter g xs)" for y
    using that assms(2) by (force simp: map_filter_image)
  with Cons show ?case using assms(2) by (auto simp: map_filter_simps split: option.splits) fastforce
qed (simp add: map_filter_simps)

lemma slice_path_score: "slice_path query ev = Some ev' \<Longrightarrow> ev_score ev' = ev_score ev"
  by (auto simp: slice_path_def Let_def split: if_split_asm)

lemma length_map_filter: "length (List.map_filter f xs) \<le> length xs"
  by (induction xs) (auto simp: map_filter_simps split: option.splits)

lemma filtered_ranked:
  assumes "ranked (map ev_score evs)" "\<forall>ev \<in> set evs. bounded_score (ev_score ev)"
  shows "ranked (map ev_score (filterEvidencePathsByTimeSlice evs query)) \<and>
    (\<forall>ev \<in> set (filterEvidencePathsByTimeSlice evs query). bounded_score (ev_score ev)) \<and>
    length (filterEvidencePathsByTimeSlice evs query) \<le> length evs"
  using assms sorted_wrt_sub [OF assms(1), of "slice_path query"] slice_path_score [of query] length_map_filter [of "slice_path query" evs]
  by (auto simp: filterEvidencePathsByTimeSlice_def map_filter_image)

text \<open>The most paths a search may return.\<close>

definition path_limit :: "explore_args \<Rightarrow> nat" where
  "path_limit a = (case xa_detail a of
     Some Audit \<Rightarrow> 96
   | Some Concise \<Rightarrow> nat (min 3 (op_max_candidates (normalizeOptions a)))
   | _ \<Rightarrow> nat (op_max_candidates (normalizeOptions a)))"

lemma path_limit_if: "path_limit a =
    (if xa_detail a = Some Audit then 96
     else if xa_detail a = Some Concise then nat (min 3 (op_max_candidates (normalizeOptions a)))
     else nat (op_max_candidates (normalizeOptions a)))"
  unfolding path_limit_def by (cases "xa_detail a") (simp_all split: detail_level.split)

lemma applyDetailLevel_if: "applyDetailLevel paths detail m =
    (if detail = Some Audit then map (enrichWithProvenance m) paths
     else if detail = Some Concise then take 3 paths else paths)"
  unfolding applyDetailLevel_def by (cases detail) (simp_all split: detail_level.split)

text \<open>
  A search returns at most as many paths as its limits allow: the number of
  candidates the caller asked for, brought into 1 to 64; three at the concise level; and 96
  at the audit level, three beams of 32. The paths come best first, and each part of a score
  lies between 0 and 1.
\<close>

theorem explore_limits:
  assumes "explore ng query vc a st now = Inr res"
  shows "length (xr_paths res) \<le> path_limit a \<and> path_limit a \<le> 96 \<and> ranked (map ev_score (xr_paths res)) \<and>
    (\<forall>ev \<in> set (xr_paths res). bounded_score (ev_score ev))"
proof -
  let ?an = "analyzeQuery ng query vc (xa_mode a)"
  obtain raw seeds c where r0: "visible_seeds ng query vc a ?an raw = (seeds, c)"
    "xr_paths res = (if seeds = [] then [] else
       applyDetailLevel (filterEvidencePathsByTimeSlice
         (assembled_evidence ng vc now a (or_else st default_retrieval) ?an (used_plan ng query vc a) seeds c)
         (Some (effective_slice ng query vc a)))
         (xa_detail a) (fold (\<lambda>s. AList.update (sn_ref s) s) seeds []))"
    using explore_result [OF assms] .
  define m where "m = fold (\<lambda>s. AList.update (sn_ref s) s) seeds []"
  define found where "found = assembled_evidence ng vc now a (or_else st default_retrieval) ?an (used_plan ng query vc a) seeds c"
  define evs where "evs = filterEvidencePathsByTimeSlice found (Some (effective_slice ng query vc a))"
  have r: "xr_paths res = (if seeds = [] then [] else applyDetailLevel evs (xa_detail a) m)"
    unfolding evs_def found_def m_def by (rule r0(2))
  have found: "ranked (map ev_score found)" "\<forall>ev \<in> set found. bounded_score (ev_score ev)"
    "length found \<le> (if xa_detail a = Some Audit then 96 else nat (op_max_candidates (normalizeOptions a)))"
    using assembled_ranked unfolding found_def by blast+
  from filtered_ranked [OF found(1,2)]
  have evs: "ranked (map ev_score evs)" "\<forall>ev \<in> set evs. bounded_score (ev_score ev)" "length evs \<le> length found"
    unfolding evs_def by blast+
  have "op_max_candidates (normalizeOptions a) \<le> 64" by (simp add: normalizeOptions_def)
  then have "path_limit a \<le> 96" unfolding path_limit_if by auto
  moreover have "length (applyDetailLevel evs (xa_detail a) m) \<le> path_limit a"
    using evs(3) found(3) by (cases "xa_detail a = Some Audit") (auto simp: applyDetailLevel_if path_limit_if min_def)
  moreover have "ranked (map ev_score (applyDetailLevel evs (xa_detail a) m))"
    using evs(1) by (simp add: applyDetailLevel_if take_map [symmetric] sorted_wrt_take comp_def)
  moreover have "\<forall>ev \<in> set (applyDetailLevel evs (xa_detail a) m). bounded_score (ev_score ev)"
    using evs(2) by (auto elim: applyDetailLevel_cases)
  ultimately show ?thesis using r by auto
qed

section \<open>A search with something to show shows it\<close>

text \<open>The embedding of the query, where a provider of embeddings is in use.\<close>

definition query_embedding :: "'e navigator \<Rightarrow> string \<Rightarrow> (thrown, 'e option) result" where
  "query_embedding ng query =
     (case ng_embed ng of
        None \<Rightarrow> Inr None
      | Some provider \<Rightarrow> (case provider query of Inl e \<Rightarrow> Inl e | Inr v \<Rightarrow> Inr (Some v)))"

lemma explore_runs:
  assumes "vc_agent_id vc \<noteq> []" "query_embedding ng query = Inr embedding"
    "ng_retrieve ng query vc (op_seed_count (normalizeOptions a)) embedding = Inr raw"
  obtains res where "explore ng query vc a st now = Inr res"
proof -
  have "\<exists>res. explore ng query vc a st now = Inr res"
    using assms unfolding explore_def Let_def query_embedding_def [symmetric] by (simp split: prod.split)
  with that show ?thesis by blast
qed

lemma explore_found:
  assumes "graph_ok db" "ng_repo ng = pg_repo parse db" "vc_agent_id vc \<noteq> []" "query_embedding ng query = Inr embedding"
    "ng_retrieve ng query vc (op_seed_count (normalizeOptions a)) embedding = Inr raw"
    "list_ex (\<lambda>s. shown db vc (sn_ref s)) raw" "\<not> hasTimeSlice (Some (effective_slice ng query vc a))"
  shows "\<exists>res. explore ng query vc a st now = Inr res \<and> xr_paths res \<noteq> [] \<and>
    xr_summary res = summarizeResult query (xr_type res) (xr_paths res)"
proof -
  have db: "keyed db = db" using assms(1) by (simp add: keyed_def)
  note seeds_step = pg.seeds_step [where db = db and parse = parse, unfolded db]
  note seeds_nonempty = pg.visible_seeds_nonempty [where db = db and parse = parse, unfolded db]
  note nonempty = pg.assembled_nonempty [where db = db and parse = parse, unfolded db]
  let ?an = "analyzeQuery ng query vc (xa_mode a)"
  obtain s where s: "s \<in> set raw" "shown db vc (sn_ref s)" using assms(6) by (auto simp: list_ex_iff)
  obtain seeds c where r: "visible_seeds ng query vc a ?an raw = (seeds, c)" by fastforce
  have seeds: "seeds \<noteq> []" using seeds_nonempty [OF r assms(2) s] .
  from seeds_step [OF r assms(2)] nonempty [OF _ _ assms(2) seeds]
  have found: "assembled_evidence ng vc now a (or_else st default_retrieval) ?an (used_plan ng query vc a) seeds c \<noteq> []" by blast
  have slice: "(case Option.bind (used_plan ng query vc a) (\<lambda>p. pl_time_slice (qp_graph p)) of
      Some s \<Rightarrow> Some s | None \<Rightarrow> Some (input_slice a)) = Some (effective_slice ng query vc a)"
    by (simp add: effective_slice_def split: option.split)
  have uncut: "filterEvidencePathsByTimeSlice evs (Some (effective_slice ng query vc a)) = evs" for evs
    using assms(7) by (simp add: filterEvidencePathsByTimeSlice_def)
  define m where "m = fold (\<lambda>s. AList.update (sn_ref s) s) seeds []"
  define paths where "paths = applyDetailLevel
    (assembled_evidence ng vc now a (or_else st default_retrieval) ?an (used_plan ng query vc a) seeds c) (xa_detail a) m"
  have "paths \<noteq> []" using found by (simp add: paths_def applyDetailLevel_if)
  moreover have "\<exists>res. explore ng query vc a st now = Inr res \<and> xr_paths res = paths \<and>
      xr_summary res = summarizeResult query (xr_type res) paths"
    using assms(3-5) r seeds unfolding paths_def m_def
    unfolding explore_def Let_def used_plan_def [symmetric] query_embedding_def [symmetric] slice uncut by simp
  ultimately show ?thesis by blast
qed

text \<open>
  Property (C21): a search finds what it is given to find. With or without a provider of
  embeddings, if the provider and retrieval do not fail and retrieval returns a node that is
  certainly visible to the viewer (a visible one that is no episode), and no time cuts the
  search, it ends with at least one path, and with a summary that counts the paths.
\<close>

theorem explore_finds_visible:
  assumes "graph_ok db" "ng_repo ng = pg_repo parse db" "vc_agent_id vc \<noteq> []" "query_embedding ng query = Inr embedding"
    "ng_retrieve ng query vc (op_seed_count (normalizeOptions a)) embedding = Inr raw"
    "list_ex (\<lambda>s. shown db vc (sn_ref s)) raw" "\<not> hasTimeSlice (Some (effective_slice ng query vc a))"
  shows "\<exists>res. explore ng query vc a st now = Inr res \<and> xr_paths res \<noteq> [] \<and>
    xr_summary res = summarizeResult query (xr_type res) (xr_paths res)"
  by (rule explore_found [OF assms])

section \<open>A search of the small graph\<close>

text \<open>
  A search of the small graph: retrieval finds Alice's first belief. The only words it knows
  are "recently" for a window of 990 of the 1000 units of its clock.
\<close>

definition town_words :: vocabulary where
  "town_words = \<lparr>vo_why = [], vo_conflict = [''conflict''], vo_timeline = [], vo_relationship = [], vo_state = [],
     vo_time_constraint = [], vo_change = [], vo_comparison = [], vo_episode_memory = [], vo_episode_detective = [],
     vo_episode_scene = [], vo_time_windows = [(\<lambda>q. contains q ''recently'', 990)]\<rparr>"

definition town_lexicon :: lexicon where
  "town_lexicon = \<lparr>lx_lower = (\<lambda>s. s), lx_tokenize = (\<lambda>s. [s]), lx_spans = (\<lambda>s. None),
     lx_alias = (\<lambda>alias agent. None), lx_private_aliases = (\<lambda>agent. None)\<rparr>"

definition town_search :: "bool \<Rightarrow> unit navigator" where
  "town_search planned =
     \<lparr>ng_repo = pg_repo (\<lambda>s. None) town,
      ng_retrieve = (\<lambda>query vc n embedding. Inr [seed_at (node Assertion_kind 1) Assertion_kind 1 ''private'']),
      ng_embed = Some (\<lambda>query. Inr ()), ng_narrative = None, ng_cognition = None,
      ng_router = Some (\<lambda>query agent mode area. Some (route town_words town_lexicon False False 1000 query agent mode area)),
      ng_planner = Some (\<lambda>rt role. Some (build_plan rt role)),
      ng_vocabulary = town_words, ng_lexicon = town_lexicon, ng_use_plan = planned\<rparr>"

definition no_args :: explore_args where
  "no_args = \<lparr>xa_seed_count = None, xa_beam_width = None, xa_max_depth = None, xa_max_candidates = None, xa_mode = None,
     xa_focus_ref = None, xa_focus_key = None, xa_valid = None, xa_committed = None, xa_detail = None\<rparr>"

lemma town_uncut: "\<not> hasTimeSlice (Some (effective_slice (town_search False) query vc no_args))"
  by (simp add: effective_slice_def used_plan_def town_search_def input_slice_def no_args_def hasTimeSlice_def)

lemma alice_certain: "shown town alice (node Assertion_kind 1)"
  using alice_sees(1) by (simp add: shown_iff [OF town_ok]) (simp add: town_def)

lemma town_embedding: "query_embedding (town_search planned) query = Inr (Some ())"
  by (simp add: query_embedding_def town_search_def)

lemma town_retrieve: "ng_retrieve (town_search planned) query vc n embedding =
    Inr [seed_at (node Assertion_kind 1) Assertion_kind 1 ''private'']"
  by (simp add: town_search_def)

theorem explore_finds_visible_witness:
  "\<exists>res. explore (town_search False) ''conflict'' alice no_args None 1000 = Inr res \<and> xr_paths res \<noteq> [] \<and>
    xr_summary res = summarizeResult ''conflict'' (xr_type res) (xr_paths res)"
  by (rule explore_finds_visible [OF town_ok _ _ town_embedding town_retrieve _ town_uncut, where parse = "\<lambda>s. None"])
    (simp_all add: town_search_def alice_certain seed_at_def, simp add: alice_def)

lemma town_found:
  obtains res where "explore (town_search False) ''conflict'' alice no_args None 1000 = Inr res" "xr_paths res \<noteq> []"
proof -
  have "\<exists>res. explore (town_search False) ''conflict'' alice no_args None 1000 = Inr res \<and> xr_paths res \<noteq> [] \<and>
      xr_summary res = summarizeResult ''conflict'' (xr_type res) (xr_paths res)"
    by (rule explore_found [OF town_ok _ _ town_embedding town_retrieve _ town_uncut, where parse = "\<lambda>s. None"])
      (simp_all add: town_search_def alice_certain seed_at_def, simp add: alice_def)
  with that show ?thesis by blast
qed

theorem explore_shows_visible_walks_witness:
  "\<exists>res. explore (town_search False) ''conflict'' alice no_args None 1000 = Inr res \<and> xr_paths res \<noteq> [] \<and>
    list_all (\<lambda>ev. evidence_safe (may_see town alice) 2 ev \<and> is_walk (ev_path ev) \<and>
      node Assertion_kind 2 \<notin> set (bp_nodes (ev_path ev))) (xr_paths res)"
proof -
  obtain res where res: "explore (town_search False) ''conflict'' alice no_args None 1000 = Inr res" "xr_paths res \<noteq> []"
    using town_found .
  have "ng_repo (town_search False) = pg_repo (\<lambda>s. None) town" by (simp add: town_search_def)
  from explore_shows_visible_walks [OF town_ok this res(1)] town_uncut
  have "\<forall>ev \<in> set (xr_paths res). evidence_safe (may_see town alice) 2 ev \<and> is_walk (ev_path ev)" by blast
  moreover have "node Assertion_kind 2 \<notin> set (bp_nodes (ev_path ev))" if "evidence_safe (may_see town alice) 2 ev" for ev
    using that alice_sees(3) by (auto simp: evidence_safe_def Let_def)
  ultimately show ?thesis using res by (auto simp: list_all_iff)
qed

theorem explore_limits_witness:
  "\<exists>res. explore (town_search False) ''conflict'' alice no_args None 1000 = Inr res \<and> xr_paths res \<noteq> [] \<and>
    length (xr_paths res) \<le> 12 \<and> bounded_score (ev_score (hd (xr_paths res)))"
proof -
  obtain res where res: "explore (town_search False) ''conflict'' alice no_args None 1000 = Inr res" "xr_paths res \<noteq> []"
    using town_found .
  moreover have "path_limit no_args = 12" by (simp add: path_limit_def no_args_def normalizeOptions_def)
  ultimately show ?thesis using explore_limits [OF res(1)] by auto
qed

theorem recent_query_hides_recent_edges_witness:
  "\<exists>res. explore (town_search True) ''recently'' alice no_args None 1000 = Inr res \<and>
    list_all (\<lambda>ev. list_all (\<lambda>e. be_timestamp e \<noteq> Some 30) (bp_edges (ev_path ev))) (xr_paths res)"
proof -
  have agent: "vc_agent_id alice \<noteq> []" by (simp add: alice_def)
  obtain res where res: "explore (town_search True) ''recently'' alice no_args None 1000 = Inr res"
    using explore_runs [OF agent town_embedding town_retrieve] .
  have "find (\<lambda>w. fst w ''recently'') (vo_time_windows town_words) = Some (\<lambda>q. contains q ''recently'', 990)"
    by (simp add: town_words_def contains_def)
  from recent_query_hides_recent_edges [OF _ _ _ this res, where clock = 1000 and lx = town_lexicon and scanEnabled = False and
      expanded = False]
  have "\<forall>ev \<in> set (xr_paths res). \<forall>e \<in> set (bp_edges (ev_path ev)). \<forall>t. be_timestamp e = Some t \<longrightarrow> t = 0 \<or> t \<le> 1000 - 990"
    by (simp add: town_search_def)
  with res show ?thesis by (fastforce simp: list_all_iff)
qed

end
