(* ===== verification/Query_Routing.thy ===== *)
theory Query_Routing
  imports Navigator_Paths
begin

text \<open>
  The router agrees with the navigator's own reading of a query, which it is meant to replace,
  and the numbers in a plan stay within their bounds.
\<close>

section \<open>The two readings of a query\<close>

lemma findHits_any: "findHits s words \<noteq> [] \<longleftrightarrow> includesAny s words"
  by (auto simp: findHits_def includesAny_def filter_empty_conv list_ex_iff)

lemma same_entities:
  "fst (fold (\<lambda>token (ids, hints).
        let alias = strip_at token
        in if length alias < 2 then (ids, hints)
           else (case f alias of Some i \<Rightarrow> (set_add i ids, set_add alias hints) | None \<Rightarrow> (ids, hints))) tokens (ids, hs)) =
   fst (fold (\<lambda>token f'.
        let alias = strip_at token in if length alias < 2 then f' else add_entity (f alias) alias f') tokens (ids, hs'))"
proof (induction tokens arbitrary: ids hs hs')
  case (Cons token tokens)
  show ?case
  proof (cases "length (strip_at token) < 2 \<or> f (strip_at token) = None")
    case True
    with Cons show ?thesis by (auto simp: Let_def add_entity_def)
  next
    case False
    then obtain i where "f (strip_at token) = Some i" "\<not> length (strip_at token) < 2" by auto
    with Cons show ?thesis by (simp add: Let_def add_entity_def set_add_def)
  qed
qed simp

lemma add_entity_grows: "set (fst f) \<subseteq> set (fst (add_entity i hint f))"
  by (auto simp: add_entity_def split: option.split)

lemma scan_grows: "set (fst f) \<subseteq> set (fst (scan_private_aliases lx agent query f))"
proof -
  have grow: "set (fst f) \<subseteq> set (fst (fold g xs f))"
    if "\<And>x f. set (fst f) \<subseteq> set (fst (g x f))" for g :: "'x \<Rightarrow> found \<Rightarrow> found" and xs f
    using that by (induction xs arbitrary: f) (simp, fastforce)
  have inner: "set (fst f) \<subseteq> set (fst (fold (\<lambda>pos f. if alignsToJiebaBoundaries pos (pos + length a) spans
         then add_entity (lx_alias lx a agent) a f else f) (occurrences query a) f))" for a spans f
    by (intro grow) (simp add: add_entity_grows)
  have "set (fst f) \<subseteq> set (fst (fold (\<lambda>a f. if length a < 2 then f
       else fold (\<lambda>pos f. if alignsToJiebaBoundaries pos (pos + length a) spans
         then add_entity (lx_alias lx a agent) a f else f) (occurrences query a) f) aliases f))" for spans aliases f
    by (rule grow) (simp add: inner)
  then show ?thesis by (simp add: scan_private_aliases_def split: option.split)
qed

text \<open>What the intents say about the words.\<close>

lemma primary_intent_chain:
  assumes "\<And>t. (\<exists>i \<in> set intents. it_type i = t) \<longleftrightarrow> has t"
  shows "primary_intent mode intents ids =
    (case mode of Some m \<Rightarrow> m
     | None \<Rightarrow> if has Q_why then Q_why else if has Q_conflict then Q_conflict else if has Q_timeline then Q_timeline
        else if has Q_relationship then Q_relationship else if has Q_state then Q_state
        else if ids \<noteq> [] then Q_entity else Q_event)"
  by (simp add: primary_intent_def LEGACY_PRIORITY_def assms split: option.split)

definition reading :: "query_type option \<Rightarrow> vocabulary \<Rightarrow> string \<Rightarrow> int list \<Rightarrow> query_type" where
  "reading mode vo s ids =
    (case mode of Some m \<Rightarrow> m
     | None \<Rightarrow> if includesAny s (vo_why vo) then Q_why else if includesAny s (vo_conflict vo) then Q_conflict
        else if includesAny s (vo_timeline vo) then Q_timeline else if includesAny s (vo_relationship vo) then Q_relationship
        else if includesAny s (vo_state vo) then Q_state else if ids \<noteq> [] then Q_entity else Q_event)"

lemma route_parts:
  "rt_normalized (route vo lx scan expanded now query agent mode area) = lx_lower lx (js_trim query)"
  "rt_time_signals (route vo lx scan expanded now query agent mode area) =
     findHits (lx_lower lx (js_trim query)) (vo_time_constraint vo)"
  "rt_entity_ids (route vo lx scan expanded now query agent mode area) =
     fst (if scan then scan_private_aliases lx agent query (resolve_tokens lx agent query) else resolve_tokens lx agent query)"
  "rt_primary (route vo lx scan expanded now query agent mode area) =
     reading mode vo (lx_lower lx (js_trim query)) (rt_entity_ids (route vo lx scan expanded now query agent mode area))"
proof -
  let ?s = "lx_lower lx (js_trim query)"
  obtain ids hints where found: "(if scan then scan_private_aliases lx agent query (resolve_tokens lx agent query)
      else resolve_tokens lx agent query) = (ids, hints)" by fastforce
  note unfold = route_def Let_def found prod.case route.select_convs fst_conv
  show "rt_normalized (route vo lx scan expanded now query agent mode area) = ?s" unfolding unfold ..
  show "rt_time_signals (route vo lx scan expanded now query agent mode area) = findHits ?s (vo_time_constraint vo)"
    unfolding unfold ..
  show ids: "rt_entity_ids (route vo lx scan expanded now query agent mode area) =
     fst (if scan then scan_private_aliases lx agent query (resolve_tokens lx agent query) else resolve_tokens lx agent query)"
    unfolding unfold ..
  define intents where "intents = bucket Q_why (findHits ?s (vo_why vo)) @ bucket Q_conflict (findHits ?s (vo_conflict vo)) @
      bucket Q_timeline (findHits ?s (vo_timeline vo)) @ bucket Q_relationship (findHits ?s (vo_relationship vo)) @
      bucket Q_state (findHits ?s (vo_state vo)) @
      (if ids = [] then [] else [\<lparr>it_type = Q_entity, it_confidence = clamp01 (4 / 10 + 2 / 10 * of_nat (length ids)), it_evidence = hints\<rparr>])"
  have bucket: "(\<exists>i \<in> set (bucket t hits). it_type i = t') \<longleftrightarrow> t = t' \<and> hits \<noteq> []" for t t' hits
    by (simp add: bucket_def)
  have "(\<exists>i \<in> set intents. it_type i = t) \<longleftrightarrow>
      (case t of Q_why \<Rightarrow> includesAny ?s (vo_why vo) | Q_conflict \<Rightarrow> includesAny ?s (vo_conflict vo)
       | Q_timeline \<Rightarrow> includesAny ?s (vo_timeline vo) | Q_relationship \<Rightarrow> includesAny ?s (vo_relationship vo)
       | Q_state \<Rightarrow> includesAny ?s (vo_state vo) | Q_entity \<Rightarrow> ids \<noteq> [] | Q_event \<Rightarrow> False)" for t
    unfolding intents_def by (cases t) (simp_all add: bex_Un bucket findHits_any)
  from primary_intent_chain [OF this, of mode]
  have "primary_intent mode intents ids = reading mode vo ?s ids" by (simp add: reading_def)
  moreover have "rt_primary (route vo lx scan expanded now query agent mode area) = primary_intent mode intents ids"
    unfolding unfold intents_def ..
  moreover have "rt_entity_ids (route vo lx scan expanded now query agent mode area) = ids" unfolding unfold ..
  ultimately show "rt_primary (route vo lx scan expanded now query agent mode area) =
     reading mode vo ?s (rt_entity_ids (route vo lx scan expanded now query agent mode area))" by simp
qed

lemma analysis_parts:
  "an_normalized (analyzeQuery ng query vc mode) = lx_lower (ng_lexicon ng) (js_trim query)"
  "an_time_constraint (analyzeQuery ng query vc mode) =
     includesAny (lx_lower (ng_lexicon ng) (js_trim query)) (vo_time_constraint (ng_vocabulary ng))"
  "an_entity_ids (analyzeQuery ng query vc mode) = fst (resolve_tokens (ng_lexicon ng) (vc_agent_id vc) query)"
  "an_type (analyzeQuery ng query vc mode) =
     reading mode (ng_vocabulary ng) (lx_lower (ng_lexicon ng) (js_trim query)) (an_entity_ids (analyzeQuery ng query vc mode))"
proof -
  let ?lx = "ng_lexicon ng"
  obtain ids hints where found: "fold (\<lambda>token (ids, hints).
        if length (strip_at token) < 2 then (ids, hints)
        else (case lx_alias ?lx (strip_at token) (vc_agent_id vc) of
            Some i \<Rightarrow> (set_add i ids, set_add (strip_at token) hints) | None \<Rightarrow> (ids, hints))) (lx_tokenize ?lx query) ([], []) = (ids, hints)"
    by fastforce
  note unfold = analyzeQuery_def Let_def found prod.case analysis.select_convs
  show "an_normalized (analyzeQuery ng query vc mode) = lx_lower ?lx (js_trim query)"
    "an_time_constraint (analyzeQuery ng query vc mode) =
       includesAny (lx_lower ?lx (js_trim query)) (vo_time_constraint (ng_vocabulary ng))"
    unfolding unfold by (rule refl)+
  show "an_type (analyzeQuery ng query vc mode) =
     reading mode (ng_vocabulary ng) (lx_lower ?lx (js_trim query)) (an_entity_ids (analyzeQuery ng query vc mode))"
    unfolding unfold reading_def ..
  have "an_entity_ids (analyzeQuery ng query vc mode) = ids" unfolding unfold ..
  also have "ids = fst (resolve_tokens ?lx (vc_agent_id vc) query)"
    using same_entities [of "\<lambda>alias. lx_alias ?lx alias (vc_agent_id vc)" "lx_tokenize ?lx query" "[]" "[]" "[]"] found
    by (simp add: resolve_tokens_def Let_def)
  finally show "an_entity_ids (analyzeQuery ng query vc mode) = fst (resolve_tokens ?lx (vc_agent_id vc) query)" .
qed

text \<open>
  Property (C32): the rule-based router reads a query as the navigator does: the same normalised
  text, the same answer to whether it speaks of a time, and the same primary intent; the scan
  for private aliases only adds entities, and can only turn an event query into an entity query.
\<close>

theorem router_reads_like_navigator:
  "(let rt = route (ng_vocabulary ng) (ng_lexicon ng) scan expanded now query (vc_agent_id vc) mode area;
        an = analyzeQuery ng query vc mode
    in rt_normalized rt = an_normalized an \<and> (rt_time_signals rt \<noteq> []) = an_time_constraint an \<and>
       set (an_entity_ids an) \<subseteq> set (rt_entity_ids rt) \<and>
       (rt_primary rt = an_type an \<and> rt_entity_ids rt = an_entity_ids an \<or>
        scan \<and> rt_primary rt = an_type an \<or>
        scan \<and> an_type an = Q_event \<and> rt_primary rt = Q_entity))"
proof -
  have sub: "set (fst (resolve_tokens (ng_lexicon ng) (vc_agent_id vc) query)) \<subseteq>
      set (rt_entity_ids (route (ng_vocabulary ng) (ng_lexicon ng) scan expanded now query (vc_agent_id vc) mode area))"
    using scan_grows by (simp add: route_parts(3))
  have change: "reading mode vo s more = reading mode vo s ids \<or>
      reading mode vo s ids = Q_event \<and> reading mode vo s more = Q_entity" if "set ids \<subseteq> set more" for vo s ids more
    using that by (cases ids) (auto simp: reading_def split: option.split)
  show ?thesis
    unfolding Let_def
  proof (intro conjI)
    show "rt_primary (route (ng_vocabulary ng) (ng_lexicon ng) scan expanded now query (vc_agent_id vc) mode area) =
          an_type (analyzeQuery ng query vc mode) \<and>
        rt_entity_ids (route (ng_vocabulary ng) (ng_lexicon ng) scan expanded now query (vc_agent_id vc) mode area) =
          an_entity_ids (analyzeQuery ng query vc mode) \<or>
        scan \<and> rt_primary (route (ng_vocabulary ng) (ng_lexicon ng) scan expanded now query (vc_agent_id vc) mode area) =
          an_type (analyzeQuery ng query vc mode) \<or>
        scan \<and> an_type (analyzeQuery ng query vc mode) = Q_event \<and>
          rt_primary (route (ng_vocabulary ng) (ng_lexicon ng) scan expanded now query (vc_agent_id vc) mode area) = Q_entity"
    proof (cases scan)
      case True
      with change [OF sub] show ?thesis unfolding route_parts(4) analysis_parts(3,4) by blast
    next
      case False
      then show ?thesis unfolding route_parts(4) analysis_parts(3,4) route_parts(3) by simp
    qed
  qed (use sub in \<open>simp_all add: route_parts(1,2) analysis_parts findHits_any\<close>)
qed

section \<open>The numbers in a plan\<close>

lemma edge_bias_bounds: "list_all (\<lambda>(kind, b). 1 < b \<and> b \<le> 3 / 2) (deriveEdgeBias conflict why timeline)"
  by (simp add: deriveEdgeBias_def)

definition surface_ok :: "facets \<Rightarrow> bool" where
  "surface_ok f \<longleftrightarrow> unit_interval (fa_weight f) \<and> (fa_enabled f \<or> fa_weight f = 0)"

text \<open>
  Whatever the router found, a plan gives each surface a weight between 0 and 1,
  and 0 to a surface the role may not use; the biases of the six kinds of seeds lie between 0
  and 1 and those of edges above 1 and at most 1.5; the secondary intents are the router's
  intents other than the primary one, the most confident first.
\<close>

theorem plan_numbers_bounded:
  "(let p = build_plan rt role; g = qp_graph p
    in list_all surface_ok [qp_narrative p, qp_cognition p, qp_episode p, qp_conflict_notes p] \<and>
       fa_enabled (qp_narrative p) = narrativeEnabled (getDefaultTemplate role) \<and>
       fa_enabled (qp_cognition p) = cognitionEnabled (getDefaultTemplate role) \<and>
       fa_enabled (qp_episode p) = episodeEnabled (getDefaultTemplate role) \<and>
       fa_enabled (qp_conflict_notes p) = conflictNotesEnabled (getDefaultTemplate role) \<and>
       list_all (\<lambda>(kind, b). unit_interval b) (pl_seed_bias g) \<and>
       list_all (\<lambda>(kind, b). 1 < b \<and> b \<le> 3 / 2) (pl_edge_bias g) \<and>
       set (pl_secondary g) = {t. t \<noteq> pl_primary g \<and> t \<in> it_type ` set (rt_intents rt)} \<and>
       (\<exists>order :: intent list. pl_secondary g = map it_type order \<and> sorted_wrt (\<lambda>a b. it_confidence b \<le> it_confidence a) order))"
proof -
  have "weak_order (\<lambda>a b. it_confidence b < it_confidence a)" by unfold_locales auto
  note sorted = weak_order.sorted_sort_by [OF this, unfolded not_less]
  have "list_all (\<lambda>(kind, b). unit_interval b) (pl_seed_bias (qp_graph (build_plan rt role)))"
    unfolding build_plan_def Let_def query_plan.select_convs graph_plan.select_convs by simp
  moreover have "list_all (\<lambda>(kind, b). 1 < b \<and> b \<le> 3 / 2) (pl_edge_bias (qp_graph (build_plan rt role)))"
    unfolding build_plan_def Let_def query_plan.select_convs graph_plan.select_convs by (rule edge_bias_bounds)
  moreover have "list_all surface_ok [qp_narrative (build_plan rt role), qp_cognition (build_plan rt role),
      qp_episode (build_plan rt role), qp_conflict_notes (build_plan rt role)]"
    unfolding build_plan_def Let_def query_plan.select_convs surface_ok_def facets.select_convs list.pred_inject
    by (simp add: unit_interval_def clamp01_def)
  moreover have "fa_enabled (qp_narrative (build_plan rt role)) = narrativeEnabled (getDefaultTemplate role)"
    "fa_enabled (qp_cognition (build_plan rt role)) = cognitionEnabled (getDefaultTemplate role)"
    "fa_enabled (qp_episode (build_plan rt role)) = episodeEnabled (getDefaultTemplate role)"
    "fa_enabled (qp_conflict_notes (build_plan rt role)) = conflictNotesEnabled (getDefaultTemplate role)"
    unfolding build_plan_def Let_def query_plan.select_convs facets.select_convs by (rule refl)+
  moreover define order where "order = sort_by (\<lambda>a b. it_confidence b < it_confidence a)
      (filter (\<lambda>i. it_type i \<noteq> rt_primary rt) (rt_intents rt))"
  have "pl_secondary (qp_graph (build_plan rt role)) = map it_type order" "pl_primary (qp_graph (build_plan rt role)) = rt_primary rt"
    unfolding build_plan_def Let_def query_plan.select_convs graph_plan.select_convs order_def by (rule refl)+
  moreover have "sorted_wrt (\<lambda>a b. it_confidence b \<le> it_confidence a) order" using sorted by (simp add: order_def)
  moreover have "set (map it_type order) = {t. t \<noteq> rt_primary rt \<and> t \<in> it_type ` set (rt_intents rt)}" by (auto simp: order_def)
  ultimately show ?thesis unfolding Let_def by (intro conjI exI [of _ order]) simp_all
qed

end
