(* ===== verification/Relation_Intents.thy ===== *)
theory Relation_Intents
  imports Turn_Contract Cognition_Repo Graph_Visibility
begin

text \<open>
  Relations between memories. An outcome of a turn names relations between its episodes and its
  cognition (\<^verbatim>\<open>memory/cognition/relation-intent-resolver.ts\<close>) and the factors that contest an
  assertion (\<^verbatim>\<open>contest-conflict-applicator.ts\<close>, \<^verbatim>\<open>relation-builder.ts\<close>); both end as rows of the
  table \<open>memory_relations\<close> (\<^verbatim>\<open>storage/domain-repos/pg/relation-write-repo.ts\<close>,
  \<^verbatim>\<open>relation-read-repo.ts\<close>).

  An outcome is the JSON value of theory \<open>Turn_Contract\<close>. The strength of a relation is the exact
  number the code writes. \<open>Date.now()\<close> is an argument.
\<close>

section \<open>The table of relations\<close>

record relation_row =
  rel_source :: node_ref
  rel_target :: node_ref
  rel_type :: string
  rel_sourceKind :: string
  rel_sourceRef :: string
  rel_strength :: rat
  rel_directness :: string
  rel_created :: int
  rel_updated :: int

type_synonym relation_table = "relation_row list"

abbreviation relation_key :: "relation_row \<Rightarrow> node_ref \<times> node_ref \<times> string \<times> string \<times> string" where
  "relation_key r \<equiv> (rel_source r, rel_target r, rel_type r, rel_sourceKind r, rel_sourceRef r)"

definition relation_check :: "relation_row \<Rightarrow> bool" where
  "relation_check r \<longleftrightarrow>
     rel_type r \<in> {''supports'', ''triggered'', ''conflicts_with'', ''derived_from'', ''supersedes'',
       ''surfaced_as'', ''published_as'', ''resolved_by'', ''downgraded_by''} \<and>
     0 \<le> rel_strength r \<and> rel_strength r \<le> 1 \<and>
     rel_directness r \<in> {''direct'', ''inferred'', ''indirect''} \<and>
     rel_sourceKind r \<in> {''turn'', ''job'', ''agent_op'', ''system''} \<and>
     rel_source r \<noteq> rel_target r"

definition upsertRelation :: "relation_row \<Rightarrow> relation_table \<Rightarrow> (thrown, unit) result \<times> relation_table" where
  "upsertRelation r t =
     (if \<not> relation_check r then (Inl Plain_error, t)
      else if list_ex (\<lambda>x. relation_key x = relation_key r) t then
        (Inr (), update_where (\<lambda>x. relation_key x = relation_key r)
           (\<lambda>x. x\<lparr>rel_strength := rel_strength r, rel_directness := rel_directness r,
                  rel_updated := rel_updated r\<rparr>) t)
      else (Inr (), t @ [r]))"

definition getRelationsBySource :: "node_ref \<Rightarrow> string option \<Rightarrow> relation_table \<Rightarrow> relation_row list" where
  "getRelationsBySource ref ty t =
     filter (\<lambda>r. rel_source r = ref \<and> (case ty of Some y \<Rightarrow> rel_type r = y | None \<Rightarrow> True)) t"

definition getRelationsForNode :: "node_ref \<Rightarrow> string list \<Rightarrow> relation_table \<Rightarrow> relation_row list" where
  "getRelationsForNode ref tys t =
     filter (\<lambda>r. (rel_source r = ref \<or> rel_target r = ref) \<and> rel_type r \<in> set tys) t"

text \<open>Statements one after the other, up to the first that fails.\<close>

primrec run_series :: "('s \<Rightarrow> (thrown, unit) result \<times> 's) list \<Rightarrow> 's \<Rightarrow> (thrown, unit) result \<times> 's" where
  "run_series [] s = (Inr (), s)"
| "run_series (f # fs) s =
     (case f s of (Inl e, s') \<Rightarrow> (Inl e, s') | (Inr _, s') \<Rightarrow> run_series fs s')"

section \<open>Checking relation intents\<close>

record relation_intent =
  ri_sourceRef :: string
  ri_targetRef :: string
  ri_intent :: string

datatype local_kind = Episode_ref | Publication_ref | Cognition_ref | Proposal_ref

datatype endpoint_kind = Local local_kind | Cog cognition_kind

record resolved_refs =
  rr_settlementId :: string
  rr_agentId :: string
  rr_localRefIndex :: "(string, local_kind \<times> node_ref) js_map"
  rr_cognitionByKey :: "(string, cognition_kind \<times> node_ref) js_map"

definition stripRefPrefix :: "string \<Rightarrow> string" where
  "stripRefPrefix ref =
     (if prefix ''episode:'' ref then drop (length ''episode:'') ref
      else if prefix ''cognition:'' ref then drop (length ''cognition:'') ref
      else if prefix ''publication:'' ref then drop (length ''publication:'') ref
      else ref)"

definition text_prop :: "json \<Rightarrow> string \<Rightarrow> string" where
  "text_prop v k = (case string_of (prop_of v k) of Some s \<Rightarrow> s | None \<Rightarrow> [])"

definition intent_of :: "json \<Rightarrow> relation_intent" where
  "intent_of v = \<lparr>ri_sourceRef = text_prop v ''sourceRef'', ri_targetRef = text_prop v ''targetRef'',
     ri_intent = text_prop v ''intent''\<rparr>"

definition list_prop :: "json \<Rightarrow> string \<Rightarrow> json list" where
  "list_prop v k = (case prop_of v k of Some (JArr xs) \<Rightarrow> xs | _ \<Rightarrow> [])"

text \<open>The entries of an outcome with a local reference that is not empty.\<close>

definition local_refs :: "json list \<Rightarrow> string list" where
  "local_refs entries = filter (\<lambda>s. s \<noteq> []) (List.map_filter (\<lambda>e. string_of (prop_of e ''localRef'')) entries)"

definition local_ref_kinds :: "json \<Rightarrow> (string, local_kind) js_map" where
  "local_ref_kinds outcome =
     (let episodes = fold (\<lambda>r. AList.update r Episode_ref) (local_refs (list_prop outcome ''privateEpisodes'')) []
      in fold (\<lambda>r. AList.update r Publication_ref) (local_refs (list_prop outcome ''publications'')) episodes)"

definition is_upsert :: "json \<Rightarrow> bool" where
  "is_upsert op = (prop_of op ''op'' = Some (JStr ''upsert''))"

definition op_record :: "json \<Rightarrow> json" where
  "op_record op = (case prop_of op ''record'' of Some r \<Rightarrow> r | None \<Rightarrow> JNull)"

definition record_key :: "json \<Rightarrow> string" where
  "record_key r = text_prop r ''key''"

definition outcome_ops :: "json \<Rightarrow> json list" where
  "outcome_ops outcome = commit_ops (prop_of outcome ''privateCognition'')"

definition cognition_kinds :: "json \<Rightarrow> (string, json option) js_map" where
  "cognition_kinds outcome =
     fold (\<lambda>op. AList.update (record_key (op_record op)) (prop_of (op_record op) ''kind''))
       (filter is_upsert (outcome_ops outcome)) []"

definition intent_kept :: "json \<Rightarrow> relation_intent \<Rightarrow> bool" where
  "intent_kept outcome intent =
     (let targetKey = stripRefPrefix (ri_targetRef intent);
          targetLocalKind = map_of (local_ref_kinds outcome) targetKey;
          targetCognitionKind = Option.bind (map_of (cognition_kinds outcome) targetKey) (\<lambda>k. k)
      in ri_intent intent \<in> set ALLOWED_INTENTS \<and>
         map_of (local_ref_kinds outcome) (stripRefPrefix (ri_sourceRef intent)) = Some Episode_ref \<and>
         (targetLocalKind \<noteq> None \<or> truthy targetCognitionKind) \<and>
         (if ri_intent intent = ''supports''
          then targetCognitionKind \<noteq> None \<or> targetLocalKind = Some Cognition_ref
          else targetCognitionKind \<in> {Some (JStr ''evaluation''), Some (JStr ''commitment'')}))"

definition set_prop :: "string \<Rightarrow> json \<Rightarrow> json \<Rightarrow> json" where
  "set_prop k x v = (case v of JObj m \<Rightarrow> JObj (AList.update k x m) | _ \<Rightarrow> v)"

definition prevalidateRelationIntents :: "json \<Rightarrow> json" where
  "prevalidateRelationIntents outcome =
     (if list_prop outcome ''relationIntents'' = [] then outcome
      else set_prop ''relationIntents''
        (JArr (filter (\<lambda>i. intent_kept outcome (intent_of i)) (list_prop outcome ''relationIntents''))) outcome)"

definition resolve_candidate :: "resolved_refs \<Rightarrow> string \<Rightarrow> (endpoint_kind \<times> node_ref) option" where
  "resolve_candidate refs c =
     (case map_of (rr_localRefIndex refs) c of
        Some (k, n) \<Rightarrow> Some (Local k, n)
      | None \<Rightarrow> map_option (\<lambda>(k, n). (Cog k, n)) (map_of (rr_cognitionByKey refs) c))"

definition resolveIntentRef :: "string \<Rightarrow> resolved_refs \<Rightarrow> (thrown, endpoint_kind \<times> node_ref) result" where
  "resolveIntentRef ref refs =
     (case resolve_candidate refs ref of
        Some e \<Rightarrow> Inr e
      | None \<Rightarrow>
          (case resolve_candidate refs (stripRefPrefix ref) of
             Some e \<Rightarrow> Inr e
           | None \<Rightarrow> Inl (Maids_error (error COGNITION_UNRESOLVED_REFS False))))"

text \<open>A relation ready to be written: its type and its two ends.\<close>

definition validate_intent :: "resolved_refs \<Rightarrow> relation_intent \<Rightarrow> (thrown, string \<times> node_ref \<times> node_ref) result" where
  "validate_intent refs intent =
     (if ri_intent intent \<notin> set ALLOWED_INTENTS then Inl (Maids_error (error TOOL_ARGUMENT_INVALID False))
      else bind_ok (resolveIntentRef (ri_sourceRef intent) refs) (\<lambda>source.
           bind_ok (resolveIntentRef (ri_targetRef intent) refs) (\<lambda>target.
             if fst source \<noteq> Local Episode_ref then Inl (Maids_error (error TOOL_ARGUMENT_INVALID False))
             else if ri_intent intent = ''supports'' then
               (case fst target of
                  Local _ \<Rightarrow> Inl (Maids_error (error TOOL_ARGUMENT_INVALID False))
                | Cog _ \<Rightarrow> Inr (''supports'', snd source, snd target))
             else if fst target \<notin> {Cog Evaluation, Cog Commitment}
             then Inl (Maids_error (error TOOL_ARGUMENT_INVALID False))
             else Inr (''triggered'', snd source, snd target))))"

definition validateRelationIntents :: "relation_intent list \<Rightarrow> resolved_refs \<Rightarrow>
    (thrown, (string \<times> node_ref \<times> node_ref) list) result" where
  "validateRelationIntents intents refs = each (validate_intent refs) intents"

definition turn_relation :: "resolved_refs \<Rightarrow> int \<Rightarrow> string \<times> node_ref \<times> node_ref \<Rightarrow> relation_row" where
  "turn_relation refs now = (\<lambda>(ty, s, g).
     \<lparr>rel_source = s, rel_target = g, rel_type = ty, rel_sourceKind = ''turn'',
      rel_sourceRef = rr_settlementId refs, rel_strength = 4 / 5, rel_directness = ''direct'',
      rel_created = now, rel_updated = now\<rparr>)"

definition materializeRelationIntents :: "relation_intent list \<Rightarrow> resolved_refs \<Rightarrow> int \<Rightarrow> relation_table \<Rightarrow>
    (thrown, nat) result \<times> relation_table" where
  "materializeRelationIntents intents refs now t =
     (case validateRelationIntents intents refs of
        Inl e \<Rightarrow> (Inl e, t)
      | Inr validated \<Rightarrow>
          (let written = filter (\<lambda>(ty, s, g). s \<noteq> g) validated
           in case run_series (map (\<lambda>v. upsertRelation (turn_relation refs now v)) written) t of
                (Inl e, t') \<Rightarrow> (Inl e, t')
              | (Inr _, t') \<Rightarrow> (Inr (length written), t')))"

section \<open>Conflict factors\<close>

record conflict_factor =
  cf_kind :: string
  cf_ref :: string
  cf_note :: "string option"

definition factor_of :: "json \<Rightarrow> conflict_factor" where
  "factor_of v = \<lparr>cf_kind = text_prop v ''kind'', cf_ref = text_prop v ''ref'',
     cf_note = string_of (prop_of v ''note'')\<rparr>"

definition cognition_ref :: "current_row \<Rightarrow> node_ref" where
  "cognition_ref row = source_ref (cc_kind row) (cc_id row)"

text \<open>A reference that names a node, as it is or in its older form \<open>private_episode:\<close>.\<close>

definition direct_node_ref :: "string \<Rightarrow> node_ref option" where
  "direct_node_ref raw =
     (if prefix ''private_episode:'' raw then Some (''episode:'' @ drop (length ''private_episode:'') raw)
      else if isl (parseGraphNodeRef raw) then None else Some raw)"

definition resolveFactorNodeRef :: "string \<Rightarrow> current_table \<Rightarrow> resolved_refs option \<Rightarrow> string \<Rightarrow> node_ref option" where
  "resolveFactorNodeRef ref current settledRefs agentId =
     (let settled = (\<lambda>c. Option.bind settledRefs (\<lambda>refs. map_option snd (resolve_candidate refs c)))
      in case settled ref of
           Some n \<Rightarrow> Some n
         | None \<Rightarrow>
       (case settled (stripRefPrefix ref) of
           Some n \<Rightarrow> Some n
         | None \<Rightarrow>
       (let raw = js_trim ref
        in case direct_node_ref raw of
             Some n \<Rightarrow> Some n
           | None \<Rightarrow>
               (let key = (if prefix ''cognition_key:'' raw then js_trim (drop (length ''cognition_key:'') raw) else raw)
                in if key = [] \<or> agentId = [] then None
                   else map_option cognition_ref (getCurrent agentId key current)))))"

record resolved_factor =
  rf_kind :: string
  rf_ref :: string
  rf_note :: "string option"
  rf_nodeRef :: node_ref

definition resolve_factor :: "current_table \<Rightarrow> resolved_refs option \<Rightarrow> string \<Rightarrow> conflict_factor \<Rightarrow> resolved_factor option" where
  "resolve_factor current settledRefs agentId f =
     (if js_trim (cf_kind f) = [] \<or> js_trim (cf_ref f) = [] then None
      else map_option (\<lambda>n. \<lparr>rf_kind = cf_kind f, rf_ref = cf_ref f,
             rf_note = (if cf_note f = Some [] then None else cf_note f), rf_nodeRef = n\<rparr>)
           (resolveFactorNodeRef (cf_ref f) current settledRefs agentId))"

definition resolveConflictFactors :: "conflict_factor list \<Rightarrow> current_table \<Rightarrow> resolved_refs option \<Rightarrow> string \<Rightarrow>
    resolved_factor list \<times> conflict_factor list" where
  "resolveConflictFactors factors current settledRefs agentId =
     (List.map_filter (resolve_factor current settledRefs agentId) factors,
      filter (\<lambda>f. resolve_factor current settledRefs agentId f = None) factors)"

section \<open>Relations of contested assertions\<close>

text \<open>
  The owner of a memory, from the rows of \<open>private_cognition_current\<close> and the episodes, here
  given as the function \<open>owner\<close> from an episode's identifier. The identifier is the number a
  string denotes; the server refuses one that is not an integer of 64 bits.
\<close>

definition lookup_id :: "string \<Rightarrow> (int \<Rightarrow> 'a option) \<Rightarrow> (thrown, 'a option) result" where
  "lookup_id s f =
     (case js_Number s of
        Fin q \<Rightarrow> if q = of_int \<lfloor>q\<rfloor> \<and> - (2 ^ 63) \<le> q \<and> q < 2 ^ 63 then Inr (f \<lfloor>q\<rfloor>) else Inl Plain_error
      | _ \<Rightarrow> Inr None)"

definition current_owner :: "cognition_kind option \<Rightarrow> current_table \<Rightarrow> int \<Rightarrow> string option" where
  "current_owner kind t i =
     map_option cc_agent (find (\<lambda>r. cc_id r = i \<and> (kind = None \<or> kind = Some (cc_kind r))) (ct_rows t))"

definition resolveSourceAgentId :: "(int \<Rightarrow> string option) \<Rightarrow> current_table \<Rightarrow> node_ref \<Rightarrow> (thrown, string option) result" where
  "resolveSourceAgentId owner t ref =
     (let s = js_trim ref
      in if prefix ''assertion:'' s then lookup_id (drop (length ''assertion:'') s) (current_owner (Some Assertion) t)
         else if prefix ''episode:'' s then lookup_id (drop (length ''episode:'') s) owner
         else if prefix ''private_episode:'' s then lookup_id (drop (length ''private_episode:'') s) owner
         else if prefix ''evaluation:'' s \<or> prefix ''commitment:'' s
         then lookup_id (tl (dropWhile (\<lambda>c. c \<noteq> CHR '':'') s)) (current_owner None t)
         else Inr None)"

definition newest_row :: "current_row list \<Rightarrow> current_row option" where
  "newest_row rs =
     (case sort_by (\<lambda>a b. (cc_updated b, cc_id b) < (cc_updated a, cc_id a)) rs of [] \<Rightarrow> None | r # _ \<Rightarrow> Some r)"

definition resolveCanonicalCognitionRefByKey :: "current_table \<Rightarrow> string \<Rightarrow> string option \<Rightarrow> node_ref option" where
  "resolveCanonicalCognitionRefByKey t key agentId =
     (let own = (\<lambda>r. cc_key r = key \<and> (agentId \<in> {None, Some []} \<or> agentId = Some (cc_agent r)))
      in case newest_row (filter (\<lambda>r. own r \<and> cc_kind r = Assertion) (ct_rows t)) of
           Some r \<Rightarrow> Some (cognition_ref r)
         | None \<Rightarrow> map_option cognition_ref (newest_row (filter (\<lambda>r. own r \<and> cc_kind r \<noteq> Assertion) (ct_rows t))))"

definition extractCognitionKey :: "string \<Rightarrow> string option" where
  "extractCognitionKey raw =
     (if prefix ''cognition_key:'' raw
      then (let k = js_trim (drop (length ''cognition_key:'') raw) in if k = [] then None else Some k)
      else None)"

definition resolveTargetNodeRef :: "current_table \<Rightarrow> node_ref \<Rightarrow> string option \<Rightarrow> node_ref option" where
  "resolveTargetNodeRef t raw agentId =
     (let s = js_trim raw
      in if s = [] then None
         else case direct_node_ref s of
           Some n \<Rightarrow> Some n
         | None \<Rightarrow> Option.bind (extractCognitionKey s) (\<lambda>k. resolveCanonicalCognitionRefByKey t k agentId))"

definition writeRelation :: "string \<Rightarrow> node_ref \<Rightarrow> node_ref \<Rightarrow> string \<Rightarrow> rat \<Rightarrow> int \<Rightarrow> relation_table \<Rightarrow>
    (thrown, unit) result \<times> relation_table" where
  "writeRelation ty source target sourceRef strength now =
     upsertRelation \<lparr>rel_source = source, rel_target = target, rel_type = ty, rel_sourceKind = ''agent_op'',
       rel_sourceRef = sourceRef, rel_strength = strength, rel_directness = ''direct'',
       rel_created = now, rel_updated = now\<rparr>"

definition contest_targets :: "current_table \<Rightarrow> string option \<Rightarrow> node_ref \<Rightarrow> node_ref list \<Rightarrow> node_ref list" where
  "contest_targets t agentId source factorNodeRefs =
     js_unique (filter (\<lambda>n. n \<noteq> source) (List.map_filter (\<lambda>n. resolveTargetNodeRef t n agentId) factorNodeRefs))"

definition writeContestRelations :: "(int \<Rightarrow> string option) \<Rightarrow> current_table \<Rightarrow> node_ref \<Rightarrow> node_ref list \<Rightarrow>
    string \<Rightarrow> int \<Rightarrow> relation_table \<Rightarrow> (thrown, unit) result \<times> relation_table" where
  "writeContestRelations owner t sourceNodeRef factorNodeRefs sourceRef now rels =
     (case resolveSourceAgentId owner t sourceNodeRef of
        Inl e \<Rightarrow> (Inl e, rels)
      | Inr agentId \<Rightarrow>
          (case resolveTargetNodeRef t sourceNodeRef agentId of
             None \<Rightarrow> (Inl Plain_error, rels)
           | Some source \<Rightarrow>
               run_series (map (\<lambda>target. writeRelation ''conflicts_with'' source target sourceRef (4 / 5) now)
                 (contest_targets t agentId source factorNodeRefs)) rels))"

record conflict_evidence =
  ce_targetRef :: node_ref
  ce_strength :: rat
  ce_sourceKind :: string
  ce_sourceRef :: string
  ce_createdAt :: int

definition getConflictEvidence :: "(int \<Rightarrow> string option) \<Rightarrow> current_table \<Rightarrow> node_ref \<Rightarrow> nat \<Rightarrow> relation_table \<Rightarrow>
    (thrown, conflict_evidence list) result" where
  "getConflictEvidence owner t sourceNodeRef limit rels =
     bind_ok (resolveSourceAgentId owner t sourceNodeRef) (\<lambda>agentId.
       case resolveTargetNodeRef t sourceNodeRef agentId of
         None \<Rightarrow> Inl Plain_error
       | Some source \<Rightarrow>
           Inr (List.map_filter
             (\<lambda>r. map_option (\<lambda>n. \<lparr>ce_targetRef = n, ce_strength = rel_strength r, ce_sourceKind = rel_sourceKind r,
                      ce_sourceRef = rel_sourceRef r, ce_createdAt = rel_created r\<rparr>)
                    (resolveTargetNodeRef t (rel_target r) agentId))
             (take limit (sort_by (\<lambda>a b. rel_strength b < rel_strength a)
               (getRelationsBySource source (Some ''conflicts_with'') rels)))))"

definition getConflictHistory :: "node_ref \<Rightarrow> nat \<Rightarrow> relation_table \<Rightarrow> (string \<times> node_ref \<times> node_ref \<times> int) list" where
  "getConflictHistory ref limit rels =
     take limit (sort_by (\<lambda>a b. snd (snd (snd a)) < snd (snd (snd b)))
       (map (\<lambda>r. (rel_type r, rel_source r, rel_target r, rel_created r))
         (getRelationsForNode ref [''conflicts_with'', ''resolved_by'', ''downgraded_by''] rels)))"

record relation_db =
  rd_current :: current_table
  rd_relations :: relation_table

definition contest_one :: "(int \<Rightarrow> string option) \<Rightarrow> string \<Rightarrow> string \<Rightarrow> node_ref list \<Rightarrow> string \<Rightarrow> int \<Rightarrow>
    string \<times> node_ref \<Rightarrow> relation_db \<Rightarrow> (thrown, unit) result \<times> relation_db" where
  "contest_one owner agentId settlementId validRefs summary now assertion db =
     (case writeContestRelations owner (rd_current db) (snd assertion) validRefs settlementId now (rd_relations db) of
        (Inl e, rels) \<Rightarrow> (Inl e, db\<lparr>rd_relations := rels\<rparr>)
      | (Inr _, rels) \<Rightarrow>
          (Inr (), \<lparr>rd_current = updateConflictFactors agentId (fst assertion) summary
                     (JArr (map JStr validRefs)) now (rd_current db), rd_relations = rels\<rparr>))"

definition applyContestConflictFactors :: "(int \<Rightarrow> string option) \<Rightarrow> string \<Rightarrow> string \<Rightarrow> (string \<times> node_ref) list \<Rightarrow>
    node_ref list \<Rightarrow> nat \<Rightarrow> int \<Rightarrow> relation_db \<Rightarrow> (thrown, unit) result \<times> relation_db" where
  "applyContestConflictFactors owner agentId settlementId contested factorNodeRefs unresolvedCount now db =
     (let validRefs = fst (normalizeConflictFactorRefs (Some (JArr (map JStr factorNodeRefs))));
          n = nat_str (length validRefs);
          summary = (if unresolvedCount > 0
            then ''contested ('' @ n @ '' factors resolved, '' @ nat_str unresolvedCount @ '' dropped)''
            else ''contested ('' @ n @ '' factors)'')
      in run_series (map (contest_one owner agentId settlementId validRefs summary now) contested) db)"

section \<open>Writing relations\<close>

lemma run_series_append:
  "run_series (fs @ gs) s = (case run_series fs s of (Inl e, s') \<Rightarrow> (Inl e, s') | (Inr _, s') \<Rightarrow> run_series gs s')"
  by (induction fs arbitrary: s) (auto split: prod.splits sum.splits)

lemma run_series_invariant:
  assumes "\<And>f s. f \<in> set fs \<Longrightarrow> P s \<Longrightarrow> \<exists>s'. f s = (Inr (), s') \<and> P s'" "P s"
  shows "\<exists>s'. run_series fs s = (Inr (), s') \<and> P s'"
  using assms
proof (induction fs arbitrary: s)
  case (Cons f fs)
  from Cons.prems(1) [of f s] Cons.prems(2) obtain s' where s': "f s = (Inr (), s')" "P s'" by auto
  from Cons.IH [of s'] Cons.prems(1) s'(2) obtain s''
    where "run_series fs s' = (Inr (), s'')" "P s''" by auto
  with s' show ?case by simp
qed simp

text \<open>The row of a relation, and what a table is after relations have been written to it.\<close>

definition relation_lookup :: "relation_table \<Rightarrow> node_ref \<times> node_ref \<times> string \<times> string \<times> string \<Rightarrow> relation_row option" where
  "relation_lookup t k = find (\<lambda>r. relation_key r = k) t"

abbreviation relation_keys :: "relation_table \<Rightarrow> (node_ref \<times> node_ref \<times> string \<times> string \<times> string) list" where
  "relation_keys t \<equiv> map relation_key t"

definition relations_ok :: "relation_table \<Rightarrow> bool" where
  "relations_ok t \<longleftrightarrow> distinct (relation_keys t) \<and> list_all relation_check t"

definition written :: "relation_row list \<Rightarrow> relation_table \<Rightarrow> relation_table \<Rightarrow> bool" where
  "written rs t t' \<longleftrightarrow>
     set (relation_keys t') = set (relation_keys rs) \<union> set (relation_keys t) \<and>
     (relations_ok t \<longrightarrow> relations_ok t') \<and>
     (\<forall>k. k \<notin> set (relation_keys rs) \<longrightarrow> relation_lookup t' k = relation_lookup t k) \<and>
     (set (relation_keys rs) \<subseteq> set (relation_keys t) \<longrightarrow> relation_keys t' = relation_keys t)"

lemma written_Nil [simp]: "written [] t t"
  by (simp add: written_def)

lemma written_trans:
  assumes "written rs t t1" "written rs' t1 t2"
  shows "written (rs @ rs') t t2"
proof -
  have "set (relation_keys t1) = set (relation_keys rs) \<union> set (relation_keys t)"
    "set (relation_keys t2) = set (relation_keys rs') \<union> set (relation_keys t1)"
    using assms unfolding written_def by blast+
  then show ?thesis using assms unfolding written_def by (simp add: subset_iff) blast
qed

lemma find_update_where_miss:
  "(\<And>x. q x \<Longrightarrow> \<not> p x \<and> \<not> p (f x)) \<Longrightarrow> find p (update_where q f t) = find p t"
  unfolding update_where_def by (induction t) simp_all

lemma relation_check_update:
  "relation_check (x\<lparr>rel_strength := rel_strength r, rel_directness := rel_directness r, rel_updated := u\<rparr>)"
  if "relation_check x" "relation_check r"
  using that by (simp add: relation_check_def)

lemma update_relation:
  assumes "relation_check r" "relation_key r \<in> set (relation_keys t)"
  shows "written [r] t (update_where (\<lambda>x. relation_key x = relation_key r)
    (\<lambda>x. x\<lparr>rel_strength := rel_strength r, rel_directness := rel_directness r, rel_updated := rel_updated r\<rparr>) t)"
    (is "written [r] t ?t")
proof -
  have keys: "relation_keys ?t = relation_keys t" by (intro map_update_where) simp
  have "list_all relation_check ?t" if "list_all relation_check t"
    using that relation_check_update [OF _ assms(1)] unfolding list_all_iff set_update_where by auto
  moreover have "find (\<lambda>x. relation_key x = k) ?t = find (\<lambda>x. relation_key x = k) t" if "k \<noteq> relation_key r" for k
    by (rule find_update_where_miss) (use that in auto)
  ultimately show ?thesis using keys assms(2) unfolding written_def relations_ok_def relation_lookup_def by auto
qed

lemma upsertRelation_written:
  assumes "relation_check r"
  shows "\<exists>t'. upsertRelation r t = (Inr (), t') \<and> written [r] t t'"
proof (cases "relation_key r \<in> set (relation_keys t)")
  case True
  then have "list_ex (\<lambda>x. relation_key x = relation_key r) t"
    unfolding list_ex_iff set_map image_iff by metis
  with update_relation [OF assms True] assms show ?thesis by (simp add: upsertRelation_def)
next
  case False
  then have "\<not> list_ex (\<lambda>x. relation_key x = relation_key r) t"
    unfolding list_ex_iff set_map image_iff by metis
  moreover have "find (\<lambda>x. relation_key x = k) (t @ [r]) = find (\<lambda>x. relation_key x = k) t" if "k \<noteq> relation_key r" for k
    using that [symmetric] by (simp add: find_append split: option.split)
  then have "written [r] t (t @ [r])"
    using False assms unfolding written_def relations_ok_def relation_lookup_def by simp
  ultimately show ?thesis using assms by (simp add: upsertRelation_def)
qed

lemma write_relations:
  "list_all relation_check rs \<Longrightarrow> \<exists>t'. run_series (map upsertRelation rs) t = (Inr (), t') \<and> written rs t t'"
proof (induction rs arbitrary: t)
  case (Cons r rs)
  from Cons.prems upsertRelation_written [of r t] obtain t1
    where t1: "upsertRelation r t = (Inr (), t1)" "written [r] t t1" by auto
  from Cons.IH [of t1] Cons.prems obtain t2
    where t2: "run_series (map upsertRelation rs) t1 = (Inr (), t2)" "written rs t1 t2" by auto
  from written_trans [OF t1(2) t2(2)] t1(1) t2(1) show ?case by simp
qed simp

section \<open>Which intents become relations\<close>

text \<open>
  The references of a settlement fit an outcome: an episode the outcome names is found under
  its local reference, an upserted key under the key with its kind, no name stands for both,
  and no name begins with a prefix of references.
\<close>

definition settles :: "json \<Rightarrow> resolved_refs \<Rightarrow> bool" where
  "settles outcome refs \<longleftrightarrow>
     (\<forall>r. map_of (local_ref_kinds outcome) r = Some Episode_ref \<longrightarrow>
        (\<exists>n. map_of (rr_localRefIndex refs) r = Some (Episode_ref, n))) \<and>
     (\<forall>k v. map_of (cognition_kinds outcome) k = Some v \<longrightarrow>
        (\<exists>c n. v = Some (JStr (kind_str c)) \<and> map_of (rr_cognitionByKey refs) k = Some (c, n))) \<and>
     fst ` set (rr_localRefIndex refs) \<inter> fst ` set (rr_cognitionByKey refs) = {} \<and>
     (\<forall>k \<in> fst ` set (rr_localRefIndex refs) \<union> fst ` set (rr_cognitionByKey refs). stripRefPrefix k = k)"

lemma settlesD:
  assumes "settles outcome refs"
  shows "map_of (local_ref_kinds outcome) r = Some Episode_ref \<Longrightarrow>
      \<exists>n. map_of (rr_localRefIndex refs) r = Some (Episode_ref, n)"
    and "map_of (cognition_kinds outcome) k = Some v \<Longrightarrow>
      \<exists>c n. v = Some (JStr (kind_str c)) \<and> map_of (rr_cognitionByKey refs) k = Some (c, n)"
    and "fst ` set (rr_localRefIndex refs) \<inter> fst ` set (rr_cognitionByKey refs) = {}"
    and "x \<in> fst ` set (rr_localRefIndex refs) \<union> fst ` set (rr_cognitionByKey refs) \<Longrightarrow> stripRefPrefix x = x"
  using assms unfolding settles_def by (elim conjE; simp only: HOL.simp_thms; blast)+

lemma cognition_kind_str_inj: "kind_str c = kind_str d \<longleftrightarrow> c = d"
  by (cases c; cases d) (simp_all add: kind_str_def)

lemma local_ref_kinds_no_cognition: "map_of (local_ref_kinds outcome) r \<noteq> Some Cognition_ref"
proof -
  have *: "map_of (fold (\<lambda>r. AList.update r k) rs m) x \<in> {map_of m x, Some k}" for k :: local_kind and rs m x
  proof (induction rs arbitrary: m)
    case (Cons a rs)
    from Cons.IH [of "AList.update a k m"] show ?case by (cases "x = a") (simp_all add: update_conv')
  qed simp
  define episodes where "episodes = fold (\<lambda>r. AList.update r Episode_ref) (local_refs (list_prop outcome ''privateEpisodes'')) []"
  from * [of Episode_ref _ "[]" r] have "map_of episodes r \<in> {None, Some Episode_ref}" by (simp add: episodes_def)
  moreover from * [of Publication_ref _ episodes r]
  have "map_of (local_ref_kinds outcome) r \<in> {map_of episodes r, Some Publication_ref}"
    by (simp add: local_ref_kinds_def episodes_def)
  ultimately show ?thesis by auto
qed

lemma resolve_settled:
  assumes "settles outcome refs"
  shows "map_of (rr_localRefIndex refs) (stripRefPrefix ref) = Some (k, n) \<Longrightarrow>
      resolveIntentRef ref refs = Inr (Local k, n)"
    and "map_of (rr_cognitionByKey refs) (stripRefPrefix ref) = Some (c, n) \<Longrightarrow>
      resolveIntentRef ref refs = Inr (Cog c, n)"
proof -
  let ?names = "fst ` set (rr_localRefIndex refs) \<union> fst ` set (rr_cognitionByKey refs)"
  have none: "resolve_candidate refs x = None" if "x \<notin> ?names" for x
    using that unfolding resolve_candidate_def by (simp add: map_of_eq_None_iff [THEN iffD2])
  note plain = settlesD(4) [OF assms]
  have raw: "resolveIntentRef ref refs = Inr e" if "resolve_candidate refs (stripRefPrefix ref) = Some e" for e
  proof (cases "ref \<in> ?names")
    case True
    with plain that show ?thesis by (simp add: resolveIntentRef_def)
  next
    case False
    with none that show ?thesis by (simp add: resolveIntentRef_def)
  qed
  show "resolveIntentRef ref refs = Inr (Local k, n)" if "map_of (rr_localRefIndex refs) (stripRefPrefix ref) = Some (k, n)"
    using that by (intro raw) (simp add: resolve_candidate_def)
  assume c: "map_of (rr_cognitionByKey refs) (stripRefPrefix ref) = Some (c, n)"
  from settlesD(3) [OF assms] map_of_in_keys [OF c] have "stripRefPrefix ref \<notin> fst ` set (rr_localRefIndex refs)" by auto
  then have "map_of (rr_localRefIndex refs) (stripRefPrefix ref) = None" by (simp add: map_of_eq_None_iff)
  with c show "resolveIntentRef ref refs = Inr (Cog c, n)"
    by (intro raw) (simp add: resolve_candidate_def)
qed

lemma kept_intent_valid:
  assumes "settles outcome refs" "intent_kept outcome intent"
  shows "\<exists>v. validate_intent refs intent = Inr v \<and> fst v = ri_intent intent"
proof -
  let ?target = "stripRefPrefix (ri_targetRef intent)"
  let ?kind = "Option.bind (map_of (cognition_kinds outcome) ?target) (\<lambda>k. k)"
  from assms(2) have allowed: "ri_intent intent \<in> set ALLOWED_INTENTS"
    and source: "map_of (local_ref_kinds outcome) (stripRefPrefix (ri_sourceRef intent)) = Some Episode_ref"
    unfolding intent_kept_def Let_def by blast+
  from assms(2) have branch: "if ri_intent intent = ''supports''
      then ?kind \<noteq> None \<or> map_of (local_ref_kinds outcome) ?target = Some Cognition_ref
      else ?kind \<in> {Some (JStr ''evaluation''), Some (JStr ''commitment'')}"
    unfolding intent_kept_def Let_def by (elim conjE)
  have kind: "?kind \<noteq> None"
    "ri_intent intent \<noteq> ''supports'' \<Longrightarrow> ?kind \<in> {Some (JStr ''evaluation''), Some (JStr ''commitment'')}"
  proof -
    show "?kind \<noteq> None"
    proof (cases "ri_intent intent = ''supports''")
      case True
      with branch have "?kind \<noteq> None \<or> map_of (local_ref_kinds outcome) ?target = Some Cognition_ref"
        by (simp only: if_True simp_thms)
      then show ?thesis using local_ref_kinds_no_cognition by blast
    next
      case False
      with branch show ?thesis by (simp only: if_False) auto
    qed
    show "?kind \<in> {Some (JStr ''evaluation''), Some (JStr ''commitment'')}" if "ri_intent intent \<noteq> ''supports''"
      using branch that by (simp only: if_False)
  qed
  from settlesD(1) [OF assms(1) source] obtain n
    where "map_of (rr_localRefIndex refs) (stripRefPrefix (ri_sourceRef intent)) = Some (Episode_ref, n)" by blast
  from resolve_settled(1) [OF assms(1) this] have s: "resolveIntentRef (ri_sourceRef intent) refs = Inr (Local Episode_ref, n)" .
  from kind(1) obtain v where v: "map_of (cognition_kinds outcome) ?target = Some v" by (cases "map_of (cognition_kinds outcome) ?target") auto
  from settlesD(2) [OF assms(1) this] obtain c m
    where c: "v = Some (JStr (kind_str c))" "map_of (rr_cognitionByKey refs) ?target = Some (c, m)" by blast
  from resolve_settled(2) [OF assms(1) c(2)] have t: "resolveIntentRef (ri_targetRef intent) refs = Inr (Cog c, m)" .
  show ?thesis
  proof (cases "ri_intent intent = ''supports''")
    case True
    with s t show ?thesis by (simp add: validate_intent_def ALLOWED_INTENTS_def)
  next
    case False
    with kind(2) v c(1) have "c \<in> {Evaluation, Commitment}" by (cases c) (simp_all add: kind_str_def)
    moreover from False allowed have "ri_intent intent = ''triggered''" by (simp add: ALLOWED_INTENTS_def)
    ultimately show ?thesis using s t by (auto simp: validate_intent_def ALLOWED_INTENTS_def)
  qed
qed

lemma each_total: "(\<And>x. x \<in> set xs \<Longrightarrow> \<exists>y. f x = Inr y) \<Longrightarrow> \<exists>ys. each f xs = Inr ys \<and> length ys = length xs"
  by (induction xs) fastforce+

lemma prevalidated_intents:
  assumes "prop_of outcome ''relationIntents'' = Some (JArr is)" "\<exists>m. outcome = JObj m"
  shows "list_prop (prevalidateRelationIntents outcome) ''relationIntents'' = filter (\<lambda>i. intent_kept outcome (intent_of i)) is"
  using assms by (auto simp: prevalidateRelationIntents_def list_prop_def set_prop_def get_prop_update)

lemma validate_prevalidated:
  assumes "settles outcome refs" "list_all (\<lambda>i. intent_kept outcome (intent_of i)) is"
  shows "\<exists>vs. validateRelationIntents (map intent_of is) refs = Inr vs \<and> length vs = length is \<and>
    list_all (\<lambda>v. fst v \<in> {''supports'', ''triggered''}) vs"
proof -
  have "\<exists>y. validate_intent refs x = Inr y" if "x \<in> set (map intent_of is)" for x
  proof -
    from that obtain i where "i \<in> set is" "x = intent_of i" by auto
    with assms(2) have "intent_kept outcome x" by (simp add: list_all_iff)
    from kept_intent_valid [OF assms(1) this] show ?thesis by blast
  qed
  from each_total [of "map intent_of is" "validate_intent refs", OF this] obtain vs where vs: "each (validate_intent refs) (map intent_of is) = Inr vs"
    "length vs = length is" by auto
  have typed: "fst v \<in> {''supports'', ''triggered''}" if "validate_intent refs x = Inr v" for x v
    using that by (auto simp: validate_intent_def bind_ok_Inr split: if_splits endpoint_kind.splits)
  from vs(1) have "list_all2 (\<lambda>x v. validate_intent refs x = Inr v) (map intent_of is) vs" by (simp only: each_Inr)
  then have "list_all (\<lambda>v. fst v \<in> {''supports'', ''triggered''}) vs"
    by (induction rule: list_all2_induct) (simp_all only: list.pred_inject typed simp_thms)
  with vs show ?thesis by (auto simp: validateRelationIntents_def)
qed

definition turn_rows :: "resolved_refs \<Rightarrow> int \<Rightarrow> (string \<times> node_ref \<times> node_ref) list \<Rightarrow> relation_row list" where
  "turn_rows refs now vs = map (turn_relation refs now) (filter (\<lambda>(ty, s, g). s \<noteq> g) vs)"

lemma turn_rows_keys: "relation_keys (turn_rows refs now vs) =
  map (\<lambda>(ty, s, g). (s, g, ty, ''turn'', rr_settlementId refs)) (filter (\<lambda>(ty, s, g). s \<noteq> g) vs)"
  by (simp add: turn_rows_def turn_relation_def case_prod_unfold)

lemma turn_rows_check:
  "list_all (\<lambda>v. fst v \<in> {''supports'', ''triggered''}) vs \<Longrightarrow> list_all relation_check (turn_rows refs now vs)"
  by (auto simp: list_all_iff turn_rows_def turn_relation_def relation_check_def)

lemma materialize_valid:
  assumes "validateRelationIntents intents refs = Inr vs" "list_all (\<lambda>v. fst v \<in> {''supports'', ''triggered''}) vs"
  shows "\<exists>t'. materializeRelationIntents intents refs now t = (Inr (length (turn_rows refs now vs)), t') \<and>
    written (turn_rows refs now vs) t t'"
proof -
  from write_relations [OF turn_rows_check [OF assms(2)], of refs now t] obtain t'
    where "run_series (map upsertRelation (turn_rows refs now vs)) t = (Inr (), t')"
      "written (turn_rows refs now vs) t t'" by blast
  then show ?thesis
    by (simp add: materializeRelationIntents_def assms(1) turn_rows_def comp_def)
qed

text \<open>
  Property (C14): the relations of an outcome that was checked beforehand are all written, if a
  settlement's references fit the outcome: its episodes and keys are found among them, no name is
  both a local reference and a key, and none begins with a reference prefix. Then no intent that
  the check keeps is refused: each whose two ends differ has its row afterwards, as many are
  counted, and writing them again later adds no row.
\<close>

theorem prevalidated_intents_written:
  assumes "prop_of outcome ''relationIntents'' = Some (JArr is)" "\<exists>m. outcome = JObj m"
    and "settles outcome refs" "relations_ok t"
  shows "\<exists>vs t'. let intents = map intent_of (list_prop (prevalidateRelationIntents outcome) ''relationIntents'') in
    validateRelationIntents intents refs = Inr vs \<and>
    length vs = length (filter (\<lambda>i. intent_kept outcome (intent_of i)) is) \<and>
    materializeRelationIntents intents refs now t = (Inr (length (filter (\<lambda>(ty, s, g). s \<noteq> g) vs)), t') \<and>
    relations_ok t' \<and>
    set (relation_keys t') = set (relation_keys t) \<union>
      {(s, g, ty, ''turn'', rr_settlementId refs) | s g ty. (ty, s, g) \<in> set vs \<and> s \<noteq> g} \<and>
    (\<forall>later. \<exists>t''. materializeRelationIntents intents refs later t' =
       (Inr (length (filter (\<lambda>(ty, s, g). s \<noteq> g) vs)), t'') \<and> relation_keys t'' = relation_keys t')"
proof -
  let ?kept = "filter (\<lambda>i. intent_kept outcome (intent_of i)) is"
  note kept = prevalidated_intents [OF assms(1,2)]
  from validate_prevalidated [OF assms(3), of ?kept] obtain vs
    where vs: "validateRelationIntents (map intent_of ?kept) refs = Inr vs" "length vs = length ?kept"
      "list_all (\<lambda>v. fst v \<in> {''supports'', ''triggered''}) vs"
    by (auto simp: list_all_iff)
  note written_ok = materialize_valid [OF vs(1,3)]
  have len: "length (turn_rows refs n vs) = length (filter (\<lambda>(ty, s, g). s \<noteq> g) vs)" for n
    by (simp add: turn_rows_def)
  have keys: "set (relation_keys (turn_rows refs n vs)) =
      {(s, g, ty, ''turn'', rr_settlementId refs) | s g ty. (ty, s, g) \<in> set vs \<and> s \<noteq> g}" for n
    unfolding turn_rows_keys by force
  obtain t' where t': "materializeRelationIntents (map intent_of ?kept) refs now t =
      (Inr (length (turn_rows refs now vs)), t')" "written (turn_rows refs now vs) t t'"
    using written_ok by blast
  have again: "\<exists>t''. materializeRelationIntents (map intent_of ?kept) refs later t' =
      (Inr (length (turn_rows refs now vs)), t'') \<and> relation_keys t'' = relation_keys t'" for later
  proof -
    obtain t'' where t'': "materializeRelationIntents (map intent_of ?kept) refs later t' =
        (Inr (length (turn_rows refs later vs)), t'')" "written (turn_rows refs later vs) t' t''"
      using written_ok by blast
    have "set (relation_keys (turn_rows refs later vs)) \<subseteq> set (relation_keys t')"
      using t'(2) unfolding written_def keys by blast
    with t''(2) have "relation_keys t'' = relation_keys t'" unfolding written_def by blast
    with t''(1) show ?thesis by (simp add: len)
  qed
  from t'(2) assms(4) have "relations_ok t'" "set (relation_keys t') = set (relation_keys t) \<union>
      {(s, g, ty, ''turn'', rr_settlementId refs) | s g ty. (ty, s, g) \<in> set vs \<and> s \<noteq> g}"
    unfolding written_def keys by blast+
  with vs(1,2) t'(1) again show ?thesis unfolding kept Let_def len by blast
qed

section \<open>What contesting leaves\<close>

lemma digits_no_space: "list_all is_digit (int_str i) \<or> (\<exists>ds. int_str i = CHR ''-'' # ds \<and> list_all is_digit ds)"
  by (simp add: int_str_def nat_str_digits)

text \<open>A reference as the code checks it, and the node it stands for.\<close>

definition factor_node :: "node_ref \<Rightarrow> node_ref" where
  "factor_node ref = (if prefix ''private_episode:'' ref
     then ''episode:'' @ drop (length ''private_episode:'') ref else ref)"

lemma js_trim_text_digits:
  assumes "c \<noteq> []" "\<not> is_js_space (hd c)" "list_all is_digit ds" "ds \<noteq> []"
  shows "js_trim (c @ ds) = c @ ds"
proof -
  have "dropWhile is_js_space (c @ ds) = c @ ds" using assms(1,2) by (cases c) simp_all
  moreover have "dropWhile is_js_space (rev ds @ rec) = rev ds @ rec" for rec
    using assms(3,4) digit_not_space by (cases "rev ds") (auto simp: list_all_iff dest: arg_cong [of _ _ set])
  ultimately show ?thesis by (simp add: js_trim_def)
qed

lemma factor_ref_form:
  assumes "is_factor_ref s"
  obtains k ds where "s = kind_name k @ '':'' @ ds" "list_all is_digit ds" "ds \<noteq> []"
  | ds where "s = ''private_episode:'' @ ds" "list_all is_digit ds" "ds \<noteq> []"
proof -
  from assms obtain p where p: "p \<in> {''assertion:'', ''evaluation:'', ''commitment:'', ''episode:'', ''private_episode:'', ''event:''}"
    "prefix p s" "drop (length p) s \<noteq> []" "list_all is_digit (drop (length p) s)"
    unfolding is_factor_ref_def list_ex_iff list.set by blast
  then obtain ds where s: "s = p @ ds" by (auto simp: prefix_def)
  with p have ds: "list_all is_digit ds" "ds \<noteq> []" by simp_all
  have names: "kind_name Assertion_kind @ '':'' = ''assertion:''" "kind_name Evaluation_kind @ '':'' = ''evaluation:''"
    "kind_name Commitment_kind @ '':'' = ''commitment:''" "kind_name Episode_kind @ '':'' = ''episode:''"
    "kind_name Event_kind @ '':'' = ''event:''" by simp_all
  show ?thesis
  proof (cases "p = ''private_episode:''")
    case True
    with s ds that(2) show ?thesis by blast
  next
    case False
    with p(1) names obtain k where "p = kind_name k @ '':''" by (metis empty_iff insert_iff)
    with s ds that(1) [of k ds] show ?thesis by simp
  qed
qed

lemma resolve_factor_ref:
  assumes "is_factor_ref s"
  shows "resolveTargetNodeRef t s agentId = Some (factor_node s)"
  using assms
proof (cases rule: factor_ref_form)
  case (1 k ds)
  have k: "kind_name k \<noteq> []" "\<not> is_js_space (hd (kind_name k))" by (cases k; simp add: is_js_space_def)+
  then have "js_trim s = s" using 1 js_trim_text_digits [of "kind_name k @ '':''" ds] by simp
  moreover have "\<not> prefix ''private_episode:'' s" unfolding 1(1) by (cases k) simp_all
  ultimately show ?thesis using 1(1) k(1) parse_kind_name [of k ds]
    by (simp add: resolveTargetNodeRef_def direct_node_ref_def factor_node_def Let_def)
next
  case (2 ds)
  then have "js_trim s = s" using js_trim_text_digits [of "''private_episode:''" ds] by (simp add: is_js_space_def)
  with 2(1) show ?thesis by (simp add: resolveTargetNodeRef_def direct_node_ref_def factor_node_def Let_def)
qed

lemma js_Number_int_str:
  assumes "valid_id i"
  shows "js_Number (int_str i) = Fin (of_int i)"
proof -
  let ?ds = "nat_str (nat i)"
  have "digits_value 10 ?ds = i" using assms by (simp add: digits_value_nat_str valid_id_def)
  moreover have "i < 2 ^ 1000" using assms by (simp add: valid_id_def)
  ultimately have "js_Number ?ds = Fin (of_int i)" using js_Number_digits [OF nat_str_digits] nat_str_last by metis
  then show ?thesis using assms by (simp add: int_str_def valid_id_def)
qed

lemma cognition_ref_form:
  assumes "valid_id i"
  shows "source_ref kd i = kind_str kd @ '':'' @ nat_str (nat i)" "is_factor_ref (source_ref kd i)"
    "js_trim (source_ref kd i) = source_ref kd i" "factor_node (source_ref kd i) = source_ref kd i"
proof -
  show form: "source_ref kd i = kind_str kd @ '':'' @ nat_str (nat i)"
    using assms by (simp add: source_ref_def int_str_def valid_id_def)
  have "nat_str (nat i) \<noteq> []" using nat_str_last by blast
  with nat_str_digits [of "nat i"] show "is_factor_ref (source_ref kd i)"
    "js_trim (source_ref kd i) = source_ref kd i"
    unfolding form using js_trim_text_digits [of "kind_str kd @ '':''"]
    by (cases kd; simp add: kind_str_def is_factor_ref_def is_js_space_def)+
  show "factor_node (source_ref kd i) = source_ref kd i"
    unfolding form by (cases kd; simp add: kind_str_def factor_node_def)
qed

lemma cognition_owner:
  assumes "valid_id i"
  shows "\<exists>a. resolveSourceAgentId owner t (source_ref kd i) = Inr a"
proof -
  have "js_Number (nat_str (nat i)) = Fin (of_int i)"
    using js_Number_int_str [OF assms] assms by (simp add: int_str_def valid_id_def)
  moreover have "- (2 ^ 63) \<le> (of_int i :: rat)" "(of_int i :: rat) < 2 ^ 63"
    using assms by (simp_all add: valid_id_def)
  ultimately show ?thesis
    using cognition_ref_form(1,3) [OF assms, of kd]
    by (cases kd) (simp_all add: resolveSourceAgentId_def lookup_id_def Let_def kind_str_def)
qed

abbreviation contest_row :: "node_ref \<Rightarrow> string \<Rightarrow> int \<Rightarrow> node_ref \<Rightarrow> relation_row" where
  "contest_row source sourceRef now target \<equiv>
     \<lparr>rel_source = source, rel_target = target, rel_type = ''conflicts_with'', rel_sourceKind = ''agent_op'',
      rel_sourceRef = sourceRef, rel_strength = 4 / 5, rel_directness = ''direct'', rel_created = now, rel_updated = now\<rparr>"

lemma set_contest_targets:
  assumes "list_all is_factor_ref refs"
  shows "set (contest_targets t a source refs) = factor_node ` set refs - {source}"
proof -
  have "List.map_filter (\<lambda>n. resolveTargetNodeRef t n a) refs = map factor_node refs"
    using assms by (induction refs) (simp_all add: map_filter_simps resolve_factor_ref)
  then show ?thesis by (auto simp: contest_targets_def)
qed

lemma writeContestRelations_written:
  assumes "valid_id i" "list_all is_factor_ref refs"
  shows "\<exists>rels' rs. writeContestRelations owner t (source_ref kd i) refs sid now rels = (Inr (), rels') \<and>
    written rs rels rels' \<and>
    set (relation_keys rs) = (\<lambda>n. (source_ref kd i, n, ''conflicts_with'', ''agent_op'', sid)) `
      (factor_node ` set refs - {source_ref kd i})"
proof -
  let ?s = "source_ref kd i"
  obtain a where a: "resolveSourceAgentId owner t ?s = Inr a" using cognition_owner [OF assms(1)] by blast
  have s: "resolveTargetNodeRef t ?s a = Some ?s"
    using resolve_factor_ref [OF cognition_ref_form(2) [OF assms(1)]] cognition_ref_form(4) [OF assms(1)] by simp
  let ?ts = "contest_targets t a ?s refs"
  let ?rs = "map (contest_row ?s sid now) ?ts"
  note targets = set_contest_targets [OF assms(2), of t a ?s]
  have "\<forall>n \<in> set ?ts. relation_check (contest_row ?s sid now n)"
    unfolding targets by (auto simp: relation_check_def)
  then have "list_all relation_check ?rs" by (simp add: list_all_iff)
  from write_relations [OF this, of rels] obtain rels' where "run_series (map upsertRelation ?rs) rels = (Inr (), rels')"
    "written ?rs rels rels'" by blast
  moreover have "set (relation_keys ?rs) = (\<lambda>n. (?s, n, ''conflicts_with'', ''agent_op'', sid)) ` (factor_node ` set refs - {?s})"
    unfolding targets [symmetric] by (simp add: image_comp comp_def)
  moreover have "writeContestRelations owner t ?s refs sid now rels = run_series (map upsertRelation ?rs) rels"
    by (simp add: writeContestRelations_def a s writeRelation_def [abs_def] comp_def)
  ultimately show ?thesis by (intro exI [of _ rels'] exI [of _ ?rs]) (simp only: simp_thms)
qed

definition conflict_marked :: "string \<Rightarrow> json \<Rightarrow> int \<Rightarrow> current_row \<Rightarrow> current_row" where
  "conflict_marked summary refs now r =
     r\<lparr>cc_conflictSummary := Some summary, cc_conflictFactorRefs := Some refs, cc_updated := now\<rparr>"

lemma updateConflictFactors_eq:
  "updateConflictFactors a k s j now t = t\<lparr>ct_rows := update_where (at_key a k) (conflict_marked s j now) (ct_rows t)\<rparr>"
  by (simp add: updateConflictFactors_def conflict_marked_def [abs_def])

lemma mark_twice:
  "update_where (at_key a k) (conflict_marked s j now) (update_where (\<lambda>r. cc_agent r = a \<and> cc_key r \<in> ks) (conflict_marked s j now) t) =
   update_where (\<lambda>r. cc_agent r = a \<and> cc_key r \<in> insert k ks) (conflict_marked s j now) t"
  by (auto simp: update_where_def conflict_marked_def)

definition contest_keys :: "(string \<times> node_ref) list \<Rightarrow> node_ref list \<Rightarrow> string \<Rightarrow>
    (node_ref \<times> node_ref \<times> string \<times> string \<times> string) set" where
  "contest_keys contested refs sid =
     (\<Union>c \<in> set contested. (\<lambda>n. (snd c, n, ''conflicts_with'', ''agent_op'', sid)) ` (factor_node ` set refs - {snd c}))"

lemma contest_one_written:
  assumes "valid_id i" "list_all is_factor_ref refs"
  shows "\<exists>rels' rs. contest_one owner agentId sid refs summary now (key, source_ref kd i) db =
      (Inr (), \<lparr>rd_current = (rd_current db)\<lparr>ct_rows := update_where (at_key agentId key)
         (conflict_marked summary (JArr (map JStr refs)) now) (ct_rows (rd_current db))\<rparr>, rd_relations = rels'\<rparr>) \<and>
    written rs (rd_relations db) rels' \<and> set (relation_keys rs) = contest_keys [(key, source_ref kd i)] refs sid"
proof -
  from writeContestRelations_written [OF assms, of owner "rd_current db" kd sid now "rd_relations db"]
  obtain rels' rs where *: "writeContestRelations owner (rd_current db) (source_ref kd i) refs sid now (rd_relations db) =
      (Inr (), rels')" "written rs (rd_relations db) rels'"
    "set (relation_keys rs) = (\<lambda>n. (source_ref kd i, n, ''conflicts_with'', ''agent_op'', sid)) `
      (factor_node ` set refs - {source_ref kd i})"
    by (elim exE conjE)
  have "set (relation_keys rs) = contest_keys [(key, source_ref kd i)] refs sid"
    unfolding *(3) contest_keys_def by simp
  moreover have "contest_one owner agentId sid refs summary now (key, source_ref kd i) db =
      (Inr (), \<lparr>rd_current = (rd_current db)\<lparr>ct_rows := update_where (at_key agentId key)
         (conflict_marked summary (JArr (map JStr refs)) now) (ct_rows (rd_current db))\<rparr>, rd_relations = rels'\<rparr>)"
    by (simp only: contest_one_def snd_conv fst_conv *(1) updateConflictFactors_eq prod.case sum.case)
  ultimately show ?thesis using *(2) by (intro exI conjI)
qed

lemma contest_all_written:
  assumes "list_all is_factor_ref refs" "list_all (\<lambda>c. \<exists>kd i. valid_id i \<and> snd c = source_ref kd i) contested"
  shows "\<exists>rels' rs. run_series (map (contest_one owner agentId sid refs summary now) contested) db =
      (Inr (), \<lparr>rd_current = (rd_current db)\<lparr>ct_rows :=
         update_where (\<lambda>r. cc_agent r = agentId \<and> cc_key r \<in> fst ` set contested)
           (conflict_marked summary (JArr (map JStr refs)) now) (ct_rows (rd_current db))\<rparr>, rd_relations = rels'\<rparr>) \<and>
    written rs (rd_relations db) rels' \<and> set (relation_keys rs) = contest_keys contested refs sid"
  using assms(2)
proof (induction contested arbitrary: db rule: rev_induct)
  case Nil
  have "update_where (\<lambda>r. False) f rows = rows" for f and rows :: "current_row list" by (simp add: update_where_def)
  then show ?case using written_Nil [of "rd_relations db"]
    by (intro exI [of _ "rd_relations db"] exI [of _ "[]"]) (simp add: contest_keys_def)
next
  case (snoc c contested)
  from snoc.prems obtain kd i where i: "valid_id i" "c = (fst c, source_ref kd i)" by (cases c) auto
  let ?mark = "\<lambda>ks. update_where (\<lambda>r. cc_agent r = agentId \<and> cc_key r \<in> ks)
    (conflict_marked summary (JArr (map JStr refs)) now) (ct_rows (rd_current db))"
  let ?db = "\<lambda>ks rels. \<lparr>rd_current = (rd_current db)\<lparr>ct_rows := ?mark ks\<rparr>, rd_relations = rels\<rparr>"
  from snoc.prems have "list_all (\<lambda>c. \<exists>kd i. valid_id i \<and> snd c = source_ref kd i) contested" by simp
  from snoc.IH [OF this, of db] obtain rels1 rs1 where first: "run_series (map (contest_one owner agentId sid refs summary now) contested) db =
      (Inr (), ?db (fst ` set contested) rels1)" "written rs1 (rd_relations db) rels1"
    "set (relation_keys rs1) = contest_keys contested refs sid" by blast
  obtain rels2 rs2 where second: "contest_one owner agentId sid refs summary now c (?db (fst ` set contested) rels1) =
      (Inr (), ?db (insert (fst c) (fst ` set contested)) rels2)" "written rs2 rels1 rels2"
    "set (relation_keys rs2) = contest_keys [c] refs sid"
  proof -
    have two: "t\<lparr>ct_rows := x, ct_rows := y\<rparr> = t\<lparr>ct_rows := y\<rparr>"
      and sel: "ct_rows (t\<lparr>ct_rows := x\<rparr>) = x" for t :: current_table and x y by simp_all
    from contest_one_written [OF i(1) assms(1), of owner agentId sid summary now "fst c" kd "?db (fst ` set contested) rels1"]
    have "\<exists>rels' rs. contest_one owner agentId sid refs summary now c (?db (fst ` set contested) rels1) =
        (Inr (), ?db (insert (fst c) (fst ` set contested)) rels') \<and> written rs rels1 rels' \<and>
      set (relation_keys rs) = contest_keys [c] refs sid"
      unfolding i(2) [symmetric] relation_db.select_convs current_table.select_convs two
      by (simp only: mark_twice sel)
    then show thesis by (elim exE conjE) (rule that)
  qed
  have "written (rs1 @ rs2) (rd_relations db) rels2" using first(2) second(2) by (rule written_trans)
  moreover have "set (relation_keys (rs1 @ rs2)) = contest_keys (contested @ [c]) refs sid"
    unfolding map_append set_append first(3) second(3) by (simp add: contest_keys_def Un_commute)
  moreover have "run_series (map (contest_one owner agentId sid refs summary now) (contested @ [c])) db =
      (Inr (), ?db (fst ` set (contested @ [c])) rels2)"
    by (simp add: run_series_append first(1) second(1))
  ultimately show ?case by blast
qed

definition valid_refs :: "node_ref list \<Rightarrow> node_ref list" where
  "valid_refs refs = filter is_factor_ref (map js_trim refs)"

lemma normalize_refs: "fst (normalizeConflictFactorRefs (Some (JArr (map JStr refs)))) = valid_refs refs"
  by (induction refs) (simp_all add: normalizeConflictFactorRefs_def map_filter_simps factor_ref_def valid_refs_def)

definition contest_summary :: "nat \<Rightarrow> nat \<Rightarrow> string" where
  "contest_summary m n =
     (if n > 0
      then ''contested ('' @ nat_str m @ '' factors resolved, '' @ nat_str n @ '' dropped)''
      else ''contested ('' @ nat_str m @ '' factors)'')"

text \<open>
  Property (C16): contesting always succeeds, and it leaves exactly what the factors
  say: every contested row has a relation \<open>conflicts_with\<close> to the node of each valid factor
  other than itself, no other relation is new, and every relation that is not one of these keeps
  its row, with its strength, directness and times as they were; the rows of the contested
  keys of this agent carry the summary and the list of valid factors, and no other row of the
  table of current beliefs is changed.
\<close>

theorem contest_recorded:
  assumes "list_all (\<lambda>c. \<exists>kd i. valid_id i \<and> snd c = source_ref kd i) contested"
    and "relations_ok (rd_relations db)"
  shows "\<exists>db'. applyContestConflictFactors owner agentId sid contested factors dropped now db = (Inr (), db') \<and>
    relations_ok (rd_relations db') \<and>
    set (relation_keys (rd_relations db')) =
      set (relation_keys (rd_relations db)) \<union> contest_keys contested (valid_refs factors) sid \<and>
    (\<forall>k. k \<notin> contest_keys contested (valid_refs factors) sid \<longrightarrow>
      relation_lookup (rd_relations db') k = relation_lookup (rd_relations db) k) \<and>
    rd_current db' = (rd_current db)\<lparr>ct_rows :=
      update_where (\<lambda>r. cc_agent r = agentId \<and> cc_key r \<in> fst ` set contested)
        (conflict_marked (contest_summary (length (valid_refs factors)) dropped)
          (JArr (map JStr (valid_refs factors))) now) (ct_rows (rd_current db))\<rparr>"
proof -
  have "list_all is_factor_ref (valid_refs factors)" by (simp add: valid_refs_def list_all_iff)
  from contest_all_written [OF this assms(1), of owner agentId sid
      "contest_summary (length (valid_refs factors)) dropped" now db]
  obtain rels' rs where run: "run_series (map (contest_one owner agentId sid (valid_refs factors)
        (contest_summary (length (valid_refs factors)) dropped) now) contested) db =
      (Inr (), \<lparr>rd_current = (rd_current db)\<lparr>ct_rows :=
         update_where (\<lambda>r. cc_agent r = agentId \<and> cc_key r \<in> fst ` set contested)
           (conflict_marked (contest_summary (length (valid_refs factors)) dropped)
             (JArr (map JStr (valid_refs factors))) now) (ct_rows (rd_current db))\<rparr>, rd_relations = rels'\<rparr>)"
    and w: "written rs (rd_relations db) rels'"
    and keys: "set (relation_keys rs) = contest_keys contested (valid_refs factors) sid"
    by blast
  have "applyContestConflictFactors owner agentId sid contested factors dropped now db =
      run_series (map (contest_one owner agentId sid (valid_refs factors)
        (contest_summary (length (valid_refs factors)) dropped) now) contested) db"
    by (simp add: applyContestConflictFactors_def normalize_refs contest_summary_def Let_def)
  moreover have "relations_ok rels'" using w assms(2) by (simp add: written_def)
  moreover have "set (relation_keys rels') =
      set (relation_keys (rd_relations db)) \<union> contest_keys contested (valid_refs factors) sid"
    using w keys by (simp add: written_def Un_commute)
  moreover have "\<forall>k. k \<notin> contest_keys contested (valid_refs factors) sid \<longrightarrow>
      relation_lookup rels' k = relation_lookup (rd_relations db) k"
    using w unfolding written_def keys by (elim conjE)
  ultimately show ?thesis using run by simp
qed

definition sample_relations :: relation_db where
  "sample_relations =
     \<lparr>rd_current = \<lparr>ct_rows = [\<lparr>cc_id = 7, cc_agent = ''mei'', cc_key = ''k'', cc_kind = Assertion,
        cc_stance = Some ''contested'', cc_basis = None, cc_status = ''active'', cc_preContested = Some ''accepted'',
        cc_conflictSummary = None, cc_conflictFactorRefs = None, cc_summary = None, cc_record = JObj [],
        cc_sourceEvent = 1, cc_updated = 5\<rparr>], ct_next = 8\<rparr>,
      rd_relations = []\<rparr>"

theorem contest_recorded_witness:
  "\<exists>db'. applyContestConflictFactors (\<lambda>_. None) ''mei'' ''s1'' [(''k'', source_ref Assertion 7)]
      ['' event:3'', ''assertion:7'', ''nobody''] 1 9 sample_relations = (Inr (), db') \<and>
    (''assertion:7'', ''event:3'', ''conflicts_with'', ''agent_op'', ''s1'') \<in> set (relation_keys (rd_relations db'))"
proof -
  have ok: "list_all (\<lambda>c. \<exists>kd i. valid_id i \<and> snd c = source_ref kd i) [(''k'', source_ref Assertion 7)]"
    by (auto simp: valid_id_def intro!: exI [of _ Assertion] exI [of _ 7])
  have rels: "relations_ok (rd_relations sample_relations)" by (simp add: sample_relations_def relations_ok_def)
  have "valid_refs ['' event:3'', ''assertion:7'', ''nobody''] = [''event:3'', ''assertion:7'']" "factor_node ''event:3'' = ''event:3''"
    by (simp_all add: valid_refs_def is_factor_ref_def js_trim_def is_js_space_def is_digit_def factor_node_def)
  moreover have "source_ref Assertion 7 = ''assertion:7''" by code_simp
  ultimately have "(''assertion:7'', ''event:3'', ''conflicts_with'', ''agent_op'', ''s1'') \<in>
      contest_keys [(''k'', source_ref Assertion 7)] (valid_refs ['' event:3'', ''assertion:7'', ''nobody'']) ''s1''"
    by (auto simp: contest_keys_def intro!: rev_image_eqI [of "''event:3''"])
  with contest_recorded [OF ok rels, of "\<lambda>_. None" "''mei''" "''s1''" "['' event:3'', ''assertion:7'', ''nobody'']" 1 9]
  show ?thesis by blast
qed

definition intents_outcome :: json where
  "intents_outcome =
     JObj [(''privateCognition'', JObj [(''ops'', JArr [JObj [(''op'', JStr ''upsert''),
              (''record'', JObj [(''kind'', JStr ''evaluation''), (''key'', JStr ''trust'')])]])]),
           (''privateEpisodes'', JArr [JObj [(''localRef'', JStr ''door'')]]),
           (''publications'', JArr []),
           (''relationIntents'', JArr [
              JObj [(''sourceRef'', JStr ''episode:door''), (''targetRef'', JStr ''cognition:trust''), (''intent'', JStr ''triggered'')],
              JObj [(''sourceRef'', JStr ''window''), (''targetRef'', JStr ''trust''), (''intent'', JStr ''supports'')]])]"

definition sample_refs :: resolved_refs where
  "sample_refs = \<lparr>rr_settlementId = ''s1'', rr_agentId = ''mei'',
     rr_localRefIndex = [(''door'', (Episode_ref, ''episode:4''))],
     rr_cognitionByKey = [(''trust'', (Evaluation, ''evaluation:9''))]\<rparr>"

theorem prevalidated_intents_written_witness:
  "\<exists>t'. materializeRelationIntents
      (map intent_of (list_prop (prevalidateRelationIntents intents_outcome) ''relationIntents'')) sample_refs 5 [] =
      (Inr 1, t') \<and>
    set (relation_keys t') = {(''episode:4'', ''evaluation:9'', ''triggered'', ''turn'', ''s1'')}"
proof -
  let ?is = "list_prop intents_outcome ''relationIntents''"
  have ints: "prop_of intents_outcome ''relationIntents'' = Some (JArr ?is)" "\<exists>m. intents_outcome = JObj m"
    by (simp_all add: intents_outcome_def list_prop_def get_prop_def)
  have kinds: "local_ref_kinds intents_outcome = [(''door'', Episode_ref)]"
    "cognition_kinds intents_outcome = [(''trust'', Some (JStr ''evaluation''))]"
    by (simp_all add: intents_outcome_def local_ref_kinds_def local_refs_def list_prop_def get_prop_def
        map_filter_simps cognition_kinds_def outcome_ops_def commit_ops_def is_upsert_def op_record_def
        record_key_def text_prop_def)
  have "settles intents_outcome sample_refs"
    unfolding settles_def kinds sample_refs_def
    by (auto simp: kind_str_def stripRefPrefix_def split: if_splits)
  note * = prevalidated_intents_written [OF ints this, of "[]" 5]
  have vs: "validateRelationIntents (map intent_of (list_prop (prevalidateRelationIntents intents_outcome)
      ''relationIntents'')) sample_refs = Inr [(''triggered'', ''episode:4'', ''evaluation:9'')]"
    unfolding prevalidated_intents [OF ints]
    by (simp add: intent_kept_def kinds Let_def)
       (simp add: intents_outcome_def list_prop_def get_prop_def intent_of_def text_prop_def stripRefPrefix_def
        ALLOWED_INTENTS_def validateRelationIntents_def validate_intent_def resolveIntentRef_def resolve_candidate_def
        sample_refs_def)
  have "rr_settlementId sample_refs = ''s1''" by (simp add: sample_refs_def)
  with * show ?thesis unfolding Let_def vs by (auto simp: relations_ok_def)
qed

end
