(* ===== verification/Settlement_Commit.thy ===== *)
theory Settlement_Commit
  imports Relation_Intents Cognition_Slots World_State
begin

text \<open>
  The projections of a settlement (\<^verbatim>\<open>memory/projection/projection-manager.ts\<close>): episodes
  (\<^verbatim>\<open>storage/domain-repos/pg/episode-repo.ts\<close>), events and rows of private cognition with their
  search documents, the slot of recent cognition and the states of areas, written one after the
  other in the transaction of the caller.

  The repositories are those of PostgreSQL, which the caller hands in; \<open>clock\<close> is what
  \<open>Date.now()\<close> returns inside them. \<open>publish\<close> stands for the materialization of publications on
  a graph store; \<open>None\<close> is \<open>graphStorage = null\<close>, as \<^verbatim>\<open>bootstrap/runtime.ts\<close> builds the manager.

  Times are integers without a bound: the columns are BIGINT, and a whole number beyond 64 bits
  would be refused by the server. An operation of private cognition without a key is taken as one
  with the empty key; the type declares the key, and what normalisation lets through has one.
\<close>

section \<open>Episodes\<close>

record episode_params =
  ep_agentId :: string
  ep_sessionId :: string
  ep_settlementId :: string
  ep_category :: "string option"
  ep_summary :: "string option"
  ep_privateNotes :: "string option"
  ep_locationEntityId :: "int option"
  ep_locationText :: "string option"
  ep_validTime :: "js_num option"
  ep_committedTime :: int
  ep_sourceLocalRef :: "string option"

record episode_row =
  er_id :: int
  er_params :: episode_params
  er_created :: int

record episode_table =
  et_rows :: "episode_row list"
  et_next :: int

definition integral :: "js_num \<Rightarrow> bool" where
  "integral n = (case n of Fin q \<Rightarrow> q = of_int \<lfloor>q\<rfloor> | _ \<Rightarrow> False)"

text \<open>
  The check of the category, then the insert, which skips a local reference that the settlement
  already has and returns 0. A parameter that is undefined, or a time that is not an integer, is
  refused by the driver or the server.
\<close>

definition same_local_ref :: "episode_params \<Rightarrow> episode_row \<Rightarrow> bool" where
  "same_local_ref p r \<longleftrightarrow> ep_sourceLocalRef p \<noteq> None \<and>
     ep_settlementId (er_params r) = ep_settlementId p \<and> ep_sourceLocalRef (er_params r) = ep_sourceLocalRef p"

definition episode_append :: "episode_params \<Rightarrow> int \<Rightarrow> episode_table \<Rightarrow> (thrown, int) result \<times> episode_table" where
  "episode_append p clock t =
     (if ep_category p \<notin> Some ` set VALID_CATEGORIES \<or> ep_summary p = None \<or>
         (case ep_validTime p of Some n \<Rightarrow> \<not> integral n | None \<Rightarrow> False)
      then (Inl Plain_error, t)
      else if list_ex (same_local_ref p) (et_rows t) then (Inr 0, t\<lparr>et_next := et_next t + 1\<rparr>)
      else (Inr (et_next t),
        \<lparr>et_rows = et_rows t @ [\<lparr>er_id = et_next t, er_params = p, er_created = clock\<rparr>],
         et_next = et_next t + 1\<rparr>))"

definition readBySettlement :: "string \<Rightarrow> string \<Rightarrow> episode_table \<Rightarrow> episode_row list" where
  "readBySettlement settlementId agentId t =
     sort_by (\<lambda>a b. er_id a < er_id b)
       (filter (\<lambda>r. ep_settlementId (er_params r) = settlementId \<and> ep_agentId (er_params r) = agentId) (et_rows t))"

definition episode_readById :: "int \<Rightarrow> episode_table \<Rightarrow> episode_row option" where
  "episode_readById i t = find (\<lambda>r. er_id r = i) (et_rows t)"

definition episode_readByAgent :: "string \<Rightarrow> nat option \<Rightarrow> episode_table \<Rightarrow> episode_row list" where
  "episode_readByAgent agentId limit t =
     take (case limit of Some n \<Rightarrow> n | None \<Rightarrow> 100)
       (sort_by (\<lambda>a b. (er_created b, er_id b) < (er_created a, er_id a))
         (filter (\<lambda>r. ep_agentId (er_params r) = agentId) (et_rows t)))"

definition makeNodeRef :: "node_kind \<Rightarrow> int \<Rightarrow> (thrown, node_ref) result" where
  "makeNodeRef kind i = (if i \<le> 0 then Inl Plain_error else Inr (node kind i))"

section \<open>The state and the parameters of a commit\<close>

record settlement_db =
  sdb_episodes :: episode_table
  sdb_cog :: cog_state
  sdb_slots :: slot_table
  sdb_world :: world_db
  sdb_relations :: relation_table

record area_artifact =
  aa_key :: string
  aa_value :: "json option"
  aa_class :: "string option"
  aa_source :: "string option"
  aa_areaId :: "int option"
  aa_validTime :: "int option"
  aa_committedTime :: "int option"

record settlement_params =
  sp_settlementId :: string
  sp_sessionId :: string
  sp_agentId :: string
  sp_cognitionOps :: "json list"
  sp_privateEpisodes :: "json list"
  sp_publications :: "json list"
  sp_locationEntityId :: "int option"
  sp_recentCognitionSlot :: "json option"
  sp_areaStateArtifacts :: "area_artifact list"
  sp_committedAt :: "int option"

type_synonym commit_state = "node_ref list \<times> settlement_db"

type_synonym slot_writer = "string \<Rightarrow> string \<Rightarrow> string \<Rightarrow> json option \<Rightarrow> slot_table \<Rightarrow> (thrown, upsert_result) result \<times> slot_table"

type_synonym publisher = "settlement_params \<Rightarrow> int \<Rightarrow> settlement_db \<Rightarrow> (thrown, unit) result \<times> settlement_db"

section \<open>The steps\<close>

definition episode_of :: "settlement_params \<Rightarrow> int \<Rightarrow> json \<Rightarrow> episode_params" where
  "episode_of p now e =
     \<lparr>ep_agentId = sp_agentId p, ep_sessionId = sp_sessionId p, ep_settlementId = sp_settlementId p,
      ep_category = string_of (prop_of e ''category''), ep_summary = string_of (prop_of e ''summary''),
      ep_privateNotes = string_of (prop_of e ''privateNotes''), ep_locationEntityId = sp_locationEntityId p,
      ep_locationText = string_of (prop_of e ''locationText''),
      ep_validTime = (case prop_of e ''validTime'' of Some (JNum n) \<Rightarrow> Some n | _ \<Rightarrow> None),
      ep_committedTime = now, ep_sourceLocalRef = string_of (prop_of e ''localRef'')\<rparr>"

definition append_episode :: "settlement_params \<Rightarrow> int \<Rightarrow> int \<Rightarrow> json \<Rightarrow> commit_state \<Rightarrow>
    (thrown, unit) result \<times> commit_state" where
  "append_episode p now clock e s =
     (case episode_append (episode_of p now e) clock (sdb_episodes (snd s)) of
        (Inl err, t) \<Rightarrow> (Inl err, s)
      | (Inr i, t) \<Rightarrow>
          (case makeNodeRef Episode_kind i of
             Inl err \<Rightarrow> (Inl err, fst s, (snd s)\<lparr>sdb_episodes := t\<rparr>)
           | Inr ref \<Rightarrow> (Inr (), fst s @ [ref], (snd s)\<lparr>sdb_episodes := t\<rparr>)))"

definition kind_of :: "json option \<Rightarrow> cognition_kind option" where
  "kind_of v = (case string_of v of None \<Rightarrow> None | Some s \<Rightarrow> find (\<lambda>k. kind_str k = s) [Assertion, Evaluation, Commitment])"

definition op_subject :: "json \<Rightarrow> json" where
  "op_subject op = (if is_upsert op then op_record op
     else (case prop_of op ''target'' of Some t \<Rightarrow> t | None \<Rightarrow> JNull))"

definition op_kind :: "json \<Rightarrow> cognition_kind option" where
  "op_kind op = kind_of (prop_of (op_subject op) ''kind'')"

definition value_texts :: "(js_num \<Rightarrow> string) \<Rightarrow> json list \<Rightarrow> string list" where
  "value_texts num refs = map (\<lambda>r. case prop_of r ''value'' of None \<Rightarrow> [] | Some JNull \<Rightarrow> [] | Some v \<Rightarrow> js_String num v) refs"

text \<open>\<open>`${v}`\<close> and \<open>JSON.stringify(v)\<close> of a property that may be missing.\<close>

definition template :: "(js_num \<Rightarrow> string) \<Rightarrow> json option \<Rightarrow> string" where
  "template num v = (case v of None \<Rightarrow> ''undefined'' | Some x \<Rightarrow> js_String num x)"

definition summarizeCognitionOpContent :: "(js_num \<Rightarrow> string) \<Rightarrow> json \<Rightarrow> string" where
  "summarizeCognitionOpContent num op =
     (if \<not> is_upsert op then ''(retracted)''
      else (let r = op_record op; head = ''['' @ record_key r @ ''] '' in
        case kind_of (prop_of r ''kind'') of
          Some Assertion \<Rightarrow>
            (let entities = join_with '', '' (value_texts num (list_prop r ''entityRefs''))
             in head @ ''['' @ template num (prop_of (the_prop r ''holderId'') ''value'') @ ''] '' @
                template num (prop_of r ''claim'') @ (if entities = [] then [] else '' | entities: '' @ entities))
        | Some Evaluation \<Rightarrow> head @ ''evaluation: '' @ text_or num r ''notes'' []
        | _ \<Rightarrow> head @ template num (prop_of r ''mode'') @ '': '' @
            (case prop_of r ''target'' of None \<Rightarrow> ''undefined'' | Some v \<Rightarrow> json_text num v)))"

definition cognition_doc :: "(js_num \<Rightarrow> string) \<Rightarrow> string \<Rightarrow> json \<Rightarrow> cognition_kind \<Rightarrow> int \<Rightarrow> int \<Rightarrow> current_row option \<Rightarrow>
    search_table \<Rightarrow> search_table" where
  "cognition_doc num agentId op kind now eventId current =
     (let own = (\<lambda>k. if is_upsert op \<and> kind = Assertion then string_of (prop_of (op_record op) k) else None);
          stance = coalesce (own ''stance'')
            (if \<not> is_upsert op \<and> kind = Assertion then Some ''rejected'' else None);
          i = (case current of Some r \<Rightarrow> cc_id r | None \<Rightarrow> eventId)
      in upsertCognitionDoc (source_ref kind i) agentId
           (case current of Some r \<Rightarrow> cc_kind r | None \<Rightarrow> kind)
           (coalesce (Option.bind current cc_basis) (own ''basis''))
           (coalesce (Option.bind current cc_stance) stance)
           (case Option.bind current cc_summary of Some s \<Rightarrow> s | None \<Rightarrow> summarizeCognitionOpContent num op)
           now now)"

definition op_event :: "settlement_params \<Rightarrow> json \<Rightarrow> cognition_kind \<Rightarrow> int \<Rightarrow> append_params" where
  "op_event p op kind now =
     \<lparr>ap_agentId = sp_agentId p, ap_cognitionKey = record_key (op_subject op), ap_kind = kind,
      ap_op = (if is_upsert op then Op_upsert else Op_retract),
      ap_recordJson = (if is_upsert op then Some (to_json (op_record op)) else None),
      ap_settlementId = sp_settlementId p, ap_committedTime = now\<rparr>"

text \<open>
  One operation: the event is appended, unless the settlement already has one of the key; then
  the row of the key and its search document follow, and the reference of the row is noted.
\<close>

definition commit_op :: "(js_num \<Rightarrow> string) \<Rightarrow> settlement_params \<Rightarrow> int \<Rightarrow> int \<Rightarrow> json \<Rightarrow> commit_state \<Rightarrow>
    (thrown, unit) result \<times> commit_state" where
  "commit_op num p now clock op s =
     (case op_kind op of
        None \<Rightarrow> (Inl Plain_error, s)
      | Some kind \<Rightarrow>
          (let db = snd s; cog = sdb_cog db; params = op_event p op kind now;
               (eventId, led) = append_event params clock (cg_ledger cog)
           in case eventId of
                None \<Rightarrow> (Inr (), fst s, db\<lparr>sdb_cog := cog\<lparr>cg_ledger := led\<rparr>\<rparr>)
              | Some i \<Rightarrow>
                  (let cur = upsertFromEvent num (event_of params i) (cg_current cog);
                       row = getCurrent (sp_agentId p) (record_key (op_subject op)) cur;
                       search = cognition_doc num (sp_agentId p) op kind now i row (cg_search cog);
                       db' = db\<lparr>sdb_cog := \<lparr>cg_ledger = led, cg_current = cur, cg_search = search\<rparr>\<rparr>
                   in (Inr (), fst s @ (case row of Some r \<Rightarrow> [cognition_ref r] | None \<Rightarrow> []), db'))))"

definition write_slot :: "slot_writer option \<Rightarrow> settlement_params \<Rightarrow> commit_state \<Rightarrow> (thrown, unit) result \<times> commit_state" where
  "write_slot slotRepo p s =
     (case slotRepo of
        None \<Rightarrow> (Inl Plain_error, s)
      | Some upsert \<Rightarrow>
          (case upsert (sp_sessionId p) (sp_agentId p) (sp_settlementId p) (sp_recentCognitionSlot p) (sdb_slots (snd s)) of
             (Inl e, t) \<Rightarrow> (Inl e, s)
           | (Inr _, t) \<Rightarrow> (Inr (), fst s, (snd s)\<lparr>sdb_slots := t\<rparr>)))"

definition upsert_area_artifact :: "settlement_params \<Rightarrow> int \<Rightarrow> area_artifact \<Rightarrow> commit_state \<Rightarrow>
    (thrown, unit) result \<times> commit_state" where
  "upsert_area_artifact p now a s =
     (case (case aa_areaId a of Some i \<Rightarrow> Some i | None \<Rightarrow> sp_locationEntityId p) of
        None \<Rightarrow> (Inr (), s)
      | Some areaId \<Rightarrow>
          (case upsertAreaStateCurrent (sp_agentId p, areaId, aa_key a)
                  \<lparr>up_value = map_option JVal (aa_value a),
                   up_class = (case aa_class a of Some c \<Rightarrow> c | None \<Rightarrow> ''latent_state_update''),
                   up_source = Some (case aa_source a of Some c \<Rightarrow> c | None \<Rightarrow> ''system''),
                   up_updatedAt = Some now, up_validTime = aa_validTime a,
                   up_committedTime = Some (case aa_committedTime a of Some t \<Rightarrow> t | None \<Rightarrow> now),
                   up_settlementId = Some (sp_settlementId p)\<rparr> now (sdb_world (snd s)) of
             (Inl e, w) \<Rightarrow> (Inl e, s)
           | (Inr _, w) \<Rightarrow> (Inr (), fst s, (snd s)\<lparr>sdb_world := w\<rparr>)))"

definition materializePublicationsSafe :: "publisher option \<Rightarrow> settlement_params \<Rightarrow> int \<Rightarrow> commit_state \<Rightarrow>
    (thrown, unit) result \<times> commit_state" where
  "materializePublicationsSafe publish p now s =
     (case publish of
        None \<Rightarrow> (Inr (), s)
      | Some f \<Rightarrow>
          if sp_publications p = [] then (Inr (), s)
          else (case f p now (snd s) of (r, db) \<Rightarrow> (r, fst s, db)))"

definition commit_steps :: "(js_num \<Rightarrow> string) \<Rightarrow> publisher option \<Rightarrow> slot_writer option \<Rightarrow> settlement_params \<Rightarrow> int \<Rightarrow>
    (commit_state \<Rightarrow> (thrown, unit) result \<times> commit_state) list" where
  "commit_steps num publish slotRepo p clock =
     (let now = (case sp_committedAt p of Some t \<Rightarrow> t | None \<Rightarrow> clock)
      in map (append_episode p now clock) (sp_privateEpisodes p) @
         map (commit_op num p now clock) (sp_cognitionOps p) @
         [write_slot slotRepo p] @
         map (upsert_area_artifact p now) (sp_areaStateArtifacts p) @
         [materializePublicationsSafe publish p now])"

definition commitSettlement :: "(js_num \<Rightarrow> string) \<Rightarrow> publisher option \<Rightarrow> slot_writer option \<Rightarrow> settlement_params \<Rightarrow> int \<Rightarrow>
    settlement_db \<Rightarrow> (thrown, node_ref list) result \<times> settlement_db" where
  "commitSettlement num publish slotRepo p clock db =
     (case run_series (commit_steps num publish slotRepo p clock) ([], db) of
        (Inl e, s) \<Rightarrow> (Inl e, snd s)
      | (Inr _, s) \<Rightarrow> (Inr (fst s), snd s))"

text \<open>\<open>sql.begin\<close>: a transaction that fails leaves the database as it was, its sequences aside.\<close>

definition transaction :: "('db \<Rightarrow> (thrown, 'a) result \<times> 'db) \<Rightarrow> 'db \<Rightarrow> (thrown, 'a) result \<times> 'db" where
  "transaction f db = (case f db of (Inl e, _) \<Rightarrow> (Inl e, db) | (Inr x, db') \<Rightarrow> (Inr x, db'))"

section \<open>Episodes of a settlement\<close>

definition episode_ok :: "episode_params \<Rightarrow> bool" where
  "episode_ok p \<longleftrightarrow> ep_category p \<in> Some ` set VALID_CATEGORIES \<and> ep_summary p \<noteq> None \<and>
     (case ep_validTime p of Some n \<Rightarrow> integral n | None \<Rightarrow> True)"

definition ref_taken :: "episode_params \<Rightarrow> episode_params list \<Rightarrow> bool" where
  "ref_taken p ps = list_ex (\<lambda>q. ep_sourceLocalRef p \<noteq> None \<and> ep_settlementId q = ep_settlementId p \<and>
     ep_sourceLocalRef q = ep_sourceLocalRef p) ps"

text \<open>Episodes that can be added: well formed, with local references new to their settlement.\<close>

fun fresh_episodes :: "episode_params list \<Rightarrow> episode_params list \<Rightarrow> bool" where
  "fresh_episodes old [] = True"
| "fresh_episodes old (p # ps) \<longleftrightarrow> episode_ok p \<and> \<not> ref_taken p old \<and> fresh_episodes (old @ [p]) ps"

fun episode_rows :: "int \<Rightarrow> int \<Rightarrow> episode_params list \<Rightarrow> episode_row list" where
  "episode_rows clock i [] = []"
| "episode_rows clock i (p # ps) = \<lparr>er_id = i, er_params = p, er_created = clock\<rparr> # episode_rows clock (i + 1) ps"

lemma er_params_episode_rows [simp]: "map er_params (episode_rows clock i ps) = ps"
  by (induction ps arbitrary: i) simp_all

abbreviation table_params :: "episode_table \<Rightarrow> episode_params list" where
  "table_params t \<equiv> map er_params (et_rows t)"

lemma episode_append_result:
  assumes "0 < et_next t"
  shows "episode_append p clock t =
    (if \<not> episode_ok p then (Inl Plain_error, t)
     else if ref_taken p (table_params t) then (Inr 0, t\<lparr>et_next := et_next t + 1\<rparr>)
     else (Inr (et_next t), \<lparr>et_rows = et_rows t @ [\<lparr>er_id = et_next t, er_params = p, er_created = clock\<rparr>],
       et_next = et_next t + 1\<rparr>))"
proof -
  have "list_ex (same_local_ref p) (et_rows t) = ref_taken p (table_params t)"
    by (simp add: list_ex_iff same_local_ref_def ref_taken_def)
  then show ?thesis by (auto simp: episode_append_def episode_ok_def split: option.splits)
qed

lemma append_fresh_episodes:
  assumes "0 < et_next (sdb_episodes db)" "fresh_episodes (table_params (sdb_episodes db)) (map (episode_of p now) es)"
  shows "run_series (map (append_episode p now clock) es) (refs, db) =
      (Inr (), refs @ map (\<lambda>r. node Episode_kind (er_id r)) (episode_rows clock (et_next (sdb_episodes db)) (map (episode_of p now) es)),
        db\<lparr>sdb_episodes := \<lparr>et_rows = et_rows (sdb_episodes db) @ episode_rows clock (et_next (sdb_episodes db)) (map (episode_of p now) es),
          et_next = et_next (sdb_episodes db) + int (length es)\<rparr>\<rparr>)"
  using assms
proof (induction es arbitrary: refs db)
  case (Cons e es)
  let ?t = "sdb_episodes db"
  let ?t' = "\<lparr>et_rows = et_rows ?t @ [\<lparr>er_id = et_next ?t, er_params = episode_of p now e, er_created = clock\<rparr>],
    et_next = et_next ?t + 1\<rparr>"
  have "append_episode p now clock e (refs, db) =
      (Inr (), refs @ [node Episode_kind (et_next ?t)], db\<lparr>sdb_episodes := ?t'\<rparr>)"
    using Cons.prems by (simp add: append_episode_def episode_append_result makeNodeRef_def)
  with Cons.IH [of "db\<lparr>sdb_episodes := ?t'\<rparr>" "refs @ [node Episode_kind (et_next ?t)]"] Cons.prems
  show ?case by simp
qed simp

lemma append_stale_episodes:
  assumes "0 < et_next (sdb_episodes db)" "\<not> fresh_episodes (table_params (sdb_episodes db)) (map (episode_of p now) es)"
  shows "\<exists>e s. run_series (map (append_episode p now clock) es) (refs, db) = (Inl e, s)"
  using assms
proof (induction es arbitrary: refs db)
  case (Cons e es)
  let ?t = "sdb_episodes db"
  let ?q = "episode_of p now e"
  let ?t' = "\<lparr>et_rows = et_rows ?t @ [\<lparr>er_id = et_next ?t, er_params = ?q, er_created = clock\<rparr>],
    et_next = et_next ?t + 1\<rparr>"
  show ?case
  proof (cases "episode_ok ?q \<and> \<not> ref_taken ?q (table_params ?t)")
    case True
    then have "append_episode p now clock e (refs, db) =
        (Inr (), refs @ [node Episode_kind (et_next ?t)], db\<lparr>sdb_episodes := ?t'\<rparr>)"
      using Cons.prems(1) by (simp add: append_episode_def episode_append_result makeNodeRef_def)
    moreover from True Cons.prems(2) have "\<not> fresh_episodes (table_params ?t') (map (episode_of p now) es)" by simp
    ultimately show ?thesis
      using Cons.IH [of "db\<lparr>sdb_episodes := ?t'\<rparr>" "refs @ [node Episode_kind (et_next ?t)]"] Cons.prems(1) by simp
  next
    case False
    then have "\<exists>s. append_episode p now clock e (refs, db) = (Inl Plain_error, s)"
      using Cons.prems(1) by (auto simp: append_episode_def episode_append_result makeNodeRef_def)
    then show ?thesis by fastforce
  qed
qed simp

section \<open>Cognition of a settlement\<close>

text \<open>What committing operations keeps and adds, apart from the references noted.\<close>

definition op_done :: "settlement_params \<Rightarrow> int \<Rightarrow> ledger_table \<Rightarrow> json \<Rightarrow> bool" where
  "op_done p now l op \<longleftrightarrow> (\<exists>kind. op_kind op = Some kind \<and> recorded (op_event p op kind now) l)"

definition cog_grows :: "cog_state \<Rightarrow> cog_state \<Rightarrow> bool" where
  "cog_grows c c' \<longleftrightarrow> prefix (lt_events (cg_ledger c)) (lt_events (cg_ledger c'))"

lemma cog_grows_refl [simp]: "cog_grows c c" by (simp add: cog_grows_def)

lemma recorded_grows: "recorded q (cg_ledger c) \<Longrightarrow> cog_grows c c' \<Longrightarrow> recorded q (cg_ledger c')"
  by (auto simp: recorded_def cog_grows_def prefix_def)

lemma append_event_recorded:
  "append_event q clock l = (i, l') \<Longrightarrow> recorded q l' \<and> prefix (lt_events l) (lt_events l')"
  by (auto simp: append_event_def recorded_def split: if_splits)

lemma commit_op_ok:
  assumes "op_kind op = Some kind"
  obtains refs cog where "commit_op num p now clock op s = (Inr (), fst s @ refs, (snd s)\<lparr>sdb_cog := cog\<rparr>)"
    "cog_grows (sdb_cog (snd s)) cog" "op_done p now (cg_ledger cog) op"
proof -
  obtain i led where a: "append_event (op_event p op kind now) clock (cg_ledger (sdb_cog (snd s))) = (i, led)"
    by fastforce
  note led = append_event_recorded [OF a]
  show thesis
  proof (cases i)
    case None
    then have "commit_op num p now clock op s =
        (Inr (), fst s @ [], (snd s)\<lparr>sdb_cog := (sdb_cog (snd s))\<lparr>cg_ledger := led\<rparr>\<rparr>)"
      using a assms by (simp add: commit_op_def Let_def)
    from that [OF this] led assms show thesis by (simp add: cog_grows_def op_done_def)
  next
    case (Some n)
    let ?cur = "upsertFromEvent num (event_of (op_event p op kind now) n) (cg_current (sdb_cog (snd s)))"
    let ?row = "getCurrent (sp_agentId p) (record_key (op_subject op)) ?cur"
    let ?cog = "\<lparr>cg_ledger = led, cg_current = ?cur,
      cg_search = cognition_doc num (sp_agentId p) op kind now n ?row (cg_search (sdb_cog (snd s)))\<rparr>"
    from Some have "commit_op num p now clock op s =
        (Inr (), fst s @ (case ?row of Some r \<Rightarrow> [cognition_ref r] | None \<Rightarrow> []), (snd s)\<lparr>sdb_cog := ?cog\<rparr>)"
      using a assms by (simp add: commit_op_def Let_def)
    from that [OF this] led assms show thesis by (simp add: cog_grows_def op_done_def)
  qed
qed

lemma step_created: "step num (e\<lparr>ev_created := c\<rparr>) ro = step num e ro"
proof -
  have row: "event_row num (e\<lparr>ev_created := c\<rparr>) = event_row num e"
    by (simp add: event_row_def assertion_row_def evaluation_row_def commitment_row_def plain_row_def Let_def
        split: cognition_kind.split)
  then have "event_merge num (e\<lparr>ev_created := c\<rparr>) = event_merge num e" by (simp add: event_merge_def)
  moreover have "retract_row (e\<lparr>ev_created := c\<rparr>) = retract_row e" by (rule ext) (simp add: retract_row_def)
  ultimately show ?thesis using row by (cases ro) (simp_all add: step_def)
qed

lemma projected_append:
  assumes "rows_ok c" "projected num l c" "lt_events l' = lt_events l @ [e\<lparr>ev_created := x\<rparr>]"
  shows "projected num l' (upsertFromEvent num e c)"
proof -
  have "of_key a k (e\<lparr>ev_created := x\<rparr>) \<longleftrightarrow> ev_agent e = a \<and> ev_key e = k" for a k
    by (simp add: of_key_def)
  with assms(2) show ?thesis
    unfolding projected_def assms(3) by (simp add: kview_upsertFromEvent [OF assms(1)] step_created)
qed

lemma ledger_append_new:
  assumes "append_event q clock l = (Some n, l')"
  shows "lt_events l' = lt_events l @ [(event_of q n)\<lparr>ev_created := clock\<rparr>]" "n = lt_next l" "lt_next l' = lt_next l + 1"
  using assms by (auto simp: append_event_def split: if_splits)

lemma ledger_append_old:
  assumes "append_event q clock l = (None, l')"
  shows "lt_events l' = lt_events l" "lt_next l' = lt_next l + 1"
  using assms by (auto simp: append_event_def split: if_splits)

lemma inv_commit_op:
  assumes "cog_inv env now (sdb_cog (snd s))"
  shows "cog_inv env now (sdb_cog (snd (snd (commit_op (ns env) p now clock op s))))"
proof (cases "op_kind op")
  case None
  with assms show ?thesis by (simp add: commit_op_def)
next
  case (Some kind)
  let ?q = "op_event p op kind now"
  let ?cog = "sdb_cog (snd s)"
  have at: "ap_committedTime ?q = now" by (simp add: op_event_def)
  obtain i led where a: "append_event ?q clock (cg_ledger ?cog) = (i, led)" by fastforce
  from assms have old: "rows_ok (cg_current ?cog)" "ledger_ok now (cg_ledger ?cog)" "projected (ns env) (cg_ledger ?cog) (cg_current ?cog)"
    unfolding cog_inv_def by blast+
  show ?thesis
  proof (cases i)
    case None
    with ledger_append_old [of ?q clock "cg_ledger ?cog" led] a
    have led: "lt_events led = lt_events (cg_ledger ?cog)" "lt_next led = lt_next (cg_ledger ?cog) + 1" by simp_all
    have "commit_op (ns env) p now clock op s = (Inr (), fst s, (snd s)\<lparr>sdb_cog := ?cog\<lparr>cg_ledger := led\<rparr>\<rparr>)"
      using a Some None by (simp add: commit_op_def Let_def)
    moreover from old(2) have "ledger_ok now led" unfolding ledger_ok_def led by fastforce
    moreover from old(3) have "projected (ns env) led (cg_current ?cog)" unfolding projected_def led .
    ultimately show ?thesis using old(1) by (simp add: cog_inv_def)
  next
    case n: (Some n)
    from a n have "append_event ?q clock (cg_ledger ?cog) = (Some n, led)" by simp
    note led = ledger_append_new [OF this]
    let ?e = "event_of ?q n"
    let ?cur = "upsertFromEvent (ns env) ?e (cg_current ?cog)"
    have "commit_op (ns env) p now clock op s = (Inr (), fst s @ (case getCurrent (sp_agentId p) (record_key (op_subject op)) ?cur of
        Some r \<Rightarrow> [cognition_ref r] | None \<Rightarrow> []), (snd s)\<lparr>sdb_cog := \<lparr>cg_ledger = led, cg_current = ?cur,
        cg_search = cognition_doc (ns env) (sp_agentId p) op kind now n
          (getCurrent (sp_agentId p) (record_key (op_subject op)) ?cur) (cg_search ?cog)\<rparr>\<rparr>)"
      using a Some n by (simp add: commit_op_def Let_def)
    moreover have "ledger_ok now led"
      using old(2) unfolding ledger_ok_def led by (fastforce simp: sorted_wrt_append at)
    moreover have "projected (ns env) led ?cur"
      by (rule projected_append [OF old(1,3) led(1)])
    ultimately show ?thesis by (simp add: cog_inv_def rows_ok_upsertFromEvent old(1))
  qed
qed

lemma commit_ops_ok:
  assumes "list_all (\<lambda>op. op_kind op \<noteq> None) ops"
  shows "\<exists>refs cog. run_series (map (commit_op num p now clock) ops) s = (Inr (), fst s @ refs, (snd s)\<lparr>sdb_cog := cog\<rparr>) \<and>
    cog_grows (sdb_cog (snd s)) cog \<and> list_all (op_done p now (cg_ledger cog)) ops"
  using assms
proof (induction ops arbitrary: s)
  case Nil
  show ?case by (intro exI [of _ "[]"] exI [of _ "sdb_cog (snd s)"]) simp
next
  case (Cons op ops)
  then obtain kind where "op_kind op = Some kind" by auto
  then obtain refs cog where op: "commit_op num p now clock op s = (Inr (), fst s @ refs, (snd s)\<lparr>sdb_cog := cog\<rparr>)"
    "cog_grows (sdb_cog (snd s)) cog" "op_done p now (cg_ledger cog) op"
    by (rule commit_op_ok)
  from Cons.IH [of "(fst s @ refs, (snd s)\<lparr>sdb_cog := cog\<rparr>)"] Cons.prems obtain refs' cog'
    where rest: "run_series (map (commit_op num p now clock) ops) (fst s @ refs, (snd s)\<lparr>sdb_cog := cog\<rparr>) =
        (Inr (), (fst s @ refs) @ refs', (snd s)\<lparr>sdb_cog := cog'\<rparr>)"
      "cog_grows cog cog'" "list_all (op_done p now (cg_ledger cog')) ops" by auto
  have "cog_grows (sdb_cog (snd s)) cog'" using op(2) rest(2) unfolding cog_grows_def by (rule prefix_order.trans)
  moreover have "op_done p now (cg_ledger cog') op" using op(3) rest(2) recorded_grows unfolding op_done_def by blast
  ultimately show ?case using op(1) rest(1,3) by (intro exI [of _ "refs @ refs'"] exI [of _ cog']) simp
qed

lemma commit_ops_bad:
  assumes "\<not> list_all (\<lambda>op. op_kind op \<noteq> None) ops"
  shows "\<exists>e s'. run_series (map (commit_op num p now clock) ops) s = (Inl e, s')"
  using assms
proof (induction ops arbitrary: s)
  case (Cons op ops)
  show ?case
  proof (cases "op_kind op")
    case None
    then show ?thesis by (simp add: commit_op_def)
  next
    case (Some kind)
    then obtain refs cog where "commit_op num p now clock op s = (Inr (), fst s @ refs, (snd s)\<lparr>sdb_cog := cog\<rparr>)"
      by (rule commit_op_ok)
    with Cons.IH [of "(fst s @ refs, (snd s)\<lparr>sdb_cog := cog\<rparr>)"] Cons.prems Some show ?thesis by auto
  qed
qed simp

section \<open>What a commit does\<close>

text \<open>
  Without a graph store a commit is: the episodes, the operations, the slot, the areas. The last
  fails only on a class or a source that is not one of the allowed names.
\<close>

definition area_ok :: "settlement_params \<Rightarrow> area_artifact \<Rightarrow> bool" where
  "area_ok p a \<longleftrightarrow> (aa_areaId a = None \<and> sp_locationEntityId p = None) \<or>
     (case aa_class a of Some c \<Rightarrow> assertSurfacingClassification c | None \<Rightarrow> True) \<and>
     (case aa_source a of Some c \<Rightarrow> assertAreaStateSourceType c | None \<Rightarrow> True)"

lemma upsertAreaStateCurrent_result:
  "\<exists>w'. upsertAreaStateCurrent k inp now w =
    (if assertSurfacingClassification (up_class inp) \<and> assertAreaStateSourceType (given (up_source inp) ''system'')
     then (Inr (), w') else (Inl Plain_error, w))"
  by (simp add: upsertAreaStateCurrent_def state_event_def Let_def)

lemma area_defaults:
  "assertSurfacingClassification (given c ''latent_state_update'') \<longleftrightarrow> (case c of Some c \<Rightarrow> assertSurfacingClassification c | None \<Rightarrow> True)"
  "assertAreaStateSourceType (given c ''system'') \<longleftrightarrow> (case c of Some c \<Rightarrow> assertAreaStateSourceType c | None \<Rightarrow> True)"
  by (simp_all add: assertSurfacingClassification_def SURFACING_CLASSIFICATIONS_def assertAreaStateSourceType_def
      AREA_STATE_SOURCE_TYPES_def split: option.split)

lemma upsert_area_artifact_result:
  "\<exists>w e s'. upsert_area_artifact p now a s = (if area_ok p a then (Inr (), fst s, (snd s)\<lparr>sdb_world := w\<rparr>) else (Inl e, s'))"
proof (cases "case aa_areaId a of Some i \<Rightarrow> Some i | None \<Rightarrow> sp_locationEntityId p")
  case None
  then have "aa_areaId a = None \<and> sp_locationEntityId p = None" by (simp split: option.splits)
  then have "area_ok p a" "upsert_area_artifact p now a s = (Inr (), fst s, (snd s)\<lparr>sdb_world := sdb_world (snd s)\<rparr>)"
    by (simp_all add: area_ok_def upsert_area_artifact_def)
  then show ?thesis by (simp only: if_True) blast
next
  case (Some areaId)
  then have area: "\<not> (aa_areaId a = None \<and> sp_locationEntityId p = None)" by (auto split: option.splits)
  let ?inp = "\<lparr>up_value = map_option JVal (aa_value a), up_class = given (aa_class a) ''latent_state_update'',
    up_source = Some (given (aa_source a) ''system''), up_updatedAt = Some now, up_validTime = aa_validTime a,
    up_committedTime = Some (given (aa_committedTime a) now), up_settlementId = Some (sp_settlementId p)\<rparr>"
  have ok: "area_ok p a \<longleftrightarrow> assertSurfacingClassification (up_class ?inp) \<and>
      assertAreaStateSourceType (given (up_source ?inp) ''system'')"
    using area unfolding area_ok_def by (simp only: area_defaults upsert_input.select_convs option.case simp_thms)
  obtain w where "upsertAreaStateCurrent (sp_agentId p, areaId, aa_key a) ?inp now (sdb_world (snd s)) =
      (if area_ok p a then (Inr (), w) else (Inl Plain_error, sdb_world (snd s)))"
    using upsertAreaStateCurrent_result unfolding ok by blast
  then have "upsert_area_artifact p now a s =
      (if area_ok p a then (Inr (), fst s, (snd s)\<lparr>sdb_world := w\<rparr>) else (Inl Plain_error, s))"
    by (simp add: upsert_area_artifact_def Some)
  then show ?thesis by blast
qed

lemma upsert_area_artifact_ok: "area_ok p a \<Longrightarrow> \<exists>w. upsert_area_artifact p now a s = (Inr (), fst s, (snd s)\<lparr>sdb_world := w\<rparr>)"
  and upsert_area_artifact_bad: "\<not> area_ok p a \<Longrightarrow> \<exists>e s'. upsert_area_artifact p now a s = (Inl e, s')"
  using upsert_area_artifact_result [of p now a s] by (auto simp only: if_True if_False)

lemma upsert_area_artifacts:
  "list_all (area_ok p) as \<Longrightarrow> \<exists>w. run_series (map (upsert_area_artifact p now) as) s = (Inr (), fst s, (snd s)\<lparr>sdb_world := w\<rparr>)"
  "\<not> list_all (area_ok p) as \<Longrightarrow> \<exists>e s'. run_series (map (upsert_area_artifact p now) as) s = (Inl e, s')"
proof (induction as arbitrary: s)
  case Nil
  {
    case 1
    show ?case by (intro exI [of _ "sdb_world (snd s)"]) simp
  next
    case 2
    then show ?case by simp
  }
next
  case (Cons a as)
  {
    case 1
    then obtain w where "upsert_area_artifact p now a s = (Inr (), fst s, (snd s)\<lparr>sdb_world := w\<rparr>)"
      using upsert_area_artifact_ok by fastforce
    with Cons.IH(1) [of "(fst s, (snd s)\<lparr>sdb_world := w\<rparr>)"] 1 show ?case by auto
  next
    case 2
    show ?case
    proof (cases "area_ok p a")
      case True
      then obtain w where "upsert_area_artifact p now a s = (Inr (), fst s, (snd s)\<lparr>sdb_world := w\<rparr>)"
        using upsert_area_artifact_ok by fastforce
      with Cons.IH(2) [of "(fst s, (snd s)\<lparr>sdb_world := w\<rparr>)"] 2 True show ?thesis by auto
    next
      case False
      then obtain e s' where "upsert_area_artifact p now a s = (Inl e, s')"
        using upsert_area_artifact_bad by blast
      then show ?thesis by simp
    qed
  }
qed

definition commit_accepted :: "settlement_params \<Rightarrow> int \<Rightarrow> settlement_db \<Rightarrow> bool" where
  "commit_accepted p now db \<longleftrightarrow>
     fresh_episodes (table_params (sdb_episodes db)) (map (episode_of p now) (sp_privateEpisodes p)) \<and>
     list_all (\<lambda>op. op_kind op \<noteq> None) (sp_cognitionOps p) \<and> list_all (area_ok p) (sp_areaStateArtifacts p)"

definition committed :: "settlement_params \<Rightarrow> int \<Rightarrow> int \<Rightarrow> slot_table \<Rightarrow> settlement_db \<Rightarrow> settlement_db \<Rightarrow> bool" where
  "committed p now clock slots' db db' \<longleftrightarrow>
     et_rows (sdb_episodes db') = et_rows (sdb_episodes db) @
       episode_rows clock (et_next (sdb_episodes db)) (map (episode_of p now) (sp_privateEpisodes p)) \<and>
     et_next (sdb_episodes db') = et_next (sdb_episodes db) + int (length (sp_privateEpisodes p)) \<and>
     cog_grows (sdb_cog db) (sdb_cog db') \<and>
     list_all (op_done p now (cg_ledger (sdb_cog db'))) (sp_cognitionOps p) \<and>
     sdb_slots db' = slots' \<and> sdb_relations db' = sdb_relations db"

lemma commit_runs:
  assumes "0 < et_next (sdb_episodes db)" "sp_committedAt p = Some now"
    and "slotRepo (sp_sessionId p) (sp_agentId p) (sp_settlementId p) (sp_recentCognitionSlot p) (sdb_slots db) = (Inr u, slots')"
  shows "if commit_accepted p now db
    then \<exists>refs db'. commitSettlement num None (Some slotRepo) p clock db = (Inr refs, db') \<and>
      committed p now clock slots' db db' \<and>
      prefix (map (\<lambda>r. node Episode_kind (er_id r)) (episode_rows clock (et_next (sdb_episodes db))
        (map (episode_of p now) (sp_privateEpisodes p)))) refs
    else isl (fst (commitSettlement num None (Some slotRepo) p clock db))"
proof -
  let ?es = "sp_privateEpisodes p"
  let ?rows = "episode_rows clock (et_next (sdb_episodes db)) (map (episode_of p now) ?es)"
  let ?erefs = "map (\<lambda>r. node Episode_kind (er_id r)) ?rows"
  let ?db1 = "db\<lparr>sdb_episodes := \<lparr>et_rows = et_rows (sdb_episodes db) @ ?rows,
    et_next = et_next (sdb_episodes db) + int (length ?es)\<rparr>\<rparr>"
  have steps: "commitSettlement num None (Some slotRepo) p clock db =
      (case run_series (map (append_episode p now clock) ?es @ map (commit_op num p now clock) (sp_cognitionOps p) @
         [write_slot (Some slotRepo) p] @ map (upsert_area_artifact p now) (sp_areaStateArtifacts p) @
         [materializePublicationsSafe None p now]) ([], db) of
        (Inl e, s) \<Rightarrow> (Inl e, snd s) | (Inr _, s) \<Rightarrow> (Inr (fst s), snd s))"
    by (simp add: commitSettlement_def commit_steps_def assms(2))
  show ?thesis
  proof (cases "fresh_episodes (table_params (sdb_episodes db)) (map (episode_of p now) ?es)")
    case False
    with append_stale_episodes [OF assms(1) False, of clock "[]"] show ?thesis
      by (auto simp: commit_accepted_def steps run_series_append)
  next
    case True
    note e = append_fresh_episodes [OF assms(1) True, of clock "[]"]
    show ?thesis
    proof (cases "list_all (\<lambda>op. op_kind op \<noteq> None) (sp_cognitionOps p)")
      case bad: False
      from commit_ops_bad [OF bad, of num p now clock "(?erefs, ?db1)"] e bad show ?thesis
        by (auto simp: commit_accepted_def steps run_series_append)
    next
      case ops: True
      from commit_ops_ok [OF ops, of num p now clock "(?erefs, ?db1)"] obtain refs cog
        where o: "run_series (map (commit_op num p now clock) (sp_cognitionOps p)) (?erefs, ?db1) =
            (Inr (), ?erefs @ refs, ?db1\<lparr>sdb_cog := cog\<rparr>)"
          "cog_grows (sdb_cog db) cog" "list_all (op_done p now (cg_ledger cog)) (sp_cognitionOps p)" by auto
      let ?s2 = "(?erefs @ refs, ?db1\<lparr>sdb_cog := cog, sdb_slots := slots'\<rparr>)"
      have slot: "write_slot (Some slotRepo) p (?erefs @ refs, ?db1\<lparr>sdb_cog := cog\<rparr>) = (Inr (), ?s2)"
        by (simp add: write_slot_def assms(3))
      show ?thesis
      proof (cases "list_all (area_ok p) (sp_areaStateArtifacts p)")
        case bad: False
        from upsert_area_artifacts(2) [OF bad, of now ?s2] e o(1) slot bad show ?thesis
          by (auto simp: commit_accepted_def steps run_series_append)
      next
        case areas: True
        from upsert_area_artifacts(1) [OF areas, of now ?s2] obtain w
          where w: "run_series (map (upsert_area_artifact p now) (sp_areaStateArtifacts p)) ?s2 =
            (Inr (), ?erefs @ refs, ?db1\<lparr>sdb_cog := cog, sdb_slots := slots', sdb_world := w\<rparr>)" by auto
        have "commitSettlement num None (Some slotRepo) p clock db =
            (Inr (?erefs @ refs), ?db1\<lparr>sdb_cog := cog, sdb_slots := slots', sdb_world := w\<rparr>)"
          using e o(1) slot w by (simp add: steps run_series_append materializePublicationsSafe_def)
        then show ?thesis using True ops areas o(2,3) by (simp add: commit_accepted_def committed_def)
      qed
    qed
  qed
qed

text \<open>
  Property (C13): a settlement is committed entirely or not at all. It is refused exactly if an
  episode is malformed or its local reference is taken, an operation has no valid kind, or an
  area state has an unknown class or source; then nothing changes. Otherwise the episodes are
  added in order with consecutive numbers and their references come first in the result, every
  operation has its event, older events stay, the slot is what its writer makes of it, and no
  relation changes.
\<close>

theorem commit_all_or_nothing:
  assumes "0 < et_next (sdb_episodes db)" "sp_committedAt p = Some now"
    and "slotRepo (sp_sessionId p) (sp_agentId p) (sp_settlementId p) (sp_recentCognitionSlot p) (sdb_slots db) = (Inr u, slots')"
  shows "case transaction (commitSettlement num None (Some slotRepo) p clock) db of
      (Inl e, db') \<Rightarrow> \<not> commit_accepted p now db \<and> db' = db
    | (Inr refs, db') \<Rightarrow> commit_accepted p now db \<and> committed p now clock slots' db db' \<and>
        prefix (map (\<lambda>r. node Episode_kind (er_id r)) (episode_rows clock (et_next (sdb_episodes db))
          (map (episode_of p now) (sp_privateEpisodes p)))) refs"
proof (cases "commit_accepted p now db")
  case True
  with commit_runs [where slotRepo = slotRepo, OF assms, of num clock] obtain refs db'
    where "commitSettlement num None (Some slotRepo) p clock db = (Inr refs, db')"
      "committed p now clock slots' db db'"
      "prefix (map (\<lambda>r. node Episode_kind (er_id r)) (episode_rows clock (et_next (sdb_episodes db))
        (map (episode_of p now) (sp_privateEpisodes p)))) refs"
    by (simp only: if_True) blast
  with True show ?thesis by (simp add: transaction_def)
next
  case False
  with commit_runs [where slotRepo = slotRepo, OF assms, of num clock] obtain e s
    where "commitSettlement num None (Some slotRepo) p clock db = (Inl e, s)"
    by (cases "commitSettlement num None (Some slotRepo) p clock db") (auto simp: isl_def)
  with False show ?thesis by (simp add: transaction_def)
qed

lemma run_series_keeps:
  assumes "\<And>f s. f \<in> set fs \<Longrightarrow> P s \<Longrightarrow> P (snd (f s))" "P s"
  shows "P (snd (run_series fs s))"
  using assms
proof (induction fs arbitrary: s)
  case (Cons f fs)
  have "P (snd (f s))" using Cons.prems(1) [of f s] Cons.prems(2) by simp
  moreover have "P (snd (run_series fs s'))" if "P s'" for s' using Cons.IH [of s'] Cons.prems(1) that by auto
  ultimately show ?case by (auto split: prod.splits sum.splits)
qed simp

text \<open>
  Property (C15): the rows of private cognition stay the replay of their events through every
  commit, whether it succeeds or not, as long as times do not go back; the operations of a
  settlement may have any content, and several settlements may have been committed at one time.
\<close>

theorem commit_keeps_projection:
  assumes "cog_inv env t (sdb_cog db)" "sp_committedAt p = Some now" "t \<le> now"
  shows "cog_inv env now (sdb_cog (snd (commitSettlement (ns env) None slotRepo p clock db)))"
proof -
  let ?P = "\<lambda>s :: commit_state. cog_inv env now (sdb_cog (snd s))"
  have "?P (snd (run_series (commit_steps (ns env) None slotRepo p clock) ([], db)))"
  proof (rule run_series_keeps)
    show "?P ([], db)" using inv_later [OF assms(1,3)] by simp
    fix f s assume "f \<in> set (commit_steps (ns env) None slotRepo p clock)" and s: "?P s"
    then consider e where "f = append_episode p now clock e" | op where "f = commit_op (ns env) p now clock op"
      | "f = write_slot slotRepo p" | a where "f = upsert_area_artifact p now a"
      | "f = materializePublicationsSafe None p now"
      unfolding commit_steps_def assms(2) Let_def by auto
    then show "?P (snd (f s))"
    proof cases
      case 1
      with s show ?thesis by (auto simp: append_episode_def split: prod.splits sum.splits)
    next
      case 2
      with inv_commit_op [OF s] show ?thesis by simp
    next
      case 3
      with s show ?thesis by (auto simp: write_slot_def split: option.splits prod.splits sum.splits)
    next
      case 4
      with s show ?thesis by (auto simp: upsert_area_artifact_def split: option.splits prod.splits sum.splits)
    next
      case 5
      with s show ?thesis by (simp add: materializePublicationsSafe_def)
    qed
  qed
  then show ?thesis by (auto simp: commitSettlement_def split: prod.splits sum.splits)
qed

lemma ref_taken_in:
  assumes "q \<in> set ps" "ep_sourceLocalRef p \<noteq> None" "ep_settlementId q = ep_settlementId p"
    "ep_sourceLocalRef q = ep_sourceLocalRef p"
  shows "ref_taken p ps"
  using assms by (auto simp: ref_taken_def list_ex_iff)

lemma stale_episode:
  assumes "p \<in> set ps" "ref_taken p old"
  shows "\<not> fresh_episodes old ps"
  using assms
proof (induction ps arbitrary: old)
  case (Cons x ps)
  have "ref_taken p (old @ [x])" using Cons.prems(2) by (simp add: ref_taken_def)
  with Cons show ?case by auto
qed simp

text \<open>
  Property (C12): a settlement with a named episode cannot be committed a second time. The insert
  of an episode is written to skip one that is already there, but the commit takes the 0 it then
  returns for a number and fails; so no later commit of the settlement succeeds that has an
  episode of that name, whatever else it holds.
\<close>

theorem recommit_fails:
  assumes "0 < et_next (sdb_episodes db)" "commitSettlement num None slotRepo p clock db = (Inr refs, db')"
    and "e \<in> set (sp_privateEpisodes p)" "prop_of e ''localRef'' = Some (JStr r)"
    and "sp_settlementId p' = sp_settlementId p" "e' \<in> set (sp_privateEpisodes p')"
    and "prop_of e' ''localRef'' = Some (JStr r)"
  shows "isl (fst (commitSettlement num None slotRepo' p' clock' db'))"
proof -
  let ?now = "case sp_committedAt p of Some t \<Rightarrow> t | None \<Rightarrow> clock"
  let ?now' = "case sp_committedAt p' of Some t \<Rightarrow> t | None \<Rightarrow> clock'"
  let ?es = "map (episode_of p ?now) (sp_privateEpisodes p)"
  let ?rows = "episode_rows clock (et_next (sdb_episodes db)) ?es"
  let ?Q = "\<lambda>s :: commit_state. sdb_episodes (snd s) = \<lparr>et_rows = et_rows (sdb_episodes db) @ ?rows,
    et_next = et_next (sdb_episodes db) + int (length (sp_privateEpisodes p))\<rparr>"
  have fresh: "fresh_episodes (table_params (sdb_episodes db)) ?es"
  proof (rule ccontr)
    assume "\<not> ?thesis"
    from append_stale_episodes [OF assms(1) this, of clock "[]"] assms(2) show False
      by (auto simp: commitSettlement_def commit_steps_def Let_def run_series_append)
  qed
  note episodes = append_fresh_episodes [OF assms(1) fresh, of clock "[]"]
  define rest where "rest = map (commit_op num p ?now clock) (sp_cognitionOps p) @ [write_slot slotRepo p] @
    map (upsert_area_artifact p ?now) (sp_areaStateArtifacts p) @ [materializePublicationsSafe None p ?now]"
  have keep: "?Q (snd (run_series rest s))" if "?Q s" for s
  proof (rule run_series_keeps [where P = ?Q, OF _ that])
    fix f s assume "f \<in> set rest" and s: "?Q s"
    then consider op where "f = commit_op num p ?now clock op" | "f = write_slot slotRepo p"
      | a where "f = upsert_area_artifact p ?now a" | "f = materializePublicationsSafe None p ?now"
      unfolding rest_def by auto
    then show "?Q (snd (f s))"
    proof cases
      case 1
      with s show ?thesis by (auto simp: commit_op_def Let_def split: option.splits prod.splits)
    next
      case 2
      with s show ?thesis by (auto simp: write_slot_def split: option.splits prod.splits sum.splits)
    next
      case 3
      with s show ?thesis by (auto simp: upsert_area_artifact_def split: option.splits prod.splits sum.splits)
    next
      case 4
      with s show ?thesis by (simp add: materializePublicationsSafe_def)
    qed
  qed
  have "commitSettlement num None slotRepo p clock db =
      (case run_series rest (map (\<lambda>r. node Episode_kind (er_id r)) ?rows, db\<lparr>sdb_episodes :=
        \<lparr>et_rows = et_rows (sdb_episodes db) @ ?rows, et_next = et_next (sdb_episodes db) + int (length (sp_privateEpisodes p))\<rparr>\<rparr>) of
        (Inl e, s) \<Rightarrow> (Inl e, snd s) | (Inr _, s) \<Rightarrow> (Inr (fst s), snd s))"
    using episodes by (simp add: commitSettlement_def commit_steps_def Let_def run_series_append rest_def)
  with keep [of "(map (\<lambda>r. node Episode_kind (er_id r)) ?rows, db\<lparr>sdb_episodes :=
        \<lparr>et_rows = et_rows (sdb_episodes db) @ ?rows, et_next = et_next (sdb_episodes db) + int (length (sp_privateEpisodes p))\<rparr>\<rparr>)"]
  have t': "table_params (sdb_episodes db') = table_params (sdb_episodes db) @ ?es" "0 < et_next (sdb_episodes db')"
    using assms(1,2) by (auto split: prod.splits sum.splits)
  have old: "episode_of p ?now e \<in> set (table_params (sdb_episodes db'))" unfolding t'(1) using assms(3) by simp
  have "ref_taken (episode_of p' ?now' e') (table_params (sdb_episodes db'))"
    by (rule ref_taken_in [OF old]) (simp_all add: episode_of_def assms(4,5,7))
  with stale_episode [of "episode_of p' ?now' e'" "map (episode_of p' ?now') (sp_privateEpisodes p')"] assms(6)
  have "\<not> fresh_episodes (table_params (sdb_episodes db')) (map (episode_of p' ?now') (sp_privateEpisodes p'))" by simp
  from append_stale_episodes [OF t'(2) this, of clock' "[]"] show ?thesis
    by (auto simp: commitSettlement_def commit_steps_def Let_def run_series_append)
qed

section \<open>An example\<close>

definition empty_memory :: settlement_db where
  "empty_memory =
     \<lparr>sdb_episodes = \<lparr>et_rows = [], et_next = 1\<rparr>, sdb_cog = no_cognition, sdb_slots = [],
      sdb_world = \<lparr>area_events = [], area_next = 1, area_current = [], area_narrative = [], world_events = [],
        world_next = 1, world_current = [], world_narrative = None\<rparr>,
      sdb_relations = []\<rparr>"

definition door_settlement :: "int \<Rightarrow> settlement_params" where
  "door_settlement now =
     \<lparr>sp_settlementId = ''stl:1'', sp_sessionId = ''s'', sp_agentId = ''mei'',
      sp_cognitionOps = [JObj [(''op'', JStr ''upsert''),
        (''record'', JObj [(''kind'', JStr ''evaluation''), (''key'', JStr ''trust''), (''notes'', JStr ''uneasy'')])]],
      sp_privateEpisodes = [JObj [(''localRef'', JStr ''door''), (''category'', JStr ''action''), (''summary'', JStr ''shut'')]],
      sp_publications = [], sp_locationEntityId = Some 3, sp_recentCognitionSlot = Some (JArr []),
      sp_areaStateArtifacts = [], sp_committedAt = Some now\<rparr>"

abbreviation plain_writer :: slot_writer where
  "plain_writer sid agent settlementId es t \<equiv> upsertRecentCognitionSlot JArr sid agent settlementId es None None 5 t"

lemma door_accepted: "commit_accepted (door_settlement now) now empty_memory"
  by (simp add: commit_accepted_def door_settlement_def empty_memory_def op_kind_def kind_of_def op_subject_def is_upsert_def
      op_record_def kind_str_def episode_ok_def ref_taken_def episode_of_def VALID_CATEGORIES_def get_prop_def)

lemma door_hyps: "0 < et_next (sdb_episodes empty_memory)" "sp_committedAt (door_settlement now) = Some now"
  by (simp_all add: empty_memory_def door_settlement_def)

lemma door_slot: "\<exists>u slots'. plain_writer (sp_sessionId (door_settlement now)) (sp_agentId (door_settlement now))
    (sp_settlementId (door_settlement now)) (sp_recentCognitionSlot (door_settlement now)) (sdb_slots empty_memory) = (Inr u, slots')"
  by (simp add: upsertRecentCognitionSlot_def Let_def)

lemma door_commits:
  "\<exists>refs db'. commitSettlement num None (Some (\<lambda>a b c d t. plain_writer a b c d t)) (door_settlement now) clock empty_memory = (Inr refs, db')"
proof -
  obtain u slots' where w: "plain_writer (sp_sessionId (door_settlement now)) (sp_agentId (door_settlement now))
    (sp_settlementId (door_settlement now)) (sp_recentCognitionSlot (door_settlement now)) (sdb_slots empty_memory) = (Inr u, slots')"
    using door_slot by blast
  from commit_runs [where slotRepo = "\<lambda>a b c d t. plain_writer a b c d t", OF door_hyps w] door_accepted
  show ?thesis by (simp only: if_True) blast
qed

theorem commit_all_or_nothing_witness:
  "map ep_sourceLocalRef (table_params (sdb_episodes (snd (transaction (commitSettlement (\<lambda>_. ''0'') None
     (Some (\<lambda>a b c d t. plain_writer a b c d t)) (door_settlement 4) 5) empty_memory)))) = [Some ''door'']"
proof -
  obtain u slots' where w: "plain_writer (sp_sessionId (door_settlement 4)) (sp_agentId (door_settlement 4))
    (sp_settlementId (door_settlement 4)) (sp_recentCognitionSlot (door_settlement 4)) (sdb_slots empty_memory) = (Inr u, slots')"
    using door_slot by blast
  from commit_all_or_nothing [where slotRepo = "\<lambda>a b c d t. plain_writer a b c d t", OF door_hyps w, of 5 "\<lambda>_. ''0''"]
    door_accepted [of 4]
  have "table_params (sdb_episodes (snd (transaction (commitSettlement (\<lambda>_. ''0'') None
     (Some (\<lambda>a b c d t. plain_writer a b c d t)) (door_settlement 4) 5) empty_memory))) =
     map (episode_of (door_settlement 4) 4) (sp_privateEpisodes (door_settlement 4))"
    by (auto simp: committed_def empty_memory_def split: prod.splits sum.splits)
  then show ?thesis by (simp add: door_settlement_def episode_of_def get_prop_def)
qed

theorem commit_keeps_projection_witness:
  "cog_inv sample_env 4 (sdb_cog (snd (commitSettlement (ns sample_env) None
     (Some (\<lambda>a b c d t. plain_writer a b c d t)) (door_settlement 4) 5 empty_memory)))"
proof -
  have "cog_inv sample_env 0 (sdb_cog empty_memory)"
    using inv_reach [OF cog_reach.start] by (simp add: empty_memory_def)
  from commit_keeps_projection [OF this door_hyps(2), of 4] show ?thesis by simp
qed

theorem recommit_fails_witness:
  "isl (fst (commitSettlement (\<lambda>_. ''0'') None (Some (\<lambda>a b c d t. plain_writer a b c d t)) (door_settlement 8) 9
     (snd (commitSettlement (\<lambda>_. ''0'') None (Some (\<lambda>a b c d t. plain_writer a b c d t)) (door_settlement 4) 5 empty_memory))))"
proof -
  let ?e = "JObj [(''localRef'', JStr ''door''), (''category'', JStr ''action''), (''summary'', JStr ''shut'')]"
  obtain refs db' where first: "commitSettlement (\<lambda>_. ''0'') None (Some (\<lambda>a b c d t. plain_writer a b c d t))
      (door_settlement 4) 5 empty_memory = (Inr refs, db')"
    using door_commits by blast
  have e: "?e \<in> set (sp_privateEpisodes (door_settlement n))" "prop_of ?e ''localRef'' = Some (JStr ''door'')"
    "sp_settlementId (door_settlement n) = sp_settlementId (door_settlement m)" for n m
    by (simp_all add: door_settlement_def get_prop_def)
  from recommit_fails [OF door_hyps(1) first e(1,2,3) e(1,2)] show ?thesis by (simp add: first)
qed

end
