(* ===== verification/Thinker.thy ===== *)
theory Thinker
  imports Settlement_Commit Settlement_Ledger Pg_Store Agent_Loop
begin

text \<open>
  The thinker (\<^verbatim>\<open>runtime/thinker-worker.ts\<close>): the background worker that turns the sketches of
  one or several turns into the memory of an agent. It also holds \<^verbatim>\<open>memory/organize-enqueue.ts\<close>,
  the form of jobs in \<^verbatim>\<open>jobs/job-persistence-factory.ts\<close> and the listing of pending jobs of
  \<^verbatim>\<open>jobs/pg-store.ts\<close> that the thinker reads.

  A run is two steps, \<open>thinker_begin\<close> before and \<open>thinker_end\<close> after the agent loop, since the
  world may change while the model answers. The agent loop is that of theory \<open>Agent_Loop\<close>; here
  its result is an argument. The parts of the worker that are optional are flags of \<open>thinker_env\<close>.
  Log messages are left out, and so is the model call of the index updater: \<open>tw_indexed\<close> records
  the calls made on it.
\<close>

section \<open>Jobs\<close>

record new_entry =
  je_id :: string
  je_jobType :: job_kind
  je_payload :: json
  je_maxAttempts :: int
  je_nextAttemptAt :: "int option"

definition searchRebuildFamilyKey :: "string \<Rightarrow> string" where
  "searchRebuildFamilyKey k =
     (case find (\<lambda>i. prefix '':req:'' (drop i k)) [1..<length k] of
        Some i \<Rightarrow> if prefix '':req:'' k then k else take i k
      | None \<Rightarrow> k)"

definition rebuild_of :: "json \<Rightarrow> rebuild_payload" where
  "rebuild_of v =
     \<lparr>p_json = v, p_triggerSource = text_prop v ''triggerSource'', p_triggerReason = text_prop v ''triggerReason'',
      p_requestedAt = (case prop_of v ''requestedAt'' of Some (JNum (Fin q)) \<Rightarrow> Some q | _ \<Rightarrow> None)\<rparr>"

fun class_of :: "job_kind \<Rightarrow> execution_class" where
  "class_of Search_rebuild = Background_search_rebuild"
| "class_of Memory_migrate = Background_memory_migrate"
| "class_of Memory_organize = Background_memory_organize"
| "class_of Maintenance_replay_projection = Background_maintenance_replay"
| "class_of Maintenance_rebuild_derived = Background_maintenance_rebuild_derived"
| "class_of Maintenance_full = Background_maintenance_full"
| "class_of Cognition_thinker = Background_cognition_thinker"
| "class_of Task_run = Background_autonomy"

definition concurrency_key_of :: "new_entry \<Rightarrow> string" where
  "concurrency_key_of e =
     (case je_jobType e of
        Search_rebuild \<Rightarrow> ''search.rebuild:global''
      | Memory_migrate \<Rightarrow> ''memory.migrate:global''
      | Memory_organize \<Rightarrow> ''memory.organize:global''
      | Maintenance_replay_projection \<Rightarrow> ''maintenance.replay_projection:global''
      | Maintenance_rebuild_derived \<Rightarrow> ''maintenance.rebuild_derived:global''
      | Maintenance_full \<Rightarrow> ''maintenance.full:global''
      | Cognition_thinker \<Rightarrow> ''cognition.thinker:session:'' @
          (case string_of (prop_of (je_payload e) ''sessionId'') of Some s \<Rightarrow> s | None \<Rightarrow> ''unknown'')
      | Task_run \<Rightarrow> ''task.run:default-parent:1'')"

definition toEnqueueInput :: "new_entry \<Rightarrow> int \<Rightarrow> enqueue_input" where
  "toEnqueueInput e now =
     \<lparr>q_job_key = je_id e, q_job_type = je_jobType e,
      q_job_family_key = (if je_jobType e = Search_rebuild then Some (searchRebuildFamilyKey (je_id e)) else None),
      q_execution_class = class_of (je_jobType e), q_concurrency_key = concurrency_key_of e,
      q_payload_schema_version = 1, q_payload_json = rebuild_of (je_payload e),
      q_max_attempts = je_maxAttempts e, q_now_ms = now, q_next_attempt_at = je_nextAttemptAt e\<rparr>"

definition persist_enqueue :: "new_entry \<Rightarrow> int \<Rightarrow> pg_db \<Rightarrow> (store_error, unit) result \<times> pg_db" where
  "persist_enqueue e now db =
     (case enqueue (toEnqueueInput e now) db of (Inl x, db') \<Rightarrow> (Inl x, db') | (Inr _, db') \<Rightarrow> (Inr (), db'))"

text \<open>Jobs one after the other, up to the first that cannot be enqueued.\<close>

primrec enqueue_each :: "int \<Rightarrow> new_entry list \<Rightarrow> pg_db \<Rightarrow> (store_error, unit) result \<times> pg_db" where
  "enqueue_each now [] db = (Inr (), db)"
| "enqueue_each now (e # es) db =
     (case persist_enqueue e now db of (Inl x, db') \<Rightarrow> (Inl x, db') | (Inr _, db') \<Rightarrow> enqueue_each now es db')"

fun chunks_of :: "nat \<Rightarrow> 'a list \<Rightarrow> 'a list list" where
  "chunks_of n xs = (if n = 0 \<or> xs = [] then [] else take n xs # chunks_of n (drop n xs))"

declare chunks_of.simps [simp del]

definition ORGANIZER_CHUNK_SIZE :: nat where
  "ORGANIZER_CHUNK_SIZE = 50"

definition pad4 :: "string \<Rightarrow> string" where
  "pad4 s = replicate (4 - length s) (CHR ''0'') @ s"

definition organizer_entry :: "string \<Rightarrow> string \<Rightarrow> int \<Rightarrow> nat \<Rightarrow> node_ref list \<Rightarrow> new_entry" where
  "organizer_entry agentId settlementId now i refs =
     \<lparr>je_id = ''memory.organize:'' @ settlementId @ '':chunk:'' @ pad4 (nat_str (i + 1)),
      je_jobType = Memory_organize,
      je_payload = JObj [(''agentId'', JStr agentId), (''chunkNodeRefs'', JArr (map JStr refs)),
        (''settlementId'', JStr settlementId)],
      je_maxAttempts = JOB_MAX_ATTEMPTS Memory_organize, je_nextAttemptAt = Some now\<rparr>"

definition enqueueOrganizerJobs :: "string \<Rightarrow> string \<Rightarrow> node_ref list \<Rightarrow> nat \<Rightarrow> int \<Rightarrow> pg_db \<Rightarrow>
    (store_error, unit) result \<times> pg_db" where
  "enqueueOrganizerJobs agentId settlementId changedNodeRefs chunkSize now db =
     (let chunks = chunks_of chunkSize (js_unique changedNodeRefs)
      in enqueue_each now (map (\<lambda>(i, refs). organizer_entry agentId settlementId now i refs) (enumerate 0 chunks)) db)"

section \<open>Pending turns\<close>

record thinker_payload =
  tp_sessionId :: string
  tp_agentId :: string
  tp_settlementId :: string
  tp_talkerTurnVersion :: int

text \<open>The payload of a thinker job; the code writes no other.\<close>

definition thinker_payload_of :: "json \<Rightarrow> thinker_payload option" where
  "thinker_payload_of v =
     (case (string_of (prop_of v ''sessionId''), string_of (prop_of v ''agentId''),
            string_of (prop_of v ''settlementId''), prop_of v ''talkerTurnVersion'') of
        (Some s, Some a, Some i, Some (JNum (Fin q))) \<Rightarrow>
          if q = of_int \<lfloor>q\<rfloor> then Some \<lparr>tp_sessionId = s, tp_agentId = a, tp_settlementId = i, tp_talkerTurnVersion = \<lfloor>q\<rfloor>\<rparr>
          else None
      | _ \<Rightarrow> None)"

definition payload_json :: "thinker_payload \<Rightarrow> json" where
  "payload_json p =
     JObj [(''sessionId'', JStr (tp_sessionId p)), (''agentId'', JStr (tp_agentId p)),
       (''settlementId'', JStr (tp_settlementId p)), (''talkerTurnVersion'', JNum (Fin (of_int (tp_talkerTurnVersion p))))]"

text \<open>A payload read back: the object, or the text of an object.\<close>

fun row_payload :: "jsonb \<Rightarrow> thinker_payload option" where
  "row_payload (JVal v) = thinker_payload_of v"
| "row_payload (JText (Some (JVal v))) = thinker_payload_of v"
| "row_payload _ = None"

definition listPendingByKindAndPayload :: "job_kind \<Rightarrow> string \<Rightarrow> string \<Rightarrow> int \<Rightarrow> pg_db \<Rightarrow> (job_row \<times> thinker_payload) list" where
  "listPendingByKindAndPayload jobType sessionId agentId now db =
     sort_by (\<lambda>a b. tp_talkerTurnVersion (snd a) < tp_talkerTurnVersion (snd b))
       (filter (\<lambda>(r, p). tp_sessionId p = sessionId \<and> tp_agentId p = agentId)
         (List.map_filter (\<lambda>r. map_option (Pair r) (row_payload (r_payload_json r)))
           (filter (\<lambda>r. r_job_type r = jobType \<and> r_status r = Pg_pending \<and> r_next_attempt_at r \<le> now) (jobs_current db))))"

section \<open>Batches of turns\<close>

record sketch =
  sk_version :: int
  sk_settlementId :: string
  sk_sketch :: string

record batch_plan =
  bp_batchMode :: bool
  bp_chain :: "sketch list"
  bp_highest :: int
  bp_settlementId :: string
  bp_members :: "string list"
  bp_split :: "sketch list list"

definition BATCH_SPLIT_THRESHOLD :: nat where
  "BATCH_SPLIT_THRESHOLD = 3"

definition BATCH_SOFT_CAP :: nat where
  "BATCH_SOFT_CAP = 20"

definition request_id :: "string \<Rightarrow> string" where
  "request_id settlementId = (if prefix ''stl:'' settlementId then drop 4 settlementId else settlementId)"

definition sketch_of :: "string \<Rightarrow> json \<Rightarrow> string" where
  "sketch_of noSketch v = (case text_prop v ''cognitiveSketch'' of [] \<Rightarrow> noSketch | s \<Rightarrow> s)"

text \<open>The sketches of the turns in order, up to the first whose settlement is not found.\<close>

fun load_chain :: "string \<Rightarrow> (string \<Rightarrow> json option) \<Rightarrow> thinker_payload list \<Rightarrow> sketch list" where
  "load_chain noSketch load [] = []"
| "load_chain noSketch load (p # ps) =
     (case load (request_id (tp_settlementId p)) of
        None \<Rightarrow> []
      | Some v \<Rightarrow>
          \<lparr>sk_version = tp_talkerTurnVersion p, sk_settlementId = tp_settlementId p, sk_sketch = sketch_of noSketch v\<rparr> #
          load_chain noSketch load ps)"

definition single_turn :: "thinker_payload \<Rightarrow> batch_plan" where
  "single_turn p = \<lparr>bp_batchMode = False, bp_chain = [], bp_highest = tp_talkerTurnVersion p,
     bp_settlementId = tp_settlementId p, bp_members = [tp_settlementId p], bp_split = []\<rparr>"

definition all_turns :: "thinker_payload \<Rightarrow> thinker_payload list \<Rightarrow> thinker_payload list" where
  "all_turns p pending =
     sort_by (\<lambda>a b. tp_talkerTurnVersion a < tp_talkerTurnVersion b)
       (p # filter (\<lambda>q. tp_talkerTurnVersion q \<noteq> tp_talkerTurnVersion p) pending)"

definition plan_batch :: "bool \<Rightarrow> string \<Rightarrow> (string \<Rightarrow> json option) \<Rightarrow> thinker_payload \<Rightarrow> thinker_payload list \<Rightarrow> batch_plan" where
  "plan_batch canSplit noSketch load p pending =
     (if filter (\<lambda>q. tp_talkerTurnVersion q \<noteq> tp_talkerTurnVersion p) pending = [] then single_turn p
      else
        (let allJobs = all_turns p pending;
             chain = load_chain noSketch load allJobs
         in if length chain \<le> 1 then single_turn p
            else
              (let capped = (if length chain > BATCH_SOFT_CAP then drop (length chain - BATCH_SOFT_CAP) chain else chain);
                   splits = (length capped > BATCH_SPLIT_THRESHOLD \<and> canSplit);
                   mine = (if splits then take BATCH_SPLIT_THRESHOLD capped else capped);
                   highest = sk_version (last mine)
               in \<lparr>bp_batchMode = True, bp_chain = mine, bp_highest = highest, bp_settlementId = sk_settlementId (last mine),
                   bp_members = map tp_settlementId (filter (\<lambda>q. tp_talkerTurnVersion q \<le> highest) allJobs),
                   bp_split = (if splits then chunks_of BATCH_SPLIT_THRESHOLD (drop BATCH_SPLIT_THRESHOLD capped) else [])\<rparr>)))"

definition split_payload :: "thinker_payload \<Rightarrow> sketch list \<Rightarrow> thinker_payload" where
  "split_payload p sub =
     \<lparr>tp_sessionId = tp_sessionId p, tp_agentId = tp_agentId p, tp_settlementId = sk_settlementId (last sub),
      tp_talkerTurnVersion = sk_version (last sub)\<rparr>"

definition split_entry :: "thinker_payload \<Rightarrow> sketch list \<Rightarrow> new_entry" where
  "split_entry p sub =
     \<lparr>je_id = ''thinker:'' @ tp_sessionId p @ '':'' @ sk_settlementId (last sub) @ '':split'',
      je_jobType = Cognition_thinker, je_payload = payload_json (split_payload p sub),
      je_maxAttempts = 3, je_nextAttemptAt = None\<rparr>"

section \<open>The outcome of a turn\<close>

definition thinker_intent :: "json \<Rightarrow> json option" where
  "thinker_intent e =
     (case (string_of (prop_of e ''sourceRef''), string_of (prop_of e ''targetRef''), string_of (prop_of e ''intent'')) of
        (Some s, Some t, Some i) \<Rightarrow>
          if i \<in> {''supports'', ''triggered''}
          then Some (JObj [(''sourceRef'', JStr s), (''targetRef'', JStr t), (''intent'', JStr i)]) else None
      | _ \<Rightarrow> None)"

definition normalizeThinkerRelationIntents :: "json option \<Rightarrow> json list" where
  "normalizeThinkerRelationIntents raw =
     (case raw of Some (JArr xs) \<Rightarrow> List.map_filter thinker_intent xs | _ \<Rightarrow> [])"

definition thinker_factor :: "json \<Rightarrow> json option" where
  "thinker_factor e =
     (case (string_of (prop_of e ''kind''), string_of (prop_of e ''ref'')) of
        (Some k, Some r) \<Rightarrow>
          (case string_of (prop_of e ''note'') of
             None \<Rightarrow> Some (JObj [(''kind'', JStr k), (''ref'', JStr r)])
           | Some n \<Rightarrow> if length n > 120 then None
               else Some (JObj [(''kind'', JStr k), (''ref'', JStr r), (''note'', JStr n)]))
      | _ \<Rightarrow> None)"

definition normalizeThinkerConflictFactors :: "json option \<Rightarrow> json list" where
  "normalizeThinkerConflictFactors raw =
     (case raw of Some (JArr xs) \<Rightarrow> List.map_filter thinker_factor xs | _ \<Rightarrow> [])"

text \<open>\<open>{...raw}\<close>, also of an array.\<close>

fun own_props :: "json \<Rightarrow> (string \<times> json) list" where
  "own_props (JObj m) = m"
| "own_props (JArr xs) = zip (map nat_str [0..<length xs]) xs"
| "own_props _ = []"

definition sanitizeThinkerOutcome :: "json \<Rightarrow> json" where
  "sanitizeThinkerOutcome raw =
     (if \<not> is_object raw then raw
      else JObj (AList.update ''conflictFactors'' (JArr (normalizeThinkerConflictFactors (prop_of raw ''conflictFactors'')))
        (AList.update ''relationIntents'' (JArr (normalizeThinkerRelationIntents (prop_of raw ''relationIntents'')))
          (own_props raw))))"

text \<open>
  A value in a template literal, which fails on values without a text, and \<open>v.k\<close>, which fails on
  \<open>undefined\<close> and \<open>null\<close>.
\<close>

definition text_in_template :: "(js_num \<Rightarrow> string) \<Rightarrow> json option \<Rightarrow> (thrown, string) result" where
  "text_in_template num v =
     (case v of Some x \<Rightarrow> if no_text x then Inl Plain_error else Inr (js_String num x) | None \<Rightarrow> Inr ''undefined'')"

definition member :: "json option \<Rightarrow> string \<Rightarrow> (thrown, json option) result" where
  "member v k = (case v of None \<Rightarrow> Inl Plain_error | Some JNull \<Rightarrow> Inl Plain_error | Some x \<Rightarrow> Inr (prop_of x k))"

definition refValue :: "json option \<Rightarrow> (thrown, json option) result" where
  "refValue ref =
     (case ref of
        Some v \<Rightarrow>
          if \<not> is_object v then Inl Plain_error
          else if prop_of v ''value'' \<noteq> None then Inr (prop_of v ''value'') else Inr (prop_of v ''key'')
      | None \<Rightarrow> Inl Plain_error)"

definition summarizeAssertion :: "(js_num \<Rightarrow> string) \<Rightarrow> json \<Rightarrow> (thrown, string) result" where
  "summarizeAssertion num r =
     bind_ok (member (prop_of r ''holderId'') ''value'') (\<lambda>holder.
     bind_ok (text_in_template num holder) (\<lambda>h.
     bind_ok (text_in_template num (prop_of r ''claim'')) (\<lambda>c.
     bind_ok (text_in_template num (prop_of r ''stance'')) (\<lambda>s.
       Inr (''['' @ h @ ''] '' @ c @ '' ('' @ s @ '')'')))))"

definition dimension_text :: "(js_num \<Rightarrow> string) \<Rightarrow> json \<Rightarrow> (thrown, string) result" where
  "dimension_text num d =
     bind_ok (member (Some d) ''name'') (\<lambda>n.
     bind_ok (text_in_template num n) (\<lambda>name.
     bind_ok (text_in_template num (prop_of d ''value'')) (\<lambda>v. Inr (name @ '':'' @ v))))"

definition summarizeEvaluation :: "(js_num \<Rightarrow> string) \<Rightarrow> json \<Rightarrow> (thrown, string) result" where
  "summarizeEvaluation num r =
     bind_ok (refValue (prop_of r ''target'')) (\<lambda>label.
     case prop_of r ''dimensions'' of
       Some (JArr ds) \<Rightarrow>
         bind_ok (each (dimension_text num) ds) (\<lambda>dims.
         bind_ok (text_in_template num label) (\<lambda>l. Inr (''eval '' @ l @ '' ['' @ join_with '', '' dims @ '']'')))
     | _ \<Rightarrow> Inl Plain_error)"

definition summarizeCommitment :: "(js_num \<Rightarrow> string) \<Rightarrow> json \<Rightarrow> (thrown, string) result" where
  "summarizeCommitment num r =
     bind_ok (case prop_of r ''target'' of
         Some JNull \<Rightarrow> Inl Plain_error
       | Some v \<Rightarrow>
           if \<not> is_object v then Inr (Some (JStr []))
           else if prop_of v ''action'' \<noteq> None then Inr (prop_of v ''action'')
           else (case prop_of v ''predicate'' of Some JNull \<Rightarrow> Inr (Some (JStr [])) | None \<Rightarrow> Inr (Some (JStr [])) | p \<Rightarrow> Inr p)
       | None \<Rightarrow> Inr (Some (JStr []))) (\<lambda>target.
     bind_ok (text_in_template num (prop_of r ''mode'')) (\<lambda>mode.
     bind_ok (text_in_template num target) (\<lambda>t.
     bind_ok (text_in_template num (prop_of r ''status'')) (\<lambda>s.
       Inr (mode @ '': '' @ t @ '' ('' @ s @ '')'')))))"

definition slot_summary :: "(js_num \<Rightarrow> string) \<Rightarrow> json \<Rightarrow> (thrown, string option) result" where
  "slot_summary num r =
     (case kind_of (prop_of r ''kind'') of
        Some Assertion \<Rightarrow> bind_ok (summarizeAssertion num r) (\<lambda>s. Inr (Some s))
      | Some Evaluation \<Rightarrow> bind_ok (summarizeEvaluation num r) (\<lambda>s. Inr (Some s))
      | Some Commitment \<Rightarrow> bind_ok (summarizeCommitment num r) (\<lambda>s. Inr (Some s))
      | None \<Rightarrow> Inr None)"

definition slot_entry :: "string \<Rightarrow> int \<Rightarrow> json \<Rightarrow> string option \<Rightarrow> string \<Rightarrow> json" where
  "slot_entry settlementId committedAt subject summary status =
     JObj ([(''settlementId'', JStr settlementId), (''committedAt'', JNum (Fin (of_int committedAt)))] @
       entry_if ''kind'' (prop_of subject ''kind'') @ entry_if ''key'' (prop_of subject ''key'') @
       (case summary of Some s \<Rightarrow> [(''summary'', JStr s)] | None \<Rightarrow> []) @ [(''status'', JStr status)])"

definition thinker_slot_entry :: "(js_num \<Rightarrow> string) \<Rightarrow> string \<Rightarrow> int \<Rightarrow> json \<Rightarrow> (thrown, json) result" where
  "thinker_slot_entry num settlementId committedAt op =
     (if is_upsert op
      then bind_ok (slot_summary num (op_record op)) (\<lambda>s.
        Inr (slot_entry settlementId committedAt (op_record op) s ''active''))
      else Inr (slot_entry settlementId committedAt (op_subject op) (Some ''(retracted)'') ''retracted''))"

definition buildCognitionSlotPayloadForThinker :: "(js_num \<Rightarrow> string) \<Rightarrow> json list \<Rightarrow> string \<Rightarrow> int \<Rightarrow> (thrown, json list) result" where
  "buildCognitionSlotPayloadForThinker num ops settlementId committedAt =
     each (thinker_slot_entry num settlementId committedAt) ops"

section \<open>The transaction of a turn\<close>

definition local_ref_index :: "string \<Rightarrow> string \<Rightarrow> episode_table \<Rightarrow> (string, local_kind \<times> node_ref) js_map" where
  "local_ref_index settlementId agentId t =
     fold (\<lambda>r m. case ep_sourceLocalRef (er_params r) of
         None \<Rightarrow> m
       | Some ref \<Rightarrow> if ref = [] then m else AList.update ref (Episode_ref, node Episode_kind (er_id r)) m)
       (readBySettlement settlementId agentId t) []"

definition cognition_by_key :: "string \<Rightarrow> json list \<Rightarrow> current_table \<Rightarrow> (string, cognition_kind \<times> node_ref) js_map" where
  "cognition_by_key agentId ops t =
     fold (\<lambda>op m. case getCurrent agentId (record_key (op_record op)) t of
         None \<Rightarrow> m
       | Some row \<Rightarrow> AList.update (record_key (op_record op)) (cc_kind row, cognition_ref row) m)
       (filter is_upsert ops) []"

definition is_contested :: "json \<Rightarrow> bool" where
  "is_contested op \<longleftrightarrow> is_upsert op \<and> kind_of (prop_of (op_record op) ''kind'') = Some Assertion \<and>
     prop_of (op_record op) ''stance'' = Some (JStr ''contested'')"

definition contested_assertions :: "json list \<Rightarrow> (string, cognition_kind \<times> node_ref) js_map \<Rightarrow> (string \<times> node_ref) list" where
  "contested_assertions ops index =
     List.map_filter (\<lambda>op. map_option (\<lambda>(k, n). (record_key (op_record op), n)) (map_of index (record_key (op_record op))))
       (filter is_contested ops)"

definition episode_owner :: "episode_table \<Rightarrow> int \<Rightarrow> string option" where
  "episode_owner t i = map_option (\<lambda>r. ep_agentId (er_params r)) (episode_readById i t)"

record settled_turn =
  st_params :: settlement_params
  st_intents :: "relation_intent list"
  st_factors :: "conflict_factor list"

definition turn_refs :: "settlement_params \<Rightarrow> settlement_db \<Rightarrow> resolved_refs" where
  "turn_refs p db =
     \<lparr>rr_settlementId = sp_settlementId p, rr_agentId = sp_agentId p,
      rr_localRefIndex = local_ref_index (sp_settlementId p) (sp_agentId p) (sdb_episodes db),
      rr_cognitionByKey = cognition_by_key (sp_agentId p) (sp_cognitionOps p) (cg_current (sdb_cog db))\<rparr>"

text \<open>
  Both steps catch what they raise. An error of the server would abort the transaction; the
  checks before the statements leave none (lemmas \<open>relations_never_abort\<close> and \<open>contests_never_abort\<close>).
\<close>

definition relate_turn :: "settled_turn \<Rightarrow> int \<Rightarrow> settlement_db \<Rightarrow> settlement_db" where
  "relate_turn s clock db =
     (if st_intents s = [] then db
      else db\<lparr>sdb_relations := snd (materializeRelationIntents (st_intents s) (turn_refs (st_params s) db) clock (sdb_relations db))\<rparr>)"

definition contest_turn :: "settled_turn \<Rightarrow> int \<Rightarrow> settlement_db \<Rightarrow> (thrown, unit) result \<times> settlement_db" where
  "contest_turn s clock db =
     (let p = st_params s; cog = sdb_cog db;
          contested = contested_assertions (sp_cognitionOps p) (rr_cognitionByKey (turn_refs p db))
      in if st_factors s = [] \<and> contested = [] then (Inr (), db)
         else
           (let (factors, dropped) = resolveConflictFactors (st_factors s) (cg_current cog) None (sp_agentId p);
                (r, rdb) = applyContestConflictFactors (episode_owner (sdb_episodes db)) (sp_agentId p) (sp_settlementId p)
                  contested (map rf_nodeRef factors) (length dropped) clock
                  \<lparr>rd_current = cg_current cog, rd_relations = sdb_relations db\<rparr>
            in (r, db\<lparr>sdb_cog := cog\<lparr>cg_current := rd_current rdb\<rparr>, sdb_relations := rd_relations rdb\<rparr>)))"

definition thinker_slot_writer :: "(json list \<Rightarrow> json) \<Rightarrow> int option \<Rightarrow> int \<Rightarrow> slot_writer" where
  "thinker_slot_writer drv batchVersion clock = (\<lambda>sessionId agentId settlementId newEntries t.
     upsertRecentCognitionSlot drv sessionId agentId settlementId
       (case newEntries of Some e \<Rightarrow> Some e | None \<Rightarrow> Some (JArr []))
       (if batchVersion = None then Some Thinker else None) batchVersion clock t)"

definition settle_turn :: "(js_num \<Rightarrow> string) \<Rightarrow> (json list \<Rightarrow> json) \<Rightarrow> int option \<Rightarrow> settled_turn \<Rightarrow> int \<Rightarrow> settlement_db \<Rightarrow>
    (thrown, node_ref list) result \<times> settlement_db" where
  "settle_turn num drv batchVersion s clock db =
     (case commitSettlement num None (Some (thinker_slot_writer drv batchVersion clock)) (st_params s) clock db of
        (Inl e, db') \<Rightarrow> (Inl e, db')
      | (Inr refs, db') \<Rightarrow> (Inr refs, snd (contest_turn s clock (relate_turn s clock db'))))"

section \<open>The worker\<close>

record thinker_env =
  te_num :: "js_num \<Rightarrow> string"
  te_drv :: "json list \<Rightarrow> json"
  te_noSketch :: string
  te_sketchNote :: string
  te_instructions :: string
  te_hasLoop :: "string \<Rightarrow> bool"
  te_registered :: "string \<Rightarrow> bool"
  te_errorText :: "thrown \<Rightarrow> string"
  te_settlementLedger :: bool
  te_durableJobStore :: bool
  te_jobPersistence :: bool
  te_indexUpdater :: bool

record thinker_world =
  tw_memory :: settlement_db
  tw_jobs :: pg_db
  tw_ledger :: ledger
  tw_log :: sql_store
  tw_indexed :: "(string \<times> node_ref list) list"

definition ledger_do :: "thinker_env \<Rightarrow> (ledger \<Rightarrow> ledger) \<Rightarrow> thinker_world \<Rightarrow> thinker_world" where
  "ledger_do env f w = (if te_settlementLedger env then w\<lparr>tw_ledger := f (tw_ledger w)\<rparr> else w)"

definition role_of :: "json option \<Rightarrow> chat_role option" where
  "role_of v = (case string_of v of Some s \<Rightarrow>
     if s = ''user'' then Some User_role else if s = ''assistant'' then Some Assistant_role else None | None \<Rightarrow> None)"

definition chat_text :: "chat_role \<Rightarrow> string \<Rightarrow> chat_message" where
  "chat_text r s = \<lparr>cm_role = r, cm_content = Text_content s, cm_toolCallId = None\<rparr>"

definition toConversationMessages :: "(js_num \<Rightarrow> string) \<Rightarrow> interaction_record list \<Rightarrow> chat_message list" where
  "toConversationMessages num records =
     List.map_filter (\<lambda>r. map_option (\<lambda>role. chat_text role
         (case prop_of (ir_payload r) ''content'' of None \<Rightarrow> [] | Some JNull \<Rightarrow> [] | Some v \<Rightarrow> js_String num v))
       (role_of (prop_of (ir_payload r) ''role'')))
       (filter (\<lambda>r. ir_recordType r = ''message'') records)"

abbreviation newline :: string where
  "newline \<equiv> [CHR 0x0A]"

definition sketch_context :: "thinker_env \<Rightarrow> batch_plan \<Rightarrow> json \<Rightarrow> chat_message list" where
  "sketch_context env plan settlement =
     (let generate = ''Now generate full privateCognition, privateEpisodes, publications, areaStateArtifacts via submit_rp_turn.''
      in if bp_batchMode plan then
           (let sketchless = length (filter (\<lambda>e. prefix ''(no explicit sketch'' (sk_sketch e)) (bp_chain plan));
                note = (if sketchless > 0
                  then newline @ ''Note: '' @ nat_str sketchless @ '' of '' @ nat_str (length (bp_chain plan)) @
                    '' turns had no explicit sketch from Talker '' @ te_sketchNote env @ newline else [])
            in [chat_text User_role (''[Thinker context] Cognitive sketches from Talker (batch):'' @ newline @
                 join_with newline (map (\<lambda>e. ''[Turn '' @ int_str (sk_version e) @ ''] '' @ sk_sketch e) (bp_chain plan)) @ newline @
                 note @ newline @ generate)])
         else (case text_prop settlement ''cognitiveSketch'' of
             [] \<Rightarrow> []
           | s \<Rightarrow> [chat_text User_role (''[Thinker context] Cognitive sketch from Talker: '' @ s @ newline @ newline @ generate)]))"

definition thinker_request :: "thinker_env \<Rightarrow> thinker_payload \<Rightarrow> batch_plan \<Rightarrow> json \<Rightarrow> sql_store \<Rightarrow> agent_request" where
  "thinker_request env p plan settlement st =
     \<lparr>rq_sessionId = tp_sessionId p, rq_requestId = tp_settlementId p,
      rq_messages = toConversationMessages (te_num env) (sql_getMessageRecords (tp_sessionId p) False st) @
        sketch_context env plan settlement @ [chat_text User_role (te_instructions env)],
      rq_delegationDepth = None, rq_isTalkerMode = False\<rparr>"

definition thinker_plan :: "thinker_env \<Rightarrow> thinker_payload \<Rightarrow> int \<Rightarrow> thinker_world \<Rightarrow> batch_plan" where
  "thinker_plan env p now w =
     (if te_durableJobStore env
      then plan_batch (te_jobPersistence env) (te_noSketch env) (\<lambda>i. sql_getSettlementPayload (tp_sessionId p) i (tw_log w)) p
        (map snd (listPendingByKindAndPayload Cognition_thinker (tp_sessionId p) (tp_agentId p) now (tw_jobs w)))
      else single_turn p)"

definition enqueue_splits :: "thinker_payload \<Rightarrow> sketch list list \<Rightarrow> int \<Rightarrow> pg_db \<Rightarrow> pg_db" where
  "enqueue_splits p subs now db = fold (\<lambda>sub d. snd (persist_enqueue (split_entry p sub) now d)) subs db"

definition run_failed :: "thinker_env \<Rightarrow> thinker_payload \<Rightarrow> batch_plan \<Rightarrow> thrown \<Rightarrow> int \<Rightarrow> thinker_world \<Rightarrow>
    thinker_world" where
  "run_failed env p plan e now w =
     (let mark = (\<lambda>i. markFailed i (te_errorText env e) True now);
          w1 = ledger_do env (mark (tp_settlementId p)) w
      in if bp_batchMode plan \<and> bp_settlementId plan \<noteq> tp_settlementId p then ledger_do env (mark (bp_settlementId plan)) w1
         else w1)"

definition thinker_version_of :: "thinker_payload \<Rightarrow> settlement_db \<Rightarrow> int option" where
  "thinker_version_of p db =
     map_option (\<lambda>(_, _, _, _, v). v) (slot_getBySession (tp_sessionId p) (tp_agentId p) (sdb_slots db))"

datatype begun = Skipped | Failing thrown | Thinking batch_plan json agent_request

definition thinker_begin :: "thinker_env \<Rightarrow> thinker_payload \<Rightarrow> int \<Rightarrow> thinker_world \<Rightarrow> begun \<times> thinker_world" where
  "thinker_begin env p now w =
     (if (case thinker_version_of p (tw_memory w) of Some v \<Rightarrow> v \<ge> tp_talkerTurnVersion p | None \<Rightarrow> False)
      then (Skipped, ledger_do env (markReplayedNoop (tp_settlementId p) now) w)
      else
        (let plan = thinker_plan env p now w;
             w1 = w\<lparr>tw_jobs := enqueue_splits p (bp_split plan) now (tw_jobs w)\<rparr>
         in case sql_getSettlementPayload (tp_sessionId p) (request_id (bp_settlementId plan)) (tw_log w) of
              None \<Rightarrow> (Failing Plain_error, run_failed env p plan Plain_error now w1)
            | Some settlement \<Rightarrow>
                if \<not> te_hasLoop env (tp_agentId p) \<or> \<not> te_registered env (tp_agentId p)
                then (Failing Plain_error, run_failed env p plan Plain_error now w1)
                else (Thinking plan settlement (thinker_request env p plan settlement (tw_log w)), w1)))"

text \<open>The location of the viewer, a whole number where it is given.\<close>

definition viewer_location :: "json \<Rightarrow> int option" where
  "viewer_location settlement =
     (case prop_of settlement ''viewerSnapshot'' of
        Some v \<Rightarrow> (case prop_of v ''currentLocationEntityId'' of Some (JNum (Fin q)) \<Rightarrow> Some \<lfloor>q\<rfloor> | _ \<Rightarrow> None)
      | None \<Rightarrow> None)"

definition turn_of :: "thinker_env \<Rightarrow> thinker_payload \<Rightarrow> batch_plan \<Rightarrow> json \<Rightarrow> int \<Rightarrow> json \<Rightarrow> (thrown, settled_turn) result" where
  "turn_of env p plan settlement committedAt outcome =
     bind_ok (normalizeRpTurnOutcome (Some (sanitizeThinkerOutcome outcome))) (\<lambda>canonical.
     bind_ok (buildCognitionSlotPayloadForThinker (te_num env) (outcome_ops canonical) (bp_settlementId plan) committedAt) (\<lambda>entries.
       Inr \<lparr>st_params =
           \<lparr>sp_settlementId = bp_settlementId plan, sp_sessionId = tp_sessionId p, sp_agentId = tp_agentId p,
            sp_cognitionOps = outcome_ops canonical, sp_privateEpisodes = list_prop canonical ''privateEpisodes'',
            sp_publications = list_prop canonical ''publications'', sp_locationEntityId = viewer_location settlement,
            sp_recentCognitionSlot = Some (to_json (JArr entries)), sp_areaStateArtifacts = [],
            sp_committedAt = Some committedAt\<rparr>,
         st_intents = map intent_of (list_prop canonical ''relationIntents''),
         st_factors = map factor_of (list_prop canonical ''conflictFactors'')\<rparr>))"

definition should_update_index :: "json list \<Rightarrow> bool" where
  "should_update_index ops \<longleftrightarrow> length ops \<ge> 3 \<or>
     list_ex (\<lambda>op. is_upsert op \<and> prop_of (op_record op) ''stance'' = Some (JStr ''contested'')) ops"

definition after_commit :: "thinker_env \<Rightarrow> thinker_payload \<Rightarrow> batch_plan \<Rightarrow> json list \<Rightarrow> node_ref list \<Rightarrow> int \<Rightarrow> thinker_world \<Rightarrow>
    thinker_world" where
  "after_commit env p plan ops refs now w =
     (let w1 = ledger_do env (markApplied (bp_settlementId plan) now) w;
          w2 = (if bp_batchMode plan
            then fold (\<lambda>i. ledger_do env (markReplayedNoop i now)) (filter (\<lambda>i. i \<noteq> bp_settlementId plan) (bp_members plan)) w1
            else w1);
          w3 = (if te_indexUpdater env \<and> should_update_index ops
            then w2\<lparr>tw_indexed := tw_indexed w2 @ [(tp_agentId p, refs)]\<rparr> else w2)
      in if te_jobPersistence env \<and> refs \<noteq> []
         then w3\<lparr>tw_jobs := snd (enqueueOrganizerJobs (tp_agentId p) (bp_settlementId plan) refs ORGANIZER_CHUNK_SIZE now (tw_jobs w3))\<rparr>
         else w3)"

definition thinker_end :: "thinker_env \<Rightarrow> thinker_payload \<Rightarrow> batch_plan \<Rightarrow> json \<Rightarrow> buffered_result \<Rightarrow> int \<Rightarrow> int \<Rightarrow>
    thinker_world \<Rightarrow> (thrown, unit) result \<times> thinker_world" where
  "thinker_end env p plan settlement result committedAt now w =
     (case (case result of
         Buffered_error \<Rightarrow> Inl Plain_error
       | Buffered_throws e \<Rightarrow> Inl e
       | Buffered_outcome outcome \<Rightarrow> turn_of env p plan settlement committedAt outcome) of
        Inl e \<Rightarrow> (Inl e, run_failed env p plan e now w)
      | Inr turn \<Rightarrow>
          (let w1 = ledger_do env (\<lambda>t. snd (markThinkerProjecting (bp_settlementId plan) (tp_agentId p) now t)) w
           in case transaction (settle_turn (te_num env) (te_drv env) (if bp_batchMode plan then Some (bp_highest plan) else None)
                    turn now) (tw_memory w1) of
                (Inl e, _) \<Rightarrow> (Inl e, run_failed env p plan e now w1)
              | (Inr refs, memory) \<Rightarrow>
                  (Inr (), after_commit env p plan (sp_cognitionOps (st_params turn)) refs now (w1\<lparr>tw_memory := memory\<rparr>))))"

section \<open>Batches\<close>

interpretation turn_order: ranked "\<lambda>a b. tp_talkerTurnVersion a < tp_talkerTurnVersion b" tp_talkerTurnVersion
  by unfold_locales simp

lemma concat_chunks: "0 < n \<Longrightarrow> concat (chunks_of n xs) = xs"
  by (induction n xs rule: chunks_of.induct) (simp add: chunks_of.simps)

lemma in_chunks:
  "c \<in> set (chunks_of n xs) \<Longrightarrow> c \<noteq> [] \<and> length c \<le> n \<and> (\<exists>ys zs. xs = ys @ c @ zs)"
proof (induction n xs rule: chunks_of.induct)
  case (1 n xs)
  show ?case
  proof (cases "n = 0 \<or> xs = []")
    case True
    with 1(2) show ?thesis by (simp add: chunks_of.simps)
  next
    case False
    with 1(2) consider "c = take n xs" | "c \<in> set (chunks_of n (drop n xs))" by (auto simp: chunks_of.simps [of n xs])
    then show ?thesis
    proof cases
      case 1
      with False show ?thesis by (metis append_Nil append_take_drop_id length_take min.cobounded2 take_eq_Nil)
    next
      case 2
      with "1.IH" [OF False] obtain ys zs where "c \<noteq> []" "length c \<le> n" "drop n xs = ys @ c @ zs" by blast
      then show ?thesis by (metis append.assoc append_take_drop_id)
    qed
  qed
qed

text \<open>The sketch of a turn whose settlement is there.\<close>

definition turn_sketch :: "string \<Rightarrow> (string \<Rightarrow> json option) \<Rightarrow> thinker_payload \<Rightarrow> sketch" where
  "turn_sketch noSketch load q =
     \<lparr>sk_version = tp_talkerTurnVersion q, sk_settlementId = tp_settlementId q,
      sk_sketch = sketch_of noSketch (the (load (request_id (tp_settlementId q))))\<rparr>"

abbreviation settlement_found :: "(string \<Rightarrow> json option) \<Rightarrow> thinker_payload \<Rightarrow> bool" where
  "settlement_found load q \<equiv> load (request_id (tp_settlementId q)) \<noteq> None"

lemma load_chain_eq:
  "load_chain noSketch load qs = map (turn_sketch noSketch load) (takeWhile (settlement_found load) qs)"
  by (induction qs) (auto simp: turn_sketch_def)

lemma turn_sketch_sel [simp]:
  "sk_version (turn_sketch n l q) = tp_talkerTurnVersion q" "sk_settlementId (turn_sketch n l q) = tp_settlementId q"
  by (simp_all add: turn_sketch_def)

lemma all_turns_sorted: "sorted_wrt (\<lambda>a b. tp_talkerTurnVersion a \<le> tp_talkerTurnVersion b) (all_turns p pending)"
  using turn_order.sorted_sort_by [of "p # filter (\<lambda>q. tp_talkerTurnVersion q \<noteq> tp_talkerTurnVersion p) pending"]
  by (simp add: all_turns_def not_less)

lemma set_all_turns:
  "set (all_turns p pending) = insert p {q \<in> set pending. tp_talkerTurnVersion q \<noteq> tp_talkerTurnVersion p}"
  by (auto simp: all_turns_def)

text \<open>A plan for several turns: the chain is cut to its newest sketches, and its tail split off.\<close>

lemma plan_batch_cases:
  assumes "plan = plan_batch canSplit noSketch load p pending"
  obtains "plan = single_turn p"
      "filter (\<lambda>q. tp_talkerTurnVersion q \<noteq> tp_talkerTurnVersion p) pending = [] \<or>
       length (takeWhile (settlement_found load) (all_turns p pending)) \<le> 1"
  | mine rest where "takeWhile (settlement_found load) (all_turns p pending) =
        take (length (takeWhile (settlement_found load) (all_turns p pending)) - BATCH_SOFT_CAP)
          (takeWhile (settlement_found load) (all_turns p pending)) @ mine @ rest"
      "length (mine @ rest) \<le> BATCH_SOFT_CAP" "mine \<noteq> []" "canSplit \<Longrightarrow> length mine \<le> BATCH_SPLIT_THRESHOLD"
      "\<not> canSplit \<Longrightarrow> rest = []"
      "plan = \<lparr>bp_batchMode = True, bp_chain = map (turn_sketch noSketch load) mine,
        bp_highest = tp_talkerTurnVersion (last mine), bp_settlementId = tp_settlementId (last mine),
        bp_members = map tp_settlementId (filter (\<lambda>q. tp_talkerTurnVersion q \<le> tp_talkerTurnVersion (last mine)) (all_turns p pending)),
        bp_split = map (map (turn_sketch noSketch load)) (chunks_of BATCH_SPLIT_THRESHOLD rest)\<rparr>"
proof -
  let ?found = "takeWhile (settlement_found load) (all_turns p pending)"
  let ?f = "turn_sketch noSketch load"
  have chunks_map: "chunks_of n (map ?f xs) = map (map ?f) (chunks_of n xs)" for n xs
    by (induction n xs rule: chunks_of.induct) (auto simp: chunks_of.simps take_map drop_map)
  show thesis
  proof (cases "filter (\<lambda>q. tp_talkerTurnVersion q \<noteq> tp_talkerTurnVersion p) pending = [] \<or> length ?found \<le> 1")
    case True
    then have "plan = single_turn p"
      unfolding assms by (auto simp: plan_batch_def load_chain_eq Let_def)
    then show thesis using True by (rule that(1))
  next
    case False
    define capped where "capped = drop (length ?found - BATCH_SOFT_CAP) ?found"
    define splits where "splits \<longleftrightarrow> length capped > BATCH_SPLIT_THRESHOLD \<and> canSplit"
    define mine where "mine = (if splits then take BATCH_SPLIT_THRESHOLD capped else capped)"
    define rest where "rest = drop (length mine) capped"
    have "length ?found - BATCH_SOFT_CAP < length ?found" using False unfolding BATCH_SOFT_CAP_def by linarith
    then have capped: "capped = mine @ rest" "capped \<noteq> []" "length capped \<le> BATCH_SOFT_CAP"
      by (simp_all add: mine_def rest_def min_def, simp_all add: capped_def)
    have "?found = take (length ?found - BATCH_SOFT_CAP) ?found @ mine @ rest"
      unfolding capped(1) [symmetric] by (simp add: capped_def)
    moreover have "mine \<noteq> []" using capped(2) by (auto simp: mine_def BATCH_SPLIT_THRESHOLD_def)
    moreover have "canSplit \<Longrightarrow> length mine \<le> BATCH_SPLIT_THRESHOLD" "\<not> canSplit \<Longrightarrow> rest = []"
      by (auto simp: mine_def rest_def splits_def)
    moreover have rest_eq: "rest = (if splits then drop BATCH_SPLIT_THRESHOLD capped else [])"
      by (auto simp: mine_def rest_def splits_def)
    have cap: "(if length ?found > BATCH_SOFT_CAP then drop (length ?found - BATCH_SOFT_CAP) (map ?f ?found) else map ?f ?found) = map ?f capped"
      by (simp add: capped_def drop_map)
    have tail: "(if splits then chunks_of BATCH_SPLIT_THRESHOLD (drop BATCH_SPLIT_THRESHOLD (map ?f capped)) else []) =
        map (map ?f) (chunks_of BATCH_SPLIT_THRESHOLD rest)"
      by (simp add: rest_eq drop_map chunks_map chunks_of.simps [of _ "[]"])
    have mine_map: "(if splits then take BATCH_SPLIT_THRESHOLD (map ?f capped) else map ?f capped) = map ?f mine"
      by (simp add: mine_def take_map)
    have "plan = \<lparr>bp_batchMode = True, bp_chain = map ?f mine,
        bp_highest = tp_talkerTurnVersion (last mine), bp_settlementId = tp_settlementId (last mine),
        bp_members = map tp_settlementId (filter (\<lambda>q. tp_talkerTurnVersion q \<le> tp_talkerTurnVersion (last mine)) (all_turns p pending)),
        bp_split = map (map ?f) (chunks_of BATCH_SPLIT_THRESHOLD rest)\<rparr>"
      using False \<open>mine \<noteq> []\<close> unfolding assms plan_batch_def load_chain_eq Let_def length_map cap
      by (simp add: splits_def [symmetric] mine_map tail last_map)
    ultimately show thesis using capped that(2) by blast
  qed
qed

text \<open>
  The jobs of the parts that are split off: one row each, unless a job with its key is there, and
  no row that was there is changed.
\<close>

abbreviation split_row :: "thinker_payload \<Rightarrow> int \<Rightarrow> sketch list \<Rightarrow> job_row" where
  "split_row p now sub \<equiv> pending_row (toEnqueueInput (split_entry p sub) now) (stringify (JVal (JObj [])))"

lemma split_row_sel:
  "r_job_key (split_row p now sub) = je_id (split_entry p sub)" "r_status (split_row p now sub) = Pg_pending"
  "r_job_type (split_row p now sub) = Cognition_thinker" "r_next_attempt_at (split_row p now sub) = now"
  "row_payload (r_payload_json (split_row p now sub)) = Some (split_payload p sub)"
  by (simp_all add: pending_row_def toEnqueueInput_def split_entry_def rebuild_of_def payload_json_def
      thinker_payload_of_def prop_of_def get_prop_def)

lemma split_key: "je_id (split_entry p s) = je_id (split_entry p t) \<longleftrightarrow> sk_settlementId (last s) = sk_settlementId (last t)"
  by (simp add: split_entry_def)

lemma enqueue_split:
  "snd (persist_enqueue (split_entry p sub) now db) =
     (if job_key_taken (je_id (split_entry p sub)) db then db else insert_row (split_row p now sub) db)"
proof (cases "row_by_key (je_id (split_entry p sub)) db")
  case None
  then have "\<not> job_key_taken (je_id (split_entry p sub)) db" by (auto simp: row_by_key_def job_key_taken_def find_None_iff)
  with None show ?thesis
    by (simp add: persist_enqueue_def enqueue_def enqueue_in_def toEnqueueInput_def family_taken_def split_entry_def Let_def)
next
  case (Some r)
  then have "job_key_taken (je_id (split_entry p sub)) db" by (auto simp: row_by_key_def job_key_taken_def dest: find_SomeD)
  with Some show ?thesis by (simp add: persist_enqueue_def enqueue_def enqueue_in_def toEnqueueInput_def)
qed

lemma enqueue_splits_rows:
  "(\<exists>new. jobs_current (enqueue_splits p subs now db) = jobs_current db @ new \<and> set new \<subseteq> split_row p now ` set subs) \<and>
   (\<forall>sub \<in> set subs. job_key_taken (je_id (split_entry p sub)) (enqueue_splits p subs now db))"
proof (induction subs arbitrary: db)
  case Nil
  show ?case by (simp add: enqueue_splits_def)
next
  case (Cons sub subs)
  let ?db1 = "snd (persist_enqueue (split_entry p sub) now db)"
  have rest: "enqueue_splits p (sub # subs) now db = enqueue_splits p subs now ?db1" by (simp add: enqueue_splits_def)
  obtain one where one: "jobs_current ?db1 = jobs_current db @ one" "set one \<subseteq> {split_row p now sub}"
    and taken: "job_key_taken (je_id (split_entry p sub)) ?db1"
    by (cases "job_key_taken (je_id (split_entry p sub)) db")
       (auto simp: enqueue_split insert_row_def job_key_taken_def split_row_sel)
  from Cons.IH [of ?db1] obtain new where new: "jobs_current (enqueue_splits p subs now ?db1) = jobs_current ?db1 @ new"
      "set new \<subseteq> split_row p now ` set subs"
    and all: "\<forall>s \<in> set subs. job_key_taken (je_id (split_entry p s)) (enqueue_splits p subs now ?db1)" by blast
  have "job_key_taken (je_id (split_entry p sub)) (enqueue_splits p subs now ?db1)"
    using taken by (auto simp: job_key_taken_def new(1))
  moreover have "set (one @ new) \<subseteq> split_row p now ` set (sub # subs)" using one(2) new(2) by auto
  ultimately show ?case using all unfolding rest new(1) one(1) by auto
qed

definition split_waits :: "thinker_payload \<Rightarrow> sketch list list \<Rightarrow> sketch list \<Rightarrow> int \<Rightarrow> pg_db \<Rightarrow> bool" where
  "split_waits p subs sub now db \<longleftrightarrow>
     (\<exists>r s. row_by_key (je_id (split_entry p sub)) db = Some r \<and> r_job_type r = Cognition_thinker \<and> r_status r = Pg_pending \<and>
        r_next_attempt_at r = now \<and> s \<in> set subs \<and> sk_settlementId (last s) = sk_settlementId (last sub) \<and>
        row_payload (r_payload_json r) = Some (split_payload p s))"

lemma splits_wait:
  assumes "sub \<in> set subs" "\<not> job_key_taken (je_id (split_entry p sub)) db"
  shows "split_waits p subs sub now (enqueue_splits p subs now db)"
proof -
  let ?db = "enqueue_splits p subs now db"
  from enqueue_splits_rows [of p subs now db] assms(1) obtain new where new: "jobs_current ?db = jobs_current db @ new"
      "set new \<subseteq> split_row p now ` set subs" and "job_key_taken (je_id (split_entry p sub)) ?db" by blast
  then have "row_by_key (je_id (split_entry p sub)) ?db \<noteq> None"
    unfolding row_by_key_def job_key_taken_def find_None_iff by blast
  then obtain r where r: "row_by_key (je_id (split_entry p sub)) ?db = Some r" by blast
  then have "r \<in> set (jobs_current ?db)" "r_job_key r = je_id (split_entry p sub)"
    by (auto simp: row_by_key_def dest: find_SomeD)
  with new assms(2) obtain s where s: "s \<in> set subs" "r = split_row p now s" by (auto simp: job_key_taken_def)
  have "sk_settlementId (last s) = sk_settlementId (last sub)"
    using \<open>r_job_key r = _\<close> by (simp only: s(2) split_row_sel split_key)
  with r s show ?thesis
    unfolding split_waits_def by (intro exI [of _ r] exI [of _ s]) (simp only: split_row_sel simp_thms)
qed

text \<open>Where the turns go: into the batch or into a part.\<close>

lemma plan_covers:
  assumes "list_all (settlement_found load) (p # pending)"
    and plan: "plan = plan_batch canSplit noSketch load p pending" and q: "q \<in> set (all_turns p pending)"
  shows "(tp_settlementId q \<in> set (bp_members plan) \<and> tp_talkerTurnVersion q \<le> bp_highest plan \<or>
      (\<exists>sub \<in> set (bp_split plan). turn_sketch noSketch load q \<in> set sub)) \<and>
    (bp_batchMode plan \<longrightarrow> (\<exists>older. map (turn_sketch noSketch load) (all_turns p pending) =
       older @ bp_chain plan @ concat (bp_split plan) \<and>
       (older \<noteq> [] \<longrightarrow> length (bp_chain plan @ concat (bp_split plan)) = BATCH_SOFT_CAP))) \<and>
    (canSplit \<longrightarrow> length (bp_chain plan) \<le> BATCH_SPLIT_THRESHOLD) \<and>
    list_all (\<lambda>sub. sub \<noteq> [] \<and> length sub \<le> BATCH_SPLIT_THRESHOLD \<and>
      list_all (\<lambda>s. bp_highest plan \<le> sk_version s \<and> sk_version s \<le> tp_talkerTurnVersion (split_payload p sub)) sub) (bp_split plan)"
proof -
  let ?f = "turn_sketch noSketch load" and ?all = "all_turns p pending"
  have found: "takeWhile (settlement_found load) ?all = ?all"
    using assms(1) by (auto simp: takeWhile_eq_all_conv set_all_turns list_all_iff)
  from plan show ?thesis
  proof (cases rule: plan_batch_cases)
    case 1
    have "length ?all = 1 + length (filter (\<lambda>q. tp_talkerTurnVersion q \<noteq> tp_talkerTurnVersion p) pending)"
      by (simp add: all_turns_def)
    with 1(2) have "filter (\<lambda>q. tp_talkerTurnVersion q \<noteq> tp_talkerTurnVersion p) pending = []"
      unfolding found by (simp only: One_nat_def list.size length_0_conv [symmetric]) linarith
    then have "?all = [p]" by (simp only: all_turns_def sort_by.simps insert_by.simps)
    with q 1(1) show ?thesis by (simp add: single_turn_def)
  next
    case (2 mine rest)
    define older where "older = take (length ?all - BATCH_SOFT_CAP) ?all"
    have all: "?all = older @ mine @ rest" using 2(1) unfolding found older_def .
    have sorted: "sorted_wrt (\<lambda>a b. tp_talkerTurnVersion a \<le> tp_talkerTurnVersion b) (older @ mine @ rest)"
      using all_turns_sorted [of p pending] unfolding all .
    have last: "last mine \<in> set mine" using 2(3) by simp
    have low: "tp_talkerTurnVersion x \<le> tp_talkerTurnVersion (last mine)" if "x \<in> set (older @ mine)" for x
    proof (cases "x \<in> set older")
      case True
      with sorted last show ?thesis by (auto simp: sorted_wrt_append)
    next
      case False
      with that have "x \<in> set (butlast mine @ [last mine])" using 2(3) by simp
      moreover have "sorted_wrt (\<lambda>a b. tp_talkerTurnVersion a \<le> tp_talkerTurnVersion b) (butlast mine @ [last mine])"
        using sorted 2(3) by (simp add: sorted_wrt_append)
      ultimately show ?thesis by (auto simp: sorted_wrt_append)
    qed
    have covered: "tp_settlementId q \<in> set (bp_members plan) \<and> tp_talkerTurnVersion q \<le> bp_highest plan \<or>
      (\<exists>sub \<in> set (bp_split plan). ?f q \<in> set sub)"
    proof (cases "q \<in> set rest")
      case True
      then have "q \<in> set (concat (chunks_of BATCH_SPLIT_THRESHOLD rest))"
        by (simp only: concat_chunks BATCH_SPLIT_THRESHOLD_def zero_less_numeral)
      then show ?thesis unfolding 2(6) by auto
    next
      case False
      with q all have "q \<in> set (older @ mine)" by auto
      from low [OF this] q show ?thesis unfolding 2(6) by simp
    qed
    have split: "sub \<noteq> [] \<and> length sub \<le> BATCH_SPLIT_THRESHOLD \<and>
        list_all (\<lambda>s. bp_highest plan \<le> sk_version s \<and> sk_version s \<le> tp_talkerTurnVersion (split_payload p sub)) sub"
      if "sub \<in> set (bp_split plan)" for sub
    proof -
      from that obtain c where c: "sub = map ?f c" "c \<in> set (chunks_of BATCH_SPLIT_THRESHOLD rest)" unfolding 2(6) by auto
      from in_chunks [OF c(2)] obtain ys zs where r: "c \<noteq> []" "length c \<le> BATCH_SPLIT_THRESHOLD" "rest = ys @ c @ zs" by blast
      have "tp_talkerTurnVersion (last mine) \<le> tp_talkerTurnVersion x" if "x \<in> set c" for x
        using sorted last that r(3) by (auto simp: sorted_wrt_append)
      moreover have "tp_talkerTurnVersion x \<le> tp_talkerTurnVersion (last c)" if "x \<in> set c" for x
      proof -
        have "sorted_wrt (\<lambda>a b. tp_talkerTurnVersion a \<le> tp_talkerTurnVersion b) (butlast c @ [last c])"
          using sorted r(1,3) by (simp add: sorted_wrt_append)
        moreover have "x \<in> set (butlast c @ [last c])" using that r(1) by simp
        ultimately show ?thesis by (auto simp: sorted_wrt_append)
      qed
      ultimately show ?thesis using r(1,2) unfolding c(1) 2(6) by (simp add: split_payload_def last_map list_all_iff)
    qed
    have "concat (bp_split plan) = map ?f rest"
      unfolding 2(6) by (simp add: map_concat [symmetric] concat_chunks BATCH_SPLIT_THRESHOLD_def)
    then have "map ?f ?all = map ?f older @ bp_chain plan @ concat (bp_split plan)" unfolding all 2(6) by simp
    moreover have "length (bp_chain plan @ concat (bp_split plan)) = BATCH_SOFT_CAP" if "map ?f older \<noteq> []"
    proof -
      have "length ?all - BATCH_SOFT_CAP > 0" using that by (auto simp: older_def)
      then have "length older + BATCH_SOFT_CAP = length ?all" by (simp add: older_def)
      then show ?thesis using \<open>concat _ = _\<close> unfolding all 2(6) by simp
    qed
    ultimately show ?thesis using covered split 2(4) by (auto simp: 2(6) list_all_iff)
  qed
qed

text \<open>
  Property (C18): no pending turn is lost by a batch. If the settlements of all pending turns are
  found, every one of them is a member of the batch or its sketch is in a part that is split off.
  A part has one to three sketches; once the parts are enqueued there is a pending job for it, due
  at once and naming the settlement of its last turn, unless a job had that key before, and the rows
  that were there are as they were. The batch has the newest twenty sketches, three if it may
  split; older turns are members without their sketch.
\<close>

theorem batch_covers_turns:
  assumes "list_all (settlement_found load) (p # pending)"
    and plan: "plan = plan_batch canSplit noSketch load p pending" and q: "q \<in> set (all_turns p pending)"
    and enqueued: "db' = enqueue_splits p (bp_split plan) now db"
  shows "(tp_settlementId q \<in> set (bp_members plan) \<and> tp_talkerTurnVersion q \<le> bp_highest plan \<or>
      (\<exists>sub \<in> set (bp_split plan). turn_sketch noSketch load q \<in> set sub \<and>
         (job_key_taken (je_id (split_entry p sub)) db \<or> split_waits p (bp_split plan) sub now db'))) \<and>
    (\<exists>new. jobs_current db' = jobs_current db @ new) \<and>
    (bp_batchMode plan \<longrightarrow> (\<exists>older. map (turn_sketch noSketch load) (all_turns p pending) =
       older @ bp_chain plan @ concat (bp_split plan) \<and>
       (older \<noteq> [] \<longrightarrow> length (bp_chain plan @ concat (bp_split plan)) = BATCH_SOFT_CAP))) \<and>
    (canSplit \<longrightarrow> length (bp_chain plan) \<le> BATCH_SPLIT_THRESHOLD) \<and>
    list_all (\<lambda>sub. sub \<noteq> [] \<and> length sub \<le> BATCH_SPLIT_THRESHOLD \<and>
      list_all (\<lambda>s. bp_highest plan \<le> sk_version s \<and> sk_version s \<le> tp_talkerTurnVersion (split_payload p sub)) sub) (bp_split plan)"
proof -
  note covers = plan_covers [OF assms(1) plan q]
  have first: "tp_settlementId q \<in> set (bp_members plan) \<and> tp_talkerTurnVersion q \<le> bp_highest plan \<or>
      (\<exists>sub \<in> set (bp_split plan). turn_sketch noSketch load q \<in> set sub \<and>
         (job_key_taken (je_id (split_entry p sub)) db \<or> split_waits p (bp_split plan) sub now db'))"
    using conjunct1 [OF covers] splits_wait unfolding enqueued by blast
  have rows: "\<exists>new. jobs_current db' = jobs_current db @ new"
    using enqueue_splits_rows [of p "bp_split plan" now db] unfolding enqueued by blast
  show ?thesis by (rule conjI [OF first conjI [OF rows conjunct2 [OF covers]]])
qed

theorem batch_covers_turns_witness:
  "turn_sketch ''none'' (\<lambda>_. Some (JObj [])) \<lparr>tp_sessionId = ''s'', tp_agentId = ''mei'', tp_settlementId = ''stl:5'', tp_talkerTurnVersion = 5\<rparr>
     \<in> set (concat (bp_split (plan_batch True ''none'' (\<lambda>_. Some (JObj []))
         \<lparr>tp_sessionId = ''s'', tp_agentId = ''mei'', tp_settlementId = ''stl:2'', tp_talkerTurnVersion = 2\<rparr>
         (map (\<lambda>v. \<lparr>tp_sessionId = ''s'', tp_agentId = ''mei'', tp_settlementId = ''stl:'' @ nat_str v, tp_talkerTurnVersion = int v\<rparr>) [3, 1, 5, 4])))) \<and>
   map (\<lambda>r. (r_status r, map_option tp_settlementId (row_payload (r_payload_json r)))) (jobs_current (enqueue_splits
         \<lparr>tp_sessionId = ''s'', tp_agentId = ''mei'', tp_settlementId = ''stl:2'', tp_talkerTurnVersion = 2\<rparr>
         (bp_split (plan_batch True ''none'' (\<lambda>_. Some (JObj []))
           \<lparr>tp_sessionId = ''s'', tp_agentId = ''mei'', tp_settlementId = ''stl:2'', tp_talkerTurnVersion = 2\<rparr>
           (map (\<lambda>v. \<lparr>tp_sessionId = ''s'', tp_agentId = ''mei'', tp_settlementId = ''stl:'' @ nat_str v, tp_talkerTurnVersion = int v\<rparr>) [3, 1, 5, 4])))
         9 empty_db)) = [(Pg_pending, Some ''stl:5'')]"
proof -
  let ?turn = "\<lambda>v. \<lparr>tp_sessionId = ''s'', tp_agentId = ''mei'', tp_settlementId = ''stl:'' @ nat_str v, tp_talkerTurnVersion = int v\<rparr>"
  let ?q = "\<lparr>tp_sessionId = ''s'', tp_agentId = ''mei'', tp_settlementId = ''stl:5'', tp_talkerTurnVersion = 5\<rparr>"
  let ?p = "\<lparr>tp_sessionId = ''s'', tp_agentId = ''mei'', tp_settlementId = ''stl:2'', tp_talkerTurnVersion = 2\<rparr>"
  let ?load = "\<lambda>_::string. Some (JObj [])" and ?pending = "map ?turn [3, 1, 5, 4]"
  have found: "list_all (settlement_found ?load) (?p # ?pending)" by simp
  have q: "?q \<in> set (all_turns ?p ?pending)" by code_simp
  let ?plan = "plan_batch True ''none'' ?load ?p ?pending"
  have "tp_settlementId ?q \<in> set (bp_members ?plan) \<and> tp_talkerTurnVersion ?q \<le> bp_highest ?plan \<or>
    (\<exists>sub \<in> set (bp_split ?plan). turn_sketch ''none'' ?load ?q \<in> set sub \<and>
       (job_key_taken (je_id (split_entry ?p sub)) empty_db \<or>
        split_waits ?p (bp_split ?plan) sub 9 (enqueue_splits ?p (bp_split ?plan) 9 empty_db)))"
    using batch_covers_turns [OF found refl q refl, where canSplit = True and noSketch = "''none''"] by (rule conjunct1)
  moreover have "\<not> tp_talkerTurnVersion ?q \<le> bp_highest ?plan" by code_simp
  ultimately have split: "turn_sketch ''none'' ?load ?q \<in> set (concat (bp_split ?plan))" by auto
  have "map (\<lambda>r. (r_status r, map_option tp_settlementId (row_payload (r_payload_json r))))
      (jobs_current (enqueue_splits ?p (bp_split ?plan) 9 empty_db)) = [(Pg_pending, Some ''stl:5'')]"
    by code_simp
  with split show ?thesis by (rule conjI)
qed

text \<open>
  A chain cut off before the job's own turn leaves that turn to nobody: the batch settles only
  turns before it, and the job is done.
\<close>

lemma truncated_batch_leaves_own_turn:
  assumes plan: "plan = plan_batch canSplit noSketch load p pending"
    and "p \<notin> set (takeWhile (settlement_found load) (all_turns p pending))"
    and "length (takeWhile (settlement_found load) (all_turns p pending)) > 1"
  shows "bp_highest plan < tp_talkerTurnVersion p"
  using plan
proof (cases rule: plan_batch_cases)
  case 1
  then have "all_turns p pending = [p]" using assms(3) by (auto simp: all_turns_def)
  with assms(3) have "length (takeWhile (settlement_found load) [p]) > 1" by simp
  then show ?thesis by (simp split: if_splits)
next
  case (2 mine rest)
  let ?found = "takeWhile (settlement_found load) (all_turns p pending)"
  let ?q = "last mine"
  have "?q \<in> set (take (length ?found - BATCH_SOFT_CAP) ?found @ mine @ rest)" using 2(3) by simp
  then have q: "?q \<in> set ?found" by (simp only: 2(1) [symmetric])
  then have all: "?q \<in> set (all_turns p pending)" by (auto dest: set_takeWhileD)
  with q assms(2) have "tp_talkerTurnVersion ?q \<noteq> tp_talkerTurnVersion p" by (auto simp: set_all_turns)
  moreover have "tp_talkerTurnVersion ?q \<le> tp_talkerTurnVersion p"
  proof -
    define rest' where "rest' = dropWhile (settlement_found load) (all_turns p pending)"
    have split: "all_turns p pending = ?found @ rest'" unfolding rest'_def by simp
    have "p \<in> set (all_turns p pending)" by (simp add: set_all_turns)
    then have "p \<in> set (?found @ rest')" by (simp only: split [symmetric])
    with assms(2) have p: "p \<in> set rest'" by (simp only: set_append Un_iff) blast
    have "sorted_wrt (\<lambda>a b. tp_talkerTurnVersion a \<le> tp_talkerTurnVersion b) (?found @ rest')"
      by (simp only: split [symmetric] all_turns_sorted)
    then show ?thesis using q p unfolding sorted_wrt_append by blast
  qed
  ultimately show ?thesis unfolding 2(6) by simp
qed

end
