(* ===== verification/Thinker_Runs.thy ===== *)
theory Thinker_Runs
  imports Thinker
begin

text \<open>
  What runs of the thinker (theory \<open>Thinker\<close>) guarantee: a turn is settled entirely or not at
  all, which turns a run leaves for later ones, and which outcomes no run can settle.
\<close>

section \<open>The transaction of a turn\<close>

text \<open>Identifiers of rows are positive and below the next one, which stays below \<open>n\<close>.\<close>

definition ids_below :: "int \<Rightarrow> current_table \<Rightarrow> bool" where
  "ids_below n t \<longleftrightarrow> 0 < ct_next t \<and> ct_next t \<le> n \<and> list_all (\<lambda>r. 0 < cc_id r \<and> cc_id r < ct_next t) (ct_rows t)"

lemma ids_update_where:
  assumes "\<And>r. cc_id (f r) = cc_id r"
  shows "list_all (\<lambda>r. Q (cc_id r)) (update_where p f rs) = list_all (\<lambda>r. Q (cc_id r)) rs"
  by (induction rs) (simp_all add: assms table_simps)

lemma ids_upsertFromEvent:
  assumes "ids_below n t"
  shows "ids_below (n + 1) (upsertFromEvent num e t)"
proof -
  have keep: "cc_id (retract_row e r) = cc_id r" "cc_id (event_merge num e r) = cc_id r" for r by simp_all
  note ids = ids_update_where [where f = "retract_row e", OF keep(1)] ids_update_where [where f = "event_merge num e", OF keep(2)]
  have up: "list_all (\<lambda>r. 0 < cc_id r \<and> cc_id r < k + 1) rs" if "list_all (\<lambda>r. 0 < cc_id r \<and> cc_id r < k) rs" for k and rs :: "current_row list"
    using that by (auto simp: list_all_iff)
  show ?thesis
    using assms up [of "ct_next t" "ct_rows t"]
    by (simp add: upsertFromEvent_eq applyRetract_def upsert_current_def ids_below_def
        ids(1) [where Q = "\<lambda>i. 0 < i \<and> i < ct_next t"] ids(2) [where Q = "\<lambda>i. 0 < i \<and> i \<le> ct_next t"]
        split: option.split)
qed

lemma ids_commit_op:
  assumes "ids_below n (cg_current (sdb_cog (snd s)))"
  shows "ids_below (n + 1) (cg_current (sdb_cog (snd (snd (commit_op num p now clock op s)))))"
proof -
  have "ids_below (n + 1) (cg_current (sdb_cog (snd s)))" using assms by (simp add: ids_below_def)
  then show ?thesis
    using ids_upsertFromEvent [OF assms] by (auto simp: commit_op_def Let_def split: option.split prod.split)
qed

lemma ids_commit_ops:
  "ids_below n (cg_current (sdb_cog (snd s))) \<Longrightarrow>
   ids_below (n + int (length ops)) (cg_current (sdb_cog (snd (snd (run_series (map (commit_op num p now clock) ops) s)))))"
proof (induction ops arbitrary: n s)
  case (Cons op ops)
  have mono: "ids_below m t \<Longrightarrow> m \<le> k \<Longrightarrow> ids_below k t" for m k t by (simp add: ids_below_def)
  obtain r s' where c: "commit_op num p now clock op s = (r, s')" by (cases "commit_op num p now clock op s")
  with ids_commit_op [OF Cons.prems, of num p now clock op] have s': "ids_below (n + 1) (cg_current (sdb_cog (snd s')))" by simp
  from Cons.IH [OF this] mono [OF s'] show ?case by (cases r) (simp_all add: c add.assoc)
qed simp

lemma ids_commit:
  assumes "ids_below n (cg_current (sdb_cog db))"
  shows "ids_below (n + int (length (sp_cognitionOps p))) (cg_current (sdb_cog (snd (commitSettlement num None slotRepo p clock db))))"
proof -
  let ?now = "case sp_committedAt p of Some t \<Rightarrow> t | None \<Rightarrow> clock"
  let ?m = "n + int (length (sp_cognitionOps p))"
  let ?P = "\<lambda>k (s :: commit_state). ids_below k (cg_current (sdb_cog (snd s)))"
  have mono: "?P k s \<Longrightarrow> k \<le> k' \<Longrightarrow> ?P k' s" for k k' s by (simp add: ids_below_def)
  have plain: "sdb_cog (snd (snd (append_episode p ?now clock e s))) = sdb_cog (snd s)"
    "sdb_cog (snd (snd (write_slot slotRepo p s))) = sdb_cog (snd s)"
    "sdb_cog (snd (snd (upsert_area_artifact p ?now a s))) = sdb_cog (snd s)"
    "sdb_cog (snd (snd (materializePublicationsSafe None p ?now s))) = sdb_cog (snd s)" for e a s
    by (auto simp: append_episode_def write_slot_def upsert_area_artifact_def materializePublicationsSafe_def
        split: option.splits prod.splits sum.splits)
  let ?eps = "map (append_episode p ?now clock) (sp_privateEpisodes p)"
  let ?ops = "map (commit_op num p ?now clock) (sp_cognitionOps p)"
  let ?rest = "[write_slot slotRepo p] @ map (upsert_area_artifact p ?now) (sp_areaStateArtifacts p) @ [materializePublicationsSafe None p ?now]"
  obtain r1 s1 where 1: "run_series ?eps ([], db) = (r1, s1)" by (metis surj_pair)
  obtain r2 s2 where 2: "run_series ?ops s1 = (r2, s2)" by (metis surj_pair)
  have "?P n (snd (run_series ?eps ([], db)))"
    by (rule run_series_keeps [where P = "?P n"]) (auto simp: plain assms)
  then have P1: "?P n s1" by (simp add: 1)
  have P2: "?P ?m s2" using ids_commit_ops [OF P1, where num = num and p = p and now = ?now and clock = clock and ops = "sp_cognitionOps p"] by (simp only: 2 snd_conv)
  have P3: "?P ?m (snd (run_series ?rest s2))"
    by (rule run_series_keeps [where P = "?P ?m", OF _ P2]) (auto simp: plain)
  have "?P ?m (snd (run_series (commit_steps num None slotRepo p clock) ([], db)))"
    using mono [OF P1, of ?m] P2 P3
    by (cases r1; cases r2) (simp_all add: commit_steps_def Let_def run_series_append [of ?eps] run_series_append [of ?ops] 1 2
        del: append.simps)
  then show ?thesis by (auto simp: commitSettlement_def split: prod.splits sum.splits)
qed

text \<open>Contested rows keep their identifiers and kinds, so references to them resolve alike.\<close>

lemma conflict_marked_sel [simp]:
  "cc_agent (conflict_marked s j now r) = cc_agent r" "cc_key (conflict_marked s j now r) = cc_key r"
  "cc_id (conflict_marked s j now r) = cc_id r" "cc_kind (conflict_marked s j now r) = cc_kind r"
  by (simp_all add: conflict_marked_def)

lemma getCurrent_marked:
  "getCurrent a k (t\<lparr>ct_rows := update_where (\<lambda>r. cc_agent r = a' \<and> cc_key r \<in> ks) (conflict_marked s j now) (ct_rows t)\<rparr>) =
   map_option (\<lambda>r. if a = a' \<and> k \<in> ks then conflict_marked s j now r else r) (getCurrent a k t)"
proof -
  have "find (at_key a k) (update_where (\<lambda>r. cc_agent r = a' \<and> cc_key r \<in> ks) (conflict_marked s j now) rs) =
      map_option (\<lambda>r. if a = a' \<and> k \<in> ks then conflict_marked s j now r else r) (find (at_key a k) rs)" for rs
    by (induction rs) (auto simp: table_simps)
  then show ?thesis by (simp add: getCurrent_def)
qed

lemma cognition_by_key_marked:
  "cognition_by_key a ops (t\<lparr>ct_rows := update_where (\<lambda>r. cc_agent r = a' \<and> cc_key r \<in> ks) (conflict_marked s j now) (ct_rows t)\<rparr>) =
   cognition_by_key a ops t"
proof -
  let ?t = "t\<lparr>ct_rows := update_where (\<lambda>r. cc_agent r = a' \<and> cc_key r \<in> ks) (conflict_marked s j now) (ct_rows t)\<rparr>"
  have "(case getCurrent a k ?t of None \<Rightarrow> m | Some row \<Rightarrow> AList.update k (cc_kind row, cognition_ref row) m) =
      (case getCurrent a k t of None \<Rightarrow> m | Some row \<Rightarrow> AList.update k (cc_kind row, cognition_ref row) m)" for k m
    by (simp add: getCurrent_marked cognition_ref_def split: option.split)
  then show ?thesis by (simp add: cognition_by_key_def)
qed

lemma cognition_by_key_row:
  assumes "map_of (cognition_by_key a ops t) k = Some (kd, n)"
  shows "\<exists>row. getCurrent a k t = Some row \<and> kd = cc_kind row \<and> n = cognition_ref row"
proof -
  let ?add = "\<lambda>op m. case getCurrent a (record_key (op_record op)) t of None \<Rightarrow> m
    | Some row \<Rightarrow> AList.update (record_key (op_record op)) (cc_kind row, cognition_ref row) m"
  have "map_of (fold ?add xs m) k = Some (kd, n) \<Longrightarrow>
      map_of m k = Some (kd, n) \<or> (\<exists>row. getCurrent a k t = Some row \<and> kd = cc_kind row \<and> n = cognition_ref row)" for xs m
  proof (induction xs arbitrary: m)
    case (Cons op xs)
    then have "map_of (fold ?add xs (?add op m)) k = Some (kd, n)" by simp
    from Cons.IH [OF this] show ?case by (auto simp: update_conv' split: option.splits if_splits)
  qed simp
  from this [of "filter is_upsert ops" "[]"] assms show ?thesis by (simp add: cognition_by_key_def)
qed

lemma contested_refs_valid:
  assumes "ids_below (2 ^ 63) t"
  shows "list_all (\<lambda>c. \<exists>kd i. valid_id i \<and> snd c = source_ref kd i) (contested_assertions ops (cognition_by_key a ops t))"
proof -
  have "\<exists>kd i. valid_id i \<and> n = source_ref kd i" if n: "map_of (cognition_by_key a ops t) k = Some (kd, n)" for k kd n
  proof -
    from cognition_by_key_row [OF n] obtain row where row: "getCurrent a k t = Some row" "n = cognition_ref row" by blast
    then have "row \<in> set (ct_rows t)" by (auto simp: getCurrent_def find_Some_iff)
    with assms have "valid_id (cc_id row)" by (auto simp: ids_below_def list_all_iff valid_id_def)
    with row(2) show ?thesis by (auto simp: cognition_ref_def)
  qed
  then show ?thesis by (auto simp: contested_assertions_def list_all_iff in_set_conv_decomp map_filter_def split: option.splits)
qed

text \<open>The keys of the relations that a turn's intents stand for: all of them, or none if one is refused.\<close>

definition intent_keys :: "relation_intent list \<Rightarrow> resolved_refs \<Rightarrow> (node_ref \<times> node_ref \<times> string \<times> string \<times> string) set" where
  "intent_keys intents refs =
     (case validateRelationIntents intents refs of
        Inl _ \<Rightarrow> {}
      | Inr vs \<Rightarrow> {(s, g, ty, ''turn'', rr_settlementId refs) | s g ty. (ty, s, g) \<in> set vs \<and> s \<noteq> g})"

lemma validate_types:
  assumes "validateRelationIntents intents refs = Inr vs"
  shows "list_all (\<lambda>v. fst v \<in> {''supports'', ''triggered''}) vs"
  using assms
proof (induction intents arbitrary: vs)
  case (Cons i xs)
  have one: "fst v \<in> {''supports'', ''triggered''}" if "validate_intent refs i = Inr v" for v
    using that by (auto simp: validate_intent_def bind_ok_def split: if_splits sum.splits endpoint_kind.splits)
  from Cons.prems obtain v ws where "validate_intent refs i = Inr v" "validateRelationIntents xs refs = Inr ws" "vs = v # ws"
    by (auto simp: validateRelationIntents_def bind_ok_def split: sum.splits)
  with Cons.IH one show ?case by auto
qed (simp add: validateRelationIntents_def)

lemma relations_never_abort:
  obtains rs rels where "sdb_relations (relate_turn s clock db) = rels" "written rs (sdb_relations db) rels"
    "set (relation_keys rs) = intent_keys (st_intents s) (turn_refs (st_params s) db)"
    "relate_turn s clock db = db\<lparr>sdb_relations := rels\<rparr>"
    "case materializeRelationIntents (st_intents s) (turn_refs (st_params s) db) clock (sdb_relations db) of
       (Inl e, t) \<Rightarrow> validateRelationIntents (st_intents s) (turn_refs (st_params s) db) = Inl e \<and> t = sdb_relations db
     | (Inr _, _) \<Rightarrow> True"
proof -
  let ?refs = "turn_refs (st_params s) db" and ?t = "sdb_relations db"
  have same: "db\<lparr>sdb_relations := ?t\<rparr> = db" by simp
  show thesis
  proof (cases "validateRelationIntents (st_intents s) ?refs")
    case (Inl e)
    then have "st_intents s \<noteq> []" by (auto simp: validateRelationIntents_def)
    with Inl same show thesis
      by (intro that [where rels = ?t and rs = "[]"]) (simp_all add: relate_turn_def materializeRelationIntents_def intent_keys_def)
  next
    case (Inr vs)
    from materialize_valid [OF Inr validate_types [OF Inr], of clock ?t] obtain t' where
      t': "materializeRelationIntents (st_intents s) ?refs clock ?t = (Inr (length (turn_rows ?refs clock vs)), t')"
      "written (turn_rows ?refs clock vs) ?t t'" by blast
    have keys: "set (relation_keys (turn_rows ?refs clock vs)) = intent_keys (st_intents s) ?refs"
      unfolding turn_rows_keys intent_keys_def Inr by force
    show thesis
    proof (cases "st_intents s = []")
      case True
      with Inr have "vs = []" by (simp add: validateRelationIntents_def)
      with True Inr same show thesis
        by (intro that [where rels = ?t and rs = "[]"]) (simp_all add: relate_turn_def intent_keys_def materializeRelationIntents_def)
    next
      case False
      with t' keys show thesis by (intro that [where rels = t' and rs = "turn_rows ?refs clock vs"]) (simp_all add: relate_turn_def)
    qed
  qed
qed

text \<open>The contested assertions of a turn, and the factors that are valid references.\<close>

definition turn_contested :: "settled_turn \<Rightarrow> settlement_db \<Rightarrow> (string \<times> node_ref) list" where
  "turn_contested s db = contested_assertions (sp_cognitionOps (st_params s)) (rr_cognitionByKey (turn_refs (st_params s) db))"

definition turn_factors :: "settled_turn \<Rightarrow> settlement_db \<Rightarrow> node_ref list" where
  "turn_factors s db =
     valid_refs (map rf_nodeRef (fst (resolveConflictFactors (st_factors s) (cg_current (sdb_cog db)) None (sp_agentId (st_params s)))))"

lemma apply_contests:
  "applyContestConflictFactors owner a sid contested refs dropped now db =
   run_series (map (contest_one owner a sid (valid_refs refs) (contest_summary (length (valid_refs refs)) dropped) now) contested) db"
  by (simp add: applyContestConflictFactors_def normalize_refs contest_summary_def Let_def)

lemma contests_never_abort:
  assumes "ids_below (2 ^ 63) (cg_current (sdb_cog db))"
  obtains rs rels j where "contest_turn s clock db = (Inr (), db\<lparr>sdb_cog := (sdb_cog db)\<lparr>cg_current := (cg_current (sdb_cog db))\<lparr>ct_rows :=
      update_where (\<lambda>r. cc_agent r = sp_agentId (st_params s) \<and> cc_key r \<in> fst ` set (turn_contested s db))
        (conflict_marked j (JArr (map JStr (turn_factors s db))) clock) (ct_rows (cg_current (sdb_cog db)))\<rparr>\<rparr>, sdb_relations := rels\<rparr>)"
    "written rs (sdb_relations db) rels"
    "set (relation_keys rs) = contest_keys (turn_contested s db) (turn_factors s db) (sp_settlementId (st_params s))"
proof -
  let ?p = "st_params s" and ?cog = "sdb_cog db"
  let ?contested = "turn_contested s db" and ?refs = "turn_factors s db"
  obtain factors dropped where f: "resolveConflictFactors (st_factors s) (cg_current ?cog) None (sp_agentId ?p) = (factors, dropped)"
    by fastforce
  have refs: "?refs = valid_refs (map rf_nodeRef factors)" by (simp add: turn_factors_def f)
  let ?sum = "contest_summary (length ?refs) (length dropped)"
  let ?rdb = "\<lparr>rd_current = cg_current ?cog, rd_relations = sdb_relations db\<rparr>"
  have "list_all is_factor_ref ?refs" by (simp add: refs valid_refs_def list_all_iff)
  moreover have "list_all (\<lambda>c. \<exists>kd i. valid_id i \<and> snd c = source_ref kd i) ?contested"
    using contested_refs_valid [OF assms] by (simp add: turn_contested_def turn_refs_def)
  ultimately obtain rels rs where run: "run_series (map (contest_one (episode_owner (sdb_episodes db)) (sp_agentId ?p) (sp_settlementId ?p) ?refs ?sum clock) ?contested) ?rdb =
      (Inr (), \<lparr>rd_current = (cg_current ?cog)\<lparr>ct_rows :=
         update_where (\<lambda>r. cc_agent r = sp_agentId ?p \<and> cc_key r \<in> fst ` set ?contested)
           (conflict_marked ?sum (JArr (map JStr ?refs)) clock) (ct_rows (cg_current ?cog))\<rparr>, rd_relations = rels\<rparr>)"
    and w: "written rs (sdb_relations db) rels"
    and keys: "set (relation_keys rs) = contest_keys ?contested ?refs (sp_settlementId ?p)"
    using contest_all_written [of ?refs ?contested "episode_owner (sdb_episodes db)" "sp_agentId ?p" "sp_settlementId ?p" ?sum clock ?rdb]
    by (simp only: relation_db.select_convs) blast
  have apply_eq: "applyContestConflictFactors (episode_owner (sdb_episodes db)) (sp_agentId ?p) (sp_settlementId ?p) ?contested
      (map rf_nodeRef factors) (length dropped) clock ?rdb =
    run_series (map (contest_one (episode_owner (sdb_episodes db)) (sp_agentId ?p) (sp_settlementId ?p) ?refs ?sum clock) ?contested) ?rdb"
    unfolding refs by (rule apply_contests)
  show thesis
  proof (cases "st_factors s = [] \<and> ?contested = []")
    case True
    then have same: "contest_turn s clock db = (Inr (), db)" by (simp add: contest_turn_def turn_contested_def Let_def)
    have none: "update_where (\<lambda>r. cc_agent r = sp_agentId ?p \<and> cc_key r \<in> fst ` set ?contested) h rows = rows" for h rows
      using True by (simp add: update_where_def)
    have "contest_keys ?contested ?refs (sp_settlementId ?p) = {}" using True by (simp add: contest_keys_def)
    then show thesis by (intro that [where rels = "sdb_relations db" and rs = "[]" and j = ?sum]) (simp_all add: same none)
  next
    case False
    then have "contest_turn s clock db = (Inr (), db\<lparr>sdb_cog := ?cog\<lparr>cg_current := (cg_current ?cog)\<lparr>ct_rows :=
         update_where (\<lambda>r. cc_agent r = sp_agentId ?p \<and> cc_key r \<in> fst ` set ?contested)
           (conflict_marked ?sum (JArr (map JStr ?refs)) clock) (ct_rows (cg_current ?cog))\<rparr>\<rparr>, sdb_relations := rels\<rparr>)"
      unfolding contest_turn_def Let_def f turn_contested_def [symmetric] if_not_P [OF False] prod.case apply_eq run by simp
    then show thesis using w keys by (rule that)
  qed
qed

lemma turn_marked:
  assumes "db' = db\<lparr>sdb_cog := (sdb_cog db)\<lparr>cg_current := (cg_current (sdb_cog db))\<lparr>ct_rows :=
      update_where (\<lambda>r. cc_agent r = a \<and> cc_key r \<in> ks) (conflict_marked j f clock) (ct_rows (cg_current (sdb_cog db)))\<rparr>\<rparr>, sdb_relations := rels\<rparr>"
  shows "turn_refs p db' = turn_refs p db" "turn_contested s db' = turn_contested s db" "turn_factors s db' = turn_factors s db"
proof -
  show refs: "turn_refs p db' = turn_refs p db" for p
    by (simp add: turn_refs_def assms cognition_by_key_marked)
  then show "turn_contested s db' = turn_contested s db" by (simp add: turn_contested_def)
  have "map_option cognition_ref (getCurrent a' k (cg_current (sdb_cog db'))) = map_option cognition_ref (getCurrent a' k (cg_current (sdb_cog db)))" for a' k
    by (cases "getCurrent a' k (cg_current (sdb_cog db))") (simp_all add: assms getCurrent_marked cognition_ref_def)
  then have "resolve_factor (cg_current (sdb_cog db')) refs a' = resolve_factor (cg_current (sdb_cog db)) refs a'" for refs a'
    by (intro ext) (simp add: resolve_factor_def resolveFactorNodeRef_def Let_def split: option.split)
  then show "turn_factors s db' = turn_factors s db" by (simp add: turn_factors_def resolveConflictFactors_def)
qed

text \<open>
  What a settled turn leaves: its episodes and events as committed, and beyond the older relations
  exactly those of its intents, if all of them resolve, and of its contests; a relation that is
  none of these keeps its row.
\<close>

definition turn_settled :: "settled_turn \<Rightarrow> int \<Rightarrow> int \<Rightarrow> settlement_db \<Rightarrow> settlement_db \<Rightarrow> bool" where
  "turn_settled s now clock db db' \<longleftrightarrow>
     et_rows (sdb_episodes db') = et_rows (sdb_episodes db) @
       episode_rows clock (et_next (sdb_episodes db)) (map (episode_of (st_params s) now) (sp_privateEpisodes (st_params s))) \<and>
     cog_grows (sdb_cog db) (sdb_cog db') \<and>
     list_all (op_done (st_params s) now (cg_ledger (sdb_cog db'))) (sp_cognitionOps (st_params s)) \<and>
     relations_ok (sdb_relations db') \<and>
     set (relation_keys (sdb_relations db')) = set (relation_keys (sdb_relations db)) \<union>
       intent_keys (st_intents s) (turn_refs (st_params s) db') \<union>
       contest_keys (turn_contested s db') (turn_factors s db') (sp_settlementId (st_params s)) \<and>
     (\<forall>k. k \<notin> intent_keys (st_intents s) (turn_refs (st_params s) db') \<union>
         contest_keys (turn_contested s db') (turn_factors s db') (sp_settlementId (st_params s)) \<longrightarrow>
       relation_lookup (sdb_relations db') k = relation_lookup (sdb_relations db) k) \<and>
     list_all (\<lambda>c. Option.bind (getCurrent (sp_agentId (st_params s)) (fst c) (cg_current (sdb_cog db'))) cc_conflictFactorRefs =
       Some (JArr (map JStr (turn_factors s db')))) (turn_contested s db')"

lemma contested_has_row:
  assumes "c \<in> set (turn_contested s db)"
  shows "\<exists>row. getCurrent (sp_agentId (st_params s)) (fst c) (cg_current (sdb_cog db)) = Some row"
proof -
  from assms obtain kd where "map_of (cognition_by_key (sp_agentId (st_params s)) (sp_cognitionOps (st_params s))
      (cg_current (sdb_cog db))) (fst c) = Some (kd, snd c)"
    by (auto simp: turn_contested_def turn_refs_def contested_assertions_def map_filter_def)
  from cognition_by_key_row [OF this] show ?thesis by blast
qed

lemma settle_turn_outcome:
  assumes db: "0 < et_next (sdb_episodes db)" "relations_ok (sdb_relations db)" "sp_committedAt (st_params s) = Some now"
    and ids: "ids_below n (cg_current (sdb_cog db))" "n + int (length (sp_cognitionOps (st_params s))) \<le> 2 ^ 63"
    and slot: "thinker_slot_writer drv v clock (sp_sessionId (st_params s)) (sp_agentId (st_params s)) (sp_settlementId (st_params s))
      (sp_recentCognitionSlot (st_params s)) (sdb_slots db) = (Inr u, slots')"
  shows "if commit_accepted (st_params s) now db
    then \<exists>refs db'. settle_turn num drv v s clock db = (Inr refs, db') \<and> turn_settled s now clock db db' \<and> sdb_slots db' = slots'
    else isl (fst (settle_turn num drv v s clock db))"
proof (cases "commit_accepted (st_params s) now db")
  case False
  with commit_runs [where slotRepo = "thinker_slot_writer drv v clock", OF db(1,3) slot, of num clock]
  show ?thesis by (auto simp: settle_turn_def split: prod.splits sum.splits)
next
  case True
  let ?p = "st_params s"
  from True commit_runs [where slotRepo = "thinker_slot_writer drv v clock", OF db(1,3) slot, of num clock]
  obtain refs db1 where c: "commitSettlement num None (Some (thinker_slot_writer drv v clock)) ?p clock db = (Inr refs, db1)"
    and cm: "committed ?p now clock slots' db db1" by (simp only: if_True) blast
  have ids1: "ids_below (2 ^ 63) (cg_current (sdb_cog db1))"
    using ids_commit [OF ids(1), of ?p num "Some (thinker_slot_writer drv v clock)" clock] ids(2)
    by (simp add: c ids_below_def)
  obtain rs rels where rel: "written rs (sdb_relations db1) rels"
    "set (relation_keys rs) = intent_keys (st_intents s) (turn_refs ?p db1)"
    "relate_turn s clock db1 = db1\<lparr>sdb_relations := rels\<rparr>"
    by (rule relations_never_abort [of s clock db1])
  let ?db2 = "db1\<lparr>sdb_relations := rels\<rparr>"
  have ids2: "ids_below (2 ^ 63) (cg_current (sdb_cog ?db2))" using ids1 by simp
  obtain rs' rels' j where
    con: "contest_turn s clock ?db2 = (Inr (), ?db2\<lparr>sdb_cog := (sdb_cog ?db2)\<lparr>cg_current := (cg_current (sdb_cog ?db2))\<lparr>ct_rows :=
      update_where (\<lambda>r. cc_agent r = sp_agentId ?p \<and> cc_key r \<in> fst ` set (turn_contested s ?db2))
        (conflict_marked j (JArr (map JStr (turn_factors s ?db2))) clock) (ct_rows (cg_current (sdb_cog ?db2)))\<rparr>\<rparr>, sdb_relations := rels'\<rparr>)"
    and w': "written rs' (sdb_relations ?db2) rels'"
    and keys': "set (relation_keys rs') = contest_keys (turn_contested s ?db2) (turn_factors s ?db2) (sp_settlementId ?p)"
    by (rule contests_never_abort [OF ids2, of s clock])
  obtain db3 where db3: "contest_turn s clock ?db2 = (Inr (), db3)" and db3_eq: "db3 = ?db2\<lparr>sdb_cog := (sdb_cog ?db2)\<lparr>cg_current := (cg_current (sdb_cog ?db2))\<lparr>ct_rows :=
      update_where (\<lambda>r. cc_agent r = sp_agentId ?p \<and> cc_key r \<in> fst ` set (turn_contested s ?db2))
        (conflict_marked j (JArr (map JStr (turn_factors s ?db2))) clock) (ct_rows (cg_current (sdb_cog ?db2)))\<rparr>\<rparr>, sdb_relations := rels'\<rparr>"
    by (rule that [OF con refl])
  note same = turn_marked [OF db3_eq]
  have same2: "turn_refs q ?db2 = turn_refs q db1" for q by (simp add: turn_refs_def)
  have run: "settle_turn num drv v s clock db = (Inr refs, db3)"
    unfolding settle_turn_def c prod.case sum.case rel(3) db3 snd_conv by (rule refl)
  have "set (relation_keys rels') = set (relation_keys (sdb_relations db)) \<union> intent_keys (st_intents s) (turn_refs ?p db3) \<union>
      contest_keys (turn_contested s db3) (turn_factors s db3) (sp_settlementId ?p)"
    "relations_ok rels'"
    "\<forall>k. k \<notin> intent_keys (st_intents s) (turn_refs ?p db3) \<union>
        contest_keys (turn_contested s db3) (turn_factors s db3) (sp_settlementId ?p) \<longrightarrow>
      relation_lookup rels' k = relation_lookup (sdb_relations db) k"
    using rel(1,2) w' keys' cm db(2) unfolding same same2 written_def committed_def settlement_db.select_convs by auto
  moreover have "Option.bind (getCurrent (sp_agentId ?p) (fst c) (cg_current (sdb_cog db3))) cc_conflictFactorRefs =
      Some (JArr (map JStr (turn_factors s db3)))" if "c \<in> set (turn_contested s db3)" for c
  proof -
    from that have c: "c \<in> set (turn_contested s ?db2)" by (simp only: same)
    from contested_has_row [OF this] obtain row where row: "getCurrent (sp_agentId ?p) (fst c) (cg_current (sdb_cog ?db2)) = Some row" by blast
    have "fst c \<in> fst ` set (turn_contested s ?db2)" using c by blast
    moreover have "cg_current (sdb_cog db3) = (cg_current (sdb_cog ?db2))\<lparr>ct_rows :=
      update_where (\<lambda>r. cc_agent r = sp_agentId ?p \<and> cc_key r \<in> fst ` set (turn_contested s ?db2))
        (conflict_marked j (JArr (map JStr (turn_factors s ?db2))) clock) (ct_rows (cg_current (sdb_cog ?db2)))\<rparr>"
      by (simp add: db3_eq)
    ultimately show ?thesis using row by (simp only: getCurrent_marked same) (simp add: conflict_marked_def)
  qed
  ultimately have "turn_settled s now clock db db3 \<and> sdb_slots db3 = slots'"
    using cm by (simp add: turn_settled_def committed_def db3_eq cog_grows_def list_all_iff)
  with run True show ?thesis by auto
qed

section \<open>A run\<close>

lemma ledger_do_keeps [simp]:
  "tw_memory (ledger_do env f w) = tw_memory w" "tw_jobs (ledger_do env f w) = tw_jobs w" "tw_log (ledger_do env f w) = tw_log w"
  by (simp_all add: ledger_do_def)

lemma run_failed_keeps [simp]:
  "tw_memory (run_failed env p plan e now w) = tw_memory w" "tw_jobs (run_failed env p plan e now w) = tw_jobs w"
  by (simp_all add: run_failed_def Let_def)

lemma after_commit_memory [simp]: "tw_memory (after_commit env p plan ops refs now w) = tw_memory w"
proof -
  have "tw_memory (fold (\<lambda>i. ledger_do env (markReplayedNoop i now)) ms w) = tw_memory w" for w and ms :: "string list"
    by (induction ms arbitrary: w) simp_all
  then show ?thesis by (simp add: after_commit_def Let_def)
qed

text \<open>The committed version after a run.\<close>

definition next_version :: "batch_plan \<Rightarrow> int option \<Rightarrow> int" where
  "next_version plan v =
     (case v of
        None \<Rightarrow> if bp_batchMode plan then bp_highest plan else 1
      | Some n \<Rightarrow> if bp_batchMode plan then max n (bp_highest plan) else n + 1)"

lemma thinker_version_of_eq:
  "thinker_version_of p db = map_option cs_thinkerCommittedVersion (map_of (sdb_slots db) (tp_sessionId p, tp_agentId p))"
  by (simp add: thinker_version_of_def slot_getBySession_def option.map_comp comp_def)

lemma slot_writer_ok:
  "\<exists>u slots' s. thinker_slot_writer drv (if bp_batchMode plan then Some (bp_highest plan) else None) clock sid a stl e t = (Inr u, slots') \<and>
     map_of slots' (sid, a) = Some s \<and>
     cs_thinkerCommittedVersion s = next_version plan (map_option cs_thinkerCommittedVersion (map_of t (sid, a)))"
  by (cases "map_of t (sid, a)")
     (simp_all add: thinker_slot_writer_def upsertRecentCognitionSlot_def upsert_thinker_def upsert_version_def Let_def
       next_version_def update_conv')

lemma turn_of_params:
  assumes "turn_of env p plan settlement committedAt outcome = Inr turn"
  shows "sp_sessionId (st_params turn) = tp_sessionId p" "sp_agentId (st_params turn) = tp_agentId p"
    "sp_settlementId (st_params turn) = bp_settlementId plan" "sp_committedAt (st_params turn) = Some committedAt"
  using assms by (auto simp: turn_of_def bind_ok_def split: sum.splits)

lemma thinker_end_outcome:
  assumes turn: "turn_of env p plan settlement committedAt outcome = Inr turn"
    and db: "0 < et_next (sdb_episodes (tw_memory w))" "relations_ok (sdb_relations (tw_memory w))"
    and ids: "ids_below n (cg_current (sdb_cog (tw_memory w)))" "n + int (length (sp_cognitionOps (st_params turn))) \<le> 2 ^ 63"
  shows "case thinker_end env p plan settlement (Buffered_outcome outcome) committedAt now w of
      (Inl e, w') \<Rightarrow> \<not> commit_accepted (st_params turn) committedAt (tw_memory w) \<and>
        tw_memory w' = tw_memory w \<and> tw_jobs w' = tw_jobs w
    | (Inr _, w') \<Rightarrow> commit_accepted (st_params turn) committedAt (tw_memory w) \<and>
        turn_settled turn committedAt now (tw_memory w) (tw_memory w') \<and>
        thinker_version_of p (tw_memory w') = Some (next_version plan (thinker_version_of p (tw_memory w)))"
proof -
  let ?v = "if bp_batchMode plan then Some (bp_highest plan) else None"
  let ?db = "tw_memory w"
  note params = turn_of_params [OF turn]
  from slot_writer_ok [of "te_drv env" plan now "tp_sessionId p" "tp_agentId p" "bp_settlementId plan"
      "sp_recentCognitionSlot (st_params turn)" "sdb_slots ?db"]
  obtain u slots' s where slot: "thinker_slot_writer (te_drv env) ?v now (sp_sessionId (st_params turn)) (sp_agentId (st_params turn))
      (sp_settlementId (st_params turn)) (sp_recentCognitionSlot (st_params turn)) (sdb_slots ?db) = (Inr u, slots')"
    and s: "map_of slots' (tp_sessionId p, tp_agentId p) = Some s"
      "cs_thinkerCommittedVersion s = next_version plan (thinker_version_of p ?db)"
    unfolding params thinker_version_of_eq by blast
  note outcome = settle_turn_outcome [OF db params(4) ids slot, of "te_num env"]
  show ?thesis
  proof (cases "commit_accepted (st_params turn) committedAt ?db")
    case True
    with outcome obtain refs db' where *: "settle_turn (te_num env) (te_drv env) ?v turn now ?db = (Inr refs, db')"
      "turn_settled turn committedAt now ?db db'" "sdb_slots db' = slots'" by (simp only: if_True) blast
    have "thinker_version_of p db' = Some (next_version plan (thinker_version_of p ?db))"
      by (simp add: thinker_version_of_eq [of p db'] *(3) s)
    then show ?thesis using True *(1,2) by (simp add: thinker_end_def turn transaction_def Let_def)
  next
    case False
    with outcome obtain e db' where "settle_turn (te_num env) (te_drv env) ?v turn now ?db = (Inl e, db')"
      by (cases "settle_turn (te_num env) (te_drv env) ?v turn now ?db") (auto simp: isl_def)
    then show ?thesis using False by (simp add: thinker_end_def turn transaction_def Let_def)
  qed
qed

text \<open>
  What the loop's answer gives the settlement: nothing if the loop failed, and otherwise the turn
  built from the outcome, if the turn contract accepts it and it can be printed for the slot.
\<close>

definition turn_result :: "thinker_env \<Rightarrow> thinker_payload \<Rightarrow> batch_plan \<Rightarrow> json \<Rightarrow> int \<Rightarrow> buffered_result \<Rightarrow>
    (thrown, settled_turn) result" where
  "turn_result env p plan settlement committedAt result =
     (case result of
        Buffered_error \<Rightarrow> Inl Plain_error
      | Buffered_throws e \<Rightarrow> Inl e
      | Buffered_outcome outcome \<Rightarrow> turn_of env p plan settlement committedAt outcome)"

lemma thinker_end_no_turn:
  "turn_result env p plan settlement committedAt result = Inl e \<Longrightarrow>
   thinker_end env p plan settlement result committedAt now w = (Inl e, run_failed env p plan e now w)"
  by (simp add: thinker_end_def turn_result_def split: buffered_result.splits)

text \<open>
  Property (C17): once the agent loop has answered, a run of the thinker settles its turn entirely
  or leaves memory and jobs as they were. It fails exactly if the loop failed, the outcome is
  not accepted or cannot be printed, or the settlement is refused. A settled turn has all its
  episodes and events; the relations it adds are those of its intents, all of them or none if one
  cannot be resolved, and those of its contests, whose rows carry the valid factors, and every
  other relation keeps its row; and the committed version advances by one, or to the highest version
  of a batch. (The jobs split off before the loop is called are of the part before.)
\<close>

theorem thinker_settles_or_keeps:
  assumes "0 < et_next (sdb_episodes (tw_memory w))" "relations_ok (sdb_relations (tw_memory w))"
    and "ids_below n (cg_current (sdb_cog (tw_memory w)))"
    and "case turn_result env p plan settlement committedAt result of
        Inl _ \<Rightarrow> True | Inr turn \<Rightarrow> n + int (length (sp_cognitionOps (st_params turn))) \<le> 2 ^ 63"
  shows "case thinker_end env p plan settlement result committedAt now w of
      (Inl e, w') \<Rightarrow> tw_memory w' = tw_memory w \<and> tw_jobs w' = tw_jobs w \<and>
        (case turn_result env p plan settlement committedAt result of
           Inl e' \<Rightarrow> e = e'
         | Inr turn \<Rightarrow> \<not> commit_accepted (st_params turn) committedAt (tw_memory w))
    | (Inr _, w') \<Rightarrow>
        (case turn_result env p plan settlement committedAt result of
           Inl _ \<Rightarrow> False
         | Inr turn \<Rightarrow> commit_accepted (st_params turn) committedAt (tw_memory w) \<and>
             turn_settled turn committedAt now (tw_memory w) (tw_memory w') \<and>
             thinker_version_of p (tw_memory w') = Some (next_version plan (thinker_version_of p (tw_memory w))))"
proof (cases "turn_result env p plan settlement committedAt result")
  case (Inl e)
  then show ?thesis by (simp add: thinker_end_no_turn [OF Inl])
next
  case (Inr turn)
  then obtain outcome where outcome: "result = Buffered_outcome outcome"
    and turn: "turn_of env p plan settlement committedAt outcome = Inr turn"
    by (simp add: turn_result_def split: buffered_result.splits)
  have "n + int (length (sp_cognitionOps (st_params turn))) \<le> 2 ^ 63" using assms(4) by (simp add: Inr)
  from thinker_end_outcome [OF turn assms(1-3) this, of now] show ?thesis
    unfolding Inr sum.case unfolding outcome by (auto split: prod.splits sum.splits)
qed

text \<open>
  Property (C19): a run of a single turn advances the committed version by one, whatever the version
  of the turn. So after it exactly the turns up to the old version and one are skipped: if turn 2
  is settled while the run of turn 1 has failed, the retry of turn 1 is skipped as applied though
  nothing of it is in memory, and turn 2 is not recognised when it is delivered again.
\<close>

theorem failed_turn_is_skipped:
  assumes turn: "turn_of env p plan settlement committedAt outcome = Inr turn"
    and db: "0 < et_next (sdb_episodes (tw_memory w))" "relations_ok (sdb_relations (tw_memory w))"
    and ids: "ids_below n (cg_current (sdb_cog (tw_memory w)))" "n + int (length (sp_cognitionOps (st_params turn))) \<le> 2 ^ 63"
    and single: "\<not> bp_batchMode plan" "commit_accepted (st_params turn) committedAt (tw_memory w)"
    and q: "tp_sessionId q = tp_sessionId p" "tp_agentId q = tp_agentId p"
  shows "\<exists>w'. thinker_end env p plan settlement (Buffered_outcome outcome) committedAt now w = (Inr (), w') \<and>
    (fst (thinker_begin env q later w') = Skipped) =
      (tp_talkerTurnVersion q \<le> (case thinker_version_of p (tw_memory w) of None \<Rightarrow> 0 | Some v \<Rightarrow> v) + 1) \<and>
    tw_memory (snd (thinker_begin env q later w')) = tw_memory w'"
proof -
  obtain w' where w': "thinker_end env p plan settlement (Buffered_outcome outcome) committedAt now w = (Inr (), w')"
    "thinker_version_of p (tw_memory w') = Some (next_version plan (thinker_version_of p (tw_memory w)))"
    using thinker_end_outcome [OF turn db ids, of now] single(2)
    by (cases "thinker_end env p plan settlement (Buffered_outcome outcome) committedAt now w") (auto split: sum.splits)
  have "thinker_version_of q (tw_memory w') = thinker_version_of p (tw_memory w')"
    by (simp add: thinker_version_of_def q)
  then have "thinker_version_of q (tw_memory w') = Some ((case thinker_version_of p (tw_memory w) of None \<Rightarrow> 0 | Some v \<Rightarrow> v) + 1)"
    using w'(2) single(1) by (simp add: next_version_def split: option.splits)
  then have "(fst (thinker_begin env q later w') = Skipped) =
      (tp_talkerTurnVersion q \<le> (case thinker_version_of p (tw_memory w) of None \<Rightarrow> 0 | Some v \<Rightarrow> v) + 1)"
    by (simp add: thinker_begin_def Let_def split: option.split)
  moreover have "tw_memory (snd (thinker_begin env q later w')) = tw_memory w'"
    by (simp add: thinker_begin_def Let_def split: option.split)
  ultimately show ?thesis using w'(1) by blast
qed

lemma each_Inl: "x \<in> set xs \<Longrightarrow> isl (f x) \<Longrightarrow> isl (each f xs)"
  by (induction xs) (auto simp: bind_ok_def split: sum.splits)

text \<open>
  Property (C20): the turn contract accepts outcomes that no run can settle. It does not look into
  evaluations, so one without a target object, or without a list of dimensions, is accepted when
  the model submits it; but printing it for the slot of recent cognition fails, in every attempt,
  and with it the whole turn.
\<close>

theorem accepted_evaluation_fails:
  assumes "normalizeRpTurnOutcome (Some (sanitizeThinkerOutcome outcome)) = Inr v"
    and "op \<in> set (outcome_ops v)" "is_upsert op" "prop_of (op_record op) ''kind'' = Some (JStr ''evaluation'')"
    and "prop_of (op_record op) ''target'' = None \<or> prop_of (op_record op) ''dimensions'' = None"
  shows "\<exists>e. thinker_end env p plan settlement (Buffered_outcome outcome) committedAt now w = (Inl e, run_failed env p plan e now w)"
proof -
  have "isl (summarizeEvaluation num (op_record op))" for num
    using assms(5) by (auto simp: summarizeEvaluation_def refValue_def bind_ok_def split: sum.splits option.splits)
  then have ev: "\<exists>e. summarizeEvaluation num (op_record op) = Inl e" for num by (simp add: isl_def)
  have kind: "kind_of (prop_of (op_record op) ''kind'') = Some Evaluation"
    by (simp add: assms(4) kind_of_def kind_str_def)
  have "isl (thinker_slot_entry num settlementId committedAt op)" for num settlementId
  proof -
    obtain e where "summarizeEvaluation num (op_record op) = Inl e" using ev by blast
    then show ?thesis using assms(3) kind by (simp add: thinker_slot_entry_def slot_summary_def bind_ok_def)
  qed
  then have "isl (buildCognitionSlotPayloadForThinker (te_num env) (outcome_ops v) (bp_settlementId plan) committedAt)"
    unfolding buildCognitionSlotPayloadForThinker_def by (rule each_Inl [OF assms(2)])
  then obtain e where "turn_of env p plan settlement committedAt outcome = Inl e"
    by (auto simp: turn_of_def assms(1) bind_ok_def isl_def)
  then show ?thesis by (auto simp: thinker_end_def)
qed

section \<open>Organizer jobs\<close>

text \<open>The number in a job's key is padded with zeros, so chunks have different keys.\<close>

lemma digits_value_pad: "digits_value 10 (replicate n (CHR ''0'') @ s) = digits_value 10 s"
proof (induction n)
  case (Suc n)
  have "digits_value 10 (CHR ''0'' # t) = digits_value 10 t" for t by (simp add: digits_value_def digit_value_def is_digit_def)
  with Suc show ?case by simp
qed simp

lemma pad4_inj: "pad4 (nat_str i) = pad4 (nat_str j) \<Longrightarrow> i = j"
proof -
  assume "pad4 (nat_str i) = pad4 (nat_str j)"
  then have "digits_value 10 (pad4 (nat_str i)) = digits_value 10 (pad4 (nat_str j))" by simp
  then show ?thesis by (simp add: pad4_def digits_value_pad digits_value_nat_str)
qed

abbreviation entry_row :: "int \<Rightarrow> new_entry \<Rightarrow> job_row" where
  "entry_row now e \<equiv> pending_row (toEnqueueInput e now) (stringify (JVal (JObj [])))"

lemma enqueue_fresh:
  assumes "\<not> job_key_taken (je_id e) db" "je_jobType e \<noteq> Search_rebuild"
  shows "persist_enqueue e now db = (Inr (), insert_row (entry_row now e) db)"
proof -
  have "row_by_key (je_id e) db = None" using assms(1) by (auto simp: row_by_key_def job_key_taken_def find_None_iff)
  then show ?thesis
    using assms by (simp add: persist_enqueue_def enqueue_def enqueue_in_def toEnqueueInput_def family_taken_def Let_def)
qed

lemma enqueue_each_fresh:
  assumes "distinct (map je_id es)" "list_all (\<lambda>e. \<not> job_key_taken (je_id e) db \<and> je_jobType e \<noteq> Search_rebuild) es"
  shows "enqueue_each now es db = (Inr (), db\<lparr>jobs_current := jobs_current db @ map (entry_row now) es\<rparr>)"
  using assms
proof (induction es arbitrary: db)
  case (Cons e es)
  let ?db = "insert_row (entry_row now e) db"
  have "r_job_key (entry_row now e) = je_id e" by (simp add: pending_row_def toEnqueueInput_def)
  with Cons.prems have "list_all (\<lambda>x. \<not> job_key_taken (je_id x) ?db \<and> je_jobType x \<noteq> Search_rebuild) es"
    by (auto simp: list_all_iff job_key_taken_def insert_row_def)
  with Cons enqueue_fresh [of e db now] show ?case by (simp add: insert_row_def)
qed simp

lemma organizer_jobs_cover:
  assumes "0 < chunkSize"
    and "list_all (\<lambda>r. \<not> prefix (''memory.organize:'' @ settlementId @ '':chunk:'') (r_job_key r)) (jobs_current db)"
  shows "\<exists>chunks. concat chunks = js_unique refs \<and> list_all (\<lambda>c. c \<noteq> [] \<and> length c \<le> chunkSize) chunks \<and>
    enqueueOrganizerJobs agentId settlementId refs chunkSize now db = (Inr (), db\<lparr>jobs_current := jobs_current db @
      map (\<lambda>(i, c). entry_row now (organizer_entry agentId settlementId now i c)) (enumerate 0 chunks)\<rparr>)"
proof -
  let ?chunks = "chunks_of chunkSize (js_unique refs)"
  let ?es = "map (\<lambda>(i, c). organizer_entry agentId settlementId now i c) (enumerate 0 ?chunks)"
  have ids: "je_id (organizer_entry agentId settlementId now i c) = je_id (organizer_entry agentId settlementId now j d) \<Longrightarrow> i = j" for i j c d
    by (auto simp: organizer_entry_def dest: pad4_inj)
  have "map je_id ?es = map (\<lambda>i. je_id (organizer_entry agentId settlementId now i [])) (map fst (enumerate 0 ?chunks))"
    unfolding map_map by (intro map_cong refl) (auto simp: organizer_entry_def)
  moreover have "distinct (map fst (enumerate 0 ?chunks))" by simp
  ultimately have "distinct (map je_id ?es)"
    using ids by (auto simp: distinct_map inj_on_def)
  moreover have "list_all (\<lambda>e. \<not> job_key_taken (je_id e) db \<and> je_jobType e \<noteq> Search_rebuild) ?es"
    using assms(2) by (auto simp: list_all_iff job_key_taken_def organizer_entry_def prefix_def)
  ultimately have "enqueue_each now ?es db = (Inr (), db\<lparr>jobs_current := jobs_current db @ map (entry_row now) ?es\<rparr>)"
    by (rule enqueue_each_fresh)
  then have "enqueueOrganizerJobs agentId settlementId refs chunkSize now db = (Inr (), db\<lparr>jobs_current := jobs_current db @
      map (\<lambda>(i, c). entry_row now (organizer_entry agentId settlementId now i c)) (enumerate 0 ?chunks)\<rparr>)"
    by (simp add: enqueueOrganizerJobs_def Let_def case_prod_unfold comp_def)
  moreover have "concat ?chunks = js_unique refs" by (rule concat_chunks [OF assms(1)])
  moreover have "list_all (\<lambda>c. c \<noteq> [] \<and> length c \<le> chunkSize) ?chunks" using in_chunks by (auto simp: list_all_iff)
  ultimately show ?thesis by blast
qed

section \<open>Examples\<close>

definition thinker_setup :: thinker_env where
  "thinker_setup = \<lparr>te_num = (\<lambda>_. ''0''), te_drv = JArr, te_noSketch = ''(no explicit sketch)'', te_sketchNote = [],
     te_instructions = [], te_hasLoop = (\<lambda>_. True), te_registered = (\<lambda>_. True), te_errorText = (\<lambda>_. ''error''),
     te_settlementLedger = True, te_durableJobStore = True, te_jobPersistence = True, te_indexUpdater = False\<rparr>"

definition quiet_world :: thinker_world where
  "quiet_world = \<lparr>tw_memory = empty_memory, tw_jobs = empty_db, tw_ledger = [],
     tw_log = \<lparr>rows = [], slots = [], inTransaction = False\<rparr>, tw_indexed = []\<rparr>"

definition turn_payload :: "int \<Rightarrow> string \<Rightarrow> thinker_payload" where
  "turn_payload v i = \<lparr>tp_sessionId = ''s'', tp_agentId = ''mei'', tp_settlementId = i, tp_talkerTurnVersion = v\<rparr>"

definition door_outcome :: json where
  "door_outcome = JObj [(''schemaVersion'', JStr ''rp_turn_outcome_v5''), (''publicReply'', JStr []),
     (''privateCognition'', JObj [(''ops'', JArr [JObj [(''op'', JStr ''upsert''),
        (''record'', JObj [(''kind'', JStr ''evaluation''), (''key'', JStr ''trust''), (''target'', JObj [(''value'', JStr ''guest'')]),
           (''dimensions'', JArr [])])]])]),
     (''privateEpisodes'', JArr [JObj [(''localRef'', JStr ''door''), (''category'', JStr ''action''), (''summary'', JStr ''shut'')]]),
     (''relationIntents'', JArr [JObj [(''sourceRef'', JStr ''episode:door''), (''targetRef'', JStr ''trust''), (''intent'', JStr ''supports'')]])]"

definition door_turn :: settled_turn where
  "door_turn = (case turn_of thinker_setup (turn_payload 2 ''stl:2'') (single_turn (turn_payload 2 ''stl:2'')) (JObj []) 4 door_outcome of
     Inr t \<Rightarrow> t | Inl _ \<Rightarrow> undefined)"

lemma door_turn: "turn_of thinker_setup (turn_payload 2 ''stl:2'') (single_turn (turn_payload 2 ''stl:2'')) (JObj []) 4 door_outcome = Inr door_turn"
  by code_simp

lemma quiet_hyps: "0 < et_next (sdb_episodes (tw_memory quiet_world))" "relations_ok (sdb_relations (tw_memory quiet_world))"
    "ids_below 1 (cg_current (sdb_cog (tw_memory quiet_world)))"
    "1 + int (length (sp_cognitionOps (st_params door_turn))) \<le> 2 ^ 63"
  by code_simp+

lemma door_turn_accepted: "commit_accepted (st_params door_turn) 4 (tw_memory quiet_world)"
  by code_simp

theorem thinker_settles_or_keeps_witness:
  "map ep_sourceLocalRef (table_params (sdb_episodes (tw_memory (snd (thinker_end thinker_setup (turn_payload 2 ''stl:2'')
     (single_turn (turn_payload 2 ''stl:2'')) (JObj []) (Buffered_outcome door_outcome) 4 5 quiet_world))))) = [Some ''door'']"
proof -
  let ?run = "thinker_end thinker_setup (turn_payload 2 ''stl:2'') (single_turn (turn_payload 2 ''stl:2'')) (JObj [])
    (Buffered_outcome door_outcome) 4 5 quiet_world"
  have turn: "turn_result thinker_setup (turn_payload 2 ''stl:2'') (single_turn (turn_payload 2 ''stl:2'')) (JObj []) 4
      (Buffered_outcome door_outcome) = Inr door_turn"
    by (simp add: turn_result_def door_turn)
  have "case turn_result thinker_setup (turn_payload 2 ''stl:2'') (single_turn (turn_payload 2 ''stl:2'')) (JObj []) 4
      (Buffered_outcome door_outcome) of Inl _ \<Rightarrow> True | Inr turn \<Rightarrow> 1 + int (length (sp_cognitionOps (st_params turn))) \<le> 2 ^ 63"
    unfolding turn sum.case by (rule quiet_hyps(4))
  from thinker_settles_or_keeps [OF quiet_hyps(1-3) this, of 5] door_turn_accepted
  have "turn_settled door_turn 4 5 (tw_memory quiet_world) (tw_memory (snd ?run))"
    unfolding turn by (cases ?run) (auto split: sum.splits)
  then have "table_params (sdb_episodes (tw_memory (snd ?run))) =
      map er_params (et_rows (sdb_episodes (tw_memory quiet_world)) @ episode_rows 5 (et_next (sdb_episodes (tw_memory quiet_world)))
        (map (episode_of (st_params door_turn) 4) (sp_privateEpisodes (st_params door_turn))))"
    unfolding turn_settled_def by (simp only:)
  moreover have "map ep_sourceLocalRef (map er_params (et_rows (sdb_episodes (tw_memory quiet_world)) @ episode_rows 5
      (et_next (sdb_episodes (tw_memory quiet_world)))
      (map (episode_of (st_params door_turn) 4) (sp_privateEpisodes (st_params door_turn))))) = [Some ''door'']"
    by code_simp
  ultimately show ?thesis by (simp only:)
qed

theorem failed_turn_is_skipped_witness:
  "fst (thinker_begin thinker_setup (turn_payload 1 ''stl:1'') 6 (snd (thinker_end thinker_setup (turn_payload 2 ''stl:2'')
     (single_turn (turn_payload 2 ''stl:2'')) (JObj []) (Buffered_outcome door_outcome) 4 5 quiet_world))) = Skipped"
proof -
  have q: "\<not> bp_batchMode (single_turn (turn_payload 2 ''stl:2''))"
    "tp_sessionId (turn_payload 1 ''stl:1'') = tp_sessionId (turn_payload 2 ''stl:2'')"
    "tp_agentId (turn_payload 1 ''stl:1'') = tp_agentId (turn_payload 2 ''stl:2'')"
    "tp_talkerTurnVersion (turn_payload 1 ''stl:1'') = 1" "thinker_version_of (turn_payload 2 ''stl:2'') (tw_memory quiet_world) = None"
    by code_simp+
  from failed_turn_is_skipped [OF door_turn quiet_hyps q(1) door_turn_accepted q(2,3), of 5 6] q(4,5) show ?thesis by auto
qed

theorem accepted_evaluation_fails_witness:
  "\<exists>e. thinker_end thinker_setup (turn_payload 2 ''stl:2'') (single_turn (turn_payload 2 ''stl:2'')) (JObj [])
     (Buffered_outcome (JObj [(''schemaVersion'', JStr ''rp_turn_outcome_v5''), (''publicReply'', JStr ''hm''),
       (''privateCognition'', JObj [(''ops'', JArr [JObj [(''op'', JStr ''upsert''),
          (''record'', JObj [(''kind'', JStr ''evaluation''), (''key'', JStr ''trust'')])]])])])) 4 5 quiet_world =
     (Inl e, run_failed thinker_setup (turn_payload 2 ''stl:2'') (single_turn (turn_payload 2 ''stl:2'')) e 5 quiet_world)"
proof -
  let ?op = "JObj [(''op'', JStr ''upsert''), (''record'', JObj [(''kind'', JStr ''evaluation''), (''key'', JStr ''trust'')])]"
  let ?o = "JObj [(''schemaVersion'', JStr ''rp_turn_outcome_v5''), (''publicReply'', JStr ''hm''), (''privateCognition'', JObj [(''ops'', JArr [?op])])]"
  let ?v = "canonical_outcome ?o ''hm'' (Some (canonical_commit JNull [?op])) [] [] None [] []"
  have "normalizeRpTurnOutcome (Some (sanitizeThinkerOutcome ?o)) = Inr ?v" "?op \<in> set (outcome_ops ?v)" "is_upsert ?op"
    "prop_of (op_record ?op) ''kind'' = Some (JStr ''evaluation'')"
    "prop_of (op_record ?op) ''target'' = None \<or> prop_of (op_record ?op) ''dimensions'' = None"
    by code_simp+
  then show ?thesis by (rule accepted_evaluation_fails)
qed

end
