(* ===== verification/Job_Persistence.thy ===== *)
theory Job_Persistence
  imports Thinker Job_Dispatcher Pg_Rebuild
begin

text \<open>
  The clients of the durable store in \<^verbatim>\<open>jobs/\<close>: the persistence that the in-memory queue writes
  through (\<^verbatim>\<open>job-persistence-factory.ts\<close>; its \<open>enqueue\<close> is \<open>persist_enqueue\<close> of theory \<open>Thinker\<close>),
  the runner of durable jobs (\<^verbatim>\<open>pg-runner.ts\<close>), one tick of the sweeper of expired leases
  (\<^verbatim>\<open>lease-reclaim-sweeper.ts\<close>) and the inputs of rebuild and organizer jobs
  (\<^verbatim>\<open>pg-job-builders.ts\<close>). An operation that reads and then writes is two definitions, since other
  workers may act between; a run of a job is two steps around its worker.
\<close>

section \<open>The persistence of the queue\<close>

text \<open>The cap and the locks of other claims are those of \<open>claimNext\<close>.\<close>

definition persist_claim :: "nat option \<Rightarrow> string list \<Rightarrow> string list \<Rightarrow> string \<Rightarrow> string \<Rightarrow> int \<Rightarrow> int \<Rightarrow> pg_db \<Rightarrow>
    (store_error, bool) result \<times> pg_db" where
  "persist_claim override skip lock_free jobId claimedBy leaseDurationMs now db =
     (case claimNext override skip lock_free
         \<lparr>c_worker_id = claimedBy, c_now_ms = now, c_lease_duration_ms = leaseDurationMs\<rparr> db of
        (Inl e, db') \<Rightarrow> (Inl e, db')
      | (Inr (Claimed job), db') \<Rightarrow> (Inr (r_job_key job = jobId), db')
      | (Inr None_ready, db') \<Rightarrow> (Inr False, db'))"

definition inspected_version :: "string \<Rightarrow> pg_db \<Rightarrow> int" where
  "inspected_version jobId db = (case inspect jobId db of None \<Rightarrow> 0 | Some r \<Rightarrow> r_claim_version r)"

text \<open>\<open>complete\<close> and \<open>fail\<close> with the version that was inspected before.\<close>

definition persist_complete :: "string \<Rightarrow> int \<Rightarrow> string \<Rightarrow> int \<Rightarrow> pg_db \<Rightarrow> (store_error, unit) result \<times> pg_db" where
  "persist_complete uuid now jobId version db =
     (case complete uuid now jobId version db of (Inl e, db') \<Rightarrow> (Inl e, db') | (Inr _, db') \<Rightarrow> (Inr (), db'))"

definition persist_fail :: "int \<Rightarrow> string \<Rightarrow> int \<Rightarrow> string \<Rightarrow> bool \<Rightarrow> pg_db \<Rightarrow> pg_db" where
  "persist_fail now jobId version errorMessage retryable db =
     snd (Pg_Store.fail jobId version
       \<lparr>f_now_ms = now, f_error_code = None, f_error_message = errorMessage,
        f_retry_delay_ms = (if retryable then Some 0 else None)\<rparr> db)"

definition persist_retry :: "string \<Rightarrow> pg_db \<Rightarrow> bool" where
  "persist_retry jobId db = (case inspect jobId db of None \<Rightarrow> False | Some r \<Rightarrow> r_status r = Pg_pending)"

text \<open>The value the driver returns for the column of the payload is an argument.\<close>

definition toEntry :: "(jsonb \<Rightarrow> json) \<Rightarrow> job_row \<Rightarrow> persistent_status \<Rightarrow> job_entry" where
  "toEntry payload r s =
     \<lparr>e_id = r_job_key r, e_jobType = kind_str (r_job_type r), e_payload = payload (r_payload_json r), e_status = s,
      e_attemptCount = r_attempt_count r, e_maxAttempts = r_max_attempts r, e_errorMessage = r_last_error_message r,
      e_nextAttemptAt = Some (r_next_attempt_at r), e_claimedAt = r_claimed_at r,
      e_createdAt = r_created_at r, e_updatedAt = r_updated_at r\<rparr>"

definition normalizeLimit :: "js_num \<Rightarrow> nat" where
  "normalizeLimit limit = (case limit of Fin q \<Rightarrow> if q > 0 then nat \<lfloor>q\<rfloor> else 100 | _ \<Rightarrow> 100)"

definition persist_listPending :: "(jsonb \<Rightarrow> json) \<Rightarrow> js_num \<Rightarrow> pg_db \<Rightarrow> job_entry list" where
  "persist_listPending payload limit db =
     map (\<lambda>r. toEntry payload r P_pending)
       (take (normalizeLimit limit) (filter (\<lambda>r. r_status r = Pg_pending) (listActive db)))"

definition persist_listRetryable :: "(jsonb \<Rightarrow> json) \<Rightarrow> int \<Rightarrow> js_num \<Rightarrow> pg_db \<Rightarrow> job_entry list" where
  "persist_listRetryable payload beforeTime limit db =
     map (\<lambda>r. toEntry payload r P_retryable)
       (take (normalizeLimit limit)
         (filter (\<lambda>r. r_status r = Pg_pending \<and> r_attempt_count r > 0 \<and> r_next_attempt_at r \<le> beforeTime) (listActive db)))"

definition persist_countByStatus :: "persistent_status \<Rightarrow> pg_db \<Rightarrow> nat" where
  "persist_countByStatus s db =
     (case s of
        P_retryable \<Rightarrow> length (filter (\<lambda>r. r_status r = Pg_pending \<and> r_attempt_count r > 0) (listActive db))
      | P_pending \<Rightarrow> countByStatus db Pg_pending
      | P_processing \<Rightarrow> countByStatus db Pg_running
      | P_reconciled \<Rightarrow> countByStatus db Pg_succeeded
      | P_exhausted \<Rightarrow> countByStatus db Pg_failed_terminal + countByStatus db Pg_cancelled)"

section \<open>The runner\<close>

record pg_runner =
  pr_workers :: "job_kind list"
  pr_workerId :: string
  pr_leaseDurationMs :: int

definition runner_registerWorker :: "job_kind \<Rightarrow> pg_runner \<Rightarrow> pg_runner" where
  "runner_registerWorker k rn = rn\<lparr>pr_workers := (if k \<in> set (pr_workers rn) then pr_workers rn else pr_workers rn @ [k])\<rparr>"

text \<open>Before the worker: nothing to do, a job without a worker (failed at once), or a job to run.\<close>

datatype run_begun = Nothing_ready | No_worker | Run_worker job_row

definition run_failed_with :: "int \<Rightarrow> job_row \<Rightarrow> string \<Rightarrow> pg_db \<Rightarrow> pg_db" where
  "run_failed_with now job message db =
     snd (Pg_Store.fail (r_job_key job) (r_claim_version job)
       \<lparr>f_now_ms = now, f_error_code = None, f_error_message = message, f_retry_delay_ms = None\<rparr> db)"

definition processNext_begin :: "nat option \<Rightarrow> string list \<Rightarrow> string list \<Rightarrow> pg_runner \<Rightarrow> int \<Rightarrow> int \<Rightarrow> pg_db \<Rightarrow>
    (store_error, run_begun) result \<times> pg_db" where
  "processNext_begin override skip lock_free rn now later db =
     (case claimNext override skip lock_free
         \<lparr>c_worker_id = pr_workerId rn, c_now_ms = now, c_lease_duration_ms = pr_leaseDurationMs rn\<rparr> db of
        (Inl e, db') \<Rightarrow> (Inl e, db')
      | (Inr None_ready, db') \<Rightarrow> (Inr Nothing_ready, db')
      | (Inr (Claimed job), db') \<Rightarrow>
          if r_job_type job \<notin> set (pr_workers rn)
          then (Inr No_worker,
            run_failed_with later job (''No worker registered for job type: '' @ kind_str (r_job_type job)) db')
          else (Inr (Run_worker job), db'))"

text \<open>
  After the worker, which failed with a message or returned. An error of \<open>complete\<close> is caught
  like one of the worker; its message is an argument.
\<close>

definition processNext_end :: "(store_error \<Rightarrow> string) \<Rightarrow> string \<Rightarrow> int \<Rightarrow> int \<Rightarrow> job_row \<Rightarrow> (string, unit) result \<Rightarrow> pg_db \<Rightarrow> pg_db" where
  "processNext_end text uuid now later job outcome db =
     (case outcome of
        Inl message \<Rightarrow> run_failed_with later job message db
      | Inr _ \<Rightarrow>
          (case complete uuid now (r_job_key job) (r_claim_version job) db of
             (Inl e, db') \<Rightarrow> run_failed_with later job (text e) db'
           | (Inr _, db') \<Rightarrow> db'))"

definition sweeper_tick :: "int \<Rightarrow> pg_db \<Rightarrow> pg_db" where
  "sweeper_tick now db = snd (reclaimExpiredLeases now db)"

section \<open>Inputs of jobs\<close>

definition DURABLE_ALL_AGENTS_SENTINEL :: string where
  "DURABLE_ALL_AGENTS_SENTINEL = ''_all_agents''"

definition filled_text :: "json option \<Rightarrow> bool" where
  "filled_text v = (case string_of v of None \<Rightarrow> False | Some s \<Rightarrow> s \<noteq> [])"

definition isDurableSearchRebuildPayload :: "json \<Rightarrow> bool" where
  "isDurableSearchRebuildPayload v \<longleftrightarrow>
     Turn_Contract.is_object v \<and> prop_of v ''version'' = Some (JNum (Fin 1)) \<and>
     (case string_of (prop_of v ''scope'') of
        None \<Rightarrow> False
      | Some s \<Rightarrow>
          s \<in> {''private'', ''area'', ''world'', ''cognition''} \<and>
          filled_text (prop_of v ''triggerSource'') \<and> filled_text (prop_of v ''triggerReason'') \<and>
          (prop_of v ''requestedBy'' = None \<or> filled_text (prop_of v ''requestedBy'')) \<and>
          (case prop_of v ''requestedAt'' of None \<Rightarrow> True | Some (JNum _) \<Rightarrow> True | _ \<Rightarrow> False) \<and>
          prop_of v ''targetAgentId'' \<noteq> Some (JStr DURABLE_ALL_AGENTS_SENTINEL) \<and>
          (if s \<in> {''private'', ''cognition''} then filled_text (prop_of v ''targetAgentId'')
           else prop_of v ''targetAgentId'' \<in> {None, Some JNull}))"

record rebuild_params =
  rp_scope :: string
  rp_targetAgentId :: "string option"
  rp_triggerSource :: string
  rp_triggerReason :: string
  rp_requestedBy :: "string option"

definition rebuild_family_key :: "rebuild_params \<Rightarrow> string" where
  "rebuild_family_key p =
     ''search.rebuild:'' @
       (if rp_scope p \<in> {''private'', ''cognition''}
        then rp_scope p @ '':'' @ (case rp_targetAgentId p of None \<Rightarrow> ''undefined'' | Some a \<Rightarrow> a)
        else rp_scope p)"

definition rebuild_json :: "int \<Rightarrow> rebuild_params \<Rightarrow> json" where
  "rebuild_json now p =
     JObj ([(''version'', JNum (Fin 1)), (''scope'', JStr (rp_scope p))] @
       (if rp_scope p \<in> {''private'', ''cognition''}
        then (case rp_targetAgentId p of None \<Rightarrow> [] | Some a \<Rightarrow> [(''targetAgentId'', JStr a)])
        else [(''targetAgentId'', JNull)]) @
       [(''triggerSource'', JStr (rp_triggerSource p)), (''triggerReason'', JStr (rp_triggerReason p))] @
       (case rp_requestedBy p of None \<Rightarrow> [] | Some b \<Rightarrow> [(''requestedBy'', JStr b)]) @
       [(''requestedAt'', JNum (Fin (of_int now)))])"

definition buildSearchRebuildEnqueueInput :: "string \<Rightarrow> int \<Rightarrow> rebuild_params \<Rightarrow> (thrown, enqueue_input) result" where
  "buildSearchRebuildEnqueueInput uuid now p =
     (if rp_scope p = ''all'' then Inl Plain_error
      else if rp_targetAgentId p = Some DURABLE_ALL_AGENTS_SENTINEL then Inl Plain_error
      else if \<not> isDurableSearchRebuildPayload (rebuild_json now p) then Inl Plain_error
      else Inr
        \<lparr>q_job_key = rebuild_family_key p @ '':req:'' @ uuid, q_job_type = Search_rebuild,
         q_job_family_key = Some (rebuild_family_key p), q_execution_class = Background_search_rebuild,
         q_concurrency_key = ''search.rebuild:global'', q_payload_schema_version = 1,
         q_payload_json = rebuild_of (rebuild_json now p), q_max_attempts = JOB_MAX_ATTEMPTS Search_rebuild,
         q_now_ms = now, q_next_attempt_at = None\<rparr>)"

record organize_params =
  og_settlementId :: string
  og_agentId :: string
  og_sourceSessionId :: "string option"
  og_chunkOrdinal :: string
  og_chunkNodeRefs :: "node_ref list"
  og_embeddingModelId :: string

definition buildOrganizeEnqueueInput :: "int \<Rightarrow> organize_params \<Rightarrow> enqueue_input" where
  "buildOrganizeEnqueueInput now p =
     \<lparr>q_job_key = ''memory.organize:settlement:'' @ og_settlementId p @ '':chunk:'' @ og_chunkOrdinal p,
      q_job_type = Memory_organize, q_job_family_key = None, q_execution_class = Background_memory_organize,
      q_concurrency_key = ''memory.organize:global'', q_payload_schema_version = 1,
      q_payload_json = rebuild_of (JObj ([(''settlementId'', JStr (og_settlementId p)), (''agentId'', JStr (og_agentId p)),
        (''chunkOrdinal'', JStr (og_chunkOrdinal p)), (''chunkNodeRefs'', JArr (map JStr (og_chunkNodeRefs p))),
        (''embeddingModelId'', JStr (og_embeddingModelId p))] @
        (case og_sourceSessionId p of None \<Rightarrow> [] | Some s \<Rightarrow> [(''sourceSessionId'', JStr s)]))),
      q_max_attempts = JOB_MAX_ATTEMPTS Memory_organize, q_now_ms = now, q_next_attempt_at = None\<rparr>"

section \<open>What a client's call does to its row\<close>

lemma find_update_where:
  "(\<And>r. r_job_key (g r) = r_job_key r) \<Longrightarrow>
   find (\<lambda>r. r_job_key r = k) (update_where p g rs) = map_option (\<lambda>r. if p r then g r else r) (find (\<lambda>r. r_job_key r = k) rs)"
  by (induction rs) (auto simp: table_simps)

lemma row_after_lease_update:
  assumes "\<And>r. r_job_key (f r) = r_job_key r"
  shows "row_by_key k (lease_update i v f h db) = map_option (\<lambda>r. if fence i v r then f r else r) (row_by_key k db)"
  by (simp add: row_by_key_def find_update_where assms)

lemma fenced_iff:
  assumes "lease_inv db" "row_by_key k db = Some r"
  shows "fenced_row k v db = (if r_claim_version r = v \<and> r_status r = Pg_running then Some r else None)"
proof -
  note r = row_by_key_Some [OF assms(2)]
  have only: "s = r" if "s \<in> set (jobs_current db)" "fence k v s" for s
    using that r by (intro distinct_key_unique [OF lease_invD(1) [OF assms(1)]]) (auto simp: fence_def)
  show ?thesis
  proof (cases "fenced_row k v db")
    case None
    with r show ?thesis by (auto simp: fenced_row_None fence_def)
  next
    case (Some s)
    from only fenced_row_Some [OF this] have "s = r" "fence k v r" by blast+
    with Some show ?thesis by (simp add: fence_def)
  qed
qed

lemma fail_row_after:
  assumes "lease_inv db" "row_by_key k db = Some r" "r_claim_version r = v" "r_status r = Pg_running"
  shows "row_by_key k (snd (Pg_Store.fail k v err db)) = Some (fail_row err r r)"
proof -
  have "fenced_row k v db = Some r" using assms(3,4) by (simp add: fenced_iff [OF assms(1,2)])
  moreover have "r_job_key (fail_row err r s) = r_job_key s" for s by (simp add: fail_row_def release_def)
  ultimately show ?thesis
    using assms row_by_key_Some [OF assms(2)] by (simp add: fail_hit row_after_lease_update fence_def)
qed

lemma fail_row_status:
  "r_status (fail_row err r r) = (if r_attempt_count r < r_max_attempts r then Pg_pending else Pg_failed_terminal)"
  "r_attempt_count r < r_max_attempts r \<Longrightarrow> r_next_attempt_at (fail_row err r r) = retry_time err"
  by (simp_all add: fail_row_def release_def)

lemma superseded_same:
  assumes "lease_inv db" "row_by_key k db = Some r" "\<not> (r_claim_version r = v \<and> r_status r = Pg_running)"
  shows "Pg_Store.fail k v err db = (Missed (classifyFenceMiss k v db), db)"
    and "complete uuid now k v db = (Inr (Missed (classifyFenceMiss k v db)), db)"
proof -
  have "fenced_row k v db = None" using assms(3) by (simp add: fenced_iff [OF assms(1,2)])
  then show "Pg_Store.fail k v err db = (Missed (classifyFenceMiss k v db), db)"
    "complete uuid now k v db = (Inr (Missed (classifyFenceMiss k v db)), db)"
    using assms(1) by (simp_all add: fenced_misses fence_missed_same)
qed

text \<open>Completing a running row, with an unused key for the successor.\<close>

definition successor_key_free :: "string \<Rightarrow> job_row \<Rightarrow> pg_db \<Rightarrow> bool" where
  "successor_key_free uuid r db =
     (case r_job_family_key r of None \<Rightarrow> True | Some f \<Rightarrow> \<not> job_key_taken (buildSearchRebuildSuccessorJobKey uuid f) db)"

lemma complete_row_after:
  assumes inv: "lease_inv db" and r: "row_by_key k db = Some r" "r_claim_version r = v" "r_status r = Pg_running"
    and free: "successor_key_free uuid r db"
  shows "\<exists>db'. complete uuid now k v db = (Inr (Done now), db') \<and> row_by_key k db' = Some (finish_row Pg_succeeded now r)"
proof -
  have fenced: "fenced_row k v db = Some r" using r(2,3) by (simp add: fenced_iff [OF inv r(1)])
  have key: "r_job_key (finish_row s t x) = r_job_key x" for s t x by (simp add: finish_row_def release_def)
  have row: "row_by_key k (completed now k v db) = Some (finish_row Pg_succeeded now r)"
    using r row_by_key_Some [OF r(1)] by (simp add: row_after_lease_update key fence_def)
  show ?thesis
  proof (cases "rerun_family r")
    case None
    with complete_hit [OF fenced, of uuid now] row show ?thesis by simp
  next
    case (Some f)
    then have f: "r_job_family_key r = Some f" by (auto simp: rerun_family_def split: option.splits if_splits)
    have "\<not> family_taken (Some f) (completed now k v db)"
      by (rule family_free_after [OF lease_invD(2,1) [OF inv] _ _ f])
        (use fenced_row_Some [OF fenced] in simp_all)
    moreover have "\<not> job_key_taken (buildSearchRebuildSuccessorJobKey uuid f) (completed now k v db)"
      using free f by (simp add: successor_key_free_def taken_after_update key)
    ultimately have "complete uuid now k v db = (Inr (Done now), insert_row (successor_row uuid f now r) (completed now k v db))"
      using complete_hit [OF fenced, of uuid now] Some f by (simp add: Let_def)
    moreover have "row_by_key k (insert_row s (completed now k v db)) = row_by_key k (completed now k v db)" for s
      using row by (simp add: row_by_key_def find_in_append)
    ultimately show ?thesis using row by simp
  qed
qed

section \<open>Clients take only steps of the store\<close>

text \<open>So everything proved of reachable stores holds while these clients are among the workers.\<close>

lemma clients_reach:
  assumes "store_reach override cleaning (db, os)"
  shows "store_reach override cleaning (snd (persist_complete uuid now jobId v db), os)"
    and "store_reach override cleaning (persist_fail now jobId v m re db, os)"
    and "store_reach override cleaning (processNext_end msg uuid now later job outcome db, os)"
    and "store_reach override cleaning (sweeper_tick now db, os)"
proof -
  note fails = store_next [OF _ s_fail] and completes = store_next [OF _ s_complete]
  show "store_reach override cleaning (snd (persist_complete uuid now jobId v db), os)"
    using completes [OF assms, of uuid now jobId v] by (auto simp: persist_complete_def split: prod.split sum.split)
  show "store_reach override cleaning (persist_fail now jobId v m re db, os)"
    unfolding persist_fail_def by (rule fails [OF assms])
  show "store_reach override cleaning (sweeper_tick now db, os)"
    unfolding sweeper_tick_def by (rule store_next [OF assms s_reclaim])
  obtain r db1 where c: "complete uuid now (r_job_key job) (r_claim_version job) db = (r, db1)" by fastforce
  with completes [OF assms, of uuid now "r_job_key job" "r_claim_version job"] have "store_reach override cleaning (db1, os)" by simp
  with fails assms show "store_reach override cleaning (processNext_end msg uuid now later job outcome db, os)"
    by (auto simp: processNext_end_def run_failed_with_def c split: sum.split)
qed

lemma claims_reach:
  assumes "store_reach override cleaning (db, [])"
  shows "store_reach override cleaning (snd (persist_claim override skip lock_free jobId who lease now db), [])"
    and "store_reach override cleaning (snd (processNext_begin override skip lock_free rn now later db), [])"
proof -
  note claims = reach_claimNext [OF assms, of skip lock_free]
  show "store_reach override cleaning (snd (persist_claim override skip lock_free jobId who lease now db), [])"
    using claims [of "\<lparr>c_worker_id = who, c_now_ms = now, c_lease_duration_ms = lease\<rparr>"]
    by (auto simp: persist_claim_def split: prod.split sum.split claim_result.split)
  show "store_reach override cleaning (snd (processNext_begin override skip lock_free rn now later db), [])"
    using claims [of "\<lparr>c_worker_id = pr_workerId rn, c_now_ms = now, c_lease_duration_ms = pr_leaseDurationMs rn\<rparr>"]
      store_next [OF _ s_fail, of override cleaning _ "[]"]
    by (auto simp: processNext_begin_def run_failed_with_def split: prod.split sum.split claim_result.split)
qed

section \<open>Runs of durable jobs\<close>

text \<open>
  The end of a run. Whatever other workers did meanwhile, if the job still runs under
  the claim of the run it ends as its worker did: succeeded, or due again five seconds later, or
  failed for good once its attempts are used up. If the claim was superseded nothing changes.
\<close>

theorem run_end_outcome:
  assumes "store_reach override cleaning (db, os)" "row_by_key (r_job_key job) db = Some r"
    and "successor_key_free uuid r db"
  shows "if r_claim_version r = r_claim_version job \<and> r_status r = Pg_running
    then \<exists>r'. row_by_key (r_job_key job) (processNext_end msg uuid now later job outcome db) = Some r' \<and>
      (case outcome of
         Inr _ \<Rightarrow> r_status r' = Pg_succeeded
       | Inl _ \<Rightarrow> if r_attempt_count r < r_max_attempts r
           then r_status r' = Pg_pending \<and> r_next_attempt_at r' = later + 5000
           else r_status r' = Pg_failed_terminal)
    else processNext_end msg uuid now later job outcome db = db"
proof (cases "r_claim_version r = r_claim_version job \<and> r_status r = Pg_running")
  case True
  note inv = reach_lease_inv [OF assms(1)]
  show ?thesis
  proof (cases outcome)
    case (Inl m)
    with fail_row_after [OF inv assms(2)] True show ?thesis
      by (auto simp: processNext_end_def run_failed_with_def fail_row_status retry_time_def)
  next
    case (Inr u)
    with complete_row_after [OF inv assms(2) _ _ assms(3), of "r_claim_version job" now] True show ?thesis
      by (auto simp: processNext_end_def finish_row_def release_def)
  qed
next
  case False
  from superseded_same [OF reach_lease_inv [OF assms(1)] assms(2) False]
  have "processNext_end msg uuid now later job outcome db = db"
    by (simp add: processNext_end_def run_failed_with_def split: sum.split)
  then show ?thesis by (simp only: if_not_P [OF False])
qed

text \<open>
  The persistence of the queue claims the wrong job. Asked to claim a pending job, it
  claims the first ready one, and if that is another it only answers no: that job now runs under
  a lease without a worker, and ending the asked one, which the queue goes on to run, is ignored.
\<close>

theorem claim_takes_another_job:
  assumes "store_reach override False (db, [])"
    and "claim_candidate override skip lock_free now db = Some c" "r_job_key c \<noteq> jobId"
    and "row_by_key jobId db = Some r" "r_status r = Pg_pending"
  shows "\<exists>db' s. persist_claim override skip lock_free jobId who lease now db = (Inr False, db') \<and>
    row_by_key (r_job_key c) db' = Some s \<and> r_status s = Pg_running \<and> r_claimed_by s = Some who \<and>
    row_by_key jobId db' = Some r \<and>
    persist_complete uuid t jobId (inspected_version jobId db') db' = (Inr (), db') \<and>
    persist_fail t jobId (inspected_version jobId db') m retryable db' = db'"
proof -
  let ?inp = "\<lparr>c_worker_id = who, c_now_ms = now, c_lease_duration_ms = lease\<rparr>"
  note inv = reach_lease_inv [OF assms(1)] and c = claim_candidate_Some [OF assms(2)]
  let ?db = "claim_db ?inp c db"
  have free: "\<not> attempt_taken (r_job_key c) (r_claim_version c + 1) db"
    by (rule history_claim_free [OF inv history_reach [OF assms(1), unfolded fst_conv] c(1)])
  then have claim: "claimNext override skip lock_free ?inp db = (Inr (Claimed (claim_row ?inp c)), ?db)"
    using assms(2) by (simp add: claimNext_eq claim_one_eq)
  have pending: "r_status c = Pg_pending" using c(2) by (simp add: claim_ready_def)
  have "row_by_key (r_job_key c) db = Some c"
    using find_key_Some [OF lease_invD(1) [OF inv] c(1)] by (simp add: row_by_key_def)
  then have s: "row_by_key (r_job_key c) ?db = Some (claim_row ?inp c)"
    using pending by (simp add: row_by_key_def find_update_where)
  have other: "row_by_key jobId ?db = Some r"
    using assms(3-5) row_by_key_Some [OF assms(4)] by (simp add: row_by_key_def find_update_where)
  have inv': "lease_inv ?db" by (rule lease_inv_claim [OF inv c(1) pending free])
  have ended: "persist_complete uuid t jobId v ?db = (Inr (), ?db) \<and> persist_fail t jobId v m retryable ?db = ?db" for v
    using superseded_same [OF inv' other, of v] assms(5) by (simp add: persist_complete_def persist_fail_def)
  have "persist_claim override skip lock_free jobId who lease now db = (Inr False, ?db)"
    using claim assms(3) by (simp add: persist_claim_def)
  moreover have "r_status (claim_row ?inp c) = Pg_running" "r_claimed_by (claim_row ?inp c) = Some who"
    by (simp_all add: claim_row_def)
  ultimately show ?thesis using s other ended by blast
qed

text \<open>
  A final failure is retried. The queue reports a failed or cancelled job as not
  retryable, but as long as attempts are left the durable job becomes due again, five seconds
  later; a retryable failure is due at once.
\<close>

theorem final_failure_is_retried:
  assumes "store_reach override cleaning (db, os)"
    and "row_by_key jobId db = Some r" "r_status r = Pg_running" "r_attempt_count r < r_max_attempts r"
  shows "\<exists>r'. row_by_key jobId (persist_fail now jobId (inspected_version jobId db) m retryable db) = Some r' \<and>
    r_status r' = Pg_pending \<and> r_next_attempt_at r' = now + (if retryable then 0 else 5000)"
proof -
  have "inspected_version jobId db = r_claim_version r" using assms(2) by (simp add: inspected_version_def inspect_def)
  with fail_row_after [OF reach_lease_inv [OF assms(1)] assms(2) _ assms(3)] assms(4) show ?thesis
    by (auto simp: persist_fail_def fail_row_status retry_time_def)
qed

text \<open>Rebuild requests for the same target merge, whatever their scope and agent.\<close>

lemma rebuild_requests_merge:
  assumes "buildSearchRebuildEnqueueInput uuid now p = Inr q"
    and "row_by_key (q_job_key q) db = None" "active_family_row (rebuild_family_key p) db = Some running"
  shows "\<exists>db'. Pg_Store.enqueue q db = (Inr (Coalesced (q_job_key q) (rebuild_family_key p) (r_job_key running)), db')"
proof -
  have "q_job_type q = Search_rebuild" "q_job_family_key q = Some (rebuild_family_key p)"
    using assms(1) by (auto simp: buildSearchRebuildEnqueueInput_def split: if_splits)
  moreover have "rebuild_family_key p \<noteq> []" by (simp add: rebuild_family_key_def)
  ultimately have "rebuild_family q = Some (rebuild_family_key p)" by (simp add: rebuild_family_def)
  with assms(2,3) show ?thesis by (auto simp: enqueue_eq)
qed

section \<open>Examples\<close>

theorem run_end_outcome_witness:
  "map_option r_next_attempt_at (row_by_key ''memory.organize:s1''
     (processNext_end (\<lambda>_. ''error'') ''u'' 400 500 (the (row_by_key ''memory.organize:s1'' claimed_db)) (Inl ''down'') claimed_db)) = Some 5500"
proof -
  let ?r = "the (row_by_key ''memory.organize:s1'' claimed_db)"
  have r: "row_by_key (r_job_key ?r) claimed_db = Some ?r" "successor_key_free ''u'' ?r claimed_db"
    "r_status ?r = Pg_running" "r_attempt_count ?r < r_max_attempts ?r" "r_job_key ?r = ''memory.organize:s1''"
    by code_simp+
  from run_end_outcome [OF claimed_reach r(1,2), where outcome = "Inl ''down''" and later = 500 and now = 400 and msg = "\<lambda>_. ''error''"] r(3,4)
  show ?thesis by (auto simp: r(5))
qed

definition migrate_entry :: "string \<Rightarrow> new_entry" where
  "migrate_entry i = \<lparr>je_id = i, je_jobType = Memory_migrate, je_payload = JObj [], je_maxAttempts = 2, je_nextAttemptAt = None\<rparr>"

definition two_migrations :: pg_db where
  "two_migrations = snd (Pg_Store.enqueue (toEnqueueInput (migrate_entry ''b'') 20)
     (snd (Pg_Store.enqueue (toEnqueueInput (migrate_entry ''a'') 10) empty_db)))"

lemma two_migrations_reach: "store_reach override cleaning (two_migrations, [])"
  unfolding two_migrations_def by (intro reach_enqueue store_start)

theorem claim_takes_another_job_witness:
  "fst (persist_claim None [] [''memory.migrate:global''] ''b'' ''local-dispatcher'' 0 30 two_migrations) = Inr False \<and>
   map_option r_status (row_by_key ''a''
     (snd (persist_claim None [] [''memory.migrate:global''] ''b'' ''local-dispatcher'' 0 30 two_migrations))) = Some Pg_running"
proof -
  let ?c = "the (row_by_key ''a'' two_migrations)" and ?r = "the (row_by_key ''b'' two_migrations)"
  have c: "claim_candidate None [] [''memory.migrate:global''] 30 two_migrations = Some ?c" "r_job_key ?c \<noteq> ''b''"
    "row_by_key ''b'' two_migrations = Some ?r" "r_status ?r = Pg_pending" "r_job_key ?c = ''a''"
    by code_simp+
  from claim_takes_another_job [OF two_migrations_reach c(1-4), where who = "''local-dispatcher''" and lease = 0 and uuid = "[]" and t = 40 and m = "[]" and retryable = False]
  show ?thesis by (auto simp: c(5))
qed

theorem final_failure_is_retried_witness:
  "map_option r_status (row_by_key ''memory.organize:s1''
     (persist_fail 500 ''memory.organize:s1'' (inspected_version ''memory.organize:s1'' claimed_db) ''gone'' False claimed_db)) = Some Pg_pending"
proof -
  let ?r = "the (row_by_key ''memory.organize:s1'' claimed_db)"
  have r: "row_by_key ''memory.organize:s1'' claimed_db = Some ?r" "r_status ?r = Pg_running" "r_attempt_count ?r < r_max_attempts ?r"
    by code_simp+
  from final_failure_is_retried [OF claimed_reach r, of 500 "''gone''" False] show ?thesis by auto
qed

end
