(* ===== verification/Spec2Isabelle.thy ===== *)
theory Spec2Isabelle
  imports Job_Dispatcher Pg_Rebuild Blackboard Log_Refinement Recovery Sessions Settlement_Ledger
    Cognition_Slots Cognition_Repo Shared_Blocks Core_Memory World_State
    Agent_Runs Delegation Query_Routing Thinker_Runs Job_Persistence
begin

text \<open>
  A verification development for MaidsClaw, a server that runs role-playing agents with a
  long-term memory. All paths below are relative to \<^verbatim>\<open>src/src/\<close>.

  \<^bold>\<open>The program and how its parts interact\<close>

  A client opens a session and sends messages. A turn asks a language model for a reply; the
  model hands in its outcome through a tool, and the outcome contract turns that value into
  a canonical record or refuses it. Everything that happens in a session is appended to the
  interaction log. When enough unprocessed dialogue has gathered, the flush selector names a
  range of the log, and the range is migrated into memory; the ledgers of settlements and of
  pending flushes remember what was done, so that a sweeper can repeat what failed. Memory
  itself is a set of tables per agent: private cognition (assertions, evaluations and
  commitments, written as events and projected to current rows), the states of areas and of
  the world with their public narratives, core memory blocks and blocks shared by several
  agents. Background work (thinkers, memory migration, rebuilding of search tables) goes
  through jobs: an in-memory queue with its dispatcher, and a durable store in PostgreSQL
  from which any number of workers claim jobs under a lease. The blackboard holds the
  operational state that the parts of a running system share.

  \<^bold>\<open>Theories, and what they model\<close>

  \<^item> \<^verbatim>\<open>Prelude\<close>: results (\<open>Inl\<close> a thrown error, \<open>Inr\<close> a return), JavaScript maps and sets,
    SQL statements on lists of rows, least elements under an order (\<open>ranked\<close>).
  \<^item> \<^verbatim>\<open>Js_Values\<close>: JSON values and JavaScript numbers, with the tests the code applies to
    values of unknown type (also \<^verbatim>\<open>state/location-helpers.ts\<close>).
  \<^item> \<^verbatim>\<open>Errors\<close>: \<^verbatim>\<open>core/errors.ts\<close> and \<^verbatim>\<open>core/retry.ts\<close>.
  \<^item> \<^verbatim>\<open>Job_Types\<close>, \<^verbatim>\<open>Job_Queue\<close>, \<^verbatim>\<open>Job_Dispatcher\<close>: \<^verbatim>\<open>jobs/types.ts\<close>, \<^verbatim>\<open>jobs/dedup.ts\<close>,
    \<^verbatim>\<open>jobs/queue.ts\<close>, \<^verbatim>\<open>jobs/dispatcher.ts\<close>. The queue is the record of its three containers; a
    dispatcher is the record of its queue, its workers and the events it emitted. A run of
    a job is two steps, before and after the worker.
  \<^item> \<^verbatim>\<open>Pg_Types\<close>, \<^verbatim>\<open>Pg_Store\<close>, \<^verbatim>\<open>Pg_Lease\<close>, \<^verbatim>\<open>Pg_Workers\<close>, \<^verbatim>\<open>Pg_Rebuild\<close>:
    \<^verbatim>\<open>jobs/durable-store.ts\<close>, \<^verbatim>\<open>jobs/pg-schema.ts\<close>, \<^verbatim>\<open>jobs/pg-store.ts\<close>. A database is the two
    tables of jobs and attempts; an operation is a transaction on it. \<^verbatim>\<open>Pg_Workers\<close> has the
    step relation \<open>store_step\<close> of any number of workers with overlapping claims.
  \<^item> \<^verbatim>\<open>Blackboard\<close>: \<^verbatim>\<open>state/blackboard.ts\<close>, \<^verbatim>\<open>state/namespaces.ts\<close>.
  \<^item> \<^verbatim>\<open>Interaction_Log\<close>, \<^verbatim>\<open>Commit_Service\<close>, \<^verbatim>\<open>Flush_Selector\<close>, \<^verbatim>\<open>Log_Refinement\<close>: \<^verbatim>\<open>interaction/\<close>
    and the in-memory store of \<^verbatim>\<open>bootstrap/runtime.ts\<close>. Both stores are modelled; the commit
    service and the flush selector are proved against the interfaces \<open>commit_log\<close> and
    \<open>flush_log\<close>, which both stores implement.
  \<^item> \<^verbatim>\<open>Recovery\<close>, \<^verbatim>\<open>Settlement_Ledger\<close>: the table of pending flushes with its sweeper
    (\<^verbatim>\<open>memory/pending-settlement-sweeper.ts\<close>) and the ledger of settlements
    (\<^verbatim>\<open>storage/domain-repos/pg/settlement-ledger-repo.ts\<close>).
  \<^item> \<^verbatim>\<open>Sessions\<close>: \<^verbatim>\<open>session/service.ts\<close>, \<^verbatim>\<open>contracts/cockpit/cursor.ts\<close> and the table of
    sessions; both branches of the service are modelled.
  \<^item> \<^verbatim>\<open>Belief_Revision\<close>, \<^verbatim>\<open>Cognition_Ledger\<close>, \<^verbatim>\<open>Cognition_Repo\<close>, \<^verbatim>\<open>Cognition_Slots\<close>:
    \<^verbatim>\<open>memory/cognition/\<close> with the event, projection, search and slot repositories.
  \<^item> \<^verbatim>\<open>Shared_Blocks\<close>, \<^verbatim>\<open>Core_Memory\<close>: \<^verbatim>\<open>memory/shared-blocks/\<close>, \<^verbatim>\<open>memory/core-memory.ts\<close> with
    the index updater and the pinned summary proposals.
  \<^item> \<^verbatim>\<open>World_State\<close>: \<^verbatim>\<open>storage/domain-repos/pg/area-world-projection-repo.ts\<close>.
  \<^item> \<^verbatim>\<open>Turn_Contract\<close>: \<^verbatim>\<open>runtime/rp-turn-contract.ts\<close>.
  \<^item> \<^verbatim>\<open>Agents\<close>, \<^verbatim>\<open>Delegation\<close>: \<^verbatim>\<open>agents/\<close> (profiles, presets, registry, permissions, run
    states, delegation), the templates of \<^verbatim>\<open>memory/contracts/\<close> and \<^verbatim>\<open>core/token-budget.ts\<close>.
  \<^item> \<^verbatim>\<open>Tool_Access\<close>: \<^verbatim>\<open>core/tools/\<close>: tool contracts, the executor with local and remote tools,
    and the gate before every call.
  \<^item> \<^verbatim>\<open>Agent_Loop\<close>, \<^verbatim>\<open>Agent_Runs\<close>: \<^verbatim>\<open>core/agent-loop.ts\<close> with the chunks of a model's stream
    and \<^verbatim>\<open>runtime/submit-rp-turn-tool.ts\<close>. A round asks the model (an argument, which may change
    the state of the world), reads its stream and runs the tool calls that pass the gate.
    \<open>Agent_Runs\<close> holds what whole runs guarantee.

  \<^item> \<^verbatim>\<open>Graph_Refs\<close>, \<^verbatim>\<open>Graph_Repo\<close>: \<^verbatim>\<open>memory/contracts/graph-node-ref.ts\<close>, \<^verbatim>\<open>relation-contract.ts\<close>,
    \<^verbatim>\<open>visibility-policy.ts\<close>, \<^verbatim>\<open>redaction-policy.ts\<close>, \<^verbatim>\<open>time-slice-query.ts\<close>, \<^verbatim>\<open>graph-edge-view.ts\<close> and
    the reads of \<^verbatim>\<open>storage/domain-repos/pg/graph-read-query-repo.ts\<close> on the rows of the memory
    graph. \<^verbatim>\<open>Graph_Visibility\<close> relates the conditions in the SQL to the policy.
  \<^item> \<^verbatim>\<open>Navigator\<close>, \<^verbatim>\<open>Navigator_Paths\<close>: \<^verbatim>\<open>memory/navigator.ts\<close>, the search for paths from seed
    nodes: expansion in beams, scores, reranking and redaction. A number of the code is an
    exact rational where its sign or order matters.
  \<^item> \<^verbatim>\<open>Query_Plan\<close>, \<^verbatim>\<open>Query_Routing\<close>: \<^verbatim>\<open>memory/query-plan-builder.ts\<close>, \<^verbatim>\<open>query-router.ts\<close>. The word
    lists, the segmenter and the clock are arguments.
  \<^item> \<^verbatim>\<open>Relation_Intents\<close>: \<^verbatim>\<open>memory/cognition/relation-intent-resolver.ts\<close>,
    \<^verbatim>\<open>contest-conflict-applicator.ts\<close>, \<^verbatim>\<open>relation-builder.ts\<close> and the table of relations
    (\<^verbatim>\<open>relation-write-repo.ts\<close>, \<^verbatim>\<open>relation-read-repo.ts\<close>).
  \<^item> \<^verbatim>\<open>Settlement_Commit\<close>: \<^verbatim>\<open>memory/projection/projection-manager.ts\<close> and
    \<^verbatim>\<open>storage/domain-repos/pg/episode-repo.ts\<close>. A commit is a list of steps on the record of the
    tables it writes, run up to the first that fails; \<open>transaction\<close> undoes what a failed one did.
  \<^item> \<^verbatim>\<open>Thinker\<close>, \<^verbatim>\<open>Thinker_Runs\<close>: \<^verbatim>\<open>runtime/thinker-worker.ts\<close>, the background worker that settles
    what the turns of an agent mean, and \<^verbatim>\<open>memory/organize-enqueue.ts\<close>. A run is the part before
    its agent loop (\<open>thinker_begin\<close>: which turns make a batch, which are split off into jobs of
    their own, the request) and the part after it (\<open>thinker_end\<close>: the outcome, one transaction
    over the tables of memory, the marks of the ledger, the organizer jobs).
  \<^item> \<^verbatim>\<open>Job_Persistence\<close>: the clients of the durable store, \<^verbatim>\<open>jobs/job-persistence-factory.ts\<close>,
    \<^verbatim>\<open>jobs/pg-runner.ts\<close>, \<^verbatim>\<open>jobs/lease-reclaim-sweeper.ts\<close>, \<^verbatim>\<open>jobs/pg-job-builders.ts\<close>.

  \<^bold>\<open>What the theorems show\<close>

  Every component has an invariant kept by its operations over all call sequences, the
  outcome of its operations on success and on every error, and what its clients rely on.

  \<^item> Jobs: one running attempt per job and the caps of concurrency keys under every
    interleaving of workers, superseded workers are powerless, the order in which jobs are
    claimed, merged rebuild requests are neither lost nor doubled; a key used again after its row
    was deleted blocks the claims; how a run of a durable job ends; in memory, queue
    consistency, attempt limits, deduplication and recovery after a restart.
  \<^item> Interaction log: dense indexes, atomic batches, every record flushed exactly once, and
    the refinement between the in-memory store and the SQL store.
  \<^item> Settlements: a settlement is committed entirely or not at all and keeps the projection of
    cognition; committing one with a named episode again fails; relations that were checked
    beforehand are all written if the names of the settlement are distinct, contests record
    exactly the valid factors and leave other relations as they were; recovery
    tries, backs off and gives up as documented; a ledger row that is applied stays applied.
  \<^item> Thinker: the part after the agent loop settles a turn entirely or changes nothing; no pending
    turn is lost by a batch if their settlements are found; where the committed version and
    the turns that were settled part; which accepted outcomes cannot be settled.
  \<^item> Memory: the projection of cognition equals the replay of its events, terminal stances
    are final, states as of a past time are the states the keys then had, patch logs
    rebuild the sections and titles of shared blocks, size limits and permissions of blocks.
  \<^item> Outcomes of turns: what is accepted is well formed, accepting it again changes
    nothing, and which operation wins or is refused.
  \<^item> Agents, for runs that return: a buffered run executes only tools listed as reading or
    private to the runtime, a tool of cardinality once runs once, outcomes are canonical; when a
    run returns and when it does not; delegation.
  \<^item> Memory graph: every path the navigator returns is a walk of edges the viewer may see and
    that were known at the asked time, no more and no deeper than the limits; a visible
    neighbour of a seed is found; the router and the navigator classify a query alike.
  \<^item> Sessions, blackboard, errors: paging lists every session once if the locale orders the ids
    of one millisecond as their codes do, both session branches agree, writers and namespaces of
    the blackboard, retries end.

  \<^bold>\<open>Conventions, bounds and termination\<close>

  Identifiers, times and numbers that the code reads from its environment (\<open>Date.now()\<close>,
  \<open>randomUUID()\<close>) and the comparisons of strings it leaves to the locale or the database are
  arguments. Times and counters are unbounded integers, as their doubles never leave the
  exact range; amounts that can be any number are \<open>js_num\<close>. Two loops are not structural:
  the claim loop of the durable store ends because every round skips or locks one more of
  finitely many candidate rows, and the retry loop because each call uses one of finitely
  many attempts. The walk through a paged listing has one page more than there are rows as
  its bound, which the theorem on paging shows to be enough. The agent loop may run forever:
  \<open>run n\<close> and \<open>runBuffered n\<close> are its first \<open>n\<close> rounds and \<open>None\<close> if it has not returned
  by then; \<open>buffered_run_unbounded\<close> says when it does.

  \<^bold>\<open>Not modelled\<close>

  Language-model calls and the texts of prompts; HTTP routes, the terminal client and file
  formats; the retrieval of narrative and cognition and its budgets; the graph store and the
  publications it materializes; the timers of runner and sweeper; the one-time migration;
  wiring and configuration. These are listed with their files and reasons in the manifest.
\<close>

end
